(* ===== verification/Prelude.thy ===== *)
theory Prelude
  imports Complex_Main "HOL-Library.AList" "HOL-Library.Multiset"
    "HOL-Library.Product_Lexorder" "HOL-Library.List_Lexorder" "HOL-Library.Char_ord"
    "HOL-Library.Option_ord"
begin

text \<open>
  Shared vocabulary of the development.

  \<^item> Python exceptions are values: every operation that can raise returns
    \<open>'a res = py_error + 'a\<close>, with \<open>Inl\<close> for the exception. \<open>Blocked\<close> is not an
    exception: it is the value of a call that suspends its greenlet.
  \<^item> A Python dict is an association list in insertion order. \<open>AList.update\<close> overwrites
    a key in place and appends a new key at the end, which is what \<open>d[k] = v\<close> does;
    \<open>AList.delete\<close> removes a key; \<open>map_of\<close> looks it up.
  \<^item> A \<open>datetime\<close> is the number of microseconds since the epoch and a \<open>timedelta\<close> a
    number of microseconds, the resolution of Python's \<open>datetime\<close> module; comparison,
    addition and subtraction are those of the integers.
\<close>

section \<open>Exceptions as values\<close>

datatype py_error =
    KeyError
  | IndexError
  | LookupError
  | ValueError
  | TypeError
  | AttributeError
  | AssertionError
  | ZeroDivisionError
  | RuntimeError
  | IntegrityError
  | InvalidKey
  | InvalidData
  | CannotSendError
  | PyException
  | JobException
  | TombstoneError
  | OSError
  | FileNotFoundError
  | UnicodeDecodeError
  | SandboxInterfaceException
  | Blocked

type_synonym 'a res = "py_error + 'a"

text \<open>\<open>KeyError\<close> and \<open>IndexError\<close> are subclasses of \<open>LookupError\<close>, so a handler for the
  latter catches all three.\<close>

fun is_LookupError :: "py_error \<Rightarrow> bool" where
  "is_LookupError KeyError = True"
| "is_LookupError IndexError = True"
| "is_LookupError LookupError = True"
| "is_LookupError _ = False"

fun res_bind :: "'a res \<Rightarrow> ('a \<Rightarrow> 'b res) \<Rightarrow> 'b res" where
  "res_bind (Inl e) f = Inl e"
| "res_bind (Inr x) f = f x"

text \<open>Applying a function that may raise to all elements of a list, from left to right.\<close>

fun res_map :: "('a \<Rightarrow> 'b res) \<Rightarrow> 'a list \<Rightarrow> 'b list res" where
  "res_map f [] = Inr []"
| "res_map f (x # xs) = res_bind (f x) (\<lambda>y. res_bind (res_map f xs) (\<lambda>ys. Inr (y # ys)))"

definition py_assert :: "bool \<Rightarrow> unit res" where
  "py_assert b = (if b then Inr () else Inl AssertionError)"

text \<open>Reading a list with a non-negative index.\<close>

definition py_nth :: "'a list \<Rightarrow> nat \<Rightarrow> 'a res" where
  "py_nth xs i = (if i < length xs then Inr (xs ! i) else Inl IndexError)"

section \<open>Stateful code that may raise\<close>

text \<open>An operation on a state \<open>'s\<close> returns the new state and a result: the effects before an
  exception stay. \<open>sbind\<close> is sequencing, \<open>sforeach\<close> a \<open>for\<close> loop, \<open>stry\<close> a \<open>try\<close> with a handler
  for the exceptions that a predicate selects.\<close>

type_synonym ('s, 'a) stm = "'s \<Rightarrow> 's \<times> 'a res"

definition sret :: "'a \<Rightarrow> ('s, 'a) stm" where
  "sret x = (\<lambda>s. (s, Inr x))"

definition sraise :: "py_error \<Rightarrow> ('s, 'a) stm" where
  "sraise e = (\<lambda>s. (s, Inl e))"

definition slift :: "'a res \<Rightarrow> ('s, 'a) stm" where
  "slift r = (\<lambda>s. (s, r))"

definition sget :: "('s \<Rightarrow> 'a) \<Rightarrow> ('s, 'a) stm" where
  "sget f = (\<lambda>s. (s, Inr (f s)))"

definition supd :: "('s \<Rightarrow> 's) \<Rightarrow> ('s, unit) stm" where
  "supd f = (\<lambda>s. (f s, Inr ()))"

definition sbind :: "('s, 'a) stm \<Rightarrow> ('a \<Rightarrow> ('s, 'b) stm) \<Rightarrow> ('s, 'b) stm" where
  "sbind m f = (\<lambda>s. case m s of (s', r) \<Rightarrow> (case r of Inl e \<Rightarrow> (s', Inl e) | Inr x \<Rightarrow> f x s'))"

abbreviation sthen :: "('s, 'a) stm \<Rightarrow> ('s, 'b) stm \<Rightarrow> ('s, 'b) stm" where
  "sthen m n \<equiv> sbind m (\<lambda>_. n)"

definition stry :: "('s, 'a) stm \<Rightarrow> (py_error \<Rightarrow> bool) \<Rightarrow> (py_error \<Rightarrow> ('s, 'a) stm) \<Rightarrow> ('s, 'a) stm" where
  "stry m catches h =
     (\<lambda>s. case m s of (s', Inl e) \<Rightarrow> (if catches e then h e s' else (s', Inl e)) | (s', Inr x) \<Rightarrow> (s', Inr x))"

fun sforeach :: "'x list \<Rightarrow> ('x \<Rightarrow> ('s, unit) stm) \<Rightarrow> ('s, unit) stm" where
  "sforeach [] f = sret ()"
| "sforeach (x # xs) f = sbind (f x) (\<lambda>_. sforeach xs f)"

text \<open>The same loop, with a value threaded through it.\<close>

fun sfold :: "'x list \<Rightarrow> ('x \<Rightarrow> 'a \<Rightarrow> ('s, 'a) stm) \<Rightarrow> 'a \<Rightarrow> ('s, 'a) stm" where
  "sfold [] f a = sret a"
| "sfold (x # xs) f a = sbind (f x a) (\<lambda>a'. sfold xs f a')"

section \<open>Insertion-ordered dictionaries\<close>

type_synonym ('k, 'v) dict = "('k \<times> 'v) list"

definition dict_ok :: "('k, 'v) dict \<Rightarrow> bool" where
  "dict_ok d \<longleftrightarrow> distinct (map fst d)"

definition dict_get :: "('k, 'v) dict \<Rightarrow> 'k \<Rightarrow> 'v res" where
  "dict_get d k = (case map_of d k of None \<Rightarrow> Inl KeyError | Some v \<Rightarrow> Inr v)"

definition dict_has :: "('k, 'v) dict \<Rightarrow> 'k \<Rightarrow> bool" where
  "dict_has d k \<longleftrightarrow> map_of d k \<noteq> None"

definition dict_set :: "('k, 'v) dict \<Rightarrow> 'k \<Rightarrow> 'v \<Rightarrow> ('k, 'v) dict" where
  "dict_set d k v = AList.update k v d"

text \<open>\<open>del d[k]\<close> raises \<open>KeyError\<close> on a missing key.\<close>

definition dict_del :: "('k, 'v) dict \<Rightarrow> 'k \<Rightarrow> ('k, 'v) dict res" where
  "dict_del d k = (if dict_has d k then Inr (AList.delete k d) else Inl KeyError)"

section \<open>Dates\<close>

type_synonym datetime = int
type_synonym timedelta = int

section \<open>Lemma collections and shared lemmas\<close>

named_theorems res_simps "rewriting of results"
named_theorems dict_simps "lookups in updated dictionaries"

lemma res_bind_Inr_iff [res_simps]:
  "res_bind m f = Inr y \<longleftrightarrow> (\<exists>x. m = Inr x \<and> f x = Inr y)"
  by (cases m) auto

lemma res_bind_Inl_iff:
  "res_bind m f = Inl e \<longleftrightarrow> m = Inl e \<or> (\<exists>x. m = Inr x \<and> f x = Inl e)"
  by (cases m) auto

lemma py_assert_Inr [simp]: "py_assert b = Inr u \<longleftrightarrow> b"
  by (simp add: py_assert_def)

lemma py_assert_True [simp]: "py_assert True = Inr ()"
  by (simp add: py_assert_def)

lemma py_assert_False [simp]: "py_assert False = Inl AssertionError"
  by (simp add: py_assert_def)

lemma py_nth_in [simp]: "i < length xs \<Longrightarrow> py_nth xs i = Inr (xs ! i)"
  by (simp add: py_nth_def)

lemma py_nth_out [simp]: "length xs \<le> i \<Longrightarrow> py_nth xs i = Inl IndexError"
  by (simp add: py_nth_def)

lemma py_nth_Inr_iff: "py_nth xs i = Inr x \<longleftrightarrow> i < length xs \<and> xs ! i = x"
  by (auto simp: py_nth_def)

named_theorems stm_simps "running stateful code"

lemma sret_run [stm_simps]: "sret x s = (s, Inr x)"
  and sraise_run [stm_simps]: "sraise e s = (s, Inl e)"
  and slift_run [stm_simps]: "slift r s = (s, r)"
  and sget_run [stm_simps]: "sget g s = (s, Inr (g s))"
  and supd_run [stm_simps]: "supd h s = (h s, Inr ())"
  by (simp_all add: sret_def sraise_def slift_def sget_def supd_def)

lemma sbind_run [stm_simps]:
  "sbind m f s = (case m s of (s', Inl e) \<Rightarrow> (s', Inl e) | (s', Inr x) \<Rightarrow> f x s')"
  by (simp add: sbind_def split: prod.split sum.split)

lemma sfold_append: "sfold (xs @ ys) f a = sbind (sfold xs f a) (sfold ys f)"
  by (induction xs arbitrary: a) (auto simp: fun_eq_iff stm_simps split: prod.split sum.split)

text \<open>Total correctness of a loop: an invariant indexed by the elements already visited.\<close>

lemma sfold_rule:
  assumes "I [] a s"
    and "\<And>pre x post a s. xs = pre @ x # post \<Longrightarrow> I pre a s \<Longrightarrow>
      \<exists>s' a'. f x a s = (s', Inr a') \<and> I (pre @ [x]) a' s'"
  shows "\<exists>s' a'. sfold xs f a s = (s', Inr a') \<and> I xs a' s'"
proof -
  have "\<exists>s' a'. sfold ys f a s = (s', Inr a') \<and> I xs a' s'" if "xs = pre @ ys" "I pre a s" for pre ys a s
    using that
  proof (induction ys arbitrary: pre a s)
    case (Cons y ys)
    obtain s1 a1 where 1: "f y a s = (s1, Inr a1)" "I (pre @ [y]) a1 s1"
      using assms(2)[OF Cons.prems] by blast
    then show ?case
      using Cons.IH[of "pre @ [y]" a1 s1] Cons.prems(1) by (auto simp: stm_simps)
  qed (auto simp: stm_simps)
  from this[of "[]" xs a s] assms(1) show ?thesis by simp
qed

lemma sforeach_rule:
  assumes "I [] s"
    and "\<And>pre x post s. xs = pre @ x # post \<Longrightarrow> I pre s \<Longrightarrow>
      \<exists>s'. f x s = (s', Inr ()) \<and> I (pre @ [x]) s'"
  shows "\<exists>s'. sforeach xs f s = (s', Inr ()) \<and> I xs s'"
proof -
  have "\<exists>s'. sforeach ys f s = (s', Inr ()) \<and> I xs s'" if "xs = pre @ ys" "I pre s" for pre ys s
    using that
  proof (induction ys arbitrary: pre s)
    case (Cons y ys)
    obtain s1 where 1: "f y s = (s1, Inr ())" "I (pre @ [y]) s1"
      using assms(2)[OF Cons.prems] by blast
    then show ?case
      using Cons.IH[of "pre @ [y]" s1] Cons.prems(1) by (auto simp: stm_simps)
  qed (auto simp: stm_simps)
  from this[of "[]" xs s] assms(1) show ?thesis by simp
qed

text \<open>What holds after code, whether it raises or not.\<close>

lemma sbind_fst:
  assumes "P (fst (m s))" "\<And>s' x. m s = (s', Inr x) \<Longrightarrow> P s' \<Longrightarrow> P (fst (f x s'))"
  shows "P (fst (sbind m f s))"
  using assms by (auto simp: sbind_run split: prod.split sum.split)

lemma sforeach_fst:
  assumes "P s" "\<And>x s. x \<in> set xs \<Longrightarrow> P s \<Longrightarrow> P (fst (f x s))"
  shows "P (fst (sforeach xs f s))"
  using assms
proof (induction xs arbitrary: s)
  case (Cons x xs)
  have "P (fst (f x s))" using Cons.prems by simp
  moreover have "P (fst (sforeach xs f s'))" if "P s'" for s'
    using Cons.IH[OF that] Cons.prems(2) by simp
  ultimately show ?case by (auto intro: sbind_fst)
qed (simp add: stm_simps)

lemma sfold_fst:
  assumes "P s" "\<And>x a s. x \<in> set xs \<Longrightarrow> P s \<Longrightarrow> P (fst (f x a s))"
  shows "P (fst (sfold xs f a s))"
  using assms
proof (induction xs arbitrary: s a)
  case (Cons x xs)
  have "P (fst (f x a s))" using Cons.prems by simp
  moreover have "P (fst (sfold xs f a' s'))" if "P s'" for s' a'
    using Cons.IH[OF that] Cons.prems(2) by simp
  ultimately show ?case by (auto intro: sbind_fst)
qed (simp add: stm_simps)

lemma map_of_dict_set [dict_simps]: "map_of (dict_set d k v) = (map_of d)(k \<mapsto> v)"
  by (simp add: dict_set_def update_conv')

lemma map_of_dict_del [dict_simps]: "map_of (AList.delete k d) = (map_of d)(k := None)"
  by (simp add: delete_conv')

lemma dict_ok_Nil [simp]: "dict_ok []"
  by (simp add: dict_ok_def)

lemma dict_ok_set [simp]: "dict_ok d \<Longrightarrow> dict_ok (dict_set d k v)"
  by (simp add: dict_ok_def dict_set_def distinct_update)

lemma dict_ok_delete [simp]: "dict_ok d \<Longrightarrow> dict_ok (AList.delete k d)"
  by (simp add: dict_ok_def distinct_delete)

lemma dict_has_iff: "dict_has d k \<longleftrightarrow> k \<in> dom (map_of d)"
  by (auto simp: dict_has_def)

lemma dict_get_Inr_iff: "dict_get d k = Inr v \<longleftrightarrow> map_of d k = Some v"
  by (auto simp: dict_get_def split: option.splits)

lemma dict_get_Inl_iff: "dict_get d k = Inl e \<longleftrightarrow> map_of d k = None \<and> e = KeyError"
  by (auto simp: dict_get_def split: option.splits)

lemma dict_get_Some [simp]: "map_of d k = Some v \<Longrightarrow> dict_get d k = Inr v"
  by (simp add: dict_get_def)

lemma dict_get_None [simp]: "map_of d k = None \<Longrightarrow> dict_get d k = Inl KeyError"
  by (simp add: dict_get_def)

lemma dict_has_Some [simp]: "map_of d k = Some v \<Longrightarrow> dict_has d k"
  by (simp add: dict_has_def)

lemma dict_has_set [dict_simps]: "dict_has (dict_set d k v) j \<longleftrightarrow> j = k \<or> dict_has d j"
  by (auto simp: dict_has_def dict_simps)

lemma dict_has_delete [dict_simps]: "dict_has (AList.delete k d) j \<longleftrightarrow> j \<noteq> k \<and> dict_has d j"
  by (auto simp: dict_has_def dict_simps)

lemma dict_del_Inr_iff: "dict_del d k = Inr d' \<longleftrightarrow> dict_has d k \<and> d' = AList.delete k d"
  by (auto simp: dict_del_def)

lemma dict_set_absent: "\<not> dict_has d k \<Longrightarrow> dict_set d k v = d @ [(k, v)]"
  by (induction d) (auto simp: dict_set_def dict_has_def split: if_splits)

lemma length_dict_ok: "dict_ok d \<Longrightarrow> length d = card (dom (map_of d))"
  by (metis dict_ok_def distinct_card dom_map_of_conv_image_fst length_map set_map)

lemma list_all2_ball_right:
  "list_all2 P xs ys \<Longrightarrow> (\<And>x y. P x y \<Longrightarrow> Q y) \<Longrightarrow> \<forall>y\<in>set ys. Q y"
  by (induction rule: list_all2_induct) auto

section \<open>Invariants of stateful code\<close>

text \<open>An operation preserves an invariant when the state after it satisfies it, whether the
  operation returns or raises. The rules follow the structure of the code.\<close>

definition preserves :: "('s \<Rightarrow> bool) \<Rightarrow> ('s, 'a) stm \<Rightarrow> bool" where
  "preserves I m \<longleftrightarrow> (\<forall>s. I s \<longrightarrow> I (fst (m s)))"

named_theorems preserves_rules "invariants, construct by construct"

lemma preserves_sret [preserves_rules]: "preserves I (sret x)"
  and preserves_sraise [preserves_rules]: "preserves I (sraise e)"
  and preserves_slift [preserves_rules]: "preserves I (slift r)"
  and preserves_sget [preserves_rules]: "preserves I (sget f)"
  by (simp_all add: preserves_def stm_simps)

lemma preserves_sbind [preserves_rules]:
  "preserves I m \<Longrightarrow> (\<And>x. preserves I (f x)) \<Longrightarrow> preserves I (sbind m f)"
  unfolding preserves_def by (blast intro: sbind_fst)

lemma preserves_stry [preserves_rules]:
  "preserves I m \<Longrightarrow> (\<And>e. preserves I (h e)) \<Longrightarrow> preserves I (stry m c h)"
  unfolding preserves_def stry_def by (auto split: prod.splits sum.splits)

lemma preserves_sforeach [preserves_rules]:
  "(\<And>x. preserves I (f x)) \<Longrightarrow> preserves I (sforeach xs f)"
  unfolding preserves_def by (blast intro: sforeach_fst)

lemma preserves_sfold [preserves_rules]:
  "(\<And>x a. preserves I (f x a)) \<Longrightarrow> preserves I (sfold xs f a)"
  unfolding preserves_def by (blast intro: sfold_fst)

lemma preserves_if [preserves_rules]:
  "(b \<Longrightarrow> preserves I m) \<Longrightarrow> (\<not> b \<Longrightarrow> preserves I n) \<Longrightarrow> preserves I (if b then m else n)"
  by simp

lemma preserves_case_option [preserves_rules]:
  "preserves I m \<Longrightarrow> (\<And>x. preserves I (f x)) \<Longrightarrow> preserves I (case r of None \<Rightarrow> m | Some x \<Rightarrow> f x)"
  by (cases r) auto

lemma preserves_case_sum [preserves_rules]:
  "(\<And>x. preserves I (f x)) \<Longrightarrow> (\<And>x. preserves I (g x)) \<Longrightarrow>
    preserves I (case r of Inl x \<Rightarrow> f x | Inr x \<Rightarrow> g x)"
  by (cases r) auto

lemma preserves_case_prod [preserves_rules]:
  "(\<And>x y. preserves I (f x y)) \<Longrightarrow> preserves I (case p of (x, y) \<Rightarrow> f x y)"
  by (cases p) auto

lemma preserves_Let [preserves_rules]: "preserves I (f x) \<Longrightarrow> preserves I (let y = x in f y)"
  by simp

lemma preservesD: "preserves I m \<Longrightarrow> I s \<Longrightarrow> I (fst (m s))"
  by (simp add: preserves_def)

lemma preserves_case_prod_app [preserves_rules]:
  "(\<And>x y. preserves I (f x y a)) \<Longrightarrow> preserves I ((case p of (x, y) \<Rightarrow> f x y) a)"
  by (cases p) auto

text \<open>Code that keeps an invariant and never raises a given error.\<close>

definition avoids :: "py_error \<Rightarrow> ('s \<Rightarrow> bool) \<Rightarrow> ('s, 'a) stm \<Rightarrow> bool" where
  "avoids E I m \<longleftrightarrow> (\<forall>s. I s \<longrightarrow> I (fst (m s)) \<and> snd (m s) \<noteq> Inl E)"

named_theorems avoids_rules "errors that cannot occur, construct by construct"

lemma avoids_sret [avoids_rules]: "avoids E I (sret x)"
  and avoids_sget [avoids_rules]: "avoids E I (sget f)"
  and avoids_sraise [avoids_rules]: "e \<noteq> E \<Longrightarrow> avoids E I (sraise e)"
  and avoids_slift [avoids_rules]: "r \<noteq> Inl E \<Longrightarrow> avoids E I (slift r)"
  by (simp_all add: avoids_def stm_simps)

lemma avoids_sbind [avoids_rules]:
  "avoids E I m \<Longrightarrow> (\<And>x. avoids E I (f x)) \<Longrightarrow> avoids E I (sbind m f)"
  unfolding avoids_def by (auto simp: sbind_run split: prod.splits sum.splits)

lemma avoids_sforeach [avoids_rules]:
  "(\<And>x. x \<in> set xs \<Longrightarrow> avoids E I (f x)) \<Longrightarrow> avoids E I (sforeach xs f)"
  by (induction xs) (simp_all add: avoids_rules)

lemma avoids_sfold [avoids_rules]:
  "(\<And>x a. x \<in> set xs \<Longrightarrow> avoids E I (f x a)) \<Longrightarrow> avoids E I (sfold xs f a)"
  by (induction xs arbitrary: a) (simp_all add: avoids_rules)

lemma avoids_if [avoids_rules]:
  "(b \<Longrightarrow> avoids E I m) \<Longrightarrow> (\<not> b \<Longrightarrow> avoids E I n) \<Longrightarrow> avoids E I (if b then m else n)"
  by simp

lemma avoids_case_option [avoids_rules]:
  "avoids E I m \<Longrightarrow> (\<And>x. avoids E I (f x)) \<Longrightarrow> avoids E I (case r of None \<Rightarrow> m | Some x \<Rightarrow> f x)"
  by (cases r) auto

lemma avoids_case_prod_app [avoids_rules]:
  "(\<And>x y. avoids E I (f x y a)) \<Longrightarrow> avoids E I ((case p of (x, y) \<Rightarrow> f x y) a)"
  by (cases p) auto

lemma avoids_Let [avoids_rules]: "avoids E I (f x) \<Longrightarrow> avoids E I (let y = x in f y)"
  by simp

lemma avoidsD: "avoids E I m \<Longrightarrow> I s \<Longrightarrow> I (fst (m s)) \<and> snd (m s) \<noteq> Inl E"
  by (simp add: avoids_def)

text \<open>Reading the state first: the rest may use what it read.\<close>

lemma avoids_read:
  "(\<And>s. I s \<Longrightarrow> I (fst (f (g s) s)) \<and> snd (f (g s) s) \<noteq> Inl E) \<Longrightarrow> avoids E I (sbind (sget g) f)"
  by (simp add: avoids_def stm_simps)

lemma length_filter_strict:
  assumes "\<forall>x. P x \<longrightarrow> Q x" "y \<in> set xs" "Q y" "\<not> P y"
  shows "length (filter P xs) < length (filter Q xs)"
proof -
  have le: "length (filter P ys) \<le> length (filter Q ys)" for ys
    using assms(1) by (induction ys) (auto simp: le_SucI)
  obtain as bs where "xs = as @ y # bs" using assms(2) by (auto simp: in_set_conv_decomp)
  then show ?thesis using assms(3,4) le[of as] le[of bs] by simp
qed

lemma res_map_total:
  assumes "\<forall>x\<in>set xs. \<exists>y. f x = Inr y \<and> Q y"
  shows "\<exists>ys. res_map f xs = Inr ys \<and> length ys = length xs \<and> (\<forall>y\<in>set ys. Q y)"
  using assms
proof (induction xs)
  case (Cons x xs)
  then obtain y ys where "f x = Inr y" "Q y" "res_map f xs = Inr ys" "length ys = length xs" "\<forall>y\<in>set ys. Q y" by auto
  then show ?case by (intro exI[of _ "y # ys"]) simp
qed simp

end
