(* ===== verification/Binary_Heap.thy ===== *)
theory Binary_Heap
  imports Prelude
begin

text \<open>
  Binary min-heaps stored in a list, over the keys alone: a heap with a single defect, and
  the two exchanges by which a sift loop moves the defect up or down. The priority queue
  uses these lemmas for the list of its entries' keys.
\<close>

definition parent :: "nat \<Rightarrow> nat" where
  "parent i = (i - 1) div 2"

definition exchange :: "'a list \<Rightarrow> nat \<Rightarrow> nat \<Rightarrow> 'a list" where
  "exchange xs i j = xs[i := xs ! j, j := xs ! i]"

definition heap_ok :: "'k::linorder list \<Rightarrow> bool" where
  "heap_ok ks \<longleftrightarrow> (\<forall>j<length ks. 0 < j \<longrightarrow> ks ! parent j \<le> ks ! j)"

text \<open>Every edge that does not touch \<open>i\<close> is in order, and so are the edges that would
  remain if the node \<open>i\<close> were removed.\<close>

definition heap_defect :: "'k::linorder list \<Rightarrow> nat \<Rightarrow> bool" where
  "heap_defect ks i \<longleftrightarrow>
     i < length ks \<and>
     (\<forall>j<length ks. 0 < j \<longrightarrow> j \<noteq> i \<longrightarrow> parent j \<noteq> i \<longrightarrow> ks ! parent j \<le> ks ! j) \<and>
     (0 < i \<longrightarrow> (\<forall>j<length ks. 0 < j \<longrightarrow> parent j = i \<longrightarrow> ks ! parent i \<le> ks ! j))"

definition kids_ok :: "'k::linorder list \<Rightarrow> nat \<Rightarrow> bool" where
  "kids_ok ks i \<longleftrightarrow> (\<forall>j<length ks. 0 < j \<longrightarrow> parent j = i \<longrightarrow> ks ! i \<le> ks ! j)"

definition par_ok :: "'k::linorder list \<Rightarrow> nat \<Rightarrow> bool" where
  "par_ok ks i \<longleftrightarrow> (0 < i \<longrightarrow> ks ! parent i \<le> ks ! i)"

lemma parent_less [simp]: "0 < i \<Longrightarrow> parent i < i"
  by (simp add: parent_def)

lemma parent_le: "parent i \<le> i"
  by (simp add: parent_def)

lemma parent_kid_iff: "0 < j \<Longrightarrow> parent j = i \<longleftrightarrow> j = 2 * i + 1 \<or> j = 2 * i + 2"
  by (auto simp: parent_def)

lemma length_exchange [simp]: "length (exchange xs i j) = length xs"
  by (simp add: exchange_def)

lemma nth_exchange:
  "i < length xs \<Longrightarrow> j < length xs \<Longrightarrow> k < length xs \<Longrightarrow>
   exchange xs i j ! k = (if k = j then xs ! i else if k = i then xs ! j else xs ! k)"
  by (simp add: exchange_def nth_list_update)

lemma map_exchange: "i < length xs \<Longrightarrow> j < length xs \<Longrightarrow>
    map f (exchange xs i j) = exchange (map f xs) i j"
  by (simp add: exchange_def map_update)

lemma mset_exchange [simp]:
  "i < length xs \<Longrightarrow> j < length xs \<Longrightarrow> mset (exchange xs i j) = mset xs"
  by (simp add: exchange_def mset_swap)

lemma heap_defect_repaired:
  "heap_defect ks i \<Longrightarrow> kids_ok ks i \<Longrightarrow> par_ok ks i \<Longrightarrow> heap_ok ks"
  unfolding heap_defect_def kids_ok_def par_ok_def heap_ok_def by metis

lemma heap_ok_defect:
  assumes "heap_ok ks" "i < length ks"
  shows "heap_defect ks i"
proof -
  have "ks ! parent i \<le> ks ! j" if "0 < i" "j < length ks" "0 < j" "parent j = i" for j
    using that assms by (metis heap_ok_def order_trans)
  with assms show ?thesis
    by (simp add: heap_defect_def heap_ok_def)
qed

lemma heap_ok_update_defect:
  assumes "heap_ok ks" "i < length ks"
  shows "heap_defect (ks[i := v]) i"
proof -
  have d: "heap_defect ks i"
    using assms by (rule heap_ok_defect)
  have far: "ks[i := v] ! k = ks ! k" if "k \<noteq> i" for k
    using that by simp
  have "j \<noteq> i" if "0 < j" "parent j = i" for j
    using that parent_less[of j] by auto
  moreover have "parent i \<noteq> i" if "0 < i"
    using that parent_less by (metis less_irrefl)
  ultimately show ?thesis
    using d unfolding heap_defect_def by (simp add: far)
qed

lemma heap_root_least:
  assumes "heap_ok ks" "j < length ks"
  shows "ks ! 0 \<le> ks ! j"
  using assms(2)
proof (induction j rule: less_induct)
  case (less j)
  show ?case
  proof (cases "j = 0")
    case False
    then have p: "parent j < j" by simp
    with less have "ks ! 0 \<le> ks ! parent j" by simp
    also have "\<dots> \<le> ks ! j"
      using assms(1) less.prems False by (simp add: heap_ok_def)
    finally show ?thesis .
  qed simp
qed

text \<open>Moving the defect towards the root.\<close>

lemma exchange_up:
  assumes d: "heap_defect ks i" and i: "0 < i" and lt: "ks ! i < ks ! parent i"
  shows "heap_defect (exchange ks (parent i) i) (parent i)"
    and "kids_ok (exchange ks (parent i) i) (parent i)"
proof -
  let ?p = "parent i" and ?ks = "exchange ks (parent i) i"
  have il: "i < length ks" and pl: "?p < length ks" and pi: "?p < i"
    using d i parent_le[of i] by (auto simp: heap_defect_def)
  have edge: "ks ! parent j \<le> ks ! j"
    if "j < length ks" "0 < j" "j \<noteq> i" "parent j \<noteq> i" for j
    using d that unfolding heap_defect_def by blast
  have skip: "ks ! ?p \<le> ks ! j" if "j < length ks" "0 < j" "parent j = i" for j
    using d i that unfolding heap_defect_def by blast
  have at: "?ks ! k = (if k = i then ks ! ?p else if k = ?p then ks ! i else ks ! k)"
    if "k < length ks" for k
    using that il pl by (simp add: nth_exchange)
  have par: "parent j < length ks" if "j < length ks" for j
    using that parent_le[of j] by linarith
  have sib: "ks ! ?p \<le> ks ! j" if "j < length ks" "0 < j" "parent j = ?p" "j \<noteq> i" for j
    using that edge[of j] pi by simp
  show "kids_ok ?ks ?p"
    unfolding kids_ok_def
  proof (intro allI impI)
    fix j assume j: "j < length ?ks" "0 < j" "parent j = ?p"
    show "?ks ! ?p \<le> ?ks ! j"
    proof (cases "j = i")
      case True
      then show ?thesis using lt il pl pi by (simp add: at)
    next
      case False
      with j have "ks ! ?p \<le> ks ! j" by (simp add: sib)
      moreover have "j \<noteq> ?p" using j parent_less[of j] by auto
      ultimately show ?thesis using False j lt pl pi by (simp add: at)
    qed
  qed
  show "heap_defect ?ks ?p"
    unfolding heap_defect_def
  proof (intro conjI allI impI)
    show "?p < length ?ks" using pl by simp
  next
    fix j assume j: "j < length ?ks" "0 < j" "j \<noteq> ?p" "parent j \<noteq> ?p"
    have ji: "j \<noteq> i" using j by auto
    show "?ks ! parent j \<le> ?ks ! j"
    proof (cases "parent j = i")
      case True
      then show ?thesis using j ji skip[of j] il pi by (simp add: at)
    next
      case False
      then show ?thesis using j ji edge[of j] par[of j] by (simp add: at)
    qed
  next
    fix j assume p0: "0 < ?p" and j: "j < length ?ks" "0 < j" "parent j = ?p"
    have pp: "parent ?p < ?p" using p0 by simp
    have ep: "ks ! parent ?p \<le> ks ! ?p"
      using edge[of ?p] pl p0 pi pp by simp
    have gp: "?ks ! parent ?p = ks ! parent ?p"
      using pp pl pi par[OF pl] by (simp add: at)
    have "j \<noteq> ?p" using j parent_less[of j] by auto
    then have "ks ! ?p \<le> ?ks ! j"
      using j sib[of j] by (cases "j = i") (auto simp: at)
    then show "?ks ! parent ?p \<le> ?ks ! j"
      using ep gp by simp
  qed
qed

text \<open>Moving the defect towards the leaves, along the smaller child.\<close>

lemma exchange_down:
  assumes d: "heap_defect ks i" and par: "par_ok ks i"
    and c: "c < length ks" "0 < c" "parent c = i"
    and least: "\<And>j. j < length ks \<Longrightarrow> 0 < j \<Longrightarrow> parent j = i \<Longrightarrow> ks ! c \<le> ks ! j"
    and lt: "ks ! c < ks ! i"
  shows "heap_defect (exchange ks c i) c" and "par_ok (exchange ks c i) c"
proof -
  let ?ks = "exchange ks c i"
  have il: "i < length ks" and ic: "i < c"
    using d c parent_less[of c] by (auto simp: heap_defect_def)
  have edge: "ks ! parent j \<le> ks ! j"
    if "j < length ks" "0 < j" "j \<noteq> i" "parent j \<noteq> i" for j
    using d that unfolding heap_defect_def by blast
  have skip: "0 < i \<Longrightarrow> ks ! parent i \<le> ks ! j" if "j < length ks" "0 < j" "parent j = i" for j
    using d that unfolding heap_defect_def by blast
  have at: "?ks ! k = (if k = i then ks ! c else if k = c then ks ! i else ks ! k)"
    if "k < length ks" for k
    using that il c by (simp add: nth_exchange)
  have pl: "parent j < length ks" if "j < length ks" for j
    using that parent_le[of j] by linarith
  show "par_ok ?ks c"
    using lt c il ic by (simp add: par_ok_def at)
  show "heap_defect ?ks c"
    unfolding heap_defect_def
  proof (intro conjI allI impI)
    show "c < length ?ks" using c by simp
  next
    fix j assume j: "j < length ?ks" "0 < j" "j \<noteq> c" "parent j \<noteq> c"
    consider (root) "j = i" | (kid) "parent j = i" "j \<noteq> i" | (other) "j \<noteq> i" "parent j \<noteq> i"
      by blast
    then show "?ks ! parent j \<le> ?ks ! j"
    proof cases
      case root
      then show ?thesis
        using j skip[OF c] pl[of i] il parent_less[of i] by (simp add: at)
    next
      case kid
      then show ?thesis using j least[of j] il by (simp add: at)
    next
      case other
      then show ?thesis using j edge[of j] pl[of j] by (simp add: at)
    qed
  next
    fix j assume j: "j < length ?ks" "0 < j" "parent j = c"
    have "j \<noteq> c" "j \<noteq> i" using j parent_less[of j] ic by auto
    then show "?ks ! parent c \<le> ?ks ! j"
      using j c edge[of j] il ic by (simp add: at)
  qed
qed

text \<open>Appending a key, dropping the last key, and replacing a key by the last one.\<close>

lemma heap_ok_snoc:
  assumes "heap_ok ks"
  shows "heap_defect (ks @ [k]) (length ks)" and "kids_ok (ks @ [k]) (length ks)"
proof -
  have far: "parent j < length ks" if "j < length ks" for j
    using that parent_le[of j] by linarith
  have "parent j \<noteq> length ks" if "j < Suc (length ks)" "0 < j" for j
    using that parent_less[of j] by linarith
  then show "kids_ok (ks @ [k]) (length ks)" "heap_defect (ks @ [k]) (length ks)"
    using assms far by (auto simp: kids_ok_def heap_defect_def heap_ok_def nth_append)
qed

lemma heap_ok_butlast: "heap_ok ks \<Longrightarrow> heap_ok (butlast ks)"
proof -
  assume h: "heap_ok ks"
  have "parent j < length ks - 1" if "j < length ks - 1" for j
    using that parent_le[of j] by linarith
  then show ?thesis
    using h by (simp add: heap_ok_def nth_butlast)
qed

lemma butlast_exchange:
  assumes "i < length xs"
  shows "butlast (exchange xs i (length xs - 1)) =
    (if i = length xs - 1 then butlast xs else (butlast xs)[i := last xs])"
proof -
  have "xs \<noteq> []" using assms by auto
  then have "last xs = xs ! (length xs - 1)" by (simp add: last_conv_nth)
  then show ?thesis
    using assms by (intro nth_equalityI) (auto simp: nth_butlast nth_exchange nth_list_update)
qed

lemma last_exchange: "i < length xs \<Longrightarrow> last (exchange xs i (length xs - 1)) = xs ! i"
  by (subst last_conv_nth) (auto simp: nth_exchange simp flip: length_0_conv)

end
