(* ===== verification/Queue_Interface.thy ===== *)
theory Queue_Interface
  imports Prelude
begin

text \<open>
  What the services rely on when they use an operation queue, as locales: a queue whose
  content is a finite map from items to keys and that hands out an item with the least key
  (\<open>min_queue\<close>), and one that refuses duplicates and can take a given item out again
  (\<open>keyed_queue\<close>). The lemmas here hold for every implementation; the heap of
  \<^verbatim>\<open>cms/io/priorityqueue.py\<close> is shown to be one in theory \<open>Priority_Queue\<close>.
\<close>

text \<open>\<open>pops pop q es q'\<close>: popping \<open>length es\<close> times from \<open>q\<close> yields \<open>es\<close> and leaves \<open>q'\<close>.\<close>

fun pops :: "('q \<Rightarrow> ('e \<times> 'q) res) \<Rightarrow> 'q \<Rightarrow> 'e list \<Rightarrow> 'q \<Rightarrow> bool" where
  "pops pop_min q [] q' \<longleftrightarrow> q' = q"
| "pops pop_min q (e # es) q' \<longleftrightarrow> (\<exists>q1. pop_min q = Inr (e, q1) \<and> pops pop_min q1 es q')"

lemma pops_append:
  "pops pop_min q (es @ fs) q' \<longleftrightarrow> (\<exists>q1. pops pop_min q es q1 \<and> pops pop_min q1 fs q')"
  by (induction es arbitrary: q) auto

locale min_queue =
  fixes invar :: "'q \<Rightarrow> bool"
    and content :: "'q \<Rightarrow> 'i \<Rightarrow> 'k::linorder option"
    and pop_min :: "'q \<Rightarrow> ('e \<times> 'q) res"
    and item_of :: "'e \<Rightarrow> 'i"
    and key_of :: "'e \<Rightarrow> 'k"
  assumes finite_content: "invar q \<Longrightarrow> finite (dom (content q))"
    and pop_min_none: "invar q \<Longrightarrow> content q = Map.empty \<Longrightarrow> \<exists>err. pop_min q = Inl err"
    and pop_min_some: "invar q \<Longrightarrow> content q \<noteq> Map.empty \<Longrightarrow>
      \<exists>e q'. pop_min q = Inr (e, q') \<and> invar q' \<and> content q (item_of e) = Some (key_of e) \<and>
        (\<forall>i k. content q i = Some k \<longrightarrow> key_of e \<le> k) \<and>
        content q' = (content q)(item_of e := None)"
begin

lemma pop_min_Inr:
  assumes "invar q" "pop_min q = Inr (e, q')"
  shows "invar q'" "content q (item_of e) = Some (key_of e)"
    "\<And>i k. content q i = Some k \<Longrightarrow> key_of e \<le> k" "content q' = (content q)(item_of e := None)"
proof -
  have "content q \<noteq> Map.empty"
    using assms pop_min_none by fastforce
  then show "invar q'" "content q (item_of e) = Some (key_of e)"
      "\<And>i k. content q i = Some k \<Longrightarrow> key_of e \<le> k" "content q' = (content q)(item_of e := None)"
    using pop_min_some[OF assms(1)] assms(2) by auto
qed

lemma pops_content:
  assumes "invar q" "pops pop_min q es q'"
  shows "invar q' \<and> distinct (map item_of es) \<and> sorted (map key_of es) \<and>
    (\<forall>e\<in>set es. content q (item_of e) = Some (key_of e)) \<and>
    content q' = content q |` (- item_of ` set es)"
  using assms
proof (induction es arbitrary: q)
  case (Cons e es)
  then obtain q1 where p: "pop_min q = Inr (e, q1)" and ps: "pops pop_min q1 es q'"
    by auto
  note d = pop_min_Inr[OF Cons.prems(1) p]
  have ih: "invar q'" "distinct (map item_of es)" "sorted (map key_of es)"
      "\<And>f. f \<in> set es \<Longrightarrow> content q1 (item_of f) = Some (key_of f)"
      "content q' = content q1 |` (- item_of ` set es)"
    using Cons.IH[OF d(1) ps] by auto
  have later: "item_of f \<noteq> item_of e \<and> content q (item_of f) = Some (key_of f)"
    if "f \<in> set es" for f
    using ih(4)[OF that] d(4) by (cases "item_of f = item_of e") auto
  then have "content q' = content q |` (- item_of ` set (e # es))"
    using ih(5) d(4) by (auto simp: restrict_map_def fun_eq_iff)
  moreover have "item_of e \<notin> item_of ` set es"
    using later by force
  moreover have "key_of e \<le> key_of f" if "f \<in> set es" for f
    using later[OF that] d(3) by blast
  ultimately show ?case
    using ih(1-3) d(2) later by auto
qed (simp add: restrict_map_def)

text \<open>What stays behind is not smaller than anything handed out.\<close>

lemma pops_rest_greater:
  assumes "invar q" "pops pop_min q es q'" "e \<in> set es" "content q' i = Some k"
  shows "key_of e \<le> k"
  using assms
proof (induction es arbitrary: q)
  case (Cons f es)
  then obtain q1 where p: "pop_min q = Inr (f, q1)" and ps: "pops pop_min q1 es q'"
    by auto
  have i1: "invar q1" using pop_min_Inr[OF Cons.prems(1) p] by simp
  have "content q' = content q |` (- item_of ` set (f # es))"
    using pops_content[OF Cons.prems(1,2)] by simp
  then have "content q i = Some k"
    using Cons.prems(4) by (auto simp: restrict_map_def split: if_splits)
  then have "key_of f \<le> k"
    using pop_min_Inr[OF Cons.prems(1) p] by blast
  then show ?case
    using Cons.IH[OF i1 ps _ Cons.prems(4)] Cons.prems(3) by auto
qed simp

text \<open>A queue can be emptied: as many pops as it has items succeed.\<close>

lemma pops_all:
  assumes "invar q" "card (dom (content q)) = n"
  shows "\<exists>es q'. pops pop_min q es q' \<and> length es = n \<and> content q' = Map.empty"
  using assms
proof (induction n arbitrary: q)
  case 0
  then have "content q = Map.empty"
    using finite_content by simp
  then show ?case
    by (intro exI[of _ "[]"]) simp
next
  case (Suc n)
  then have "content q \<noteq> Map.empty" by auto
  then obtain e q1 where p: "pop_min q = Inr (e, q1)"
    using pop_min_some[OF Suc.prems(1)] by blast
  note d = pop_min_Inr[OF Suc.prems(1) p]
  have "card (dom (content q1)) = n"
    using d(2,4) Suc.prems finite_content[OF Suc.prems(1)] by (simp add: domI)
  then obtain es q' where "pops pop_min q1 es q'" "length es = n" "content q' = Map.empty"
    using Suc.IH[OF d(1)] by blast
  then show ?case
    using p by (intro exI[of _ "e # es"]) auto
qed

end

locale keyed_queue = min_queue invar content pop_min item_of key_of
  for invar :: "'q \<Rightarrow> bool"
    and content :: "'q \<Rightarrow> 'i \<Rightarrow> 'k::linorder option"
    and pop_min :: "'q \<Rightarrow> ('e \<times> 'q) res"
    and item_of :: "'e \<Rightarrow> 'i"
    and key_of :: "'e \<Rightarrow> 'k" +
  fixes contains :: "'q \<Rightarrow> 'i \<Rightarrow> bool"
    and add :: "'q \<Rightarrow> 'i \<Rightarrow> 'p \<Rightarrow> (bool \<times> 'q) res"
    and new_key :: "'q \<Rightarrow> 'p \<Rightarrow> 'k"
    and delete :: "'q \<Rightarrow> 'i \<Rightarrow> ('e \<times> 'q) res"
  assumes contains_iff: "invar q \<Longrightarrow> contains q i \<longleftrightarrow> i \<in> dom (content q)"
    and add_present: "contains q i \<Longrightarrow> add q i p = Inr (False, q)"
    and add_absent: "invar q \<Longrightarrow> \<not> contains q i \<Longrightarrow>
      \<exists>q'. add q i p = Inr (True, q') \<and> invar q' \<and>
        content q' = (content q)(i \<mapsto> new_key q p)"
    and delete_absent: "\<not> contains q i \<Longrightarrow> delete q i = Inl KeyError"
    and delete_present: "invar q \<Longrightarrow> contains q i \<Longrightarrow>
      \<exists>e q'. delete q i = Inr (e, q') \<and> invar q' \<and> item_of e = i \<and>
        content q i = Some (key_of e) \<and> content q' = (content q)(i := None)"
begin

lemma add_total:
  assumes "invar q"
  obtains b q' where "add q i p = Inr (b, q')" "invar q'" "b \<longleftrightarrow> i \<notin> dom (content q)"
    "dom (content q') = insert i (dom (content q))"
proof (cases "contains q i")
  case True
  then show ?thesis
    using that[OF add_present[OF True] assms] contains_iff[OF assms] by auto
next
  case False
  then obtain q' where "add q i p = Inr (True, q')" "invar q'"
    "content q' = (content q)(i \<mapsto> new_key q p)"
    using add_absent[OF assms] by blast
  then show ?thesis
    using that False contains_iff[OF assms] by auto
qed

lemma add_then_delete:
  assumes "invar q" "i \<notin> dom (content q)"
  shows "\<exists>q1 e q2. add q i p = Inr (True, q1) \<and> delete q1 i = Inr (e, q2) \<and>
    content q2 = content q \<and> key_of e = new_key q p"
proof -
  have "\<not> contains q i" using assms contains_iff by blast
  then obtain q1 where q1: "add q i p = Inr (True, q1)" "invar q1"
    "content q1 = (content q)(i \<mapsto> new_key q p)"
    using add_absent[OF assms(1)] by blast
  then have "contains q1 i" using contains_iff[OF q1(2)] by simp
  then obtain e q2 where "delete q1 i = Inr (e, q2)" "content q1 i = Some (key_of e)"
    "content q2 = (content q1)(i := None)"
    using delete_present[OF q1(2)] by blast
  moreover have "(content q)(i := None) = content q" using assms(2) by auto
  ultimately show ?thesis using q1 by auto
qed

end

end
