(* ===== verification/Priority_Queue.thy ===== *)
theory Priority_Queue
  imports Binary_Heap Queue_Interface
begin

text \<open>
  The operation queue of the triggered services, \<^verbatim>\<open>cms/io/priorityqueue.py\<close>: a
  min-heap of entries in a Python list together with a reverse dictionary from items to
  heap positions, an event that tells listeners whether there is something to pop, and
  the index given to the next pushed item. The definitions come first, in the order of
  the source; then the two sift loops are shown to repair a heap with one defect, every
  operation is shown to keep the invariant, and the queue is shown to implement a finite
  map from items to keys whose \<open>pop\<close> extracts the least key.
\<close>

section \<open>Entries\<close>

text \<open>Modelled from class \<open>QueueEntry\<close>. The order compares \<open>(priority, timestamp, index)\<close>
  lexicographically; \<open>total_ordering\<close> derives the other comparisons from it.\<close>

record 'i queue_entry =
  qe_item :: 'i
  qe_priority :: int
  qe_timestamp :: datetime
  qe_index :: nat

type_synonym queue_key = "int \<times> datetime \<times> nat"

definition entry_key :: "'i queue_entry \<Rightarrow> queue_key" where
  "entry_key e = (qe_priority e, qe_timestamp e, qe_index e)"

definition entry_eq :: "'i queue_entry \<Rightarrow> 'i queue_entry \<Rightarrow> bool" where
  "entry_eq a b \<longleftrightarrow> entry_key a = entry_key b"

definition entry_lt :: "'i queue_entry \<Rightarrow> 'i queue_entry \<Rightarrow> bool" where
  "entry_lt a b \<longleftrightarrow> entry_key a < entry_key b"

section \<open>The queue and its operations\<close>

definition PRIORITY_EXTRA_HIGH :: int where "PRIORITY_EXTRA_HIGH = 0"
definition PRIORITY_HIGH :: int where "PRIORITY_HIGH = 1"
definition PRIORITY_MEDIUM :: int where "PRIORITY_MEDIUM = 2"
definition PRIORITY_LOW :: int where "PRIORITY_LOW = 3"
definition PRIORITY_EXTRA_LOW :: int where "PRIORITY_EXTRA_LOW = 4"

record 'i pqueue =
  pq_queue :: "'i queue_entry list"
  pq_reverse :: "('i, nat) dict"
  pq_event :: bool
  pq_next_index :: nat

definition pq_init :: "'i pqueue" where
  "pq_init = \<lparr>pq_queue = [], pq_reverse = [], pq_event = False, pq_next_index = 0\<rparr>"

definition pq_length :: "'i pqueue \<Rightarrow> nat" where
  "pq_length q = length (pq_queue q)"

definition pq_empty :: "'i pqueue \<Rightarrow> bool" where
  "pq_empty q \<longleftrightarrow> pq_length q = 0"

definition pq_contains :: "'i pqueue \<Rightarrow> 'i \<Rightarrow> bool" where
  "pq_contains q it \<longleftrightarrow> dict_has (pq_reverse q) it"

text \<open>\<open>_verify\<close>, used by the tests of the source; an index out of range in the reverse
  dictionary would raise there and counts as a failed check here.\<close>

definition pq_verify :: "'i pqueue \<Rightarrow> bool" where
  "pq_verify q \<longleftrightarrow>
     length (pq_queue q) = length (pq_reverse q) \<and>
     length (pq_queue q) = pq_length q \<and>
     pq_empty q = (pq_length q = 0) \<and>
     pq_event q = (\<not> pq_empty q) \<and>
     list_all (\<lambda>(it, idx). idx < length (pq_queue q) \<and> qe_item (pq_queue q ! idx) = it)
       (pq_reverse q)"

text \<open>\<open>_swap\<close>: the tuple assignment reads both entries before it writes them.\<close>

definition pq_swap :: "'i pqueue \<Rightarrow> nat \<Rightarrow> nat \<Rightarrow> 'i pqueue res" where
  "pq_swap q idx1 idx2 =
     (if idx1 < length (pq_queue q) \<and> idx2 < length (pq_queue q) then
        let xs = (pq_queue q)[idx1 := pq_queue q ! idx2, idx2 := pq_queue q ! idx1];
            rev1 = dict_set (pq_reverse q) (qe_item (xs ! idx1)) idx1;
            rev2 = dict_set rev1 (qe_item (xs ! idx2)) idx2
        in Inr (q\<lparr>pq_queue := xs, pq_reverse := rev2\<rparr>)
      else Inl IndexError)"

text \<open>\<open>_up_heap\<close>: the loop as a recursion on the index; \<open>parent idx\<close> is
  \<open>(idx - 1) div 2\<close>.\<close>

function up_heap :: "'i pqueue \<Rightarrow> nat \<Rightarrow> ('i pqueue \<times> nat) res" where
  "up_heap q idx =
     (if 0 < idx then
        res_bind (py_nth (pq_queue q) idx) (\<lambda>x.
        res_bind (py_nth (pq_queue q) (parent idx)) (\<lambda>p.
          if entry_lt x p then
            res_bind (pq_swap q (parent idx) idx) (\<lambda>q'. up_heap q' (parent idx))
          else Inr (q, idx)))
      else Inr (q, idx))"
  by pat_completeness auto
termination
  by (relation "measure snd") auto

text \<open>\<open>_down_heap\<close>: \<open>last = len(self._queue) - 1\<close> is read once, before the loop; the loop
  takes \<open>n = last + 1\<close>.\<close>

definition heap_child :: "'i pqueue \<Rightarrow> nat \<Rightarrow> nat \<Rightarrow> nat res" where
  "heap_child q n idx =
     (if 2 * idx + 2 < n then
        res_bind (py_nth (pq_queue q) (2 * idx + 2)) (\<lambda>r.
        res_bind (py_nth (pq_queue q) (2 * idx + 1)) (\<lambda>l.
          Inr (if entry_lt r l then 2 * idx + 2 else 2 * idx + 1)))
      else Inr (2 * idx + 1))"

lemma heap_child_cases:
  "heap_child q n idx = Inr c \<Longrightarrow> c = 2 * idx + 1 \<or> c = 2 * idx + 2 \<and> 2 * idx + 2 < n"
  by (auto simp: heap_child_def res_simps split: if_splits)

function down_heap_loop :: "nat \<Rightarrow> 'i pqueue \<Rightarrow> nat \<Rightarrow> ('i pqueue \<times> nat) res" where
  "down_heap_loop n q idx =
     (if 2 * idx + 1 < n then
        (case heap_child q n idx of
           Inl e \<Rightarrow> Inl e
         | Inr child \<Rightarrow>
             res_bind (py_nth (pq_queue q) child) (\<lambda>c.
             res_bind (py_nth (pq_queue q) idx) (\<lambda>x.
               if entry_lt c x then
                 res_bind (pq_swap q child idx) (\<lambda>q'. down_heap_loop n q' child)
               else Inr (q, idx))))
      else Inr (q, idx))"
  by pat_completeness auto
termination
  by (relation "measure (\<lambda>(n, q, idx). n - idx)") (auto dest: heap_child_cases)

definition down_heap :: "'i pqueue \<Rightarrow> nat \<Rightarrow> ('i pqueue \<times> nat) res" where
  "down_heap q idx = down_heap_loop (length (pq_queue q)) q idx"

definition updown_heap :: "'i pqueue \<Rightarrow> nat \<Rightarrow> ('i pqueue \<times> nat) res" where
  "updown_heap q idx = res_bind (up_heap q idx) (\<lambda>(q', idx'). down_heap q' idx')"

text \<open>\<open>push\<close>; \<open>now\<close> is the value \<open>make_datetime()\<close> returns when no timestamp is given.\<close>

definition push ::
  "datetime \<Rightarrow> 'i pqueue \<Rightarrow> 'i \<Rightarrow> int option \<Rightarrow> datetime option \<Rightarrow> (bool \<times> 'i pqueue) res"
where
  "push now q it prio ts =
     (if pq_contains q it then Inr (False, q)
      else
        let p = (case prio of None \<Rightarrow> PRIORITY_MEDIUM | Some p \<Rightarrow> p);
            t = (case ts of None \<Rightarrow> now | Some t \<Rightarrow> t);
            e = \<lparr>qe_item = it, qe_priority = p, qe_timestamp = t,
                 qe_index = pq_next_index q\<rparr>;
            xs = pq_queue q @ [e];
            lst = length xs - 1;
            q1 = q\<lparr>pq_next_index := pq_next_index q + 1, pq_queue := xs,
                   pq_reverse := dict_set (pq_reverse q) it lst\<rparr>
        in res_bind (up_heap q1 lst) (\<lambda>(q2, _). Inr (True, q2\<lparr>pq_event := True\<rparr>)))"

text \<open>\<open>top\<close>: on an empty queue a call with \<open>wait\<close> suspends until something is pushed.\<close>

definition top_entry :: "'i pqueue \<Rightarrow> bool \<Rightarrow> 'i queue_entry res" where
  "top_entry q wait =
     (if \<not> pq_empty q then py_nth (pq_queue q) 0
      else if \<not> wait then Inl LookupError else Inl Blocked)"

definition pop :: "'i pqueue \<Rightarrow> bool \<Rightarrow> ('i queue_entry \<times> 'i pqueue) res" where
  "pop q wait =
     res_bind (top_entry q wait) (\<lambda>e.
       let lst = length (pq_queue q) - 1 in
       res_bind (pq_swap q 0 lst) (\<lambda>q1.
       res_bind (dict_del (pq_reverse q1) (qe_item e)) (\<lambda>rev1.
         let q2 = q1\<lparr>pq_reverse := rev1, pq_queue := butlast (pq_queue q1)\<rparr> in
         if 0 < lst then res_bind (down_heap q2 0) (\<lambda>(q3, _). Inr (e, q3))
         else Inr (e, q2\<lparr>pq_event := False\<rparr>))))"

definition remove :: "'i pqueue \<Rightarrow> 'i \<Rightarrow> ('i queue_entry \<times> 'i pqueue) res" where
  "remove q it =
     res_bind (dict_get (pq_reverse q) it) (\<lambda>pos.
     res_bind (py_nth (pq_queue q) pos) (\<lambda>e.
       let lst = length (pq_queue q) - 1 in
       res_bind (pq_swap q pos lst) (\<lambda>q1.
       res_bind (dict_del (pq_reverse q1) it) (\<lambda>rev1.
         let q2 = q1\<lparr>pq_reverse := rev1, pq_queue := butlast (pq_queue q1)\<rparr> in
         res_bind (if pos \<noteq> lst then res_bind (updown_heap q2 pos) (\<lambda>(q3, _). Inr q3)
                   else Inr q2) (\<lambda>q4.
           Inr (e, if pq_empty q4 then q4\<lparr>pq_event := False\<rparr> else q4))))))"

definition set_priority :: "'i pqueue \<Rightarrow> 'i \<Rightarrow> int \<Rightarrow> 'i pqueue res" where
  "set_priority q it prio =
     res_bind (dict_get (pq_reverse q) it) (\<lambda>pos.
     res_bind (py_nth (pq_queue q) pos) (\<lambda>e.
     res_bind (updown_heap
         (q\<lparr>pq_queue := (pq_queue q)[pos := e\<lparr>qe_priority := prio\<rparr>]\<rparr>) pos) (\<lambda>(q', _).
       Inr q')))"

text \<open>\<open>get_status\<close>, with \<open>to_dict\<close> of the items as an argument.\<close>

definition pq_get_status ::
  "('i \<Rightarrow> 'd) \<Rightarrow> 'i pqueue \<Rightarrow> ('d \<times> int \<times> datetime) list" where
  "pq_get_status to_dict q =
     map (\<lambda>e. (to_dict (qe_item e), qe_priority e, qe_timestamp e)) (pq_queue q)"

declare up_heap.simps [simp del] down_heap_loop.simps [simp del]

section \<open>The invariant\<close>

definition pq_keys :: "'i pqueue \<Rightarrow> queue_key list" where
  "pq_keys q = map entry_key (pq_queue q)"

text \<open>The reverse dictionary holds exactly the positions of the queue; in particular no
  item occurs twice.\<close>

definition reverse_ok :: "'i pqueue \<Rightarrow> bool" where
  "reverse_ok q \<longleftrightarrow>
     dict_ok (pq_reverse q) \<and>
     (\<forall>it i. map_of (pq_reverse q) it = Some i \<longleftrightarrow>
        i < length (pq_queue q) \<and> qe_item (pq_queue q ! i) = it)"

text \<open>Indices are never given twice, so no two entries have the same key.\<close>

definition index_ok :: "'i pqueue \<Rightarrow> bool" where
  "index_ok q \<longleftrightarrow>
     distinct (map qe_index (pq_queue q)) \<and>
     (\<forall>e\<in>set (pq_queue q). qe_index e < pq_next_index q)"

definition pq_invar :: "'i pqueue \<Rightarrow> bool" where
  "pq_invar q \<longleftrightarrow>
     heap_ok (pq_keys q) \<and> reverse_ok q \<and> pq_event q = (pq_queue q \<noteq> []) \<and> index_ok q"

text \<open>What a sift loop changes: the order of the entries and the reverse dictionary.\<close>

definition resifted :: "'i pqueue \<Rightarrow> 'i pqueue \<Rightarrow> bool" where
  "resifted q q' \<longleftrightarrow>
     mset (pq_queue q') = mset (pq_queue q) \<and> reverse_ok q' \<and>
     pq_event q' = pq_event q \<and> pq_next_index q' = pq_next_index q"

section \<open>The sift loops repair the heap\<close>

lemma entry_lt_iff: "entry_lt a b \<longleftrightarrow> entry_key a < entry_key b"
  by (simp add: entry_lt_def)

lemma pq_keys_nth [simp]: "i < length (pq_queue q) \<Longrightarrow> pq_keys q ! i = entry_key (pq_queue q ! i)"
  by (simp add: pq_keys_def)

lemma length_pq_keys [simp]: "length (pq_keys q) = length (pq_queue q)"
  by (simp add: pq_keys_def)

lemma resifted_refl: "reverse_ok q \<Longrightarrow> resifted q q"
  by (simp add: resifted_def)

lemma resifted_trans: "resifted q q1 \<Longrightarrow> resifted q1 q2 \<Longrightarrow> resifted q q2"
  by (simp add: resifted_def)

lemma resifted_length: "resifted q q' \<Longrightarrow> length (pq_queue q') = length (pq_queue q)"
  unfolding resifted_def by (metis size_mset)

lemma reverse_ok_item_inj:
  assumes "reverse_ok q" "i < length (pq_queue q)" "j < length (pq_queue q)"
    "qe_item (pq_queue q ! i) = qe_item (pq_queue q ! j)"
  shows "i = j"
  using assms unfolding reverse_ok_def by (metis option.inject)

lemma pq_swap_ok:
  assumes r: "reverse_ok q" and i: "i < length (pq_queue q)" and j: "j < length (pq_queue q)"
  obtains q' where "pq_swap q i j = Inr q'"
    "pq_queue q' = exchange (pq_queue q) i j" "resifted q q'"
proof -
  let ?xs = "exchange (pq_queue q) i j"
  define q' where "q' = q\<lparr>pq_queue := ?xs,
    pq_reverse := dict_set (dict_set (pq_reverse q) (qe_item (?xs ! i)) i) (qe_item (?xs ! j)) j\<rparr>"
  have eq: "pq_swap q i j = Inr q'"
    using i j by (simp add: pq_swap_def q'_def exchange_def Let_def)
  have "map_of (pq_reverse q') it = Some k \<longleftrightarrow> k < length ?xs \<and> qe_item (?xs ! k) = it" for it k
  proof -
    have old: "map_of (pq_reverse q) it = Some k \<longleftrightarrow>
        k < length (pq_queue q) \<and> qe_item (pq_queue q ! k) = it" for it k
      using r by (simp add: reverse_ok_def)
    show ?thesis
      using i j reverse_ok_item_inj[OF r i j] reverse_ok_item_inj[OF r i, of k]
        reverse_ok_item_inj[OF r j, of k]
      by (auto simp: q'_def dict_simps nth_exchange old split: if_splits)
  qed
  then have "reverse_ok q'"
    using r by (simp add: reverse_ok_def q'_def)
  then have "resifted q q'"
    using i j by (simp add: resifted_def q'_def)
  then show ?thesis
    using that eq by (simp add: q'_def)
qed

lemma pq_keys_exchange:
  assumes "pq_queue q' = exchange (pq_queue q) i j"
    "i < length (pq_queue q)" "j < length (pq_queue q)"
  shows "pq_keys q' = exchange (pq_keys q) i j"
  using assms by (simp add: pq_keys_def map_exchange)

lemma up_heap_correct:
  assumes "reverse_ok q" "heap_defect (pq_keys q) i"
  shows "\<exists>q' i'. up_heap q i = Inr (q', i') \<and> resifted q q' \<and>
    heap_defect (pq_keys q') i' \<and> par_ok (pq_keys q') i' \<and>
    (kids_ok (pq_keys q) i \<longrightarrow> kids_ok (pq_keys q') i')"
  using assms
proof (induction q i rule: up_heap.induct)
  case (1 q i)
  have il: "i < length (pq_queue q)"
    using "1.prems" by (simp add: heap_defect_def)
  have pl: "parent i < length (pq_queue q)"
    using il parent_le[of i] by linarith
  show ?case
  proof (cases "0 < i \<and> entry_lt (pq_queue q ! i) (pq_queue q ! parent i)")
    case False
    then have "up_heap q i = Inr (q, i)"
      using il pl by (subst up_heap.simps) auto
    moreover have "par_ok (pq_keys q) i"
      using False il pl by (auto simp: par_ok_def entry_lt_iff)
    ultimately show ?thesis
      using "1.prems" resifted_refl by blast
  next
    case True
    then have lt: "pq_keys q ! i < pq_keys q ! parent i"
      using il pl by (simp add: entry_lt_iff)
    obtain q1 where sw: "pq_swap q (parent i) i = Inr q1"
      and xs: "pq_queue q1 = exchange (pq_queue q) (parent i) i" and rs: "resifted q q1"
      using pq_swap_ok[OF "1.prems"(1) pl il] .
    have ks: "pq_keys q1 = exchange (pq_keys q) (parent i) i"
      using xs pl il by (rule pq_keys_exchange)
    have d1: "heap_defect (pq_keys q1) (parent i)" and k1: "kids_ok (pq_keys q1) (parent i)"
      unfolding ks using exchange_up[OF "1.prems"(2) _ lt] True by auto
    have "\<exists>q' i'. up_heap q1 (parent i) = Inr (q', i') \<and> resifted q1 q' \<and>
        heap_defect (pq_keys q') i' \<and> par_ok (pq_keys q') i' \<and>
        (kids_ok (pq_keys q1) (parent i) \<longrightarrow> kids_ok (pq_keys q') i')"
      by (rule "1.IH"[of "pq_queue q ! i" "pq_queue q ! parent i"])
        (use True il pl sw rs d1 in \<open>auto simp: resifted_def\<close>)
    moreover have "up_heap q i = up_heap q1 (parent i)"
      using True il pl sw by (subst up_heap.simps) simp
    ultimately show ?thesis
      using k1 rs resifted_trans by fastforce
  qed
qed

lemma heap_child_least:
  assumes "2 * i + 1 < length (pq_queue q)"
  obtains c where "heap_child q (length (pq_queue q)) i = Inr c"
    "c < length (pq_queue q)" "0 < c" "parent c = i"
    "\<And>j. j < length (pq_queue q) \<Longrightarrow> 0 < j \<Longrightarrow> parent j = i \<Longrightarrow> pq_keys q ! c \<le> pq_keys q ! j"
proof -
  let ?n = "length (pq_queue q)"
  define c where "c = (if 2 * i + 2 < ?n \<and> entry_lt (pq_queue q ! (2 * i + 2))
    (pq_queue q ! (2 * i + 1)) then 2 * i + 2 else 2 * i + 1)"
  have "heap_child q ?n i = Inr c"
    using assms by (auto simp: heap_child_def c_def)
  moreover have "c < ?n" "0 < c" "parent c = i"
    using assms by (auto simp: c_def parent_def)
  moreover have "pq_keys q ! c \<le> pq_keys q ! j" if "j < ?n" "0 < j" "parent j = i" for j
    using that assms by (auto simp: parent_kid_iff c_def entry_lt_iff)
  ultimately show ?thesis by (rule that)
qed

lemma down_heap_loop_correct:
  assumes "reverse_ok q" "heap_defect (pq_keys q) i" "par_ok (pq_keys q) i"
    "n = length (pq_queue q)"
  shows "\<exists>q' i'. down_heap_loop n q i = Inr (q', i') \<and> resifted q q' \<and> heap_ok (pq_keys q')"
  using assms
proof (induction n q i rule: down_heap_loop.induct)
  case (1 n q i)
  have il: "i < length (pq_queue q)"
    using "1.prems" by (simp add: heap_defect_def)
  show ?case
  proof (cases "2 * i + 1 < n")
    case False
    then have "kids_ok (pq_keys q) i"
      using "1.prems"(4) by (auto simp: kids_ok_def parent_kid_iff)
    then have "heap_ok (pq_keys q)"
      using "1.prems" heap_defect_repaired by blast
    then show ?thesis
      using False "1.prems" by (subst down_heap_loop.simps) (simp add: resifted_refl)
  next
    case True
    then obtain c where ch: "heap_child q n i = Inr c" and cl: "c < length (pq_queue q)"
      and c: "0 < c" "parent c = i"
      and least: "\<And>j. j < length (pq_queue q) \<Longrightarrow> 0 < j \<Longrightarrow> parent j = i \<Longrightarrow>
        pq_keys q ! c \<le> pq_keys q ! j"
      using "1.prems"(4) heap_child_least by metis
    show ?thesis
    proof (cases "entry_lt (pq_queue q ! c) (pq_queue q ! i)")
      case False
      then have "pq_keys q ! i \<le> pq_keys q ! c"
        using il cl by (simp add: entry_lt_iff)
      then have "kids_ok (pq_keys q) i"
        using least order_trans by (fastforce simp: kids_ok_def)
      then have "heap_ok (pq_keys q)"
        using "1.prems" heap_defect_repaired by blast
      then show ?thesis
        using True False ch il cl "1.prems"
        by (subst down_heap_loop.simps) (simp add: resifted_refl)
    next
      case lt: True
      then have klt: "pq_keys q ! c < pq_keys q ! i"
        using il cl by (simp add: entry_lt_iff)
      obtain q1 where sw: "pq_swap q c i = Inr q1"
        and xs: "pq_queue q1 = exchange (pq_queue q) c i" and rs: "resifted q q1"
        using pq_swap_ok[OF "1.prems"(1) cl il] .
      have ks: "pq_keys q1 = exchange (pq_keys q) c i"
        using xs cl il by (rule pq_keys_exchange)
      have "heap_defect (pq_keys q1) c" "par_ok (pq_keys q1) c"
        unfolding ks using exchange_down[OF "1.prems"(2,3) _ c _ klt] cl least by auto
      then have "\<exists>q' i'. down_heap_loop n q1 c = Inr (q', i') \<and> resifted q1 q' \<and>
          heap_ok (pq_keys q')"
        by (intro "1.IH"[OF True ch lt])
          (use il cl rs xs "1.prems" in \<open>auto simp: resifted_def\<close>)
      moreover have "down_heap_loop n q i = down_heap_loop n q1 c"
        using True lt ch il cl sw by (subst down_heap_loop.simps) simp
      ultimately show ?thesis
        using rs resifted_trans by fastforce
    qed
  qed
qed

lemma down_heap_correct:
  assumes "reverse_ok q" "heap_defect (pq_keys q) i" "par_ok (pq_keys q) i"
  obtains q' i' where "down_heap q i = Inr (q', i')" "resifted q q'" "heap_ok (pq_keys q')"
  using down_heap_loop_correct[OF assms refl] unfolding down_heap_def by blast

lemma updown_heap_correct:
  assumes "reverse_ok q" "heap_defect (pq_keys q) i"
  obtains q' i' where "updown_heap q i = Inr (q', i')" "resifted q q'" "heap_ok (pq_keys q')"
proof -
  obtain q1 i1 where up: "up_heap q i = Inr (q1, i1)" "resifted q q1"
    "heap_defect (pq_keys q1) i1" "par_ok (pq_keys q1) i1"
    using up_heap_correct[OF assms] by blast
  have "reverse_ok q1" using up(2) by (simp add: resifted_def)
  then obtain q2 i2 where "down_heap q1 i1 = Inr (q2, i2)" "resifted q1 q2"
    "heap_ok (pq_keys q2)"
    using up down_heap_correct by blast
  then show ?thesis
    using that up resifted_trans by (fastforce simp: updown_heap_def)
qed

section \<open>Every operation keeps the invariant\<close>

lemma pq_invar_init: "pq_invar pq_init"
  by (simp add: pq_invar_def pq_init_def reverse_ok_def index_ok_def heap_ok_def pq_keys_def)

lemma distinct_map_mset_eq:
  "mset xs = mset ys \<Longrightarrow> distinct (map f xs) \<longleftrightarrow> distinct (map f ys)"
  by (rule mset_eq_imp_distinct_iff) simp

lemma resifted_invar:
  assumes "resifted q q'" "heap_ok (pq_keys q')" "index_ok q" "pq_event q = (pq_queue q \<noteq> [])"
  shows "pq_invar q'"
proof -
  have m: "mset (pq_queue q') = mset (pq_queue q)"
    using assms(1) by (simp add: resifted_def)
  then have "set (pq_queue q') = set (pq_queue q)" "pq_queue q' = [] \<longleftrightarrow> pq_queue q = []"
    by (metis set_mset_mset, metis mset_zero_iff)
  moreover have "distinct (map qe_index (pq_queue q')) = distinct (map qe_index (pq_queue q))"
    by (rule distinct_map_mset_eq[OF m])
  ultimately show ?thesis
    using assms by (simp add: pq_invar_def index_ok_def resifted_def)
qed

lemma pq_contains_iff:
  assumes "reverse_ok q"
  shows "pq_contains q it \<longleftrightarrow> it \<in> qe_item ` set (pq_queue q)"
proof -
  have "pq_contains q it \<longleftrightarrow> (\<exists>i. map_of (pq_reverse q) it = Some i)"
    by (auto simp: pq_contains_def dict_has_def)
  also have "\<dots> \<longleftrightarrow> (\<exists>i<length (pq_queue q). qe_item (pq_queue q ! i) = it)"
    using assms by (simp add: reverse_ok_def)
  finally show ?thesis by (auto simp: set_conv_nth image_def)
qed

lemma reverse_ok_distinct: "reverse_ok q \<Longrightarrow> distinct (map qe_item (pq_queue q))"
  by (auto simp: distinct_conv_nth dest: reverse_ok_item_inj)

text \<open>Taking the entry at \<open>pos\<close> out: swap it with the last one, forget it, drop the last
  cell. Both \<open>pop\<close> and \<open>remove\<close> start this way.\<close>

lemma take_out_ok:
  assumes r: "reverse_ok q" and pos: "pos < length (pq_queue q)"
    and e: "e = pq_queue q ! pos"
  obtains q1 where "pq_swap q pos (length (pq_queue q) - 1) = Inr q1"
    "dict_del (pq_reverse q1) (qe_item e) = Inr (AList.delete (qe_item e) (pq_reverse q1))"
    "pq_event q1 = pq_event q" "pq_next_index q1 = pq_next_index q"
    "length (pq_queue q1) = length (pq_queue q)"
    "mset (pq_queue q) = add_mset e (mset (butlast (pq_queue q1)))"
    "map entry_key (butlast (pq_queue q1)) =
      (if pos = length (pq_queue q) - 1 then butlast (pq_keys q)
       else (butlast (pq_keys q))[pos := last (pq_keys q)])"
    "reverse_ok (q1\<lparr>pq_reverse := AList.delete (qe_item e) (pq_reverse q1),
      pq_queue := butlast (pq_queue q1)\<rparr>)"
proof -
  let ?n = "length (pq_queue q)"
  have ne: "pq_queue q \<noteq> []" and ll: "?n - 1 < ?n" using pos by auto
  obtain q1 where sw: "pq_swap q pos (?n - 1) = Inr q1"
    and xs: "pq_queue q1 = exchange (pq_queue q) pos (?n - 1)" and rs: "resifted q q1"
    using pq_swap_ok[OF r pos ll] .
  have len: "length (pq_queue q1) = ?n" and lst: "last (pq_queue q1) = e"
    using xs e last_exchange[OF pos] by simp_all
  have nth_e: "pq_queue q1 ! (?n - 1) = e"
    using lst len ne by (metis last_conv_nth length_0_conv)
  have r1: "reverse_ok q1" and m1: "mset (pq_queue q1) = mset (pq_queue q)"
    using rs by (simp_all add: resifted_def)
  have item: "map_of (pq_reverse q1) it = Some i \<longleftrightarrow> i < ?n \<and> qe_item (pq_queue q1 ! i) = it"
    for it i using r1 len by (simp add: reverse_ok_def)
  have "qe_item (pq_queue q1 ! i) \<noteq> qe_item e" if "i < ?n - 1" for i
    using that reverse_ok_item_inj[OF r1, of i "?n - 1"] len nth_e ll by auto
  moreover have "i < ?n - 1 \<or> i = ?n - 1" if "i < ?n" for i
    using that by linarith
  ultimately have "map_of (AList.delete (qe_item e) (pq_reverse q1)) it = Some i \<longleftrightarrow>
      i < ?n - 1 \<and> qe_item (pq_queue q1 ! i) = it" for it i
    using item[of it i] nth_e by (cases "it = qe_item e") (auto simp: dict_simps)
  then have r2: "reverse_ok (q1\<lparr>pq_reverse := AList.delete (qe_item e) (pq_reverse q1),
      pq_queue := butlast (pq_queue q1)\<rparr>)"
    using r1 len by (auto simp: reverse_ok_def nth_butlast)
  have "mset (pq_queue q) = mset (butlast (pq_queue q1) @ [last (pq_queue q1)])"
    using m1 ne xs by (subst append_butlast_last_id) (auto simp: exchange_def)
  then have m2: "mset (pq_queue q) = add_mset e (mset (butlast (pq_queue q1)))"
    using lst by simp
  have "dict_has (pq_reverse q1) (qe_item e)"
    using item[of "qe_item e" "?n - 1"] nth_e ll by simp
  moreover have "map entry_key (butlast (pq_queue q1)) = butlast (exchange (pq_keys q) pos (?n - 1))"
    using xs pos ll by (simp add: map_butlast map_exchange pq_keys_def)
  ultimately show ?thesis
    using that[OF sw] r2 m2 rs len pos butlast_exchange[of pos "pq_keys q"]
    by (simp add: dict_del_def resifted_def)
qed

lemma index_ok_take_out:
  assumes "index_ok q" "mset (pq_queue q) = add_mset e (mset xs)"
  shows "distinct (map qe_index xs)" and "\<forall>e\<in>set xs. qe_index e < pq_next_index q"
proof -
  have m: "mset (pq_queue q) = mset (e # xs)" using assms(2) by simp
  have "distinct (map qe_index (e # xs))"
    using assms(1) distinct_map_mset_eq[OF m, of qe_index] by (simp add: index_ok_def)
  moreover have "set (pq_queue q) = set (e # xs)"
    using m by (rule mset_eq_setD)
  ultimately show "distinct (map qe_index xs)" "\<forall>e\<in>set xs. qe_index e < pq_next_index q"
    using assms(1) by (auto simp: index_ok_def)
qed

text \<open>The content of a queue: the key of every item in it.\<close>

definition pq_map :: "'i pqueue \<Rightarrow> 'i \<Rightarrow> queue_key option" where
  "pq_map q = map_of (map (\<lambda>e. (qe_item e, entry_key e)) (pq_queue q))"

lemma pq_map_eqI:
  assumes "reverse_ok q" "distinct (map qe_item ys)" "set ys = set (pq_queue q)"
  shows "pq_map q = map_of (map (\<lambda>e. (qe_item e, entry_key e)) ys)"
  unfolding pq_map_def using assms reverse_ok_distinct[OF assms(1)]
  by (intro map_of_inject_set[THEN iffD2]) (auto simp: comp_def)

lemma pq_map_mset:
  assumes "reverse_ok q" "reverse_ok q'" "mset (pq_queue q') = mset (pq_queue q)"
  shows "pq_map q' = pq_map q"
  using pq_map_eqI[OF assms(2) reverse_ok_distinct[OF assms(1)]] mset_eq_setD[OF assms(3)]
  by (simp add: pq_map_def)

lemma pq_map_add_mset:
  assumes "reverse_ok q" "mset (pq_queue q) = add_mset e (mset xs)"
  shows "pq_map q = (map_of (map (\<lambda>e. (qe_item e, entry_key e)) xs))(qe_item e \<mapsto> entry_key e)"
    and "qe_item e \<notin> qe_item ` set xs"
proof -
  have m: "mset (pq_queue q) = mset (e # xs)" using assms(2) by simp
  have d: "distinct (map qe_item (e # xs))"
    using reverse_ok_distinct[OF assms(1)] distinct_map_mset_eq[OF m] by blast
  show "pq_map q = (map_of (map (\<lambda>e. (qe_item e, entry_key e)) xs))(qe_item e \<mapsto> entry_key e)"
    using pq_map_eqI[OF assms(1) d] mset_eq_setD[OF m] by simp
  show "qe_item e \<notin> qe_item ` set xs" using d by simp
qed

lemma pq_map_take_out:
  assumes "reverse_ok q" "reverse_ok q'" "mset (pq_queue q) = add_mset e (mset (pq_queue q'))"
  shows "pq_map q' = (pq_map q)(qe_item e := None)" and "pq_map q (qe_item e) = Some (entry_key e)"
proof -
  have "pq_map q' (qe_item e) = None"
    using pq_map_add_mset(2)[OF assms(1,3)] by (auto simp: pq_map_def map_of_eq_None_iff)
  then show "pq_map q' = (pq_map q)(qe_item e := None)"
    using pq_map_add_mset(1)[OF assms(1,3)] by (auto simp: pq_map_def)
  show "pq_map q (qe_item e) = Some (entry_key e)"
    using pq_map_add_mset(1)[OF assms(1,3)] by simp
qed

lemma pq_contains_map: "reverse_ok q \<Longrightarrow> pq_contains q it \<longleftrightarrow> it \<in> dom (pq_map q)"
  by (simp add: pq_contains_iff pq_map_def dom_map_of_conv_image_fst image_image)

definition default_priority :: "int option \<Rightarrow> int" where
  "default_priority p = (case p of None \<Rightarrow> PRIORITY_MEDIUM | Some v \<Rightarrow> v)"

definition default_timestamp :: "datetime \<Rightarrow> datetime option \<Rightarrow> datetime" where
  "default_timestamp now t = (case t of None \<Rightarrow> now | Some v \<Rightarrow> v)"

lemma push_old: "pq_contains q it \<Longrightarrow> push now q it p t = Inr (False, q)"
  by (simp add: push_def)

lemma push_new:
  assumes inv: "pq_invar q" and new: "\<not> pq_contains q it"
  obtains q' where "push now q it p t = Inr (True, q')" "pq_invar q'"
    "pq_map q' = (pq_map q)(it \<mapsto>
      (default_priority p, default_timestamp now t, pq_next_index q))"
    "pq_next_index q' = pq_next_index q + 1"
    "pq_length q' = pq_length q + 1"
proof -
  define e where "e = \<lparr>qe_item = it, qe_priority = default_priority p,
    qe_timestamp = default_timestamp now t, qe_index = pq_next_index q\<rparr>"
  define q1 where "q1 = q\<lparr>pq_next_index := pq_next_index q + 1, pq_queue := pq_queue q @ [e],
    pq_reverse := dict_set (pq_reverse q) it (length (pq_queue q))\<rparr>"
  have rq: "reverse_ok q" and hq: "heap_ok (pq_keys q)" and iq: "index_ok q"
    using inv by (simp_all add: pq_invar_def)
  have new': "it \<notin> qe_item ` set (pq_queue q)"
    using new rq by (simp add: pq_contains_iff)
  have "map_of (pq_reverse q) i = Some k \<longleftrightarrow> k < length (pq_queue q) \<and>
      qe_item (pq_queue q ! k) = i" for i k
    using rq by (simp add: reverse_ok_def)
  then have r1: "reverse_ok q1"
    using rq new' by (auto simp: reverse_ok_def q1_def dict_simps nth_append e_def less_Suc_eq
      split: if_splits)
  have k1: "pq_keys q1 = pq_keys q @ [entry_key e]"
    by (simp add: pq_keys_def q1_def)
  have "heap_defect (pq_keys q1) (length (pq_queue q))" "kids_ok (pq_keys q1) (length (pq_queue q))"
    unfolding k1 using heap_ok_snoc[OF hq] by simp_all
  then obtain q2 i2 where up: "up_heap q1 (length (pq_queue q)) = Inr (q2, i2)"
    and rs: "resifted q1 q2" and "heap_defect (pq_keys q2) i2" "par_ok (pq_keys q2) i2"
    "kids_ok (pq_keys q2) i2"
    using up_heap_correct[OF r1] by blast
  then have h2: "heap_ok (pq_keys q2)"
    using heap_defect_repaired by blast
  let ?q' = "q2\<lparr>pq_event := True\<rparr>"
  have eq: "push now q it p t = Inr (True, ?q')"
    using new up by (simp add: push_def Let_def q1_def e_def default_priority_def
      default_timestamp_def)
  have "index_ok q1"
    using iq by (auto simp: index_ok_def q1_def e_def)
  then have "pq_invar ?q'"
    using resifted_invar[of "q1\<lparr>pq_event := True\<rparr>" ?q'] rs h2
    by (simp add: resifted_def reverse_ok_def index_ok_def q1_def pq_keys_def)
  moreover have "mset (pq_queue ?q') = add_mset e (mset (pq_queue q))" "reverse_ok ?q'"
    using rs by (simp_all add: resifted_def q1_def reverse_ok_def)
  ultimately show ?thesis
    using that[OF eq] pq_map_add_mset(1)[of ?q' e "pq_queue q"] rs
    by (simp add: pq_map_def e_def entry_key_def resifted_def q1_def pq_length_def
      resifted_length[OF rs])
qed

lemma pop_empty:
  "pq_queue q = [] \<Longrightarrow> pop q wait = Inl (if wait then Blocked else LookupError)"
  by (simp add: pop_def top_entry_def pq_empty_def pq_length_def)

lemma take_out_invar:
  assumes "index_ok q" "mset (pq_queue q) = add_mset e (mset (pq_queue q1))"
    "pq_next_index q1 = pq_next_index q" "resifted q1 q2" "heap_ok (pq_keys q2)"
    "pq_event q2 = (pq_queue q2 \<noteq> [])"
  shows "pq_invar q2"
proof -
  have "index_ok q1"
    using index_ok_take_out[OF assms(1,2)] assms(3) by (simp add: index_ok_def)
  moreover have "pq_queue q1 = [] \<longleftrightarrow> pq_queue q2 = []"
    using assms(4) resifted_length by fastforce
  ultimately show ?thesis
    using resifted_invar[OF assms(4,5)] assms(4,6) by (simp add: resifted_def)
qed

lemma pop_nonempty:
  assumes inv: "pq_invar q" and ne: "pq_queue q \<noteq> []"
  obtains e q' where "pop q wait = Inr (e, q')" "pq_invar q'" "e \<in> set (pq_queue q)"
    "\<And>e'. e' \<in> set (pq_queue q) \<Longrightarrow> entry_key e \<le> entry_key e'"
    "mset (pq_queue q) = add_mset e (mset (pq_queue q'))"
    "pq_map q (qe_item e) = Some (entry_key e)"
    "pq_map q' = (pq_map q)(qe_item e := None)"
    "pq_next_index q' = pq_next_index q"
proof -
  note result = that
  let ?n = "length (pq_queue q)" and ?e = "pq_queue q ! 0"
  have rq: "reverse_ok q" and hq: "heap_ok (pq_keys q)" and iq: "index_ok q"
    and ev: "pq_event q = (pq_queue q \<noteq> [])" and pos: "0 < ?n"
    using inv ne by (simp_all add: pq_invar_def)
  obtain q1 where sw: "pq_swap q 0 (?n - 1) = Inr q1"
    and del: "dict_del (pq_reverse q1) (qe_item ?e) =
      Inr (AList.delete (qe_item ?e) (pq_reverse q1))"
    and fr: "pq_event q1 = pq_event q" "pq_next_index q1 = pq_next_index q"
      "length (pq_queue q1) = ?n"
    and m: "mset (pq_queue q) = add_mset ?e (mset (butlast (pq_queue q1)))"
    and ks: "map entry_key (butlast (pq_queue q1)) = (if 0 = ?n - 1 then butlast (pq_keys q)
      else (butlast (pq_keys q))[0 := last (pq_keys q)])"
    and r2: "reverse_ok (q1\<lparr>pq_reverse := AList.delete (qe_item ?e) (pq_reverse q1),
      pq_queue := butlast (pq_queue q1)\<rparr>)"
    using take_out_ok[OF rq pos refl] by metis
  define q2 where "q2 = q1\<lparr>pq_reverse := AList.delete (qe_item ?e) (pq_reverse q1),
      pq_queue := butlast (pq_queue q1)\<rparr>"
  have top: "top_entry q wait = Inr ?e"
    using ne by (simp add: top_entry_def pq_empty_def pq_length_def)
  have least: "entry_key ?e \<le> entry_key e'" if "e' \<in> set (pq_queue q)" for e'
    using that heap_root_least[OF hq] pos by (auto simp: in_set_conv_nth)
  have fin: thesis
    if eq: "pop q wait = Inr (?e, q3)" and i3: "pq_invar q3"
      and m3: "mset (pq_queue q3) = mset (pq_queue q2)"
      and n3: "pq_next_index q3 = pq_next_index q" for q3
    using that pos m pq_map_take_out[OF rq, of q3 ?e] least
    by (intro result[OF eq i3]) (auto simp: q2_def pq_invar_def)
  show thesis
  proof (cases "0 < ?n - 1")
    case False
    then have "pq_queue q2 = []"
      using fr by (simp add: q2_def flip: length_0_conv)
    then have "pq_invar (q2\<lparr>pq_event := False\<rparr>)"
      using r2 q2_def by (simp add: pq_invar_def heap_ok_def pq_keys_def index_ok_def
        reverse_ok_def)
    moreover have "pop q wait = Inr (?e, q2\<lparr>pq_event := False\<rparr>)"
      using top sw del False by (simp add: pop_def Let_def q2_def)
    ultimately show ?thesis
      using fin fr by (simp add: q2_def)
  next
    case True
    have "heap_defect (pq_keys q2) 0"
      using True ks heap_ok_update_defect[OF heap_ok_butlast[OF hq], of 0]
      by (simp add: q2_def pq_keys_def)
    then obtain q3 i3 where dh: "down_heap q2 0 = Inr (q3, i3)" and rs: "resifted q2 q3"
      and h3: "heap_ok (pq_keys q3)"
      using down_heap_correct[of q2 0] r2 by (auto simp: q2_def par_ok_def)
    have "pq_queue q3 \<noteq> []"
      using resifted_length[OF rs] True fr by (auto simp: q2_def)
    then have "pq_invar q3"
      using take_out_invar[of q ?e q2 q3] iq m fr rs h3 ev ne by (simp add: q2_def resifted_def)
    moreover have "pop q wait = Inr (?e, q3)"
      using top sw del dh True by (simp add: pop_def Let_def q2_def)
    ultimately show ?thesis
      using fin rs fr by (simp add: resifted_def q2_def)
  qed
qed

lemma remove_absent: "\<not> pq_contains q it \<Longrightarrow> remove q it = Inl KeyError"
  by (simp add: remove_def pq_contains_def dict_has_def dict_get_def)

lemma reverse_ok_position:
  assumes "reverse_ok q" "pq_contains q it"
  obtains pos where "map_of (pq_reverse q) it = Some pos" "pos < length (pq_queue q)"
    "qe_item (pq_queue q ! pos) = it"
  using assms unfolding pq_contains_def dict_has_def reverse_ok_def by blast

lemma remove_present:
  assumes inv: "pq_invar q" and has: "pq_contains q it"
  obtains e q' where "remove q it = Inr (e, q')" "pq_invar q'" "qe_item e = it"
    "e \<in> set (pq_queue q)" "mset (pq_queue q) = add_mset e (mset (pq_queue q'))"
    "pq_map q it = Some (entry_key e)" "pq_map q' = (pq_map q)(it := None)"
    "pq_next_index q' = pq_next_index q"
proof -
  let ?n = "length (pq_queue q)"
  have rq: "reverse_ok q" and hq: "heap_ok (pq_keys q)" and iq: "index_ok q"
    and ev: "pq_event q = (pq_queue q \<noteq> [])"
    using inv by (simp_all add: pq_invar_def)
  obtain pos where get: "map_of (pq_reverse q) it = Some pos" and pos: "pos < ?n"
    and it: "qe_item (pq_queue q ! pos) = it"
    using reverse_ok_position[OF rq has] .
  let ?e = "pq_queue q ! pos"
  obtain q1 where sw: "pq_swap q pos (?n - 1) = Inr q1"
    and del: "dict_del (pq_reverse q1) (qe_item ?e) =
      Inr (AList.delete (qe_item ?e) (pq_reverse q1))"
    and fr: "pq_event q1 = pq_event q" "pq_next_index q1 = pq_next_index q"
      "length (pq_queue q1) = ?n"
    and m: "mset (pq_queue q) = add_mset ?e (mset (butlast (pq_queue q1)))"
    and ks: "map entry_key (butlast (pq_queue q1)) = (if pos = ?n - 1 then butlast (pq_keys q)
      else (butlast (pq_keys q))[pos := last (pq_keys q)])"
    and r2: "reverse_ok (q1\<lparr>pq_reverse := AList.delete (qe_item ?e) (pq_reverse q1),
      pq_queue := butlast (pq_queue q1)\<rparr>)"
    using take_out_ok[OF rq pos refl] by metis
  define q2 where "q2 = q1\<lparr>pq_reverse := AList.delete (qe_item ?e) (pq_reverse q1),
      pq_queue := butlast (pq_queue q1)\<rparr>"
  have "\<exists>q4. (if pos \<noteq> ?n - 1 then res_bind (updown_heap q2 pos) (\<lambda>(q3, _). Inr q3)
      else Inr q2) = Inr q4 \<and> resifted q2 q4 \<and> heap_ok (pq_keys q4)"
  proof (cases "pos = ?n - 1")
    case True
    then show ?thesis
      using ks r2 heap_ok_butlast[OF hq] by (simp add: q2_def pq_keys_def resifted_refl)
  next
    case False
    then have "heap_defect (pq_keys q2) pos"
      using ks pos heap_ok_update_defect[OF heap_ok_butlast[OF hq], of pos]
      by (simp add: q2_def pq_keys_def)
    then obtain q4 i where "updown_heap q2 pos = Inr (q4, i)" "resifted q2 q4"
      "heap_ok (pq_keys q4)"
      using updown_heap_correct[of q2 pos] r2 by (auto simp: q2_def)
    then show ?thesis using False by simp
  qed
  then obtain q4 where q4: "(if pos \<noteq> ?n - 1 then res_bind (updown_heap q2 pos) (\<lambda>(q3, _). Inr q3)
      else Inr q2) = Inr q4" and rs: "resifted q2 q4" and h4: "heap_ok (pq_keys q4)"
    by blast
  define q5 where "q5 = (if pq_empty q4 then q4\<lparr>pq_event := False\<rparr> else q4)"
  have q5: "pq_queue q5 = pq_queue q4" "pq_reverse q5 = pq_reverse q4"
    "pq_next_index q5 = pq_next_index q4" "pq_event q5 = (pq_queue q5 \<noteq> [])"
    using rs fr ev pos by (auto simp: q5_def pq_empty_def pq_length_def resifted_def q2_def)
  have "remove q it = res_bind (if pos \<noteq> ?n - 1 then res_bind (updown_heap q2 pos)
      (\<lambda>(q3, _). Inr q3) else Inr q2)
      (\<lambda>q4. Inr (?e, if pq_empty q4 then q4\<lparr>pq_event := False\<rparr> else q4))"
    using get pos sw del unfolding q2_def it
    by (simp add: remove_def Let_def split del: if_split)
  then have eq: "remove q it = Inr (?e, q5)"
    unfolding q4 by (simp add: q5_def)
  have i5: "pq_invar q5"
    using take_out_invar[of q ?e "q2\<lparr>pq_event := pq_event q5\<rparr>" q5] iq m fr rs h4 q5
    by (simp add: q2_def resifted_def reverse_ok_def pq_keys_def)
  have "mset (pq_queue q) = add_mset ?e (mset (pq_queue q5))"
    using m rs q5 by (simp add: resifted_def q2_def)
  then show thesis
    using that[OF eq i5 it] pq_map_take_out[OF rq, of q5 ?e] i5 it pos rs fr q5
    by (simp add: pq_invar_def resifted_def q2_def)
qed

lemma set_priority_absent: "\<not> pq_contains q it \<Longrightarrow> set_priority q it p = Inl KeyError"
  by (simp add: set_priority_def pq_contains_def dict_has_def dict_get_def)

lemma set_priority_present:
  assumes inv: "pq_invar q" and has: "pq_contains q it"
  obtains k q' where "set_priority q it p = Inr q'" "pq_invar q'"
    "pq_map q it = Some k" "pq_map q' = (pq_map q)(it \<mapsto> (p, snd k))"
    "pq_next_index q' = pq_next_index q"
proof -
  have rq: "reverse_ok q" and hq: "heap_ok (pq_keys q)" and iq: "index_ok q"
    and ev: "pq_event q = (pq_queue q \<noteq> [])"
    using inv by (simp_all add: pq_invar_def)
  obtain pos where get: "map_of (pq_reverse q) it = Some pos" and pos: "pos < length (pq_queue q)"
    and it: "qe_item (pq_queue q ! pos) = it"
    using reverse_ok_position[OF rq has] .
  let ?e = "pq_queue q ! pos"
  let ?e' = "?e\<lparr>qe_priority := p\<rparr>"
  define q1 where "q1 = q\<lparr>pq_queue := (pq_queue q)[pos := ?e']\<rparr>"
  have idxs: "map qe_index (pq_queue q1) = map qe_index (pq_queue q)"
    using pos by (intro nth_equalityI) (auto simp: q1_def nth_list_update)
  have "qe_item (pq_queue q1 ! i) = qe_item (pq_queue q ! i)" for i
    by (cases "i = pos") (use pos in \<open>simp_all add: q1_def\<close>)
  then have r1: "reverse_ok q1"
    using rq by (simp add: reverse_ok_def q1_def)
  have i1: "index_ok q1"
    using iq idxs pos set_update_subset_insert[of "pq_queue q" pos ?e']
    by (auto simp: index_ok_def q1_def)
  have "heap_defect (pq_keys q1) pos"
    using heap_ok_update_defect[OF hq, of pos "entry_key ?e'"] pos
    by (simp add: q1_def pq_keys_def map_update)
  then obtain q2 i where ud: "updown_heap q1 pos = Inr (q2, i)" and rs: "resifted q1 q2"
    and h2: "heap_ok (pq_keys q2)"
    using updown_heap_correct[OF r1] by blast
  have eq: "set_priority q it p = Inr q2"
    using get pos ud by (simp add: set_priority_def q1_def)
  have i2: "pq_invar q2"
    using resifted_invar[OF rs h2 i1] ev pos by (auto simp: q1_def)
  let ?rest = "take pos (pq_queue q) @ drop (Suc pos) (pq_queue q)"
  have m: "mset (pq_queue q) = add_mset ?e (mset ?rest)"
    using pos by (subst id_take_nth_drop[OF pos]) simp
  have m1: "mset (pq_queue q1) = add_mset ?e' (mset ?rest)"
    using pos by (simp add: q1_def upd_conv_take_nth_drop)
  have "pq_map q1 = (pq_map q)(it \<mapsto> (p, snd (entry_key ?e)))"
      "pq_map q it = Some (entry_key ?e)"
    unfolding pq_map_add_mset(1)[OF rq m] pq_map_add_mset(1)[OF r1 m1] using it
    by (simp_all add: entry_key_def)
  moreover have "pq_map q2 = pq_map q1"
    using rs by (intro pq_map_mset[OF r1]) (simp_all add: resifted_def)
  ultimately show thesis
    using that[OF eq i2] rs by (simp add: resifted_def q1_def)
qed

section \<open>The queue implements the interface\<close>

lemma pq_map_empty_iff: "pq_map q = Map.empty \<longleftrightarrow> pq_queue q = []"
  by (simp add: pq_map_def)

interpretation heap_queue: keyed_queue pq_invar pq_map "\<lambda>q. pop q False" qe_item entry_key
  pq_contains "\<lambda>q it (p, t, now). push now q it p t"
  "\<lambda>q (p, t, now). (default_priority p, default_timestamp now t, pq_next_index q)" remove
proof (unfold_locales, goal_cases)
  case (1 q)
  show ?case by (simp add: pq_map_def finite_dom_map_of)
next
  case (2 q)
  then show ?case by (simp add: pop_empty pq_map_empty_iff)
next
  case (3 q)
  then have ne: "pq_queue q \<noteq> []" by (simp add: pq_map_empty_iff)
  obtain e q' where "pop q False = Inr (e, q')" "pq_invar q'"
    "pq_map q (qe_item e) = Some (entry_key e)" "pq_map q' = (pq_map q)(qe_item e := None)"
    "\<And>e'. e' \<in> set (pq_queue q) \<Longrightarrow> entry_key e \<le> entry_key e'"
    using pop_nonempty[OF 3(1) ne] by metis
  moreover have "\<exists>e'\<in>set (pq_queue q). entry_key e' = k" if "pq_map q i = Some k" for i k
  proof -
    have "(i, k) \<in> set (map (\<lambda>e. (qe_item e, entry_key e)) (pq_queue q))"
      using that unfolding pq_map_def by (rule map_of_SomeD)
    then show ?thesis by auto
  qed
  ultimately show ?case by metis
next
  case (4 q i)
  then show ?case by (simp add: pq_contains_map pq_invar_def)
next
  case (5 q i p)
  then show ?case by (simp add: push_old split: prod.splits)
next
  case (6 q i p)
  obtain prio t now where p: "p = (prio, t, now)" by (metis prod_cases3)
  show ?case
    using push_new[OF 6] unfolding p by (metis case_prod_conv)
next
  case (7 q i)
  then show ?case by (rule remove_absent)
next
  case (8 q i)
  show ?case
    using remove_present[OF 8] by metis
qed

lemma pq_invar_verify:
  assumes "pq_invar q"
  shows "pq_verify q"
proof -
  have r: "reverse_ok q" and ev: "pq_event q = (pq_queue q \<noteq> [])"
    using assms by (simp_all add: pq_invar_def)
  have "dom (map_of (pq_reverse q)) = qe_item ` set (pq_queue q)"
    using pq_contains_iff[OF r] by (auto simp: pq_contains_def dict_has_def)
  moreover have "card (qe_item ` set (pq_queue q)) = length (pq_queue q)"
    using distinct_card[OF reverse_ok_distinct[OF r]] by simp
  ultimately have "length (pq_reverse q) = length (pq_queue q)"
    using length_dict_ok[of "pq_reverse q"] r by (simp add: reverse_ok_def)
  moreover have "idx < length (pq_queue q) \<and> qe_item (pq_queue q ! idx) = it"
    if "(it, idx) \<in> set (pq_reverse q)" for it idx
    using that r unfolding reverse_ok_def dict_ok_def by (metis map_of_eq_Some_iff)
  ultimately show ?thesis
    using ev by (auto simp: pq_verify_def list_all_iff pq_empty_def pq_length_def)
qed

section \<open>Sequences of operations\<close>

text \<open>Any client of the queue issues a sequence of these calls; a call that raises leaves the
  queue as it is.\<close>

datatype 'i pq_cmd =
    Push datetime 'i "int option" "datetime option"
  | Pop
  | Remove 'i
  | SetPriority 'i int

fun pq_step :: "'i pqueue \<Rightarrow> 'i pq_cmd \<Rightarrow> 'i pqueue" where
  "pq_step q (Push now it p t) = (case push now q it p t of Inl _ \<Rightarrow> q | Inr (_, q') \<Rightarrow> q')"
| "pq_step q Pop = (case pop q False of Inl _ \<Rightarrow> q | Inr (_, q') \<Rightarrow> q')"
| "pq_step q (Remove it) = (case remove q it of Inl _ \<Rightarrow> q | Inr (_, q') \<Rightarrow> q')"
| "pq_step q (SetPriority it p) = (case set_priority q it p of Inl _ \<Rightarrow> q | Inr q' \<Rightarrow> q')"

definition pq_run :: "'i pq_cmd list \<Rightarrow> 'i pqueue" where
  "pq_run cs = foldl pq_step pq_init cs"

lemma pq_step_invar:
  assumes inv: "pq_invar q"
  shows "pq_invar (pq_step q c)"
proof (cases c)
  case (Push now it p t)
  obtain b q' where "push now q it p t = Inr (b, q')" "pq_invar q'"
    by (rule heap_queue.add_total[OF inv, of it "(p, t, now)"]) auto
  then show ?thesis using Push by simp
next
  case Pop
  show ?thesis
  proof (cases "pq_queue q = []")
    case True
    then show ?thesis using Pop inv by (simp add: pop_empty)
  next
    case False
    obtain e q' where "pop q False = Inr (e, q')" "pq_invar q'"
      using pop_nonempty[OF inv False] by metis
    then show ?thesis using Pop by simp
  qed
next
  case (Remove it)
  show ?thesis
  proof (cases "pq_contains q it")
    case True
    obtain e q' where "remove q it = Inr (e, q')" "pq_invar q'"
      using remove_present[OF inv True] by metis
    then show ?thesis using Remove by simp
  next
    case False
    then show ?thesis using Remove inv by (simp add: remove_absent)
  qed
next
  case (SetPriority it p)
  show ?thesis
  proof (cases "pq_contains q it")
    case True
    obtain q' where "set_priority q it p = Inr q'" "pq_invar q'"
      using set_priority_present[OF inv True] by metis
    then show ?thesis using SetPriority by simp
  next
    case False
    then show ?thesis using SetPriority inv by (simp add: set_priority_absent)
  qed
qed

lemma pq_run_invar: "pq_invar (pq_run cs)"
proof -
  have "pq_invar (foldl pq_step q cs)" if "pq_invar q" for q :: "'a pqueue"
    using that by (induction cs arbitrary: q) (auto intro: pq_step_invar)
  then show ?thesis by (simp add: pq_run_def pq_invar_init)
qed

section \<open>The queue as a finite map\<close>

text \<open>The abstract queue: a map from items to keys and the next index. \<open>Pop\<close> takes out an
  item with the least key; a call on an absent item, or a \<open>Pop\<close> of the empty map, changes
  nothing.\<close>

type_synonym 'i map_queue = "('i \<Rightarrow> queue_key option) \<times> nat"

inductive map_queue_step :: "'i map_queue \<Rightarrow> 'i pq_cmd \<Rightarrow> 'i map_queue \<Rightarrow> bool" where
  push_dup: "it \<in> dom m \<Longrightarrow> map_queue_step (m, n) (Push now it p t) (m, n)"
| push_fresh: "it \<notin> dom m \<Longrightarrow> map_queue_step (m, n) (Push now it p t)
    (m(it \<mapsto> (default_priority p, default_timestamp now t, n)), n + 1)"
| pop_none: "map_queue_step (Map.empty, n) Pop (Map.empty, n)"
| pop_least: "m it = Some k \<Longrightarrow> (\<And>it' k'. m it' = Some k' \<Longrightarrow> k \<le> k') \<Longrightarrow>
    map_queue_step (m, n) Pop (m(it := None), n)"
| remove_out: "map_queue_step (m, n) (Remove it) (m(it := None), n)"
| set_prio: "m it = Some k \<Longrightarrow> map_queue_step (m, n) (SetPriority it p) (m(it \<mapsto> (p, snd k)), n)"
| set_none: "m it = None \<Longrightarrow> map_queue_step (m, n) (SetPriority it p) (m, n)"

definition pq_abs :: "'i pqueue \<Rightarrow> 'i map_queue" where
  "pq_abs q = (pq_map q, pq_next_index q)"

lemma pq_step_simulates:
  assumes inv: "pq_invar q"
  shows "map_queue_step (pq_abs q) c (pq_abs (pq_step q c))"
proof -
  have r: "reverse_ok q" using inv by (simp add: pq_invar_def)
  note has = pq_contains_map[OF r]
  show ?thesis
  proof (cases c)
    case (Push now it p t)
    show ?thesis
    proof (cases "pq_contains q it")
      case True
      then show ?thesis
        using Push has by (simp add: push_old pq_abs_def push_dup)
    next
      case False
      obtain q' where "push now q it p t = Inr (True, q')"
        "pq_map q' = (pq_map q)(it \<mapsto>
          (default_priority p, default_timestamp now t, pq_next_index q))"
        "pq_next_index q' = pq_next_index q + 1"
        using push_new[OF inv False] by metis
      then show ?thesis
        using Push False has push_fresh[of it "pq_map q" "pq_next_index q" now p t]
        by (simp add: pq_abs_def)
    qed
  next
    case Pop
    show ?thesis
    proof (cases "pq_map q = Map.empty")
      case True
      moreover have "pq_queue q = []" using True by (simp add: pq_map_empty_iff)
      ultimately show ?thesis
        using Pop pop_none[of "pq_next_index q"] by (simp add: pop_empty pq_abs_def)
    next
      case False
      then have ne: "pq_queue q \<noteq> []" by (simp add: pq_map_empty_iff)
      obtain e q' where p: "pop q False = Inr (e, q')" "pq_next_index q' = pq_next_index q"
        using pop_nonempty[OF inv ne] by metis
      note d = heap_queue.pop_min_Inr[OF inv p(1)]
      show ?thesis
        using Pop p d(4)
          pop_least[of "pq_map q" "qe_item e" "entry_key e" "pq_next_index q", OF d(2) d(3)]
        by (simp add: pq_abs_def)
    qed
  next
    case (Remove it)
    show ?thesis
    proof (cases "pq_contains q it")
      case True
      obtain e q' where "remove q it = Inr (e, q')" "pq_map q' = (pq_map q)(it := None)"
        "pq_next_index q' = pq_next_index q"
        using remove_present[OF inv True] by metis
      then show ?thesis
        using Remove remove_out[of "pq_map q" "pq_next_index q" it] by (simp add: pq_abs_def)
    next
      case False
      then have "(pq_map q)(it := None) = pq_map q" using has by auto
      then show ?thesis
        using Remove False remove_out[of "pq_map q" "pq_next_index q" it]
        by (simp add: pq_abs_def remove_absent)
    qed
  next
    case (SetPriority it p)
    show ?thesis
    proof (cases "pq_contains q it")
      case True
      obtain k q' where "set_priority q it p = Inr q'" "pq_map q it = Some k"
        "pq_map q' = (pq_map q)(it \<mapsto> (p, snd k))" "pq_next_index q' = pq_next_index q"
        using set_priority_present[OF inv True] by metis
      then show ?thesis
        using SetPriority set_prio[of "pq_map q" it k "pq_next_index q" p]
        by (simp add: pq_abs_def)
    next
      case False
      then have "pq_map q it = None" using has by auto
      then show ?thesis
        using SetPriority False set_none[of "pq_map q" it "pq_next_index q" p]
        by (simp add: pq_abs_def set_priority_absent)
    qed
  qed
qed

section \<open>Properties\<close>

text \<open>(C1) After any sequence of pushes, pops, removals and priority changes from the empty
  queue, the self-check of the source succeeds, the list is a min-heap of distinct indices,
  and the event is set exactly when there is something to pop.\<close>

theorem priority_queue_consistent:
  "pq_verify (pq_run cs) \<and> heap_ok (pq_keys (pq_run cs)) \<and> index_ok (pq_run cs) \<and>
   pq_event (pq_run cs) = (\<not> pq_empty (pq_run cs))"
  using pq_run_invar[of cs] pq_invar_verify[OF pq_run_invar[of cs]]
  by (simp add: pq_invar_def pq_empty_def pq_length_def)

text \<open>(C2) The heap refines the abstract map queue: in every reachable state, each call acts
  on the map from items to keys as the abstract step does. In particular a \<open>pop\<close> takes out an
  item with the least (priority, timestamp, index), and no call is lost or duplicated.\<close>

theorem priority_queue_refines_map:
  "map_queue_step (pq_abs (pq_run cs)) c (pq_abs (pq_run (cs @ [c])))"
  using pq_step_simulates[OF pq_run_invar[of cs]] by (simp add: pq_run_def)

text \<open>(C3) Popping a reachable queue that is not empty returns an entry of the queue that is
  strictly before every other entry, and leaves exactly the others.\<close>

theorem pop_extracts_first:
  assumes "pq_queue (pq_run cs) \<noteq> []"
  shows "\<exists>e q'. pop (pq_run cs) wait = Inr (e, q') \<and>
    mset (pq_queue (pq_run cs)) = add_mset e (mset (pq_queue q')) \<and>
    (\<forall>e'\<in>set (pq_queue q'). entry_lt e e')"
proof -
  have inv: "pq_invar (pq_run cs)" by (rule pq_run_invar)
  obtain e q' where p: "pop (pq_run cs) wait = Inr (e, q')"
    and least: "\<And>e'. e' \<in> set (pq_queue (pq_run cs)) \<Longrightarrow> entry_key e \<le> entry_key e'"
    and m: "mset (pq_queue (pq_run cs)) = add_mset e (mset (pq_queue q'))"
    using pop_nonempty[OF inv assms] by metis
  have ms: "mset (pq_queue (pq_run cs)) = mset (e # pq_queue q')" using m by simp
  have "distinct (map qe_index (e # pq_queue q'))"
    using inv distinct_map_mset_eq[OF ms] unfolding pq_invar_def index_ok_def by blast
  then have "qe_index e' \<noteq> qe_index e" if "e' \<in> set (pq_queue q')" for e'
    using that by (auto simp: image_iff)
  then have "entry_lt e e'" if "e' \<in> set (pq_queue q')" for e'
    using that least[of e'] mset_eq_setD[OF ms] by (fastforce simp: entry_lt_def entry_key_def
      order.order_iff_strict)
  with p m show ?thesis by blast
qed

theorem pop_extracts_first_witness:
  "\<exists>e q'. pop (pq_run [Push 7 ''b'' None None, Push 9 ''a'' (Some 1) None]) False = Inr (e, q') \<and>
    mset (pq_queue (pq_run [Push 7 ''b'' None None, Push 9 ''a'' (Some 1) None])) =
      add_mset e (mset (pq_queue q')) \<and>
    (\<forall>e'\<in>set (pq_queue q'). entry_lt e e')"
proof (rule pop_extracts_first)
  show "pq_queue (pq_run [Push 7 ''b'' None None, Push 9 ''a'' (Some 1) None]) \<noteq> []"
    by code_simp
qed

end
