(* ===== verification/Triggered_Service.thy ===== *)
theory Triggered_Service
  imports Priority_Queue
begin

text \<open>
  The base of all services that perform operations when notified,
  \<^verbatim>\<open>cms/io/triggeredservice.py\<close>: an \<open>Executor\<close> owns an operation queue and dispatches
  its content, one operation at a time or in batches; a \<open>TriggeredService\<close> forwards every
  operation to all its executors and runs a sweeper that looks for missed operations.
  \<open>execute\<close>, \<open>max_operations_per_batch\<close> and \<open>_missing_operations\<close> are methods of the
  subclasses and appear as arguments.
\<close>

section \<open>Executor\<close>

record 'i executor =
  ex_batch_executions :: bool
  ex_operation_queue :: "'i pqueue"

definition executor_init :: "bool \<Rightarrow> 'i executor" where
  "executor_init batch = \<lparr>ex_batch_executions = batch, ex_operation_queue = pq_init\<rparr>"

definition ex_contains :: "'i executor \<Rightarrow> 'i \<Rightarrow> bool" where
  "ex_contains ex it = pq_contains (ex_operation_queue ex) it"

definition ex_get_status :: "('i \<Rightarrow> 'd) \<Rightarrow> 'i executor \<Rightarrow> ('d \<times> int \<times> datetime) list" where
  "ex_get_status to_dict ex = pq_get_status to_dict (ex_operation_queue ex)"

definition ex_enqueue ::
  "datetime \<Rightarrow> 'i executor \<Rightarrow> 'i \<Rightarrow> int option \<Rightarrow> datetime option \<Rightarrow> (bool \<times> 'i executor) res"
where
  "ex_enqueue now ex it p t =
     res_bind (push now (ex_operation_queue ex) it p t)
       (\<lambda>(b, q). Inr (b, ex\<lparr>ex_operation_queue := q\<rparr>))"

definition ex_dequeue :: "'i executor \<Rightarrow> 'i \<Rightarrow> ('i queue_entry \<times> 'i executor) res" where
  "ex_dequeue ex it =
     res_bind (remove (ex_operation_queue ex) it)
       (\<lambda>(e, q). Inr (e, ex\<lparr>ex_operation_queue := q\<rparr>))"

definition ex_pop :: "'i executor \<Rightarrow> bool \<Rightarrow> ('i queue_entry \<times> 'i executor) res" where
  "ex_pop ex wait =
     res_bind (pop (ex_operation_queue ex) wait)
       (\<lambda>(e, q). Inr (e, ex\<lparr>ex_operation_queue := q\<rparr>))"

text \<open>The inner loop of \<open>run\<close>, which fills a batch. A subclass may override \<open>_pop\<close>, so the
  loop takes it as an argument, with the emptiness test of the queue. The loop is unfolded
  \<open>fuel\<close> times at most; \<open>None\<close> means that the fuel ran out.\<close>

fun batch_loop ::
  "nat \<Rightarrow> ('s \<Rightarrow> ('e \<times> 's) res) \<Rightarrow> ('s \<Rightarrow> bool) \<Rightarrow> nat \<Rightarrow> 'e list \<Rightarrow> 's \<Rightarrow> ('e list \<times> 's) res option"
where
  "batch_loop 0 pop_op empty_op mx acc s = None"
| "batch_loop (Suc fuel) pop_op empty_op mx acc s =
     (if \<not> empty_op s \<and> (mx = 0 \<or> length acc < mx) then
        (case pop_op s of
           Inl e \<Rightarrow> Some (Inl e)
         | Inr (x, s') \<Rightarrow> batch_loop fuel pop_op empty_op mx (acc @ [x]) s')
      else Some (Inr (acc, s)))"

text \<open>What one iteration of \<open>run\<close> extracts. \<open>max_ops\<close> is \<open>max_operations_per_batch()\<close>, called
  after the first pop, \<open>0\<close> meaning no limit; the queue length bounds the number of rounds of
  the inner loop.\<close>

definition run_extract ::
  "('i executor \<Rightarrow> nat) \<Rightarrow> 'i executor \<Rightarrow> ('i queue_entry list \<times> 'i executor) res option"
where
  "run_extract max_ops ex =
     (case ex_pop ex True of
        Inl e \<Rightarrow> Some (Inl e)
      | Inr (x, ex1) \<Rightarrow>
          if ex_batch_executions ex1 then
            batch_loop (Suc (pq_length (ex_operation_queue ex1))) (\<lambda>s. ex_pop s False)
              (\<lambda>s. pq_empty (ex_operation_queue s)) (max_ops ex1) [x] ex1
          else Some (Inr ([x], ex1)))"

text \<open>The rest of the iteration: \<open>execute\<close> runs on the extracted entries and on the state of
  the subclass; an exception is logged and suppressed, the effects before it stay.\<close>

definition run_execute ::
  "('i queue_entry list \<Rightarrow> 's \<Rightarrow> 's \<times> unit res) \<Rightarrow> 'i queue_entry list \<Rightarrow> 's \<Rightarrow> 's res"
where
  "run_execute execute entries s =
     (if entries = [] then Inl AssertionError else Inr (fst (execute entries s)))"

section \<open>TriggeredService\<close>

record 'i triggered_service =
  ts_executors :: "'i executor list"
  ts_sweeper_started :: bool
  ts_sweeper_timeout :: "real option"
  ts_sweeper_start :: "real option"
  ts_sweeper_event :: bool

definition triggered_service_init :: "'i triggered_service" where
  "triggered_service_init =
     \<lparr>ts_executors = [], ts_sweeper_started = False, ts_sweeper_timeout = None,
      ts_sweeper_start = None, ts_sweeper_event = False\<rparr>"

definition add_executor :: "'i triggered_service \<Rightarrow> 'i executor \<Rightarrow> 'i triggered_service" where
  "add_executor s ex = s\<lparr>ts_executors := ts_executors s @ [ex]\<rparr>"

definition get_executor :: "'i triggered_service \<Rightarrow> 'i executor res" where
  "get_executor s = py_nth (ts_executors s) 0"

text \<open>\<open>enqueue\<close>: the loop over the executors counts those that took the operation.\<close>

fun enqueue_loop ::
  "datetime \<Rightarrow> 'i \<Rightarrow> int option \<Rightarrow> datetime option \<Rightarrow> 'i executor list \<Rightarrow> nat \<times> 'i executor list \<times> unit res"
where
  "enqueue_loop now it p t [] = (0, [], Inr ())"
| "enqueue_loop now it p t (ex # exs) =
     (case ex_enqueue now ex it p t of
        Inl e \<Rightarrow> (0, ex # exs, Inl e)
      | Inr (b, ex') \<Rightarrow>
          (case enqueue_loop now it p t exs of
             (n, exs', r) \<Rightarrow> ((if b then n + 1 else n), ex' # exs', r)))"

definition ts_enqueue ::
  "datetime \<Rightarrow> 'i triggered_service \<Rightarrow> 'i \<Rightarrow> int option \<Rightarrow> datetime option \<Rightarrow>
   'i triggered_service \<times> nat res"
where
  "ts_enqueue now s it p t =
     (case enqueue_loop now it p t (ts_executors s) of
        (n, exs, Inl e) \<Rightarrow> (s\<lparr>ts_executors := exs\<rparr>, Inl e)
      | (n, exs, Inr _) \<Rightarrow> (s\<lparr>ts_executors := exs\<rparr>, Inr n))"

text \<open>\<open>dequeue\<close> stops at the first executor that does not hold the operation; the executors
  before it have already forgotten it.\<close>

fun dequeue_loop :: "'i \<Rightarrow> 'i executor list \<Rightarrow> 'i executor list \<times> unit res" where
  "dequeue_loop it [] = ([], Inr ())"
| "dequeue_loop it (ex # exs) =
     (case ex_dequeue ex it of
        Inl e \<Rightarrow> (ex # exs, Inl e)
      | Inr (_, ex') \<Rightarrow> (case dequeue_loop it exs of (exs', r) \<Rightarrow> (ex' # exs', r)))"

definition ts_dequeue :: "'i triggered_service \<Rightarrow> 'i \<Rightarrow> 'i triggered_service \<times> unit res" where
  "ts_dequeue s it =
     (case dequeue_loop it (ts_executors s) of (exs, r) \<Rightarrow> (s\<lparr>ts_executors := exs\<rparr>, r))"

definition start_sweeper :: "'i triggered_service \<Rightarrow> real \<Rightarrow> 'i triggered_service" where
  "start_sweeper s timeout =
     (if \<not> ts_sweeper_started s
      then s\<lparr>ts_sweeper_started := True, ts_sweeper_timeout := Some timeout\<rparr>
      else s)"

text \<open>One round of \<open>_sweeper_loop\<close>: \<open>sweep\<close> is \<open>_sweep\<close> of the subclass, whose exceptions are
  logged and suppressed; \<open>now0\<close> and \<open>now1\<close> are the clock before and after it. The result is the
  time the loop waits for the event.\<close>

definition sweeper_round ::
  "real \<Rightarrow> real \<Rightarrow> ('i triggered_service \<Rightarrow> 'i triggered_service \<times> nat res) \<Rightarrow>
   'i triggered_service \<Rightarrow> 'i triggered_service \<times> real res"
where
  "sweeper_round now0 now1 sweep s =
     (let s1 = s\<lparr>ts_sweeper_start := Some now0, ts_sweeper_event := False\<rparr>;
          s2 = fst (sweep s1)
      in case (ts_sweeper_start s2, ts_sweeper_timeout s2) of
           (Some start, Some timeout) \<Rightarrow> (s2, Inr (max (start + timeout - now1) 0))
         | _ \<Rightarrow> (s2, Inl TypeError))"

definition search_operations_not_done :: "'i triggered_service \<Rightarrow> 'i triggered_service" where
  "search_operations_not_done s = s\<lparr>ts_sweeper_event := True\<rparr>"

definition queue_status ::
  "('i \<Rightarrow> 'd) \<Rightarrow> 'i triggered_service \<Rightarrow> ('d \<times> int \<times> datetime) list list" where
  "queue_status to_dict s = map (ex_get_status to_dict) (ts_executors s)"

section \<open>Filling a batch, for any queue\<close>

context min_queue
begin

lemma batch_loop_fills:
  assumes "invar s" "card (dom (content s)) < fuel"
    and empty_op: "\<And>s. empty_op s \<longleftrightarrow> content s = Map.empty"
  shows "\<exists>es s'. batch_loop fuel pop_min empty_op mx acc s = Some (Inr (acc @ es, s')) \<and>
    pops pop_min s es s' \<and> (content s' = Map.empty \<or> mx \<noteq> 0 \<and> mx \<le> length (acc @ es)) \<and>
    (mx = 0 \<or> length (acc @ es) \<le> max mx (length acc))"
  using assms(1,2)
proof (induction fuel arbitrary: s acc)
  case (Suc fuel)
  show ?case
  proof (cases "content s \<noteq> Map.empty \<and> (mx = 0 \<or> length acc < mx)")
    case False
    then show ?thesis
      by (intro exI[of _ "[]"] exI[of _ s]) (auto simp: empty_op[of s])
  next
    case True
    then obtain x s1 where p: "pop_min s = Inr (x, s1)"
      using pop_min_some[OF Suc.prems(1)] by blast
    note d = pop_min_Inr[OF Suc.prems(1) p]
    have "dom (content s1) = dom (content s) - {item_of x}" "item_of x \<in> dom (content s)"
      using d(2,4) by auto
    then have "card (dom (content s1)) < card (dom (content s))"
      using card_Diff1_less[OF finite_content[OF Suc.prems(1)]] by metis
    then have "card (dom (content s1)) < fuel" using Suc.prems(2) by simp
    then obtain es s' where ih: "batch_loop fuel pop_min empty_op mx (acc @ [x]) s1 =
        Some (Inr ((acc @ [x]) @ es, s'))" "pops pop_min s1 es s'"
      "content s' = Map.empty \<or> mx \<noteq> 0 \<and> mx \<le> length ((acc @ [x]) @ es)"
      "mx = 0 \<or> length ((acc @ [x]) @ es) \<le> max mx (length (acc @ [x]))"
      using Suc.IH[OF d(1)] by blast
    then show ?thesis
      using True p by (intro exI[of _ "x # es"] exI[of _ s']) (auto simp: empty_op[of s])
  qed
qed simp

end

section \<open>An executor is a keyed queue\<close>

definition ex_invar :: "'i executor \<Rightarrow> bool" where
  "ex_invar ex \<longleftrightarrow> pq_invar (ex_operation_queue ex)"

abbreviation ex_content :: "'i executor \<Rightarrow> 'i \<Rightarrow> queue_key option" where
  "ex_content ex \<equiv> pq_map (ex_operation_queue ex)"

lemma ex_invar_init: "ex_invar (executor_init b)"
  by (simp add: ex_invar_def executor_init_def pq_invar_init)

lemma ex_pop_wait:
  assumes "ex_invar ex" "ex_content ex \<noteq> Map.empty"
  obtains x q where "ex_pop ex w = Inr (x, ex\<lparr>ex_operation_queue := q\<rparr>)" "pq_invar q"
    "ex_content ex (qe_item x) = Some (entry_key x)"
    "\<forall>i k. ex_content ex i = Some k \<longrightarrow> entry_key x \<le> k"
    "pq_map q = (ex_content ex)(qe_item x := None)"
proof -
  have ne: "pq_queue (ex_operation_queue ex) \<noteq> []"
    using assms(2) by (simp add: pq_map_empty_iff)
  obtain x q where p: "pop (ex_operation_queue ex) w = Inr (x, q)" "pq_invar q"
    "ex_content ex (qe_item x) = Some (entry_key x)"
    "\<And>e. e \<in> set (pq_queue (ex_operation_queue ex)) \<Longrightarrow> entry_key x \<le> entry_key e"
    "pq_map q = (ex_content ex)(qe_item x := None)"
    using pop_nonempty[OF _ ne] assms(1) unfolding ex_invar_def by metis
  have "entry_key x \<le> k" if "ex_content ex i = Some k" for i k
  proof -
    have "(i, k) \<in> set (map (\<lambda>e. (qe_item e, entry_key e)) (pq_queue (ex_operation_queue ex)))"
      using that unfolding pq_map_def by (rule map_of_SomeD)
    then show ?thesis using p(4) by auto
  qed
  then show ?thesis
    using that p by (simp add: ex_pop_def)
qed

interpretation executor_queue: keyed_queue ex_invar ex_content "\<lambda>ex. ex_pop ex False" qe_item
  entry_key ex_contains "\<lambda>ex it (p, t, now). ex_enqueue now ex it p t"
  "\<lambda>ex (p, t, now). (default_priority p, default_timestamp now t,
     pq_next_index (ex_operation_queue ex))" ex_dequeue
proof (unfold_locales, goal_cases)
  case (1 ex)
  then show ?case by (simp add: ex_invar_def heap_queue.finite_content)
next
  case (2 ex)
  then show ?case by (simp add: ex_pop_def pop_empty pq_map_empty_iff)
next
  case (3 ex)
  obtain x q where "ex_pop ex False = Inr (x, ex\<lparr>ex_operation_queue := q\<rparr>)" "pq_invar q"
    "ex_content ex (qe_item x) = Some (entry_key x)"
    "\<forall>i k. ex_content ex i = Some k \<longrightarrow> entry_key x \<le> k"
    "pq_map q = (ex_content ex)(qe_item x := None)"
    using ex_pop_wait[OF 3, of False] .
  then show ?case
    by (intro exI[of _ x] exI[of _ "ex\<lparr>ex_operation_queue := q\<rparr>"]) (simp add: ex_invar_def)
next
  case (4 ex i)
  then show ?case by (simp add: ex_contains_def ex_invar_def heap_queue.contains_iff)
next
  case (5 ex i p)
  then show ?case by (auto simp: ex_contains_def ex_enqueue_def push_old split: prod.splits)
next
  case (6 ex i p)
  obtain pr t now where p: "p = (pr, t, now)" by (metis prod_cases3)
  have "pq_invar (ex_operation_queue ex)" "\<not> pq_contains (ex_operation_queue ex) i"
    using 6 by (simp_all add: ex_invar_def ex_contains_def)
  then obtain q where "push now (ex_operation_queue ex) i pr t = Inr (True, q)" "pq_invar q"
    "pq_map q = (ex_content ex)(i \<mapsto> (default_priority pr, default_timestamp now t,
      pq_next_index (ex_operation_queue ex)))"
    using push_new by metis
  then show ?case by (simp add: p ex_enqueue_def ex_invar_def)
next
  case (7 ex i)
  then show ?case by (simp add: ex_contains_def ex_dequeue_def remove_absent)
next
  case (8 ex i)
  then have "pq_invar (ex_operation_queue ex)" "pq_contains (ex_operation_queue ex) i"
    by (simp_all add: ex_invar_def ex_contains_def)
  then obtain e q where "remove (ex_operation_queue ex) i = Inr (e, q)" "pq_invar q"
    "qe_item e = i" "ex_content ex i = Some (entry_key e)" "pq_map q = (ex_content ex)(i := None)"
    using remove_present by metis
  then show ?case by (simp add: ex_dequeue_def ex_invar_def)
qed

lemma ex_pop_batch_flag:
  "ex_pop ex w = Inr (x, ex') \<Longrightarrow> ex_batch_executions ex' = ex_batch_executions ex"
  by (auto simp: ex_pop_def res_simps)

lemma card_ex_content: "ex_invar ex \<Longrightarrow> card (dom (ex_content ex)) = pq_length (ex_operation_queue ex)"
  using reverse_ok_distinct[of "ex_operation_queue ex"] distinct_card
  by (fastforce simp: ex_invar_def pq_invar_def pq_map_def dom_map_of_conv_image_fst image_image
    pq_length_def)

text \<open>An iteration of a batch executor extracts an initial segment of the queue in order.\<close>

lemma run_extract_batch:
  assumes inv: "ex_invar ex" and ne: "ex_content ex \<noteq> Map.empty" and b: "ex_batch_executions ex"
    and mx: "\<And>e. max_ops e = mx"
  shows "\<exists>es ex'. run_extract max_ops ex = Some (Inr (es, ex')) \<and> es \<noteq> [] \<and>
    pops (\<lambda>ex. ex_pop ex False) ex es ex' \<and>
    (mx = 0 \<or> length es \<le> mx) \<and> (ex_content ex' = Map.empty \<or> mx \<noteq> 0 \<and> mx \<le> length es)"
proof -
  obtain x q where p: "\<And>w. ex_pop ex w = Inr (x, ex\<lparr>ex_operation_queue := q\<rparr>)" "pq_invar q"
  proof -
    obtain x q where "ex_pop ex False = Inr (x, ex\<lparr>ex_operation_queue := q\<rparr>)" "pq_invar q"
      using ex_pop_wait[OF inv ne, of False] .
    moreover have "ex_pop ex w = ex_pop ex False" for w
      using ne by (simp add: ex_pop_def pop_def top_entry_def pq_empty_def pq_length_def
        pq_map_empty_iff)
    ultimately show ?thesis using that by simp
  qed
  let ?ex1 = "ex\<lparr>ex_operation_queue := q\<rparr>"
  have i1: "ex_invar ?ex1" using p by (simp add: ex_invar_def)
  have "card (dom (ex_content ?ex1)) < Suc (pq_length q)"
    using card_ex_content[OF i1] by simp
  moreover have "pq_empty (ex_operation_queue s) \<longleftrightarrow> ex_content s = Map.empty"
    for s :: "'a executor"
    by (simp add: pq_empty_def pq_length_def pq_map_empty_iff)
  ultimately obtain es ex' where
    "batch_loop (Suc (pq_length q)) (\<lambda>ex. ex_pop ex False) (\<lambda>s. pq_empty (ex_operation_queue s))
      mx [x] ?ex1 = Some (Inr ([x] @ es, ex'))"
    "pops (\<lambda>ex. ex_pop ex False) ?ex1 es ex'"
    "ex_content ex' = Map.empty \<or> mx \<noteq> 0 \<and> mx \<le> length ([x] @ es)"
    "mx = 0 \<or> length ([x] @ es) \<le> max mx (length [x])"
    using executor_queue.batch_loop_fills[OF i1, of "Suc (pq_length q)"
        "\<lambda>s. pq_empty (ex_operation_queue s)" mx "[x]"] by blast
  then show ?thesis
    using p b mx by (intro exI[of _ "x # es"] exI[of _ ex']) (auto simp: run_extract_def)
qed

section \<open>All executors of a service\<close>

definition enqueued :: "'i \<Rightarrow> 'i executor \<Rightarrow> 'i executor \<Rightarrow> bool" where
  "enqueued it ex ex' \<longleftrightarrow> ex_invar ex' \<and> ex_contains ex' it \<and>
     dom (ex_content ex') = insert it (dom (ex_content ex))"

definition dequeued :: "'i \<Rightarrow> 'i executor \<Rightarrow> 'i executor \<Rightarrow> bool" where
  "dequeued it ex ex' \<longleftrightarrow> ex_invar ex' \<and> ex_content ex' = (ex_content ex)(it := None)"

lemma ex_enqueue_total:
  assumes "ex_invar ex"
  shows "\<exists>ex'. ex_enqueue now ex it p t = Inr (\<not> ex_contains ex it, ex') \<and> enqueued it ex ex'"
proof -
  obtain b ex' where e: "ex_enqueue now ex it p t = Inr (b, ex')" "ex_invar ex'"
    "b \<longleftrightarrow> it \<notin> dom (ex_content ex)" "dom (ex_content ex') = insert it (dom (ex_content ex))"
    by (rule executor_queue.add_total[OF assms, of it "(p, t, now)"]) auto
  then have "enqueued it ex ex'"
    by (simp add: enqueued_def executor_queue.contains_iff)
  then show ?thesis
    using e(1,3) executor_queue.contains_iff[OF assms] by auto
qed

lemma ex_dequeue_present:
  assumes "ex_invar ex" "ex_contains ex it"
  shows "\<exists>e ex'. ex_dequeue ex it = Inr (e, ex') \<and> dequeued it ex ex'"
  using executor_queue.delete_present[OF assms] unfolding dequeued_def by blast

lemma enqueue_loop_counts:
  assumes "\<forall>ex\<in>set exs. ex_invar ex"
  shows "\<exists>exs'. enqueue_loop now it p t exs =
      (length (filter (\<lambda>ex. \<not> ex_contains ex it) exs), exs', Inr ()) \<and>
    list_all2 (enqueued it) exs exs'"
  using assms
proof (induction exs)
  case (Cons ex exs)
  have inv: "ex_invar ex" using Cons.prems by simp
  from ex_enqueue_total[OF inv] obtain ex' where
    "ex_enqueue now ex it p t = Inr (\<not> ex_contains ex it, ex')" "enqueued it ex ex'" by blast
  moreover obtain exs' where "enqueue_loop now it p t exs =
      (length (filter (\<lambda>ex. \<not> ex_contains ex it) exs), exs', Inr ())"
    "list_all2 (enqueued it) exs exs'"
    using Cons.IH Cons.prems by auto
  ultimately show ?case
    by (intro exI[of _ "ex' # exs'"]) simp
qed simp

lemma dequeue_loop_all:
  assumes "\<forall>ex\<in>set exs. ex_invar ex \<and> ex_contains ex it"
  shows "\<exists>exs'. dequeue_loop it exs = (exs', Inr ()) \<and> list_all2 (dequeued it) exs exs'"
  using assms
proof (induction exs)
  case (Cons ex exs)
  have inv: "ex_invar ex" "ex_contains ex it" using Cons.prems by simp_all
  from ex_dequeue_present[OF inv] obtain e ex' where
    "ex_dequeue ex it = Inr (e, ex')" "dequeued it ex ex'" by blast
  moreover obtain exs' where "dequeue_loop it exs = (exs', Inr ())"
    "list_all2 (dequeued it) exs exs'"
    using Cons.IH Cons.prems by auto
  ultimately show ?case
    by (intro exI[of _ "ex' # exs'"]) simp
qed simp

section \<open>Properties\<close>

text \<open>One iteration of a batch executor on a queue that is not empty always ends, and takes
  out between one and \<open>max_operations_per_batch()\<close> operations (all of them when that is 0):
  distinct operations, in priority order, none of them after any operation that stays in the
  queue; and it stops early only when the queue is empty.\<close>

theorem run_extract_takes_first_operations:
  assumes "ex_invar ex" "ex_content ex \<noteq> Map.empty" "ex_batch_executions ex"
  shows "\<exists>es ex'. run_extract (\<lambda>_. mx) ex = Some (Inr (es, ex')) \<and> ex_invar ex' \<and>
    1 \<le> length es \<and> (mx = 0 \<or> length es \<le> mx) \<and>
    (ex_content ex' = Map.empty \<or> length es = mx) \<and>
    distinct (map qe_item es) \<and> sorted (map entry_key es) \<and>
    (\<forall>e i k. e \<in> set es \<and> ex_content ex' i = Some k \<longrightarrow> entry_key e \<le> k) \<and>
    ex_content ex' = ex_content ex |` (- qe_item ` set es)"
proof -
  obtain es ex' where r: "run_extract (\<lambda>_. mx) ex = Some (Inr (es, ex'))" "es \<noteq> []"
    "pops (\<lambda>ex. ex_pop ex False) ex es ex'" "mx = 0 \<or> length es \<le> mx"
    "ex_content ex' = Map.empty \<or> mx \<noteq> 0 \<and> mx \<le> length es"
    using run_extract_batch[OF assms, of "\<lambda>_. mx" mx] by auto
  have "entry_key e \<le> k" if "e \<in> set es" "ex_content ex' i = Some k" for e i k
    using executor_queue.pops_rest_greater[OF assms(1) r(3) that] .
  moreover have "1 \<le> length es" using r(2) by (cases es) auto
  ultimately show ?thesis
    using r executor_queue.pops_content[OF assms(1) r(3)] by (intro exI[of _ es] exI[of _ ex']) auto
qed

theorem run_extract_takes_first_operations_witness:
  "\<exists>ex es ex'. run_extract (\<lambda>_. 2) ex = Some (Inr (es, ex')) \<and>
    1 \<le> length es \<and> length es \<le> 2 \<and> sorted (map entry_key (es :: string queue_entry list))"
proof -
  define ex where "ex = \<lparr>ex_batch_executions = True, ex_operation_queue =
    pq_run [Push 7 ''b'' None None, Push 9 ''a'' (Some 1) None, Push 9 ''c'' None None]\<rparr>"
  have "pq_queue (pq_run [Push 7 ''b'' None None, Push 9 ''a'' (Some 1) None,
      Push 9 ''c'' None None]) \<noteq> []"
    by code_simp
  then have "ex_invar ex" "ex_content ex \<noteq> Map.empty" "ex_batch_executions ex"
    by (simp_all add: ex_def ex_invar_def pq_run_invar pq_map_empty_iff)
  from run_extract_takes_first_operations[OF this, of 2] show ?thesis by auto
qed

text \<open>\<open>TriggeredService.enqueue\<close> reports exactly how many executors did not hold the
  operation yet, raises nothing, and afterwards every executor holds it and nothing else is
  new; \<open>dequeue\<close> then takes it out of all of them again.\<close>

theorem ts_enqueue_reaches_all_executors:
  assumes "\<forall>ex\<in>set (ts_executors s). ex_invar ex"
  shows "\<exists>exs exs'. ts_enqueue now s it p t = (s\<lparr>ts_executors := exs\<rparr>,
      Inr (length (filter (\<lambda>ex. \<not> ex_contains ex it) (ts_executors s)))) \<and>
    list_all2 (enqueued it) (ts_executors s) exs \<and>
    ts_dequeue (s\<lparr>ts_executors := exs\<rparr>) it = (s\<lparr>ts_executors := exs'\<rparr>, Inr ()) \<and>
    list_all2 (dequeued it) exs exs'"
proof -
  obtain exs where e: "enqueue_loop now it p t (ts_executors s) =
      (length (filter (\<lambda>ex. \<not> ex_contains ex it) (ts_executors s)), exs, Inr ())"
    and l: "list_all2 (enqueued it) (ts_executors s) exs"
    using enqueue_loop_counts[OF assms] by blast
  have "\<forall>ex\<in>set exs. ex_invar ex \<and> ex_contains ex it"
    using l by (rule list_all2_ball_right) (simp add: enqueued_def)
  from dequeue_loop_all[OF this] obtain exs' where
    "dequeue_loop it exs = (exs', Inr ())" "list_all2 (dequeued it) exs exs'" by blast
  then show ?thesis
    using e l by (intro exI[of _ exs] exI[of _ exs']) (simp add: ts_enqueue_def ts_dequeue_def)
qed

theorem ts_enqueue_reaches_all_executors_witness:
  "\<exists>exs. ts_enqueue 3 (add_executor triggered_service_init (executor_init True)) ''op'' None None =
      ((add_executor triggered_service_init (executor_init True))\<lparr>ts_executors := exs\<rparr>, Inr 1)"
proof -
  let ?s = "add_executor triggered_service_init (executor_init True) :: string triggered_service"
  have exs: "ts_executors ?s = [executor_init True]"
    by (simp add: add_executor_def triggered_service_init_def)
  have "\<not> ex_contains (executor_init True) ''op''"
    by (simp add: ex_contains_def executor_init_def pq_contains_def pq_init_def dict_has_def)
  then have "length (filter (\<lambda>ex. \<not> ex_contains ex ''op'') (ts_executors ?s)) = 1"
    by (simp add: exs)
  moreover have "\<forall>ex\<in>set (ts_executors ?s). ex_invar ex"
    by (simp add: exs ex_invar_init)
  ultimately show ?thesis
    using ts_enqueue_reaches_all_executors[of ?s 3 "''op''" None None] by metis
qed

end
