(* ===== verification/Contest_Db.thy ===== *)
theory Contest_Db
  imports Prelude
begin

text \<open>
  The rows of the database that the services read and write: tasks, datasets, testcases,
  submissions, user tests, matches and their results (\<^verbatim>\<open>cms/db/submission.py\<close>,
  \<^verbatim>\<open>cms/db/usertest.py\<close>, \<^verbatim>\<open>cms/db/match.py\<close>, \<^verbatim>\<open>cms/db/task.py\<close>), with the methods of the
  result classes, and the queries of \<^verbatim>\<open>cms/db/util.py\<close>. A table is a list of rows; rows refer to
  each other by id. The evaluations of a submission result, owned by it through a foreign key
  with delete-orphan cascade, are part of its row, and so are the matchings of a match result.
  A filter of the SQL layer is the predicate it stands for: \<open>NULL\<close> is \<open>None\<close>, and a comparison
  with \<open>NULL\<close> is not true.
\<close>

type_synonym digest = string

text \<open>The digest of a file that has been deleted.\<close>

definition TOMBSTONE :: digest where "TOMBSTONE = ''x''"

text \<open>A parameter of a task type or score type, as decoded from JSON.\<close>

datatype parameter = P_Str string | P_Int int | P_Real real | P_List "parameter list"

section \<open>Score details\<close>

text \<open>The JSON values that score types store: the details of a testcase, or only its index where the
  contestant may not see more, and the details of a subtask.\<close>

record tc_detail =
  td_idx :: string
  td_outcome :: string
  td_text :: "string list"
  td_time :: "real option"
  td_memory :: "int option"
  td_show_in_restricted_feedback :: "bool option"

datatype tc_view = Tc_Full tc_detail | Tc_Idx string

record subtask_detail =
  sd_idx :: int
  sd_score_fraction :: real
  sd_max_score :: real
  sd_testcases :: "tc_view list"

datatype subtask_view = Sub_Full subtask_detail | Sub_Partial int "tc_view list"

datatype json = J_Str string | J_Testcases "tc_view list" | J_Subtasks "subtask_view list"

section \<open>Tasks, datasets, testcases\<close>

record testcase =
  tc_id :: int
  tc_codename :: string
  tc_public :: bool

record dataset =
  ds_id :: int
  ds_task_id :: int
  ds_autojudge :: bool
  ds_task_type :: string
  ds_task_type_parameters :: "parameter list"
  ds_score_type :: string
  ds_score_type_parameters :: parameter
  ds_testcases :: "testcase list"

datatype score_mode = SCORE_MODE_MAX_TOKENED_LAST | SCORE_MODE_MAX | SCORE_MODE_MAX_SUBTASK

record task =
  task_id :: int
  task_contest_id :: "int option"
  task_active_dataset_id :: "int option"
  task_title :: string
  task_pvp_batch :: int
  task_score_precision :: nat
  task_score_mode :: score_mode
  task_solved :: bool

section \<open>Submissions and their results\<close>

text \<open>The token of a submission, a row of its own in the database, is the time it was played.\<close>

record submission =
  sub_id :: int
  sub_participation_id :: int
  sub_task_id :: int
  sub_timestamp :: datetime
  sub_language :: "string option"
  sub_comment :: string
  sub_official :: bool
  sub_pvp_batch :: "int option"
  sub_token :: "datetime option"

record evaluation =
  ev_testcase_id :: int
  ev_outcome :: "string option"
  ev_text :: "string list"
  ev_execution_time :: "real option"
  ev_execution_wall_clock_time :: "real option"
  ev_execution_memory :: "int option"
  ev_evaluation_shard :: "int option"
  ev_evaluation_sandbox :: "string option"

datatype compilation_outcome = Comp_Ok | Comp_Fail

record submission_result =
  sr_submission_id :: int
  sr_dataset_id :: int
  sr_compilation_outcome :: "compilation_outcome option"
  sr_compilation_text :: "string list"
  sr_compilation_tries :: int
  sr_compilation_stdout :: "string option"
  sr_compilation_stderr :: "string option"
  sr_compilation_time :: "real option"
  sr_compilation_wall_clock_time :: "real option"
  sr_compilation_memory :: "int option"
  sr_compilation_shard :: "int option"
  sr_compilation_sandbox :: "string option"
  sr_evaluation_ok :: bool
  sr_submission_discarded :: bool
  sr_evaluation_tries :: int
  sr_score :: "real option"
  sr_score_details :: "json option"
  sr_public_score :: "real option"
  sr_public_score_details :: "json option"
  sr_ranking_score_details :: "string list option"
  sr_executables :: "(string, digest) dict"
  sr_evaluations :: "evaluation list"

text \<open>The columns \<open>evaluation_outcome\<close> and \<open>submission_discarded\<close> have a single non-null value;
  \<open>sr_evaluation_ok\<close> and \<open>sr_submission_discarded\<close> say whether they have it. A new result has
  the defaults of the columns.\<close>

definition new_submission_result :: "int \<Rightarrow> int \<Rightarrow> submission_result" where
  "new_submission_result sid did =
     \<lparr>sr_submission_id = sid, sr_dataset_id = did, sr_compilation_outcome = None,
      sr_compilation_text = [], sr_compilation_tries = 0, sr_compilation_stdout = None,
      sr_compilation_stderr = None, sr_compilation_time = None, sr_compilation_wall_clock_time = None,
      sr_compilation_memory = None, sr_compilation_shard = None, sr_compilation_sandbox = None,
      sr_evaluation_ok = False, sr_submission_discarded = False, sr_evaluation_tries = 0,
      sr_score = None, sr_score_details = None, sr_public_score = None,
      sr_public_score_details = None, sr_ranking_score_details = None, sr_executables = [],
      sr_evaluations = []\<rparr>"

definition sr_compiled :: "submission_result \<Rightarrow> bool" where
  "sr_compiled r \<longleftrightarrow> sr_compilation_outcome r \<noteq> None"

definition sr_filter_compiled :: "submission_result \<Rightarrow> bool" where
  "sr_filter_compiled r \<longleftrightarrow> sr_compilation_outcome r \<noteq> None"

definition sr_compilation_failed :: "submission_result \<Rightarrow> bool" where
  "sr_compilation_failed r \<longleftrightarrow> sr_compilation_outcome r = Some Comp_Fail"

text \<open>The Python operator \<open>and\<close> between the two conditions of \<open>filter_compilation_failed\<close> keeps only the first: the truth
  value of a SQL comparison of different operands is false.\<close>

definition sr_filter_compilation_failed :: "submission_result \<Rightarrow> bool" where
  "sr_filter_compilation_failed r \<longleftrightarrow> sr_compilation_outcome r = Some Comp_Fail"

definition sr_compilation_succeeded :: "submission_result \<Rightarrow> bool" where
  "sr_compilation_succeeded r \<longleftrightarrow> sr_compilation_outcome r = Some Comp_Ok"

definition sr_filter_compilation_succeeded :: "submission_result \<Rightarrow> bool" where
  "sr_filter_compilation_succeeded r \<longleftrightarrow> sr_compilation_outcome r = Some Comp_Ok"

definition sr_discarded :: "submission_result \<Rightarrow> bool" where
  "sr_discarded r \<longleftrightarrow> sr_compilation_failed r \<and> sr_submission_discarded r"

definition sr_filter_discarded :: "submission_result \<Rightarrow> bool" where
  "sr_filter_discarded r \<longleftrightarrow> sr_submission_discarded r"

definition sr_evaluated :: "submission_result \<Rightarrow> bool" where
  "sr_evaluated r \<longleftrightarrow> sr_evaluation_ok r"

definition sr_filter_evaluated :: "submission_result \<Rightarrow> bool" where
  "sr_filter_evaluated r \<longleftrightarrow> \<not> sr_submission_discarded r \<and> sr_evaluation_ok r"

definition sr_has_score :: "submission_result \<Rightarrow> bool" where
  "sr_has_score r \<longleftrightarrow>
     sr_score r \<noteq> None \<and> sr_score_details r \<noteq> None \<and> sr_public_score r \<noteq> None \<and>
     sr_public_score_details r \<noteq> None \<and> sr_ranking_score_details r \<noteq> None"

definition sr_scored :: "submission_result \<Rightarrow> bool" where
  "sr_scored r \<longleftrightarrow> \<not> sr_discarded r \<and> sr_has_score r"

definition sr_filter_scored :: "submission_result \<Rightarrow> bool" where
  "sr_filter_scored r \<longleftrightarrow> \<not> sr_submission_discarded r \<and> sr_has_score r"

definition sr_needs_scoring :: "submission_result \<Rightarrow> bool" where
  "sr_needs_scoring r \<longleftrightarrow> (sr_compilation_failed r \<or> sr_evaluated r) \<and> \<not> sr_scored r"

text \<open>\<open>pending\<close> looks at the dataset's task type and at the submission's batch.\<close>

definition sr_pending :: "dataset \<Rightarrow> submission \<Rightarrow> submission_result \<Rightarrow> bool" where
  "sr_pending d s r \<longleftrightarrow> \<not> sr_discarded r \<and> ds_task_type d = ''PvP'' \<and> sub_pvp_batch s = None"

text \<open>In SQL the comparison \<open>compilation_outcome != 'fail'\<close> is not true of \<open>NULL\<close>.\<close>

definition sr_filter_pending :: "dataset \<Rightarrow> submission \<Rightarrow> submission_result \<Rightarrow> bool" where
  "sr_filter_pending d s r \<longleftrightarrow>
     \<not> sr_submission_discarded r \<and>
     (case sr_compilation_outcome r of None \<Rightarrow> False | Some c \<Rightarrow> c \<noteq> Comp_Fail) \<and>
     ds_task_type d = ''PvP'' \<and> sub_pvp_batch s = None"

datatype sr_status = SR_COMPILING | SR_COMPILATION_FAILED | SR_EVALUATING | SR_SCORING | SR_SCORED
  | SR_PENDING | SR_DISCARDED

definition sr_get_status :: "dataset \<Rightarrow> submission \<Rightarrow> submission_result \<Rightarrow> sr_status" where
  "sr_get_status d s r =
     (if sr_discarded r then SR_DISCARDED
      else if \<not> sr_compiled r then SR_COMPILING
      else if sr_compilation_failed r then SR_COMPILATION_FAILED
      else if sr_pending d s r then SR_PENDING
      else if \<not> sr_evaluated r then SR_EVALUATING
      else if \<not> sr_scored r then SR_SCORING
      else SR_SCORED)"

text \<open>The largest of the values that are present.\<close>

fun max_present :: "('a :: linorder) option list \<Rightarrow> 'a option \<Rightarrow> 'a option" where
  "max_present [] m = m"
| "max_present (None # xs) m = max_present xs m"
| "max_present (Some x # xs) m =
     max_present xs (case m of None \<Rightarrow> Some x | Some y \<Rightarrow> if y < x then Some x else Some y)"

definition sr_get_max_evaluation_resources :: "submission_result \<Rightarrow> real option \<times> int option" where
  "sr_get_max_evaluation_resources r =
     (if sr_evaluated r \<and> sr_evaluations r \<noteq> []
      then (max_present (map ev_execution_time (sr_evaluations r)) None,
            max_present (map ev_execution_memory (sr_evaluations r)) None)
      else (None, None))"

definition sr_invalidate_score :: "submission_result \<Rightarrow> submission_result" where
  "sr_invalidate_score r =
     r\<lparr>sr_score := None, sr_score_details := None, sr_public_score := None,
       sr_public_score_details := None, sr_ranking_score_details := None\<rparr>"

definition sr_invalidate_evaluation :: "submission_result \<Rightarrow> submission_result" where
  "sr_invalidate_evaluation r =
     (sr_invalidate_score r)\<lparr>sr_evaluation_ok := False, sr_evaluation_tries := 0, sr_evaluations := []\<rparr>"

definition sr_invalidate_compilation :: "submission_result \<Rightarrow> submission_result" where
  "sr_invalidate_compilation r =
     (sr_invalidate_evaluation r)
       \<lparr>sr_compilation_outcome := None, sr_compilation_text := [], sr_compilation_tries := 0,
        sr_compilation_time := None, sr_compilation_wall_clock_time := None,
        sr_compilation_memory := None, sr_compilation_shard := None,
        sr_compilation_sandbox := None, sr_executables := []\<rparr>"

definition sr_set_compilation_outcome :: "bool \<Rightarrow> submission_result \<Rightarrow> submission_result" where
  "sr_set_compilation_outcome success r =
     r\<lparr>sr_compilation_outcome := Some (if success then Comp_Ok else Comp_Fail)\<rparr>"

definition sr_set_evaluation_outcome :: "submission_result \<Rightarrow> submission_result" where
  "sr_set_evaluation_outcome r = r\<lparr>sr_evaluation_ok := True\<rparr>"

definition sr_set_discarded :: "submission_result \<Rightarrow> submission_result" where
  "sr_set_discarded r =
     (sr_invalidate_score (sr_set_compilation_outcome False r))
       \<lparr>sr_score := Some 0, sr_score_details := Some (J_Str ''Discarded because of newer submission.''),
        sr_submission_discarded := True\<rparr>"

lemmas sr_status_defs = sr_compiled_def sr_compilation_failed_def sr_compilation_succeeded_def
  sr_discarded_def sr_evaluated_def sr_scored_def sr_has_score_def sr_pending_def
  sr_needs_scoring_def

lemmas sr_filter_defs = sr_filter_compiled_def sr_filter_compilation_succeeded_def
  sr_filter_discarded_def sr_filter_evaluated_def sr_filter_scored_def sr_filter_pending_def

lemmas sr_update_defs = sr_invalidate_score_def sr_invalidate_evaluation_def
  sr_invalidate_compilation_def sr_set_compilation_outcome_def sr_set_evaluation_outcome_def
  sr_set_discarded_def

definition sub_tokened :: "submission \<Rightarrow> bool" where
  "sub_tokened s \<longleftrightarrow> sub_token s \<noteq> None"

section \<open>User tests and their results\<close>

record user_test =
  ut_id :: int
  ut_participation_id :: int
  ut_task_id :: int
  ut_timestamp :: datetime
  ut_language :: "string option"
  ut_input :: digest

record user_test_result =
  ur_user_test_id :: int
  ur_dataset_id :: int
  ur_output :: "digest option"
  ur_compilation_outcome :: "compilation_outcome option"
  ur_compilation_text :: "string list"
  ur_compilation_tries :: int
  ur_compilation_stdout :: "string option"
  ur_compilation_stderr :: "string option"
  ur_compilation_time :: "real option"
  ur_compilation_wall_clock_time :: "real option"
  ur_compilation_memory :: "int option"
  ur_compilation_shard :: "int option"
  ur_compilation_sandbox :: "string option"
  ur_evaluation_ok :: bool
  ur_evaluation_text :: "string list"
  ur_evaluation_tries :: int
  ur_execution_time :: "real option"
  ur_execution_wall_clock_time :: "real option"
  ur_execution_memory :: "int option"
  ur_evaluation_shard :: "int option"
  ur_evaluation_sandbox :: "string option"
  ur_executables :: "(string, digest) dict"

definition new_user_test_result :: "int \<Rightarrow> int \<Rightarrow> user_test_result" where
  "new_user_test_result uid did =
     \<lparr>ur_user_test_id = uid, ur_dataset_id = did, ur_output = None, ur_compilation_outcome = None,
      ur_compilation_text = [], ur_compilation_tries = 0, ur_compilation_stdout = None,
      ur_compilation_stderr = None, ur_compilation_time = None, ur_compilation_wall_clock_time = None,
      ur_compilation_memory = None, ur_compilation_shard = None, ur_compilation_sandbox = None,
      ur_evaluation_ok = False, ur_evaluation_text = [], ur_evaluation_tries = 0,
      ur_execution_time = None, ur_execution_wall_clock_time = None, ur_execution_memory = None,
      ur_evaluation_shard = None, ur_evaluation_sandbox = None, ur_executables = []\<rparr>"

definition ur_compiled :: "user_test_result \<Rightarrow> bool" where
  "ur_compiled r \<longleftrightarrow> ur_compilation_outcome r \<noteq> None"

definition ur_compilation_failed :: "user_test_result \<Rightarrow> bool" where
  "ur_compilation_failed r \<longleftrightarrow> ur_compilation_outcome r = Some Comp_Fail"

definition ur_compilation_succeeded :: "user_test_result \<Rightarrow> bool" where
  "ur_compilation_succeeded r \<longleftrightarrow> ur_compilation_outcome r = Some Comp_Ok"

definition ur_evaluated :: "user_test_result \<Rightarrow> bool" where
  "ur_evaluated r \<longleftrightarrow> ur_evaluation_ok r"

datatype ur_status = UR_COMPILING | UR_COMPILATION_FAILED | UR_EVALUATING | UR_EVALUATED

definition ur_get_status :: "user_test_result \<Rightarrow> ur_status" where
  "ur_get_status r =
     (if \<not> ur_compiled r then UR_COMPILING
      else if ur_compilation_failed r then UR_COMPILATION_FAILED
      else if \<not> ur_evaluated r then UR_EVALUATING
      else UR_EVALUATED)"

definition ur_invalidate_evaluation :: "user_test_result \<Rightarrow> user_test_result" where
  "ur_invalidate_evaluation r =
     r\<lparr>ur_evaluation_ok := False, ur_evaluation_text := [], ur_evaluation_tries := 0,
       ur_execution_time := None, ur_execution_wall_clock_time := None, ur_execution_memory := None,
       ur_evaluation_shard := None, ur_evaluation_sandbox := None, ur_output := None\<rparr>"

definition ur_invalidate_compilation :: "user_test_result \<Rightarrow> user_test_result" where
  "ur_invalidate_compilation r =
     (ur_invalidate_evaluation r)
       \<lparr>ur_compilation_outcome := None, ur_compilation_text := [], ur_compilation_tries := 0,
        ur_compilation_time := None, ur_compilation_wall_clock_time := None,
        ur_compilation_memory := None, ur_compilation_shard := None,
        ur_compilation_sandbox := None, ur_executables := []\<rparr>"

definition ur_set_compilation_outcome :: "bool \<Rightarrow> user_test_result \<Rightarrow> user_test_result" where
  "ur_set_compilation_outcome success r =
     r\<lparr>ur_compilation_outcome := Some (if success then Comp_Ok else Comp_Fail)\<rparr>"

definition ur_set_evaluation_outcome :: "user_test_result \<Rightarrow> user_test_result" where
  "ur_set_evaluation_outcome r = r\<lparr>ur_evaluation_ok := True\<rparr>"

lemmas ur_status_defs = ur_compiled_def ur_compilation_failed_def ur_compilation_succeeded_def
  ur_evaluated_def

section \<open>Matches, their results, batches\<close>

record match =
  match_id :: int
  match_submission1_id :: int
  match_submission2_id :: int
  match_task_id :: int
  match_timestamp :: datetime
  match_batch :: "int option"
  match_batch_eval_id :: "int option"
  match_testcase_id :: "int option"

record matching =
  mg_testcase_id :: int
  mg_outcome :: "string option"
  mg_text :: "string list"

record match_result =
  mr_match_id :: int
  mr_dataset_id :: int
  mr_evaluation_tries :: int
  mr_match_details :: "json option"
  mr_evaluation_ok :: bool
  mr_matchings :: "matching list"

definition new_match_result :: "int \<Rightarrow> int \<Rightarrow> match_result" where
  "new_match_result mid did =
     \<lparr>mr_match_id = mid, mr_dataset_id = did, mr_evaluation_tries = 0, mr_match_details = None, mr_evaluation_ok = False,
      mr_matchings = []\<rparr>"

definition single_testcase :: "match \<Rightarrow> bool" where
  "single_testcase m \<longleftrightarrow> match_testcase_id m \<noteq> None"

definition mr_evaluated :: "match_result \<Rightarrow> bool" where
  "mr_evaluated r \<longleftrightarrow> mr_evaluation_ok r"

definition mr_filter_evaluated :: "match_result \<Rightarrow> bool" where
  "mr_filter_evaluated r \<longleftrightarrow> mr_evaluation_ok r"

definition mr_set_evaluation_outcome :: "match_result \<Rightarrow> match_result" where
  "mr_set_evaluation_outcome r = r\<lparr>mr_evaluation_ok := True\<rparr>"

datatype mr_status = MR_EVALUATING | MR_SCORED

definition mr_get_status :: "match_result \<Rightarrow> mr_status" where
  "mr_get_status r = (if \<not> mr_evaluated r then MR_EVALUATING else MR_SCORED)"

datatype batch_status = BATCH_PENDING | BATCH_EVALUATING | BATCH_EVALUATED

record batch =
  bt_id :: int
  bt_task_id :: int
  bt_task_pvp_batch :: int
  bt_rounds_id :: int
  bt_rounds :: int
  bt_rest_matches :: int
  bt_status :: batch_status
  bt_timestamp :: datetime
  bt_notification_sended :: bool

definition start_evaluate :: "batch \<Rightarrow> batch" where
  "start_evaluate b = b\<lparr>bt_status := BATCH_EVALUATING\<rparr>"

definition end_evaluate :: "batch \<Rightarrow> batch" where
  "end_evaluate b = b\<lparr>bt_status := BATCH_EVALUATED\<rparr>"

section \<open>The tables\<close>

record participation =
  part_id :: int
  part_contest_id :: int

record contest =
  ct_id :: int
  ct_start :: datetime
  ct_stop :: datetime

record submission_file =
  fi_submission_id :: int
  fi_filename :: string
  fi_digest :: digest

record db =
  db_contests :: "contest list"
  db_participations :: "participation list"
  db_tasks :: "task list"
  db_datasets :: "dataset list"
  db_submissions :: "submission list"
  db_submission_results :: "submission_result list"
  db_user_tests :: "user_test list"
  db_user_test_results :: "user_test_result list"
  db_matches :: "match list"
  db_match_results :: "match_result list"
  db_batches :: "batch list"
  db_files :: "submission_file list"

definition sr_key :: "submission_result \<Rightarrow> int \<times> int" where
  "sr_key r = (sr_submission_id r, sr_dataset_id r)"

definition ur_key :: "user_test_result \<Rightarrow> int \<times> int" where
  "ur_key r = (ur_user_test_id r, ur_dataset_id r)"

definition mr_key :: "match_result \<Rightarrow> int \<times> int" where
  "mr_key r = (mr_match_id r, mr_dataset_id r)"

text \<open>\<open>get_from_id\<close>: the row with a given primary key, if there is one.\<close>

definition get_from_id :: "('r \<Rightarrow> 'k) \<Rightarrow> 'r list \<Rightarrow> 'k \<Rightarrow> 'r option" where
  "get_from_id key rows k = List.find (\<lambda>r. key r = k) rows"

text \<open>Serial primary keys are the least number above the existing ones.\<close>

definition fresh_id :: "int list \<Rightarrow> int" where
  "fresh_id ids = fold max ids 0 + 1"

text \<open>Writing a row back: the row with its key is replaced, a new one is added at the end.\<close>

fun put_row :: "('r \<Rightarrow> 'k) \<Rightarrow> 'r \<Rightarrow> 'r list \<Rightarrow> 'r list" where
  "put_row key r [] = [r]"
| "put_row key r (x # xs) = (if key x = key r then r # xs else x # put_row key r xs)"

definition put_sr :: "submission_result \<Rightarrow> db \<Rightarrow> db" where
  "put_sr r d = d\<lparr>db_submission_results := put_row sr_key r (db_submission_results d)\<rparr>"

definition put_task :: "task \<Rightarrow> db \<Rightarrow> db" where
  "put_task t d = d\<lparr>db_tasks := put_row task_id t (db_tasks d)\<rparr>"

definition put_ur :: "user_test_result \<Rightarrow> db \<Rightarrow> db" where
  "put_ur r d = d\<lparr>db_user_test_results := put_row ur_key r (db_user_test_results d)\<rparr>"

definition put_mr :: "match_result \<Rightarrow> db \<Rightarrow> db" where
  "put_mr r d = d\<lparr>db_match_results := put_row mr_key r (db_match_results d)\<rparr>"

definition dataset_active :: "db \<Rightarrow> dataset \<Rightarrow> bool" where
  "dataset_active d ds \<longleftrightarrow>
     (case get_from_id task_id (db_tasks d) (ds_task_id ds) of
        None \<Rightarrow> False
      | Some t \<Rightarrow> task_active_dataset_id t = Some (ds_id ds))"

definition task_datasets :: "db \<Rightarrow> task \<Rightarrow> dataset list" where
  "task_datasets d t = filter (\<lambda>ds. ds_task_id ds = task_id t) (db_datasets d)"

definition get_datasets_to_judge :: "db \<Rightarrow> task \<Rightarrow> dataset list" where
  "get_datasets_to_judge d t = filter (\<lambda>ds. dataset_active d ds \<or> ds_autojudge ds) (task_datasets d t)"

text \<open>\<open>get_result\<close> for a given dataset, and \<open>get_result_or_create\<close>; the assertion compares task
  ids.\<close>

definition sub_get_result :: "db \<Rightarrow> submission \<Rightarrow> dataset \<Rightarrow> submission_result option res" where
  "sub_get_result d s ds =
     res_bind (py_assert (sub_task_id s = ds_task_id ds))
       (\<lambda>_. Inr (get_from_id sr_key (db_submission_results d) (sub_id s, ds_id ds)))"

definition sub_get_result_or_create :: "db \<Rightarrow> submission \<Rightarrow> dataset \<Rightarrow> submission_result res" where
  "sub_get_result_or_create d s ds =
     res_bind (sub_get_result d s ds) (\<lambda>r. case r of
       None \<Rightarrow> Inr (new_submission_result (sub_id s) (ds_id ds)) | Some r \<Rightarrow> Inr r)"

definition ut_get_result :: "db \<Rightarrow> user_test \<Rightarrow> dataset \<Rightarrow> user_test_result option res" where
  "ut_get_result d u ds =
     res_bind (py_assert (ut_task_id u = ds_task_id ds))
       (\<lambda>_. Inr (get_from_id ur_key (db_user_test_results d) (ut_id u, ds_id ds)))"

definition ut_get_result_or_create :: "db \<Rightarrow> user_test \<Rightarrow> dataset \<Rightarrow> user_test_result res" where
  "ut_get_result_or_create d u ds =
     res_bind (ut_get_result d u ds) (\<lambda>r. case r of
       None \<Rightarrow> Inr (new_user_test_result (ut_id u) (ds_id ds)) | Some r \<Rightarrow> Inr r)"

text \<open>\<open>dataset.testcases\<close> is a dictionary indexed by the codenames.\<close>

definition dataset_testcase :: "dataset \<Rightarrow> string option \<Rightarrow> testcase res" where
  "dataset_testcase ds codename =
     (case codename of
        None \<Rightarrow> Inl KeyError
      | Some c \<Rightarrow> (case get_from_id tc_codename (ds_testcases ds) c of None \<Rightarrow> Inl KeyError | Some tc \<Rightarrow> Inr tc))"

definition match_get_result :: "db \<Rightarrow> match \<Rightarrow> dataset \<Rightarrow> match_result option res" where
  "match_get_result d m ds =
     res_bind (py_assert (match_task_id m = ds_task_id ds))
       (\<lambda>_. Inr (get_from_id mr_key (db_match_results d) (match_id m, ds_id ds)))"

definition match_get_result_or_create :: "db \<Rightarrow> match \<Rightarrow> dataset \<Rightarrow> match_result res" where
  "match_get_result_or_create d m ds =
     res_bind (match_get_result d m ds) (\<lambda>r. case r of
       None \<Rightarrow> Inr (new_match_result (match_id m) (ds_id ds)) | Some r \<Rightarrow> Inr r)"

section \<open>Searching for submissions and results\<close>

definition in_contest :: "db \<Rightarrow> int \<Rightarrow> submission \<Rightarrow> bool" where
  "in_contest d contest_id s \<longleftrightarrow>
     (\<exists>p\<in>set (db_participations d). part_id p = sub_participation_id s \<and> part_contest_id p = contest_id) \<and>
     (\<exists>t\<in>set (db_tasks d). task_id t = sub_task_id s \<and> task_contest_id t = Some contest_id)"

definition has_participation :: "db \<Rightarrow> int \<Rightarrow> submission \<Rightarrow> bool" where
  "has_participation d participation_id s \<longleftrightarrow>
     sub_participation_id s = participation_id \<and>
     (\<exists>p\<in>set (db_participations d). part_id p = participation_id)"

abbreviation given :: "'a option \<Rightarrow> ('a \<Rightarrow> bool) \<Rightarrow> bool" where
  "given x P \<equiv> (case x of None \<Rightarrow> True | Some v \<Rightarrow> P v)"

definition get_submissions ::
  "db \<Rightarrow> int option \<Rightarrow> int option \<Rightarrow> int option \<Rightarrow> int option \<Rightarrow> submission list res"
where
  "get_submissions d contest_id participation_id tid submission_id =
     (if tid \<noteq> None \<and> contest_id \<noteq> None then Inl ValueError
      else if participation_id \<noteq> None \<and> contest_id \<noteq> None then Inl ValueError
      else if submission_id \<noteq> None \<and> contest_id \<noteq> None then Inl ValueError
      else if submission_id \<noteq> None \<and> tid \<noteq> None then Inl ValueError
      else if submission_id \<noteq> None \<and> participation_id \<noteq> None then Inl ValueError
      else Inr (filter (\<lambda>s.
        given submission_id (\<lambda>i. sub_id s = i) \<and>
        given participation_id (\<lambda>p. has_participation d p s) \<and>
        given tid (\<lambda>t. sub_task_id s = t) \<and>
        given contest_id (\<lambda>c. in_contest d c s)) (db_submissions d)))"

definition get_submission_results ::
  "db \<Rightarrow> int option \<Rightarrow> int option \<Rightarrow> int option \<Rightarrow> int option \<Rightarrow> int option \<Rightarrow> submission_result list res"
where
  "get_submission_results d contest_id participation_id tid submission_id dataset_id =
     (if tid \<noteq> None \<and> contest_id \<noteq> None then Inl ValueError
      else if participation_id \<noteq> None \<and> contest_id \<noteq> None then Inl ValueError
      else if submission_id \<noteq> None \<and> contest_id \<noteq> None then Inl ValueError
      else if submission_id \<noteq> None \<and> tid \<noteq> None then Inl ValueError
      else if submission_id \<noteq> None \<and> participation_id \<noteq> None then Inl ValueError
      else if dataset_id \<noteq> None \<and> tid \<noteq> None then Inl ValueError
      else if dataset_id \<noteq> None \<and> contest_id \<noteq> None then Inl ValueError
      else Inr (filter (\<lambda>r.
        \<exists>s\<in>set (db_submissions d). sub_id s = sr_submission_id r \<and>
          given submission_id (\<lambda>i. sr_submission_id r = i) \<and>
          given dataset_id (\<lambda>i. sr_dataset_id r = i) \<and>
          given participation_id (\<lambda>p. has_participation d p s) \<and>
          given tid (\<lambda>t. sub_task_id s = t) \<and>
          given contest_id (\<lambda>c. in_contest d c s)) (db_submission_results d)))"

text \<open>The submission with the latest timestamp, the first in table order of several.\<close>

fun latest :: "submission list \<Rightarrow> submission option" where
  "latest [] = None"
| "latest (s # ss) =
     (case latest ss of None \<Rightarrow> Some s | Some s' \<Rightarrow> Some (if sub_timestamp s < sub_timestamp s' then s' else s))"

section \<open>Lemmas on rows\<close>

lemma fold_max_ge: "x \<in> set ids \<or> x = a \<Longrightarrow> (x :: int) \<le> fold max ids a"
proof (induction ids arbitrary: a x)
  case (Cons y ids)
  have "max y a \<le> fold max ids (max y a)" by (rule Cons.IH) (rule disjI2, rule refl)
  then have "y \<le> fold max ids (max y a)" "a \<le> fold max ids (max y a)" by simp_all
  then show ?case using Cons by auto
qed simp

lemma fresh_id_not_in: "fresh_id ids \<notin> set ids"
  using fold_max_ge[of _ ids 0] by (fastforce simp: fresh_id_def)

lemma get_from_id_Some: "get_from_id key rows k = Some r \<Longrightarrow> r \<in> set rows \<and> key r = k"
  by (auto simp: get_from_id_def find_Some_iff)

lemma get_from_id_None: "get_from_id key rows k = None \<longleftrightarrow> (\<forall>r\<in>set rows. key r \<noteq> k)"
  by (auto simp: get_from_id_def find_None_iff)

lemma get_from_id_unique:
  assumes "distinct (map key rows)" "r \<in> set rows"
  shows "get_from_id key rows (key r) = Some r"
  using assms by (induction rows) (auto simp: get_from_id_def)

lemma get_from_id_iff:
  "distinct (map key rows) \<Longrightarrow> get_from_id key rows k = Some r \<longleftrightarrow> r \<in> set rows \<and> key r = k"
  using get_from_id_Some get_from_id_unique by metis

lemma get_put_row: "get_from_id key (put_row key r rows) k =
    (if k = key r then Some r else get_from_id key rows k)"
  by (induction rows) (auto simp: get_from_id_def)

lemma keys_put_row: "set (map key (put_row key r rows)) = insert (key r) (set (map key rows))"
  by (induction rows) auto

lemma distinct_put_row: "distinct (map key rows) \<Longrightarrow> distinct (map key (put_row key r rows))"
proof (induction rows)
  case (Cons x xs)
  then show ?case using keys_put_row[of key r xs] by auto
qed simp

section \<open>Properties of submission results\<close>

text \<open>A discarded result has failed to compile, in the sense of the comment on the column.\<close>

definition sr_consistent :: "submission_result \<Rightarrow> bool" where
  "sr_consistent r \<longleftrightarrow> (sr_submission_discarded r \<longrightarrow> sr_compilation_failed r)"

lemma sr_filters_agree:
  assumes "sr_consistent r"
  shows "sr_filter_discarded r \<longleftrightarrow> sr_discarded r" "sr_filter_scored r \<longleftrightarrow> sr_scored r"
    "sr_filter_pending d s r \<longleftrightarrow> sr_get_status d s r = SR_PENDING"
  using assms unfolding sr_consistent_def sr_get_status_def sr_status_defs sr_filter_defs
  by (auto split: option.splits compilation_outcome.splits)

text \<open>For results on which a discarded submission counts as a failed compilation (which
  is what \<open>set_discarded\<close> establishes), the SQL filters and the Python methods agree: on
  discarded, on scored and on pending results; and exactly the results that compiled
  and are not pending go through evaluation and scoring.\<close>

theorem submission_result_filters_agree:
  assumes "sr_consistent r"
  shows "(sr_filter_discarded r \<longleftrightarrow> sr_get_status d s r = SR_DISCARDED) \<and>
    (sr_filter_scored r \<longleftrightarrow> sr_scored r) \<and>
    (sr_filter_pending d s r \<longleftrightarrow> sr_get_status d s r = SR_PENDING) \<and>
    (sr_get_status d s r \<in> {SR_EVALUATING, SR_SCORING, SR_SCORED} \<longleftrightarrow>
      sr_compilation_succeeded r \<and> \<not> sr_pending d s r) \<and>
    sr_consistent (sr_set_discarded r) \<and> sr_get_status d s (sr_set_discarded r) = SR_DISCARDED"
proof -
  have "sr_get_status d s r = SR_DISCARDED \<longleftrightarrow> sr_discarded r"
    by (simp add: sr_get_status_def)
  moreover have "sr_get_status d s r \<in> {SR_EVALUATING, SR_SCORING, SR_SCORED} \<longleftrightarrow>
      sr_compilation_succeeded r \<and> \<not> sr_pending d s r"
    using assms unfolding sr_get_status_def sr_consistent_def sr_status_defs
    by (cases "sr_compilation_outcome r"; cases "the (sr_compilation_outcome r)") auto
  moreover have "sr_consistent (sr_set_discarded r) \<and> sr_get_status d s (sr_set_discarded r) = SR_DISCARDED"
    by (simp add: sr_consistent_def sr_get_status_def sr_status_defs sr_update_defs)
  ultimately show ?thesis
    using sr_filters_agree[OF assms] by simp
qed

definition example_submission :: submission where
  "example_submission = \<lparr>sub_id = 7, sub_participation_id = 3, sub_task_id = 2, sub_timestamp = 100,
     sub_language = Some ''C++17 / g++'', sub_comment = [], sub_official = True, sub_pvp_batch = None, sub_token = None\<rparr>"

definition example_dataset :: dataset where
  "example_dataset = \<lparr>ds_id = 5, ds_task_id = 2, ds_autojudge = False, ds_task_type = ''PvP'',
     ds_task_type_parameters = [P_Str ''alone'', P_Str ''std_io'', P_Str ''enabled'', P_Int 3600, P_Int 10, P_Int 300],
     ds_score_type = ''Sum'', ds_score_type_parameters = P_Int 50,
     ds_testcases = [\<lparr>tc_id = 11, tc_codename = ''001'', tc_public = False\<rparr>, \<lparr>tc_id = 12, tc_codename = ''002'', tc_public = False\<rparr>]\<rparr>"

theorem submission_result_filters_agree_witness:
  "sr_filter_pending example_dataset example_submission
      (sr_set_compilation_outcome True (new_submission_result 7 5)) \<and>
   sr_get_status example_dataset example_submission
      (sr_set_discarded (sr_set_compilation_outcome True (new_submission_result 7 5))) = SR_DISCARDED"
proof -
  let ?r = "sr_set_compilation_outcome True (new_submission_result 7 5)"
  have "sr_consistent ?r" "sr_get_status example_dataset example_submission ?r = SR_PENDING"
    by (simp_all add: sr_consistent_def sr_get_status_def sr_status_defs sr_update_defs
        new_submission_result_def example_dataset_def example_submission_def)
  then show ?thesis
    using submission_result_filters_agree[of ?r example_dataset example_submission] by simp
qed

text \<open>A discarded result stays in need of scoring whatever score is written into it, so the
  scoring service is asked to score it again and again, although \<open>set_discarded\<close> announces that
  no further action is applied.\<close>

theorem discarded_result_always_needs_scoring:
  "sr_needs_scoring ((sr_set_discarded r)\<lparr>sr_score := a, sr_score_details := b, sr_public_score := c,
     sr_public_score_details := e, sr_ranking_score_details := f\<rparr>)"
  by (simp add: sr_status_defs sr_update_defs)

end
