(* ===== verification/ES_Operations.thy ===== *)
theory ES_Operations
  imports Contest_Db Priority_Queue
begin

text \<open>
  The operations of the evaluation service, \<^verbatim>\<open>cms/service/esoperations.py\<close>: which submissions,
  user tests and matches it wants to compile or evaluate, computed one object at a time
  from the objects (\<open>submission_get_operations\<close> and its kin, used when something changes) and
  for all objects at once by SQL queries (\<open>get_submissions_operations\<close> and its kin, used by
  the sweeper). A generator is the list of what it yields; a query is a list comprehension
  over the tables, an outer join with the condition that the joined row is missing is the
  absence of such a row.
\<close>

section \<open>Operations\<close>

definition COMPILATION :: string where "COMPILATION = ''compile''"
definition EVALUATION :: string where "EVALUATION = ''evaluate''"
definition MATCH :: string where "MATCH = ''match''"
definition USER_TEST_COMPILATION :: string where "USER_TEST_COMPILATION = ''compile_test''"
definition USER_TEST_EVALUATION :: string where "USER_TEST_EVALUATION = ''evaluate_test''"
definition USER_TEST_MATCH :: string where "USER_TEST_MATCH = ''match_test''"

lemmas op_types = COMPILATION_def EVALUATION_def MATCH_def USER_TEST_COMPILATION_def
  USER_TEST_EVALUATION_def USER_TEST_MATCH_def

record es_operation =
  op_type :: string
  op_object_id :: int
  op_dataset_id :: int
  op_testcase_codename :: "string option"

definition es_op :: "string \<Rightarrow> int \<Rightarrow> int \<Rightarrow> string option \<Rightarrow> es_operation" where
  "es_op ty obj ds tc =
     \<lparr>op_type = ty, op_object_id = obj, op_dataset_id = ds, op_testcase_codename = tc\<rparr>"

text \<open>\<open>__eq__\<close> compares the four attributes.\<close>

definition es_eq :: "es_operation \<Rightarrow> es_operation \<Rightarrow> bool" where
  "es_eq x y \<longleftrightarrow> op_type x = op_type y \<and> op_object_id x = op_object_id y \<and>
     op_dataset_id x = op_dataset_id y \<and> op_testcase_codename x = op_testcase_codename y"

datatype jvalue = JStr string | JInt int | JNull

definition es_to_dict :: "es_operation \<Rightarrow> (string, jvalue) dict" where
  "es_to_dict x =
     [(''type'', JStr (op_type x)), (''object_id'', JInt (op_object_id x)),
      (''dataset_id'', JInt (op_dataset_id x)),
      (''testcase_codename'', case op_testcase_codename x of None \<Rightarrow> JNull | Some c \<Rightarrow> JStr c)]"

text \<open>\<open>from_dict\<close> raises \<open>KeyError\<close> on a missing key. Python stores any value it finds; a value that
  an operation cannot have is a \<open>TypeError\<close> here.\<close>

definition es_from_dict :: "(string, jvalue) dict \<Rightarrow> es_operation res" where
  "es_from_dict d =
     res_bind (dict_get d ''type'') (\<lambda>ty.
     res_bind (dict_get d ''object_id'') (\<lambda>obj.
     res_bind (dict_get d ''dataset_id'') (\<lambda>ds.
     res_bind (dict_get d ''testcase_codename'') (\<lambda>tc.
       case (ty, obj, ds, tc) of
         (JStr ty, JInt obj, JInt ds, JNull) \<Rightarrow> Inr (es_op ty obj ds None)
       | (JStr ty, JInt obj, JInt ds, JStr tc) \<Rightarrow> Inr (es_op ty obj ds (Some tc))
       | _ \<Rightarrow> Inl TypeError))))"

definition for_submission :: "es_operation \<Rightarrow> bool" where
  "for_submission x \<longleftrightarrow> op_type x = COMPILATION \<or> op_type x = EVALUATION"

definition for_match :: "es_operation \<Rightarrow> bool" where
  "for_match x \<longleftrightarrow> op_type x = MATCH"

text \<open>The components of \<open>short_key\<close> are strings in the code; the integers stand for their decimal
  representations.\<close>

definition short_key :: "es_operation \<Rightarrow> string \<times> int \<times> int" where
  "short_key x = (op_type x, op_object_id x, op_dataset_id x)"

section \<open>What is to be done\<close>

definition MAX_COMPILATION_TRIES :: int where "MAX_COMPILATION_TRIES = 1"
definition MAX_EVALUATION_TRIES :: int where "MAX_EVALUATION_TRIES = 1"
definition MAX_USER_TEST_COMPILATION_TRIES :: int where "MAX_USER_TEST_COMPILATION_TRIES = 3"
definition MAX_USER_TEST_EVALUATION_TRIES :: int where "MAX_USER_TEST_EVALUATION_TRIES = 3"

lemmas max_tries = MAX_COMPILATION_TRIES_def MAX_EVALUATION_TRIES_def
  MAX_USER_TEST_COMPILATION_TRIES_def MAX_USER_TEST_EVALUATION_TRIES_def

definition submission_to_compile :: "submission_result option \<Rightarrow> bool" where
  "submission_to_compile r \<longleftrightarrow>
     (case r of None \<Rightarrow> True
      | Some r \<Rightarrow> \<not> sr_compiled r \<and> sr_compilation_tries r < MAX_COMPILATION_TRIES)"

definition submission_to_evaluate :: "submission_result option \<Rightarrow> bool" where
  "submission_to_evaluate r \<longleftrightarrow>
     (case r of None \<Rightarrow> False
      | Some r \<Rightarrow> sr_compilation_succeeded r \<and> \<not> sr_evaluated r \<and> sr_evaluation_tries r < MAX_EVALUATION_TRIES)"

definition has_evaluation :: "submission_result \<Rightarrow> testcase \<Rightarrow> bool" where
  "has_evaluation r tc \<longleftrightarrow> tc_id tc \<in> set (map ev_testcase_id (sr_evaluations r))"

text \<open>The codename of the testcase of an evaluation, for a testcase of the dataset.\<close>

definition submission_to_evaluate_on_testcase :: "dataset \<Rightarrow> submission_result option \<Rightarrow> string \<Rightarrow> bool" where
  "submission_to_evaluate_on_testcase ds r codename \<longleftrightarrow>
     (if \<not> submission_to_evaluate r then False
      else case r of None \<Rightarrow> False
           | Some r \<Rightarrow> \<not> (\<exists>tc\<in>set (ds_testcases ds). tc_codename tc = codename \<and> has_evaluation r tc))"

definition user_test_to_compile :: "user_test_result option \<Rightarrow> bool" where
  "user_test_to_compile r \<longleftrightarrow>
     (case r of None \<Rightarrow> True
      | Some r \<Rightarrow> \<not> ur_compiled r \<and> ur_compilation_tries r < MAX_USER_TEST_COMPILATION_TRIES)"

definition user_test_to_evaluate :: "user_test_result option \<Rightarrow> bool" where
  "user_test_to_evaluate r \<longleftrightarrow>
     (case r of None \<Rightarrow> False
      | Some r \<Rightarrow> ur_compilation_outcome r = Some Comp_Ok \<and> \<not> ur_evaluated r \<and>
          ur_evaluation_tries r < MAX_USER_TEST_EVALUATION_TRIES)"

definition match_to_evaluate :: "match_result option \<Rightarrow> bool" where
  "match_to_evaluate r \<longleftrightarrow>
     (case r of None \<Rightarrow> False
      | Some r \<Rightarrow> \<not> mr_evaluated r \<and> mr_evaluation_tries r < MAX_EVALUATION_TRIES)"

section \<open>Operations of one object\<close>

type_synonym es_entry = "es_operation \<times> int \<times> datetime"

text \<open>The generator raises when it is first advanced if there is no match result, since it
  reads \<open>match_result.matchings\<close>.\<close>

definition match_get_operations :: "db \<Rightarrow> match_result option \<Rightarrow> match \<Rightarrow> dataset \<Rightarrow> es_entry list res" where
  "match_get_operations d r m ds =
     (let priority =
        (if \<not> dataset_active d ds then PRIORITY_EXTRA_LOW
         else if r = None then PRIORITY_HIGH
         else PRIORITY_MEDIUM)
      in case r of
           None \<Rightarrow> Inl AttributeError
         | Some r \<Rightarrow>
             let evaluated_testcase_ids = map mg_testcase_id (mr_matchings r) in
             Inr (map (\<lambda>tc. (es_op MATCH (match_id m) (ds_id ds) (Some (tc_codename tc)), priority, match_timestamp m))
                   (filter (\<lambda>tc. (match_testcase_id m = None \<or> match_testcase_id m = Some (tc_id tc)) \<and>
                                 tc_id tc \<notin> set evaluated_testcase_ids) (ds_testcases ds))))"

definition submission_get_operations ::
  "db \<Rightarrow> submission_result option \<Rightarrow> submission \<Rightarrow> dataset \<Rightarrow> es_entry list"
where
  "submission_get_operations d r s ds =
     (if submission_to_compile r then
        let priority =
          (if \<not> dataset_active d ds then PRIORITY_EXTRA_LOW
           else if (case r of None \<Rightarrow> True | Some r \<Rightarrow> sr_compilation_tries r = 0) then PRIORITY_HIGH
           else PRIORITY_MEDIUM)
        in [(es_op COMPILATION (sub_id s) (ds_id ds) None, priority, sub_timestamp s)]
      else case r of
        None \<Rightarrow> []
      | Some r \<Rightarrow>
          if submission_to_evaluate (Some r) then
            let priority =
              (if \<not> dataset_active d ds then PRIORITY_EXTRA_LOW
               else if sr_evaluation_tries r = 0 then PRIORITY_MEDIUM
               else PRIORITY_LOW)
            in map (\<lambda>tc. (es_op EVALUATION (sub_id s) (ds_id ds) (Some (tc_codename tc)), priority, sub_timestamp s))
                 (filter (\<lambda>tc. \<not> has_evaluation r tc) (ds_testcases ds))
          else [])"

definition user_test_get_operations :: "db \<Rightarrow> user_test \<Rightarrow> dataset \<Rightarrow> es_entry list res" where
  "user_test_get_operations d u ds =
     res_bind (ut_get_result d u ds) (\<lambda>r.
       if user_test_to_compile r then
         let priority =
           (if \<not> dataset_active d ds then PRIORITY_EXTRA_LOW
            else if (case r of None \<Rightarrow> True | Some r \<Rightarrow> ur_compilation_tries r = 0) then PRIORITY_HIGH
            else PRIORITY_MEDIUM)
         in Inr [(es_op USER_TEST_COMPILATION (ut_id u) (ds_id ds) None, priority, ut_timestamp u)]
       else case r of
         None \<Rightarrow> Inr []
       | Some r \<Rightarrow>
           if user_test_to_evaluate (Some r) then
             let priority =
               (if \<not> dataset_active d ds then PRIORITY_EXTRA_LOW
                else if ur_evaluation_tries r = 0 then PRIORITY_MEDIUM
                else PRIORITY_LOW)
             in Inr [(es_op USER_TEST_EVALUATION (ut_id u) (ds_id ds) None, priority, ut_timestamp u)]
           else Inr [])"

text \<open>The datasets that \<open>get_relevant_operations\<close> considers: when no dataset of the task has the
  given id, all of them.\<close>

definition relevant_datasets :: "dataset list \<Rightarrow> int option \<Rightarrow> dataset list" where
  "relevant_datasets all_datasets dataset_id =
     (case dataset_id of
        None \<Rightarrow> all_datasets
      | Some i \<Rightarrow> (case get_from_id ds_id all_datasets i of None \<Rightarrow> all_datasets | Some ds \<Rightarrow> [ds]))"

fun get_relevant_operations ::
  "db \<Rightarrow> string \<Rightarrow> submission list \<Rightarrow> int option \<Rightarrow> es_operation list res"
where
  "get_relevant_operations d level [] dataset_id = Inr []"
| "get_relevant_operations d level (s # ss) dataset_id =
     (case get_from_id task_id (db_tasks d) (sub_task_id s) of
        None \<Rightarrow> Inl AttributeError
      | Some t \<Rightarrow>
          res_bind (get_relevant_operations d level ss dataset_id) (\<lambda>rest.
            Inr (concat (map (\<lambda>ds.
              (if level = ''compilation'' then [es_op COMPILATION (sub_id s) (ds_id ds) None] else []) @
              map (\<lambda>tc. es_op EVALUATION (sub_id s) (ds_id ds) (Some (tc_codename tc))) (ds_testcases ds))
              (relevant_datasets (task_datasets d t) dataset_id)) @ rest)))"

section \<open>Operations of all objects\<close>

definition contest_filter :: "int option \<Rightarrow> task \<Rightarrow> bool" where
  "contest_filter contest_id t \<longleftrightarrow> (case contest_id of None \<Rightarrow> True | Some c \<Rightarrow> task_contest_id t = Some c)"

text \<open>The condition \<open>Dataset.id != Task.active_dataset_id\<close>, not true when the latter is null.\<close>

definition not_active :: "task \<Rightarrow> dataset \<Rightarrow> bool" where
  "not_active t ds \<longleftrightarrow> (case task_active_dataset_id t of None \<Rightarrow> False | Some a \<Rightarrow> ds_id ds \<noteq> a)"

definition FILTER_DATASETS_TO_JUDGE :: "task \<Rightarrow> dataset \<Rightarrow> bool" where
  "FILTER_DATASETS_TO_JUDGE t ds \<longleftrightarrow> task_active_dataset_id t = Some (ds_id ds) \<or> ds_autojudge ds"

definition FILTER_SUBMISSION_RESULTS_TO_COMPILE :: "submission_result \<Rightarrow> bool" where
  "FILTER_SUBMISSION_RESULTS_TO_COMPILE r \<longleftrightarrow>
     \<not> sr_filter_compiled r \<and> sr_compilation_tries r < MAX_COMPILATION_TRIES"

definition FILTER_SUBMISSION_RESULTS_TO_EVALUATE :: "submission_result \<Rightarrow> bool" where
  "FILTER_SUBMISSION_RESULTS_TO_EVALUATE r \<longleftrightarrow>
     sr_filter_compilation_succeeded r \<and> \<not> sr_filter_evaluated r \<and>
     sr_evaluation_tries r < MAX_EVALUATION_TRIES"

definition FILTER_MATCHING_RESULTS_TO_EVALUATE :: "match_result \<Rightarrow> bool" where
  "FILTER_MATCHING_RESULTS_TO_EVALUATE r \<longleftrightarrow>
     \<not> mr_filter_evaluated r \<and> mr_evaluation_tries r < MAX_EVALUATION_TRIES"

definition FILTER_USER_TEST_RESULTS_TO_COMPILE :: "user_test_result \<Rightarrow> bool" where
  "FILTER_USER_TEST_RESULTS_TO_COMPILE r \<longleftrightarrow>
     ur_compilation_outcome r = None \<and> ur_compilation_tries r < MAX_COMPILATION_TRIES"

definition FILTER_USER_TEST_RESULTS_TO_EVALUATE :: "user_test_result \<Rightarrow> bool" where
  "FILTER_USER_TEST_RESULTS_TO_EVALUATE r \<longleftrightarrow>
     ur_compilation_outcome r = Some Comp_Ok \<and> \<not> ur_evaluation_ok r \<and>
     ur_evaluation_tries r < MAX_EVALUATION_TRIES"

text \<open>The three queries of \<open>get_submissions_operations\<close>: submissions without a result for a dataset to
  judge, results still to compile, and results with missing evaluations.\<close>

definition submissions_to_compile_first :: "db \<Rightarrow> int option \<Rightarrow> es_entry list" where
  "submissions_to_compile_first d contest_id =
     [(es_op COMPILATION (sub_id s) (ds_id ds) None,
       if not_active t ds then PRIORITY_EXTRA_LOW else PRIORITY_HIGH, sub_timestamp s).
        s \<leftarrow> db_submissions d, t \<leftarrow> db_tasks d, task_id t = sub_task_id s,
        ds \<leftarrow> db_datasets d, ds_task_id ds = task_id t,
        contest_filter contest_id t \<and> FILTER_DATASETS_TO_JUDGE t ds \<and>
        (\<forall>r\<in>set (db_submission_results d). \<not> (sr_dataset_id r = ds_id ds \<and> sr_submission_id r = sub_id s))]"

definition submissions_to_compile_again :: "db \<Rightarrow> int option \<Rightarrow> es_entry list" where
  "submissions_to_compile_again d contest_id =
     [(es_op COMPILATION (sub_id s) (ds_id ds) None,
       if not_active t ds then PRIORITY_EXTRA_LOW
       else if sr_compilation_tries r = 0 then PRIORITY_HIGH else PRIORITY_MEDIUM, sub_timestamp s).
        s \<leftarrow> db_submissions d, t \<leftarrow> db_tasks d, task_id t = sub_task_id s,
        r \<leftarrow> db_submission_results d, sr_submission_id r = sub_id s,
        ds \<leftarrow> db_datasets d, ds_id ds = sr_dataset_id r,
        contest_filter contest_id t \<and> FILTER_DATASETS_TO_JUDGE t ds \<and>
        FILTER_SUBMISSION_RESULTS_TO_COMPILE r]"

definition submissions_to_evaluate :: "db \<Rightarrow> int option \<Rightarrow> es_entry list" where
  "submissions_to_evaluate d contest_id =
     [(es_op EVALUATION (sub_id s) (ds_id ds) (Some (tc_codename tc)),
       if not_active t ds then PRIORITY_EXTRA_LOW
       else if sr_evaluation_tries r = 0 then PRIORITY_MEDIUM else PRIORITY_LOW, sub_timestamp s).
        r \<leftarrow> db_submission_results d,
        ds \<leftarrow> db_datasets d, ds_id ds = sr_dataset_id r,
        s \<leftarrow> db_submissions d, sub_id s = sr_submission_id r,
        t \<leftarrow> db_tasks d, task_id t = sub_task_id s,
        tc \<leftarrow> ds_testcases ds,
        contest_filter contest_id t \<and> FILTER_DATASETS_TO_JUDGE t ds \<and>
        FILTER_SUBMISSION_RESULTS_TO_EVALUATE r \<and> \<not> has_evaluation r tc]"

definition get_submissions_operations :: "db \<Rightarrow> int option \<Rightarrow> es_entry list" where
  "get_submissions_operations d contest_id =
     submissions_to_compile_first d contest_id @
     submissions_to_compile_again d contest_id @
     submissions_to_evaluate d contest_id"

definition get_match_operations :: "db \<Rightarrow> int option \<Rightarrow> es_entry list" where
  "get_match_operations d contest_id =
     [(es_op MATCH (match_id m) (ds_id ds) (Some (tc_codename tc)),
       if not_active t ds then PRIORITY_EXTRA_LOW
       else if mr_evaluation_tries r = 0 then PRIORITY_MEDIUM else PRIORITY_LOW, match_timestamp m).
        r \<leftarrow> db_match_results d,
        ds \<leftarrow> db_datasets d, ds_id ds = mr_dataset_id r,
        m \<leftarrow> db_matches d, match_id m = mr_match_id r,
        t \<leftarrow> db_tasks d, task_id t = match_task_id m,
        tc \<leftarrow> ds_testcases ds,
        contest_filter contest_id t \<and> FILTER_DATASETS_TO_JUDGE t ds \<and>
        FILTER_MATCHING_RESULTS_TO_EVALUATE r \<and>
        tc_id tc \<notin> set (map mg_testcase_id (mr_matchings r)) \<and>
        (match_testcase_id m = None \<or> match_testcase_id m = Some (tc_id tc))]"

definition user_tests_to_compile_first :: "db \<Rightarrow> int option \<Rightarrow> es_entry list" where
  "user_tests_to_compile_first d contest_id =
     [(es_op USER_TEST_COMPILATION (ut_id u) (ds_id ds) None,
       if not_active t ds then PRIORITY_EXTRA_LOW else PRIORITY_HIGH, ut_timestamp u).
        u \<leftarrow> db_user_tests d, t \<leftarrow> db_tasks d, task_id t = ut_task_id u,
        ds \<leftarrow> db_datasets d, ds_task_id ds = task_id t,
        contest_filter contest_id t \<and> FILTER_DATASETS_TO_JUDGE t ds \<and>
        (\<forall>r\<in>set (db_user_test_results d). \<not> (ur_dataset_id r = ds_id ds \<and> ur_user_test_id r = ut_id u))]"

definition user_tests_to_compile_again :: "db \<Rightarrow> int option \<Rightarrow> es_entry list" where
  "user_tests_to_compile_again d contest_id =
     [(es_op USER_TEST_COMPILATION (ut_id u) (ds_id ds) None,
       if not_active t ds then PRIORITY_EXTRA_LOW
       else if ur_compilation_tries r = 0 then PRIORITY_HIGH else PRIORITY_MEDIUM, ut_timestamp u).
        u \<leftarrow> db_user_tests d, t \<leftarrow> db_tasks d, task_id t = ut_task_id u,
        r \<leftarrow> db_user_test_results d, ur_user_test_id r = ut_id u,
        ds \<leftarrow> db_datasets d, ds_id ds = ur_dataset_id r,
        contest_filter contest_id t \<and> FILTER_DATASETS_TO_JUDGE t ds \<and>
        FILTER_USER_TEST_RESULTS_TO_COMPILE r]"

definition user_tests_to_evaluate :: "db \<Rightarrow> int option \<Rightarrow> es_entry list" where
  "user_tests_to_evaluate d contest_id =
     [(es_op USER_TEST_EVALUATION (ut_id u) (ds_id ds) None,
       if not_active t ds then PRIORITY_EXTRA_LOW
       else if ur_evaluation_tries r = 0 then PRIORITY_MEDIUM else PRIORITY_LOW, ut_timestamp u).
        u \<leftarrow> db_user_tests d, t \<leftarrow> db_tasks d, task_id t = ut_task_id u,
        r \<leftarrow> db_user_test_results d, ur_user_test_id r = ut_id u,
        ds \<leftarrow> db_datasets d, ds_id ds = ur_dataset_id r,
        contest_filter contest_id t \<and> FILTER_DATASETS_TO_JUDGE t ds \<and>
        FILTER_USER_TEST_RESULTS_TO_EVALUATE r]"

definition get_user_tests_operations :: "db \<Rightarrow> int option \<Rightarrow> es_entry list" where
  "get_user_tests_operations d contest_id =
     user_tests_to_compile_first d contest_id @
     user_tests_to_compile_again d contest_id @
     user_tests_to_evaluate d contest_id"

section \<open>Well-formed tables\<close>

text \<open>Primary keys are unique, and a result belongs to a dataset of the task of its submission (which
  \<open>get_result\<close> asserts). A task may be without active dataset: the column is nullable.\<close>

definition db_ok :: "db \<Rightarrow> bool" where
  "db_ok d \<longleftrightarrow>
     distinct (map task_id (db_tasks d)) \<and> distinct (map ds_id (db_datasets d)) \<and>
     distinct (map sub_id (db_submissions d)) \<and> distinct (map sr_key (db_submission_results d)) \<and>
     (\<forall>r\<in>set (db_submission_results d). \<forall>s\<in>set (db_submissions d). \<forall>ds\<in>set (db_datasets d).
        sub_id s = sr_submission_id r \<and> ds_id ds = sr_dataset_id r \<longrightarrow> ds_task_id ds = sub_task_id s)"

lemma dataset_active_iff:
  assumes "db_ok d" "t \<in> set (db_tasks d)" "ds_task_id ds = task_id t"
  shows "dataset_active d ds \<longleftrightarrow> task_active_dataset_id t = Some (ds_id ds)"
proof -
  have "get_from_id task_id (db_tasks d) (ds_task_id ds) = Some t"
    using get_from_id_unique[of task_id "db_tasks d" t] assms unfolding db_ok_def by simp
  then show ?thesis by (simp add: dataset_active_def)
qed

lemma result_lookup:
  assumes "db_ok d"
  shows "get_from_id sr_key (db_submission_results d) (i, j) = Some r \<longleftrightarrow>
      r \<in> set (db_submission_results d) \<and> sr_submission_id r = i \<and> sr_dataset_id r = j"
    "get_from_id sr_key (db_submission_results d) (i, j) = None \<longleftrightarrow>
      (\<forall>r\<in>set (db_submission_results d). \<not> (sr_dataset_id r = j \<and> sr_submission_id r = i))"
proof -
  have "distinct (map sr_key (db_submission_results d))" using assms by (simp add: db_ok_def)
  from get_from_id_iff[OF this, of "(i, j)" r]
  show "get_from_id sr_key (db_submission_results d) (i, j) = Some r \<longleftrightarrow>
      r \<in> set (db_submission_results d) \<and> sr_submission_id r = i \<and> sr_dataset_id r = j"
    by (simp add: sr_key_def)
  show "get_from_id sr_key (db_submission_results d) (i, j) = None \<longleftrightarrow>
      (\<forall>r\<in>set (db_submission_results d). \<not> (sr_dataset_id r = j \<and> sr_submission_id r = i))"
    by (auto simp: get_from_id_None sr_key_def)
qed

section \<open>The queries, one object at a time\<close>

text \<open>What the three queries contribute for one submission and one dataset of its task.\<close>

definition sql_operations :: "task \<Rightarrow> submission_result option \<Rightarrow> submission \<Rightarrow> dataset \<Rightarrow> es_entry list" where
  "sql_operations t r s ds =
     (case r of
        None \<Rightarrow> [(es_op COMPILATION (sub_id s) (ds_id ds) None,
                  if not_active t ds then PRIORITY_EXTRA_LOW else PRIORITY_HIGH, sub_timestamp s)]
      | Some r \<Rightarrow>
          (if FILTER_SUBMISSION_RESULTS_TO_COMPILE r
           then [(es_op COMPILATION (sub_id s) (ds_id ds) None,
                  if not_active t ds then PRIORITY_EXTRA_LOW
                  else if sr_compilation_tries r = 0 then PRIORITY_HIGH else PRIORITY_MEDIUM, sub_timestamp s)]
           else []) @
          (if FILTER_SUBMISSION_RESULTS_TO_EVALUATE r
           then map (\<lambda>tc. (es_op EVALUATION (sub_id s) (ds_id ds) (Some (tc_codename tc)),
                  if not_active t ds then PRIORITY_EXTRA_LOW
                  else if sr_evaluation_tries r = 0 then PRIORITY_MEDIUM else PRIORITY_LOW, sub_timestamp s))
                  (filter (\<lambda>tc. \<not> has_evaluation r tc) (ds_testcases ds))
           else []))"

definition judged :: "db \<Rightarrow> int option \<Rightarrow> submission \<Rightarrow> task \<Rightarrow> dataset \<Rightarrow> bool" where
  "judged d contest_id s t ds \<longleftrightarrow>
     s \<in> set (db_submissions d) \<and> t \<in> set (db_tasks d) \<and> ds \<in> set (db_datasets d) \<and>
     task_id t = sub_task_id s \<and> ds_task_id ds = task_id t \<and>
     contest_filter contest_id t \<and> FILTER_DATASETS_TO_JUDGE t ds"

lemma in_set_if: "x \<in> set (if P then ys else []) \<longleftrightarrow> P \<and> x \<in> set ys"
  by simp

lemma in_submissions_to_compile_first:
  "x \<in> set (submissions_to_compile_first d c) \<longleftrightarrow>
    (\<exists>s t ds. judged d c s t ds \<and>
      (\<forall>r\<in>set (db_submission_results d). \<not> (sr_dataset_id r = ds_id ds \<and> sr_submission_id r = sub_id s)) \<and>
      x \<in> set (sql_operations t None s ds))"
  unfolding submissions_to_compile_first_def judged_def sql_operations_def
  by (simp only: set_concat set_map UN_iff bex_simps in_set_if list.simps list.set empty_iff insert_iff option.case simp_thms) blast

definition matched :: "db \<Rightarrow> int option \<Rightarrow> submission \<Rightarrow> task \<Rightarrow> dataset \<Rightarrow> submission_result \<Rightarrow> bool" where
  "matched d contest_id s t ds r \<longleftrightarrow>
     s \<in> set (db_submissions d) \<and> t \<in> set (db_tasks d) \<and> ds \<in> set (db_datasets d) \<and>
     r \<in> set (db_submission_results d) \<and> task_id t = sub_task_id s \<and>
     sr_submission_id r = sub_id s \<and> ds_id ds = sr_dataset_id r \<and>
     contest_filter contest_id t \<and> FILTER_DATASETS_TO_JUDGE t ds"

lemma in_submissions_to_compile_again:
  "x \<in> set (submissions_to_compile_again d c) \<longleftrightarrow>
    (\<exists>s t ds r. matched d c s t ds r \<and> FILTER_SUBMISSION_RESULTS_TO_COMPILE r \<and>
      x = (es_op COMPILATION (sub_id s) (ds_id ds) None,
        if not_active t ds then PRIORITY_EXTRA_LOW
        else if sr_compilation_tries r = 0 then PRIORITY_HIGH else PRIORITY_MEDIUM, sub_timestamp s))"
  unfolding submissions_to_compile_again_def matched_def by (simp only: set_concat set_map UN_iff bex_simps in_set_if list.simps list.set empty_iff insert_iff option.case simp_thms) blast

lemma sub_id_commute: "sub_id s = sr_submission_id r \<longleftrightarrow> sr_submission_id r = sub_id s"
  by (rule eq_commute)

lemma in_submissions_to_evaluate:
  "x \<in> set (submissions_to_evaluate d c) \<longleftrightarrow>
    (\<exists>s t ds r tc. matched d c s t ds r \<and> FILTER_SUBMISSION_RESULTS_TO_EVALUATE r \<and>
      tc \<in> set (ds_testcases ds) \<and> \<not> has_evaluation r tc \<and>
      x = (es_op EVALUATION (sub_id s) (ds_id ds) (Some (tc_codename tc)),
        if not_active t ds then PRIORITY_EXTRA_LOW
        else if sr_evaluation_tries r = 0 then PRIORITY_MEDIUM else PRIORITY_LOW, sub_timestamp s))"
  unfolding submissions_to_evaluate_def matched_def by (simp only: sub_id_commute set_concat set_map UN_iff bex_simps in_set_if list.simps list.set empty_iff insert_iff option.case simp_thms) blast

lemma matched_judged:
  assumes "db_ok d"
  shows "matched d c s t ds r \<longleftrightarrow> judged d c s t ds \<and>
    get_from_id sr_key (db_submission_results d) (sub_id s, ds_id ds) = Some r"
proof -
  have "matched d c s t ds r \<Longrightarrow> ds_task_id ds = task_id t"
    using assms unfolding matched_def db_ok_def by metis
  then show ?thesis
    unfolding result_lookup(1)[OF assms] by (auto simp: matched_def judged_def)
qed

lemma get_submissions_operations_pointwise:
  assumes ok: "db_ok d"
  shows "x \<in> set (get_submissions_operations d c) \<longleftrightarrow>
    (\<exists>s t ds. judged d c s t ds \<and>
      x \<in> set (sql_operations t (get_from_id sr_key (db_submission_results d) (sub_id s, ds_id ds)) s ds))"
proof -
  let ?R = "\<lambda>s ds. get_from_id sr_key (db_submission_results d) (sub_id s, ds_id ds)"
  have some: "x \<in> set (sql_operations t (Some r) s ds) \<longleftrightarrow>
      FILTER_SUBMISSION_RESULTS_TO_COMPILE r \<and>
        x = (es_op COMPILATION (sub_id s) (ds_id ds) None,
          if not_active t ds then PRIORITY_EXTRA_LOW
          else if sr_compilation_tries r = 0 then PRIORITY_HIGH else PRIORITY_MEDIUM, sub_timestamp s) \<or>
      (\<exists>tc. FILTER_SUBMISSION_RESULTS_TO_EVALUATE r \<and> tc \<in> set (ds_testcases ds) \<and> \<not> has_evaluation r tc \<and>
        x = (es_op EVALUATION (sub_id s) (ds_id ds) (Some (tc_codename tc)),
          if not_active t ds then PRIORITY_EXTRA_LOW
          else if sr_evaluation_tries r = 0 then PRIORITY_MEDIUM else PRIORITY_LOW, sub_timestamp s))" for r t s ds
    unfolding sql_operations_def option.case set_append Un_iff in_set_if by auto
  have "(\<exists>s t ds. judged d c s t ds \<and> x \<in> set (sql_operations t (?R s ds) s ds)) \<longleftrightarrow>
      (\<exists>s t ds. judged d c s t ds \<and> ?R s ds = None \<and> x \<in> set (sql_operations t None s ds)) \<or>
      (\<exists>s t ds r. judged d c s t ds \<and> ?R s ds = Some r \<and> x \<in> set (sql_operations t (Some r) s ds))"
    by (metis option.exhaust)
  then show ?thesis
    unfolding get_submissions_operations_def set_append Un_iff in_submissions_to_compile_first
      in_submissions_to_compile_again in_submissions_to_evaluate matched_judged[OF ok]
      result_lookup(2)[OF ok, symmetric] some
    by blast
qed

text \<open>Where the queries of the sweep and the generator differ. For the queries a discarded result is
  never evaluated, even when it has an evaluation outcome; and for a task without active
  dataset the comparison with null does not make a dataset an inactive one.\<close>

definition as_swept :: "submission_result \<Rightarrow> submission_result" where
  "as_swept r = (if sr_submission_discarded r then r\<lparr>sr_evaluation_ok := False\<rparr> else r)"

definition db_as_swept :: "task \<Rightarrow> dataset \<Rightarrow> db \<Rightarrow> db" where
  "db_as_swept t ds d =
     (if task_active_dataset_id t = None then d\<lparr>db_tasks := [t\<lparr>task_active_dataset_id := Some (ds_id ds)\<rparr>]\<rparr> else d)"

lemma not_active_iff:
  assumes "db_ok d" "t \<in> set (db_tasks d)" "ds_task_id ds = task_id t"
  shows "not_active t ds \<longleftrightarrow> \<not> dataset_active (db_as_swept t ds d) ds"
proof (cases "task_active_dataset_id t")
  case None
  then show ?thesis
    using assms(3) by (simp add: not_active_def db_as_swept_def dataset_active_def get_from_id_def)
next
  case (Some a)
  then show ?thesis
    using dataset_active_iff[OF assms] by (auto simp: not_active_def db_as_swept_def)
qed

lemma as_swept_filters:
  "sr_compiled (as_swept r) = sr_filter_compiled r" "sr_compilation_tries (as_swept r) = sr_compilation_tries r"
  "sr_compilation_succeeded (as_swept r) = sr_filter_compilation_succeeded r"
  "sr_evaluated (as_swept r) = sr_filter_evaluated r" "sr_evaluation_tries (as_swept r) = sr_evaluation_tries r"
  "has_evaluation (as_swept r) = has_evaluation r"
  by (simp_all add: as_swept_def sr_filter_defs sr_status_defs has_evaluation_def fun_eq_iff)

lemma sql_operations_agree:
  assumes "db_ok d" "t \<in> set (db_tasks d)" "ds_task_id ds = task_id t"
  shows "sql_operations t r s ds = submission_get_operations (db_as_swept t ds d) (map_option as_swept r) s ds"
proof (cases r)
  case None
  then show ?thesis
    using not_active_iff[OF assms(1-3)]
    by (simp add: sql_operations_def submission_get_operations_def submission_to_compile_def)
next
  case (Some x)
  have c: "submission_to_compile (map_option as_swept r) \<longleftrightarrow> FILTER_SUBMISSION_RESULTS_TO_COMPILE x"
    using Some by (simp add: submission_to_compile_def FILTER_SUBMISSION_RESULTS_TO_COMPILE_def as_swept_filters)
  have e: "submission_to_evaluate (Some (as_swept x)) \<longleftrightarrow> FILTER_SUBMISSION_RESULTS_TO_EVALUATE x"
    using Some by (simp add: submission_to_evaluate_def FILTER_SUBMISSION_RESULTS_TO_EVALUATE_def as_swept_filters)
  have "\<not> (FILTER_SUBMISSION_RESULTS_TO_COMPILE x \<and> FILTER_SUBMISSION_RESULTS_TO_EVALUATE x)"
    by (simp add: FILTER_SUBMISSION_RESULTS_TO_COMPILE_def FILTER_SUBMISSION_RESULTS_TO_EVALUATE_def sr_filter_defs)
  then show ?thesis
    using Some c e not_active_iff[OF assms(1-3)]
    by (simp add: sql_operations_def submission_get_operations_def Let_def as_swept_filters)
qed

lemma swept_to_compile: "submission_to_compile (map_option as_swept r) \<longleftrightarrow> submission_to_compile r"
  by (cases r) (simp_all add: submission_to_compile_def as_swept_def sr_status_defs)

lemma swept_to_evaluate:
  "submission_to_evaluate (Some (as_swept r)) \<longleftrightarrow>
    submission_to_evaluate (Some r) \<or>
    sr_submission_discarded r \<and> sr_compilation_succeeded r \<and> sr_evaluated r \<and> sr_evaluation_tries r < MAX_EVALUATION_TRIES"
  by (auto simp: submission_to_evaluate_def as_swept_def sr_status_defs)

text \<open>Where the two agree: the task has an active dataset, and the result is not at once discarded,
  compiled and evaluated.\<close>

lemma swept_same:
  assumes "task_active_dataset_id t \<noteq> None"
    "\<forall>x. r = Some x \<longrightarrow> \<not> (sr_submission_discarded x \<and> sr_compilation_succeeded x \<and> sr_evaluated x)"
  shows "submission_get_operations (db_as_swept t ds d) (map_option as_swept r) s ds = submission_get_operations d r s ds"
proof -
  have d: "db_as_swept t ds d = d" using assms(1) unfolding db_as_swept_def by (rule if_not_P)
  show ?thesis
  proof (cases r)
    case (Some x)
    then have "submission_to_evaluate (Some (as_swept x)) \<longleftrightarrow> submission_to_evaluate (Some x)"
      using assms(2) by (auto simp: swept_to_evaluate)
    then show ?thesis
      using Some swept_to_compile[of r] unfolding d by (simp add: submission_get_operations_def as_swept_filters Let_def)
  qed (simp add: d)
qed

lemma generated_iff:
  "(\<exists>p. (op, p, ts) \<in> set (submission_get_operations d r s ds)) \<longleftrightarrow> ts = sub_timestamp s \<and>
    (if submission_to_compile r then op = es_op COMPILATION (sub_id s) (ds_id ds) None
     else \<exists>x tc. r = Some x \<and> submission_to_evaluate (Some x) \<and> tc \<in> set (ds_testcases ds) \<and> \<not> has_evaluation x tc \<and>
       op = es_op EVALUATION (sub_id s) (ds_id ds) (Some (tc_codename tc)))"
  by (cases "submission_to_compile r"; cases r) (auto simp: submission_get_operations_def Let_def)

lemma swept_more:
  assumes "(op, p, ts) \<in> set (submission_get_operations d r s ds)"
  shows "\<exists>p'. (op, p', ts) \<in> set (submission_get_operations (db_as_swept t ds d) (map_option as_swept r) s ds)"
proof -
  have "\<exists>p. (op, p, ts) \<in> set (submission_get_operations d r s ds)" using assms ..
  then show ?thesis
    unfolding generated_iff swept_to_compile
    by (auto simp: swept_to_evaluate as_swept_filters split: if_splits)
qed

section \<open>Properties\<close>


definition example_db :: db where
  "example_db = \<lparr>db_contests = [\<lparr>ct_id = 1, ct_start = 0, ct_stop = 9000\<rparr>],
     db_participations = [\<lparr>part_id = 3, part_contest_id = 1\<rparr>],
     db_tasks = [\<lparr>task_id = 2, task_contest_id = Some 1, task_active_dataset_id = Some 5, task_title = ''t'', task_pvp_batch = 0, task_score_precision = 0, task_score_mode = SCORE_MODE_MAX_TOKENED_LAST, task_solved = False\<rparr>],
     db_datasets = [example_dataset], db_submissions = [example_submission],
     db_submission_results = [sr_set_compilation_outcome True (new_submission_result 7 5)],
     db_user_tests = [], db_user_test_results = [], db_matches = [], db_match_results = [], db_batches = [], db_files = []\<rparr>"

lemma example_db_ok: "db_ok example_db"
  by (simp add: db_ok_def example_db_def example_submission_def example_dataset_def
      new_submission_result_def sr_update_defs)


text \<open>The dictionary form of an operation, used to send it over RPC, loses nothing; and two
  operations have the same dictionary exactly when \<open>__eq__\<close> holds.\<close>

theorem es_operation_dict_roundtrip:
  "es_from_dict (es_to_dict x) = Inr x \<and> (es_to_dict x = es_to_dict y \<longleftrightarrow> es_eq x y)"
proof -
  have r: "es_from_dict (es_to_dict x) = Inr x" for x
    by (cases x; cases "op_testcase_codename x") (simp_all add: es_from_dict_def es_to_dict_def es_op_def dict_get_def)
  moreover have "x = y \<longleftrightarrow> es_eq x y"
    by (cases x; cases y) (simp add: es_eq_def)
  ultimately show ?thesis by (metis sum.inject(2))
qed

text \<open>Invalidating a submission at level \<open>compilation\<close> concerns every operation that the
  generator can yield for it, in any state of its results and for every dataset of its
  task.\<close>

theorem relevant_operations_cover_generator:
  assumes "s \<in> set ss" "get_from_id task_id (db_tasks d) (sub_task_id s) = Some t"
    "ds \<in> set (task_datasets d t)" "get_relevant_operations d ''compilation'' ss None = Inr ops"
  shows "fst ` set (submission_get_operations d r s ds) \<subseteq> set ops"
  using assms(1,4)
proof (induction ss arbitrary: ops)
  case (Cons s' ss)
  then obtain t' rest where t': "get_from_id task_id (db_tasks d) (sub_task_id s') = Some t'"
    and rest: "get_relevant_operations d ''compilation'' ss None = Inr rest" "set rest \<subseteq> set ops"
    by (auto simp: res_simps split: option.splits)
  show ?case
  proof (cases "s = s'")
    case True
    then have t: "t' = t" using t' assms(2) by simp
    have "insert (es_op COMPILATION (sub_id s) (ds_id ds) None)
        ((\<lambda>tc. es_op EVALUATION (sub_id s) (ds_id ds) (Some (tc_codename tc))) ` set (ds_testcases ds)) \<subseteq> set ops"
      using Cons.prems(2) t' rest(1) assms(3) True t by (force simp: relevant_datasets_def)
    then show ?thesis
      by (auto simp: submission_get_operations_def Let_def split: if_splits option.splits)
  next
    case False
    then show ?thesis using Cons.IH[OF _ rest(1)] Cons.prems(1) rest(2) by auto
  qed
qed simp

theorem relevant_operations_cover_generator_witness:
  "\<exists>ops. get_relevant_operations example_db ''compilation'' [example_submission] None = Inr ops \<and>
     fst ` set (submission_get_operations example_db None example_submission example_dataset) \<subseteq> set ops"
proof -
  let ?t = "\<lparr>task_id = 2, task_contest_id = Some 1, task_active_dataset_id = Some 5, task_title = ''t'', task_pvp_batch = 0, task_score_precision = 0, task_score_mode = SCORE_MODE_MAX_TOKENED_LAST, task_solved = False\<rparr>"
  have t: "get_from_id task_id (db_tasks example_db) (sub_task_id example_submission) = Some ?t"
    "example_dataset \<in> set (task_datasets example_db ?t)"
    by (simp_all add: example_db_def example_submission_def example_dataset_def get_from_id_def task_datasets_def)
  then obtain ops where "get_relevant_operations example_db ''compilation'' [example_submission] None = Inr ops"
    by simp
  from relevant_operations_cover_generator[OF _ t this] show ?thesis
    using \<open>get_relevant_operations example_db ''compilation'' [example_submission] None = Inr ops\<close> by auto
qed

text \<open>User tests: after one or two failures of the system to compile a user test, the
  generator still asks for its compilation (it allows three tries), but the query of the
  sweeper does not (it allows one). Likewise for evaluations.\<close>

theorem user_test_sweeper_gives_up_early:
  assumes "ur_compilation_tries r \<in> {1, 2}" "ur_evaluation_tries r \<in> {1, 2}" "\<not> ur_evaluated r"
  shows "(\<not> ur_compiled r \<longrightarrow> user_test_to_compile (Some r) \<and> \<not> FILTER_USER_TEST_RESULTS_TO_COMPILE r) \<and>
    (ur_compilation_succeeded r \<longrightarrow> user_test_to_evaluate (Some r) \<and> \<not> FILTER_USER_TEST_RESULTS_TO_EVALUATE r)"
  using assms by (auto simp: user_test_to_compile_def user_test_to_evaluate_def max_tries
      FILTER_USER_TEST_RESULTS_TO_COMPILE_def FILTER_USER_TEST_RESULTS_TO_EVALUATE_def ur_status_defs)

theorem user_test_sweeper_gives_up_early_witness:
  "\<exists>r. user_test_to_compile (Some r) \<and> \<not> FILTER_USER_TEST_RESULTS_TO_COMPILE r"
proof -
  let ?r = "(new_user_test_result 4 5)\<lparr>ur_compilation_tries := 1, ur_evaluation_tries := 1\<rparr>"
  have "ur_compilation_tries ?r \<in> {1, 2}" "ur_evaluation_tries ?r \<in> {1, 2}" "\<not> ur_evaluated ?r" "\<not> ur_compiled ?r"
    by (simp_all add: new_user_test_result_def ur_status_defs)
  then show ?thesis using user_test_sweeper_gives_up_early[of ?r] by blast
qed

end
