(* ===== verification/Worker_Pool.thy ===== *)
theory Worker_Pool
  imports Prelude
begin

text \<open>
  The workers attached to the evaluation service, \<^verbatim>\<open>cms/service/workerpool.py\<close>. As in the code,
  the data of a worker is spread over one dictionary per attribute, all indexed by the shard.
  The RPC client of a worker is its \<open>connected\<close> flag and the requests sent to it; a call on it
  never raises (it returns a result object), whether the worker is connected or not.
  \<open>JobGroup.from_operations\<close>, which reads the database, is an argument of \<open>acquire_worker\<close>,
  and so is the choice that \<open>random.choice\<close> makes.
\<close>

datatype 'o worker_operations =
    WORKER_INACTIVE
  | WORKER_DISABLED
  | WORKER_DOING "'o list"

datatype 'g worker_request =
    Precache_files int
  | Execute_job_group 'g
  | Quit timedelta

record ('o, 'g) worker_pool =
  wp_worker :: "(int, bool) dict"
  wp_operations :: "(int, 'o worker_operations) dict"
  wp_operations_to_ignore :: "(int, 'o list) dict"
  wp_start_time :: "(int, datetime option) dict"
  wp_schedule_disabling :: "(int, bool) dict"
  wp_ignore :: "(int, bool) dict"
  wp_operations_reverse :: "('o, int) dict"
  wp_workers_available_event :: bool
  wp_sent :: "(int \<times> 'g worker_request) list"

definition worker_pool_init :: "('o, 'g) worker_pool" where
  "worker_pool_init =
     \<lparr>wp_worker = [], wp_operations = [], wp_operations_to_ignore = [], wp_start_time = [],
      wp_schedule_disabling = [], wp_ignore = [], wp_operations_reverse = [],
      wp_workers_available_event = False, wp_sent = []\<rparr>"

text \<open>600 seconds, in microseconds.\<close>

definition WORKER_TIMEOUT :: timedelta where
  "WORKER_TIMEOUT = 600 * 1000000"

section \<open>Reading and writing the dictionaries\<close>

definition operations_of :: "int \<Rightarrow> (('o, 'g) worker_pool, 'o worker_operations) stm" where
  "operations_of shard = (\<lambda>w. (w, dict_get (wp_operations w) shard))"

definition to_ignore_of :: "int \<Rightarrow> (('o, 'g) worker_pool, 'o list) stm" where
  "to_ignore_of shard = (\<lambda>w. (w, dict_get (wp_operations_to_ignore w) shard))"

definition start_time_of :: "int \<Rightarrow> (('o, 'g) worker_pool, datetime option) stm" where
  "start_time_of shard = (\<lambda>w. (w, dict_get (wp_start_time w) shard))"

definition schedule_disabling_of :: "int \<Rightarrow> (('o, 'g) worker_pool, bool) stm" where
  "schedule_disabling_of shard = (\<lambda>w. (w, dict_get (wp_schedule_disabling w) shard))"

definition ignore_of :: "int \<Rightarrow> (('o, 'g) worker_pool, bool) stm" where
  "ignore_of shard = (\<lambda>w. (w, dict_get (wp_ignore w) shard))"

definition connected_of :: "int \<Rightarrow> (('o, 'g) worker_pool, bool) stm" where
  "connected_of shard = (\<lambda>w. (w, dict_get (wp_worker w) shard))"

definition set_operations :: "int \<Rightarrow> 'o worker_operations \<Rightarrow> (('o, 'g) worker_pool, unit) stm" where
  "set_operations shard v = supd (\<lambda>w. w\<lparr>wp_operations := dict_set (wp_operations w) shard v\<rparr>)"

definition set_to_ignore :: "int \<Rightarrow> 'o list \<Rightarrow> (('o, 'g) worker_pool, unit) stm" where
  "set_to_ignore shard v =
     supd (\<lambda>w. w\<lparr>wp_operations_to_ignore := dict_set (wp_operations_to_ignore w) shard v\<rparr>)"

definition set_start_time :: "int \<Rightarrow> datetime option \<Rightarrow> (('o, 'g) worker_pool, unit) stm" where
  "set_start_time shard v = supd (\<lambda>w. w\<lparr>wp_start_time := dict_set (wp_start_time w) shard v\<rparr>)"

definition set_schedule_disabling :: "int \<Rightarrow> bool \<Rightarrow> (('o, 'g) worker_pool, unit) stm" where
  "set_schedule_disabling shard v =
     supd (\<lambda>w. w\<lparr>wp_schedule_disabling := dict_set (wp_schedule_disabling w) shard v\<rparr>)"

definition set_ignore :: "int \<Rightarrow> bool \<Rightarrow> (('o, 'g) worker_pool, unit) stm" where
  "set_ignore shard v = supd (\<lambda>w. w\<lparr>wp_ignore := dict_set (wp_ignore w) shard v\<rparr>)"

definition set_available :: "bool \<Rightarrow> (('o, 'g) worker_pool, unit) stm" where
  "set_available b = supd (\<lambda>w. w\<lparr>wp_workers_available_event := b\<rparr>)"

definition send_request :: "int \<Rightarrow> 'g worker_request \<Rightarrow> (('o, 'g) worker_pool, unit) stm" where
  "send_request shard r =
     sbind (connected_of shard) (\<lambda>_. supd (\<lambda>w. w\<lparr>wp_sent := wp_sent w @ [(shard, r)]\<rparr>))"

section \<open>Operations\<close>

definition wp_len :: "('o, 'g) worker_pool \<Rightarrow> nat" where
  "wp_len w = length (wp_worker w)"

definition wp_contains :: "('o, 'g) worker_pool \<Rightarrow> 'o \<Rightarrow> bool" where
  "wp_contains w operation = dict_has (wp_operations_reverse w) operation"

definition del_reverse :: "'o \<Rightarrow> (('o, 'g) worker_pool, unit) stm" where
  "del_reverse operation =
     (\<lambda>w. case dict_del (wp_operations_reverse w) operation of
            Inl e \<Rightarrow> (w, Inl e)
          | Inr d \<Rightarrow> (w\<lparr>wp_operations_reverse := d\<rparr>, Inr ()))"

definition remove_operations ::
  "int \<Rightarrow> 'o worker_operations \<Rightarrow> (('o, 'g) worker_pool, unit) stm"
where
  "remove_operations shard new_operation =
     sbind (operations_of shard) (\<lambda>operations.
     sthen (set_operations shard new_operation)
       (case operations of
          WORKER_DOING os \<Rightarrow> sforeach os del_reverse
        | _ \<Rightarrow> sret ()))"

definition add_operations :: "int \<Rightarrow> 'o list \<Rightarrow> (('o, 'g) worker_pool, unit) stm" where
  "add_operations shard operations =
     sbind (operations_of shard) (\<lambda>current.
       if current \<noteq> WORKER_INACTIVE then sraise ValueError
       else sthen (set_operations shard (WORKER_DOING operations))
              (sforeach operations (\<lambda>operation.
                 supd (\<lambda>w. w\<lparr>wp_operations_reverse :=
                              dict_set (wp_operations_reverse w) operation shard\<rparr>))))"

text \<open>\<open>wait_for_workers\<close> returns at once when the event is set and blocks otherwise.\<close>

definition wait_for_workers :: "(('o, 'g) worker_pool, unit) stm" where
  "wait_for_workers = (\<lambda>w. (w, if wp_workers_available_event w then Inr () else Inl Blocked))"

text \<open>\<open>conn\<close> is the state of the new connection, as \<open>connect_to\<close> leaves it.\<close>

definition add_worker :: "int \<Rightarrow> bool \<Rightarrow> (('o, 'g) worker_pool, unit) stm" where
  "add_worker shard conn =
     sthen (supd (\<lambda>w. w\<lparr>wp_worker := dict_set (wp_worker w) shard conn\<rparr>))
    (sthen (set_operations shard WORKER_INACTIVE)
    (sthen (set_to_ignore shard [])
    (sthen (set_start_time shard None)
    (sthen (set_schedule_disabling shard False)
    (sthen (set_ignore shard False)
           (set_available True))))))"

definition on_worker_connected :: "int option \<Rightarrow> int \<Rightarrow> (('o, 'g) worker_pool, unit) stm" where
  "on_worker_connected contest_id shard =
     sthen (case contest_id of None \<Rightarrow> sret () | Some c \<Rightarrow> send_request shard (Precache_files c))
           (set_available True)"

text \<open>The candidates of \<open>find_worker\<close>, in the order of the dictionary.\<close>

fun worker_candidates ::
  "('o, 'g) worker_pool \<Rightarrow> 'o worker_operations \<Rightarrow> bool \<Rightarrow> (int \<times> 'o worker_operations) list \<Rightarrow> int list res"
where
  "worker_candidates w operation require_connection [] = Inr []"
| "worker_candidates w operation require_connection ((shard, worker_operation) # rest) =
     (if worker_operation = operation then
        (if \<not> require_connection then
           res_bind (worker_candidates w operation require_connection rest) (\<lambda>pool. Inr (shard # pool))
         else
           res_bind (dict_get (wp_worker w) shard) (\<lambda>conn.
           res_bind (worker_candidates w operation require_connection rest) (\<lambda>pool.
             Inr (if conn then shard # pool else pool))))
      else worker_candidates w operation require_connection rest)"

text \<open>\<open>choice\<close> picks an element of a non-empty list, as \<open>random.choice\<close> does; without
  \<open>random_worker\<close> the first candidate is returned.\<close>

definition find_worker ::
  "(int list \<Rightarrow> int) \<Rightarrow> 'o worker_operations \<Rightarrow> bool \<Rightarrow> bool \<Rightarrow> (('o, 'g) worker_pool, int) stm"
where
  "find_worker choice operation require_connection random_worker =
     (\<lambda>w. (w, res_bind (worker_candidates w operation require_connection (wp_operations w)) (\<lambda>pool.
            case pool of
              [] \<Rightarrow> Inl LookupError
            | shard # _ \<Rightarrow> Inr (if random_worker then choice pool else shard))))"

definition acquire_worker ::
  "(int list \<Rightarrow> int) \<Rightarrow> ('o list \<Rightarrow> 'g res) \<Rightarrow> datetime \<Rightarrow> 'o list \<Rightarrow> (('o, 'g) worker_pool, int option) stm"
where
  "acquire_worker choice from_operations now operations =
     sbind (stry (sbind (find_worker choice WORKER_INACTIVE True True) (\<lambda>shard. sret (Some shard)))
                 is_LookupError
                 (\<lambda>_. sthen (set_available False) (sret None)))
       (\<lambda>found. case found of
          None \<Rightarrow> sret None
        | Some shard \<Rightarrow>
            sthen (add_operations shard operations)
           (sthen (set_start_time shard (Some now))
           (sbind (slift (from_operations operations)) (\<lambda>job_group.
            sthen (send_request shard (Execute_job_group job_group))
                  (sret (Some shard))))))"

text \<open>What \<open>release_worker\<close> returns: a boolean, or the operations whose results are ignored.\<close>

datatype 'o release_result = Ignore_All bool | Ignore_Operations "'o list"

definition release_worker :: "int \<Rightarrow> (('o, 'g) worker_pool, 'o release_result) stm" where
  "release_worker shard =
     sbind (operations_of shard) (\<lambda>operations.
       if operations = WORKER_INACTIVE then sraise ValueError
       else if operations = WORKER_DISABLED then sret (Ignore_All True)
       else
         sbind (ignore_of shard) (\<lambda>ret.
         sbind (to_ignore_of shard) (\<lambda>to_ignore.
         sthen (set_to_ignore shard [])
        (sthen (set_start_time shard None)
        (sthen (set_ignore shard False)
        (sbind (schedule_disabling_of shard) (\<lambda>scheduled.
         sthen (if scheduled
                then sthen (remove_operations shard WORKER_DISABLED)
                           (set_schedule_disabling shard False)
                else sthen (remove_operations shard WORKER_INACTIVE)
                           (set_available True))
               (sret (if \<not> ret \<and> to_ignore \<noteq> [] then Ignore_Operations to_ignore
                      else Ignore_All ret)))))))))"

definition ignore_operation :: "'o \<Rightarrow> (('o, 'g) worker_pool, unit) stm" where
  "ignore_operation operation =
     sbind (\<lambda>w. (w, dict_get (wp_operations_reverse w) operation)) (\<lambda>shard.
     sbind (to_ignore_of shard) (\<lambda>to_ignore.
       set_to_ignore shard (to_ignore @ [operation])))"

record 'd worker_status =
  ws_connected :: bool
  ws_operations :: "'d worker_operations"
  ws_start_time :: "real option"

text \<open>\<open>make_timestamp\<close>: seconds since the epoch.\<close>

definition make_timestamp :: "datetime \<Rightarrow> real" where
  "make_timestamp t = of_int t / 1000000"

fun wp_get_status_loop ::
  "('o \<Rightarrow> 'd) \<Rightarrow> ('o, 'g) worker_pool \<Rightarrow> int list \<Rightarrow> (int \<times> 'd worker_status) list res"
where
  "wp_get_status_loop to_dict w [] = Inr []"
| "wp_get_status_loop to_dict w (shard # shards) =
     res_bind (dict_get (wp_start_time w) shard) (\<lambda>s_time.
     res_bind (dict_get (wp_worker w) shard) (\<lambda>conn.
     res_bind (dict_get (wp_operations w) shard) (\<lambda>operations.
     res_bind (wp_get_status_loop to_dict w shards) (\<lambda>rest.
       Inr ((shard, \<lparr>ws_connected = conn,
                     ws_operations = map_worker_operations to_dict operations,
                     ws_start_time = map_option make_timestamp s_time\<rparr>) # rest)))))"

definition wp_get_status ::
  "('o \<Rightarrow> 'd) \<Rightarrow> ('o, 'g) worker_pool \<Rightarrow> (int \<times> 'd worker_status) list res"
where
  "wp_get_status to_dict w = wp_get_status_loop to_dict w (map fst (wp_worker w))"

text \<open>The operations of a worker that are not to be ignored.\<close>

definition not_ignored :: "'o worker_operations \<Rightarrow> 'o list \<Rightarrow> 'o list" where
  "not_ignored operations to_ignore =
     (case operations of
        WORKER_DOING os \<Rightarrow> filter (\<lambda>operation. operation \<notin> set to_ignore) os
      | _ \<Rightarrow> [])"

definition check_timeout_of ::
  "datetime \<Rightarrow> int \<Rightarrow> 'o list \<Rightarrow> (('o, 'g) worker_pool, 'o list) stm"
where
  "check_timeout_of now shard lost_operations =
     sbind (start_time_of shard) (\<lambda>start_time.
       case start_time of
         None \<Rightarrow> sret lost_operations
       | Some start \<Rightarrow>
           let active_for = now - start in
           if active_for > WORKER_TIMEOUT then
             sbind (operations_of shard) (\<lambda>operations.
             sthen (slift (py_assert (operations \<noteq> WORKER_INACTIVE \<and> operations \<noteq> WORKER_DISABLED)))
            (sbind (ignore_of shard) (\<lambda>ignore.
             sbind (if \<not> ignore
                    then sbind (to_ignore_of shard)
                           (\<lambda>to_ignore. sret (lost_operations @ not_ignored operations to_ignore))
                    else sret lost_operations) (\<lambda>lost.
             sthen (set_schedule_disabling shard True)
            (sthen (set_ignore shard True)
            (sthen (release_worker shard)
            (sthen (send_request shard (Quit active_for))
                   (sret lost))))))))
           else sret lost_operations)"

definition check_timeouts :: "datetime \<Rightarrow> (('o, 'g) worker_pool, 'o list) stm" where
  "check_timeouts now =
     sbind (sget (\<lambda>w. map fst (wp_worker w))) (\<lambda>shards. sfold shards (check_timeout_of now) [])"

definition disable_worker :: "int \<Rightarrow> (('o, 'g) worker_pool, 'o list) stm" where
  "disable_worker shard =
     sbind (operations_of shard) (\<lambda>operations.
       if operations = WORKER_DISABLED then sraise ValueError
       else if operations = WORKER_INACTIVE
       then sthen (set_operations shard WORKER_DISABLED) (sret [])
       else
         sbind (ignore_of shard) (\<lambda>ignore.
         sbind (if \<not> ignore
                then sbind (to_ignore_of shard) (\<lambda>to_ignore. sret (not_ignored operations to_ignore))
                else sret []) (\<lambda>lost_operations.
         sthen (set_schedule_disabling shard True)
        (sthen (set_to_ignore shard [])
        (sthen (set_ignore shard True)
        (sthen (release_worker shard)
               (sret lost_operations)))))))"

definition enable_worker :: "int \<Rightarrow> (('o, 'g) worker_pool, unit) stm" where
  "enable_worker shard =
     sbind (operations_of shard) (\<lambda>operations.
       if operations \<noteq> WORKER_DISABLED then sraise ValueError
       else sthen (set_operations shard WORKER_INACTIVE)
           (sthen (set_to_ignore shard [])
                  (set_available True)))"

text \<open>\<open>lost_operations += self._operations[shard]\<close> appends the whole list.\<close>

definition check_connection_of ::
  "int \<Rightarrow> 'o list \<Rightarrow> (('o, 'g) worker_pool, 'o list) stm"
where
  "check_connection_of shard lost_operations =
     sbind (connected_of shard) (\<lambda>conn.
       if conn then sret lost_operations
       else
         sbind (operations_of shard) (\<lambda>operations.
           case operations of
             WORKER_DOING os \<Rightarrow>
               sbind (ignore_of shard) (\<lambda>ignore.
               sthen (release_worker shard)
                     (sret (if \<not> ignore then lost_operations @ os else lost_operations)))
           | _ \<Rightarrow> sret lost_operations))"

definition check_connections :: "(('o, 'g) worker_pool, 'o list) stm" where
  "check_connections =
     sbind (sget (\<lambda>w. map fst (wp_worker w))) (\<lambda>shards. sfold shards check_connection_of [])"

section \<open>One item per worker\<close>

text \<open>What the dictionaries mean together: each worker is idle, disabled, or doing some
  operations since a time, some of them to be ignored.\<close>

datatype 'o worker_state = Idle | Off | Doing "'o list" datetime "'o list"

type_synonym 'o pool_items = "int \<rightharpoonup> bool \<times> 'o worker_state"

fun state_operations :: "'o worker_state \<Rightarrow> 'o worker_operations" where
  "state_operations Idle = WORKER_INACTIVE"
| "state_operations Off = WORKER_DISABLED"
| "state_operations (Doing os st ti) = WORKER_DOING os"

fun state_doing :: "'o worker_state \<Rightarrow> 'o list" where
  "state_doing (Doing os st ti) = os"
| "state_doing _ = []"

fun state_start :: "'o worker_state \<Rightarrow> datetime option" where
  "state_start (Doing os st ti) = Some st"
| "state_start _ = None"

fun state_ignored :: "'o worker_state \<Rightarrow> 'o list" where
  "state_ignored (Doing os st ti) = ti"
| "state_ignored _ = []"

text \<open>\<open>operations_reverse\<close> mirrors the lists of operations, an operation is with one worker at
  most, and the event is set whenever some connected worker is idle.\<close>

definition represents :: "('o, 'g) worker_pool \<Rightarrow> 'o pool_items \<Rightarrow> bool" where
  "represents w m \<longleftrightarrow>
     dict_ok (wp_worker w) \<and> dict_ok (wp_operations w) \<and> dict_ok (wp_operations_reverse w) \<and>
     map_of (wp_worker w) = (\<lambda>sh. map_option fst (m sh)) \<and>
     map_of (wp_operations w) = (\<lambda>sh. map_option (\<lambda>it. state_operations (snd it)) (m sh)) \<and>
     map_of (wp_operations_to_ignore w) = (\<lambda>sh. map_option (\<lambda>it. state_ignored (snd it)) (m sh)) \<and>
     map_of (wp_start_time w) = (\<lambda>sh. map_option (\<lambda>it. state_start (snd it)) (m sh)) \<and>
     map_of (wp_schedule_disabling w) = (\<lambda>sh. map_option (\<lambda>_. False) (m sh)) \<and>
     map_of (wp_ignore w) = (\<lambda>sh. map_option (\<lambda>_. False) (m sh)) \<and>
     (\<forall>op sh. map_of (wp_operations_reverse w) op = Some sh \<longleftrightarrow>
        (\<exists>c st. m sh = Some (c, st) \<and> op \<in> set (state_doing st))) \<and>
     (\<forall>sh c st. m sh = Some (c, st) \<longrightarrow>
        distinct (state_doing st) \<and> set (state_ignored st) \<subseteq> set (state_doing st)) \<and>
     ((\<exists>sh. m sh = Some (True, Idle)) \<longrightarrow> wp_workers_available_event w)"

lemma represents_lookup:
  assumes "represents w m" "m sh = Some (c, st)"
  shows "map_of (wp_worker w) sh = Some c" "map_of (wp_operations w) sh = Some (state_operations st)"
    "map_of (wp_operations_to_ignore w) sh = Some (state_ignored st)"
    "map_of (wp_start_time w) sh = Some (state_start st)"
    "map_of (wp_schedule_disabling w) sh = Some False" "map_of (wp_ignore w) sh = Some False"
    "distinct (state_doing st)" "set (state_ignored st) \<subseteq> set (state_doing st)"
  using assms unfolding represents_def by auto

lemma represents_missing:
  assumes "represents w m" "m sh = None"
  shows "map_of (wp_operations w) sh = None" "map_of (wp_worker w) sh = None"
    "map_of (wp_start_time w) sh = None"
  using assms unfolding represents_def by auto

lemma represents_reverse:
  assumes "represents w m"
  shows "map_of (wp_operations_reverse w) op = Some sh \<longleftrightarrow>
    (\<exists>c st. m sh = Some (c, st) \<and> op \<in> set (state_doing st))"
  using assms unfolding represents_def by blast

lemma represents_keys: "represents w m \<Longrightarrow> sh \<in> set (map fst (wp_worker w)) \<longleftrightarrow> m sh \<noteq> None"
  using map_of_eq_None_iff[of "wp_worker w" sh] by (auto simp: represents_def)

lemma represents_init: "represents worker_pool_init Map.empty"
  by (simp add: represents_def worker_pool_init_def)

lemmas pool_ops =
  operations_of_def to_ignore_of_def start_time_of_def schedule_disabling_of_def ignore_of_def
  connected_of_def set_operations_def set_to_ignore_def set_start_time_def
  set_schedule_disabling_def set_ignore_def set_available_def send_request_def dict_get_def

section \<open>The loops over operations\<close>

lemma map_of_fold_delete: "map_of (fold AList.delete xs d) = map_of d |` (- set xs)"
proof (induction xs arbitrary: d)
  case Nil
  then show ?case by (simp add: restrict_map_def)
next
  case (Cons x xs)
  then show ?case by (auto simp: dict_simps restrict_map_def fun_eq_iff)
qed

lemma dict_ok_fold_delete: "dict_ok d \<Longrightarrow> dict_ok (fold AList.delete xs d)"
  by (induction xs arbitrary: d) auto

lemma del_reverse_loop:
  assumes "distinct os" "\<forall>op\<in>set os. dict_has (wp_operations_reverse w) op"
  shows "sforeach os del_reverse w =
    (w\<lparr>wp_operations_reverse := fold AList.delete os (wp_operations_reverse w)\<rparr>, Inr ())"
  using assms
proof (induction os arbitrary: w)
  case (Cons op os)
  let ?w = "w\<lparr>wp_operations_reverse := AList.delete op (wp_operations_reverse w)\<rparr>"
  have "del_reverse op w = (?w, Inr ())"
    using Cons.prems by (simp add: del_reverse_def dict_del_def)
  moreover have "\<forall>o'\<in>set os. dict_has (wp_operations_reverse ?w) o'"
    using Cons.prems by (auto simp: dict_simps)
  ultimately show ?case
    using Cons.IH[of ?w] Cons.prems(1) by (simp add: stm_simps)
qed (simp add: stm_simps)

lemma add_reverse_loop:
  "sforeach os (\<lambda>op. supd (\<lambda>w. w\<lparr>wp_operations_reverse := dict_set (wp_operations_reverse w) op sh\<rparr>)) w =
    (w\<lparr>wp_operations_reverse := fold (\<lambda>op d. dict_set d op sh) os (wp_operations_reverse w)\<rparr>, Inr ())"
  by (induction os arbitrary: w) (simp_all add: stm_simps)

lemma map_of_fold_set:
  "map_of (fold (\<lambda>op d. dict_set d op sh) os d) = (\<lambda>op. if op \<in> set os then Some sh else map_of d op)"
  by (induction os arbitrary: d) (auto simp: dict_simps fun_eq_iff)

lemma dict_ok_fold_set: "dict_ok d \<Longrightarrow> dict_ok (fold (\<lambda>op d. dict_set d op sh) os d)"
  by (induction os arbitrary: d) auto

section \<open>Release\<close>

text \<open>The pool after a busy worker is released, for any setting of its flags.\<close>

definition released :: "int \<Rightarrow> 'o list \<Rightarrow> bool \<Rightarrow> ('o, 'g) worker_pool \<Rightarrow> ('o, 'g) worker_pool" where
  "released sh os scheduled w =
     w\<lparr>wp_operations_to_ignore := dict_set (wp_operations_to_ignore w) sh [],
       wp_start_time := dict_set (wp_start_time w) sh None,
       wp_ignore := dict_set (wp_ignore w) sh False,
       wp_operations := dict_set (wp_operations w) sh (if scheduled then WORKER_DISABLED else WORKER_INACTIVE),
       wp_operations_reverse := fold AList.delete os (wp_operations_reverse w),
       wp_schedule_disabling :=
         (if scheduled then dict_set (wp_schedule_disabling w) sh False else wp_schedule_disabling w),
       wp_workers_available_event := (wp_workers_available_event w \<or> \<not> scheduled)\<rparr>"

lemma release_worker_doing:
  assumes "map_of (wp_operations w) sh = Some (WORKER_DOING os)" "map_of (wp_ignore w) sh = Some ig"
    "map_of (wp_operations_to_ignore w) sh = Some ti"
    "map_of (wp_schedule_disabling w) sh = Some sc"
    "distinct os" "\<forall>op\<in>set os. dict_has (wp_operations_reverse w) op"
  shows "release_worker sh w = (released sh os sc w,
    Inr (if \<not> ig \<and> ti \<noteq> [] then Ignore_Operations ti else Ignore_All ig))"
  using assms
  by (cases sc) (simp_all add: release_worker_def remove_operations_def pool_ops stm_simps dict_simps
      del_reverse_loop released_def)

text \<open>The flags that callers set before they release a worker.\<close>

definition flagged :: "int \<Rightarrow> bool \<Rightarrow> bool \<Rightarrow> ('o, 'g) worker_pool \<Rightarrow> ('o, 'g) worker_pool" where
  "flagged sh scheduled clear w =
     (if scheduled then
        w\<lparr>wp_schedule_disabling := dict_set (wp_schedule_disabling w) sh True,
          wp_operations_to_ignore :=
            (if clear then dict_set (wp_operations_to_ignore w) sh [] else wp_operations_to_ignore w),
          wp_ignore := dict_set (wp_ignore w) sh True\<rparr>
      else w)"

lemma reverse_of_doing:
  assumes "represents w m" "m sh = Some (c, st)"
  shows "\<forall>op\<in>set (state_doing st). dict_has (wp_operations_reverse w) op"
  using represents_reverse[OF assms(1)] assms(2) unfolding dict_has_def by force

text \<open>Changing the item of one worker: what the dictionaries of the new pool have to be.\<close>

lemma represents_update:
  assumes w: "represents w m"
    and ok: "dict_ok (wp_worker w')" "dict_ok (wp_operations w')" "dict_ok (wp_operations_reverse w')"
    and maps: "map_of (wp_worker w') = (map_of (wp_worker w))(sh \<mapsto> c)"
      "map_of (wp_operations w') = (map_of (wp_operations w))(sh \<mapsto> state_operations st)"
      "map_of (wp_operations_to_ignore w') = (map_of (wp_operations_to_ignore w))(sh \<mapsto> state_ignored st)"
      "map_of (wp_start_time w') = (map_of (wp_start_time w))(sh \<mapsto> state_start st)"
      "map_of (wp_schedule_disabling w') = (map_of (wp_schedule_disabling w))(sh \<mapsto> False)"
      "map_of (wp_ignore w') = (map_of (wp_ignore w))(sh \<mapsto> False)"
    and rev: "\<And>op. map_of (wp_operations_reverse w') op =
      (if op \<in> set (state_doing st) then Some sh
       else if map_of (wp_operations_reverse w) op = Some sh then None
       else map_of (wp_operations_reverse w) op)"
    and fresh: "\<And>op. op \<in> set (state_doing st) \<Longrightarrow>
      map_of (wp_operations_reverse w) op = None \<or> map_of (wp_operations_reverse w) op = Some sh"
    and st: "distinct (state_doing st)" "set (state_ignored st) \<subseteq> set (state_doing st)"
    and event: "wp_workers_available_event w \<Longrightarrow> wp_workers_available_event w'"
      "c \<and> st = Idle \<Longrightarrow> wp_workers_available_event w'"
  shows "represents w' (m(sh \<mapsto> (c, st)))"
proof -
  let ?m = "m(sh \<mapsto> (c, st))"
  note r = represents_reverse[OF w]
  have "map_of (wp_operations_reverse w') op = Some sh' \<longleftrightarrow>
      (\<exists>c' st'. ?m sh' = Some (c', st') \<and> op \<in> set (state_doing st'))" for op sh'
  proof (cases "sh' = sh")
    case True
    then show ?thesis using rev[of op] by auto
  next
    case False
    then have "map_of (wp_operations_reverse w') op = Some sh' \<longleftrightarrow>
        map_of (wp_operations_reverse w) op = Some sh'"
      using rev[of op] fresh[of op] by auto
    then show ?thesis using r[of op sh'] False by simp
  qed
  moreover have "map_of (wp_worker w') = (\<lambda>sh. map_option fst (?m sh))"
    "map_of (wp_operations w') = (\<lambda>sh. map_option (\<lambda>it. state_operations (snd it)) (?m sh))"
    "map_of (wp_operations_to_ignore w') = (\<lambda>sh. map_option (\<lambda>it. state_ignored (snd it)) (?m sh))"
    "map_of (wp_start_time w') = (\<lambda>sh. map_option (\<lambda>it. state_start (snd it)) (?m sh))"
    "map_of (wp_schedule_disabling w') = (\<lambda>sh. map_option (\<lambda>_. False) (?m sh))"
    "map_of (wp_ignore w') = (\<lambda>sh. map_option (\<lambda>_. False) (?m sh))"
    using w by (simp_all add: maps represents_def fun_eq_iff)
  moreover have "distinct (state_doing st') \<and> set (state_ignored st') \<subseteq> set (state_doing st')"
    if "?m sh' = Some (c', st')" for sh' c' st'
    using that represents_lookup(7,8)[OF w, of sh'] st by (cases "sh' = sh") auto
  moreover have "wp_workers_available_event w'" if "?m sh' = Some (True, Idle)" for sh'
    using that w event by (cases "sh' = sh") (auto simp: represents_def)
  ultimately show ?thesis
    using ok unfolding represents_def by blast
qed

lemma represents_ok:
  "represents w m \<Longrightarrow> dict_ok (wp_worker w) \<and> dict_ok (wp_operations w) \<and> dict_ok (wp_operations_reverse w)"
  by (simp add: represents_def)

lemma represents_same_shard:
  assumes "represents w m" "m sh = Some (c, st)"
  shows "map_of (wp_operations_reverse w) op = Some sh \<longleftrightarrow> op \<in> set (state_doing st)"
  using represents_reverse[OF assms(1), of op sh] assms(2) by simp

lemma represents_unique:
  assumes "represents w m" "m sh = Some (c, st)" "op \<in> set (state_doing st)"
    "m sh' = Some (c', st')" "op \<in> set (state_doing st')"
  shows "sh' = sh"
  using represents_same_shard[OF assms(1,2), of op] represents_same_shard[OF assms(1,4), of op] assms(3,5)
  by simp

lemma represents_released:
  assumes w: "represents w m" "m sh = Some (c, Doing os st ti)"
  shows "represents (released sh os sc (flagged sh sc cl w)) (m(sh \<mapsto> (c, if sc then Off else Idle)))"
  by (rule represents_update[OF w(1)]; cases sc)
    (use represents_ok[OF w(1)] represents_lookup[OF w] represents_same_shard[OF w] in
      \<open>auto simp: released_def flagged_def dict_simps dict_ok_fold_delete map_of_fold_delete
         restrict_map_def fun_eq_iff\<close>)

section \<open>Refinement, operation by operation\<close>

lemma add_worker_refines:
  assumes w: "represents w m" "m sh = None"
  shows "\<exists>w'. add_worker sh c w = (w', Inr ()) \<and> represents w' (m(sh \<mapsto> (c, Idle)))"
proof -
  have "map_of (wp_operations_reverse w) op \<noteq> Some sh" for op
    using represents_reverse[OF w(1)] w(2) by auto
  then have "represents (fst (add_worker sh c w)) (m(sh \<mapsto> (c, Idle)))"
    by (intro represents_update[OF w(1)])
      (use represents_ok[OF w(1)] in \<open>auto simp: add_worker_def pool_ops stm_simps dict_simps\<close>)
  moreover have "snd (add_worker sh c w) = Inr ()"
    by (simp add: add_worker_def pool_ops stm_simps)
  ultimately show ?thesis by (metis prod.collapse)
qed

lemma release_worker_refines:
  assumes w: "represents w m" "m sh = Some (c, Doing os st ti)"
  shows "\<exists>w'. release_worker sh w = (w', Inr (if ti \<noteq> [] then Ignore_Operations ti else Ignore_All False)) \<and>
    represents w' (m(sh \<mapsto> (c, Idle)))"
  using release_worker_doing[of w sh os False ti False] represents_lookup[OF w] reverse_of_doing[OF w]
    represents_released[OF w, of False] by (simp add: flagged_def)

lemma release_worker_not_doing:
  assumes w: "represents w m"
  shows "m sh = None \<Longrightarrow> release_worker sh w = (w, Inl KeyError)"
    "m sh = Some (c, Idle) \<Longrightarrow> release_worker sh w = (w, Inl ValueError)"
    "m sh = Some (c, Off) \<Longrightarrow> release_worker sh w = (w, Inr (Ignore_All True))"
  using represents_missing[OF w] represents_lookup[OF w]
  by (simp_all add: release_worker_def pool_ops stm_simps)

lemma release_flagged:
  assumes w: "represents w m" "m sh = Some (c, Doing os st ti)"
  shows "\<exists>w' r. release_worker sh (flagged sh True cl w) = (w', Inr r) \<and> represents w' (m(sh \<mapsto> (c, Off)))"
  using release_worker_doing[of "flagged sh True cl w" sh os True "if cl then [] else ti" True]
    represents_lookup[OF w] reverse_of_doing[OF w] represents_released[OF w, of True cl]
  by (simp add: flagged_def dict_simps)

lemma disable_worker_refines:
  assumes w: "represents w m"
  shows "m sh = None \<Longrightarrow> disable_worker sh w = (w, Inl KeyError)"
    "m sh = Some (c, Off) \<Longrightarrow> disable_worker sh w = (w, Inl ValueError)"
    "m sh = Some (c, Idle) \<Longrightarrow>
      \<exists>w'. disable_worker sh w = (w', Inr []) \<and> represents w' (m(sh \<mapsto> (c, Off)))"
    "m sh = Some (c, Doing os st ti) \<Longrightarrow>
      \<exists>w'. disable_worker sh w = (w', Inr (filter (\<lambda>op. op \<notin> set ti) os)) \<and>
        represents w' (m(sh \<mapsto> (c, Off)))"
proof -
  show "disable_worker sh w = (w, Inl KeyError)" if "m sh = None"
    using represents_missing[OF w that] by (simp add: disable_worker_def pool_ops stm_simps)
  show "disable_worker sh w = (w, Inl ValueError)" if "m sh = Some (c, Off)"
    using represents_lookup[OF w that] by (simp add: disable_worker_def pool_ops stm_simps)
  show "\<exists>w'. disable_worker sh w = (w', Inr []) \<and> represents w' (m(sh \<mapsto> (c, Off)))"
    if i: "m sh = Some (c, Idle)"
  proof -
    note l = represents_lookup[OF w i] represents_same_shard[OF w i]
    have "represents (w\<lparr>wp_operations := dict_set (wp_operations w) sh WORKER_DISABLED\<rparr>) (m(sh \<mapsto> (c, Off)))"
      by (rule represents_update[OF w]) (use represents_ok[OF w] l in \<open>auto simp: dict_simps\<close>)
    then show ?thesis
      using l by (simp add: disable_worker_def pool_ops stm_simps)
  qed
  show "\<exists>w'. disable_worker sh w = (w', Inr (filter (\<lambda>op. op \<notin> set ti) os)) \<and>
        represents w' (m(sh \<mapsto> (c, Off)))" if d: "m sh = Some (c, Doing os st ti)"
  proof -
    obtain w' r where "release_worker sh (flagged sh True True w) = (w', Inr r)"
      "represents w' (m(sh \<mapsto> (c, Off)))"
      using release_flagged[OF w d] by blast
    then show ?thesis
      using represents_lookup[OF w d]
      by (simp add: disable_worker_def pool_ops stm_simps flagged_def not_ignored_def)
  qed
qed

lemma enable_worker_refines:
  assumes w: "represents w m"
  shows "m sh = None \<Longrightarrow> enable_worker sh w = (w, Inl KeyError)"
    "m sh = Some (c, st) \<Longrightarrow> st \<noteq> Off \<Longrightarrow> enable_worker sh w = (w, Inl ValueError)"
    "m sh = Some (c, Off) \<Longrightarrow>
      \<exists>w'. enable_worker sh w = (w', Inr ()) \<and> represents w' (m(sh \<mapsto> (c, Idle)))"
proof -
  show "enable_worker sh w = (w, Inl KeyError)" if "m sh = None"
    using represents_missing[OF w that] by (simp add: enable_worker_def pool_ops stm_simps)
  show "enable_worker sh w = (w, Inl ValueError)" if "m sh = Some (c, st)" "st \<noteq> Off"
    using represents_lookup[OF w that(1)] that(2)
    by (cases st) (simp_all add: enable_worker_def pool_ops stm_simps)
  show "\<exists>w'. enable_worker sh w = (w', Inr ()) \<and> represents w' (m(sh \<mapsto> (c, Idle)))"
    if i: "m sh = Some (c, Off)"
  proof -
    note l = represents_lookup[OF w i] represents_same_shard[OF w i]
    have "represents (w\<lparr>wp_operations := dict_set (wp_operations w) sh WORKER_INACTIVE,
        wp_operations_to_ignore := dict_set (wp_operations_to_ignore w) sh [],
        wp_workers_available_event := True\<rparr>) (m(sh \<mapsto> (c, Idle)))"
      by (rule represents_update[OF w]) (use represents_ok[OF w] l in \<open>auto simp: dict_simps\<close>)
    then show ?thesis
      using l by (simp add: enable_worker_def pool_ops stm_simps)
  qed
qed

lemma ignore_operation_refines:
  assumes w: "represents w m"
  shows "map_of (wp_operations_reverse w) op = None \<Longrightarrow> ignore_operation op w = (w, Inl KeyError)"
    "m sh = Some (c, Doing os st ti) \<Longrightarrow> op \<in> set os \<Longrightarrow>
      \<exists>w'. ignore_operation op w = (w', Inr ()) \<and> represents w' (m(sh \<mapsto> (c, Doing os st (ti @ [op]))))"
proof -
  show "ignore_operation op w = (w, Inl KeyError)" if "map_of (wp_operations_reverse w) op = None"
    using that by (simp add: ignore_operation_def stm_simps)
  show "\<exists>w'. ignore_operation op w = (w', Inr ()) \<and> represents w' (m(sh \<mapsto> (c, Doing os st (ti @ [op]))))"
    if i: "m sh = Some (c, Doing os st ti)" "op \<in> set os"
  proof -
    note l = represents_lookup[OF w i(1)] represents_same_shard[OF w i(1)]
    have "represents (w\<lparr>wp_operations_to_ignore := dict_set (wp_operations_to_ignore w) sh (ti @ [op])\<rparr>)
        (m(sh \<mapsto> (c, Doing os st (ti @ [op]))))"
      by (rule represents_update[OF w]) (use represents_ok[OF w] l i(2) in \<open>auto simp: dict_simps\<close>)
    moreover have "map_of (wp_operations_reverse w) op = Some sh"
      using l(9) i(2) by simp
    ultimately show ?thesis
      using l(1-8) by (simp add: ignore_operation_def pool_ops stm_simps)
  qed
qed

lemma represents_event:
  assumes "represents w m" "(\<exists>sh. m sh = Some (True, Idle)) \<longrightarrow> b"
  shows "represents (w\<lparr>wp_workers_available_event := b\<rparr>) m"
  using assms unfolding represents_def by simp

lemma represents_sent: "represents w m \<Longrightarrow> represents (w\<lparr>wp_sent := x\<rparr>) m"
  unfolding represents_def by simp

text \<open>Workers come and go: the connection of a worker is lost, or comes back and the callback
  runs.\<close>

definition disconnect :: "int \<Rightarrow> ('o, 'g) worker_pool \<Rightarrow> ('o, 'g) worker_pool" where
  "disconnect sh w = w\<lparr>wp_worker := dict_set (wp_worker w) sh False\<rparr>"

definition connect :: "int option \<Rightarrow> int \<Rightarrow> ('o, 'g) worker_pool \<Rightarrow> ('o, 'g) worker_pool" where
  "connect contest_id sh w =
     fst (on_worker_connected contest_id sh (w\<lparr>wp_worker := dict_set (wp_worker w) sh True\<rparr>))"

lemma represents_connection:
  assumes w: "represents w m" "m sh = Some (c, st)"
  shows "represents (w\<lparr>wp_worker := dict_set (wp_worker w) sh c',
    wp_workers_available_event := (wp_workers_available_event w \<or> c')\<rparr>) (m(sh \<mapsto> (c', st)))"
  by (rule represents_update[OF w(1)])
    (use represents_ok[OF w(1)] represents_lookup[OF w] represents_same_shard[OF w] in
      \<open>auto simp: dict_simps\<close>)

lemma disconnect_refines:
  assumes "represents w m" "m sh = Some (c, st)"
  shows "represents (disconnect sh w) (m(sh \<mapsto> (False, st)))"
  using represents_connection[OF assms, of False] by (simp add: disconnect_def)

lemma connect_refines:
  assumes "represents w m" "m sh = Some (c, st)"
  shows "represents (connect contest_id sh w) (m(sh \<mapsto> (True, st)))"
  using represents_connection[OF assms, of True]
    represents_sent[OF represents_connection[OF assms, of True]]
  by (cases contest_id; cases w) (simp_all add: connect_def on_worker_connected_def pool_ops stm_simps dict_simps)

section \<open>Acquiring a worker\<close>

definition idle_workers :: "('o, 'g) worker_pool \<Rightarrow> int list" where
  "idle_workers w =
     map fst (filter (\<lambda>(sh, ops). ops = WORKER_INACTIVE \<and> map_of (wp_worker w) sh = Some True) (wp_operations w))"

lemma worker_candidates_idle:
  assumes "\<forall>sh\<in>set (map fst l). dict_has (wp_worker w) sh"
  shows "worker_candidates w WORKER_INACTIVE True l =
    Inr (map fst (filter (\<lambda>(sh, ops). ops = WORKER_INACTIVE \<and> map_of (wp_worker w) sh = Some True) l))"
  using assms
proof (induction l)
  case (Cons a l)
  obtain sh ops where a: "a = (sh, ops)" by fastforce
  then obtain c where "map_of (wp_worker w) sh = Some c"
    using Cons.prems by (auto simp: dict_has_def)
  then show ?case
    using Cons a by (cases c) (simp_all add: dict_get_def)
qed simp

lemma idle_workers_set:
  assumes "represents w m"
  shows "set (idle_workers w) = {sh. m sh = Some (True, Idle)}"
proof -
  have "sh \<in> set (idle_workers w) \<longleftrightarrow>
      map_of (wp_operations w) sh = Some WORKER_INACTIVE \<and> map_of (wp_worker w) sh = Some True" for sh
    using represents_ok[OF assms] map_of_eq_Some_iff[of "wp_operations w" sh WORKER_INACTIVE]
    by (force simp: idle_workers_def dict_ok_def)
  moreover have "state_operations st = WORKER_INACTIVE \<longleftrightarrow> st = Idle" for st :: "'a worker_state"
    by (cases st) auto
  ultimately show ?thesis
    using assms by (auto simp: represents_def)
qed

lemma find_worker_idle:
  assumes "represents w m"
  shows "find_worker choice WORKER_INACTIVE True True w =
    (w, if idle_workers w = [] then Inl LookupError else Inr (choice (idle_workers w)))"
proof -
  have "\<forall>sh\<in>set (map fst (wp_operations w)). dict_has (wp_worker w) sh"
  proof
    fix sh
    assume "sh \<in> set (map fst (wp_operations w))"
    then have "map_of (wp_operations w) sh \<noteq> None" by (simp add: map_of_eq_None_iff)
    then show "dict_has (wp_worker w) sh"
      using assms by (auto simp: represents_def dict_has_def)
  qed
  from worker_candidates_idle[OF this] show ?thesis
    unfolding find_worker_def idle_workers_def by (simp split: list.split)
qed

lemma acquire_worker_none:
  assumes "represents w m" "idle_workers w = []"
  shows "acquire_worker choice jobs now os w = (w\<lparr>wp_workers_available_event := False\<rparr>, Inr None)"
  using find_worker_idle[OF assms(1), of choice] assms(2)
  by (simp add: acquire_worker_def stry_def stm_simps pool_ops)

lemma acquire_worker_some:
  assumes w: "represents w m" and idle: "m sh = Some (True, Idle)" "choice (idle_workers w) = sh"
    and os: "distinct os" "\<forall>op\<in>set os. \<not> wp_contains w op"
  shows "\<exists>w'. acquire_worker choice jobs now os w =
      (case jobs os of Inl e \<Rightarrow> (w', Inl e)
       | Inr g \<Rightarrow> (w'\<lparr>wp_sent := wp_sent w @ [(sh, Execute_job_group g)]\<rparr>, Inr (Some sh))) \<and>
    represents w' (m(sh \<mapsto> (True, Doing os now [])))"
proof -
  let ?w = "w\<lparr>wp_operations := dict_set (wp_operations w) sh (WORKER_DOING os),
    wp_operations_reverse := fold (\<lambda>op d. dict_set d op sh) os (wp_operations_reverse w),
    wp_start_time := dict_set (wp_start_time w) sh (Some now)\<rparr>"
  note l = represents_lookup[OF w idle(1)] represents_same_shard[OF w idle(1)]
  have "idle_workers w \<noteq> []"
    using idle_workers_set[OF w] idle(1) by auto
  then have "find_worker choice WORKER_INACTIVE True True w = (w, Inr sh)"
    using find_worker_idle[OF w] idle(2) by simp
  then have "acquire_worker choice jobs now os w =
      (case jobs os of Inl e \<Rightarrow> (?w, Inl e)
       | Inr g \<Rightarrow> (?w\<lparr>wp_sent := wp_sent w @ [(sh, Execute_job_group g)]\<rparr>, Inr (Some sh)))"
    using l by (simp add: acquire_worker_def add_operations_def stry_def stm_simps pool_ops
        add_reverse_loop split: sum.split)
  moreover have "represents ?w (m(sh \<mapsto> (True, Doing os now [])))"
    by (rule represents_update[OF w])
      (use represents_ok[OF w] l os in
        \<open>auto simp: dict_simps map_of_fold_set dict_ok_fold_set wp_contains_def dict_has_def\<close>)
  ultimately show ?thesis by blast
qed

section \<open>The periodic checks\<close>

text \<open>A loop that treats every worker once, for any treatment \<open>upd\<close> of an item that
  contributes \<open>lost\<close> to the result.\<close>

lemma pool_loop:
  fixes w :: "('o, 'g) worker_pool"
  assumes step: "\<And>w m sh it a. represents w m \<Longrightarrow> m sh = Some it \<Longrightarrow>
      \<exists>w'. f sh a w = (w', Inr (a @ lost it)) \<and> represents w' (m(sh \<mapsto> upd it))"
    and w: "represents w m"
  shows "\<exists>w'. sfold (map fst (wp_worker w)) f [] w =
      (w', Inr (concat (map (\<lambda>sh. lost (the (m sh))) (map fst (wp_worker w))))) \<and>
    represents w' (\<lambda>sh. map_option upd (m sh))"
proof -
  let ?I = "\<lambda>pre a w'. a = concat (map (\<lambda>sh. lost (the (m sh))) pre) \<and>
    represents w' (\<lambda>sh. if sh \<in> set pre then map_option upd (m sh) else m sh)"
  have d: "distinct (map fst (wp_worker w))"
    using represents_ok[OF w] by (simp add: dict_ok_def)
  have "\<exists>w' a'. sfold (map fst (wp_worker w)) f [] w = (w', Inr a') \<and> ?I (map fst (wp_worker w)) a' w'"
  proof (rule sfold_rule)
    show "?I [] [] w" using w by simp
  next
    fix pre sh post a and w1 :: "('o, 'g) worker_pool"
    assume xs: "map fst (wp_worker w) = pre @ sh # post" and I: "?I pre a w1"
    then have new: "sh \<notin> set pre" using d by auto
    obtain it where it: "m sh = Some it"
      using represents_keys[OF w, of sh] xs by auto
    let ?m = "\<lambda>sh. if sh \<in> set pre then map_option upd (m sh) else m sh"
    obtain w' where w': "f sh a w1 = (w', Inr (a @ lost it))" "represents w' (?m(sh \<mapsto> upd it))"
      using step[of w1 ?m sh it a] I it new by auto
    have "?m(sh \<mapsto> upd it) = (\<lambda>s. if s \<in> set (pre @ [sh]) then map_option upd (m s) else m s)"
      using it by (auto simp: fun_eq_iff)
    then show "\<exists>s' a'. f sh a w1 = (s', Inr a') \<and> ?I (pre @ [sh]) a' s'"
      using w' I it by (intro exI[of _ w'] exI[of _ "a @ lost it"]) simp
  qed
  then obtain w' where 1: "sfold (map fst (wp_worker w)) f [] w =
      (w', Inr (concat (map (\<lambda>sh. lost (the (m sh))) (map fst (wp_worker w)))))"
    "represents w' (\<lambda>sh. if sh \<in> set (map fst (wp_worker w)) then map_option upd (m sh) else m sh)"
    by blast
  have "(if sh \<in> set (map fst (wp_worker w)) then map_option upd (m sh) else m sh) = map_option upd (m sh)"
    for sh
    using represents_keys[OF w, of sh] by (cases "m sh") simp_all
  then show ?thesis using 1 by auto
qed

text \<open>A worker is stale when it has been busy for more than ten minutes; its operations that are
  not ignored are lost.\<close>

fun stale :: "datetime \<Rightarrow> 'o worker_state \<Rightarrow> bool" where
  "stale now (Doing os st ti) \<longleftrightarrow> now - st > WORKER_TIMEOUT"
| "stale now _ \<longleftrightarrow> False"

fun wanted :: "'o worker_state \<Rightarrow> 'o list" where
  "wanted (Doing os st ti) = filter (\<lambda>op. op \<notin> set ti) os"
| "wanted _ = []"

lemma check_timeout_of_refines:
  assumes w: "represents w m" "m sh = Some it"
  shows "\<exists>w'. check_timeout_of now sh a w =
      (w', Inr (a @ (if stale now (snd it) then wanted (snd it) else []))) \<and>
    represents w' (m(sh \<mapsto> (if stale now (snd it) then (fst it, Off) else it)))"
proof (cases "stale now (snd it)")
  case True
  then obtain c os st ti where it: "it = (c, Doing os st ti)"
    by (cases it; cases "snd it") auto
  then have d: "m sh = Some (c, Doing os st ti)" "now - st > WORKER_TIMEOUT"
    using w(2) True by auto
  note l = represents_lookup[OF w(1) d(1)]
  obtain w' r where w': "release_worker sh (flagged sh True False w) = (w', Inr r)"
    "represents w' (m(sh \<mapsto> (c, Off)))"
    using release_flagged[OF w(1) d(1)] by blast
  then have "map_of (wp_worker w') sh = Some c"
    using represents_lookup(1)[OF w'(2)] by simp
  then have "check_timeout_of now sh a w =
      (w'\<lparr>wp_sent := wp_sent w' @ [(sh, Quit (now - st))]\<rparr>, Inr (a @ wanted (Doing os st ti)))"
    using l w'(1) d(2)
    by (simp add: check_timeout_of_def pool_ops stm_simps flagged_def not_ignored_def)
  then show ?thesis
    using True it represents_sent[OF w'(2)] by auto
next
  case False
  obtain c st where it: "it = (c, st)" by (cases it)
  have "check_timeout_of now sh a w = (w, Inr a)"
    using represents_lookup[OF w(1), of sh c st] w(2) False it
    by (cases st) (auto simp: check_timeout_of_def pool_ops stm_simps Let_def)
  moreover have "m(sh \<mapsto> it) = m" using w(2) by auto
  ultimately show ?thesis using False w(1) by simp
qed

fun stranded :: "bool \<times> 'o worker_state \<Rightarrow> bool" where
  "stranded (False, Doing os st ti) \<longleftrightarrow> True"
| "stranded _ \<longleftrightarrow> False"

lemma check_connection_of_refines:
  assumes w: "represents w m" "m sh = Some it"
  shows "\<exists>w'. check_connection_of sh a w =
      (w', Inr (a @ (if stranded it then state_doing (snd it) else []))) \<and>
    represents w' (m(sh \<mapsto> (if stranded it then (False, Idle) else it)))"
proof (cases "stranded it")
  case True
  then obtain os st ti where it: "it = (False, Doing os st ti)"
    by (cases it rule: stranded.cases) auto
  then have d: "m sh = Some (False, Doing os st ti)" using w(2) by simp
  obtain w' r where "release_worker sh w = (w', Inr r)" "represents w' (m(sh \<mapsto> (False, Idle)))"
    using release_worker_refines[OF w(1) d] by blast
  then show ?thesis
    using represents_lookup[OF w(1) d] True it by (simp add: check_connection_of_def pool_ops stm_simps)
next
  case False
  obtain c st where it: "it = (c, st)" by (cases it)
  have "check_connection_of sh a w = (w, Inr a)"
    using represents_lookup[OF w(1), of sh c st] w(2) False it
    by (cases c; cases st) (auto simp: check_connection_of_def pool_ops stm_simps)
  moreover have "m(sh \<mapsto> it) = m" using w(2) by auto
  ultimately show ?thesis using False w(1) by simp
qed

lemma check_timeouts_refines:
  assumes "represents w m"
  shows "\<exists>w'. check_timeouts now w = (w', Inr (concat (map (\<lambda>sh.
        if stale now (snd (the (m sh))) then wanted (snd (the (m sh))) else []) (map fst (wp_worker w))))) \<and>
    represents w' (\<lambda>sh. map_option (\<lambda>it. if stale now (snd it) then (fst it, Off) else it) (m sh))"
  using pool_loop[where f = "check_timeout_of now"
      and lost = "\<lambda>it. if stale now (snd it) then wanted (snd it) else []"
      and upd = "\<lambda>it. if stale now (snd it) then (fst it, Off) else it",
      OF check_timeout_of_refines assms] by (simp add: check_timeouts_def stm_simps)

lemma check_connections_refines:
  assumes "represents w m"
  shows "\<exists>w'. check_connections w = (w', Inr (concat (map (\<lambda>sh.
        if stranded (the (m sh)) then state_doing (snd (the (m sh))) else []) (map fst (wp_worker w))))) \<and>
    represents w' (\<lambda>sh. map_option (\<lambda>it. if stranded it then (False, Idle) else it) (m sh))"
  using pool_loop[where f = check_connection_of
      and lost = "\<lambda>it. if stranded it then state_doing (snd it) else []"
      and upd = "\<lambda>it. if stranded it then (False, Idle) else it",
      OF check_connection_of_refines assms] by (simp add: check_connections_def stm_simps)

section \<open>Reachable pools\<close>

definition fair_choice :: "(int list \<Rightarrow> int) \<Rightarrow> bool" where
  "fair_choice choice \<longleftrightarrow> (\<forall>xs. xs \<noteq> [] \<longrightarrow> choice xs \<in> set xs)"

text \<open>Every call of the service and every change of a connection, in any order. Shards are added
  once, and the service never assigns an operation that is with some worker already.\<close>

inductive wp_reachable :: "('o, 'g) worker_pool \<Rightarrow> bool" where
  init: "wp_reachable worker_pool_init"
| add: "wp_reachable w \<Longrightarrow> \<not> dict_has (wp_worker w) sh \<Longrightarrow> wp_reachable (fst (add_worker sh c w))"
| connect: "wp_reachable w \<Longrightarrow> dict_has (wp_worker w) sh \<Longrightarrow> wp_reachable (connect contest_id sh w)"
| disconnect: "wp_reachable w \<Longrightarrow> dict_has (wp_worker w) sh \<Longrightarrow> wp_reachable (disconnect sh w)"
| acquire: "wp_reachable w \<Longrightarrow> fair_choice choice \<Longrightarrow> distinct os \<Longrightarrow> \<forall>op\<in>set os. \<not> wp_contains w op \<Longrightarrow>
    wp_reachable (fst (acquire_worker choice jobs now os w))"
| release: "wp_reachable w \<Longrightarrow> wp_reachable (fst (release_worker sh w))"
| ignore: "wp_reachable w \<Longrightarrow> wp_reachable (fst (ignore_operation op w))"
| timeouts: "wp_reachable w \<Longrightarrow> wp_reachable (fst (check_timeouts now w))"
| disable: "wp_reachable w \<Longrightarrow> wp_reachable (fst (disable_worker sh w))"
| enable: "wp_reachable w \<Longrightarrow> wp_reachable (fst (enable_worker sh w))"
| connections: "wp_reachable w \<Longrightarrow> wp_reachable (fst (check_connections w))"

lemma represents_has: "represents w m \<Longrightarrow> dict_has (wp_worker w) sh \<longleftrightarrow> m sh \<noteq> None"
  by (auto simp: represents_def dict_has_def)

lemma fst_keeps: "\<exists>w'. p = (w', r) \<and> P w' \<Longrightarrow> P (fst p)"
  by auto

lemma acquire_worker_keeps:
  assumes w: "represents w m" and "fair_choice choice" "distinct os" "\<forall>op\<in>set os. \<not> wp_contains w op"
  shows "\<exists>m'. represents (fst (acquire_worker choice jobs now os w)) m'"
proof (cases "idle_workers w = []")
  case True
  then have "represents (w\<lparr>wp_workers_available_event := False\<rparr>) m"
    using represents_event[OF w, of False] idle_workers_set[OF w] by auto
  then show ?thesis using acquire_worker_none[OF w True] by (metis fst_conv)
next
  case False
  then have "m (choice (idle_workers w)) = Some (True, Idle)"
    using assms(2) idle_workers_set[OF w] unfolding fair_choice_def by blast
  from acquire_worker_some[where choice = choice, OF w this refl assms(3,4), of jobs now] obtain w' m' where
    "acquire_worker choice jobs now os w =
      (case jobs os of Inl e \<Rightarrow> (w', Inl e)
       | Inr g \<Rightarrow> (w'\<lparr>wp_sent := wp_sent w @ [(choice (idle_workers w), Execute_job_group g)]\<rparr>,
                   Inr (Some (choice (idle_workers w)))))" "represents w' m'"
    by blast
  then show ?thesis
    using represents_sent[of w' m'] by (cases "jobs os") (auto intro!: exI[of _ m'])
qed

text \<open>No call but \<open>acquire_worker\<close> gives operations to a worker.\<close>

definition smaller :: "'o pool_items \<Rightarrow> 'o pool_items \<Rightarrow> bool" where
  "smaller m m' \<longleftrightarrow> (\<forall>sh c' st'. m' sh = Some (c', st') \<longrightarrow>
     (\<exists>c st. m sh = Some (c, st) \<and> set (state_doing st') \<subseteq> set (state_doing st)))"

lemma smaller_refl [simp]: "smaller m m"
  by (auto simp: smaller_def)

lemma smaller_update:
  "m sh = Some (c, st) \<Longrightarrow> set (state_doing st') \<subseteq> set (state_doing st) \<Longrightarrow> smaller m (m(sh \<mapsto> (c', st')))"
  by (auto simp: smaller_def)

lemma keepsI: "f w = (w', r) \<Longrightarrow> represents w' m' \<Longrightarrow> smaller m m' \<Longrightarrow>
    \<exists>m'. represents (fst (f w)) m' \<and> smaller m m'"
  by auto

lemma release_worker_keeps:
  assumes w: "represents w m"
  shows "\<exists>m'. represents (fst (release_worker sh w)) m' \<and> smaller m m'"
proof (cases "m sh")
  case None
  then show ?thesis using release_worker_not_doing(1)[OF w] w by (auto intro: keepsI)
next
  case (Some it)
  then obtain c st where it: "m sh = Some (c, st)" by (cases it) auto
  show ?thesis
  proof (cases st)
    case (Doing os t ti)
    from release_worker_refines[OF w it[unfolded Doing]] obtain w' r where
      "release_worker sh w = (w', Inr r)" "represents w' (m(sh \<mapsto> (c, Idle)))" by blast
    then show ?thesis by (rule keepsI) (rule smaller_update[of m sh, OF it], simp)
  qed (use release_worker_not_doing(2,3)[OF w, of sh c] it w in \<open>auto intro: keepsI\<close>)
qed

lemma disable_worker_keeps:
  assumes w: "represents w m"
  shows "\<exists>m'. represents (fst (disable_worker sh w)) m' \<and> smaller m m'"
proof (cases "m sh")
  case None
  then show ?thesis using disable_worker_refines(1)[OF w] w by (auto intro: keepsI)
next
  case (Some it)
  then obtain c st where it: "m sh = Some (c, st)" by (cases it) auto
  show ?thesis
  proof (cases st)
    case Idle
    from disable_worker_refines(3)[OF w it[unfolded Idle]] obtain w' r where
      "disable_worker sh w = (w', Inr r)" "represents w' (m(sh \<mapsto> (c, Off)))" by blast
    then show ?thesis by (rule keepsI) (rule smaller_update[of m sh, OF it], simp)
  next
    case (Doing os t ti)
    from disable_worker_refines(4)[OF w it[unfolded Doing]] obtain w' r where
      "disable_worker sh w = (w', Inr r)" "represents w' (m(sh \<mapsto> (c, Off)))" by blast
    then show ?thesis by (rule keepsI) (rule smaller_update[of m sh, OF it], simp)
  qed (use disable_worker_refines(2)[OF w, of sh c] it w in \<open>auto intro: keepsI\<close>)
qed

lemma enable_worker_keeps:
  assumes w: "represents w m"
  shows "\<exists>m'. represents (fst (enable_worker sh w)) m' \<and> smaller m m'"
proof (cases "m sh")
  case None
  then show ?thesis using enable_worker_refines(1)[OF w] w by (auto intro: keepsI)
next
  case (Some it)
  then obtain c st where it: "m sh = Some (c, st)" by (cases it) auto
  show ?thesis
  proof (cases "st = Off")
    case True
    from enable_worker_refines(3)[OF w it[unfolded True]] obtain w' r where
      "enable_worker sh w = (w', Inr r)" "represents w' (m(sh \<mapsto> (c, Idle)))" by blast
    then show ?thesis by (rule keepsI) (rule smaller_update[of m sh, OF it], simp)
  qed (use enable_worker_refines(2)[OF w it] w in \<open>auto intro: keepsI\<close>)
qed

lemma ignore_operation_keeps:
  assumes w: "represents w m"
  shows "\<exists>m'. represents (fst (ignore_operation op w)) m' \<and> smaller m m'"
proof (cases "map_of (wp_operations_reverse w) op")
  case None
  then show ?thesis using ignore_operation_refines(1)[OF w] w by (auto intro: keepsI)
next
  case (Some sh)
  then obtain c st where it: "m sh = Some (c, st)" "op \<in> set (state_doing st)"
    using represents_reverse[OF w] by blast
  then obtain os t ti where st: "st = Doing os t ti" "op \<in> set os"
    by (cases st) auto
  from ignore_operation_refines(2)[OF w it(1)[unfolded st(1)] st(2)] obtain w' r where
    "ignore_operation op w = (w', Inr r)" "represents w' (m(sh \<mapsto> (c, Doing os t (ti @ [op]))))" by blast
  then show ?thesis by (rule keepsI) (rule smaller_update[of m sh, OF it(1)], simp add: st)
qed

lemma check_timeouts_keeps:
  assumes w: "represents w m"
  shows "\<exists>m'. represents (fst (check_timeouts now w)) m' \<and> smaller m m'"
proof -
  let ?m = "\<lambda>sh. map_option (\<lambda>it. if stale now (snd it) then (fst it, Off) else it) (m sh)"
  have "smaller m ?m" by (auto simp: smaller_def split: if_splits)
  moreover have "represents (fst (check_timeouts now w)) ?m"
    using fst_keeps[OF check_timeouts_refines[OF w, of now]] .
  ultimately show ?thesis by blast
qed

lemma check_connections_keeps:
  assumes w: "represents w m"
  shows "\<exists>m'. represents (fst (check_connections w)) m' \<and> smaller m m'"
proof -
  let ?m = "\<lambda>sh. map_option (\<lambda>it. if stranded it then (False, Idle) else it) (m sh)"
  have "smaller m ?m" by (auto simp: smaller_def split: if_splits)
  moreover have "represents (fst (check_connections w)) ?m"
    using fst_keeps[OF check_connections_refines[OF w]] .
  ultimately show ?thesis by blast
qed

lemma reachable_represents: "wp_reachable w \<Longrightarrow> \<exists>m. represents w m"
proof (induction rule: wp_reachable.induct)
  case init
  then show ?case using represents_init by blast
next
  case (add w sh c)
  then obtain m where "represents w m" "m sh = None" using represents_has by blast
  from add_worker_refines[OF this, of c] show ?case by auto
next
  case (connect w sh contest_id)
  then obtain m c st where "represents w m" "m sh = Some (c, st)" using represents_has by fastforce
  from connect_refines[OF this] show ?case by blast
next
  case (disconnect w sh)
  then obtain m c st where "represents w m" "m sh = Some (c, st)" using represents_has by fastforce
  from disconnect_refines[OF this] show ?case by blast
next
  case (acquire w choice os jobs now)
  then show ?case using acquire_worker_keeps by blast
next
  case (release w sh)
  then obtain m where "represents w m" by blast
  from release_worker_keeps[OF this] show ?case by blast
next
  case (ignore w op)
  then obtain m where "represents w m" by blast
  from ignore_operation_keeps[OF this] show ?case by blast
next
  case (timeouts w now)
  then obtain m where "represents w m" by blast
  from check_timeouts_keeps[OF this] show ?case by blast
next
  case (disable w sh)
  then obtain m where "represents w m" by blast
  from disable_worker_keeps[OF this] show ?case by blast
next
  case (enable w sh)
  then obtain m where "represents w m" by blast
  from enable_worker_keeps[OF this] show ?case by blast
next
  case (connections w)
  then obtain m where "represents w m" by blast
  from check_connections_keeps[OF this] show ?case by blast
qed

section \<open>Properties\<close>

lemma represents_idle:
  "represents w m \<Longrightarrow> map_of (wp_operations w) sh = Some WORKER_INACTIVE \<longleftrightarrow> (\<exists>c. m sh = Some (c, Idle))"
  by (auto simp: represents_def elim: state_operations.elims)

lemma represents_doing:
  "represents w m \<Longrightarrow> map_of (wp_operations w) sh = Some (WORKER_DOING os) \<longleftrightarrow>
    (\<exists>c t ti. m sh = Some (c, Doing os t ti))"
  by (auto simp: represents_def elim: state_operations.elims)

lemma represents_started:
  "represents w m \<Longrightarrow> map_of (wp_start_time w) sh = Some (Some t) \<longleftrightarrow>
    (\<exists>c os ti. m sh = Some (c, Doing os t ti))"
  by (auto simp: represents_def elim: state_start.elims)

lemma represents_contains:
  "represents w m \<Longrightarrow> wp_contains w op \<longleftrightarrow> (\<exists>sh c st. m sh = Some (c, st) \<and> op \<in> set (state_doing st))"
  unfolding wp_contains_def dict_has_def by (metis not_None_eq represents_reverse)

lemma smaller_contains:
  assumes "represents w m" "represents w' m'" "smaller m m'" "wp_contains w' op"
  shows "wp_contains w op"
  using assms(3,4) unfolding represents_contains[OF assms(1)] represents_contains[OF assms(2)] smaller_def
  by blast

lemma in_state_doing: "op \<in> set (state_doing st) \<longleftrightarrow> (\<exists>os t ti. st = Doing os t ti \<and> op \<in> set os)"
  by (cases st) auto

lemma stale_iff: "stale now st \<longleftrightarrow> (\<exists>os t ti. st = Doing os t ti \<and> now - t > WORKER_TIMEOUT)"
  by (cases st) auto

lemma represents_doing_full:
  "represents w m \<Longrightarrow> map_of (wp_operations w) sh = Some (WORKER_DOING os) \<and>
      map_of (wp_start_time w) sh = Some (Some t) \<and> map_of (wp_operations_to_ignore w) sh = Some ti \<longleftrightarrow>
    (\<exists>c. m sh = Some (c, Doing os t ti))"
  by (auto simp: represents_def elim: state_operations.elims)

lemma in_concat_keys:
  assumes "represents w m"
  shows "op \<in> set (concat (map (\<lambda>sh. f (the (m sh))) (map fst (wp_worker w)))) \<longleftrightarrow>
    (\<exists>sh it. m sh = Some it \<and> op \<in> set (f it))"
proof -
  have "op \<in> set (concat (map (\<lambda>sh. f (the (m sh))) (map fst (wp_worker w)))) \<longleftrightarrow>
      (\<exists>sh\<in>set (map fst (wp_worker w)). op \<in> set (f (the (m sh))))"
    by simp
  also have "\<dots> \<longleftrightarrow> (\<exists>sh. m sh \<noteq> None \<and> op \<in> set (f (the (m sh))))"
    using represents_keys[OF assms] by metis
  also have "\<dots> \<longleftrightarrow> (\<exists>sh it. m sh = Some it \<and> op \<in> set (f it))"
    by (metis option.distinct(1) option.exhaust_sel option.sel)
  finally show ?thesis .
qed

lemma in_wanted: "op \<in> set (wanted st) \<longleftrightarrow> (\<exists>os t ti. st = Doing os t ti \<and> op \<in> set os \<and> op \<notin> set ti)"
  by (cases st) auto

lemma represents_same_shards:
  assumes "represents w m"
  shows "dom (map_of (wp_worker w)) = dom m" "dom (map_of (wp_operations w)) = dom m"
    "dom (map_of (wp_operations_to_ignore w)) = dom m" "dom (map_of (wp_start_time w)) = dom m"
    "dom (map_of (wp_schedule_disabling w)) = dom m" "dom (map_of (wp_ignore w)) = dom m"
  using assms by (auto simp: represents_def dom_def)

lemma represents_only_ignored:
  assumes "represents w m"
  shows "(\<exists>c os t ti. m sh = Some (c, Doing os t ti)) \<or> map_of (wp_operations_to_ignore w) sh \<in> {None, Some []}"
proof (cases "m sh")
  case None
  then show ?thesis using assms by (simp add: represents_def)
next
  case (Some it)
  then show ?thesis using assms by (cases it; cases "snd it") (simp_all add: represents_def)
qed

text \<open>(C4) In every reachable pool the six dictionaries that are kept per worker have the same shards.
  The reverse dictionary mirrors the lists of operations: it holds an operation with a shard
  exactly when the operation is in the list of that shard, so an operation is with at most one
  worker. A worker has a start time exactly when it has operations, and only then it can have
  operations to ignore. The event is set whenever a connected worker is inactive.\<close>

theorem worker_pool_in_sync:
  assumes "wp_reachable w"
  shows "dom (map_of (wp_operations w)) = dom (map_of (wp_worker w)) \<and>
    dom (map_of (wp_operations_to_ignore w)) = dom (map_of (wp_worker w)) \<and>
    dom (map_of (wp_start_time w)) = dom (map_of (wp_worker w)) \<and>
    dom (map_of (wp_schedule_disabling w)) = dom (map_of (wp_worker w)) \<and>
    dom (map_of (wp_ignore w)) = dom (map_of (wp_worker w)) \<and>
    (\<forall>op sh. map_of (wp_operations_reverse w) op = Some sh \<longleftrightarrow>
      (\<exists>os. map_of (wp_operations w) sh = Some (WORKER_DOING os) \<and> op \<in> set os)) \<and>
    (\<forall>sh. (\<exists>os. map_of (wp_operations w) sh = Some (WORKER_DOING os)) \<longleftrightarrow>
      (\<exists>t. map_of (wp_start_time w) sh = Some (Some t))) \<and>
    (\<forall>sh. (\<exists>os. map_of (wp_operations w) sh = Some (WORKER_DOING os)) \<or>
      map_of (wp_operations_to_ignore w) sh \<in> {None, Some []}) \<and>
    ((\<exists>sh. map_of (wp_operations w) sh = Some WORKER_INACTIVE \<and> map_of (wp_worker w) sh = Some True) \<longrightarrow>
      wp_workers_available_event w)"
proof -
  obtain m where m: "represents w m" using reachable_represents[OF assms] by blast
  have "map_of (wp_operations_reverse w) op = Some sh \<longleftrightarrow>
      (\<exists>os. map_of (wp_operations w) sh = Some (WORKER_DOING os) \<and> op \<in> set os)" for op sh
    unfolding represents_reverse[OF m] represents_doing[OF m] in_state_doing by blast
  moreover have "(\<exists>os. map_of (wp_operations w) sh = Some (WORKER_DOING os)) \<longleftrightarrow>
      (\<exists>t. map_of (wp_start_time w) sh = Some (Some t))" for sh
    unfolding represents_doing[OF m] represents_started[OF m] by blast
  moreover have "(\<exists>os. map_of (wp_operations w) sh = Some (WORKER_DOING os)) \<or>
      map_of (wp_operations_to_ignore w) sh \<in> {None, Some []}" for sh
    using represents_only_ignored[OF m] represents_doing[OF m] by blast
  moreover have "wp_workers_available_event w"
    if "map_of (wp_operations w) sh = Some WORKER_INACTIVE" "map_of (wp_worker w) sh = Some True" for sh
    using that represents_idle[OF m] m by (auto simp: represents_def)
  ultimately show ?thesis unfolding represents_same_shards[OF m] by blast
qed

definition example_pool :: "(string, string) worker_pool" where
  "example_pool =
     fst (acquire_worker hd (\<lambda>_. Inr ''jobs'') 5 [''a'', ''b''] (fst (add_worker 1 False (fst (add_worker 0 True worker_pool_init)))))"

lemma example_pool_eval: "example_pool =
    \<lparr>wp_worker = [(0, True), (1, False)],
     wp_operations = [(0, WORKER_DOING [''a'', ''b'']), (1, WORKER_INACTIVE)],
     wp_operations_to_ignore = [(0, []), (1, [])], wp_start_time = [(0, Some 5), (1, None)],
     wp_schedule_disabling = [(0, False), (1, False)], wp_ignore = [(0, False), (1, False)],
     wp_operations_reverse = [(''a'', 0), (''b'', 0)], wp_workers_available_event = True,
     wp_sent = [(0, Execute_job_group ''jobs'')]\<rparr>"
  by code_simp

lemma fair_hd: "fair_choice hd"
  by (simp add: fair_choice_def)

lemma example_pool_reachable: "wp_reachable example_pool"
  unfolding example_pool_def
  by (intro wp_reachable.acquire wp_reachable.add wp_reachable.init fair_hd)
    (simp_all add: worker_pool_init_def add_worker_def pool_ops stm_simps dict_simps dict_has_def dict_set_def
      wp_contains_def)

theorem worker_pool_in_sync_witness:
  "map_of (wp_operations_reverse example_pool) ''a'' = Some 0 \<and>
   (\<exists>t. map_of (wp_start_time example_pool) 0 = Some (Some t))"
  using worker_pool_in_sync[OF example_pool_reachable] by (simp add: example_pool_eval)

text \<open>(C5) \<open>check_timeouts\<close> never raises on a reachable pool, in particular its assertion holds. It
  returns exactly the operations, not marked to be ignored, of the workers that have been busy
  for more than ten minutes; it disables those workers, leaves all others as they are, and
  the operations it returns are with no worker any more.\<close>

theorem check_timeouts_collects_stale_workers:
  assumes "wp_reachable w"
  shows "\<exists>w' lost. check_timeouts now w = (w', Inr lost) \<and>
    set lost = {op. \<exists>sh os t ti. map_of (wp_operations w) sh = Some (WORKER_DOING os) \<and>
      map_of (wp_start_time w) sh = Some (Some t) \<and> map_of (wp_operations_to_ignore w) sh = Some ti \<and>
      now - t > WORKER_TIMEOUT \<and> op \<in> set os \<and> op \<notin> set ti} \<and>
    (\<forall>sh. map_of (wp_operations w') sh =
      (if \<exists>t. map_of (wp_start_time w) sh = Some (Some t) \<and> now - t > WORKER_TIMEOUT
       then Some WORKER_DISABLED else map_of (wp_operations w) sh)) \<and>
    (\<forall>op\<in>set lost. \<not> wp_contains w' op)"
proof -
  obtain m where m: "represents w m" using reachable_represents[OF assms] by blast
  let ?m' = "\<lambda>sh. map_option (\<lambda>it. if stale now (snd it) then (fst it, Off) else it) (m sh)"
  let ?lost = "concat (map (\<lambda>sh. if stale now (snd (the (m sh))) then wanted (snd (the (m sh))) else [])
    (map fst (wp_worker w)))"
  obtain w' where w': "check_timeouts now w = (w', Inr ?lost)" "represents w' ?m'"
    using check_timeouts_refines[OF m] by blast
  have lost: "op \<in> set ?lost \<longleftrightarrow>
      (\<exists>sh c os t ti. m sh = Some (c, Doing os t ti) \<and> now - t > WORKER_TIMEOUT \<and> op \<in> set os \<and> op \<notin> set ti)" for op
    unfolding in_concat_keys[OF m, where f = "\<lambda>it. if stale now (snd it) then wanted (snd it) else []"]
    by (simp add: stale_iff in_wanted) blast
  then have 1: "set ?lost = {op. \<exists>sh os t ti. map_of (wp_operations w) sh = Some (WORKER_DOING os) \<and>
      map_of (wp_start_time w) sh = Some (Some t) \<and> map_of (wp_operations_to_ignore w) sh = Some ti \<and>
      now - t > WORKER_TIMEOUT \<and> op \<in> set os \<and> op \<notin> set ti}"
    using represents_doing_full[OF m] by blast
  have 2: "map_of (wp_operations w') sh =
      (if \<exists>t. map_of (wp_start_time w) sh = Some (Some t) \<and> now - t > WORKER_TIMEOUT
       then Some WORKER_DISABLED else map_of (wp_operations w) sh)" for sh
  proof (cases "m sh")
    case None
    then show ?thesis
      using represents_missing(1,3)[OF m None] represents_missing(1)[OF w'(2), of sh] by simp
  next
    case (Some it)
    then obtain c st where st: "m sh = Some (c, st)" by (cases it) auto
    have "map_of (wp_operations w') sh = Some (state_operations (if stale now st then Off else st))"
      using represents_lookup(2)[OF w'(2), of sh] st by (cases "stale now st") auto
    then show ?thesis
      using represents_lookup(2,4)[OF m st] by (cases st) auto
  qed
  have "\<not> wp_contains w' op" if op: "op \<in> set ?lost" for op
  proof
    obtain sh c os t ti where s: "m sh = Some (c, Doing os t ti)" "now - t > WORKER_TIMEOUT" "op \<in> set os"
      using op lost by blast
    assume "wp_contains w' op"
    then obtain sh' c' st' where s': "m sh' = Some (c', st')" "\<not> stale now st'" "op \<in> set (state_doing st')"
      unfolding represents_contains[OF w'(2)] by (auto split: if_splits)
    have "sh' = sh"
      by (rule represents_unique[OF m s(1) _ s'(1) s'(3)]) (use s in simp)
    then show False using s s' by auto
  qed
  then show ?thesis
    using w'(1) 1 2 by (intro exI[of _ w'] exI[of _ ?lost]) blast
qed

theorem check_timeouts_collects_stale_workers_witness:
  "\<exists>w' lost. check_timeouts (5 + 700 * 1000000) example_pool = (w', Inr lost) \<and> set lost = {''a'', ''b''}"
proof -
  have "\<exists>w' lost. check_timeouts (5 + 700 * 1000000) example_pool = (w', Inr lost) \<and>
      set lost = {op. \<exists>sh os t ti. map_of (wp_operations example_pool) sh = Some (WORKER_DOING os) \<and>
      map_of (wp_start_time example_pool) sh = Some (Some t) \<and>
      map_of (wp_operations_to_ignore example_pool) sh = Some ti \<and>
      (5 + 700 * 1000000) - t > WORKER_TIMEOUT \<and> op \<in> set os \<and> op \<notin> set ti}"
    using check_timeouts_collects_stale_workers[OF example_pool_reachable, of "5 + 700 * 1000000"] by blast
  moreover have "{op. \<exists>sh os t ti. map_of (wp_operations example_pool) sh = Some (WORKER_DOING os) \<and>
      map_of (wp_start_time example_pool) sh = Some (Some t) \<and>
      map_of (wp_operations_to_ignore example_pool) sh = Some ti \<and>
      (5 + 700 * 1000000) - t > WORKER_TIMEOUT \<and> op \<in> set os \<and> op \<notin> set ti} = {''a'', ''b''}"
    by (auto simp: example_pool_eval WORKER_TIMEOUT_def split: if_splits) presburger+
  ultimately show ?thesis by simp
qed

lemma doing_update:
  assumes "m sh = Some (c0, Idle)"
  shows "(\<exists>s c st. (m(sh \<mapsto> (c1, st1))) s = Some (c, st) \<and> op \<in> set (state_doing st)) \<longleftrightarrow>
    op \<in> set (state_doing st1) \<or> (\<exists>s c st. m s = Some (c, st) \<and> op \<in> set (state_doing st))" (is "?l \<longleftrightarrow> ?r")
proof
  assume ?r
  then show ?l
  proof
    assume "op \<in> set (state_doing st1)"
    then show ?l by (intro exI[of _ sh]) simp
  next
    assume "\<exists>s c st. m s = Some (c, st) \<and> op \<in> set (state_doing st)"
    then obtain s c st where s: "m s = Some (c, st)" "op \<in> set (state_doing st)" by blast
    moreover have "s \<noteq> sh" using s assms by auto
    ultimately show ?l by (intro exI[of _ s]) simp
  qed
qed (auto split: if_splits)

text \<open>\<open>acquire_worker\<close> on a reachable pool: it returns \<open>None\<close>, and clears the event, exactly
  when no connected worker is inactive; otherwise it gives the operations to a worker
  that was inactive and connected, starts its clock, and the pool contains the new operations
  beside those it had. When building the jobs fails the exception gets out, but the
  operations stay assigned.\<close>

theorem acquire_worker_assigns:
  assumes "wp_reachable w" "fair_choice choice" "distinct os" "\<forall>op\<in>set os. \<not> wp_contains w op"
  shows "if \<exists>sh. map_of (wp_operations w) sh = Some WORKER_INACTIVE \<and> map_of (wp_worker w) sh = Some True
    then \<exists>w' sh. map_of (wp_operations w) sh = Some WORKER_INACTIVE \<and> map_of (wp_worker w) sh = Some True \<and>
      acquire_worker choice jobs now os w =
        (case jobs os of Inl e \<Rightarrow> (w', Inl e)
         | Inr g \<Rightarrow> (w'\<lparr>wp_sent := wp_sent w @ [(sh, Execute_job_group g)]\<rparr>, Inr (Some sh))) \<and>
      map_of (wp_operations w') sh = Some (WORKER_DOING os) \<and>
      map_of (wp_start_time w') sh = Some (Some now) \<and>
      (\<forall>op. wp_contains w' op \<longleftrightarrow> op \<in> set os \<or> wp_contains w op)
    else acquire_worker choice jobs now os w = (w\<lparr>wp_workers_available_event := False\<rparr>, Inr None)"
proof -
  obtain m where m: "represents w m" using reachable_represents[OF assms(1)] by blast
  have idle: "sh \<in> set (idle_workers w) \<longleftrightarrow>
      map_of (wp_operations w) sh = Some WORKER_INACTIVE \<and> map_of (wp_worker w) sh = Some True" for sh
    using idle_workers_set[OF m] represents_idle[OF m] represents_lookup(1)[OF m] by fastforce
  show ?thesis
  proof (cases "idle_workers w = []")
    case True
    then have none: "\<not> (\<exists>sh. map_of (wp_operations w) sh = Some WORKER_INACTIVE \<and>
        map_of (wp_worker w) sh = Some True)"
      using idle by simp
    show ?thesis
      unfolding if_not_P[OF none] by (rule acquire_worker_none[OF m True])
  next
    case False
    define sh where "sh = choice (idle_workers w)"
    have sh: "sh \<in> set (idle_workers w)" using assms(2) False by (simp add: fair_choice_def sh_def)
    then have i: "m sh = Some (True, Idle)" using idle_workers_set[OF m] by simp
    obtain w' where w': "acquire_worker choice jobs now os w =
      (case jobs os of Inl e \<Rightarrow> (w', Inl e)
       | Inr g \<Rightarrow> (w'\<lparr>wp_sent := wp_sent w @ [(sh, Execute_job_group g)]\<rparr>, Inr (Some sh)))"
      "represents w' (m(sh \<mapsto> (True, Doing os now [])))"
      using acquire_worker_some[where choice = choice, OF m i sh_def[symmetric] assms(3,4)] by blast
    have "wp_contains w' op \<longleftrightarrow> op \<in> set os \<or> wp_contains w op" for op
      unfolding represents_contains[OF w'(2)] represents_contains[OF m] doing_update[of m sh True, OF i] by simp
    then show ?thesis
      using idle[of sh] sh w'(1) represents_lookup(2,4)[OF w'(2), of sh]
      by (auto intro!: exI[of _ w'] exI[of _ sh])
  qed
qed

theorem acquire_worker_assigns_witness:
  "\<exists>w' sh. acquire_worker hd (\<lambda>_. Inr ''jobs'') 9 [''c'']
      (fst (add_worker 2 True (example_pool :: (string, string) worker_pool))) =
     (w'\<lparr>wp_sent := [(0, Execute_job_group ''jobs''), (sh, Execute_job_group ''jobs'')]\<rparr>, Inr (Some sh)) \<and>
   wp_contains w' ''a'' \<and> wp_contains w' ''c''"
proof -
  let ?w = "fst (add_worker 2 True example_pool)"
  have w: "?w = \<lparr>wp_worker = [(0, True), (1, False), (2, True)],
     wp_operations = [(0, WORKER_DOING [''a'', ''b'']), (1, WORKER_INACTIVE), (2, WORKER_INACTIVE)],
     wp_operations_to_ignore = [(0, []), (1, []), (2, [])],
     wp_start_time = [(0, Some 5), (1, None), (2, None)],
     wp_schedule_disabling = [(0, False), (1, False), (2, False)],
     wp_ignore = [(0, False), (1, False), (2, False)],
     wp_operations_reverse = [(''a'', 0), (''b'', 0)], wp_workers_available_event = True,
     wp_sent = [(0, Execute_job_group ''jobs'')]\<rparr>"
    unfolding example_pool_eval by code_simp
  have r: "wp_reachable ?w"
    by (rule wp_reachable.add[OF example_pool_reachable]) (simp add: example_pool_eval dict_has_def)
  have os: "distinct [''c'']" "\<forall>op\<in>set [''c'']. \<not> wp_contains ?w op"
    by (simp_all add: w wp_contains_def dict_has_def)
  have ex: "\<exists>sh. map_of (wp_operations ?w) sh = Some WORKER_INACTIVE \<and> map_of (wp_worker ?w) sh = Some True"
    by (intro exI[of _ 2]) (simp add: w)
  have "wp_contains ?w ''a''" "wp_sent ?w = [(0, Execute_job_group ''jobs'')]"
    by (simp_all add: w wp_contains_def dict_has_def)
  then show ?thesis
    using acquire_worker_assigns[OF r fair_hd os, of "\<lambda>_. Inr ''jobs''" 9, unfolded if_P[OF ex]] by auto
qed

text \<open>The life of an assignment: an operation that a worker is doing can be marked to be
  ignored; then releasing the worker reports exactly the marked operation, disabling it returns
  exactly the other operations and blocks the worker until it is enabled again; after
  either, none of its operations is in the pool.\<close>

theorem worker_assignment_life:
  assumes "wp_reachable w" "map_of (wp_operations w) sh = Some (WORKER_DOING os)"
    "map_of (wp_operations_to_ignore w) sh = Some []" "op \<in> set os"
  shows "\<exists>w1 w2 w3 w4. ignore_operation op w = (w1, Inr ()) \<and>
    release_worker sh w1 = (w2, Inr (Ignore_Operations [op])) \<and>
    map_of (wp_operations w2) sh = Some WORKER_INACTIVE \<and> (\<forall>o'\<in>set os. \<not> wp_contains w2 o') \<and>
    disable_worker sh w1 = (w3, Inr (filter (\<lambda>o'. o' \<noteq> op) os)) \<and>
    map_of (wp_operations w3) sh = Some WORKER_DISABLED \<and> (\<forall>o'\<in>set os. \<not> wp_contains w3 o') \<and>
    disable_worker sh w3 = (w3, Inl ValueError) \<and> release_worker sh w3 = (w3, Inr (Ignore_All True)) \<and>
    enable_worker sh w3 = (w4, Inr ()) \<and> map_of (wp_operations w4) sh = Some WORKER_INACTIVE"
proof -
  obtain m where m: "represents w m" using reachable_represents[OF assms(1)] by blast
  obtain c t where sh: "m sh = Some (c, Doing os t [])"
    using assms(2,3) represents_doing[OF m] represents_lookup(3)[OF m] by fastforce
  define m1 where "m1 = m(sh \<mapsto> (c, Doing os t [op]))"
  have s1: "m1 sh = Some (c, Doing os t [op])" by (simp add: m1_def)
  obtain w1 where w1: "ignore_operation op w = (w1, Inr ())" "represents w1 m1"
    using ignore_operation_refines(2)[OF m sh assms(4)] unfolding m1_def by auto
  obtain w2 where w2: "release_worker sh w1 = (w2, Inr (Ignore_Operations [op]))"
    "represents w2 (m1(sh \<mapsto> (c, Idle)))"
    using release_worker_refines[OF w1(2) s1] by auto
  obtain w3 where w3: "disable_worker sh w1 = (w3, Inr (filter (\<lambda>o'. o' \<noteq> op) os))"
    "represents w3 (m1(sh \<mapsto> (c, Off)))"
    using disable_worker_refines(4)[OF w1(2) s1] by auto
  obtain w4 where w4: "enable_worker sh w3 = (w4, Inr ())" "represents w4 (m1(sh \<mapsto> (c, Idle)))"
    using enable_worker_refines(3)[OF w3(2), of sh c] by auto
  have elsewhere: "m sh' = Some (c', st') \<Longrightarrow> sh' \<noteq> sh \<Longrightarrow> o' \<in> set os \<Longrightarrow> o' \<notin> set (state_doing st')"
    for sh' c' st' o'
    using represents_reverse[OF m, of o' sh] represents_reverse[OF m, of o' sh'] sh by auto
  have "\<not> wp_contains w2 o'" "\<not> wp_contains w3 o'" if "o' \<in> set os" for o'
    unfolding represents_contains[OF w2(2)] represents_contains[OF w3(2)] m1_def
    using elsewhere[OF _ _ that] by auto
  moreover have "map_of (wp_operations w2) sh = Some WORKER_INACTIVE"
    "map_of (wp_operations w3) sh = Some WORKER_DISABLED" "map_of (wp_operations w4) sh = Some WORKER_INACTIVE"
    using represents_lookup(2)[OF w2(2), of sh] represents_lookup(2)[OF w3(2), of sh]
      represents_lookup(2)[OF w4(2), of sh] by simp_all
  moreover have "disable_worker sh w3 = (w3, Inl ValueError)"
      "release_worker sh w3 = (w3, Inr (Ignore_All True))"
    using disable_worker_refines(2)[OF w3(2), of sh c] release_worker_not_doing(3)[OF w3(2), of sh c] by simp_all
  ultimately show ?thesis
    using w1(1) w2(1) w3(1) w4(1) by blast
qed

theorem worker_assignment_life_witness:
  "\<exists>w1 w2. ignore_operation ''a'' example_pool = (w1, Inr ()) \<and>
     release_worker 0 w1 = (w2, Inr (Ignore_Operations [''a'']))"
proof -
  have "map_of (wp_operations example_pool) 0 = Some (WORKER_DOING [''a'', ''b''])"
    "map_of (wp_operations_to_ignore example_pool) 0 = Some []" "''a'' \<in> set [''a'', ''b'']"
    by (simp_all add: example_pool_eval)
  from worker_assignment_life[OF example_pool_reachable this] show ?thesis by blast
qed

text \<open>\<open>check_connections\<close> frees every busy worker that is not connected and returns all its
  operations, in contrast to the other checks also those marked to be ignored.\<close>

theorem check_connections_returns_all_operations:
  assumes "wp_reachable w"
  shows "\<exists>w' lost. check_connections w = (w', Inr lost) \<and>
    set lost = {op. \<exists>sh os. map_of (wp_operations w) sh = Some (WORKER_DOING os) \<and>
      map_of (wp_worker w) sh = Some False \<and> op \<in> set os} \<and>
    (\<forall>op\<in>set lost. \<not> wp_contains w' op)"
proof -
  obtain m where m: "represents w m" using reachable_represents[OF assms] by blast
  let ?m' = "\<lambda>sh. map_option (\<lambda>it. if stranded it then (False, Idle) else it) (m sh)"
  let ?lost = "concat (map (\<lambda>sh. if stranded (the (m sh)) then state_doing (snd (the (m sh))) else [])
    (map fst (wp_worker w)))"
  obtain w' where w': "check_connections w = (w', Inr ?lost)" "represents w' ?m'"
    using check_connections_refines[OF m] by blast
  have str: "op \<in> set (if stranded it then state_doing (snd it) else []) \<longleftrightarrow>
      (\<exists>os t ti. it = (False, Doing os t ti) \<and> op \<in> set os)" for it and op :: 'a
    by (cases it rule: stranded.cases) auto
  have lost: "op \<in> set ?lost \<longleftrightarrow> (\<exists>sh os t ti. m sh = Some (False, Doing os t ti) \<and> op \<in> set os)" for op
    unfolding in_concat_keys[OF m, where f = "\<lambda>it. if stranded it then state_doing (snd it) else []"]
    unfolding str by blast
  have "(\<exists>os. map_of (wp_operations w) sh = Some (WORKER_DOING os) \<and>
      map_of (wp_worker w) sh = Some False \<and> op \<in> set os) \<longleftrightarrow>
    (\<exists>os t ti. m sh = Some (False, Doing os t ti) \<and> op \<in> set os)" for sh op
  proof
    assume "\<exists>os. map_of (wp_operations w) sh = Some (WORKER_DOING os) \<and>
      map_of (wp_worker w) sh = Some False \<and> op \<in> set os"
    then obtain os c t ti where "m sh = Some (c, Doing os t ti)" "map_of (wp_worker w) sh = Some False" "op \<in> set os"
      unfolding represents_doing[OF m] by blast
    then show "\<exists>os t ti. m sh = Some (False, Doing os t ti) \<and> op \<in> set os"
      using represents_lookup(1)[OF m, of sh c] by auto
  next
    assume "\<exists>os t ti. m sh = Some (False, Doing os t ti) \<and> op \<in> set os"
    then show "\<exists>os. map_of (wp_operations w) sh = Some (WORKER_DOING os) \<and>
        map_of (wp_worker w) sh = Some False \<and> op \<in> set os"
      using represents_lookup(1)[OF m, of sh False] unfolding represents_doing[OF m] by blast
  qed
  then have 1: "set ?lost = {op. \<exists>sh os. map_of (wp_operations w) sh = Some (WORKER_DOING os) \<and>
      map_of (wp_worker w) sh = Some False \<and> op \<in> set os}"
    using lost by blast
  have "\<not> wp_contains w' op" if op: "op \<in> set ?lost" for op
  proof
    obtain sh os t ti where s: "m sh = Some (False, Doing os t ti)" "op \<in> set os"
      using op lost by blast
    assume "wp_contains w' op"
    then obtain sh' c' st' where s': "m sh' = Some (c', st')" "\<not> stranded (c', st')" "op \<in> set (state_doing st')"
      unfolding represents_contains[OF w'(2)] by (auto split: if_splits)
    have "sh' = sh"
      by (rule represents_unique[OF m s(1) _ s'(1) s'(3)]) (use s in simp)
    then show False using s s' by auto
  qed
  then show ?thesis
    using w'(1) 1 by (intro exI[of _ w'] exI[of _ ?lost]) blast
qed

theorem check_connections_returns_all_operations_witness:
  "\<exists>w w' lost. ignore_operation ''a'' (disconnect 0 example_pool) = (w, Inr ()) \<and>
     map_of (wp_operations_to_ignore w) 0 = Some [''a''] \<and>
     check_connections w = (w', Inr lost) \<and> ''a'' \<in> set lost"
proof -
  let ?w = "fst (ignore_operation ''a'' (disconnect 0 example_pool))"
  have w: "?w = \<lparr>wp_worker = [(0, False), (1, False)],
     wp_operations = [(0, WORKER_DOING [''a'', ''b'']), (1, WORKER_INACTIVE)],
     wp_operations_to_ignore = [(0, [''a'']), (1, [])], wp_start_time = [(0, Some 5), (1, None)],
     wp_schedule_disabling = [(0, False), (1, False)], wp_ignore = [(0, False), (1, False)],
     wp_operations_reverse = [(''a'', 0), (''b'', 0)], wp_workers_available_event = True,
     wp_sent = [(0, Execute_job_group ''jobs'')]\<rparr>"
    "snd (ignore_operation ''a'' (disconnect 0 example_pool)) = Inr ()"
    unfolding example_pool_eval by code_simp+
  have "dict_has (wp_worker example_pool) 0" by (simp add: example_pool_eval dict_has_def)
  then have "wp_reachable ?w"
    by (intro wp_reachable.ignore wp_reachable.disconnect example_pool_reachable)
  then obtain w' lost where c: "check_connections ?w = (w', Inr lost)"
    "set lost = {op. \<exists>sh os. map_of (wp_operations ?w) sh = Some (WORKER_DOING os) \<and>
      map_of (wp_worker ?w) sh = Some False \<and> op \<in> set os}"
    using check_connections_returns_all_operations by blast
  have f: "map_of (wp_operations ?w) 0 = Some (WORKER_DOING [''a'', ''b''])"
    "map_of (wp_worker ?w) 0 = Some False" "map_of (wp_operations_to_ignore ?w) 0 = Some [''a'']"
    by (simp_all add: w(1))
  have "''a'' \<in> set lost"
    unfolding c(2) by (rule CollectI, rule exI[of _ 0], rule exI[of _ "[''a'', ''b'']"]) (simp add: f)
  then show ?thesis
    using c(1) w(2) f(3) by (intro exI[of _ ?w] exI[of _ w'] exI[of _ lost]) (simp add: prod_eq_iff)
qed

end
