(* ===== verification/Evaluation_Executor.thy ===== *)
theory Evaluation_Executor
  imports ES_Operations Triggered_Service Worker_Pool
begin

text \<open>
  The executor of the evaluation service, class \<open>EvaluationExecutor\<close> of
  \<^verbatim>\<open>cms/service/EvaluationService.py\<close>: an \<open>Executor\<close> with the worker pool, the operations that
  were extracted from the queue but not given to a worker yet, and a summary of the queue for
  display. \<open>execute\<close> waits for workers in a loop and other greenlets run in between: its
  beginning and one iteration of its loop are separate steps.

  The attribute \<open>side_data\<close> of an operation object is kept in a dictionary from operations: it is
  set by \<open>execute\<close> and read when the pool gives the operation back, and no equal operation is
  executed in between (invariant below).
\<close>

record cumulative_entry =
  ce_type :: string
  ce_object_id :: int
  ce_dataset_id :: int
  ce_multiplicity :: int
  ce_priority :: int
  ce_timestamp :: real

type_synonym cumulative_key = "(string \<times> int \<times> int) \<times> int"

record 'g evaluation_executor =
  ee_executor :: "es_operation executor"
  ee_pool :: "(es_operation, 'g) worker_pool"
  ee_currently_executing :: "es_operation list"
  ee_queue_status_cumulative :: "(cumulative_key, cumulative_entry) dict"
  ee_side_data :: "(es_operation, int \<times> datetime) dict"

definition MAX_OPERATIONS_PER_BATCH :: int where
  "MAX_OPERATIONS_PER_BATCH = 25"

text \<open>\<open>conns\<close> gives the state of the connection to each of the configured workers, whose shards
  are \<open>0, 1, ...\<close>.\<close>

definition evaluation_executor_init :: "bool list \<Rightarrow> 'g evaluation_executor" where
  "evaluation_executor_init conns =
     \<lparr>ee_executor = executor_init True,
      ee_pool = fst (sforeach (zip (map int [0..<length conns]) conns)
                  (\<lambda>(shard, c). add_worker shard c) worker_pool_init),
      ee_currently_executing = [], ee_queue_status_cumulative = [], ee_side_data = []\<rparr>"

definition ee_contains :: "'g evaluation_executor \<Rightarrow> es_operation \<Rightarrow> bool" where
  "ee_contains ee it \<longleftrightarrow>
     ex_contains (ee_executor ee) it \<or> it \<in> set (ee_currently_executing ee) \<or> wp_contains (ee_pool ee) it"

text \<open>Dividing by the number of workers raises when no worker is configured.\<close>

definition max_operations_per_batch :: "'g evaluation_executor \<Rightarrow> int res" where
  "max_operations_per_batch ee =
     (if wp_len (ee_pool ee) = 0 then Inl ZeroDivisionError
      else
        let ratio = int (pq_length (ex_operation_queue (ee_executor ee))) div int (wp_len (ee_pool ee)) + 1
        in Inr (min (max ratio 1) MAX_OPERATIONS_PER_BATCH))"

text \<open>Lifting pool operations to the executor.\<close>

definition on_pool :: "((es_operation, 'g) worker_pool, 'a) stm \<Rightarrow> ('g evaluation_executor, 'a) stm" where
  "on_pool m = (\<lambda>ee. case m (ee_pool ee) of (w, r) \<Rightarrow> (ee\<lparr>ee_pool := w\<rparr>, r))"

definition execute_begin :: "es_operation queue_entry list \<Rightarrow> ('g evaluation_executor, unit) stm" where
  "execute_begin entries =
     sthen (supd (\<lambda>ee. ee\<lparr>ee_currently_executing := []\<rparr>))
       (sforeach entries (\<lambda>entry. supd (\<lambda>ee.
          ee\<lparr>ee_side_data := dict_set (ee_side_data ee) (qe_item entry) (qe_priority entry, qe_timestamp entry),
             ee_currently_executing := ee_currently_executing ee @ [qe_item entry]\<rparr>)))"

text \<open>One iteration of the loop; the result tells whether the loop is left.\<close>

definition execute_iter ::
  "(int list \<Rightarrow> int) \<Rightarrow> (es_operation list \<Rightarrow> 'g res) \<Rightarrow> datetime \<Rightarrow> ('g evaluation_executor, bool) stm"
where
  "execute_iter choice from_operations now =
     sbind (sget ee_currently_executing) (\<lambda>os0.
       if os0 = [] then sret True
       else
         sthen (on_pool wait_for_workers)
        (sbind (sget ee_currently_executing) (\<lambda>os.
           if os = [] then sret True
           else
             sbind (on_pool (acquire_worker choice from_operations now os)) (\<lambda>res.
               case res of
                 None \<Rightarrow> sret False
               | Some _ \<Rightarrow> sthen (supd (\<lambda>ee. ee\<lparr>ee_currently_executing := []\<rparr>)) (sret True)))))"

definition cumulative_key :: "es_operation \<Rightarrow> int \<Rightarrow> cumulative_key" where
  "cumulative_key it p = (short_key it, p)"

definition ee_enqueue ::
  "datetime \<Rightarrow> es_operation \<Rightarrow> int \<Rightarrow> datetime \<Rightarrow> ('g evaluation_executor, bool) stm"
where
  "ee_enqueue now it priority timestamp =
     (\<lambda>ee. case ex_enqueue now (ee_executor ee) it (Some priority) (Some timestamp) of
        Inl e \<Rightarrow> (ee, Inl e)
      | Inr (success, ex) \<Rightarrow>
          let ee' = ee\<lparr>ee_executor := ex\<rparr>; key = cumulative_key it priority; cum = ee_queue_status_cumulative ee in
          if success then
            (case map_of cum key of
               Some entry \<Rightarrow>
                 (ee'\<lparr>ee_queue_status_cumulative :=
                        dict_set cum key (entry\<lparr>ce_multiplicity := ce_multiplicity entry + 1\<rparr>)\<rparr>, Inr True)
             | None \<Rightarrow>
                 (ee'\<lparr>ee_queue_status_cumulative :=
                        dict_set cum key
                          \<lparr>ce_type = op_type it, ce_object_id = op_object_id it, ce_dataset_id = op_dataset_id it,
                           ce_multiplicity = 1, ce_priority = priority, ce_timestamp = make_timestamp timestamp\<rparr>\<rparr>,
                  Inr True))
          else (ee', Inr False))"

definition remove_from_cumulative_status ::
  "es_operation queue_entry \<Rightarrow> ('g evaluation_executor, unit) stm"
where
  "remove_from_cumulative_status entry =
     (\<lambda>ee. let key = cumulative_key (qe_item entry) (qe_priority entry); cum = ee_queue_status_cumulative ee in
        case dict_get cum key of
          Inl e \<Rightarrow> (ee, Inl e)
        | Inr ce \<Rightarrow>
            let m = ce_multiplicity ce - 1; cum' = dict_set cum key (ce\<lparr>ce_multiplicity := m\<rparr>) in
            (ee\<lparr>ee_queue_status_cumulative := (if m = 0 then AList.delete key cum' else cum')\<rparr>, Inr ()))"

text \<open>\<open>del xs[i]\<close> for the first element equal to \<open>x\<close> is \<open>remove1\<close>.\<close>

definition ee_dequeue :: "es_operation \<Rightarrow> ('g evaluation_executor, unit) stm" where
  "ee_dequeue operation =
     stry (\<lambda>ee. case ex_dequeue (ee_executor ee) operation of
             Inl e \<Rightarrow> (ee, Inl e)
           | Inr (entry, ex) \<Rightarrow> remove_from_cumulative_status entry (ee\<lparr>ee_executor := ex\<rparr>))
       (\<lambda>e. e = KeyError)
       (\<lambda>e ee. if operation \<in> set (ee_currently_executing ee)
                then (ee\<lparr>ee_currently_executing := remove1 operation (ee_currently_executing ee)\<rparr>, Inr ())
                else (ee, Inl e))"

definition ee_pop :: "bool \<Rightarrow> ('g evaluation_executor, es_operation queue_entry) stm" where
  "ee_pop wait =
     (\<lambda>ee. case ex_pop (ee_executor ee) wait of
        Inl e \<Rightarrow> (ee, Inl e)
      | Inr (entry, ex) \<Rightarrow>
          sthen (remove_from_cumulative_status entry) (sret entry) (ee\<lparr>ee_executor := ex\<rparr>))"

text \<open>The extraction phase of \<open>run\<close>, with the methods of this class; exceptions here are not
  suppressed.\<close>

definition ee_run_extract ::
  "'g evaluation_executor \<Rightarrow> (es_operation queue_entry list \<times> 'g evaluation_executor) res option"
where
  "ee_run_extract ee =
     (case ee_pop True ee of
        (ee1, Inl e) \<Rightarrow> Some (Inl e)
      | (ee1, Inr x) \<Rightarrow>
          (case max_operations_per_batch ee1 of
             Inl e \<Rightarrow> Some (Inl e)
           | Inr mx \<Rightarrow>
               batch_loop (Suc (pq_length (ex_operation_queue (ee_executor ee1))))
                 (\<lambda>s. case ee_pop False s of (s', Inl e) \<Rightarrow> Inl e | (s', Inr y) \<Rightarrow> Inr (y, s'))
                 (\<lambda>s. pq_empty (ex_operation_queue (ee_executor s))) (nat mx) [x] ee1))"

section \<open>The queue summary counts\<close>

text \<open>The operations waiting under a key, and what the summary says about them.\<close>

definition waiting :: "(es_operation \<rightharpoonup> queue_key) \<Rightarrow> cumulative_key \<Rightarrow> es_operation set" where
  "waiting m key = {i. \<exists>t n. m i = Some (snd key, t, n) \<and> short_key i = fst key}"

definition summary_ok :: "cumulative_entry option \<Rightarrow> es_operation set \<Rightarrow> cumulative_key \<Rightarrow> bool" where
  "summary_ok c W key \<longleftrightarrow>
     (case c of
        None \<Rightarrow> W = {}
      | Some ce \<Rightarrow> W \<noteq> {} \<and> ce_multiplicity ce = int (card W) \<and>
          (ce_type ce, ce_object_id ce, ce_dataset_id ce) = fst key \<and> ce_priority ce = snd key)"

definition cum_ok :: "(cumulative_key, cumulative_entry) dict \<Rightarrow> (es_operation \<rightharpoonup> queue_key) \<Rightarrow> bool" where
  "cum_ok cum m \<longleftrightarrow> dict_ok cum \<and> finite (dom m) \<and> (\<forall>key. summary_ok (map_of cum key) (waiting m key) key)"

lemma finite_waiting: "finite (dom m) \<Longrightarrow> finite (waiting m key)"
  by (rule finite_subset[of _ "dom m"]) (auto simp: waiting_def)

lemma waiting_add:
  assumes "m i = None"
  shows "waiting (m(i \<mapsto> (p, t, n))) key =
    (if key = cumulative_key i p then insert i (waiting m key) else waiting m key)"
proof -
  have "i \<notin> waiting m key" using assms by (simp add: waiting_def)
  then show ?thesis
    by (auto simp: waiting_def cumulative_key_def split: if_splits)
qed

lemma waiting_remove:
  assumes "m i = Some (p, t, n)"
  shows "waiting (m(i := None)) key = (if key = cumulative_key i p then waiting m key - {i} else waiting m key)"
  using assms by (auto simp: waiting_def cumulative_key_def split: if_splits)

lemma cum_ok_lookup:
  assumes "cum_ok cum m"
  shows "map_of cum key = None \<Longrightarrow> waiting m key = {}"
    "map_of cum key = Some ce \<Longrightarrow> waiting m key \<noteq> {} \<and> ce_multiplicity ce = int (card (waiting m key)) \<and>
      (ce_type ce, ce_object_id ce, ce_dataset_id ce) = fst key \<and> ce_priority ce = snd key"
proof -
  have "summary_ok (map_of cum key) (waiting m key) key"
    using assms unfolding cum_ok_def by blast
  then show "map_of cum key = None \<Longrightarrow> waiting m key = {}"
    "map_of cum key = Some ce \<Longrightarrow> waiting m key \<noteq> {} \<and> ce_multiplicity ce = int (card (waiting m key)) \<and>
      (ce_type ce, ce_object_id ce, ce_dataset_id ce) = fst key \<and> ce_priority ce = snd key"
    by (simp_all add: summary_ok_def)
qed

text \<open>A summary stays right when one key is updated to the new number.\<close>

lemma cum_ok_update:
  assumes c: "cum_ok cum m" and m': "finite (dom m')" and cum': "dict_ok cum'"
    and other: "\<And>k. k \<noteq> key \<Longrightarrow> map_of cum' k = map_of cum k \<and> waiting m' k = waiting m k"
    and here: "summary_ok (map_of cum' key) (waiting m' key) key"
  shows "cum_ok cum' m'"
proof -
  have "summary_ok (map_of cum' k) (waiting m' k) k" for k
  proof (cases "k = key")
    case False
    then show ?thesis using other[OF False] c unfolding cum_ok_def by metis
  qed (use here in simp)
  then show ?thesis using m' cum' by (simp add: cum_ok_def)
qed

definition ee_queue_inv :: "'g evaluation_executor \<Rightarrow> bool" where
  "ee_queue_inv ee \<longleftrightarrow> ex_invar (ee_executor ee) \<and>
     cum_ok (ee_queue_status_cumulative ee) (ex_content (ee_executor ee))"

abbreviation ee_content :: "'g evaluation_executor \<Rightarrow> es_operation \<rightharpoonup> queue_key" where
  "ee_content ee \<equiv> ex_content (ee_executor ee)"

lemma remove_from_cumulative_ok:
  assumes c: "cum_ok (ee_queue_status_cumulative ee) m" and i: "m (qe_item x) = Some (entry_key x)"
  shows "\<exists>cum'. remove_from_cumulative_status x ee = (ee\<lparr>ee_queue_status_cumulative := cum'\<rparr>, Inr ()) \<and>
    cum_ok cum' (m(qe_item x := None))"
proof -
  define key where "key = cumulative_key (qe_item x) (qe_priority x)"
  let ?cum = "ee_queue_status_cumulative ee"
  have fin: "finite (dom m)" and ok: "dict_ok ?cum" using c by (simp_all add: cum_ok_def)
  have w: "waiting (m(qe_item x := None)) k = (if k = key then waiting m k - {qe_item x} else waiting m k)" for k
    using waiting_remove[of m "qe_item x"] i by (simp add: entry_key_def key_def)
  have mem: "qe_item x \<in> waiting m key"
    using i by (simp add: waiting_def key_def cumulative_key_def entry_key_def)
  then obtain ce where ce: "map_of ?cum key = Some ce"
    using cum_ok_lookup(1)[OF c, of key] by fastforce
  note l = cum_ok_lookup(2)[OF c ce]
  let ?cum' = "dict_set ?cum key (ce\<lparr>ce_multiplicity := ce_multiplicity ce - 1\<rparr>)"
  let ?new = "if ce_multiplicity ce - 1 = 0 then AList.delete key ?cum' else ?cum'"
  have card: "int (card (waiting m key - {qe_item x})) = ce_multiplicity ce - 1"
    using l mem finite_waiting[OF fin, of key] by (simp add: card_Diff_singleton of_nat_diff Suc_leI card_gt_0_iff)
  have empty: "waiting m key - {qe_item x} = {} \<longleftrightarrow> ce_multiplicity ce - 1 = 0"
    using card finite_waiting[OF fin, of key] by (metis card_eq_0_iff finite_Diff of_nat_eq_0_iff)
  have "cum_ok ?new (m(qe_item x := None))"
  proof (rule cum_ok_update[OF c])
    show "finite (dom (m(qe_item x := None)))" using fin by simp
    show "dict_ok ?new" using ok by simp
    show "map_of ?new k = map_of ?cum k \<and> waiting (m(qe_item x := None)) k = waiting m k" if "k \<noteq> key" for k
      using that w[of k] by (simp add: dict_simps)
    show "summary_ok (map_of ?new key) (waiting (m(qe_item x := None)) key) key"
      using card l w[of key] empty
      by (cases "ce_multiplicity ce - 1 = 0") (simp_all add: dict_simps summary_ok_def)
  qed
  then show ?thesis
    using ce by (auto simp: remove_from_cumulative_status_def key_def[symmetric] Let_def)
qed

text \<open>The form in which the queue interface wants a stateful operation.\<close>

definition as_res :: "('s, 'a) stm \<Rightarrow> 's \<Rightarrow> ('a \<times> 's) res" where
  "as_res m s = (case m s of (s', Inl e) \<Rightarrow> Inl e | (s', Inr y) \<Rightarrow> Inr (y, s'))"

lemma ee_pop_some:
  assumes "ee_queue_inv ee" "ee_content ee \<noteq> Map.empty"
  shows "\<exists>x ee'. ee_pop w ee = (ee', Inr x) \<and> ee_queue_inv ee' \<and> ee_content ee (qe_item x) = Some (entry_key x) \<and>
    (\<forall>i k. ee_content ee i = Some k \<longrightarrow> entry_key x \<le> k) \<and> ee_content ee' = (ee_content ee)(qe_item x := None) \<and>
    (\<exists>ex cum. ee' = ee\<lparr>ee_executor := ex, ee_queue_status_cumulative := cum\<rparr>)"
proof -
  have inv: "ex_invar (ee_executor ee)" "cum_ok (ee_queue_status_cumulative ee) (ee_content ee)"
    using assms(1) by (simp_all add: ee_queue_inv_def)
  obtain x q where x: "ex_pop (ee_executor ee) w = Inr (x, (ee_executor ee)\<lparr>ex_operation_queue := q\<rparr>)"
    "pq_invar q" "ee_content ee (qe_item x) = Some (entry_key x)"
    "\<forall>i k. ee_content ee i = Some k \<longrightarrow> entry_key x \<le> k" "pq_map q = (ee_content ee)(qe_item x := None)"
    using ex_pop_wait[OF inv(1) assms(2), of w] by metis
  let ?ee = "ee\<lparr>ee_executor := (ee_executor ee)\<lparr>ex_operation_queue := q\<rparr>\<rparr>"
  obtain cum where c: "remove_from_cumulative_status x ?ee = (?ee\<lparr>ee_queue_status_cumulative := cum\<rparr>, Inr ())"
    "cum_ok cum ((ee_content ee)(qe_item x := None))"
    using remove_from_cumulative_ok[of ?ee "ee_content ee" x] inv(2) x(3) by auto
  then show ?thesis
    using x by (intro exI[of _ x] exI[of _ "?ee\<lparr>ee_queue_status_cumulative := cum\<rparr>"])
      (auto simp: ee_pop_def stm_simps ee_queue_inv_def ex_invar_def simp del: fun_upd_apply)
qed

text \<open>The executor is a queue in the sense of the interface, with its own \<open>_pop\<close>.\<close>

interpretation ee_queue: min_queue ee_queue_inv ee_content "as_res (ee_pop False)" qe_item entry_key
proof (unfold_locales, goal_cases)
  case (1 q)
  then show ?case by (simp add: ee_queue_inv_def cum_ok_def)
next
  case (2 q)
  then obtain err where "ex_pop (ee_executor q) False = Inl err"
    using executor_queue.pop_min_none[of "ee_executor q"] by (auto simp: ee_queue_inv_def)
  then show ?case by (simp add: as_res_def ee_pop_def)
next
  case (3 q)
  from ee_pop_some[OF 3, of False] show ?case by (auto simp: as_res_def)
qed

section \<open>Enqueueing and dequeueing\<close>

lemma ee_enqueue_present:
  assumes "ee_queue_inv ee" "it \<in> dom (ee_content ee)"
  shows "ee_enqueue now it p t ee = (ee, Inr False)"
proof -
  have "ex_contains (ee_executor ee) it"
    using assms by (simp add: ee_queue_inv_def executor_queue.contains_iff)
  then have "ex_enqueue now (ee_executor ee) it (Some p) (Some t) = Inr (False, ee_executor ee)"
    using executor_queue.add_present[of "ee_executor ee" it "(Some p, Some t, now)"] by simp
  then show ?thesis by (simp add: ee_enqueue_def)
qed

lemma ee_enqueue_absent:
  assumes inv: "ee_queue_inv ee" and new: "it \<notin> dom (ee_content ee)"
  shows "\<exists>ex cum. ee_enqueue now it p t ee =
      (ee\<lparr>ee_executor := ex, ee_queue_status_cumulative := cum\<rparr>, Inr True) \<and>
    ex_invar ex \<and> cum_ok cum (ex_content ex) \<and>
    ex_content ex = (ee_content ee)(it \<mapsto> (p, t, pq_next_index (ex_operation_queue (ee_executor ee))))"
proof -
  let ?n = "pq_next_index (ex_operation_queue (ee_executor ee))"
  have e: "ex_invar (ee_executor ee)" and c: "cum_ok (ee_queue_status_cumulative ee) (ee_content ee)"
    using inv by (simp_all add: ee_queue_inv_def)
  have "\<not> ex_contains (ee_executor ee) it" using e new by (simp add: executor_queue.contains_iff)
  from executor_queue.add_absent[OF e this, of "(Some p, Some t, now)"] obtain ex where
    ex: "ex_enqueue now (ee_executor ee) it (Some p) (Some t) = Inr (True, ex)" "ex_invar ex"
      "ex_content ex = (ee_content ee)(it \<mapsto> (p, t, ?n))"
    by (auto simp: default_priority_def default_timestamp_def)
  define key where "key = cumulative_key it p"
  let ?cum = "ee_queue_status_cumulative ee"
  let ?new = "dict_set ?cum key (case map_of ?cum key of
      Some entry \<Rightarrow> entry\<lparr>ce_multiplicity := ce_multiplicity entry + 1\<rparr>
    | None \<Rightarrow> \<lparr>ce_type = op_type it, ce_object_id = op_object_id it, ce_dataset_id = op_dataset_id it,
        ce_multiplicity = 1, ce_priority = p, ce_timestamp = make_timestamp t\<rparr>)"
  have m: "ee_content ee it = None" using new by auto
  have fin: "finite (dom (ee_content ee))" using c by (simp add: cum_ok_def)
  note w = waiting_add[of "ee_content ee" it, OF m, of p t ?n, folded key_def]
  have notin: "it \<notin> waiting (ee_content ee) key" using m by (simp add: waiting_def)
  have "cum_ok ?new (ex_content ex)"
    unfolding ex(3)
  proof (rule cum_ok_update[OF c])
    show "finite (dom ((ee_content ee)(it \<mapsto> (p, t, ?n))))" using fin by simp
    show "dict_ok ?new" using c by (simp add: cum_ok_def)
    show "map_of ?new k = map_of ?cum k \<and>
        waiting ((ee_content ee)(it \<mapsto> (p, t, ?n))) k = waiting (ee_content ee) k" if "k \<noteq> key" for k
      using that w[of k] by (simp add: dict_simps)
    show "summary_ok (map_of ?new key) (waiting ((ee_content ee)(it \<mapsto> (p, t, ?n))) key) key"
      using w[of key] notin finite_waiting[OF fin, of key] cum_ok_lookup[OF c, of key]
      by (cases "map_of ?cum key")
        (auto simp: dict_simps summary_ok_def key_def cumulative_key_def short_key_def)
  qed
  moreover have "ee_enqueue now it p t ee =
      (ee\<lparr>ee_executor := ex, ee_queue_status_cumulative := ?new\<rparr>, Inr True)"
    using ex(1) by (cases "map_of ?cum key") (simp_all add: ee_enqueue_def Let_def key_def[symmetric])
  ultimately show ?thesis
    using ex by (intro exI[of _ ex] exI[of _ ?new]) simp
qed

lemma ee_dequeue_queued:
  assumes inv: "ee_queue_inv ee" and q: "it \<in> dom (ee_content ee)"
  shows "\<exists>ex cum. ee_dequeue it ee = (ee\<lparr>ee_executor := ex, ee_queue_status_cumulative := cum\<rparr>, Inr ()) \<and>
    ex_invar ex \<and> cum_ok cum (ex_content ex) \<and> ex_content ex = (ee_content ee)(it := None)"
proof -
  have e: "ex_invar (ee_executor ee)" and c: "cum_ok (ee_queue_status_cumulative ee) (ee_content ee)"
    using inv by (simp_all add: ee_queue_inv_def)
  have "ex_contains (ee_executor ee) it" using e q by (simp add: executor_queue.contains_iff)
  from executor_queue.delete_present[OF e this] obtain x ex where
    x: "ex_dequeue (ee_executor ee) it = Inr (x, ex)" "ex_invar ex" "qe_item x = it"
      "ee_content ee it = Some (entry_key x)" "ex_content ex = (ee_content ee)(it := None)"
    by blast
  obtain cum where "remove_from_cumulative_status x (ee\<lparr>ee_executor := ex\<rparr>) =
      (ee\<lparr>ee_executor := ex, ee_queue_status_cumulative := cum\<rparr>, Inr ())"
    "cum_ok cum ((ee_content ee)(it := None))"
    using remove_from_cumulative_ok[of "ee\<lparr>ee_executor := ex\<rparr>" "ee_content ee" x] c x(3,4) by auto
  then show ?thesis
    using x by (intro exI[of _ ex] exI[of _ cum]) (simp add: ee_dequeue_def stry_def)
qed

lemma ee_dequeue_not_queued:
  assumes "ee_queue_inv ee" "it \<notin> dom (ee_content ee)"
  shows "ee_dequeue it ee =
    (if it \<in> set (ee_currently_executing ee)
     then (ee\<lparr>ee_currently_executing := remove1 it (ee_currently_executing ee)\<rparr>, Inr ())
     else (ee, Inl KeyError))"
proof -
  have "\<not> ex_contains (ee_executor ee) it"
    using assms by (simp add: executor_queue.contains_iff ee_queue_inv_def)
  from executor_queue.delete_absent[OF this] show ?thesis
    by (simp add: ee_dequeue_def stry_def)
qed

section \<open>Extracting a batch\<close>

lemma max_operations_bounds:
  assumes "max_operations_per_batch ee = Inr mx"
  shows "1 \<le> mx" "mx \<le> 25"
  using assms by (auto simp: max_operations_per_batch_def MAX_OPERATIONS_PER_BATCH_def Let_def split: if_splits)

definition frame :: "'g evaluation_executor \<Rightarrow> 'g evaluation_executor \<Rightarrow> bool" where
  "frame ee ee' \<longleftrightarrow> ee_pool ee' = ee_pool ee \<and> ee_currently_executing ee' = ee_currently_executing ee \<and>
     ee_side_data ee' = ee_side_data ee"

lemma pops_frame:
  assumes "ee_queue_inv ee" "pops (as_res (ee_pop False)) ee es ee'"
  shows "frame ee ee'"
  using assms
proof (induction es arbitrary: ee)
  case Nil
  then show ?case by (simp add: frame_def)
next
  case (Cons e es)
  then obtain ee1 where p: "as_res (ee_pop False) ee = Inr (e, ee1)" and ps: "pops (as_res (ee_pop False)) ee1 es ee'"
    by auto
  have "ee_content ee \<noteq> Map.empty"
    using ee_queue.pop_min_none[OF Cons.prems(1)] p by fastforce
  from ee_pop_some[OF Cons.prems(1) this, of False] have "frame ee ee1"
    using p by (auto simp: as_res_def frame_def)
  moreover have "frame ee1 ee'"
    using Cons.IH[OF _ ps] ee_queue.pop_min_Inr(1)[OF Cons.prems(1) p] by simp
  ultimately show ?case by (simp add: frame_def)
qed

lemma ee_pop_wait_same:
  assumes "ee_content ee \<noteq> Map.empty"
  shows "ee_pop True ee = ee_pop False ee"
  using assms by (simp add: ee_pop_def ex_pop_def pop_def top_entry_def pq_empty_def pq_length_def pq_map_empty_iff)

lemma ee_run_extract_pops:
  assumes inv: "ee_queue_inv ee" and ne: "ee_content ee \<noteq> Map.empty" and pool: "wp_len (ee_pool ee) \<noteq> 0"
  shows "\<exists>es ee' mx. ee_run_extract ee = Some (Inr (es, ee')) \<and> es \<noteq> [] \<and> pops (as_res (ee_pop False)) ee es ee' \<and>
    1 \<le> mx \<and> mx \<le> 25 \<and> length es \<le> mx \<and> (ee_content ee' = Map.empty \<or> length es = mx)"
proof -
  obtain x ee1 where x: "ee_pop False ee = (ee1, Inr x)" "ee_queue_inv ee1" "frame ee ee1"
    using ee_pop_some[OF inv ne, of False] by (auto simp: frame_def)
  then have "wp_len (ee_pool ee1) \<noteq> 0" using pool by (simp add: frame_def)
  then obtain mx where mx: "max_operations_per_batch ee1 = Inr mx"
    by (simp add: max_operations_per_batch_def Let_def)
  note b = max_operations_bounds[OF mx]
  have e1: "ex_invar (ee_executor ee1)" using x(2) by (simp add: ee_queue_inv_def)
  have "pq_empty (ex_operation_queue (ee_executor s)) \<longleftrightarrow> ee_content s = Map.empty" for s :: "'a evaluation_executor"
    by (simp add: pq_empty_def pq_length_def pq_map_empty_iff)
  moreover have "card (dom (ee_content ee1)) < Suc (pq_length (ex_operation_queue (ee_executor ee1)))"
    using card_ex_content[OF e1] by simp
  ultimately obtain es ee' where l: "batch_loop (Suc (pq_length (ex_operation_queue (ee_executor ee1))))
        (as_res (ee_pop False)) (\<lambda>s. pq_empty (ex_operation_queue (ee_executor s))) (nat mx) [x] ee1 =
      Some (Inr ([x] @ es, ee'))" "pops (as_res (ee_pop False)) ee1 es ee'"
    "ee_content ee' = Map.empty \<or> nat mx \<noteq> 0 \<and> nat mx \<le> length ([x] @ es)"
    "nat mx = 0 \<or> length ([x] @ es) \<le> max (nat mx) (length [x])"
    using ee_queue.batch_loop_fills[OF x(2), of "Suc (pq_length (ex_operation_queue (ee_executor ee1)))"
        "\<lambda>s. pq_empty (ex_operation_queue (ee_executor s))" "nat mx" "[x]"] by blast
  have "ee_run_extract ee = Some (Inr (x # es, ee'))"
    using l(1) x(1) mx ee_pop_wait_same[OF ne] by (simp add: ee_run_extract_def as_res_def[abs_def] del: batch_loop.simps)
  moreover have "pops (as_res (ee_pop False)) ee (x # es) ee'"
    using l(2) x(1) by (auto simp: as_res_def)
  ultimately show ?thesis
    using l(3,4) b by (intro exI[of _ "x # es"] exI[of _ ee'] exI[of _ "nat mx"]) auto
qed

end
