(* ===== verification/Flushing_Dict.thy ===== *)
theory Flushing_Dict
  imports Prelude
begin

text \<open>
  The dictionary that collects results and hands them to a callback in blocks,
  \<^verbatim>\<open>cms/service/flushingdict.py\<close>. \<open>flush\<close> releases its lock before it calls the callback, so
  other greenlets may add entries while the callback runs: the part before the callback
  (\<open>flush_begin\<close>) and the part after it (\<open>flush_end\<close>) are separate steps.
\<close>

record ('k, 'v) flushing_dict =
  fl_size :: nat
  fl_flush_latency_seconds :: real
  fl_d :: "('k, 'v) dict"
  fl_fd :: "('k, 'v) dict"
  fl_last_insert :: real

definition fl_init :: "nat \<Rightarrow> real \<Rightarrow> real \<Rightarrow> ('k, 'v) flushing_dict" where
  "fl_init sz latency now =
     \<lparr>fl_size = sz, fl_flush_latency_seconds = latency, fl_d = [], fl_fd = [], fl_last_insert = now\<rparr>"

definition fl_add :: "real \<Rightarrow> 'k \<Rightarrow> 'v \<Rightarrow> ('k, 'v) flushing_dict \<Rightarrow> ('k, 'v) flushing_dict" where
  "fl_add now k v f = f\<lparr>fl_d := dict_set (fl_d f) k v, fl_last_insert := now\<rparr>"

text \<open>The items the callback receives are those of the dictionary put aside.\<close>

definition flush_begin :: "('k, 'v) flushing_dict \<Rightarrow> ('k, 'v) flushing_dict \<times> ('k \<times> 'v) list" where
  "flush_begin f = (f\<lparr>fl_fd := fl_d f, fl_d := []\<rparr>, fl_d f)"

definition flush_end :: "('k, 'v) flushing_dict \<Rightarrow> ('k, 'v) flushing_dict" where
  "flush_end f = f\<lparr>fl_fd := []\<rparr>"

text \<open>The whole of \<open>flush\<close>. The callback acts on a state that contains the dictionary, read
  and written with \<open>getd\<close> and \<open>putd\<close>; when it raises, \<open>fd\<close> keeps the block.\<close>

definition fl_flush ::
  "('s \<Rightarrow> ('k, 'v) flushing_dict) \<Rightarrow> (('k, 'v) flushing_dict \<Rightarrow> 's \<Rightarrow> 's) \<Rightarrow>
   (('k \<times> 'v) list \<Rightarrow> ('s, unit) stm) \<Rightarrow> ('s, unit) stm"
where
  "fl_flush getd putd callback =
     sbind (sget getd) (\<lambda>f. case flush_begin f of (f', items) \<Rightarrow>
       sthen (supd (putd f'))
      (sthen (callback items)
             (supd (\<lambda>s. putd (flush_end (getd s)) s))))"

definition fl_contains :: "('k, 'v) flushing_dict \<Rightarrow> 'k \<Rightarrow> bool" where
  "fl_contains f k \<longleftrightarrow> dict_has (fl_d f) k \<or> dict_has (fl_fd f) k"

text \<open>The test that \<open>_check_flush\<close> evaluates every 0.05 seconds; it flushes when it holds.\<close>

definition check_flush :: "real \<Rightarrow> ('k, 'v) flushing_dict \<Rightarrow> bool" where
  "check_flush now f \<longleftrightarrow>
     (let since_last_insert = now - fl_last_insert f in
      length (fl_d f) \<noteq> 0 \<and>
      (length (fl_d f) \<ge> fl_size f \<or> since_last_insert > fl_flush_latency_seconds f))"

section \<open>Runs\<close>

datatype ('k, 'v) fl_event = Fl_Add real 'k 'v | Fl_Begin | Fl_End

text \<open>The state after some events, in any interleaving, and the blocks the callback has
  received so far.\<close>

fun fl_step ::
  "('k, 'v) fl_event \<Rightarrow> ('k, 'v) flushing_dict \<times> ('k \<times> 'v) list list \<Rightarrow>
   ('k, 'v) flushing_dict \<times> ('k \<times> 'v) list list"
where
  "fl_step (Fl_Add now k v) (f, blocks) = (fl_add now k v f, blocks)"
| "fl_step Fl_Begin (f, blocks) = (case flush_begin f of (f', b) \<Rightarrow> (f', blocks @ [b]))"
| "fl_step Fl_End (f, blocks) = (flush_end f, blocks)"

definition fl_run ::
  "('k, 'v) fl_event list \<Rightarrow> ('k, 'v) flushing_dict \<Rightarrow> ('k, 'v) flushing_dict \<times> ('k \<times> 'v) list list" where
  "fl_run es f = fold fl_step es (f, [])"

text \<open>The value added last for each key, and the value delivered last for each key.\<close>

fun added :: "('k, 'v) fl_event \<Rightarrow> ('k \<rightharpoonup> 'v) \<Rightarrow> 'k \<rightharpoonup> 'v" where
  "added (Fl_Add now k v) m = m(k \<mapsto> v)"
| "added Fl_Begin m = m"
| "added Fl_End m = m"

definition delivered :: "('k \<times> 'v) list list \<Rightarrow> 'k \<rightharpoonup> 'v" where
  "delivered blocks = foldl (\<lambda>m b. m ++ map_of b) Map.empty blocks"

lemma delivered_snoc [simp]: "delivered (bs @ [b]) = delivered bs ++ map_of b"
  by (simp add: delivered_def)

lemma fl_run_snoc: "fl_run (es @ [e]) f = fl_step e (fl_run es f)"
  by (simp add: fl_run_def)

definition fl_ok :: "('k, 'v) flushing_dict \<times> ('k \<times> 'v) list list \<Rightarrow> bool" where
  "fl_ok p \<longleftrightarrow> dict_ok (fl_d (fst p)) \<and> dict_ok (fl_fd (fst p)) \<and> (\<forall>b\<in>set (snd p). dict_ok b)"

lemma fl_run_ok: "fl_ok (fl_run es (fl_init n l t))"
proof (induction es rule: rev_induct)
  case Nil
  then show ?case by (simp add: fl_run_def fl_ok_def fl_init_def)
next
  case (snoc e es)
  then show ?case
    by (cases e; cases "fl_run es (fl_init n l t)")
      (auto simp: fl_run_snoc fl_ok_def fl_add_def flush_begin_def flush_end_def)
qed

text \<open>(C6) Whatever the interleaving of \<open>add\<close> calls with the beginnings and ends of flushes, no
  value is lost and none is made up: the blocks handed to the callback, read in order,
  together with what still waits in the dictionary, give for every key the value added last;
  and no block names a key twice.\<close>

theorem flushing_dict_delivers_last_values:
  "delivered (snd (fl_run es (fl_init n l t))) ++ map_of (fl_d (fst (fl_run es (fl_init n l t)))) =
     fold added es Map.empty \<and>
   (\<forall>b\<in>set (snd (fl_run es (fl_init n l t))). distinct (map fst b))"
proof
  show "delivered (snd (fl_run es (fl_init n l t))) ++ map_of (fl_d (fst (fl_run es (fl_init n l t)))) =
     fold added es Map.empty"
  proof (induction es rule: rev_induct)
    case Nil
    then show ?case by (simp add: fl_run_def delivered_def fl_init_def)
  next
    case (snoc e es)
    then show ?case
      by (cases e; cases "fl_run es (fl_init n l t)")
        (auto simp: fl_run_snoc fl_add_def flush_begin_def flush_end_def map_of_dict_set
           map_add_def fun_eq_iff split: option.splits)
  qed
  show "\<forall>b\<in>set (snd (fl_run es (fl_init n l t))). distinct (map fst b)"
    using fl_run_ok[of es n l t] by (simp add: fl_ok_def dict_ok_def)
qed

theorem flushing_dict_delivers_last_values_witness:
  "delivered (snd (fl_run [Fl_Add 1 ''a'' (1::int), Fl_Begin, Fl_Add 2 ''a'' 5, Fl_End, Fl_Begin]
     (fl_init 100 2 0))) ''a'' = Some 5"
  using flushing_dict_delivers_last_values[of
      "[Fl_Add 1 ''a'' (1::int), Fl_Begin, Fl_Add 2 ''a'' 5, Fl_End, Fl_Begin]" 100 2 0]
  by (simp add: fl_run_def fl_init_def fl_add_def flush_begin_def flush_end_def delivered_def dict_set_def)

end
