(* ===== verification/Evaluation_Service.thy ===== *)
theory Evaluation_Service
  imports Evaluation_Executor Flushing_Dict
begin

text \<open>
  The evaluation service, class \<open>EvaluationService\<close> of \<^verbatim>\<open>cms/service/EvaluationService.py\<close>, with
  the methods of \<^verbatim>\<open>cms/grading/Job.py\<close> that write the outcome of a job into a result. The state
  consists of the only executor, the cache of results not yet written, the database, and
  the notifications sent to the scoring service and the PvP service. Database transactions
  act on one database state: a nested transaction that raises leaves the tables as they were
  before it, and otherwise sessions are taken to see each other's writes.
  \<open>submission_enqueue_operations\<close> and \<open>evaluation_ended\<close> call each other; the first argument
  of the model is the recursion limit, and reaching it is Python's \<open>RuntimeError\<close>.
\<close>

section \<open>Jobs and results\<close>

record job_plus =
  pl_stdout :: "string option"
  pl_stderr :: "string option"
  pl_execution_time :: "real option"
  pl_execution_wall_clock_time :: "real option"
  pl_execution_memory :: "int option"
  pl_tombstone :: bool

datatype job_class = CompilationJob | EvaluationJob | MatchJob

record job =
  job_class :: job_class
  job_operation :: es_operation
  job_success :: bool
  job_compilation_success :: bool
  job_outcome :: "string option"
  job_text :: "string list"
  job_user_output :: "digest option"
  job_executables :: "(string, digest) dict"
  job_shard :: "int option"
  job_sandboxes :: "string list"
  job_plus :: "job_plus option"

record es_result =
  res_job :: job
  res_job_success :: bool

fun join_colon :: "string list \<Rightarrow> string" where
  "join_colon [] = []"
| "join_colon [x] = x"
| "join_colon (x # y # ys) = x @ '':'' @ join_colon (y # ys)"

text \<open>\<open>self.plus.get(...)\<close> raises \<open>AttributeError\<close> when \<open>plus\<close> is \<open>None\<close>.\<close>

definition get_plus :: "job \<Rightarrow> job_plus res" where
  "get_plus j = (case job_plus j of None \<Rightarrow> Inl AttributeError | Some p \<Rightarrow> Inr p)"

definition CompilationJob_to_submission :: "job \<Rightarrow> submission_result \<Rightarrow> submission_result res" where
  "CompilationJob_to_submission j sr =
     res_bind (get_plus j) (\<lambda>p.
       let sr1 = sr_invalidate_compilation sr;
           sr2 = (if sr_submission_discarded sr1 then sr_set_compilation_outcome False sr1
                  else sr_set_compilation_outcome (job_compilation_success j) sr1)
       in Inr (sr2\<lparr>sr_compilation_text := job_text j, sr_compilation_stdout := pl_stdout p,
                   sr_compilation_stderr := pl_stderr p, sr_compilation_time := pl_execution_time p,
                   sr_compilation_wall_clock_time := pl_execution_wall_clock_time p,
                   sr_compilation_memory := pl_execution_memory p, sr_compilation_shard := job_shard j,
                   sr_compilation_sandbox := Some (join_colon (job_sandboxes j)),
                   sr_executables := fold (\<lambda>(f, g) d. dict_set d f g) (job_executables j) (sr_executables sr2)\<rparr>))"

text \<open>A second evaluation of the same testcase violates the unique constraint when the nested
  transaction is closed.\<close>

definition EvaluationJob_to_submission :: "dataset \<Rightarrow> job \<Rightarrow> submission_result \<Rightarrow> submission_result res" where
  "EvaluationJob_to_submission ds j sr =
     res_bind (get_plus j) (\<lambda>p.
     res_bind (dataset_testcase ds (op_testcase_codename (job_operation j))) (\<lambda>tc.
       if has_evaluation sr tc then Inl IntegrityError
       else Inr (sr\<lparr>sr_evaluations := sr_evaluations sr @
         [\<lparr>ev_testcase_id = tc_id tc, ev_outcome = job_outcome j, ev_text = job_text j,
           ev_execution_time = pl_execution_time p,
           ev_execution_wall_clock_time = pl_execution_wall_clock_time p,
           ev_execution_memory = pl_execution_memory p, ev_evaluation_shard = job_shard j,
           ev_evaluation_sandbox = Some (join_colon (job_sandboxes j))\<rparr>]\<rparr>)))"

definition to_submission :: "dataset \<Rightarrow> job \<Rightarrow> submission_result \<Rightarrow> submission_result res" where
  "to_submission ds j sr =
     (case job_class j of
        CompilationJob \<Rightarrow> CompilationJob_to_submission j sr
      | EvaluationJob \<Rightarrow> EvaluationJob_to_submission ds j sr
      | MatchJob \<Rightarrow> Inl AttributeError)"

definition to_match :: "dataset \<Rightarrow> job \<Rightarrow> match_result \<Rightarrow> match_result res" where
  "to_match ds j mr =
     (case job_class j of
        MatchJob \<Rightarrow>
          res_bind (dataset_testcase ds (op_testcase_codename (job_operation j))) (\<lambda>tc.
            if tc_id tc \<in> set (map mg_testcase_id (mr_matchings mr)) then Inl IntegrityError
            else Inr (mr\<lparr>mr_matchings := mr_matchings mr @
              [\<lparr>mg_testcase_id = tc_id tc, mg_outcome = job_outcome j, mg_text = job_text j\<rparr>]\<rparr>))
      | _ \<Rightarrow> Inl AttributeError)"

definition CompilationJob_to_user_test :: "job \<Rightarrow> user_test_result \<Rightarrow> user_test_result res" where
  "CompilationJob_to_user_test j ur =
     res_bind (get_plus j) (\<lambda>p.
       let ur1 = ur_set_compilation_outcome (job_compilation_success j) (ur_invalidate_compilation ur)
       in Inr (ur1\<lparr>ur_compilation_text := job_text j, ur_compilation_stdout := pl_stdout p,
                   ur_compilation_stderr := pl_stderr p, ur_compilation_time := pl_execution_time p,
                   ur_compilation_wall_clock_time := pl_execution_wall_clock_time p,
                   ur_compilation_memory := pl_execution_memory p, ur_compilation_shard := job_shard j,
                   ur_compilation_sandbox := Some (join_colon (job_sandboxes j)),
                   ur_executables := fold (\<lambda>(f, g) d. dict_set d f g) (job_executables j) (ur_executables ur1)\<rparr>))"

definition EvaluationJob_to_user_test :: "job \<Rightarrow> user_test_result \<Rightarrow> user_test_result res" where
  "EvaluationJob_to_user_test j ur =
     res_bind (get_plus j) (\<lambda>p.
       Inr ((ur_set_evaluation_outcome ((ur_invalidate_evaluation ur)\<lparr>ur_evaluation_text := job_text j\<rparr>))
            \<lparr>ur_execution_time := pl_execution_time p,
             ur_execution_wall_clock_time := pl_execution_wall_clock_time p,
             ur_execution_memory := pl_execution_memory p, ur_evaluation_shard := job_shard j,
             ur_evaluation_sandbox := Some (join_colon (job_sandboxes j)), ur_output := job_user_output j\<rparr>))"

definition to_user_test :: "job \<Rightarrow> user_test_result \<Rightarrow> user_test_result res" where
  "to_user_test j ur =
     (case job_class j of
        CompilationJob \<Rightarrow> CompilationJob_to_user_test j ur
      | EvaluationJob \<Rightarrow> EvaluationJob_to_user_test j ur
      | MatchJob \<Rightarrow> Inr ur)"

section \<open>State\<close>

datatype es_message =
    SS_new_evaluation int int
  | PvP_match_ended int

record 'g es_state =
  es_exec :: "'g evaluation_executor"
  es_result_cache :: "(es_operation, es_result) flushing_dict"
  es_contest_id :: "int option"
  es_db :: db
  es_sent :: "es_message list"

definition RESULT_CACHE_SIZE :: nat where "RESULT_CACHE_SIZE = 100"
definition MAX_FLUSHING_TIME_SECONDS :: real where "MAX_FLUSHING_TIME_SECONDS = 2"

definition es_init :: "bool list \<Rightarrow> int option \<Rightarrow> real \<Rightarrow> db \<Rightarrow> 'g es_state" where
  "es_init conns contest_id now d =
     \<lparr>es_exec = evaluation_executor_init conns,
      es_result_cache = fl_init RESULT_CACHE_SIZE MAX_FLUSHING_TIME_SECONDS now,
      es_contest_id = contest_id, es_db = d, es_sent = []\<rparr>"

definition on_exec :: "('g evaluation_executor, 'a) stm \<Rightarrow> ('g es_state, 'a) stm" where
  "on_exec m = (\<lambda>s. case m (es_exec s) of (ee, r) \<Rightarrow> (s\<lparr>es_exec := ee\<rparr>, r))"

definition upd_db :: "(db \<Rightarrow> db) \<Rightarrow> ('g es_state, unit) stm" where
  "upd_db f = supd (\<lambda>s. s\<lparr>es_db := f (es_db s)\<rparr>)"

definition send :: "es_message \<Rightarrow> ('g es_state, unit) stm" where
  "send m = supd (\<lambda>s. s\<lparr>es_sent := es_sent s @ [m]\<rparr>)"

definition or_attribute_error :: "'a option \<Rightarrow> ('s, 'a) stm" where
  "or_attribute_error x = (case x of None \<Rightarrow> sraise AttributeError | Some v \<Rightarrow> sret v)"

section \<open>Enqueueing\<close>

text \<open>The timestamp is always given, so the clock that the queue would use as a default is not
  read. There is one executor: \<open>super().enqueue\<close> returns 1 or 0.\<close>

definition es_enqueue :: "es_operation \<Rightarrow> int \<Rightarrow> datetime \<Rightarrow> ('g es_state, bool) stm" where
  "es_enqueue operation priority timestamp =
     (\<lambda>s. if ee_contains (es_exec s) operation \<or> fl_contains (es_result_cache s) operation
          then (s, Inr False)
          else on_exec (ee_enqueue timestamp operation priority timestamp) s)"

text \<open>The results of older submissions of the same participation and task that are pending or not
  compiled, and of newer ones.\<close>

definition rival_results :: "db \<Rightarrow> submission \<Rightarrow> (datetime \<Rightarrow> datetime \<Rightarrow> bool) \<Rightarrow> submission_result list" where
  "rival_results d s before =
     filter (\<lambda>r. \<exists>s'\<in>set (db_submissions d). \<exists>ds\<in>set (db_datasets d).
         sub_id s' = sr_submission_id r \<and> ds_id ds = sr_dataset_id r \<and>
         (sr_filter_pending ds s' r \<or> sr_compilation_outcome r = None) \<and>
         sub_participation_id s' = sub_participation_id s \<and> sub_task_id s' = sub_task_id s \<and>
         before (sub_timestamp s') (sub_timestamp s)) (db_submission_results d)"

definition dummy_evaluation :: "testcase \<Rightarrow> evaluation" where
  "dummy_evaluation tc =
     \<lparr>ev_testcase_id = tc_id tc, ev_outcome = Some ''0.0'', ev_text = [], ev_execution_time = None,
      ev_execution_wall_clock_time = None, ev_execution_memory = None, ev_evaluation_shard = None,
      ev_evaluation_sandbox = None\<rparr>"

definition prepare_one :: "es_operation \<Rightarrow> dataset \<Rightarrow> testcase \<Rightarrow> int option \<Rightarrow> submission \<Rightarrow> ('g es_state, unit) stm" where
  "prepare_one operation ds tc only_testcase s =
     sbind (sget es_db) (\<lambda>d.
     sbind (slift (sub_get_result_or_create d s ds)) (\<lambda>r0.
       let r1 = (if \<not> has_evaluation r0 tc \<and> (only_testcase = None \<or> only_testcase = Some (tc_id tc))
                 then r0\<lparr>sr_evaluations := sr_evaluations r0 @ [dummy_evaluation tc]\<rparr> else r0)
       in sthen (upd_db (put_sr r1))
         (if op_type operation = EVALUATION then
            sbind (sget es_db) (\<lambda>d1.
              let older = rival_results d1 s (<); newer = rival_results d1 s (>) in
              sthen (if newer \<noteq> [] then upd_db (put_sr (sr_set_discarded r1)) else sret ())
                (sforeach older (\<lambda>r. if \<not> sr_discarded r then upd_db (put_sr (sr_set_discarded r)) else sret ())))
          else sret ())))"

definition prepare_pvp_evaluation :: "es_operation \<Rightarrow> ('g es_state, unit) stm" where
  "prepare_pvp_evaluation operation =
     sbind (sget es_db) (\<lambda>d.
       if op_type operation \<notin> {EVALUATION, MATCH} then sret ()
       else
         sbind (or_attribute_error (get_from_id ds_id (db_datasets d) (op_dataset_id operation))) (\<lambda>ds.
           if ds_task_type ds \<noteq> ''PvP'' then sret ()
           else
             sbind (slift (dataset_testcase ds (op_testcase_codename operation))) (\<lambda>tc.
               if op_type operation = MATCH then
                 sbind (or_attribute_error (get_from_id match_id (db_matches d) (op_object_id operation))) (\<lambda>m.
                 sbind (or_attribute_error (get_from_id sub_id (db_submissions d) (match_submission1_id m))) (\<lambda>s1.
                 sbind (or_attribute_error (get_from_id sub_id (db_submissions d) (match_submission2_id m))) (\<lambda>s2.
                   sforeach [s1, s2] (prepare_one operation ds tc (match_testcase_id m)))))
               else
                 sbind (or_attribute_error (get_from_id sub_id (db_submissions d) (op_object_id operation))) (\<lambda>s.
                   sforeach [s] (prepare_one operation ds tc None)))))"

text \<open>\<open>submission.dataset.task_type\<close>: the type of the active dataset of the task.\<close>

definition active_task_type :: "db \<Rightarrow> submission \<Rightarrow> string res" where
  "active_task_type d s =
     (case get_from_id task_id (db_tasks d) (sub_task_id s) of
        None \<Rightarrow> Inl AttributeError
      | Some t \<Rightarrow> (case task_active_dataset_id t of
          None \<Rightarrow> Inl AttributeError
        | Some a \<Rightarrow> (case get_from_id ds_id (db_datasets d) a of
            None \<Rightarrow> Inl AttributeError | Some ds \<Rightarrow> Inr (ds_task_type ds))))"

definition enqueue_or_prepare :: "submission \<Rightarrow> es_entry \<Rightarrow> nat \<Rightarrow> ('g es_state, nat) stm" where
  "enqueue_or_prepare s = (\<lambda>(operation, priority, timestamp) n.
     sbind (sget es_db) (\<lambda>d.
     sbind (slift (active_task_type d s)) (\<lambda>ty.
     sbind (if ty \<noteq> ''PvP'' \<or> op_type operation = COMPILATION then es_enqueue operation priority timestamp
            else sret False) (\<lambda>b.
       if b then sret (n + 1) else sthen (prepare_pvp_evaluation operation) (sret n)))))"

definition find_task :: "int \<Rightarrow> ('g es_state, task) stm" where
  "find_task i = sbind (sget es_db) (\<lambda>d. or_attribute_error (get_from_id task_id (db_tasks d) i))"

fun submission_enqueue_operations :: "nat \<Rightarrow> submission \<Rightarrow> ('g es_state, nat) stm" where
  "submission_enqueue_operations 0 s = sraise RuntimeError"
| "submission_enqueue_operations (Suc fuel) s =
     sbind (find_task (sub_task_id s)) (\<lambda>t.
     sbind (sget es_db) (\<lambda>d0.
       sfold (get_datasets_to_judge d0 t) (\<lambda>ds n.
         sbind (sget es_db) (\<lambda>d.
         sbind (slift (sub_get_result d s ds)) (\<lambda>r.
           let ops = submission_get_operations d r s ds in
           sbind (sfold ops (enqueue_or_prepare s) n) (\<lambda>n'.
             case r of
               None \<Rightarrow> sret n'
             | Some r \<Rightarrow>
                 if ops = [] \<and> submission_to_evaluate (Some r) then
                   sthen (upd_db (put_sr (sr_set_evaluation_outcome r)))
                  (sthen (send (SS_new_evaluation (sr_submission_id r) (sr_dataset_id r)))
                  (sthen (submission_enqueue_operations fuel s)
                         (sret n')))
                 else sret n')))) 0))"

text \<open>\<open>evaluation_ended\<close>; in \<open>submission_enqueue_operations\<close> it is unfolded, for a result that has just been
  marked as evaluated.\<close>

definition find_submission :: "int \<Rightarrow> ('g es_state, submission) stm" where
  "find_submission i = sbind (sget es_db) (\<lambda>d. or_attribute_error (get_from_id sub_id (db_submissions d) i))"

definition evaluation_ended :: "nat \<Rightarrow> submission_result \<Rightarrow> ('g es_state, unit) stm" where
  "evaluation_ended fuel r =
     sbind (find_submission (sr_submission_id r)) (\<lambda>s.
     sthen (if sr_evaluated r then send (SS_new_evaluation (sr_submission_id r) (sr_dataset_id r)) else sret ())
    (sthen (submission_enqueue_operations fuel s) (sret ())))"

definition compilation_ended :: "nat \<Rightarrow> submission_result \<Rightarrow> ('g es_state, unit) stm" where
  "compilation_ended fuel r =
     sbind (find_submission (sr_submission_id r)) (\<lambda>s.
     sthen (if sr_compilation_succeeded r then sret ()
            else if sr_compilation_failed r then send (SS_new_evaluation (sr_submission_id r) (sr_dataset_id r))
            else sret ())
    (sthen (submission_enqueue_operations fuel s) (sret ())))"

fun match_enqueue_operations :: "nat \<Rightarrow> match \<Rightarrow> ('g es_state, nat) stm" where
  "match_enqueue_operations 0 m = sraise RuntimeError"
| "match_enqueue_operations (Suc fuel) m =
     sbind (find_task (match_task_id m)) (\<lambda>t.
     sbind (sget es_db) (\<lambda>d0.
       sfold (get_datasets_to_judge d0 t) (\<lambda>ds n.
         sbind (sget es_db) (\<lambda>d.
         sbind (slift (match_get_result d m ds)) (\<lambda>r.
         sbind (slift (match_get_operations d r m ds)) (\<lambda>ops.
           sbind (sfold ops (\<lambda>(operation, priority, timestamp) n.
             sbind (es_enqueue operation priority timestamp) (\<lambda>b.
               if b then sthen (prepare_pvp_evaluation operation) (sret (n + 1)) else sret n)) n) (\<lambda>n'.
             case r of
               None \<Rightarrow> sret n'
             | Some r \<Rightarrow>
                 if ops = [] \<and> match_to_evaluate (Some r) then
                   sthen (upd_db (put_mr (mr_set_evaluation_outcome r)))
                  (sthen (send (PvP_match_ended (match_id m)))
                  (sthen (match_enqueue_operations fuel m)
                         (sret n')))
                 else sret n'))))) 0))"

definition match_ended :: "nat \<Rightarrow> match_result \<Rightarrow> ('g es_state, unit) stm" where
  "match_ended fuel r =
     sbind (sget es_db) (\<lambda>d.
     sbind (or_attribute_error (get_from_id match_id (db_matches d) (mr_match_id r))) (\<lambda>m.
     sthen (if mr_evaluated r then send (PvP_match_ended (match_id m)) else sret ())
    (sthen (match_enqueue_operations fuel m) (sret ()))))"

definition user_test_enqueue_operations :: "user_test \<Rightarrow> ('g es_state, nat) stm" where
  "user_test_enqueue_operations u =
     sbind (find_task (ut_task_id u)) (\<lambda>t.
     sbind (sget es_db) (\<lambda>d0.
       sfold (get_datasets_to_judge d0 t) (\<lambda>ds n.
         sbind (sget es_db) (\<lambda>d.
         sbind (slift (user_test_get_operations d u ds)) (\<lambda>ops.
           sfold ops (\<lambda>(operation, priority, timestamp) n.
             sbind (es_enqueue operation priority timestamp) (\<lambda>b.
               sret (if b then n + 1 else n))) n))) 0))"

text \<open>The two handlers for user tests only log before they enqueue the next steps.\<close>

definition user_test_ended :: "user_test_result \<Rightarrow> ('g es_state, unit) stm" where
  "user_test_ended r =
     sbind (sget es_db) (\<lambda>d.
     sbind (or_attribute_error (get_from_id ut_id (db_user_tests d) (ur_user_test_id r))) (\<lambda>u.
     sthen (user_test_enqueue_operations u) (sret ())))"

section \<open>Sweeping\<close>

definition missing_operations :: "('g es_state, nat) stm" where
  "missing_operations =
     sbind (sget es_db) (\<lambda>d.
     sbind (sget es_contest_id) (\<lambda>c.
     sbind (sfold (get_submissions_operations d c) (\<lambda>(operation, priority, timestamp) n.
              sbind (find_submission (op_object_id operation)) (\<lambda>s.
                enqueue_or_prepare s (operation, priority, timestamp) n)) 0) (\<lambda>n1.
     sbind (sget es_db) (\<lambda>d1.
     sbind (sfold (get_user_tests_operations d1 c) (\<lambda>(operation, priority, timestamp) n.
              sbind (es_enqueue operation priority timestamp) (\<lambda>b.
                sret (if b then n + 1 else n))) n1) (\<lambda>n2.
     sbind (sget es_db) (\<lambda>d2.
       sfold (get_match_operations d2 c) (\<lambda>(operation, priority, timestamp) n.
              sbind (es_enqueue operation priority timestamp) (\<lambda>b.
                if b then sthen (prepare_pvp_evaluation operation) (sret (n + 1)) else sret n)) n2))))))"

section \<open>Workers\<close>

text \<open>\<open>priority, timestamp = operation.side_data\<close>, then \<open>enqueue\<close>.\<close>

definition requeue :: "es_operation \<Rightarrow> ('g es_state, unit) stm" where
  "requeue operation =
     sbind (sget (\<lambda>s. map_of (ee_side_data (es_exec s)) operation)) (\<lambda>sd.
       case sd of
         None \<Rightarrow> sraise AttributeError
       | Some (priority, timestamp) \<Rightarrow> sthen (es_enqueue operation priority timestamp) (sret ()))"

definition workers_status ::
  "'g es_state \<Rightarrow> (int \<times> ((string, jvalue) dict) worker_status) list res"
where
  "workers_status s = wp_get_status es_to_dict (ee_pool (es_exec s))"

definition check_workers_timeout :: "datetime \<Rightarrow> ('g es_state, bool) stm" where
  "check_workers_timeout now =
     sbind (on_exec (on_pool (check_timeouts now))) (\<lambda>lost. sthen (sforeach lost requeue) (sret True))"

definition check_workers_connection :: "('g es_state, bool) stm" where
  "check_workers_connection =
     sbind (on_exec (on_pool check_connections)) (\<lambda>lost. sthen (sforeach lost requeue) (sret True))"

definition es_disable_worker :: "int \<Rightarrow> ('g es_state, bool) stm" where
  "es_disable_worker shard =
     sbind (stry (sbind (on_exec (on_pool (disable_worker shard))) (\<lambda>lost. sret (Some lost)))
                 (\<lambda>e. e = ValueError) (\<lambda>_. sret None)) (\<lambda>r.
       case r of
         None \<Rightarrow> sret False
       | Some lost \<Rightarrow> sthen (sforeach lost requeue) (sret True))"

definition es_enable_worker :: "int \<Rightarrow> ('g es_state, bool) stm" where
  "es_enable_worker shard =
     stry (sthen (on_exec (on_pool (enable_worker shard))) (sret True)) (\<lambda>e. e = ValueError) (\<lambda>_. sret False)"

text \<open>The entries of \<open>queue_status\<close>, sorted by priority and timestamp (Python's sort is stable, and
  so is \<open>sort_key\<close>).\<close>

definition es_queue_status :: "'g es_state \<Rightarrow> cumulative_entry list" where
  "es_queue_status s =
     sort_key (\<lambda>e. (ce_priority e, ce_timestamp e)) (map snd (ee_queue_status_cumulative (es_exec s)))"

section \<open>Results from the workers\<close>

text \<open>\<open>job_group\<close> is the value of \<open>JobGroup.import_from_dict(data)\<close>, or its exception; \<open>now\<close> is the
  monotonic clock that the cache reads. The whole body runs without yielding to other
  greenlets.\<close>

definition ignores :: "es_operation release_result \<Rightarrow> es_operation \<Rightarrow> bool" where
  "ignores r operation \<longleftrightarrow> (case r of Ignore_All _ \<Rightarrow> False | Ignore_Operations os \<Rightarrow> operation \<in> set os)"

definition action_finished :: "real \<Rightarrow> job list res \<Rightarrow> int \<Rightarrow> bool \<Rightarrow> ('g es_state, unit) stm" where
  "action_finished now job_group shard error =
     sbind (on_exec (on_pool (release_worker shard))) (\<lambda>to_ignore.
       if to_ignore = Ignore_All True then sret ()
       else if error then sret ()
       else case job_group of
         Inl _ \<Rightarrow> sret ()
       | Inr jobs \<Rightarrow>
           sforeach jobs (\<lambda>j.
             if ignores to_ignore (job_operation j) then sret ()
             else supd (\<lambda>s. s\<lparr>es_result_cache :=
                    fl_add now (job_operation j) \<lparr>res_job = j, res_job_success = job_success j\<rparr>
                      (es_result_cache s)\<rparr>)))"

section \<open>Writing results\<close>


text \<open>A nested transaction: the tables are restored when the body raises.\<close>

definition begin_nested :: "('g es_state, 'a) stm \<Rightarrow> ('g es_state, 'a) stm" where
  "begin_nested m =
     (\<lambda>s. case m s of (s', Inl e) \<Rightarrow> (s'\<lparr>es_db := es_db s\<rparr>, Inl e) | (s', Inr x) \<Rightarrow> (s', Inr x))"

definition find_sr :: "int \<Rightarrow> int \<Rightarrow> ('g es_state, submission_result) stm" where
  "find_sr i j = sbind (sget es_db) (\<lambda>d. or_attribute_error (get_from_id sr_key (db_submission_results d) (i, j)))"

definition find_mr :: "int \<Rightarrow> int \<Rightarrow> ('g es_state, match_result) stm" where
  "find_mr i j = sbind (sget es_db) (\<lambda>d. or_attribute_error (get_from_id mr_key (db_match_results d) (i, j)))"

definition find_ur :: "int \<Rightarrow> int \<Rightarrow> ('g es_state, user_test_result) stm" where
  "find_ur i j = sbind (sget es_db) (\<lambda>d. or_attribute_error (get_from_id ur_key (db_user_test_results d) (i, j)))"

definition has_tombstone :: "job \<Rightarrow> bool" where
  "has_tombstone j \<longleftrightarrow> (case job_plus j of None \<Rightarrow> False | Some p \<Rightarrow> pl_tombstone p)"

text \<open>The result object is the row with the ids of the operation.\<close>

definition write_results_one_row ::
  "nat \<Rightarrow> dataset \<Rightarrow> es_operation \<Rightarrow> es_result \<Rightarrow> ('g es_state, unit) stm"
where
  "write_results_one_row fuel ds operation result =
     (let i = op_object_id operation; k = op_dataset_id operation; j = res_job result in
      if op_type operation = COMPILATION then
        sbind (find_sr i k) (\<lambda>r.
          if res_job_success result
          then sbind (slift (to_submission ds j r)) (\<lambda>r'. upd_db (put_sr r'))
          else upd_db (put_sr (r\<lparr>sr_compilation_tries := sr_compilation_tries r + 1\<rparr>)))
      else if op_type operation = EVALUATION then
        sbind (find_sr i k) (\<lambda>r.
          if res_job_success result
          then sbind (slift (to_submission ds j r)) (\<lambda>r'. upd_db (put_sr r'))
          else if has_tombstone j then
            (if TOMBSTONE \<in> set (map snd (sr_executables r))
             then sthen (upd_db (put_sr (sr_invalidate_compilation r)))
                 (sbind (find_submission i) (\<lambda>s.
                  sthen (submission_enqueue_operations fuel s) (sret ())))
             else sret ())
          else upd_db (put_sr (r\<lparr>sr_evaluation_tries := sr_evaluation_tries r + 1\<rparr>)))
      else if op_type operation = MATCH then
        sbind (find_mr i k) (\<lambda>r.
          if res_job_success result
          then sbind (slift (to_match ds j r)) (\<lambda>r'. upd_db (put_mr r'))
          else if has_tombstone j then sret ()
          else upd_db (put_mr (r\<lparr>mr_evaluation_tries := mr_evaluation_tries r + 1\<rparr>)))
      else if op_type operation = USER_TEST_COMPILATION then
        sbind (find_ur i k) (\<lambda>r.
          if res_job_success result
          then sbind (slift (to_user_test j r)) (\<lambda>r'. upd_db (put_ur r'))
          else upd_db (put_ur (r\<lparr>ur_compilation_tries := ur_compilation_tries r + 1\<rparr>)))
      else if op_type operation = USER_TEST_EVALUATION then
        sbind (find_ur i k) (\<lambda>r.
          if res_job_success result
          then sbind (slift (to_user_test j r)) (\<lambda>r'. upd_db (put_ur r'))
          else upd_db (put_ur (r\<lparr>ur_evaluation_tries := ur_evaluation_tries r + 1\<rparr>)))
      else sret ())"

definition write_results_one_object_and_type ::
  "nat \<Rightarrow> dataset \<Rightarrow> (es_operation \<times> es_result) list \<Rightarrow> ('g es_state, unit) stm"
where
  "write_results_one_object_and_type fuel ds operation_results =
     sforeach operation_results (\<lambda>(operation, result).
       stry (begin_nested (write_results_one_row fuel ds operation result)) (\<lambda>_. True) (\<lambda>_. sret ()))"

type_synonym result_group = "string \<times> int \<times> int"

definition group_results ::
  "(es_operation \<times> es_result) list \<Rightarrow> (result_group, (es_operation \<times> es_result) list) dict"
where
  "group_results items =
     fold (\<lambda>(operation, result) g.
       let t = short_key operation in
       dict_set g t ((case map_of g t of None \<Rightarrow> [] | Some l \<Rightarrow> l) @ [(operation, result)])) items []"

text \<open>The first loop of \<open>write_results\<close>, for one group. An object that is no longer in the database
  is skipped.\<close>

definition write_group :: "nat \<Rightarrow> result_group \<Rightarrow> (es_operation \<times> es_result) list \<Rightarrow> ('g es_state, unit) stm" where
  "write_group fuel = (\<lambda>(ty, object_id, dataset_id) operation_results.
     sbind (sget es_db) (\<lambda>d.
       case get_from_id ds_id (db_datasets d) dataset_id of
         None \<Rightarrow> sret ()
       | Some ds \<Rightarrow>
           if ty = COMPILATION \<or> ty = EVALUATION then
             (case get_from_id sub_id (db_submissions d) object_id of
                None \<Rightarrow> sret ()
              | Some s \<Rightarrow> sbind (slift (sub_get_result_or_create d s ds)) (\<lambda>r.
                  sthen (upd_db (put_sr r)) (write_results_one_object_and_type fuel ds operation_results)))
           else if ty = MATCH then
             (case get_from_id match_id (db_matches d) object_id of
                None \<Rightarrow> sret ()
              | Some m \<Rightarrow> sbind (slift (match_get_result_or_create d m ds)) (\<lambda>r.
                  sthen (upd_db (put_mr r)) (write_results_one_object_and_type fuel ds operation_results)))
           else
             (case get_from_id ut_id (db_user_tests d) object_id of
                None \<Rightarrow> sret ()
              | Some u \<Rightarrow> sbind (slift (ut_get_result_or_create d u ds)) (\<lambda>r.
                  sthen (upd_db (put_ur r)) (write_results_one_object_and_type fuel ds operation_results)))))"

definition num_testcases :: "db \<Rightarrow> int \<Rightarrow> nat" where
  "num_testcases d dataset_id =
     (case get_from_id ds_id (db_datasets d) dataset_id of None \<Rightarrow> 0 | Some ds \<Rightarrow> length (ds_testcases ds))"

definition num_evaluations :: "db \<Rightarrow> int \<Rightarrow> int \<Rightarrow> nat" where
  "num_evaluations d object_id dataset_id =
     (case get_from_id sr_key (db_submission_results d) (object_id, dataset_id) of
        None \<Rightarrow> 0 | Some r \<Rightarrow> length (sr_evaluations r))"

definition num_matchings :: "db \<Rightarrow> int \<Rightarrow> int \<Rightarrow> nat" where
  "num_matchings d object_id dataset_id =
     (case get_from_id mr_key (db_match_results d) (object_id, dataset_id) of
        None \<Rightarrow> 0 | Some r \<Rightarrow> length (mr_matchings r))"

text \<open>The second loop: all testcases evaluated.\<close>

definition set_outcome :: "result_group \<Rightarrow> ('g es_state, unit) stm" where
  "set_outcome = (\<lambda>(ty, object_id, dataset_id).
     sbind (sget es_db) (\<lambda>d.
       if ty = EVALUATION then
         (if num_evaluations d object_id dataset_id = num_testcases d dataset_id
          then sbind (find_sr object_id dataset_id) (\<lambda>r. upd_db (put_sr (sr_set_evaluation_outcome r)))
          else sret ())
       else if ty = MATCH then
         sbind (find_mr object_id dataset_id) (\<lambda>r.
         sbind (or_attribute_error (get_from_id match_id (db_matches d) object_id)) (\<lambda>m.
           let need = (if \<not> single_testcase m then num_testcases d dataset_id else 1) in
           if num_matchings d object_id dataset_id = need
           then upd_db (put_mr (mr_set_evaluation_outcome r))
           else sret ()))
       else sret ()))"

text \<open>The third loop: what follows for each object.\<close>

definition end_group :: "nat \<Rightarrow> result_group \<Rightarrow> ('g es_state, unit) stm" where
  "end_group fuel = (\<lambda>(ty, object_id, dataset_id).
     if ty = COMPILATION then sbind (find_sr object_id dataset_id) (compilation_ended fuel)
     else if ty = EVALUATION then
       sbind (find_sr object_id dataset_id) (\<lambda>r. if sr_evaluated r then evaluation_ended fuel r else sret ())
     else if ty = MATCH then
       sbind (find_mr object_id dataset_id) (\<lambda>r. if mr_evaluated r then match_ended fuel r else sret ())
     else if ty = USER_TEST_COMPILATION \<or> ty = USER_TEST_EVALUATION then
       sbind (find_ur object_id dataset_id) user_test_ended
     else sret ())"

definition write_results :: "nat \<Rightarrow> (es_operation \<times> es_result) list \<Rightarrow> ('g es_state, unit) stm" where
  "write_results fuel items =
     (let groups = group_results items in
      sthen (sforeach groups (\<lambda>(key, operation_results). write_group fuel key operation_results))
     (sthen (sforeach (map fst groups) set_outcome)
            (sforeach (map fst groups) (end_group fuel))))"

definition flush_results :: "nat \<Rightarrow> ('g es_state, unit) stm" where
  "flush_results fuel =
     fl_flush es_result_cache (\<lambda>f s. s\<lparr>es_result_cache := f\<rparr>) (write_results fuel)"

section \<open>Remote procedures\<close>

definition new_submission :: "nat \<Rightarrow> int \<Rightarrow> ('g es_state, unit) stm" where
  "new_submission fuel i =
     sbind (sget es_db) (\<lambda>d.
       case get_from_id sub_id (db_submissions d) i of
         None \<Rightarrow> sret ()
       | Some s \<Rightarrow> sthen (submission_enqueue_operations fuel s) (sret ()))"

definition new_match :: "nat \<Rightarrow> int \<Rightarrow> ('g es_state, unit) stm" where
  "new_match fuel i =
     sbind (sget es_db) (\<lambda>d.
       case get_from_id match_id (db_matches d) i of
         None \<Rightarrow> sret ()
       | Some m \<Rightarrow> sthen (match_enqueue_operations fuel m) (sret ()))"

definition new_user_test :: "int \<Rightarrow> ('g es_state, unit) stm" where
  "new_user_test i =
     sbind (sget es_db) (\<lambda>d.
       case get_from_id ut_id (db_user_tests d) i of
         None \<Rightarrow> sret ()
       | Some u \<Rightarrow> sthen (user_test_enqueue_operations u) (sret ()))"

text \<open>Taking an operation out of the queue and out of the pool, as \<open>invalidate_submission\<close> does.\<close>

definition forget_operation :: "es_operation \<Rightarrow> ('g es_state, unit) stm" where
  "forget_operation operation =
     sthen (stry (on_exec (ee_dequeue operation)) (\<lambda>e. e = KeyError) (\<lambda>_. sret ()))
           (stry (on_exec (on_pool (ignore_operation operation))) is_LookupError (\<lambda>_. sret ()))"

definition invalidate_submission ::
  "nat \<Rightarrow> int option \<Rightarrow> int option \<Rightarrow> int option \<Rightarrow> int option \<Rightarrow> int option \<Rightarrow> string \<Rightarrow> ('g es_state, unit) stm"
where
  "invalidate_submission fuel contest_id0 submission_id dataset_id participation_id task_id0 level =
     (if level \<noteq> ''compilation'' \<and> level \<noteq> ''evaluation'' then sraise ValueError
      else
        sbind (sget es_contest_id) (\<lambda>own.
        sbind (sget es_db) (\<lambda>d.
        let contest_id = (case contest_id0 of None \<Rightarrow> own | Some c \<Rightarrow> Some c) in
        sbind (if dataset_id \<noteq> None \<and> task_id0 = None \<and> submission_id = None
               then sbind (or_attribute_error (get_from_id ds_id (db_datasets d) (the dataset_id)))
                      (\<lambda>ds. sret (Some (ds_task_id ds)))
               else sret task_id0) (\<lambda>tid.
        sbind (slift (get_submissions d
                 (if participation_id = None \<and> tid = None \<and> submission_id = None then contest_id else None)
                 participation_id tid submission_id)) (\<lambda>submissions.
        sbind (slift (get_relevant_operations d level submissions dataset_id)) (\<lambda>operations.
        sthen (sforeach operations forget_operation)
       (sbind (slift (get_submission_results d
                 (if participation_id = None \<and> tid = None \<and> submission_id = None \<and> dataset_id = None
                  then contest_id else None)
                 participation_id (if dataset_id = None then tid else None) submission_id dataset_id)) (\<lambda>results.
        sthen (sforeach results (\<lambda>r. upd_db (put_sr
                 (if level = ''compilation'' then sr_invalidate_compilation r else sr_invalidate_evaluation r))))
              (sforeach submissions (\<lambda>s. sthen (submission_enqueue_operations fuel s) (sret ())))))))))))"

section \<open>An operation is in one place\<close>

definition es_queued :: "'g es_state \<Rightarrow> es_operation set" where
  "es_queued s = dom (ee_content (es_exec s))"

definition es_extracted :: "'g es_state \<Rightarrow> es_operation set" where
  "es_extracted s = set (ee_currently_executing (es_exec s))"

definition es_assigned :: "'g es_state \<Rightarrow> es_operation set" where
  "es_assigned s = {op. wp_contains (ee_pool (es_exec s)) op}"

definition es_cached :: "'g es_state \<Rightarrow> es_operation set" where
  "es_cached s = {op. fl_contains (es_result_cache s) op}"

lemmas es_places = es_queued_def es_extracted_def es_assigned_def es_cached_def

definition es_inv :: "'g es_state \<Rightarrow> bool" where
  "es_inv s \<longleftrightarrow>
     ee_queue_inv (es_exec s) \<and> (\<exists>m. represents (ee_pool (es_exec s)) m) \<and>
     distinct (ee_currently_executing (es_exec s)) \<and>
     es_queued s \<inter> es_extracted s = {} \<and> es_queued s \<inter> es_assigned s = {} \<and>
     es_queued s \<inter> es_cached s = {} \<and> es_extracted s \<inter> es_assigned s = {} \<and>
     es_extracted s \<inter> es_cached s = {} \<and> es_assigned s \<inter> es_cached s = {} \<and>
     (\<forall>op\<in>es_extracted s \<union> es_assigned s. dict_has (ee_side_data (es_exec s)) op)"

lemma ee_contains_places:
  assumes "es_inv s"
  shows "ee_contains (es_exec s) op \<longleftrightarrow> op \<in> es_queued s \<union> es_extracted s \<union> es_assigned s"
proof -
  have "ex_invar (ee_executor (es_exec s))" using assms by (simp add: es_inv_def ee_queue_inv_def)
  from executor_queue.contains_iff[OF this] show ?thesis by (simp add: ee_contains_def es_places)
qed

lemma es_inv_db [simp]: "es_inv (s\<lparr>es_db := d\<rparr>) = es_inv s"
  and es_inv_sent [simp]: "es_inv (s\<lparr>es_sent := m\<rparr>) = es_inv s"
  by (simp_all add: es_inv_def es_places)

lemma preserves_upd_db [preserves_rules]: "preserves es_inv (upd_db f)"
  and preserves_send [preserves_rules]: "preserves es_inv (send m)"
  by (simp_all add: preserves_def upd_db_def send_def stm_simps)

lemma preserves_or_attribute_error [preserves_rules]: "preserves I (or_attribute_error x)"
  unfolding or_attribute_error_def by (intro preserves_rules)

lemma es_enqueue_cases:
  assumes "es_inv s"
  shows "(op \<in> es_queued s \<union> es_extracted s \<union> es_assigned s \<union> es_cached s \<and> es_enqueue op p t s = (s, Inr False)) \<or>
    (op \<notin> es_queued s \<union> es_extracted s \<union> es_assigned s \<union> es_cached s \<and>
      (\<exists>ex cum. es_enqueue op p t s =
        (s\<lparr>es_exec := (es_exec s)\<lparr>ee_executor := ex, ee_queue_status_cumulative := cum\<rparr>\<rparr>, Inr True) \<and>
        ex_invar ex \<and> cum_ok cum (ex_content ex) \<and> dom (ex_content ex) = insert op (es_queued s)))"
proof (cases "op \<in> es_queued s \<union> es_extracted s \<union> es_assigned s \<union> es_cached s")
  case True
  then show ?thesis
    using ee_contains_places[OF assms, of op] by (auto simp: es_enqueue_def es_cached_def)
next
  case False
  then have "op \<notin> dom (ee_content (es_exec s))" by (simp add: es_queued_def)
  then obtain ex cum where "ee_enqueue t op p t (es_exec s) =
      ((es_exec s)\<lparr>ee_executor := ex, ee_queue_status_cumulative := cum\<rparr>, Inr True)"
    "ex_invar ex" "cum_ok cum (ex_content ex)"
    "ex_content ex = (ee_content (es_exec s))(op \<mapsto> (p, t, pq_next_index (ex_operation_queue (ee_executor (es_exec s)))))"
    using ee_enqueue_absent[of "es_exec s" op t p t] assms unfolding es_inv_def by blast
  moreover have "\<not> ee_contains (es_exec s) op" "\<not> fl_contains (es_result_cache s) op"
    using False ee_contains_places[OF assms, of op] by (auto simp: es_cached_def)
  ultimately show ?thesis
    using False by (intro disjI2 conjI exI[of _ ex] exI[of _ cum]) (simp_all add: es_enqueue_def on_exec_def es_queued_def)
qed

text \<open>Shrinking the sets and moving an operation that is in none of them into the queue keeps the
  invariant.\<close>

lemma preserves_es_enqueue [preserves_rules]: "preserves es_inv (es_enqueue op p t)"
  unfolding preserves_def
proof (intro allI impI)
  fix s :: "'g es_state"
  assume s: "es_inv s"
  from es_enqueue_cases[OF s, of op p t] show "es_inv (fst (es_enqueue op p t s))"
  proof (elim disjE conjE exE)
    fix ex cum
    assume new: "op \<notin> es_queued s \<union> es_extracted s \<union> es_assigned s \<union> es_cached s"
      and e: "es_enqueue op p t s =
        (s\<lparr>es_exec := (es_exec s)\<lparr>ee_executor := ex, ee_queue_status_cumulative := cum\<rparr>\<rparr>, Inr True)"
      and ex: "ex_invar ex" "cum_ok cum (ex_content ex)" "dom (ex_content ex) = insert op (es_queued s)"
    let ?s = "s\<lparr>es_exec := (es_exec s)\<lparr>ee_executor := ex, ee_queue_status_cumulative := cum\<rparr>\<rparr>"
    have "es_queued ?s = insert op (es_queued s)" "es_extracted ?s = es_extracted s"
      "es_assigned ?s = es_assigned s" "es_cached ?s = es_cached s"
      using ex(3) by (simp_all add: es_places)
    then have "es_inv ?s"
      using s new ex unfolding es_inv_def by (simp add: ee_queue_inv_def)
    then show ?thesis using e by simp
  qed (use s in simp)
qed

lemma preserves_find [preserves_rules]:
  "preserves I (find_task i)" "preserves I (find_submission i)"
  "preserves I (find_sr i j)" "preserves I (find_mr i j)" "preserves I (find_ur i j)"
  unfolding find_task_def find_submission_def find_sr_def find_mr_def find_ur_def
  by (intro preserves_rules)+

lemma preserves_prepare_one [preserves_rules]: "preserves es_inv (prepare_one op ds tc o' s)"
  unfolding prepare_one_def by (intro preserves_rules)

lemma preserves_prepare [preserves_rules]: "preserves es_inv (prepare_pvp_evaluation op)"
  unfolding prepare_pvp_evaluation_def by (intro preserves_rules)

lemma preserves_enqueue_or_prepare [preserves_rules]: "preserves es_inv (enqueue_or_prepare s x n)"
  unfolding enqueue_or_prepare_def by (intro preserves_rules)

lemma preserves_submission_enqueue [preserves_rules]:
  "preserves es_inv (submission_enqueue_operations fuel s)"
proof (induction fuel)
  case (Suc fuel)
  show ?case
    unfolding submission_enqueue_operations.simps by (intro preserves_rules Suc)
qed (simp add: preserves_rules)

lemma preserves_match_enqueue [preserves_rules]: "preserves es_inv (match_enqueue_operations fuel m)"
proof (induction fuel)
  case (Suc fuel)
  show ?case
    unfolding match_enqueue_operations.simps by (intro preserves_rules Suc)
qed (simp add: preserves_rules)

lemma preserves_user_test_enqueue [preserves_rules]: "preserves es_inv (user_test_enqueue_operations u)"
  unfolding user_test_enqueue_operations_def by (intro preserves_rules)

lemma preserves_ended [preserves_rules]:
  "preserves es_inv (evaluation_ended fuel r)" "preserves es_inv (compilation_ended fuel r)"
  "preserves es_inv (match_ended fuel m)" "preserves es_inv (user_test_ended u)"
  unfolding evaluation_ended_def compilation_ended_def match_ended_def user_test_ended_def
  by (intro preserves_rules)+

lemma preserves_missing_operations [preserves_rules]: "preserves es_inv missing_operations"
  unfolding missing_operations_def by (intro preserves_rules)

lemma preserves_requeue [preserves_rules]: "preserves es_inv (requeue op)"
  unfolding requeue_def by (intro preserves_rules)

lemma preserves_begin_nested [preserves_rules]: "preserves es_inv m \<Longrightarrow> preserves es_inv (begin_nested m)"
  unfolding preserves_def begin_nested_def by (auto split: prod.splits sum.splits)

lemma preserves_write_results [preserves_rules]: "preserves es_inv (write_results fuel items)"
  unfolding write_results_def write_group_def set_outcome_def end_group_def
    write_results_one_object_and_type_def write_results_one_row_def
  by (intro preserves_rules)

lemma preserves_new [preserves_rules]:
  "preserves es_inv (new_submission fuel i)" "preserves es_inv (new_match fuel i)" "preserves es_inv (new_user_test i)"
  unfolding new_submission_def new_match_def new_user_test_def by (intro preserves_rules)+

subsection \<open>Calls that change the pool or the cache\<close>

lemma es_inv_pool:
  assumes s: "es_inv s" and w': "represents w' m'" "\<forall>op. wp_contains w' op \<longrightarrow> wp_contains (ee_pool (es_exec s)) op"
  shows "es_inv (s\<lparr>es_exec := (es_exec s)\<lparr>ee_pool := w'\<rparr>\<rparr>)"
proof -
  let ?s = "s\<lparr>es_exec := (es_exec s)\<lparr>ee_pool := w'\<rparr>\<rparr>"
  have "es_queued ?s = es_queued s" "es_extracted ?s = es_extracted s"
    "es_assigned ?s \<subseteq> es_assigned s" "es_cached ?s = es_cached s"
    using w'(2) by (auto simp: es_places)
  then show ?thesis
    using s w'(1) unfolding es_inv_def by (auto simp: ee_queue_inv_def)
qed

lemma preserves_on_pool:
  assumes "\<And>w m. represents w m \<Longrightarrow> \<exists>m'. represents (fst (f w)) m' \<and> smaller m m'"
  shows "preserves es_inv (on_exec (on_pool f))"
  unfolding preserves_def
proof (intro allI impI)
  fix s :: "'a es_state"
  assume s: "es_inv s"
  then obtain m where m: "represents (ee_pool (es_exec s)) m" by (auto simp: es_inv_def)
  from assms[OF m] obtain m' where m': "represents (fst (f (ee_pool (es_exec s)))) m'" "smaller m m'" by blast
  have "fst (on_exec (on_pool f) s) = s\<lparr>es_exec := (es_exec s)\<lparr>ee_pool := fst (f (ee_pool (es_exec s)))\<rparr>\<rparr>"
    by (simp add: on_exec_def on_pool_def split: prod.split)
  then show "es_inv (fst (on_exec (on_pool f) s))"
    using es_inv_pool[OF s m'(1)] smaller_contains[OF m m'] by simp
qed

lemma preserves_pool_calls [preserves_rules]:
  "preserves es_inv (on_exec (on_pool (release_worker sh)))"
  "preserves es_inv (on_exec (on_pool (disable_worker sh)))"
  "preserves es_inv (on_exec (on_pool (enable_worker sh)))"
  "preserves es_inv (on_exec (on_pool (ignore_operation op)))"
  "preserves es_inv (on_exec (on_pool (check_timeouts now)))"
  "preserves es_inv (on_exec (on_pool check_connections))"
  by (rule preserves_on_pool, erule release_worker_keeps disable_worker_keeps enable_worker_keeps
      ignore_operation_keeps check_timeouts_keeps check_connections_keeps)+

lemma preserves_worker_calls [preserves_rules]:
  "preserves es_inv (check_workers_timeout now)" "preserves es_inv check_workers_connection"
  "preserves es_inv (es_disable_worker shard)" "preserves es_inv (es_enable_worker shard)"
  unfolding check_workers_timeout_def check_workers_connection_def es_disable_worker_def es_enable_worker_def
  by (intro preserves_rules)+

lemma preserves_dequeue [preserves_rules]: "preserves es_inv (on_exec (ee_dequeue op))"
  unfolding preserves_def
proof (intro allI impI)
  fix s :: "'a es_state"
  assume s: "es_inv s"
  then have q: "ee_queue_inv (es_exec s)" by (simp add: es_inv_def)
  show "es_inv (fst (on_exec (ee_dequeue op) s))"
  proof (cases "op \<in> dom (ee_content (es_exec s))")
    case True
    from ee_dequeue_queued[OF q True] obtain ex cum where
      d: "ee_dequeue op (es_exec s) = ((es_exec s)\<lparr>ee_executor := ex, ee_queue_status_cumulative := cum\<rparr>, Inr ())"
      "ex_invar ex" "cum_ok cum (ex_content ex)" "ex_content ex = (ee_content (es_exec s))(op := None)" by blast
    let ?s = "s\<lparr>es_exec := (es_exec s)\<lparr>ee_executor := ex, ee_queue_status_cumulative := cum\<rparr>\<rparr>"
    have "es_queued ?s \<subseteq> es_queued s" "es_extracted ?s = es_extracted s" "es_assigned ?s = es_assigned s"
      "es_cached ?s = es_cached s"
      using d(4) by (auto simp: es_places split: if_splits)
    then have "es_inv ?s"
      using s d(2,3) unfolding es_inv_def ee_queue_inv_def by (auto simp del: fun_upd_apply)
    then show ?thesis using d(1) by (simp add: on_exec_def)
  next
    case False
    let ?s = "s\<lparr>es_exec := (es_exec s)\<lparr>ee_currently_executing := remove1 op (ee_currently_executing (es_exec s))\<rparr>\<rparr>"
    have "es_queued ?s = es_queued s" "es_extracted ?s \<subseteq> es_extracted s" "es_assigned ?s = es_assigned s"
      "es_cached ?s = es_cached s"
      using set_remove1_subset[of op "ee_currently_executing (es_exec s)"] by (auto simp: es_places)
    then have "es_inv ?s"
      using s unfolding es_inv_def ee_queue_inv_def by auto
    then show ?thesis
      using ee_dequeue_not_queued[OF q False] s by (simp add: on_exec_def)
  qed
qed

lemma preserves_invalidate [preserves_rules]:
  "preserves es_inv (invalidate_submission fuel c i ds p t level)"
  unfolding invalidate_submission_def forget_operation_def by (intro preserves_rules)

lemma es_inv_cache:
  assumes "es_inv s" "\<forall>op. fl_contains f op \<longrightarrow> fl_contains (es_result_cache s) op"
  shows "es_inv (s\<lparr>es_result_cache := f\<rparr>)"
proof -
  have "es_queued (s\<lparr>es_result_cache := f\<rparr>) = es_queued s" "es_extracted (s\<lparr>es_result_cache := f\<rparr>) = es_extracted s"
    "es_assigned (s\<lparr>es_result_cache := f\<rparr>) = es_assigned s" "es_cached (s\<lparr>es_result_cache := f\<rparr>) \<subseteq> es_cached s"
    using assms(2) by (auto simp: es_places)
  then show ?thesis using assms(1) unfolding es_inv_def by auto
qed

lemma preserves_flush [preserves_rules]: "preserves es_inv (flush_results fuel)"
  unfolding preserves_def
proof (intro allI impI)
  fix s :: "'a es_state"
  assume s: "es_inv s"
  let ?s = "s\<lparr>es_result_cache := fst (flush_begin (es_result_cache s))\<rparr>"
  have s1: "es_inv ?s"
    by (rule es_inv_cache[OF s]) (auto simp: fl_contains_def flush_begin_def dict_has_def)
  let ?m = "sthen (write_results fuel (snd (flush_begin (es_result_cache s))))
    (supd (\<lambda>s. s\<lparr>es_result_cache := flush_end (es_result_cache s)\<rparr>))"
  have "preserves es_inv (supd (\<lambda>s :: 'a es_state. s\<lparr>es_result_cache := flush_end (es_result_cache s)\<rparr>))"
    unfolding preserves_def supd_run fst_conv
    by (intro allI impI, erule es_inv_cache) (simp add: fl_contains_def flush_end_def dict_has_def)
  then have "es_inv (fst (?m ?s))"
    by (intro preservesD[OF preserves_sbind, OF preserves_write_results _ s1])
  moreover have "flush_results fuel s = ?m ?s"
    unfolding flush_results_def fl_flush_def
    by (simp add: stm_simps flush_begin_def split: prod.split sum.split)
  ultimately show "es_inv (fst (flush_results fuel s))" by simp
qed

lemma action_finished_keeps:
  assumes s: "es_inv s" and sh: "map_of (wp_operations (ee_pool (es_exec s))) sh = Some (WORKER_DOING os)"
    and jobs: "\<And>js. job_group = Inr js \<Longrightarrow> job_operation ` set js \<subseteq> set os"
  shows "es_inv (fst (action_finished now job_group sh error s))"
proof -
  obtain m where m: "represents (ee_pool (es_exec s)) m" using s by (auto simp: es_inv_def)
  obtain c t ti where it: "m sh = Some (c, Doing os t ti)" using sh represents_doing[OF m] by blast
  obtain w r where w: "release_worker sh (ee_pool (es_exec s)) = (w, Inr r)" "represents w (m(sh \<mapsto> (c, Idle)))"
    using release_worker_refines[OF m it] by blast
  let ?s = "s\<lparr>es_exec := (es_exec s)\<lparr>ee_pool := w\<rparr>\<rparr>"
  have sub: "wp_contains w op \<longrightarrow> wp_contains (ee_pool (es_exec s)) op" for op
    using smaller_contains[OF m w(2) smaller_update[of m sh, OF it]] by simp
  have inv1: "es_inv ?s" by (rule es_inv_pool[OF s w(2)]) (use sub in blast)
  have own: "wp_contains (ee_pool (es_exec s)) op" "\<not> wp_contains w op" if "op \<in> set os" for op
  proof -
    show "wp_contains (ee_pool (es_exec s)) op"
      using that it unfolding represents_contains[OF m] by fastforce
    show "\<not> wp_contains w op"
    proof
      assume "wp_contains w op"
      then obtain sh' c' st' where "(m(sh \<mapsto> (c, Idle))) sh' = Some (c', st')" "op \<in> set (state_doing st')"
        unfolding represents_contains[OF w(2)] by blast
      then have "sh' \<noteq> sh" "m sh' = Some (c', st')" "op \<in> set (state_doing st')" by (auto split: if_splits)
      moreover have "op \<in> set (state_doing (Doing os t ti))" using that by simp
      ultimately show False using represents_unique[OF m it] by blast
    qed
  qed
  define I where "I s' \<longleftrightarrow> es_inv s' \<and> es_exec s' = es_exec ?s" for s'
  let ?f = "\<lambda>j. if ignores r (job_operation j) then sret () else supd (\<lambda>s. s\<lparr>es_result_cache :=
      fl_add now (job_operation j) \<lparr>res_job = j, res_job_success = job_success j\<rparr> (es_result_cache s)\<rparr>)"
  have step: "I (fst (?f j s'))" if I: "I s'" and "job_operation j \<in> set os" for j s'
  proof (cases "ignores r (job_operation j)")
    case False
    let ?s' = "s'\<lparr>es_result_cache := fl_add now (job_operation j)
        \<lparr>res_job = j, res_job_success = job_success j\<rparr> (es_result_cache s')\<rparr>"
    have "es_queued ?s' = es_queued s'" "es_extracted ?s' = es_extracted s'" "es_assigned ?s' = es_assigned s'"
      "es_cached ?s' = insert (job_operation j) (es_cached s')"
      by (auto simp: es_places fl_add_def fl_contains_def dict_simps)
    moreover have "job_operation j \<in> es_assigned s" "job_operation j \<notin> es_assigned s'"
      "es_queued s' = es_queued s" "es_extracted s' = es_extracted s"
      using own[OF that(2)] I by (simp_all add: es_places I_def)
    ultimately have "es_inv ?s'"
      using I s unfolding es_inv_def I_def by auto
    then show ?thesis using I False by (simp add: stm_simps I_def)
  qed (use I in \<open>simp add: stm_simps\<close>)
  have "es_inv (fst (sforeach js ?f ?s))" if js: "job_group = Inr js" for js
  proof -
    have "I (fst (sforeach js ?f ?s))"
    proof (rule sforeach_fst)
      show "I ?s" using inv1 by (simp add: I_def)
      show "I (fst (?f j s'))" if "j \<in> set js" "I s'" for j s'
        using step[OF that(2)] jobs[OF js] that(1) by blast
    qed
    then show ?thesis by (simp add: I_def)
  qed
  moreover have "on_exec (on_pool (release_worker sh)) s = (?s, Inr r)"
    using w(1) by (simp add: on_exec_def on_pool_def)
  ultimately show ?thesis
    using inv1 by (auto simp: action_finished_def sbind_run sret_run split: sum.split)
qed

subsection \<open>The executor\<close>

lemma execute_begin_loop:
  "sforeach entries (\<lambda>entry. supd (\<lambda>ee.
      ee\<lparr>ee_side_data := dict_set (ee_side_data ee) (qe_item entry) (qe_priority entry, qe_timestamp entry),
         ee_currently_executing := ee_currently_executing ee @ [qe_item entry]\<rparr>)) ee =
    (ee\<lparr>ee_side_data := fold (\<lambda>e d. dict_set d (qe_item e) (qe_priority e, qe_timestamp e)) entries (ee_side_data ee),
        ee_currently_executing := ee_currently_executing ee @ map qe_item entries\<rparr>, Inr ())"
  by (induction entries arbitrary: ee) (simp_all add: stm_simps)

lemma side_data_has:
  "dict_has (fold (\<lambda>e d. dict_set d (qe_item e) (qe_priority e, qe_timestamp e)) entries d) op \<longleftrightarrow>
    op \<in> qe_item ` set entries \<or> dict_has d op"
  by (induction entries arbitrary: d) (auto simp: dict_simps)

lemma side_data_recorded:
  "distinct (map qe_item es) \<Longrightarrow> e \<in> set es \<Longrightarrow>
    map_of (fold (\<lambda>e d. dict_set d (qe_item e) (qe_priority e, qe_timestamp e)) es d) (qe_item e) =
    Some (qe_priority e, qe_timestamp e)"
  by (induction es rule: rev_induct) (auto simp: dict_simps rev_image_eqI)

definition extract_step :: "'g es_state \<Rightarrow> 'g es_state" where
  "extract_step s =
     (case ee_run_extract (es_exec s) of
        Some (Inr (es, ee')) \<Rightarrow> s\<lparr>es_exec := fst (execute_begin es ee')\<rparr>
      | _ \<Rightarrow> s)"

lemma extract_step_keeps:
  assumes s: "es_inv s" and idle: "ee_currently_executing (es_exec s) = []"
    and ne: "es_queued s \<noteq> {}" and pool: "wp_len (ee_pool (es_exec s)) \<noteq> 0"
  shows "es_inv (extract_step s)"
proof -
  have q: "ee_queue_inv (es_exec s)" using s by (simp add: es_inv_def)
  have ne': "ee_content (es_exec s) \<noteq> Map.empty" using ne by (auto simp: es_queued_def)
  obtain es ee' where e: "ee_run_extract (es_exec s) = Some (Inr (es, ee'))"
      "pops (as_res (ee_pop False)) (es_exec s) es ee'"
    using ee_run_extract_pops[OF q ne' pool] by blast
  have p: "ee_queue_inv ee'" "distinct (map qe_item es)"
    "\<forall>x\<in>set es. ee_content (es_exec s) (qe_item x) = Some (entry_key x)"
    "ee_content ee' = ee_content (es_exec s) |` (- qe_item ` set es)"
    using ee_queue.pops_content[OF q e(2)] by blast+
  have f: "frame (es_exec s) ee'" using pops_frame[OF q e(2)] .
  let ?ee = "ee'\<lparr>ee_side_data := fold (\<lambda>e d. dict_set d (qe_item e) (qe_priority e, qe_timestamp e)) es (ee_side_data ee'),
    ee_currently_executing := map qe_item es\<rparr>"
  have x: "extract_step s = s\<lparr>es_exec := ?ee\<rparr>"
    using e(1) by (simp add: extract_step_def execute_begin_def execute_begin_loop stm_simps)
  let ?s = "s\<lparr>es_exec := ?ee\<rparr>"
  have "qe_item ` set es \<subseteq> es_queued s" using p(3) by (auto simp: es_queued_def)
  moreover have "es_queued ?s = es_queued s - qe_item ` set es"
    using p(4) by (auto simp: es_queued_def)
  moreover have "es_extracted ?s = qe_item ` set es" "es_assigned ?s = es_assigned s" "es_cached ?s = es_cached s"
    using f by (simp_all add: es_places frame_def)
  moreover have "ee_queue_inv ?ee" using p(1) by (simp add: ee_queue_inv_def)
  moreover have "dict_has (ee_side_data ?ee) op \<longleftrightarrow> op \<in> qe_item ` set es \<or> dict_has (ee_side_data (es_exec s)) op" for op
    using f by (simp add: side_data_has frame_def)
  moreover have "ee_pool ?ee = ee_pool (es_exec s)" using f by (simp add: frame_def)
  ultimately have "es_inv ?s"
    using s p(2) unfolding es_inv_def by auto
  then show ?thesis using x by simp
qed

definition total_jobs :: "(es_operation list \<Rightarrow> 'g res) \<Rightarrow> bool" where
  "total_jobs jobs \<longleftrightarrow> (\<forall>os. \<exists>g. jobs os = Inr g)"

lemma execute_iter_keeps:
  assumes s: "es_inv s" and choice: "fair_choice choice" and jobs: "total_jobs jobs"
  shows "es_inv (fst (on_exec (execute_iter choice jobs now) s))"
proof (cases "ee_currently_executing (es_exec s) = [] \<or> \<not> wp_workers_available_event (ee_pool (es_exec s))")
  case True
  then have "fst (execute_iter choice jobs now (es_exec s)) = es_exec s"
    by (auto simp: execute_iter_def stm_simps on_pool_def wait_for_workers_def)
  then have "fst (on_exec (execute_iter choice jobs now) s) = s"
    by (auto simp: on_exec_def split: prod.split)
  then show ?thesis using s by simp
next
  case False
  define os where "os = ee_currently_executing (es_exec s)"
  define w where "w = ee_pool (es_exec s)"
  obtain m where m: "represents w m" using s by (auto simp: es_inv_def w_def)
  have os: "distinct os" "\<forall>op\<in>set os. \<not> wp_contains w op"
    using s by (auto simp: es_inv_def os_def w_def es_places)
  have run: "execute_iter choice jobs now (es_exec s) =
      (case acquire_worker choice jobs now os w of
         (w', Inl e) \<Rightarrow> ((es_exec s)\<lparr>ee_pool := w'\<rparr>, Inl e)
       | (w', Inr None) \<Rightarrow> ((es_exec s)\<lparr>ee_pool := w'\<rparr>, Inr False)
       | (w', Inr (Some _)) \<Rightarrow> ((es_exec s)\<lparr>ee_pool := w', ee_currently_executing := []\<rparr>, Inr True))"
    using False by (auto simp: execute_iter_def stm_simps on_pool_def wait_for_workers_def os_def w_def
        split: prod.splits sum.splits option.splits)
  show ?thesis
  proof (cases "idle_workers w = []")
    case True
    then have "execute_iter choice jobs now (es_exec s) =
        ((es_exec s)\<lparr>ee_pool := w\<lparr>wp_workers_available_event := False\<rparr>\<rparr>, Inr False)"
      using run acquire_worker_none[OF m True] by simp
    moreover have "represents (w\<lparr>wp_workers_available_event := False\<rparr>) m"
      using represents_event[OF m, of False] idle_workers_set[OF m] True by auto
    ultimately show ?thesis
      using es_inv_pool[OF s, of "w\<lparr>wp_workers_available_event := False\<rparr>" m]
      by (simp add: on_exec_def w_def wp_contains_def)
  next
    case False
    define sh where "sh = choice (idle_workers w)"
    have i: "m sh = Some (True, Idle)"
      using choice False idle_workers_set[OF m] unfolding fair_choice_def sh_def by blast
    obtain g where g: "jobs os = Inr g" using jobs by (auto simp: total_jobs_def)
    obtain w' where w': "acquire_worker choice jobs now os w =
        (w'\<lparr>wp_sent := wp_sent w @ [(sh, Execute_job_group g)]\<rparr>, Inr (Some sh))"
      "represents w' (m(sh \<mapsto> (True, Doing os now [])))"
      using acquire_worker_some[where choice = choice, OF m i sh_def[symmetric] os, of jobs now] g by auto
    let ?w = "w'\<lparr>wp_sent := wp_sent w @ [(sh, Execute_job_group g)]\<rparr>"
    let ?s = "s\<lparr>es_exec := (es_exec s)\<lparr>ee_pool := ?w, ee_currently_executing := []\<rparr>\<rparr>"
    have "wp_contains ?w op \<longleftrightarrow> op \<in> set os \<or> wp_contains w op" for op
    proof -
      have "wp_contains ?w op \<longleftrightarrow> wp_contains w' op" by (simp add: wp_contains_def)
      then show ?thesis
        unfolding represents_contains[OF w'(2)] represents_contains[OF m] doing_update[of m sh True, OF i] by simp
    qed
    then have "es_queued ?s = es_queued s" "es_extracted ?s = {}" "es_cached ?s = es_cached s"
      "es_assigned ?s = es_extracted s \<union> es_assigned s"
      by (auto simp: es_places os_def w_def)
    moreover have "represents ?w (m(sh \<mapsto> (True, Doing os now [])))"
      by (rule represents_sent[OF w'(2)])
    ultimately have "es_inv ?s"
      using s unfolding es_inv_def by (auto simp: ee_queue_inv_def simp del: fun_upd_apply)
    then show ?thesis
      using run w'(1) by (simp add: on_exec_def)
  qed
qed

subsection \<open>Reachable states\<close>

definition all_idle :: "'o pool_items \<Rightarrow> bool" where
  "all_idle m \<longleftrightarrow> (\<forall>sh c st. m sh = Some (c, st) \<longrightarrow> st = Idle)"

lemma add_workers:
  assumes "represents w m" "all_idle m" "distinct (map fst l)" "\<forall>sh\<in>fst ` set l. m sh = None"
  shows "\<exists>w' m'. sforeach l (\<lambda>(sh, c). add_worker sh c) w = (w', Inr ()) \<and> represents w' m' \<and> all_idle m'"
  using assms
proof (induction l arbitrary: w m)
  case Nil
  then show ?case by (auto simp: stm_simps)
next
  case (Cons x l)
  obtain sh c where x: "x = (sh, c)" by fastforce
  obtain w1 where w1: "add_worker sh c w = (w1, Inr ())" "represents w1 (m(sh \<mapsto> (c, Idle)))"
    using add_worker_refines[OF Cons.prems(1), of sh c] Cons.prems(4) x by auto
  define m1 where "m1 = m(sh \<mapsto> (c, Idle))"
  have "all_idle m1" using Cons.prems(2) by (auto simp: all_idle_def m1_def)
  moreover have "\<forall>sh'\<in>fst ` set l. m1 sh' = None"
    using Cons.prems(3,4) x by (auto simp: m1_def)
  moreover have "represents w1 m1" using w1(2) by (simp only: m1_def)
  ultimately obtain w' m' where "sforeach l (\<lambda>(sh, c). add_worker sh c) w1 = (w', Inr ())" "represents w' m'" "all_idle m'"
    using Cons.IH[of w1 m1] Cons.prems(3) by auto
  then show ?case using w1(1) x by (auto simp: stm_simps)
qed

lemma es_inv_init: "es_inv (es_init conns c now d :: 'g es_state)"
proof -
  let ?l = "zip (map int [0..<length conns]) conns"
  have "distinct (map fst ?l)" by (simp add: distinct_map)
  then obtain w' :: "(es_operation, 'g) worker_pool" and m' where w: "sforeach ?l (\<lambda>(sh, c). add_worker sh c) worker_pool_init = (w', Inr ())"
    "represents w' m'" "all_idle m'"
    using add_workers[OF represents_init, of ?l] by (auto simp: all_idle_def)
  have "\<not> wp_contains w' op" for op
    unfolding represents_contains[OF w(2)] in_state_doing using w(3) by (force simp: all_idle_def)
  moreover have "ex_content (executor_init True :: es_operation executor) = Map.empty"
    by (simp add: executor_init_def pq_init_def pq_map_def)
  moreover have "cum_ok [] Map.empty"
    by (simp add: cum_ok_def summary_ok_def waiting_def)
  ultimately show ?thesis
    using w(1,2) ex_invar_init[of True, where ?'a = es_operation]
    by (auto simp: es_inv_def es_init_def evaluation_executor_init_def es_places ee_queue_inv_def
        fl_init_def fl_contains_def dict_has_def)
qed

text \<open>Everything that can happen to the service, in any order: remote calls, the sweeper, the
  periodic checks, the two phases of the executor, the answers of the workers, the flushes of
  the cache, changes of the connections, and changes of the database by other processes. A
  worker answers for the operations it was given, and jobs can be built.\<close>

inductive es_reachable :: "'g es_state \<Rightarrow> bool" where
  init: "es_reachable (es_init conns c now d)"
| db: "es_reachable s \<Longrightarrow> es_reachable (s\<lparr>es_db := d\<rparr>)"
| enqueue: "es_reachable s \<Longrightarrow> es_reachable (fst (es_enqueue op p t s))"
| sweep: "es_reachable s \<Longrightarrow> es_reachable (fst (missing_operations s))"
| new_submission: "es_reachable s \<Longrightarrow> es_reachable (fst (new_submission fuel i s))"
| new_match: "es_reachable s \<Longrightarrow> es_reachable (fst (new_match fuel i s))"
| new_user_test: "es_reachable s \<Longrightarrow> es_reachable (fst (new_user_test i s))"
| invalidate: "es_reachable s \<Longrightarrow> es_reachable (fst (invalidate_submission fuel c i ds p t level s))"
| timeout: "es_reachable s \<Longrightarrow> es_reachable (fst (check_workers_timeout now' s))"
| connections: "es_reachable s \<Longrightarrow> es_reachable (fst (check_workers_connection s))"
| disable: "es_reachable s \<Longrightarrow> es_reachable (fst (es_disable_worker sh s))"
| enable: "es_reachable s \<Longrightarrow> es_reachable (fst (es_enable_worker sh s))"
| take_batch: "es_reachable s \<Longrightarrow> ee_currently_executing (es_exec s) = [] \<Longrightarrow> es_queued s \<noteq> {} \<Longrightarrow>
    wp_len (ee_pool (es_exec s)) \<noteq> 0 \<Longrightarrow> es_reachable (extract_step s)"
| dispatch: "es_reachable s \<Longrightarrow> fair_choice choice \<Longrightarrow> total_jobs jobs \<Longrightarrow>
    es_reachable (fst (on_exec (execute_iter choice jobs now') s))"
| finished: "es_reachable s \<Longrightarrow> map_of (wp_operations (ee_pool (es_exec s))) sh = Some (WORKER_DOING os) \<Longrightarrow>
    (\<And>js. job_group = Inr js \<Longrightarrow> job_operation ` set js \<subseteq> set os) \<Longrightarrow>
    es_reachable (fst (action_finished now job_group sh error s))"
| flush: "es_reachable s \<Longrightarrow> es_reachable (fst (flush_results fuel s))"
| connect: "es_reachable s \<Longrightarrow> dict_has (wp_worker (ee_pool (es_exec s))) sh \<Longrightarrow>
    es_reachable (s\<lparr>es_exec := (es_exec s)\<lparr>ee_pool := connect (es_contest_id s) sh (ee_pool (es_exec s))\<rparr>\<rparr>)"
| disconnect: "es_reachable s \<Longrightarrow> dict_has (wp_worker (ee_pool (es_exec s))) sh \<Longrightarrow>
    es_reachable (s\<lparr>es_exec := (es_exec s)\<lparr>ee_pool := disconnect sh (ee_pool (es_exec s))\<rparr>\<rparr>)"

lemma connection_keeps:
  assumes s: "es_inv s" and sh: "dict_has (wp_worker (ee_pool (es_exec s))) sh"
  shows "es_inv (s\<lparr>es_exec := (es_exec s)\<lparr>ee_pool := connect c sh (ee_pool (es_exec s))\<rparr>\<rparr>)"
    "es_inv (s\<lparr>es_exec := (es_exec s)\<lparr>ee_pool := disconnect sh (ee_pool (es_exec s))\<rparr>\<rparr>)"
proof -
  obtain m where m: "represents (ee_pool (es_exec s)) m" using s by (auto simp: es_inv_def)
  then obtain c' st where it: "m sh = Some (c', st)" using sh represents_has[OF m] by fastforce
  have small: "smaller m (m(sh \<mapsto> (b, st)))" for b using smaller_update[of m sh, OF it] by simp
  show "es_inv (s\<lparr>es_exec := (es_exec s)\<lparr>ee_pool := connect c sh (ee_pool (es_exec s))\<rparr>\<rparr>)"
    using es_inv_pool[OF s connect_refines[OF m it]] smaller_contains[OF m connect_refines[OF m it] small] by blast
  show "es_inv (s\<lparr>es_exec := (es_exec s)\<lparr>ee_pool := disconnect sh (ee_pool (es_exec s))\<rparr>\<rparr>)"
    using es_inv_pool[OF s disconnect_refines[OF m it]] smaller_contains[OF m disconnect_refines[OF m it] small] by blast
qed

lemma reachable_inv: "es_reachable s \<Longrightarrow> es_inv s"
proof (induction rule: es_reachable.induct)
  case (finished s sh os job_group now error)
  then show ?case by (intro action_finished_keeps) auto
qed (auto intro: preservesD[OF preserves_es_enqueue] preservesD[OF preserves_missing_operations]
    preservesD[OF preserves_new(1)] preservesD[OF preserves_new(2)] preservesD[OF preserves_new(3)]
    preservesD[OF preserves_invalidate] preservesD[OF preserves_worker_calls(1)]
    preservesD[OF preserves_worker_calls(2)] preservesD[OF preserves_worker_calls(3)]
    preservesD[OF preserves_worker_calls(4)] preservesD[OF preserves_flush] es_inv_init
    extract_step_keeps execute_iter_keeps connection_keeps)

section \<open>What enqueueing achieves\<close>

definition es_known :: "'g es_state \<Rightarrow> es_operation set" where
  "es_known s = es_queued s \<union> es_extracted s \<union> es_assigned s \<union> es_cached s"

lemma es_enqueue_known:
  assumes "es_inv s"
  shows "\<exists>s'. es_enqueue op p t s = (s', Inr (op \<notin> es_known s)) \<and> es_inv s' \<and> es_db s' = es_db s \<and>
    es_known s' = insert op (es_known s) \<and> (op \<notin> es_known s \<longrightarrow> op \<in> es_queued s') \<and>
    es_queued s \<subseteq> es_queued s'"
proof -
  from es_enqueue_cases[OF assms, of op p t] show ?thesis
  proof (elim disjE conjE exE)
    fix ex cum
    assume "op \<notin> es_queued s \<union> es_extracted s \<union> es_assigned s \<union> es_cached s"
      and e: "es_enqueue op p t s =
        (s\<lparr>es_exec := (es_exec s)\<lparr>ee_executor := ex, ee_queue_status_cumulative := cum\<rparr>\<rparr>, Inr True)"
      and "ex_invar ex" "cum_ok cum (ex_content ex)" and dom: "dom (ex_content ex) = insert op (es_queued s)"
    moreover have "es_inv (fst (es_enqueue op p t s))"
      by (rule preservesD[OF preserves_es_enqueue assms])
    ultimately show ?thesis
      by (intro exI[of _ "s\<lparr>es_exec := (es_exec s)\<lparr>ee_executor := ex, ee_queue_status_cumulative := cum\<rparr>\<rparr>"])
        (auto simp: es_known_def es_places)
  next
    assume "op \<in> es_queued s \<union> es_extracted s \<union> es_assigned s \<union> es_cached s" "es_enqueue op p t s = (s, Inr False)"
    then show ?thesis using assms by (intro exI[of _ s]) (auto simp: es_known_def)
  qed
qed

lemma prepare_compilation: "op_type op = COMPILATION \<Longrightarrow> prepare_pvp_evaluation op s = (s, Inr ())"
  by (simp add: prepare_pvp_evaluation_def stm_simps op_types)

text \<open>A new submission is scheduled: for every dataset to judge of its task the compilation of the
  submission ends up in the queue, unless it is already somewhere in the service; the call
  raises nothing, changes no table, and forgets no operation.\<close>

theorem new_submission_schedules_compilations:
  assumes "es_reachable s" "get_from_id sub_id (db_submissions (es_db s)) i = Some sub"
    "get_from_id task_id (db_tasks (es_db s)) (sub_task_id sub) = Some t"
    "active_task_type (es_db s) sub = Inr ty"
    "\<forall>ds\<in>set (get_datasets_to_judge (es_db s) t).
      get_from_id sr_key (db_submission_results (es_db s)) (sub_id sub, ds_id ds) = None"
  shows "\<exists>s'. new_submission (Suc fuel) i s = (s', Inr ()) \<and> es_db s' = es_db s \<and>
    es_known s' = es_known s \<union>
      (\<lambda>ds. es_op COMPILATION (sub_id sub) (ds_id ds) None) ` set (get_datasets_to_judge (es_db s) t) \<and>
    es_known s' - es_known s \<subseteq> es_queued s'"
proof -
  let ?ds = "get_datasets_to_judge (es_db s) t"
  let ?op = "\<lambda>ds. es_op COMPILATION (sub_id sub) (ds_id ds) None"
  let ?f = "\<lambda>ds n. sbind (sget es_db) (\<lambda>d.
         sbind (slift (sub_get_result d sub ds)) (\<lambda>r.
           let ops = submission_get_operations d r sub ds in
           sbind (sfold ops (enqueue_or_prepare sub) n) (\<lambda>n'.
             case r of
               None \<Rightarrow> sret n'
             | Some r \<Rightarrow>
                 if ops = [] \<and> submission_to_evaluate (Some r) then
                   sthen (upd_db (put_sr (sr_set_evaluation_outcome r)))
                  (sthen (send (SS_new_evaluation (sr_submission_id r) (sr_dataset_id r)))
                  (sthen (submission_enqueue_operations fuel sub)
                         (sret n')))
                 else sret n')))"
  let ?I = "\<lambda>pre (n :: nat) s'. es_inv s' \<and> es_db s' = es_db s \<and> es_known s' = es_known s \<union> ?op ` set pre \<and>
    es_known s' - es_known s \<subseteq> es_queued s'"
  have "\<exists>s' n'. sfold ?ds ?f 0 s = (s', Inr n') \<and> ?I ?ds n' s'"
  proof (rule sfold_rule)
    show "?I [] 0 s" using reachable_inv[OF assms(1)] by simp
  next
    fix pre ds post n s1
    assume split: "?ds = pre @ ds # post" and I: "?I pre n s1"
    then have ds: "ds \<in> set ?ds" by simp
    then have task: "sub_task_id sub = ds_task_id ds"
      using get_from_id_Some[OF assms(3)] by (auto simp: get_datasets_to_judge_def task_datasets_def)
    obtain p where ops: "submission_get_operations (es_db s) None sub ds = [(?op ds, p, sub_timestamp sub)]"
      by (simp add: submission_get_operations_def submission_to_compile_def)
    have inv1: "es_inv s1" using I by (rule conjunct1)
    from es_enqueue_known[OF inv1, of "?op ds" p "sub_timestamp sub"] obtain s2 where
      s2: "es_enqueue (?op ds) p (sub_timestamp sub) s1 = (s2, Inr (?op ds \<notin> es_known s1))"
      "es_inv s2" "es_db s2 = es_db s1" "es_known s2 = insert (?op ds) (es_known s1)"
      "?op ds \<notin> es_known s1 \<longrightarrow> ?op ds \<in> es_queued s2" "es_queued s1 \<subseteq> es_queued s2"
      by (elim exE conjE)
    have "\<exists>n'. ?f ds n s1 = (s2, Inr n')"
      using I s2(1,3) task ds assms(4,5) ops
      by (auto simp: stm_simps sub_get_result_def enqueue_or_prepare_def prepare_compilation es_op_def Let_def)
    then obtain n' where n': "?f ds n s1 = (s2, Inr n')" ..
    have old: "es_known s1 - es_known s \<subseteq> es_queued s1" using I by (elim conjE)
    have "es_known s2 - es_known s \<subseteq> es_queued s2"
      unfolding s2(4) using old s2(5,6) by blast
    moreover have "es_known s2 = es_known s \<union> ?op ` set (pre @ [ds])" "es_db s2 = es_db s"
      using I s2(3,4) by auto
    ultimately show "\<exists>s' a'. ?f ds n s1 = (s', Inr a') \<and> ?I (pre @ [ds]) a' s'"
      using s2(2) n' by (intro exI[of _ s2] exI[of _ n']) simp
  qed
  then obtain s' n' where r: "sfold ?ds ?f 0 s = (s', Inr n')" "?I ?ds n' s'" by blast
  have "submission_enqueue_operations (Suc fuel) sub s = sfold ?ds ?f 0 s"
    using assms(3) by (simp add: stm_simps find_task_def or_attribute_error_def)
  then have "new_submission (Suc fuel) i s = (s', Inr ())"
    using assms(2) r(1) by (simp add: new_submission_def stm_simps del: submission_enqueue_operations.simps)
  then show ?thesis using r(2) by blast
qed

theorem new_submission_schedules_compilations_witness:
  "\<exists>s' :: unit es_state. new_submission 1 7 (es_init [True] (Some 1) 0 (example_db\<lparr>db_submission_results := []\<rparr>)) = (s', Inr ()) \<and>
    es_op COMPILATION 7 5 None \<in> es_known s'"
proof -
  let ?d = "example_db\<lparr>db_submission_results := []\<rparr>"
  let ?s = "es_init [True] (Some 1) 0 ?d :: unit es_state"
  let ?t = "\<lparr>task_id = 2, task_contest_id = Some 1, task_active_dataset_id = Some 5, task_title = ''t'', task_pvp_batch = 0, task_score_precision = 0, task_score_mode = SCORE_MODE_MAX_TOKENED_LAST, task_solved = False\<rparr>"
  have t: "get_from_id task_id (db_tasks (es_db ?s)) (sub_task_id example_submission) = Some ?t"
    "get_from_id sub_id (db_submissions (es_db ?s)) 7 = Some example_submission"
    "active_task_type (es_db ?s) example_submission = Inr (ds_task_type example_dataset)"
    "get_from_id sr_key (db_submission_results (es_db ?s)) k = None"
    "sub_id example_submission = 7" "ds_id example_dataset = 5"
    "example_dataset \<in> set (get_datasets_to_judge (es_db ?s) ?t)" for k
    by (simp_all add: es_init_def example_db_def example_submission_def example_dataset_def get_from_id_def
        active_task_type_def get_datasets_to_judge_def task_datasets_def dataset_active_def)
  have none: "\<forall>ds\<in>set (get_datasets_to_judge (es_db ?s) ?t).
      get_from_id sr_key (db_submission_results (es_db ?s)) (sub_id example_submission, ds_id ds) = None"
    using t(4) by blast
  have "es_op COMPILATION 7 5 None \<in> (\<lambda>ds. es_op COMPILATION (sub_id example_submission) (ds_id ds) None) `
      set (get_datasets_to_judge (es_db ?s) ?t)"
    by (rule image_eqI[OF _ t(7)]) (simp only: t(5,6))
  then show ?thesis
    using new_submission_schedules_compilations[OF es_reachable.init t(2,1,3) none, of 0]
    by (simp only: One_nat_def) blast
qed

section \<open>The recursion of the enqueueing ends\<close>

text \<open>Nothing that enqueueing does makes a result become ready to be finalised.\<close>

definition no_more_ready :: "db \<Rightarrow> db \<Rightarrow> bool" where
  "no_more_ready d0 d \<longleftrightarrow> db_tasks d = db_tasks d0 \<and> db_datasets d = db_datasets d0 \<and>
     (\<forall>k. submission_to_evaluate (get_from_id sr_key (db_submission_results d) k) \<longrightarrow>
          submission_to_evaluate (get_from_id sr_key (db_submission_results d0) k))"

abbreviation db_within :: "db \<Rightarrow> 'g es_state \<Rightarrow> bool" where
  "db_within d0 s \<equiv> no_more_ready d0 (es_db s)"

lemma no_more_ready_refl: "no_more_ready d d"
  by (simp add: no_more_ready_def)

lemma no_more_ready_trans: "no_more_ready d0 d1 \<Longrightarrow> no_more_ready d1 d2 \<Longrightarrow> no_more_ready d0 d2"
  by (auto simp: no_more_ready_def)

lemma no_more_ready_put:
  assumes "no_more_ready d0 d"
    and "submission_to_evaluate (Some r) \<longrightarrow> submission_to_evaluate (get_from_id sr_key (db_submission_results d) (sr_key r))"
  shows "no_more_ready d0 (put_sr r d)"
  using assms by (auto simp: no_more_ready_def put_sr_def get_put_row simp del: split_paired_All split: if_splits)

lemma avoids_put_discarded [avoids_rules]:
  "avoids E (db_within d0) (upd_db (put_sr (sr_set_discarded r)))"
proof -
  have "\<not> submission_to_evaluate (Some (sr_set_discarded r))"
    by (simp add: submission_to_evaluate_def sr_compilation_succeeded_def sr_update_defs)
  then show ?thesis
    using no_more_ready_put[of d0 _ "sr_set_discarded r"] by (simp add: avoids_def upd_db_def stm_simps)
qed

lemma avoids_send [avoids_rules]: "avoids E (db_within d0) (send m)"
  by (simp add: avoids_def send_def stm_simps)

lemma avoids_or_attribute_error [avoids_rules]:
  "avoids RuntimeError I (or_attribute_error x)"
  unfolding or_attribute_error_def by (intro avoids_rules) simp

lemma es_enqueue_no_runtime_error: "snd (es_enqueue op p t s) \<noteq> Inl RuntimeError" if "es_inv s"
  using es_enqueue_known[OF that, of op p t] by auto

lemma es_enqueue_db: "es_db (fst (es_enqueue op p t s)) = es_db s"
  by (simp add: es_enqueue_def on_exec_def split: prod.split)

definition es_within :: "db \<Rightarrow> 'g es_state \<Rightarrow> bool" where
  "es_within d0 s \<longleftrightarrow> es_inv s \<and> db_within d0 s"

lemma avoids_within:
  assumes "preserves es_inv m" "avoids E (db_within d0) m"
  shows "avoids E (es_within d0) m"
  using assms by (auto simp: avoids_def preserves_def es_within_def)

lemma avoids_es_enqueue [avoids_rules]: "avoids RuntimeError (es_within d0) (es_enqueue op p t)"
  unfolding avoids_def es_within_def
  using es_enqueue_no_runtime_error preservesD[OF preserves_es_enqueue] es_enqueue_db by metis

lemma sub_get_result_errors: "sub_get_result d s ds \<noteq> Inl RuntimeError"
  "sub_get_result_or_create d s ds \<noteq> Inl RuntimeError"
  by (auto simp: sub_get_result_def sub_get_result_or_create_def py_assert_def res_bind_Inl_iff split: option.splits)

lemma created_result_ready:
  assumes "sub_get_result_or_create d s ds = Inr r"
  shows "sr_key r = (sub_id s, ds_id ds)"
    "submission_to_evaluate (Some r) \<longleftrightarrow> submission_to_evaluate (get_from_id sr_key (db_submission_results d) (sub_id s, ds_id ds))"
proof -
  have c: "(case get_from_id sr_key (db_submission_results d) (sub_id s, ds_id ds) of
      None \<Rightarrow> new_submission_result (sub_id s) (ds_id ds) | Some r \<Rightarrow> r) = r"
    using assms by (auto simp: sub_get_result_or_create_def sub_get_result_def res_simps py_assert_def split: option.splits if_splits)
  show "sr_key r = (sub_id s, ds_id ds)"
    using c get_from_id_Some[of sr_key "db_submission_results d" "(sub_id s, ds_id ds)"]
    by (auto simp: sr_key_def new_submission_result_def split: option.splits)
  show "submission_to_evaluate (Some r) \<longleftrightarrow>
      submission_to_evaluate (get_from_id sr_key (db_submission_results d) (sub_id s, ds_id ds))"
    using c by (auto simp: submission_to_evaluate_def new_submission_result_def sr_compilation_succeeded_def split: option.splits)
qed

lemma avoids_prepare_one_db: "avoids RuntimeError (db_within d0) (prepare_one op ds tc o' s)"
  unfolding prepare_one_def
proof (rule avoids_read)
  fix st :: "'g es_state"
  assume st: "db_within d0 st"
  let ?rest = "\<lambda>r1. if op_type op = EVALUATION then
            sbind (sget es_db) (\<lambda>d1.
              let older = rival_results d1 s (<); newer = rival_results d1 s (>) in
              sthen (if newer \<noteq> [] then upd_db (put_sr (sr_set_discarded r1)) else sret ())
                (sforeach older (\<lambda>r. if \<not> sr_discarded r then upd_db (put_sr (sr_set_discarded r)) else sret ())))
          else sret ()"
  have rest: "avoids RuntimeError (db_within d0) (?rest r1)" for r1
    by (intro avoids_rules)
  let ?m = "sbind (slift (sub_get_result_or_create (es_db st) s ds)) (\<lambda>r0.
      let r1 = (if \<not> has_evaluation r0 tc \<and> (o' = None \<or> o' = Some (tc_id tc))
                then r0\<lparr>sr_evaluations := sr_evaluations r0 @ [dummy_evaluation tc]\<rparr> else r0)
      in sthen (upd_db (put_sr r1)) (?rest r1))"
  show "db_within d0 (fst (?m st)) \<and> snd (?m st) \<noteq> Inl RuntimeError"
  proof (cases "sub_get_result_or_create (es_db st) s ds")
    case (Inl e)
    then show ?thesis using st sub_get_result_errors(2)[of "es_db st" s ds] by (auto simp: stm_simps)
  next
    case (Inr r0)
    define r1 where "r1 = (if \<not> has_evaluation r0 tc \<and> (o' = None \<or> o' = Some (tc_id tc))
        then r0\<lparr>sr_evaluations := sr_evaluations r0 @ [dummy_evaluation tc]\<rparr> else r0)"
    have "sr_key r1 = sr_key r0" "submission_to_evaluate (Some r1) = submission_to_evaluate (Some r0)"
      by (simp_all add: r1_def sr_key_def submission_to_evaluate_def sr_status_defs)
    then have "no_more_ready d0 (put_sr r1 (es_db st))"
      using no_more_ready_put[OF st, of r1] created_result_ready[OF Inr] by simp
    then have "db_within d0 (st\<lparr>es_db := put_sr r1 (es_db st)\<rparr>)" by simp
    note rest' = avoidsD[OF rest this, of r1]
    have "?m st = ?rest r1 (st\<lparr>es_db := put_sr r1 (es_db st)\<rparr>)"
      by (simp add: Inr stm_simps upd_db_def Let_def r1_def[symmetric])
    then show ?thesis using rest' by (simp only: simp_thms)
  qed
qed

lemma avoids_prepare [avoids_rules]: "avoids RuntimeError (es_within d0) (prepare_pvp_evaluation op)"
proof -
  have "dataset_testcase ds c \<noteq> Inl RuntimeError" for ds c
    by (auto simp: dataset_testcase_def split: option.splits)
  then show ?thesis
    unfolding prepare_pvp_evaluation_def
    by (intro avoids_rules avoids_within[OF preserves_prepare_one avoids_prepare_one_db])
qed

lemma avoids_enqueue_or_prepare [avoids_rules]: "avoids RuntimeError (es_within d0) (enqueue_or_prepare s x n)"
proof -
  have "active_task_type d s \<noteq> Inl RuntimeError" for d
    by (auto simp: active_task_type_def split: option.splits)
  then show ?thesis
    unfolding enqueue_or_prepare_def by (intro avoids_rules)
qed

text \<open>The results of a submission that are waiting to be finalised; finalising one of them takes it out.\<close>

definition ready_datasets :: "submission \<Rightarrow> db \<Rightarrow> dataset list" where
  "ready_datasets s d = filter (\<lambda>ds. submission_to_evaluate
     (get_from_id sr_key (db_submission_results d) (sub_id s, ds_id ds))) (db_datasets d)"

lemma ready_datasets_less:
  assumes le: "no_more_ready d0 d" and ds: "ds \<in> set (db_datasets d)"
    and r: "get_from_id sr_key (db_submission_results d) (sub_id s, ds_id ds) = Some r" "submission_to_evaluate (Some r)"
  defines "d1 \<equiv> put_sr (sr_set_evaluation_outcome r) d"
  shows "no_more_ready d0 d1" "length (ready_datasets s d1) < length (ready_datasets s d0)"
proof -
  have key: "sr_key (sr_set_evaluation_outcome r) = (sub_id s, ds_id ds)"
    using get_from_id_Some[OF r(1)] by (simp add: sr_key_def sr_update_defs)
  have final: "\<not> submission_to_evaluate (Some (sr_set_evaluation_outcome r))"
    by (simp add: submission_to_evaluate_def sr_update_defs sr_status_defs)
  show le1: "no_more_ready d0 d1" unfolding d1_def using no_more_ready_put[OF le] final by simp
  show "length (ready_datasets s d1) < length (ready_datasets s d0)"
    unfolding ready_datasets_def
  proof -
    let ?P = "\<lambda>d ds. submission_to_evaluate (get_from_id sr_key (db_submission_results d) (sub_id s, ds_id ds))"
    have "db_datasets d1 = db_datasets d0" "ds \<in> set (db_datasets d0)" "\<forall>x. ?P d1 x \<longrightarrow> ?P d0 x"
      using le le1 ds by (simp_all add: no_more_ready_def del: split_paired_All)
    moreover have "?P d0 ds" using le r by (simp add: no_more_ready_def del: split_paired_All)
    moreover have "\<not> ?P d1 ds" using final key by (simp add: d1_def put_sr_def get_put_row)
    ultimately show "length (filter (?P d1) (db_datasets d1)) < length (filter (?P d0) (db_datasets d0))"
      using length_filter_strict[of "?P d1" "?P d0" ds "db_datasets d0"] by simp
  qed
qed

lemma enqueue_operations_ends:
  "length (ready_datasets s d0) < fuel \<Longrightarrow> avoids RuntimeError (es_within d0)
     (submission_enqueue_operations fuel s :: ('g es_state, nat) stm)"
proof (induction fuel arbitrary: d0)
  case (Suc fuel)
  have one: "avoids RuntimeError (es_within d0)
     (sbind (sget es_db) (\<lambda>d.
         sbind (slift (sub_get_result d s ds)) (\<lambda>r.
           let ops = submission_get_operations d r s ds in
           sbind (sfold ops (enqueue_or_prepare s) n) (\<lambda>n'.
             case r of
               None \<Rightarrow> sret n'
             | Some r \<Rightarrow>
                 if ops = [] \<and> submission_to_evaluate (Some r) then
                   sthen (upd_db (put_sr (sr_set_evaluation_outcome r)))
                  (sthen (send (SS_new_evaluation (sr_submission_id r) (sr_dataset_id r)))
                  (sthen (submission_enqueue_operations fuel s :: ('g es_state, nat) stm)
                         (sret n')))
                 else sret n'))))" (is "avoids _ _ (sbind _ ?f)")
    if ds: "ds \<in> set (db_datasets d0)" for ds n
  proof (rule avoids_read)
    fix st :: "'g es_state"
    assume st: "es_within d0 st"
    let ?res = "\<lambda>m. es_within d0 (fst (m st)) \<and> snd (m st) \<noteq> Inl RuntimeError"
    show "?res (?f (es_db st))"
    proof (cases "\<exists>r. sub_get_result (es_db st) s ds = Inr (Some r) \<and>
        submission_get_operations (es_db st) (Some r) s ds = [] \<and> submission_to_evaluate (Some r)")
      case True
      then obtain r where r: "sub_get_result (es_db st) s ds = Inr (Some r)"
        "submission_get_operations (es_db st) (Some r) s ds = []" "submission_to_evaluate (Some r)" by blast
      have key: "get_from_id sr_key (db_submission_results (es_db st)) (sub_id s, ds_id ds) = Some r"
        using r(1) by (auto simp: sub_get_result_def res_simps py_assert_def split: if_splits)
      have le: "no_more_ready d0 (es_db st)" and inv: "es_inv st" using st by (simp_all add: es_within_def)
      have ds': "ds \<in> set (db_datasets (es_db st))" using ds le by (simp add: no_more_ready_def)
      let ?d1 = "put_sr (sr_set_evaluation_outcome r) (es_db st)"
      let ?m = "sthen (upd_db (put_sr (sr_set_evaluation_outcome r))) (send (SS_new_evaluation (sr_submission_id r) (sr_dataset_id r)))"
      define st1 where "st1 = fst (?m st)"
      have st1: "?m st = (st1, Inr ())" "es_db st1 = ?d1"
        by (simp_all add: st1_def stm_simps upd_db_def send_def)
      have "preserves es_inv ?m" by (intro preserves_rules)
      then have "es_inv st1" unfolding st1_def using inv by (rule preservesD)
      then have "es_within ?d1 st1" by (simp add: es_within_def st1(2) no_more_ready_refl)
      moreover have "length (ready_datasets s ?d1) < fuel"
        using ready_datasets_less(2)[OF le ds' key r(3)] Suc.prems by simp
      ultimately have "es_within ?d1 (fst (submission_enqueue_operations fuel s st1)) \<and>
          snd (submission_enqueue_operations fuel s st1) \<noteq> Inl RuntimeError"
        using avoidsD[OF Suc.IH] by blast
      moreover have "es_within d0 x" if "es_within ?d1 x" for x :: "'g es_state"
        using that no_more_ready_trans[OF ready_datasets_less(1)[OF le ds' key r(3)]] by (simp add: es_within_def)
      moreover have "?f (es_db st) st = sthen (submission_enqueue_operations fuel s) (sret n) st1"
        using r st1(1) by (simp add: stm_simps st1_def upd_db_def send_def)
      moreover have "fst (sthen m (sret n) x) = fst (m x)" "snd (sthen m (sret n) x) = Inl e \<longleftrightarrow> snd (m x) = Inl e"
        for m :: "('g es_state, nat) stm" and x e
        by (simp_all add: sbind_run stm_simps split: prod.splits sum.splits)
      ultimately show ?thesis by (simp only: simp_thms)
    next
      case False
      then have "?f (es_db st) st = (sbind (slift (sub_get_result (es_db st) s ds)) (\<lambda>r.
          sfold (submission_get_operations (es_db st) r s ds) (enqueue_or_prepare s) n)) st"
      proof (cases "sub_get_result (es_db st) s ds")
        case (Inr b)
        have "\<not> (submission_get_operations (es_db st) b s ds = [] \<and> submission_to_evaluate b)"
          using False Inr by (cases b) (auto simp: submission_to_evaluate_def)
        then show ?thesis
          by (cases b) (auto simp: Inr stm_simps Let_def sbind_run split: prod.splits sum.splits)
      qed (simp add: stm_simps)
      moreover have "avoids RuntimeError (es_within d0) (sbind (slift (sub_get_result (es_db st) s ds)) (\<lambda>r.
          sfold (submission_get_operations (es_db st) r s ds) (enqueue_or_prepare s) n))"
        by (intro avoids_rules) (rule sub_get_result_errors)
      ultimately show ?thesis using st by (simp only: avoids_def) blast
    qed
  qed
  have judged: "ds \<in> set (db_datasets d0)" if "es_within d0 st" "ds \<in> set (get_datasets_to_judge (es_db st) t)"
    for ds t and st :: "'g es_state"
    using that by (auto simp: es_within_def no_more_ready_def get_datasets_to_judge_def task_datasets_def)
  have find: "avoids RuntimeError (es_within d0) (find_task i)" for i
    unfolding find_task_def by (intro avoids_rules)
  show ?case
    unfolding submission_enqueue_operations.simps
    by (rule avoids_sbind[OF find], rule avoids_read, rule avoidsD, rule avoids_sfold, rule one, erule judged)
qed simp

text \<open>(C9) \<open>submission_enqueue_operations\<close> and \<open>evaluation_ended\<close> call each other, and on a service built from
  its operations the recursion always ends: each call in the chain has marked one more result of the submission
  as evaluated, so a recursion limit above the number of results waiting to be finalised is never reached.\<close>

theorem submission_enqueue_recursion_ends:
  assumes "es_reachable s" and "length (ready_datasets sub (es_db s)) < fuel"
  shows "snd (submission_enqueue_operations fuel sub s) \<noteq> Inl RuntimeError"
  using avoidsD[OF enqueue_operations_ends[OF assms(2)], of s] reachable_inv[OF assms(1)]
  by (simp add: es_within_def no_more_ready_refl)

theorem submission_enqueue_recursion_ends_witness:
  "snd (submission_enqueue_operations 2 example_submission (es_init [True] (Some 1) 0 example_db :: unit es_state))
     \<noteq> Inl RuntimeError"
proof -
  have "length (ready_datasets example_submission (es_db (es_init [True] (Some 1) 0 example_db :: unit es_state))) \<le> 1"
    by (simp add: ready_datasets_def es_init_def example_db_def)
  then show ?thesis by (intro submission_enqueue_recursion_ends[OF es_reachable.init]) simp
qed

section \<open>Where operations are, and what the queue shows\<close>



lemma example_enqueued:
  "es_op COMPILATION 7 5 None \<in> es_queued (fst (es_enqueue (es_op COMPILATION 7 5 None) 2 0
     (es_init [True] None 0 example_db :: unit es_state)))"
proof -
  let ?s = "es_init [True] None 0 example_db :: unit es_state" and ?op = "es_op COMPILATION 7 5 None"
  have i: "es_inv ?s" by (rule reachable_inv[OF es_reachable.init])
  have "ee_contains (evaluation_executor_init [True] :: unit evaluation_executor) ?op = False" by code_simp
  moreover have "?op \<notin> es_cached ?s" by (simp add: es_init_def es_cached_def fl_init_def fl_contains_def dict_has_def)
  moreover have "es_exec ?s = evaluation_executor_init [True]" by (simp add: es_init_def)
  ultimately have "?op \<notin> es_known ?s"
    using ee_contains_places[OF i, of ?op] by (simp add: es_known_def)
  then show ?thesis using es_enqueue_known[OF i, of ?op 2 0] by auto
qed

text \<open>(C10) The queue status that the service reports is right although it is kept incrementally: an entry
  stands for one kind of operation, object, dataset and priority, its multiplicity is the number of
  operations of that kind in the queue and is positive, and every queued operation is counted in
  some entry.\<close>

theorem queue_status_counts_operations:
  assumes "es_reachable s"
  defines "kind \<equiv> \<lambda>ce. ((ce_type ce, ce_object_id ce, ce_dataset_id ce), ce_priority ce)"
  shows "(\<forall>ce\<in>set (es_queue_status s).
      0 < ce_multiplicity ce \<and> ce_multiplicity ce = int (card (waiting (ee_content (es_exec s)) (kind ce)))) \<and>
    (\<forall>op\<in>es_queued s. \<exists>ce\<in>set (es_queue_status s). op \<in> waiting (ee_content (es_exec s)) (kind ce))"
proof -
  let ?cum = "ee_queue_status_cumulative (es_exec s)" and ?m = "ee_content (es_exec s)"
  have "cum_ok ?cum ?m" using reachable_inv[OF assms(1)] by (simp add: es_inv_def ee_queue_inv_def)
  then have ok: "dict_ok ?cum" "finite (dom ?m)" "summary_ok (map_of ?cum key) (waiting ?m key) key" for key
    unfolding cum_ok_def by blast+
  have status: "set (es_queue_status s) = snd ` set ?cum" by (simp add: es_queue_status_def)
  have "0 < ce_multiplicity ce \<and> ce_multiplicity ce = int (card (waiting ?m (kind ce)))" if "ce \<in> set (es_queue_status s)" for ce
  proof -
    from that obtain key where "(key, ce) \<in> set ?cum" unfolding status by auto
    then have "map_of ?cum key = Some ce" using ok(1) by (simp add: dict_ok_def)
    with ok(3)[of key] have "waiting ?m key \<noteq> {}" "ce_multiplicity ce = int (card (waiting ?m key))" "kind ce = key"
      by (simp_all add: summary_ok_def kind_def prod_eq_iff)
    then show ?thesis using finite_waiting[OF ok(2)] by (simp add: card_gt_0_iff)
  qed
  moreover have "\<exists>ce\<in>set (es_queue_status s). op \<in> waiting ?m (kind ce)" if op: "op \<in> es_queued s" for op
  proof -
    obtain p t n where m: "?m op = Some (p, t, n)" using op by (auto simp: es_queued_def)
    let ?key = "(short_key op, p)"
    have w: "op \<in> waiting ?m ?key" using m by (simp add: waiting_def)
    with ok(3)[of ?key] obtain ce where ce: "map_of ?cum ?key = Some ce" "kind ce = ?key"
      by (auto simp: summary_ok_def kind_def split: option.splits)
    then have "ce \<in> set (es_queue_status s)" unfolding status using map_of_SomeD by force
    with w ce(2) show ?thesis by (intro bexI[of _ ce]) (simp only:)
  qed
  ultimately show ?thesis by blast
qed

theorem queue_status_counts_operations_witness:
  "\<exists>ce. ce \<in> set (es_queue_status
      (fst (es_enqueue (es_op COMPILATION 7 5 None) 2 0 (es_init [True] None 0 example_db :: unit es_state)))) \<and>
    0 < ce_multiplicity ce"
proof -
  let ?s = "es_init [True] None 0 example_db :: unit es_state" and ?op = "es_op COMPILATION 7 5 None"
  have r: "es_reachable ?s" by (rule es_reachable.init)
  have "?op \<in> es_queued (fst (es_enqueue ?op 2 0 ?s))" by (rule example_enqueued)
  then show ?thesis
    using queue_status_counts_operations[OF es_reachable.enqueue[OF r], of ?op 2 0] by blast
qed

text \<open>One turn of the executor with an idle worker pool takes between one and twenty-five operations out
  of a non-empty queue: the first ones in the order of priority, age and arrival, each recorded
  with its priority and timestamp; everything else stays queued.\<close>

theorem extract_step_takes_first_operations:
  assumes "es_reachable s" "ee_currently_executing (es_exec s) = []" "es_queued s \<noteq> {}" "wp_len (ee_pool (es_exec s)) \<noteq> 0"
  shows "\<exists>es. ee_currently_executing (es_exec (extract_step s)) = map qe_item es \<and>
    1 \<le> length es \<and> length es \<le> 25 \<and> distinct (map qe_item es) \<and> sorted (map entry_key es) \<and>
    (\<forall>e\<in>set es. ee_content (es_exec s) (qe_item e) = Some (entry_key e) \<and>
      map_of (ee_side_data (es_exec (extract_step s))) (qe_item e) = Some (qe_priority e, qe_timestamp e)) \<and>
    es_queued (extract_step s) = es_queued s - qe_item ` set es \<and>
    (\<forall>e\<in>set es. \<forall>op k. ee_content (es_exec (extract_step s)) op = Some k \<longrightarrow> entry_key e \<le> k)"
proof -
  have q: "ee_queue_inv (es_exec s)" using reachable_inv[OF assms(1)] by (simp add: es_inv_def)
  have ne: "ee_content (es_exec s) \<noteq> Map.empty" using assms(3) by (auto simp: es_queued_def)
  obtain es ee' mx where e: "ee_run_extract (es_exec s) = Some (Inr (es, ee'))" "es \<noteq> []"
      "pops (as_res (ee_pop False)) (es_exec s) es ee'" "length es \<le> mx" "mx \<le> 25"
    using ee_run_extract_pops[OF q ne assms(4)] by blast
  note c = ee_queue.pops_content[OF q e(3)] and g = ee_queue.pops_rest_greater[OF q e(3)]
  let ?side = "fold (\<lambda>e d. dict_set d (qe_item e) (qe_priority e, qe_timestamp e)) es (ee_side_data ee')"
  have x: "extract_step s = s\<lparr>es_exec := ee'\<lparr>ee_side_data := ?side, ee_currently_executing := map qe_item es\<rparr>\<rparr>"
    using e(1) by (simp add: extract_step_def execute_begin_def execute_begin_loop stm_simps)
  have side: "map_of ?side (qe_item e) = Some (qe_priority e, qe_timestamp e)" if "e \<in> set es" for e
    using that c side_data_recorded by blast
  show ?thesis
    using e(2,4,5) c g side by (intro exI[of _ es]) (auto simp: x es_queued_def restrict_map_def Suc_le_eq split: if_splits)
qed

lemma es_enqueue_frame:
  "ee_pool (es_exec (fst (es_enqueue op p t s))) = ee_pool (es_exec s)"
  "ee_currently_executing (es_exec (fst (es_enqueue op p t s))) = ee_currently_executing (es_exec s)"
proof -
  have "frame (es_exec s) (fst (ee_enqueue t op p t (es_exec s)))"
  proof (cases "ex_enqueue t (ee_executor (es_exec s)) op (Some p) (Some t)")
    case (Inr y)
    then show ?thesis
      by (cases y; cases "map_of (ee_queue_status_cumulative (es_exec s)) (cumulative_key op p)")
        (simp_all add: frame_def ee_enqueue_def Let_def)
  qed (simp add: frame_def ee_enqueue_def)
  then show "ee_pool (es_exec (fst (es_enqueue op p t s))) = ee_pool (es_exec s)"
    "ee_currently_executing (es_exec (fst (es_enqueue op p t s))) = ee_currently_executing (es_exec s)"
    by (auto simp: es_enqueue_def on_exec_def frame_def split: prod.split)
qed

theorem extract_step_takes_first_operations_witness:
  "\<exists>es :: es_operation queue_entry list. ee_currently_executing (es_exec (extract_step
      (fst (es_enqueue (es_op COMPILATION 7 5 None) 2 0 (es_init [True] None 0 example_db :: unit es_state))))) = map qe_item es \<and>
    1 \<le> length es"
proof -
  let ?s = "es_init [True] None 0 example_db :: unit es_state" and ?op = "es_op COMPILATION 7 5 None"
  let ?s1 = "fst (es_enqueue ?op 2 0 ?s)"
  have r: "es_reachable ?s" by (rule es_reachable.init)
  have q: "?op \<in> es_queued ?s1" by (rule example_enqueued)
  have "wp_len (ee_pool (evaluation_executor_init [True] :: unit evaluation_executor)) \<noteq> 0"
    "ee_currently_executing (evaluation_executor_init [True] :: unit evaluation_executor) = []" by code_simp+
  moreover have "es_exec ?s = evaluation_executor_init [True]" by (simp add: es_init_def)
  ultimately have "wp_len (ee_pool (es_exec ?s1)) \<noteq> 0" "ee_currently_executing (es_exec ?s1) = []"
    unfolding es_enqueue_frame by (simp_all only: simp_thms)
  note idle = this
  have ne: "es_queued ?s1 \<noteq> {}" using q by (intro notI) (simp only: empty_iff)
  from extract_step_takes_first_operations[OF es_reachable.enqueue[OF r] idle(2) ne idle(1)] show ?thesis
    by blast
qed

section \<open>Results of objects that are gone\<close>

text \<open>When the result of a compilation is flushed after the submission was deleted, the first loop of
  \<open>write_results\<close> skips it with a message but the last loop still looks the result up and uses it: the
  flush raises \<open>AttributeError\<close>, writes nothing, and the block stays in the cache, so that the
  operation is refused from then on.\<close>

theorem flush_of_deleted_submission_raises:
  assumes "op_type op = COMPILATION"
    and "get_from_id sub_id (db_submissions (es_db s)) (op_object_id op) = None"
    and "get_from_id sr_key (db_submission_results (es_db s)) (op_object_id op, op_dataset_id op) = None"
    and "fl_d (es_result_cache s) = [(op, r)]" "fl_fd (es_result_cache s) = []"
  shows "\<exists>s'. flush_results fuel s = (s', Inl AttributeError) \<and> es_db s' = es_db s \<and>
    es_enqueue op p t s' = (s', Inr False)"
proof -
  let ?s = "s\<lparr>es_result_cache := (es_result_cache s)\<lparr>fl_fd := [(op, r)], fl_d := []\<rparr>\<rparr>"
  have key: "short_key op = (COMPILATION, op_object_id op, op_dataset_id op)" using assms(1) by (simp add: short_key_def)
  have "write_group fuel (short_key op) [(op, r)] ?s = (?s, Inr ())"
    unfolding key using assms(2) by (simp add: write_group_def stm_simps split: option.split)
  moreover have "set_outcome (short_key op) ?s = (?s, Inr ())"
    unfolding key by (simp add: set_outcome_def stm_simps op_types)
  moreover have "end_group fuel (short_key op) ?s = (?s, Inl AttributeError)"
    unfolding key using assms(3) by (simp add: end_group_def find_sr_def or_attribute_error_def stm_simps)
  ultimately have "write_results fuel [(op, r)] ?s = (?s, Inl AttributeError)"
    by (simp add: write_results_def group_results_def dict_set_def stm_simps)
  then have "flush_results fuel s = (?s, Inl AttributeError)"
    using assms(4,5) by (simp add: flush_results_def fl_flush_def flush_begin_def stm_simps)
  moreover have "es_enqueue op p t ?s = (?s, Inr False)"
    by (simp add: es_enqueue_def fl_contains_def dict_has_def)
  ultimately show ?thesis by (intro exI[of _ ?s]) simp
qed

theorem flush_of_deleted_submission_raises_witness:
  "\<exists>(s :: unit es_state) s'. flush_results 1 s = (s', Inl AttributeError)"
proof -
  let ?op = "es_op COMPILATION 99 5 None"
  let ?j = "\<lparr>job_class = CompilationJob, job_operation = ?op, job_success = False, job_compilation_success = False,
    job_outcome = None, job_text = [], job_user_output = None, job_executables = [], job_shard = None,
    job_sandboxes = [], job_plus = None\<rparr>"
  let ?r = "\<lparr>res_job = ?j, res_job_success = False\<rparr>"
  let ?s0 = "es_init [True] None 0 example_db :: unit es_state"
  let ?s = "?s0\<lparr>es_result_cache := (es_result_cache ?s0)\<lparr>fl_d := [(?op, ?r)]\<rparr>\<rparr>"
  have "op_type ?op = COMPILATION"
    "get_from_id sub_id (db_submissions (es_db ?s)) (op_object_id ?op) = None"
    "get_from_id sr_key (db_submission_results (es_db ?s)) (op_object_id ?op, op_dataset_id ?op) = None"
    "fl_d (es_result_cache ?s) = [(?op, ?r)]" "fl_fd (es_result_cache ?s) = []"
    by (simp_all add: es_init_def es_op_def example_db_def example_submission_def get_from_id_def fl_init_def
        sr_key_def new_submission_result_def sr_update_defs)
  from flush_of_deleted_submission_raises[OF this, of 1] show ?thesis by blast
qed

end
