(* ===== verification/Python_Text.thy ===== *)
theory Python_Text
  imports Prelude
begin

text \<open>
  What the program uses of Python's string methods: \<open>str.split()\<close> and \<open>str.strip()\<close> without
  arguments, and \<open>float(s)\<close>. Floats are reals here, so \<open>float\<close> covers decimal and exponent notation;
  the literals \<open>inf\<close> and \<open>nan\<close> and digit separators are not numbers of the model and raise
  \<open>ValueError\<close> like every other malformed string.
\<close>

definition is_space :: "char \<Rightarrow> bool" where
  "is_space c \<longleftrightarrow> of_char c \<in> {9, 10, 11, 12, 13, 28, 29, 30, 31, 32 :: nat}"

definition is_digit :: "char \<Rightarrow> bool" where
  "is_digit c \<longleftrightarrow> (48 :: nat) \<le> of_char c \<and> of_char c \<le> (57 :: nat)"

definition lstrip :: "string \<Rightarrow> string" where
  "lstrip s = dropWhile is_space s"

definition strip :: "string \<Rightarrow> string" where
  "strip s = rev (lstrip (rev (lstrip s)))"

text \<open>\<open>s.split()\<close>, for a given notion of white space: the maximal runs of other
  characters.\<close>

function split_on :: "(char \<Rightarrow> bool) \<Rightarrow> string \<Rightarrow> string list" where
  "split_on sp s =
     (case dropWhile sp s of
        [] \<Rightarrow> []
      | c # cs \<Rightarrow> (c # takeWhile (\<lambda>x. \<not> sp x) cs) # split_on sp (dropWhile (\<lambda>x. \<not> sp x) cs))"
  by pat_completeness auto
termination
proof (relation "measure (length \<circ> snd)", simp)
  fix sp and s cs :: string and c
  assume "dropWhile sp s = c # cs"
  then have "length (c # cs) \<le> length s" by (metis length_dropWhile_le)
  moreover have "length (dropWhile (\<lambda>x. \<not> sp x) cs) \<le> length cs" by (rule length_dropWhile_le)
  ultimately show "((sp, dropWhile (\<lambda>x. \<not> sp x) cs), sp, s) \<in> measure (length \<circ> snd)" by simp
qed

declare split_on.simps [simp del]

definition split_ws :: "string \<Rightarrow> string list" where
  "split_ws = split_on is_space"

definition nat_of_digits :: "string \<Rightarrow> nat" where
  "nat_of_digits ds = fold (\<lambda>c n. 10 * n + (of_char c - 48)) ds 0"

text \<open>An optional sign: whether it is a minus, and the rest.\<close>

definition read_sign :: "string \<Rightarrow> bool \<times> string" where
  "read_sign s =
     (case s of
        [] \<Rightarrow> (False, [])
      | c # cs \<Rightarrow> if c = CHR ''-'' then (True, cs) else if c = CHR ''+'' then (False, cs) else (False, s))"

definition read_exponent :: "string \<Rightarrow> int option" where
  "read_exponent s =
     (case s of
        [] \<Rightarrow> Some 0
      | c # cs \<Rightarrow>
          if c = CHR ''e'' \<or> c = CHR ''E'' then
            (case read_sign cs of (neg, ds) \<Rightarrow>
               if ds \<noteq> [] \<and> list_all is_digit ds
               then Some (if neg then - int (nat_of_digits ds) else int (nat_of_digits ds))
               else None)
          else None)"

definition py_float :: "string \<Rightarrow> real res" where
  "py_float s =
     (case read_sign (strip s) of (neg, u) \<Rightarrow>
        let ds = takeWhile is_digit u; r1 = dropWhile is_digit u;
            (fs, r2) = (case r1 of
                [] \<Rightarrow> ([], r1)
              | c # r \<Rightarrow> if c = CHR ''.'' then (takeWhile is_digit r, dropWhile is_digit r) else ([], r1))
        in if ds = [] \<and> fs = [] then Inl ValueError
           else case read_exponent r2 of
             None \<Rightarrow> Inl ValueError
           | Some e \<Rightarrow>
               Inr ((if neg then -1 else 1) * (real (nat_of_digits (ds @ fs)) / 10 ^ length fs) *
                    (if e < 0 then 1 / 10 ^ nat (- e) else 10 ^ nat e)))"

text \<open>\<open>round(x, n)\<close>: to the nearest multiple of \<open>10 ^ -n\<close>, a tie to the even one.\<close>

definition round_half_even :: "real \<Rightarrow> int" where
  "round_half_even x =
     (let f = \<lfloor>x\<rfloor>; d = x - real_of_int f in
      if d < 1 / 2 then f else if d > 1 / 2 then f + 1 else if even f then f else f + 1)"

definition py_round :: "real \<Rightarrow> nat \<Rightarrow> real" where
  "py_round x n = real_of_int (round_half_even (x * 10 ^ n)) / 10 ^ n"

section \<open>Splitting\<close>

lemma split_on_Nil [simp]: "split_on sp [] = []"
  by (simp add: split_on.simps)

lemma split_on_space [simp]: "sp c \<Longrightarrow> split_on sp (c # cs) = split_on sp cs"
  by (subst (1 2) split_on.simps) simp

lemma split_on_word:
  assumes "w \<noteq> []" "\<forall>c\<in>set w. \<not> sp c" "rest = [] \<or> sp (hd rest)"
  shows "split_on sp (w @ rest) = w # split_on sp rest"
proof -
  obtain c cs where w: "w = c # cs" using assms(1) by (cases w) auto
  have "takeWhile (\<lambda>x. \<not> sp x) (cs @ rest) = cs" "dropWhile (\<lambda>x. \<not> sp x) (cs @ rest) = rest"
    using assms(2,3) w by (auto simp: takeWhile_append dropWhile_append intro: takeWhile_eq_Nil_iff[THEN iffD2])
      (cases rest; simp)+
  then show ?thesis
    using assms(2) w by (subst split_on.simps) simp
qed

lemma split_on_pieces: "w \<in> set (split_on sp s) \<Longrightarrow> w \<noteq> [] \<and> (\<forall>c\<in>set w. \<not> sp c)"
proof (induction sp s rule: split_on.induct)
  case (1 sp s)
  show ?case
  proof (cases "dropWhile sp s")
    case Nil
    then have "split_on sp s = []" by (subst split_on.simps) (simp only: list.case)
    then show ?thesis using 1(2) by simp
  next
    case (Cons c cs)
    then have "\<not> sp c" using hd_dropWhile[of sp s] by simp
    have "split_on sp s = (c # takeWhile (\<lambda>x. \<not> sp x) cs) # split_on sp (dropWhile (\<lambda>x. \<not> sp x) cs)"
      by (subst split_on.simps) (simp only: Cons list.case)
    then have "w = c # takeWhile (\<lambda>x. \<not> sp x) cs \<or> w \<in> set (split_on sp (dropWhile (\<lambda>x. \<not> sp x) cs))"
      using 1(2) by simp
    then show ?thesis
    proof
      assume w: "w = c # takeWhile (\<lambda>x. \<not> sp x) cs"
      show ?thesis unfolding w using \<open>\<not> sp c\<close> set_takeWhileD[of _ "\<lambda>x. \<not> sp x" cs] by simp
    next
      assume "w \<in> set (split_on sp (dropWhile (\<lambda>x. \<not> sp x) cs))"
      then show ?thesis by (rule 1(1)[OF Cons])
    qed
  qed
qed

end
