(* ===== verification/Elo.thy ===== *)
theory Elo
  imports Prelude
begin

text \<open>
  The class \<open>Elo\<close> of \<^verbatim>\<open>cms/service/PvPService.py\<close>: ratings of the participations on one testcase,
  their update after a match, and their conversion to scores. A rating table is a dictionary
  from participation ids to ratings.
\<close>

type_synonym elo = "(int, real) dict"

definition S_RATING :: real where "S_RATING = 1500"

definition elo_init :: "int list \<Rightarrow> elo" where
  "elo_init participation_ids = fold (\<lambda>i d. dict_set d i S_RATING) participation_ids []"

definition expected_score :: "real \<Rightarrow> real \<Rightarrow> real" where
  "expected_score rating_a rating_b = 1 / (1 + 10 powr ((rating_b - rating_a) / 400))"

definition update_elo :: "real \<Rightarrow> real \<Rightarrow> real \<Rightarrow> real \<Rightarrow> real" where
  "update_elo rating expected actual k = rating + k * (actual - expected)"

definition py_div :: "real \<Rightarrow> real \<Rightarrow> real res" where
  "py_div x y = (if y = 0 then Inl ZeroDivisionError else Inr (x / y))"

definition update_scores :: "elo \<Rightarrow> int \<Rightarrow> int \<Rightarrow> real \<Rightarrow> real \<Rightarrow> real \<Rightarrow> elo res" where
  "update_scores players player_a player_b result1 result2 k =
     res_bind (dict_get players player_a) (\<lambda>ra.
     res_bind (dict_get players player_b) (\<lambda>rb.
       let expected_a = expected_score ra rb; expected_b = expected_score rb ra; sm = result1 + result2 in
       res_bind (py_div result1 sm) (\<lambda>r1.
       res_bind (py_div result2 sm) (\<lambda>r2.
         let players1 = dict_set players player_a (update_elo ra expected_a r1 k) in
         res_bind (dict_get players1 player_b) (\<lambda>rb1.
           Inr (dict_set players1 player_b (update_elo rb1 expected_b r2 k)))))))"

section \<open>Scores from ratings\<close>

definition divisions :: "(nat \<times> real \<times> real) list" where
  "divisions = [(10, 85/100, 1), (30, 60/100, 85/100), (30, 35/100, 60/100), (20, 20/100, 35/100), (10, 5/100, 20/100)]"

definition calc_score :: "real \<Rightarrow> real \<Rightarrow> real \<Rightarrow> real \<Rightarrow> real \<Rightarrow> real res" where
  "calc_score rating min_rating max_rating min_score max_score =
     res_bind (py_assert (min_rating \<le> rating \<and> rating \<le> max_rating)) (\<lambda>_.
       if min_rating = max_rating then Inr max_score
       else Inr ((max_score - min_score) * (rating - min_rating) / (max_rating - min_rating) + min_score))"

fun calc_scores :: "(int \<times> real) list \<Rightarrow> real \<Rightarrow> real \<Rightarrow> real \<Rightarrow> real \<Rightarrow> (int \<times> real) list res" where
  "calc_scores [] min_rating max_rating min_score max_score = Inr []"
| "calc_scores ((p_id, rating) # ps) min_rating max_rating min_score max_score =
     res_bind (calc_score rating min_rating max_rating min_score max_score) (\<lambda>x.
     res_bind (calc_scores ps min_rating max_rating min_score max_score) (\<lambda>xs. Inr ((p_id, x) # xs)))"

text \<open>The loop over the divisions, with the local variables \<open>last\<close>, \<open>sum_percent\<close> and
  \<open>scores\<close>.\<close>

fun to_scores_loop ::
  "(int \<times> real) list \<Rightarrow> nat \<Rightarrow> (nat \<times> real \<times> real) list \<Rightarrow> nat \<Rightarrow> nat \<Rightarrow> (int \<times> real) list \<Rightarrow>
   (nat \<times> (int \<times> real) list) res"
where
  "to_scores_loop ratings total_number [] lst sum_percent scores = Inr (lst, scores)"
| "to_scores_loop ratings total_number ((percent, min_score, max_score) # div') lst sum_percent scores =
     (let sum_percent' = sum_percent + percent;
          pos = nat \<lceil>real (total_number * sum_percent') / 100\<rceil> in
      if lst = pos then to_scores_loop ratings total_number div' lst sum_percent' scores
      else
        res_bind (py_nth ratings lst) (\<lambda>top.
        res_bind (py_nth ratings (pos - 1)) (\<lambda>bottom.
        res_bind (calc_scores (drop lst (take pos ratings)) (snd bottom) (snd top) min_score max_score) (\<lambda>xs.
          to_scores_loop ratings total_number div' pos sum_percent' (scores @ xs)))))"

text \<open>Python's sort with \<open>reverse=True\<close> is stable. The last loop runs over \<open>scores[last:]\<close>, not over
  the ratings.\<close>

definition sorted_ratings :: "elo \<Rightarrow> (int \<times> real) list" where
  "sorted_ratings players = sort_key (\<lambda>x. - snd x) players"

definition to_scores :: "elo \<Rightarrow> (int \<times> real) list res" where
  "to_scores players =
     (let ratings = sorted_ratings players;
          total_number = length (filter (\<lambda>x. snd x > 0) ratings) in
      res_bind (to_scores_loop ratings total_number divisions 0 0 []) (\<lambda>(lst, scores).
        Inr (scores @ map (\<lambda>p. (fst p, 0)) (drop lst scores))))"

section \<open>Ratings\<close>

lemma expected_bounds: "0 < expected_score a b" "expected_score a b < 1"
  by (simp_all add: expected_score_def add_pos_pos)

lemma expected_sum: "expected_score a b + expected_score b a = 1"
proof -
  define x where "x = 10 powr ((b - a) / 400)"
  have x: "0 < x" by (simp add: x_def)
  have "10 powr ((a - b) / 400) = 1 / x"
    using powr_minus_divide[of 10 "(b - a) / 400"] by (simp add: x_def minus_divide_left)
  then have "expected_score a b + expected_score b a = 1 / (1 + x) + 1 / (1 + 1 / x)"
    by (simp add: expected_score_def x_def)
  also have "\<dots> = 1" using x by (simp add: field_simps)
  finally show ?thesis .
qed

lemma expected_mono: "expected_score a b \<le> expected_score a' b" if "a \<le> a'"
  unfolding expected_score_def using that
  by (intro divide_left_mono add_left_mono powr_mono divide_right_mono mult_pos_pos add_pos_pos) auto

lemma expected_even: "expected_score a a = 1 / 2"
  by (simp add: expected_score_def)

lemma update_scores_run:
  assumes "dict_get players a = Inr ra" "dict_get players b = Inr rb" "a \<noteq> b" "r1 + r2 \<noteq> 0"
  shows "update_scores players a b r1 r2 k =
    Inr (dict_set (dict_set players a (ra + k * (r1 / (r1 + r2) - expected_score ra rb)))
           b (rb + k * (r2 / (r1 + r2) - expected_score rb ra)))"
  using assms by (simp add: update_scores_def res_simps py_div_def update_elo_def Let_def dict_get_def dict_simps)

text \<open>(C11) A match moves rating points from one player to the other: the sum of the two ratings stays the
  same, neither changes by as much as \<open>k\<close>, the player who did better than expected gains, and
  nobody else is touched.\<close>

theorem elo_update_zero_sum:
  assumes "map_of players a = Some ra" "map_of players b = Some rb" "a \<noteq> b"
    and "0 \<le> r1" "0 \<le> r2" "0 < r1 + r2" "0 < k"
  shows "\<exists>players' ra' rb'. update_scores players a b r1 r2 k = Inr players' \<and>
    map_of players' = (map_of players)(a \<mapsto> ra', b \<mapsto> rb') \<and> ra' + rb' = ra + rb \<and>
    \<bar>ra' - ra\<bar> < k \<and> (ra < ra' \<longleftrightarrow> expected_score ra rb < r1 / (r1 + r2))"
proof -
  let ?ra = "ra + k * (r1 / (r1 + r2) - expected_score ra rb)"
  let ?rb = "rb + k * (r2 / (r1 + r2) - expected_score rb ra)"
  have "r1 / (r1 + r2) + r2 / (r1 + r2) = 1"
    using assms(6) by (simp flip: add_divide_distrib)
  then have other: "r2 / (r1 + r2) - expected_score rb ra = - (r1 / (r1 + r2) - expected_score ra rb)"
    using expected_sum[of ra rb] by linarith
  have sum: "?ra + ?rb = ra + rb"
    unfolding other by (simp add: algebra_simps)
  have "0 \<le> r1 / (r1 + r2)" "r1 / (r1 + r2) \<le> 1"
    using assms(4-6) by simp_all
  then have "\<bar>r1 / (r1 + r2) - expected_score ra rb\<bar> < 1"
    using expected_bounds[of ra rb] by linarith
  then have "\<bar>?ra - ra\<bar> < k"
    using assms(7) by (simp add: abs_mult)
  moreover have "ra < ?ra \<longleftrightarrow> expected_score ra rb < r1 / (r1 + r2)"
    using assms(7) by (simp add: zero_less_mult_iff)
  ultimately show ?thesis
    using update_scores_run[of players a ra b rb r1 r2 k] assms sum
    by (intro exI[of _ "dict_set (dict_set players a ?ra) b ?rb"] exI[of _ ?ra] exI[of _ ?rb])
      (simp add: dict_simps)
qed

theorem elo_update_zero_sum_witness:
  "\<exists>players'. update_scores [(1, 1500), (2, 1500)] 1 2 1 0 10 = Inr players' \<and>
     (\<exists>ra' rb'. map_of players' 1 = Some ra' \<and> map_of players' 2 = Some rb' \<and> ra' + rb' = 3000 \<and> 1500 < ra')"
  using elo_update_zero_sum[of "[(1, 1500), (2, 1500)]" 1 1500 2 1500 1 0 10] by (auto simp: expected_even)

section \<open>Scores\<close>

lemma calc_scores_run:
  assumes "\<forall>p\<in>set ps. mn \<le> snd p \<and> snd p \<le> mx"
  shows "calc_scores ps mn mx lo hi = Inr (map (\<lambda>(i, r). (i,
    if mn = mx then hi else (hi - lo) * (r - mn) / (mx - mn) + lo)) ps)"
  using assms by (induction ps) (auto simp: calc_score_def py_assert_def res_simps)

lemma score_in_band:
  fixes r :: real
  assumes "mn \<le> r" "r \<le> mx" "mn \<noteq> mx" "lo \<le> hi"
  shows "lo \<le> (hi - lo) * (r - mn) / (mx - mn) + lo" "(hi - lo) * (r - mn) / (mx - mn) + lo \<le> hi"
proof -
  have d: "0 < mx - mn" using assms by simp
  show "lo \<le> (hi - lo) * (r - mn) / (mx - mn) + lo" using assms d by simp
  have "(hi - lo) * (r - mn) \<le> (hi - lo) * (mx - mn)" using assms by (intro mult_left_mono) auto
  then have "(hi - lo) * (r - mn) / (mx - mn) \<le> hi - lo" using d by (simp add: pos_divide_le_eq)
  then show "(hi - lo) * (r - mn) / (mx - mn) + lo \<le> hi" by simp
qed

text \<open>The scores of one division: same players, non-increasing, within the division's band.\<close>

lemma calc_scores_band:
  assumes "sorted_wrt (\<lambda>x y. snd x \<ge> snd y) ps" "\<forall>p\<in>set ps. mn \<le> snd p \<and> snd p \<le> mx" "lo \<le> hi"
  shows "\<exists>ys. calc_scores ps mn mx lo hi = Inr ys \<and> map fst ys = map fst ps \<and>
    sorted_wrt (\<ge>) (map snd ys) \<and> (\<forall>y\<in>set ys. lo \<le> snd y \<and> snd y \<le> hi)"
proof -
  let ?f = "\<lambda>r. if mn = mx then hi else (hi - lo) * (r - mn) / (mx - mn) + lo"
  have mono: "?f r \<le> ?f r'" if "r \<le> r'" "mn \<le> r" "r' \<le> mx" for r r'
    using that assms(3) by (auto intro!: divide_right_mono mult_left_mono)
  have "sorted_wrt (\<ge>) (map (?f \<circ> snd) ps)"
    unfolding sorted_wrt_map comp_def
    by (rule sorted_wrt_mono_rel[OF _ assms(1)]) (use mono assms(2) in blast)
  moreover have "lo \<le> ?f (snd p) \<and> ?f (snd p) \<le> hi" if "p \<in> set ps" for p
    using score_in_band[of mn "snd p" mx lo hi] assms(2,3) that by auto
  ultimately show ?thesis
    unfolding calc_scores_run[OF assms(2)]
    by (intro exI[of _ "map (\<lambda>(i, r). (i, ?f r)) ps"]) (auto simp: case_prod_beta comp_def)
qed

definition cut :: "nat \<Rightarrow> nat \<Rightarrow> nat" where
  "cut n s = nat \<lceil>real (n * s) / 100\<rceil>"

lemma cut_simps: "cut n 0 = 0" "cut n 100 = n"
  by (simp_all add: cut_def)

lemma cut_mono: "s \<le> t \<Longrightarrow> cut n s \<le> cut n t"
  unfolding cut_def by (intro nat_mono ceiling_mono divide_right_mono) (auto intro: mult_left_mono)

lemma cut_le: "s \<le> 100 \<Longrightarrow> cut n s \<le> n"
  using cut_mono[of s 100 n] by (simp add: cut_simps)

text \<open>Divisions whose bands touch, from \<open>hi\<close> down to \<open>lo\<close>.\<close>

fun bands :: "real \<Rightarrow> (nat \<times> real \<times> real) list \<Rightarrow> real \<Rightarrow> bool" where
  "bands hi [] lo \<longleftrightarrow> hi = lo"
| "bands hi ((p, mn, mx) # ds) lo \<longleftrightarrow> mx = hi \<and> mn \<le> mx \<and> bands mn ds lo"

lemma bands_le: "bands hi ds lo \<Longrightarrow> lo \<le> hi"
  by (induction hi ds lo rule: bands.induct) auto

lemma to_scores_loop_run:
  assumes R: "sorted_wrt (\<lambda>x y. snd x \<ge> snd y) R" and n: "n \<le> length R"
    and "bands hi ds lo" "s0 + sum_list (map fst ds) \<le> 100"
  shows "\<exists>zs. to_scores_loop R n ds (cut n s0) s0 acc = Inr (cut n (s0 + sum_list (map fst ds)), acc @ zs) \<and>
    map fst zs = map fst (drop (cut n s0) (take (cut n (s0 + sum_list (map fst ds))) R)) \<and>
    sorted_wrt (\<ge>) (map snd zs) \<and> (\<forall>z\<in>set zs. lo \<le> snd z \<and> snd z \<le> hi)"
  using assms(3,4)
proof (induction ds arbitrary: hi s0 acc)
  case Nil
  then show ?case by (intro exI[of _ "[]"]) simp
next
  case (Cons d ds)
  obtain p mn mx where d: "d = (p, mn, mx)" by (cases d)
  have b: "mx = hi" "mn \<le> hi" "bands mn ds lo" using Cons.prems(1) by (simp_all add: d)
  let ?l = "cut n s0" and ?pos = "cut n (s0 + p)" and ?stop = "cut n (s0 + sum_list (map fst (d # ds)))"
  have pos: "?l \<le> ?pos" "?pos \<le> ?stop" "?stop \<le> n"
    using Cons.prems(2) by (auto simp: d intro: cut_mono cut_le)
  have step: "nat \<lceil>real (n * (s0 + p)) / 100\<rceil> = ?pos" by (simp add: cut_def)
  note IH = Cons.IH[OF b(3), of "s0 + p"]
  show ?case
  proof (cases "?l = ?pos")
    case True
    from IH[of acc] obtain zs where zs: "to_scores_loop R n ds ?pos (s0 + p) acc = Inr (?stop, acc @ zs)"
      "map fst zs = map fst (drop ?pos (take ?stop R))" "sorted_wrt (\<ge>) (map snd zs)"
      "\<forall>z\<in>set zs. lo \<le> snd z \<and> snd z \<le> mn"
      using Cons.prems(2) by (auto simp: d add.assoc)
    then show ?thesis
      using True b(2) step by (intro exI[of _ zs]) (auto simp: d Let_def)
  next
    case False
    let ?band = "drop ?l (take ?pos R)"
    have lt: "?l < ?pos" "?l < length R" "?pos - 1 < length R" using False pos n by linarith+
    have sb: "sorted_wrt (\<lambda>x y. snd x \<ge> snd y) ?band" by (intro sorted_wrt_drop sorted_wrt_take R)
    have "\<forall>x\<in>set ?band. snd (R ! (?pos - 1)) \<le> snd x \<and> snd x \<le> snd (R ! ?l)"
    proof
      fix x assume "x \<in> set ?band"
      then obtain i where i: "i < ?pos - ?l" "x = R ! (?l + i)"
        using pos n by (auto simp: in_set_conv_nth)
      have "snd (R ! k) \<le> snd (R ! j)" if "j \<le> k" "k < length R" for j k
        using that sorted_wrt_nth_less[OF R, of j k] by (cases "j = k") auto
      then show "snd (R ! (?pos - 1)) \<le> snd x \<and> snd x \<le> snd (R ! ?l)"
        using i lt by simp
    qed
    from calc_scores_band[OF sb this b(2)] obtain ys where
      ys: "calc_scores ?band (snd (R ! (?pos - 1))) (snd (R ! ?l)) mn hi = Inr ys" "map fst ys = map fst ?band"
        "sorted_wrt (\<ge>) (map snd ys)" "\<forall>y\<in>set ys. mn \<le> snd y \<and> snd y \<le> hi" by blast
    from IH[of "acc @ ys"] obtain zs where zs: "to_scores_loop R n ds ?pos (s0 + p) (acc @ ys) = Inr (?stop, (acc @ ys) @ zs)"
      "map fst zs = map fst (drop ?pos (take ?stop R))" "sorted_wrt (\<ge>) (map snd zs)"
      "\<forall>z\<in>set zs. lo \<le> snd z \<and> snd z \<le> mn"
      using Cons.prems(2) by (auto simp: d add.assoc)
    have split: "drop ?l (take ?stop R) = ?band @ drop ?pos (take ?stop R)"
    proof -
      have "take ?stop R = take ?pos R @ take (?stop - ?pos) (drop ?pos R)"
        using take_add[of ?pos "?stop - ?pos" R] pos(2) by simp
      then show ?thesis using pos n by (simp add: drop_take)
    qed
    have lo: "lo \<le> mn" using bands_le[OF b(3)] .
    have "\<forall>y\<in>set ys. \<forall>z\<in>set zs. snd z \<le> snd y"
      using ys(4) zs(4) by (meson order.trans)
    then have "sorted_wrt (\<ge>) (map snd (ys @ zs))"
      using ys(3) zs(3) by (simp add: sorted_wrt_append)
    moreover have "\<forall>z\<in>set (ys @ zs). lo \<le> snd z \<and> snd z \<le> hi"
      using ys(4) zs(4) lo b(2) by fastforce
    moreover have "to_scores_loop R n (d # ds) ?l s0 acc = Inr (?stop, acc @ ys @ zs)"
      using False step lt ys(1) zs(1) b(1) by (simp add: d Let_def py_nth_def res_simps)
    ultimately show ?thesis
      using ys(2) zs(2) split by (intro exI[of _ "ys @ zs"]) simp
  qed
qed

lemma positive_prefix:
  fixes R :: "('a \<times> real) list"
  assumes "sorted_wrt (\<lambda>x y. snd x \<ge> snd y) R"
  shows "take (length (filter (\<lambda>x. 0 < snd x) R)) R = filter (\<lambda>x. 0 < snd x) R"
  using assms
proof (induction R)
  case (Cons x R)
  show ?case
  proof (cases "0 < snd x")
    case False
    then have "\<forall>y\<in>set R. \<not> 0 < snd y" using Cons.prems by auto
    then show ?thesis using False by (simp add: filter_empty_conv)
  qed (use Cons in simp)
qed simp

lemma sorted_ratings_desc: "sorted_wrt (\<lambda>x y. snd x \<ge> snd y) (sorted_ratings players)"
  using sorted_sort_key[of "\<lambda>x. - snd x" players]
  by (simp add: sorted_ratings_def sorted_map)

text \<open>(C12) \<open>to_scores\<close> never raises. It scores exactly the players with a positive rating, in the order of their
  ratings; a better rated player never gets less than a worse rated one, and all scores are
  between 0.05 and 1. A player whose rating is not positive gets no score at all, not the
  score 0 of the last loop.\<close>

theorem to_scores_follow_ratings:
  "\<exists>scores. to_scores players = Inr scores \<and>
     map fst scores = map fst (filter (\<lambda>x. 0 < snd x) (sorted_ratings players)) \<and>
     sorted_wrt (\<ge>) (map snd scores) \<and> (\<forall>x\<in>set scores. 5 / 100 \<le> snd x \<and> snd x \<le> 1)"
proof -
  let ?R = "sorted_ratings players" and ?n = "length (filter (\<lambda>x. 0 < snd x) (sorted_ratings players))"
  have b: "bands 1 divisions (5 / 100)" "0 + sum_list (map fst divisions) \<le> 100" "0 + sum_list (map fst divisions) = 100"
    by (simp_all add: divisions_def)
  have n: "?n \<le> length ?R" by simp
  from to_scores_loop_run[OF sorted_ratings_desc n b(1,2), of "[]"] obtain zs where
    zs: "to_scores_loop ?R ?n divisions 0 0 [] = Inr (?n, zs)" "map fst zs = map fst (take ?n ?R)"
      "sorted_wrt (\<ge>) (map snd zs)" "\<forall>z\<in>set zs. 5 / 100 \<le> snd z \<and> snd z \<le> 1"
    unfolding b(3) by (simp only: cut_simps append_Nil drop_0) blast
  have "length zs = ?n" using arg_cong[OF zs(2), of length] by simp
  then have "to_scores players = Inr zs"
    using zs(1) by (simp add: to_scores_def Let_def res_simps)
  then show ?thesis
    using zs(2-4) positive_prefix[OF sorted_ratings_desc, of players] by (intro exI[of _ zs]) simp
qed

theorem to_scores_follow_ratings_witness:
  "\<exists>scores. to_scores [(1, 1400), (2, 1600), (3, 0)] = Inr scores \<and> map fst scores = [2, 1] \<and>
     sorted_wrt (\<ge>) (map snd scores) \<and> (\<forall>x\<in>set scores. 5 / 100 \<le> snd x \<and> snd x \<le> 1)"
proof -
  have "map fst (filter (\<lambda>x. 0 < snd x) (sorted_ratings [(1, 1400), (2, 1600), (3, 0)])) = [2, 1]"
    by (simp add: sorted_ratings_def)
  then show ?thesis using to_scores_follow_ratings[of "[(1, 1400), (2, 1600), (3, 0)]"] by simp
qed

end
