(* ===== verification/PvP_Pairing.thy ===== *)
theory PvP_Pairing
  imports Prelude
begin

text \<open>
  How \<open>PvPExecutor.start_round\<close> of \<^verbatim>\<open>cms/service/PvPService.py\<close> pairs the players of one testcase. The players
  come as a shuffled list of participation ids and ratings. The random choice among the
  candidates of a player is an index taken from a function of the player, reduced modulo the
  number of candidates: every sequence of choices is obtained from some such function,
  because a player chooses at most once.
\<close>

type_synonym player = "int \<times> real"

definition initial_window :: int where "initial_window = 100"
definition max_window :: int where "max_window = 600"

definition candidates_in :: "player list \<Rightarrow> real \<Rightarrow> int list \<Rightarrow> int \<Rightarrow> player list" where
  "candidates_in players rating matched window =
     filter (\<lambda>p. \<bar>snd p - rating\<bar> \<le> real_of_int window \<and> fst p \<notin> set matched) players"

function find_candidates :: "player list \<Rightarrow> real \<Rightarrow> int list \<Rightarrow> int \<Rightarrow> player list" where
  "find_candidates players rating matched window =
     (if window \<le> max_window then
        let candidates = candidates_in players rating matched window in
        if candidates \<noteq> [] then candidates
        else find_candidates players rating matched (window + 50)
      else [])"
  by pat_completeness auto
termination
  by (relation "measure (\<lambda>(_, _, _, w). nat (max_window + 1 - w))") (auto simp: max_window_def)

declare find_candidates.simps [simp del]

text \<open>The loop over the players: the pairs in the order they are made, and the players left
  without an opponent.\<close>

fun pair_players ::
  "(int \<Rightarrow> nat) \<Rightarrow> player list \<Rightarrow> player list \<Rightarrow> int list \<Rightarrow> (int \<times> int) list \<times> int list"
where
  "pair_players pick players [] matched = ([], [])"
| "pair_players pick players ((p_id, rating) # rest) matched =
     (if p_id \<in> set matched then pair_players pick players rest matched
      else
        let candidates = find_candidates players rating (p_id # matched) initial_window in
        if candidates = [] then
          (case pair_players pick players rest (p_id # matched) of (pairs, byes) \<Rightarrow> (pairs, p_id # byes))
        else
          let opponent_id = fst (candidates ! (pick p_id mod length candidates)) in
          case pair_players pick players rest (opponent_id # p_id # matched) of
            (pairs, byes) \<Rightarrow> ((p_id, opponent_id) # pairs, byes))"

definition make_pairs :: "(int \<Rightarrow> nat) \<Rightarrow> player list \<Rightarrow> (int \<times> int) list" where
  "make_pairs pick players = fst (pair_players pick players players [])"

definition unpaired :: "(int \<Rightarrow> nat) \<Rightarrow> player list \<Rightarrow> int list" where
  "unpaired pick players = snd (pair_players pick players players [])"

section \<open>Candidates\<close>

lemma candidates_mono:
  "w \<le> w' \<Longrightarrow> set (candidates_in players r matched w) \<subseteq> set (candidates_in players r matched w')"
  by (auto simp: candidates_in_def)

lemma find_candidates_sound:
  "set (find_candidates players r matched w) \<subseteq> set (candidates_in players r matched max_window)"
proof (induction players r matched w rule: find_candidates.induct)
  case (1 players r matched w)
  show ?case
    using 1 candidates_mono[of w max_window players r matched]
    by (subst find_candidates.simps) (auto simp: Let_def)
qed

text \<open>The search fails only when nobody is within the largest window: the windows reach it
  exactly.\<close>

lemma find_candidates_complete:
  assumes "find_candidates players r matched w = []" "w \<le> max_window" "(max_window - w) mod 50 = 0"
  shows "candidates_in players r matched max_window = []"
  using assms
proof (induction players r matched w rule: find_candidates.induct)
  case (1 players r matched w)
  then have none: "candidates_in players r matched w = []"
    "find_candidates players r matched (w + 50) = []"
    by (auto simp: find_candidates.simps[of players r matched w] Let_def split: if_splits)
  show ?case
  proof (cases "w = max_window")
    case False
    obtain k where k: "max_window - w = 50 * k" using "1.prems"(3) by (auto elim: dvdE simp: mod_eq_0_iff_dvd)
    then have "1 \<le> k" using False "1.prems"(2) by linarith
    then have "w + 50 \<le> max_window" using k by simp
    moreover have "max_window - (w + 50) = 50 * (k - 1)" using k by (simp add: algebra_simps)
    then have "(max_window - (w + 50)) mod 50 = 0" by (simp only: mod_mult_self1_is_0)
    ultimately have "w + 50 \<le> max_window" "(max_window - (w + 50)) mod 50 = 0" by blast+
    then show ?thesis using "1.IH" "1.prems"(2) none by simp
  qed (use none in simp)
qed

section \<open>Pairs\<close>

text \<open>The players named by a pairing.\<close>

definition named :: "(int \<times> int) list \<Rightarrow> int list \<Rightarrow> int list" where
  "named pairs byes = concat (map (\<lambda>(a, b). [a, b]) pairs) @ byes"

lemma chosen_candidate:
  assumes "find_candidates players r (p # matched) initial_window \<noteq> []" (is "?cs \<noteq> []")
  shows "\<exists>o' r'. ?cs ! (k mod length ?cs) = (o', r') \<and> (o', r') \<in> set players \<and> o' \<noteq> p \<and> o' \<notin> set matched \<and>
    \<bar>r' - r\<bar> \<le> 600"
proof -
  have "?cs ! (k mod length ?cs) \<in> set ?cs" using assms by (simp add: nth_mem)
  then have "?cs ! (k mod length ?cs) \<in> set (candidates_in players r (p # matched) max_window)"
    using find_candidates_sound by blast
  then have "?cs ! (k mod length ?cs) \<in> set players \<and> fst (?cs ! (k mod length ?cs)) \<notin> set (p # matched) \<and>
      \<bar>snd (?cs ! (k mod length ?cs)) - r\<bar> \<le> 600"
    unfolding candidates_in_def max_window_def set_filter by (simp only: mem_Collect_eq of_int_numeral simp_thms)
  then show ?thesis
    by (intro exI[of _ "fst (?cs ! (k mod length ?cs))"] exI[of _ "snd (?cs ! (k mod length ?cs))"]) simp
qed

lemma named_simps:
  "set (named ((a, b) # ps) bs) = insert a (insert b (set (named ps bs)))"
  "distinct (named ((a, b) # ps) bs) \<longleftrightarrow> a \<noteq> b \<and> a \<notin> set (named ps bs) \<and> b \<notin> set (named ps bs) \<and> distinct (named ps bs)"
  "set (named ps (p # bs)) = insert p (set (named ps bs))"
  "distinct (named ps (p # bs)) \<longleftrightarrow> p \<notin> set (named ps bs) \<and> distinct (named ps bs)"
  "named [] [] = []"
  by (auto simp: named_def)

lemma byes_named: "set bs \<subseteq> set (named ps bs)"
  by (auto simp: named_def)

lemma pair_players_correct:
  assumes "pair_players pick players todo matched = (pairs, byes)" "set todo \<subseteq> set players"
  shows "distinct (named pairs byes) \<and> set (named pairs byes) \<inter> set matched = {} \<and>
    fst ` set todo \<subseteq> set (named pairs byes) \<union> set matched \<and> set (named pairs byes) \<subseteq> fst ` set players \<and>
    (\<forall>(a, b)\<in>set pairs. \<exists>ra rb. (a, ra) \<in> set players \<and> (b, rb) \<in> set players \<and> \<bar>rb - ra\<bar> \<le> 600)"
  using assms
proof (induction pick players todo matched arbitrary: pairs byes rule: pair_players.induct)
  case (1 pick players matched)
  then show ?case by (simp add: named_simps)
next
  case (2 pick players p r rest matched)
  let ?cs = "find_candidates players r (p # matched) initial_window"
  have sub: "(p, r) \<in> set players" "set rest \<subseteq> set players" "p \<in> fst ` set players"
    using "2.prems"(2) by force+
  consider "p \<in> set matched" | "p \<notin> set matched" "?cs = []" | "p \<notin> set matched" "?cs \<noteq> []" by blast
  then show ?case
  proof cases
    case 1
    then show ?thesis using "2.IH"(1)[OF 1] "2.prems"(1) sub by auto
  next
    case 2
    obtain ps bs where r: "pair_players pick players rest (p # matched) = (ps, bs)" by fastforce
    then have "pairs = ps" "byes = p # bs" using "2.prems"(1) 2 by auto
    then show ?thesis
      using "2.IH"(2)[OF 2(1) refl 2(2) r sub(2)] sub(3) 2(1) by (auto simp: named_simps)
  next
    case 3
    obtain o' r' where o': "?cs ! (pick p mod length ?cs) = (o', r')" "(o', r') \<in> set players" "o' \<noteq> p"
      "o' \<notin> set matched" "\<bar>r' - r\<bar> \<le> 600"
      using chosen_candidate[OF 3(2)] by blast
    obtain ps bs where rc: "pair_players pick players rest (o' # p # matched) = (ps, bs)" by fastforce
    then have pb: "pairs = (p, o') # ps" "byes = bs" using "2.prems"(1) 3 o'(1) by (auto simp: Let_def)
    note IH = "2.IH"(3)[OF 3(1) refl 3(2) refl, unfolded o'(1) fst_conv, OF rc sub(2)]
    have "o' \<in> fst ` set players" using o'(2) by force
    then show ?thesis
      using IH o'(2-5) 3(1) sub(1,3) by (auto simp: pb named_simps)
  qed
qed

text \<open>Two players without an opponent are too far apart.\<close>

lemma byes_far_apart:
  assumes "pair_players pick players todo matched = (pairs, byes)" "set todo \<subseteq> set players" "distinct (map fst players)"
  shows "\<forall>a\<in>set byes. \<forall>b\<in>set byes. a \<noteq> b \<longrightarrow>
    (\<forall>ra rb. (a, ra) \<in> set players \<longrightarrow> (b, rb) \<in> set players \<longrightarrow> 600 < \<bar>ra - rb\<bar>)"
  using assms
proof (induction pick players todo matched arbitrary: pairs byes rule: pair_players.induct)
  case (2 pick players p r rest matched)
  let ?cs = "find_candidates players r (p # matched) initial_window"
  have sub: "(p, r) \<in> set players" "set rest \<subseteq> set players" using "2.prems"(2) by auto
  consider "p \<in> set matched" | "p \<notin> set matched" "?cs = []" | "p \<notin> set matched" "?cs \<noteq> []" by blast
  then show ?case
  proof cases
    case 1
    then show ?thesis using "2.IH"(1)[OF 1] "2.prems"(1,3) sub by auto
  next
    case 2
    obtain ps bs where rc: "pair_players pick players rest (p # matched) = (ps, bs)" by fastforce
    then have pb: "byes = p # bs" using "2.prems"(1) 2 by auto
    have far: "600 < \<bar>rb - r\<bar>" "600 < \<bar>r - rb\<bar>" if b: "b \<in> set bs" "(b, rb) \<in> set players" for b rb
    proof -
      have "b \<notin> set (p # matched)" using pair_players_correct[OF rc sub(2)] byes_named[of bs ps] b(1) by blast
      moreover have "candidates_in players r (p # matched) max_window = []"
        by (rule find_candidates_complete[OF 2(2)]) (simp_all add: initial_window_def max_window_def)
      ultimately show "600 < \<bar>rb - r\<bar>"
        using b(2) by (auto simp: candidates_in_def filter_empty_conv max_window_def)
      then show "600 < \<bar>r - rb\<bar>" by linarith
    qed
    have "ra = r" if "(p, ra) \<in> set players" for ra
      using "2.prems"(3) that sub(1) by (simp add: eq_key_imp_eq_value)
    then show ?thesis
      using "2.IH"(2)[OF 2(1) refl 2(2) rc sub(2) "2.prems"(3)] far
      by (auto simp: pb)
  next
    case 3
    obtain ps bs where rc: "pair_players pick players rest (fst (?cs ! (pick p mod length ?cs)) # p # matched) = (ps, bs)"
      by fastforce
    then have "byes = bs" using "2.prems"(1) 3 by (auto simp: Let_def)
    then show ?thesis
      using "2.IH"(3)[OF 3(1) refl 3(2) refl rc sub(2) "2.prems"(3)] by simp
  qed
qed simp

text \<open>(C13) The pairing of one testcase is fair, whatever the shuffle and the random choices: every player is
  in exactly one pair or has a bye, nobody meets himself, the ratings of a pair are at most 600
  apart, and two players with a bye are more than 600 apart, so that the search with growing
  windows never leaves out a possible match.\<close>

theorem pairing_is_fair:
  assumes "distinct (map fst players)"
  shows "distinct (named (make_pairs pick players) (unpaired pick players)) \<and>
    set (named (make_pairs pick players) (unpaired pick players)) = fst ` set players \<and>
    (\<forall>(a, b)\<in>set (make_pairs pick players).
       \<exists>ra rb. (a, ra) \<in> set players \<and> (b, rb) \<in> set players \<and> \<bar>rb - ra\<bar> \<le> 600) \<and>
    (\<forall>a\<in>set (unpaired pick players). \<forall>b\<in>set (unpaired pick players). a \<noteq> b \<longrightarrow>
       (\<forall>ra rb. (a, ra) \<in> set players \<longrightarrow> (b, rb) \<in> set players \<longrightarrow> 600 < \<bar>ra - rb\<bar>))"
proof -
  have run: "pair_players pick players players [] = (make_pairs pick players, unpaired pick players)"
    by (simp add: make_pairs_def unpaired_def)
  show ?thesis
    using pair_players_correct[OF run order.refl] byes_far_apart[OF run order.refl assms] by auto
qed

theorem pairing_is_fair_witness:
  "set (named (make_pairs (\<lambda>_. 4) [(1, 1500), (2, 1450), (3, 2500)]) (unpaired (\<lambda>_. 4) [(1, 1500), (2, 1450), (3, 2500)])) =
     {1, 2, 3}"
  using pairing_is_fair[of "[(1, 1500), (2, 1450), (3, 2500)]" "\<lambda>_. 4"] by simp

end
