(* ===== verification/PvP_Service.thy ===== *)
theory PvP_Service
  imports Contest_Db Triggered_Service Python_Text Elo PvP_Pairing
begin

text \<open>
  The service that evaluates player-versus-player tasks in batches of rounds
  (\<^verbatim>\<open>cms/service/PvPService.py\<close>, \<^verbatim>\<open>cms/service/pvpoperations.py\<close>).

  The session of a request sees \<open>pv_db\<close>; what has been committed is \<open>pv_saved\<close>, and \<open>session_gen\<close> starts from
  it and rolls back to it, also when the body raises. Parameters stand for what is outside the program: \<open>now\<close> for the clock,
  \<open>pick\<close> and \<open>shuffle\<close> for the random choices, \<open>show_score\<close> for the conversion of a float to the text
  column of the outcome, \<open>show_rating\<close> for the formatting of the message to the contestant. Where a
  query asks for the first of several rows, it is the first in table order.
\<close>

section \<open>Operations and state\<close>

record pvp_operation =
  po_batch_id :: int

definition pvp_to_dict :: "pvp_operation \<Rightarrow> (string, int) dict" where
  "pvp_to_dict op = [(''batch_id'', po_batch_id op)]"

definition pvp_from_dict :: "(string, int) dict \<Rightarrow> pvp_operation res" where
  "pvp_from_dict d = res_bind (dict_get d ''batch_id'') (\<lambda>i. Inr \<lparr>po_batch_id = i\<rparr>)"

text \<open>The parameters of the task type \<open>PvP\<close>; times are in microseconds.\<close>

record pvp_task_type =
  pt_compilation :: string
  pt_io :: string
  pt_auto_eval :: string
  pt_interval :: datetime
  pt_rounds :: int
  pt_notification_time :: datetime

definition seconds :: "int \<Rightarrow> datetime" where "seconds n = n * 1000000"

definition task_type_object :: "dataset \<Rightarrow> pvp_task_type res" where
  "task_type_object ds =
     (case ds_task_type_parameters ds of
        [P_Str c, P_Str io, P_Str ae, P_Int i, P_Int r, P_Int n] \<Rightarrow>
          Inr \<lparr>pt_compilation = c, pt_io = io, pt_auto_eval = ae, pt_interval = seconds i,
               pt_rounds = r, pt_notification_time = seconds n\<rparr>
      | _ \<Rightarrow> Inl ValueError)"

datatype pvp_message = ES_new_match int | SS_rescore int int

record notification =
  nt_contest_id :: int
  nt_timestamp :: datetime
  nt_title :: string
  nt_minutes :: int
  nt_seconds :: int

record pvp_state =
  pv_executor :: "pvp_operation executor"
  pv_participations :: "(int, (int, int) dict) dict"
  pv_competition_sys :: "(int, (int, elo) dict) dict"
  pv_db :: db
  pv_saved :: db
  pv_sended :: "(int \<times> int) list"
  pv_announcements :: "notification list"
  pv_sent :: "pvp_message list"

definition pvp_init :: "db \<Rightarrow> pvp_state" where
  "pvp_init d =
     \<lparr>pv_executor = executor_init False, pv_participations = [], pv_competition_sys = [], pv_db = d, pv_saved = d,
      pv_sended = [], pv_announcements = [], pv_sent = []\<rparr>"

type_synonym 'a pvp = "(pvp_state, 'a) stm"

definition commit :: "unit pvp" where
  "commit = supd (\<lambda>s. s\<lparr>pv_saved := pv_db s\<rparr>)"

definition session_gen :: "'a pvp \<Rightarrow> 'a pvp" where
  "session_gen m = (\<lambda>s. case m (s\<lparr>pv_db := pv_saved s\<rparr>) of (s', r) \<Rightarrow> (s'\<lparr>pv_db := pv_saved s'\<rparr>, r))"

definition pv_upd :: "(db \<Rightarrow> db) \<Rightarrow> unit pvp" where
  "pv_upd f = supd (\<lambda>s. s\<lparr>pv_db := f (pv_db s)\<rparr>)"

definition pv_send :: "pvp_message \<Rightarrow> unit pvp" where
  "pv_send m = supd (\<lambda>s. s\<lparr>pv_sent := pv_sent s @ [m]\<rparr>)"

definition pv_enqueue :: "datetime \<Rightarrow> pvp_operation \<Rightarrow> datetime option \<Rightarrow> unit pvp" where
  "pv_enqueue now op t =
     (\<lambda>s. case ex_enqueue now (pv_executor s) op None t of
        Inl e \<Rightarrow> (s, Inl e)
      | Inr (_, ex) \<Rightarrow> (s\<lparr>pv_executor := ex\<rparr>, Inr ()))"

text \<open>Reading an attribute of \<open>None\<close>.\<close>

definition the_attr :: "'a option \<Rightarrow> 'a pvp" where
  "the_attr x = (case x of None \<Rightarrow> sraise AttributeError | Some v \<Rightarrow> sret v)"

definition put_batch :: "batch \<Rightarrow> db \<Rightarrow> db" where
  "put_batch b d = d\<lparr>db_batches := put_row bt_id b (db_batches d)\<rparr>"

definition put_submission :: "submission \<Rightarrow> db \<Rightarrow> db" where
  "put_submission s d = d\<lparr>db_submissions := put_row sub_id s (db_submissions d)\<rparr>"

definition active_dataset :: "db \<Rightarrow> task \<Rightarrow> dataset option" where
  "active_dataset d t =
     (case task_active_dataset_id t of None \<Rightarrow> None | Some i \<Rightarrow> get_from_id ds_id (db_datasets d) i)"

definition contest_of :: "db \<Rightarrow> task \<Rightarrow> contest option" where
  "contest_of d t =
     (case task_contest_id t of None \<Rightarrow> None | Some i \<Rightarrow> get_from_id ct_id (db_contests d) i)"

definition contest_participations :: "db \<Rightarrow> contest \<Rightarrow> participation list" where
  "contest_participations d c = filter (\<lambda>p. part_contest_id p = ct_id c) (db_participations d)"

section \<open>Queries\<close>

definition compiled_submissions :: "db \<Rightarrow> participation \<Rightarrow> task \<Rightarrow> submission list" where
  "compiled_submissions d p t =
     filter (\<lambda>s. sub_participation_id s = part_id p \<and> sub_task_id s = task_id t \<and>
       (\<exists>r\<in>set (db_submission_results d). sr_submission_id r = sub_id s \<and> sr_filter_compilation_succeeded r))
     (db_submissions d)"

definition get_last_submission :: "db \<Rightarrow> participation \<Rightarrow> task \<Rightarrow> submission option" where
  "get_last_submission d p t = latest (compiled_submissions d p t)"

definition get_match_submission :: "db \<Rightarrow> participation \<Rightarrow> task \<Rightarrow> submission option" where
  "get_match_submission d p t =
     List.find (\<lambda>s. sub_participation_id s = part_id p \<and> sub_task_id s = task_id t \<and>
       sub_pvp_batch s = Some (task_pvp_batch t)) (db_submissions d)"

fun latest_batch :: "batch list \<Rightarrow> batch option" where
  "latest_batch [] = None"
| "latest_batch (b # bs) =
     (case latest_batch bs of None \<Rightarrow> Some b | Some b' \<Rightarrow> Some (if bt_timestamp b < bt_timestamp b' then b' else b))"

section \<open>Starting batches\<close>

definition new_batch_row :: "datetime \<Rightarrow> task \<Rightarrow> int \<Rightarrow> db \<Rightarrow> batch" where
  "new_batch_row now t rounds d =
     \<lparr>bt_id = fresh_id (map bt_id (db_batches d)), bt_task_id = task_id t, bt_task_pvp_batch = task_pvp_batch t + 1,
      bt_rounds_id = 0, bt_rounds = rounds, bt_rest_matches = 0, bt_status = BATCH_PENDING, bt_timestamp = now,
      bt_notification_sended = False\<rparr>"

definition add_batch :: "datetime \<Rightarrow> task \<Rightarrow> int \<Rightarrow> int pvp" where
  "add_batch now t rounds =
     sbind (sget pv_db) (\<lambda>d.
       let b = new_batch_row now t rounds d in
       sthen (pv_upd (put_batch b)) (sthen commit (sret (bt_id b))))"

definition add_notification :: "datetime \<Rightarrow> contest \<Rightarrow> task \<Rightarrow> pvp_task_type \<Rightarrow> unit pvp" where
  "add_notification now c t tt =
     sbind (sget pv_sended) (\<lambda>sended.
       let key = (task_id t, task_pvp_batch t + 1) in
       if key \<in> set sended then sret ()
       else
         let sec = (pt_notification_time tt div 1000000) mod 86400 in
         sthen (supd (\<lambda>s. s\<lparr>pv_sended := pv_sended s @ [key],
                  pv_announcements := pv_announcements s @
                    [\<lparr>nt_contest_id = ct_id c, nt_timestamp = now, nt_title = task_title t,
                      nt_minutes = sec div 60, nt_seconds = sec mod 60\<rparr>]\<rparr>)) commit)"

text \<open>The body of the loop of \<open>get_operations\<close>, with what the caller does with an operation it yields.\<close>

definition auto_batch :: "datetime \<Rightarrow> contest \<Rightarrow> task \<Rightarrow> nat \<Rightarrow> nat pvp" where
  "auto_batch timestamp c t n =
     sbind (sget pv_db) (\<lambda>d.
     sbind (the_attr (active_dataset d t)) (\<lambda>ds.
       if ds_task_type ds \<noteq> ''PvP'' then sret n
       else
         sbind (slift (task_type_object ds)) (\<lambda>tt.
           if pt_auto_eval tt \<noteq> ''enabled'' then sret n
           else
             sbind (if task_pvp_batch t = 0 then sret (ct_start c, BATCH_EVALUATED)
                    else case latest_batch (filter (\<lambda>b. bt_task_id b = task_id t) (db_batches d)) of
                      None \<Rightarrow> sraise TypeError
                    | Some b \<Rightarrow> sret (bt_timestamp b, bt_status b)) (\<lambda>(since, status).
               if status = BATCH_EVALUATING then sret n
               else if timestamp - since \<ge> pt_interval tt then
                 sbind (add_batch timestamp t (pt_rounds tt)) (\<lambda>i.
                 sthen (pv_enqueue timestamp \<lparr>po_batch_id = i\<rparr> (Some timestamp)) (sret (n + 1)))
               else if timestamp - since \<ge> pt_interval tt - pt_notification_time tt then
                 sthen (add_notification timestamp c t tt) (sret n)
               else sret n))))"

definition pvp_missing_operations :: "datetime \<Rightarrow> nat pvp" where
  "pvp_missing_operations timestamp =
     session_gen (sbind (sget pv_db) (\<lambda>d.
       sbind (sfold (filter (\<lambda>c. ct_start c \<le> timestamp \<and> timestamp \<le> ct_stop c) (db_contests d)) (\<lambda>c n.
         sfold (filter (\<lambda>t. task_contest_id t = Some (ct_id c)) (db_tasks d)) (auto_batch timestamp c) n) 0) (\<lambda>n.
       sthen commit (sret n))))"

definition new_batch :: "datetime \<Rightarrow> int \<Rightarrow> unit pvp" where
  "new_batch now batch_id = pv_enqueue now \<lparr>po_batch_id = batch_id\<rparr> None"

definition manually_start_match :: "datetime \<Rightarrow> int \<Rightarrow> int option \<Rightarrow> bool pvp" where
  "manually_start_match now i rounds =
     session_gen (sbind (sget pv_db) (\<lambda>d.
       case get_from_id task_id (db_tasks d) i of
         None \<Rightarrow> sret False
       | Some t \<Rightarrow>
           sbind (the_attr (active_dataset d t)) (\<lambda>ds.
             if ds_task_type ds \<noteq> ''PvP'' then sret False
             else
               sbind (slift (task_type_object ds)) (\<lambda>tt.
               sbind (add_batch now t (case rounds of None \<Rightarrow> pt_rounds tt | Some r \<Rightarrow> r)) (\<lambda>b.
               sthen (new_batch now b) (sret True))))))"

section \<open>Starting a round\<close>

definition next_batch :: "int \<Rightarrow> bool pvp" where
  "next_batch i =
     sbind (sget pv_db) (\<lambda>d.
     sbind (the_attr (get_from_id task_id (db_tasks d) i)) (\<lambda>t.
     sthen (pv_upd (put_task (t\<lparr>task_pvp_batch := task_pvp_batch t + 1\<rparr>)))
    (sthen commit (sret True))))"

definition create_match ::
  "db \<Rightarrow> datetime \<Rightarrow> int \<Rightarrow> int \<Rightarrow> int \<Rightarrow> int \<Rightarrow> match option res"
where
  "create_match d timestamp s1_id s2_id batch_id testcase_id =
     (case (get_from_id sub_id (db_submissions d) s1_id, get_from_id sub_id (db_submissions d) s2_id) of
        (Some s1, Some s2) \<Rightarrow>
          if sub_task_id s1 \<noteq> sub_task_id s2 then Inr None
          else
            (case get_from_id task_id (db_tasks d) (sub_task_id s1) of
               None \<Rightarrow> Inr None
             | Some t \<Rightarrow>
                 (case active_dataset d t of
                    None \<Rightarrow> Inl AttributeError
                  | Some ds \<Rightarrow>
                      if ds_task_type ds \<noteq> ''PvP'' then Inr None
                      else Inr (Some \<lparr>match_id = 0, match_submission1_id = s1_id, match_submission2_id = s2_id,
                             match_task_id = task_id t, match_timestamp = timestamp, match_batch = Some (task_pvp_batch t),
                             match_batch_eval_id = Some batch_id, match_testcase_id = Some testcase_id\<rparr>)))
      | _ \<Rightarrow> Inr None)"

text \<open>\<open>copy_submissions\<close>: the new submission is a row of its own, with the files of the old one.\<close>

definition copy_submission :: "datetime \<Rightarrow> task \<Rightarrow> participation \<Rightarrow> submission \<Rightarrow> db \<Rightarrow> db" where
  "copy_submission now t p s d =
     (let i = fresh_id (map sub_id (db_submissions d)) in
      d\<lparr>db_submissions := db_submissions d @
          [\<lparr>sub_id = i, sub_participation_id = part_id p, sub_task_id = task_id t, sub_timestamp = now,
            sub_language = sub_language s, sub_comment = [], sub_official = True, sub_pvp_batch = None, sub_token = None\<rparr>],
        db_files := db_files d @
          map (\<lambda>f. f\<lparr>fi_submission_id := i\<rparr>) (filter (\<lambda>f. fi_submission_id f = sub_id s) (db_files d))\<rparr>)"

definition copy_submissions :: "datetime \<Rightarrow> int \<Rightarrow> bool pvp" where
  "copy_submissions now i =
     sbind (sget pv_db) (\<lambda>d0.
     sbind (the_attr (get_from_id task_id (db_tasks d0) i)) (\<lambda>t.
     sbind (the_attr (contest_of d0 t)) (\<lambda>c.
     sthen (sforeach (contest_participations d0 c) (\<lambda>p.
       sbind (sget pv_db) (\<lambda>d.
         case get_last_submission d p t of
           None \<Rightarrow> sret ()
         | Some s \<Rightarrow>
             (case task_active_dataset_id t of
                None \<Rightarrow> sret ()
              | Some a \<Rightarrow>
                  if get_from_id sr_key (db_submission_results d) (sub_id s, a) = None then sret ()
                  else pv_upd (copy_submission now t p s)))))
    (sthen commit (sret True)))))"

definition mark_submission :: "task \<Rightarrow> participation \<Rightarrow> unit pvp" where
  "mark_submission t p =
     sbind (sget pv_db) (\<lambda>d.
       case get_last_submission d p t of
         None \<Rightarrow> sret ()
       | Some s \<Rightarrow>
           sthen (pv_upd (put_submission (s\<lparr>sub_pvp_batch := Some (task_pvp_batch t)\<rparr>)))
          (sbind (the_attr (active_dataset d t)) (\<lambda>ds.
           sbind (slift (sub_get_result_or_create d s ds)) (\<lambda>r.
             pv_upd (put_sr (sr_invalidate_evaluation r))))))"

definition mark_match_submissions :: "int \<Rightarrow> bool pvp" where
  "mark_match_submissions i =
     sbind (sget pv_db) (\<lambda>d.
     sbind (the_attr (get_from_id task_id (db_tasks d) i)) (\<lambda>t.
     sbind (the_attr (contest_of d t)) (\<lambda>c.
       let ps = contest_participations d c in
       if length (filter (\<lambda>p. get_last_submission d p t \<noteq> None) ps) < 2 then sret False
       else sthen (sforeach ps (mark_submission t)) (sthen commit (sret True)))))"

text \<open>The dictionaries of a new batch: the players with their submissions, and a rating table for each
  testcase, in which a participation without a submission has rating 0.\<close>

definition enrol ::
  "db \<Rightarrow> task \<Rightarrow> participation \<Rightarrow> (int, int) dict \<times> (int, elo) dict \<Rightarrow> (int, int) dict \<times> (int, elo) dict"
where
  "enrol d t p = (\<lambda>(participations, competition_sys).
     case get_match_submission d p t of
       Some s \<Rightarrow> (dict_set participations (part_id p) (sub_id s), competition_sys)
     | None \<Rightarrow> (participations, map (\<lambda>(tc, players). (tc, dict_set players (part_id p) 0)) competition_sys))"

definition set_up_batch :: "int \<Rightarrow> task \<Rightarrow> dataset \<Rightarrow> unit pvp" where
  "set_up_batch batch_id t ds =
     sbind (sget pv_db) (\<lambda>d.
     sbind (the_attr (contest_of d t)) (\<lambda>c.
       let ps = contest_participations d c;
           tables = map (\<lambda>tc. (tc_id tc, elo_init (map part_id ps))) (ds_testcases ds);
           (participations, competition_sys) = fold (enrol d t) ps ([], tables) in
       supd (\<lambda>s. s\<lparr>pv_participations := dict_set (pv_participations s) batch_id participations,
                  pv_competition_sys := dict_set (pv_competition_sys s) batch_id competition_sys\<rparr>)))"

definition round_players :: "(int, int) dict \<Rightarrow> elo \<Rightarrow> player list res" where
  "round_players participations players =
     res_map (\<lambda>p_id. res_bind (dict_get players p_id) (\<lambda>r. Inr (p_id, r))) (map fst participations)"

text \<open>The matches of one testcase, in the order of the pairs.\<close>

definition match_pair ::
  "db \<Rightarrow> datetime \<Rightarrow> int \<Rightarrow> int \<Rightarrow> (int, int) dict \<Rightarrow> int \<times> int \<Rightarrow> match option res"
where
  "match_pair d now batch_id tc participations = (\<lambda>(p_id, opponent_id).
     res_bind (dict_get participations p_id) (\<lambda>s1_id.
     res_bind (dict_get participations opponent_id) (\<lambda>s2_id.
       create_match d now s1_id s2_id batch_id tc)))"

definition testcase_matches ::
  "db \<Rightarrow> datetime \<Rightarrow> (int \<Rightarrow> int \<Rightarrow> nat) \<Rightarrow> (int \<Rightarrow> player list \<Rightarrow> player list) \<Rightarrow> int \<Rightarrow>
   (int, int) dict \<Rightarrow> (int, elo) dict \<Rightarrow> testcase \<Rightarrow> match list res"
where
  "testcase_matches d now pick shuffle batch_id participations competition_sys tc =
     res_bind (if participations = [] then Inr [] else
       res_bind (dict_get competition_sys (tc_id tc)) (round_players participations)) (\<lambda>players.
     res_bind (res_map (match_pair d now batch_id (tc_id tc) participations)
                 (make_pairs (pick (tc_id tc)) (shuffle (tc_id tc) players))) (\<lambda>ms.
       Inr (List.map_filter id ms)))"

definition add_match :: "match \<Rightarrow> int pvp" where
  "add_match m =
     sbind (sget pv_db) (\<lambda>d.
       let i = fresh_id (map match_id (db_matches d)) in
       sthen (pv_upd (\<lambda>d. d\<lparr>db_matches := db_matches d @ [m\<lparr>match_id := i\<rparr>]\<rparr>)) (sret i))"

definition add_match_result :: "dataset \<Rightarrow> int \<Rightarrow> unit pvp" where
  "add_match_result ds i =
     sbind (sget pv_db) (\<lambda>d.
     sbind (the_attr (get_from_id match_id (db_matches d) i)) (\<lambda>m.
     sbind (slift (match_get_result_or_create d m ds)) (\<lambda>r. pv_upd (put_mr r))))"

fun add_matches :: "match list \<Rightarrow> int list pvp" where
  "add_matches [] = sret []"
| "add_matches (m # ms) = sbind (add_match m) (\<lambda>i. sbind (add_matches ms) (\<lambda>is. sret (i # is)))"

text \<open>From \<open>batch.rounds_id += 1\<close> on. The result is \<open>None\<close> where the function returns nothing.\<close>

definition open_round ::
  "datetime \<Rightarrow> (int \<Rightarrow> int \<Rightarrow> nat) \<Rightarrow> (int \<Rightarrow> player list \<Rightarrow> player list) \<Rightarrow> int \<Rightarrow> dataset \<Rightarrow> bool option pvp"
where
  "open_round now pick shuffle batch_id ds =
     sbind (sget pv_participations) (\<lambda>all_parts. sbind (slift (dict_get all_parts batch_id)) (\<lambda>participations.
     sbind (sget pv_competition_sys) (\<lambda>all_sys. sbind (slift (dict_get all_sys batch_id)) (\<lambda>competition_sys.
     sbind (sget pv_db) (\<lambda>d.
     sbind (the_attr (get_from_id bt_id (db_batches d) batch_id)) (\<lambda>b.
     let b1 = b\<lparr>bt_rounds_id := bt_rounds_id b + 1\<rparr> in
     sthen (pv_upd (put_batch b1))
    (sthen (slift (py_assert (bt_rest_matches b1 = 0)))
    (sbind (slift (res_map (testcase_matches d now pick shuffle batch_id participations competition_sys) (ds_testcases ds)))
      (\<lambda>mss.
     sthen commit
    (let matches = concat mss in
     sthen (pv_upd (put_batch (b1\<lparr>bt_rest_matches := int (length matches)\<rparr>)))
    (if matches = [] then sret None
     else
       sbind (add_matches matches) (\<lambda>is.
       sthen commit
      (sthen (sforeach is (add_match_result ds))
      (sthen commit
      (sthen (sforeach is (\<lambda>i. pv_send (ES_new_match i)))
             (sret (Some True)))))))))))))))))"

definition start_round ::
  "datetime \<Rightarrow> (int \<Rightarrow> int \<Rightarrow> nat) \<Rightarrow> (int \<Rightarrow> player list \<Rightarrow> player list) \<Rightarrow> int \<Rightarrow> bool option pvp"
where
  "start_round now pick shuffle batch_id =
     sbind (sget pv_db) (\<lambda>d.
       case get_from_id bt_id (db_batches d) batch_id of
         None \<Rightarrow> sret (Some False)
       | Some b \<Rightarrow>
           sbind (the_attr (get_from_id task_id (db_tasks d) (bt_task_id b))) (\<lambda>t.
           sbind (the_attr (active_dataset d t)) (\<lambda>ds.
             if ds_task_type ds \<noteq> ''PvP'' then sret (Some False)
             else if bt_rounds_id b = 0 then
               sthen (next_batch (task_id t))
              (sbind (mark_match_submissions (task_id t)) (\<lambda>enough.
                 if \<not> enough then sret (Some False)
                 else
                   sthen (copy_submissions now (task_id t))
                  (if bt_rounds b = 0 then sret (Some False)
                   else
                     sbind (sget pv_db) (\<lambda>d1.
                     sbind (the_attr (get_from_id task_id (db_tasks d1) (task_id t))) (\<lambda>t1.
                     sthen (set_up_batch batch_id t1 ds)
                    (sthen (pv_upd (put_batch (start_evaluate b)))
                           (open_round now pick shuffle batch_id ds)))))))
             else if bt_rounds_id b \<ge> bt_rounds b then sret (Some False)
             else open_round now pick shuffle batch_id ds)))"

text \<open>\<open>execute\<close>; when the task is missing, the message of the log reads \<open>operation.task_id\<close>, which does not
  exist.\<close>

definition pvp_execute ::
  "datetime \<Rightarrow> (int \<Rightarrow> int \<Rightarrow> nat) \<Rightarrow> (int \<Rightarrow> player list \<Rightarrow> player list) \<Rightarrow> pvp_operation queue_entry \<Rightarrow> unit pvp"
where
  "pvp_execute now pick shuffle entry =
     session_gen (sbind (sget pv_db) (\<lambda>d.
     sbind (the_attr (get_from_id bt_id (db_batches d) (po_batch_id (qe_item entry)))) (\<lambda>b.
     sbind (the_attr (get_from_id task_id (db_tasks d) (bt_task_id b))) (\<lambda>t.
     sbind (the_attr (active_dataset d t)) (\<lambda>ds.
       if ds_task_type ds \<noteq> ''PvP'' then sret ()
       else sthen (start_round now pick shuffle (bt_id b)) (sret ()))))))"

section \<open>Results of matches\<close>

definition set_evaluation :: "int \<Rightarrow> string \<Rightarrow> string list \<Rightarrow> submission_result \<Rightarrow> submission_result" where
  "set_evaluation tc outcome text r =
     r\<lparr>sr_evaluations := map (\<lambda>e. if ev_testcase_id e = tc then e\<lparr>ev_outcome := Some outcome, ev_text := text\<rparr> else e)
         (sr_evaluations r)\<rparr>"

text \<open>\<open>submission.get_result()\<close>: the result for the active dataset of the submission's task.\<close>

definition active_result :: "db \<Rightarrow> submission \<Rightarrow> submission_result option pvp" where
  "active_result d s =
     sbind (the_attr (get_from_id task_id (db_tasks d) (sub_task_id s))) (\<lambda>t.
       sret (case task_active_dataset_id t of
               None \<Rightarrow> None
             | Some a \<Rightarrow> get_from_id sr_key (db_submission_results d) (sub_id s, a)))"

definition update_single_score :: "int \<Rightarrow> testcase \<Rightarrow> string \<Rightarrow> string list \<Rightarrow> unit pvp" where
  "update_single_score submission_id tc outcome text =
     sbind (sget pv_db) (\<lambda>d.
       case get_from_id sub_id (db_submissions d) submission_id of
         None \<Rightarrow> sret ()
       | Some s \<Rightarrow>
           sbind (active_result d s) (\<lambda>r.
             case r of
               None \<Rightarrow> sret ()
             | Some r \<Rightarrow>
                 if tc_id tc \<in> set (map ev_testcase_id (sr_evaluations r))
                 then pv_upd (put_sr (set_evaluation (tc_id tc) outcome text r))
                 else sraise AttributeError))"

definition update_testcase ::
  "(real \<Rightarrow> string) \<Rightarrow> (real \<Rightarrow> nat \<Rightarrow> nat \<Rightarrow> string) \<Rightarrow> (int, int) dict \<Rightarrow> (int, elo) dict \<Rightarrow> testcase \<Rightarrow> unit pvp"
where
  "update_testcase show_score show_rating participations competition_sys tc =
     sbind (slift (dict_get competition_sys (tc_id tc))) (\<lambda>players.
     sbind (slift (to_scores players)) (\<lambda>scores.
     sthen (sforeach (zip [1..<Suc (length scores)] scores) (\<lambda>(rank, p_id, score).
       sbind (slift (dict_get participations p_id)) (\<lambda>submission_id.
       sbind (slift (dict_get players p_id)) (\<lambda>rating.
         update_single_score submission_id tc (show_score score) [show_rating rating rank (length participations)]))))
     commit))"

definition finish_submission :: "int \<Rightarrow> unit pvp" where
  "finish_submission submission_id =
     sbind (sget pv_db) (\<lambda>d.
       case get_from_id sub_id (db_submissions d) submission_id of
         None \<Rightarrow> sret ()
       | Some s \<Rightarrow>
           sbind (active_result d s) (\<lambda>r.
             case r of
               None \<Rightarrow> sret ()
             | Some r \<Rightarrow> pv_upd (put_sr (sr_set_evaluation_outcome (sr_invalidate_score r)))))"

definition update_score ::
  "(real \<Rightarrow> string) \<Rightarrow> (real \<Rightarrow> nat \<Rightarrow> nat \<Rightarrow> string) \<Rightarrow> int \<Rightarrow> (int, int) dict \<Rightarrow> (int, elo) dict \<Rightarrow> unit pvp"
where
  "update_score show_score show_rating i participations competition_sys =
     sbind (sget pv_db) (\<lambda>d.
     sbind (the_attr (get_from_id task_id (db_tasks d) i)) (\<lambda>t.
     sbind (the_attr (active_dataset d t)) (\<lambda>ds.
     sthen (sforeach (ds_testcases ds) (update_testcase show_score show_rating participations competition_sys))
    (sthen (sforeach (map snd participations) finish_submission)
    (sthen commit
           (sforeach (map snd participations) (\<lambda>sid. pv_send (SS_rescore sid (ds_id ds)))))))))"

definition batch_ended ::
  "(real \<Rightarrow> string) \<Rightarrow> (real \<Rightarrow> nat \<Rightarrow> nat \<Rightarrow> string) \<Rightarrow> int \<Rightarrow> unit pvp"
where
  "batch_ended show_score show_rating batch_id =
     session_gen (sbind (sget pv_db) (\<lambda>d.
     sbind (the_attr (get_from_id bt_id (db_batches d) batch_id)) (\<lambda>b.
     sbind (sget pv_participations) (\<lambda>all_parts. sbind (slift (dict_get all_parts batch_id)) (\<lambda>participations.
     sbind (sget pv_competition_sys) (\<lambda>all_sys. sbind (slift (dict_get all_sys batch_id)) (\<lambda>competition_sys.
     sthen (update_score show_score show_rating (bt_task_id b) participations competition_sys)
    (sbind (sget pv_db) (\<lambda>d1.
     sbind (the_attr (get_from_id bt_id (db_batches d1) batch_id)) (\<lambda>b1.
     sthen (pv_upd (put_batch (end_evaluate b1))) commit))))))))))"

definition k_factor :: "batch \<Rightarrow> real res" where
  "k_factor b = res_bind (py_div (real_of_int (bt_rounds_id b)) (real_of_int (bt_rounds b))) (\<lambda>x. Inr (40 * 4 powr (- x)))"

text \<open>\<open>match.result.matchings[0].outcome.split()\<close>, and the two numbers.\<close>

definition outcome_words :: "match_result \<Rightarrow> string list res" where
  "outcome_words r =
     res_bind (py_assert (length (mr_matchings r) = 1)) (\<lambda>_.
     res_bind (py_nth (mr_matchings r) 0) (\<lambda>mg.
       case mg_outcome mg of None \<Rightarrow> Inl AttributeError | Some x \<Rightarrow> Inr (split_ws x)))"

definition outcome_at :: "string list \<Rightarrow> nat \<Rightarrow> real res" where
  "outcome_at outcomes i = res_bind (py_nth outcomes i) (\<lambda>x. py_float (strip x))"

definition record_match :: "batch \<Rightarrow> match \<Rightarrow> unit pvp" where
  "record_match b m =
     sbind (sget pv_db) (\<lambda>d.
     sthen (slift (py_assert (match_testcase_id m \<noteq> None)))
    (sbind (the_attr (List.find (\<lambda>r. mr_match_id r = match_id m) (db_match_results d))) (\<lambda>r.
     sbind (slift (outcome_words r)) (\<lambda>outcomes.
     sbind (sget pv_competition_sys) (\<lambda>all_sys.
     sbind (slift (dict_get all_sys (bt_id b))) (\<lambda>competition_sys.
     sbind (slift (dict_get competition_sys (the (match_testcase_id m)))) (\<lambda>players.
     sbind (the_attr (get_from_id sub_id (db_submissions d) (match_submission1_id m))) (\<lambda>s1.
     sbind (the_attr (get_from_id sub_id (db_submissions d) (match_submission2_id m))) (\<lambda>s2.
     sbind (slift (outcome_at outcomes 0)) (\<lambda>r1.
     sbind (slift (outcome_at outcomes 1)) (\<lambda>r2.
     sbind (slift (k_factor b)) (\<lambda>k.
     sbind (slift (update_scores players (sub_participation_id s1) (sub_participation_id s2) r1 r2 k)) (\<lambda>players'.
       supd (\<lambda>s. s\<lparr>pv_competition_sys := dict_set (pv_competition_sys s) (bt_id b)
                     (dict_set competition_sys (the (match_testcase_id m)) players')\<rparr>))))))))))))))"

definition pvp_match_ended ::
  "(real \<Rightarrow> string) \<Rightarrow> (real \<Rightarrow> nat \<Rightarrow> nat \<Rightarrow> string) \<Rightarrow> datetime \<Rightarrow> int \<Rightarrow> bool pvp"
where
  "pvp_match_ended show_score show_rating now i =
     session_gen (sbind (sget pv_db) (\<lambda>d.
       case get_from_id match_id (db_matches d) i of
         None \<Rightarrow> sret False
       | Some m \<Rightarrow>
           (case Option.bind (match_batch_eval_id m) (get_from_id bt_id (db_batches d)) of
              None \<Rightarrow> sret False
            | Some b \<Rightarrow>
                let b1 = b\<lparr>bt_rest_matches := bt_rest_matches b - 1\<rparr> in
                sthen (pv_upd (put_batch b1))
               (sthen commit
               (sthen (record_match b1 m)
               (if bt_rest_matches b1 = 0 then
                  (if bt_rounds_id b1 = bt_rounds b1
                   then sthen (batch_ended show_score show_rating (bt_id b1)) (sret True)
                   else sthen (new_batch now (bt_id b1)) (sret False))
                else sret False))))))"

section \<open>A round announces its matches\<close>

text \<open>Adding matches only extends the table of matches, with new ids.\<close>

lemma add_matches_run:
  "\<exists>is rows. add_matches ms s = (s\<lparr>pv_db := (pv_db s)\<lparr>db_matches := db_matches (pv_db s) @ rows\<rparr>\<rparr>, Inr is) \<and>
     map match_id rows = is \<and> distinct is \<and> set is \<inter> set (map match_id (db_matches (pv_db s))) = {} \<and>
     map (\<lambda>m. m\<lparr>match_id := 0\<rparr>) rows = map (\<lambda>m. m\<lparr>match_id := 0\<rparr>) ms"
proof (induction ms arbitrary: s)
  case Nil
  then show ?case by (intro exI[of _ "[]"]) (simp add: stm_simps)
next
  case (Cons m ms)
  let ?i = "fresh_id (map match_id (db_matches (pv_db s)))"
  let ?s = "s\<lparr>pv_db := (pv_db s)\<lparr>db_matches := db_matches (pv_db s) @ [m\<lparr>match_id := ?i\<rparr>]\<rparr>\<rparr>"
  have a: "add_match m s = (?s, Inr ?i)"
    by (simp add: add_match_def stm_simps pv_upd_def Let_def)
  from Cons.IH[of ?s] obtain is' rows' where r: "add_matches ms ?s =
      (?s\<lparr>pv_db := (pv_db ?s)\<lparr>db_matches := db_matches (pv_db ?s) @ rows'\<rparr>\<rparr>, Inr is')"
    "map match_id rows' = is'" "distinct is'" "set is' \<inter> set (map match_id (db_matches (pv_db ?s))) = {}"
    "map (\<lambda>m. m\<lparr>match_id := 0\<rparr>) rows' = map (\<lambda>m. m\<lparr>match_id := 0\<rparr>) ms" by blast
  show ?case
    using a r fresh_id_not_in[of "map match_id (db_matches (pv_db s))"]
    by (intro exI[of _ "?i # is'"] exI[of _ "m\<lparr>match_id := ?i\<rparr> # rows'"]) (auto simp: stm_simps)
qed

lemma get_from_id_append:
  "get_from_id key (xs @ ys) k = (case get_from_id key xs k of None \<Rightarrow> get_from_id key ys k | Some x \<Rightarrow> Some x)"
  by (induction xs) (auto simp: get_from_id_def)

text \<open>Then every new match gets a result.\<close>

lemma add_match_results_run:
  assumes "\<forall>i\<in>set is. \<exists>m. get_from_id match_id (db_matches (pv_db s)) i = Some m \<and> match_task_id m = ds_task_id ds"
  shows "\<exists>rs. sforeach is (add_match_result ds) s = (s\<lparr>pv_db := (pv_db s)\<lparr>db_match_results := rs\<rparr>\<rparr>, Inr ()) \<and>
    (\<forall>i\<in>set is. get_from_id mr_key rs (i, ds_id ds) \<noteq> None) \<and>
    (\<forall>k. get_from_id mr_key (db_match_results (pv_db s)) k \<noteq> None \<longrightarrow> get_from_id mr_key rs k \<noteq> None)"
  using assms
proof (induction "is" arbitrary: s)
  case Nil
  then show ?case by (intro exI[of _ "db_match_results (pv_db s)"]) (simp add: stm_simps)
next
  case (Cons i "is")
  then obtain m where m: "get_from_id match_id (db_matches (pv_db s)) i = Some m" "match_task_id m = ds_task_id ds" by auto
  let ?r = "case get_from_id mr_key (db_match_results (pv_db s)) (match_id m, ds_id ds) of
    None \<Rightarrow> new_match_result (match_id m) (ds_id ds) | Some r \<Rightarrow> r"
  let ?rs = "put_row mr_key ?r (db_match_results (pv_db s))"
  let ?s = "s\<lparr>pv_db := (pv_db s)\<lparr>db_match_results := ?rs\<rparr>\<rparr>"
  have i: "match_id m = i" using get_from_id_Some[OF m(1)] by simp
  have key: "mr_key ?r = (i, ds_id ds)"
    using get_from_id_Some[of mr_key "db_match_results (pv_db s)" "(i, ds_id ds)"]
    by (auto simp: i new_match_result_def mr_key_def split: option.split)
  have run: "add_match_result ds i s = (?s, Inr ())"
    using m by (auto simp: add_match_result_def stm_simps the_attr_def match_get_result_or_create_def match_get_result_def
        py_assert_def res_simps pv_upd_def put_mr_def split: option.split)
  have "\<forall>j\<in>set is. \<exists>m. get_from_id match_id (db_matches (pv_db ?s)) j = Some m \<and> match_task_id m = ds_task_id ds"
    using Cons.prems by simp
  from Cons.IH[OF this] obtain rs where rs: "sforeach is (add_match_result ds) ?s = (?s\<lparr>pv_db := (pv_db ?s)\<lparr>db_match_results := rs\<rparr>\<rparr>, Inr ())"
    "\<forall>i\<in>set is. get_from_id mr_key rs (i, ds_id ds) \<noteq> None"
    "\<forall>k. get_from_id mr_key ?rs k \<noteq> None \<longrightarrow> get_from_id mr_key rs k \<noteq> None"
    by auto
  have grow: "get_from_id mr_key ?rs (i, ds_id ds) \<noteq> None"
    "\<forall>k. get_from_id mr_key (db_match_results (pv_db s)) k \<noteq> None \<longrightarrow> get_from_id mr_key ?rs k \<noteq> None"
    by (simp_all add: get_put_row key)
  show ?case
    using run rs grow by (intro exI[of _ rs]) (simp add: stm_simps)
qed

lemma send_matches_run:
  "sforeach is (\<lambda>i. pv_send (f i)) s = (s\<lparr>pv_sent := pv_sent s @ map f is\<rparr>, Inr ())"
  by (induction "is" arbitrary: s) (simp_all add: stm_simps pv_send_def)

lemma open_round_run:
  assumes "dict_get (pv_participations s) i = Inr parts" "dict_get (pv_competition_sys s) i = Inr sys"
    and b: "get_from_id bt_id (db_batches (pv_db s)) i = Some b" "bt_rest_matches b = 0"
    and mss: "res_map (testcase_matches (pv_db s) now pick shuffle i parts sys) (ds_testcases ds) = Inr mss"
    and task: "\<forall>m\<in>set (concat mss). match_task_id m = ds_task_id ds" and ne: "concat mss \<noteq> []"
  shows "\<exists>s' rows. open_round now pick shuffle i ds s = (s', Inr (Some True)) \<and>
    db_matches (pv_db s') = db_matches (pv_db s) @ rows \<and>
    map (\<lambda>m. m\<lparr>match_id := 0\<rparr>) rows = map (\<lambda>m. m\<lparr>match_id := 0\<rparr>) (concat mss) \<and>
    distinct (map match_id rows) \<and> set (map match_id rows) \<inter> set (map match_id (db_matches (pv_db s))) = {} \<and>
    pv_sent s' = pv_sent s @ map (\<lambda>m. ES_new_match (match_id m)) rows \<and> pv_saved s' = pv_db s' \<and>
    get_from_id bt_id (db_batches (pv_db s')) i =
      Some (b\<lparr>bt_rounds_id := bt_rounds_id b + 1, bt_rest_matches := int (length rows)\<rparr>) \<and>
    (\<forall>m\<in>set rows. get_from_id mr_key (db_match_results (pv_db s')) (match_id m, ds_id ds) \<noteq> None)"
proof -
  let ?ms = "concat mss" and ?b1 = "b\<lparr>bt_rounds_id := bt_rounds_id b + 1\<rparr>"
  let ?d1 = "put_batch ?b1 (pv_db s)"
  let ?d2 = "put_batch (?b1\<lparr>bt_rest_matches := int (length ?ms)\<rparr>) ?d1"
  define s2 where "s2 = s\<lparr>pv_saved := ?d1, pv_db := ?d2\<rparr>"
  obtain "is" rows where a: "add_matches ?ms s2 = (s2\<lparr>pv_db := (pv_db s2)\<lparr>db_matches := db_matches (pv_db s2) @ rows\<rparr>\<rparr>, Inr is)"
    "map match_id rows = is" "distinct is" "set is \<inter> set (map match_id (db_matches (pv_db s2))) = {}"
    "map (\<lambda>m. m\<lparr>match_id := 0\<rparr>) rows = map (\<lambda>m. m\<lparr>match_id := 0\<rparr>) ?ms"
    using add_matches_run[of ?ms s2] by blast
  define s3 where "s3 = s2\<lparr>pv_db := (pv_db s2)\<lparr>db_matches := db_matches (pv_db s2) @ rows\<rparr>\<rparr>"
  define s4 where "s4 = s3\<lparr>pv_saved := pv_db s3\<rparr>"
  have rows_task: "match_task_id m = ds_task_id ds" if "m \<in> set rows" for m
  proof -
    from that a(5) obtain m' where "m' \<in> set ?ms" "m\<lparr>match_id := 0\<rparr> = m'\<lparr>match_id := 0\<rparr>"
      by (metis (no_types, lifting) image_eqI image_iff list.set_map)
    then show ?thesis using task by (metis match.select_convs(4) match.surjective match.update_convs(1))
  qed
  have "\<forall>j\<in>set is. \<exists>m. get_from_id match_id (db_matches (pv_db s4)) j = Some m \<and> match_task_id m = ds_task_id ds"
  proof
    fix j assume j: "j \<in> set is"
    then have "get_from_id match_id (db_matches (pv_db s2)) j = None"
      using a(4) by (auto simp: get_from_id_None)
    moreover obtain m where "get_from_id match_id rows j = Some m"
      using j a(2) get_from_id_None[of match_id rows j] by (cases "get_from_id match_id rows j") auto
    ultimately show "\<exists>m. get_from_id match_id (db_matches (pv_db s4)) j = Some m \<and> match_task_id m = ds_task_id ds"
      using rows_task get_from_id_Some by (fastforce simp: s4_def s3_def get_from_id_append)
  qed
  from add_match_results_run[OF this] obtain rs where
    r: "sforeach is (add_match_result ds) s4 = (s4\<lparr>pv_db := (pv_db s4)\<lparr>db_match_results := rs\<rparr>\<rparr>, Inr ())"
      "\<forall>j\<in>set is. get_from_id mr_key rs (j, ds_id ds) \<noteq> None" by blast
  define s5 where "s5 = s4\<lparr>pv_db := (pv_db s4)\<lparr>db_match_results := rs\<rparr>\<rparr>"
  have bid: "bt_id b = i" using get_from_id_Some[OF b(1)] by simp
  have len: "length is = length ?ms" using a(2) arg_cong[OF a(5), of length] by auto
  have run: "open_round now pick shuffle i ds s =
      (s5\<lparr>pv_saved := pv_db s5, pv_sent := pv_sent s5 @ map ES_new_match is\<rparr>, Inr (Some True))"
    using assms(1-5) ne a(1)[unfolded s2_def] r(1)[unfolded s4_def s3_def s2_def]
    by (simp add: open_round_def stm_simps the_attr_def pv_upd_def commit_def py_assert_def Let_def send_matches_run
        s5_def s4_def s3_def s2_def del: concat_eq_Nil_conv)
  have "get_from_id bt_id (db_batches (pv_db s5)) i = Some (?b1\<lparr>bt_rest_matches := int (length is)\<rparr>)"
    by (simp add: s5_def s4_def s3_def s2_def put_batch_def get_put_row bid len)
  then show ?thesis
    using run a(2-5) r(2) len
    by (intro exI[of _ "s5\<lparr>pv_saved := pv_db s5, pv_sent := pv_sent s5 @ map ES_new_match is\<rparr>"] exI[of _ "rows"])
      (auto simp: s5_def s4_def s3_def s2_def put_batch_def)
qed

text \<open>The pairs of a round, one list for each testcase, and the match that is made for a pair.\<close>

definition round_pairs ::
  "(int \<Rightarrow> int \<Rightarrow> nat) \<Rightarrow> (int \<Rightarrow> player list \<Rightarrow> player list) \<Rightarrow> (int, int) dict \<Rightarrow> (int, elo) dict \<Rightarrow> testcase \<Rightarrow> (int \<times> int) list"
where
  "round_pairs pick shuffle parts sys tc =
     make_pairs (pick (tc_id tc)) (shuffle (tc_id tc) (map (\<lambda>p. (p, the (map_of (the (map_of sys (tc_id tc))) p))) (map fst parts)))"

definition pair_match :: "task \<Rightarrow> datetime \<Rightarrow> int \<Rightarrow> (int, int) dict \<Rightarrow> testcase \<Rightarrow> int \<times> int \<Rightarrow> match" where
  "pair_match t now batch_id parts tc = (\<lambda>(p1, p2).
     \<lparr>match_id = 0, match_submission1_id = the (map_of parts p1), match_submission2_id = the (map_of parts p2),
      match_task_id = task_id t, match_timestamp = now, match_batch = Some (task_pvp_batch t),
      match_batch_eval_id = Some batch_id, match_testcase_id = Some (tc_id tc)\<rparr>)"

text \<open>What a running batch has in memory: a submission to the task for every player, and a table with a rating of
  every player for every testcase.\<close>

definition round_ready :: "db \<Rightarrow> task \<Rightarrow> dataset \<Rightarrow> (int, int) dict \<Rightarrow> (int, elo) dict \<Rightarrow> bool" where
  "round_ready d t ds parts sys \<longleftrightarrow>
     get_from_id task_id (db_tasks d) (task_id t) = Some t \<and> active_dataset d t = Some ds \<and>
     ds_task_type ds = ''PvP'' \<and> ds_task_id ds = task_id t \<and> dict_ok parts \<and>
     (\<forall>(p, i)\<in>set parts. \<exists>s. get_from_id sub_id (db_submissions d) i = Some s \<and> sub_task_id s = task_id t) \<and>
     (\<forall>tc\<in>set (ds_testcases ds). \<exists>players. map_of sys (tc_id tc) = Some players \<and> fst ` set parts \<subseteq> fst ` set players)"

lemma res_map_pure: "(\<And>x. x \<in> set xs \<Longrightarrow> f x = Inr (g x)) \<Longrightarrow> res_map f xs = Inr (map g xs)"
  by (induction xs) simp_all

lemma make_pairs_players: "(a, b) \<in> set (make_pairs pick players) \<Longrightarrow> {a, b} \<subseteq> fst ` set players"
  using pair_players_correct[of pick players players "[]"] unfolding make_pairs_def
  by (cases "pair_players pick players players []") force

lemma testcase_matches_run:
  assumes ready: "round_ready d t ds parts sys" and tc: "tc \<in> set (ds_testcases ds)"
    and shuffle: "\<And>i ps. mset (shuffle i ps) = mset ps"
  shows "testcase_matches d now pick shuffle i parts sys tc =
    Inr (map (pair_match t now i parts tc) (round_pairs pick shuffle parts sys tc))"
proof -
  obtain tab where tab: "map_of sys (tc_id tc) = Some tab" "fst ` set parts \<subseteq> fst ` set tab"
    using ready tc by (auto simp: round_ready_def)
  let ?players = "map (\<lambda>p. (p, the (map_of tab p))) (map fst parts)"
  have "dict_get tab p = Inr (the (map_of tab p))" if "p \<in> set (map fst parts)" for p
    using that tab(2) by (auto simp: dict_get_def map_of_eq_None_iff split: option.splits)
  then have players: "round_players parts tab = Inr ?players"
    unfolding round_players_def by (intro res_map_pure) simp
  have submission: "\<exists>s. get_from_id sub_id (db_submissions d) (the (map_of parts p)) = Some s \<and> sub_task_id s = task_id t \<and>
      dict_get parts p = Inr (the (map_of parts p))" if p: "p \<in> fst ` set parts" for p
  proof -
    obtain j where j: "map_of parts p = Some j" using p by (cases "map_of parts p") (auto simp: map_of_eq_None_iff)
    have "\<forall>x\<in>set parts. case x of (p, i) \<Rightarrow> \<exists>s. get_from_id sub_id (db_submissions d) i = Some s \<and> sub_task_id s = task_id t"
      using ready by (simp add: round_ready_def)
    then have "\<exists>s. get_from_id sub_id (db_submissions d) j = Some s \<and> sub_task_id s = task_id t"
      using map_of_SomeD[OF j] by blast
    then show ?thesis using j by (simp add: dict_get_def)
  qed
  have "match_pair d now i (tc_id tc) parts x = Inr (Some (pair_match t now i parts tc x))"
    if x: "x \<in> set (round_pairs pick shuffle parts sys tc)" for x
  proof -
    obtain p1 p2 where p: "x = (p1, p2)" by fastforce
    have "set (shuffle (tc_id tc) ?players) = set ?players" using shuffle mset_eq_setD by blast
    then have "{p1, p2} \<subseteq> fst ` set parts"
      using make_pairs_players[of p1 p2] x by (force simp: p round_pairs_def tab(1))
    then show ?thesis
      using submission[of p1] submission[of p2] ready
      by (auto simp: p match_pair_def create_match_def pair_match_def res_simps round_ready_def)
  qed
  then have pairs: "res_map (match_pair d now i (tc_id tc) parts) (round_pairs pick shuffle parts sys tc) =
      Inr (map (\<lambda>x. Some (pair_match t now i parts tc x)) (round_pairs pick shuffle parts sys tc))"
    by (rule res_map_pure)
  have some: "List.map_filter id (map (\<lambda>x. Some (f x)) xs) = map f xs" for f :: "int \<times> int \<Rightarrow> match" and xs
    by (simp add: map_filter_def comp_def)
  have "round_pairs pick shuffle parts sys tc = make_pairs (pick (tc_id tc)) (shuffle (tc_id tc) ?players)"
    by (simp add: round_pairs_def tab(1))
  moreover have "(if parts = [] then Inr [] else res_bind (dict_get sys (tc_id tc)) (round_players parts)) = Inr ?players"
    using players tab(1) by (simp add: dict_get_def)
  ultimately show ?thesis
    using pairs unfolding testcase_matches_def by (simp add: res_simps some)
qed

text \<open>(C14) Opening a round, when the players of the batch have submissions to the task and ratings on every
  testcase of its active dataset: for each pair that the pairing makes, testcase by testcase and in
  that order, one match is added, between the submissions of the two players, on that testcase, for
  the task and for this batch, under a fresh id and with a result row. Each is announced to the evaluation service
  exactly once, after everything has been committed. The counter of the batch is the number of matches,
  and the round number goes up by one.\<close>

theorem open_round_announces_matches:
  assumes "dict_get (pv_participations s) i = Inr parts" "dict_get (pv_competition_sys s) i = Inr sys"
    and b: "get_from_id bt_id (db_batches (pv_db s)) i = Some b" "bt_rest_matches b = 0"
    and ready: "round_ready (pv_db s) t ds parts sys" and shuffle: "\<And>i ps. mset (shuffle i ps) = mset ps"
    and ne: "\<exists>tc\<in>set (ds_testcases ds). round_pairs pick shuffle parts sys tc \<noteq> []"
  shows "\<exists>s' rows. open_round now pick shuffle i ds s = (s', Inr (Some True)) \<and>
    db_matches (pv_db s') = db_matches (pv_db s) @ rows \<and>
    map (\<lambda>m. m\<lparr>match_id := 0\<rparr>) rows =
      concat (map (\<lambda>tc. map (pair_match t now i parts tc) (round_pairs pick shuffle parts sys tc)) (ds_testcases ds)) \<and>
    distinct (map match_id rows) \<and> set (map match_id rows) \<inter> set (map match_id (db_matches (pv_db s))) = {} \<and>
    pv_sent s' = pv_sent s @ map (\<lambda>m. ES_new_match (match_id m)) rows \<and> pv_saved s' = pv_db s' \<and>
    get_from_id bt_id (db_batches (pv_db s')) i =
      Some (b\<lparr>bt_rounds_id := bt_rounds_id b + 1, bt_rest_matches := int (length rows)\<rparr>) \<and>
    (\<forall>m\<in>set rows. get_from_id mr_key (db_match_results (pv_db s')) (match_id m, ds_id ds) \<noteq> None)"
proof -
  let ?mss = "map (\<lambda>tc. map (pair_match t now i parts tc) (round_pairs pick shuffle parts sys tc)) (ds_testcases ds)"
  have mss: "res_map (testcase_matches (pv_db s) now pick shuffle i parts sys) (ds_testcases ds) = Inr ?mss"
    using testcase_matches_run[OF ready _ shuffle] by (intro res_map_pure)
  have made: "match_task_id m = ds_task_id ds \<and> m\<lparr>match_id := 0\<rparr> = m" if "m \<in> set (concat ?mss)" for m
    using that ready by (auto simp: pair_match_def round_ready_def)
  then have task: "\<forall>m\<in>set (concat ?mss). match_task_id m = ds_task_id ds" by blast
  have "map (\<lambda>m. m\<lparr>match_id := 0\<rparr>) (concat ?mss) = concat ?mss" using made by (intro map_idI) blast
  moreover have "concat ?mss \<noteq> []" using ne by auto
  note open_round_run[OF assms(1-4) mss task this]
  ultimately show ?thesis by (simp only:)
qed

definition duel_db :: db where
  "duel_db =
     \<lparr>db_contests = [\<lparr>ct_id = 1, ct_start = 0, ct_stop = 9000\<rparr>],
      db_participations = [\<lparr>part_id = 3, part_contest_id = 1\<rparr>, \<lparr>part_id = 4, part_contest_id = 1\<rparr>],
      db_tasks = [\<lparr>task_id = 2, task_contest_id = Some 1, task_active_dataset_id = Some 5, task_title = ''t'', task_pvp_batch = 1, task_score_precision = 0, task_score_mode = SCORE_MODE_MAX_TOKENED_LAST, task_solved = False\<rparr>],
      db_datasets = [\<lparr>ds_id = 5, ds_task_id = 2, ds_autojudge = False, ds_task_type = ''PvP'',
        ds_task_type_parameters = [], ds_score_type = ''Sum'', ds_score_type_parameters = P_Int 100, ds_testcases = [\<lparr>tc_id = 11, tc_codename = ''001'', tc_public = False\<rparr>]\<rparr>],
      db_submissions = [\<lparr>sub_id = 7, sub_participation_id = 3, sub_task_id = 2, sub_timestamp = 100, sub_language = None,
          sub_comment = [], sub_official = True, sub_pvp_batch = Some 1, sub_token = None\<rparr>,
        \<lparr>sub_id = 8, sub_participation_id = 4, sub_task_id = 2, sub_timestamp = 100, sub_language = None,
          sub_comment = [], sub_official = True, sub_pvp_batch = Some 1, sub_token = None\<rparr>],
      db_submission_results = [], db_user_tests = [], db_user_test_results = [],
      db_matches = [\<lparr>match_id = 1, match_submission1_id = 7, match_submission2_id = 8, match_task_id = 2, match_timestamp = 0,
          match_batch = Some 1, match_batch_eval_id = Some 9, match_testcase_id = Some 11\<rparr>],
      db_match_results = [\<lparr>mr_match_id = 1, mr_dataset_id = 5, mr_evaluation_tries = 0, mr_match_details = None,
          mr_evaluation_ok = True, mr_matchings = [\<lparr>mg_testcase_id = 11, mg_outcome = Some ''0.0 0.0'', mg_text = []\<rparr>]\<rparr>],
      db_batches = [\<lparr>bt_id = 9, bt_task_id = 2, bt_task_pvp_batch = 1, bt_rounds_id = 1, bt_rounds = 2, bt_rest_matches = 1,
          bt_status = BATCH_EVALUATING, bt_timestamp = 0, bt_notification_sended = False\<rparr>],
      db_files = []\<rparr>"

definition duel_state :: "int \<Rightarrow> pvp_state" where
  "duel_state rest =
     (pvp_init (duel_db\<lparr>db_batches := map (\<lambda>b. b\<lparr>bt_rest_matches := rest\<rparr>) (db_batches duel_db)\<rparr>))
       \<lparr>pv_participations := [(9, [(3, 7), (4, 8)])],
        pv_competition_sys := [(9, [(11, [(3, 1500), (4, 1500)])])]\<rparr>"

lemmas duel_defs = duel_state_def duel_db_def pvp_init_def get_from_id_def dict_get_def

theorem open_round_announces_matches_witness:
  "\<exists>s' m. open_round 0 (\<lambda>_ _. 0) (\<lambda>_ ps. ps) 9 (hd (db_datasets duel_db)) (duel_state 0) = (s', Inr (Some True)) \<and>
     pv_sent s' = [ES_new_match (match_id m)] \<and> m \<in> set (db_matches (pv_saved s')) \<and> match_id m \<noteq> 1 \<and>
     match_submission1_id m = 7 \<and> match_submission2_id m = 8 \<and> match_testcase_id m = Some 11"
proof -
  let ?s = "duel_state 0" and ?ds = "hd (db_datasets duel_db)" and ?t = "hd (db_tasks duel_db)"
  let ?parts = "[(3, 7), (4, 8)] :: (int, int) dict" and ?sys = "[(11, [(3, 1500), (4, 1500)])] :: (int, elo) dict"
  let ?b = "(hd (db_batches duel_db))\<lparr>bt_rest_matches := 0\<rparr>" and ?tc = "\<lparr>tc_id = 11, tc_codename = ''001'', tc_public = False\<rparr>"
  have "make_pairs (\<lambda>_. 0) [(3, 1500), (4, 1500)] = [(3, 4)]"
    by (simp add: make_pairs_def find_candidates.simps candidates_in_def Let_def initial_window_def max_window_def)
  then have pairs: "round_pairs (\<lambda>_ _. 0) (\<lambda>_ ps. ps) ?parts ?sys ?tc = [(3, 4)]"
    by (simp add: round_pairs_def duel_db_def)
  have dicts: "dict_get (pv_participations ?s) 9 = Inr ?parts" "dict_get (pv_competition_sys ?s) 9 = Inr ?sys"
    by (simp_all add: duel_defs)
  have b: "get_from_id bt_id (db_batches (pv_db ?s)) 9 = Some ?b" "bt_rest_matches ?b = 0"
    by (simp_all add: duel_defs)
  have ready: "round_ready (pv_db ?s) ?t ?ds ?parts ?sys"
    by (simp add: round_ready_def active_dataset_def duel_defs dict_ok_def)
  have tcs: "ds_testcases ?ds = [?tc]" by (simp add: duel_db_def)
  have made: "pair_match ?t 0 9 ?parts ?tc (3, 4) = \<lparr>match_id = 0, match_submission1_id = 7, match_submission2_id = 8,
      match_task_id = 2, match_timestamp = 0, match_batch = Some 1, match_batch_eval_id = Some 9, match_testcase_id = Some 11\<rparr>"
    by (simp add: pair_match_def duel_db_def)
  have old: "pv_sent ?s = []" "map match_id (db_matches (pv_db ?s)) = [1]" by (simp_all add: duel_defs)
  have ne: "\<exists>tc\<in>set (ds_testcases ?ds). round_pairs (\<lambda>_ _. 0) (\<lambda>_ ps. ps) ?parts ?sys tc \<noteq> []"
    unfolding tcs using pairs by simp
  from open_round_announces_matches[OF dicts b ready refl ne, of 0] obtain s' rows where
    r: "open_round 0 (\<lambda>_ _. 0) (\<lambda>_ ps. ps) 9 ?ds ?s = (s', Inr (Some True))" "db_matches (pv_db s') = db_matches (pv_db ?s) @ rows"
      "map (\<lambda>m. m\<lparr>match_id := 0\<rparr>) rows = [pair_match ?t 0 9 ?parts ?tc (3, 4)]" "set (map match_id rows) \<inter> {1} = {}"
      "pv_sent s' = map (\<lambda>m. ES_new_match (match_id m)) rows" "pv_saved s' = pv_db s'"
    unfolding tcs old by (auto simp: pairs)
  obtain m where m: "rows = [m]" "m\<lparr>match_id := 0\<rparr> = pair_match ?t 0 9 ?parts ?tc (3, 4)"
    using r(3) by (cases rows) auto
  have "match_submission1_id m = 7 \<and> match_submission2_id m = 8 \<and> match_testcase_id m = Some 11"
    using m(2) unfolding made by (cases m) simp
  then show ?thesis using r m(1) by (intro exI[of _ s'] exI[of _ m]) simp
qed

section \<open>The results of the matches\<close>

text \<open>What \<open>match_ended\<close> finds for a match of a running batch: the match, its batch, the words of its outcome, the
  ratings on its testcase, and the participations of the two submissions.\<close>

definition match_known ::
  "pvp_state \<Rightarrow> int \<Rightarrow> match \<Rightarrow> batch \<Rightarrow> string list \<Rightarrow> (int, elo) dict \<Rightarrow> int \<Rightarrow> elo \<Rightarrow> int \<Rightarrow> int \<Rightarrow> bool"
where
  "match_known s i m b ws sys tc players a1 a2 \<longleftrightarrow>
     (let d = pv_saved s in
      get_from_id match_id (db_matches d) i = Some m \<and> match_batch_eval_id m = Some (bt_id b) \<and>
      get_from_id bt_id (db_batches d) (bt_id b) = Some b \<and> match_testcase_id m = Some tc \<and>
      (\<exists>r. List.find (\<lambda>r. mr_match_id r = i) (db_match_results d) = Some r \<and> outcome_words r = Inr ws) \<and>
      dict_get (pv_competition_sys s) (bt_id b) = Inr sys \<and> dict_get sys tc = Inr players \<and>
      (\<exists>s1. get_from_id sub_id (db_submissions d) (match_submission1_id m) = Some s1 \<and> sub_participation_id s1 = a1) \<and>
      (\<exists>s2. get_from_id sub_id (db_submissions d) (match_submission2_id m) = Some s2 \<and> sub_participation_id s2 = a2))"

lemma record_match_run:
  assumes "match_known s i m b ws sys tc players a1 a2" "outcome_at ws 0 = Inr r1" "outcome_at ws 1 = Inr r2"
    and "bt_rounds b \<noteq> 0"
    and s1: "pv_db s1 = put_batch b1 (pv_saved s)" "pv_competition_sys s1 = pv_competition_sys s"
    and b1: "bt_id b1 = bt_id b" "bt_rounds_id b1 = bt_rounds_id b" "bt_rounds b1 = bt_rounds b"
  defines "k \<equiv> 40 * 4 powr (- (real_of_int (bt_rounds_id b) / real_of_int (bt_rounds b)))"
  shows "record_match b1 m s1 = (case update_scores players a1 a2 r1 r2 k of
    Inl e \<Rightarrow> (s1, Inl e)
  | Inr players' \<Rightarrow> (s1\<lparr>pv_competition_sys := dict_set (pv_competition_sys s) (bt_id b) (dict_set sys tc players')\<rparr>, Inr ()))"
proof -
  have "match_id m = i" using assms(1) get_from_id_Some unfolding match_known_def Let_def by fastforce
  then show ?thesis
    using assms(1-4) unfolding match_known_def Let_def
    by (auto simp: record_match_def stm_simps the_attr_def py_assert_def k_factor_def py_div_def res_simps s1 b1 put_batch_def
        k_def split: sum.split)
qed

text \<open>The queue after an operation has been enqueued: nothing else in it changes.\<close>

definition queued_with :: "pvp_operation \<Rightarrow> pvp_operation executor \<Rightarrow> pvp_operation executor \<Rightarrow> bool" where
  "queued_with op ex ex' \<longleftrightarrow> ex_invar ex' \<and> ex_contains ex' op \<and> (\<forall>o'. o' \<noteq> op \<longrightarrow> ex_content ex' o' = ex_content ex o') \<and>
     (ex_contains ex op \<longrightarrow> ex' = ex)"

lemma pv_enqueue_run:
  assumes inv: "ex_invar (pv_executor s)"
  shows "\<exists>ex. pv_enqueue now op t s = (s\<lparr>pv_executor := ex\<rparr>, Inr ()) \<and> queued_with op (pv_executor s) ex"
proof (cases "ex_contains (pv_executor s) op")
  case True
  then have "ex_enqueue now (pv_executor s) op None t = Inr (False, pv_executor s)"
    using executor_queue.add_present[OF True, of "(None, t, now)"] by simp
  then show ?thesis
    using True inv by (intro exI[of _ "pv_executor s"]) (simp add: pv_enqueue_def queued_with_def)
next
  case False
  from executor_queue.add_absent[OF inv False, of "(None, t, now)"] obtain ex k where
    ex: "ex_enqueue now (pv_executor s) op None t = Inr (True, ex)" "ex_invar ex"
      "ex_content ex = (ex_content (pv_executor s))(op \<mapsto> k)" by auto
  moreover have "ex_contains ex op" using ex(2,3) by (simp add: executor_queue.contains_iff)
  ultimately show ?thesis
    using False by (intro exI[of _ ex]) (simp add: pv_enqueue_def queued_with_def)
qed

text \<open>(C15) The end of a match that does not end the batch: the counter of the batch goes down by one and is
  committed, and the ratings of the two players on the testcase of the match are updated with the
  outcomes of the match and the factor 40 times 4 to the minus (round / rounds). When it was the last match of the
  round the next round of the batch is in the queue; otherwise the queue stays as it is. Nothing
  is sent, and no rating outside the table of this batch and testcase changes.\<close>

theorem match_ended_continues_batch:
  assumes m: "match_known s i m b ws sys tc players a1 a2"
    and o: "outcome_at ws 0 = Inr r1" "outcome_at ws 1 = Inr r2" "r1 + r2 \<noteq> 0"
    and p: "dict_get players a1 = Inr x1" "dict_get players a2 = Inr x2" "a1 \<noteq> a2"
    and "ex_invar (pv_executor s)" "bt_rounds b \<noteq> 0" "bt_rest_matches b \<noteq> 1 \<or> bt_rounds_id b \<noteq> bt_rounds b"
  shows "\<exists>s' players'. pvp_match_ended show_score show_rating now i s = (s', Inr False) \<and>
    pv_saved s' = put_batch (b\<lparr>bt_rest_matches := bt_rest_matches b - 1\<rparr>) (pv_saved s) \<and>
    update_scores players a1 a2 r1 r2 (40 * 4 powr - (real_of_int (bt_rounds_id b) / real_of_int (bt_rounds b))) = Inr players' \<and>
    pv_competition_sys s' = dict_set (pv_competition_sys s) (bt_id b) (dict_set sys tc players') \<and>
    (if bt_rest_matches b = 1 then queued_with \<lparr>po_batch_id = bt_id b\<rparr> (pv_executor s) (pv_executor s')
     else pv_executor s' = pv_executor s) \<and>
    pv_sent s' = pv_sent s \<and> pv_participations s' = pv_participations s"
proof -
  let ?b1 = "b\<lparr>bt_rest_matches := bt_rest_matches b - 1\<rparr>" and ?d1 = "put_batch (b\<lparr>bt_rest_matches := bt_rest_matches b - 1\<rparr>) (pv_saved s)"
  let ?k = "40 * 4 powr (- (real_of_int (bt_rounds_id b) / real_of_int (bt_rounds b)))"
  let ?s1 = "s\<lparr>pv_db := ?d1, pv_saved := ?d1\<rparr>"
  obtain players' where u: "update_scores players a1 a2 r1 r2 ?k = Inr players'"
    using update_scores_run[OF p o(3)] by blast
  let ?s2 = "?s1\<lparr>pv_competition_sys := dict_set (pv_competition_sys s) (bt_id b) (dict_set sys tc players')\<rparr>"
  have r: "record_match ?b1 m ?s1 = (?s2, Inr ())"
    using record_match_run[OF m o(1,2) assms(9), of ?s1 ?b1] u by simp
  obtain ex where q: "pv_enqueue now \<lparr>po_batch_id = bt_id b\<rparr> None ?s2 = (?s2\<lparr>pv_executor := ex\<rparr>, Inr ())"
    "queued_with \<lparr>po_batch_id = bt_id b\<rparr> (pv_executor s) ex"
    using pv_enqueue_run[of ?s2 now "\<lparr>po_batch_id = bt_id b\<rparr>" None] assms(8) by auto
  let ?s3 = "if bt_rest_matches b = 1 then ?s2\<lparr>pv_executor := ex\<rparr> else ?s2"
  have "pvp_match_ended show_score show_rating now i s = (?s3\<lparr>pv_db := pv_saved ?s3\<rparr>, Inr False)"
    using m r q(1) assms(10) unfolding match_known_def Let_def
    by (auto simp: pvp_match_ended_def session_gen_def stm_simps pv_upd_def commit_def new_batch_def Let_def)
  then show ?thesis
    using u q(2) by (intro exI[of _ "?s3\<lparr>pv_db := pv_saved ?s3\<rparr>"] exI[of _ players']) auto
qed

lemma duel_match_known:
  "match_known (duel_state rest) 1 (hd (db_matches duel_db)) ((hd (db_batches duel_db))\<lparr>bt_rest_matches := rest\<rparr>)
     [''0.0'', ''0.0''] [(11, [(3, 1500), (4, 1500)])] 11 [(3, 1500), (4, 1500)] 3 4"
proof -
  have "split_ws ''0.0 0.0'' = [''0.0'', ''0.0'']" by code_simp
  then show ?thesis
    by (simp add: match_known_def duel_defs outcome_words_def py_assert_def py_nth_def res_simps)
qed

lemma duel_outcomes: "outcome_at [''0.0'', ''0.0''] 0 = Inr 0" "outcome_at [''0.0'', ''0.0''] 1 = Inr 0"
  "outcome_at [''1.0'', ''0.0''] 0 = Inr 1" "outcome_at [''1.0'', ''0.0''] 1 = Inr 0"
  by (simp_all add: outcome_at_def py_nth_def py_float_def strip_def lstrip_def is_space_def read_sign_def is_digit_def
      read_exponent_def nat_of_digits_def)

section \<open>A batch that never ends\<close>

text \<open>What can happen in the service, in any order: the searches of the sweeper, the ends of matches of any batch, batches
  started by hand, rounds opened by the executor for the operations in the queue, and changes of everything but
  the batches by other processes. Only the remote call \<open>new_batch\<close> for the batch in question is left out: no other service
  calls it, and the administration interface may not.\<close>

inductive pvp_run :: "int \<Rightarrow> pvp_state \<Rightarrow> pvp_state \<Rightarrow> bool" for i where
  stop: "pvp_run i s s"
| sweep: "pvp_run i s s' \<Longrightarrow> pvp_run i s (fst (pvp_missing_operations now s'))"
| match_ended: "pvp_run i s s' \<Longrightarrow> pvp_run i s (fst (pvp_match_ended show_score show_rating now m s'))"
| by_hand: "pvp_run i s s' \<Longrightarrow> pvp_run i s (fst (manually_start_match now t rounds s'))"
| new_batch: "pvp_run i s s' \<Longrightarrow> j \<noteq> i \<Longrightarrow> pvp_run i s (fst (new_batch now j s'))"
| turn: "pvp_run i s s' \<Longrightarrow> ex_pop (pv_executor s') False = Inr (e, ex) \<Longrightarrow>
    pvp_run i s (fst (pvp_execute now pick shuffle e (s'\<lparr>pv_executor := ex\<rparr>)))"
| database: "pvp_run i s s' \<Longrightarrow> db_batches d = db_batches (pv_saved s') \<Longrightarrow> pvp_run i s (s'\<lparr>pv_saved := d, pv_db := d\<rparr>)"

text \<open>The row of the batch, with no match that is waited for, or fewer.\<close>

definition stuck_row :: "batch \<Rightarrow> db \<Rightarrow> bool" where
  "stuck_row b d \<longleftrightarrow> (\<exists>r\<le>0. get_from_id bt_id (db_batches d) (bt_id b) = Some (b\<lparr>bt_rest_matches := r\<rparr>))"

definition stuck :: "batch \<Rightarrow> pvp_state \<Rightarrow> bool" where
  "stuck b s \<longleftrightarrow> stuck_row b (pv_db s) \<and> stuck_row b (pv_saved s) \<and> ex_invar (pv_executor s) \<and>
     \<not> ex_contains (pv_executor s) \<lparr>po_batch_id = bt_id b\<rparr>"

lemma stuck_commit [preserves_rules]: "preserves (stuck b) commit"
  by (simp add: preserves_def commit_def stm_simps stuck_def)

lemma stuck_session: "preserves (stuck b) m \<Longrightarrow> preserves (stuck b) (session_gen m)"
  unfolding preserves_def
proof (intro allI impI)
  fix s assume m: "\<forall>s. stuck b s \<longrightarrow> stuck b (fst (m s))" and s: "stuck b s"
  have "stuck b (s\<lparr>pv_db := pv_saved s\<rparr>)" using s by (simp add: stuck_def)
  then have "stuck b (fst (m (s\<lparr>pv_db := pv_saved s\<rparr>)))" using m by blast
  then show "stuck b (fst (session_gen m s))"
    by (cases "m (s\<lparr>pv_db := pv_saved s\<rparr>)") (simp add: session_gen_def stuck_def)
qed

lemma stuck_upd [preserves_rules]: "(\<And>d. stuck_row b d \<Longrightarrow> stuck_row b (f d)) \<Longrightarrow> preserves (stuck b) (pv_upd f)"
  by (simp add: preserves_def pv_upd_def stm_simps stuck_def)

lemma stuck_row_other: "db_batches d' = db_batches d \<Longrightarrow> stuck_row b d' \<longleftrightarrow> stuck_row b d"
  by (simp add: stuck_row_def)

lemma stuck_row_put:
  "bt_id x \<noteq> bt_id b \<Longrightarrow> stuck_row b (put_batch x d) \<longleftrightarrow> stuck_row b d"
  "stuck_row b (put_sr r d) \<longleftrightarrow> stuck_row b d" "stuck_row b (put_mr mr d) \<longleftrightarrow> stuck_row b d"
  "stuck_row b (put_task t d) \<longleftrightarrow> stuck_row b d" "stuck_row b (put_submission u d) \<longleftrightarrow> stuck_row b d"
  "stuck_row b (copy_submission now t p u d) \<longleftrightarrow> stuck_row b d"
  "stuck_row b (d\<lparr>db_matches := ms\<rparr>) \<longleftrightarrow> stuck_row b d"
  by (simp_all add: stuck_row_def put_batch_def get_put_row put_sr_def put_mr_def put_task_def put_submission_def
      copy_submission_def Let_def)

lemma stuck_supd: "(\<And>s. pv_db (f s) = pv_db s \<and> pv_saved (f s) = pv_saved s \<and> pv_executor (f s) = pv_executor s) \<Longrightarrow>
    preserves (stuck b) (supd f)"
  by (simp add: preserves_def stm_simps stuck_def)

lemma stuck_send [preserves_rules]: "preserves (stuck b) (pv_send m)"
  unfolding pv_send_def by (rule stuck_supd) simp

lemma stuck_the_attr [preserves_rules]: "preserves (stuck b) (the_attr x)"
  unfolding the_attr_def by (intro preserves_rules)

lemma stuck_enqueue:
  assumes "j \<noteq> bt_id b"
  shows "preserves (stuck b) (pv_enqueue now \<lparr>po_batch_id = j\<rparr> t)"
  unfolding preserves_def
proof (intro allI impI)
  fix s assume s: "stuck b s"
  obtain ex where ex: "pv_enqueue now \<lparr>po_batch_id = j\<rparr> t s = (s\<lparr>pv_executor := ex\<rparr>, Inr ())"
    "queued_with \<lparr>po_batch_id = j\<rparr> (pv_executor s) ex"
    using pv_enqueue_run[of s now "\<lparr>po_batch_id = j\<rparr>" t] s unfolding stuck_def by blast
  then have inv: "ex_invar ex" "ex_invar (pv_executor s)"
    and same: "ex_content ex \<lparr>po_batch_id = bt_id b\<rparr> = ex_content (pv_executor s) \<lparr>po_batch_id = bt_id b\<rparr>"
    using s assms by (auto simp: queued_with_def stuck_def)
  have "\<not> ex_contains ex \<lparr>po_batch_id = bt_id b\<rparr>"
    using s same executor_queue.contains_iff[OF inv(1)] executor_queue.contains_iff[OF inv(2)] by (auto simp: stuck_def dom_def)
  then show "stuck b (fst (pv_enqueue now \<lparr>po_batch_id = j\<rparr> t s))" using s inv(1) by (simp add: ex(1) stuck_def)
qed

lemma preserves_case_row:
  "preserves I m \<Longrightarrow> (\<And>x. key x = k \<Longrightarrow> preserves I (f x)) \<Longrightarrow>
    preserves I (case get_from_id key xs k of None \<Rightarrow> m | Some x \<Rightarrow> f x)"
  using get_from_id_Some[of key xs k] by (cases "get_from_id key xs k") auto

text \<open>Rules for code that reads the tables or a row of them first.\<close>

lemma preserves_read: "(\<And>s. I s \<Longrightarrow> I (fst (f (g s) s))) \<Longrightarrow> preserves I (sbind (sget g) f)"
  by (simp add: preserves_def stm_simps)

lemma preserves_the_row:
  "(\<And>x. key x = k \<Longrightarrow> preserves (stuck b) (f x)) \<Longrightarrow> preserves (stuck b) (sbind (the_attr (get_from_id key xs k)) f)"
  using get_from_id_Some[of key xs k]
  by (cases "get_from_id key xs k") (auto simp: the_attr_def preserves_def stm_simps)

lemma preserves_result:
  assumes "\<And>s. I s \<Longrightarrow> I (fst (m s)) \<and> (\<forall>x. snd (m s) = Inr x \<longrightarrow> Q x)" "\<And>x. Q x \<Longrightarrow> preserves I (f x)"
  shows "preserves I (sbind m f)"
  unfolding preserves_def
proof (intro allI impI)
  fix s assume s: "I s"
  obtain s' r where m: "m s = (s', r)" by fastforce
  show "I (fst (sbind m f s))"
    using assms(1)[OF s] assms(2) by (cases r) (auto simp: m sbind_run preserves_def)
qed

lemma stuck_add_batch:
  assumes "\<And>j. j \<noteq> bt_id b \<Longrightarrow> preserves (stuck b) (f j)"
  shows "preserves (stuck b) (sbind (add_batch now t n) f)"
proof (rule preserves_result[OF _ assms])
  fix s assume s: "stuck b s"
  let ?b = "new_batch_row now t n (pv_db s)"
  have "bt_id b \<in> set (map bt_id (db_batches (pv_db s)))"
  proof -
    obtain x where "get_from_id bt_id (db_batches (pv_db s)) (bt_id b) = Some x"
      using s by (auto simp: stuck_def stuck_row_def)
    from get_from_id_Some[OF this] show ?thesis by (metis image_eqI list.set_map)
  qed
  then have new: "bt_id ?b \<noteq> bt_id b"
    using fresh_id_not_in[of "map bt_id (db_batches (pv_db s))"] by (auto simp: new_batch_row_def)
  have run: "add_batch now t n s = (s\<lparr>pv_db := put_batch ?b (pv_db s), pv_saved := put_batch ?b (pv_db s)\<rparr>, Inr (bt_id ?b))"
    by (simp add: add_batch_def stm_simps pv_upd_def commit_def Let_def)
  have "stuck_row b (put_batch ?b (pv_db s))"
    using s new by (auto simp: stuck_def stuck_row_def put_batch_def get_put_row)
  then show "stuck b (fst (add_batch now t n s)) \<and> (\<forall>x. snd (add_batch now t n s) = Inr x \<longrightarrow> x \<noteq> bt_id b)"
    using s new by (simp add: run stuck_def)
qed

lemma stuck_auto_batch: "preserves (stuck b) (auto_batch now c t n)"
  unfolding auto_batch_def add_notification_def
  by (intro preserves_rules stuck_add_batch stuck_enqueue stuck_supd) simp_all

lemma stuck_sweep: "preserves (stuck b) (pvp_missing_operations now)"
  unfolding pvp_missing_operations_def
  by (intro stuck_session preserves_rules stuck_auto_batch)

lemma stuck_by_hand: "preserves (stuck b) (manually_start_match now t rounds)"
  unfolding manually_start_match_def new_batch_def
  by (intro stuck_session preserves_rules stuck_add_batch stuck_enqueue)

lemma stuck_add_matches: "preserves (stuck b) (add_matches ms)"
  by (induction ms) (auto simp: add_match_def stuck_row_put intro!: preserves_rules)

lemma stuck_open_round:
  assumes "j \<noteq> bt_id b"
  shows "preserves (stuck b) (open_round now pick shuffle j ds)"
  unfolding open_round_def add_match_result_def
  by (intro preserves_the_row preserves_rules stuck_add_matches) (simp_all add: assms stuck_row_put)

lemma stuck_start_round:
  assumes "j \<noteq> bt_id b"
  shows "preserves (stuck b) (start_round now pick shuffle j)"
  unfolding start_round_def next_batch_def mark_match_submissions_def copy_submissions_def set_up_batch_def mark_submission_def
  by (intro preserves_case_row preserves_rules stuck_open_round[OF assms] stuck_supd)
    (simp_all add: assms stuck_row_put start_evaluate_def)

lemma stuck_execute:
  assumes "po_batch_id (qe_item e) \<noteq> bt_id b"
  shows "preserves (stuck b) (pvp_execute now pick shuffle e)"
  unfolding pvp_execute_def
  by (intro stuck_session preserves_the_row preserves_rules stuck_start_round) (simp_all add: assms)

lemma stuck_batch_ended:
  assumes "j \<noteq> bt_id b"
  shows "preserves (stuck b) (batch_ended show_score show_rating j)"
  unfolding batch_ended_def update_score_def update_testcase_def update_single_score_def finish_submission_def active_result_def
  by (intro stuck_session preserves_the_row preserves_rules) (simp_all add: assms stuck_row_put end_evaluate_def)

lemma stuck_record_match: "preserves (stuck b) (record_match x m)"
  unfolding record_match_def by (intro preserves_rules stuck_supd) simp_all

text \<open>The end of another match of the batch makes the number smaller still, so that it never becomes zero again.\<close>

lemma stuck_match_ended: "preserves (stuck b) (pvp_match_ended show_score show_rating now i)"
  unfolding pvp_match_ended_def
proof (rule stuck_session, rule preserves_read)
  fix s assume s: "stuck b s"
  let ?rest = "\<lambda>m x. let b1 = x\<lparr>bt_rest_matches := bt_rest_matches x - 1\<rparr> in
                sthen (pv_upd (put_batch b1))
               (sthen commit
               (sthen (record_match b1 m)
               (if bt_rest_matches b1 = 0 then
                  (if bt_rounds_id b1 = bt_rounds b1
                   then sthen (batch_ended show_score show_rating (bt_id b1)) (sret True)
                   else sthen (new_batch now (bt_id b1)) (sret False))
                else sret False)))"
  have "preserves (stuck b) (?rest m x)" if x: "get_from_id bt_id (db_batches (pv_db s)) j = Some x" for m x j
  proof (cases "bt_id x = bt_id b")
    case False
    then show ?thesis
      unfolding Let_def new_batch_def
      by (intro preserves_rules stuck_record_match stuck_batch_ended stuck_enqueue) (simp_all add: stuck_row_put)
  next
    case True
    then obtain r where r: "r \<le> 0" "x = b\<lparr>bt_rest_matches := r\<rparr>"
      using s x get_from_id_Some[OF x] by (auto simp: stuck_def stuck_row_def)
    have "stuck_row b (put_batch (x\<lparr>bt_rest_matches := bt_rest_matches x - 1\<rparr>) d)" for d
      using r by (auto simp: stuck_row_def put_batch_def get_put_row intro!: exI[of _ "r - 1"])
    then show ?thesis
      using r unfolding Let_def by (intro preserves_rules stuck_record_match) simp_all
  qed
  then have "preserves (stuck b) (case get_from_id match_id (db_matches (pv_db s)) i of
         None \<Rightarrow> sret False
       | Some m \<Rightarrow>
           (case Option.bind (match_batch_eval_id m) (get_from_id bt_id (db_batches (pv_db s))) of
              None \<Rightarrow> sret False
            | Some x \<Rightarrow> ?rest m x))" (is "preserves _ ?m")
    by (cases "get_from_id match_id (db_matches (pv_db s)) i"; cases "Option.bind (match_batch_eval_id (the (get_from_id match_id (db_matches (pv_db s)) i))) (get_from_id bt_id (db_batches (pv_db s)))")
      (auto simp only: option.case option.sel Option.bind_eq_Some_conv Option.bind_lunit intro: preserves_sret)
  then show "stuck b (fst (?m s))" using s by (rule preservesD)
qed

lemma stuck_run: "pvp_run (bt_id b) s s' \<Longrightarrow> stuck b s \<Longrightarrow> stuck b s'"
proof (induction rule: pvp_run.induct)
  case (turn s s' e ex now pick shuffle)
  then have s': "stuck b s'" by blast
  then have inv: "ex_invar (pv_executor s')" by (simp add: stuck_def)
  note p = executor_queue.pop_min_Inr[OF inv turn.hyps(2)]
  have none: "ex_content (pv_executor s') \<lparr>po_batch_id = bt_id b\<rparr> = None"
    using s' executor_queue.contains_iff[OF inv] unfolding stuck_def by (metis domIff)
  then have "\<not> ex_contains ex \<lparr>po_batch_id = bt_id b\<rparr>"
    using p(4) executor_queue.contains_iff[OF p(1)] by (auto simp: dom_def)
  then have "stuck b (s'\<lparr>pv_executor := ex\<rparr>)" using s' p(1) by (simp add: stuck_def)
  moreover have "po_batch_id (qe_item e) \<noteq> bt_id b" using p(2) none by (cases "qe_item e") auto
  ultimately show ?case by (rule preservesD[OF stuck_execute, rotated])
next
  case (database s s' d)
  then show ?case by (auto simp: stuck_def stuck_row_def)
qed (auto simp: new_batch_def intro: preservesD[OF stuck_sweep] preservesD[OF stuck_match_ended] preservesD[OF stuck_by_hand]
    preservesD[OF stuck_enqueue])

text \<open>(C16) A match that both players lose with outcome zero, when it is the last match of a round of a running batch,
  leaves the batch running for ever: dividing by the sum of the outcomes raises \<open>ZeroDivisionError\<close> after the counter has been
  committed as zero. From then on, whatever searches, ends of matches, manual starts and turns of the executor
  follow, the batch keeps its status, its round and its number of rounds, it is not in the queue, and no match of it
  is waited for.\<close>

theorem zero_match_blocks_batch:
  assumes m: "match_known s i m b ws sys tc players a1 a2"
    and o: "outcome_at ws 0 = Inr r1" "outcome_at ws 1 = Inr r2" "r1 + r2 = 0"
    and p: "dict_get players a1 = Inr x1" "dict_get players a2 = Inr x2"
    and b: "bt_rounds b \<noteq> 0" "bt_rest_matches b = 1" "bt_status b = BATCH_EVALUATING"
    and q: "ex_invar (pv_executor s)" "\<not> ex_contains (pv_executor s) \<lparr>po_batch_id = bt_id b\<rparr>"
  shows "\<exists>s'. pvp_match_ended show_score show_rating now i s = (s', Inl ZeroDivisionError) \<and>
    pv_competition_sys s' = pv_competition_sys s \<and> pv_sent s' = pv_sent s \<and>
    (\<forall>s''. pvp_run (bt_id b) s' s'' \<longrightarrow>
      (\<exists>b'. get_from_id bt_id (db_batches (pv_saved s'')) (bt_id b) = Some b' \<and> bt_status b' = BATCH_EVALUATING \<and>
        bt_rest_matches b' \<le> 0 \<and> bt_rounds_id b' = bt_rounds_id b \<and> bt_rounds b' = bt_rounds b) \<and>
      \<not> ex_contains (pv_executor s'') \<lparr>po_batch_id = bt_id b\<rparr>)"
proof -
  let ?b1 = "b\<lparr>bt_rest_matches := 0\<rparr>" and ?d1 = "put_batch (b\<lparr>bt_rest_matches := 0\<rparr>) (pv_saved s)"
  let ?s1 = "s\<lparr>pv_db := ?d1, pv_saved := ?d1\<rparr>"
  have "update_scores players a1 a2 r1 r2 k = Inl ZeroDivisionError" for k
    using p o(3) by (simp add: update_scores_def py_div_def)
  then have r: "record_match ?b1 m ?s1 = (?s1, Inl ZeroDivisionError)"
    using record_match_run[OF m o(1,2) b(1), of ?s1 ?b1] by simp
  have run: "pvp_match_ended show_score show_rating now i s = (?s1, Inl ZeroDivisionError)"
    using m r b(2) unfolding match_known_def Let_def
    by (auto simp: pvp_match_ended_def session_gen_def stm_simps pv_upd_def commit_def Let_def)
  have "stuck b ?s1"
    using q by (auto simp: stuck_def stuck_row_def put_batch_def get_put_row)
  then have "stuck b s''" if "pvp_run (bt_id b) ?s1 s''" for s'' using stuck_run[OF that] by blast
  then show ?thesis
    using run b(3) by (intro exI[of _ ?s1]) (fastforce simp: stuck_def stuck_row_def)
qed

theorem zero_match_blocks_batch_witness:
  "\<exists>s'. pvp_match_ended (\<lambda>_. []) (\<lambda>_ _ _. []) 0 1 (duel_state 1) = (s', Inl ZeroDivisionError) \<and>
     (\<exists>b. get_from_id bt_id (db_batches (pv_saved s')) 9 = Some b \<and> bt_status b = BATCH_EVALUATING \<and> bt_rest_matches b \<le> 0)"
proof -
  let ?b = "(hd (db_batches duel_db))\<lparr>bt_rest_matches := 1\<rparr>"
  have b: "bt_rounds ?b \<noteq> 0" "bt_rest_matches ?b = 1" "bt_status ?b = BATCH_EVALUATING" "bt_id ?b = 9"
    and p: "dict_get [(3, 1500), (4, 1500 :: real)] (3 :: int) = Inr 1500" "dict_get [(3, 1500), (4, 1500 :: real)] (4 :: int) = Inr 1500"
    and z: "(0 :: real) + 0 = 0"
    by (simp_all add: duel_db_def dict_get_def)
  have q: "ex_invar (pv_executor (duel_state 1))" by (simp add: duel_state_def pvp_init_def ex_invar_init)
  have "pv_executor (duel_state 1) = executor_init False" by (simp add: duel_state_def pvp_init_def)
  then have "\<not> ex_contains (pv_executor (duel_state 1)) \<lparr>po_batch_id = bt_id ?b\<rparr>"
    by (simp add: ex_contains_def executor_init_def pq_contains_def pq_init_def dict_has_def)
  from zero_match_blocks_batch[OF duel_match_known[of 1] duel_outcomes(1,2) z p b(1-3) q this,
      of "\<lambda>_. []" "\<lambda>_ _ _. []" 0, unfolded b(4)]
  show ?thesis using pvp_run.stop by blast
qed

theorem match_ended_continues_batch_witness:
  "\<exists>(s :: pvp_state) s'. pvp_match_ended (\<lambda>_. []) (\<lambda>_ _ _. []) 0 1 s = (s', Inr False) \<and> ex_contains (pv_executor s') \<lparr>po_batch_id = 9\<rparr>"
proof -
  let ?mr = "(hd (db_match_results duel_db))\<lparr>mr_matchings := [\<lparr>mg_testcase_id = 11, mg_outcome = Some ''1.0 0.0'', mg_text = []\<rparr>]\<rparr>"
  let ?s = "(duel_state 1)\<lparr>pv_saved := (pv_saved (duel_state 1))\<lparr>db_match_results := [?mr]\<rparr>\<rparr>"
  let ?b = "(hd (db_batches duel_db))\<lparr>bt_rest_matches := 1\<rparr>"
  have "split_ws ''1.0 0.0'' = [''1.0'', ''0.0'']" by code_simp
  then have m: "match_known ?s 1 (hd (db_matches duel_db)) ?b [''1.0'', ''0.0''] [(11, [(3, 1500), (4, 1500)])] 11 [(3, 1500), (4, 1500)] 3 4"
    by (simp add: match_known_def duel_defs outcome_words_def py_assert_def py_nth_def res_simps)
  have b: "bt_rounds ?b \<noteq> 0" "bt_rest_matches ?b = 1" "bt_rounds_id ?b \<noteq> bt_rounds ?b" "bt_id ?b = 9"
    "dict_get [(3, 1500), (4, 1500 :: real)] (3 :: int) = Inr 1500" "dict_get [(3, 1500), (4, 1500 :: real)] (4 :: int) = Inr 1500"
    by (simp_all add: duel_db_def dict_get_def)
  have "ex_invar (pv_executor ?s)" by (simp add: duel_state_def pvp_init_def ex_invar_init)
  then show ?thesis
    using match_ended_continues_batch[OF m duel_outcomes(3,4), of 1500 1500 "\<lambda>_. []" "\<lambda>_ _ _. []" 0] b
    by (auto simp: queued_with_def)
qed

text \<open>A round in which no match can be made, for instance because the dataset has no testcases, returns
  without announcing anything although the round and the status of the batch are committed. Nothing
  will ever call \<open>match_ended\<close> for it, and as long as it is the latest batch of its task the periodic
  search starts no other one.\<close>

theorem empty_round_blocks_task:
  assumes "dict_get (pv_participations s) i = Inr parts" "dict_get (pv_competition_sys s) i = Inr sys"
    and b: "get_from_id bt_id (db_batches (pv_db s)) i = Some b" "bt_rest_matches b = 0" "bt_status b = BATCH_EVALUATING"
    and ds: "ds_testcases ds = []"
    and t: "active_dataset (pv_db s) t = Some ds" "ds_task_type ds = ''PvP''" "task_type_object ds = Inr tt" "task_pvp_batch t \<noteq> 0"
    and latest: "latest_batch (filter (\<lambda>b. bt_task_id b = task_id t)
        (put_row bt_id (b\<lparr>bt_rounds_id := bt_rounds_id b + 1\<rparr>) (db_batches (pv_db s)))) =
      Some (b\<lparr>bt_rounds_id := bt_rounds_id b + 1\<rparr>)"
  shows "\<exists>s'. open_round now pick shuffle i ds s = (s', Inr None) \<and> pv_sent s' = pv_sent s \<and>
    get_from_id bt_id (db_batches (pv_saved s')) i = Some (b\<lparr>bt_rounds_id := bt_rounds_id b + 1\<rparr>) \<and>
    auto_batch now' c t n (s'\<lparr>pv_db := pv_saved s'\<rparr>) = (s'\<lparr>pv_db := pv_saved s'\<rparr>, Inr n)"
proof -
  let ?d1 = "put_batch (b\<lparr>bt_rounds_id := bt_rounds_id b + 1\<rparr>) (pv_db s)"
  let ?s = "s\<lparr>pv_saved := ?d1, pv_db := put_batch (b\<lparr>bt_rounds_id := bt_rounds_id b + 1, bt_rest_matches := 0\<rparr>) ?d1\<rparr>"
  have bid: "bt_id b = i" using get_from_id_Some[OF b(1)] by simp
  have "open_round now pick shuffle i ds s = (?s, Inr None)"
    using assms(1,2) b ds
    by (simp add: open_round_def stm_simps the_attr_def pv_upd_def commit_def py_assert_def Let_def)
  moreover have "active_dataset ?d1 t = Some ds" using t(1) by (simp add: active_dataset_def put_batch_def split: option.splits)
  then have "auto_batch now' c t n (?s\<lparr>pv_db := pv_saved ?s\<rparr>) = (?s\<lparr>pv_db := pv_saved ?s\<rparr>, Inr n)"
    using t latest b(3) by (simp add: auto_batch_def stm_simps the_attr_def put_batch_def)
  ultimately show ?thesis
    by (intro exI[of _ ?s]) (simp add: put_batch_def get_put_row bid)
qed

theorem empty_round_blocks_task_witness:
  "\<exists>(s :: pvp_state) s' ds. open_round 0 (\<lambda>_ _. 0) (\<lambda>_ ps. ps) 9 ds s = (s', Inr None) \<and>
     (\<exists>b. get_from_id bt_id (db_batches (pv_saved s')) 9 = Some b \<and> bt_status b = BATCH_EVALUATING)"
proof -
  let ?params = "[P_Str ''alone'', P_Str ''std_io'', P_Str ''enabled'', P_Int 3600, P_Int 10, P_Int 300]"
  let ?ds = "(hd (db_datasets duel_db))\<lparr>ds_testcases := [], ds_task_type_parameters := ?params\<rparr>"
  let ?s0 = "duel_state 0" and ?t = "hd (db_tasks duel_db)" and ?b = "(hd (db_batches duel_db))\<lparr>bt_rest_matches := 0\<rparr>"
  let ?s = "?s0\<lparr>pv_db := (pv_db ?s0)\<lparr>db_datasets := [?ds]\<rparr>\<rparr>"
  have "dict_get (pv_participations ?s) 9 = Inr [(3, 7), (4, 8)]"
    "dict_get (pv_competition_sys ?s) 9 = Inr [(11, [(3, 1500), (4, 1500)])]"
    "get_from_id bt_id (db_batches (pv_db ?s)) 9 = Some ?b" "bt_rest_matches ?b = 0" "bt_status ?b = BATCH_EVALUATING"
    "ds_testcases ?ds = []" "active_dataset (pv_db ?s) ?t = Some ?ds" "ds_task_type ?ds = ''PvP''"
    by (simp_all add: duel_defs active_dataset_def)
  moreover obtain tt where "task_type_object ?ds = Inr tt" by (simp add: task_type_object_def)
  moreover have "task_pvp_batch ?t \<noteq> 0" "latest_batch (filter (\<lambda>b. bt_task_id b = task_id ?t)
        (put_row bt_id (?b\<lparr>bt_rounds_id := bt_rounds_id ?b + 1\<rparr>) (db_batches (pv_db ?s)))) =
      Some (?b\<lparr>bt_rounds_id := bt_rounds_id ?b + 1\<rparr>)"
    by (simp_all add: duel_defs)
  ultimately have "\<exists>s'. open_round 0 (\<lambda>_ _. 0) (\<lambda>_ ps. ps) 9 ?ds ?s = (s', Inr None) \<and> pv_sent s' = pv_sent ?s \<and>
      get_from_id bt_id (db_batches (pv_saved s')) 9 = Some (?b\<lparr>bt_rounds_id := bt_rounds_id ?b + 1\<rparr>) \<and>
      auto_batch 0 \<lparr>ct_id = 1, ct_start = 0, ct_stop = 9000\<rparr> ?t 0 (s'\<lparr>pv_db := pv_saved s'\<rparr>) = (s'\<lparr>pv_db := pv_saved s'\<rparr>, Inr 0)"
    by (rule empty_round_blocks_task)
  moreover have "bt_status (?b\<lparr>bt_rounds_id := bt_rounds_id ?b + 1\<rparr>) = BATCH_EVALUATING" by (simp add: duel_db_def)
  ultimately show ?thesis by blast
qed

end
