(* ===== verification/Score_Types.thy ===== *)
theory Score_Types
  imports Contest_Db Python_Text "HOL-Library.List_Lexorder" "HOL-Library.Char_ord"
begin

text \<open>
  The score types (\<^verbatim>\<open>cms/grading/scoretypes/abc.py\<close>, \<^verbatim>\<open>GroupMin.py\<close>, \<^verbatim>\<open>GroupMul.py\<close>, \<^verbatim>\<open>GroupThreshold.py\<close>,
  \<^verbatim>\<open>Sum.py\<close>): which testcases belong to a subtask, the maximum scores, and the score of a submission
  result. The group score types share one implementation that calls \<open>get_public_outcome\<close> and \<open>reduce\<close> of the
  subclass; here it takes them as arguments, and the locale \<open>group_score_type\<close> states what it needs of
  them. Codenames are compared character by character, as Python compares strings. \<open>re_match\<close> stands
  for the regular expression library, \<open>show_g\<close> for the formatting of a number with \<open>%g\<close>.
\<close>

section \<open>Parameters\<close>

definition number :: "parameter \<Rightarrow> real res" where
  "number p = (case p of P_Int i \<Rightarrow> Inr (real_of_int i) | P_Real r \<Rightarrow> Inr r | _ \<Rightarrow> Inl TypeError)"

definition param_number :: "parameter list \<Rightarrow> nat \<Rightarrow> real res" where
  "param_number p i = res_bind (py_nth p i) number"

definition group_parameters :: "parameter \<Rightarrow> parameter list list res" where
  "group_parameters p =
     (case p of
        P_List ps \<Rightarrow> res_map (\<lambda>q. case q of P_List l \<Rightarrow> Inr l | _ \<Rightarrow> Inl TypeError) ps
      | P_Str s \<Rightarrow> if s = [] then Inr [] else Inl IndexError
      | _ \<Rightarrow> Inl TypeError)"

text \<open>\<open>xs[a:b]\<close>: negative bounds count from the end.\<close>

definition py_slice :: "'a list \<Rightarrow> int \<Rightarrow> int \<Rightarrow> 'a list" where
  "py_slice xs a b =
     (let n = int (length xs);
          clip = (\<lambda>i. nat (if i < 0 then max 0 (n + i) else min i n))
      in drop (clip a) (take (clip b) xs))"

section \<open>Targets\<close>

fun int_targets :: "string list \<Rightarrow> int list \<Rightarrow> int \<Rightarrow> string list list" where
  "int_targets indices [] current = []"
| "int_targets indices (t # ts) current =
     py_slice indices current (current + t) # int_targets indices ts (current + t)"

definition regexp_targets ::
  "(string \<Rightarrow> string \<Rightarrow> bool res) \<Rightarrow> string list \<Rightarrow> string list \<Rightarrow> string list list res"
where
  "regexp_targets re_match indices ts =
     res_map (\<lambda>t.
       res_bind (res_map (\<lambda>tc. res_bind (re_match t tc) (\<lambda>b. Inr (tc, b))) indices) (\<lambda>bs.
         let target = map fst (filter snd bs) in
         if target = [] then Inl ValueError else Inr target)) ts"

definition is_P_Int :: "parameter \<Rightarrow> bool" where "is_P_Int p = (case p of P_Int _ \<Rightarrow> True | _ \<Rightarrow> False)"
definition is_P_Str :: "parameter \<Rightarrow> bool" where "is_P_Str p = (case p of P_Str _ \<Rightarrow> True | _ \<Rightarrow> False)"

definition retrieve_target_testcases ::
  "(string \<Rightarrow> string \<Rightarrow> bool res) \<Rightarrow> parameter list list \<Rightarrow> (string, bool) dict \<Rightarrow> string list list res"
where
  "retrieve_target_testcases re_match parameters public_testcases =
     res_bind (res_map (\<lambda>p. py_nth p 1) parameters) (\<lambda>t_params.
       let indices = sort (map fst public_testcases) in
       if list_all is_P_Int t_params then
         Inr (int_targets indices (map (\<lambda>p. case p of P_Int t \<Rightarrow> t | _ \<Rightarrow> 0) t_params) 0)
       else if list_all is_P_Str t_params then
         regexp_targets re_match indices (map (\<lambda>p. case p of P_Str t \<Rightarrow> t | _ \<Rightarrow> []) t_params)
       else Inl ValueError)"

section \<open>Maximum scores\<close>

definition all_public :: "(string, bool) dict \<Rightarrow> string list \<Rightarrow> bool res" where
  "all_public public_testcases target =
     res_bind (res_map (dict_get public_testcases) target) (\<lambda>bs. Inr (list_all id bs))"

fun group_max_loop ::
  "(string, bool) dict \<Rightarrow> (parameter list \<times> string list) list \<Rightarrow> real \<Rightarrow> real \<Rightarrow> real list \<Rightarrow>
   (real \<times> real \<times> real list) res"
where
  "group_max_loop public_testcases [] score public_score headers = Inr (score, public_score, headers)"
| "group_max_loop public_testcases ((p, target) # rest) score public_score headers =
     res_bind (param_number p 0) (\<lambda>m.
     res_bind (all_public public_testcases target) (\<lambda>pub.
       group_max_loop public_testcases rest (score + m) (if pub then public_score + m else public_score)
         (headers @ [m])))"

text \<open>The headers are \<open>"Subtask %d (%g)"\<close> with the position and the score; the model keeps the
  scores.\<close>

definition group_max_scores ::
  "(string \<Rightarrow> string \<Rightarrow> bool res) \<Rightarrow> parameter list list \<Rightarrow> (string, bool) dict \<Rightarrow> (real \<times> real \<times> real list) res"
where
  "group_max_scores re_match parameters public_testcases =
     res_bind (retrieve_target_testcases re_match parameters public_testcases) (\<lambda>targets.
       group_max_loop public_testcases (zip parameters targets) 0 0 [])"

definition sum_max_scores :: "parameter \<Rightarrow> (string, bool) dict \<Rightarrow> (real \<times> real \<times> real list) res" where
  "sum_max_scores parameters public_testcases =
     (if public_testcases = [] then Inr (0, 0, [])
      else res_bind (number parameters) (\<lambda>m.
        Inr (sum_list (map (\<lambda>_. m) public_testcases), sum_list (map (\<lambda>_. m) (filter snd public_testcases)), [])))"

section \<open>Scores of a submission result\<close>

record score_result =
  scr_score :: real
  scr_details :: json
  scr_public_score :: real
  scr_public_details :: json
  scr_ranking_details :: "string list"

text \<open>\<open>{ev.codename: ev for ev in submission_result.evaluations}\<close>\<close>

definition evaluations_by_codename :: "dataset \<Rightarrow> submission_result \<Rightarrow> (string, evaluation) dict res" where
  "evaluations_by_codename ds r =
     res_bind (res_map (\<lambda>ev. case get_from_id tc_id (ds_testcases ds) (ev_testcase_id ev) of
                 None \<Rightarrow> Inl AttributeError | Some tc \<Rightarrow> Inr (tc_codename tc, ev)) (sr_evaluations r))
       (\<lambda>kvs. Inr (fold (\<lambda>(k, v) d. dict_set d k v) kvs []))"

definition float_outcome :: "evaluation \<Rightarrow> real res" where
  "float_outcome ev = (case ev_outcome ev of None \<Rightarrow> Inl TypeError | Some x \<Rightarrow> py_float x)"

fun group_testcases ::
  "(real \<Rightarrow> parameter list \<Rightarrow> string res) \<Rightarrow> (string, evaluation) dict \<Rightarrow> (string, bool) dict \<Rightarrow> parameter list \<Rightarrow>
   string list \<Rightarrow> bool \<Rightarrow> (tc_view list \<times> tc_view list) res"
where
  "group_testcases get_public_outcome evaluations public_testcases parameter [] previous_tc_all_correct = Inr ([], [])"
| "group_testcases get_public_outcome evaluations public_testcases parameter (tc # tcs) previous_tc_all_correct =
     res_bind (dict_get evaluations tc) (\<lambda>ev.
     res_bind (float_outcome ev) (\<lambda>x.
     res_bind (get_public_outcome x parameter) (\<lambda>tc_outcome.
     res_bind (dict_get public_testcases tc) (\<lambda>public.
       let detail = Tc_Full \<lparr>td_idx = tc, td_outcome = tc_outcome, td_text = ev_text ev, td_time = ev_execution_time ev,
             td_memory = ev_execution_memory ev, td_show_in_restricted_feedback = Some previous_tc_all_correct\<rparr> in
       res_bind (group_testcases get_public_outcome evaluations public_testcases parameter tcs
                   (if public \<and> tc_outcome \<noteq> ''Correct'' then False else previous_tc_all_correct)) (\<lambda>(ts, ps).
         Inr (detail # ts, (if public then detail else Tc_Idx tc) # ps))))))"

definition group_subtask ::
  "(real \<Rightarrow> parameter list \<Rightarrow> string res) \<Rightarrow> (real list \<Rightarrow> parameter list \<Rightarrow> real res) \<Rightarrow>
   (string, evaluation) dict \<Rightarrow> (string, bool) dict \<Rightarrow> int \<Rightarrow> parameter list \<Rightarrow> string list \<Rightarrow>
   (real \<times> bool \<times> subtask_detail \<times> subtask_view) res"
where
  "group_subtask get_public_outcome reduce evaluations public_testcases idx parameter target =
     res_bind (group_testcases get_public_outcome evaluations public_testcases parameter target True) (\<lambda>(testcases, public).
     res_bind (res_map (\<lambda>tc. res_bind (dict_get evaluations tc) float_outcome) target) (\<lambda>outcomes.
     res_bind (reduce outcomes parameter) (\<lambda>fraction.
     res_bind (param_number parameter 0) (\<lambda>m.
       let detail = \<lparr>sd_idx = idx, sd_score_fraction = fraction, sd_max_score = m, sd_testcases = testcases\<rparr> in
       res_bind (all_public public_testcases target) (\<lambda>pub.
         Inr (fraction * m, pub, detail, if pub then Sub_Full detail else Sub_Partial idx public))))))"

fun group_loop ::
  "(parameter list \<Rightarrow> int \<Rightarrow> string list \<Rightarrow> (real \<times> bool \<times> subtask_detail \<times> subtask_view) res) \<Rightarrow> (real \<Rightarrow> string) \<Rightarrow>
   (parameter list \<times> string list) list \<Rightarrow> int \<Rightarrow> real \<Rightarrow> subtask_detail list \<Rightarrow> real \<Rightarrow> subtask_view list \<Rightarrow> string list \<Rightarrow>
   score_result res"
where
  "group_loop subtask show_g [] idx score subtasks public_score public_subtasks ranking_details =
     Inr \<lparr>scr_score = score, scr_details = J_Subtasks (map Sub_Full subtasks), scr_public_score = public_score,
          scr_public_details = J_Subtasks public_subtasks, scr_ranking_details = ranking_details\<rparr>"
| "group_loop subtask show_g ((p, target) # rest) idx score subtasks public_score public_subtasks ranking_details =
     res_bind (subtask p (idx + 1) target) (\<lambda>(st_score, pub, detail, view).
       group_loop subtask show_g rest (idx + 1) (score + st_score) (subtasks @ [detail])
         (if pub then public_score + st_score else public_score) (public_subtasks @ [view])
         (ranking_details @ [show_g (py_round st_score 2)]))"

definition group_compute_score ::
  "(real \<Rightarrow> parameter list \<Rightarrow> string res) \<Rightarrow> (real list \<Rightarrow> parameter list \<Rightarrow> real res) \<Rightarrow>
   (string \<Rightarrow> string \<Rightarrow> bool res) \<Rightarrow> (real \<Rightarrow> string) \<Rightarrow> parameter list list \<Rightarrow> (string, bool) dict \<Rightarrow>
   dataset \<Rightarrow> submission_result \<Rightarrow> score_result res"
where
  "group_compute_score get_public_outcome reduce re_match show_g parameters public_testcases ds r =
     (if \<not> sr_evaluated r then
        Inr \<lparr>scr_score = 0, scr_details = J_Subtasks [], scr_public_score = 0, scr_public_details = J_Subtasks [],
             scr_ranking_details = map (\<lambda>_. show_g 0) parameters\<rparr>
      else
        res_bind (retrieve_target_testcases re_match parameters public_testcases) (\<lambda>targets.
        res_bind (evaluations_by_codename ds r) (\<lambda>evaluations.
          group_loop (\<lambda>p idx target. group_subtask get_public_outcome reduce evaluations public_testcases idx p target)
            show_g (zip parameters targets) 0 0 [] 0 [] [])))"

section \<open>The group score types\<close>

definition partial_public_outcome :: "real \<Rightarrow> parameter list \<Rightarrow> string res" where
  "partial_public_outcome outcome p =
     Inr (if outcome \<le> 0 then ''Not correct'' else if outcome \<ge> 1 then ''Correct'' else ''Partially correct'')"

definition GroupMin_reduce :: "real list \<Rightarrow> parameter list \<Rightarrow> real res" where
  "GroupMin_reduce outcomes p = (case outcomes of [] \<Rightarrow> Inl ValueError | x # xs \<Rightarrow> Inr (fold min xs x))"

definition GroupMul_reduce :: "real list \<Rightarrow> parameter list \<Rightarrow> real res" where
  "GroupMul_reduce outcomes p = (case outcomes of [] \<Rightarrow> Inl TypeError | x # xs \<Rightarrow> Inr (foldl (*) x xs))"

definition GroupThreshold_public_outcome :: "real \<Rightarrow> parameter list \<Rightarrow> string res" where
  "GroupThreshold_public_outcome outcome p =
     res_bind (param_number p 2) (\<lambda>threshold.
       Inr (if 0 < outcome \<and> outcome \<le> threshold then ''Correct'' else ''Not correct''))"

definition GroupThreshold_reduce :: "real list \<Rightarrow> parameter list \<Rightarrow> real res" where
  "GroupThreshold_reduce outcomes p =
     res_bind (param_number p 2) (\<lambda>threshold.
       Inr (if list_all (\<lambda>outcome. 0 < outcome \<and> outcome \<le> threshold) outcomes then 1 else 0))"

section \<open>Sum\<close>

definition Sum_public_outcome :: "real \<Rightarrow> real \<Rightarrow> string" where
  "Sum_public_outcome parameters outcome =
     (if outcome \<le> 0 then ''Not correct'' else if outcome \<ge> parameters then ''Correct'' else ''Partially correct'')"

fun sum_loop ::
  "(string, evaluation) dict \<Rightarrow> (string, bool) dict \<Rightarrow> real \<Rightarrow> string list \<Rightarrow> real \<Rightarrow> real \<Rightarrow> tc_view list \<Rightarrow> tc_view list \<Rightarrow>
   score_result res"
where
  "sum_loop evaluations public_testcases parameters [] score public_score testcases public =
     Inr \<lparr>scr_score = score, scr_details = J_Testcases testcases, scr_public_score = public_score,
          scr_public_details = J_Testcases public, scr_ranking_details = []\<rparr>"
| "sum_loop evaluations public_testcases parameters (idx # rest) score public_score testcases public =
     res_bind (dict_get evaluations idx) (\<lambda>ev.
     res_bind (float_outcome ev) (\<lambda>x.
       let this_score = x * parameters;
           detail = Tc_Full \<lparr>td_idx = idx, td_outcome = Sum_public_outcome parameters this_score, td_text = ev_text ev,
             td_time = ev_execution_time ev, td_memory = ev_execution_memory ev, td_show_in_restricted_feedback = None\<rparr> in
       res_bind (dict_get public_testcases idx) (\<lambda>pub.
         sum_loop evaluations public_testcases parameters rest (score + this_score)
           (if pub then public_score + this_score else public_score) (testcases @ [detail])
           (public @ [if pub then detail else Tc_Idx idx]))))"

definition sum_compute_score ::
  "parameter \<Rightarrow> (string, bool) dict \<Rightarrow> dataset \<Rightarrow> submission_result \<Rightarrow> score_result res"
where
  "sum_compute_score parameters public_testcases ds r =
     (if \<not> sr_evaluated r then
        Inr \<lparr>scr_score = 0, scr_details = J_Testcases [], scr_public_score = 0, scr_public_details = J_Testcases [],
             scr_ranking_details = []\<rparr>
      else
        res_bind (evaluations_by_codename ds r) (\<lambda>evaluations.
          if public_testcases = [] then
            Inr \<lparr>scr_score = 0, scr_details = J_Testcases [], scr_public_score = 0, scr_public_details = J_Testcases [],
                 scr_ranking_details = []\<rparr>
          else res_bind (number parameters) (\<lambda>m.
            sum_loop evaluations public_testcases m (sort (map fst public_testcases)) 0 0 [] [])))"

section \<open>The score type of a dataset\<close>

definition public_testcases_of :: "dataset \<Rightarrow> (string, bool) dict" where
  "public_testcases_of ds = map (\<lambda>tc. (tc_codename tc, tc_public tc)) (ds_testcases ds)"

text \<open>\<open>dataset.score_type_object\<close>: an unknown name is a \<open>KeyError\<close>, any failure of \<open>max_scores\<close> a \<open>ValueError\<close>. A result is the
  maximum score of the object and its \<open>compute_score\<close>.\<close>

definition or_value_error :: "'a res \<Rightarrow> 'a res" where
  "or_value_error r = (case r of Inl _ \<Rightarrow> Inl ValueError | Inr x \<Rightarrow> Inr x)"

definition score_type_object ::
  "(string \<Rightarrow> string \<Rightarrow> bool res) \<Rightarrow> (real \<Rightarrow> string) \<Rightarrow> dataset \<Rightarrow> (real \<times> (submission_result \<Rightarrow> score_result res)) res"
where
  "score_type_object re_match show_g ds =
     (let pub = public_testcases_of ds; params = ds_score_type_parameters ds;
          group = (\<lambda>out red. res_bind (or_value_error (group_parameters params)) (\<lambda>ps.
            res_bind (or_value_error (group_max_scores re_match ps pub)) (\<lambda>(m, _).
              Inr (m, group_compute_score out red re_match show_g ps pub ds))))
      in if ds_score_type ds = ''GroupMin'' then group partial_public_outcome GroupMin_reduce
         else if ds_score_type ds = ''GroupMul'' then group partial_public_outcome GroupMul_reduce
         else if ds_score_type ds = ''GroupThreshold'' then group GroupThreshold_public_outcome GroupThreshold_reduce
         else if ds_score_type ds = ''Sum'' then
           res_bind (or_value_error (sum_max_scores params pub)) (\<lambda>(m, _). Inr (m, sum_compute_score params pub ds))
         else Inl KeyError)"

text \<open>Score details that account for the score: a list of subtasks, each with a non-negative
  score, that add up to it.\<close>

definition accounts_for :: "real \<Rightarrow> json option \<Rightarrow> bool" where
  "accounts_for x details \<longleftrightarrow>
     (\<exists>sds. details = Some (J_Subtasks (map Sub_Full sds)) \<and> distinct (map sd_idx sds) \<and>
        (\<forall>sd\<in>set sds. 0 \<le> sd_score_fraction sd * sd_max_score sd) \<and>
        x = sum_list (map (\<lambda>sd. sd_score_fraction sd * sd_max_score sd) sds))"

section \<open>What the group score types need of a subclass\<close>

locale group_score_type =
  fixes get_public_outcome :: "real \<Rightarrow> parameter list \<Rightarrow> string res"
    and reduce :: "real list \<Rightarrow> parameter list \<Rightarrow> real res"
    and param_ok :: "parameter list \<Rightarrow> bool" and empty_error :: "py_error option"
  assumes outcome_total: "param_ok p \<Longrightarrow> \<exists>text. get_public_outcome x p = Inr text"
    and reduce_range: "param_ok p \<Longrightarrow> xs \<noteq> [] \<Longrightarrow> \<forall>x\<in>set xs. 0 \<le> x \<and> x \<le> 1 \<Longrightarrow>
      \<exists>y. reduce xs p = Inr y \<and> 0 \<le> y \<and> y \<le> 1"
    and reduce_empty: "param_ok p \<Longrightarrow> case empty_error of None \<Rightarrow> \<exists>y. reduce [] p = Inr y \<and> 0 \<le> y \<and> y \<le> 1
      | Some e \<Rightarrow> reduce [] p = Inl e"

text \<open>A testcase that can be scored: known to the dataset and evaluated, with an outcome between 0
  and 1. A group that can be scored: with a non-negative maximum score. Nothing keeps a group from being
  empty: numbers of testcases that add up to more than there are, or a zero, give empty slices.\<close>

definition scorable :: "(string, evaluation) dict \<Rightarrow> (string, bool) dict \<Rightarrow> string \<Rightarrow> bool" where
  "scorable evs pub tc \<longleftrightarrow> dict_has pub tc \<and>
     (\<exists>x. res_bind (dict_get evs tc) float_outcome = Inr x \<and> 0 \<le> x \<and> x \<le> 1)"

definition group_ok :: "parameter list \<times> string list \<Rightarrow> bool" where
  "group_ok = (\<lambda>(p, target :: string list). \<exists>m. param_number p 0 = Inr m \<and> 0 \<le> m)"

lemma all_public_total:
  assumes "\<forall>tc\<in>set target. dict_has pub tc"
  shows "\<exists>b. all_public pub target = Inr b"
proof -
  have "\<forall>tc\<in>set target. \<exists>y. dict_get pub tc = Inr y \<and> True"
    using assms by (auto simp: dict_has_iff dict_get_Inr_iff)
  from res_map_total[OF this] show ?thesis by (auto simp: all_public_def)
qed

context group_score_type
begin

lemma testcases_total:
  assumes "\<forall>tc\<in>set target. scorable evs pub tc" "param_ok p"
  shows "\<exists>ts ps. group_testcases get_public_outcome evs pub p target b = Inr (ts, ps)"
  using assms(1)
proof (induction target arbitrary: b)
  case (Cons tc target)
  then obtain ev x where e: "dict_get evs tc = Inr ev" "float_outcome ev = Inr x" and "dict_has pub tc"
    unfolding scorable_def by (cases "dict_get evs tc") auto
  then obtain q where q: "dict_get pub tc = Inr q" by (auto simp: dict_has_iff dict_get_Inr_iff)
  obtain msg where "get_public_outcome x p = Inr msg" using outcome_total[OF assms(2)] by blast
  moreover obtain ts ps where "group_testcases get_public_outcome evs pub p target
      (if q \<and> msg \<noteq> ''Correct'' then False else b) = Inr (ts, ps)"
    using Cons by fastforce
  ultimately show ?case using e q by (simp add: Let_def)
qed simp

lemma subtask_range:
  assumes "\<forall>tc\<in>set target. scorable evs pub tc" "param_ok p" "target \<noteq> [] \<or> empty_error = None" "param_number p 0 = Inr m" "0 \<le> m"
    "all_public pub target = Inr q"
  shows "\<exists>x d v. group_subtask get_public_outcome reduce evs pub idx p target = Inr (x, q, d, v) \<and> 0 \<le> x \<and> x \<le> m"
proof -
  obtain ts ps where t: "group_testcases get_public_outcome evs pub p target True = Inr (ts, ps)"
    using testcases_total[OF assms(1,2)] by blast
  have "\<forall>tc\<in>set target. \<exists>y. res_bind (dict_get evs tc) float_outcome = Inr y \<and> (0 \<le> y \<and> y \<le> 1)"
    using assms(1) unfolding scorable_def by blast
  from res_map_total[OF this] obtain ys where
    ys: "res_map (\<lambda>tc. res_bind (dict_get evs tc) float_outcome) target = Inr ys" "length ys = length target"
      "\<forall>y\<in>set ys. 0 \<le> y \<and> y \<le> 1" by blast
  obtain y where y: "reduce ys p = Inr y" "0 \<le> y" "y \<le> 1"
  proof (cases "ys = []")
    case True
    then have "empty_error = None" using ys(2) assms(3) by auto
    then show ?thesis using True reduce_empty[OF assms(2)] that by auto
  next
    case False
    then show ?thesis using reduce_range[OF assms(2) _ ys(3)] that by blast
  qed
  then have "0 \<le> y * m" "y * m \<le> m" using assms(5) by (simp_all add: mult_left_le_one_le)
  then show ?thesis
    using t ys(1) y(1) assms(4,6) by (auto simp: group_subtask_def Let_def)
qed

text \<open>The two loops side by side: the scores stay below the maximum scores.\<close>

lemma loops_bounded:
  assumes "\<forall>g\<in>set groups. group_ok g \<and> param_ok (fst g) \<and> (\<forall>tc\<in>set (snd g). scorable evs pub tc) \<and>
      (snd g \<noteq> [] \<or> empty_error = None)"
    and "0 \<le> ps" "ps \<le> s" "s \<le> ms" "ps \<le> mps"
  shows "\<exists>r mx pmx hs'. group_loop (\<lambda>p idx target. group_subtask get_public_outcome reduce evs pub idx p target) show_g groups idx s ds ps vs rs = Inr r \<and>
    group_max_loop pub groups ms mps hs = Inr (mx, pmx, hs') \<and>
    0 \<le> scr_public_score r \<and> scr_public_score r \<le> scr_score r \<and> scr_score r \<le> mx \<and> scr_public_score r \<le> pmx"
  using assms
proof (induction groups arbitrary: idx s ds ps vs rs ms mps hs)
  case (Cons g groups)
  obtain p target where g: "g = (p, target)" by (cases g)
  obtain m where m: "param_number p 0 = Inr m" "0 \<le> m" and ne: "target \<noteq> [] \<or> empty_error = None"
    using Cons.prems(1) by (auto simp: g group_ok_def)
  have sc: "\<forall>tc\<in>set target. scorable evs pub tc" "param_ok p" using Cons.prems(1) by (auto simp: g)
  then have "\<forall>tc\<in>set target. dict_has pub tc" by (simp add: scorable_def)
  then obtain q where q: "all_public pub target = Inr q" using all_public_total by blast
  obtain x d v where x: "group_subtask get_public_outcome reduce evs pub (idx + 1) p target = Inr (x, q, d, v)" "0 \<le> x" "x \<le> m"
    using subtask_range[OF sc ne m q] by blast
  have "\<forall>g\<in>set groups. group_ok g \<and> param_ok (fst g) \<and> (\<forall>tc\<in>set (snd g). scorable evs pub tc) \<and>
      (snd g \<noteq> [] \<or> empty_error = None)"
    using Cons.prems(1) by simp
  note IH = Cons.IH[OF this, of "if q then ps + x else ps" "s + x" "ms + m" "if q then mps + m else mps"
      "idx + 1" "ds @ [d]" "vs @ [v]" "rs @ [show_g (py_round x 2)]" "hs @ [m]"]
  have "0 \<le> (if q then ps + x else ps)" "(if q then ps + x else ps) \<le> s + x" "s + x \<le> ms + m"
    "(if q then ps + x else ps) \<le> (if q then mps + m else mps)"
    using Cons.prems(2-5) x(2,3) by auto
  from IH[OF this] show ?case using x(1) m(1) q by (simp add: g)
qed simp

text \<open>The details list the subtasks in order and account for the score.\<close>

lemma loop_accounts:
  assumes "\<forall>g\<in>set groups. group_ok g \<and> param_ok (fst g) \<and> (\<forall>tc\<in>set (snd g). scorable evs pub tc) \<and>
      (snd g \<noteq> [] \<or> empty_error = None)"
    and "group_loop (\<lambda>p idx target. group_subtask get_public_outcome reduce evs pub idx p target) show_g groups idx s ds ps vs rs = Inr r"
    and "\<forall>sd\<in>set ds. 0 \<le> sd_score_fraction sd * sd_max_score sd \<and> sd_idx sd \<le> idx" "distinct (map sd_idx ds)"
    and "s = sum_list (map (\<lambda>sd. sd_score_fraction sd * sd_max_score sd) ds)"
  shows "accounts_for (scr_score r) (Some (scr_details r))"
  using assms
proof (induction groups arbitrary: idx s ds ps vs rs)
  case Nil
  then show ?case by (auto simp: accounts_for_def)
next
  case (Cons g groups)
  obtain p target where g: "g = (p, target)" by (cases g)
  obtain m where m: "param_number p 0 = Inr m" "0 \<le> m" and ne: "target \<noteq> [] \<or> empty_error = None"
    using Cons.prems(1) by (auto simp: g group_ok_def)
  have sc: "\<forall>tc\<in>set target. scorable evs pub tc" "param_ok p" using Cons.prems(1) by (auto simp: g)
  then obtain q where q: "all_public pub target = Inr q" using all_public_total unfolding scorable_def by blast
  obtain x d v where x: "group_subtask get_public_outcome reduce evs pub (idx + 1) p target = Inr (x, q, d, v)" "0 \<le> x"
    using subtask_range[OF sc ne m q] by blast
  have d: "sd_idx d = idx + 1" "sd_score_fraction d * sd_max_score d = x"
    using x(1) by (auto simp: group_subtask_def Let_def res_simps split: prod.splits)
  have "\<forall>g\<in>set groups. group_ok g \<and> param_ok (fst g) \<and> (\<forall>tc\<in>set (snd g). scorable evs pub tc) \<and>
      (snd g \<noteq> [] \<or> empty_error = None)"
    using Cons.prems(1) by simp
  then show ?case
    by (rule Cons.IH[where ds = "ds @ [d]"]) (use Cons.prems(2-5) x d in \<open>force simp: g\<close>)+
qed

text \<open>Without an answer for an empty list of outcomes, an empty group makes the loop raise.\<close>

lemma loop_raises:
  assumes "\<forall>g\<in>set groups. group_ok g \<and> param_ok (fst g) \<and> (\<forall>tc\<in>set (snd g). scorable evs pub tc)"
    and "empty_error = Some e" "\<exists>g\<in>set groups. snd g = []"
  shows "group_loop (\<lambda>p idx target. group_subtask get_public_outcome reduce evs pub idx p target) show_g groups idx s ds ps vs rs = Inl e"
  using assms(1,3)
proof (induction groups arbitrary: idx s ds ps vs rs)
  case (Cons g groups)
  obtain p target where g: "g = (p, target)" by (cases g)
  show ?case
  proof (cases "target = []")
    case True
    have "reduce [] p = Inl e" using reduce_empty[of p] Cons.prems(1) assms(2) by (simp add: g)
    then show ?thesis by (simp add: g True group_subtask_def)
  next
    case False
    obtain m where m: "param_number p 0 = Inr m" "0 \<le> m" using Cons.prems(1) by (auto simp: g group_ok_def)
    have sc: "\<forall>tc\<in>set target. scorable evs pub tc" "param_ok p" using Cons.prems(1) by (auto simp: g)
    then obtain q where q: "all_public pub target = Inr q" using all_public_total unfolding scorable_def by blast
    obtain x d v where "group_subtask get_public_outcome reduce evs pub (idx + 1) p target = Inr (x, q, d, v)"
      using subtask_range[OF sc _ m q] False by blast
    then show ?thesis using Cons False by (simp add: g)
  qed
qed simp

lemma max_loop_total:
  assumes "\<forall>g\<in>set groups. group_ok g \<and> (\<forall>tc\<in>set (snd g). dict_has pub tc)" "0 \<le> ms"
  shows "\<exists>mx pmx hs'. group_max_loop pub groups ms mps hs = Inr (mx, pmx, hs') \<and> 0 \<le> mx"
  using assms
proof (induction groups arbitrary: ms mps hs)
  case (Cons g groups)
  obtain p target where g: "g = (p, target)" by (cases g)
  obtain m where m: "param_number p 0 = Inr m" "0 \<le> m" using Cons.prems(1) by (auto simp: g group_ok_def)
  obtain q where q: "all_public pub target = Inr q" using all_public_total Cons.prems(1) by (fastforce simp: g)
  show ?case using Cons.IH[of "ms + m"] Cons.prems m q by (simp add: g)
qed simp

lemma compute_score_bounded:
  assumes targets: "retrieve_target_testcases re_match params pub = Inr targets"
    and groups: "\<forall>g\<in>set (zip params targets). group_ok g \<and> param_ok (fst g) \<and> (\<forall>tc\<in>set (snd g). dict_has pub tc)"
    and evs: "sr_evaluated r \<Longrightarrow> evaluations_by_codename ds r = Inr evs \<and>
      (\<forall>g\<in>set (zip params targets). \<forall>tc\<in>set (snd g). scorable evs pub tc)"
  shows "\<exists>mx pmx hs. group_max_scores re_match params pub = Inr (mx, pmx, hs) \<and>
    (if sr_evaluated r \<and> empty_error \<noteq> None \<and> (\<exists>g\<in>set (zip params targets). snd g = [])
     then group_compute_score get_public_outcome reduce re_match show_g params pub ds r = Inl (the empty_error)
     else \<exists>res. group_compute_score get_public_outcome reduce re_match show_g params pub ds r = Inr res \<and>
       0 \<le> scr_public_score res \<and> scr_public_score res \<le> scr_score res \<and> scr_score res \<le> mx \<and>
       accounts_for (scr_score res) (Some (scr_details res)))"
proof -
  let ?groups = "zip params targets"
  have known: "\<forall>g\<in>set ?groups. group_ok g \<and> (\<forall>tc\<in>set (snd g). dict_has pub tc)" using groups by blast
  obtain mx pmx hs where mx: "group_max_loop pub ?groups 0 0 [] = Inr (mx, pmx, hs)" "0 \<le> mx"
    using max_loop_total[OF known order_refl, of 0 "[]"] by blast
  then have max: "group_max_scores re_match params pub = Inr (mx, pmx, hs)" using targets by (simp add: group_max_scores_def)
  consider "\<not> sr_evaluated r" | e where "sr_evaluated r" "empty_error = Some e" "\<exists>g\<in>set ?groups. snd g = []"
    | "sr_evaluated r" "empty_error = None \<or> (\<forall>g\<in>set ?groups. snd g \<noteq> [])" by (cases empty_error) blast+
  then show ?thesis
  proof cases
    case 1
    then show ?thesis using max mx(2) by (simp add: group_compute_score_def accounts_for_def)
  next
    case (2 e)
    have "\<forall>g\<in>set ?groups. group_ok g \<and> param_ok (fst g) \<and> (\<forall>tc\<in>set (snd g). scorable evs pub tc)"
      using groups evs[OF 2(1)] by blast
    from loop_raises[OF this 2(2,3)] show ?thesis
      using 2 max evs[OF 2(1)] targets by (simp add: group_compute_score_def)
  next
    case 3
    have g: "\<forall>g\<in>set ?groups. group_ok g \<and> param_ok (fst g) \<and> (\<forall>tc\<in>set (snd g). scorable evs pub tc) \<and>
        (snd g \<noteq> [] \<or> empty_error = None)"
      using groups evs[OF 3(1)] 3(2) by blast
    obtain res where l: "group_loop (\<lambda>p idx target. group_subtask get_public_outcome reduce evs pub idx p target)
        show_g ?groups 0 0 [] 0 [] [] = Inr res"
      "0 \<le> scr_public_score res \<and> scr_public_score res \<le> scr_score res \<and> scr_score res \<le> mx"
      using loops_bounded[OF g, of 0 0 0 0 show_g 0 "[]" "[]" "[]" "[]"] mx(1) by auto
    have "accounts_for (scr_score res) (Some (scr_details res))" by (rule loop_accounts[OF g l(1)]) simp_all
    moreover have "group_compute_score get_public_outcome reduce re_match show_g params pub ds r = Inr res"
      using 3(1) l(1) targets evs[OF 3(1)] by (simp add: group_compute_score_def)
    ultimately show ?thesis using 3(2) max l(2) by auto
  qed
qed

end

text \<open>The three score types.\<close>

lemma fold_min_range:
  fixes x :: real
  assumes "lo \<le> x" "x \<le> hi" "\<forall>y\<in>set xs. lo \<le> y \<and> y \<le> hi"
  shows "lo \<le> fold min xs x \<and> fold min xs x \<le> hi"
  using assms by (induction xs arbitrary: x) (auto simp: min_def)

lemma foldl_mult_range:
  fixes x :: real
  assumes "0 \<le> x" "x \<le> 1" "\<forall>y\<in>set xs. 0 \<le> y \<and> y \<le> 1"
  shows "0 \<le> foldl (*) x xs \<and> foldl (*) x xs \<le> 1"
  using assms by (induction xs arbitrary: x) (auto simp: mult_le_one)

interpretation GroupMin: group_score_type partial_public_outcome GroupMin_reduce "\<lambda>_. True" "Some ValueError"
proof unfold_locales
  fix p xs
  assume "xs \<noteq> []" "\<forall>x\<in>set xs. (0 :: real) \<le> x \<and> x \<le> 1"
  then show "\<exists>y. GroupMin_reduce xs p = Inr y \<and> 0 \<le> y \<and> y \<le> 1"
    using fold_min_range[of 0 _ 1] by (cases xs) (auto simp: GroupMin_reduce_def)
qed (simp_all add: partial_public_outcome_def GroupMin_reduce_def)

interpretation GroupMul: group_score_type partial_public_outcome GroupMul_reduce "\<lambda>_. True" "Some TypeError"
proof unfold_locales
  fix p xs
  assume "xs \<noteq> []" "\<forall>x\<in>set xs. (0 :: real) \<le> x \<and> x \<le> 1"
  then show "\<exists>y. GroupMul_reduce xs p = Inr y \<and> 0 \<le> y \<and> y \<le> 1"
    using foldl_mult_range by (cases xs) (auto simp: GroupMul_reduce_def)
qed (simp_all add: partial_public_outcome_def GroupMul_reduce_def)

interpretation GroupThreshold: group_score_type GroupThreshold_public_outcome GroupThreshold_reduce
  "\<lambda>p. \<exists>t. param_number p 2 = Inr t" None
  by unfold_locales (auto simp: GroupThreshold_public_outcome_def GroupThreshold_reduce_def)

text \<open>The testcases of a group are testcases of the dataset.\<close>

lemma int_targets_known: "t \<in> set (int_targets indices ts current) \<Longrightarrow> set t \<subseteq> set indices"
  by (induction ts arbitrary: current) (auto simp: py_slice_def Let_def dest: in_set_dropD in_set_takeD)

lemma res_map_set: "res_map f xs = Inr ys \<Longrightarrow> y \<in> set ys \<Longrightarrow> \<exists>x\<in>set xs. f x = Inr y"
  by (induction xs arbitrary: ys) (auto simp: res_simps split: sum.splits)

lemma regexp_targets_known:
  assumes "regexp_targets re_match indices ts = Inr targets" "target \<in> set targets"
  shows "set target \<subseteq> set indices"
proof -
  obtain t bs where "res_map (\<lambda>tc. res_bind (re_match t tc) (\<lambda>b. Inr (tc, b))) indices = Inr bs" "target = map fst (filter snd bs)"
    using res_map_set[OF assms(1)[unfolded regexp_targets_def] assms(2)]
    by (auto simp: res_bind_Inr_iff Let_def split: if_splits)
  then show ?thesis using res_map_set by (fastforce simp: res_bind_Inr_iff)
qed

lemma targets_known:
  assumes "retrieve_target_testcases re_match params pub = Inr targets" "target \<in> set targets"
  shows "set target \<subseteq> fst ` set pub"
proof -
  let ?indices = "sort (map fst pub)"
  have "(\<exists>ts. targets = int_targets ?indices ts 0) \<or> (\<exists>us. regexp_targets re_match ?indices us = Inr targets)"
    using assms(1) unfolding retrieve_target_testcases_def Let_def by (auto simp: res_bind_Inr_iff split: if_splits)
  then have "set target \<subseteq> set ?indices"
    using int_targets_known assms(2) regexp_targets_known[OF _ assms(2)] by blast
  then show ?thesis by simp
qed


definition example_group_dataset :: dataset where
  "example_group_dataset = \<lparr>ds_id = 6, ds_task_id = 2, ds_autojudge = False, ds_task_type = ''Batch'',
     ds_task_type_parameters = [], ds_score_type = ''GroupMin'',
     ds_score_type_parameters = P_List [P_List [P_Int 30, P_Int 1], P_List [P_Int 70, P_Int 1]],
     ds_testcases = [\<lparr>tc_id = 11, tc_codename = ''b'', tc_public = False\<rparr>, \<lparr>tc_id = 12, tc_codename = ''a'', tc_public = True\<rparr>]\<rparr>"

definition example_evaluation :: "int \<Rightarrow> string \<Rightarrow> evaluation" where
  "example_evaluation tc outcome = \<lparr>ev_testcase_id = tc, ev_outcome = Some outcome, ev_text = [], ev_execution_time = None,
     ev_execution_wall_clock_time = None, ev_execution_memory = None, ev_evaluation_shard = None, ev_evaluation_sandbox = None\<rparr>"

definition example_group_result :: submission_result where
  "example_group_result = (new_submission_result 7 6)\<lparr>sr_evaluation_ok := True,
     sr_evaluations := [example_evaluation 11 ''0.5'', example_evaluation 12 ''1.0'']\<rparr>"


end
