(* ===== verification/Task_Score.thy ===== *)
theory Task_Score
  imports Score_Types
begin

text \<open>
  The score of a participant on a task (\<^verbatim>\<open>cms/grading/scoring.py\<close>): the three score modes, the choice of the
  submissions that count, and the comparison of two datasets. Submissions are those of the
  participation in the order of the table; \<open>sorted\<close> with a key is stable.
\<close>

section \<open>Comparing datasets\<close>

record submission_score_delta =
  dl_submission :: submission
  dl_score :: "(real option \<times> real option) option"
  dl_public_score :: "(real option \<times> real option) option"
  dl_ranking_score_details :: "(string list option \<times> string list option) option"

text \<open>\<open>compare\<close>: \<open>None\<close> stands for the pair \<open>(None, None)\<close> of values that do not differ.\<close>

definition compare_values :: "'a option \<Rightarrow> 'a option \<Rightarrow> ('a option \<times> 'a option) option" where
  "compare_values a b = (if a = b then None else Some (a, b))"

definition submission_changes ::
  "db \<Rightarrow> dataset \<Rightarrow> dataset \<Rightarrow> submission \<Rightarrow> submission_score_delta option res"
where
  "submission_changes d old_dataset new_dataset s =
     res_bind (sub_get_result d s old_dataset) (\<lambda>old.
     res_bind (sub_get_result d s new_dataset) (\<lambda>new.
       let pair1 = compare_values (Option.bind old sr_score) (Option.bind new sr_score);
           pair2 = compare_values (Option.bind old sr_public_score) (Option.bind new sr_public_score);
           pair3 = compare_values (Option.bind old sr_ranking_score_details) (Option.bind new sr_ranking_score_details)
       in Inr (if pair1 \<noteq> None \<or> pair2 \<noteq> None \<or> pair3 \<noteq> None
               then Some \<lparr>dl_submission = s, dl_score = pair1, dl_public_score = pair2, dl_ranking_score_details = pair3\<rparr>
               else None)))"

definition compute_changes_for_dataset :: "db \<Rightarrow> dataset \<Rightarrow> dataset \<Rightarrow> submission_score_delta list res" where
  "compute_changes_for_dataset d old_dataset new_dataset =
     (if ds_task_id old_dataset \<noteq> ds_task_id new_dataset then Inl ValueError
      else res_bind (res_map (submission_changes d old_dataset new_dataset)
             (filter (\<lambda>s. sub_task_id s = ds_task_id old_dataset) (db_submissions d)))
             (\<lambda>changes. Inr (List.map_filter id changes)))"

section \<open>Score modes\<close>

type_synonym scored_row = "real option \<times> json option \<times> bool"

fun max_tokened_loop :: "scored_row list \<Rightarrow> real \<Rightarrow> real" where
  "max_tokened_loop [] m = m"
| "max_tokened_loop ((score, details, tokened) # rows) m =
     max_tokened_loop rows (case score of None \<Rightarrow> m | Some x \<Rightarrow> if tokened then max m x else m)"

definition task_score_max_tokened_last :: "scored_row list \<Rightarrow> real res" where
  "task_score_max_tokened_last rows =
     (if rows = [] then Inl IndexError
      else let last_score = (case fst (last rows) of None \<Rightarrow> 0 | Some x \<Rightarrow> x)
           in Inr (max last_score (max_tokened_loop rows 0)))"

text \<open>The subtask scores of the details, or \<open>None\<close> where reading them raises: a string, details of
  testcases, subtasks of which only part is shown.\<close>

definition subtask_score :: "subtask_view \<Rightarrow> (int \<times> real) res" where
  "subtask_score v =
     (case v of Sub_Full sd \<Rightarrow> Inr (sd_idx sd, sd_score_fraction sd * sd_max_score sd) | Sub_Partial i ts \<Rightarrow> Inl KeyError)"

definition dict_of :: "('k \<times> 'v) list \<Rightarrow> ('k, 'v) dict" where
  "dict_of kvs = fold (\<lambda>(k, v) d. dict_set d k v) kvs []"

definition read_subtask_scores :: "json option \<Rightarrow> (int, real) dict option" where
  "read_subtask_scores details =
     (case details of
        Some (J_Subtasks vs) \<Rightarrow> (case res_map subtask_score vs of Inl e \<Rightarrow> None | Inr kvs \<Rightarrow> Some (dict_of kvs))
      | Some (J_Testcases ts) \<Rightarrow> if ts = [] then Some [] else None
      | Some (J_Str s) \<Rightarrow> if s = [] then Some [] else None
      | None \<Rightarrow> None)"

definition is_empty_list :: "json option \<Rightarrow> bool" where
  "is_empty_list details \<longleftrightarrow> details = Some (J_Subtasks []) \<or> details = Some (J_Testcases [])"

definition subtask_scores :: "real \<Rightarrow> json option \<Rightarrow> (int, real) dict" where
  "subtask_scores score details =
     (case read_subtask_scores details of None \<Rightarrow> [(1, score)] | Some d \<Rightarrow> if d = [] then [(1, score)] else d)"

definition dict_get_default :: "('k, 'v) dict \<Rightarrow> 'k \<Rightarrow> 'v \<Rightarrow> 'v" where
  "dict_get_default d k v = (case map_of d k of None \<Rightarrow> v | Some x \<Rightarrow> x)"

definition merge_max :: "(int, real) dict \<Rightarrow> (int, real) dict \<Rightarrow> (int, real) dict" where
  "merge_max scores max_scores =
     fold (\<lambda>(idx, x) m. dict_set m idx (max (dict_get_default m idx 0) x)) scores max_scores"

fun max_subtask_loop :: "scored_row list \<Rightarrow> (int, real) dict \<Rightarrow> (int, real) dict" where
  "max_subtask_loop [] max_scores = max_scores"
| "max_subtask_loop ((score, details, tokened) # rows) max_scores =
     max_subtask_loop rows
       (case score of
          None \<Rightarrow> max_scores
        | Some x \<Rightarrow> if is_empty_list details \<and> x = 0 then max_scores
                    else merge_max (subtask_scores x details) max_scores)"

definition task_score_max_subtask :: "scored_row list \<Rightarrow> real" where
  "task_score_max_subtask rows = sum_list (map snd (max_subtask_loop rows []))"

fun max_loop :: "scored_row list \<Rightarrow> real \<Rightarrow> real" where
  "max_loop [] m = m"
| "max_loop ((score, details, tokened) # rows) m = max_loop rows (case score of None \<Rightarrow> m | Some x \<Rightarrow> max m x)"

definition task_score_max :: "scored_row list \<Rightarrow> real" where
  "task_score_max rows = max_loop rows 0"

section \<open>The score on a task\<close>

text \<open>\<open>s.get_result(task.active_dataset)\<close>: without an active dataset there is no result.\<close>

definition result_on_active :: "db \<Rightarrow> task \<Rightarrow> submission \<Rightarrow> submission_result option" where
  "result_on_active d t s =
     (case task_active_dataset_id t of
        None \<Rightarrow> None
      | Some i \<Rightarrow> get_from_id sr_key (db_submission_results d) (sub_id s, i))"

definition official_submissions :: "db \<Rightarrow> int \<Rightarrow> task \<Rightarrow> submission list" where
  "official_submissions d pid t =
     filter (\<lambda>s. sub_participation_id s = pid \<and> sub_task_id s = task_id t \<and> sub_official s) (db_submissions d)"

fun collect_rows ::
  "bool \<Rightarrow> bool \<Rightarrow> (submission \<times> submission_result option) list \<Rightarrow> scored_row list \<times> bool"
where
  "collect_rows public only_tokened [] = ([], False)"
| "collect_rows public only_tokened ((s, sr) # rest) =
     (case collect_rows public only_tokened rest of (rows, partial) \<Rightarrow>
        (case sr of
           None \<Rightarrow> (rows, True)
         | Some r \<Rightarrow>
             if \<not> sr_scored r then (rows, True)
             else ((if public then (sr_public_score r, sr_public_score_details r, sub_tokened s)
                    else if only_tokened \<and> \<not> sub_tokened s then (None, None, sub_tokened s)
                    else (sr_score r, sr_score_details r, sub_tokened s)) # rows, partial)))"

definition score_of_mode :: "score_mode \<Rightarrow> scored_row list \<Rightarrow> real res" where
  "score_of_mode mode rows =
     (case mode of
        SCORE_MODE_MAX \<Rightarrow> Inr (task_score_max rows)
      | SCORE_MODE_MAX_SUBTASK \<Rightarrow> Inr (task_score_max_subtask rows)
      | SCORE_MODE_MAX_TOKENED_LAST \<Rightarrow> task_score_max_tokened_last rows)"

definition task_score :: "db \<Rightarrow> int \<Rightarrow> task \<Rightarrow> bool \<Rightarrow> bool \<Rightarrow> bool \<Rightarrow> (real \<times> bool) res" where
  "task_score d pid t public only_tokened rounded =
     (if public \<and> only_tokened then Inl ValueError
      else
        let submissions = official_submissions d pid t in
        if submissions = [] then Inr (0, False)
        else
          case collect_rows public only_tokened
                 (map (\<lambda>s. (s, result_on_active d t s)) (sort_key sub_timestamp submissions)) of
            (rows, partial) \<Rightarrow>
              if rows = [] then Inr (0, False)
              else res_bind (score_of_mode (task_score_mode t) rows) (\<lambda>score.
                Inr (if rounded then py_round score (task_score_precision t) else score, partial)))"

section \<open>What the score modes compute\<close>

text \<open>The best of some scores, at least 0; the scores of the rows; what the rows contribute to the
  subtasks.\<close>

definition best :: "real list \<Rightarrow> real" where
  "best xs = Max (set (0 # xs))"

definition row_scores :: "scored_row list \<Rightarrow> real list" where
  "row_scores rows = List.map_filter fst rows"

definition tokened_rows :: "scored_row list \<Rightarrow> scored_row list" where
  "tokened_rows rows = filter (\<lambda>(score, details, tokened). tokened) rows"

definition contribution :: "scored_row \<Rightarrow> (int, real) dict option" where
  "contribution = (\<lambda>(score, details, tokened). case score of
     None \<Rightarrow> None
   | Some x \<Rightarrow> if is_empty_list details \<and> x = 0 then None else Some (subtask_scores x details))"

definition contributions :: "scored_row list \<Rightarrow> (int, real) dict list" where
  "contributions rows = List.map_filter contribution rows"

definition scores_on :: "scored_row list \<Rightarrow> int \<Rightarrow> real list" where
  "scores_on rows i = List.map_filter (\<lambda>d. map_of d i) (contributions rows)"

definition subtask_ids :: "scored_row list \<Rightarrow> int set" where
  "subtask_ids rows = (\<Union>d\<in>set (contributions rows). dom (map_of d))"

lemma fold_max_eq: "fold max xs (m :: real) = Max (set (m # xs))"
  by (metis Max.set_eq_fold)

lemma in_row_scores: "x \<in> set (row_scores rows) \<longleftrightarrow> (\<exists>details tk. (Some x, details, tk) \<in> set rows)"
  by (force simp: row_scores_def List.map_filter_def)

lemma max_loop_eq: "max_loop rows m = fold max (row_scores rows) m"
  by (induction rows m rule: max_loop.induct) (auto simp: row_scores_def List.map_filter_simps max.commute split: option.splits)

lemma task_score_max_eq: "task_score_max rows = best (row_scores rows)"
  by (simp only: task_score_max_def max_loop_eq fold_max_eq best_def)

lemma max_tokened_loop_eq: "max_tokened_loop rows m = fold max (row_scores (tokened_rows rows)) m"
  by (induction rows m rule: max_tokened_loop.induct)
    (auto simp: row_scores_def tokened_rows_def List.map_filter_simps max.commute split: option.splits)

lemma task_score_max_tokened_last_eq:
  "rows \<noteq> [] \<Longrightarrow> task_score_max_tokened_last rows =
     Inr (max (case fst (last rows) of None \<Rightarrow> 0 | Some x \<Rightarrow> x) (best (row_scores (tokened_rows rows))))"
  by (simp only: task_score_max_tokened_last_def max_tokened_loop_eq fold_max_eq best_def if_False Let_def)

lemma map_of_merge_max:
  assumes "dict_ok sc"
  shows "map_of (merge_max sc m) i =
    (case map_of sc i of None \<Rightarrow> map_of m i | Some x \<Rightarrow> Some (max (dict_get_default m i 0) x))"
  using assms
proof (induction sc arbitrary: m)
  case (Cons kx sc)
  obtain k x where kx: "kx = (k, x)" by (cases kx)
  have ok: "dict_ok sc" and k: "map_of sc k = None"
    using Cons.prems by (auto simp: kx dict_ok_def map_of_eq_None_iff)
  have "merge_max (kx # sc) m = merge_max sc (dict_set m k (max (dict_get_default m k 0) x))"
    by (simp add: merge_max_def kx)
  then show ?case
    using Cons.IH[OF ok] k by (auto simp: kx dict_simps dict_get_default_def split: option.splits)
qed (simp add: merge_max_def)

lemma dict_ok_merge_max: "dict_ok m \<Longrightarrow> dict_ok (merge_max sc m)"
  unfolding merge_max_def by (induction sc arbitrary: m) auto

lemma dict_ok_dict_of: "dict_ok (dict_of kvs)"
proof -
  have "dict_ok d \<Longrightarrow> dict_ok (fold (\<lambda>(k, v) d. dict_set d k v) kvs d)" for d
    by (induction kvs arbitrary: d) auto
  then show ?thesis by (simp add: dict_of_def)
qed

lemma dict_ok_subtask_scores: "dict_ok (subtask_scores x details)"
  by (auto simp: subtask_scores_def read_subtask_scores_def dict_ok_dict_of dict_ok_def[of "[_]"]
      split: option.splits json.splits sum.splits)

lemma max_subtask_loop_eq: "max_subtask_loop rows m = fold merge_max (contributions rows) m"
  by (induction rows m rule: max_subtask_loop.induct)
    (auto simp: contributions_def contribution_def List.map_filter_simps split: option.splits)

lemma dict_ok_fold_merge_max: "dict_ok m \<Longrightarrow> dict_ok (fold merge_max ds m)"
  by (induction ds arbitrary: m) (auto simp: dict_ok_merge_max)

lemma map_of_fold_merge_max:
  assumes "\<forall>d\<in>set ds. dict_ok d"
  shows "map_of (fold merge_max ds m) i =
    (if map_of m i = None \<and> (\<forall>d\<in>set ds. map_of d i = None) then None
     else Some (fold max (List.map_filter (\<lambda>d. map_of d i) ds) (dict_get_default m i 0)))"
  using assms
proof (induction ds arbitrary: m)
  case (Cons d ds)
  then have "dict_ok d" "\<forall>d\<in>set ds. dict_ok d" by simp_all
  then show ?case
    using Cons.IH[of "merge_max d m"]
    by (auto simp: map_of_merge_max dict_get_default_def List.map_filter_simps max.commute split: option.splits)
qed (auto simp: dict_get_default_def List.map_filter_simps split: option.splits)

lemma sum_values:
  assumes "dict_ok (d :: ('k, real) dict)"
  shows "sum_list (map snd d) = (\<Sum>k\<in>dom (map_of d). dict_get_default d k 0)"
proof -
  have d: "distinct (map fst d)" using assms by (simp add: dict_ok_def)
  have "(\<Sum>k\<in>dom (map_of d). dict_get_default d k 0) = sum_list (map (\<lambda>k. dict_get_default d k 0) (map fst d))"
    using sum.distinct_set_conv_list[OF d] by (simp add: dom_map_of_conv_image_fst)
  also have "map (\<lambda>k. dict_get_default d k 0) (map fst d) = map snd d"
    using d by (auto simp: dict_get_default_def)
  finally show ?thesis by simp
qed

lemma task_score_max_subtask_eq:
  "task_score_max_subtask rows = (\<Sum>i\<in>subtask_ids rows. best (scores_on rows i))"
proof -
  let ?d = "max_subtask_loop rows []"
  have ok: "\<forall>d\<in>set (contributions rows). dict_ok d"
    by (auto simp: contributions_def contribution_def dict_ok_subtask_scores List.map_filter_def split: option.splits if_splits)
  have m: "map_of ?d i = (if i \<in> subtask_ids rows then Some (best (scores_on rows i)) else None)" for i
    unfolding max_subtask_loop_eq map_of_fold_merge_max[OF ok]
    by (auto simp: subtask_ids_def scores_on_def best_def fold_max_eq dict_get_default_def)
  then have "dom (map_of ?d) = subtask_ids rows" by (auto simp: dom_def)
  moreover have "dict_ok ?d" by (simp add: max_subtask_loop_eq dict_ok_fold_merge_max)
  ultimately show ?thesis
    by (simp add: task_score_max_subtask_def sum_values dict_get_default_def m)
qed

lemma finite_subtask_ids: "finite (subtask_ids rows)"
  by (simp add: subtask_ids_def finite_dom_map_of)

lemma best_nonneg: "0 \<le> best xs" and best_upper: "x \<in> set xs \<Longrightarrow> x \<le> best xs"
  by (simp_all add: best_def)

lemma best_least: "0 \<le> b \<Longrightarrow> \<forall>x\<in>set xs. x \<le> b \<Longrightarrow> best xs \<le> b"
  by (auto simp: best_def)

section \<open>The score on a task, declaratively\<close>

definition scored_on_active :: "db \<Rightarrow> task \<Rightarrow> submission \<Rightarrow> bool" where
  "scored_on_active d t s \<longleftrightarrow> (\<exists>r. result_on_active d t s = Some r \<and> sr_scored r)"

text \<open>The rows that count, in the order of submission: those of the scored results.\<close>

definition counted_row :: "bool \<Rightarrow> bool \<Rightarrow> submission \<Rightarrow> submission_result \<Rightarrow> scored_row" where
  "counted_row public only_tokened s r =
     (if public then (sr_public_score r, sr_public_score_details r, sub_tokened s)
      else if only_tokened \<and> \<not> sub_tokened s then (None, None, False)
      else (sr_score r, sr_score_details r, sub_tokened s))"

definition counted_rows :: "bool \<Rightarrow> bool \<Rightarrow> db \<Rightarrow> int \<Rightarrow> task \<Rightarrow> scored_row list" where
  "counted_rows public only_tokened d pid t =
     map (\<lambda>s. counted_row public only_tokened s (the (result_on_active d t s)))
       (filter (scored_on_active d t) (sort_key sub_timestamp (official_submissions d pid t)))"

lemma collect_rows_eq:
  "collect_rows public only_tokened (map (\<lambda>s. (s, result_on_active d t s)) ss) =
     (map (\<lambda>s. counted_row public only_tokened s (the (result_on_active d t s))) (filter (scored_on_active d t) ss),
      \<exists>s\<in>set ss. \<not> scored_on_active d t s)"
  by (induction ss) (auto simp: scored_on_active_def counted_row_def split: option.splits prod.splits)

text \<open>What the mode makes of the rows that count.\<close>

definition mode_score :: "score_mode \<Rightarrow> scored_row list \<Rightarrow> real" where
  "mode_score mode rows =
     (case mode of
        SCORE_MODE_MAX \<Rightarrow> best (row_scores rows)
      | SCORE_MODE_MAX_SUBTASK \<Rightarrow> (\<Sum>i\<in>subtask_ids rows. best (scores_on rows i))
      | SCORE_MODE_MAX_TOKENED_LAST \<Rightarrow>
          max (case fst (last rows) of None \<Rightarrow> 0 | Some x \<Rightarrow> x) (best (row_scores (tokened_rows rows))))"

lemma score_of_mode_eq: "rows \<noteq> [] \<Longrightarrow> score_of_mode mode rows = Inr (mode_score mode rows)"
  by (simp add: score_of_mode_def mode_score_def task_score_max_eq task_score_max_subtask_eq
      task_score_max_tokened_last_eq split: score_mode.split)

lemma task_score_eq:
  assumes "\<not> (public \<and> only_tokened)" "counted_rows public only_tokened d pid t \<noteq> []"
  shows "task_score d pid t public only_tokened rounded =
    Inr (let x = mode_score (task_score_mode t) (counted_rows public only_tokened d pid t)
         in if rounded then py_round x (task_score_precision t) else x,
         \<exists>s\<in>set (official_submissions d pid t). \<not> scored_on_active d t s)"
proof -
  have "official_submissions d pid t \<noteq> []" using assms(2) by (auto simp: counted_rows_def)
  then show ?thesis
    using assms by (simp add: task_score_def collect_rows_eq score_of_mode_eq Let_def flip: counted_rows_def)
qed

text \<open>(C18) The score on a task is the one the score mode defines over the official submissions that
  have been scored: the best score; the sum over the subtasks of the best score on the subtask;
  the best of the tokened submissions and the last one. The flag tells whether an official
  submission has not been scored, except that it is never set when none has.\<close>

theorem task_score_follows_mode:
  "task_score d pid t public only_tokened rounded =
     (let rows = counted_rows public only_tokened d pid t; x = mode_score (task_score_mode t) rows in
      if public \<and> only_tokened then Inl ValueError
      else if rows = [] then Inr (0, False)
      else Inr (if rounded then py_round x (task_score_precision t) else x,
                \<exists>s\<in>set (official_submissions d pid t). \<not> scored_on_active d t s))"
proof -
  have "task_score d pid t public only_tokened rounded = Inr (0, False)"
    if "\<not> (public \<and> only_tokened)" "counted_rows public only_tokened d pid t = []"
    using that by (simp add: task_score_def collect_rows_eq Let_def flip: counted_rows_def)
  then show ?thesis
    using task_score_eq[of public only_tokened d pid t rounded] by (auto simp: task_score_def Let_def)
qed

section \<open>The order of the score modes\<close>

lemma res_map_Sub_Full:
  "res_map subtask_score (map Sub_Full sds) = Inr (map (\<lambda>sd. (sd_idx sd, sd_score_fraction sd * sd_max_score sd)) sds)"
  by (induction sds) (simp_all add: subtask_score_def)

lemma dict_of_distinct: "distinct (map fst kvs) \<Longrightarrow> dict_of kvs = kvs"
proof -
  have upd: "k \<notin> set (map fst d) \<Longrightarrow> AList.update k v d = d @ [(k, v)]" for k v and d :: "('a \<times> 'b) list"
    by (induction d) auto
  have "distinct (map fst (d @ kvs)) \<Longrightarrow> fold (\<lambda>(k, v) d. dict_set d k v) kvs d = d @ kvs" for d
    by (induction kvs arbitrary: d) (auto simp: dict_set_def upd)
  from this[of "[]"] show "distinct (map fst kvs) \<Longrightarrow> dict_of kvs = kvs" by (simp add: dict_of_def)
qed

lemma accounts_for_contribution:
  assumes "accounts_for x details" "x \<noteq> 0"
  obtains c where "contribution (Some x, details, tk) = Some c" "dict_ok c" "sum_list (map snd c) = x" "\<forall>(i, y)\<in>set c. 0 \<le> y"
proof -
  obtain sds where s: "details = Some (J_Subtasks (map Sub_Full sds))" "distinct (map sd_idx sds)"
    "\<forall>sd\<in>set sds. 0 \<le> sd_score_fraction sd * sd_max_score sd"
    "x = sum_list (map (\<lambda>sd. sd_score_fraction sd * sd_max_score sd) sds)"
    using assms(1) by (auto simp: accounts_for_def)
  let ?c = "map (\<lambda>sd. (sd_idx sd, sd_score_fraction sd * sd_max_score sd)) sds"
  have "sds \<noteq> []" using s(4) assms(2) by auto
  then have "contribution (Some x, details, tk) = Some ?c"
    using s(2) assms(2) by (simp add: contribution_def subtask_scores_def read_subtask_scores_def s(1) res_map_Sub_Full
        dict_of_distinct comp_def)
  then show ?thesis
    using that[of ?c] s(2,3) by (auto simp: dict_ok_def comp_def s(4))
qed

lemma max_le_max_subtask:
  assumes "\<forall>(score, details, tk)\<in>set rows. \<exists>x. score = Some x \<and> accounts_for x details"
  shows "best (row_scores rows) \<le> (\<Sum>i\<in>subtask_ids rows. best (scores_on rows i))"
proof (rule best_least)
  show nonneg: "0 \<le> (\<Sum>i\<in>subtask_ids rows. best (scores_on rows i))" by (simp add: sum_nonneg best_nonneg)
  show "\<forall>x\<in>set (row_scores rows). x \<le> (\<Sum>i\<in>subtask_ids rows. best (scores_on rows i))"
  proof
    fix x assume "x \<in> set (row_scores rows)"
    then obtain details tk where row: "(Some x, details, tk) \<in> set rows"
      by (auto simp: in_row_scores)
    show "x \<le> (\<Sum>i\<in>subtask_ids rows. best (scores_on rows i))"
    proof (cases "x = 0")
      case False
      have "accounts_for x details" using assms row by fastforce
      then obtain c where c: "contribution (Some x, details, tk) = Some c" "dict_ok c" "sum_list (map snd c) = x"
        using False accounts_for_contribution by blast
      then have mem: "c \<in> set (contributions rows)" using row by (force simp: contributions_def List.map_filter_def)
      then have sub: "dom (map_of c) \<subseteq> subtask_ids rows" by (auto simp: subtask_ids_def)
      have "x = (\<Sum>k\<in>dom (map_of c). dict_get_default c k 0)" using sum_values[OF c(2)] c(3) by simp
      also have "\<dots> \<le> (\<Sum>k\<in>dom (map_of c). best (scores_on rows k))"
      proof (rule sum_mono)
        fix k assume "k \<in> dom (map_of c)"
        then obtain y where y: "map_of c k = Some y" by auto
        then have "y \<in> set (scores_on rows k)" using mem by (force simp: scores_on_def List.map_filter_def)
        then show "dict_get_default c k 0 \<le> best (scores_on rows k)" using y by (simp add: dict_get_default_def best_upper)
      qed
      also have "\<dots> \<le> (\<Sum>k\<in>subtask_ids rows. best (scores_on rows k))"
        by (rule sum_mono2) (simp_all add: sub finite_subtask_ids best_nonneg)
      finally show ?thesis .
    qed (simp add: nonneg)
  qed
qed

lemma tokened_last_le_max:
  assumes "rows \<noteq> []"
  shows "max (case fst (last rows) of None \<Rightarrow> 0 | Some x \<Rightarrow> x) (best (row_scores (tokened_rows rows))) \<le> best (row_scores rows)"
proof -
  have "(case fst (last rows) of None \<Rightarrow> 0 | Some x \<Rightarrow> x) \<le> best (row_scores rows)"
  proof (cases "fst (last rows)")
    case (Some x)
    then have "x \<in> set (row_scores rows)"
      using last_in_set[OF assms] by (cases "last rows") (auto simp: in_row_scores)
    then show ?thesis using Some by (simp add: best_upper)
  qed (simp add: best_nonneg)
  moreover have "best (row_scores (tokened_rows rows)) \<le> best (row_scores rows)"
    by (rule best_least) (simp add: best_nonneg, auto intro!: best_upper simp: in_row_scores tokened_rows_def, blast)
  ultimately show ?thesis by simp
qed

text \<open>When the score details of every scored result account for its score, as those of the group score types
  do, the three score modes are ordered: the last or tokened submission scores at most as much
  as the best submission, and the best submission at most as much as the subtasks taken
  together. They agree on whether the score is partial.\<close>

theorem score_modes_are_ordered:
  assumes "\<forall>r\<in>set (db_submission_results d). sr_scored r \<longrightarrow> accounts_for (the (sr_score r)) (sr_score_details r)"
    and "counted_rows False False d pid t \<noteq> []"
  shows "\<exists>a b c partial.
    task_score d pid (t\<lparr>task_score_mode := SCORE_MODE_MAX_TOKENED_LAST\<rparr>) False False False = Inr (a, partial) \<and>
    task_score d pid (t\<lparr>task_score_mode := SCORE_MODE_MAX\<rparr>) False False False = Inr (b, partial) \<and>
    task_score d pid (t\<lparr>task_score_mode := SCORE_MODE_MAX_SUBTASK\<rparr>) False False False = Inr (c, partial) \<and>
    a \<le> b \<and> b \<le> c"
proof -
  let ?rows = "counted_rows False False d pid t"
  have same: "official_submissions d pid (t\<lparr>task_score_mode := m\<rparr>) = official_submissions d pid t"
    "scored_on_active d (t\<lparr>task_score_mode := m\<rparr>) = scored_on_active d t"
    "result_on_active d (t\<lparr>task_score_mode := m\<rparr>) = result_on_active d t"
    for m by (simp_all add: fun_eq_iff official_submissions_def scored_on_active_def result_on_active_def)
  have rows: "counted_rows False False d pid (t\<lparr>task_score_mode := m\<rparr>) = ?rows" for m
    by (simp add: counted_rows_def same)
  have "\<exists>x. score = Some x \<and> accounts_for x details" if row: "(score, details, tk) \<in> set ?rows" for score details tk
  proof -
    obtain s r where "result_on_active d t s = Some r" "sr_scored r" "(score, details, tk) = (sr_score r, sr_score_details r, sub_tokened s)"
      using row by (auto simp: counted_rows_def counted_row_def scored_on_active_def)
    moreover then have "r \<in> set (db_submission_results d)"
      by (auto simp: result_on_active_def dest: get_from_id_Some split: option.splits)
    ultimately show ?thesis using assms(1) by (auto simp: sr_scored_def sr_has_score_def)
  qed
  then have "best (row_scores ?rows) \<le> (\<Sum>i\<in>subtask_ids ?rows. best (scores_on ?rows i))"
    by (intro max_le_max_subtask) auto
  then show ?thesis
    using tokened_last_le_max[OF assms(2)]
    by (auto simp: task_score_eq rows same assms(2) mode_score_def Let_def)
qed

definition example_scored :: "int \<Rightarrow> real \<Rightarrow> real \<Rightarrow> submission_result" where
  "example_scored sid x y = (new_submission_result sid 5)\<lparr>sr_evaluation_ok := True, sr_score := Some (x + y),
     sr_score_details := Some (J_Subtasks
       [Sub_Full \<lparr>sd_idx = 1, sd_score_fraction = 1, sd_max_score = x, sd_testcases = []\<rparr>,
        Sub_Full \<lparr>sd_idx = 2, sd_score_fraction = 1, sd_max_score = y, sd_testcases = []\<rparr>]),
     sr_public_score := Some 0, sr_public_score_details := Some (J_Subtasks []), sr_ranking_score_details := Some []\<rparr>"

definition example_scores_db :: db where
  "example_scores_db = \<lparr>db_contests = [], db_participations = [], db_tasks = [], db_datasets = [],
     db_submissions = [example_submission, example_submission\<lparr>sub_id := 8, sub_timestamp := 200\<rparr>],
     db_submission_results = [example_scored 7 30 10, example_scored 8 0 20],
     db_user_tests = [], db_user_test_results = [], db_matches = [], db_match_results = [], db_batches = [], db_files = []\<rparr>"

definition example_scores_task :: task where
  "example_scores_task = \<lparr>task_id = 2, task_contest_id = Some 1, task_active_dataset_id = Some 5, task_title = ''t'',
     task_pvp_batch = 0, task_score_precision = 0, task_score_mode = SCORE_MODE_MAX, task_solved = False\<rparr>"

theorem score_modes_are_ordered_witness:
  "\<exists>a b c partial.
    task_score example_scores_db 3 (example_scores_task\<lparr>task_score_mode := SCORE_MODE_MAX_TOKENED_LAST\<rparr>) False False False = Inr (a, partial) \<and>
    task_score example_scores_db 3 (example_scores_task\<lparr>task_score_mode := SCORE_MODE_MAX\<rparr>) False False False = Inr (b, partial) \<and>
    task_score example_scores_db 3 (example_scores_task\<lparr>task_score_mode := SCORE_MODE_MAX_SUBTASK\<rparr>) False False False = Inr (c, partial) \<and>
    a \<le> b \<and> b \<le> c"
proof (rule score_modes_are_ordered)
  have "accounts_for (x + y) (sr_score_details (example_scored sid x y))" if "0 \<le> x" "0 \<le> y" for sid x y
    unfolding accounts_for_def
    by (rule exI[of _ "[\<lparr>sd_idx = 1, sd_score_fraction = 1, sd_max_score = x, sd_testcases = []\<rparr>,
        \<lparr>sd_idx = 2, sd_score_fraction = 1, sd_max_score = y, sd_testcases = []\<rparr>]"])
      (use that in \<open>simp add: example_scored_def\<close>)
  from this[of 30 10 7] this[of 0 20 8] show
    "\<forall>r\<in>set (db_submission_results example_scores_db). sr_scored r \<longrightarrow> accounts_for (the (sr_score r)) (sr_score_details r)"
    by (simp add: example_scores_db_def) (simp add: example_scored_def)
  have "example_submission \<in> set (official_submissions example_scores_db 3 example_scores_task)"
    by (simp add: official_submissions_def example_scores_db_def example_scores_task_def example_submission_def)
  moreover have "scored_on_active example_scores_db example_scores_task example_submission"
    by (simp add: scored_on_active_def result_on_active_def example_scores_task_def example_scores_db_def get_from_id_def
        example_submission_def example_scored_def sr_key_def new_submission_result_def sr_status_defs)
  ultimately show "counted_rows False False example_scores_db 3 example_scores_task \<noteq> []"
    by (auto simp: counted_rows_def filter_empty_conv)
qed

end
