(* ===== verification/Scoring_Service.thy ===== *)
theory Scoring_Service
  imports ES_Operations Triggered_Service Task_Score
begin

text \<open>
  The service that scores submission results (\<^verbatim>\<open>cms/service/ScoringService.py\<close>,
  \<^verbatim>\<open>cms/service/scoringoperations.py\<close>): the search for results to score, the executor, invalidation, and the
  announcement of the first contestant to solve a task. An execution works in one session that is
  committed at most once, at the end, so it is a function from the database to the database, or an
  exception and no change. The text of an
  announcement is a function of the names of its task and user and is not kept; remote calls to the
  proxy service are recorded in \<open>sc_sent\<close>. The listener that checks the score mode of a task on every update is
  left out.
\<close>

section \<open>Operations and state\<close>

record scoring_operation =
  so_submission_id :: int
  so_dataset_id :: int

definition scoring_op :: "int \<Rightarrow> int \<Rightarrow> scoring_operation" where
  "scoring_op sid did = \<lparr>so_submission_id = sid, so_dataset_id = did\<rparr>"

definition scoring_to_dict :: "scoring_operation \<Rightarrow> (string, int) dict" where
  "scoring_to_dict op = [(''submission_id'', so_submission_id op), (''dataset_id'', so_dataset_id op)]"

record announcement =
  an_timestamp :: datetime
  an_contest_id :: int
  an_participation_id :: int
  an_task_id :: int

record scoring_state =
  sc_executor :: "scoring_operation executor"
  sc_db :: db
  sc_announcements :: "announcement list"
  sc_sent :: "int list"

definition scoring_init :: "db \<Rightarrow> scoring_state" where
  "scoring_init d = \<lparr>sc_executor = executor_init False, sc_db = d, sc_announcements = [], sc_sent = []\<rparr>"

type_synonym 'a scoring = "(scoring_state, 'a) stm"

definition sc_enqueue :: "datetime \<Rightarrow> scoring_operation \<Rightarrow> datetime option \<Rightarrow> unit scoring" where
  "sc_enqueue now op t =
     (\<lambda>s. case ex_enqueue now (sc_executor s) op None t of
        Inl e \<Rightarrow> (s, Inl e)
      | Inr (_, ex) \<Rightarrow> (s\<lparr>sc_executor := ex\<rparr>, Inr ()))"

section \<open>Searching for results to score\<close>

definition FILTER_SUBMISSION_RESULTS_TO_SCORE :: "submission_result \<Rightarrow> bool" where
  "FILTER_SUBMISSION_RESULTS_TO_SCORE r \<longleftrightarrow>
     \<not> sr_filter_scored r \<and> (sr_filter_compilation_failed r \<or> sr_filter_evaluated r)"

definition scoring_get_operations :: "db \<Rightarrow> (scoring_operation \<times> datetime) list" where
  "scoring_get_operations d =
     [(scoring_op (sub_id s) (ds_id ds), sub_timestamp s).
        s \<leftarrow> db_submissions d, t \<leftarrow> db_tasks d, task_id t = sub_task_id s,
        r \<leftarrow> db_submission_results d, sr_submission_id r = sub_id s,
        ds \<leftarrow> db_datasets d, ds_id ds = sr_dataset_id r,
        FILTER_DATASETS_TO_JUDGE t ds \<and> FILTER_SUBMISSION_RESULTS_TO_SCORE r]"

definition scoring_missing_operations :: "datetime \<Rightarrow> nat scoring" where
  "scoring_missing_operations now =
     sbind (sget (\<lambda>s. scoring_get_operations (sc_db s))) (\<lambda>ops.
       sthen (sforeach ops (\<lambda>(op, t). sc_enqueue now op (Some t))) (sret (length ops)))"

section \<open>Scoring a result\<close>

definition or_raise :: "py_error \<Rightarrow> 'a option \<Rightarrow> 'a res" where
  "or_raise e x = (case x of None \<Rightarrow> Inl e | Some v \<Rightarrow> Inr v)"

definition set_score :: "score_result \<Rightarrow> submission_result \<Rightarrow> submission_result" where
  "set_score c r =
     r\<lparr>sr_score := Some (scr_score c), sr_score_details := Some (scr_details c),
       sr_public_score := Some (scr_public_score c), sr_public_score_details := Some (scr_public_details c),
       sr_ranking_score_details := Some (scr_ranking_details c)\<rparr>"

definition first_blood ::
  "datetime \<Rightarrow> dataset \<Rightarrow> submission \<Rightarrow> task \<Rightarrow> real \<Rightarrow> submission_result \<Rightarrow> db \<Rightarrow> (db \<times> announcement list) res"
where
  "first_blood now ds s t mx r d =
     (if ds_task_type ds \<noteq> ''PvP'' \<and> sr_score r = Some mx \<and> \<not> task_solved t then
        res_bind (or_raise AttributeError (get_from_id part_id (db_participations d) (sub_participation_id s))) (\<lambda>p.
          Inr (put_task (t\<lparr>task_solved := True\<rparr>) d,
               [\<lparr>an_timestamp = now, an_contest_id = part_contest_id p, an_participation_id = part_id p,
                 an_task_id = task_id t\<rparr>]))
      else Inr (d, []))"

text \<open>The body of \<open>execute\<close>: \<open>None\<close> for a result that is already scored, otherwise the new database, the announcement if there
  is one, and the submission the proxy service is told about.\<close>

definition score_submission ::
  "datetime \<Rightarrow> (string \<Rightarrow> string \<Rightarrow> bool res) \<Rightarrow> (real \<Rightarrow> string) \<Rightarrow> scoring_operation \<Rightarrow> db \<Rightarrow>
   (db \<times> announcement list \<times> int list) option res"
where
  "score_submission now re_match show_g op d =
     res_bind (or_raise ValueError (get_from_id sub_id (db_submissions d) (so_submission_id op))) (\<lambda>s.
     res_bind (or_raise ValueError (get_from_id ds_id (db_datasets d) (so_dataset_id op))) (\<lambda>ds.
     res_bind (res_bind (sub_get_result d s ds) (or_raise ValueError)) (\<lambda>r.
       if \<not> sr_needs_scoring r then (if sr_scored r then Inr None else Inl ValueError)
       else
         res_bind (score_type_object re_match show_g ds) (\<lambda>(mx, compute).
         res_bind (compute r) (\<lambda>c.
         res_bind (or_raise AttributeError (get_from_id task_id (db_tasks d) (sub_task_id s))) (\<lambda>t.
         res_bind (first_blood now ds s t mx (set_score c r) (put_sr (set_score c r) d)) (\<lambda>(d', anns).
           Inr (Some (d', anns, if task_active_dataset_id t = Some (ds_id ds) then [sub_id s] else [])))))))))"

definition scoring_execute ::
  "datetime \<Rightarrow> (string \<Rightarrow> string \<Rightarrow> bool res) \<Rightarrow> (real \<Rightarrow> string) \<Rightarrow> scoring_operation \<Rightarrow> unit scoring"
where
  "scoring_execute now re_match show_g op =
     (\<lambda>s. case score_submission now re_match show_g op (sc_db s) of
        Inl e \<Rightarrow> (s, Inl e)
      | Inr None \<Rightarrow> (s, Inr ())
      | Inr (Some (d, anns, sent)) \<Rightarrow>
          (s\<lparr>sc_db := d, sc_announcements := sc_announcements s @ anns, sc_sent := sc_sent s @ sent\<rparr>, Inr ()))"

text \<open>One iteration of the executor loop.\<close>

definition scoring_step ::
  "datetime \<Rightarrow> (string \<Rightarrow> string \<Rightarrow> bool res) \<Rightarrow> (real \<Rightarrow> string) \<Rightarrow> scoring_state \<Rightarrow> scoring_state res"
where
  "scoring_step now re_match show_g s =
     (case run_extract (\<lambda>_. 0) (sc_executor s) of
        None \<Rightarrow> Inl RuntimeError
      | Some (Inl e) \<Rightarrow> Inl e
      | Some (Inr (es, ex)) \<Rightarrow>
          run_execute (\<lambda>es. scoring_execute now re_match show_g (qe_item (hd es))) es (s\<lparr>sc_executor := ex\<rparr>))"

section \<open>Requests\<close>

definition new_evaluation :: "datetime \<Rightarrow> int \<Rightarrow> int \<Rightarrow> unit scoring" where
  "new_evaluation now submission_id dataset_id = sc_enqueue now (scoring_op submission_id dataset_id) None"

text \<open>The loop of \<open>invalidate_submission\<close>: the results as they are after it, and the operations to
  enqueue after the commit.\<close>

fun invalidate_loop ::
  "submission_result list \<Rightarrow> db \<Rightarrow> (scoring_operation \<times> datetime) list \<Rightarrow> (db \<times> (scoring_operation \<times> datetime) list) res"
where
  "invalidate_loop [] d temp_queue = Inr (d, temp_queue)"
| "invalidate_loop (r # rs) d temp_queue =
     (if sr_scored r then
        res_bind (or_raise AttributeError (get_from_id sub_id (db_submissions d) (sr_submission_id r))) (\<lambda>s.
          invalidate_loop rs (put_sr (sr_invalidate_score r) d)
            (temp_queue @ [(scoring_op (sr_submission_id r) (sr_dataset_id r), sub_timestamp s)]))
      else invalidate_loop rs d temp_queue)"

definition scoring_invalidate_submission ::
  "datetime \<Rightarrow> int option \<Rightarrow> int option \<Rightarrow> int option \<Rightarrow> int option \<Rightarrow> int option \<Rightarrow> unit scoring"
where
  "scoring_invalidate_submission now submission_id dataset_id participation_id tid contest_id =
     sbind (sget sc_db) (\<lambda>d.
     sbind (slift (res_bind (get_submission_results d contest_id participation_id tid submission_id dataset_id)
              (\<lambda>rs. invalidate_loop rs d []))) (\<lambda>(d', temp_queue).
     sthen (supd (\<lambda>s. s\<lparr>sc_db := d'\<rparr>))
       (sforeach temp_queue (\<lambda>(op, t). sc_enqueue now op (Some t)))))"

section \<open>What one execution does\<close>

lemma or_raise_Inr [simp]: "or_raise e x = Inr v \<longleftrightarrow> x = Some v"
  by (simp add: or_raise_def split: option.split)

lemma or_raise_Some [simp]: "or_raise e (Some v) = Inr v"
  by (simp add: or_raise_def)

lemma put_tables [simp]:
  "db_submissions (put_sr r d) = db_submissions d" "db_datasets (put_sr r d) = db_datasets d"
  "db_tasks (put_sr r d) = db_tasks d" "db_participations (put_sr r d) = db_participations d"
  "db_submission_results (put_sr r d) = put_row sr_key r (db_submission_results d)"
  "db_submissions (put_task t d) = db_submissions d" "db_datasets (put_task t d) = db_datasets d"
  "db_submission_results (put_task t d) = db_submission_results d" "db_participations (put_task t d) = db_participations d"
  "db_tasks (put_task t d) = put_row task_id t (db_tasks d)"
  by (simp_all add: put_sr_def put_task_def)

abbreviation result_row :: "db \<Rightarrow> int \<times> int \<Rightarrow> submission_result option" where
  "result_row d k \<equiv> get_from_id sr_key (db_submission_results d) k"

abbreviation op_key :: "scoring_operation \<Rightarrow> int \<times> int" where
  "op_key op \<equiv> (so_submission_id op, so_dataset_id op)"

lemma sr_key_set_score [simp]: "sr_key (set_score c r) = sr_key r"
  by (simp add: sr_key_def set_score_def)

lemma score_submission_cases:
  assumes "score_submission now re_match show_g op d = Inr (Some (d', anns, sent))"
  obtains s ds r mx compute c t where
    "get_from_id sub_id (db_submissions d) (so_submission_id op) = Some s"
    "get_from_id ds_id (db_datasets d) (so_dataset_id op) = Some ds"
    "result_row d (op_key op) = Some r" "sr_needs_scoring r"
    "score_type_object re_match show_g ds = Inr (mx, compute)" "compute r = Inr c"
    "get_from_id task_id (db_tasks d) (sub_task_id s) = Some t"
    "first_blood now ds s t mx (set_score c r) (put_sr (set_score c r) d) = Inr (d', anns)"
    "sent = (if task_active_dataset_id t = Some (ds_id ds) then [sub_id s] else [])"
proof -
  obtain s ds r where b: "get_from_id sub_id (db_submissions d) (so_submission_id op) = Some s"
      "get_from_id ds_id (db_datasets d) (so_dataset_id op) = Some ds" "sub_get_result d s ds = Inr (Some r)"
    using assms by (auto simp: score_submission_def res_simps split: if_splits)
  moreover have "result_row d (op_key op) = Some r"
    using b(3) get_from_id_Some[OF b(1)] get_from_id_Some[OF b(2)] by (auto simp: sub_get_result_def res_simps)
  ultimately show ?thesis
    using assms that by (auto simp: score_submission_def res_simps split: if_splits prod.splits)
qed

lemma first_blood_cases:
  assumes "first_blood now ds s t mx r d = Inr (d', anns)"
  obtains "d' = d" "anns = []" | a where "d' = put_task (t\<lparr>task_solved := True\<rparr>) d" "anns = [a]" "an_task_id a = task_id t"
    "\<not> task_solved t"
  using assms by (auto simp: first_blood_def res_simps split: if_splits)

section \<open>First blood\<close>

definition solved_in :: "db \<Rightarrow> int \<Rightarrow> bool" where
  "solved_in d i \<longleftrightarrow> (\<exists>t. get_from_id task_id (db_tasks d) i = Some t \<and> task_solved t)"

lemma score_submission_solved:
  assumes "score_submission now re_match show_g op d = Inr (Some (d', anns, sent))"
  shows "\<forall>i. solved_in d' i \<longleftrightarrow> solved_in d i \<or> i \<in> an_task_id ` set anns" "\<forall>a\<in>set anns. \<not> solved_in d (an_task_id a)"
    "distinct (map an_task_id anns)"
proof -
  obtain s ds mx r c t where t: "get_from_id task_id (db_tasks d) (sub_task_id s) = Some t"
    and f: "first_blood now ds s t mx (set_score c r) (put_sr (set_score c r) d) = Inr (d', anns)"
    using score_submission_cases[OF assms] by metis
  have t': "get_from_id task_id (db_tasks d) (task_id t) = Some t" using t get_from_id_Some by fastforce
  from f show "\<forall>i. solved_in d' i \<longleftrightarrow> solved_in d i \<or> i \<in> an_task_id ` set anns"
    "\<forall>a\<in>set anns. \<not> solved_in d (an_task_id a)" "distinct (map an_task_id anns)"
    by (cases rule: first_blood_cases; auto simp: solved_in_def get_put_row t')+
qed

text \<open>The states of the service, from a given database on.\<close>

inductive scoring_reach ::
  "(string \<Rightarrow> string \<Rightarrow> bool res) \<Rightarrow> (real \<Rightarrow> string) \<Rightarrow> db \<Rightarrow> scoring_state \<Rightarrow> bool"
  for re_match show_g d
where
  reach_init: "scoring_reach re_match show_g d (scoring_init d)"
| reach_step: "scoring_reach re_match show_g d s \<Longrightarrow> scoring_step now re_match show_g s = Inr s' \<Longrightarrow>
    scoring_reach re_match show_g d s'"
| reach_sweep: "scoring_reach re_match show_g d s \<Longrightarrow> scoring_reach re_match show_g d (fst (scoring_missing_operations now s))"
| reach_new_evaluation: "scoring_reach re_match show_g d s \<Longrightarrow> scoring_reach re_match show_g d (fst (new_evaluation now i j s))"
| reach_invalidate: "scoring_reach re_match show_g d s \<Longrightarrow>
    scoring_reach re_match show_g d (fst (scoring_invalidate_submission now i j k l m s))"

text \<open>Requests do not touch the tasks and announce nothing.\<close>

definition announced :: "db \<Rightarrow> scoring_state \<Rightarrow> bool" where
  "announced d s \<longleftrightarrow> distinct (map an_task_id (sc_announcements s)) \<and>
     (\<forall>a\<in>set (sc_announcements s). \<not> solved_in d (an_task_id a)) \<and>
     (\<forall>i. solved_in (sc_db s) i \<longleftrightarrow> solved_in d i \<or> i \<in> an_task_id ` set (sc_announcements s))"

lemma announced_sc_enqueue [preserves_rules]: "preserves (announced d) (sc_enqueue now op t)"
  by (auto simp: preserves_def sc_enqueue_def announced_def split: sum.splits prod.splits)

lemma invalidate_loop_tasks: "invalidate_loop rs d q = Inr (d', q') \<Longrightarrow> db_tasks d' = db_tasks d"
  by (induction rs d q rule: invalidate_loop.induct) (auto simp: res_simps split: if_splits)

lemma announced_same_tasks:
  "announced d s \<Longrightarrow> db_tasks d' = db_tasks (sc_db s) \<Longrightarrow> announced d (s\<lparr>sc_db := d'\<rparr>)"
  by (simp add: announced_def solved_in_def)

lemma announced_invalidate: "announced d s \<Longrightarrow> announced d (fst (scoring_invalidate_submission now i j k l m s))"
  unfolding scoring_invalidate_submission_def
  by (auto simp: stm_simps res_simps split: sum.split prod.split
      intro!: preservesD[where I = "announced d"] preserves_rules announced_same_tasks dest!: invalidate_loop_tasks)

lemma announced_execute: "announced d s \<Longrightarrow> announced d (fst (scoring_execute now re_match show_g op s))"
proof (cases "score_submission now re_match show_g op (sc_db s)")
  case (Inr x)
  assume a: "announced d s"
  show ?thesis
  proof (cases x)
    case (Some y)
    then obtain d' anns sent where e: "score_submission now re_match show_g op (sc_db s) = Inr (Some (d', anns, sent))"
      using Inr by (cases y) auto
    note f = score_submission_solved[OF e]
    show ?thesis
      using a f by (auto simp: scoring_execute_def e announced_def) (metis image_eqI)
  qed (use a Inr in \<open>simp add: scoring_execute_def\<close>)
qed (simp add: scoring_execute_def)

lemma announced_step: "announced d s \<Longrightarrow> scoring_step now re_match show_g s = Inr s' \<Longrightarrow> announced d s'"
  by (auto simp: scoring_step_def run_execute_def split: option.splits sum.splits prod.splits if_splits
      intro!: announced_execute) (simp add: announced_def)

text \<open>(C19) Whatever requests the service gets and however its executor runs, every task is announced
  as solved at most once, never when it was solved before, and exactly the tasks announced have
  become solved; a later invalidation of the score takes nothing back.\<close>

theorem first_blood_announced_once:
  assumes "scoring_reach re_match show_g d s"
  shows "distinct (map an_task_id (sc_announcements s)) \<and>
    (\<forall>a\<in>set (sc_announcements s). \<not> solved_in d (an_task_id a)) \<and>
    (\<forall>i. solved_in (sc_db s) i \<longleftrightarrow> solved_in d i \<or> i \<in> an_task_id ` set (sc_announcements s))"
  unfolding announced_def[symmetric] using assms
proof induction
  case reach_init
  then show ?case by (simp add: announced_def scoring_init_def)
next
  case (reach_step s now s')
  then show ?case by (simp add: announced_step)
next
  case (reach_sweep s now)
  have "preserves (announced d) (scoring_missing_operations now)"
    unfolding scoring_missing_operations_def by (intro preserves_rules)
  then show ?case using reach_sweep by (simp add: preservesD)
next
  case (reach_new_evaluation s now i j)
  then show ?case by (simp add: new_evaluation_def preservesD[OF announced_sc_enqueue])
next
  case (reach_invalidate s now i j k l m)
  then show ?case by (intro announced_invalidate)
qed

section \<open>Scoring works\<close>

text \<open>The rows that a result of the database depends on, and a result that its score type can score.\<close>

definition scorable_in ::
  "(string \<Rightarrow> string \<Rightarrow> bool res) \<Rightarrow> (real \<Rightarrow> string) \<Rightarrow> db \<Rightarrow> scoring_operation \<Rightarrow> submission_result \<Rightarrow> bool"
where
  "scorable_in re_match show_g d op r \<longleftrightarrow>
     (\<exists>s ds t p mx compute c.
        get_from_id sub_id (db_submissions d) (so_submission_id op) = Some s \<and>
        get_from_id ds_id (db_datasets d) (so_dataset_id op) = Some ds \<and> sub_task_id s = ds_task_id ds \<and>
        get_from_id task_id (db_tasks d) (sub_task_id s) = Some t \<and>
        get_from_id part_id (db_participations d) (sub_participation_id s) = Some p \<and>
        score_type_object re_match show_g ds = Inr (mx, compute) \<and> compute r = Inr c)"

lemma score_submission_runs:
  assumes "result_row d (op_key op) = Some r" "sr_needs_scoring r" "scorable_in re_match show_g d op r"
  shows "\<exists>d' anns sent. score_submission now re_match show_g op d = Inr (Some (d', anns, sent))"
proof -
  obtain s ds t p mx compute c where b: "get_from_id sub_id (db_submissions d) (so_submission_id op) = Some s"
      "get_from_id ds_id (db_datasets d) (so_dataset_id op) = Some ds" "sub_task_id s = ds_task_id ds"
      "get_from_id task_id (db_tasks d) (sub_task_id s) = Some t"
      "get_from_id part_id (db_participations d) (sub_participation_id s) = Some p"
      "score_type_object re_match show_g ds = Inr (mx, compute)" "compute r = Inr c"
    using assms(3) unfolding scorable_in_def by blast
  have g: "sub_get_result d s ds = Inr (Some r)"
    using assms(1) b(3) get_from_id_Some[OF b(1)] get_from_id_Some[OF b(2)] by (auto simp: sub_get_result_def)
  obtain d' anns where f: "first_blood now ds s t mx (set_score c r) (put_sr (set_score c r) d) = Inr (d', anns)"
    using b(5) by (cases "first_blood now ds s t mx (set_score c r) (put_sr (set_score c r) d)")
      (auto simp: first_blood_def split: if_splits)
  have b4: "get_from_id task_id (db_tasks d) (ds_task_id ds) = Some t" using b(3,4) by simp
  show ?thesis
    using assms(2) b(1,2,6,7) b(3) b4 g f by (simp add: score_submission_def)
qed

text \<open>What an execution changes: one result row and the flags of tasks.\<close>

definition unsolved :: "task \<Rightarrow> task" where
  "unsolved t = t\<lparr>task_solved := False\<rparr>"

definition evolves :: "db \<Rightarrow> db \<Rightarrow> bool" where
  "evolves d d' \<longleftrightarrow>
     db_submissions d' = db_submissions d \<and> db_datasets d' = db_datasets d \<and> db_participations d' = db_participations d \<and>
     map unsolved (db_tasks d') = map unsolved (db_tasks d) \<and>
     map sr_key (db_submission_results d') = map sr_key (db_submission_results d) \<and>
     (\<forall>k. result_row d' k = result_row d k \<or>
       (\<exists>r c. result_row d k = Some r \<and> sr_needs_scoring r \<and> result_row d' k = Some (set_score c r)))"

lemma map_put_row:
  assumes "x \<in> set rows" "distinct (map key rows)" "key r = key x" "f r = f x"
  shows "map f (put_row key r rows) = map f rows"
  using assms by (induction rows) (auto simp: image_iff)

lemma set_score_scored:
  "\<not> sr_submission_discarded r \<Longrightarrow> sr_scored (set_score c r)"
  "\<not> sr_submission_discarded r \<Longrightarrow> sr_filter_scored (set_score c r)"
  by (simp_all add: set_score_def sr_status_defs sr_filter_defs)

lemma sr_needs_scoring_set_score:
  "sr_needs_scoring (set_score c r) \<Longrightarrow> sr_discarded r"
  by (auto simp: set_score_def sr_status_defs)

lemma set_score_twice: "set_score c (set_score c' r) = set_score c r"
  by (simp add: set_score_def)

lemma score_submission_evolves:
  assumes "score_submission now re_match show_g op d = Inr (Some (d', anns, sent))"
    and "distinct (map task_id (db_tasks d))" "distinct (map sr_key (db_submission_results d))"
  shows "evolves d d'" "\<exists>r c. result_row d (op_key op) = Some r \<and> result_row d' (op_key op) = Some (set_score c r)"
proof -
  obtain s ds mx r c t where r: "result_row d (op_key op) = Some r" "sr_needs_scoring r"
    and t: "get_from_id task_id (db_tasks d) (sub_task_id s) = Some t"
    and f: "first_blood now ds s t mx (set_score c r) (put_sr (set_score c r) d) = Inr (d', anns)"
    using score_submission_cases[OF assms(1)] by metis
  have mem: "r \<in> set (db_submission_results d)" "sr_key r = op_key op" "t \<in> set (db_tasks d)"
    using get_from_id_Some r(1) t by fastforce+
  have rows: "db_submission_results d' = put_row sr_key (set_score c r) (db_submission_results d)"
    "db_submissions d' = db_submissions d" "db_datasets d' = db_datasets d" "db_participations d' = db_participations d"
    using f by (cases rule: first_blood_cases; simp)+
  have tasks: "map unsolved (db_tasks d') = map unsolved (db_tasks d)"
    using f by (cases rule: first_blood_cases) (simp_all add: map_put_row[OF mem(3) assms(2)] unsolved_def)
  have keys: "map sr_key (db_submission_results d') = map sr_key (db_submission_results d)"
    using map_put_row[OF mem(1) assms(3), of "set_score c r" sr_key] by (simp add: rows)
  have row: "result_row d' k = (if k = op_key op then Some (set_score c r) else result_row d k)" for k
    using mem(2) by (simp add: rows get_put_row)
  show "evolves d d'"
    unfolding evolves_def using rows(2-) tasks keys row r by auto
  show "\<exists>r c. result_row d (op_key op) = Some r \<and> result_row d' (op_key op) = Some (set_score c r)"
    using row r by auto
qed

lemma evolves_refl: "evolves d d"
  by (simp add: evolves_def)

lemma evolves_trans:
  assumes "evolves d d1" "evolves d1 d2"
  shows "evolves d d2"
proof -
  have "result_row d2 k = result_row d k \<or>
      (\<exists>r c. result_row d k = Some r \<and> sr_needs_scoring r \<and> result_row d2 k = Some (set_score c r))" for k
    using assms set_score_twice unfolding evolves_def by (metis option.inject)
  then show ?thesis using assms unfolding evolves_def by simp
qed

lemma unsolved_get:
  assumes "map unsolved ts' = map unsolved ts"
  shows "(\<exists>t'. get_from_id task_id ts' i = Some t') \<longleftrightarrow> (\<exists>t. get_from_id task_id ts i = Some t)"
    "map task_id ts' = map task_id ts"
proof -
  have "map (task_id \<circ> unsolved) ts' = map (task_id \<circ> unsolved) ts" using assms by (metis map_map)
  then show ids: "map task_id ts' = map task_id ts" by (simp add: comp_def unsolved_def)
  then have "task_id ` set ts' = task_id ` set ts" by (metis set_map)
  moreover have "(\<exists>t'. get_from_id task_id xs i = Some t') \<longleftrightarrow> i \<in> task_id ` set xs" for xs :: "task list"
    using get_from_id_None[of task_id xs i] by (cases "get_from_id task_id xs i") (auto dest: get_from_id_Some)
  ultimately show "(\<exists>t'. get_from_id task_id ts' i = Some t') \<longleftrightarrow> (\<exists>t. get_from_id task_id ts i = Some t)" by simp
qed

lemma scorable_evolves:
  assumes "evolves d d'" "scorable_in re_match show_g d op r"
  shows "scorable_in re_match show_g d' op r"
proof -
  have e: "db_submissions d' = db_submissions d" "db_datasets d' = db_datasets d" "db_participations d' = db_participations d"
      "map unsolved (db_tasks d') = map unsolved (db_tasks d)"
    using assms(1) unfolding evolves_def by simp_all
  show ?thesis
    using assms(2) unsolved_get(1)[OF e(4)] unfolding scorable_in_def e(1-3) by blast
qed

fun scoring_steps ::
  "(string \<Rightarrow> string \<Rightarrow> bool res) \<Rightarrow> (real \<Rightarrow> string) \<Rightarrow> datetime list \<Rightarrow> scoring_state \<Rightarrow> scoring_state res"
where
  "scoring_steps re_match show_g [] s = Inr s"
| "scoring_steps re_match show_g (now # nows) s =
     res_bind (scoring_step now re_match show_g s) (scoring_steps re_match show_g nows)"

definition sc_ok :: "scoring_state \<Rightarrow> bool" where
  "sc_ok s \<longleftrightarrow> ex_invar (sc_executor s) \<and> \<not> ex_batch_executions (sc_executor s) \<and>
     distinct (map task_id (db_tasks (sc_db s))) \<and> distinct (map sr_key (db_submission_results (sc_db s)))"

abbreviation sc_queue :: "scoring_state \<Rightarrow> scoring_operation set" where
  "sc_queue s \<equiv> dom (ex_content (sc_executor s))"

lemma scoring_execute_evolves:
  assumes "distinct (map task_id (db_tasks (sc_db s)))" "distinct (map sr_key (db_submission_results (sc_db s)))"
    and "scoring_execute now re_match show_g op s = (s', res)"
  shows "sc_executor s' = sc_executor s" "evolves (sc_db s) (sc_db s')"
    "result_row (sc_db s) (op_key op) = Some r \<Longrightarrow> sr_needs_scoring r \<Longrightarrow> scorable_in re_match show_g (sc_db s) op r \<Longrightarrow>
      \<exists>c. result_row (sc_db s') (op_key op) = Some (set_score c r)"
proof -
  show "sc_executor s' = sc_executor s" "evolves (sc_db s) (sc_db s')"
    using assms score_submission_evolves(1)
    by (fastforce simp: scoring_execute_def evolves_refl split: sum.splits option.splits prod.splits)+
  assume r: "result_row (sc_db s) (op_key op) = Some r" "sr_needs_scoring r" "scorable_in re_match show_g (sc_db s) op r"
  obtain d' anns sent where e: "score_submission now re_match show_g op (sc_db s) = Inr (Some (d', anns, sent))"
    using score_submission_runs[OF r] by blast
  then have "sc_db s' = d'" using assms(3) by (auto simp: scoring_execute_def)
  then show "\<exists>c. result_row (sc_db s') (op_key op) = Some (set_score c r)"
    using score_submission_evolves(2)[OF e assms(1,2)] r(1) by auto
qed

lemma sc_ok_evolves: "sc_ok s \<Longrightarrow> sc_executor s' = sc_executor s \<Longrightarrow> evolves (sc_db s) (sc_db s') \<Longrightarrow> sc_ok s'"
  using unsolved_get(2) unfolding sc_ok_def evolves_def by metis

lemma scoring_step_runs:
  assumes "sc_ok s" "sc_queue s \<noteq> {}"
  shows "\<exists>op s'. op \<in> sc_queue s \<and> scoring_step now re_match show_g s = Inr s' \<and> sc_ok s' \<and> sc_queue s' = sc_queue s - {op} \<and>
    evolves (sc_db s) (sc_db s') \<and>
    (\<forall>r. result_row (sc_db s) (op_key op) = Some r \<and> sr_needs_scoring r \<and> scorable_in re_match show_g (sc_db s) op r \<longrightarrow>
      (\<exists>c. result_row (sc_db s') (op_key op) = Some (set_score c r)))"
proof -
  have i: "ex_invar (sc_executor s)" "ex_content (sc_executor s) \<noteq> Map.empty" using assms by (auto simp: sc_ok_def)
  obtain x q where p: "ex_pop (sc_executor s) True = Inr (x, (sc_executor s)\<lparr>ex_operation_queue := q\<rparr>)" "pq_invar q"
      "ex_content (sc_executor s) (qe_item x) = Some (entry_key x)"
      "pq_map q = (ex_content (sc_executor s))(qe_item x := None)"
    using ex_pop_wait[OF i, of True] by metis
  let ?s = "s\<lparr>sc_executor := (sc_executor s)\<lparr>ex_operation_queue := q\<rparr>\<rparr>"
  have ok: "sc_ok ?s" using assms(1) p(2) by (simp add: sc_ok_def ex_invar_def)
  obtain s' res where e: "scoring_execute now re_match show_g (qe_item x) ?s = (s', res)" by (cases "scoring_execute now re_match show_g (qe_item x) ?s")
  have step: "scoring_step now re_match show_g s = Inr s'"
    using assms(1) p(1) e by (simp add: scoring_step_def run_extract_def run_execute_def sc_ok_def)
  have d: "distinct (map task_id (db_tasks (sc_db ?s)))" "distinct (map sr_key (db_submission_results (sc_db ?s)))"
    using ok unfolding sc_ok_def by blast+
  note ev = scoring_execute_evolves[OF d e]
  show ?thesis
  proof (intro exI[of _ "qe_item x"] exI[of _ s'] conjI)
    show "qe_item x \<in> sc_queue s" using p(3) by auto
    show "sc_ok s'" by (rule sc_ok_evolves[OF ok ev(1,2)])
    show "sc_queue s' = sc_queue s - {qe_item x}" using p(4) by (auto simp: ev(1) split: if_splits)
  qed (use step ev(2,3) in auto)
qed

lemma scoring_drains:
  assumes "sc_ok s" "card (sc_queue s) = length nows"
  shows "\<exists>s'. scoring_steps re_match show_g nows s = Inr s' \<and> sc_queue s' = {} \<and> evolves (sc_db s) (sc_db s') \<and>
    (\<forall>op\<in>sc_queue s. \<forall>r. result_row (sc_db s) (op_key op) = Some r \<and> sr_needs_scoring r \<and>
       scorable_in re_match show_g (sc_db s) op r \<longrightarrow> (\<exists>c. result_row (sc_db s') (op_key op) = Some (set_score c r)))"
  using assms
proof (induction nows arbitrary: s)
  case Nil
  then have "finite (sc_queue s)" by (simp add: sc_ok_def executor_queue.finite_content)
  then have "sc_queue s = {}" using Nil(2) by simp
  then show ?case by (simp add: evolves_refl)
next
  case (Cons now nows)
  have fin: "finite (sc_queue s)" using Cons.prems(1) by (simp add: sc_ok_def executor_queue.finite_content)
  have ne: "sc_queue s \<noteq> {}" using Cons.prems(2) by force
  obtain op s1 where 1: "op \<in> sc_queue s" "scoring_step now re_match show_g s = Inr s1" "sc_ok s1"
      "sc_queue s1 = sc_queue s - {op}" "evolves (sc_db s) (sc_db s1)"
      "\<forall>r. result_row (sc_db s) (op_key op) = Some r \<and> sr_needs_scoring r \<and> scorable_in re_match show_g (sc_db s) op r \<longrightarrow>
      (\<exists>c. result_row (sc_db s1) (op_key op) = Some (set_score c r))"
    using scoring_step_runs[OF Cons.prems(1) ne] by blast
  have "card (sc_queue s1) = length nows" using 1(1,4) Cons.prems(2) fin by simp
  from Cons.IH[OF 1(3) this] obtain s' where 2: "scoring_steps re_match show_g nows s1 = Inr s'" "sc_queue s' = {}"
      "evolves (sc_db s1) (sc_db s')"
      "\<forall>op\<in>sc_queue s1. \<forall>r. result_row (sc_db s1) (op_key op) = Some r \<and> sr_needs_scoring r \<and>
       scorable_in re_match show_g (sc_db s1) op r \<longrightarrow> (\<exists>c. result_row (sc_db s') (op_key op) = Some (set_score c r))" by blast
  have later: "\<exists>c. result_row (sc_db s') k = Some (set_score c r)" if "result_row (sc_db s1) k = Some (set_score c r)" for k c r
    using 2(3) that set_score_twice unfolding evolves_def by (metis option.inject)
  have "\<exists>c. result_row (sc_db s') (op_key o') = Some (set_score c r)"
    if o: "o' \<in> sc_queue s" "result_row (sc_db s) (op_key o') = Some r" "sr_needs_scoring r" "scorable_in re_match show_g (sc_db s) o' r" for o' r
  proof (cases "o' = op")
    case False
    have "result_row (sc_db s1) (op_key o') = Some r \<or> (\<exists>c. result_row (sc_db s1) (op_key o') = Some (set_score c r))"
      using 1(5) o(2) unfolding evolves_def by (metis option.inject)
    moreover have "o' \<in> sc_queue s1" using False o(1) 1(4) by blast
    ultimately show ?thesis
      using later 2(4) o(3) scorable_evolves[OF 1(5) o(4)] by blast
  next
    case True
    then obtain c where "result_row (sc_db s1) (op_key o') = Some (set_score c r)" using 1(6) o(2-4) by blast
    then show ?thesis by (rule later)
  qed
  then show ?case
    using 1(2) 2(1,2) evolves_trans[OF 1(5) 2(3)] by (intro exI[of _ s']) simp
qed

lemma sc_enqueue_runs:
  assumes "ex_invar (sc_executor s)"
  shows "\<exists>ex. sc_enqueue now op t s = (s\<lparr>sc_executor := ex\<rparr>, Inr ()) \<and> ex_invar ex \<and>
    ex_batch_executions ex = ex_batch_executions (sc_executor s) \<and> dom (ex_content ex) = insert op (sc_queue s)"
proof -
  obtain ex where "ex_enqueue now (sc_executor s) op None t = Inr (\<not> ex_contains (sc_executor s) op, ex)" "enqueued op (sc_executor s) ex"
    using ex_enqueue_total[OF assms] by blast
  then show ?thesis by (auto simp: sc_enqueue_def enqueued_def ex_enqueue_def res_simps)
qed

lemma sc_enqueue_all:
  assumes "ex_invar (sc_executor s)"
  shows "\<exists>ex. sforeach ops (\<lambda>(op, t). sc_enqueue now op (Some t)) s = (s\<lparr>sc_executor := ex\<rparr>, Inr ()) \<and> ex_invar ex \<and>
    ex_batch_executions ex = ex_batch_executions (sc_executor s) \<and> dom (ex_content ex) = sc_queue s \<union> fst ` set ops"
  using assms
proof (induction ops arbitrary: s)
  case Nil
  then show ?case by (auto simp: stm_simps intro: exI[of _ "sc_executor s"])
next
  case (Cons x ops)
  obtain op t where x: "x = (op, t)" by (cases x)
  obtain ex where ex: "sc_enqueue now op (Some t) s = (s\<lparr>sc_executor := ex\<rparr>, Inr ())" "ex_invar ex"
      "ex_batch_executions ex = ex_batch_executions (sc_executor s)" "dom (ex_content ex) = insert op (sc_queue s)"
    using sc_enqueue_runs[OF Cons.prems] by blast
  from Cons.IH[of "s\<lparr>sc_executor := ex\<rparr>"] ex(2) obtain ex' where
    "sforeach ops (\<lambda>(op, t). sc_enqueue now op (Some t)) (s\<lparr>sc_executor := ex\<rparr>) = (s\<lparr>sc_executor := ex'\<rparr>, Inr ())" "ex_invar ex'"
    "ex_batch_executions ex' = ex_batch_executions ex" "dom (ex_content ex') = dom (ex_content ex) \<union> fst ` set ops" by auto
  then show ?case using ex by (auto simp: x stm_simps)
qed

lemma in_scoring_get_operations:
  "(op, ts) \<in> set (scoring_get_operations d) \<longleftrightarrow>
    (\<exists>s\<in>set (db_submissions d). \<exists>t\<in>set (db_tasks d). \<exists>r\<in>set (db_submission_results d). \<exists>ds\<in>set (db_datasets d).
       task_id t = sub_task_id s \<and> sr_submission_id r = sub_id s \<and> ds_id ds = sr_dataset_id r \<and>
       FILTER_DATASETS_TO_JUDGE t ds \<and> FILTER_SUBMISSION_RESULTS_TO_SCORE r \<and>
       op = scoring_op (sub_id s) (ds_id ds) \<and> ts = sub_timestamp s)"
  unfolding scoring_get_operations_def
  by (simp only: set_concat set_map UN_iff bex_simps in_set_if list.simps list.set empty_iff insert_iff simp_thms prod.inject) blast

lemma to_score_needs_scoring:
  assumes "FILTER_SUBMISSION_RESULTS_TO_SCORE r" "\<not> sr_submission_discarded r"
  shows "sr_needs_scoring r" "\<not> FILTER_SUBMISSION_RESULTS_TO_SCORE (set_score c r)"
  using assms set_score_scored(2)[of r c]
  by (auto simp: FILTER_SUBMISSION_RESULTS_TO_SCORE_def sr_filter_compilation_failed_def sr_filter_defs sr_status_defs)

text \<open>A discarded result never counts as scored, and no score changes whether it is to be scored.\<close>

lemma discarded_to_score:
  assumes "sr_submission_discarded r"
  shows "FILTER_SUBMISSION_RESULTS_TO_SCORE (set_score c r) \<longleftrightarrow> FILTER_SUBMISSION_RESULTS_TO_SCORE r"
  using assms
  by (simp add: FILTER_SUBMISSION_RESULTS_TO_SCORE_def sr_filter_compilation_failed_def sr_filter_defs set_score_def)

lemma set_score_same [simp]:
  "sr_submission_discarded (set_score c r) = sr_submission_discarded r" "sr_submission_id (set_score c r) = sr_submission_id r"
  "sr_dataset_id (set_score c r) = sr_dataset_id r"
  by (simp_all add: set_score_def)

text \<open>The search sees the rows of tasks only through what an execution does not change.\<close>

lemma evolves_judged:
  assumes "evolves d d'"
  shows "(\<exists>t\<in>set (db_tasks d'). task_id t = k \<and> FILTER_DATASETS_TO_JUDGE t ds) \<longleftrightarrow>
    (\<exists>t\<in>set (db_tasks d). task_id t = k \<and> FILTER_DATASETS_TO_JUDGE t ds)"
proof -
  have u: "task_id (unsolved t) = task_id t" "FILTER_DATASETS_TO_JUDGE (unsolved t) ds = FILTER_DATASETS_TO_JUDGE t ds" for t
    by (simp_all add: unsolved_def FILTER_DATASETS_TO_JUDGE_def)
  have "unsolved ` set (db_tasks d') = unsolved ` set (db_tasks d)"
    using assms unfolding evolves_def by (metis set_map)
  then have "(\<exists>t\<in>unsolved ` set (db_tasks d'). task_id t = k \<and> FILTER_DATASETS_TO_JUDGE t ds) \<longleftrightarrow>
      (\<exists>t\<in>unsolved ` set (db_tasks d). task_id t = k \<and> FILTER_DATASETS_TO_JUDGE t ds)" by simp
  then show ?thesis by (simp add: u)
qed

text \<open>What the search finds for a row.\<close>

definition found :: "db \<Rightarrow> scoring_operation \<Rightarrow> datetime \<Rightarrow> submission_result \<Rightarrow> bool" where
  "found d op ts r \<longleftrightarrow> FILTER_SUBMISSION_RESULTS_TO_SCORE r \<and>
     (\<exists>s\<in>set (db_submissions d). \<exists>ds\<in>set (db_datasets d). sr_submission_id r = sub_id s \<and> ds_id ds = sr_dataset_id r \<and>
        (\<exists>t\<in>set (db_tasks d). task_id t = sub_task_id s \<and> FILTER_DATASETS_TO_JUDGE t ds) \<and>
        op = scoring_op (sub_id s) (ds_id ds) \<and> ts = sub_timestamp s)"

lemma scoring_get_operations_found:
  "(op, ts) \<in> set (scoring_get_operations d) \<longleftrightarrow> (\<exists>r\<in>set (db_submission_results d). found d op ts r)"
  unfolding in_scoring_get_operations found_def by blast

lemma found_key: "found d op ts r \<Longrightarrow> op_key op = sr_key r"
  by (auto simp: found_def scoring_op_def sr_key_def)

lemma found_evolves:
  assumes "evolves d d'"
  shows "found d' op ts r \<longleftrightarrow> found d op ts r"
proof -
  have "db_submissions d' = db_submissions d" "db_datasets d' = db_datasets d" using assms unfolding evolves_def by simp_all
  then show ?thesis unfolding found_def by (simp add: evolves_judged[OF assms])
qed

lemma found_set_score: "sr_submission_discarded r \<Longrightarrow> found d op ts (set_score c r) \<longleftrightarrow> found d op ts r"
  unfolding found_def by (simp add: discarded_to_score)

lemma row_in_iff:
  "distinct (map sr_key (db_submission_results d)) \<Longrightarrow> r \<in> set (db_submission_results d) \<longleftrightarrow> result_row d (sr_key r) = Some r"
  using get_from_id_unique[of sr_key "db_submission_results d" r] get_from_id_Some by fastforce

text \<open>A result to score after the executor ran was one before, and was either not executed or is discarded; and a discarded one
  is found again.\<close>

lemma evolves_get_operations:
  assumes e: "evolves d d'" and d: "distinct (map sr_key (db_submission_results d))"
  shows "(op, ts) \<in> set (scoring_get_operations d') \<Longrightarrow>
      \<exists>r\<in>set (db_submission_results d). found d op ts r \<and> (result_row d' (op_key op) = Some r \<or> sr_submission_discarded r)"
    "r \<in> set (db_submission_results d) \<Longrightarrow> found d op ts r \<Longrightarrow> sr_submission_discarded r \<Longrightarrow>
      (op, ts) \<in> set (scoring_get_operations d')"
proof -
  have d': "distinct (map sr_key (db_submission_results d'))" using e d by (simp add: evolves_def)
  have row: "result_row d' k = result_row d k \<or>
      (\<exists>r c. result_row d k = Some r \<and> sr_needs_scoring r \<and> result_row d' k = Some (set_score c r))" for k
    using e unfolding evolves_def by blast
  show "\<exists>r\<in>set (db_submission_results d). found d op ts r \<and> (result_row d' (op_key op) = Some r \<or> sr_submission_discarded r)"
    if again: "(op, ts) \<in> set (scoring_get_operations d')"
  proof -
    obtain r' where "r' \<in> set (db_submission_results d')" "found d op ts r'"
      using again unfolding scoring_get_operations_found found_evolves[OF e] by blast
    then have r': "result_row d' (op_key op) = Some r'" "found d op ts r'"
      using row_in_iff[OF d', of r'] found_key[of d op ts r'] by simp_all
    from row[of "op_key op"] consider "result_row d (op_key op) = Some r'"
      | r c where "result_row d (op_key op) = Some r" "r' = set_score c r" using r'(1) by auto
    then show ?thesis
    proof cases
      case 1
      then show ?thesis using r' get_from_id_Some by fastforce
    next
      case (2 r c)
      have "sr_submission_discarded r"
        using r'(2) set_score_scored(2)[of r c] by (auto simp: found_def FILTER_SUBMISSION_RESULTS_TO_SCORE_def 2(2))
      then show ?thesis using 2 r'(2) found_set_score get_from_id_Some[OF 2(1)] by blast
    qed
  qed
  show "(op, ts) \<in> set (scoring_get_operations d')"
    if r: "r \<in> set (db_submission_results d)" "found d op ts r" "sr_submission_discarded r"
  proof -
    have "result_row d (sr_key r) = Some r" using row_in_iff[OF d] r(1) by blast
    with row[of "sr_key r"] obtain r' where r': "result_row d' (sr_key r) = Some r'" "r' = r \<or> (\<exists>c. r' = set_score c r)"
      by auto
    have "found d op ts r'" using r'(2) r(2) found_set_score[OF r(3)] by blast
    then show ?thesis
      using get_from_id_Some[OF r'(1)] unfolding scoring_get_operations_found found_evolves[OF e] by blast
  qed
qed


section \<open>Invalidation\<close>

definition row_op :: "submission_result \<Rightarrow> scoring_operation" where
  "row_op r = scoring_op (sr_submission_id r) (sr_dataset_id r)"

lemma sr_key_invalidate [simp]: "sr_key (sr_invalidate_score r) = sr_key r"
  by (simp add: sr_key_def sr_update_defs)

lemma sr_invalidated:
  "\<not> sr_scored (sr_invalidate_score r)"
  "sr_needs_scoring (sr_invalidate_score r) \<longleftrightarrow> sr_compilation_failed r \<or> sr_evaluated r"
  by (simp_all add: sr_status_defs sr_update_defs)

lemma invalidate_loop_runs:
  assumes "\<forall>r\<in>set rs. \<exists>s. get_from_id sub_id (db_submissions d) (sr_submission_id r) = Some s" "distinct (map sr_key rs)"
  shows "\<exists>d' q'. invalidate_loop rs d q = Inr (d', q') \<and> fst ` set q' = fst ` set q \<union> row_op ` set (filter sr_scored rs) \<and>
    db_submissions d' = db_submissions d \<and>
    (\<forall>k. result_row d' k =
      (case get_from_id sr_key (filter sr_scored rs) k of None \<Rightarrow> result_row d k | Some r \<Rightarrow> Some (sr_invalidate_score r)))"
  using assms
proof (induction rs arbitrary: d q)
  case (Cons r rs)
  have ih: "\<forall>r\<in>set rs. \<exists>s. get_from_id sub_id (db_submissions d) (sr_submission_id r) = Some s" "distinct (map sr_key rs)"
    using Cons.prems by simp_all
  show ?case
  proof (cases "sr_scored r")
    case True
    obtain s where s: "get_from_id sub_id (db_submissions d) (sr_submission_id r) = Some s" using Cons.prems(1) by auto
    let ?d = "put_sr (sr_invalidate_score r) d" and ?q = "q @ [(row_op r, sub_timestamp s)]"
    have "\<forall>r\<in>set rs. \<exists>s. get_from_id sub_id (db_submissions ?d) (sr_submission_id r) = Some s" using ih(1) by simp
    from Cons.IH[OF this ih(2), of ?q] obtain d' q' where e: "invalidate_loop rs ?d ?q = Inr (d', q')"
        "fst ` set q' = fst ` set ?q \<union> row_op ` set (filter sr_scored rs)" "db_submissions d' = db_submissions d"
        "\<forall>k. result_row d' k = (case get_from_id sr_key (filter sr_scored rs) k of None \<Rightarrow> result_row ?d k | Some r \<Rightarrow> Some (sr_invalidate_score r))"
      by auto
    have "\<forall>x\<in>set (filter sr_scored rs). sr_key x \<noteq> sr_key r" using Cons.prems(2) by (auto simp: image_iff)
    then have none: "get_from_id sr_key (filter sr_scored rs) (sr_key r) = None" by (simp only: get_from_id_None)
    have "get_from_id sr_key (filter sr_scored (r # rs)) k = (if k = sr_key r then Some r else get_from_id sr_key (filter sr_scored rs) k)" for k
      using True by (simp add: get_from_id_def eq_commute)
    then have "result_row d' k = (case get_from_id sr_key (filter sr_scored (r # rs)) k of None \<Rightarrow> result_row d k | Some r \<Rightarrow> Some (sr_invalidate_score r))" for k
      using none by (simp add: e(4) get_put_row split: option.split)
    then show ?thesis
      using e(1-3) True s by (intro exI[of _ d'] exI[of _ q']) (auto simp: row_op_def)
  next
    case False
    then show ?thesis using Cons.IH[OF ih, of q] by simp
  qed
qed (simp add: get_from_id_def)

text \<open>Invalidating scores takes back exactly the scores of the results selected that had one, and every
  result that lost its score is in the queue of the executor afterwards; it can be scored again. No
  other result changes, and nothing else is enqueued.\<close>

theorem invalidated_results_are_queued:
  assumes "sc_ok s" "get_submission_results (sc_db s) cid pid tid sid did = Inr rs"
  shows "\<exists>s'. scoring_invalidate_submission now sid did pid tid cid s = (s', Inr ()) \<and>
    (\<forall>r\<in>set rs. sr_scored r \<longrightarrow> result_row (sc_db s') (sr_key r) = Some (sr_invalidate_score r) \<and> \<not> sr_scored (sr_invalidate_score r) \<and>
       (sr_compilation_failed r \<or> sr_evaluated r \<longrightarrow> sr_needs_scoring (sr_invalidate_score r))) \<and>
    (\<forall>k. k \<notin> sr_key ` {r \<in> set rs. sr_scored r} \<longrightarrow> result_row (sc_db s') k = result_row (sc_db s) k) \<and>
    sc_queue s' = sc_queue s \<union> row_op ` {r \<in> set rs. sr_scored r}"
proof -
  have rs: "\<exists>P. rs = filter P (db_submission_results (sc_db s)) \<and> (\<forall>r. P r \<longrightarrow> (\<exists>x\<in>set (db_submissions (sc_db s)). sub_id x = sr_submission_id r))"
    using assms(2) unfolding get_submission_results_def by (auto split: if_splits)
  then have "\<forall>r\<in>set rs. \<exists>x\<in>set (db_submissions (sc_db s)). sub_id x = sr_submission_id r" by auto
  then have subs: "\<forall>r\<in>set rs. \<exists>x. get_from_id sub_id (db_submissions (sc_db s)) (sr_submission_id r) = Some x"
    by (metis get_from_id_None not_Some_eq)
  have "distinct (map sr_key (db_submission_results (sc_db s)))" using assms(1) by (simp add: sc_ok_def)
  then have dist: "distinct (map sr_key rs)" using rs distinct_map_filter by blast
  obtain d' q' where e: "invalidate_loop rs (sc_db s) [] = Inr (d', q')" "fst ` set q' = row_op ` set (filter sr_scored rs)"
      "\<forall>k. result_row d' k = (case get_from_id sr_key (filter sr_scored rs) k of None \<Rightarrow> result_row (sc_db s) k | Some r \<Rightarrow> Some (sr_invalidate_score r))"
    using invalidate_loop_runs[OF subs dist, of "[]"] by auto
  have i: "ex_invar (sc_executor (s\<lparr>sc_db := d'\<rparr>))" using assms(1) by (simp add: sc_ok_def)
  obtain ex where ex: "sforeach q' (\<lambda>(op, t). sc_enqueue now op (Some t)) (s\<lparr>sc_db := d'\<rparr>) = (s\<lparr>sc_db := d', sc_executor := ex\<rparr>, Inr ())"
      "dom (ex_content ex) = sc_queue s \<union> fst ` set q'"
    using sc_enqueue_all[OF i, of q' now] by auto
  have row: "get_from_id sr_key (filter sr_scored rs) (sr_key r) = Some r" if "r \<in> set rs" "sr_scored r" for r
    using that dist by (intro get_from_id_unique) (simp_all add: distinct_map_filter)
  have none: "get_from_id sr_key (filter sr_scored rs) k = None" if "k \<notin> sr_key ` {r \<in> set rs. sr_scored r}" for k
    using that by (auto simp: get_from_id_None)
  show ?thesis
  proof (intro exI[of _ "s\<lparr>sc_db := d', sc_executor := ex\<rparr>"] conjI)
    show "scoring_invalidate_submission now sid did pid tid cid s = (s\<lparr>sc_db := d', sc_executor := ex\<rparr>, Inr ())"
      using assms(2) e(1) ex(1) by (simp add: scoring_invalidate_submission_def stm_simps)
  qed (use ex(2) in \<open>auto simp: e(2,3) row none sr_invalidated\<close>)
qed

section \<open>Witnesses\<close>

definition example_batch_dataset :: dataset where
  "example_batch_dataset = \<lparr>ds_id = 5, ds_task_id = 2, ds_autojudge = False, ds_task_type = ''Batch'',
     ds_task_type_parameters = [], ds_score_type = ''Sum'', ds_score_type_parameters = P_Int 100,
     ds_testcases = [\<lparr>tc_id = 11, tc_codename = ''001'', tc_public = True\<rparr>]\<rparr>"

definition example_scoring_db :: "submission_result \<Rightarrow> db" where
  "example_scoring_db r = \<lparr>db_contests = [\<lparr>ct_id = 1, ct_start = 0, ct_stop = 9000\<rparr>],
     db_participations = [\<lparr>part_id = 3, part_contest_id = 1\<rparr>],
     db_tasks = [\<lparr>task_id = 2, task_contest_id = Some 1, task_active_dataset_id = Some 5, task_title = ''t'', task_pvp_batch = 0,
        task_score_precision = 0, task_score_mode = SCORE_MODE_MAX, task_solved = False\<rparr>],
     db_datasets = [example_batch_dataset], db_submissions = [example_submission], db_submission_results = [r],
     db_user_tests = [], db_user_test_results = [], db_matches = [], db_match_results = [], db_batches = [], db_files = []\<rparr>"

definition example_correct :: submission_result where
  "example_correct = (new_submission_result 7 5)\<lparr>sr_compilation_outcome := Some Comp_Ok, sr_evaluation_ok := True,
     sr_evaluations := [example_evaluation 11 ''1.0'']\<rparr>"

definition example_failed :: submission_result where
  "example_failed = (new_submission_result 7 5)\<lparr>sr_compilation_outcome := Some Comp_Fail\<rparr>"

lemma example_step:
  "case scoring_step 9 (\<lambda>_ _. Inr False) (\<lambda>_. []) (fst (new_evaluation 0 7 5 (scoring_init (example_scoring_db example_correct)))) of
     Inr s \<Rightarrow> map an_task_id (sc_announcements s) = [2] \<and> sc_sent s = [7] | Inl e \<Rightarrow> False"
  by code_simp

theorem first_blood_announced_once_witness:
  "\<exists>s. scoring_reach (\<lambda>_ _. Inr False) (\<lambda>_. []) (example_scoring_db example_correct) s \<and>
     map an_task_id (sc_announcements s) = [2] \<and> solved_in (sc_db s) 2 \<and> \<not> solved_in (example_scoring_db example_correct) 2"
proof -
  let ?d = "example_scoring_db example_correct"
  let ?s0 = "fst (new_evaluation 0 7 5 (scoring_init ?d))"
  obtain s where s: "scoring_step 9 (\<lambda>_ _. Inr False) (\<lambda>_. []) ?s0 = Inr s" "map an_task_id (sc_announcements s) = [2]"
    using example_step by (cases "scoring_step 9 (\<lambda>_ _. Inr False) (\<lambda>_. []) ?s0") auto
  have r: "scoring_reach (\<lambda>_ _. Inr False) (\<lambda>_. []) ?d s"
    by (rule reach_step[OF reach_new_evaluation[OF reach_init] s(1)])
  have "set (map an_task_id (sc_announcements s)) = {2}" unfolding s(2) by simp
  then have a: "an_task_id ` set (sc_announcements s) = {2}" by simp
  note f = first_blood_announced_once[OF r]
  have "solved_in (sc_db s) 2" using f[THEN conjunct2, THEN conjunct2, rule_format, of 2] a by simp
  moreover obtain x where "x \<in> set (sc_announcements s)" "an_task_id x = 2" using a by (metis imageE singletonI)
  then have "\<not> solved_in ?d 2" using f[THEN conjunct2, THEN conjunct1] by metis
  ultimately show ?thesis using r s(2) by (intro exI[of _ s] conjI)
qed

lemma example_scoring_ok: "sc_ok (scoring_init (example_scoring_db r))"
  by (simp add: sc_ok_def scoring_init_def ex_invar_init executor_init_def[of False, THEN arg_cong[of _ _ ex_batch_executions]]
      example_scoring_db_def)


theorem invalidated_results_are_queued_witness:
  "\<exists>s'. scoring_invalidate_submission 9 (Some 7) None None None None (scoring_init (example_scoring_db (example_scored 7 40 60))) = (s', Inr ()) \<and>
     sc_queue s' = {scoring_op 7 5} \<and> result_row (sc_db s') (7, 5) = Some (sr_invalidate_score (example_scored 7 40 60))"
proof -
  let ?r = "example_scored 7 40 60"
  let ?s = "scoring_init (example_scoring_db ?r)"
  have r: "sr_submission_id ?r = 7" "sr_dataset_id ?r = 5" "sr_key ?r = (7, 5)" "sr_scored ?r"
    by (simp_all add: example_scored_def new_submission_result_def sr_key_def sr_status_defs)
  have g: "get_submission_results (sc_db ?s) None None None (Some 7) None = Inr [?r]"
    by (simp add: get_submission_results_def scoring_init_def example_scoring_db_def r example_submission_def)
  have q: "sc_queue ?s = {}" by (simp add: scoring_init_def executor_init_def pq_map_def pq_init_def)
  show ?thesis
    using invalidated_results_are_queued[OF example_scoring_ok g, of 9] r q by (auto simp: row_op_def)
qed

end
