(* ===== verification/Contest_Phases.thy ===== *)
theory Contest_Phases
  imports Prelude
begin

text \<open>
  The phase of a contest for a user (\<^verbatim>\<open>cms/server/contest/phase_management.py\<close>): -2 before the
  contest, -1 before the user's start, 0 while the user competes, 1 after the user's time frame, 2
  after the contest, 3 in analysis mode, 4 after it. Boundaries are \<open>None\<close> where the phase is
  unbounded. The tests of the types of the arguments are the types here.
\<close>

type_synonym phase = "int \<times> datetime option \<times> datetime option \<times> datetime option \<times> datetime option"

text \<open>The first branch: a per-user time frame that has not started.\<close>

definition phase_not_started :: "datetime \<Rightarrow> datetime \<Rightarrow> datetime \<Rightarrow> (int \<times> datetime option \<times> datetime option) res" where
  "phase_not_started timestamp contest_start contest_stop =
     (if contest_start \<le> timestamp \<and> timestamp \<le> contest_stop then Inr (-1, Some contest_start, Some contest_stop)
      else if timestamp < contest_start then Inr (-2, None, Some contest_start)
      else if contest_stop < timestamp then Inr (2, Some contest_stop, None)
      else Inl RuntimeError)"

definition actual_interval ::
  "datetime \<Rightarrow> datetime \<Rightarrow> timedelta option \<Rightarrow> datetime \<Rightarrow> timedelta \<Rightarrow> timedelta \<Rightarrow> datetime \<times> datetime"
where
  "actual_interval contest_start contest_stop per_user_time starting_time delay_time extra_time =
     (case per_user_time of
        None \<Rightarrow> (contest_start + delay_time, contest_stop + delay_time + extra_time)
      | Some p \<Rightarrow>
          (min (max starting_time contest_start) contest_stop + delay_time,
           min (max (starting_time + p) contest_start) contest_stop + delay_time + extra_time))"

definition phase_started ::
  "datetime \<Rightarrow> datetime \<Rightarrow> datetime \<Rightarrow> datetime \<Rightarrow> datetime \<Rightarrow> (int \<times> datetime option \<times> datetime option) res"
where
  "phase_started timestamp contest_start contest_stop actual_start actual_stop =
     (if actual_start \<le> timestamp \<and> timestamp \<le> actual_stop then Inr (0, Some actual_start, Some actual_stop)
      else if contest_start \<le> timestamp \<and> timestamp < actual_start then Inr (-1, Some contest_start, Some actual_start)
      else if timestamp < contest_start then Inr (-2, None, Some contest_start)
      else if actual_stop < timestamp \<and> timestamp \<le> contest_stop then Inr (1, Some actual_stop, Some contest_stop)
      else if contest_stop < timestamp then Inr (2, Some (max contest_stop actual_stop), None)
      else Inl RuntimeError)"

text \<open>The last part, for a contest that is over.\<close>

definition analysis_phase ::
  "datetime \<Rightarrow> datetime \<Rightarrow> datetime option \<Rightarrow> datetime option \<Rightarrow> datetime option \<Rightarrow>
   int \<times> datetime option \<times> datetime option \<Rightarrow> (int \<times> datetime option \<times> datetime option) res"
where
  "analysis_phase timestamp contest_stop analysis_start analysis_stop actual_stop =
     (\<lambda>(actual_phase, phase_begin, phase_end).
        let later = (\<lambda>x. Some (case actual_stop of None \<Rightarrow> x | Some y \<Rightarrow> max x y)) in
        if actual_phase \<noteq> 2 then Inr (actual_phase, phase_begin, phase_end)
        else
          (case analysis_start of
             None \<Rightarrow> Inr (4, phase_begin, phase_end)
           | Some a \<Rightarrow>
               res_bind (py_assert (contest_stop \<le> a)) (\<lambda>_.
                 (case analysis_stop of
                    None \<Rightarrow> Inl AssertionError
                  | Some b \<Rightarrow>
                      res_bind (py_assert (a \<le> b)) (\<lambda>_.
                        if timestamp < a then Inr (2, phase_begin, Some a)
                        else if a \<le> timestamp \<and> timestamp \<le> b then Inr (3, later a, Some b)
                        else if b < timestamp then Inr (4, later b, None)
                        else Inl RuntimeError)))))"

definition compute_actual_phase ::
  "datetime \<Rightarrow> datetime \<Rightarrow> datetime \<Rightarrow> datetime option \<Rightarrow> datetime option \<Rightarrow> timedelta option \<Rightarrow>
   datetime option \<Rightarrow> timedelta \<Rightarrow> timedelta \<Rightarrow> phase res"
where
  "compute_actual_phase timestamp contest_start contest_stop analysis_start analysis_stop per_user_time
     starting_time delay_time extra_time =
     res_bind (py_assert (contest_start \<le> contest_stop)) (\<lambda>_.
     res_bind (py_assert (case per_user_time of None \<Rightarrow> True | Some p \<Rightarrow> 0 \<le> p)) (\<lambda>_.
     res_bind (py_assert (0 \<le> delay_time)) (\<lambda>_.
     res_bind (py_assert (0 \<le> extra_time)) (\<lambda>_.
       if per_user_time \<noteq> None \<and> starting_time = None then
         res_bind (phase_not_started timestamp contest_start contest_stop) (\<lambda>p.
         res_bind (analysis_phase timestamp contest_stop analysis_start analysis_stop None p) (\<lambda>(n, b, e).
           Inr (n, b, e, None, None)))
       else
         (case actual_interval contest_start contest_stop per_user_time (case starting_time of None \<Rightarrow> 0 | Some s \<Rightarrow> s)
                 delay_time extra_time of
            (actual_start, actual_stop) \<Rightarrow>
              res_bind (py_assert (contest_start \<le> actual_start \<and> actual_start \<le> actual_stop)) (\<lambda>_.
              res_bind (phase_started timestamp contest_start contest_stop actual_start actual_stop) (\<lambda>p.
              res_bind (analysis_phase timestamp contest_stop analysis_start analysis_stop (Some actual_stop) p) (\<lambda>(n, b, e).
                Inr (n, b, e, Some actual_start, Some actual_stop)))))))))"

text \<open>\<open>actual_phase_required\<close>: whether a request is passed on rather than redirected.\<close>

definition actual_phase_required :: "int list \<Rightarrow> int \<Rightarrow> bool option \<Rightarrow> bool" where
  "actual_phase_required actual_phases actual_phase unrestricted \<longleftrightarrow>
     \<not> (actual_phase \<notin> set actual_phases \<and> (case unrestricted of None \<Rightarrow> True | Some u \<Rightarrow> \<not> u))"

section \<open>Phases\<close>

text \<open>The constraints of the database on the times of a contest and a participation.\<close>

definition times_ok ::
  "datetime \<Rightarrow> datetime \<Rightarrow> datetime option \<Rightarrow> datetime option \<Rightarrow> timedelta option \<Rightarrow> timedelta \<Rightarrow> timedelta \<Rightarrow> bool"
where
  "times_ok contest_start contest_stop analysis_start analysis_stop per_user_time delay_time extra_time \<longleftrightarrow>
     contest_start \<le> contest_stop \<and> (\<forall>p. per_user_time = Some p \<longrightarrow> 0 \<le> p) \<and> 0 \<le> delay_time \<and> 0 \<le> extra_time \<and>
     (\<forall>a. analysis_start = Some a \<longrightarrow> (\<exists>b. analysis_stop = Some b \<and> contest_stop \<le> a \<and> a \<le> b))"

abbreviation in_phase :: "datetime option \<Rightarrow> datetime option \<Rightarrow> datetime \<Rightarrow> bool" where
  "in_phase b e t \<equiv> (\<forall>x. b = Some x \<longrightarrow> x \<le> t) \<and> (\<forall>x. e = Some x \<longrightarrow> t \<le> x)"

abbreviation inside_phase :: "datetime option \<Rightarrow> datetime option \<Rightarrow> datetime \<Rightarrow> bool" where
  "inside_phase b e t \<equiv> (\<forall>x. b = Some x \<longrightarrow> x < t) \<and> (\<forall>x. e = Some x \<longrightarrow> t < x)"

text \<open>What a phase function has to satisfy: it always yields a phase whose interval contains the
  time, the same phase and interval at every time inside it, and never an earlier phase later.\<close>

locale phase_function =
  fixes ok :: "'c \<Rightarrow> bool"
    and phase :: "'c \<Rightarrow> datetime \<Rightarrow> (int \<times> datetime option \<times> datetime option) res"
  assumes total: "ok c \<Longrightarrow> \<exists>n b e. phase c t = Inr (n, b, e) \<and> in_phase b e t"
    and stable: "ok c \<Longrightarrow> phase c t = Inr (n, b, e) \<Longrightarrow> inside_phase b e t' \<Longrightarrow> phase c t' = Inr (n, b, e)"
    and mono: "ok c \<Longrightarrow> t \<le> t' \<Longrightarrow> phase c t = Inr (n, b, e) \<Longrightarrow> phase c t' = Inr (n', b', e') \<Longrightarrow> n \<le> n'"
begin

text \<open>A phase lasts until its end: a later time in another phase is not before it.\<close>

lemma phase_lasts:
  assumes "ok c" "t \<le> t'" "phase c t = Inr (n, b, e)" "phase c t' = Inr (n', b', e')" "n \<noteq> n'"
  shows "\<exists>x. e = Some x \<and> x \<le> t' \<and> n < n'"
proof (rule ccontr)
  assume "\<nexists>x. e = Some x \<and> x \<le> t' \<and> n < n'"
  moreover have "n < n'" using mono[OF assms(1-4)] assms(5) by simp
  ultimately have e: "\<forall>x. e = Some x \<longrightarrow> t' < x" by auto
  have "t \<noteq> t'" using assms(3-5) by auto
  moreover have "in_phase b e t" using total[OF assms(1), of t] assms(3) by auto
  ultimately have "inside_phase b e t'" using e assms(2) by fastforce
  then have "phase c t' = Inr (n, b, e)" using stable[OF assms(1,3)] by simp
  then show False using assms(4,5) by simp
qed

end

text \<open>The two branches, with the last part.\<close>

type_synonym phase_times =
  "datetime \<times> datetime \<times> datetime option \<times> datetime option \<times> timedelta option \<times> datetime option \<times> timedelta \<times> timedelta"

definition analysis_ok :: "datetime \<Rightarrow> datetime option \<Rightarrow> datetime option \<Rightarrow> bool" where
  "analysis_ok ce a b \<longleftrightarrow> (\<forall>x. a = Some x \<longrightarrow> (\<exists>y. b = Some y \<and> ce \<le> x \<and> x \<le> y))"

interpretation not_started: phase_function "\<lambda>(cs, ce, a, b). cs \<le> ce \<and> analysis_ok ce a b"
  "\<lambda>(cs, ce, a, b) t. res_bind (phase_not_started t cs ce) (analysis_phase t ce a b None)"
  by unfold_locales
    (auto simp: analysis_ok_def phase_not_started_def analysis_phase_def Let_def split: option.splits if_splits)

interpretation started: phase_function "\<lambda>(cs, ce, a, b, u, v). cs \<le> ce \<and> analysis_ok ce a b \<and> cs \<le> u \<and> u \<le> v"
  "\<lambda>(cs, ce, a, b, u, v) t. res_bind (phase_started t cs ce u v) (analysis_phase t ce a b (Some v))"
  by unfold_locales
    (auto simp: analysis_ok_def phase_started_def analysis_phase_def Let_def split: option.splits if_splits)

definition actual_phase :: "phase_times \<Rightarrow> datetime \<Rightarrow> (int \<times> datetime option \<times> datetime option) res" where
  "actual_phase = (\<lambda>(cs, ce, a, b, p, s, delay, extra) t.
     res_bind (compute_actual_phase t cs ce a b p s delay extra) (\<lambda>(n, b, e, u, v). Inr (n, b, e)))"

lemma actual_interval_ok:
  assumes "cs \<le> ce" "\<forall>x. p = Some x \<longrightarrow> 0 \<le> x" "0 \<le> delay" "0 \<le> extra" "actual_interval cs ce p s delay extra = (u, v)"
  shows "cs \<le> u" "u \<le> v"
  using assms by (auto simp: actual_interval_def split: option.splits)

text \<open>The whole function is one of the two branches, with a user's time frame that does not depend
  on the time.\<close>

lemma compute_actual_phase_cases:
  assumes "times_ok cs ce a b p delay extra"
  obtains "\<And>t. compute_actual_phase t cs ce a b p s delay extra =
      res_bind (res_bind (phase_not_started t cs ce) (analysis_phase t ce a b None)) (\<lambda>(n, b, e). Inr (n, b, e, None, None))"
      "cs \<le> ce" "analysis_ok ce a b"
  | u v where "\<And>t. compute_actual_phase t cs ce a b p s delay extra =
      res_bind (res_bind (phase_started t cs ce u v) (analysis_phase t ce a b (Some v))) (\<lambda>(n, b, e). Inr (n, b, e, Some u, Some v))"
      "cs \<le> ce" "analysis_ok ce a b" "cs \<le> u" "u \<le> v"
proof (cases "p \<noteq> None \<and> s = None")
  case True
  have "compute_actual_phase t cs ce a b p s delay extra =
      res_bind (res_bind (phase_not_started t cs ce) (analysis_phase t ce a b None)) (\<lambda>(n, b, e). Inr (n, b, e, None, None))" for t
    using True assms by (cases "phase_not_started t cs ce") (auto simp: compute_actual_phase_def times_ok_def)
  then show ?thesis using that(1) assms by (simp add: times_ok_def analysis_ok_def)
next
  case False
  obtain u v where uv: "actual_interval cs ce p (case s of None \<Rightarrow> 0 | Some s \<Rightarrow> s) delay extra = (u, v)" by fastforce
  have o: "cs \<le> u" "u \<le> v" using actual_interval_ok[OF _ _ _ _ uv] assms by (simp_all add: times_ok_def)
  have "compute_actual_phase t cs ce a b p s delay extra =
      res_bind (res_bind (phase_started t cs ce u v) (analysis_phase t ce a b (Some v))) (\<lambda>(n, b, e). Inr (n, b, e, Some u, Some v))" for t
    using False assms o by (cases "phase_started t cs ce u v")
      (auto simp: compute_actual_phase_def times_ok_def uv split: option.splits)
  then show ?thesis using that(2) assms o by (simp add: times_ok_def analysis_ok_def)
qed

lemma phase_times_cases:
  fixes c :: phase_times
  obtains cs ce a b p s delay extra where "c = (cs, ce, a, b, p, s, delay, extra)"
  by (metis surj_pair)

interpretation actual: phase_function "\<lambda>(cs, ce, a, b, p, s, delay, extra). times_ok cs ce a b p delay extra" actual_phase
proof (unfold_locales, goal_cases)
  case (1 c t)
  obtain cs ce a b p s delay extra where c: "c = (cs, ce, a, b, p, s, delay, extra)" by (rule phase_times_cases)
  have ok: "times_ok cs ce a b p delay extra" using 1 by (simp add: c)
  show ?case
    by (rule compute_actual_phase_cases[OF ok, where s = s])
      (use not_started.total[of "(cs, ce, a, b)" t] started.total[of "(cs, ce, a, b, _, _)" t] in
        \<open>fastforce simp: actual_phase_def c\<close>)+
next
  case (2 c t n b' e t')
  obtain cs ce a b p s delay extra where c: "c = (cs, ce, a, b, p, s, delay, extra)" by (rule phase_times_cases)
  have ok: "times_ok cs ce a b p delay extra" using 2 by (simp add: c)
  show ?case
    by (rule compute_actual_phase_cases[OF ok, where s = s])
      (use 2 not_started.stable[of "(cs, ce, a, b)" t n b' e t'] started.stable[of "(cs, ce, a, b, _, _)" t n b' e t'] in
        \<open>force simp: actual_phase_def c res_simps\<close>)+
next
  case (3 c t t' n b1 e1 n' b2 e2)
  obtain cs ce a b p s delay extra where c: "c = (cs, ce, a, b, p, s, delay, extra)" by (rule phase_times_cases)
  have ok: "times_ok cs ce a b p delay extra" using 3 by (simp add: c)
  show ?case
    by (rule compute_actual_phase_cases[OF ok, where s = s])
      (use 3 not_started.mono[of "(cs, ce, a, b)" t t' n b1 e1 n' b2 e2] started.mono[of "(cs, ce, a, b, _, _)" t t' n b1 e1 n' b2 e2] in
        \<open>force simp: actual_phase_def c res_simps\<close>)+
qed

lemma compute_actual_phase_frame:
  assumes "times_ok cs ce a b p delay extra" "compute_actual_phase t cs ce a b p s delay extra = Inr (n, b', e, u, v)"
  shows "-2 \<le> n \<and> n \<le> 4" "n = 0 \<longleftrightarrow> (\<exists>x y. u = Some x \<and> v = Some y \<and> x \<le> t \<and> t \<le> y)"
    "compute_actual_phase t' cs ce a b p s delay extra = Inr (n', b'', e'', u', v') \<Longrightarrow> u' = u \<and> v' = v"
proof -
  note defs = res_simps phase_not_started_def phase_started_def analysis_phase_def Let_def
  show "-2 \<le> n \<and> n \<le> 4" "n = 0 \<longleftrightarrow> (\<exists>x y. u = Some x \<and> v = Some y \<and> x \<le> t \<and> t \<le> y)"
    by (rule compute_actual_phase_cases[OF assms(1), where s = s];
        use assms(2) in \<open>auto simp: defs split: option.splits if_splits\<close>)+
  assume "compute_actual_phase t' cs ce a b p s delay extra = Inr (n', b'', e'', u', v')"
  then show "u' = u \<and> v' = v"
    by - (rule compute_actual_phase_cases[OF assms(1), where s = s]; use assms(2) in \<open>auto simp: res_simps split: prod.splits\<close>)
qed

text \<open>(C21) For every contest and participation that satisfy the constraints of the database, the phase at
  every time is well defined: nothing is raised; the interval returned with it contains the time,
  and the same phase is returned at every time inside it; the phase is 0 exactly in the
  user's time frame; and phases only grow: a different phase at a later time is a later
  phase, and does not come before the end of this one.\<close>

theorem actual_phase_is_exact:
  assumes "times_ok cs ce a b p delay extra"
  shows "\<exists>n bg e u v. compute_actual_phase t cs ce a b p s delay extra = Inr (n, bg, e, u, v) \<and>
    -2 \<le> n \<and> n \<le> 4 \<and> in_phase bg e t \<and>
    (n = 0 \<longleftrightarrow> (\<exists>x y. u = Some x \<and> v = Some y \<and> x \<le> t \<and> t \<le> y)) \<and>
    (\<forall>t'. inside_phase bg e t' \<longrightarrow> compute_actual_phase t' cs ce a b p s delay extra = Inr (n, bg, e, u, v)) \<and>
    (\<forall>t' n' bg' e' u' v'. t \<le> t' \<and> compute_actual_phase t' cs ce a b p s delay extra = Inr (n', bg', e', u', v') \<and> n' \<noteq> n \<longrightarrow>
      n < n' \<and> (\<exists>x. e = Some x \<and> x \<le> t'))"
proof -
  let ?c = "(cs, ce, a, b, p, s, delay, extra)" and ?f = "\<lambda>t. compute_actual_phase t cs ce a b p s delay extra"
  have ok: "(\<lambda>(cs, ce, a, b, p, s, delay, extra). times_ok cs ce a b p delay extra) ?c" using assms by simp
  have phase: "actual_phase ?c t = Inr (n, bg, e) \<longleftrightarrow> (\<exists>u v. ?f t = Inr (n, bg, e, u, v))" for t n bg e
    by (auto simp: actual_phase_def res_simps split: prod.splits)
  obtain n bg e u v where f: "?f t = Inr (n, bg, e, u, v)" "in_phase bg e t" using actual.total[OF ok, of t] phase by blast
  then have ph: "actual_phase ?c t = Inr (n, bg, e)" using phase by blast
  note frame = compute_actual_phase_frame[OF assms f(1)]
  have st: "\<forall>t'. inside_phase bg e t' \<longrightarrow> ?f t' = Inr (n, bg, e, u, v)"
  proof (intro allI impI)
    fix t' assume "inside_phase bg e t'"
    from actual.stable[OF ok ph this] obtain u' v' where "?f t' = Inr (n, bg, e, u', v')" unfolding phase by (elim exE)
    then show "?f t' = Inr (n, bg, e, u, v)" using frame(3) by simp
  qed
  have mo: "\<forall>t' n' bg' e' u' v'. t \<le> t' \<and> ?f t' = Inr (n', bg', e', u', v') \<and> n' \<noteq> n \<longrightarrow> n < n' \<and> (\<exists>x. e = Some x \<and> x \<le> t')"
    using actual.phase_lasts[OF ok _ ph] phase by metis
  show ?thesis
    by (intro exI conjI) (fact f(1) frame(1)[THEN conjunct1] frame(1)[THEN conjunct2] f(2)[THEN conjunct1] f(2)[THEN conjunct2] frame(2) st mo)+
qed

theorem actual_phase_is_exact_witness:
  "compute_actual_phase 50 0 100 (Some 120) (Some 150) (Some 30) (Some 40) 5 2 = Inr (0, Some 45, Some 77, Some 45, Some 77) \<and>
   compute_actual_phase 77 0 100 (Some 120) (Some 150) (Some 30) (Some 40) 5 2 = Inr (0, Some 45, Some 77, Some 45, Some 77) \<and>
   (\<exists>x bg e u v. compute_actual_phase 110 0 100 (Some 120) (Some 150) (Some 30) (Some 40) 5 2 = Inr (x, bg, e, u, v) \<and> 0 < x)"
proof -
  have ok: "times_ok 0 100 (Some 120) (Some 150) (Some 30) 5 2" by (simp add: times_ok_def)
  have e: "compute_actual_phase 50 0 100 (Some 120) (Some 150) (Some 30) (Some 40) 5 2 = Inr (0, Some 45, Some 77, Some 45, Some 77)"
    "compute_actual_phase 77 0 100 (Some 120) (Some 150) (Some 30) (Some 40) 5 2 = Inr (0, Some 45, Some 77, Some 45, Some 77)"
    "compute_actual_phase 110 0 100 (Some 120) (Some 150) (Some 30) (Some 40) 5 2 = Inr (2, Some 100, Some 120, Some 45, Some 77)"
    by code_simp+
  have "(0 :: int) < 2"
    using actual_phase_is_exact[OF ok, of 50 "Some 40"] e by auto
  then show ?thesis using e by auto
qed

end
