(* ===== verification/Tokens.thy ===== *)
theory Tokens
  imports Contest_Db
begin

text \<open>
  Tokens (\<^verbatim>\<open>cms/server/contest/tokening.py\<close>): how many a contestant can play on a task, when the next one is generated,
  when the next one may be played, and the acceptance of a token. The token columns of a contest and
  of a task are the same; a \<open>token_config\<close> holds one set of them. The floor divisions of seconds by
  seconds are those of the microseconds.
\<close>

datatype token_mode = TOKEN_MODE_DISABLED | TOKEN_MODE_FINITE | TOKEN_MODE_INFINITE

record token_config =
  tk_mode :: token_mode
  tk_gen_initial :: int
  tk_gen_number :: int
  tk_gen_interval :: timedelta
  tk_gen_max :: "int option"
  tk_max_number :: "int option"
  tk_min_interval :: timedelta

type_synonym tokens_info = "int \<times> datetime option \<times> datetime option"

section \<open>One set of parameters\<close>

definition periods :: "token_config \<Rightarrow> datetime \<Rightarrow> datetime \<Rightarrow> int res" where
  "periods c start t = (if tk_gen_interval c = 0 then Inl ZeroDivisionError else Inr ((t - start) div tk_gen_interval c))"

definition generate_tokens :: "token_config \<Rightarrow> datetime \<Rightarrow> datetime \<Rightarrow> datetime \<Rightarrow> int res" where
  "generate_tokens c start begin_timestamp end_timestamp =
     res_bind (periods c start begin_timestamp) (\<lambda>x.
     res_bind (periods c start end_timestamp) (\<lambda>y. Inr (tk_gen_number c * (y - x))))"

definition cap :: "int option \<Rightarrow> int \<Rightarrow> int" where
  "cap m x = (case m of None \<Rightarrow> x | Some y \<Rightarrow> min x y)"

text \<open>The loop over the history: the tokens left after it and the time of the last one played.\<close>

fun simulate :: "token_config \<Rightarrow> datetime \<Rightarrow> datetime list \<Rightarrow> datetime \<Rightarrow> int \<Rightarrow> (int \<times> datetime) res" where
  "simulate c start [] prev avail = Inr (avail, prev)"
| "simulate c start (t # ts) prev avail =
     res_bind (py_assert (prev \<le> t)) (\<lambda>_.
     res_bind (generate_tokens c start prev t) (\<lambda>g.
       simulate c start ts t (cap (tk_gen_max c) (avail + g) - 1)))"

definition next_gen :: "token_config \<Rightarrow> datetime \<Rightarrow> datetime \<Rightarrow> int \<Rightarrow> datetime option res" where
  "next_gen c start timestamp avail =
     (if 0 < tk_gen_number c \<and> (case tk_gen_max c of None \<Rightarrow> True | Some m \<Rightarrow> avail < m)
      then res_bind (periods c start timestamp) (\<lambda>n. Inr (Some (start + tk_gen_interval c * (n + 1))))
      else Inr None)"

definition limit_total :: "int option \<Rightarrow> nat \<Rightarrow> int \<Rightarrow> datetime option \<Rightarrow> int \<times> datetime option" where
  "limit_total max_number played avail next_gen_time =
     (case max_number of
        None \<Rightarrow> (avail, next_gen_time)
      | Some m \<Rightarrow> if m - int played \<le> avail then (m - int played, None) else (avail, next_gen_time))"

definition expiration_of ::
  "token_config \<Rightarrow> datetime \<Rightarrow> datetime list \<Rightarrow> datetime \<Rightarrow> int \<Rightarrow> datetime option \<Rightarrow> datetime option"
where
  "expiration_of c start history timestamp avail next_gen_time =
     (let expiration = (if history \<noteq> [] then last history + tk_min_interval c else start) in
      if expiration \<le> timestamp \<or> (avail = 0 \<and> next_gen_time = None) then None else Some expiration)"

definition tokens_available1 :: "token_config \<Rightarrow> datetime option \<Rightarrow> datetime list \<Rightarrow> datetime \<Rightarrow> tokens_info res" where
  "tokens_available1 c start0 history timestamp =
     (case tk_mode c of
        TOKEN_MODE_DISABLED \<Rightarrow> Inr (0, None, None)
      | TOKEN_MODE_INFINITE \<Rightarrow> Inr (-1, None, None)
      | TOKEN_MODE_FINITE \<Rightarrow>
          (case start0 of
             None \<Rightarrow> Inl TypeError
           | Some start \<Rightarrow>
               res_bind (simulate c start history start (tk_gen_initial c)) (\<lambda>(avail, prev).
               res_bind (py_assert (prev \<le> timestamp)) (\<lambda>_.
               res_bind (generate_tokens c start prev timestamp) (\<lambda>g.
                 let avail1 = cap (tk_gen_max c) (avail + g) in
                 res_bind (next_gen c start timestamp avail1) (\<lambda>next1.
                   let (avail2, next2) = limit_total (tk_max_number c) (length history) avail1 next1 in
                   Inr (avail2, next2, expiration_of c start history timestamp avail2 next2)))))))"

section \<open>Contest and task together\<close>

text \<open>The tokens played by a participation up to a time, in order, with the task of the
  submission.\<close>

definition token_timestamps :: "db \<Rightarrow> int \<Rightarrow> datetime \<Rightarrow> (datetime \<times> int) list" where
  "token_timestamps d pid timestamp =
     sort_key fst (List.map_filter (\<lambda>s.
       case sub_token s of
         None \<Rightarrow> None
       | Some t \<Rightarrow> if t \<le> timestamp \<and> sub_participation_id s = pid then Some (t, sub_task_id s) else None) (db_submissions d))"

definition contest_history :: "db \<Rightarrow> int \<Rightarrow> datetime \<Rightarrow> datetime list" where
  "contest_history d pid timestamp = map fst (token_timestamps d pid timestamp)"

definition task_history :: "db \<Rightarrow> int \<Rightarrow> int \<Rightarrow> datetime \<Rightarrow> datetime list" where
  "task_history d pid tid timestamp = map fst (filter (\<lambda>(_, i). i = tid) (token_timestamps d pid timestamp))"

definition merge_expiration :: "datetime option \<Rightarrow> datetime option \<Rightarrow> datetime option" where
  "merge_expiration c t = (case (c, t) of (None, _) \<Rightarrow> t | (_, None) \<Rightarrow> c | (Some x, Some y) \<Rightarrow> Some (max y x))"

definition merge_tokens :: "tokens_info \<Rightarrow> tokens_info \<Rightarrow> tokens_info" where
  "merge_tokens rc rt =
     (case (rc, rt) of ((nc, gc, ec), (nt, gt, et)) \<Rightarrow>
        let expiration = merge_expiration ec et in
        if nc = -1 \<and> nt = -1 then (-1, None, expiration)
        else
          let nc' = (if nc = -1 then nt + 1 else nc);
              nt' = (if nt = -1 then nc' + 1 else nt) in
          if nc' < nt' then (nc', gc, expiration)
          else if nt' < nc' then (nt', gt, expiration)
          else (nt', case (gc, gt) of (Some x, Some y) \<Rightarrow> Some (max x y) | _ \<Rightarrow> None, expiration))"

text \<open>\<open>contest.per_user_time\<close>, \<open>participation.starting_time\<close> and \<open>contest.start\<close>. The contest is the one of the
  participation and, as the code asserts, of the task.\<close>

type_synonym token_times = "timedelta option \<times> datetime option \<times> datetime"

definition tokens_start :: "token_times \<Rightarrow> datetime option" where
  "tokens_start = (\<lambda>(per_user_time, starting_time, contest_start).
     if per_user_time \<noteq> None then starting_time else Some contest_start)"

definition tokens_available ::
  "token_config \<Rightarrow> token_config \<Rightarrow> token_times \<Rightarrow> db \<Rightarrow> int \<Rightarrow> int \<Rightarrow> datetime \<Rightarrow> tokens_info res"
where
  "tokens_available contest_conf task_conf tms d pid tid timestamp =
     (let start = tokens_start tms in
     res_bind (tokens_available1 contest_conf start (contest_history d pid timestamp) timestamp) (\<lambda>rc.
     res_bind (tokens_available1 task_conf start (task_history d pid tid timestamp) timestamp) (\<lambda>rt.
       Inr (merge_tokens rc rt))))"

datatype token_error = UnacceptableToken | TokenAlreadyPlayed | Raised py_error

definition accept_token ::
  "token_config \<Rightarrow> token_config \<Rightarrow> token_times \<Rightarrow> submission \<Rightarrow> datetime \<Rightarrow> db \<Rightarrow> token_error + db"
where
  "accept_token contest_conf task_conf tms s timestamp d =
     (case tokens_available contest_conf task_conf tms d (sub_participation_id s) (sub_task_id s) timestamp of
        Inl e \<Rightarrow> Inl (Raised e)
      | Inr (n, g, e) \<Rightarrow>
          if n = 0 \<or> e \<noteq> None then Inl UnacceptableToken
          else if sub_token s \<noteq> None then Inl TokenAlreadyPlayed
          else Inr (d\<lparr>db_submissions := put_row sub_id (s\<lparr>sub_token := Some timestamp\<rparr>) (db_submissions d)\<rparr>))"

section \<open>The history in the database\<close>

definition played_tokens :: "db \<Rightarrow> int \<Rightarrow> (datetime \<times> int) list" where
  "played_tokens d pid = List.map_filter (\<lambda>s.
     case sub_token s of None \<Rightarrow> None | Some t \<Rightarrow> if sub_participation_id s = pid then Some (t, sub_task_id s) else None) (db_submissions d)"

lemma token_timestamps_all:
  assumes "\<forall>(t, i)\<in>set (played_tokens d pid). t \<le> now"
  shows "token_timestamps d pid now = sort_key fst (played_tokens d pid)"
proof -
  have "List.map_filter (\<lambda>s. case sub_token s of None \<Rightarrow> None
       | Some t \<Rightarrow> if t \<le> now \<and> sub_participation_id s = pid then Some (t, sub_task_id s) else None) xs =
     List.map_filter (\<lambda>s. case sub_token s of None \<Rightarrow> None | Some t \<Rightarrow> if sub_participation_id s = pid then Some (t, sub_task_id s) else None) xs"
    if "\<forall>(t, i)\<in>set (List.map_filter (\<lambda>s. case sub_token s of None \<Rightarrow> None | Some t \<Rightarrow> if sub_participation_id s = pid then Some (t, sub_task_id s) else None) xs). t \<le> now" for xs
    using that by (induction xs) (auto simp: List.map_filter_simps split: option.splits if_splits)
  from this[OF assms[unfolded played_tokens_def]] show ?thesis unfolding token_timestamps_def played_tokens_def by (simp only:)
qed

lemma map_sort_key: "map f (sort_key f xs) = sort (map f xs)"
  by (rule properties_for_sort[symmetric]) (simp_all only: mset_map mset_sort sorted_sort_key)

lemma histories_sorted:
  assumes "\<forall>(t, i)\<in>set (played_tokens d pid). t \<le> now"
  shows "contest_history d pid now = sort (map fst (played_tokens d pid))"
    "task_history d pid tid now = sort (map fst (filter (\<lambda>(_, i). i = tid) (played_tokens d pid)))"
  by (simp_all add: contest_history_def task_history_def token_timestamps_all[OF assms] map_sort_key filter_sort)

lemma map_filter_put_row:
  assumes "distinct (map key xs)" "x \<in> set xs" "key y = key x" "f x = None" "f y = Some z"
  shows "mset (List.map_filter f (put_row key y xs)) = add_mset z (mset (List.map_filter f xs))"
  using assms
proof (induction xs)
  case (Cons a xs)
  show ?case
  proof (cases "a = x")
    case False
    then have "key a \<noteq> key x" using Cons.prems by (auto simp: image_iff)
    then show ?thesis
      using Cons False by (auto simp: List.map_filter_simps split: option.splits)
  qed (use Cons.prems in \<open>simp add: List.map_filter_simps\<close>)
qed simp

lemma sort_snoc:
  assumes "mset xs = add_mset t (mset ys)" "\<forall>y\<in>set ys. y \<le> t"
  shows "sort xs = sort ys @ [t]"
  by (rule properties_for_sort) (use assms in \<open>simp_all add: sorted_append\<close>)

lemma played_after_token:
  assumes "distinct (map sub_id (db_submissions d))" "s \<in> set (db_submissions d)" "sub_participation_id s = pid" "sub_token s = None"
    and d': "d' = d\<lparr>db_submissions := put_row sub_id (s\<lparr>sub_token := Some t\<rparr>) (db_submissions d)\<rparr>"
  shows "mset (played_tokens d' pid) = add_mset (t, sub_task_id s) (mset (played_tokens d pid))"
  unfolding played_tokens_def d'
  by (simp, rule map_filter_put_row[OF assms(1,2)]) (simp_all add: assms(3,4))

section \<open>One level of limits\<close>

definition conf_ok :: "token_config \<Rightarrow> bool" where
  "conf_ok c \<longleftrightarrow> 0 \<le> tk_gen_initial c \<and> 0 \<le> tk_gen_number c \<and> 0 < tk_gen_interval c \<and>
     (\<forall>m. tk_gen_max c = Some m \<longrightarrow> 0 < m \<and> tk_gen_initial c \<le> m) \<and> (\<forall>m. tk_max_number c = Some m \<longrightarrow> 0 < m) \<and>
     0 \<le> tk_min_interval c"

definition gen_periods :: "token_config \<Rightarrow> datetime \<Rightarrow> datetime \<Rightarrow> int" where
  "gen_periods c start t = (t - start) div tk_gen_interval c"

definition last_played :: "datetime \<Rightarrow> datetime list \<Rightarrow> datetime" where
  "last_played start h = (if h = [] then start else last h)"

lemma generate_tokens_eq:
  "conf_ok c \<Longrightarrow> generate_tokens c start x y = Inr (tk_gen_number c * (gen_periods c start y - gen_periods c start x))"
  by (simp add: conf_ok_def generate_tokens_def periods_def gen_periods_def)

lemma gen_periods_mono: "conf_ok c \<Longrightarrow> x \<le> y \<Longrightarrow> gen_periods c start x \<le> gen_periods c start y"
  by (simp add: conf_ok_def gen_periods_def zdiv_mono1)

lemma generated_nonneg:
  "conf_ok c \<Longrightarrow> x \<le> y \<Longrightarrow> 0 \<le> tk_gen_number c * (gen_periods c start y - gen_periods c start x)"
  using gen_periods_mono[of c x y start] by (simp add: conf_ok_def)

lemma simulate_snoc:
  "simulate c start (h @ [t]) prev a =
     res_bind (simulate c start h prev a) (\<lambda>(a', p).
     res_bind (py_assert (p \<le> t)) (\<lambda>_.
     res_bind (generate_tokens c start p t) (\<lambda>g. Inr (cap (tk_gen_max c) (a' + g) - 1, t))))"
proof (induction h arbitrary: prev a)
  case (Cons x h)
  then show ?case
    by (cases "prev \<le> x"; cases "generate_tokens c start prev x") simp_all
qed simp

text \<open>What holds of the history of a level with finitely many tokens, with \<open>a\<close> the tokens left
  after the last one played.\<close>

definition level_ok :: "token_config \<Rightarrow> datetime \<Rightarrow> datetime list \<Rightarrow> int \<Rightarrow> bool" where
  "level_ok c start h a \<longleftrightarrow>
     simulate c start h start (tk_gen_initial c) = Inr (a, last_played start h) \<and> 0 \<le> a \<and>
     a + int (length h) \<le> tk_gen_initial c + tk_gen_number c * gen_periods c start (last_played start h) \<and>
     (\<forall>m. tk_max_number c = Some m \<longrightarrow> int (length h) \<le> m) \<and>
     sorted_wrt (\<lambda>x y. x + tk_min_interval c \<le> y) h \<and> start \<le> last_played start h"

lemma level_ok_Nil: "conf_ok c \<Longrightarrow> level_ok c start [] (tk_gen_initial c)"
  by (auto simp: conf_ok_def level_ok_def last_played_def gen_periods_def)

text \<open>The tokens at a time after the last one played, before the limit on the total.\<close>

definition avail_at :: "token_config \<Rightarrow> datetime \<Rightarrow> datetime list \<Rightarrow> int \<Rightarrow> datetime \<Rightarrow> int" where
  "avail_at c start h a t =
     cap (tk_gen_max c) (a + tk_gen_number c * (gen_periods c start t - gen_periods c start (last_played start h)))"

lemma tokens_available1_finite:
  assumes "conf_ok c" "tk_mode c = TOKEN_MODE_FINITE" "level_ok c start h a" "last_played start h \<le> t"
  shows "tokens_available1 c (Some start) h t =
    Inr (let x = avail_at c start h a t;
             g = (if 0 < tk_gen_number c \<and> (case tk_gen_max c of None \<Rightarrow> True | Some m \<Rightarrow> x < m)
                  then Some (start + tk_gen_interval c * (gen_periods c start t + 1)) else None);
             (n, g') = limit_total (tk_max_number c) (length h) x g
         in (n, g', expiration_of c start h t n g'))"
  using assms
  by (simp add: tokens_available1_def level_ok_def generate_tokens_eq avail_at_def Let_def next_gen_def periods_def conf_ok_def
      gen_periods_def split: prod.split)

lemma avail_at_nonneg:
  assumes "conf_ok c" "level_ok c start h a" "last_played start h \<le> t"
  shows "0 \<le> avail_at c start h a t"
proof -
  have "0 \<le> a" using assms(2) by (simp add: level_ok_def)
  then show ?thesis
    using generated_nonneg[OF assms(1,3), of start] assms(1) by (auto simp: avail_at_def cap_def conf_ok_def split: option.split)
qed

lemma limit_total_nonneg:
  assumes "level_ok c start h a" "0 \<le> x" "limit_total (tk_max_number c) (length h) x g = (n, g')"
  shows "0 \<le> n" "n \<noteq> 0 \<Longrightarrow> 0 < x" "n \<noteq> 0 \<Longrightarrow> tk_max_number c = Some m \<Longrightarrow> int (length h) < m"
  using assms by (auto simp: limit_total_def level_ok_def split: option.splits if_splits)

lemma play_token:
  assumes "conf_ok c" "tk_mode c = TOKEN_MODE_FINITE" "level_ok c start h a" "last_played start h \<le> t"
    and "tokens_available1 c (Some start) h t = Inr (n, g, None)" "n \<noteq> 0"
  shows "level_ok c start (h @ [t]) (avail_at c start h a t - 1)"
proof -
  let ?x = "avail_at c start h a t"
  obtain g0 where l: "limit_total (tk_max_number c) (length h) ?x g0 = (n, g)" "expiration_of c start h t n g = None"
    using assms(5) unfolding tokens_available1_finite[OF assms(1-4)] by (auto simp: Let_def split: prod.splits)
  note n = limit_total_nonneg[OF assms(3) avail_at_nonneg[OF assms(1,3,4)] l(1)]
  have exp: "h \<noteq> [] \<Longrightarrow> last h + tk_min_interval c \<le> t"
    using l(2) assms(6) by (auto simp: expiration_of_def Let_def split: if_splits)
  have lev: "simulate c start h start (tk_gen_initial c) = Inr (a, last_played start h)"
    "a + int (length h) \<le> tk_gen_initial c + tk_gen_number c * gen_periods c start (last_played start h)"
    "sorted_wrt (\<lambda>x y. x + tk_min_interval c \<le> y) h" "start \<le> last_played start h"
    using assms(3) by (simp_all add: level_ok_def)
  have "simulate c start (h @ [t]) start (tk_gen_initial c) = Inr (?x - 1, t)"
    using lev(1) assms(1,4) by (simp add: simulate_snoc generate_tokens_eq avail_at_def)
  moreover have "?x \<le> a + tk_gen_number c * (gen_periods c start t - gen_periods c start (last_played start h))"
    by (simp add: avail_at_def cap_def split: option.split)
  then have "?x - 1 + int (length (h @ [t])) \<le> tk_gen_initial c + tk_gen_number c * gen_periods c start t"
    using lev(2) by (simp add: algebra_simps)
  moreover have "x + tk_min_interval c \<le> t" if "x \<in> set h" for x
  proof -
    have "h \<noteq> []" using that by auto
    then have "x = last h \<or> x + tk_min_interval c \<le> last h"
      using that lev(3) by (cases h rule: rev_cases) (auto simp: sorted_wrt_append)
    then show ?thesis using exp[OF \<open>h \<noteq> []\<close>] assms(1) by (auto simp: conf_ok_def)
  qed
  ultimately show ?thesis
    using n assms(4,6) lev(3,4) by (auto simp: level_ok_def last_played_def sorted_wrt_append)
qed

section \<open>Accepted tokens\<close>

definition level_kept :: "token_config \<Rightarrow> datetime \<Rightarrow> datetime list \<Rightarrow> bool" where
  "level_kept c start h \<longleftrightarrow>
     (case tk_mode c of
        TOKEN_MODE_DISABLED \<Rightarrow> h = []
      | TOKEN_MODE_INFINITE \<Rightarrow> True
      | TOKEN_MODE_FINITE \<Rightarrow> \<exists>a. level_ok c start h a)"

lemma level_kept_info:
  assumes "conf_ok c" "level_kept c start h" "last_played start h \<le> t" "tokens_available1 c (Some start) h t = Inr (n, g, e)"
  shows "n = -1 \<longleftrightarrow> tk_mode c = TOKEN_MODE_INFINITE" "n \<noteq> -1 \<Longrightarrow> 0 \<le> n"
    "n \<noteq> 0 \<Longrightarrow> e = None \<Longrightarrow> level_kept c start (h @ [t])"
proof -
  have "(n = -1 \<longleftrightarrow> tk_mode c = TOKEN_MODE_INFINITE) \<and> (n \<noteq> -1 \<longrightarrow> 0 \<le> n) \<and> (n \<noteq> 0 \<and> e = None \<longrightarrow> level_kept c start (h @ [t]))"
  proof (cases "tk_mode c")
    case TOKEN_MODE_FINITE
    then obtain a where a: "level_ok c start h a" using assms(2) by (auto simp: level_kept_def)
    obtain g0 where "limit_total (tk_max_number c) (length h) (avail_at c start h a t) g0 = (n, g)"
      using assms(4) unfolding tokens_available1_finite[OF assms(1) TOKEN_MODE_FINITE a assms(3)] by (auto simp: Let_def split: prod.splits)
    then have "0 \<le> n" using limit_total_nonneg(1)[OF a avail_at_nonneg[OF assms(1) a assms(3)]] by blast
    then show ?thesis
      using play_token[OF assms(1) TOKEN_MODE_FINITE a assms(3)] assms(4) TOKEN_MODE_FINITE by (auto simp: level_kept_def)
  qed (use assms(4) in \<open>auto simp: tokens_available1_def level_kept_def\<close>)
  then show "n = -1 \<longleftrightarrow> tk_mode c = TOKEN_MODE_INFINITE" "n \<noteq> -1 \<Longrightarrow> 0 \<le> n"
    "n \<noteq> 0 \<Longrightarrow> e = None \<Longrightarrow> level_kept c start (h @ [t])" by blast+
qed

lemma merge_accepts:
  assumes "merge_tokens (nc, gc, ec) (nt, gt, et) = (n, g, None)" "n \<noteq> 0" "nc \<noteq> -1 \<Longrightarrow> 0 \<le> nc" "nt \<noteq> -1 \<Longrightarrow> 0 \<le> nt"
  shows "nc \<noteq> 0" "nt \<noteq> 0" "ec = None" "et = None"
  using assms by (auto simp: merge_tokens_def merge_expiration_def Let_def split: if_splits option.splits)

text \<open>The life of a participation: tokens are requested at times that do not decrease, on submissions
  of the participation; submissions come in without tokens.\<close>

inductive token_run :: "token_config \<Rightarrow> (int \<Rightarrow> token_config) \<Rightarrow> token_times \<Rightarrow> datetime \<Rightarrow> int \<Rightarrow> db \<Rightarrow> datetime \<Rightarrow> bool"
  for cc tc tms start pid
where
  run_start: "tokens_start tms = Some start \<Longrightarrow> distinct (map sub_id (db_submissions d)) \<Longrightarrow> played_tokens d pid = [] \<Longrightarrow> start \<le> now \<Longrightarrow> token_run cc tc tms start pid d now"
| run_play: "token_run cc tc tms start pid d now \<Longrightarrow> now \<le> t \<Longrightarrow> s \<in> set (db_submissions d) \<Longrightarrow> sub_participation_id s = pid \<Longrightarrow>
    accept_token cc (tc (sub_task_id s)) tms s t d = Inr d' \<Longrightarrow> token_run cc tc tms start pid d' t"
| run_submit: "token_run cc tc tms start pid d now \<Longrightarrow> now \<le> t \<Longrightarrow> sub_token s = None \<Longrightarrow> sub_id s \<notin> sub_id ` set (db_submissions d) \<Longrightarrow>
    token_run cc tc tms start pid (d\<lparr>db_submissions := db_submissions d @ [s]\<rparr>) t"

definition tokens_kept :: "token_config \<Rightarrow> (int \<Rightarrow> token_config) \<Rightarrow> datetime \<Rightarrow> int \<Rightarrow> db \<Rightarrow> datetime \<Rightarrow> bool" where
  "tokens_kept cc tc start pid d now \<longleftrightarrow>
     distinct (map sub_id (db_submissions d)) \<and> start \<le> now \<and> (\<forall>(t, i)\<in>set (played_tokens d pid). t \<le> now) \<and>
     level_kept cc start (contest_history d pid now) \<and> (\<forall>tid. level_kept (tc tid) start (task_history d pid tid now))"

lemma last_played_le:
  assumes "start \<le> now" "\<forall>(t, i)\<in>set (played_tokens d pid). t \<le> now"
  shows "last_played start (contest_history d pid now) \<le> now" "last_played start (task_history d pid tid now) \<le> now"
proof -
  have "last xs \<le> now" if "xs \<noteq> []" "set xs \<subseteq> fst ` set (played_tokens d pid)" for xs
    using that last_in_set[of xs] assms(2) by fastforce
  then show "last_played start (contest_history d pid now) \<le> now" "last_played start (task_history d pid tid now) \<le> now"
    using assms(1) by (force simp: last_played_def histories_sorted[OF assms(2)])+
qed

lemma later_histories:
  assumes "\<forall>(t, i)\<in>set (played_tokens d pid). t \<le> now" "now \<le> t"
  shows "contest_history d pid t = contest_history d pid now" "task_history d pid tid t = task_history d pid tid now"
    "\<forall>(t', i)\<in>set (played_tokens d pid). t' \<le> t"
proof -
  show 1: "\<forall>(t', i)\<in>set (played_tokens d pid). t' \<le> t" using assms by fastforce
  show "contest_history d pid t = contest_history d pid now" "task_history d pid tid t = task_history d pid tid now"
    by (simp_all add: histories_sorted[OF assms(1)] histories_sorted[OF 1])
qed

lemma tokens_kept_later:
  assumes "tokens_kept cc tc start pid d now" "now \<le> t"
  shows "tokens_kept cc tc start pid d t"
proof -
  have "\<forall>(t, i)\<in>set (played_tokens d pid). t \<le> now" using assms(1) by (simp add: tokens_kept_def)
  note l = later_histories[OF this assms(2)]
  show ?thesis using assms l(3) by (simp add: tokens_kept_def l(1,2))
qed

lemma accept_token_keeps:
  assumes start: "tokens_start tms = Some start"
    and conf: "conf_ok cc" "\<And>i. conf_ok (tc i)" and kept: "tokens_kept cc tc start pid d t"
    and s: "s \<in> set (db_submissions d)" "sub_participation_id s = pid"
    and acc: "accept_token cc (tc (sub_task_id s)) tms s t d = Inr d'"
  shows "tokens_kept cc tc start pid d' t"
proof -
  let ?hc = "contest_history d pid t" and ?ht = "task_history d pid (sub_task_id s) t"
  have k: "distinct (map sub_id (db_submissions d))" "start \<le> t" "\<forall>(t', i)\<in>set (played_tokens d pid). t' \<le> t"
      "level_kept cc start ?hc" "\<And>i. level_kept (tc i) start (task_history d pid i t)"
    using kept by (auto simp: tokens_kept_def)
  obtain nc gc ec nt gt et n g where a: "tokens_available1 cc (Some start) ?hc t = Inr (nc, gc, ec)"
      "tokens_available1 (tc (sub_task_id s)) (Some start) ?ht t = Inr (nt, gt, et)"
      "merge_tokens (nc, gc, ec) (nt, gt, et) = (n, g, None)" "n \<noteq> 0" "sub_token s = None"
      and d': "d' = d\<lparr>db_submissions := put_row sub_id (s\<lparr>sub_token := Some t\<rparr>) (db_submissions d)\<rparr>"
    using acc s(2) unfolding accept_token_def tokens_available_def
    by (auto simp: res_simps start Let_def split: sum.splits prod.splits if_splits)
  note lp = last_played_le[OF k(2,3)]
  note c = level_kept_info[OF conf(1) k(4) lp(1) a(1)]
  note t = level_kept_info[OF conf(2) k(5) lp(2) a(2)]
  note m = merge_accepts[OF a(3,4) c(2) t(2)]
  have played: "mset (played_tokens d' pid) = add_mset (t, sub_task_id s) (mset (played_tokens d pid))"
    by (rule played_after_token[OF k(1) s a(5) d'])
  then have "set (played_tokens d' pid) = insert (t, sub_task_id s) (set (played_tokens d pid))"
    by (metis set_mset_add_mset_insert set_mset_mset)
  then have le': "\<forall>(t', i)\<in>set (played_tokens d' pid). t' \<le> t" using k(3) by auto
  have hc': "contest_history d' pid t = ?hc @ [t]"
    unfolding histories_sorted(1)[OF le'] histories_sorted(1)[OF k(3)]
    by (rule sort_snoc) (use k(3) in \<open>auto simp: played\<close>)
  have ht': "task_history d' pid i t = (if i = sub_task_id s then ?ht @ [t] else task_history d pid i t)" for i
  proof -
    have "mset (map fst (filter (\<lambda>(_, j). j = i) (played_tokens d' pid))) =
        (if i = sub_task_id s then add_mset t else id) (mset (map fst (filter (\<lambda>(_, j). j = i) (played_tokens d pid))))"
      by (simp add: mset_filter played)
    then show ?thesis
      unfolding histories_sorted(2)[OF le'] histories_sorted(2)[OF k(3)]
      using k(3) by (fastforce intro!: sort_snoc intro: properties_for_sort)
  qed
  have "distinct (map sub_id (db_submissions d'))" using distinct_put_row[OF k(1)] by (simp add: d')
  then show ?thesis
    using k(2) le' c(3)[OF m(1,3)] t(3)[OF m(2,4)] k(5) by (auto simp: tokens_kept_def hc' ht')
qed

lemma token_run_start: "token_run cc tc tms start pid d now \<Longrightarrow> tokens_start tms = Some start"
  by (induction rule: token_run.induct)

lemma token_run_kept:
  assumes "conf_ok cc" "\<And>i. conf_ok (tc i)" "token_run cc tc tms start pid d now"
  shows "tokens_kept cc tc start pid d now"
  using assms(3)
proof induction
  case (run_start d now)
  have "level_kept c start []" if "conf_ok c" for c
    using level_ok_Nil[OF that] by (auto simp: level_kept_def split: token_mode.split)
  then show ?case using run_start assms(1,2) by (simp add: tokens_kept_def histories_sorted)
next
  case (run_play d now t s d')
  have "tokens_kept cc tc start pid d t" using tokens_kept_later run_play by blast
  then show ?case by (rule accept_token_keeps[where tc = tc, OF token_run_start[OF run_play(1)] assms(1,2) _ run_play(3-5)])
next
  case (run_submit d now t s)
  have "played_tokens (d\<lparr>db_submissions := db_submissions d @ [s]\<rparr>) pid = played_tokens d pid"
    using run_submit(3) by (simp add: played_tokens_def map_filter_def)
  moreover have "tokens_kept cc tc start pid d t" using tokens_kept_later run_submit by blast
  moreover then have le: "\<forall>(t', i)\<in>set (played_tokens d pid). t' \<le> t" by (simp add: tokens_kept_def)
  ultimately show ?case
    using run_submit(4) histories_sorted[OF le] by (simp add: tokens_kept_def histories_sorted)
qed

text \<open>What the limits of a level demand of the tokens played until now.\<close>

definition within_limits :: "token_config \<Rightarrow> datetime \<Rightarrow> datetime list \<Rightarrow> datetime \<Rightarrow> bool" where
  "within_limits c start h now \<longleftrightarrow>
     (case tk_mode c of
        TOKEN_MODE_DISABLED \<Rightarrow> h = []
      | TOKEN_MODE_INFINITE \<Rightarrow> True
      | TOKEN_MODE_FINITE \<Rightarrow>
          (case tk_max_number c of None \<Rightarrow> True | Some m \<Rightarrow> int (length h) \<le> m) \<and>
          sorted_wrt (\<lambda>x y. x + tk_min_interval c \<le> y) h \<and>
          int (length h) \<le> tk_gen_initial c + tk_gen_number c * ((now - start) div tk_gen_interval c))"

lemma level_kept_within:
  assumes "conf_ok c" "level_kept c start h" "last_played start h \<le> now"
  shows "within_limits c start h now"
proof (cases "tk_mode c")
  case TOKEN_MODE_FINITE
  then obtain a where a: "level_ok c start h a" using assms(2) by (auto simp: level_kept_def)
  then have "int (length h) \<le> tk_gen_initial c + tk_gen_number c * gen_periods c start (last_played start h)"
    by (simp add: level_ok_def)
  also have "\<dots> \<le> tk_gen_initial c + tk_gen_number c * gen_periods c start now"
    using generated_nonneg[OF assms(1,3), of start] by (simp add: algebra_simps)
  finally show ?thesis
    using a TOKEN_MODE_FINITE by (simp add: within_limits_def level_ok_def gen_periods_def split: option.split)
qed (use assms(2) in \<open>simp_all add: within_limits_def level_kept_def\<close>)

text \<open>(C22) However a contestant requests tokens, the accepted ones respect the limits of the contest
  and of every task: none at all where tokens are disabled; otherwise at most the maximum
  number, never closer together than the minimum interval, and never more than the initial
  number plus the ones generated in the periods passed.\<close>

theorem accepted_tokens_respect_limits:
  assumes "conf_ok cc" "\<forall>i. conf_ok (tc i)" "token_run cc tc tms start pid d now"
  shows "within_limits cc start (contest_history d pid now) now \<and> (\<forall>tid. within_limits (tc tid) start (task_history d pid tid now) now)"
proof -
  have tc: "\<And>i. conf_ok (tc i)" using assms(2) by blast
  have k: "tokens_kept cc tc start pid d now" by (rule token_run_kept[OF assms(1) tc assms(3)])
  then have "start \<le> now" "\<forall>(t, i)\<in>set (played_tokens d pid). t \<le> now" by (simp_all add: tokens_kept_def)
  note lp = last_played_le[OF this]
  show ?thesis
    using k level_kept_within[OF assms(1) _ lp(1)] level_kept_within[OF tc _ lp(2)] by (simp add: tokens_kept_def)
qed

section \<open>The next token\<close>

text \<open>What the number of tokens \<open>n\<close> at \<open>t\<close> and the time \<open>g\<close> of the next one say about the number \<open>n'\<close> at a later
  time \<open>t'\<close>, if no token is played in between.\<close>

definition foretells :: "datetime \<Rightarrow> int \<Rightarrow> datetime option \<Rightarrow> datetime \<Rightarrow> int \<Rightarrow> bool" where
  "foretells t n g t' n' \<longleftrightarrow> n \<le> n' \<and>
     (case g of None \<Rightarrow> n' = n | Some x \<Rightarrow> t < x \<and> (t' < x \<longrightarrow> n' = n) \<and> (x \<le> t' \<longrightarrow> n < n'))"

lemma next_period:
  assumes "conf_ok c" "t \<le> t'"
  shows "t < start + tk_gen_interval c * (gen_periods c start t + 1)"
    "t' < start + tk_gen_interval c * (gen_periods c start t + 1) \<Longrightarrow> gen_periods c start t' = gen_periods c start t"
    "start + tk_gen_interval c * (gen_periods c start t + 1) \<le> t' \<Longrightarrow> gen_periods c start t + 1 \<le> gen_periods c start t'"
proof -
  let ?i = "tk_gen_interval c"
  have i: "0 < ?i" using assms(1) by (simp add: conf_ok_def)
  have b: "?i * ((x - start) div ?i) \<le> x - start" "x - start < ?i * ((x - start) div ?i + 1)" for x
    using pos_mod_sign[OF i, of "x - start"] pos_mod_bound[OF i, of "x - start"] mult_div_mod_eq[of ?i "x - start"]
    by (simp_all only: distrib_left mult_1_right)
  show "t < start + ?i * (gen_periods c start t + 1)" using b(2)[of t] by (simp add: gen_periods_def algebra_simps)
  have m: "gen_periods c start t \<le> gen_periods c start t'" by (rule gen_periods_mono[OF assms])
  { assume "t' < start + ?i * (gen_periods c start t + 1)"
    then have "?i * gen_periods c start t' < ?i * (gen_periods c start t + 1)"
      using b(1)[of t'] by (simp add: gen_periods_def)
    then show "gen_periods c start t' = gen_periods c start t" using i m by simp }
  { assume "start + ?i * (gen_periods c start t + 1) \<le> t'"
    then have "?i * (gen_periods c start t + 1) < ?i * (gen_periods c start t' + 1)"
      using b(2)[of t'] by (simp add: gen_periods_def)
    then show "gen_periods c start t + 1 \<le> gen_periods c start t'" using i by simp }
qed

lemma avail_at_later:
  assumes "conf_ok c" "level_ok c start h a" "last_played start h \<le> t" "t \<le> t'"
  shows "avail_at c start h a t \<le> avail_at c start h a t'"
    "gen_periods c start t' = gen_periods c start t \<or> tk_gen_number c = 0 \<Longrightarrow> avail_at c start h a t' = avail_at c start h a t"
    "gen_periods c start t + 1 \<le> gen_periods c start t' \<Longrightarrow> 0 < tk_gen_number c \<Longrightarrow>
      (case tk_gen_max c of None \<Rightarrow> True | Some m \<Rightarrow> avail_at c start h a t < m) \<Longrightarrow> avail_at c start h a t < avail_at c start h a t'"
proof -
  let ?x = "\<lambda>t. a + tk_gen_number c * (gen_periods c start t - gen_periods c start (last_played start h))"
  have n: "0 \<le> tk_gen_number c" using assms(1) by (simp add: conf_ok_def)
  have d: "?x t' = ?x t + tk_gen_number c * (gen_periods c start t' - gen_periods c start t)" by (simp add: algebra_simps)
  have "?x t \<le> ?x t'" using generated_nonneg[OF assms(1,4), of start] d by linarith
  then show "avail_at c start h a t \<le> avail_at c start h a t'" by (auto simp: avail_at_def cap_def split: option.split)
  show "gen_periods c start t' = gen_periods c start t \<or> tk_gen_number c = 0 \<Longrightarrow> avail_at c start h a t' = avail_at c start h a t"
    by (auto simp: avail_at_def)
  assume "gen_periods c start t + 1 \<le> gen_periods c start t'" and g: "0 < tk_gen_number c"
    and m: "case tk_gen_max c of None \<Rightarrow> True | Some m \<Rightarrow> avail_at c start h a t < m"
  then have "0 < tk_gen_number c * (gen_periods c start t' - gen_periods c start t)" by simp
  then have "?x t < ?x t'" using d by linarith
  then show "avail_at c start h a t < avail_at c start h a t'" using m by (auto simp: avail_at_def cap_def split: option.splits)
qed

lemma level_next:
  assumes c: "conf_ok c" "level_kept c start h" and t: "last_played start h \<le> t" "t \<le> t'"
    and info: "tokens_available1 c (Some start) h t = Inr (n, g, e)" "tokens_available1 c (Some start) h t' = Inr (n', g', e')"
  shows "foretells t n g t' n'"
proof (cases "tk_mode c")
  case TOKEN_MODE_FINITE
  then obtain a where a: "level_ok c start h a" using c(2) by (auto simp: level_kept_def)
  let ?x = "avail_at c start h a"
  have t'': "last_played start h \<le> t'" using t by simp
  let ?G = "if 0 < tk_gen_number c \<and> (case tk_gen_max c of None \<Rightarrow> True | Some m \<Rightarrow> ?x t < m)
     then Some (start + tk_gen_interval c * (gen_periods c start t + 1)) else None"
  have l: "limit_total (tk_max_number c) (length h) (?x t) ?G = (n, g)"
    using info(1) unfolding tokens_available1_finite[OF c(1) TOKEN_MODE_FINITE a t(1)] by (auto simp: Let_def split: prod.splits)
  obtain g0 where l': "limit_total (tk_max_number c) (length h) (?x t') g0 = (n', g')"
    using info(2) unfolding tokens_available1_finite[OF c(1) TOKEN_MODE_FINITE a t''] by (auto simp: Let_def split: prod.splits)
  note later = avail_at_later[OF c(1) a t] and per = next_period[OF c(1) t(2), of start]
  have cap: "?x t' = m" if "tk_gen_max c = Some m" "\<not> ?x t < m" for m
    using that later(1) by (auto simp: avail_at_def cap_def min_def split: if_splits)
  have none: "?x t' = ?x t" if G: "?G = None"
  proof (cases "0 < tk_gen_number c")
    case True
    then obtain m where m: "tk_gen_max c = Some m" "\<not> ?x t < m" using G by (auto split: if_splits option.splits)
    then have "?x t \<le> m" by (simp add: avail_at_def cap_def)
    then show ?thesis using m cap[OF m] by simp
  next
    case False
    then show ?thesis using later(2) c(1) by (simp add: conf_ok_def)
  qed
  have some: "t < x \<and> (t' < x \<longrightarrow> ?x t' = ?x t) \<and> (x \<le> t' \<longrightarrow> ?x t < ?x t')" if "?G = Some x" for x
    using that later(2,3) per by (auto split: if_splits)
  show ?thesis
    using l l' later(1) none some by (auto simp: foretells_def limit_total_def split: option.splits if_splits)
qed (use info in \<open>auto simp: tokens_available1_def foretells_def\<close>)

lemma merge_next:
  assumes "foretells t nc gc t' nc'" "foretells t nt gt t' nt'" "nc = -1 \<longleftrightarrow> nc' = -1" "nt = -1 \<longleftrightarrow> nt' = -1"
    and "nc \<noteq> -1 \<Longrightarrow> 0 \<le> nc" "nt \<noteq> -1 \<Longrightarrow> 0 \<le> nt"
    and "merge_tokens (nc, gc, ec) (nt, gt, et) = (n, g, e)" "merge_tokens (nc', gc', ec') (nt', gt', et') = (n', g', e')"
  shows "foretells t n g t' n'"
proof -
  consider "nc = -1" "nt = -1" | "nc = -1" "nt \<noteq> -1" | "nc \<noteq> -1" "nt = -1" | "nc \<noteq> -1" "nt \<noteq> -1" by blast
  then show ?thesis
  proof cases
    case 4
    then have n: "n = min nc nt" "n' = min nc' nt'" "nc' \<noteq> -1" "nt' \<noteq> -1"
      "g = (if nc < nt then gc else if nt < nc then gt else case (gc, gt) of (Some x, Some y) \<Rightarrow> Some (max x y) | _ \<Rightarrow> None)"
      using assms(3,4,7,8) by (auto simp: merge_tokens_def Let_def split: if_splits)
    show ?thesis
      using assms(1,2) unfolding n(1,2,5) by (auto simp: foretells_def min_def max_def split: option.splits if_splits)
  qed (use assms in \<open>auto simp: merge_tokens_def Let_def foretells_def split: if_splits\<close>)
qed

text \<open>What \<open>tokens_available\<close> says about the next token is right, for contest and task limits taken together:
  as long as no token is played, the number of tokens stays what it is until the time it
  returns and is greater from then on; when it returns no time, the number stays the same for
  ever. Nothing is raised.\<close>

theorem next_token_is_first_increase:
  assumes "conf_ok cc" "\<forall>i. conf_ok (tc i)" "token_run cc tc tms start pid d now" "now \<le> t" "t \<le> t'"
  shows "\<exists>n g e n' g' e'. tokens_available cc (tc tid) tms d pid tid t = Inr (n, g, e) \<and>
    tokens_available cc (tc tid) tms d pid tid t' = Inr (n', g', e') \<and> foretells t n g t' n'"
proof -
  have tc: "conf_ok (tc i)" for i using assms(2) by blast
  have "tokens_kept cc tc start pid d t"
    using tokens_kept_later[OF token_run_kept[OF assms(1) tc assms(3)] assms(4)] .
  then have k: "start \<le> t" "\<forall>(t', i)\<in>set (played_tokens d pid). t' \<le> t" "level_kept cc start (contest_history d pid t)"
      "level_kept (tc tid) start (task_history d pid tid t)" by (simp_all add: tokens_kept_def)
  note h = later_histories[OF k(2) assms(5)] and lp = last_played_le[OF k(1,2)]
  have total: "\<exists>n g e. tokens_available1 c (Some start) hs x = Inr (n, g, e)"
    if "conf_ok c" "level_kept c start hs" "last_played start hs \<le> x" for c hs x
    using that tokens_available1_finite[OF that(1) _ _ that(3)]
    by (cases "tk_mode c") (auto simp: tokens_available1_def[of c] level_kept_def Let_def split: prod.splits)
  have lp': "last_played start (contest_history d pid t) \<le> t'" "last_played start (task_history d pid tid t) \<le> t'"
    using lp(1) lp(2)[of tid] assms(5) by simp_all
  obtain nc gc ec nc' gc' ec' where c: "tokens_available1 cc (Some start) (contest_history d pid t) t = Inr (nc, gc, ec)"
      "tokens_available1 cc (Some start) (contest_history d pid t) t' = Inr (nc', gc', ec')"
    using total[OF assms(1) k(3) lp(1)] total[OF assms(1) k(3) lp'(1)] by blast
  obtain nt gt et nt' gt' et' where w: "tokens_available1 (tc tid) (Some start) (task_history d pid tid t) t = Inr (nt, gt, et)"
      "tokens_available1 (tc tid) (Some start) (task_history d pid tid t) t' = Inr (nt', gt', et')"
    using total[OF tc k(4) lp(2)] total[OF tc k(4) lp'(2)] by blast
  obtain n g e n' g' e' where m: "merge_tokens (nc, gc, ec) (nt, gt, et) = (n, g, e)" "merge_tokens (nc', gc', ec') (nt', gt', et') = (n', g', e')"
    by (metis prod_cases3)
  note ic = level_kept_info[OF assms(1) k(3) lp(1) c(1)] level_kept_info(1)[OF assms(1) k(3) lp'(1) c(2)]
  note iw = level_kept_info[OF tc k(4) lp(2) w(1)] level_kept_info(1)[OF tc k(4) lp'(2) w(2)]
  have "foretells t n g t' n'"
    by (rule merge_next[OF level_next[OF assms(1) k(3) lp(1) assms(5) c] level_next[OF tc k(4) lp(2) assms(5) w] _ _ ic(2) iw(2) m])
      (simp_all add: ic(1,4) iw(1,4))
  then show ?thesis using c w m by (simp add: tokens_available_def h token_run_start[OF assms(3)])
qed

definition example_tokens :: token_config where
  "example_tokens = \<lparr>tk_mode = TOKEN_MODE_FINITE, tk_gen_initial = 1, tk_gen_number = 1, tk_gen_interval = 60, tk_gen_max = Some 2,
     tk_max_number = Some 3, tk_min_interval = 10\<rparr>"

definition example_token_db :: db where
  "example_token_db = \<lparr>db_contests = [], db_participations = [], db_tasks = [], db_datasets = [], db_submissions = [example_submission],
     db_submission_results = [], db_user_tests = [], db_user_test_results = [], db_matches = [], db_match_results = [], db_batches = [], db_files = []\<rparr>"

lemma example_conf_ok: "conf_ok example_tokens"
  by (simp add: conf_ok_def example_tokens_def)

lemma example_accept:
  "accept_token example_tokens (example_tokens\<lparr>tk_mode := TOKEN_MODE_INFINITE\<rparr>) (None, None, 0) example_submission 30 example_token_db =
     Inr (example_token_db\<lparr>db_submissions := [example_submission\<lparr>sub_token := Some 30\<rparr>]\<rparr>)"
  by code_simp

lemma example_token_run:
  "token_run example_tokens (\<lambda>_. example_tokens\<lparr>tk_mode := TOKEN_MODE_INFINITE\<rparr>) (None, None, 0) 0 3
     (example_token_db\<lparr>db_submissions := [example_submission\<lparr>sub_token := Some 30\<rparr>]\<rparr>) 30"
proof (rule run_play[OF run_start[of "(None, None, 0)" 0 example_token_db 3 0], of 30 example_submission])
  show "accept_token example_tokens (example_tokens\<lparr>tk_mode := TOKEN_MODE_INFINITE\<rparr>) (None, None, 0) example_submission 30 example_token_db =
     Inr (example_token_db\<lparr>db_submissions := [example_submission\<lparr>sub_token := Some 30\<rparr>]\<rparr>)" by (rule example_accept)
qed (simp_all add: tokens_start_def example_token_db_def played_tokens_def example_submission_def List.map_filter_simps)

theorem accepted_tokens_respect_limits_witness:
  "within_limits example_tokens 0
     (contest_history (example_token_db\<lparr>db_submissions := [example_submission\<lparr>sub_token := Some 30\<rparr>]\<rparr>) 3 30) 30"
  using accepted_tokens_respect_limits[OF example_conf_ok _ example_token_run] example_conf_ok by (simp add: conf_ok_def)

theorem next_token_is_first_increase_witness:
  "\<exists>n g e n' g' e'.
     tokens_available example_tokens (example_tokens\<lparr>tk_mode := TOKEN_MODE_INFINITE\<rparr>) (None, None, 0)
       (example_token_db\<lparr>db_submissions := [example_submission\<lparr>sub_token := Some 30\<rparr>]\<rparr>) 3 2 40 = Inr (n, g, e) \<and>
     tokens_available example_tokens (example_tokens\<lparr>tk_mode := TOKEN_MODE_INFINITE\<rparr>) (None, None, 0)
       (example_token_db\<lparr>db_submissions := [example_submission\<lparr>sub_token := Some 30\<rparr>]\<rparr>) 3 2 70 = Inr (n', g', e') \<and> foretells 40 n g 70 n'"
  using next_token_is_first_increase[OF example_conf_ok _ example_token_run, of 40 70 2] example_conf_ok by (simp add: conf_ok_def)

end
