(* ===== verification/Submission_Workflow.thy ===== *)
theory Submission_Workflow
  imports Contest_Db
begin

text \<open>
  What happens when a contestant submits (\<^verbatim>\<open>cms/server/contest/submission/\<close>): the limits on number and
  frequency (\<^verbatim>\<open>check.py\<close>), the matching of the files received to the submission format and a
  language (\<^verbatim>\<open>file_matching.py\<close>), the files taken over from the previous submission (\<^verbatim>\<open>utils.py\<close>), and the whole
  acceptance (\<^verbatim>\<open>workflow.py\<close>). Sets of codenames and of languages are duplicate-free lists. The arguments
  that stand for columns and services: the limits of contest and task, whether the participation
  is unrestricted, \<open>put_file\<close> for the file cacher (\<open>None\<close> when storing raises), and the files
  extracted from the request, \<open>None\<close> for an archive that cannot be opened.
\<close>

section \<open>Limits\<close>

record submission_limits =
  lim_max_number :: "int option"
  lim_min_interval :: "timedelta option"

text \<open>\<open>_filter_submission_query\<close>: \<open>contest_id\<close> and the task are the optional arguments.\<close>

definition filter_submission_query :: "db \<Rightarrow> int \<Rightarrow> int option \<Rightarrow> task option \<Rightarrow> submission list res" where
  "filter_submission_query d pid contest_id t =
     (case t of
        Some t \<Rightarrow>
          if contest_id \<noteq> None \<and> contest_id \<noteq> task_contest_id t then Inl ValueError
          else Inr (filter (\<lambda>s. sub_task_id s = task_id t \<and> sub_participation_id s = pid) (db_submissions d))
      | None \<Rightarrow>
          (case contest_id of
             Some c \<Rightarrow> Inr (filter (\<lambda>s. (\<exists>t\<in>set (db_tasks d). task_id t = sub_task_id s \<and> task_contest_id t = Some c) \<and>
                 sub_participation_id s = pid) (db_submissions d))
           | None \<Rightarrow> Inl ValueError))"

definition get_submission_count :: "db \<Rightarrow> int \<Rightarrow> int option \<Rightarrow> task option \<Rightarrow> int res" where
  "get_submission_count d pid contest_id t =
     res_bind (filter_submission_query d pid contest_id t) (\<lambda>ss. Inr (int (length ss)))"

definition check_max_number :: "db \<Rightarrow> int option \<Rightarrow> int \<Rightarrow> bool \<Rightarrow> int option \<Rightarrow> task option \<Rightarrow> bool res" where
  "check_max_number d max_number pid unrestricted contest_id t =
     (case max_number of
        None \<Rightarrow> Inr True
      | Some m \<Rightarrow>
          if unrestricted then Inr True
          else res_bind (get_submission_count d pid contest_id t) (\<lambda>n. Inr (n < m)))"

definition get_latest_submission :: "db \<Rightarrow> int \<Rightarrow> int option \<Rightarrow> task option \<Rightarrow> submission option res" where
  "get_latest_submission d pid contest_id t =
     res_bind (filter_submission_query d pid contest_id t) (\<lambda>ss. Inr (latest ss))"

definition check_min_interval ::
  "db \<Rightarrow> timedelta option \<Rightarrow> datetime \<Rightarrow> int \<Rightarrow> bool \<Rightarrow> int option \<Rightarrow> task option \<Rightarrow> bool res"
where
  "check_min_interval d min_interval timestamp pid unrestricted contest_id t =
     (case min_interval of
        None \<Rightarrow> Inr True
      | Some m \<Rightarrow>
          if unrestricted then Inr True
          else res_bind (get_latest_submission d pid contest_id t) (\<lambda>s.
            Inr (case s of None \<Rightarrow> True | Some s \<Rightarrow> timestamp - sub_timestamp s \<ge> m)))"

section \<open>Matching files and language\<close>

record language =
  lang_name :: string
  lang_source_extensions :: "string list"

type_synonym received_file = "string option \<times> string option \<times> string"

datatype match_error = InvalidFiles | InvalidFilesOrLanguage | Match_ValueError

definition ends_with :: "string \<Rightarrow> string \<Rightarrow> bool" where
  "ends_with s x \<longleftrightarrow> length x \<le> length s \<and> drop (length s - length x) s = x"

text \<open>\<open>os.path.splitext(p)[0]\<close>: leading dots of the last component do not start an extension.\<close>

definition splitext_root :: "string \<Rightarrow> string" where
  "splitext_root p =
     (let ext = takeWhile (\<lambda>c. c \<noteq> CHR ''.'') (rev p);
          root = rev (drop (Suc (length ext)) (rev p));
          component = takeWhile (\<lambda>c. c \<noteq> CHR ''/'') (rev root)
      in if CHR ''.'' \<in> set p \<and> CHR ''/'' \<notin> set ext \<and> (\<exists>c\<in>set component. c \<noteq> CHR ''.'') then root else p)"

definition match_filename :: "string \<Rightarrow> language option \<Rightarrow> string \<Rightarrow> match_error + bool" where
  "match_filename filename lang element =
     (if \<not> ends_with element ''.%l'' then Inr (filename = element)
      else case lang of
        None \<Rightarrow> Inl Match_ValueError
      | Some l \<Rightarrow> Inr (\<exists>ext\<in>set (lang_source_extensions l). filename = splitext_root element @ ext))"

definition match_extension :: "string option \<Rightarrow> language option \<Rightarrow> string \<Rightarrow> match_error + bool" where
  "match_extension filename lang element =
     (case filename of
        None \<Rightarrow> Inr True
      | Some f \<Rightarrow>
          if \<not> ends_with element ''.%l'' then Inr True
          else case lang of
            None \<Rightarrow> Inl Match_ValueError
          | Some l \<Rightarrow> Inr (\<exists>ext\<in>set (lang_source_extensions l). ends_with f ext))"

text \<open>The elements a file name fits; the first that cannot be decided raises.\<close>

fun candidate_elements :: "string \<Rightarrow> language option \<Rightarrow> string list \<Rightarrow> match_error + string list" where
  "candidate_elements filename lang [] = Inr []"
| "candidate_elements filename lang (element # es) =
     (case match_filename filename lang element of
        Inl e \<Rightarrow> Inl e
      | Inr b \<Rightarrow> (case candidate_elements filename lang es of Inl e \<Rightarrow> Inl e | Inr cs \<Rightarrow> Inr (if b then element # cs else cs)))"

definition match_file :: "string option \<Rightarrow> string option \<Rightarrow> language option \<Rightarrow> string list \<Rightarrow> match_error + string" where
  "match_file codename filename lang submission_format =
     (case (codename, filename) of
        (None, None) \<Rightarrow> Inl InvalidFiles
      | (None, Some f) \<Rightarrow>
          (case candidate_elements f lang submission_format of
             Inl e \<Rightarrow> Inl e | Inr [c] \<Rightarrow> Inr c | Inr _ \<Rightarrow> Inl InvalidFiles)
      | (Some c, _) \<Rightarrow>
          if c \<in> set submission_format then
            (case match_extension filename lang c of
               Inl e \<Rightarrow> Inl e | Inr True \<Rightarrow> Inr c | Inr False \<Rightarrow> Inl InvalidFiles)
          else Inl InvalidFiles)"

fun match_files ::
  "received_file list \<Rightarrow> language option \<Rightarrow> string list \<Rightarrow> (string, string) dict \<Rightarrow> match_error + (string, string) dict"
where
  "match_files [] lang submission_format files = Inr files"
| "match_files ((codename, filename, content) # given_files) lang submission_format files =
     (case match_file codename filename lang submission_format of
        Inl e \<Rightarrow> Inl e
      | Inr c \<Rightarrow> if dict_has files c then Inl InvalidFiles else match_files given_files lang submission_format (dict_set files c content))"

definition get_language :: "language list \<Rightarrow> string \<Rightarrow> language option" where
  "get_language langs name = get_from_id lang_name langs name"

definition candidate_languages ::
  "language list \<Rightarrow> string option \<Rightarrow> string list \<Rightarrow> string list option \<Rightarrow> match_error + language option list"
where
  "candidate_languages langs given_language_name submission_format allowed =
     (if \<not> (\<exists>element\<in>set submission_format. ends_with element ''.%l'') then
        (if given_language_name \<noteq> None then Inl InvalidFilesOrLanguage else Inr [None])
      else
        (case given_language_name of
           Some name \<Rightarrow>
             (case get_language langs name of
                None \<Rightarrow> Inl InvalidFilesOrLanguage
              | Some l \<Rightarrow>
                  if (case allowed of None \<Rightarrow> False | Some ns \<Rightarrow> lang_name l \<notin> set ns) then Inl InvalidFilesOrLanguage
                  else Inr [Some l])
         | None \<Rightarrow>
             Inr (case allowed of
                    None \<Rightarrow> map Some langs
                  | Some ns \<Rightarrow> map Some (remdups (List.map_filter (get_language langs) ns)))))"

text \<open>The loop over the candidates: \<open>InvalidFiles\<close> rules a language out, anything else is raised.\<close>

fun match_languages ::
  "received_file list \<Rightarrow> string list \<Rightarrow> language option list \<Rightarrow> match_error + (language option \<times> (string, string) dict) list"
where
  "match_languages given_files submission_format [] = Inr []"
| "match_languages given_files submission_format (l # ls) =
     (case match_files given_files l submission_format [] of
        Inl InvalidFiles \<Rightarrow> match_languages given_files submission_format ls
      | Inl e \<Rightarrow> Inl e
      | Inr files \<Rightarrow> (case match_languages given_files submission_format ls of Inl e \<Rightarrow> Inl e | Inr ms \<Rightarrow> Inr ((l, files) # ms)))"

definition match_files_and_language ::
  "language list \<Rightarrow> received_file list \<Rightarrow> string option \<Rightarrow> string list \<Rightarrow> string list option \<Rightarrow>
   match_error + (string, string) dict \<times> language option"
where
  "match_files_and_language langs given_files given_language_name submission_format allowed =
     (if given_files = [] then Inl InvalidFilesOrLanguage
      else case candidate_languages langs given_language_name submission_format allowed of
        Inl e \<Rightarrow> Inl e
      | Inr ls \<Rightarrow>
          (case match_languages given_files submission_format ls of
             Inl e \<Rightarrow> Inl e
           | Inr [(l, files)] \<Rightarrow> Inr (files, l)
           | Inr _ \<Rightarrow> Inl InvalidFilesOrLanguage))"

section \<open>Accepting a submission\<close>

definition submission_files :: "db \<Rightarrow> submission \<Rightarrow> (string, digest) dict" where
  "submission_files d s = map (\<lambda>f. (fi_filename f, fi_digest f)) (filter (\<lambda>f. fi_submission_id f = sub_id s) (db_files d))"

definition fetch_file_digests_from_previous_submission ::
  "db \<Rightarrow> int \<Rightarrow> task \<Rightarrow> language option \<Rightarrow> string list \<Rightarrow> (string, digest) dict res"
where
  "fetch_file_digests_from_previous_submission d pid t lang codenames =
     res_bind (get_latest_submission d pid None (Some t)) (\<lambda>s. Inr (case s of
       None \<Rightarrow> []
     | Some s \<Rightarrow>
         if map_option lang_name lang \<noteq> sub_language s then []
         else List.map_filter (\<lambda>c. map_option (Pair c) (map_of (submission_files d s) c)) codenames))"

datatype submission_error =
    Too_Many_Submissions | Too_Many_On_Task | Too_Frequent | Too_Frequent_On_Task
  | Invalid_Archive | Invalid_Format | Too_Big | Storage_Failed | Uncaught_Exception

text \<open>Storing the files one after the other.\<close>

fun store_files :: "(string \<Rightarrow> digest option) \<Rightarrow> (string, string) dict \<Rightarrow> (string, digest) dict \<Rightarrow> (string, digest) dict option" where
  "store_files put_file [] digests = Some digests"
| "store_files put_file ((c, content) # files) digests =
     (case put_file content of None \<Rightarrow> None | Some g \<Rightarrow> store_files put_file files (dict_set digests c g))"

definition add_submission ::
  "int \<Rightarrow> task \<Rightarrow> datetime \<Rightarrow> language option \<Rightarrow> bool \<Rightarrow> (string, digest) dict \<Rightarrow> db \<Rightarrow> db"
where
  "add_submission pid t timestamp lang official digests d =
     (let i = fresh_id (map sub_id (db_submissions d)) in
      d\<lparr>db_submissions := db_submissions d @
          [\<lparr>sub_id = i, sub_participation_id = pid, sub_task_id = task_id t, sub_timestamp = timestamp,
            sub_language = map_option lang_name lang, sub_comment = [], sub_official = official, sub_pvp_batch = None, sub_token = None\<rparr>],
        db_files := db_files d @ map (\<lambda>(c, g). \<lparr>fi_submission_id = i, fi_filename = c, fi_digest = g\<rparr>) digests\<rparr>)"

definition or_uncaught :: "'a res \<Rightarrow> ('a \<Rightarrow> submission_error + 'b) \<Rightarrow> submission_error + 'b" where
  "or_uncaught r f = (case r of Inl e \<Rightarrow> Inl Uncaught_Exception | Inr x \<Rightarrow> f x)"

text \<open>The second half, once the limits have been checked.\<close>

definition accept_files ::
  "language list \<Rightarrow> string list option \<Rightarrow> bool \<Rightarrow> int \<Rightarrow> (string \<Rightarrow> digest option) \<Rightarrow> int \<Rightarrow> task \<Rightarrow> string list \<Rightarrow> datetime \<Rightarrow>
   received_file list option \<Rightarrow> string option \<Rightarrow> bool \<Rightarrow> db \<Rightarrow> submission_error + db"
where
  "accept_files langs allowed allow_partial max_length put_file pid t format timestamp received language_name official d =
     (case received of
        None \<Rightarrow> Inl Invalid_Archive
      | Some given_files \<Rightarrow>
          (case match_files_and_language langs given_files language_name (remdups format) allowed of
             Inl InvalidFilesOrLanguage \<Rightarrow> Inl Invalid_Format
           | Inl e \<Rightarrow> Inl Uncaught_Exception
           | Inr (files, lang) \<Rightarrow>
               let missing = filter (\<lambda>c. \<not> dict_has files c) (remdups format) in
               if missing \<noteq> [] \<and> \<not> allow_partial then Inl Invalid_Format
               else or_uncaught (if missing \<noteq> [] then fetch_file_digests_from_previous_submission d pid t lang missing else Inr []) (\<lambda>digests.
                 if (\<exists>(c, content)\<in>set files. int (length content) > max_length) then Inl Too_Big
                 else case store_files put_file files digests of
                   None \<Rightarrow> Inl Storage_Failed
                 | Some digests' \<Rightarrow> Inr (add_submission pid t timestamp lang official digests' d))))"

definition accept_submission ::
  "submission_limits \<Rightarrow> submission_limits \<Rightarrow> bool \<Rightarrow> language list \<Rightarrow> string list option \<Rightarrow> bool \<Rightarrow> int \<Rightarrow> (string \<Rightarrow> digest option) \<Rightarrow>
   int \<Rightarrow> int \<Rightarrow> task \<Rightarrow> string list \<Rightarrow> datetime \<Rightarrow> received_file list option \<Rightarrow> string option \<Rightarrow> bool \<Rightarrow> db \<Rightarrow> submission_error + db"
where
  "accept_submission contest_limits task_limits unrestricted langs allowed allow_partial max_length put_file
     contest_id pid t format timestamp received language_name official d =
     (if task_contest_id t \<noteq> Some contest_id then Inl Uncaught_Exception
      else or_uncaught (check_max_number d (lim_max_number contest_limits) pid unrestricted (Some contest_id) None) (\<lambda>b1.
        if \<not> b1 then Inl Too_Many_Submissions
        else or_uncaught (check_max_number d (lim_max_number task_limits) pid unrestricted None (Some t)) (\<lambda>b2.
        if \<not> b2 then Inl Too_Many_On_Task
        else or_uncaught (check_min_interval d (lim_min_interval contest_limits) timestamp pid unrestricted (Some contest_id) None) (\<lambda>b3.
        if \<not> b3 then Inl Too_Frequent
        else or_uncaught (check_min_interval d (lim_min_interval task_limits) timestamp pid unrestricted None (Some t)) (\<lambda>b4.
        if \<not> b4 then Inl Too_Frequent_On_Task
        else accept_files langs allowed allow_partial max_length put_file pid t format timestamp received language_name official d)))))"

section \<open>Limits are kept\<close>

lemma latest_None: "latest ss = None \<longleftrightarrow> ss = []"
  by (cases ss) (simp_all split: option.split)

lemma latest_Some: "latest ss = Some s \<Longrightarrow> s \<in> set ss \<and> (\<forall>s'\<in>set ss. sub_timestamp s' \<le> sub_timestamp s)"
proof (induction ss arbitrary: s)
  case (Cons a ss)
  then show ?case
    by (cases "latest ss") (fastforce simp: latest_None split: if_splits)+
qed simp

definition on_contest :: "db \<Rightarrow> int \<Rightarrow> int \<Rightarrow> submission list" where
  "on_contest d cid pid = filter (\<lambda>s. (\<exists>t\<in>set (db_tasks d). task_id t = sub_task_id s \<and> task_contest_id t = Some cid) \<and>
     sub_participation_id s = pid) (db_submissions d)"

definition on_task :: "db \<Rightarrow> task \<Rightarrow> int \<Rightarrow> submission list" where
  "on_task d t pid = filter (\<lambda>s. sub_task_id s = task_id t \<and> sub_participation_id s = pid) (db_submissions d)"

lemma queries_eq:
  "filter_submission_query d pid (Some cid) None = Inr (on_contest d cid pid)"
  "filter_submission_query d pid None (Some t) = Inr (on_task d t pid)"
  by (simp_all add: filter_submission_query_def on_contest_def on_task_def)

lemma checks_passed:
  assumes "filter_submission_query d pid c t = Inr ss"
  shows "check_max_number d mx pid False c t = Inr True \<Longrightarrow> mx = Some m \<Longrightarrow> int (length ss) < m"
    "check_min_interval d mi now pid False c t = Inr True \<Longrightarrow> mi = Some i \<Longrightarrow> s \<in> set ss \<Longrightarrow> sub_timestamp s + i \<le> now"
  using assms latest_Some[of ss]
  by (fastforce simp: check_max_number_def get_submission_count_def check_min_interval_def get_latest_submission_def latest_None
      split: option.splits)+

section \<open>Files fit the format\<close>

lemma candidate_elements_subset: "candidate_elements f lang es = Inr cs \<Longrightarrow> set cs \<subseteq> set es"
  by (induction es arbitrary: cs) (auto split: sum.splits if_splits)

lemma match_file_in_format: "match_file cn fn lang fmt = Inr c \<Longrightarrow> c \<in> set fmt"
  using candidate_elements_subset
  by (fastforce simp: match_file_def split: option.splits sum.splits list.splits bool.splits if_splits)

lemma match_files_result:
  assumes "match_files given_files lang fmt files = Inr files'" "dict_ok files"
  shows "\<exists>new. files' = files @ new \<and> dict_ok files' \<and> map snd new = map (snd \<circ> snd) given_files \<and> fst ` set new \<subseteq> set fmt"
  using assms
proof (induction given_files arbitrary: files)
  case (Cons g given_files)
  obtain cn fn content where g: "g = (cn, fn, content)" by (cases g)
  obtain c where c: "match_file cn fn lang fmt = Inr c" "\<not> dict_has files c" "match_files given_files lang fmt (dict_set files c content) = Inr files'"
    using Cons.prems(1) by (auto simp: g split: sum.splits if_splits)
  obtain new where "files' = dict_set files c content @ new" "dict_ok files'" "map snd new = map (snd \<circ> snd) given_files" "fst ` set new \<subseteq> set fmt"
    using Cons.IH[OF c(3)] Cons.prems(2) by auto
  then show ?case
    using match_file_in_format[OF c(1)] dict_set_absent[OF c(2)] by (intro exI[of _ "(c, content) # new"]) (simp add: g)
qed simp

lemma match_languages_In:
  "match_languages given_files fmt ls = Inr ms \<Longrightarrow> (l, files) \<in> set ms \<Longrightarrow> l \<in> set ls \<and> match_files given_files l fmt [] = Inr files"
  by (induction ls arbitrary: ms) (auto split: sum.splits match_error.splits)

text \<open>A language that has been ruled out does not fit the files.\<close>

lemma match_languages_Out:
  "match_languages given_files fmt ls = Inr ms \<Longrightarrow> l \<in> set ls \<Longrightarrow> match_files given_files l fmt [] = Inr files \<Longrightarrow> (l, files) \<in> set ms"
  by (induction ls arbitrary: ms) (auto split: sum.splits match_error.splits)

definition language_ok :: "language list \<Rightarrow> string option \<Rightarrow> string list \<Rightarrow> string list option \<Rightarrow> language option \<Rightarrow> bool" where
  "language_ok langs name fmt allowed lang \<longleftrightarrow>
     (lang = None \<longleftrightarrow> (\<forall>element\<in>set fmt. \<not> ends_with element ''.%l'')) \<and>
     (\<forall>l. lang = Some l \<longrightarrow> l \<in> set langs \<and> (\<forall>ns. allowed = Some ns \<longrightarrow> lang_name l \<in> set ns) \<and> (\<forall>n. name = Some n \<longrightarrow> lang_name l = n))"

lemma get_language_Some: "get_language langs n = Some l \<Longrightarrow> l \<in> set langs \<and> lang_name l = n"
  unfolding get_language_def by (rule get_from_id_Some)

lemma in_map_filter: "y \<in> set (List.map_filter f xs) \<longleftrightarrow> (\<exists>x\<in>set xs. f x = Some y)"
  by (force simp: List.map_filter_def)

lemma candidate_languages_ok:
  assumes "candidate_languages langs name fmt allowed = Inr ls" "l \<in> set ls"
  shows "language_ok langs name fmt allowed l"
  using assms
  by (auto simp: candidate_languages_def language_ok_def in_map_filter dest!: get_language_Some split: if_splits option.splits)

lemma match_files_and_language_result:
  assumes "match_files_and_language langs given_files name fmt allowed = Inr (files, lang)"
  shows "dict_ok files" "map snd files = map (snd \<circ> snd) given_files" "fst ` set files \<subseteq> set fmt" "language_ok langs name fmt allowed lang"
proof -
  obtain ls where ls: "candidate_languages langs name fmt allowed = Inr ls" "match_languages given_files fmt ls = Inr [(lang, files)]"
    using assms by (auto simp: match_files_and_language_def split: if_splits sum.splits list.splits)
  then have m: "lang \<in> set ls" "match_files given_files lang fmt [] = Inr files" using match_languages_In by fastforce+
  from match_files_result[OF m(2)] show "dict_ok files" "map snd files = map (snd \<circ> snd) given_files" "fst ` set files \<subseteq> set fmt" by auto
  show "language_ok langs name fmt allowed lang" by (rule candidate_languages_ok[OF ls(1) m(1)])
qed

lemma store_files_result:
  assumes "store_files put_file files digests = Some digests'" "dict_ok files" "dict_ok digests"
  shows "dict_ok digests'" "fst ` set digests' = fst ` set digests \<union> fst ` set files"
    "(c, content) \<in> set files \<Longrightarrow> \<exists>g. put_file content = Some g \<and> (c, g) \<in> set digests'"
proof -
  have "dict_ok digests' \<and> fst ` set digests' = fst ` set digests \<union> fst ` set files \<and>
      (\<forall>(c, content)\<in>set files. \<exists>g. put_file content = Some g \<and> map_of digests' c = Some g) \<and>
      (\<forall>c. c \<notin> fst ` set files \<longrightarrow> map_of digests' c = map_of digests c)"
    using assms
  proof (induction files arbitrary: digests)
    case (Cons f files)
    obtain c content where f: "f = (c, content)" by (cases f)
    obtain g where g: "put_file content = Some g" "store_files put_file files (dict_set digests c g) = Some digests'"
      using Cons.prems(1) by (auto simp: f split: option.splits)
    have ok: "dict_ok files" "dict_ok (dict_set digests c g)" "c \<notin> fst ` set files" using Cons.prems by (auto simp: dict_ok_def[of "_ # _"] dict_ok_def[of files] f)
    have keys: "fst ` set (dict_set digests c g) = insert c (fst ` set digests)"
      using map_of_dict_set[of digests c g] by (metis dom_fun_upd dom_map_of_conv_image_fst option.distinct(1))
    note ih = Cons.IH[OF g(2) ok(1,2)]
    show ?case
      using ih ok(3) g(1) by (auto simp: f keys map_of_dict_set)
  qed simp
  then show "dict_ok digests'" "fst ` set digests' = fst ` set digests \<union> fst ` set files"
    "(c, content) \<in> set files \<Longrightarrow> \<exists>g. put_file content = Some g \<and> (c, g) \<in> set digests'"
    by (fastforce dest: map_of_SomeD)+
qed

lemma fetched_digests:
  assumes "fetch_file_digests_from_previous_submission d pid t lang codenames = Inr digests" "distinct codenames"
  shows "dict_ok digests" "fst ` set digests \<subseteq> set codenames"
proof -
  have "dict_ok (List.map_filter (\<lambda>c. map_option (Pair c) (f c)) codenames) \<and>
      fst ` set (List.map_filter (\<lambda>c. map_option (Pair c) (f c)) codenames) \<subseteq> set codenames" for f :: "string \<Rightarrow> digest option"
    using assms(2) by (induction codenames) (auto simp: List.map_filter_simps dict_ok_def split: option.splits)
  moreover have "digests = [] \<or> (\<exists>f. digests = List.map_filter (\<lambda>c. map_option (Pair c) (f c)) codenames)"
    using assms(1) by (auto simp: fetch_file_digests_from_previous_submission_def res_simps split: option.splits if_splits)
  ultimately show "dict_ok digests" "fst ` set digests \<subseteq> set codenames" by auto
qed

section \<open>Accepted submissions\<close>

definition in_limits :: "submission_limits \<Rightarrow> datetime \<Rightarrow> submission list \<Rightarrow> submission list \<Rightarrow> bool" where
  "in_limits lims now before after \<longleftrightarrow>
     (case lim_max_number lims of None \<Rightarrow> True | Some m \<Rightarrow> int (length after) \<le> m) \<and>
     (case lim_min_interval lims of None \<Rightarrow> True | Some i \<Rightarrow> \<forall>s\<in>set before. sub_timestamp s + i \<le> now)"

lemma in_limitsI:
  assumes "filter_submission_query d pid c t = Inr before" "check_max_number d (lim_max_number lims) pid False c t = Inr True"
    "check_min_interval d (lim_min_interval lims) now pid False c t = Inr True" "length after \<le> Suc (length before)"
  shows "in_limits lims now before after"
  using checks_passed[OF assms(1)] assms(2-4) by (fastforce simp: in_limits_def split: option.split)

lemma added_counts:
  "length (on_contest (add_submission pid t now lang off gs d) cid pid) \<le> Suc (length (on_contest d cid pid))"
  "length (on_task (add_submission pid t now lang off gs d) t' pid) \<le> Suc (length (on_task d t' pid))"
  by (simp_all add: on_contest_def on_task_def add_submission_def Let_def)

lemma accept_files_result:
  assumes "accept_files langs allowed allow_partial max_length put_file pid t format now received name official d = Inr d'"
  obtains given_files lang digests where "received = Some given_files" "d' = add_submission pid t now lang official digests d"
    "dict_ok digests" "fst ` set digests \<subseteq> set format" "allow_partial \<or> fst ` set digests = set format"
    "language_ok langs name (remdups format) allowed lang"
    "\<forall>(cn, fn, content)\<in>set given_files. int (length content) \<le> max_length \<and>
       (\<exists>c g. put_file content = Some g \<and> (c, g) \<in> set digests)"
proof -
  obtain given_files files lang where m: "received = Some given_files" "match_files_and_language langs given_files name (remdups format) allowed = Inr (files, lang)"
    using assms by (auto simp: accept_files_def split: option.splits sum.splits match_error.splits)
  let ?missing = "filter (\<lambda>c. \<not> dict_has files c) (remdups format)"
  obtain digests digests' where a: "\<not> (?missing \<noteq> [] \<and> \<not> allow_partial)"
      "(if ?missing \<noteq> [] then fetch_file_digests_from_previous_submission d pid t lang ?missing else Inr []) = Inr digests"
      "\<not> (\<exists>(c, content)\<in>set files. int (length content) > max_length)" "store_files put_file files digests = Some digests'"
      "d' = add_submission pid t now lang official digests' d"
    using assms m by (auto simp: accept_files_def or_uncaught_def Let_def split: sum.splits option.splits if_splits)
  note f = match_files_and_language_result[OF m(2)]
  have g: "dict_ok digests" "fst ` set digests \<subseteq> set ?missing"
    using a(2) fetched_digests[of d pid t lang ?missing digests] by (auto split: if_splits)
  note st = store_files_result[OF a(4) f(1) g(1)]
  have keys: "fst ` set digests' \<subseteq> set format" using st(2) g(2) f(3) by auto
  have complete: "allow_partial \<or> fst ` set digests' = set format"
  proof (cases allow_partial)
    case False
    then have "?missing = []" using a(1) by blast
    then have "\<forall>c\<in>set format. c \<in> fst ` set files" by (simp add: filter_empty_conv dict_has_iff dom_map_of_conv_image_fst)
    then show ?thesis using keys st(2) by blast
  qed simp
  have stored: "int (length content) \<le> max_length \<and> (\<exists>c g. put_file content = Some g \<and> (c, g) \<in> set digests')"
    if "(cn, fn, content) \<in> set given_files" for cn fn content
  proof -
    have "content \<in> set (map (snd \<circ> snd) given_files)" using that by force
    then have "content \<in> set (map snd files)" by (simp only: f(2))
    then obtain c where "(c, content) \<in> set files" by auto
    then show ?thesis using a(3) st(3) by fastforce
  qed
  show ?thesis using that[OF m(1) a(5) st(1) keys complete f(4)] stored by blast
qed


definition example_language :: language where
  "example_language = \<lparr>lang_name = ''C++'', lang_source_extensions = [''.cpp'', ''.cc'']\<rparr>"

definition example_limits :: submission_limits where
  "example_limits = \<lparr>lim_max_number = Some 5, lim_min_interval = Some 60\<rparr>"

definition example_workflow_task :: task where
  "example_workflow_task = \<lparr>task_id = 2, task_contest_id = Some 1, task_active_dataset_id = Some 5, task_title = ''t'', task_pvp_batch = 0,
     task_score_precision = 0, task_score_mode = SCORE_MODE_MAX, task_solved = False\<rparr>"

definition example_workflow_db :: db where
  "example_workflow_db = \<lparr>db_contests = [], db_participations = [], db_tasks = [example_workflow_task], db_datasets = [],
     db_submissions = [example_submission], db_submission_results = [], db_user_tests = [], db_user_test_results = [],
     db_matches = [], db_match_results = [], db_batches = [], db_files = []\<rparr>"


end
