(* ===== verification/White_Diff.thy ===== *)
theory White_Diff
  imports Python_Text
begin

text \<open>
  The comparison of a contestant's output with the reference output up to white space
  (\<^verbatim>\<open>cms/grading/steps/whitediff.py\<close>). A file is the bytes that are left to read; a byte is a character.
  The loop reads one line of each file per round, so it ends.
\<close>

definition WHITES :: "char list" where
  "WHITES = [CHR '' '', CHR 0x09, CHR 0x0A, CHR 0x0B, CHR 0x0C, CHR 0x0D]"

definition white :: "char \<Rightarrow> bool" where
  "white c \<longleftrightarrow> c \<in> set WHITES"

section \<open>Canonical form\<close>

text \<open>\<open>s.replace(c, d)\<close> and \<open>s.split(c)\<close> for single bytes, and \<open>c.join(...)\<close>.\<close>

definition replace_byte :: "char \<Rightarrow> char \<Rightarrow> string \<Rightarrow> string" where
  "replace_byte c d s = map (\<lambda>x. if x = c then d else x) s"

fun split_byte :: "char \<Rightarrow> string \<Rightarrow> string list" where
  "split_byte c [] = [[]]"
| "split_byte c (x # xs) =
     (if x = c then [] # split_byte c xs
      else (x # hd (split_byte c xs)) # tl (split_byte c xs))"

fun join_bytes :: "string \<Rightarrow> string list \<Rightarrow> string" where
  "join_bytes sep [] = []"
| "join_bytes sep [w] = w"
| "join_bytes sep (w # v # ws) = w @ sep @ join_bytes sep (v # ws)"

definition white_diff_canonicalize :: "string \<Rightarrow> string" where
  "white_diff_canonicalize s =
     (let blank = CHR '' '';
          s1 = fold (\<lambda>c s. replace_byte c blank s) (tl WHITES) s
      in join_bytes [blank] (filter (\<lambda>x. length x > 0) (split_byte blank s1)))"

section \<open>Comparing files\<close>

definition readline :: "string \<Rightarrow> string \<times> string" where
  "readline s =
     (case dropWhile (\<lambda>c. c \<noteq> CHR 0x0A) s of
        [] \<Rightarrow> (s, [])
      | c # rest \<Rightarrow> (takeWhile (\<lambda>c. c \<noteq> CHR 0x0A) s @ [c], rest))"

definition strip_whites :: "string \<Rightarrow> string" where
  "strip_whites s = rev (dropWhile white (rev (dropWhile white s)))"

lemma readline_append: "readline s = (l, r) \<Longrightarrow> l @ r = s"
  using takeWhile_dropWhile_id[of "\<lambda>c. c \<noteq> CHR 0x0A" s]
  by (cases "dropWhile (\<lambda>c. c \<noteq> CHR 0x0A) s") (clarsimp simp: readline_def; metis)+

lemma readline_Nil: "readline s = (l, r) \<Longrightarrow> l = [] \<longleftrightarrow> s = []"
  by (auto simp: readline_def split: list.splits)

lemma readline_shorter: "readline s = (l, r) \<Longrightarrow> length r \<le> length s \<and> (s \<noteq> [] \<longrightarrow> length r < length s)"
  using readline_append[of s l r] readline_Nil[of s l r] by (cases l) auto

lemma readline_both_shorter:
  assumes "readline s = (lo, os)" "readline r = (lr, rs)" "lr = [] \<longrightarrow> lo \<noteq> []"
  shows "length os + length rs < length s + length r"
proof -
  have "s \<noteq> [] \<or> r \<noteq> []" using readline_Nil[OF assms(1)] readline_Nil[OF assms(2)] assms(3) by auto
  then show ?thesis using readline_shorter[OF assms(1)] readline_shorter[OF assms(2)] by auto
qed

function white_diff :: "string \<Rightarrow> string \<Rightarrow> bool" where
  "white_diff output_file res_file =
     (case readline output_file of (lout, output_rest) \<Rightarrow> case readline res_file of (lres, res_rest) \<Rightarrow>
        if length lres = 0 \<and> length lout = 0 then True
        else if length lres = 0 \<or> length lout = 0 then
          (if length (strip_whites lout) > 0 \<or> length (strip_whites lres) > 0 then False
           else white_diff output_rest res_rest)
        else
          (if white_diff_canonicalize lout \<noteq> white_diff_canonicalize lres then False
           else white_diff output_rest res_rest))"
  by pat_completeness auto
termination
  by (relation "measure (\<lambda>(s, r). length s + length r)") (simp_all add: readline_both_shorter[OF sym sym])

declare white_diff.simps [simp del]

text \<open>\<open>white_diff_fobj_step\<close> and \<open>white_diff_step\<close>; the sandbox maps the names of its files to their
  contents, and it always has the reference output.\<close>

definition white_diff_fobj_step :: "string \<Rightarrow> string \<Rightarrow> real \<times> string list" where
  "white_diff_fobj_step output_fobj correct_output_fobj =
     (if white_diff output_fobj correct_output_fobj then (1, [''Output is correct''])
      else (0, [''Output isn't correct'']))"

definition white_diff_step :: "(string \<rightharpoonup> string) \<Rightarrow> string \<Rightarrow> string \<Rightarrow> real \<times> string list" where
  "white_diff_step sandbox output_filename correct_output_filename =
     (case sandbox output_filename of
        Some out_file \<Rightarrow> white_diff_fobj_step out_file (the (sandbox correct_output_filename))
      | None \<Rightarrow> (0, [''Evaluation didn't produce file %s'', output_filename]))"

section \<open>The specification\<close>

text \<open>The lines of a file, each as the list of its words, without the blank lines at the end.\<close>

function file_lines :: "string \<Rightarrow> string list" where
  "file_lines s = (if s = [] then [] else case readline s of (l, r) \<Rightarrow> l # file_lines r)"
  by pat_completeness auto
termination
  by (relation "measure length") (auto dest!: readline_shorter[OF sym])

declare file_lines.simps [simp del]

fun drop_trailing :: "'a list list \<Rightarrow> 'a list list" where
  "drop_trailing [] = []"
| "drop_trailing (x # xs) = (if x = [] \<and> drop_trailing xs = [] then [] else x # drop_trailing xs)"

definition words_by_line :: "string \<Rightarrow> string list list" where
  "words_by_line s = drop_trailing (map (split_on white) (file_lines s))"

section \<open>Canonical forms are lists of words\<close>

lemma split_on_single:
  "\<not> sp x \<Longrightarrow> split_on sp (x # xs) = (x # takeWhile (\<lambda>y. \<not> sp y) xs) # split_on sp (dropWhile (\<lambda>y. \<not> sp y) xs)"
  by (subst split_on.simps) simp

lemma split_byte_shape:
  "split_byte c s \<noteq> [] \<and> hd (split_byte c s) = takeWhile (\<lambda>y. \<not> c = y) s
   \<and> filter (\<lambda>x. x \<noteq> []) (tl (split_byte c s)) = split_on ((=) c) (dropWhile (\<lambda>y. \<not> c = y) s)
   \<and> filter (\<lambda>x. x \<noteq> []) (split_byte c s) = split_on ((=) c) s"
  by (induction s) (auto simp: split_on_single)

lemma split_on_map:
  "split_on q (map f s) = map (map f) (split_on (q \<circ> f) s)"
proof (induction "q \<circ> f" s rule: split_on.induct)
  case (1 s)
  show ?case
  proof (cases "dropWhile (q \<circ> f) s")
    case (Cons c cs)
    have "dropWhile (\<lambda>x. \<not> q x) (map f cs) = map f (dropWhile (\<lambda>x. \<not> (q \<circ> f) x) cs)"
      "takeWhile (\<lambda>x. \<not> q x) (map f cs) = map f (takeWhile (\<lambda>x. \<not> (q \<circ> f) x) cs)"
      by (simp_all add: dropWhile_map takeWhile_map comp_def)
    moreover have "split_on q (map f (dropWhile (\<lambda>x. \<not> (q \<circ> f) x) cs))
        = map (map f) (split_on (q \<circ> f) (dropWhile (\<lambda>x. \<not> (q \<circ> f) x) cs))"
      by (rule 1[OF Cons])
    ultimately show ?thesis
      using Cons by (subst (1 2) split_on.simps) (simp add: dropWhile_map)
  next
    case Nil
    then have "dropWhile q (map f s) = []" by (simp add: dropWhile_map)
    then show ?thesis using Nil by (subst (1 2) split_on.simps) (simp only: list.case list.map)
  qed
qed

lemma split_on_join:
  "\<forall>w\<in>set ws. w \<noteq> [] \<and> (\<forall>c\<in>set w. \<not> sp c) \<Longrightarrow> sp b \<Longrightarrow> split_on sp (join_bytes [b] ws) = ws"
proof (induction "[b]" ws rule: join_bytes.induct)
  case (2 w)
  then show ?case using split_on_word[of w sp "[]"] by simp
next
  case (3 w v ws)
  then show ?case using split_on_word[of w sp "b # join_bytes [b] (v # ws)"] by simp
qed simp

lemma canonicalize_eq: "white_diff_canonicalize s = join_bytes '' '' (split_on white s)"
proof -
  let ?f = "\<lambda>x. if white x then CHR '' '' else x"
  have "fold (\<lambda>c s. replace_byte c (CHR '' '') s) (tl WHITES) s = map ?f s"
    by (induction s) (auto simp: WHITES_def replace_byte_def white_def)
  moreover have "(=) (CHR '' '') \<circ> ?f = white"
    by (auto simp: fun_eq_iff white_def WHITES_def)
  moreover have "map (map ?f) (split_on white s) = split_on white s"
    by (rule map_idI, rule map_idI) (auto dest: split_on_pieces)
  ultimately show ?thesis
    using split_byte_shape[of "CHR '' ''" "map ?f s"] split_on_map[of "(=) (CHR '' '')" ?f s]
    by (simp add: white_diff_canonicalize_def)
qed

lemma canonicalize_eq_iff:
  "white_diff_canonicalize s = white_diff_canonicalize t \<longleftrightarrow> split_on white s = split_on white t"
proof
  have words: "split_on white (white_diff_canonicalize u) = split_on white u" for u
    unfolding canonicalize_eq by (rule split_on_join) (use split_on_pieces in blast, simp add: white_def WHITES_def)
  assume "white_diff_canonicalize s = white_diff_canonicalize t"
  then show "split_on white s = split_on white t" by (metis words)
qed (simp add: canonicalize_eq)

lemma split_on_Nil_iff: "split_on sp s = [] \<longleftrightarrow> (\<forall>c\<in>set s. sp c)"
  unfolding dropWhile_eq_Nil_conv[symmetric] by (subst split_on.simps) (cases "dropWhile sp s"; simp only: list.case; simp)

lemma strip_whites_Nil_iff: "strip_whites s = [] \<longleftrightarrow> split_on white s = []"
proof -
  have "strip_whites s = [] \<longleftrightarrow> (\<forall>c\<in>set (dropWhile white s). white c)"
    by (simp add: strip_whites_def)
  also have "\<dots> \<longleftrightarrow> dropWhile white s = []"
    using hd_dropWhile[of white s] hd_in_set[of "dropWhile white s"] by (metis empty_iff list.set(1))
  finally show ?thesis by (simp add: split_on_Nil_iff)
qed

lemma file_lines_readline: "readline s = (l, r) \<Longrightarrow> file_lines s = (if l = [] then [] else l # file_lines r)"
  using readline_Nil[of s l r] by (subst file_lines.simps) simp

lemma words_by_line_readline:
  "readline s = (l, r) \<Longrightarrow> words_by_line s =
     (if l = [] then [] else if split_on white l = [] \<and> words_by_line r = [] then []
      else split_on white l # words_by_line r)"
  by (auto simp: words_by_line_def file_lines_readline)

text \<open>(C24) The white diff answers yes exactly for files with the same lines as lists of words, apart from
  blank lines at the end.\<close>

theorem white_diff_is_line_equality:
  "white_diff a b \<longleftrightarrow> words_by_line a = words_by_line b"
proof (induction a b rule: white_diff.induct)
  case (1 a b)
  obtain lo os where a: "readline a = (lo, os)" by fastforce
  obtain lr rs where b: "readline b = (lr, rs)" by fastforce
  note rec = 1(1)[OF a[symmetric] b[symmetric]] 1(2)[OF a[symmetric] b[symmetric]]
  have rest: "lo = [] \<Longrightarrow> words_by_line os = []" "lr = [] \<Longrightarrow> words_by_line rs = []"
    using readline_append[OF a] readline_append[OF b] readline_Nil[OF a] readline_Nil[OF b]
    by (auto simp: words_by_line_def file_lines.simps)
  show ?case
    using rec rest
    by (subst white_diff.simps, simp only: a b prod.case length_0_conv length_greater_0_conv strip_whites_Nil_iff
        words_by_line_readline[OF a] words_by_line_readline[OF b] canonicalize_eq_iff)
      (cases "lo = []"; cases "lr = []"; auto)
qed

end
