(* ===== verification/Ranking_Score.thy ===== *)
theory Ranking_Score
  imports Python_Text
begin

text \<open>
  The score of one user on one task in the ranking web server (\<^verbatim>\<open>cmsranking/Scoring.py\<close>, classes
  \<open>NumberSet\<close> and \<open>Score\<close>). A score object holds the submissions, the list of their changes and, computed
  from them, the scores of the released submissions, the last submission and the history of the
  score. \<open>_last\<close> is a reference to one of the submissions, here its key. Strings are compared by
  code points, floats are reals.
\<close>

section \<open>Sets of numbers\<close>

definition py_max :: "real \<Rightarrow> real list \<Rightarrow> real" where
  "py_max d xs = (case xs of [] \<Rightarrow> d | y # ys \<Rightarrow> fold max ys y)"

definition ns_insert :: "real list \<Rightarrow> real \<Rightarrow> real list" where
  "ns_insert impl val = impl @ [val]"

definition ns_remove :: "real list \<Rightarrow> real \<Rightarrow> real list res" where
  "ns_remove impl val = (if val \<in> set impl then Inr (remove1 val impl) else Inl ValueError)"

definition ns_query :: "real list \<Rightarrow> real" where
  "ns_query impl = py_max 0 (impl @ [0])"

section \<open>Score objects\<close>

record ranking_submission =
  rs_user :: string
  rs_task :: string
  rs_time :: int
  rs_score :: real
  rs_token :: bool
  rs_extra :: "string list"

record subchange =
  ch_key :: string
  ch_submission :: string
  ch_time :: int
  ch_score :: "real option"
  ch_token :: "bool option"
  ch_extra :: "string list option"

record score =
  sc_submissions :: "(string, ranking_submission) dict"
  sc_changes :: "subchange list"
  sc_released :: "real list"
  sc_last :: "string option"
  sc_history :: "(int \<times> real) list"
  sc_score_mode :: string

definition score_init :: "string \<Rightarrow> score" where
  "score_init score_mode =
     \<lparr>sc_submissions = [], sc_changes = [], sc_released = [], sc_last = None, sc_history = [], sc_score_mode = score_mode\<rparr>"

definition get_score :: "score \<Rightarrow> real" where
  "get_score sc = (if sc_history sc = [] then 0 else snd (last (sc_history sc)))"

text \<open>\<open>itertools.zip_longest(*rows, fillvalue=fill)\<close>.\<close>

definition zip_longest :: "'a \<Rightarrow> 'a list list \<Rightarrow> 'a list list" where
  "zip_longest fill rows =
     map (\<lambda>i. map (\<lambda>r. if i < length r then r ! i else fill) rows) [0..<fold max (map length rows) 0]"

text \<open>\<open>map(float, s.extra or [s.score])\<close>.\<close>

definition extra_scores :: "ranking_submission \<Rightarrow> real list res" where
  "extra_scores s = (if rs_extra s = [] then Inr [rs_score s] else res_map py_float (rs_extra s))"

definition ranking_mode_score :: "string \<Rightarrow> (string, ranking_submission) dict \<Rightarrow> real list \<Rightarrow> string option \<Rightarrow> real res" where
  "ranking_mode_score score_mode submissions released lst =
     (let subs = map snd submissions in
      if score_mode = ''max'' then Inr (py_max 0 (map rs_score subs))
      else if score_mode = ''max_subtask'' then
        res_bind (res_map extra_scores subs) (\<lambda>rows. Inr (sum_list (map (py_max 0) (zip_longest 0 rows))))
      else if score_mode = ''max_tokened_last'' then
        Inr (max (ns_query released)
              (case lst of
                 None \<Rightarrow> 0
               | Some k \<Rightarrow> (case map_of submissions k of None \<Rightarrow> 0 | Some s \<Rightarrow> rs_score s)))
      else Inl ValueError)"

definition current_score :: "score \<Rightarrow> real res" where
  "current_score sc = ranking_mode_score (sc_score_mode sc) (sc_submissions sc) (sc_released sc) (sc_last sc)"

definition apply_change :: "subchange \<Rightarrow> ranking_submission \<Rightarrow> ranking_submission" where
  "apply_change c s =
     s\<lparr>rs_score := (case ch_score c of None \<Rightarrow> rs_score s | Some x \<Rightarrow> x),
       rs_token := (case ch_token c of None \<Rightarrow> rs_token s | Some x \<Rightarrow> x),
       rs_extra := (case ch_extra c of None \<Rightarrow> rs_extra s | Some x \<Rightarrow> x)\<rparr>"

definition release :: "subchange \<Rightarrow> (score, unit) stm" where
  "release c = (\<lambda>sc. case map_of (sc_submissions sc) (ch_submission c) of
     None \<Rightarrow> (sc, Inl KeyError)
   | Some s \<Rightarrow>
       if rs_token s then
         (case ns_remove (sc_released sc) (rs_score s) of
            Inl e \<Rightarrow> (sc, Inl e)
          | Inr r \<Rightarrow> (sc\<lparr>sc_released := r\<rparr>, Inr ()))
       else (sc, Inr ()))"

definition change_submission :: "subchange \<Rightarrow> score \<Rightarrow> score" where
  "change_submission c sc =
     (case map_of (sc_submissions sc) (ch_submission c) of
        None \<Rightarrow> sc
      | Some s \<Rightarrow>
          let s' = apply_change c s in
          sc\<lparr>sc_submissions := dict_set (sc_submissions sc) (ch_submission c) s',
             sc_released := (if rs_token s' then ns_insert (sc_released sc) (rs_score s') else sc_released sc)\<rparr>)"

text \<open>The time of the submission \<open>_last\<close> refers to.\<close>

definition time_of :: "score \<Rightarrow> string \<Rightarrow> int" where
  "time_of sc k = (case map_of (sc_submissions sc) k of None \<Rightarrow> 0 | Some s \<Rightarrow> rs_time s)"

definition change_last :: "subchange \<Rightarrow> score \<Rightarrow> score" where
  "change_last c sc =
     (if ch_score c \<noteq> None \<and>
         (case sc_last sc of None \<Rightarrow> True | Some k \<Rightarrow> time_of sc k < time_of sc (ch_submission c))
      then sc\<lparr>sc_last := Some (ch_submission c)\<rparr> else sc)"

definition change_history :: "int \<Rightarrow> (score, unit) stm" where
  "change_history time =
     sbind (\<lambda>sc. (sc, current_score sc)) (\<lambda>score.
       supd (\<lambda>sc. if score \<noteq> get_score sc then sc\<lparr>sc_history := sc_history sc @ [(time, score)]\<rparr> else sc))"

definition append_change :: "subchange \<Rightarrow> (score, unit) stm" where
  "append_change change =
     sthen (release change)
    (sthen (supd (change_submission change))
    (sthen (supd (change_last change))
           (change_history (ch_time change))))"

text \<open>The first part of \<open>reset_history\<close>: everything but the submissions and changes is deleted.\<close>

definition reset_submission :: "ranking_submission \<Rightarrow> ranking_submission" where
  "reset_submission s = s\<lparr>rs_score := 0, rs_token := False, rs_extra := []\<rparr>"

definition clear_score :: "score \<Rightarrow> score" where
  "clear_score sc =
     sc\<lparr>sc_last := None, sc_released := [], sc_history := [],
        sc_submissions := map (\<lambda>(k, s). (k, reset_submission s)) (sc_submissions sc)\<rparr>"

definition reset_history :: "(score, unit) stm" where
  "reset_history = sthen (supd clear_score) (sbind (sget sc_changes) (\<lambda>cs. sforeach cs append_change))"

definition change_before :: "subchange \<Rightarrow> subchange \<Rightarrow> bool" where
  "change_before c d \<longleftrightarrow> ch_time c < ch_time d \<or> (ch_time c = ch_time d \<and> ch_key c < ch_key d)"

text \<open>The insertion stops at the first later change; without one nothing is inserted.\<close>

fun insert_change :: "subchange \<Rightarrow> subchange list \<Rightarrow> subchange list" where
  "insert_change c [] = []"
| "insert_change c (d # ds) = (if change_before c d then c # d # ds else d # insert_change c ds)"

text \<open>The messages logged after a reset name the user and the task of the submission.\<close>

definition log_reset :: "subchange \<Rightarrow> (score, unit) stm" where
  "log_reset c = (\<lambda>sc. (sc, if dict_has (sc_submissions sc) (ch_submission c) then Inr () else Inl KeyError))"

definition create_subchange :: "subchange \<Rightarrow> (score, unit) stm" where
  "create_subchange c =
     sbind (sget sc_changes) (\<lambda>cs.
       if cs = [] \<or> change_before (last cs) c then
         sthen (supd (\<lambda>sc. sc\<lparr>sc_changes := cs @ [c]\<rparr>)) (append_change c)
       else sthen (supd (\<lambda>sc. sc\<lparr>sc_changes := insert_change c cs\<rparr>)) (sthen reset_history (log_reset c)))"

definition update_subchange :: "string \<Rightarrow> subchange \<Rightarrow> (score, unit) stm" where
  "update_subchange key c =
     sthen (supd (\<lambda>sc. sc\<lparr>sc_changes := map (\<lambda>d. if ch_key d = key then c else d) (sc_changes sc)\<rparr>)) (sthen reset_history (log_reset c))"

definition delete_subchange :: "string \<Rightarrow> (score, unit) stm" where
  "delete_subchange key =
     sthen (supd (\<lambda>sc. sc\<lparr>sc_changes := filter (\<lambda>d. ch_key d \<noteq> key) (sc_changes sc)\<rparr>)) reset_history"

definition create_submission :: "string \<Rightarrow> ranking_submission \<Rightarrow> score \<Rightarrow> score" where
  "create_submission key s sc =
     sc\<lparr>sc_submissions := dict_set (sc_submissions sc) key (reset_submission s)\<rparr>"

definition update_submission :: "string \<Rightarrow> ranking_submission \<Rightarrow> (score, unit) stm" where
  "update_submission key s =
     sthen (supd (\<lambda>sc. sc\<lparr>sc_submissions := dict_set (sc_submissions sc) key s\<rparr>)) reset_history"

definition delete_submission :: "string \<Rightarrow> (score, unit) stm" where
  "delete_submission key =
     sbind (sget sc_submissions) (\<lambda>subs.
       if dict_has subs key then
         sthen (supd (\<lambda>sc. sc\<lparr>sc_submissions := AList.delete key subs,
             sc_changes := filter (\<lambda>d. ch_submission d \<noteq> key) (sc_changes sc)\<rparr>)) reset_history
       else sret ())"

definition update_score_mode :: "string \<Rightarrow> score \<Rightarrow> score" where
  "update_score_mode score_mode sc = sc\<lparr>sc_score_mode := score_mode\<rparr>"

section \<open>Replaying changes\<close>

text \<open>An object whose state is computed from a base by a sequence of changes: a change does not touch the
  base, so computing the state again from the base of the result gives the same result.\<close>

locale replayed =
  fixes base :: "'s \<Rightarrow> 's" and step :: "'c \<Rightarrow> ('s, unit) stm"
  assumes base_base: "base (base s) = base s"
    and base_step: "base (fst (step c s)) = base s"
begin

lemma base_run: "base (fst (sforeach cs step s)) = base s"
  by (rule sforeach_fst) (simp_all add: base_step)

lemma replay_again:
  assumes "sforeach cs step (base s) = (s', Inr ())"
  shows "sforeach cs step (base s') = (s', Inr ())"
  using base_run[of cs "base s"] assms by (simp add: base_base)

lemma run_snoc: "sforeach (cs @ [c]) step s = sbind (sforeach cs step) (\<lambda>_. step c) s"
  by (induction cs arbitrary: s) (auto simp: stm_simps split: prod.split sum.split)

end

lemma reset_submission_simps [simp]:
  "reset_submission (apply_change c s) = reset_submission s" "reset_submission (reset_submission s) = reset_submission s"
  "rs_time (apply_change c s) = rs_time s" "rs_time (reset_submission s) = rs_time s"
  by (simp_all add: reset_submission_def apply_change_def)

lemma map_snd_dict_set:
  assumes "map_of d k = Some s" "f s' = f s"
  shows "map (\<lambda>(k, s). (k, f s)) (dict_set d k s') = map (\<lambda>(k, s). (k, f s)) d"
  using assms by (induction d) (auto simp: dict_set_def split: if_splits)

lemma clear_release: "clear_score (fst (release c sc)) = clear_score sc"
  by (auto simp: release_def clear_score_def split: option.split sum.split)

lemma clear_change_submission: "clear_score (change_submission c sc) = clear_score sc"
  using map_snd_dict_set[of "sc_submissions sc" "ch_submission c" _ reset_submission]
  by (auto simp: change_submission_def clear_score_def Let_def split: option.split)

lemma clear_change_last: "clear_score (change_last c sc) = clear_score sc"
  by (simp add: change_last_def clear_score_def)

lemma clear_change_history: "clear_score (fst (change_history t sc)) = clear_score sc"
  by (simp add: change_history_def clear_score_def stm_simps split: sum.split)

lemma clear_append_change: "clear_score (fst (append_change c sc)) = clear_score sc"
  unfolding append_change_def
  using clear_release[of c sc] clear_change_submission clear_change_last clear_change_history
  by (auto simp: stm_simps split: prod.split sum.split)

lemma clear_clear: "clear_score (clear_score sc) = clear_score sc"
  by (simp add: clear_score_def comp_def case_prod_beta)

interpretation score_replay: replayed clear_score append_change
  by unfold_locales (rule clear_clear, rule clear_append_change)

lemma reset_history_run: "reset_history sc = sforeach (sc_changes sc) append_change (clear_score sc)"
  by (simp add: reset_history_def stm_simps clear_score_def)

section \<open>Well-formed data\<close>

definition extra_ok :: "string list \<Rightarrow> bool" where
  "extra_ok es \<longleftrightarrow> (\<forall>e\<in>set es. \<exists>x. py_float e = Inr x \<and> 0 \<le> x)"

definition submission_ok :: "ranking_submission \<Rightarrow> bool" where
  "submission_ok s \<longleftrightarrow> 0 \<le> rs_score s \<and> extra_ok (rs_extra s)"

definition change_ok :: "subchange \<Rightarrow> bool" where
  "change_ok c \<longleftrightarrow> (\<forall>x. ch_score c = Some x \<longrightarrow> 0 \<le> x) \<and> (\<forall>es. ch_extra c = Some es \<longrightarrow> extra_ok es)"

definition mode_ok :: "string \<Rightarrow> bool" where
  "mode_ok m \<longleftrightarrow> m \<in> {''max'', ''max_subtask'', ''max_tokened_last''}"

definition submissions_ok :: "score \<Rightarrow> bool" where
  "submissions_ok sc \<longleftrightarrow> dict_ok (sc_submissions sc) \<and> (\<forall>s\<in>snd ` set (sc_submissions sc). submission_ok s)"

text \<open>The released scores are those of the submissions with a token.\<close>

definition released_ok :: "score \<Rightarrow> bool" where
  "released_ok sc \<longleftrightarrow>
     mset (sc_released sc) = image_mset (rs_score \<circ> snd) (filter_mset (rs_token \<circ> snd) (mset (sc_submissions sc)))"

lemma submission_ok_reset [simp]: "submission_ok (reset_submission s)"
  by (simp add: submission_ok_def reset_submission_def extra_ok_def)

lemma submission_ok_apply: "submission_ok s \<Longrightarrow> change_ok c \<Longrightarrow> submission_ok (apply_change c s)"
  by (auto simp: submission_ok_def apply_change_def change_ok_def split: option.split)

lemma mset_dict_set:
  assumes "map_of d k = Some s" "dict_ok d"
  shows "mset (dict_set d k s') + {#(k, s)#} = mset d + {#(k, s')#}"
  using assms
proof (induction d)
  case (Cons a d)
  then show ?case by (cases a) (auto simp: dict_set_def dict_ok_def)
qed simp

lemma snd_dict_set_subset: "snd ` set (dict_set d k s) \<subseteq> insert s (snd ` set d)"
  by (induction d) (auto simp: dict_set_def)

lemma ball_dict_set: "\<forall>x\<in>snd ` set d. P x \<Longrightarrow> P s \<Longrightarrow> \<forall>x\<in>snd ` set (dict_set d k s). P x"
  using snd_dict_set_subset[of d k s] by blast

lemma submissions_ok_clear: "submissions_ok sc \<Longrightarrow> submissions_ok (clear_score sc)"
  by (auto simp: submissions_ok_def clear_score_def dict_ok_def comp_def case_prod_beta)

lemma released_ok_clear: "released_ok (clear_score sc)"
  by (auto simp: released_ok_def clear_score_def reset_submission_def filter_mset_eq_conv)

section \<open>Nothing is raised\<close>

lemma extra_scores_ok:
  assumes "submission_ok s"
  shows "\<exists>row. extra_scores s = Inr row \<and> row \<noteq> [] \<and> (\<forall>x\<in>set row. 0 \<le> x)"
proof -
  have "\<exists>ys. res_map py_float (rs_extra s) = Inr ys \<and> length ys = length (rs_extra s) \<and> (\<forall>x\<in>set ys. 0 \<le> x)"
    by (rule res_map_total) (use assms in \<open>auto simp: submission_ok_def extra_ok_def\<close>)
  then show ?thesis using assms by (auto simp: extra_scores_def submission_ok_def)
qed

lemma subtask_rows_ok:
  assumes "submissions_ok sc"
  obtains rows where "res_map extra_scores (map snd (sc_submissions sc)) = Inr rows" "length rows = length (sc_submissions sc)"
    "\<forall>row\<in>set rows. row \<noteq> [] \<and> (\<forall>x\<in>set row. 0 \<le> x)"
proof -
  have "\<exists>rows. res_map extra_scores (map snd (sc_submissions sc)) = Inr rows \<and> length rows = length (map snd (sc_submissions sc)) \<and>
      (\<forall>row\<in>set rows. row \<noteq> [] \<and> (\<forall>x\<in>set row. 0 \<le> x))"
    by (rule res_map_total) (use assms extra_scores_ok in \<open>fastforce simp: submissions_ok_def\<close>)
  then show ?thesis using that by auto
qed

lemma current_score_ok: "submissions_ok sc \<Longrightarrow> mode_ok (sc_score_mode sc) \<Longrightarrow> \<exists>x. current_score sc = Inr x"
  by (erule subtask_rows_ok) (auto simp: current_score_def ranking_mode_score_def mode_ok_def)

text \<open>What a change does to an object with well-formed data, in one step.\<close>

definition changed :: "subchange \<Rightarrow> score \<Rightarrow> score" where
  "changed c sc =
     (let s = the (map_of (sc_submissions sc) (ch_submission c)) in
      change_last c (change_submission c (if rs_token s then sc\<lparr>sc_released := remove1 (rs_score s) (sc_released sc)\<rparr> else sc)))"

definition recorded :: "int \<Rightarrow> score \<Rightarrow> score" where
  "recorded t sc =
     (case current_score sc of
        Inl e \<Rightarrow> sc
      | Inr x \<Rightarrow> if x \<noteq> get_score sc then sc\<lparr>sc_history := sc_history sc @ [(t, x)]\<rparr> else sc)"

lemma changed_ok:
  assumes "submissions_ok sc" "released_ok sc" "change_ok c" "dict_has (sc_submissions sc) (ch_submission c)"
  shows "submissions_ok (changed c sc)" "released_ok (changed c sc)" "sc_score_mode (changed c sc) = sc_score_mode sc"
    "sc_changes (changed c sc) = sc_changes sc" "fst ` set (sc_submissions (changed c sc)) = fst ` set (sc_submissions sc)"
    "sc_history (changed c sc) = sc_history sc"
proof -
  let ?k = "ch_submission c"
  obtain s where s: "map_of (sc_submissions sc) ?k = Some s" using assms(4) by (auto simp: dict_has_def)
  have ok: "submission_ok s" using assms(1) map_of_SomeD[OF s] by (force simp: submissions_ok_def)
  let ?r = "if rs_token s then remove1 (rs_score s) (sc_released sc) else sc_released sc"
  have subs: "sc_submissions (changed c sc) = dict_set (sc_submissions sc) ?k (apply_change c s)"
    and rel: "sc_released (changed c sc) = (if rs_token (apply_change c s) then ns_insert ?r (rs_score (apply_change c s)) else ?r)"
    by (auto simp: changed_def change_last_def change_submission_def s Let_def)
  show "submissions_ok (changed c sc)"
    using assms(1) ball_dict_set[of "sc_submissions sc" submission_ok, OF _ submission_ok_apply[OF ok assms(3)]]
    unfolding submissions_ok_def subs by (simp del: ball_simps)
  have ms: "mset (sc_submissions (changed c sc)) = mset (sc_submissions sc) - {#(?k, s)#} + {#(?k, apply_change c s)#}"
    unfolding subs using mset_dict_set[OF s, of "apply_change c s"] assms(1) map_of_SomeD[OF s]
    by (metis (no_types, lifting) add_diff_cancel_right' diff_union_swap2 set_mset_mset submissions_ok_def union_single_eq_diff
        add_mset_add_single)
  show "released_ok (changed c sc)" using assms(2) map_of_SomeD[OF s]
    by (auto simp: released_ok_def ms rel ns_insert_def image_mset_Diff)
  show "sc_score_mode (changed c sc) = sc_score_mode sc" "sc_changes (changed c sc) = sc_changes sc"
      "sc_history (changed c sc) = sc_history sc"
    by (simp_all add: changed_def change_last_def change_submission_def s Let_def)
  show "fst ` set (sc_submissions (changed c sc)) = fst ` set (sc_submissions sc)"
    using map_of_SomeD[OF s] by (force simp: subs dict_set_def dom_update)
qed

lemma append_change_ok:
  assumes "submissions_ok sc" "released_ok sc" "change_ok c" "dict_has (sc_submissions sc) (ch_submission c)" "mode_ok (sc_score_mode sc)"
  shows "append_change c sc = (recorded (ch_time c) (changed c sc), Inr ())"
proof -
  obtain s where s: "map_of (sc_submissions sc) (ch_submission c) = Some s" using assms(4) by (auto simp: dict_has_def)
  have "rs_score s \<in> set (sc_released sc)" if "rs_token s"
  proof -
    have "rs_score s \<in># mset (sc_released sc)"
      using assms(2) map_of_SomeD[OF s] that unfolding released_ok_def by (force simp: image_iff)
    then show ?thesis by simp
  qed
  then have "release c sc = (if rs_token s then sc\<lparr>sc_released := remove1 (rs_score s) (sc_released sc)\<rparr> else sc, Inr ())"
    by (simp add: release_def s ns_remove_def)
  moreover obtain x where "current_score (changed c sc) = Inr x"
    using current_score_ok[OF changed_ok(1)[OF assms(1-4)]] assms(5) changed_ok(3)[OF assms(1-4)] by auto
  ultimately show ?thesis
    by (simp add: append_change_def change_history_def stm_simps recorded_def changed_def s)
qed

definition run_ok :: "score \<Rightarrow> bool" where
  "run_ok sc \<longleftrightarrow> submissions_ok sc \<and> released_ok sc \<and> mode_ok (sc_score_mode sc)"

definition changes_ok :: "score \<Rightarrow> subchange list \<Rightarrow> bool" where
  "changes_ok sc cs \<longleftrightarrow> (\<forall>c\<in>set cs. change_ok c \<and> dict_has (sc_submissions sc) (ch_submission c))"

lemma recorded_simps [simp]:
  "sc_submissions (recorded t sc) = sc_submissions sc" "sc_released (recorded t sc) = sc_released sc"
  "sc_score_mode (recorded t sc) = sc_score_mode sc" "sc_changes (recorded t sc) = sc_changes sc" "sc_last (recorded t sc) = sc_last sc"
  by (simp_all add: recorded_def split: sum.split)

lemma append_change_run_ok:
  assumes "run_ok sc" "changes_ok sc [c]"
  shows "append_change c sc = (recorded (ch_time c) (changed c sc), Inr ())" "run_ok (recorded (ch_time c) (changed c sc))"
    "fst ` set (sc_submissions (recorded (ch_time c) (changed c sc))) = fst ` set (sc_submissions sc)"
    "sc_changes (recorded (ch_time c) (changed c sc)) = sc_changes sc"
  using assms append_change_ok[of sc c] changed_ok[of sc c] unfolding run_ok_def changes_ok_def
  by (simp_all add: submissions_ok_def released_ok_def)

text \<open>Running changes one after the other.\<close>

definition run_changes :: "subchange list \<Rightarrow> score \<Rightarrow> score" where
  "run_changes cs sc = fold (\<lambda>c sc. recorded (ch_time c) (changed c sc)) cs sc"

lemma changes_ok_keys: "fst ` set (sc_submissions sc') = fst ` set (sc_submissions sc) \<Longrightarrow> changes_ok sc' cs = changes_ok sc cs"
  by (simp add: changes_ok_def dict_has_iff dom_map_of_conv_image_fst)

lemma sforeach_append_change:
  assumes "run_ok sc" "changes_ok sc cs"
  shows "sforeach cs append_change sc = (run_changes cs sc, Inr ()) \<and> run_ok (run_changes cs sc) \<and>
    fst ` set (sc_submissions (run_changes cs sc)) = fst ` set (sc_submissions sc) \<and>
    sc_changes (run_changes cs sc) = sc_changes sc"
  using assms
proof (induction cs arbitrary: sc)
  case (Cons c cs)
  have c: "changes_ok sc [c]" using Cons.prems(2) by (simp add: changes_ok_def)
  note a = append_change_run_ok[OF Cons.prems(1) c]
  have "changes_ok (recorded (ch_time c) (changed c sc)) cs"
    using Cons.prems(2) unfolding changes_ok_keys[OF a(3)] by (simp add: changes_ok_def)
  from Cons.IH[OF a(2) this] a show ?case by (simp add: stm_simps run_changes_def)
qed (simp add: stm_simps run_changes_def)

lemma reset_history_ok:
  assumes "submissions_ok sc" "mode_ok (sc_score_mode sc)" "changes_ok sc (sc_changes sc)"
  shows "reset_history sc = (run_changes (sc_changes sc) (clear_score sc), Inr ())"
proof -
  have "run_ok (clear_score sc)" using submissions_ok_clear[OF assms(1)] released_ok_clear assms(2) by (simp add: run_ok_def clear_score_def)
  moreover have "fst ` set (sc_submissions (clear_score sc)) = fst ` set (sc_submissions sc)" by (force simp: clear_score_def)
  then have "changes_ok (clear_score sc) (sc_changes sc)" using assms(3) changes_ok_keys by blast
  ultimately show ?thesis unfolding reset_history_run using sforeach_append_change by blast
qed

section \<open>A score object is the replay of its changes\<close>

definition score_ok :: "score \<Rightarrow> bool" where
  "score_ok sc \<longleftrightarrow> submissions_ok sc \<and> mode_ok (sc_score_mode sc) \<and> changes_ok sc (sc_changes sc) \<and>
     sorted_wrt change_before (sc_changes sc) \<and> run_changes (sc_changes sc) (clear_score sc) = sc"

lemma score_okI:
  assumes "submissions_ok sc" "mode_ok (sc_score_mode sc)" "changes_ok sc (sc_changes sc)" "sorted_wrt change_before (sc_changes sc)"
  shows "\<exists>sc'. reset_history sc = (sc', Inr ()) \<and> score_ok sc' \<and> sc_changes sc' = sc_changes sc \<and> clear_score sc' = clear_score sc"
proof -
  let ?r = "run_changes (sc_changes sc) (clear_score sc)"
  note reset = reset_history_ok[OF assms(1-3)]
  have ro: "run_ok (clear_score sc)" using submissions_ok_clear[OF assms(1)] released_ok_clear assms(2) by (simp add: run_ok_def clear_score_def)
  have keys: "fst ` set (sc_submissions (clear_score sc)) = fst ` set (sc_submissions sc)" by (force simp: clear_score_def)
  have co: "changes_ok (clear_score sc) (sc_changes sc)" using assms(3) changes_ok_keys[OF keys] by blast
  note run = sforeach_append_change[OF ro co]
  have cl: "clear_score ?r = clear_score sc"
    using score_replay.base_run[of "sc_changes sc" "clear_score sc"] run by (simp add: clear_clear)
  have ch: "sc_changes ?r = sc_changes sc" using run by (simp add: clear_score_def)
  have "changes_ok ?r (sc_changes sc)" using run co changes_ok_keys by blast
  then have "score_ok ?r" unfolding score_ok_def ch cl using run assms(4) by (simp add: run_ok_def)
  then show ?thesis using reset ch cl by blast
qed

lemma score_ok_run_ok:
  assumes "score_ok sc"
  shows "run_ok sc"
proof -
  have "run_ok (clear_score sc)"
    using assms submissions_ok_clear[of sc] released_ok_clear[of sc] by (simp add: score_ok_def run_ok_def clear_score_def)
  moreover have "fst ` set (sc_submissions (clear_score sc)) = fst ` set (sc_submissions sc)" by (force simp: clear_score_def)
  then have "changes_ok (clear_score sc) (sc_changes sc)" using assms changes_ok_keys unfolding score_ok_def by blast
  ultimately have "run_ok (run_changes (sc_changes sc) (clear_score sc))" using sforeach_append_change by blast
  then show ?thesis using assms by (simp add: score_ok_def)
qed

text \<open>A change does not look at the list of changes.\<close>

lemma changed_with_changes: "changed c (sc\<lparr>sc_changes := cs\<rparr>) = (changed c sc)\<lparr>sc_changes := cs\<rparr>"
  by (simp add: changed_def change_last_def change_submission_def time_of_def Let_def split: option.split)

lemma scores_with_changes [simp]:
  "current_score (sc\<lparr>sc_changes := cs\<rparr>) = current_score sc" "get_score (sc\<lparr>sc_changes := cs\<rparr>) = get_score sc"
  by (simp_all add: current_score_def get_score_def)

lemma recorded_with_changes: "recorded t (sc\<lparr>sc_changes := cs\<rparr>) = (recorded t sc)\<lparr>sc_changes := cs\<rparr>"
  by (cases "current_score sc") (simp_all add: recorded_def)

lemma run_changes_with_changes: "run_changes ds (sc\<lparr>sc_changes := cs\<rparr>) = (run_changes ds sc)\<lparr>sc_changes := cs\<rparr>"
  by (induction ds arbitrary: sc) (simp_all add: run_changes_def changed_with_changes recorded_with_changes)

lemma clear_with_changes: "clear_score (sc\<lparr>sc_changes := cs\<rparr>) = (clear_score sc)\<lparr>sc_changes := cs\<rparr>"
  by (simp add: clear_score_def)

lemma change_before_trans: "change_before a b \<Longrightarrow> change_before b c \<Longrightarrow> change_before a c"
  by (auto simp: change_before_def)

lemma change_before_total: "ch_key a \<noteq> ch_key b \<Longrightarrow> \<not> change_before a b \<Longrightarrow> change_before b a"
  by (auto simp: change_before_def)

lemma sorted_snoc_change:
  "sorted_wrt change_before cs \<Longrightarrow> cs = [] \<or> change_before (last cs) c \<Longrightarrow> sorted_wrt change_before (cs @ [c])"
  by (cases cs rule: rev_cases) (auto simp: sorted_wrt_append intro: change_before_trans)

lemma insert_change_sorted:
  assumes "sorted_wrt change_before cs" "cs \<noteq> []" "\<not> change_before (last cs) c" "\<forall>d\<in>set cs. ch_key d \<noteq> ch_key c"
  shows "sorted_wrt change_before (insert_change c cs) \<and> set (insert_change c cs) = insert c (set cs)"
  using assms
proof (induction cs)
  case (Cons d ds)
  show ?case
  proof (cases "change_before c d")
    case False
    then have d: "change_before d c" using Cons.prems(4) change_before_total by fastforce
    then have "ds \<noteq> []" using Cons.prems(3) by auto
    then show ?thesis using Cons d False by auto
  qed (use Cons.prems change_before_trans in auto)
qed simp

section \<open>Operations keep score objects well formed\<close>

lemma create_subchange_ok:
  assumes "score_ok sc" "change_ok c" "dict_has (sc_submissions sc) (ch_submission c)" "\<forall>d\<in>set (sc_changes sc). ch_key d \<noteq> ch_key c"
  shows "\<exists>sc'. create_subchange c sc = (sc', Inr ()) \<and> score_ok sc' \<and> set (sc_changes sc') = insert c (set (sc_changes sc)) \<and>
    clear_score (sc'\<lparr>sc_changes := []\<rparr>) = clear_score (sc\<lparr>sc_changes := []\<rparr>)"
proof -
  let ?cs = "sc_changes sc"
  have co: "changes_ok sc (c # ?cs)" using assms(1-3) by (simp add: score_ok_def changes_ok_def)
  have sub: "submissions_ok sc" "mode_ok (sc_score_mode sc)" "sorted_wrt change_before ?cs" using assms(1) by (simp_all add: score_ok_def)
  show ?thesis
  proof (cases "?cs = [] \<or> change_before (last ?cs) c")
    case True
    let ?sc = "sc\<lparr>sc_changes := ?cs @ [c]\<rparr>"
    let ?r = "recorded (ch_time c) (changed c ?sc)"
    have ro: "run_ok ?sc" "changes_ok ?sc [c]"
      using score_ok_run_ok[OF assms(1)] co by (simp_all add: run_ok_def submissions_ok_def released_ok_def changes_ok_def)
    note a = append_change_run_ok[OF ro]
    have run: "run_changes (?cs @ [c]) (clear_score ?sc) = ?r"
      using assms(1) unfolding clear_with_changes run_changes_with_changes score_ok_def
      by (simp add: run_changes_def changed_with_changes recorded_with_changes)
    have cl: "clear_score ?r = clear_score ?sc" using clear_append_change[of c ?sc] a(1) by simp
    have "changes_ok ?r (?cs @ [c])"
      using co unfolding changes_ok_keys[OF a(3)] by (auto simp: changes_ok_def)
    then have "score_ok ?r"
      using a(2,4) run cl sorted_snoc_change[OF sub(3) True] by (simp add: score_ok_def run_ok_def)
    moreover have "create_subchange c sc = (?r, Inr ())" using True a(1) by (simp add: create_subchange_def stm_simps)
    moreover have "clear_score (?r\<lparr>sc_changes := []\<rparr>) = clear_score (sc\<lparr>sc_changes := []\<rparr>)"
      using cl unfolding clear_with_changes by simp
    ultimately show ?thesis using a(4) by auto
  next
    case False
    let ?sc = "sc\<lparr>sc_changes := insert_change c ?cs\<rparr>"
    have ins: "sorted_wrt change_before (insert_change c ?cs)" "set (insert_change c ?cs) = insert c (set ?cs)"
      using insert_change_sorted[OF sub(3) _ _ assms(4)] False by auto
    have "submissions_ok ?sc" "mode_ok (sc_score_mode ?sc)" "changes_ok ?sc (sc_changes ?sc)" "sorted_wrt change_before (sc_changes ?sc)"
      using sub(1,2) co ins by (simp_all add: submissions_ok_def changes_ok_def)
    from score_okI[OF this] obtain sc' where sc': "reset_history ?sc = (sc', Inr ())" "score_ok sc'"
        "sc_changes sc' = insert_change c ?cs" "clear_score sc' = clear_score ?sc" by auto
    have "changes_ok sc' (sc_changes sc')" using sc'(2) by (simp add: score_ok_def)
    then have "dict_has (sc_submissions sc') (ch_submission c)" using ins(2) by (simp add: sc'(3) changes_ok_def)
    then show ?thesis
      using False sc' ins(2) by (auto simp: create_subchange_def stm_simps log_reset_def clear_with_changes)
  qed
qed

text \<open>The operations that change the data and reset the history.\<close>

lemma reset_after_ok:
  assumes "submissions_ok (f sc)" "mode_ok (sc_score_mode (f sc))" "changes_ok (f sc) (sc_changes (f sc))"
    "sorted_wrt change_before (sc_changes (f sc))"
  shows "\<exists>sc'. sthen (supd f) reset_history sc = (sc', Inr ()) \<and> score_ok sc' \<and> sc_changes sc' = sc_changes (f sc) \<and>
    clear_score sc' = clear_score (f sc)"
  using score_okI[OF assms] by (simp add: stm_simps)

lemma sorted_update_change:
  assumes "sorted_wrt change_before cs" "\<forall>d\<in>set cs. ch_key d = ch_key c \<longrightarrow> ch_time d = ch_time c"
  shows "sorted_wrt change_before (map (\<lambda>d. if ch_key d = ch_key c then c else d) cs)"
proof -
  let ?f = "\<lambda>d. if ch_key d = ch_key c then c else d"
  have "change_before (?f x) (?f y)" if "x \<in> set cs" "y \<in> set cs" "change_before x y" for x y
    using that assms(2) by (auto simp: change_before_def)
  then have "sorted_wrt (\<lambda>x y. change_before (?f x) (?f y)) cs" by (rule sorted_wrt_mono_rel[OF _ assms(1)])
  then show ?thesis by (simp only: sorted_wrt_map)
qed

lemma update_subchange_ok:
  assumes "score_ok sc" "change_ok c" "dict_has (sc_submissions sc) (ch_submission c)"
    "\<forall>d\<in>set (sc_changes sc). ch_key d = ch_key c \<longrightarrow> ch_time d = ch_time c"
  shows "\<exists>sc'. update_subchange (ch_key c) c sc = (sc', Inr ()) \<and> score_ok sc' \<and>
    sc_changes sc' = map (\<lambda>d. if ch_key d = ch_key c then c else d) (sc_changes sc) \<and>
    clear_score (sc'\<lparr>sc_changes := []\<rparr>) = clear_score (sc\<lparr>sc_changes := []\<rparr>)"
proof -
  let ?cs = "map (\<lambda>d. if ch_key d = ch_key c then c else d) (sc_changes sc)"
  let ?sc = "sc\<lparr>sc_changes := ?cs\<rparr>"
  have "submissions_ok ?sc" "mode_ok (sc_score_mode ?sc)" "changes_ok ?sc (sc_changes ?sc)" "sorted_wrt change_before (sc_changes ?sc)"
    using assms sorted_update_change[of "sc_changes sc" c] by (auto simp: score_ok_def submissions_ok_def changes_ok_def)
  from score_okI[OF this] obtain sc' where sc': "reset_history ?sc = (sc', Inr ())" "score_ok sc'"
      "sc_changes sc' = ?cs" "clear_score sc' = clear_score ?sc" by auto
  have "map fst (sc_submissions (clear_score sc')) = map fst (sc_submissions (clear_score ?sc))" using sc'(4) by simp
  then have "map fst (sc_submissions sc') = map fst (sc_submissions sc)" by (simp add: clear_score_def comp_def case_prod_beta)
  then have "dict_has (sc_submissions sc') (ch_submission c)"
    using assms(3) by (metis dict_has_iff dom_map_of_conv_image_fst set_map)
  then show ?thesis using sc' by (auto simp: update_subchange_def stm_simps log_reset_def clear_with_changes)
qed

lemma delete_subchange_ok:
  assumes "score_ok sc"
  shows "\<exists>sc'. delete_subchange k sc = (sc', Inr ()) \<and> score_ok sc' \<and>
    sc_changes sc' = filter (\<lambda>d. ch_key d \<noteq> k) (sc_changes sc) \<and>
    clear_score (sc'\<lparr>sc_changes := []\<rparr>) = clear_score (sc\<lparr>sc_changes := []\<rparr>)"
proof -
  let ?sc = "sc\<lparr>sc_changes := filter (\<lambda>d. ch_key d \<noteq> k) (sc_changes sc)\<rparr>"
  have "submissions_ok ?sc" "mode_ok (sc_score_mode ?sc)" "changes_ok ?sc (sc_changes ?sc)" "sorted_wrt change_before (sc_changes ?sc)"
    using assms by (auto simp: score_ok_def submissions_ok_def changes_ok_def sorted_wrt_filter)
  from score_okI[OF this] obtain sc' where sc': "reset_history ?sc = (sc', Inr ())" "score_ok sc'"
      "sc_changes sc' = sc_changes ?sc" "clear_score sc' = clear_score ?sc" by auto
  then show ?thesis by (auto simp: delete_subchange_def stm_simps clear_with_changes)
qed

lemma update_submission_ok:
  assumes "score_ok sc" "dict_has (sc_submissions sc) k" "submission_ok s"
  shows "\<exists>sc'. update_submission k s sc = (sc', Inr ()) \<and> score_ok sc' \<and> sc_changes sc' = sc_changes sc \<and>
    clear_score sc' = clear_score (sc\<lparr>sc_submissions := dict_set (sc_submissions sc) k s\<rparr>)"
proof -
  let ?f = "\<lambda>sc. sc\<lparr>sc_submissions := dict_set (sc_submissions sc) k s\<rparr>"
  have "submissions_ok (?f sc)" "mode_ok (sc_score_mode (?f sc))" "changes_ok (?f sc) (sc_changes (?f sc))"
      "sorted_wrt change_before (sc_changes (?f sc))"
    using assms ball_dict_set[of "sc_submissions sc" submission_ok s k]
    by (auto simp: score_ok_def submissions_ok_def changes_ok_def dict_has_set simp del: ball_simps)
  from reset_after_ok[of ?f, OF this] show ?thesis by (simp add: update_submission_def)
qed

lemma delete_submission_ok:
  assumes "score_ok sc" "dict_has (sc_submissions sc) k"
  shows "\<exists>sc'. delete_submission k sc = (sc', Inr ()) \<and> score_ok sc' \<and>
    sc_changes sc' = filter (\<lambda>d. ch_submission d \<noteq> k) (sc_changes sc) \<and>
    clear_score (sc'\<lparr>sc_changes := []\<rparr>) = clear_score (sc\<lparr>sc_submissions := AList.delete k (sc_submissions sc), sc_changes := []\<rparr>)"
proof -
  let ?sc = "sc\<lparr>sc_submissions := AList.delete k (sc_submissions sc), sc_changes := filter (\<lambda>d. ch_submission d \<noteq> k) (sc_changes sc)\<rparr>"
  have "submissions_ok ?sc"
    using assms(1) by (auto simp: score_ok_def submissions_ok_def AList.delete_eq dict_ok_def distinct_map_filter)
  moreover have "mode_ok (sc_score_mode ?sc)" "changes_ok ?sc (sc_changes ?sc)" "sorted_wrt change_before (sc_changes ?sc)"
    using assms by (auto simp: score_ok_def changes_ok_def sorted_wrt_filter dict_has_delete)
  ultimately obtain sc' where sc': "reset_history ?sc = (sc', Inr ())" "score_ok sc'"
      "sc_changes sc' = sc_changes ?sc" "clear_score sc' = clear_score ?sc" using score_okI[of ?sc] by auto
  have "clear_score (sc'\<lparr>sc_changes := []\<rparr>) = clear_score (?sc\<lparr>sc_changes := []\<rparr>)" unfolding clear_with_changes sc'(4) by simp
  then show ?thesis using sc' assms(2) by (simp add: delete_submission_def stm_simps)
qed

section \<open>Submissions without changes and the order of submissions do not matter\<close>

lemma py_max_Max: "py_max d xs = (if xs = [] then d else Max (set xs))"
  using Max.set_eq_fold[of "hd xs" "tl xs"] by (cases xs) (simp_all add: py_max_def)

lemma py_max_nonneg: "\<forall>x\<in>set xs. 0 \<le> x \<Longrightarrow> py_max 0 xs = Max (insert 0 (set xs))"
proof (cases xs)
  case (Cons a list)
  assume "\<forall>x\<in>set xs. 0 \<le> x"
  then have "0 \<le> a" "a \<le> Max (set xs)" by (simp_all add: Cons)
  then have "0 \<le> Max (set xs)" by linarith
  moreover have "Max (insert 0 (set xs)) = max 0 (Max (set xs))" by (rule Max_insert) (simp_all add: Cons)
  ultimately show ?thesis by (simp add: py_max_Max Cons)
qed (simp add: py_max_Max)

definition row :: "ranking_submission \<Rightarrow> real list" where
  "row s = (case extra_scores s of Inl e \<Rightarrow> [] | Inr r \<Rightarrow> r)"

lemma res_map_Inr: "(\<forall>x\<in>set xs. f x = Inr (g x)) \<Longrightarrow> res_map f xs = Inr (map g xs)"
  by (induction xs) auto

definition column :: "real list list \<Rightarrow> nat \<Rightarrow> real" where
  "column rows i = Max (insert 0 ((\<lambda>r. if i < length r then r ! i else 0) ` set rows))"

lemma fold_max_Max: "fold max ns (0 :: nat) = Max (insert 0 (set ns))"
  by (metis List.finite_set Max.insert_not_elem Max.set_eq_fold list.simps(15))

lemma subtask_sum_eq:
  assumes "\<forall>r\<in>set rows. \<forall>x\<in>set r. 0 \<le> x"
  shows "sum_list (map (py_max 0) (zip_longest 0 rows)) = (\<Sum>i<Max (insert 0 (length ` set rows)). column rows i)"
proof -
  have "py_max 0 (map (\<lambda>r. if i < length r then r ! i else 0) rows) = column rows i" for i
    unfolding column_def set_map[symmetric] by (rule py_max_nonneg) (use assms in auto)
  then have "map (py_max 0) (zip_longest 0 rows) = map (column rows) [0..<fold max (map length rows) 0]"
    by (simp add: zip_longest_def comp_def)
  then show ?thesis by (simp add: interv_sum_list_conv_sum_set_nat fold_max_Max atLeast0LessThan)
qed

lemma row_ok: "submission_ok s \<Longrightarrow> extra_scores s = Inr (row s) \<and> row s \<noteq> [] \<and> (\<forall>x\<in>set (row s). 0 \<le> x)"
  using extra_scores_ok[of s] by (auto simp: row_def)

lemma row_reset: "row (reset_submission s) = [0]"
  by (simp add: row_def extra_scores_def reset_submission_def)

text \<open>Two lists of submissions with the same ones, except for some without changes in the second.\<close>

lemma subtask_sum_cong:
  assumes "\<forall>r\<in>R. r \<noteq> [] \<and> (\<forall>x\<in>set r. (0 :: real) \<le> x)" "R \<noteq> {}" "set rows = R" "set rows' = R \<or> set rows' = insert [0] R"
  shows "sum_list (map (py_max 0) (zip_longest 0 rows')) = sum_list (map (py_max 0) (zip_longest 0 rows))"
proof -
  have fin: "finite R" using assms(3) by auto
  obtain r where r: "r \<in> R" "1 \<le> length r" using assms(1,2) by (metis Suc_leI One_nat_def all_not_in_conv length_greater_0_conv)
  have "Max (insert 0 (length ` insert [0] R)) = Max (insert 0 (length ` R))"
  proof (rule Max_eq_if)
    show "\<forall>n\<in>insert 0 (length ` insert [0] R). \<exists>m\<in>insert 0 (length ` R). n \<le> m" using r by auto
  qed (use fin in auto)
  then have n: "Max (insert 0 (length ` set rows')) = Max (insert 0 (length ` set rows))" using assms(3,4) by auto
  have c: "column rows' i = column rows i" for i
  proof -
    have "(if i < length [0 :: real] then [0] ! i else 0) = (0 :: real)" by simp
    then show ?thesis using assms(3,4) unfolding column_def by (elim disjE) (simp_all only: image_insert insert_absorb2)
  qed
  have "\<forall>r\<in>set rows'. \<forall>x\<in>set r. 0 \<le> x" "\<forall>r\<in>set rows. \<forall>x\<in>set r. 0 \<le> x" using assms by auto
  then show ?thesis by (simp only: subtask_sum_eq n c)
qed

definition sim :: "(string \<times> ranking_submission) multiset \<Rightarrow> score \<Rightarrow> score \<Rightarrow> bool" where
  "sim Z a b \<longleftrightarrow> mset (sc_submissions b) = mset (sc_submissions a) + Z \<and> (\<forall>(k, s)\<in>#Z. s = reset_submission s) \<and>
     submissions_ok a \<and> submissions_ok b \<and> sc_released b = sc_released a \<and> sc_last b = sc_last a \<and>
     sc_history b = sc_history a \<and> sc_score_mode b = sc_score_mode a \<and>
     (\<forall>k. sc_last a = Some k \<longrightarrow> dict_has (sc_submissions a) k)"

lemma sim_lookup:
  assumes "sim Z a b" "map_of (sc_submissions a) k = Some s"
  shows "map_of (sc_submissions b) k = Some s"
proof -
  have "(k, s) \<in># mset (sc_submissions b)" using assms map_of_SomeD[OF assms(2)] by (simp add: sim_def)
  then show ?thesis using assms(1) by (simp add: sim_def submissions_ok_def dict_ok_def)
qed

lemma sim_score:
  assumes "sim Z a b" "sc_submissions a \<noteq> []" "mode_ok (sc_score_mode a)"
  shows "current_score b = current_score a"
proof -
  let ?a = "set (map snd (sc_submissions a))" and ?b = "set (map snd (sc_submissions b))" and ?z = "snd ` set_mset Z"
  have "set_mset (mset (sc_submissions b)) = set_mset (mset (sc_submissions a)) \<union> set_mset Z" using assms(1) by (simp add: sim_def)
  then have b: "?b = ?a \<union> ?z" by (simp add: image_Un)
  have z: "s = reset_submission s" if "s \<in> ?z" for s using that assms(1) by (auto simp: sim_def)
  have reset0: "rs_score (reset_submission s) = 0" for s by (simp add: reset_submission_def)
  have z0: "rs_score s = 0" "row s = [0]" if "s \<in> ?z" for s
    using reset0[of s] row_reset[of s] unfolding z[OF that, symmetric] .
  have oka: "\<forall>s\<in>?a. submission_ok s" and okb: "\<forall>s\<in>?b. submission_ok s" using assms(1) by (auto simp: sim_def submissions_ok_def)
  have "py_max 0 (map rs_score (map snd (sc_submissions b))) = py_max 0 (map rs_score (map snd (sc_submissions a)))"
  proof -
    have "insert 0 (rs_score ` ?b) = insert 0 (rs_score ` ?a)" unfolding b using z0(1) by (auto simp: image_Un)
    then show ?thesis
      using py_max_nonneg[of "map rs_score (map snd (sc_submissions b))"] py_max_nonneg[of "map rs_score (map snd (sc_submissions a))"] oka okb
      by (simp add: submission_ok_def image_image del: map_map)
  qed
  moreover have "res_map extra_scores (map snd (sc_submissions x)) = Inr (map row (map snd (sc_submissions x)))"
    if "\<forall>s\<in>set (map snd (sc_submissions x)). submission_ok s" for x
    by (rule res_map_Inr) (use that row_ok in blast)
  note rows = this[OF oka] this[OF okb]
  have "row ` ?b = row ` ?a \<or> row ` ?b = insert [0] (row ` ?a)" unfolding b using z0(2) by (cases "?z = {}") (auto simp: image_Un)
  then have "sum_list (map (py_max 0) (zip_longest 0 (map row (map snd (sc_submissions b))))) =
      sum_list (map (py_max 0) (zip_longest 0 (map row (map snd (sc_submissions a)))))"
    by (intro subtask_sum_cong[where R = "row ` ?a"]) (use assms(2) oka row_ok in \<open>auto simp: image_image\<close>)
  moreover have "map_of (sc_submissions b) k = map_of (sc_submissions a) k" if "sc_last a = Some k" for k
    using that assms(1) sim_lookup[OF assms(1), of k] by (auto simp: sim_def dict_has_def)
  ultimately show ?thesis
    using assms(1,3) rows unfolding current_score_def ranking_mode_score_def mode_ok_def sim_def
    by (auto simp: Let_def simp del: map_map split: option.split)
qed

lemma changed_fields:
  assumes "map_of (sc_submissions sc) (ch_submission c) = Some s"
  shows "sc_submissions (changed c sc) = dict_set (sc_submissions sc) (ch_submission c) (apply_change c s)"
    "sc_released (changed c sc) =
       (let r = (if rs_token s then remove1 (rs_score s) (sc_released sc) else sc_released sc)
        in if rs_token (apply_change c s) then ns_insert r (rs_score (apply_change c s)) else r)"
    "sc_last (changed c sc) =
       (if ch_score c \<noteq> None \<and> (case sc_last sc of None \<Rightarrow> True | Some k \<Rightarrow> time_of sc k < rs_time s) then Some (ch_submission c) else sc_last sc)"
    "sc_history (changed c sc) = sc_history sc" "sc_score_mode (changed c sc) = sc_score_mode sc"
  using assms
  by (auto simp: changed_def change_last_def change_submission_def time_of_def map_of_dict_set Let_def split: option.splits)

lemma sim_step:
  assumes "sim Z a b" "mode_ok (sc_score_mode a)" "released_ok a" "released_ok b" "changes_ok a [c]"
  shows "sim Z (recorded t (changed c a)) (recorded t (changed c b))"
proof -
  obtain s where s: "map_of (sc_submissions a) (ch_submission c) = Some s" using assms(5) by (auto simp: changes_ok_def dict_has_def)
  note s' = sim_lookup[OF assms(1) s]
  have ok: "submissions_ok a" "submissions_ok b" "change_ok c" using assms(1,5) by (simp_all add: sim_def changes_ok_def)
  note da = changed_ok[OF ok(1) assms(3) ok(3)] and db = changed_ok[OF ok(2) assms(4) ok(3)]
  have m: "mset (dict_set (sc_submissions x) (ch_submission c) (apply_change c s)) + {#(ch_submission c, s)#} =
      mset (sc_submissions x) + {#(ch_submission c, apply_change c s)#}"
    if "map_of (sc_submissions x) (ch_submission c) = Some s" "submissions_ok x" for x
    by (rule mset_dict_set) (use that in \<open>simp_all add: submissions_ok_def\<close>)
  have ms: "mset (sc_submissions (changed c b)) = mset (sc_submissions (changed c a)) + Z"
  proof -
    let ?x = "{#(ch_submission c, s)#}" and ?y = "{#(ch_submission c, apply_change c s)#}"
    have "mset (sc_submissions (changed c b)) + ?x = mset (sc_submissions a) + Z + ?y"
      using m[OF s' ok(2)] assms(1) by (simp add: sim_def changed_fields(1)[OF s'])
    also have "\<dots> = mset (sc_submissions a) + ?y + Z" by simp
    also have "\<dots> = mset (sc_submissions (changed c a)) + ?x + Z" using m[OF s ok(1)] by (simp add: changed_fields(1)[OF s])
    finally show ?thesis by simp
  qed
  have tm: "time_of b k = time_of a k" if "sc_last a = Some k" for k
    using that assms(1) sim_lookup[OF assms(1), of k] by (auto simp: sim_def time_of_def dict_has_def)
  have last: "sc_last (changed c b) = sc_last (changed c a)"
    unfolding changed_fields(3)[OF s] changed_fields(3)[OF s'] using assms(1) tm by (auto simp: sim_def split: option.split)
  have "sim Z (changed c a) (changed c b)"
    unfolding sim_def using ms assms(1) da(1) db(1) s s' last
    by (auto simp: sim_def changed_fields[OF s] changed_fields[OF s'] dict_has_set split: option.splits if_splits)
  moreover have "current_score (changed c b) = current_score (changed c a)"
    by (rule sim_score[OF calculation]) (use assms(2) map_of_SomeD[OF s] in \<open>auto simp: changed_fields[OF s] dict_set_def\<close>)
  ultimately show ?thesis by (cases "current_score (changed c a)") (auto simp: recorded_def sim_def get_score_def submissions_ok_def)
qed

lemma sim_run:
  assumes "sim Z a b" "run_ok a" "run_ok b" "changes_ok a cs"
  shows "sim Z (run_changes cs a) (run_changes cs b)"
  using assms
proof (induction cs arbitrary: a b)
  case (Cons c cs)
  have k: "fst ` set (sc_submissions a) \<subseteq> fst ` set (sc_submissions b)"
  proof -
    have "set_mset (mset (sc_submissions b)) = set_mset (mset (sc_submissions a)) \<union> set_mset Z" using Cons.prems(1) by (simp add: sim_def)
    then show ?thesis by auto
  qed
  have c: "changes_ok a [c]" using Cons.prems(4) by (simp add: changes_ok_def)
  have c': "changes_ok b [c]" using c k by (auto simp: changes_ok_def dict_has_iff dom_map_of_conv_image_fst)
  note a = append_change_run_ok[OF Cons.prems(2) c] and b = append_change_run_ok[OF Cons.prems(3) c']
  have "changes_ok (recorded (ch_time c) (changed c a)) cs"
    using Cons.prems(4) unfolding changes_ok_keys[OF a(3)] by (simp add: changes_ok_def)
  moreover have "sim Z (recorded (ch_time c) (changed c a)) (recorded (ch_time c) (changed c b))"
    by (rule sim_step[OF Cons.prems(1) _ _ _ c]) (use Cons.prems(2,3) in \<open>simp_all add: run_ok_def\<close>)
  ultimately show ?case using Cons.IH[OF _ a(2) b(2)] by (simp add: run_changes_def)
qed (simp add: run_changes_def)

lemma map_of_inject_keys: "map fst xs = map fst ys \<Longrightarrow> distinct (map fst ys) \<Longrightarrow> mset xs = mset ys \<Longrightarrow> xs = ys"
proof (induction xs arbitrary: ys)
  case (Cons x xs)
  then obtain y ys' where y: "ys = y # ys'" "fst x = fst y" "map fst xs = map fst ys'" by auto
  have "x \<in> set ys" using Cons.prems(3) by (metis list.set_intros(1) set_mset_mset)
  then have "x = y" using Cons.prems(2) y by (auto simp: image_iff)
  then show ?case using Cons y by simp
qed simp

text \<open>The state a score object is recomputed from.\<close>

lemma clear_ok:
  assumes "score_ok sc"
  shows "run_ok (clear_score sc)" "changes_ok (clear_score sc) (sc_changes sc)"
proof -
  have k: "fst ` set (sc_submissions (clear_score sc)) = fst ` set (sc_submissions sc)" by (force simp: clear_score_def)
  show "run_ok (clear_score sc)" using assms submissions_ok_clear[of sc] released_ok_clear[of sc]
    by (simp add: score_ok_def run_ok_def clear_score_def)
  show "changes_ok (clear_score sc) (sc_changes sc)" using assms changes_ok_keys[OF k] by (simp add: score_ok_def)
qed

lemma create_submission_ok:
  assumes "score_ok sc" "\<not> dict_has (sc_submissions sc) k"
  shows "score_ok (create_submission k s sc)"
proof -
  let ?sc = "create_submission k s sc"
  have subs: "sc_submissions ?sc = sc_submissions sc @ [(k, reset_submission s)]"
    by (simp add: create_submission_def dict_set_absent[OF assms(2)])
  have so: "submissions_ok ?sc" using assms unfolding submissions_ok_def score_ok_def subs
    by (force simp: dict_ok_def dict_has_iff dom_map_of_conv_image_fst)
  have mo: "mode_ok (sc_score_mode ?sc)" "sc_changes ?sc = sc_changes sc" using assms(1) by (simp_all add: score_ok_def create_submission_def)
  have co: "changes_ok ?sc (sc_changes ?sc)"
    using assms(1) unfolding mo(2) by (auto simp: score_ok_def changes_ok_def create_submission_def dict_has_set)
  have st: "sorted_wrt change_before (sc_changes ?sc)" using assms(1) mo(2) by (simp add: score_ok_def)
  obtain r where r: "reset_history ?sc = (r, Inr ())" "score_ok r" "sc_changes r = sc_changes ?sc" "clear_score r = clear_score ?sc"
    using score_okI[OF so mo(1) co st] by auto
  have r': "r = run_changes (sc_changes sc) (clear_score ?sc)" using reset_history_ok[OF so mo(1) co] r(1) mo(2) by simp
  have "sim {#(k, reset_submission s)#} (clear_score sc) (clear_score ?sc)"
    using submissions_ok_clear[of sc] submissions_ok_clear[OF so] assms(1)
    by (simp add: sim_def clear_score_def score_ok_def) (simp add: create_submission_def dict_set_absent[OF assms(2)])
  then have "sim {#(k, reset_submission s)#} (run_changes (sc_changes sc) (clear_score sc)) r"
    unfolding r' using clear_ok[OF assms(1)] clear_ok(1)[OF r(2)] r(4) by (intro sim_run) simp_all
  then have sm: "sim {#(k, reset_submission s)#} sc r" using assms(1) by (simp add: score_ok_def)
  have "map fst (sc_submissions (clear_score r)) = map fst (sc_submissions (clear_score ?sc))" using r(4) by simp
  then have keys: "map fst (sc_submissions r) = map fst (sc_submissions ?sc)" by (simp add: clear_score_def comp_def case_prod_beta)
  have "sc_submissions r = sc_submissions ?sc"
  proof (rule map_of_inject_keys)
    show "mset (sc_submissions r) = mset (sc_submissions ?sc)" using sm subs by (simp add: sim_def)
  qed (use keys so in \<open>simp_all add: submissions_ok_def dict_ok_def\<close>)
  then have "r = ?sc"
    using sm r(3) by (intro score.equality) (simp_all add: sim_def create_submission_def)
  then show ?thesis using r(2) by simp
qed

section \<open>Runs\<close>

text \<open>What the scoring store does with a score object, for well-formed data: keys of submissions and changes are fresh
  when they are created, a change belongs to a submission of the object and keeps its time when it
  is updated.\<close>

inductive score_run :: "string \<Rightarrow> score \<Rightarrow> bool" for mode where
  run_init: "score_run mode (score_init mode)"
| run_create_submission: "score_run mode sc \<Longrightarrow> \<not> dict_has (sc_submissions sc) k \<Longrightarrow> score_run mode (create_submission k s sc)"
| run_update_submission: "score_run mode sc \<Longrightarrow> dict_has (sc_submissions sc) k \<Longrightarrow>
    update_submission k (reset_submission s) sc = (sc', r) \<Longrightarrow> score_run mode sc'"
| run_delete_submission: "score_run mode sc \<Longrightarrow> dict_has (sc_submissions sc) k \<Longrightarrow> delete_submission k sc = (sc', r) \<Longrightarrow> score_run mode sc'"
| run_create_subchange: "score_run mode sc \<Longrightarrow> change_ok c \<Longrightarrow> dict_has (sc_submissions sc) (ch_submission c) \<Longrightarrow>
    \<forall>d\<in>set (sc_changes sc). ch_key d \<noteq> ch_key c \<Longrightarrow> create_subchange c sc = (sc', r) \<Longrightarrow> score_run mode sc'"
| run_update_subchange: "score_run mode sc \<Longrightarrow> change_ok c \<Longrightarrow> dict_has (sc_submissions sc) (ch_submission c) \<Longrightarrow>
    \<forall>d\<in>set (sc_changes sc). ch_key d = ch_key c \<longrightarrow> ch_time d = ch_time c \<Longrightarrow> update_subchange (ch_key c) c sc = (sc', r) \<Longrightarrow> score_run mode sc'"
| run_delete_subchange: "score_run mode sc \<Longrightarrow> delete_subchange k sc = (sc', r) \<Longrightarrow> score_run mode sc'"

lemma mode_of_clear: "clear_score a = clear_score b \<Longrightarrow> sc_score_mode a = sc_score_mode b"
  by (drule arg_cong[where f = sc_score_mode]) (simp add: clear_score_def)

lemma score_run_ok: "score_run mode sc \<Longrightarrow> mode_ok mode \<Longrightarrow> score_ok sc \<and> sc_score_mode sc = mode"
proof (induction rule: score_run.induct)
  case run_init
  then show ?case
    by (simp add: score_ok_def submissions_ok_def changes_ok_def score_init_def run_changes_def clear_score_def)
next
  case (run_create_submission sc k s)
  then show ?case using create_submission_ok[of sc k s] by (simp add: create_submission_def)
next
  case (run_update_submission sc k s sc' r)
  have ok: "score_ok sc'" "clear_score sc' = clear_score (sc\<lparr>sc_submissions := dict_set (sc_submissions sc) k (reset_submission s)\<rparr>)"
    using update_submission_ok[of sc k "reset_submission s"] run_update_submission by auto
  show ?case using ok(1) mode_of_clear[OF ok(2)] run_update_submission by simp
next
  case (run_delete_submission sc k sc' r)
  then show ?case using delete_submission_ok[of sc k] mode_of_clear[of "sc'\<lparr>sc_changes := []\<rparr>"] by fastforce
next
  case (run_create_subchange sc c sc' r)
  then show ?case using create_subchange_ok[of sc c] mode_of_clear[of "sc'\<lparr>sc_changes := []\<rparr>"] by fastforce
next
  case (run_update_subchange sc c sc' r)
  then show ?case using update_subchange_ok[of sc c] mode_of_clear[of "sc'\<lparr>sc_changes := []\<rparr>"] by fastforce
next
  case (run_delete_subchange sc k sc' r)
  then show ?case using delete_subchange_ok[of sc k] mode_of_clear[of "sc'\<lparr>sc_changes := []\<rparr>"] by fastforce
qed

text \<open>The score shown is the one of the score mode for the current submissions.\<close>

lemma current_score_clear:
  assumes "mode_ok (sc_score_mode sc)"
  shows "current_score (clear_score sc) = Inr 0"
proof -
  let ?ss = "map snd (sc_submissions (clear_score sc))"
  have z: "rs_score s = 0 \<and> extra_scores s = Inr [0]" if "s \<in> set ?ss" for s
    using that by (auto simp: clear_score_def extra_scores_def reset_submission_def)
  have z0: "\<forall>x\<in>set (map rs_score ?ss). x = 0" unfolding set_map[of rs_score] using z by blast
  then have "insert 0 (set (map rs_score ?ss)) = {0}" by blast
  moreover have "\<forall>x\<in>set (map rs_score ?ss). 0 \<le> x" using z0 by (metis order_refl)
  ultimately have m: "py_max 0 (map rs_score ?ss) = 0" by (simp only: py_max_nonneg Max_singleton)
  have "res_map extra_scores ?ss = Inr (map (\<lambda>_. [0]) ?ss)" by (rule res_map_Inr) (use z in blast)
  moreover have "sum_list (map (py_max 0) (zip_longest 0 (map (\<lambda>_. [0]) ?ss))) = 0"
  proof (subst subtask_sum_eq)
    have "insert 0 ((\<lambda>r. if i < length r then r ! i else 0) ` set (map (\<lambda>_. [0 :: real]) ?ss)) = {0}" for i by auto
    then have "column (map (\<lambda>_. [0]) ?ss) i = 0" for i unfolding column_def by (simp only: Max_singleton)
    then show "(\<Sum>i<Max (insert 0 (length ` set (map (\<lambda>_. [0 :: real]) ?ss))). column (map (\<lambda>_. [0]) ?ss) i) = 0" by simp
  qed auto
  moreover have "sc_released (clear_score sc) = []" "sc_last (clear_score sc) = None" "sc_score_mode (clear_score sc) = sc_score_mode sc"
    by (simp_all add: clear_score_def)
  ultimately show ?thesis
    using m assms by (auto simp: current_score_def ranking_mode_score_def mode_ok_def Let_def ns_query_def py_max_def simp del: map_map)
qed

lemma current_score_recorded: "current_score sc = Inr x \<Longrightarrow> current_score (recorded t sc) = Inr (get_score (recorded t sc))"
  by (simp add: recorded_def current_score_def get_score_def)

lemma score_ok_current:
  assumes "score_ok sc"
  shows "current_score sc = Inr (get_score sc)"
proof (cases "sc_changes sc" rule: rev_cases)
  case Nil
  then have "sc = clear_score sc" using assms by (simp add: score_ok_def run_changes_def)
  moreover have "get_score (clear_score sc) = 0" by (simp add: get_score_def clear_score_def)
  ultimately show ?thesis using current_score_clear[of sc] assms by (simp add: score_ok_def)
next
  case (snoc cs c)
  let ?r = "run_changes cs (clear_score sc)"
  have sc: "sc = recorded (ch_time c) (changed c ?r)" using assms snoc by (simp add: score_ok_def run_changes_def)
  have "current_score (changed c ?r) = current_score sc" by (subst (2) sc) (simp add: current_score_def)
  moreover obtain x where "current_score sc = Inr x" using current_score_ok[of sc] assms by (auto simp: score_ok_def)
  ultimately show ?thesis using current_score_recorded[of "changed c ?r" x "ch_time c"] sc by simp
qed


lemma sorted_changes_unique:
  "sorted_wrt change_before cs \<Longrightarrow> sorted_wrt change_before ds \<Longrightarrow> set cs = set ds \<Longrightarrow> cs = ds"
proof (induction cs arbitrary: ds)
  case (Cons c cs)
  then obtain d ds' where d: "ds = d # ds'" by (cases ds) auto
  have asym: "\<not> (change_before x y \<and> change_before y x)" for x y by (auto simp: change_before_def)
  have "c = d"
  proof (rule ccontr)
    assume "c \<noteq> d"
    then have "d \<in> set cs" "c \<in> set ds'" using Cons.prems(3) d by auto
    then have "change_before c d" "change_before d c" using Cons.prems(1,2) d by auto
    then show False using asym by blast
  qed
  moreover have "c \<notin> set cs" "d \<notin> set ds'" using Cons.prems(1,2) d asym by auto
  ultimately have "set cs = set ds'" using Cons.prems(3) d by (metis list.simps(15) Diff_insert_absorb)
  then show ?case using Cons.IH[of ds'] Cons.prems(1,2) d \<open>c = d\<close> by simp
qed simp

lemma history_unique:
  assumes "score_ok a" "score_ok b" "sc_score_mode a = sc_score_mode b" "set (sc_changes a) = set (sc_changes b)"
    "set (sc_submissions (clear_score a)) = set (sc_submissions (clear_score b))"
  shows "sc_history a = sc_history b"
proof -
  note ok = assms(1-3)
  have cs: "sc_changes a = sc_changes b" using ok assms(4) sorted_changes_unique by (simp add: score_ok_def)
  have "distinct (map fst (sc_submissions (clear_score x)))" if "score_ok x" for x
    using clear_ok(1)[OF that] by (simp add: run_ok_def submissions_ok_def dict_ok_def)
  then have "distinct (sc_submissions (clear_score a))" "distinct (sc_submissions (clear_score b))" using ok by (auto simp: distinct_map)
  then have "mset (sc_submissions (clear_score a)) = mset (sc_submissions (clear_score b))"
    using assms(5) set_eq_iff_mset_eq_distinct by blast
  then have "sim {#} (clear_score a) (clear_score b)"
    using clear_ok(1)[OF ok(1)] clear_ok(1)[OF ok(2)] ok(3) by (simp add: sim_def run_ok_def) (simp add: clear_score_def)
  then have "sim {#} (run_changes (sc_changes a) (clear_score a)) (run_changes (sc_changes b) (clear_score b))"
    unfolding cs[symmetric] using clear_ok[OF ok(1)] clear_ok(1)[OF ok(2)] by (intro sim_run) simp_all
  then show ?thesis using ok by (simp add: sim_def score_ok_def)
qed


definition example_ranking_submission :: ranking_submission where
  "example_ranking_submission = \<lparr>rs_user = ''u'', rs_task = ''t'', rs_time = 10, rs_score = 0, rs_token = False, rs_extra = []\<rparr>"

definition example_change1 :: subchange where
  "example_change1 = \<lparr>ch_key = ''10s'', ch_submission = ''s1'', ch_time = 10, ch_score = Some 40, ch_token = None, ch_extra = Some []\<rparr>"

definition example_change2 :: subchange where
  "example_change2 = \<lparr>ch_key = ''12t'', ch_submission = ''s1'', ch_time = 12, ch_score = None, ch_token = Some True, ch_extra = None\<rparr>"

definition example_score :: score where
  "example_score = create_submission ''s1'' example_ranking_submission (score_init ''max_tokened_last'')"

definition example_in_order :: score where
  "example_in_order = fst (create_subchange example_change2 (fst (create_subchange example_change1 example_score)))"

definition example_out_of_order :: score where
  "example_out_of_order = fst (create_subchange example_change1 (fst (create_subchange example_change2 example_score)))"

lemma example_score_run: "score_run ''max_tokened_last'' example_score"
  unfolding example_score_def by (rule run_create_submission[OF run_init]) (simp add: score_init_def dict_has_def)

lemma example_create:
  assumes "score_run ''max_tokened_last'' sc" "c = example_change1 \<or> c = example_change2" "dict_has (sc_submissions sc) ''s1''"
    "\<forall>d\<in>set (sc_changes sc). ch_key d \<noteq> ch_key c"
  shows "score_run ''max_tokened_last'' (fst (create_subchange c sc))"
  by (rule run_create_subchange[OF assms(1), of c _ "snd (create_subchange c sc)"])
    (use assms(2-4) in \<open>auto simp: example_change1_def example_change2_def change_ok_def extra_ok_def\<close>)

lemma example_values:
  "sc_changes (fst (create_subchange example_change1 example_score)) = [example_change1]"
  "sc_changes (fst (create_subchange example_change2 example_score)) = [example_change2]"
  "sc_changes example_in_order = [example_change1, example_change2]" "sc_changes example_out_of_order = [example_change1, example_change2]"
  "map fst (sc_submissions (fst (create_subchange example_change1 example_score))) = [''s1'']"
  "map fst (sc_submissions (fst (create_subchange example_change2 example_score))) = [''s1'']"
  "sc_submissions (clear_score example_in_order) = sc_submissions (clear_score example_out_of_order)"
  by code_simp+

lemma example_runs:
  "score_run ''max_tokened_last'' example_in_order" "score_run ''max_tokened_last'' example_out_of_order"
proof -
  have has: "dict_has d ''s1''" if "map fst d = [''s1'']" for d :: "(string, ranking_submission) dict"
    using that by (cases d) (auto simp: dict_has_def)
  have "map fst (sc_submissions example_score) = [''s1'']" "sc_changes example_score = []" by code_simp+
  note first = example_create[OF example_score_run _ has[OF this(1)]]
  show "score_run ''max_tokened_last'' example_in_order" "score_run ''max_tokened_last'' example_out_of_order"
    unfolding example_in_order_def example_out_of_order_def
    by (rule example_create; (rule first)?;
        simp add: has example_values \<open>sc_changes example_score = []\<close>; simp add: example_change1_def example_change2_def)+
qed



end
