(* ===== verification/Ranking_Entities.thy ===== *)
theory Ranking_Entities
  imports Ranking_Score
begin

text \<open>
  The entities of the ranking web server (\<^verbatim>\<open>cmsranking/Contest.py\<close>, \<^verbatim>\<open>Task.py\<close>, \<^verbatim>\<open>Team.py\<close>, \<^verbatim>\<open>User.py\<close>, \<^verbatim>\<open>Submission.py\<close>,
  \<^verbatim>\<open>Subchange.py\<close>): what \<open>set\<close> accepts and what \<open>get\<close> gives back. The data is JSON as \<open>json.load\<close> returns it. A
  Python bool is an int, with the values 0 and 1. Every failed assertion and missing field of
  \<open>validate\<close> is reported as \<open>InvalidData\<close>. The attributes \<open>score\<close>, \<open>token\<close> and \<open>extra\<close> that the scoring adds to a
  submission are kept in the score objects; \<open>get\<close> removes them.
\<close>

datatype json_value =
    JNull
  | JBool bool
  | JInt int
  | JFloat real
  | JString string
  | JList "json_value list"
  | JDict "(string \<times> json_value) list"

section \<open>Reading fields\<close>

definition jfield :: "(string, json_value) dict \<Rightarrow> string \<Rightarrow> json_value res" where
  "jfield d k = (case map_of d k of None \<Rightarrow> Inl InvalidData | Some j \<Rightarrow> Inr j)"

definition jstring :: "json_value \<Rightarrow> string res" where
  "jstring j = (case j of JString s \<Rightarrow> Inr s | _ \<Rightarrow> Inl InvalidData)"

definition jint :: "json_value \<Rightarrow> int res" where
  "jint j = (case j of JInt i \<Rightarrow> Inr i | JBool b \<Rightarrow> Inr (if b then 1 else 0) | _ \<Rightarrow> Inl InvalidData)"

definition jfloat :: "json_value \<Rightarrow> real res" where
  "jfloat j = (case j of JFloat x \<Rightarrow> Inr x | _ \<Rightarrow> Inl InvalidData)"

definition jbool :: "json_value \<Rightarrow> bool res" where
  "jbool j = (case j of JBool b \<Rightarrow> Inr b | _ \<Rightarrow> Inl InvalidData)"

definition jlist :: "json_value \<Rightarrow> json_value list res" where
  "jlist j = (case j of JList js \<Rightarrow> Inr js | _ \<Rightarrow> Inl InvalidData)"

definition jstrings :: "json_value \<Rightarrow> string list res" where
  "jstrings j = res_bind (jlist j) (res_map jstring)"

definition joptional :: "(json_value \<Rightarrow> 'a res) \<Rightarrow> json_value \<Rightarrow> 'a option res" where
  "joptional f j = (case j of JNull \<Rightarrow> Inr None | _ \<Rightarrow> res_bind (f j) (\<lambda>x. Inr (Some x)))"

text \<open>A field that may be missing.\<close>

definition jmaybe :: "(string, json_value) dict \<Rightarrow> string \<Rightarrow> (json_value \<Rightarrow> 'a res) \<Rightarrow> 'a option res" where
  "jmaybe d k f = (case map_of d k of None \<Rightarrow> Inr None | Some j \<Rightarrow> res_bind (f j) (\<lambda>x. Inr (Some x)))"

definition jassert :: "bool \<Rightarrow> unit res" where
  "jassert b = (if b then Inr () else Inl InvalidData)"

abbreviation jget :: "(string, json_value) dict \<Rightarrow> string \<Rightarrow> (json_value \<Rightarrow> 'a res) \<Rightarrow> ('a \<Rightarrow> 'b res) \<Rightarrow> 'b res" where
  "jget d k f g \<equiv> res_bind (res_bind (jfield d k) f) g"

section \<open>Entities\<close>

record contest_entity =
  ce_name :: string
  ce_begin :: int
  ce_end :: int
  ce_score_precision :: int

record task_entity =
  te_name :: string
  te_short_name :: string
  te_contest :: string
  te_max_score :: real
  te_score_precision :: int
  te_extra_headers :: "string list"
  te_order :: int
  te_score_mode :: string

record user_entity =
  ue_f_name :: string
  ue_l_name :: string
  ue_team :: "string option"

record submission_entity =
  se_user :: string
  se_task :: string
  se_time :: int

record subchange_entity =
  he_submission :: string
  he_time :: int
  he_score :: "real option"
  he_token :: "bool option"
  he_extra :: "string list option"

datatype entity =
    E_contest contest_entity
  | E_task task_entity
  | E_team string
  | E_user user_entity
  | E_submission submission_entity
  | E_subchange subchange_entity

datatype store_kind = K_contest | K_task | K_team | K_user | K_submission | K_subchange

section \<open>Setting\<close>

definition contest_set :: "(string, json_value) dict \<Rightarrow> contest_entity res" where
  "contest_set d =
     jget d ''name'' jstring (\<lambda>name.
     jget d ''begin'' jint (\<lambda>b.
     jget d ''end'' jint (\<lambda>e.
     res_bind (jassert (b \<le> e)) (\<lambda>_.
     jget d ''score_precision'' jint (\<lambda>p.
     res_bind (jassert (0 \<le> p)) (\<lambda>_.
       Inr \<lparr>ce_name = name, ce_begin = b, ce_end = e, ce_score_precision = p\<rparr>))))))"

definition task_set :: "(string, json_value) dict \<Rightarrow> task_entity res" where
  "task_set d =
     jget d ''name'' jstring (\<lambda>name.
     jget d ''short_name'' jstring (\<lambda>short_name.
     jget d ''contest'' jstring (\<lambda>contest.
     jget d ''max_score'' jfloat (\<lambda>max_score.
     jget d ''score_precision'' jint (\<lambda>p.
     res_bind (jassert (0 \<le> p)) (\<lambda>_.
     jget d ''extra_headers'' jlist (\<lambda>_.
     jget d ''score_mode'' jstring (\<lambda>score_mode.
     jget d ''extra_headers'' jstrings (\<lambda>extra_headers.
     jget d ''order'' jint (\<lambda>ord.
       Inr \<lparr>te_name = name, te_short_name = short_name, te_contest = contest, te_max_score = max_score, te_score_precision = p,
            te_extra_headers = extra_headers, te_order = ord, te_score_mode = score_mode\<rparr>))))))))))"

definition team_set :: "(string, json_value) dict \<Rightarrow> string res" where
  "team_set d = jget d ''name'' jstring Inr"

definition user_set :: "(string, json_value) dict \<Rightarrow> user_entity res" where
  "user_set d =
     jget d ''f_name'' jstring (\<lambda>f_name.
     jget d ''l_name'' jstring (\<lambda>l_name.
     jget d ''team'' (joptional jstring) (\<lambda>team.
       Inr \<lparr>ue_f_name = f_name, ue_l_name = l_name, ue_team = team\<rparr>)))"

definition submission_set :: "(string, json_value) dict \<Rightarrow> submission_entity res" where
  "submission_set d =
     jget d ''user'' jstring (\<lambda>user.
     jget d ''task'' jstring (\<lambda>task.
     jget d ''time'' jint (\<lambda>time.
       Inr \<lparr>se_user = user, se_task = task, se_time = time\<rparr>)))"

definition subchange_set :: "(string, json_value) dict \<Rightarrow> subchange_entity res" where
  "subchange_set d =
     jget d ''submission'' jstring (\<lambda>submission.
     jget d ''time'' jint (\<lambda>time.
     res_bind (jmaybe d ''score'' jfloat) (\<lambda>score.
     res_bind (jmaybe d ''token'' jbool) (\<lambda>token.
     res_bind (jmaybe d ''extra'' jstrings) (\<lambda>extra.
       Inr \<lparr>he_submission = submission, he_time = time, he_score = score, he_token = token, he_extra = extra\<rparr>)))))"

text \<open>\<open>item = self._entity(); item.set(data)\<close>, for the class of the store.\<close>

definition entity_set :: "store_kind \<Rightarrow> json_value \<Rightarrow> entity res" where
  "entity_set k data =
     (case data of
        JDict d \<Rightarrow>
          (case k of
             K_contest \<Rightarrow> res_bind (contest_set d) (\<lambda>e. Inr (E_contest e))
           | K_task \<Rightarrow> res_bind (task_set d) (\<lambda>e. Inr (E_task e))
           | K_team \<Rightarrow> res_bind (team_set d) (\<lambda>e. Inr (E_team e))
           | K_user \<Rightarrow> res_bind (user_set d) (\<lambda>e. Inr (E_user e))
           | K_submission \<Rightarrow> res_bind (submission_set d) (\<lambda>e. Inr (E_submission e))
           | K_subchange \<Rightarrow> res_bind (subchange_set d) (\<lambda>e. Inr (E_subchange e)))
      | _ \<Rightarrow> Inl InvalidData)"

section \<open>Getting\<close>

definition some_field :: "string \<Rightarrow> ('a \<Rightarrow> json_value) \<Rightarrow> 'a option \<Rightarrow> (string, json_value) dict" where
  "some_field k f x = (case x of None \<Rightarrow> [] | Some y \<Rightarrow> [(k, f y)])"

fun entity_get :: "entity \<Rightarrow> json_value" where
  "entity_get (E_contest e) =
     JDict [(''name'', JString (ce_name e)), (''begin'', JInt (ce_begin e)), (''end'', JInt (ce_end e)),
       (''score_precision'', JInt (ce_score_precision e))]"
| "entity_get (E_task e) =
     JDict [(''name'', JString (te_name e)), (''short_name'', JString (te_short_name e)), (''contest'', JString (te_contest e)),
       (''max_score'', JFloat (te_max_score e)), (''extra_headers'', JList (map JString (te_extra_headers e))),
       (''order'', JInt (te_order e)), (''score_mode'', JString (te_score_mode e)), (''score_precision'', JInt (te_score_precision e))]"
| "entity_get (E_team name) = JDict [(''name'', JString name)]"
| "entity_get (E_user e) =
     JDict [(''f_name'', JString (ue_f_name e)), (''l_name'', JString (ue_l_name e)),
       (''team'', case ue_team e of None \<Rightarrow> JNull | Some t \<Rightarrow> JString t)]"
| "entity_get (E_submission e) =
     JDict [(''user'', JString (se_user e)), (''task'', JString (se_task e)), (''time'', JInt (se_time e))]"
| "entity_get (E_subchange e) =
     JDict ([(''submission'', JString (he_submission e)), (''time'', JInt (he_time e))] @
       some_field ''score'' JFloat (he_score e) @ some_field ''token'' JBool (he_token e) @
       some_field ''extra'' (\<lambda>es. JList (map JString es)) (he_extra e))"

fun kind_of :: "entity \<Rightarrow> store_kind" where
  "kind_of (E_contest _) = K_contest"
| "kind_of (E_task _) = K_task"
| "kind_of (E_team _) = K_team"
| "kind_of (E_user _) = K_user"
| "kind_of (E_submission _) = K_submission"
| "kind_of (E_subchange _) = K_subchange"

section \<open>What is accepted\<close>

lemmas json_defs = jfield_def jstring_def jint_def jfloat_def jbool_def jlist_def jstrings_def joptional_def jmaybe_def jassert_def

lemma entity_set_kind: "entity_set k j = Inr e \<Longrightarrow> kind_of e = k"
  by (auto simp: entity_set_def res_simps split: json_value.splits store_kind.splits)

text \<open>Only \<open>InvalidData\<close> is raised.\<close>

lemma res_map_jstring_raises: "res_map jstring xs = Inl e \<Longrightarrow> e = InvalidData"
  by (induction xs) (auto simp: res_bind_Inl_iff jstring_def split: json_value.splits)

lemma json_raises:
  "jfield d k = Inl e \<Longrightarrow> e = InvalidData" "jstring j = Inl e \<Longrightarrow> e = InvalidData" "jint j = Inl e \<Longrightarrow> e = InvalidData"
  "jfloat j = Inl e \<Longrightarrow> e = InvalidData" "jbool j = Inl e \<Longrightarrow> e = InvalidData" "jassert b = Inl e \<Longrightarrow> e = InvalidData"
  "jlist j = Inl e \<Longrightarrow> e = InvalidData" "jstrings j = Inl e \<Longrightarrow> e = InvalidData" "joptional jstring j = Inl e \<Longrightarrow> e = InvalidData"
  "jmaybe d k jfloat = Inl e \<Longrightarrow> e = InvalidData" "jmaybe d k jbool = Inl e \<Longrightarrow> e = InvalidData" "jmaybe d k jstrings = Inl e \<Longrightarrow> e = InvalidData"
  by (auto simp: json_defs res_bind_Inl_iff dest: res_map_jstring_raises split: option.splits json_value.splits if_splits)

lemma entity_set_raises: "entity_set k j = Inl e \<Longrightarrow> e = InvalidData"
  unfolding entity_set_def contest_set_def task_set_def team_set_def user_set_def submission_set_def subchange_set_def
  by (cases j; cases k) (auto simp: res_bind_Inl_iff dest: json_raises)

text \<open>The entities that \<open>set\<close> produces.\<close>

fun entity_valid :: "entity \<Rightarrow> bool" where
  "entity_valid (E_contest e) \<longleftrightarrow> ce_begin e \<le> ce_end e \<and> 0 \<le> ce_score_precision e"
| "entity_valid (E_task e) \<longleftrightarrow> 0 \<le> te_score_precision e"
| "entity_valid _ \<longleftrightarrow> True"

lemma entity_set_valid: "entity_set k j = Inr e \<Longrightarrow> entity_valid e"
  by (auto simp: entity_set_def contest_set_def task_set_def jassert_def res_simps split: json_value.splits store_kind.splits if_splits)

lemma res_map_jstring [simp]: "res_map jstring (map JString xs) = Inr xs"
  by (induction xs) (simp_all add: jstring_def)

text \<open>(C30) Entities survive the way through JSON: whatever \<open>set\<close> accepts is a valid entity of the class, and
  what \<open>get\<close> makes of an entity is accepted again and gives the same entity. Data that is not
  accepted raises \<open>InvalidData\<close> and nothing else.\<close>

theorem entity_json_roundtrip:
  "(entity_valid e \<longrightarrow> entity_set (kind_of e) (entity_get e) = Inr e) \<and>
   (\<forall>k j. (\<exists>e'. entity_set k j = Inr e' \<and> entity_valid e' \<and> kind_of e' = k) \<or> entity_set k j = Inl InvalidData)"
proof
  show "entity_valid e \<longrightarrow> entity_set (kind_of e) (entity_get e) = Inr e"
    by (cases e) (auto simp: entity_set_def contest_set_def task_set_def team_set_def user_set_def submission_set_def subchange_set_def
        json_defs some_field_def split: option.splits)
  show "\<forall>k j. (\<exists>e'. entity_set k j = Inr e' \<and> entity_valid e' \<and> kind_of e' = k) \<or> entity_set k j = Inl InvalidData"
  proof (intro allI)
    fix k j
    show "(\<exists>e'. entity_set k j = Inr e' \<and> entity_valid e' \<and> kind_of e' = k) \<or> entity_set k j = Inl InvalidData"
      by (cases "entity_set k j") (use entity_set_raises entity_set_valid entity_set_kind in auto)
  qed
qed

theorem entity_json_roundtrip_witness:
  "entity_set K_subchange (entity_get (E_subchange \<lparr>he_submission = ''7'', he_time = 12, he_score = Some 40, he_token = None, he_extra = Some [''40'']\<rparr>)) =
     Inr (E_subchange \<lparr>he_submission = ''7'', he_time = 12, he_score = Some 40, he_token = None, he_extra = Some [''40'']\<rparr>)"
  using entity_json_roundtrip[of "E_subchange \<lparr>he_submission = ''7'', he_time = 12, he_score = Some 40, he_token = None, he_extra = Some [''40'']\<rparr>"]
  by simp

end
