(* ===== verification/Ranking_Server.thy ===== *)
theory Ranking_Server
  imports Ranking_Entities
begin

text \<open>
  The state of the ranking web server and the requests that change it: the stores of entities (\<^verbatim>\<open>cmsranking/Store.py\<close>),
  the scoring store that listens to them (class \<open>ScoringStore\<close> of \<^verbatim>\<open>cmsranking/Scoring.py\<close>) and the request handlers
  (\<^verbatim>\<open>cmsranking/RankingWebServer.py\<close>). All stores are one state, because deleting an entity deletes the ones that refer to
  it in other stores. The files of a store are the JSON values they hold; \<open>rk_disk_ok\<close> says whether
  writing and removing files works at the moment, as a failure is only logged. The callbacks are those that \<open>main\<close> registers: the
  scoring store on submissions and changes, the data watcher on the other stores and on scores; the
  latter sends events. All requests run under one lock.
\<close>

datatype ranking_event =
    Ev_entity store_kind string string
  | Ev_score string string real

record ranking_state =
  rk_store :: "store_kind \<Rightarrow> (string, entity) dict"
  rk_disk :: "store_kind \<Rightarrow> (string, json_value) dict"
  rk_disk_ok :: bool
  rk_scores :: "(string, (string, score) dict) dict"
  rk_events :: "ranking_event list"

section \<open>Stores\<close>

text \<open>\<open>consistent\<close>: the entities an entity refers to exist.\<close>

fun consistent :: "(store_kind \<Rightarrow> (string, entity) dict) \<Rightarrow> entity \<Rightarrow> bool" where
  "consistent stores (E_contest e) = True"
| "consistent stores (E_task e) = dict_has (stores K_contest) (te_contest e)"
| "consistent stores (E_team e) = True"
| "consistent stores (E_user e) = (case ue_team e of None \<Rightarrow> True | Some t \<Rightarrow> dict_has (stores K_team) t)"
| "consistent stores (E_submission e) = (dict_has (stores K_task) (se_task e) \<and> dict_has (stores K_user) (se_user e))"
| "consistent stores (E_subchange e) = dict_has (stores K_submission) (he_submission e)"

definition put_entity :: "store_kind \<Rightarrow> string \<Rightarrow> entity \<Rightarrow> ranking_state \<Rightarrow> ranking_state" where
  "put_entity k key e st = st\<lparr>rk_store := (rk_store st)(k := dict_set (rk_store st k) key e)\<rparr>"

definition remove_entity :: "store_kind \<Rightarrow> string \<Rightarrow> ranking_state \<Rightarrow> ranking_state" where
  "remove_entity k key st = st\<lparr>rk_store := (rk_store st)(k := AList.delete key (rk_store st k))\<rparr>"

definition write_file :: "store_kind \<Rightarrow> string \<Rightarrow> json_value \<Rightarrow> ranking_state \<Rightarrow> ranking_state" where
  "write_file k key j st =
     (if rk_disk_ok st then st\<lparr>rk_disk := (rk_disk st)(k := dict_set (rk_disk st k) key j)\<rparr> else st)"

definition remove_file :: "store_kind \<Rightarrow> string \<Rightarrow> ranking_state \<Rightarrow> ranking_state" where
  "remove_file k key st =
     (if rk_disk_ok st then st\<lparr>rk_disk := (rk_disk st)(k := AList.delete key (rk_disk st k))\<rparr> else st)"

definition send_event :: "ranking_event \<Rightarrow> ranking_state \<Rightarrow> ranking_state" where
  "send_event ev st = st\<lparr>rk_events := rk_events st @ [ev]\<rparr>"

section \<open>The scoring store\<close>

definition find_score :: "ranking_state \<Rightarrow> string \<Rightarrow> string \<Rightarrow> score res" where
  "find_score st user task = res_bind (dict_get (rk_scores st) user) (\<lambda>d. dict_get d task)"

definition put_score :: "string \<Rightarrow> string \<Rightarrow> score \<Rightarrow> ranking_state \<Rightarrow> ranking_state" where
  "put_score user task sc st =
     st\<lparr>rk_scores := dict_set (rk_scores st) user
          (dict_set (case map_of (rk_scores st) user of None \<Rightarrow> [] | Some d \<Rightarrow> d) task sc)\<rparr>"

text \<open>An operation on a score object, with the callbacks when the score has changed.\<close>

definition on_score :: "string \<Rightarrow> string \<Rightarrow> (score, unit) stm \<Rightarrow> (ranking_state, unit) stm" where
  "on_score user task m = (\<lambda>st.
     case find_score st user task of
       Inl e \<Rightarrow> (st, Inl e)
     | Inr sc \<Rightarrow>
         (case m sc of
            (sc', Inl e) \<Rightarrow> (put_score user task sc' st, Inl e)
          | (sc', Inr _) \<Rightarrow>
              (let st' = put_score user task sc' st in
               if get_score sc \<noteq> get_score sc' then (send_event (Ev_score user task (get_score sc')) st', Inr ())
               else (st', Inr ()))))"

definition entity_submission :: "submission_entity \<Rightarrow> ranking_submission" where
  "entity_submission e =
     \<lparr>rs_user = se_user e, rs_task = se_task e, rs_time = se_time e, rs_score = 0, rs_token = False, rs_extra = []\<rparr>"

definition entity_subchange :: "string \<Rightarrow> subchange_entity \<Rightarrow> subchange" where
  "entity_subchange key e =
     \<lparr>ch_key = key, ch_submission = he_submission e, ch_time = he_time e, ch_score = he_score e, ch_token = he_token e, ch_extra = he_extra e\<rparr>"

text \<open>\<open>self.task_store.retrieve(key)["score_mode"]\<close>.\<close>

definition task_score_mode_of :: "ranking_state \<Rightarrow> string \<Rightarrow> string res" where
  "task_score_mode_of st task =
     (case map_of (rk_store st K_task) task of Some (E_task e) \<Rightarrow> Inr (te_score_mode e) | _ \<Rightarrow> Inl InvalidKey)"

definition new_score :: "string \<Rightarrow> string \<Rightarrow> (ranking_state, unit) stm" where
  "new_score user task = (\<lambda>st.
     let st1 = (if dict_has (rk_scores st) user then st else st\<lparr>rk_scores := dict_set (rk_scores st) user []\<rparr>) in
     case find_score st1 user task of
       Inr _ \<Rightarrow> (st1, Inr ())
     | Inl _ \<Rightarrow>
         (case task_score_mode_of st1 task of
            Inl e \<Rightarrow> (st1, Inl e)
          | Inr mode \<Rightarrow> (put_score user task (score_init mode) st1, Inr ())))"

definition ss_create_submission :: "string \<Rightarrow> submission_entity \<Rightarrow> (ranking_state, unit) stm" where
  "ss_create_submission key e =
     sthen (new_score (se_user e) (se_task e))
       (on_score (se_user e) (se_task e) (supd (create_submission key (entity_submission e))))"

text \<open>\<open>del self._scores[user][task]\<close> when no submission is left, and \<open>del self._scores[user]\<close>.\<close>

definition drop_score :: "string \<Rightarrow> string \<Rightarrow> (ranking_state, unit) stm" where
  "drop_score user task = (\<lambda>st.
     case find_score st user task of
       Inl e \<Rightarrow> (st, Inl e)
     | Inr sc \<Rightarrow>
         let d = (case map_of (rk_scores st) user of None \<Rightarrow> [] | Some d \<Rightarrow> d);
             d' = (if sc_submissions sc = [] then AList.delete task d else d)
         in (st\<lparr>rk_scores := (if d' = [] then AList.delete user (rk_scores st) else dict_set (rk_scores st) user d')\<rparr>, Inr ()))"

definition ss_delete_submission :: "string \<Rightarrow> submission_entity \<Rightarrow> (ranking_state, unit) stm" where
  "ss_delete_submission key e =
     sthen (on_score (se_user e) (se_task e) (delete_submission key)) (drop_score (se_user e) (se_task e))"

definition ss_update_submission :: "string \<Rightarrow> submission_entity \<Rightarrow> submission_entity \<Rightarrow> (ranking_state, unit) stm" where
  "ss_update_submission key old_e e =
     (if se_user old_e \<noteq> se_user e \<or> se_task old_e \<noteq> se_task e then
        sthen (ss_delete_submission key old_e) (ss_create_submission key e)
      else
        sbind (\<lambda>st. (st, task_score_mode_of st (se_task e))) (\<lambda>mode.
          on_score (se_user e) (se_task e)
            (sthen (update_submission key (entity_submission e)) (supd (update_score_mode mode)))))"

text \<open>\<open>self.submission_store._store[key]\<close>.\<close>

definition stored_submission :: "ranking_state \<Rightarrow> string \<Rightarrow> submission_entity res" where
  "stored_submission st key =
     (case map_of (rk_store st K_submission) key of Some (E_submission e) \<Rightarrow> Inr e | _ \<Rightarrow> Inl KeyError)"

definition ss_create_subchange :: "string \<Rightarrow> subchange_entity \<Rightarrow> (ranking_state, unit) stm" where
  "ss_create_subchange key e =
     sbind (\<lambda>st. (st, stored_submission st (he_submission e))) (\<lambda>s.
       on_score (se_user s) (se_task s) (create_subchange (entity_subchange key e)))"

definition ss_delete_subchange :: "string \<Rightarrow> subchange_entity \<Rightarrow> (ranking_state, unit) stm" where
  "ss_delete_subchange key e =
     sbind (sget rk_store) (\<lambda>stores.
       if \<not> dict_has (stores K_submission) (he_submission e) then sret ()
       else sbind (\<lambda>st. (st, stored_submission st (he_submission e))) (\<lambda>s.
         on_score (se_user s) (se_task s) (delete_subchange key)))"

definition ss_update_subchange :: "string \<Rightarrow> subchange_entity \<Rightarrow> subchange_entity \<Rightarrow> (ranking_state, unit) stm" where
  "ss_update_subchange key old_e e =
     (if he_submission old_e \<noteq> he_submission e then
        sthen (ss_delete_subchange key old_e) (ss_create_subchange key e)
      else
        sbind (\<lambda>st. (st, stored_submission st (he_submission e))) (\<lambda>s.
          on_score (se_user s) (se_task s) (update_subchange key (entity_subchange key e))))"

definition ss_get_score :: "ranking_state \<Rightarrow> string \<Rightarrow> string \<Rightarrow> real" where
  "ss_get_score st user task = (case find_score st user task of Inl _ \<Rightarrow> 0 | Inr sc \<Rightarrow> get_score sc)"

definition ss_get_submissions :: "ranking_state \<Rightarrow> string \<Rightarrow> string \<Rightarrow> (string, ranking_submission) dict" where
  "ss_get_submissions st user task = (case find_score st user task of Inl _ \<Rightarrow> [] | Inr sc \<Rightarrow> sc_submissions sc)"

section \<open>Operations of a store\<close>

definition create_callbacks :: "store_kind \<Rightarrow> string \<Rightarrow> entity \<Rightarrow> (ranking_state, unit) stm" where
  "create_callbacks k key e =
     (case e of
        E_submission s \<Rightarrow> ss_create_submission key s
      | E_subchange c \<Rightarrow> ss_create_subchange key c
      | _ \<Rightarrow> supd (send_event (Ev_entity k ''create'' key)))"

definition update_callbacks :: "store_kind \<Rightarrow> string \<Rightarrow> entity \<Rightarrow> entity \<Rightarrow> (ranking_state, unit) stm" where
  "update_callbacks k key old_e e =
     (case (old_e, e) of
        (E_submission s', E_submission s) \<Rightarrow> ss_update_submission key s' s
      | (E_subchange c', E_subchange c) \<Rightarrow> ss_update_subchange key c' c
      | _ \<Rightarrow> supd (send_event (Ev_entity k ''update'' key)))"

definition delete_callbacks :: "store_kind \<Rightarrow> string \<Rightarrow> entity \<Rightarrow> (ranking_state, unit) stm" where
  "delete_callbacks k key e =
     (case e of
        E_submission s \<Rightarrow> ss_delete_submission key s
      | E_subchange c \<Rightarrow> ss_delete_subchange key c
      | _ \<Rightarrow> supd (send_event (Ev_entity k ''delete'' key)))"

text \<open>\<open>item.set(data)\<close> and the test for consistency.\<close>

definition make_item :: "store_kind \<Rightarrow> json_value \<Rightarrow> (ranking_state, entity) stm" where
  "make_item k data =
     sbind (slift (entity_set k data)) (\<lambda>e.
     sbind (sget rk_store) (\<lambda>stores. if consistent stores e then sret e else sraise InvalidData))"

definition store_create :: "store_kind \<Rightarrow> string \<Rightarrow> json_value \<Rightarrow> (ranking_state, unit) stm" where
  "store_create k key data =
     sbind (sget (\<lambda>st. rk_store st k)) (\<lambda>store.
     if dict_has store key then sraise InvalidKey
     else sbind (make_item k data) (\<lambda>e.
       sthen (supd (put_entity k key e))
      (sthen (create_callbacks k key e)
             (supd (write_file k key (entity_get e))))))"

definition store_update :: "store_kind \<Rightarrow> string \<Rightarrow> json_value \<Rightarrow> (ranking_state, unit) stm" where
  "store_update k key data =
     sbind (sget (\<lambda>st. rk_store st k)) (\<lambda>store.
     case map_of store key of
       None \<Rightarrow> sraise InvalidKey
     | Some old_e \<Rightarrow>
         sbind (make_item k data) (\<lambda>e.
         sthen (supd (put_entity k key e))
        (sthen (update_callbacks k key old_e e)
               (supd (write_file k key (entity_get e))))))"

definition word_char :: "char \<Rightarrow> bool" where
  "word_char c \<longleftrightarrow> of_char c \<in> {48..57} \<union> {65..90} \<union> {95} \<union> {97..122 :: nat}"

text \<open>The first loop of \<open>merge_list\<close>: \<open>re.match\<close> only looks at the beginning of a key.\<close>

definition merge_item :: "store_kind \<Rightarrow> string \<times> json_value \<Rightarrow> (string, entity) dict \<Rightarrow> (ranking_state, (string, entity) dict) stm" where
  "merge_item k = (\<lambda>(key, data) items.
     if key = [] \<or> \<not> word_char (hd key) then sraise InvalidData
     else sbind (make_item k data) (\<lambda>e. sret (dict_set items key e)))"

definition merge_entity :: "store_kind \<Rightarrow> string \<times> entity \<Rightarrow> (ranking_state, unit) stm" where
  "merge_entity k = (\<lambda>(key, e).
     sbind (sget (\<lambda>st. map_of (rk_store st k) key)) (\<lambda>old_e.
     sthen (supd (put_entity k key e))
    (sthen (case old_e of None \<Rightarrow> create_callbacks k key e | Some old_e \<Rightarrow> update_callbacks k key old_e e)
           (supd (write_file k key (entity_get e))))))"

definition store_merge_list :: "store_kind \<Rightarrow> json_value \<Rightarrow> (ranking_state, unit) stm" where
  "store_merge_list k data =
     (case data of
        JDict items \<Rightarrow> sbind (sfold items (merge_item k) []) (\<lambda>es. sforeach es (merge_entity k))
      | _ \<Rightarrow> sraise InvalidData)"

text \<open>The stores that depend on a store, as \<open>main\<close> sets them up. Deleting an entity deletes
  inconsistent ones in these stores; the dependencies have depth \<open>store_rank\<close>, which bounds the
  recursion.\<close>

fun depends :: "store_kind \<Rightarrow> store_kind list" where
  "depends K_subchange = []"
| "depends K_submission = [K_subchange]"
| "depends K_user = [K_submission]"
| "depends K_team = [K_user]"
| "depends K_task = [K_submission]"
| "depends K_contest = [K_task]"

fun store_rank :: "store_kind \<Rightarrow> nat" where
  "store_rank K_subchange = 1"
| "store_rank K_submission = 2"
| "store_rank K_user = 3"
| "store_rank K_task = 3"
| "store_rank K_team = 4"
| "store_rank K_contest = 4"

primrec delete_rec :: "nat \<Rightarrow> store_kind \<Rightarrow> string \<Rightarrow> (ranking_state, unit) stm" where
  "delete_rec 0 k key = sraise RuntimeError"
| "delete_rec (Suc n) k key =
     sbind (sget (\<lambda>st. map_of (rk_store st k) key)) (\<lambda>old_e.
     case old_e of
       None \<Rightarrow> sraise InvalidKey
     | Some e \<Rightarrow>
         sthen (supd (remove_entity k key))
        (sthen (sforeach (depends k) (\<lambda>dep.
            sbind (sget (\<lambda>st. rk_store st dep)) (\<lambda>items.
            sforeach items (\<lambda>(o_key, o_value).
              sbind (sget rk_store) (\<lambda>stores.
                if \<not> consistent stores o_value then delete_rec n dep o_key else sret ())))))
        (sthen (delete_callbacks k key e)
               (supd (remove_file k key)))))"

definition store_delete :: "store_kind \<Rightarrow> string \<Rightarrow> (ranking_state, unit) stm" where
  "store_delete k = delete_rec (store_rank k) k"

definition store_delete_list :: "store_kind \<Rightarrow> (ranking_state, unit) stm" where
  "store_delete_list k = sbind (sget (\<lambda>st. map fst (rk_store st k))) (\<lambda>keys. sforeach keys (store_delete k))"

definition store_retrieve :: "ranking_state \<Rightarrow> store_kind \<Rightarrow> string \<Rightarrow> json_value res" where
  "store_retrieve st k key = (case map_of (rk_store st k) key of None \<Rightarrow> Inl InvalidKey | Some e \<Rightarrow> Inr (entity_get e))"

definition store_retrieve_list :: "ranking_state \<Rightarrow> store_kind \<Rightarrow> (string, json_value) dict" where
  "store_retrieve_list st k = map (\<lambda>(key, e). (key, entity_get e)) (rk_store st k)"

section \<open>Start-up\<close>

text \<open>\<open>load_from_disk\<close>: the files in the order of the directory listing, up to the first that is
  not valid.\<close>

fun load_files :: "store_kind \<Rightarrow> (string, json_value) dict \<Rightarrow> (string, entity) dict \<Rightarrow> (string, entity) dict" where
  "load_files k [] items = items"
| "load_files k ((key, j) # files) items =
     (if key = [] then load_files k files items
      else case entity_set k j of Inl _ \<Rightarrow> items | Inr e \<Rightarrow> load_files k files (dict_set items key e))"

definition ss_init_store :: "(ranking_state, unit) stm" where
  "ss_init_store =
     sbind (sget (\<lambda>st. rk_store st K_submission)) (\<lambda>subs.
     sthen (sforeach subs (\<lambda>(key, e). case e of E_submission s \<Rightarrow> ss_create_submission key s | _ \<Rightarrow> sret ()))
    (sbind (sget (\<lambda>st. rk_store st K_subchange)) (\<lambda>chs.
       sforeach (sort_key fst chs) (\<lambda>(key, e). case e of E_subchange c \<Rightarrow> ss_create_subchange key c | _ \<Rightarrow> sret ()))))"

definition server_start :: "(store_kind \<Rightarrow> (string, json_value) dict) \<Rightarrow> bool \<Rightarrow> ranking_state \<times> unit res" where
  "server_start disk ok =
     ss_init_store \<lparr>rk_store = (\<lambda>k. load_files k (disk k) []), rk_disk = disk, rk_disk_ok = ok, rk_scores = [], rk_events = []\<rparr>"

section \<open>Requests\<close>

record ranking_request =
  rq_authorized :: bool
  rq_json :: bool
  rq_body :: "json_value option"

text \<open>\<open>re.match("^[A-Za-z0-9_]+$", key)\<close>: the dollar sign also matches before a final newline.\<close>

definition key_ok :: "string \<Rightarrow> bool" where
  "key_ok key \<longleftrightarrow>
     (let k = (if key \<noteq> [] \<and> last key = CHR 0x0A then butlast key else key) in k \<noteq> [] \<and> list_all word_char k)"

text \<open>The answer to a request; an exception that is not an \<open>HTTPException\<close> is not caught here.\<close>

datatype answer = Status nat "json_value option" | Uncaught py_error

definition answer_of :: "unit res \<Rightarrow> answer" where
  "answer_of r = (case r of Inr _ \<Rightarrow> Status 204 None | Inl InvalidData \<Rightarrow> Status 400 None | Inl e \<Rightarrow> Uncaught e)"

definition handle_get :: "store_kind \<Rightarrow> string \<Rightarrow> ranking_state \<Rightarrow> answer" where
  "handle_get k key st =
     (if \<not> key_ok key then Status 200 None
      else case store_retrieve st k key of Inl _ \<Rightarrow> Status 404 None | Inr j \<Rightarrow> Status 200 (Some j))"

definition handle_get_list :: "store_kind \<Rightarrow> ranking_state \<Rightarrow> answer" where
  "handle_get_list k st = Status 200 (Some (JDict (store_retrieve_list st k)))"

definition handle_put :: "store_kind \<Rightarrow> ranking_request \<Rightarrow> string \<Rightarrow> ranking_state \<Rightarrow> ranking_state \<times> answer" where
  "handle_put k rq key st =
     (if \<not> key_ok key then (st, Status 200 None)
      else if \<not> rq_authorized rq then (st, Status 401 None)
      else if \<not> rq_json rq then (st, Status 415 None)
      else case rq_body rq of
        None \<Rightarrow> (st, Status 400 None)
      | Some data \<Rightarrow>
          (case (if dict_has (rk_store st k) key then store_update k key data st else store_create k key data st) of
             (st', r) \<Rightarrow> (st', answer_of r)))"

definition handle_put_list :: "store_kind \<Rightarrow> ranking_request \<Rightarrow> ranking_state \<Rightarrow> ranking_state \<times> answer" where
  "handle_put_list k rq st =
     (if \<not> rq_authorized rq then (st, Status 401 None)
      else if \<not> rq_json rq then (st, Status 415 None)
      else case rq_body rq of
        None \<Rightarrow> (st, Status 400 None)
      | Some data \<Rightarrow> (case store_merge_list k data st of (st', r) \<Rightarrow> (st', answer_of r)))"

definition handle_delete :: "store_kind \<Rightarrow> ranking_request \<Rightarrow> string \<Rightarrow> ranking_state \<Rightarrow> ranking_state \<times> answer" where
  "handle_delete k rq key st =
     (if \<not> key_ok key then (st, Status 200 None)
      else if \<not> dict_has (rk_store st k) key then (st, Status 404 None)
      else if \<not> rq_authorized rq then (st, Status 401 None)
      else case store_delete k key st of (st', Inr _) \<Rightarrow> (st', Status 204 None) | (st', Inl e) \<Rightarrow> (st', Uncaught e))"

definition handle_delete_list :: "store_kind \<Rightarrow> ranking_request \<Rightarrow> ranking_state \<Rightarrow> ranking_state \<times> answer" where
  "handle_delete_list k rq st =
     (if \<not> rq_authorized rq then (st, Status 401 None)
      else case store_delete_list k st of (st', Inr _) \<Rightarrow> (st', Status 204 None) | (st', Inl e) \<Rightarrow> (st', Uncaught e))"

end
