(* ===== verification/Ranking_Callbacks.thy ===== *)
theory Ranking_Callbacks
  imports Ranking_Server
begin

text \<open>
  What the scoring store holds, and what each of its callbacks does to it. \<open>scores_hold S C\<close> says that the
  scoring store of a state holds exactly the submissions \<open>S\<close> and the changes \<open>C\<close>, each in the score object of its
  user and task, and that all these objects are well formed.
\<close>

definition score_at :: "ranking_state \<Rightarrow> string \<Rightarrow> string \<Rightarrow> score option" where
  "score_at st u t = (case map_of (rk_scores st) u of None \<Rightarrow> None | Some d \<Rightarrow> map_of d t)"

lemma find_score_score_at: "find_score st u t = (case score_at st u t of None \<Rightarrow> Inl KeyError | Some sc \<Rightarrow> Inr sc)"
  by (auto simp: find_score_def score_at_def dict_get_def split: option.split)

definition scores_dict_ok :: "ranking_state \<Rightarrow> bool" where
  "scores_dict_ok st \<longleftrightarrow> dict_ok (rk_scores st) \<and> (\<forall>d\<in>snd ` set (rk_scores st). dict_ok d)"

text \<open>The submissions of a user on a task, and their changes.\<close>

definition subs_of :: "(string \<rightharpoonup> submission_entity) \<Rightarrow> string \<Rightarrow> string \<Rightarrow> string \<rightharpoonup> ranking_submission" where
  "subs_of S u t key =
     (case S key of None \<Rightarrow> None | Some e \<Rightarrow> if se_user e = u \<and> se_task e = t then Some (entity_submission e) else None)"

definition changes_of :: "(string \<rightharpoonup> submission_entity) \<Rightarrow> subchange set \<Rightarrow> string \<Rightarrow> string \<Rightarrow> subchange set" where
  "changes_of S C u t = {c \<in> C. subs_of S u t (ch_submission c) \<noteq> None}"

definition score_holds :: "string \<Rightarrow> score \<Rightarrow> (string \<rightharpoonup> ranking_submission) \<Rightarrow> subchange set \<Rightarrow> bool" where
  "score_holds mode sc subs chs \<longleftrightarrow> score_ok sc \<and> sc_score_mode sc = mode \<and> map_of (sc_submissions (clear_score sc)) = subs \<and> set (sc_changes sc) = chs"

definition scores_hold :: "(string \<Rightarrow> string) \<Rightarrow> (string \<rightharpoonup> submission_entity) \<Rightarrow> subchange set \<Rightarrow> ranking_state \<Rightarrow> bool" where
  "scores_hold M S C st \<longleftrightarrow> scores_dict_ok st \<and> inj_on ch_key C \<and> (\<forall>c\<in>C. change_ok c \<and> S (ch_submission c) \<noteq> None) \<and>
     (\<forall>u t. case score_at st u t of
        None \<Rightarrow> subs_of S u t = Map.empty
      | Some sc \<Rightarrow> subs_of S u t \<noteq> Map.empty \<and> score_holds (M t) sc (subs_of S u t) (changes_of S C u t))"

section \<open>Score objects\<close>

lemma map_of_clear: "map_of (sc_submissions (clear_score sc)) = map_option reset_submission \<circ> map_of (sc_submissions sc)"
  by (auto simp: clear_score_def map_of_map)

lemma clear_submissions_cong: "clear_score a = clear_score b \<Longrightarrow> sc_submissions (clear_score a) = sc_submissions (clear_score b)"
  by simp

lemma clear_with_changes_submissions [simp]: "sc_submissions (clear_score (sc\<lparr>sc_changes := cs\<rparr>)) = sc_submissions (clear_score sc)"
  by (simp add: clear_score_def)

lemma score_holds_has: "score_holds mode sc subs chs \<Longrightarrow> dict_has (sc_submissions sc) k \<longleftrightarrow> subs k \<noteq> None"
  by (auto simp: score_holds_def map_of_clear dict_has_def)

lemma entity_submission_simps [simp]:
  "reset_submission (entity_submission e) = entity_submission e" "submission_ok (entity_submission e)"
  by (simp_all add: reset_submission_def entity_submission_def submission_ok_def extra_ok_def)

lemma score_holds_init: "mode_ok mode \<Longrightarrow> score_holds mode (score_init mode) Map.empty {}"
  using score_run_ok[OF run_init, of mode] by (simp add: score_holds_def clear_score_def score_init_def)

lemma score_holds_create_submission:
  assumes "score_holds mode sc subs chs" "subs key = None"
  shows "score_holds mode (create_submission key (entity_submission e) sc) (subs(key \<mapsto> entity_submission e)) chs"
proof -
  have "\<not> dict_has (sc_submissions sc) key" using score_holds_has[OF assms(1)] assms(2) by simp
  then have "score_ok (create_submission key (entity_submission e) sc)"
    using assms(1) create_submission_ok by (simp add: score_holds_def)
  then show ?thesis
    using assms(1) by (auto simp: score_holds_def map_of_clear fun_eq_iff create_submission_def map_of_dict_set)
qed

lemma score_holds_update_submission:
  assumes "score_holds mode sc subs chs" "subs key \<noteq> None"
  shows "\<exists>sc'. update_submission key (entity_submission e) sc = (sc', Inr ()) \<and> score_holds mode sc' (subs(key \<mapsto> entity_submission e)) chs"
proof -
  obtain sc' where sc': "update_submission key (entity_submission e) sc = (sc', Inr ())" "score_ok sc'" "sc_changes sc' = sc_changes sc"
      "clear_score sc' = clear_score (sc\<lparr>sc_submissions := dict_set (sc_submissions sc) key (entity_submission e)\<rparr>)"
    using update_submission_ok[of sc key "entity_submission e"] assms score_holds_has[OF assms(1), of key] by (auto simp: score_holds_def)
  have "map_of (sc_submissions (clear_score sc')) = subs(key \<mapsto> entity_submission e)"
    unfolding sc'(4) map_of_clear using assms(1)
    by (auto simp: score_holds_def map_of_clear map_of_dict_set fun_eq_iff)
  then show ?thesis using sc' assms(1) mode_of_clear[OF sc'(4)] by (auto simp: score_holds_def)
qed

lemma score_holds_delete_submission:
  assumes "score_holds mode sc subs chs" "subs key \<noteq> None"
  shows "\<exists>sc'. delete_submission key sc = (sc', Inr ()) \<and> score_holds mode sc' (subs(key := None)) {c \<in> chs. ch_submission c \<noteq> key}"
proof -
  obtain sc' where sc': "delete_submission key sc = (sc', Inr ())" "score_ok sc'"
      "sc_changes sc' = filter (\<lambda>d. ch_submission d \<noteq> key) (sc_changes sc)"
      "clear_score (sc'\<lparr>sc_changes := []\<rparr>) = clear_score (sc\<lparr>sc_submissions := AList.delete key (sc_submissions sc), sc_changes := []\<rparr>)"
    using delete_submission_ok[of sc key] assms score_holds_has[OF assms(1), of key] by (auto simp: score_holds_def)
  note cl = clear_submissions_cong[OF sc'(4), unfolded clear_with_changes_submissions]
  have "map_of (sc_submissions (clear_score sc')) = subs(key := None)"
    unfolding cl map_of_clear using assms(1)
    by (auto simp: score_holds_def map_of_clear fun_eq_iff map_of_dict_del)
  then show ?thesis using sc' assms(1) mode_of_clear[OF sc'(4)] by (auto simp: score_holds_def)
qed

lemma score_holds_create_subchange:
  assumes "score_holds mode sc subs chs" "subs (ch_submission c) \<noteq> None" "change_ok c" "ch_key c \<notin> ch_key ` chs"
  shows "\<exists>sc'. create_subchange c sc = (sc', Inr ()) \<and> score_holds mode sc' subs (insert c chs)"
proof -
  obtain sc' where sc': "create_subchange c sc = (sc', Inr ())" "score_ok sc'" "set (sc_changes sc') = insert c (set (sc_changes sc))"
      "clear_score (sc'\<lparr>sc_changes := []\<rparr>) = clear_score (sc\<lparr>sc_changes := []\<rparr>)"
    using create_subchange_ok[of sc c] assms score_holds_has[OF assms(1), of "ch_submission c"]
    unfolding score_holds_def by (metis imageI)
  then show ?thesis
    using assms(1) clear_submissions_cong[OF sc'(4), unfolded clear_with_changes_submissions] mode_of_clear[OF sc'(4)]
    by (auto simp: score_holds_def)
qed

lemma score_holds_delete_subchange:
  assumes "score_holds mode sc subs chs"
  shows "\<exists>sc'. delete_subchange key sc = (sc', Inr ()) \<and> score_holds mode sc' subs {c \<in> chs. ch_key c \<noteq> key}"
proof -
  obtain sc' where sc': "delete_subchange key sc = (sc', Inr ())" "score_ok sc'" "sc_changes sc' = filter (\<lambda>d. ch_key d \<noteq> key) (sc_changes sc)"
      "clear_score (sc'\<lparr>sc_changes := []\<rparr>) = clear_score (sc\<lparr>sc_changes := []\<rparr>)"
    using delete_subchange_ok[of sc key] assms by (auto simp: score_holds_def)
  then show ?thesis
    using assms(1) clear_submissions_cong[OF sc'(4), unfolded clear_with_changes_submissions] mode_of_clear[OF sc'(4)]
    by (auto simp: score_holds_def)
qed

lemma score_holds_update_subchange:
  assumes "score_holds mode sc subs chs" "subs (ch_submission c) \<noteq> None" "change_ok c" "d \<in> chs" "ch_key d = ch_key c" "ch_time d = ch_time c" "inj_on ch_key chs"
  shows "\<exists>sc'. update_subchange (ch_key c) c sc = (sc', Inr ()) \<and> score_holds mode sc' subs (insert c (chs - {d}))"
proof -
  have uniq: "x = d" if "x \<in> chs" "ch_key x = ch_key c" for x using inj_onD[OF assms(7), of x d] that assms(4,5) by simp
  have ok: "score_ok sc" "set (sc_changes sc) = chs" using assms(1) by (simp_all add: score_holds_def)
  have has: "dict_has (sc_submissions sc) (ch_submission c)" using score_holds_has[OF assms(1)] assms(2) by simp
  have tm: "\<forall>d\<in>set (sc_changes sc). ch_key d = ch_key c \<longrightarrow> ch_time d = ch_time c" using uniq assms(6) ok(2) by blast
  obtain sc' where sc': "update_subchange (ch_key c) c sc = (sc', Inr ())" "score_ok sc'"
      "sc_changes sc' = map (\<lambda>d. if ch_key d = ch_key c then c else d) (sc_changes sc)"
      "clear_score (sc'\<lparr>sc_changes := []\<rparr>) = clear_score (sc\<lparr>sc_changes := []\<rparr>)"
    using update_subchange_ok[OF ok(1) assms(3) has tm] by blast
  have "(if ch_key x = ch_key c then c else x) = (if x = d then c else x)" if "x \<in> chs" for x
    using uniq[OF that] assms(5) by metis
  then have "(\<lambda>x. if ch_key x = ch_key c then c else x) ` chs = (\<lambda>x. if x = d then c else x) ` chs" by (rule image_cong[OF refl])
  then have "set (sc_changes sc') = insert c (chs - {d})" unfolding sc'(3) set_map ok(2) using assms(4) by auto
  then show ?thesis
    using assms(1) sc' clear_submissions_cong[OF sc'(4), unfolded clear_with_changes_submissions] mode_of_clear[OF sc'(4)]
    by (auto simp: score_holds_def)
qed

section \<open>Looking up and replacing score objects\<close>

lemma score_at_put: "score_at (put_score u t sc st) u' t' = (if u' = u \<and> t' = t then Some sc else score_at st u' t')"
  by (auto simp: score_at_def put_score_def map_of_dict_set split: option.split)

lemma scores_dict_ok_put: "scores_dict_ok st \<Longrightarrow> scores_dict_ok (put_score u t sc st)"
proof -
  assume a: "scores_dict_ok st"
  have "dict_ok (dict_set (case map_of (rk_scores st) u of None \<Rightarrow> [] | Some d \<Rightarrow> d) t sc)"
    using a by (auto simp: scores_dict_ok_def split: option.split dest!: map_of_SomeD)
  then show ?thesis using a ball_dict_set[of "rk_scores st" dict_ok]
    by (simp add: scores_dict_ok_def put_score_def del: ball_simps)
qed

text \<open>What the scoring store leaves alone.\<close>

definition same_stores :: "ranking_state \<Rightarrow> ranking_state \<Rightarrow> bool" where
  "same_stores st st' \<longleftrightarrow> rk_store st' = rk_store st \<and> rk_disk st' = rk_disk st \<and> rk_disk_ok st' = rk_disk_ok st"

lemma same_stores_simps [simp]: "same_stores st st" "same_stores st (send_event ev st') = same_stores st st'"
  "same_stores st (put_score u t sc st') = same_stores st st'" "same_stores st (st'\<lparr>rk_scores := x\<rparr>) = same_stores st st'"
  by (simp_all add: same_stores_def send_event_def put_score_def)

lemma same_stores_trans: "same_stores a b \<Longrightarrow> same_stores b c \<Longrightarrow> same_stores a c"
  by (simp add: same_stores_def)

lemma scores_hold_cong: "rk_scores st' = rk_scores st \<Longrightarrow> scores_hold M S C st' = scores_hold M S C st"
  by (simp add: scores_hold_def scores_dict_ok_def score_at_def)

lemma on_score_ok:
  assumes "score_at st u t = Some sc" "m sc = (sc', Inr ())"
  shows "\<exists>st'. on_score u t m st = (st', Inr ()) \<and> same_stores st st' \<and> rk_scores st' = rk_scores (put_score u t sc' st)"
  using assms by (auto simp: on_score_def find_score_score_at Let_def) (simp add: send_event_def)

text \<open>Replacing one score object by another that holds what it should.\<close>

lemma scores_holdD:
  assumes "scores_hold M S C st"
  shows "score_at st u t = None \<Longrightarrow> subs_of S u t = Map.empty"
    "score_at st u t = Some sc \<Longrightarrow> score_holds (M t) sc (subs_of S u t) (changes_of S C u t)"
    "inj_on ch_key C" "c \<in> C \<Longrightarrow> change_ok c" "c \<in> C \<Longrightarrow> S (ch_submission c) \<noteq> None"
    "scores_dict_ok st" "score_at st u t = Some sc \<Longrightarrow> subs_of S u t \<noteq> Map.empty"
proof -
  have "case score_at st u t of None \<Rightarrow> subs_of S u t = Map.empty
      | Some sc \<Rightarrow> subs_of S u t \<noteq> Map.empty \<and> score_holds (M t) sc (subs_of S u t) (changes_of S C u t)"
    using assms unfolding scores_hold_def by blast
  then show "score_at st u t = None \<Longrightarrow> subs_of S u t = Map.empty"
    "score_at st u t = Some sc \<Longrightarrow> score_holds (M t) sc (subs_of S u t) (changes_of S C u t)"
    "score_at st u t = Some sc \<Longrightarrow> subs_of S u t \<noteq> Map.empty" by simp_all
qed (use assms in \<open>auto simp: scores_hold_def\<close>)

lemma scores_hold_put:
  assumes "scores_hold M S C st" "scores_dict_ok st'" "\<And>u' t'. score_at st' u' t' = (if u' = u \<and> t' = t then sc else score_at st u' t')"
    "inj_on ch_key C'" "\<forall>c\<in>C'. change_ok c \<and> S' (ch_submission c) \<noteq> None"
    "case sc of None \<Rightarrow> subs_of S' u t = Map.empty
      | Some sc \<Rightarrow> subs_of S' u t \<noteq> Map.empty \<and> score_holds (M t) sc (subs_of S' u t) (changes_of S' C' u t)"
    "\<And>u' t'. (u', t') \<noteq> (u, t) \<Longrightarrow> subs_of S' u' t' = subs_of S u' t' \<and> changes_of S' C' u' t' = changes_of S C u' t'"
  shows "scores_hold M S' C' st'"
  unfolding scores_hold_def
proof (intro conjI allI ballI)
  fix u' t'
  show "case score_at st' u' t' of None \<Rightarrow> subs_of S' u' t' = Map.empty
      | Some sc \<Rightarrow> subs_of S' u' t' \<noteq> Map.empty \<and> score_holds (M t') sc (subs_of S' u' t') (changes_of S' C' u' t')"
  proof (cases "(u', t') = (u, t)")
    case True
    then show ?thesis using assms(3)[of u t] assms(6) by auto
  next
    case False
    then show ?thesis
      using assms(3)[of u' t'] assms(7)[OF False] scores_holdD(1,2,7)[OF assms(1), of u' t'] by (cases "score_at st u' t'") auto
  qed
qed (use assms(2,4,5) in simp_all)

lemma scores_hold_at:
  assumes "scores_hold M S C st" "S key = Some e"
  obtains sc where "score_at st (se_user e) (se_task e) = Some sc"
    "score_holds (M (se_task e)) sc (subs_of S (se_user e) (se_task e)) (changes_of S C (se_user e) (se_task e))"
proof -
  have "subs_of S (se_user e) (se_task e) key \<noteq> None" using assms(2) by (simp add: subs_of_def)
  then show ?thesis using that scores_holdD(1,2)[OF assms(1)] by (cases "score_at st (se_user e) (se_task e)") auto
qed

text \<open>An operation on one score object.\<close>

lemma on_score_holds:
  assumes "scores_hold M S C st" "score_at st u t = Some sc" "m sc = (sc', Inr ())"
    "inj_on ch_key C'" "\<forall>c\<in>C'. change_ok c \<and> S' (ch_submission c) \<noteq> None"
    "subs_of S' u t \<noteq> Map.empty" "score_holds (M t) sc' (subs_of S' u t) (changes_of S' C' u t)"
    "\<And>u' t'. (u', t') \<noteq> (u, t) \<Longrightarrow> subs_of S' u' t' = subs_of S u' t' \<and> changes_of S' C' u' t' = changes_of S C u' t'"
  shows "\<exists>st'. on_score u t m st = (st', Inr ()) \<and> same_stores st st' \<and> scores_hold M S' C' st'"
proof -
  obtain st' where st': "on_score u t m st = (st', Inr ())" "same_stores st st'" "rk_scores st' = rk_scores (put_score u t sc' st)"
    using on_score_ok[of st u t sc m sc', OF assms(2,3)] by blast
  have "score_at st' u' t' = score_at (put_score u t sc' st) u' t'" for u' t' using st'(3) by (simp add: score_at_def)
  moreover have "scores_dict_ok st'"
    using scores_dict_ok_put[OF scores_holdD(6)[OF assms(1)], of u t sc'] st'(3) by (simp add: scores_dict_ok_def)
  ultimately have "scores_hold M S' C' st'"
    by (intro scores_hold_put[OF assms(1), where sc = "Some sc'" and u = u and t = t]) (use assms(4-8) in \<open>auto simp: score_at_put\<close>)
  then show ?thesis using st' by blast
qed

section \<open>Callbacks\<close>

lemma subs_of_upd: "subs_of (S(key \<mapsto> e)) u t =
    (if se_user e = u \<and> se_task e = t then (subs_of S u t)(key \<mapsto> entity_submission e) else (subs_of S u t)(key := None))"
  by (auto simp: subs_of_def fun_eq_iff)

lemma ss_create_submission_ok:
  assumes "scores_hold M S C st" "S key = None" "task_score_mode_of st (se_task e) = Inr (M (se_task e))" "mode_ok (M (se_task e))"
  shows "\<exists>st'. ss_create_submission key e st = (st', Inr ()) \<and> same_stores st st' \<and> scores_hold M (S(key \<mapsto> e)) C st'"
proof -
  let ?u = "se_user e" and ?t = "se_task e"
  let ?st1 = "if dict_has (rk_scores st) ?u then st else st\<lparr>rk_scores := dict_set (rk_scores st) ?u []\<rparr>"
  have at1: "score_at ?st1 u t = score_at st u t" for u t
    by (auto simp: score_at_def map_of_dict_set dict_has_def split: option.split)
  have do1: "scores_dict_ok ?st1" using assms(1) ball_dict_set[of "rk_scores st" dict_ok "[]" ?u]
    by (auto simp: scores_hold_def scores_dict_ok_def simp del: ball_simps)
  have mode1: "task_score_mode_of ?st1 ?t = Inr (M ?t)" using assms(3) by (simp add: task_score_mode_of_def)
  have none: "subs_of S ?u ?t key = None" using assms(2) by (simp add: subs_of_def)
  obtain st2 sc where st2: "new_score ?u ?t st = (st2, Inr ())" "score_at st2 ?u ?t = Some sc" "same_stores st st2" "scores_dict_ok st2"
      "\<And>u t. score_at st2 u t = (if u = ?u \<and> t = ?t then Some sc else score_at st u t)"
      "score_holds (M ?t) sc (subs_of S ?u ?t) (changes_of S C ?u ?t)"
  proof (cases "score_at st ?u ?t")
    case None
    have em: "subs_of S ?u ?t = Map.empty" using scores_holdD(1)[OF assms(1) None] .
    let ?st2 = "put_score ?u ?t (score_init (M ?t)) ?st1"
    have "new_score ?u ?t st = (?st2, Inr ())"
      using None mode1 at1 by (simp add: new_score_def Let_def find_score_score_at del: if_split)
    moreover have "score_holds (M ?t) (score_init (M ?t)) (subs_of S ?u ?t) (changes_of S C ?u ?t)"
      using score_holds_init[OF assms(4)] em by (simp add: changes_of_def)
    moreover have "same_stores st ?st2" by simp
    ultimately show ?thesis using that[of ?st2 "score_init (M ?t)"] scores_dict_ok_put[OF do1] at1 by (simp add: score_at_put)
  next
    case (Some sc)
    then have "new_score ?u ?t st = (?st1, Inr ())" using at1 by (simp add: new_score_def Let_def find_score_score_at del: if_split)
    then show ?thesis using that[of ?st1 sc] Some at1 do1 scores_holdD(2)[OF assms(1) Some] by auto
  qed
  let ?sc' = "create_submission key (entity_submission e) sc"
  obtain st3 where st3: "on_score ?u ?t (supd (create_submission key (entity_submission e))) st2 = (st3, Inr ())" "same_stores st2 st3"
      "rk_scores st3 = rk_scores (put_score ?u ?t ?sc' st2)"
    using on_score_ok[OF st2(2), of "supd (create_submission key (entity_submission e))" ?sc'] by (auto simp: stm_simps)
  have at3: "score_at st3 u t = (if u = ?u \<and> t = ?t then Some ?sc' else score_at st u t)" for u t
    using st3(3) st2(5) score_at_put[of ?u ?t ?sc' st2] by (simp add: score_at_def)
  have do3: "scores_dict_ok st3" using scores_dict_ok_put[OF st2(4), of ?u ?t ?sc'] st3(3) by (simp add: scores_dict_ok_def)
  have nokey: "ch_submission c \<noteq> key" if "c \<in> C" for c using that assms(1,2) by (auto simp: scores_hold_def)
  have chs: "changes_of (S(key \<mapsto> e)) C u t = changes_of S C u t" for u t
    using nokey by (auto simp: changes_of_def subs_of_upd)
  have "scores_hold M (S(key \<mapsto> e)) C st3"
  proof (rule scores_hold_put[OF assms(1) do3 at3])
    show "case Some ?sc' of None \<Rightarrow> subs_of (S(key \<mapsto> e)) ?u ?t = Map.empty
      | Some sc \<Rightarrow> subs_of (S(key \<mapsto> e)) ?u ?t \<noteq> Map.empty \<and> score_holds (M ?t) sc (subs_of (S(key \<mapsto> e)) ?u ?t) (changes_of (S(key \<mapsto> e)) C ?u ?t)"
      unfolding chs using score_holds_create_submission[OF st2(6) none] by (simp add: subs_of_upd)
    show "subs_of (S(key \<mapsto> e)) u' t' = subs_of S u' t' \<and> changes_of (S(key \<mapsto> e)) C u' t' = changes_of S C u' t'"
      if "(u', t') \<noteq> (?u, ?t)" for u' t'
      using that assms(2) chs by (auto simp: subs_of_upd subs_of_def fun_eq_iff)
  qed (use assms(1) in \<open>auto simp: scores_hold_def\<close>)
  then show ?thesis using st2(1,3) st3(1,2) same_stores_trans by (auto simp: ss_create_submission_def stm_simps)
qed

lemma drop_score_ok:
  assumes "scores_dict_ok st" "score_at st u t = Some sc"
  shows "\<exists>st'. drop_score u t st = (st', Inr ()) \<and> same_stores st st' \<and> scores_dict_ok st' \<and>
    (\<forall>u' t'. score_at st' u' t' = (if u' = u \<and> t' = t \<and> sc_submissions sc = [] then None else score_at st u' t'))"
proof -
  obtain d where d: "map_of (rk_scores st) u = Some d" "map_of d t = Some sc" using assms(2) by (auto simp: score_at_def split: option.splits)
  let ?d = "if sc_submissions sc = [] then AList.delete t d else d"
  let ?s = "if ?d = [] then AList.delete u (rk_scores st) else dict_set (rk_scores st) u ?d"
  have run: "drop_score u t st = (st\<lparr>rk_scores := ?s\<rparr>, Inr ())"
    by (simp add: drop_score_def find_score_score_at assms(2) d(1) Let_def)
  have "dict_ok d" using assms(1) map_of_SomeD[OF d(1)] by (force simp: scores_dict_ok_def)
  then have dk: "dict_ok ?d" by simp
  have "\<forall>x\<in>snd ` set ?s. dict_ok x"
  proof (cases "?d = []")
    case True
    then show ?thesis using assms(1) by (auto simp: scores_dict_ok_def AList.delete_eq)
  next
    case False
    have "\<forall>x\<in>snd ` set (rk_scores st). dict_ok x" using assms(1) by (simp add: scores_dict_ok_def)
    from ball_dict_set[where P = dict_ok, OF this dk, of u] show ?thesis using False by (simp only: if_False)
  qed
  then have ok: "scores_dict_ok (st\<lparr>rk_scores := ?s\<rparr>)" using assms(1) by (simp add: scores_dict_ok_def del: ball_simps)
  have at: "score_at (st\<lparr>rk_scores := ?s\<rparr>) u' t' = (if u' = u \<and> t' = t \<and> sc_submissions sc = [] then None else score_at st u' t')" for u' t'
  proof (cases "u' = u")
    case True
    have "map_of ?d t' = (if t' = t \<and> sc_submissions sc = [] then None else map_of d t')" by (auto simp: map_of_dict_del)
    then show ?thesis using True d(1) by (cases "?d = []") (auto simp: score_at_def map_of_dict_del map_of_dict_set)
  next
    case False
    then show ?thesis by (auto simp: score_at_def map_of_dict_del map_of_dict_set)
  qed
  show ?thesis using run ok at by (intro exI[of _ "st\<lparr>rk_scores := ?s\<rparr>"]) simp
qed

lemma subs_of_del: "subs_of (S(key := None)) u t = (subs_of S u t)(key := None)"
  by (auto simp: subs_of_def fun_eq_iff)

lemma ss_delete_submission_ok:
  assumes "scores_hold M S C st" "S key = Some e"
  shows "\<exists>st'. ss_delete_submission key e st = (st', Inr ()) \<and> same_stores st st' \<and>
    scores_hold M (S(key := None)) {c \<in> C. ch_submission c \<noteq> key} st'"
proof -
  let ?u = "se_user e" and ?t = "se_task e" and ?S = "S(key := None)" and ?C = "{c \<in> C. ch_submission c \<noteq> key}"
  obtain sc where sc: "score_at st ?u ?t = Some sc" "score_holds (M ?t) sc (subs_of S ?u ?t) (changes_of S C ?u ?t)"
    by (rule scores_hold_at[OF assms])
  have "subs_of S ?u ?t key \<noteq> None" using assms(2) by (simp add: subs_of_def)
  then obtain sc' where sc': "delete_submission key sc = (sc', Inr ())"
      "score_holds (M ?t) sc' ((subs_of S ?u ?t)(key := None)) {c \<in> changes_of S C ?u ?t. ch_submission c \<noteq> key}"
    using score_holds_delete_submission[OF sc(2)] by blast
  obtain st1 where st1: "on_score ?u ?t (delete_submission key) st = (st1, Inr ())" "same_stores st st1"
      "rk_scores st1 = rk_scores (put_score ?u ?t sc' st)"
    using on_score_ok[of st ?u ?t sc "delete_submission key" sc', OF sc(1) sc'(1)] by blast
  have chs: "changes_of ?S ?C u t = {c \<in> changes_of S C u t. ch_submission c \<noteq> key}" for u t
    by (auto simp: changes_of_def subs_of_del)
  have other: "subs_of ?S u t = subs_of S u t \<and> changes_of ?S ?C u t = changes_of S C u t" if "(u, t) \<noteq> (?u, ?t)" for u t
  proof -
    have "subs_of S u t key = None" using that assms(2) by (auto simp: subs_of_def)
    then show ?thesis unfolding chs by (auto simp: subs_of_del changes_of_def fun_eq_iff)
  qed
  have at1: "score_at st1 u t = (if u = ?u \<and> t = ?t then Some sc' else score_at st u t)" for u t
    using st1(3) score_at_put[of ?u ?t sc' st] by (simp add: score_at_def)
  have do1: "scores_dict_ok st1"
    using scores_dict_ok_put[OF scores_holdD(6)[OF assms(1)], of ?u ?t sc'] st1(3) by (simp add: scores_dict_ok_def)
  obtain st2 where st2: "drop_score ?u ?t st1 = (st2, Inr ())" "same_stores st1 st2" "scores_dict_ok st2"
      "\<And>u t. score_at st2 u t = (if u = ?u \<and> t = ?t \<and> sc_submissions sc' = [] then None else score_at st1 u t)"
    using drop_score_ok[OF do1, of ?u ?t sc'] at1 by auto
  have at2: "score_at st2 u t = (if u = ?u \<and> t = ?t then (if sc_submissions sc' = [] then None else Some sc') else score_at st u t)" for u t
    using st2(4) at1 by simp
  have em: "subs_of ?S ?u ?t = Map.empty \<longleftrightarrow> sc_submissions sc' = []"
    using sc'(2) by (auto simp: score_holds_def subs_of_del clear_score_def)
  have "scores_hold M ?S ?C st2"
    by (rule scores_hold_put[OF assms(1) st2(3) at2])
      (use scores_holdD(3-5)[OF assms(1)] sc'(2) other chs em in \<open>auto simp: subs_of_del intro: inj_on_subset\<close>)
  then show ?thesis
    using st1(1,2) st2(1,2) same_stores_trans by (auto simp: ss_delete_submission_def stm_simps)
qed

lemma subs_of_same:
  assumes "S key = Some old_e" "se_user old_e = se_user e" "se_task old_e = se_task e"
  shows "subs_of (S(key \<mapsto> e)) u t k = None \<longleftrightarrow> subs_of S u t k = None"
  using assms by (simp add: subs_of_def)

lemma ss_update_submission_ok:
  assumes "scores_hold M S C st" "S key = Some old_e" "se_user old_e = se_user e" "se_task old_e = se_task e"
    "task_score_mode_of st (se_task e) = Inr (M (se_task e))"
  shows "\<exists>st'. ss_update_submission key old_e e st = (st', Inr ()) \<and> same_stores st st' \<and> scores_hold M (S(key \<mapsto> e)) C st'"
proof -
  let ?u = "se_user e" and ?t = "se_task e" and ?S = "S(key \<mapsto> e)"
  let ?m = "sthen (update_submission key (entity_submission e)) (supd (update_score_mode (M ?t)))"
  obtain sc where sc: "score_at st ?u ?t = Some sc" "score_holds (M ?t) sc (subs_of S ?u ?t) (changes_of S C ?u ?t)"
    using scores_hold_at[OF assms(1,2)] assms(3,4) by auto
  have "subs_of S ?u ?t key \<noteq> None" using assms(2-4) by (simp add: subs_of_def)
  then obtain sc' where sc': "update_submission key (entity_submission e) sc = (sc', Inr ())"
      "score_holds (M ?t) sc' ((subs_of S ?u ?t)(key \<mapsto> entity_submission e)) (changes_of S C ?u ?t)"
    using score_holds_update_submission[OF sc(2)] by blast
  have m: "?m sc = (sc', Inr ())" using sc' by (simp add: stm_simps update_score_mode_def score_holds_def)
  note same = subs_of_same[of S key old_e e, OF assms(2-4)]
  have chs: "changes_of ?S C u t = changes_of S C u t" for u t unfolding changes_of_def same ..
  have other: "subs_of ?S u t = subs_of S u t \<and> changes_of ?S C u t = changes_of S C u t" if "(u, t) \<noteq> (?u, ?t)" for u t
  proof -
    have "subs_of S u t key = None" using that assms(2-4) by (auto simp: subs_of_def)
    then show ?thesis using that chs by (auto simp: subs_of_upd fun_eq_iff)
  qed
  have dom: "\<forall>c\<in>C. change_ok c \<and> ?S (ch_submission c) \<noteq> None" using scores_holdD(4,5)[OF assms(1)] by simp
  have "\<exists>st'. on_score ?u ?t ?m st = (st', Inr ()) \<and> same_stores st st' \<and> scores_hold M ?S C st'"
    by (rule on_score_holds[where m = ?m, OF assms(1) sc(1) m])
      (use scores_holdD(3)[OF assms(1)] dom sc'(2) other chs in \<open>simp_all add: subs_of_upd\<close>)
  then show ?thesis using assms(3-5) by (simp add: ss_update_submission_def stm_simps)
qed

lemma ss_create_subchange_ok:
  assumes "scores_hold M S C st" "S (he_submission h) = Some e" "stored_submission st (he_submission h) = Inr e"
    "change_ok (entity_subchange key h)" "key \<notin> ch_key ` C"
  shows "\<exists>st'. ss_create_subchange key h st = (st', Inr ()) \<and> same_stores st st' \<and> scores_hold M S (insert (entity_subchange key h) C) st'"
proof -
  let ?u = "se_user e" and ?t = "se_task e" and ?c = "entity_subchange key h"
  have c: "ch_submission ?c = he_submission h" "ch_key ?c = key" by (simp_all add: entity_subchange_def)
  obtain sc where sc: "score_at st ?u ?t = Some sc" "score_holds (M ?t) sc (subs_of S ?u ?t) (changes_of S C ?u ?t)"
    by (rule scores_hold_at[OF assms(1,2)])
  have sub: "subs_of S ?u ?t (ch_submission ?c) \<noteq> None" using assms(2) by (simp add: subs_of_def c)
  obtain sc' where sc': "create_subchange ?c sc = (sc', Inr ())" "score_holds (M ?t) sc' (subs_of S ?u ?t) (insert ?c (changes_of S C ?u ?t))"
    using score_holds_create_subchange[OF sc(2) sub assms(4)] assms(5) c by (auto simp: changes_of_def)
  have chs: "changes_of S (insert ?c C) u t = (if (u, t) = (?u, ?t) then insert ?c (changes_of S C u t) else changes_of S C u t)" for u t
    using assms(2) by (auto simp: changes_of_def subs_of_def c)
  have "\<exists>st'. on_score ?u ?t (create_subchange ?c) st = (st', Inr ()) \<and> same_stores st st' \<and> scores_hold M S (insert ?c C) st'"
    by (rule on_score_holds[where m = "create_subchange ?c", OF assms(1) sc(1) sc'(1)])
      (use scores_holdD(3-5)[OF assms(1)] scores_holdD(7)[OF assms(1) sc(1)] sc'(2) assms(2,4,5) c chs in \<open>auto simp: inj_on_def\<close>)
  then show ?thesis using assms(3) by (simp add: ss_create_subchange_def stm_simps)
qed

lemma changes_of_filter: "changes_of S {c \<in> C. P c} u t = {c \<in> changes_of S C u t. P c}"
  by (auto simp: changes_of_def)

lemma on_score_delete_subchange:
  assumes "scores_hold M S C st" "S k = Some e" "\<forall>c\<in>C. ch_key c = key \<longrightarrow> ch_submission c = k"
  shows "\<exists>st'. on_score (se_user e) (se_task e) (delete_subchange key) st = (st', Inr ()) \<and> same_stores st st' \<and>
    scores_hold M S {c \<in> C. ch_key c \<noteq> key} st'"
proof -
  let ?u = "se_user e" and ?t = "se_task e"
  obtain sc where sc: "score_at st ?u ?t = Some sc" "score_holds (M ?t) sc (subs_of S ?u ?t) (changes_of S C ?u ?t)"
    by (rule scores_hold_at[OF assms(1,2)])
  obtain sc' where sc': "delete_subchange key sc = (sc', Inr ())"
      "score_holds (M ?t) sc' (subs_of S ?u ?t) {c \<in> changes_of S C ?u ?t. ch_key c \<noteq> key}"
    using score_holds_delete_subchange[OF sc(2)] by blast
  have other: "changes_of S {c \<in> C. ch_key c \<noteq> key} u t = changes_of S C u t" if "(u, t) \<noteq> (?u, ?t)" for u t
    using that assms(2,3) by (auto simp: changes_of_def subs_of_def)
  show ?thesis
    by (rule on_score_holds[where m = "delete_subchange key", OF assms(1) sc(1) sc'(1)])
      (use scores_holdD(3-5)[OF assms(1)] scores_holdD(7)[OF assms(1) sc(1)] sc'(2) other in \<open>auto simp: changes_of_filter intro: inj_on_subset\<close>)
qed

lemma ss_delete_subchange_ok:
  assumes "scores_hold M S C st" "S (he_submission h) = Some e" "stored_submission st (he_submission h) = Inr e"
    "\<forall>c\<in>C. ch_key c = key \<longrightarrow> ch_submission c = he_submission h"
  shows "\<exists>st'. ss_delete_subchange key h st = (st', Inr ()) \<and> same_stores st st' \<and> scores_hold M S {c \<in> C. ch_key c \<noteq> key} st'"
proof -
  have "dict_has (rk_store st K_submission) (he_submission h)"
    using assms(3) by (auto simp: stored_submission_def dict_has_def split: option.splits)
  then show ?thesis
    using on_score_delete_subchange[OF assms(1,2,4)] assms(3) by (simp add: ss_delete_subchange_def stm_simps)
qed

lemma ss_update_subchange_ok:
  assumes "scores_hold M S C st" "S (he_submission h) = Some e" "stored_submission st (he_submission h) = Inr e"
    "S (he_submission old_h) = Some old_e" "stored_submission st (he_submission old_h) = Inr old_e"
    "entity_subchange key old_h \<in> C" "change_ok (entity_subchange key h)" "he_submission old_h = he_submission h \<longrightarrow> he_time old_h = he_time h"
  shows "\<exists>st'. ss_update_subchange key old_h h st = (st', Inr ()) \<and> same_stores st st' \<and>
    scores_hold M S (insert (entity_subchange key h) (C - {entity_subchange key old_h})) st'"
proof -
  let ?u = "se_user e" and ?t = "se_task e" and ?c = "entity_subchange key h" and ?d = "entity_subchange key old_h"
  have c: "ch_submission ?c = he_submission h" "ch_key ?c = key" "ch_submission ?d = he_submission old_h" "ch_key ?d = key"
      "ch_time ?c = he_time h" "ch_time ?d = he_time old_h"
    by (simp_all add: entity_subchange_def)
  have inj: "inj_on ch_key C" by (rule scores_holdD(3)[OF assms(1)])
  have uniq: "x = ?d" if "x \<in> C" "ch_key x = key" for x using inj_onD[OF inj, of x ?d] that assms(6) c by simp
  then have C: "{x \<in> C. ch_key x \<noteq> key} = C - {?d}" using c(4) by blast
  show ?thesis
  proof (cases "he_submission old_h = he_submission h")
    case True
    obtain sc where sc: "score_at st ?u ?t = Some sc" "score_holds (M ?t) sc (subs_of S ?u ?t) (changes_of S C ?u ?t)"
      by (rule scores_hold_at[OF assms(1,2)])
    have sub: "subs_of S ?u ?t (ch_submission ?c) \<noteq> None" using assms(2) by (simp add: subs_of_def c)
    have d: "?d \<in> changes_of S C ?u ?t" using assms(2,6) True by (simp add: changes_of_def subs_of_def c)
    have inj': "inj_on ch_key (changes_of S C ?u ?t)" by (rule inj_on_subset[OF inj]) (auto simp: changes_of_def)
    obtain sc' where sc': "update_subchange key ?c sc = (sc', Inr ())"
        "score_holds (M ?t) sc' (subs_of S ?u ?t) (insert ?c (changes_of S C ?u ?t - {?d}))"
      using score_holds_update_subchange[OF sc(2) sub assms(7) d _ _ inj'] assms(8) True by (auto simp: c)
    have chs: "changes_of S (insert ?c (C - {?d})) u t =
        (if (u, t) = (?u, ?t) then insert ?c (changes_of S C u t - {?d}) else changes_of S C u t)" for u t
      using assms(2) True by (auto simp: changes_of_def subs_of_def c)
    have "inj_on ch_key (insert ?c (C - {?d}))" using inj uniq by (auto simp: inj_on_def c)
    then have "\<exists>st'. on_score ?u ?t (update_subchange key ?c) st = (st', Inr ()) \<and> same_stores st st' \<and>
        scores_hold M S (insert ?c (C - {?d})) st'"
      by (intro on_score_holds[where m = "update_subchange key ?c", OF assms(1) sc(1) sc'(1)])
        (use scores_holdD(4,5)[OF assms(1)] scores_holdD(7)[OF assms(1) sc(1)] sc'(2) assms(2,7) c chs in auto)
    then show ?thesis using True assms(3) by (simp add: ss_update_subchange_def stm_simps)
  next
    case False
    have sub: "\<forall>x\<in>C. ch_key x = key \<longrightarrow> ch_submission x = he_submission old_h" using uniq c(3) by metis
    obtain st1 where st1: "ss_delete_subchange key old_h st = (st1, Inr ())" "same_stores st st1" "scores_hold M S (C - {?d}) st1"
      using ss_delete_subchange_ok[OF assms(1,4,5) sub, unfolded C] by blast
    have "stored_submission st1 (he_submission h) = Inr e" using assms(3) st1(2) by (simp add: stored_submission_def same_stores_def)
    moreover have "key \<notin> ch_key ` (C - {?d})" using uniq by auto
    ultimately obtain st2 where "ss_create_subchange key h st1 = (st2, Inr ())" "same_stores st1 st2" "scores_hold M S (insert ?c (C - {?d})) st2"
      using ss_create_subchange_ok[OF st1(3) assms(2) _ assms(7)] by blast
    then show ?thesis using False st1(1,2) same_stores_trans by (auto simp: ss_update_subchange_def stm_simps)
  qed
qed

end
