(* ===== verification/Ranking_Integrity.thy ===== *)
theory Ranking_Integrity
  imports Ranking_Callbacks
begin

text \<open>
  Integrity of the ranking web server: references between stored entities, agreement of the scoring store with
  the stores, and of the files with the stores, through all requests with well-formed data.
\<close>

section \<open>The state\<close>

definition store_subs :: "(store_kind \<Rightarrow> (string, entity) dict) \<Rightarrow> string \<rightharpoonup> submission_entity" where
  "store_subs stores key = (case map_of (stores K_submission) key of Some (E_submission e) \<Rightarrow> Some e | _ \<Rightarrow> None)"

definition store_changes :: "(store_kind \<Rightarrow> (string, entity) dict) \<Rightarrow> subchange set" where
  "store_changes stores = {entity_subchange key h | key h. map_of (stores K_subchange) key = Some (E_subchange h)}"

definition store_modes :: "(store_kind \<Rightarrow> (string, entity) dict) \<Rightarrow> string \<Rightarrow> string" where
  "store_modes stores t = (case map_of (stores K_task) t of Some (E_task e) \<Rightarrow> te_score_mode e | _ \<Rightarrow> [])"

text \<open>Data that the rest of the system sends: score modes that exist, changes with non-negative scores and readable
  details.\<close>

fun entity_good :: "entity \<Rightarrow> bool" where
  "entity_good (E_task e) = mode_ok (te_score_mode e)"
| "entity_good (E_subchange h) = change_ok (entity_subchange [] h)"
| "entity_good _ = True"

definition stores_ok :: "(store_kind \<Rightarrow> (string, entity) dict) \<Rightarrow> bool" where
  "stores_ok stores \<longleftrightarrow>
     (\<forall>k. dict_ok (stores k) \<and> (\<forall>(key, e)\<in>set (stores k). kind_of e = k \<and> entity_valid e \<and> entity_good e \<and> key \<noteq> []))"

definition all_consistent :: "(store_kind \<Rightarrow> (string, entity) dict) \<Rightarrow> bool" where
  "all_consistent stores \<longleftrightarrow> (\<forall>k. \<forall>e\<in>snd ` set (stores k). consistent stores e)"

text \<open>The files, except those of the entities being deleted.\<close>

definition disk_agrees :: "(store_kind \<times> string) set \<Rightarrow> ranking_state \<Rightarrow> bool" where
  "disk_agrees X st \<longleftrightarrow> (rk_disk_ok st \<longrightarrow>
     (\<forall>k. dict_ok (rk_disk st k) \<and>
       (\<forall>key. (k, key) \<notin> X \<longrightarrow> map_of (rk_disk st k) key = map_option entity_get (map_of (rk_store st k) key))))"

definition state_ok :: "(string \<Rightarrow> string) \<Rightarrow> (store_kind \<times> string) set \<Rightarrow> ranking_state \<Rightarrow> bool" where
  "state_ok M X st \<longleftrightarrow> stores_ok (rk_store st) \<and> scores_hold M (store_subs (rk_store st)) (store_changes (rk_store st)) st \<and> disk_agrees X st"

definition ranking_ok :: "ranking_state \<Rightarrow> bool" where
  "ranking_ok st \<longleftrightarrow> state_ok (store_modes (rk_store st)) {} st \<and> all_consistent (rk_store st)"

lemma stores_okD:
  assumes "stores_ok stores"
  shows "dict_ok (stores k)" "(key, e) \<in> set (stores k) \<Longrightarrow> kind_of e = k \<and> entity_valid e \<and> entity_good e \<and> key \<noteq> []"
    "map_of (stores k) key = Some e \<Longrightarrow> kind_of e = k \<and> entity_valid e \<and> entity_good e \<and> key \<noteq> []"
  using assms unfolding stores_ok_def by (blast dest: map_of_SomeD)+

lemma stores_ok_kinds:
  assumes "stores_ok stores"
  shows "map_of (stores K_submission) key = Some e \<Longrightarrow> \<exists>s. e = E_submission s"
    "map_of (stores K_subchange) key = Some e \<Longrightarrow> \<exists>h. e = E_subchange h"
    "map_of (stores K_task) key = Some e \<Longrightarrow> \<exists>t. e = E_task t"
  using stores_okD(3)[OF assms, of K_submission key e] stores_okD(3)[OF assms, of K_subchange key e] stores_okD(3)[OF assms, of K_task key e]
  by (cases e; simp)+

lemma store_subs_has: "stores_ok stores \<Longrightarrow> store_subs stores key \<noteq> None \<longleftrightarrow> dict_has (stores K_submission) key"
  using stores_ok_kinds(1)[of stores key] by (auto simp: store_subs_def dict_has_def split: option.splits entity.splits)

lemma stored_submission_subs: "stored_submission st key = (case store_subs (rk_store st) key of None \<Rightarrow> Inl KeyError | Some e \<Rightarrow> Inr e)"
  by (simp add: stored_submission_def store_subs_def split: option.split entity.split)

lemma change_ok_key: "change_ok (entity_subchange key h) = change_ok (entity_subchange [] h)"
  by (simp add: change_ok_def entity_subchange_def)

lemma store_changes_cong: "s K_subchange = s' K_subchange \<Longrightarrow> store_changes s = store_changes s'"
  by (simp add: store_changes_def)

lemma store_subs_cong: "s K_submission = s' K_submission \<Longrightarrow> store_subs s = store_subs s'"
  by (rule ext) (simp add: store_subs_def)

section \<open>Consistency\<close>

lemma consistent_mono:
  "(\<And>k key. dict_has (s k) key \<Longrightarrow> dict_has (s' k) key) \<Longrightarrow> consistent s e \<Longrightarrow> consistent s' e"
  by (cases e) (auto split: option.splits)

lemma consistent_cong:
  "(\<And>p. kind_of e \<in> set (depends p) \<Longrightarrow> s p = s' p) \<Longrightarrow> consistent s e = consistent s' e"
  by (cases e) (auto split: option.splits)

fun below :: "store_kind \<Rightarrow> store_kind set" where
  "below K_subchange = {}"
| "below K_submission = {K_subchange}"
| "below K_user = {K_submission, K_subchange}"
| "below K_task = {K_submission, K_subchange}"
| "below K_team = {K_user, K_submission, K_subchange}"
| "below K_contest = {K_task, K_submission, K_subchange}"

lemma below_depends: "j \<in> set (depends p) \<Longrightarrow> p = k \<or> p \<in> below k \<Longrightarrow> j \<in> below k"
  by (cases k; cases p) auto

lemma below_self: "k \<notin> below k"
  by (cases k) auto

definition consistent_in :: "store_kind set \<Rightarrow> (store_kind \<Rightarrow> (string, entity) dict) \<Rightarrow> bool" where
  "consistent_in J stores \<longleftrightarrow> (\<forall>j\<in>J. \<forall>e\<in>snd ` set (stores j). consistent stores e)"

lemma consistent_in_filter: "consistent_in J s \<Longrightarrow> j \<in> J \<Longrightarrow> filter (\<lambda>(_, e). consistent s e) (s j) = s j"
  by (rule filter_True) (force simp: consistent_in_def)

text \<open>What deleting an entity has to do: the entity goes, and of the entities in dependent stores those
  whose references are gone.\<close>

definition deleted :: "store_kind \<Rightarrow> string \<Rightarrow> (store_kind \<Rightarrow> (string, entity) dict) \<Rightarrow> (store_kind \<Rightarrow> (string, entity) dict) \<Rightarrow> bool" where
  "deleted k key s s' \<longleftrightarrow> s' k = AList.delete key (s k) \<and> (\<forall>j\<in>below k. s' j = filter (\<lambda>(_, e). consistent s' e) (s j)) \<and>
     (\<forall>j. j \<noteq> k \<and> j \<notin> below k \<longrightarrow> s' j = s j)"

lemma deleted_consistent:
  assumes "deleted k key s s'" "all_consistent s" "stores_ok s"
  shows "all_consistent s'"
  unfolding all_consistent_def
proof (intro allI ballI)
  fix j e assume e: "e \<in> snd ` set (s' j)"
  show "consistent s' e"
  proof (cases "j \<in> below k")
    case True
    then have "s' j = filter (\<lambda>(_, e). consistent s' e) (s j)" using assms(1) by (simp add: deleted_def)
    then show ?thesis using e by auto
  next
    case False
    then have es: "e \<in> snd ` set (s j)" using e assms(1) by (cases "j = k") (auto simp: deleted_def AList.delete_eq)
    then have "consistent s e" "kind_of e = j" using assms(2) stores_okD(2)[OF assms(3)] by (auto simp: all_consistent_def)
    moreover have "s' p = s p" if "j \<in> set (depends p)" for p
      using False below_depends[OF that, of k] assms(1) by (auto simp: deleted_def)
    ultimately show ?thesis using consistent_cong[of e s s'] by metis
  qed
qed

lemma deleted_fewer: "deleted k key s s' \<Longrightarrow> dict_has (s' j) x \<Longrightarrow> dict_has (s j) x"
  by (cases "j = k"; cases "j \<in> below k")
    (auto simp: deleted_def dict_has_iff dom_map_of_conv_image_fst AList.delete_eq)

section \<open>Deleting\<close>

lemma remove_entity_simps [simp]:
  "rk_store (remove_entity k key st) = (rk_store st)(k := AList.delete key (rk_store st k))"
  "rk_scores (remove_entity k key st) = rk_scores st" "rk_disk (remove_entity k key st) = rk_disk st"
  "rk_disk_ok (remove_entity k key st) = rk_disk_ok st"
  by (simp_all add: remove_entity_def)

lemma remove_file_simps [simp]:
  "rk_store (remove_file k key st) = rk_store st" "rk_scores (remove_file k key st) = rk_scores st"
  "rk_disk_ok (remove_file k key st) = rk_disk_ok st"
  by (simp_all add: remove_file_def)

lemma send_event_simps [simp]:
  "rk_store (send_event ev st) = rk_store st" "rk_scores (send_event ev st) = rk_scores st" "rk_disk (send_event ev st) = rk_disk st"
  "rk_disk_ok (send_event ev st) = rk_disk_ok st"
  by (simp_all add: send_event_def)

lemma disk_agrees_remove_entity: "disk_agrees X st \<Longrightarrow> disk_agrees (insert (k, key) X) (remove_entity k key st)"
  by (auto simp: disk_agrees_def map_of_dict_del)

lemma disk_agrees_remove_file:
  assumes "disk_agrees (insert (k, key) X) st" "map_of (rk_store st k) key = None"
  shows "disk_agrees X (remove_file k key st)"
  using assms by (auto simp: disk_agrees_def remove_file_def map_of_dict_del)

lemma disk_agrees_cong: "same_stores st st' \<Longrightarrow> disk_agrees X st' = disk_agrees X st"
  by (simp add: disk_agrees_def same_stores_def)

lemma disk_agrees_weaken: "disk_agrees X st \<Longrightarrow> disk_agrees (insert x X) st"
  by (auto simp: disk_agrees_def)

lemma stores_ok_sub:
  assumes "stores_ok s" "\<And>k. \<exists>P. s' k = filter P (s k)"
  shows "stores_ok s'"
  unfolding stores_ok_def
proof
  fix k
  obtain P where P: "s' k = filter P (s k)" using assms(2) by blast
  show "dict_ok (s' k) \<and> (\<forall>(key, e)\<in>set (s' k). kind_of e = k \<and> entity_valid e \<and> entity_good e \<and> key \<noteq> [])"
    using stores_okD(1,2)[OF assms(1), where k = k] by (auto simp: P dict_ok_def distinct_map_filter)
qed

lemma stores_ok_remove: "stores_ok s \<Longrightarrow> stores_ok (s(k := AList.delete key (s k)))"
  by (rule stores_ok_sub) (auto simp: AList.delete_eq intro: filter_True[symmetric])

lemma delete_filter:
  assumes "dict_ok xs" "(key, e) \<in> set xs" "\<And>x. x \<in> set xs \<Longrightarrow> Q x \<longleftrightarrow> P x \<and> x \<noteq> (key, e)"
  shows "AList.delete key (filter P xs) = filter Q xs"
proof -
  have "fst x \<noteq> key \<longleftrightarrow> x \<noteq> (key, e)" if "x \<in> set xs" for x
    using assms(1,2) that by (metis dict_ok_def eq_key_imp_eq_value fst_conv prod.collapse)
  then show ?thesis using assms(3) by (auto simp: AList.delete_eq intro!: filter_cong)
qed

text \<open>The loop over the entities of a dependent store, for any invariant that single deletions keep.\<close>

definition cascade :: "nat \<Rightarrow> store_kind \<Rightarrow> (ranking_state, unit) stm" where
  "cascade n dep =
     sbind (sget (\<lambda>st. rk_store st dep)) (\<lambda>items.
       sforeach items (\<lambda>(o_key, o_value).
         sbind (sget rk_store) (\<lambda>stores. if \<not> consistent stores o_value then delete_rec n dep o_key else sret ())))"

lemma cascade_ok:
  assumes "J st1" "dict_ok (rk_store st1 dep)" "\<And>key e. (key, e) \<in> set (rk_store st1 dep) \<Longrightarrow> kind_of e = dep"
    and step: "\<And>st key e. J st \<Longrightarrow> map_of (rk_store st dep) key = Some e \<Longrightarrow> \<not> consistent (rk_store st) e \<Longrightarrow>
      \<exists>st'. delete_rec n dep key st = (st', Inr ()) \<and> J st' \<and> rk_store st' dep = AList.delete key (rk_store st dep) \<and>
        (\<forall>e. kind_of e = dep \<longrightarrow> consistent (rk_store st') e = consistent (rk_store st) e)"
  shows "\<exists>st2. cascade n dep st1 = (st2, Inr ()) \<and> J st2 \<and>
    rk_store st2 dep = filter (\<lambda>(_, e). consistent (rk_store st1) e) (rk_store st1 dep) \<and>
    (\<forall>e. kind_of e = dep \<longrightarrow> consistent (rk_store st2) e = consistent (rk_store st1) e)"
proof -
  let ?items = "rk_store st1 dep"
  let ?f = "\<lambda>(o_key, o_value). sbind (sget rk_store) (\<lambda>stores. if \<not> consistent stores o_value then delete_rec n dep o_key else sret ())"
  let ?c = "\<lambda>x. consistent (rk_store st1) (snd x)"
  let ?I = "\<lambda>pre st. J st \<and> rk_store st dep = filter (\<lambda>x. x \<notin> set pre \<or> ?c x) ?items \<and>
    (\<forall>e. kind_of e = dep \<longrightarrow> consistent (rk_store st) e = consistent (rk_store st1) e)"
  have dist: "distinct ?items" using assms(2) by (simp add: dict_ok_def distinct_map)
  have "\<exists>st2. sforeach ?items ?f st1 = (st2, Inr ()) \<and> ?I ?items st2"
  proof (rule sforeach_rule[where I = ?I])
    show "?I [] st1" using assms(1) by simp
    fix pre x post st assume items: "?items = pre @ x # post" and I: "?I pre st"
    obtain key e where x: "x = (key, e)" by fastforce
    have xin: "(key, e) \<in> set ?items" using items x by simp
    have ke: "kind_of e = dep" by (rule assms(3)[OF xin])
    show "\<exists>s'. ?f x st = (s', Inr ()) \<and> ?I (pre @ [x]) s'"
    proof (cases "consistent (rk_store st) e")
      case True
      then have "filter (\<lambda>y. y \<notin> set (pre @ [x]) \<or> ?c y) ?items = filter (\<lambda>y. y \<notin> set pre \<or> ?c y) ?items"
        using I ke by (auto simp: x intro!: filter_cong)
      then show ?thesis using I True by (simp add: x stm_simps)
    next
      case False
      have "x \<notin> set pre" using dist items by simp
      then have "(key, e) \<in> set (rk_store st dep)" using I xin by (simp add: x)
      moreover have "dict_ok (rk_store st dep)" using I assms(2) by (simp add: dict_ok_def distinct_map_filter)
      ultimately have "map_of (rk_store st dep) key = Some e" by (simp add: dict_ok_def)
      then obtain st' where st': "delete_rec n dep key st = (st', Inr ())" "J st'" "rk_store st' dep = AList.delete key (rk_store st dep)"
          "\<forall>e. kind_of e = dep \<longrightarrow> consistent (rk_store st') e = consistent (rk_store st) e"
        using step[OF _ _ False] I by blast
      have nc: "\<not> ?c (key, e)" using I False ke by simp
      have "rk_store st dep = filter (\<lambda>x. x \<notin> set pre \<or> ?c x) ?items" using I by blast
      moreover have "AList.delete key (filter (\<lambda>y. y \<notin> set pre \<or> ?c y) ?items) = filter (\<lambda>y. y \<notin> set (pre @ [x]) \<or> ?c y) ?items"
        by (rule delete_filter[OF assms(2) xin]) (use nc \<open>x \<notin> set pre\<close> in \<open>auto simp: x\<close>)
      ultimately have "rk_store st' dep = filter (\<lambda>y. y \<notin> set (pre @ [x]) \<or> ?c y) ?items" using st'(3) by simp
      then show ?thesis using st' I False by (simp add: x stm_simps)
    qed
  qed
  then obtain st2 where st2: "sforeach ?items ?f st1 = (st2, Inr ())" "?I ?items st2" by blast
  have "filter (\<lambda>x. x \<notin> set ?items \<or> ?c x) ?items = filter (\<lambda>(_, e). consistent (rk_store st1) e) ?items"
    by (auto intro!: filter_cong)
  then show ?thesis using st2 by (auto simp: cascade_def stm_simps)
qed

lemma delete_rec_cascade:
  "delete_rec (Suc n) k key =
     sbind (sget (\<lambda>st. map_of (rk_store st k) key)) (\<lambda>old_e.
     case old_e of
       None \<Rightarrow> sraise InvalidKey
     | Some e \<Rightarrow>
         sthen (supd (remove_entity k key))
        (sthen (sforeach (depends k) (cascade n))
        (sthen (delete_callbacks k key e) (supd (remove_file k key)))))"
proof -
  have "cascade n = (\<lambda>dep. sbind (sget (\<lambda>st. rk_store st dep)) (\<lambda>items.
       sforeach items (\<lambda>(o_key, o_value).
         sbind (sget rk_store) (\<lambda>stores. if \<not> consistent stores o_value then delete_rec n dep o_key else sret ()))))"
    by (rule ext) (simp only: cascade_def)
  then show ?thesis by (simp only: delete_rec.simps)
qed

definition delete_spec :: "nat \<Rightarrow> store_kind \<Rightarrow> bool" where
  "delete_spec n k \<longleftrightarrow> (\<forall>M X st key e. state_ok M X st \<longrightarrow> consistent_in (below k) (rk_store st) \<longrightarrow> map_of (rk_store st k) key = Some e \<longrightarrow>
     (\<exists>st'. delete_rec n k key st = (st', Inr ()) \<and> state_ok M X st' \<and> deleted k key (rk_store st) (rk_store st') \<and> rk_disk_ok st' = rk_disk_ok st))"

lemma map_of_filter_dict: "dict_ok xs \<Longrightarrow> map_of (filter P xs) k = Some v \<longleftrightarrow> map_of xs k = Some v \<and> P (k, v)"
  by (auto simp: dict_ok_def distinct_map_filter)

lemma store_changes_delete:
  "store_changes (s(K_subchange := AList.delete key (s K_subchange))) = {c \<in> store_changes s. ch_key c \<noteq> key}"
  by (auto simp: store_changes_def map_of_dict_del entity_subchange_def)

lemma delete_subchange_spec: "delete_spec (Suc n) K_subchange"
  unfolding delete_spec_def
proof (intro allI impI)
  fix M X st key e
  assume ok: "state_ok M X st" and e: "map_of (rk_store st K_subchange) key = Some e"
  let ?S = "store_subs (rk_store st)" and ?C = "store_changes (rk_store st)" and ?st1 = "remove_entity K_subchange key st"
  have so: "stores_ok (rk_store st)" and sh: "scores_hold M ?S ?C st" and da: "disk_agrees X st" using ok by (simp_all add: state_ok_def)
  obtain h where h: "e = E_subchange h" using stores_ok_kinds(2)[OF so e] by blast
  have c: "entity_subchange key h \<in> ?C" using e h by (auto simp: store_changes_def)
  then obtain se where se: "?S (he_submission h) = Some se" using scores_holdD(5)[OF sh c] by (auto simp: entity_subchange_def)
  have S1: "store_subs (rk_store ?st1) = ?S" by (rule store_subs_cong) simp
  have sub: "\<forall>x\<in>?C. ch_key x = key \<longrightarrow> ch_submission x = he_submission h"
    using e h by (auto simp: store_changes_def entity_subchange_def)
  have sh1: "scores_hold M ?S ?C ?st1" using sh scores_hold_cong[of ?st1 st] by simp
  have "stored_submission ?st1 (he_submission h) = Inr se" unfolding stored_submission_subs S1 se by simp
  then obtain st2 where st2: "ss_delete_subchange key h ?st1 = (st2, Inr ())" "same_stores ?st1 st2"
      "scores_hold M ?S {c \<in> ?C. ch_key c \<noteq> key} st2"
    using ss_delete_subchange_ok[OF sh1 se _ sub] by blast
  let ?st3 = "remove_file K_subchange key st2"
  have run: "delete_rec (Suc n) K_subchange key st = (?st3, Inr ())"
    unfolding delete_rec_cascade using e st2(1) by (simp add: stm_simps h delete_callbacks_def)
  have s3: "rk_store ?st3 = (rk_store st)(K_subchange := AList.delete key (rk_store st K_subchange))"
    and d3: "rk_disk_ok ?st3 = rk_disk_ok st" using st2(2) by (simp_all add: same_stores_def)
  have "scores_hold M (store_subs (rk_store ?st3)) (store_changes (rk_store ?st3)) ?st3"
    using st2(3) scores_hold_cong[of ?st3 st2] S1 unfolding s3 store_changes_delete by (simp add: store_subs_cong[of "rk_store ?st1" "rk_store st"])
  moreover have "disk_agrees X ?st3"
    by (rule disk_agrees_remove_file) (use st2(2) disk_agrees_remove_entity[OF da] in
      \<open>simp_all add: disk_agrees_cong[OF st2(2)] same_stores_def map_of_dict_del\<close>)
  ultimately have "state_ok M X ?st3" using stores_ok_remove[OF so] by (simp add: state_ok_def s3 del: remove_file_simps)
  moreover have "deleted K_subchange key (rk_store st) (rk_store ?st3)" unfolding s3 by (simp add: deleted_def)
  ultimately show "\<exists>st'. delete_rec (Suc n) K_subchange key st = (st', Inr ()) \<and> state_ok M X st' \<and>
      deleted K_subchange key (rk_store st) (rk_store st') \<and> rk_disk_ok st' = rk_disk_ok st"
    using run d3 by blast
qed

text \<open>A change whose submission is gone.\<close>

lemma delete_orphan:
  assumes "map_of (rk_store st K_subchange) key = Some (E_subchange h)" "\<not> dict_has (rk_store st K_submission) (he_submission h)"
  shows "delete_rec (Suc n) K_subchange key st = (remove_file K_subchange key (remove_entity K_subchange key st), Inr ())"
  unfolding delete_rec_cascade using assms by (simp add: stm_simps delete_callbacks_def ss_delete_subchange_def)

lemma delete_submission_spec: "delete_spec (Suc (Suc n)) K_submission"
  unfolding delete_spec_def
proof (intro allI impI)
  fix M X st key e
  assume ok: "state_ok M X st" and cons: "consistent_in (below K_submission) (rk_store st)" and e: "map_of (rk_store st K_submission) key = Some e"
  let ?S = "store_subs (rk_store st)" and ?C = "store_changes (rk_store st)" and ?st1 = "remove_entity K_submission key st"
  let ?X = "insert (K_submission, key) X"
  have so: "stores_ok (rk_store st)" and sh: "scores_hold M ?S ?C st" and da: "disk_agrees X st" using ok by (simp_all add: state_ok_def)
  have so1: "stores_ok (rk_store ?st1)" using stores_ok_remove[OF so] by simp
  obtain se where se: "e = E_submission se" using stores_ok_kinds(1)[OF so e] by blast
  let ?J = "\<lambda>st'. rk_scores st' = rk_scores st \<and> rk_disk_ok st' = rk_disk_ok st \<and> disk_agrees ?X st' \<and> stores_ok (rk_store st') \<and>
    (\<forall>j. j \<noteq> K_subchange \<longrightarrow> rk_store st' j = rk_store ?st1 j)"
  have "\<exists>st2. cascade (Suc n) K_subchange ?st1 = (st2, Inr ()) \<and> ?J st2 \<and>
    rk_store st2 K_subchange = filter (\<lambda>(_, e). consistent (rk_store ?st1) e) (rk_store ?st1 K_subchange) \<and>
    (\<forall>e. kind_of e = K_subchange \<longrightarrow> consistent (rk_store st2) e = consistent (rk_store ?st1) e)"
  proof (rule cascade_ok)
    show "?J ?st1" using disk_agrees_remove_entity[OF da] so1 by simp
    show "dict_ok (rk_store ?st1 K_subchange)" using stores_okD(1)[OF so] by simp
    show "kind_of e = K_subchange" if "(key, e) \<in> set (rk_store ?st1 K_subchange)" for key e
      using stores_okD(2)[OF so1 that] by simp
    fix st' o_key o_e assume J: "?J st'" and o_e: "map_of (rk_store st' K_subchange) o_key = Some o_e" "\<not> consistent (rk_store st') o_e"
    obtain h where h: "o_e = E_subchange h" using stores_ok_kinds(2) J o_e(1) by blast
    let ?st3 = "remove_file K_subchange o_key (remove_entity K_subchange o_key st')"
    have "delete_rec (Suc n) K_subchange o_key st' = (?st3, Inr ())" by (rule delete_orphan) (use o_e h in simp_all)
    moreover have "disk_agrees ?X ?st3"
      by (rule disk_agrees_remove_file) (use J disk_agrees_remove_entity in \<open>simp_all add: map_of_dict_del\<close>)
    moreover have "consistent (rk_store ?st3) e = consistent (rk_store st') e" if "kind_of e = K_subchange" for e
      using that by (cases e) simp_all
    ultimately show "\<exists>st''. delete_rec (Suc n) K_subchange o_key st' = (st'', Inr ()) \<and> ?J st'' \<and>
        rk_store st'' K_subchange = AList.delete o_key (rk_store st' K_subchange) \<and>
        (\<forall>e. kind_of e = K_subchange \<longrightarrow> consistent (rk_store st'') e = consistent (rk_store st') e)"
      using J stores_ok_remove by (intro exI[of _ ?st3]) simp
  qed
  then obtain st2 where st2: "cascade (Suc n) K_subchange ?st1 = (st2, Inr ())" "?J st2"
      "rk_store st2 K_subchange = filter (\<lambda>(_, e). consistent (rk_store ?st1) e) (rk_store ?st1 K_subchange)"
      "\<And>e. kind_of e = K_subchange \<Longrightarrow> consistent (rk_store st2) e = consistent (rk_store ?st1) e" by blast
  have "scores_hold M ?S ?C st2" using sh st2(2) scores_hold_cong[of st2 st] by simp
  moreover have "?S key = Some se" using e se by (simp add: store_subs_def)
  ultimately obtain st3 where st3: "ss_delete_submission key se st2 = (st3, Inr ())" "same_stores st2 st3"
      "scores_hold M (?S(key := None)) {c \<in> ?C. ch_submission c \<noteq> key} st3"
    using ss_delete_submission_ok by blast
  let ?st4 = "remove_file K_submission key st3"
  have run: "delete_rec (Suc (Suc n)) K_submission key st = (?st4, Inr ())"
    unfolding delete_rec_cascade using e st2(1) st3(1) by (simp add: stm_simps se delete_callbacks_def)
  have s4: "rk_store ?st4 = rk_store st2" using st3(2) by (simp add: same_stores_def)
  have sub4: "rk_store ?st4 K_submission = AList.delete key (rk_store st K_submission)" using st2(2) s4 by simp
  have S4: "store_subs (rk_store ?st4) = ?S(key := None)"
    unfolding store_subs_def[abs_def] sub4 by (auto simp: map_of_dict_del fun_eq_iff)
  have ch4: "map_of (rk_store ?st4 K_subchange) k = Some (E_subchange h) \<longleftrightarrow>
      map_of (rk_store st K_subchange) k = Some (E_subchange h) \<and> he_submission h \<noteq> key" for k h
  proof -
    have "consistent (rk_store st) (E_subchange h)" if "map_of (rk_store st K_subchange) k = Some (E_subchange h)"
      using cons map_of_SomeD[OF that] by (force simp: consistent_in_def)
    then show ?thesis unfolding s4 st2(3) using map_of_filter_dict[OF stores_okD(1)[OF so1, of K_subchange]]
      by (auto simp: dict_has_delete)
  qed
  have C4: "store_changes (rk_store ?st4) = {c \<in> ?C. ch_submission c \<noteq> key}"
    unfolding store_changes_def ch4 by (auto simp: entity_subchange_def)
  have so4: "stores_ok (rk_store ?st4)" using st2(2) s4 by simp
  have "scores_hold M (store_subs (rk_store ?st4)) (store_changes (rk_store ?st4)) ?st4"
    unfolding S4 C4 using st3(3) scores_hold_cong[of ?st4 st3] by simp
  moreover have "disk_agrees X ?st4"
    by (rule disk_agrees_remove_file) (use st2(2) st3(2) disk_agrees_cong[OF st3(2)] in \<open>simp_all add: same_stores_def map_of_dict_del\<close>)
  ultimately have "state_ok M X ?st4" using so4 by (simp add: state_ok_def)
  moreover have "deleted K_submission key (rk_store st) (rk_store ?st4)"
  proof -
    have "filter (\<lambda>(_, e). consistent (rk_store ?st1) e) (rk_store st K_subchange) = filter (\<lambda>(_, e). consistent (rk_store ?st4) e) (rk_store st K_subchange)"
      using st2(4) s4 stores_okD(2)[OF so] by (intro filter_cong) auto
    then show ?thesis unfolding deleted_def using st2(2,3) s4 sub4 by simp
  qed
  moreover have "rk_disk_ok ?st4 = rk_disk_ok st" using st2(2) st3(2) by (simp add: same_stores_def)
  ultimately show "\<exists>st'. delete_rec (Suc (Suc n)) K_submission key st = (st', Inr ()) \<and> state_ok M X st' \<and>
      deleted K_submission key (rk_store st) (rk_store st') \<and> rk_disk_ok st' = rk_disk_ok st"
    using run by blast
qed

lemma depends_below: "depends k = [dep] \<Longrightarrow> below k = insert dep (below dep) \<and> dep \<notin> below dep \<and> k \<noteq> dep \<and> k \<notin> below dep"
  by (cases k) auto

lemma parent_not_below: "depends k = [dep] \<Longrightarrow> j \<in> below dep \<Longrightarrow> j \<notin> set (depends k)"
  by (cases k) auto

text \<open>The other stores, whose callbacks only send_event events.\<close>

lemma delete_upper_spec:
  assumes "delete_spec n dep" "depends k = [dep]" "k \<noteq> K_submission"
  shows "delete_spec (Suc n) k"
  unfolding delete_spec_def
proof (intro allI impI)
  fix M X st key e
  assume ok: "state_ok M X st" and cons: "consistent_in (below k) (rk_store st)" and e: "map_of (rk_store st k) key = Some e"
  let ?st1 = "remove_entity k key st" and ?X = "insert (k, key) X"
  have kk: "k \<noteq> K_subchange" "k \<noteq> K_submission" using assms(2,3) by auto
  note b = depends_below[OF assms(2)]
  have so: "stores_ok (rk_store st)" and sh: "scores_hold M (store_subs (rk_store st)) (store_changes (rk_store st)) st" and da: "disk_agrees X st"
    using ok by (simp_all add: state_ok_def)
  have same: "store_subs (rk_store ?st1) = store_subs (rk_store st)" by (rule store_subs_cong) (use kk in simp)
  have same': "store_changes (rk_store ?st1) = store_changes (rk_store st)" by (rule store_changes_cong) (use kk in simp)
  have ok1: "state_ok M ?X ?st1"
    unfolding state_ok_def same same' using stores_ok_remove[OF so] sh scores_hold_cong[of ?st1 st] disk_agrees_remove_entity[OF da] by simp
  have so1: "stores_ok (rk_store ?st1)" using ok1 by (simp add: state_ok_def)
  have same_c: "consistent (rk_store ?st1) x = consistent (rk_store st) x" if "kind_of x \<in> below dep" for x
    by (rule consistent_cong) (use parent_not_below[OF assms(2) that] in auto)
  have cons1: "consistent_in (below dep) (rk_store ?st1)"
    unfolding consistent_in_def
  proof (intro ballI)
    fix j x assume j: "j \<in> below dep" and x: "x \<in> snd ` set (rk_store ?st1 j)"
    then have xs: "x \<in> snd ` set (rk_store st j)" using b by (cases "j = k") auto
    then have "kind_of x = j" using stores_okD(2)[OF so] by auto
    moreover have "consistent (rk_store st) x" using cons xs j b by (auto simp: consistent_in_def)
    ultimately show "consistent (rk_store ?st1) x" using same_c j by metis
  qed
  let ?J = "\<lambda>st'. state_ok M ?X st' \<and> consistent_in (below dep) (rk_store st') \<and> rk_disk_ok st' = rk_disk_ok st \<and>
    (\<forall>j\<in>below dep. rk_store st' j = filter (\<lambda>(_, e). consistent (rk_store st') e) (rk_store ?st1 j)) \<and>
    (\<forall>j. j \<noteq> dep \<and> j \<notin> below dep \<longrightarrow> rk_store st' j = rk_store ?st1 j)"
  have "\<exists>st2. cascade n dep ?st1 = (st2, Inr ()) \<and> ?J st2 \<and>
    rk_store st2 dep = filter (\<lambda>(_, e). consistent (rk_store ?st1) e) (rk_store ?st1 dep) \<and>
    (\<forall>e. kind_of e = dep \<longrightarrow> consistent (rk_store st2) e = consistent (rk_store ?st1) e)"
  proof (rule cascade_ok)
    have "rk_store ?st1 j = filter (\<lambda>(_, e). consistent (rk_store ?st1) e) (rk_store ?st1 j)" if "j \<in> below dep" for j
      by (rule consistent_in_filter[OF cons1 that, symmetric])
    then show "?J ?st1" using ok1 cons1 by (simp del: remove_entity_simps(1))
    show "dict_ok (rk_store ?st1 dep)" using stores_okD(1)[OF so1] .
    show "kind_of e = dep" if "(key, e) \<in> set (rk_store ?st1 dep)" for key e using stores_okD(2)[OF so1 that] by blast
    fix st' o_key o_e assume J: "?J st'" and o_e: "map_of (rk_store st' dep) o_key = Some o_e"
    obtain st'' where st'': "delete_rec n dep o_key st' = (st'', Inr ())" "state_ok M ?X st''" "deleted dep o_key (rk_store st') (rk_store st'')"
        "rk_disk_ok st'' = rk_disk_ok st'"
      using assms(1)[unfolded delete_spec_def, rule_format, OF _ _ o_e, of M ?X] J by blast
    note del = st''(3)[unfolded deleted_def]
    have mono: "consistent (rk_store st'') e \<Longrightarrow> consistent (rk_store st') e" for e
      using consistent_mono[of "rk_store st''" "rk_store st'" e] deleted_fewer[OF st''(3)] by blast
    have "rk_store st'' j = filter (\<lambda>(_, e). consistent (rk_store st'') e) (rk_store ?st1 j)" if "j \<in> below dep" for j
    proof -
      have "rk_store st'' j = filter (\<lambda>(_, e). consistent (rk_store st'') e) (rk_store st' j)" using del that by blast
      also have "rk_store st' j = filter (\<lambda>(_, e). consistent (rk_store st') e) (rk_store ?st1 j)" using J that by blast
      finally show ?thesis using mono by (auto simp: filter_filter intro!: filter_cong)
    qed
    moreover have "consistent_in (below dep) (rk_store st'')"
      using del by (auto simp: consistent_in_def)
    moreover have "rk_store st'' j = rk_store ?st1 j" if "j \<noteq> dep \<and> j \<notin> below dep" for j using del J that by metis
    ultimately have "?J st''" using st''(2,4) J by blast
    moreover have "consistent (rk_store st'') e = consistent (rk_store st') e" if "kind_of e = dep" for e
    proof (rule consistent_cong)
      fix p assume "kind_of e \<in> set (depends p)"
      then have "p \<noteq> dep \<and> p \<notin> below dep" using that below_depends[of dep p dep] below_self[of dep] by blast
      then show "rk_store st'' p = rk_store st' p" using del by blast
    qed
    ultimately show "\<exists>st''. delete_rec n dep o_key st' = (st'', Inr ()) \<and> ?J st'' \<and>
        rk_store st'' dep = AList.delete o_key (rk_store st' dep) \<and>
        (\<forall>e. kind_of e = dep \<longrightarrow> consistent (rk_store st'') e = consistent (rk_store st') e)"
      using st''(1) del by blast
  qed
  then obtain st2 where st2: "cascade n dep ?st1 = (st2, Inr ())" "?J st2"
      "rk_store st2 dep = filter (\<lambda>(_, e). consistent (rk_store ?st1) e) (rk_store ?st1 dep)"
      "\<And>e. kind_of e = dep \<Longrightarrow> consistent (rk_store st2) e = consistent (rk_store ?st1) e" by blast
  have ke: "kind_of e = k" using stores_okD(3)[OF so e] by blast
  let ?st3 = "remove_file k key (send_event (Ev_entity k ''delete'' key) st2)"
  have run: "delete_rec (Suc n) k key st = (?st3, Inr ())"
    unfolding delete_rec_cascade using e assms(2) st2(1) ke kk
    by (cases e) (auto simp: stm_simps delete_callbacks_def)
  have k3: "rk_store ?st3 k = AList.delete key (rk_store st k)" using st2(2) b by simp
  have "disk_agrees X ?st3"
    by (rule disk_agrees_remove_file) (use st2(2) k3 in \<open>auto simp: state_ok_def disk_agrees_def map_of_dict_del\<close>)
  then have "state_ok M X ?st3" using st2(2) scores_hold_cong[of ?st3 st2] by (simp add: state_ok_def)
  moreover have "deleted k key (rk_store st) (rk_store ?st3)"
  proof -
    have "filter (\<lambda>(_, e). consistent (rk_store ?st1) e) (rk_store st dep) = filter (\<lambda>(_, e). consistent (rk_store st2) e) (rk_store st dep)"
      using st2(4) stores_okD(2)[OF so] by (intro filter_cong) auto
    moreover have "j \<noteq> k" if "j \<in> below dep" for j using that b by blast
    ultimately show ?thesis unfolding deleted_def using st2(2,3) b k3 by auto
  qed
  moreover have "rk_disk_ok ?st3 = rk_disk_ok st" using st2(2) by simp
  ultimately show "\<exists>st'. delete_rec (Suc n) k key st = (st', Inr ()) \<and> state_ok M X st' \<and>
      deleted k key (rk_store st) (rk_store st') \<and> rk_disk_ok st' = rk_disk_ok st"
    using run by blast
qed

lemma store_delete_spec: "delete_spec (store_rank k) k"
proof -
  have n: "(2 :: nat) = Suc (Suc 0)" "(3 :: nat) = Suc 2" "(4 :: nat) = Suc 3" by simp_all
  have s: "delete_spec 2 K_submission" unfolding n(1) by (rule delete_submission_spec)
  have u: "delete_spec 3 K_user" "delete_spec 3 K_task" unfolding n(2) by (rule delete_upper_spec[OF s]; simp)+
  have t: "delete_spec 4 K_team" "delete_spec 4 K_contest" unfolding n(3) by (rule delete_upper_spec[OF u(1)] delete_upper_spec[OF u(2)]; simp)+
  show ?thesis using s u t delete_subchange_spec[of 0] by (cases k) simp_all
qed

end
