(* ===== verification/Ranking_Requests.thy ===== *)
theory Ranking_Requests
  imports Ranking_Integrity
begin

text \<open>
  Requests that write entities, and what holds after any sequence of requests: the integrity of the stores, the
  agreement of the scores with them, and what a restart of the server finds.
\<close>

section \<open>Writing an entity\<close>

text \<open>Updates for which the callbacks are sound: the score mode of a task stays, a
  submission stays with its user and task, and a change keeps its time.\<close>

fun compatible :: "entity \<Rightarrow> entity \<Rightarrow> bool" where
  "compatible (E_task a) (E_task b) \<longleftrightarrow> te_score_mode a = te_score_mode b"
| "compatible (E_submission a) (E_submission b) \<longleftrightarrow> se_user a = se_user b \<and> se_task a = se_task b"
| "compatible (E_subchange a) (E_subchange b) \<longleftrightarrow> (he_submission a = he_submission b \<longrightarrow> he_time a = he_time b)"
| "compatible _ _ \<longleftrightarrow> True"

definition put_good :: "ranking_state \<Rightarrow> store_kind \<Rightarrow> string \<Rightarrow> entity \<Rightarrow> bool" where
  "put_good st k key e \<longleftrightarrow> key \<noteq> [] \<and> kind_of e = k \<and> entity_valid e \<and> entity_good e \<and> consistent (rk_store st) e \<and>
     (\<forall>old_e. map_of (rk_store st k) key = Some old_e \<longrightarrow> compatible old_e e)"

abbreviation scores_hold_stores :: "ranking_state \<Rightarrow> ranking_state \<Rightarrow> bool" where
  "scores_hold_stores st st' \<equiv>
     scores_hold (store_modes (rk_store st)) (store_subs (rk_store st)) (store_changes (rk_store st)) st'"

lemma scores_hold_modes:
  assumes "scores_hold M S C st" "\<And>t key e. S key = Some e \<Longrightarrow> se_task e = t \<Longrightarrow> M' t = M t"
  shows "scores_hold M' S C st"
  unfolding scores_hold_def
proof (intro conjI ballI allI)
  show "scores_dict_ok st" "inj_on ch_key C" using scores_holdD(3,6)[OF assms(1)] by blast+
  fix c assume "c \<in> C" then show "change_ok c" "S (ch_submission c) \<noteq> None" using scores_holdD(4,5)[OF assms(1)] by blast+
next
  fix u t
  show "case score_at st u t of None \<Rightarrow> subs_of S u t = Map.empty
      | Some sc \<Rightarrow> subs_of S u t \<noteq> Map.empty \<and> score_holds (M' t) sc (subs_of S u t) (changes_of S C u t)"
  proof (cases "score_at st u t")
    case None
    then show ?thesis using scores_holdD(1)[OF assms(1)] by simp
  next
    case (Some sc)
    then have ne: "subs_of S u t \<noteq> Map.empty" by (rule scores_holdD(7)[OF assms(1)])
    then obtain key where "subs_of S u t key \<noteq> None" by fastforce
    then obtain e where "S key = Some e" "se_task e = t" by (auto simp: subs_of_def split: option.splits if_splits)
    then have "M' t = M t" by (rule assms(2))
    then show ?thesis using Some ne scores_holdD(2)[OF assms(1) Some] by simp
  qed
qed

lemma put_entity_simps [simp]:
  "rk_store (put_entity k key e st) = (rk_store st)(k := dict_set (rk_store st k) key e)"
  "rk_scores (put_entity k key e st) = rk_scores st" "rk_disk (put_entity k key e st) = rk_disk st"
  "rk_disk_ok (put_entity k key e st) = rk_disk_ok st"
  by (simp_all add: put_entity_def)

lemma write_file_simps [simp]:
  "rk_store (write_file k key j st) = rk_store st" "rk_scores (write_file k key j st) = rk_scores st"
  "rk_disk_ok (write_file k key j st) = rk_disk_ok st"
  by (simp_all add: write_file_def)

lemma set_dict_set: "set (dict_set d k v) \<subseteq> insert (k, v) (set d)"
  unfolding dict_set_def by (induction d) auto

lemma ch_key_entity: "ch_key (entity_subchange key h) = key"
  by (simp add: entity_subchange_def)

lemma store_subs_set:
  "store_subs (s(K_submission := dict_set (s K_submission) key (E_submission e))) = (store_subs s)(key \<mapsto> e)"
  by (auto simp: store_subs_def map_of_dict_set fun_eq_iff)

lemma store_changes_set:
  "store_changes (s(K_subchange := dict_set (s K_subchange) key (E_subchange h))) =
     insert (entity_subchange key h) {c \<in> store_changes s. ch_key c \<noteq> key}"
  by (auto simp: store_changes_def map_of_dict_set ch_key_entity split: if_splits)

lemma store_modes_set: "store_modes (s(K_task := dict_set (s K_task) key (E_task e))) = (store_modes s)(key := te_score_mode e)"
  by (auto simp: store_modes_def map_of_dict_set fun_eq_iff)

lemma store_views_other:
  "k \<noteq> K_submission \<Longrightarrow> store_subs (s(k := d)) = store_subs s" "k \<noteq> K_subchange \<Longrightarrow> store_changes (s(k := d)) = store_changes s"
  "k \<noteq> K_task \<Longrightarrow> store_modes (s(k := d)) = store_modes s"
  by (simp_all add: store_subs_def store_changes_def store_modes_def fun_eq_iff)

lemma stores_ok_set:
  assumes "stores_ok s" "key \<noteq> []" "kind_of e = k" "entity_valid e" "entity_good e"
  shows "stores_ok (s(k := dict_set (s k) key e))"
  using assms set_dict_set[of "s k" key e] unfolding stores_ok_def by auto

lemma disk_agrees_write:
  "disk_agrees {} st \<Longrightarrow> rk_store st' = (rk_store st)(k := dict_set (rk_store st k) key e) \<Longrightarrow> rk_disk st' = rk_disk st \<Longrightarrow>
   rk_disk_ok st' = rk_disk_ok st \<Longrightarrow> disk_agrees {} (write_file k key (entity_get e) st')"
  by (auto simp: disk_agrees_def write_file_def map_of_dict_set)

lemma all_consistent_set:
  assumes "all_consistent s" "consistent s e"
  shows "all_consistent (s(k := dict_set (s k) key e))"
proof -
  let ?s = "s(k := dict_set (s k) key e)"
  have m: "consistent ?s x" if "consistent s x" for x
    by (rule consistent_mono[OF _ that]) (auto simp: dict_has_set)
  have "consistent s x" if "x \<in> snd ` set (?s j)" for x j
    using that assms set_dict_set[of "s k" key e] by (cases "j = k") (force simp: all_consistent_def)+
  then show ?thesis unfolding all_consistent_def using m by blast
qed

definition write_callbacks :: "store_kind \<Rightarrow> string \<Rightarrow> entity option \<Rightarrow> entity \<Rightarrow> (ranking_state, unit) stm" where
  "write_callbacks k key old_e e = (case old_e of None \<Rightarrow> create_callbacks k key e | Some old_e \<Rightarrow> update_callbacks k key old_e e)"

definition callbacks_ok :: "ranking_state \<Rightarrow> store_kind \<Rightarrow> string \<Rightarrow> entity \<Rightarrow> bool" where
  "callbacks_ok st k key e \<longleftrightarrow>
     (\<exists>st'. write_callbacks k key (map_of (rk_store st k) key) e (put_entity k key e st) = (st', Inr ()) \<and>
       same_stores (put_entity k key e st) st' \<and> scores_hold_stores (put_entity k key e st) st')"

lemma ranking_okD:
  assumes "ranking_ok st"
  shows "stores_ok (rk_store st)" "scores_hold_stores st st" "disk_agrees {} st" "all_consistent (rk_store st)"
    "map_of (rk_store st k) key = Some e \<Longrightarrow> consistent (rk_store st) e"
  using assms by (auto simp: ranking_ok_def state_ok_def all_consistent_def dest!: map_of_SomeD) force

lemma write_task_ok:
  assumes ok: "ranking_ok st" and good: "put_good st K_task key (E_task e)"
  shows "callbacks_ok st K_task key (E_task e)"
proof -
  let ?s = "rk_store st" and ?e = "E_task e" and ?st1 = "put_entity K_task key (E_task e) st"
  have mode: "store_modes ?s key = te_score_mode e \<or> map_of (?s K_task) key = None"
    using good stores_ok_kinds(3)[OF ranking_okD(1)[OF ok], of key]
    by (cases "map_of (?s K_task) key") (auto simp: put_good_def store_modes_def)
  have task: "map_of (?s K_task) (se_task x) \<noteq> None" if "store_subs ?s k = Some x" for k x
  proof -
    have "map_of (?s K_submission) k = Some (E_submission x)" using that by (auto simp: store_subs_def split: option.splits entity.splits)
    then show ?thesis using ranking_okD(5)[OF ok] by (fastforce simp: dict_has_def)
  qed
  have "store_modes (rk_store ?st1) (se_task x) = store_modes ?s (se_task x)" if "store_subs ?s k = Some x" for k x
    using mode task[OF that] by (auto simp: store_modes_set)
  then have "scores_hold (store_modes (rk_store ?st1)) (store_subs ?s) (store_changes ?s) st"
    by (intro scores_hold_modes[OF ranking_okD(2)[OF ok]]) blast
  then have "scores_hold_stores ?st1 st" by (simp add: store_views_other)
  then have "scores_hold_stores ?st1 (send_event ev ?st1)" for ev by (rule scores_hold_cong[THEN iffD2, rotated]) simp
  then show ?thesis unfolding callbacks_ok_def
    by (auto simp: write_callbacks_def create_callbacks_def update_callbacks_def stm_simps simp del: put_entity_simps split: option.splits entity.splits)
qed

lemma write_other_ok:
  assumes ok: "ranking_ok st" and good: "put_good st k key e" and k: "k \<in> {K_contest, K_team, K_user}"
  shows "callbacks_ok st k key e"
proof -
  let ?s = "rk_store st" and ?st1 = "put_entity k key e st"
  have "k \<noteq> K_submission" "k \<noteq> K_subchange" "k \<noteq> K_task" using k by auto
  then have "scores_hold_stores ?st1 st" using ranking_okD(2)[OF ok] by (simp add: store_views_other)
  then have "scores_hold_stores ?st1 (send_event ev ?st1)" for ev by (rule scores_hold_cong[THEN iffD2, rotated]) simp
  moreover have "kind_of e \<notin> {K_submission, K_subchange}" using good k by (auto simp: put_good_def)
  ultimately show ?thesis unfolding callbacks_ok_def
    by (auto simp: write_callbacks_def create_callbacks_def update_callbacks_def stm_simps simp del: put_entity_simps split: option.splits entity.splits)
qed

lemma stored_modes:
  assumes "ranking_ok st" "dict_has (rk_store st K_task) t" "rk_store st' K_task = rk_store st K_task"
  shows "task_score_mode_of st' t = Inr (store_modes (rk_store st) t)" "mode_ok (store_modes (rk_store st) t)"
proof -
  obtain x where x: "map_of (rk_store st K_task) t = Some x" using assms(2) by (auto simp: dict_has_def)
  then obtain e where e: "x = E_task e" using stores_ok_kinds(3)[OF ranking_okD(1)[OF assms(1)]] by blast
  show "task_score_mode_of st' t = Inr (store_modes (rk_store st) t)" "mode_ok (store_modes (rk_store st) t)"
    using x e assms(3) stores_okD(3)[OF ranking_okD(1)[OF assms(1)] x] by (simp_all add: task_score_mode_of_def store_modes_def)
qed

lemma write_submission_ok:
  assumes ok: "ranking_ok st" and good: "put_good st K_submission key (E_submission e)"
  shows "callbacks_ok st K_submission key (E_submission e)"
proof -
  let ?s = "rk_store st" and ?st1 = "put_entity K_submission key (E_submission e) st"
  let ?M = "store_modes ?s" and ?S = "store_subs ?s" and ?C = "store_changes ?s"
  have same: "store_subs (rk_store ?st1) = ?S(key \<mapsto> e)" "store_changes (rk_store ?st1) = ?C" "store_modes (rk_store ?st1) = ?M"
    by (simp_all add: store_subs_set store_views_other)
  have sh: "scores_hold ?M ?S ?C ?st1" using scores_hold_cong[of ?st1 st] ranking_okD(2)[OF ok] by simp
  have m: "task_score_mode_of ?st1 (se_task e) = Inr (?M (se_task e))" "mode_ok (?M (se_task e))"
    using stored_modes[OF ok, of "se_task e" ?st1] good by (simp_all add: put_good_def)
  show ?thesis
  proof (cases "map_of (?s K_submission) key")
    case None
    then have "?S key = None" by (simp add: store_subs_def)
    from ss_create_submission_ok[OF sh this m] show ?thesis unfolding callbacks_ok_def None same
      by (simp add: write_callbacks_def create_callbacks_def del: put_entity_simps)
  next
    case (Some x)
    then obtain old_e where x: "x = E_submission old_e" using stores_ok_kinds(1)[OF ranking_okD(1)[OF ok]] by blast
    have "?S key = Some old_e" using Some x by (simp add: store_subs_def)
    moreover have "se_user old_e = se_user e" "se_task old_e = se_task e" using good Some x by (auto simp: put_good_def)
    ultimately show ?thesis unfolding callbacks_ok_def Some same using ss_update_submission_ok[OF sh _ _ _ m(1)]
      by (simp add: write_callbacks_def update_callbacks_def x del: put_entity_simps)
  qed
qed

lemma stored_change_submission:
  assumes "ranking_ok st" "dict_has (rk_store st K_submission) x" "rk_store st' K_submission = rk_store st K_submission"
  obtains e where "store_subs (rk_store st) x = Some e" "stored_submission st' x = Inr e"
proof -
  obtain e where e: "store_subs (rk_store st) x = Some e" using store_subs_has[OF ranking_okD(1)[OF assms(1)], of x] assms(2) by auto
  then show ?thesis using that[of e] store_subs_cong[of "rk_store st'" "rk_store st"] assms(3) by (simp add: stored_submission_subs)
qed

lemma write_subchange_ok:
  assumes ok: "ranking_ok st" and good: "put_good st K_subchange key (E_subchange h)"
  shows "callbacks_ok st K_subchange key (E_subchange h)"
proof -
  let ?s = "rk_store st" and ?st1 = "put_entity K_subchange key (E_subchange h) st" and ?c = "entity_subchange key h"
  let ?M = "store_modes ?s" and ?S = "store_subs ?s" and ?C = "store_changes ?s"
  have same: "store_subs (rk_store ?st1) = ?S" "store_changes (rk_store ?st1) = insert ?c {c \<in> ?C. ch_key c \<noteq> key}" "store_modes (rk_store ?st1) = ?M"
    by (simp_all add: store_changes_set store_views_other)
  have sh: "scores_hold ?M ?S ?C ?st1" using scores_hold_cong[of ?st1 st] ranking_okD(2)[OF ok] by simp
  have co: "change_ok ?c" using good change_ok_key[of key h] by (simp add: put_good_def)
  have "dict_has (?s K_submission) (he_submission h)" using good by (simp add: put_good_def)
  then obtain e where e: "?S (he_submission h) = Some e" "stored_submission ?st1 (he_submission h) = Inr e"
    using stored_change_submission[OF ok, of _ ?st1] by (metis put_entity_simps(1) fun_upd_other store_kind.distinct(29))
  show ?thesis
  proof (cases "map_of (?s K_subchange) key")
    case None
    then have k: "key \<notin> ch_key ` ?C" by (auto simp: store_changes_def ch_key_entity)
    then have "{c \<in> ?C. ch_key c \<noteq> key} = ?C" by auto
    with ss_create_subchange_ok[OF sh e co k] show ?thesis unfolding callbacks_ok_def None same
      by (simp add: write_callbacks_def create_callbacks_def del: put_entity_simps)
  next
    case (Some x)
    then obtain old_h where x: "x = E_subchange old_h" using stores_ok_kinds(2)[OF ranking_okD(1)[OF ok]] by blast
    let ?d = "entity_subchange key old_h"
    have d: "?d \<in> ?C" "{c \<in> ?C. ch_key c \<noteq> key} = ?C - {?d}" using Some x by (auto simp: store_changes_def ch_key_entity)
    have "dict_has (?s K_submission) (he_submission old_h)" using ranking_okD(5)[OF ok Some] x by simp
    then obtain old_e where old: "?S (he_submission old_h) = Some old_e" "stored_submission ?st1 (he_submission old_h) = Inr old_e"
      using stored_change_submission[OF ok, of _ ?st1] by (metis put_entity_simps(1) fun_upd_other store_kind.distinct(29))
    have "he_submission old_h = he_submission h \<longrightarrow> he_time old_h = he_time h" using good Some x by (auto simp: put_good_def)
    from ss_update_subchange_ok[OF sh e old d(1) co this] show ?thesis unfolding callbacks_ok_def Some same d(2)
      by (simp add: write_callbacks_def update_callbacks_def x del: put_entity_simps)
  qed
qed

lemma write_callbacks_ok:
  assumes "ranking_ok st" "put_good st k key e"
  shows "callbacks_ok st k key e"
proof -
  have "kind_of e = k" using assms(2) by (simp add: put_good_def)
  then show ?thesis using assms write_task_ok write_submission_ok write_subchange_ok write_other_ok[OF assms] by (cases e) auto
qed

text \<open>The common part of \<open>create\<close>, \<open>update\<close> and \<open>merge_list\<close>.\<close>

lemma merge_entity_ok:
  assumes ok: "ranking_ok st" and good: "put_good st k key e"
  shows "\<exists>st'. merge_entity k (key, e) st = (st', Inr ()) \<and> ranking_ok st' \<and> rk_disk_ok st' = rk_disk_ok st \<and>
    rk_store st' = (rk_store st)(k := dict_set (rk_store st k) key e)"
proof -
  let ?st1 = "put_entity k key e st"
  obtain st2 where st2: "write_callbacks k key (map_of (rk_store st k) key) e ?st1 = (st2, Inr ())" "same_stores ?st1 st2"
      "scores_hold_stores ?st1 st2"
    using write_callbacks_ok[OF assms] unfolding callbacks_ok_def by blast
  let ?st' = "write_file k key (entity_get e) st2"
  have s': "rk_store ?st' = (rk_store st)(k := dict_set (rk_store st k) key e)" "rk_disk_ok ?st' = rk_disk_ok st"
    using st2(2) by (simp_all add: same_stores_def)
  have run: "merge_entity k (key, e) st = (?st', Inr ())"
    using st2(1) by (simp add: merge_entity_def write_callbacks_def stm_simps)
  have g: "key \<noteq> []" "kind_of e = k" "entity_valid e" "entity_good e" "consistent (rk_store st) e"
    using good by (simp_all add: put_good_def)
  have "scores_hold_stores ?st' ?st'"
    using st2(3) scores_hold_cong[of ?st' st2] s'(1) by simp
  moreover have "disk_agrees {} ?st'"
    by (rule disk_agrees_write[OF ranking_okD(3)[OF ok]]) (use st2(2) in \<open>simp_all add: same_stores_def\<close>)
  moreover have "stores_ok (rk_store ?st')" unfolding s'(1) by (rule stores_ok_set[OF ranking_okD(1)[OF ok] g(1-4)])
  moreover have "all_consistent (rk_store ?st')" unfolding s'(1) by (rule all_consistent_set[OF ranking_okD(4)[OF ok] g(5)])
  ultimately have "ranking_ok ?st'" by (simp add: ranking_ok_def state_ok_def)
  then show ?thesis using run s' by blast
qed

text \<open>Data of a request: what it parses to is good, and a sound update of what is stored.\<close>

definition data_good :: "ranking_state \<Rightarrow> store_kind \<Rightarrow> string \<Rightarrow> json_value \<Rightarrow> bool" where
  "data_good st k key data \<longleftrightarrow>
     (case entity_set k data of
        Inl _ \<Rightarrow> True
      | Inr e \<Rightarrow> entity_good e \<and> (case map_of (rk_store st k) key of None \<Rightarrow> True | Some old_e \<Rightarrow> compatible old_e e))"

lemma make_item_cases:
  "(make_item k data st = (st, Inl InvalidData)) \<or>
   (\<exists>e. make_item k data st = (st, Inr e) \<and> entity_set k data = Inr e \<and> consistent (rk_store st) e)"
  by (cases "entity_set k data") (auto simp: make_item_def stm_simps dest: entity_set_raises)

lemma data_good_put:
  "data_good st k key data \<Longrightarrow> entity_set k data = Inr e \<Longrightarrow> consistent (rk_store st) e \<Longrightarrow> key \<noteq> [] \<Longrightarrow> put_good st k key e"
  using entity_set_kind[of k data e] entity_set_valid[of k data e] by (auto simp: data_good_def put_good_def split: option.splits)

definition request_ok :: "ranking_state \<Rightarrow> ranking_state \<times> unit res \<Rightarrow> bool" where
  "request_ok st r \<longleftrightarrow> ranking_ok (fst r) \<and> rk_disk_ok (fst r) = rk_disk_ok st \<and> (snd r = Inr () \<or> r = (st, Inl InvalidData))"

lemma store_put_merge:
  "(if dict_has (rk_store st k) key then store_update k key data st else store_create k key data st) =
     sbind (make_item k data) (\<lambda>e. merge_entity k (key, e)) st"
  using make_item_cases[of k data st]
  by (auto simp: store_update_def store_create_def merge_entity_def stm_simps dict_has_def split: option.split)

lemma store_put_ok:
  assumes "ranking_ok st" "data_good st k key data" "key \<noteq> []"
  shows "request_ok st (if dict_has (rk_store st k) key then store_update k key data st else store_create k key data st)"
proof -
  note run = store_put_merge
  from make_item_cases[of k data st] show ?thesis
  proof
    assume "make_item k data st = (st, Inl InvalidData)"
    then show ?thesis unfolding run using assms(1) by (simp add: request_ok_def stm_simps)
  next
    assume "\<exists>e. make_item k data st = (st, Inr e) \<and> entity_set k data = Inr e \<and> consistent (rk_store st) e"
    then obtain e where e: "make_item k data st = (st, Inr e)" "put_good st k key e" using data_good_put assms(2,3) by blast
    then show ?thesis unfolding run using merge_entity_ok[OF assms(1) e(2)] by (auto simp: request_ok_def stm_simps)
  qed
qed

lemma store_delete_ok:
  assumes "ranking_ok st" "dict_has (rk_store st k) key"
  shows "\<exists>st'. store_delete k key st = (st', Inr ()) \<and> ranking_ok st' \<and> deleted k key (rk_store st) (rk_store st') \<and> rk_disk_ok st' = rk_disk_ok st"
proof -
  let ?M = "store_modes (rk_store st)"
  obtain e where e: "map_of (rk_store st k) key = Some e" using assms(2) by (auto simp: dict_has_def)
  have "consistent_in (below k) (rk_store st)" using ranking_okD(4)[OF assms(1)] by (simp add: all_consistent_def consistent_in_def)
  moreover have "state_ok ?M {} st" using assms(1) by (simp add: ranking_ok_def)
  ultimately obtain st' where st': "store_delete k key st = (st', Inr ())" "state_ok ?M {} st'" "deleted k key (rk_store st) (rk_store st')"
      "rk_disk_ok st' = rk_disk_ok st"
    using store_delete_spec[of k, unfolded delete_spec_def, rule_format, OF _ _ e] unfolding store_delete_def by blast
  have ac: "all_consistent (rk_store st')" by (rule deleted_consistent[OF st'(3) ranking_okD(4,1)[OF assms(1)]])
  have so: "stores_ok (rk_store st')" using st'(2) by (simp add: state_ok_def)
  have modes: "store_modes (rk_store st') t = ?M t" if "dict_has (rk_store st' K_task) t" for t
  proof -
    have "\<exists>P. rk_store st' K_task = filter P (rk_store st K_task)"
      using st'(3) by (cases "k = K_task"; cases "K_task \<in> below k") (auto simp: deleted_def AList.delete_eq intro: filter_True[symmetric])
    then have "map_of (rk_store st' K_task) t = map_of (rk_store st K_task) t"
      using that map_of_filter_dict[OF stores_okD(1)[OF ranking_okD(1)[OF assms(1)], of K_task]] by (auto simp: dict_has_def)
    then show ?thesis by (simp add: store_modes_def)
  qed
  have "scores_hold_stores st' st'"
  proof (rule scores_hold_modes)
    show "scores_hold ?M (store_subs (rk_store st')) (store_changes (rk_store st')) st'" using st'(2) by (simp add: state_ok_def)
    fix t x e assume "store_subs (rk_store st') x = Some e" "se_task e = t"
    then have "(x, E_submission e) \<in> set (rk_store st' K_submission)"
      by (auto simp: store_subs_def split: option.splits entity.splits dest: map_of_SomeD)
    then have "consistent (rk_store st') (E_submission e)" using ac by (force simp: all_consistent_def)
    then show "store_modes (rk_store st') t = ?M t" using modes \<open>se_task e = t\<close> by simp
  qed
  then have "ranking_ok st'" using st'(2) ac by (simp add: ranking_ok_def state_ok_def)
  then show ?thesis using st' by blast
qed

lemma store_delete_list_ok:
  assumes "ranking_ok st"
  shows "\<exists>st'. store_delete_list k st = (st', Inr ()) \<and> ranking_ok st' \<and> rk_store st' k = [] \<and> rk_disk_ok st' = rk_disk_ok st"
proof -
  let ?d = "rk_store st k"
  let ?I = "\<lambda>pre st'. ranking_ok st' \<and> rk_disk_ok st' = rk_disk_ok st \<and> rk_store st' k = filter (\<lambda>x. fst x \<notin> set pre) ?d"
  have dist: "distinct (map fst ?d)" using stores_okD(1)[OF ranking_okD(1)[OF assms]] by (simp add: dict_ok_def)
  have "\<exists>st'. sforeach (map fst ?d) (store_delete k) st = (st', Inr ()) \<and> ?I (map fst ?d) st'"
  proof (rule sforeach_rule[where I = ?I])
    show "?I [] st" using assms by simp
    fix pre key post st' assume keys: "map fst ?d = pre @ key # post" and I: "?I pre st'"
    have "key \<in> fst ` set ?d" "key \<notin> set pre" using keys dist by (auto simp flip: set_map)
    then have "key \<in> fst ` set (filter (\<lambda>x. fst x \<notin> set pre) ?d)" by auto
    then have "dict_has (rk_store st' k) key" using I by (simp add: dict_has_iff dom_map_of_conv_image_fst)
    then obtain st'' where st'': "store_delete k key st' = (st'', Inr ())" "ranking_ok st''" "deleted k key (rk_store st') (rk_store st'')"
        "rk_disk_ok st'' = rk_disk_ok st'" using store_delete_ok I by blast
    have "rk_store st'' k = filter (\<lambda>x. fst x \<notin> set (pre @ [key])) ?d"
      using st''(3) I by (auto simp: deleted_def AList.delete_eq intro!: filter_cong)
    then show "\<exists>st''. store_delete k key st' = (st'', Inr ()) \<and> ?I (pre @ [key]) st''" using st'' I by auto
  qed
  then show ?thesis by (auto simp: store_delete_list_def stm_simps filter_empty_conv)
qed

lemma put_good_mono:
  assumes "put_good st k key e" "rk_store st' = (rk_store st)(k := d)" "\<And>x. dict_has (rk_store st k) x \<Longrightarrow> dict_has d x"
    "map_of d key = map_of (rk_store st k) key"
  shows "put_good st' k key e"
proof -
  have "consistent (rk_store st') e"
    by (rule consistent_mono[of "rk_store st"]) (use assms(1-3) in \<open>auto simp: put_good_def\<close>)
  then show ?thesis using assms(1,2,4) by (simp add: put_good_def)
qed

lemma merge_entities_ok:
  assumes "ranking_ok st" "dict_ok es" "\<forall>(key, e)\<in>set es. put_good st k key e"
  shows "\<exists>st'. sforeach es (merge_entity k) st = (st', Inr ()) \<and> ranking_ok st' \<and> rk_disk_ok st' = rk_disk_ok st \<and>
    (\<exists>d. rk_store st' = (rk_store st)(k := d) \<and> map_of d = map_of (rk_store st k) ++ map_of es)"
proof -
  let ?I = "\<lambda>pre st'. ranking_ok st' \<and> rk_disk_ok st' = rk_disk_ok st \<and> (\<exists>d. rk_store st' = (rk_store st)(k := d) \<and>
    map_of d = map_of (rk_store st k) ++ map_of pre)"
  have "\<exists>st'. sforeach es (merge_entity k) st = (st', Inr ()) \<and> ?I es st'"
  proof (rule sforeach_rule[where I = ?I])
    show "?I [] st" using assms(1) by (auto intro!: exI[of _ "rk_store st k"])
    fix pre x post st' assume es: "es = pre @ x # post" and I: "?I pre st'"
    obtain key e where x: "x = (key, e)" by fastforce
    obtain d where d: "rk_store st' = (rk_store st)(k := d)" "map_of d = map_of (rk_store st k) ++ map_of pre" using I by blast
    have np: "map_of pre key = None" using assms(2) es x by (simp add: dict_ok_def map_of_eq_None_iff)
    have "put_good st' k key e"
      by (rule put_good_mono[OF _ d(1)]) (use assms(3) es x np d(2) in \<open>auto simp: dict_has_def map_add_def split: option.split\<close>)
    then obtain st'' where st'': "merge_entity k (key, e) st' = (st'', Inr ())" "ranking_ok st''" "rk_disk_ok st'' = rk_disk_ok st'"
        "rk_store st'' = (rk_store st')(k := dict_set (rk_store st' k) key e)"
      using merge_entity_ok I by blast
    have "rk_store st'' = (rk_store st)(k := dict_set d key e)" using st''(4) d(1) by simp
    moreover have "map_of (dict_set d key e) = map_of (rk_store st k) ++ map_of (pre @ [x])"
      using np unfolding d(2) map_of_dict_set x by (auto simp: map_add_def fun_eq_iff split: option.split)
    ultimately show "\<exists>st''. merge_entity k x st' = (st'', Inr ()) \<and> ?I (pre @ [x]) st''" using st'' I x by metis
  qed
  then show ?thesis by blast
qed

lemma merge_items_ok:
  assumes "\<forall>(key, data)\<in>set items. data_good st k key data" "dict_ok es" "\<forall>(key, e)\<in>set es. put_good st k key e"
  shows "sfold items (merge_item k) es st = (st, Inl InvalidData) \<or>
    (\<exists>es'. sfold items (merge_item k) es st = (st, Inr es') \<and> dict_ok es' \<and> (\<forall>(key, e)\<in>set es'. put_good st k key e))"
  using assms
proof (induction items arbitrary: es)
  case (Cons x items)
  obtain key data where x: "x = (key, data)" by fastforce
  show ?case
  proof (cases "key = [] \<or> \<not> word_char (hd key) \<or> make_item k data st = (st, Inl InvalidData)")
    case True
    then show ?thesis by (auto simp: x merge_item_def stm_simps)
  next
    case False
    then obtain e where e: "make_item k data st = (st, Inr e)" "put_good st k key e"
      using make_item_cases[of k data st] data_good_put[of st k key data] Cons.prems(1) x by auto
    have "\<forall>(key, e)\<in>set (dict_set es key e). put_good st k key e" using Cons.prems(3) e(2) set_dict_set[of es key e] by auto
    then show ?thesis using Cons.IH[of "dict_set es key e"] Cons.prems False e(1) by (simp add: x merge_item_def stm_simps)
  qed
qed (simp add: stm_simps)

text \<open>The list of a merge request.\<close>

definition list_good :: "ranking_state \<Rightarrow> store_kind \<Rightarrow> json_value \<Rightarrow> bool" where
  "list_good st k data = (case data of JDict items \<Rightarrow> list_all (\<lambda>(key, d). data_good st k key d) items | _ \<Rightarrow> True)"

lemma store_merge_list_ok:
  assumes "ranking_ok st" "list_good st k data"
  shows "request_ok st (store_merge_list k data st)"
proof (cases "\<exists>items. data = JDict items")
  case True
  then obtain items where items: "data = JDict items" by blast
  have "\<forall>(key, data)\<in>set items. data_good st k key data" using assms(2) by (simp add: items list_good_def list_all_iff)
  from merge_items_ok[OF this, of "[]"]
  consider "sfold items (merge_item k) [] st = (st, Inl InvalidData)"
    | es where "sfold items (merge_item k) [] st = (st, Inr es)" "dict_ok es" "\<forall>(key, e)\<in>set es. put_good st k key e"
    by auto
  then show ?thesis
  proof cases
    case (2 es)
    then show ?thesis using merge_entities_ok[OF assms(1) 2(2,3)] by (auto simp: items store_merge_list_def request_ok_def stm_simps)
  qed (use assms(1) in \<open>simp add: items store_merge_list_def request_ok_def stm_simps\<close>)
next
  case False
  then show ?thesis using assms(1) by (cases data) (auto simp: store_merge_list_def request_ok_def stm_simps)
qed

end
