(* ===== verification/Ranking_Runs.thy ===== *)
theory Ranking_Runs
  imports Ranking_Requests
begin

text \<open>
  The ranking server over time: start-up from the files of the last run, sequences of requests, and what holds
  in every state the server reaches.
\<close>

section \<open>Start-up\<close>

lemma entity_get_set: "entity_valid e \<Longrightarrow> entity_set (kind_of e) (entity_get e) = Inr e"
  by (cases e) (auto simp: entity_set_def contest_set_def task_set_def team_set_def user_set_def submission_set_def subchange_set_def
      json_defs some_field_def split: option.splits)

text \<open>Files that hold entities of the store are all read.\<close>

lemma load_files_ok:
  assumes "dict_ok items" "\<forall>(key, j)\<in>set files. key \<noteq> [] \<and> (\<exists>e. j = entity_get e \<and> entity_valid e \<and> kind_of e = k)" "dict_ok files"
  shows "dict_ok (load_files k files items) \<and>
    (\<forall>key. map_option entity_get (map_of (load_files k files items) key) =
      (case map_of files key of None \<Rightarrow> map_option entity_get (map_of items key) | Some j \<Rightarrow> Some j)) \<and>
    (\<forall>key e. map_of (load_files k files items) key = Some e \<longrightarrow> map_of items key = Some e \<or> entity_valid e \<and> kind_of e = k)"
  using assms
proof (induction files arbitrary: items)
  case (Cons x files)
  obtain key j where x: "x = (key, j)" by fastforce
  then obtain e where e: "j = entity_get e" "entity_valid e" "kind_of e = k" "key \<noteq> []" using Cons.prems(2) by auto
  then have run: "load_files k (x # files) items = load_files k files (dict_set items key e)" using entity_get_set[of e] by (simp add: x)
  have df: "dict_ok files" using Cons.prems(3) by (simp add: x dict_ok_def)
  have IH: "dict_ok (load_files k files (dict_set items key e)) \<and>
    (\<forall>key'. map_option entity_get (map_of (load_files k files (dict_set items key e)) key') =
      (case map_of files key' of None \<Rightarrow> map_option entity_get (map_of (dict_set items key e) key') | Some j \<Rightarrow> Some j)) \<and>
    (\<forall>key' e'. map_of (load_files k files (dict_set items key e)) key' = Some e' \<longrightarrow>
      map_of (dict_set items key e) key' = Some e' \<or> entity_valid e' \<and> kind_of e' = k)"
    by (rule Cons.IH) (use Cons.prems(1,2) df in simp_all)
  have "key \<notin> fst ` set files" using Cons.prems(3) by (simp add: x dict_ok_def)
  then have "map_of files key = None" by (simp add: map_of_eq_None_iff)
  then show ?case unfolding run using IH e by (auto simp: x map_of_dict_set split: option.splits if_splits)
qed simp

lemma entity_get_inj: "entity_valid a \<Longrightarrow> entity_valid b \<Longrightarrow> kind_of a = kind_of b \<Longrightarrow> entity_get a = entity_get b \<Longrightarrow> a = b"
  by (metis entity_get_set sum.inject(2))

text \<open>Stores with the same entities.\<close>

definition same_entities :: "(store_kind \<Rightarrow> (string, entity) dict) \<Rightarrow> (store_kind \<Rightarrow> (string, entity) dict) \<Rightarrow> bool" where
  "same_entities s s' \<longleftrightarrow> (\<forall>k. dict_ok (s' k) \<and> map_of (s' k) = map_of (s k))"

lemma same_entities_set: "same_entities s s' \<Longrightarrow> stores_ok s \<Longrightarrow> set (s' k) = set (s k)"
  using stores_okD(1)[of s k] by (metis dict_ok_def map_of_inject_set same_entities_def)

lemma same_entities_views:
  assumes "same_entities s s'"
  shows "store_subs s' = store_subs s" "store_changes s' = store_changes s" "store_modes s' = store_modes s"
    "dict_has (s' k) x = dict_has (s k) x" "consistent s' = consistent s"
proof -
  have m: "map_of (s' k) = map_of (s k)" for k using assms by (simp add: same_entities_def)
  show "store_subs s' = store_subs s" "store_changes s' = store_changes s" "store_modes s' = store_modes s"
    by (simp_all add: store_subs_def store_changes_def store_modes_def fun_eq_iff m)
  show h: "dict_has (s' k) x = dict_has (s k) x" for k x by (simp add: dict_has_def m)
  show "consistent s' = consistent s"
  proof (rule ext)
    fix e show "consistent s' e = consistent s e" by (cases e) (simp_all add: h split: option.split)
  qed
qed

lemma same_entities_ok:
  assumes "same_entities s s'" "stores_ok s" "all_consistent s"
  shows "stores_ok s'" "all_consistent s'"
  using assms(1,2,3) same_entities_set[OF assms(1,2)] same_entities_views(5)[OF assms(1)]
  by (auto simp: stores_ok_def all_consistent_def same_entities_def)

lemma reload_same:
  assumes ok: "ranking_ok st" and disk: "rk_disk_ok st"
  shows "same_entities (rk_store st) (\<lambda>k. load_files k (rk_disk st k) [])"
  unfolding same_entities_def
proof (intro allI conjI)
  fix k
  let ?d = "rk_disk st k" and ?l = "load_files k (rk_disk st k) []"
  have d: "dict_ok ?d" "\<And>key. map_of ?d key = map_option entity_get (map_of (rk_store st k) key)"
    using ranking_okD(3)[OF ok] disk by (auto simp: disk_agrees_def)
  have entry: "key \<noteq> [] \<and> (\<exists>e. j = entity_get e \<and> entity_valid e \<and> kind_of e = k)" if "(key, j) \<in> set ?d" for key j
  proof -
    have "map_of ?d key = Some j" using that d(1) by (simp add: dict_ok_def)
    then obtain e where "map_of (rk_store st k) key = Some e" "j = entity_get e" using d(2)[of key] by auto
    then show ?thesis using stores_okD(3)[OF ranking_okD(1)[OF ok]] by blast
  qed
  have "\<forall>(key, j)\<in>set ?d. key \<noteq> [] \<and> (\<exists>e. j = entity_get e \<and> entity_valid e \<and> kind_of e = k)" using entry by blast
  note l = load_files_ok[OF dict_ok_Nil this d(1)]
  show "dict_ok ?l" by (rule conjunct1[OF l])
  have le: "map_option entity_get (map_of ?l key) = map_option entity_get (map_of (rk_store st k) key)" for key
    using l[THEN conjunct2, THEN conjunct1, rule_format, of key] d(2)[of key] by (cases "map_of (rk_store st k) key") simp_all
  have lv: "entity_valid e \<and> kind_of e = k" if "map_of ?l key = Some e" for key e
    using l[THEN conjunct2, THEN conjunct2, rule_format, OF that] by simp
  show "map_of ?l = map_of (rk_store st k)"
  proof (rule ext)
    fix key
    show "map_of ?l key = map_of (rk_store st k) key"
    proof (cases "map_of ?l key")
      case (Some a)
      then obtain b where b: "map_of (rk_store st k) key = Some b" "entity_get a = entity_get b"
        using le[of key] by (cases "map_of (rk_store st k) key") auto
      moreover have "a = b" by (rule entity_get_inj) (use lv[OF Some] stores_okD(3)[OF ranking_okD(1)[OF ok] b(1)] b(2) in simp_all)
      ultimately show ?thesis using Some by simp
    qed (use le[of key] in simp)
  qed
qed

text \<open>The scoring store is filled from the stores, whose entities may come in any order.\<close>

lemma stores_ok_entries:
  assumes "stores_ok s"
  shows "x \<in> set (s K_submission) \<Longrightarrow> \<exists>key e. x = (key, E_submission e)" "x \<in> set (s K_subchange) \<Longrightarrow> \<exists>key h. x = (key, E_subchange h)"
proof -
  obtain key e where x: "x = (key, e)" by fastforce
  show "x \<in> set (s K_submission) \<Longrightarrow> \<exists>key e. x = (key, E_submission e)" "x \<in> set (s K_subchange) \<Longrightarrow> \<exists>key h. x = (key, E_subchange h)"
    using stores_okD(2)[OF assms, of key e] unfolding x by (cases e; force)+
qed

lemma init_submissions_ok:
  assumes so: "stores_ok (rk_store st)" and ac: "all_consistent (rk_store st)" and e: "rk_scores st = []"
  shows "\<exists>st'. sforeach (rk_store st K_submission) (\<lambda>(key, e). case e of E_submission s \<Rightarrow> ss_create_submission key s | _ \<Rightarrow> sret ()) st = (st', Inr ()) \<and>
    same_stores st st' \<and> scores_hold (store_modes (rk_store st)) (store_subs (rk_store st)) {} st'"
proof -
  let ?d = "rk_store st K_submission" and ?M = "store_modes (rk_store st)"
  let ?S = "\<lambda>d key. case map_of d key of Some (E_submission e) \<Rightarrow> Some e | _ \<Rightarrow> None"
  let ?I = "\<lambda>pre st'. same_stores st st' \<and> scores_hold ?M (?S pre) {} st'"
  have dist: "dict_ok ?d" by (rule stores_okD(1)[OF so])
  have "\<exists>st'. sforeach ?d (\<lambda>(key, e). case e of E_submission s \<Rightarrow> ss_create_submission key s | _ \<Rightarrow> sret ()) st = (st', Inr ()) \<and> ?I ?d st'"
  proof (rule sforeach_rule[where I = ?I])
    show "?I [] st" using e by (simp add: scores_hold_def scores_dict_ok_def score_at_def subs_of_def fun_eq_iff)
    fix pre x post st' assume d: "?d = pre @ x # post" and I: "?I pre st'"
    obtain key s where x: "x = (key, E_submission s)" using stores_ok_entries(1)[OF so, of x] d by auto
    have xin: "(key, E_submission s) \<in> set ?d" using d x by simp
    have np: "map_of pre key = None" using dist d x by (simp add: dict_ok_def map_of_eq_None_iff)
    have "consistent (rk_store st) (E_submission s)" using ac xin by (force simp: all_consistent_def)
    then obtain y where y: "map_of (rk_store st K_task) (se_task s) = Some y" by (auto simp: dict_has_def)
    then obtain t where t: "y = E_task t" using stores_ok_kinds(3)[OF so] by blast
    have "task_score_mode_of st' (se_task s) = Inr (?M (se_task s))" "mode_ok (?M (se_task s))"
      using y t I stores_okD(3)[OF so y] by (simp_all add: task_score_mode_of_def store_modes_def same_stores_def)
    from ss_create_submission_ok[where M = ?M and S = "?S pre" and C = "{}" and key = key and e = s and st = st', OF _ _ this] obtain st''
      where st'': "ss_create_submission key s st' = (st'', Inr ())" "same_stores st' st''" "scores_hold ?M ((?S pre)(key \<mapsto> s)) {} st''"
      using I np by auto
    moreover have "(?S pre)(key \<mapsto> s) = ?S (pre @ [x])" using np x by (auto simp: fun_eq_iff map_add_def split: option.split)
    ultimately show "\<exists>st''. (case x of (key, e) \<Rightarrow> case e of E_submission s \<Rightarrow> ss_create_submission key s | _ \<Rightarrow> sret ()) st' = (st'', Inr ()) \<and> ?I (pre @ [x]) st''"
      using I same_stores_trans by (auto simp: x)
  qed
  then show ?thesis unfolding store_subs_def[abs_def] by blast
qed

lemma init_changes_ok:
  assumes so: "stores_ok (rk_store st0)" and ac: "all_consistent (rk_store st0)" and same: "same_stores st0 st"
    and sh: "scores_hold M (store_subs (rk_store st0)) {} st"
  shows "\<exists>st'. sforeach (sort_key fst (rk_store st0 K_subchange)) (\<lambda>(key, e). case e of E_subchange c \<Rightarrow> ss_create_subchange key c | _ \<Rightarrow> sret ()) st = (st', Inr ()) \<and>
    same_stores st0 st' \<and> scores_hold M (store_subs (rk_store st0)) (store_changes (rk_store st0)) st'"
proof -
  let ?d = "sort_key fst (rk_store st0 K_subchange)" and ?S = "store_subs (rk_store st0)"
  let ?C = "\<lambda>d. {entity_subchange key h | key h. (key, E_subchange h) \<in> set d}"
  let ?I = "\<lambda>pre st'. same_stores st0 st' \<and> scores_hold M ?S (?C pre) st'"
  have dist: "distinct (map fst ?d)"
    using stores_okD(1)[OF so, of K_subchange] by (metis dict_ok_def distinct_map distinct_sort set_sort)
  have "\<exists>st'. sforeach ?d (\<lambda>(key, e). case e of E_subchange c \<Rightarrow> ss_create_subchange key c | _ \<Rightarrow> sret ()) st = (st', Inr ()) \<and> ?I ?d st'"
  proof (rule sforeach_rule[where I = ?I])
    show "?I [] st" using same sh by simp
    fix pre x post st' assume d: "?d = pre @ x # post" and I: "?I pre st'"
    have "x \<in> set ?d" using d by simp
    then have "x \<in> set (rk_store st0 K_subchange)" by simp
    then obtain key h where x: "x = (key, E_subchange h)" using stores_ok_entries(2)[OF so, of x] by auto
    have xin: "(key, E_subchange h) \<in> set (rk_store st0 K_subchange)" using \<open>x \<in> set (rk_store st0 K_subchange)\<close> x by simp
    have "key \<notin> fst ` set pre" using dist d x by simp
    then have np: "key \<notin> ch_key ` ?C pre" by (force simp: ch_key_entity)
    have "consistent (rk_store st0) (E_subchange h)" using ac xin by (force simp: all_consistent_def)
    then obtain e where e: "?S (he_submission h) = Some e" using store_subs_has[OF so] by fastforce
    have "stored_submission st' (he_submission h) = Inr e" using e I by (simp add: stored_submission_subs same_stores_def)
    moreover have "change_ok (entity_subchange key h)" using stores_okD(2)[OF so xin] change_ok_key[of key h] by simp
    ultimately obtain st'' where st'': "ss_create_subchange key h st' = (st'', Inr ())" "same_stores st' st''"
        "scores_hold M ?S (insert (entity_subchange key h) (?C pre)) st''"
      using ss_create_subchange_ok[where S = ?S and h = h, OF _ e _ _ np] I by blast
    moreover have "insert (entity_subchange key h) (?C pre) = ?C (pre @ [x])" using x by auto
    ultimately show "\<exists>st''. (case x of (key, e) \<Rightarrow> case e of E_subchange c \<Rightarrow> ss_create_subchange key c | _ \<Rightarrow> sret ()) st' = (st'', Inr ()) \<and> ?I (pre @ [x]) st''"
      using I same_stores_trans by (auto simp: x)
  qed
  moreover have "?C ?d = store_changes (rk_store st0)"
    using stores_okD(1)[OF so, of K_subchange] by (auto simp: store_changes_def dict_ok_def)
  ultimately show ?thesis by auto
qed

lemma ss_init_store_ok:
  assumes "stores_ok (rk_store st)" "all_consistent (rk_store st)" "rk_scores st = []" "disk_agrees {} st"
  shows "\<exists>st'. ss_init_store st = (st', Inr ()) \<and> same_stores st st' \<and> ranking_ok st'"
proof -
  obtain st1 where st1: "sforeach (rk_store st K_submission) (\<lambda>(key, e). case e of E_submission s \<Rightarrow> ss_create_submission key s | _ \<Rightarrow> sret ()) st = (st1, Inr ())"
      "same_stores st st1" "scores_hold (store_modes (rk_store st)) (store_subs (rk_store st)) {} st1"
    using init_submissions_ok[OF assms(1-3)] by blast
  obtain st2 where st2: "sforeach (sort_key fst (rk_store st K_subchange)) (\<lambda>(key, e). case e of E_subchange c \<Rightarrow> ss_create_subchange key c | _ \<Rightarrow> sret ()) st1 = (st2, Inr ())"
      "same_stores st st2" "scores_hold (store_modes (rk_store st)) (store_subs (rk_store st)) (store_changes (rk_store st)) st2"
    using init_changes_ok[OF assms(1,2) st1(2,3)] by blast
  have s: "rk_store st1 = rk_store st" "rk_store st2 = rk_store st" using st1(2) st2(2) by (simp_all add: same_stores_def)
  have "ss_init_store st = (st2, Inr ())" unfolding ss_init_store_def using st1(1) st2(1) by (simp add: stm_simps s)
  moreover have "ranking_ok st2"
    using st2(3) assms(1,2,4) disk_agrees_cong[OF st2(2)] by (simp add: ranking_ok_def state_ok_def s)
  ultimately show ?thesis using st2(2) by blast
qed

lemma restart_ok:
  assumes ok: "ranking_ok st" and disk: "rk_disk_ok st"
  shows "\<exists>st'. server_start (rk_disk st) True = (st', Inr ()) \<and> ranking_ok st' \<and> same_entities (rk_store st) (rk_store st') \<and> rk_disk_ok st'"
proof -
  let ?st0 = "\<lparr>rk_store = (\<lambda>k. load_files k (rk_disk st k) []), rk_disk = rk_disk st, rk_disk_ok = True, rk_scores = [], rk_events = []\<rparr>"
  have same: "same_entities (rk_store st) (rk_store ?st0)" using reload_same[OF assms] by simp
  have "disk_agrees {} ?st0" using ranking_okD(3)[OF ok] disk same by (simp add: disk_agrees_def same_entities_def)
  then obtain st' where "ss_init_store ?st0 = (st', Inr ())" "same_stores ?st0 st'" "ranking_ok st'"
    using ss_init_store_ok[OF same_entities_ok[OF same ranking_okD(1,4)[OF ok]]] by auto
  then show ?thesis using same unfolding server_start_def by (auto simp: same_stores_def)
qed

section \<open>Runs\<close>

text \<open>Requests of authorized clients that send good data (of others any), the loss of the file system, and restarts
  with the files of the last run, from a server that starts with no files.\<close>

inductive ranking_run :: "ranking_state \<Rightarrow> bool" where
  run_start: "server_start (\<lambda>_. []) ok = (st, Inr ()) \<Longrightarrow> ranking_run st"
| run_put: "ranking_run st \<Longrightarrow> (\<And>data. rq_body rq = Some data \<Longrightarrow> data_good st k key data) \<Longrightarrow> ranking_run (fst (handle_put k rq key st))"
| run_put_list: "ranking_run st \<Longrightarrow> (\<And>data. rq_body rq = Some data \<Longrightarrow> list_good st k data) \<Longrightarrow> ranking_run (fst (handle_put_list k rq st))"
| run_delete: "ranking_run st \<Longrightarrow> ranking_run (fst (handle_delete k rq key st))"
| run_delete_list: "ranking_run st \<Longrightarrow> ranking_run (fst (handle_delete_list k rq st))"
| run_disk_lost: "ranking_run st \<Longrightarrow> ranking_run (st\<lparr>rk_disk_ok := False\<rparr>)"
| run_restart: "ranking_run st \<Longrightarrow> rk_disk_ok st \<Longrightarrow> server_start (rk_disk st) True = (st', Inr ()) \<Longrightarrow> ranking_run st'"

lemma key_ok_nonempty: "key_ok key \<Longrightarrow> key \<noteq> []"
  by (auto simp: key_ok_def)

lemma handle_put_ok:
  assumes "ranking_ok st" "\<And>data. rq_body rq = Some data \<Longrightarrow> data_good st k key data"
  shows "ranking_ok (fst (handle_put k rq key st))" "\<exists>n j. snd (handle_put k rq key st) = Status n j"
proof -
  have "ranking_ok (fst (handle_put k rq key st)) \<and> (\<exists>n j. snd (handle_put k rq key st) = Status n j)"
  proof (cases "key_ok key \<and> rq_authorized rq \<and> rq_json rq \<and> rq_body rq \<noteq> None")
    case True
    then obtain data where data: "rq_body rq = Some data" by blast
    have "request_ok st (if dict_has (rk_store st k) key then store_update k key data st else store_create k key data st)"
      by (rule store_put_ok[OF assms(1) assms(2)[OF data] key_ok_nonempty]) (use True in simp)
    then show ?thesis using True data unfolding request_ok_def by (auto simp: handle_put_def answer_of_def split: prod.split)
  qed (use assms(1) in \<open>auto simp: handle_put_def\<close>)
  then show "ranking_ok (fst (handle_put k rq key st))" "\<exists>n j. snd (handle_put k rq key st) = Status n j" by blast+
qed

lemma handle_put_list_ok:
  assumes "ranking_ok st" "\<And>data. rq_body rq = Some data \<Longrightarrow> list_good st k data"
  shows "ranking_ok (fst (handle_put_list k rq st))" "\<exists>n j. snd (handle_put_list k rq st) = Status n j"
proof -
  have "ranking_ok (fst (handle_put_list k rq st)) \<and> (\<exists>n j. snd (handle_put_list k rq st) = Status n j)"
  proof (cases "rq_authorized rq \<and> rq_json rq \<and> rq_body rq \<noteq> None")
    case True
    then obtain data where data: "rq_body rq = Some data" by blast
    have "request_ok st (store_merge_list k data st)" by (rule store_merge_list_ok[OF assms(1) assms(2)[OF data]])
    then show ?thesis using True data unfolding request_ok_def by (auto simp: handle_put_list_def answer_of_def split: prod.split)
  qed (use assms(1) in \<open>auto simp: handle_put_list_def\<close>)
  then show "ranking_ok (fst (handle_put_list k rq st))" "\<exists>n j. snd (handle_put_list k rq st) = Status n j" by blast+
qed

lemma handle_delete_ok:
  assumes "ranking_ok st"
  shows "ranking_ok (fst (handle_delete k rq key st))" "\<exists>n j. snd (handle_delete k rq key st) = Status n j"
  using assms store_delete_ok[OF assms, of k key] by (auto simp: handle_delete_def)

lemma handle_delete_list_ok:
  assumes "ranking_ok st"
  shows "ranking_ok (fst (handle_delete_list k rq st))" "\<exists>n j. snd (handle_delete_list k rq st) = Status n j"
  using assms store_delete_list_ok[OF assms, of k] by (auto simp: handle_delete_list_def)

lemma ranking_ok_start: "server_start (\<lambda>_. []) ok = (st, Inr ()) \<Longrightarrow> ranking_ok st"
proof -
  assume run: "server_start (\<lambda>_. []) ok = (st, Inr ())"
  let ?st0 = "\<lparr>rk_store = (\<lambda>k. load_files k [] []), rk_disk = (\<lambda>_. []), rk_disk_ok = ok, rk_scores = [], rk_events = []\<rparr>"
  have "\<exists>st'. ss_init_store ?st0 = (st', Inr ()) \<and> same_stores ?st0 st' \<and> ranking_ok st'"
    by (rule ss_init_store_ok) (auto simp: stores_ok_def all_consistent_def disk_agrees_def)
  then show ?thesis using run by (simp add: server_start_def)
qed

lemma ranking_run_ok: "ranking_run st \<Longrightarrow> ranking_ok st"
proof (induction rule: ranking_run.induct)
  case (run_disk_lost st)
  then show ?case using scores_hold_cong[of "st\<lparr>rk_disk_ok := False\<rparr>" st] by (simp add: ranking_ok_def state_ok_def disk_agrees_def)
next
  case (run_restart st st')
  then show ?case using restart_ok by fastforce
qed (simp_all add: ranking_ok_start handle_put_ok(1) handle_put_list_ok(1) handle_delete_ok(1) handle_delete_list_ok(1))

section \<open>What holds in every state\<close>

lemma ranking_ok_score:
  assumes "ranking_ok st"
  shows "find_score st u t = Inr sc \<Longrightarrow> score_holds (store_modes (rk_store st) t) sc (subs_of (store_subs (rk_store st)) u t)
      (changes_of (store_subs (rk_store st)) (store_changes (rk_store st)) u t)"
    "(\<exists>sc. find_score st u t = Inr sc) \<longleftrightarrow> subs_of (store_subs (rk_store st)) u t \<noteq> Map.empty"
  using scores_holdD(1,2,7)[OF ranking_okD(2)[OF assms], of u t]
  by (auto simp: find_score_score_at split: option.splits)

lemma subs_of_store:
  "subs_of (store_subs s) u t key = Some r \<longleftrightarrow>
     (\<exists>e. map_of (s K_submission) key = Some (E_submission e) \<and> se_user e = u \<and> se_task e = t \<and> r = entity_submission e)"
  by (auto simp: subs_of_def store_subs_def split: option.splits entity.splits if_splits)

text \<open>The score object of a user and a task exists if there is a submission of the user on the task; it then has these submissions
  and their changes, the latter in order of time, and its history is the one that these give.\<close>

definition score_matches :: "(store_kind \<Rightarrow> (string, entity) dict) \<Rightarrow> string \<Rightarrow> string \<Rightarrow> score \<Rightarrow> bool" where
  "score_matches s u t sc \<longleftrightarrow>
     (\<forall>key. dict_has (sc_submissions sc) key \<longleftrightarrow> (\<exists>e. map_of (s K_submission) key = Some (E_submission e) \<and> se_user e = u \<and> se_task e = t)) \<and>
     (\<forall>c. c \<in> set (sc_changes sc) \<longleftrightarrow> (\<exists>key h. c = entity_subchange key h \<and> map_of (s K_subchange) key = Some (E_subchange h) \<and>
       dict_has (sc_submissions sc) (he_submission h))) \<and>
     sorted_wrt change_before (sc_changes sc) \<and> reset_history sc = (sc, Inr ())"

lemma score_holds_matches:
  assumes "score_holds M sc (subs_of (store_subs s) u t) (changes_of (store_subs s) (store_changes s) u t)"
  shows "score_matches s u t sc"
proof -
  have has: "dict_has (sc_submissions sc) key \<longleftrightarrow> (\<exists>e. map_of (s K_submission) key = Some (E_submission e) \<and> se_user e = u \<and> se_task e = t)" for key
    unfolding score_holds_has[OF assms] by (metis not_None_eq subs_of_store)
  have "c \<in> set (sc_changes sc) \<longleftrightarrow> (\<exists>key h. c = entity_subchange key h \<and> map_of (s K_subchange) key = Some (E_subchange h) \<and>
       dict_has (sc_submissions sc) (he_submission h))" for c
  proof -
    have "set (sc_changes sc) = changes_of (store_subs s) (store_changes s) u t" using assms by (simp add: score_holds_def)
    then show ?thesis unfolding score_holds_has[OF assms]
      by (auto simp: changes_of_def store_changes_def) (simp_all add: entity_subchange_def)
  qed
  moreover have "score_ok sc" using assms by (simp add: score_holds_def)
  moreover from this have "reset_history sc = (sc, Inr ())" using reset_history_ok[of sc] by (simp add: score_ok_def)
  ultimately show ?thesis using has by (simp add: score_matches_def score_ok_def)
qed


text \<open>No request with good data is answered by an uncaught exception, and requests without the password change nothing.\<close>

theorem ranking_requests_answered:
  assumes "ranking_run st" "\<And>data. rq_body rq = Some data \<Longrightarrow> data_good st k key data \<and> list_good st k data"
  shows "(\<exists>n j. snd (handle_put k rq key st) = Status n j) \<and> (\<exists>n j. snd (handle_put_list k rq st) = Status n j) \<and>
    (\<exists>n j. snd (handle_delete k rq key st) = Status n j) \<and> (\<exists>n j. snd (handle_delete_list k rq st) = Status n j) \<and>
    (\<not> rq_authorized rq \<longrightarrow> fst (handle_put k rq key st) = st \<and> fst (handle_put_list k rq st) = st \<and>
      fst (handle_delete k rq key st) = st \<and> fst (handle_delete_list k rq st) = st)"
proof -
  have ok: "ranking_ok st" by (rule ranking_run_ok[OF assms(1)])
  have "\<exists>n j. snd (handle_put k rq key st) = Status n j" by (rule handle_put_ok(2)[OF ok]) (use assms(2) in blast)
  moreover have "\<exists>n j. snd (handle_put_list k rq st) = Status n j" by (rule handle_put_list_ok(2)[OF ok]) (use assms(2) in blast)
  moreover have "\<not> rq_authorized rq \<longrightarrow> fst (handle_put k rq key st) = st \<and> fst (handle_put_list k rq st) = st \<and>
      fst (handle_delete k rq key st) = st \<and> fst (handle_delete_list k rq st) = st"
    by (simp add: handle_put_def handle_put_list_def handle_delete_def handle_delete_list_def)
  ultimately show ?thesis using handle_delete_ok(2)[OF ok] handle_delete_list_ok(2)[OF ok] by blast
qed

lemma score_holds_unique:
  assumes "score_holds mode a subs chs" "score_holds mode b subs chs"
  shows "get_score a = get_score b"
proof -
  have ok: "score_ok a" "score_ok b" using assms by (simp_all add: score_holds_def)
  have d: "distinct (map fst (sc_submissions (clear_score x)))" if "score_ok x" for x
    using clear_ok(1)[OF that] by (simp add: run_ok_def submissions_ok_def dict_ok_def)
  have "set (sc_submissions (clear_score a)) = set (sc_submissions (clear_score b))"
    using assms map_of_inject_set[OF d[OF ok(1)] d[OF ok(2)]] by (simp add: score_holds_def)
  then have "sc_history a = sc_history b" using history_unique[OF ok] assms by (simp add: score_holds_def)
  then show ?thesis by (simp add: get_score_def)
qed


text \<open>What is put is what is got: a good request is answered by 204 when the data is valid and refers to stored entities, after which the
  entity is served and all others are as before, and otherwise by 400 with no effect.\<close>

theorem put_then_get:
  assumes "ranking_run st" "key_ok key" "rq_authorized rq" "rq_json rq" "rq_body rq = Some data" "data_good st k key data"
  shows "case entity_set k data of
      Inr e \<Rightarrow> if consistent (rk_store st) e then
          snd (handle_put k rq key st) = Status 204 None \<and> handle_get k key (fst (handle_put k rq key st)) = Status 200 (Some (entity_get e)) \<and>
          (\<forall>j x. (j, x) \<noteq> (k, key) \<longrightarrow> handle_get j x (fst (handle_put k rq key st)) = handle_get j x st)
        else handle_put k rq key st = (st, Status 400 None)
    | Inl _ \<Rightarrow> handle_put k rq key st = (st, Status 400 None)"
proof -
  have ok: "ranking_ok st" by (rule ranking_run_ok[OF assms(1)])
  have run: "handle_put k rq key st = (case sbind (make_item k data) (\<lambda>e. merge_entity k (key, e)) st of (st', r) \<Rightarrow> (st', answer_of r))"
    using store_put_merge[of st k key data] assms(2-5) by (simp add: handle_put_def)
  show ?thesis
  proof (cases "make_item k data st = (st, Inl InvalidData)")
    case True
    then have "handle_put k rq key st = (st, Status 400 None)" unfolding run by (simp add: stm_simps answer_of_def)
    moreover have "\<nexists>e. entity_set k data = Inr e \<and> consistent (rk_store st) e" using True by (auto simp: make_item_def stm_simps)
    ultimately show ?thesis by (auto split: sum.split)
  next
    case False
    then obtain e where e: "make_item k data st = (st, Inr e)" "entity_set k data = Inr e" "consistent (rk_store st) e"
      using make_item_cases by blast
    obtain st' where st': "merge_entity k (key, e) st = (st', Inr ())" "rk_store st' = (rk_store st)(k := dict_set (rk_store st k) key e)"
      using merge_entity_ok[OF ok data_good_put[OF assms(6) e(2,3) key_ok_nonempty[OF assms(2)]]] by blast
    have "handle_put k rq key st = (st', Status 204 None)" unfolding run using e(1) st'(1) by (simp add: stm_simps answer_of_def)
    then show ?thesis using e assms(2) st'(2) by (auto simp: handle_get_def store_retrieve_def map_of_dict_set)
  qed
qed

section \<open>Deletion\<close>

text \<open>The entities that an entity refers to, and those that go with an entity.\<close>

fun refs :: "entity \<Rightarrow> (store_kind \<times> string) list" where
  "refs (E_contest e) = []"
| "refs (E_task e) = [(K_contest, te_contest e)]"
| "refs (E_team e) = []"
| "refs (E_user e) = (case ue_team e of None \<Rightarrow> [] | Some t \<Rightarrow> [(K_team, t)])"
| "refs (E_submission e) = [(K_task, se_task e), (K_user, se_user e)]"
| "refs (E_subchange e) = [(K_submission, he_submission e)]"

inductive goes_with :: "(store_kind \<Rightarrow> (string, entity) dict) \<Rightarrow> store_kind \<Rightarrow> string \<Rightarrow> store_kind \<Rightarrow> string \<Rightarrow> bool" for s k key where
  goes_itself: "goes_with s k key k key"
| goes_ref: "goes_with s k key j' x' \<Longrightarrow> map_of (s j) x = Some e \<Longrightarrow> (j', x') \<in> set (refs e) \<Longrightarrow> goes_with s k key j x"

inductive_cases goes_withE: "goes_with s k key j x"

lemma consistent_refs: "consistent s e \<longleftrightarrow> (\<forall>(j, x)\<in>set (refs e). dict_has (s j) x)"
  by (cases e) (auto split: option.split)

lemma refs_rank: "(j, x) \<in> set (refs e) \<Longrightarrow> store_rank (kind_of e) < store_rank j"
  by (cases e) (auto split: option.splits)

lemma store_rank_le: "store_rank k \<le> 4"
  by (cases k) simp_all

lemma deleted_goes:
  assumes del: "deleted k key s s'" and so: "stores_ok s" and ac: "all_consistent s" "all_consistent s'"
  shows "map_of (s' j) x = Some e \<longleftrightarrow> map_of (s j) x = Some e \<and> \<not> goes_with s k key j x"
proof -
  have sub: "\<exists>P. s' j = filter P (s j)" for j
    using del by (cases "j = k"; cases "j \<in> below k") (auto simp: deleted_def AList.delete_eq intro: filter_True[symmetric])
  have fewer: "map_of (s j) x = Some e" if "map_of (s' j) x = Some e" for j x e
    using sub[of j] that map_of_filter_dict[OF stores_okD(1)[OF so, of j]] by auto
  have "map_of (s' j) x = None" if "goes_with s k key j x" for j x
    using that
  proof (induction rule: goes_with.induct)
    case goes_itself
    then show ?case using del by (simp add: deleted_def map_of_dict_del)
  next
    case (goes_ref j' x' j x e)
    show ?case
    proof (rule ccontr)
      assume "map_of (s' j) x \<noteq> None"
      then have "map_of (s' j) x = Some e" using fewer goes_ref.hyps(2) by fastforce
      then have "consistent s' e" using ac(2) by (force simp: all_consistent_def dest: map_of_SomeD)
      then show False using goes_ref.hyps(3) goes_ref.IH by (auto simp: consistent_refs dict_has_def)
    qed
  qed
  moreover have "goes_with s k key j x" if "map_of (s j) x = Some e" "map_of (s' j) x = None" for j x e
    using that
  proof (induction "4 - store_rank j" arbitrary: j x e rule: less_induct)
    case less
    have ke: "kind_of e = j" using stores_okD(3)[OF so less.prems(1)] by blast
    show ?case
    proof (cases "j \<in> below k")
      case True
      then have "s' j = filter (\<lambda>(_, e). consistent s' e) (s j)" using del by (simp add: deleted_def)
      then have "\<not> consistent s' e"
        using less.prems map_of_filter_dict[OF stores_okD(1)[OF so, of j], of "\<lambda>(_, e). consistent s' e" x e] by auto
      moreover have "consistent s e" using ac(1) less.prems(1) by (force simp: all_consistent_def dest: map_of_SomeD)
      ultimately obtain j' x' e' where r: "(j', x') \<in> set (refs e)" "map_of (s j') x' = Some e'" "map_of (s' j') x' = None"
        by (fastforce simp: consistent_refs dict_has_def)
      have "goes_with s k key j' x'" using less.hyps[OF _ r(2,3)] refs_rank[OF r(1)] store_rank_le[of j'] ke by simp
      then show ?thesis using goes_ref less.prems(1) r(1) by fast
    next
      case False
      then have "j = k \<and> x = key" using del less.prems by (cases "j = k") (auto simp: deleted_def map_of_dict_del split: if_splits)
      then show ?thesis using goes_itself by simp
    qed
  qed
  ultimately show ?thesis using fewer[of j x] by (metis option.distinct(1) not_None_eq option.inject)
qed

text \<open>(C29) Deleting an entity deletes exactly the entities that refer to it, directly or through others, and nothing else.\<close>

theorem delete_cascade:
  assumes "ranking_run st" "key_ok key" "dict_has (rk_store st k) key" "rq_authorized rq"
  shows "snd (handle_delete k rq key st) = Status 204 None \<and>
    (\<forall>j x e. map_of (rk_store (fst (handle_delete k rq key st)) j) x = Some e \<longleftrightarrow>
      map_of (rk_store st j) x = Some e \<and> \<not> goes_with (rk_store st) k key j x)"
proof -
  have ok: "ranking_ok st" by (rule ranking_run_ok[OF assms(1)])
  obtain st' where st': "store_delete k key st = (st', Inr ())" "ranking_ok st'" "deleted k key (rk_store st) (rk_store st')"
    using store_delete_ok[OF ok assms(3)] by blast
  have "handle_delete k rq key st = (st', Status 204 None)" using st'(1) assms(2-4) by (simp add: handle_delete_def)
  then show ?thesis using deleted_goes[OF st'(3) ranking_okD(1,4)[OF ok] ranking_okD(4)[OF st'(2)]] by simp
qed

section \<open>Examples\<close>

definition example_request :: "json_value \<Rightarrow> ranking_request" where
  "example_request data = \<lparr>rq_authorized = True, rq_json = True, rq_body = Some data\<rparr>"

definition example_entities :: "(string \<times> entity) list" where
  "example_entities =
     [(''c'', E_contest \<lparr>ce_name = ''C'', ce_begin = 0, ce_end = 100, ce_score_precision = 0\<rparr>),
      (''t'', E_task \<lparr>te_name = ''T'', te_short_name = ''t'', te_contest = ''c'', te_max_score = 100, te_score_precision = 0,
         te_extra_headers = [], te_order = 0, te_score_mode = ''max''\<rparr>),
      (''u'', E_user \<lparr>ue_f_name = ''A'', ue_l_name = ''B'', ue_team = None\<rparr>),
      (''1'', E_submission \<lparr>se_user = ''u'', se_task = ''t'', se_time = 5\<rparr>),
      (''1s'', E_subchange \<lparr>he_submission = ''1'', he_time = 5, he_score = Some 40, he_token = None, he_extra = Some []\<rparr>)]"

fun example_puts :: "(string \<times> entity) list \<Rightarrow> ranking_state \<Rightarrow> ranking_state" where
  "example_puts [] st = st"
| "example_puts ((key, e) # es) st = example_puts es (fst (handle_put (kind_of e) (example_request (entity_get e)) key st))"

definition example_ranking :: ranking_state where
  "example_ranking = example_puts example_entities (fst (server_start (\<lambda>_. []) True))"

text \<open>New entities only append to the stores.\<close>

definition example_new :: "(store_kind \<Rightarrow> (string, entity) dict) \<Rightarrow> string \<Rightarrow> entity \<Rightarrow> bool" where
  "example_new s key e \<longleftrightarrow> key_ok key \<and> entity_valid e \<and> entity_good e \<and> consistent s e \<and> \<not> dict_has (s (kind_of e)) key"

fun example_news :: "(store_kind \<Rightarrow> (string, entity) dict) \<Rightarrow> (string \<times> entity) list \<Rightarrow> bool" where
  "example_news s [] \<longleftrightarrow> True"
| "example_news s ((key, e) # es) \<longleftrightarrow> example_new s key e \<and> example_news (s(kind_of e := s (kind_of e) @ [(key, e)])) es"

fun example_appended :: "(store_kind \<Rightarrow> (string, entity) dict) \<Rightarrow> (string \<times> entity) list \<Rightarrow> store_kind \<Rightarrow> (string, entity) dict" where
  "example_appended s [] = s"
| "example_appended s ((key, e) # es) = example_appended (s(kind_of e := s (kind_of e) @ [(key, e)])) es"

lemma example_new_good:
  assumes "example_new (rk_store st) key e"
  shows "data_good st (kind_of e) key (entity_get e)"
  using assms entity_get_set[of e] by (simp add: example_new_def data_good_def dict_has_def)

lemma example_put:
  assumes "ranking_run st" "example_new (rk_store st) key e"
  defines "st' \<equiv> fst (handle_put (kind_of e) (example_request (entity_get e)) key st)"
  shows "ranking_run st'" "rk_disk_ok st' = rk_disk_ok st"
    "rk_store st' = (rk_store st)(kind_of e := rk_store st (kind_of e) @ [(key, e)])"
proof -
  note new = assms(2)[unfolded example_new_def]
  have good: "data_good st (kind_of e) key (entity_get e)" by (rule example_new_good[OF assms(2)])
  have set: "entity_set (kind_of e) (entity_get e) = Inr e" using entity_get_set new by blast
  show "ranking_run st'" unfolding st'_def by (rule run_put[OF assms(1)]) (use good in \<open>simp add: example_request_def\<close>)
  obtain st1 where st1: "merge_entity (kind_of e) (key, e) st = (st1, Inr ())" "rk_disk_ok st1 = rk_disk_ok st"
      "rk_store st1 = (rk_store st)(kind_of e := dict_set (rk_store st (kind_of e)) key e)"
    using merge_entity_ok[OF ranking_run_ok[OF assms(1)] data_good_put[OF good set]] new key_ok_nonempty by blast
  have "make_item (kind_of e) (entity_get e) st = (st, Inr e)" using set new by (simp add: make_item_def stm_simps)
  then have "st' = st1" using new st1(1) store_put_merge[of st "kind_of e" key "entity_get e"]
    by (simp add: st'_def handle_put_def example_request_def stm_simps)
  then show "rk_disk_ok st' = rk_disk_ok st" "rk_store st' = (rk_store st)(kind_of e := rk_store st (kind_of e) @ [(key, e)])"
    using st1(2,3) new by (simp_all add: dict_set_absent)
qed

lemma example_puts_run:
  "ranking_run st \<Longrightarrow> example_news (rk_store st) es \<Longrightarrow>
   ranking_run (example_puts es st) \<and> rk_disk_ok (example_puts es st) = rk_disk_ok st \<and> rk_store (example_puts es st) = example_appended (rk_store st) es"
proof (induction es st rule: example_puts.induct)
  case (2 key e es st)
  then show ?case using example_put[OF 2(2), of key e] by (simp del: fun_upd_apply)
qed simp

lemma key_ok_examples: "key_ok ''c''" "key_ok ''t''" "key_ok ''u''" "key_ok ''1''" "key_ok ''1s''" "key_ok ''2s''"
  by (simp_all add: key_ok_def word_char_def)

lemma example_ranking_facts:
  "ranking_run example_ranking" "rk_disk_ok example_ranking" "rk_store example_ranking = example_appended (\<lambda>_. []) example_entities"
proof -
  let ?st = "\<lparr>rk_store = (\<lambda>_. []), rk_disk = (\<lambda>_. []), rk_disk_ok = True, rk_scores = [], rk_events = []\<rparr>"
  have start: "server_start (\<lambda>_. []) True = (?st, Inr ())" by (simp add: server_start_def ss_init_store_def stm_simps)
  have run: "ranking_run ?st" by (rule run_start[OF start])
  have "example_news (rk_store ?st) example_entities"
    by (simp add: example_entities_def example_new_def key_ok_examples mode_ok_def change_ok_def extra_ok_def entity_subchange_def dict_has_def)
  from example_puts_run[OF run this]
  show "ranking_run example_ranking" "rk_disk_ok example_ranking" "rk_store example_ranking = example_appended (\<lambda>_. []) example_entities"
    unfolding example_ranking_def start by simp_all
qed

definition example_change :: subchange_entity where
  "example_change = \<lparr>he_submission = ''1'', he_time = 9, he_score = Some 60, he_token = None, he_extra = Some []\<rparr>"

lemma example_change_new: "example_new (rk_store example_ranking) ''2s'' (E_subchange example_change)"
  by (simp add: example_ranking_facts(3) example_entities_def example_new_def example_change_def key_ok_examples change_ok_def extra_ok_def
      entity_subchange_def dict_has_def)


theorem ranking_requests_answered_witness:
  "(\<exists>n j. snd (handle_put K_subchange (example_request (entity_get (E_subchange example_change))) ''2s'' example_ranking) = Status n j) \<and>
   fst (handle_delete_list K_subchange \<lparr>rq_authorized = False, rq_json = True, rq_body = None\<rparr> example_ranking) = example_ranking"
proof -
  have "list_good example_ranking K_subchange (entity_get (E_subchange example_change))"
    by (simp add: list_good_def example_change_def some_field_def data_good_def entity_set_def)
  then show ?thesis
    using ranking_requests_answered[OF example_ranking_facts(1), of "example_request (entity_get (E_subchange example_change))" K_subchange "''2s''"]
      ranking_requests_answered[OF example_ranking_facts(1), of "\<lparr>rq_authorized = False, rq_json = True, rq_body = None\<rparr>" K_subchange "''2s''"]
      example_new_good[OF example_change_new]
    by (simp add: example_request_def)
qed


theorem put_then_get_witness:
  "snd (handle_put K_subchange (example_request (entity_get (E_subchange example_change))) ''2s'' example_ranking) = Status 204 None \<and>
   handle_get K_subchange ''2s'' (fst (handle_put K_subchange (example_request (entity_get (E_subchange example_change))) ''2s'' example_ranking)) =
     Status 200 (Some (entity_get (E_subchange example_change)))"
  using put_then_get[OF example_ranking_facts(1) key_ok_examples(6), of "example_request (entity_get (E_subchange example_change))"
      "entity_get (E_subchange example_change)" K_subchange]
    example_new_good[OF example_change_new] example_change_new[unfolded example_new_def] entity_get_set[of "E_subchange example_change"]
  by (simp add: example_request_def)

theorem delete_cascade_witness:
  "map_of (rk_store (fst (handle_delete K_contest (example_request JNull) ''c'' example_ranking)) K_task) ''t'' = None \<and>
   map_of (rk_store (fst (handle_delete K_contest (example_request JNull) ''c'' example_ranking)) K_user) ''u'' \<noteq> None"
proof -
  let ?s = "rk_store example_ranking"
  have stored: "dict_has (?s K_contest) ''c''"
    "\<exists>t. map_of (?s K_task) ''t'' = Some (E_task t) \<and> te_contest t = ''c''" "\<exists>u. map_of (?s K_user) ''u'' = Some (E_user u) \<and> ue_team u = None"
    by (simp_all add: example_ranking_facts(3) example_entities_def dict_has_def)
  then have cascade: "map_of (rk_store (fst (handle_delete K_contest (example_request JNull) ''c'' example_ranking)) j) x = Some e \<longleftrightarrow>
      map_of (?s j) x = Some e \<and> \<not> goes_with ?s K_contest ''c'' j x" for j x e
    using delete_cascade[OF example_ranking_facts(1) key_ok_examples(1), of K_contest "example_request JNull"] by (simp add: example_request_def)
  obtain t where t: "map_of (?s K_task) ''t'' = Some (E_task t)" "te_contest t = ''c''" using stored(2) by blast
  obtain u where u: "map_of (?s K_user) ''u'' = Some (E_user u)" "ue_team u = None" using stored(3) by blast
  have "goes_with ?s K_contest ''c'' K_task ''t''"
    by (rule goes_ref[where s = ?s and e = "E_task t", OF goes_itself t(1)]) (simp add: t(2))
  moreover have "\<not> goes_with ?s K_contest ''c'' K_user ''u''"
  proof
    assume "goes_with ?s K_contest ''c'' K_user ''u''"
    then show False by (rule goes_withE) (use u in auto)
  qed
  ultimately show ?thesis using cascade[of K_task "''t''"] cascade[of K_user "''u''" "E_user u"] t(1) u(1) by (metis not_None_eq)
qed

end
