(* ===== verification/Ranking_Views.thy ===== *)
theory Ranking_Views
  imports Ranking_Runs
begin

text \<open>
  What the ranking web server shows (\<^verbatim>\<open>cmsranking/RankingWebServer.py\<close>): the scores (\<open>ScoreHandler\<close>), the submissions of a
  user (\<open>SubListHandler\<close>) and the history of all scores (\<open>HistoryHandler\<close>), which \<open>get_global_history\<close> merges from the histories of the
  score objects with a heap. Of the module \<open>heapq\<close> only that \<open>heappop\<close> removes the least entry is used: the heap is a
  sorted list. Entries of the heap differ in user or task, so the score objects they contain are never compared.
\<close>

section \<open>Scores and submissions\<close>

text \<open>\<open>result.setdefault(u_id, dict())[t_id] = score\<close> for the positive scores.\<close>

definition score_view :: "ranking_state \<Rightarrow> (string, (string, real) dict) dict" where
  "score_view st =
     fold (\<lambda>(u, tasks). fold (\<lambda>(t, sc) result.
         if 0 < get_score sc then
           dict_set result u (dict_set (case map_of result u of None \<Rightarrow> [] | Some d \<Rightarrow> d) t (get_score sc))
         else result) tasks) (rk_scores st) []"

definition sublist_view :: "ranking_state \<Rightarrow> string \<Rightarrow> (string \<times> ranking_submission) list" where
  "sublist_view st user =
     sort_key (\<lambda>(_, s). (rs_task s, rs_time s)) (concat (map (\<lambda>(t, _). ss_get_submissions st user t) (rk_store st K_task)))"

section \<open>The global history\<close>

type_synonym history_entry = "(int \<times> real) \<times> string \<times> string \<times> score \<times> nat"

definition history_key :: "history_entry \<Rightarrow> (int \<times> real) \<times> string \<times> string" where
  "history_key = (\<lambda>(p, user, task, _). (p, user, task))"

fun heappush :: "history_entry list \<Rightarrow> history_entry \<Rightarrow> history_entry list" where
  "heappush [] e = [e]"
| "heappush (x # xs) e = (if history_key e < history_key x then e # x # xs else x # heappush xs e)"

definition history_queue :: "ranking_state \<Rightarrow> history_entry list" where
  "history_queue st =
     fold (\<lambda>(user, dic). fold (\<lambda>(task, scoring) queue.
         if sc_history scoring \<noteq> [] then heappush queue (sc_history scoring ! 0, user, task, scoring, 0) else queue) dic) (rk_scores st) []"

definition history_next :: "history_entry list \<Rightarrow> string \<Rightarrow> string \<Rightarrow> score \<Rightarrow> nat \<Rightarrow> history_entry list" where
  "history_next queue user task scoring index =
     (if length (sc_history scoring) > index + 1
      then heappush queue (sc_history scoring ! (index + 1), user, task, scoring, index + 1) else queue)"

definition entries_left :: "history_entry list \<Rightarrow> nat" where
  "entries_left q = sum_list (map (\<lambda>(_, _, _, scoring, index). Suc (length (sc_history scoring) - index)) q)"

lemma entries_left_push: "entries_left (heappush q e) = entries_left (e # q)"
  by (induction q) (auto simp: entries_left_def)

function history_loop :: "history_entry list \<Rightarrow> (string \<times> string \<times> int \<times> real) list" where
  "history_loop [] = []"
| "history_loop (((time, score), user, task, scoring, index) # queue) =
     (user, task, time, score) # history_loop (history_next queue user task scoring index)"
  by pat_completeness auto

termination
proof (relation "measure entries_left")
  fix time score user task scoring index and queue :: "history_entry list"
  show "(history_next queue user task scoring index, ((time, score), user, task, scoring, index) # queue) \<in> measure entries_left"
    by (simp add: history_next_def entries_left_push) (simp add: entries_left_def, arith)
qed simp

definition get_global_history :: "ranking_state \<Rightarrow> (string \<times> string \<times> int \<times> real) list" where
  "get_global_history st = history_loop (history_queue st)"

section \<open>Merging\<close>

definition entry_time :: "history_entry \<Rightarrow> int" where
  "entry_time = (\<lambda>((time, _), _). time)"

definition entry_owner :: "history_entry \<Rightarrow> string \<times> string" where
  "entry_owner = (\<lambda>(_, user, task, _). (user, task))"

definition entry_rest :: "history_entry \<Rightarrow> (int \<times> real) list" where
  "entry_rest = (\<lambda>(_, _, _, scoring, index). drop index (sc_history scoring))"

definition entry_ok :: "history_entry \<Rightarrow> bool" where
  "entry_ok = (\<lambda>(p, _, _, scoring, index).
     index < length (sc_history scoring) \<and> p = sc_history scoring ! index \<and> sorted (map fst (sc_history scoring)))"

definition queue_ok :: "history_entry list \<Rightarrow> bool" where
  "queue_ok q \<longleftrightarrow> sorted (map entry_time q) \<and> distinct (map entry_owner q) \<and> (\<forall>e\<in>set q. entry_ok e)"

lemmas entry_defs = history_key_def entry_time_def entry_owner_def entry_rest_def entry_ok_def

lemma set_heappush [simp]: "set (heappush q e) = insert e (set q)"
  by (induction q) auto

lemma distinct_heappush: "distinct (map entry_owner (heappush q e)) \<longleftrightarrow> entry_owner e \<notin> entry_owner ` set q \<and> distinct (map entry_owner q)"
  by (induction q) auto

lemma key_time: "history_key e \<le> history_key x \<Longrightarrow> entry_time e \<le> entry_time x"
  by (cases e; cases x) (auto simp: entry_defs)

lemma sorted_heappush: "sorted (map entry_time q) \<Longrightarrow> sorted (map entry_time (heappush q e))"
proof (induction q)
  case (Cons x q)
  show ?case
  proof (cases "history_key e < history_key x")
    case True
    then have "entry_time e \<le> entry_time x" by (intro key_time less_imp_le)
    then show ?thesis using Cons.prems True by auto
  next
    case False
    then have "entry_time x \<le> entry_time e" by (intro key_time) simp
    then show ?thesis using Cons False by auto
  qed
qed simp

lemma queue_ok_push: "queue_ok q \<Longrightarrow> entry_ok e \<Longrightarrow> entry_owner e \<notin> entry_owner ` set q \<Longrightarrow> queue_ok (heappush q e)"
  by (auto simp: queue_ok_def sorted_heappush distinct_heappush)

lemma queue_ok_next:
  assumes "queue_ok ((p, user, task, scoring, index) # q)"
  shows "queue_ok (history_next q user task scoring index)"
proof -
  have "queue_ok q" "entry_ok (p, user, task, scoring, index)" "(user, task) \<notin> entry_owner ` set q"
    using assms by (auto simp: queue_ok_def entry_owner_def)
  moreover from this(2) have "entry_ok (sc_history scoring ! (index + 1), user, task, scoring, index + 1)"
    if "index + 1 < length (sc_history scoring)" using that by (simp add: entry_ok_def)
  moreover have "entry_owner (x, user, task, y) = (user, task)" for x y by (simp add: entry_owner_def)
  ultimately show ?thesis by (simp add: history_next_def queue_ok_push)
qed

text \<open>What is left of the history of a user on a task, and the part of a history that concerns them.\<close>

definition rest_of :: "history_entry list \<Rightarrow> string \<Rightarrow> string \<Rightarrow> (int \<times> real) list" where
  "rest_of q user task = concat (map entry_rest (filter (\<lambda>e. entry_owner e = (user, task)) q))"

definition history_of :: "string \<Rightarrow> string \<Rightarrow> (string \<times> string \<times> int \<times> real) list \<Rightarrow> (int \<times> real) list" where
  "history_of user task hs = map (\<lambda>(_, _, p). p) (filter (\<lambda>(u, t, _). u = user \<and> t = task) hs)"

definition history_time :: "string \<times> string \<times> int \<times> real \<Rightarrow> int" where
  "history_time = (\<lambda>(_, _, time, _). time)"

lemma rest_of_absent: "(user, task) \<notin> entry_owner ` set q \<Longrightarrow> rest_of q user task = []"
proof -
  assume "(user, task) \<notin> entry_owner ` set q"
  then have "filter (\<lambda>e. entry_owner e = (user, task)) q = []" by (force simp: filter_empty_conv)
  then show ?thesis by (simp add: rest_of_def)
qed

lemma rest_of_Cons: "entry_owner e \<notin> entry_owner ` set q \<Longrightarrow>
    rest_of (e # q) user task = (if entry_owner e = (user, task) then entry_rest e else rest_of q user task)"
proof -
  assume "entry_owner e \<notin> entry_owner ` set q"
  then have "entry_owner e = (user, task) \<Longrightarrow> rest_of q user task = []" using rest_of_absent by simp
  moreover have "rest_of (e # q) user task = (if entry_owner e = (user, task) then entry_rest e @ rest_of q user task else rest_of q user task)"
    by (simp add: rest_of_def)
  ultimately show ?thesis by auto
qed

lemma rest_of_push:
  assumes "entry_owner e \<notin> entry_owner ` set q"
  shows "rest_of (heappush q e) user task = (if entry_owner e = (user, task) then entry_rest e else rest_of q user task)"
  using assms
proof (induction q)
  case (Cons x q)
  have "rest_of (x # heappush q e) user task = (if entry_owner x = (user, task) then entry_rest x @ rest_of (heappush q e) user task
      else rest_of (heappush q e) user task)" by (simp add: rest_of_def)
  moreover have "rest_of (x # q) user task = (if entry_owner x = (user, task) then entry_rest x @ rest_of q user task else rest_of q user task)"
    by (simp add: rest_of_def)
  ultimately show ?case using Cons rest_of_Cons[OF Cons.prems, of user task] by auto
qed (simp add: rest_of_def)

lemma history_loop_ok:
  assumes "queue_ok q"
  shows "sorted (map history_time (history_loop q)) \<and> (\<forall>x\<in>set (history_loop q). \<exists>e\<in>set q. entry_time e \<le> history_time x) \<and>
    (\<forall>u t. history_of u t (history_loop q) = rest_of q u t)"
  using assms
proof (induction q rule: history_loop.induct)
  case 1
  then show ?case by (simp add: history_of_def rest_of_def)
next
  case (2 time score user task scoring index q)
  let ?e = "((time, score), user, task, scoring, index)" and ?n = "history_next q user task scoring index" and ?h = "sc_history scoring"
  have ok: "queue_ok q" "entry_ok ?e" "entry_owner ?e \<notin> entry_owner ` set q" "\<forall>x\<in>set q. time \<le> entry_time x"
    using "2.prems" by (auto simp: queue_ok_def entry_time_def)
  have h: "index < length ?h" "?h ! index = (time, score)" "sorted (map fst ?h)" using ok(2) by (auto simp: entry_ok_def)
  note IH = "2.IH"[OF queue_ok_next[OF "2.prems"]]
  have low: "time \<le> entry_time x" if "x \<in> set ?n" for x
  proof -
    have "fst (?h ! index) \<le> fst (?h ! (index + 1))" if "index + 1 < length ?h"
      using sorted_nth_mono[OF h(3), of index "index + 1"] that by simp
    then show ?thesis using \<open>x \<in> set ?n\<close> ok(4) h(2)
      by (cases "?h ! (index + 1)") (auto simp: history_next_def entry_time_def split: if_splits)
  qed
  have "sorted (map history_time (history_loop (?e # q)))"
    using IH low by (fastforce simp: history_time_def)
  moreover have "\<forall>x\<in>set (history_loop (?e # q)). \<exists>e\<in>set (?e # q). entry_time e \<le> history_time x"
  proof
    fix x assume "x \<in> set (history_loop (?e # q))"
    then have "time \<le> history_time x" using IH low by (fastforce simp: history_time_def)
    then show "\<exists>e\<in>set (?e # q). entry_time e \<le> history_time x" by (intro bexI[of _ ?e]) (simp_all add: entry_time_def)
  qed
  moreover have "history_of u t (history_loop (?e # q)) = rest_of (?e # q) u t" for u t
  proof -
    have d: "drop index ?h = (time, score) # drop (index + 1) ?h" using Cons_nth_drop_Suc[OF h(1)] h(2) by simp
    have own: "entry_owner (p, user, task, x) = (user, task)" for p x by (simp add: entry_owner_def)
    have nin: "(user, task) \<notin> entry_owner ` set q" using ok(3) own by simp
    have push: "rest_of (heappush q (p, user, task, scoring, i)) u t = (if (user, task) = (u, t) then drop i ?h else rest_of q u t)" for p i
      using rest_of_push[of "(p, user, task, scoring, i)" q u t] nin own by (simp add: entry_rest_def)
    have n: "rest_of ?n u t = (if (user, task) = (u, t) then drop (index + 1) ?h else rest_of q u t)"
      using push[of "?h ! (index + 1)" "index + 1"] rest_of_absent[OF nin]
      by (cases "user = u"; cases "task = t") (simp_all add: history_next_def)
    have "history_of u t (history_loop ?n) = rest_of ?n u t" using IH by blast
    moreover have "history_of u t (history_loop (?e # q)) =
        (if (user, task) = (u, t) then (time, score) # history_of u t (history_loop ?n) else history_of u t (history_loop ?n))"
      by (simp add: history_of_def)
    ultimately have "history_of u t (history_loop (?e # q)) = (if (user, task) = (u, t) then (time, score) # rest_of ?n u t else rest_of ?n u t)"
      by (simp only:)
    also have "\<dots> = (if (user, task) = (u, t) then drop index ?h else rest_of q u t)" unfolding n d by auto
    finally show ?thesis unfolding rest_of_Cons[OF ok(3)] own by (simp add: entry_rest_def)
  qed
  ultimately show ?case by blast
qed

section \<open>The queue at the beginning\<close>

definition all_scores :: "ranking_state \<Rightarrow> (string \<times> string \<times> score) list" where
  "all_scores st = concat (map (\<lambda>(user, dic). map (\<lambda>(task, scoring). (user, task, scoring)) dic) (rk_scores st))"

definition push_history :: "string \<times> string \<times> score \<Rightarrow> history_entry list \<Rightarrow> history_entry list" where
  "push_history = (\<lambda>(user, task, scoring) queue.
     if sc_history scoring \<noteq> [] then heappush queue (sc_history scoring ! 0, user, task, scoring, 0) else queue)"

lemma history_queue_fold: "history_queue st = fold push_history (all_scores st) []"
proof -
  have inner: "fold (\<lambda>(task, scoring) queue.
         if sc_history scoring \<noteq> [] then heappush queue (sc_history scoring ! 0, user, task, scoring, 0) else queue) dic q =
       fold push_history (map (\<lambda>(task, scoring). (user, task, scoring)) dic) q" for user dic q
    by (induction dic arbitrary: q) (auto simp: push_history_def)
  have "fold (\<lambda>(user, dic). fold push_history (map (\<lambda>(task, scoring). (user, task, scoring)) dic)) xs q =
      fold push_history (concat (map (\<lambda>(user, dic). map (\<lambda>(task, scoring). (user, task, scoring)) dic) xs)) q" for xs q
    by (induction xs arbitrary: q) auto
  then show ?thesis unfolding history_queue_def all_scores_def inner by simp
qed

lemma all_scores_at:
  assumes "scores_dict_ok st"
  shows "(u, t, sc) \<in> set (all_scores st) \<longleftrightarrow> score_at st u t = Some sc" "distinct (map (\<lambda>(u, t, _). (u, t)) (all_scores st))"
proof -
  have d: "distinct (map fst (rk_scores st))" "\<And>u dic. (u, dic) \<in> set (rk_scores st) \<Longrightarrow> distinct (map fst dic)"
    using assms by (auto simp: scores_dict_ok_def dict_ok_def)
  show "(u, t, sc) \<in> set (all_scores st) \<longleftrightarrow> score_at st u t = Some sc"
  proof -
    have "(u, t, sc) \<in> set (all_scores st) \<longleftrightarrow> (\<exists>dic. (u, dic) \<in> set (rk_scores st) \<and> (t, sc) \<in> set dic)"
      by (fastforce simp: all_scores_def)
    also have "\<dots> \<longleftrightarrow> (\<exists>dic. map_of (rk_scores st) u = Some dic \<and> map_of dic t = Some sc)"
      using d by (metis map_of_SomeD map_of_is_SomeI)
    finally show ?thesis by (auto simp: score_at_def split: option.split)
  qed
  have "distinct (map (\<lambda>(u, t, _). (u, t)) (concat (map (\<lambda>(user, dic). map (\<lambda>(task, scoring). (user, task, scoring)) dic) xs)))"
    if "distinct (map fst xs)" "\<And>u dic. (u, dic) \<in> set xs \<Longrightarrow> distinct (map fst dic)" for xs :: "(string, (string, score) dict) dict"
    using that
  proof (induction xs)
    case (Cons x xs)
    obtain u dic where x: "x = (u, dic)" by fastforce
    have "distinct (map fst dic)" using Cons.prems(2)[of u dic] x by simp
    then have "distinct (map (\<lambda>(u, t, _). (u, t)) (map (\<lambda>(task, scoring). (u, task, scoring)) dic))"
      by (induction dic) force+
    moreover have "distinct (map (\<lambda>(u, t, _). (u, t)) (concat (map (\<lambda>(user, dic). map (\<lambda>(task, scoring). (user, task, scoring)) dic) xs)))"
      by (rule Cons.IH) (use Cons.prems in auto)
    moreover have "(u, t) \<notin> (\<lambda>(u, t, _). (u, t)) ` set (concat (map (\<lambda>(user, dic). map (\<lambda>(task, scoring). (user, task, scoring)) dic) xs))" for t
      using Cons.prems(1) x by force
    ultimately show ?case unfolding x by (simp add: image_Un del: set_concat) force
  qed simp
  then show "distinct (map (\<lambda>(u, t, _). (u, t)) (all_scores st))" unfolding all_scores_def using d by blast
qed

lemma push_histories:
  assumes "queue_ok q" "distinct (map (\<lambda>(u, t, _). (u, t)) xs)" "\<forall>(u, t, sc)\<in>set xs. (u, t) \<notin> entry_owner ` set q \<and> sorted (map fst (sc_history sc))"
  shows "queue_ok (fold push_history xs q) \<and> (\<forall>(u, t, sc)\<in>set xs. rest_of (fold push_history xs q) u t = sc_history sc) \<and>
    (\<forall>u t. (u, t) \<notin> (\<lambda>(u, t, _). (u, t)) ` set xs \<longrightarrow> rest_of (fold push_history xs q) u t = rest_of q u t)"
  using assms
proof (induction xs arbitrary: q)
  case (Cons x xs)
  obtain u t sc where x: "x = (u, t, sc)" by (cases x)
  let ?e = "(sc_history sc ! 0, u, t, sc, 0 :: nat)" and ?q = "push_history x q"
  have own: "entry_owner (p, u, t, y) = (u, t)" for p y by (simp add: entry_owner_def)
  have new: "(u, t) \<notin> entry_owner ` set q" "sorted (map fst (sc_history sc))" using Cons.prems(3) x by auto
  have ok: "queue_ok ?q" using Cons.prems(1) new by (simp add: x push_history_def queue_ok_push own entry_ok_def)
  have rest: "rest_of ?q u' t' = (if (u', t') = (u, t) then sc_history sc else rest_of q u' t')" for u' t'
    using rest_of_push[of ?e q u' t'] new(1) rest_of_absent[OF new(1)] by (auto simp: x push_history_def own) (simp_all add: entry_rest_def)
  have xin: "(u, t) \<notin> (\<lambda>(u, t, _). (u, t)) ` set xs" using Cons.prems(2) x by simp
  have "\<forall>(u', t', sc')\<in>set xs. (u', t') \<notin> entry_owner ` set ?q \<and> sorted (map fst (sc_history sc'))"
  proof (intro ballI, clarify)
    fix u' t' sc' assume s: "(u', t', sc') \<in> set xs"
    then have "(u', t') \<noteq> (u, t)" using xin by force
    moreover have "(u', t') \<notin> entry_owner ` set q \<and> sorted (map fst (sc_history sc'))" using Cons.prems(3) s by auto
    ultimately show "(u', t') \<notin> entry_owner ` set ?q \<and> sorted (map fst (sc_history sc'))" by (simp add: x push_history_def own)
  qed
  from Cons.IH[OF ok _ this] Cons.prems(2)
  have IH: "queue_ok (fold push_history xs ?q)" "\<forall>(u, t, sc)\<in>set xs. rest_of (fold push_history xs ?q) u t = sc_history sc"
      "\<And>u t. (u, t) \<notin> (\<lambda>(u, t, _). (u, t)) ` set xs \<Longrightarrow> rest_of (fold push_history xs ?q) u t = rest_of ?q u t"
    by auto
  show ?case using IH(1,2) IH(3)[OF xin] IH(3) rest by (auto simp: x)
qed simp

lemma history_sorted_run:
  assumes "sorted_wrt change_before cs" "sorted (map fst (sc_history sc))" "\<forall>p\<in>set (sc_history sc). \<forall>c\<in>set cs. fst p \<le> ch_time c"
  shows "sorted (map fst (sc_history (run_changes cs sc)))"
  using assms
proof (induction cs arbitrary: sc)
  case (Cons c cs)
  let ?sc = "recorded (ch_time c) (changed c sc)"
  have "sc_history (changed c sc) = sc_history sc"
    by (auto simp: changed_def change_last_def change_submission_def Let_def split: option.split)
  then have h: "sc_history ?sc = sc_history sc \<or> (\<exists>x. sc_history ?sc = sc_history sc @ [(ch_time c, x)])"
    by (auto simp: recorded_def split: sum.split)
  have "sorted (map fst (sc_history ?sc))" using h Cons.prems(2,3) by (auto simp: sorted_append)
  moreover have "\<forall>p\<in>set (sc_history ?sc). \<forall>c'\<in>set cs. fst p \<le> ch_time c'"
    using h Cons.prems(1,3) by (fastforce simp: change_before_def)
  ultimately show ?case using Cons.IH[of ?sc] Cons.prems(1) by (simp add: run_changes_def)
qed (simp add: run_changes_def)

lemma score_ok_history_sorted: "score_ok sc \<Longrightarrow> sorted (map fst (sc_history sc))"
  using history_sorted_run[of "sc_changes sc" "clear_score sc"] by (simp add: score_ok_def) (simp add: clear_score_def)



end
