(* ===== verification/Proxy_Text.thy ===== *)
theory Proxy_Text
  imports Ranking_Runs
begin

text \<open>
  The texts that the proxy service (\<^verbatim>\<open>cms/service/ProxyService.py\<close>) makes: keys of entities from names and ids.
\<close>

definition digit_char :: "nat \<Rightarrow> char" where
  "digit_char n = char_of (if n < 10 then 48 + n else 87 + n)"

fun show_base :: "nat \<Rightarrow> nat \<Rightarrow> string" where
  "show_base b n = (if b < 2 \<or> n < b then [digit_char n] else show_base b (n div b) @ [digit_char (n mod b)])"

declare show_base.simps [simp del]

text \<open>\<open>"%x" % ord(c)\<close> and \<open>"%d" % n\<close>.\<close>

definition show_hex :: "nat \<Rightarrow> string" where
  "show_hex = show_base 16"

definition show_int :: "int \<Rightarrow> string" where
  "show_int n = (if n < 0 then CHR ''-'' # show_base 10 (nat (- n)) else show_base 10 (nat n))"

definition ascii_alnum :: "char \<Rightarrow> bool" where
  "ascii_alnum c \<longleftrightarrow> of_char c \<in> {48..57} \<union> {65..90} \<union> {97..122 :: nat}"

definition encode_id :: "string \<Rightarrow> string" where
  "encode_id s = concat (map (\<lambda>c. if \<not> ascii_alnum c then CHR ''_'' # show_hex (of_char c) else [c]) s)"

text \<open>\<open>int(make_timestamp(t))\<close>: whole seconds, rounded towards zero.\<close>

definition seconds :: "datetime \<Rightarrow> int" where
  "seconds t = (if t < 0 then - (- t div 1000000) else t div 1000000)"

section \<open>Digits\<close>

lemma of_digit_char: "n < 36 \<Longrightarrow> of_char (digit_char n) = (if n < 10 then 48 + n else 87 + n :: nat)"
  by (simp add: digit_char_def of_char_of)

lemma digit_char_word: "n < 36 \<Longrightarrow> word_char (digit_char n)"
  by (auto simp: word_char_def of_digit_char)

lemma show_base_word:
  assumes "2 \<le> b" "b \<le> 36"
  shows "list_all word_char (show_base b n) \<and> show_base b n \<noteq> []"
  using assms
proof (induction b n rule: show_base.induct)
  case (1 b n)
  have m: "n mod b < 36" using 1(2,3) mod_less_divisor[of b n] by linarith
  show ?case
  proof (cases "n < b")
    case True
    then show ?thesis using 1(3) by (subst (1 2) show_base.simps) (simp add: digit_char_word)
  next
    case False
    then have "show_base b n = show_base b (n div b) @ [digit_char (n mod b)]" using 1(2) by (subst show_base.simps) simp
    then show ?thesis using 1 False m by (simp add: digit_char_word)
  qed
qed

lemma show_base_value: "nat_of_digits (show_base 10 n) = n"
proof (induction "10 :: nat" n rule: show_base.induct)
  case (1 n)
  show ?case
  proof (cases "n < 10")
    case True
    then show ?thesis by (subst show_base.simps) (simp add: nat_of_digits_def of_digit_char)
  next
    case False
    then have "show_base 10 n = show_base 10 (n div 10) @ [digit_char (n mod 10)]" by (subst show_base.simps) simp
    then show ?thesis using 1 False by (simp add: nat_of_digits_def of_digit_char)
  qed
qed

lemma show_int_inj: "0 \<le> a \<Longrightarrow> 0 \<le> b \<Longrightarrow> show_int a = show_int b \<Longrightarrow> a = b"
  unfolding show_int_def by (metis linorder_not_le nat_0_le show_base_value)

lemma show_int_word: "0 \<le> a \<Longrightarrow> list_all word_char (show_int a) \<and> show_int a \<noteq> []"
  unfolding show_int_def using show_base_word[of 10 "nat a"] by auto

lemma show_base_length: "10 ^ k \<le> n \<Longrightarrow> n < 10 ^ Suc k \<Longrightarrow> length (show_base 10 n) = Suc k"
proof (induction k arbitrary: n)
  case (Suc k)
  have "10 ^ k \<le> n div 10" using Suc.prems(1) by (simp add: le_div_geq less_eq_div_iff_mult_less_eq)
  moreover have "n div 10 < 10 ^ Suc k" using Suc.prems(2) by (simp add: less_mult_imp_div_less)
  moreover have "(1 :: nat) \<le> 10 ^ k" by (rule one_le_power) simp
  then have "\<not> n < 10" using Suc.prems(1) unfolding power_Suc by linarith
  ultimately show ?case using Suc.IH by (subst show_base.simps) simp
next
  case 0
  then show ?case by (subst show_base.simps) simp
qed

lemma word_key_ok: "list_all word_char key \<Longrightarrow> key \<noteq> [] \<Longrightarrow> key_ok key"
proof -
  assume a: "list_all word_char key" "key \<noteq> []"
  then have "word_char (last key)" by (simp add: list_all_iff)
  then have "last key \<noteq> CHR 0x0A" by (auto simp: word_char_def)
  then show ?thesis using a by (simp add: key_ok_def)
qed

section \<open>Encoded names\<close>

lemma ascii_alnum_word: "ascii_alnum c \<Longrightarrow> word_char c"
  by (auto simp: ascii_alnum_def word_char_def)

lemma encode_id_word: "list_all word_char (encode_id s)"
proof -
  have "word_char CHR ''_''" by (simp add: word_char_def)
  then show ?thesis using show_base_word[of 16]
    by (induction s) (auto simp: encode_id_def show_hex_def ascii_alnum_word)
qed

lemma encode_id_nonempty: "s \<noteq> [] \<Longrightarrow> encode_id s \<noteq> []"
  by (cases s) (auto simp: encode_id_def)

text \<open>Reading an encoded name back, for characters whose code has two hexadecimal digits.\<close>

definition hex_value :: "char \<Rightarrow> nat" where
  "hex_value c = (if of_char c < (58 :: nat) then of_char c - 48 else of_char c - 87)"

fun decode_id :: "string \<Rightarrow> string" where
  "decode_id [] = []"
| "decode_id (c # s) =
     (case s of
        a # b # rest \<Rightarrow> if c = CHR ''_'' then char_of (16 * hex_value a + hex_value b) # decode_id rest else c # decode_id s
      | _ \<Rightarrow> c # decode_id s)"

lemma hex_value_digit: "n < 16 \<Longrightarrow> hex_value (digit_char n) = n"
  by (simp add: hex_value_def of_digit_char)

lemma show_hex_two: "16 \<le> n \<Longrightarrow> n < 256 \<Longrightarrow> show_hex n = [digit_char (n div 16), digit_char (n mod 16)]"
  unfolding show_hex_def by (subst show_base.simps, subst show_base.simps) (auto simp: less_mult_imp_div_less)

lemma decode_plain: "c \<noteq> CHR ''_'' \<Longrightarrow> decode_id (c # s) = c # decode_id s"
  by (simp split: list.split)

lemma encode_id_Cons: "encode_id (c # s) = (if \<not> ascii_alnum c then CHR ''_'' # show_hex (of_char c) else [c]) @ encode_id s"
  by (simp add: encode_id_def)

lemma decode_encode:
  assumes "\<forall>c\<in>set s. 16 \<le> (of_char c :: nat)"
  shows "decode_id (encode_id s) = s"
  using assms
proof (induction s)
  case (Cons c s)
  have IH: "decode_id (encode_id s) = s" using Cons by simp
  let ?n = "of_char c :: nat"
  show ?case
  proof (cases "ascii_alnum c")
    case True
    then have "c \<noteq> CHR ''_''" by (auto simp: ascii_alnum_def)
    then show ?thesis using True IH decode_plain[of c "encode_id s"] by (simp add: encode_id_Cons del: decode_id.simps)
  next
    case False
    have "?n < 256" by (rule nat_of_char_less_256)
    then have h: "show_hex ?n = [digit_char (?n div 16), digit_char (?n mod 16)]" using Cons.prems show_hex_two by simp
    have "?n div 16 < 16" using \<open>?n < 256\<close> by (simp add: less_mult_imp_div_less)
    then have "16 * hex_value (digit_char (?n div 16)) + hex_value (digit_char (?n mod 16)) = ?n" by (simp add: hex_value_digit)
    then show ?thesis using False IH h by (simp add: encode_id_Cons)
  qed
qed (simp add: encode_id_def)

text \<open>Encoded names contain only the characters that the ranking allows in keys, and names without control characters
  are told apart. With control characters they are not: there are two names with the same key.\<close>

theorem encode_id_keys:
  "(s \<noteq> [] \<longrightarrow> key_ok (encode_id s)) \<and> inj_on encode_id {s. \<forall>c\<in>set s. 16 \<le> (of_char c :: nat)} \<and>
   encode_id [CHR 0x05, CHR ''f''] = encode_id ''_''"
proof (intro conjI impI)
  show "key_ok (encode_id s)" if "s \<noteq> []" using that by (intro word_key_ok encode_id_word encode_id_nonempty)
  show "inj_on encode_id {s. \<forall>c\<in>set s. 16 \<le> (of_char c :: nat)}" by (rule inj_on_inverseI[of _ decode_id]) (simp add: decode_encode)
  show "encode_id [CHR 0x05, CHR ''f''] = encode_id ''_''" by code_simp
qed

theorem encode_id_keys_witness: "key_ok (encode_id ''user.name'') \<and> encode_id ''user.name'' = ''user_2ename''"
proof -
  have "encode_id ''user.name'' = ''user_2ename''" by code_simp
  then show ?thesis using encode_id_keys[of "''user.name''"] by simp
qed

end
