(* ===== verification/Proxy_Service.thy ===== *)
theory Proxy_Service
  imports Ranking_Runs Triggered_Service Contest_Db Proxy_Text
begin

text \<open>
  The service that forwards data to the rankings (\<^verbatim>\<open>cms/service/ProxyService.py\<close>). There is one executor per ranking; every
  operation is enqueued in all of them, and an executor merges what it finds in its queue into at most one request per
  type of entity. The other end of such a request is \<open>handle_put_list\<close> of the ranking web server. Operations have no
  \<open>__eq__\<close>, so two of them are never equal: they carry a serial number. The columns of rows that only this service reads, and
  the maximum score and ranking headers of the score type of a dataset, are functions of the ids of the rows.
\<close>

section \<open>The executor\<close>

record proxy_operation =
  po_serial :: nat
  po_type :: nat
  po_data :: "(string, json_value) dict"

text \<open>\<open>RESOURCE_PATHS\<close>, as the stores that the server has at these paths.\<close>

definition RESOURCE_PATHS :: "store_kind list" where
  "RESOURCE_PATHS = [K_contest, K_task, K_team, K_user, K_submission, K_subchange]"

datatype transmission = Delivered | Not_sent | Answer_lost

record ranking_link =
  rl_authorized :: bool
  rl_net :: "nat \<Rightarrow> transmission"

definition dict_update :: "('k, 'v) dict \<Rightarrow> ('k, 'v) dict \<Rightarrow> ('k, 'v) dict" where
  "dict_update d items = fold (\<lambda>(k, v) d. dict_set d k v) items d"

text \<open>\<open>data[entry.item.type_].update(entry.item.data)\<close> for all entries.\<close>

definition merge_data :: "proxy_operation list \<Rightarrow> nat \<Rightarrow> (string, json_value) dict" where
  "merge_data ops i = fold (\<lambda>op d. if po_type op = i then dict_update d (po_data op) else d) ops []"

definition safe_put_data :: "ranking_link \<Rightarrow> nat \<Rightarrow> (string, json_value) dict \<Rightarrow> (ranking_state, unit) stm" where
  "safe_put_data link i data = (\<lambda>st.
     if rl_net link i = Not_sent then (st, Inl CannotSendError)
     else case handle_put_list (RESOURCE_PATHS ! i) \<lparr>rq_authorized = rl_authorized link, rq_json = True, rq_body = Some (JDict data)\<rparr> st of
       (st', answer) \<Rightarrow>
         (st', if rl_net link i = Answer_lost then Inl CannotSendError
           else case answer of
             Uncaught _ \<Rightarrow> Inl CannotSendError
           | Status n _ \<Rightarrow> if 400 \<le> n \<and> n < 600 then Inl CannotSendError else Inr ()))"

text \<open>\<open>execute\<close>: the first failure ends the loop; it is logged and suppressed.\<close>

definition proxy_execute :: "ranking_link \<Rightarrow> proxy_operation queue_entry list \<Rightarrow> (ranking_state, unit) stm" where
  "proxy_execute link entries =
     stry (sforeach [0..<length RESOURCE_PATHS] (\<lambda>i.
         let data = merge_data (map qe_item entries) i in
         if data \<noteq> [] then safe_put_data link i data else sret ()))
       (\<lambda>_. True) (\<lambda>_. sret ())"

section \<open>The service\<close>

record contest_columns =
  cc_name :: string
  cc_description :: string
  cc_score_precision :: nat

record participation_columns =
  pc_username :: string
  pc_first_name :: string
  pc_last_name :: string
  pc_team :: "(string \<times> string) option"
  pc_hidden :: bool

record task_columns =
  tl_name :: string
  tl_num :: int

record proxy_db =
  pd_db :: db
  pd_contest :: "int \<Rightarrow> contest_columns"
  pd_participation :: "int \<Rightarrow> participation_columns"
  pd_task :: "int \<Rightarrow> task_columns"
  pd_score_type :: "int \<Rightarrow> real \<times> string list"

record proxy_state =
  px_contest_id :: int
  px_db :: proxy_db
  px_service :: "proxy_operation triggered_service"
  px_serial :: nat
  px_scores_sent :: "int set"
  px_tokens_sent :: "int set"

definition score_mode_name :: "score_mode \<Rightarrow> string" where
  "score_mode_name m =
     (case m of SCORE_MODE_MAX_TOKENED_LAST \<Rightarrow> ''max_tokened_last'' | SCORE_MODE_MAX \<Rightarrow> ''max'' | SCORE_MODE_MAX_SUBTASK \<Rightarrow> ''max_subtask'')"

definition px_enqueue :: "datetime \<Rightarrow> nat \<times> (string, json_value) dict \<Rightarrow> (proxy_state, unit) stm" where
  "px_enqueue now = (\<lambda>(t, data) st.
     case ts_enqueue now (px_service st) \<lparr>po_serial = px_serial st, po_type = t, po_data = data\<rparr> None None of
       (ts, r) \<Rightarrow> (st\<lparr>px_service := ts, px_serial := Suc (px_serial st)\<rparr>, res_bind r (\<lambda>_. Inr ())))"

definition contest_data :: "proxy_db \<Rightarrow> contest \<Rightarrow> json_value" where
  "contest_data d c =
     JDict [(''name'', JString (cc_description (pd_contest d (ct_id c)))), (''begin'', JInt (seconds (ct_start c))),
       (''end'', JInt (seconds (ct_stop c))), (''score_precision'', JInt (int (cc_score_precision (pd_contest d (ct_id c)))))]"

definition user_data :: "participation_columns \<Rightarrow> json_value" where
  "user_data p =
     JDict [(''f_name'', JString (pc_first_name p)), (''l_name'', JString (pc_last_name p)),
       (''team'', case pc_team p of None \<Rightarrow> JNull | Some (code, _) \<Rightarrow> JString (encode_id code))]"

text \<open>The loop over \<open>contest.participations\<close>, with the dictionaries \<open>users\<close> and \<open>teams\<close>.\<close>

definition participation_data ::
  "participation_columns \<Rightarrow> (string, json_value) dict \<times> (string, json_value) dict \<Rightarrow> (string, json_value) dict \<times> (string, json_value) dict"
where
  "participation_data p = (\<lambda>(users, teams).
     if pc_hidden p then (users, teams)
     else (dict_set users (encode_id (pc_username p)) (user_data p),
       case pc_team p of None \<Rightarrow> teams | Some (code, name) \<Rightarrow> dict_set teams (encode_id code) (JDict [(''name'', JString name)])))"

definition task_data :: "proxy_db \<Rightarrow> contest \<Rightarrow> task \<Rightarrow> (string \<times> json_value) res" where
  "task_data d c t =
     (case task_active_dataset_id t of
        None \<Rightarrow> Inl AttributeError
      | Some ds \<Rightarrow>
          let (max_score, headers) = pd_score_type d ds; l = pd_task d (task_id t) in
          Inr (encode_id (tl_name l),
            JDict [(''short_name'', JString (tl_name l)), (''name'', JString (task_title t)),
              (''contest'', JString (encode_id (cc_name (pd_contest d (ct_id c))))), (''order'', JInt (tl_num l)),
              (''max_score'', JFloat max_score), (''extra_headers'', JList (map JString headers)),
              (''score_precision'', JInt (int (task_score_precision t))), (''score_mode'', JString (score_mode_name (task_score_mode t)))]))"

definition contest_participations :: "proxy_db \<Rightarrow> int \<Rightarrow> participation_columns list" where
  "contest_participations d cid =
     map (\<lambda>p. pd_participation d (part_id p)) (filter (\<lambda>p. part_contest_id p = cid) (db_participations (pd_db d)))"

definition contest_tasks :: "proxy_db \<Rightarrow> int \<Rightarrow> task list" where
  "contest_tasks d cid = filter (\<lambda>t. task_contest_id t = Some cid) (db_tasks (pd_db d))"

definition initial_operations :: "proxy_db \<Rightarrow> int \<Rightarrow> (nat \<times> (string, json_value) dict) list res" where
  "initial_operations d cid =
     (case get_from_id ct_id (db_contests (pd_db d)) cid of
        None \<Rightarrow> Inl KeyError
      | Some c \<Rightarrow>
          let (users, teams) = fold participation_data (contest_participations d cid) ([], []) in
          res_bind (res_map (task_data d c) (contest_tasks d cid)) (\<lambda>ts.
            Inr [(0, [(encode_id (cc_name (pd_contest d (ct_id c))), contest_data d c)]), (2, teams), (3, users),
                 (1, dict_update [] ts)]))"

definition px_initialize :: "datetime \<Rightarrow> (proxy_state, unit) stm" where
  "px_initialize now =
     sbind (\<lambda>st. (st, initial_operations (px_db st) (px_contest_id st))) (\<lambda>ops. sforeach ops (px_enqueue now))"

text \<open>\<open>submission.get_result()\<close>: the result on the active dataset of the task.\<close>

definition active_result :: "db \<Rightarrow> submission \<Rightarrow> submission_result option res" where
  "active_result d s =
     (case get_from_id task_id (db_tasks d) (sub_task_id s) of
        None \<Rightarrow> Inl AttributeError
      | Some t \<Rightarrow> Inr (case task_active_dataset_id t of
          None \<Rightarrow> None | Some ds \<Rightarrow> get_from_id sr_key (db_submission_results d) (sub_id s, ds)))"

definition submission_data :: "proxy_db \<Rightarrow> submission \<Rightarrow> json_value" where
  "submission_data d s =
     JDict [(''user'', JString (encode_id (pc_username (pd_participation d (sub_participation_id s))))),
       (''task'', JString (encode_id (tl_name (pd_task d (sub_task_id s))))), (''time'', JInt (seconds (sub_timestamp s)))]"

definition score_change_key :: "submission \<Rightarrow> string" where
  "score_change_key s = show_int (seconds (sub_timestamp s)) @ show_int (sub_id s) @ ''s''"

definition score_change_data :: "submission \<Rightarrow> submission_result option \<Rightarrow> json_value" where
  "score_change_data s r =
     JDict ([(''submission'', JString (show_int (sub_id s))), (''time'', JInt (seconds (sub_timestamp s)))] @
       (case r of
          None \<Rightarrow> []
        | Some r \<Rightarrow>
            if sr_scored r then
              [(''score'', case sr_score r of None \<Rightarrow> JNull | Some x \<Rightarrow> JFloat x),
               (''extra'', case sr_ranking_score_details r of None \<Rightarrow> JNull | Some es \<Rightarrow> JList (map JString es))]
            else []))"

definition operations_for_score :: "submission \<Rightarrow> (proxy_state, (nat \<times> (string, json_value) dict) list) stm" where
  "operations_for_score s =
     sbind (\<lambda>st. (st, active_result (pd_db (px_db st)) s)) (\<lambda>r.
     sbind (sget px_db) (\<lambda>d.
     sthen (supd (\<lambda>st. st\<lparr>px_scores_sent := insert (sub_id s) (px_scores_sent st)\<rparr>))
       (sret [(4, [(show_int (sub_id s), submission_data d s)]), (5, [(score_change_key s, score_change_data s r)])])))"

definition token_change_key :: "submission \<Rightarrow> datetime \<Rightarrow> string" where
  "token_change_key s t = show_int (seconds t) @ show_int (sub_id s) @ ''t''"

definition token_change_data :: "submission \<Rightarrow> datetime \<Rightarrow> json_value" where
  "token_change_data s t =
     JDict [(''submission'', JString (show_int (sub_id s))), (''time'', JInt (seconds t)), (''token'', JBool True)]"

definition operations_for_token :: "submission \<Rightarrow> (proxy_state, (nat \<times> (string, json_value) dict) list) stm" where
  "operations_for_token s =
     (case sub_token s of
        None \<Rightarrow> sraise AttributeError
      | Some t \<Rightarrow>
          sbind (sget px_db) (\<lambda>d.
          sthen (supd (\<lambda>st. st\<lparr>px_tokens_sent := insert (sub_id s) (px_tokens_sent st)\<rparr>))
            (sret [(4, [(show_int (sub_id s), submission_data d s)]), (5, [(token_change_key s t, token_change_data s t)])])))"

definition enqueue_all :: "datetime \<Rightarrow> (proxy_state, (nat \<times> (string, json_value) dict) list) stm \<Rightarrow> (proxy_state, nat) stm" where
  "enqueue_all now m = sbind m (\<lambda>ops. sthen (sforeach ops (px_enqueue now)) (sret (length ops)))"

definition submission_hidden :: "proxy_db \<Rightarrow> submission \<Rightarrow> bool" where
  "submission_hidden d s = pc_hidden (pd_participation d (sub_participation_id s))"

text \<open>The body of the loop of \<open>_missing_operations\<close>, which counts what it enqueues.\<close>

definition missing_for :: "datetime \<Rightarrow> submission \<Rightarrow> nat \<Rightarrow> (proxy_state, nat) stm" where
  "missing_for now s counter =
     sbind (\<lambda>st. (st, active_result (pd_db (px_db st)) s)) (\<lambda>r.
     case r of
       None \<Rightarrow> sret counter
     | Some r \<Rightarrow>
         sbind (sget px_scores_sent) (\<lambda>sent.
         sbind (if sr_scored r \<and> sub_id s \<notin> sent then enqueue_all now (operations_for_score s) else sret 0) (\<lambda>n.
         sbind (sget px_tokens_sent) (\<lambda>sent.
         sbind (if sub_tokened s \<and> sub_id s \<notin> sent then enqueue_all now (operations_for_token s) else sret 0) (\<lambda>m.
           sret (counter + n + m))))))"

definition px_missing_operations :: "datetime \<Rightarrow> (proxy_state, nat) stm" where
  "px_missing_operations now =
     sbind (\<lambda>st. (st, get_submissions (pd_db (px_db st)) (Some (px_contest_id st)) None None None)) (\<lambda>subs.
     sbind (sget px_db) (\<lambda>d.
       sfold (filter (\<lambda>s. \<not> submission_hidden d s \<and> sub_official s) subs) (missing_for now) 0))"

text \<open>\<open>__init__\<close> with one executor per ranking.\<close>

definition px_init :: "datetime \<Rightarrow> proxy_db \<Rightarrow> int \<Rightarrow> nat \<Rightarrow> proxy_state \<times> unit res" where
  "px_init now d cid rankings =
     px_initialize now
       \<lparr>px_contest_id = cid, px_db = d,
        px_service = fold (\<lambda>_ ts. add_executor ts (executor_init True)) [0..<rankings] triggered_service_init,
        px_serial = 0, px_scores_sent = {}, px_tokens_sent = {}\<rparr>"

definition px_reinitialize :: "datetime \<Rightarrow> (proxy_state, unit) stm" where
  "px_reinitialize = px_initialize"

text \<open>What \<open>submission_scored\<close> and \<open>submission_tokened\<close> have in common.\<close>

definition notice_submission ::
  "datetime \<Rightarrow> int \<Rightarrow> (submission \<Rightarrow> (proxy_state, (nat \<times> (string, json_value) dict) list) stm) \<Rightarrow> (proxy_state, unit) stm"
where
  "notice_submission now submission_id operations =
     sbind (\<lambda>st. (st, Inr (px_db st, px_contest_id st))) (\<lambda>(d, cid).
     case get_from_id sub_id (db_submissions (pd_db d)) submission_id of
       None \<Rightarrow> sraise KeyError
     | Some s \<Rightarrow>
         (case get_from_id task_id (db_tasks (pd_db d)) (sub_task_id s) of
            None \<Rightarrow> sraise AttributeError
          | Some t \<Rightarrow>
              if task_contest_id t \<noteq> Some cid then sret ()
              else if submission_hidden d s then sret ()
              else if \<not> sub_official s then sret ()
              else sthen (enqueue_all now (operations s)) (sret ())))"

definition submission_scored :: "datetime \<Rightarrow> int \<Rightarrow> (proxy_state, unit) stm" where
  "submission_scored now submission_id = notice_submission now submission_id operations_for_score"

definition submission_tokened :: "datetime \<Rightarrow> int \<Rightarrow> (proxy_state, unit) stm" where
  "submission_tokened now submission_id = notice_submission now submission_id operations_for_token"

definition dataset_updated :: "datetime \<Rightarrow> int \<Rightarrow> (proxy_state, unit) stm" where
  "dataset_updated now tid =
     sbind (\<lambda>st. (st, Inr (px_db st, px_contest_id st))) (\<lambda>(d, cid).
     case get_from_id task_id (db_tasks (pd_db d)) tid of
       None \<Rightarrow> sraise AttributeError
     | Some t \<Rightarrow>
         if task_contest_id t \<noteq> Some cid then
           (if task_contest_id t = None then sraise AttributeError else sret ())
         else if task_active_dataset_id t = None then sraise AttributeError
         else sthen (px_reinitialize now)
           (sforeach (filter (\<lambda>s. sub_task_id s = tid) (db_submissions (pd_db d))) (\<lambda>s.
              sbind (slift (active_result (pd_db d) s)) (\<lambda>r.
                if \<not> submission_hidden d s \<and> sub_official s \<and> (case r of None \<Rightarrow> False | Some r \<Rightarrow> sr_scored r)
                then sthen (enqueue_all now (operations_for_score s)) (sret ()) else sret ()))))"

end
