(* ===== verification/Proxy_Delivery.thy ===== *)
theory Proxy_Delivery
  imports Proxy_Service
begin

text \<open>
  What reaches a ranking: a batch of operations whose data is good and complete is stored by the ranking web server, and
  the operations that the proxy service makes of a contest are such a batch.
\<close>

section \<open>A batch of data\<close>

fun type_of :: "store_kind \<Rightarrow> nat" where
  "type_of K_contest = 0"
| "type_of K_task = 1"
| "type_of K_team = 2"
| "type_of K_user = 3"
| "type_of K_submission = 4"
| "type_of K_subchange = 5"

definition parsed :: "store_kind \<Rightarrow> json_value \<Rightarrow> entity option" where
  "parsed k j = (case entity_set k j of Inl _ \<Rightarrow> None | Inr e \<Rightarrow> Some e)"

lemma RESOURCE_PATHS_simps: "length RESOURCE_PATHS = 6" "RESOURCE_PATHS ! type_of k = k" "type_of k < 6"
  "i < 6 \<Longrightarrow> type_of (RESOURCE_PATHS ! i) = i"
proof -
  show "length RESOURCE_PATHS = 6" "RESOURCE_PATHS ! type_of k = k" "type_of k < 6" by (cases k; simp add: RESOURCE_PATHS_def)+
  assume "i < 6"
  then have "i \<in> {0, 1, 2, 3, 4, 5}" by auto
  then show "type_of (RESOURCE_PATHS ! i) = i" by (auto simp: RESOURCE_PATHS_def)
qed

text \<open>References go to types that are sent before.\<close>

lemma refs_before: "(j, x) \<in> set (refs e) \<Longrightarrow> type_of j < type_of (kind_of e)"
  by (cases e) (auto split: option.splits)

definition items_ok :: "ranking_state \<Rightarrow> store_kind \<Rightarrow> (string, json_value) dict \<Rightarrow> bool" where
  "items_ok st k data \<longleftrightarrow> dict_ok data \<and>
     (\<forall>(key, j)\<in>set data. key \<noteq> [] \<and> word_char (hd key) \<and> (\<exists>e. entity_set k j = Inr e \<and> put_good st k key e))"

lemma merge_items_parsed:
  assumes "\<forall>(key, j)\<in>set data. key \<noteq> [] \<and> word_char (hd key) \<and> (\<exists>e. entity_set k j = Inr e \<and> put_good st k key e)"
    "dict_ok data" "dict_ok es" "\<forall>(key, e)\<in>set es. put_good st k key e"
  shows "\<exists>es'. sfold data (merge_item k) es st = (st, Inr es') \<and> dict_ok es' \<and> (\<forall>(key, e)\<in>set es'. put_good st k key e) \<and>
    (\<forall>key. map_of es' key = (case map_of data key of None \<Rightarrow> map_of es key | Some j \<Rightarrow> parsed k j))"
  using assms
proof (induction data arbitrary: es)
  case (Cons x data)
  obtain key j where x: "x = (key, j)" by fastforce
  then obtain e where e: "entity_set k j = Inr e" "put_good st k key e" "key \<noteq> []" "word_char (hd key)" using Cons.prems(1) by auto
  have "\<forall>(key, e)\<in>set (dict_set es key e). put_good st k key e" using Cons.prems(4) e(2) set_dict_set[of es key e] by auto
  moreover have "dict_ok data" "map_of data key = None"
    using Cons.prems(2) by (simp_all add: x dict_ok_def map_of_eq_None_iff)
  moreover have "merge_item k x es st = (st, Inr (dict_set es key e))"
    using e by (simp add: x merge_item_def make_item_def stm_simps put_good_def)
  ultimately show ?case using Cons.IH[of "dict_set es key e"] Cons.prems(1,3) e(1)
    by (fastforce simp: x stm_simps map_of_dict_set parsed_def split: option.split)
qed (simp add: stm_simps)

lemma put_list_delivers:
  assumes run: "ranking_run st" and ok: "items_ok st k data"
  shows "\<exists>st'. handle_put_list k \<lparr>rq_authorized = True, rq_json = True, rq_body = Some (JDict data)\<rparr> st = (st', Status 204 None) \<and>
    ranking_run st' \<and> rk_disk_ok st' = rk_disk_ok st \<and>
    (\<exists>d. rk_store st' = (rk_store st)(k := d) \<and>
      (\<forall>key. map_of d key = (case map_of data key of None \<Rightarrow> map_of (rk_store st k) key | Some j \<Rightarrow> parsed k j)))"
proof -
  let ?rq = "\<lparr>rq_authorized = True, rq_json = True, rq_body = Some (JDict data)\<rparr>"
  have items: "\<forall>(key, j)\<in>set data. key \<noteq> [] \<and> word_char (hd key) \<and> (\<exists>e. entity_set k j = Inr e \<and> put_good st k key e)" "dict_ok data"
    using ok by (simp_all add: items_ok_def)
  obtain es where es: "sfold data (merge_item k) [] st = (st, Inr es)" "dict_ok es" "\<forall>(key, e)\<in>set es. put_good st k key e"
      "\<forall>key. map_of es key = (case map_of data key of None \<Rightarrow> map_of [] key | Some j \<Rightarrow> parsed k j)"
    using merge_items_parsed[OF items dict_ok_Nil] by (metis empty_iff list.set(1))
  obtain st' d where st': "sforeach es (merge_entity k) st = (st', Inr ())" "rk_disk_ok st' = rk_disk_ok st"
      "rk_store st' = (rk_store st)(k := d)" "map_of d = map_of (rk_store st k) ++ map_of es"
    using merge_entities_ok[OF ranking_run_ok[OF run] es(2,3)] by blast
  have h: "handle_put_list k ?rq st = (st', Status 204 None)"
    using es(1) st'(1) by (simp add: handle_put_list_def store_merge_list_def stm_simps answer_of_def)
  have "data_good st k key j" if kj: "(key, j) \<in> set data" for key j
  proof -
    obtain e where "entity_set k j = Inr e" "put_good st k key e" using bspec[OF items(1) kj] by auto
    then show ?thesis by (simp add: data_good_def put_good_def split: option.split)
  qed
  then have "list_good st k (JDict data)" by (auto simp: list_good_def list_all_iff)
  then have "ranking_run (fst (handle_put_list k ?rq st))" by (intro run_put_list[OF run]) simp
  moreover have "map_of d key = (case map_of data key of None \<Rightarrow> map_of (rk_store st k) key | Some j \<Rightarrow> parsed k j)" for key
  proof (cases "map_of data key")
    case (Some j)
    obtain e where "entity_set k j = Inr e" using bspec[OF items(1) map_of_SomeD[OF Some]] by auto
    then show ?thesis using Some es(4) by (simp add: st'(4) map_add_def parsed_def)
  qed (simp add: st'(4) map_add_def es(4))
  ultimately show ?thesis using h st'(2,3) by auto
qed

text \<open>Data for all types, with all references resolved by the data or by what is stored.\<close>

definition batch_good :: "ranking_state \<Rightarrow> (nat \<Rightarrow> (string, json_value) dict) \<Rightarrow> bool" where
  "batch_good st data \<longleftrightarrow> (\<forall>k. dict_ok (data (type_of k)) \<and>
     (\<forall>(key, j)\<in>set (data (type_of k)). key \<noteq> [] \<and> word_char (hd key) \<and>
       (\<exists>e. entity_set k j = Inr e \<and> entity_good e \<and> (\<forall>old_e. map_of (rk_store st k) key = Some old_e \<longrightarrow> compatible old_e e) \<and>
         (\<forall>(j', x)\<in>set (refs e). dict_has (rk_store st j') x \<or> dict_has (data (type_of j')) x))))"

definition received :: "ranking_state \<Rightarrow> (nat \<Rightarrow> (string, json_value) dict) \<Rightarrow> store_kind \<Rightarrow> string \<Rightarrow> entity option" where
  "received st data k key = (case map_of (data (type_of k)) key of None \<Rightarrow> map_of (rk_store st k) key | Some j \<Rightarrow> parsed k j)"

lemma batch_goodD:
  assumes "batch_good st data" "map_of (data (type_of k)) key = Some j"
  obtains e where "key \<noteq> []" "word_char (hd key)" "entity_set k j = Inr e" "entity_good e"
    "\<forall>old_e. map_of (rk_store st k) key = Some old_e \<longrightarrow> compatible old_e e"
    "\<forall>(j', x)\<in>set (refs e). dict_has (rk_store st j') x \<or> dict_has (data (type_of j')) x"
  using assms that unfolding batch_good_def by (fast dest: map_of_SomeD)

lemma received_has: "batch_good st data \<Longrightarrow> dict_has (rk_store st k) x \<or> dict_has (data (type_of k)) x \<Longrightarrow> received st data k x \<noteq> None"
proof (cases "map_of (data (type_of k)) x")
  case (Some j)
  assume good: "batch_good st data"
  obtain e where "entity_set k j = Inr e" by (rule batch_goodD[OF good Some])
  then show ?thesis using Some by (simp add: received_def parsed_def)
qed (simp add: received_def dict_has_def)

lemma batch_items_ok:
  assumes good: "batch_good st data"
    and done_before: "\<And>j key. map_of (rk_store st' j) key = (if type_of j < type_of k then received st data j key else map_of (rk_store st j) key)"
  shows "items_ok st' k (data (type_of k))"
  unfolding items_ok_def
proof (intro conjI ballI, goal_cases)
  case 1
  then show ?case using good by (simp add: batch_good_def)
next
  case (2 x)
  obtain key j where x: "x = (key, j)" by fastforce
  have dk: "dict_ok (data (type_of k))" using good by (simp add: batch_good_def)
  then have kj: "map_of (data (type_of k)) key = Some j" using 2 x by (simp add: dict_ok_def)
  obtain e where e: "key \<noteq> []" "word_char (hd key)" "entity_set k j = Inr e" "entity_good e"
      "\<forall>old_e. map_of (rk_store st k) key = Some old_e \<longrightarrow> compatible old_e e"
      "\<forall>(j', x)\<in>set (refs e). dict_has (rk_store st j') x \<or> dict_has (data (type_of j')) x"
    by (rule batch_goodD[OF good kj])
  have ke: "kind_of e = k" "entity_valid e" using entity_set_kind[OF e(3)] entity_set_valid[OF e(3)] by simp_all
  have "consistent (rk_store st') e" unfolding consistent_refs
  proof (intro ballI, clarify)
    fix j' y assume r: "(j', y) \<in> set (refs e)"
    then have "dict_has (rk_store st j') y \<or> dict_has (data (type_of j')) y" using e(6) by auto
    then have "received st data j' y \<noteq> None" by (rule received_has[OF good])
    then show "dict_has (rk_store st' j') y" using done_before[of j' y] refs_before[OF r] ke(1) by (simp add: dict_has_def)
  qed
  moreover have "map_of (rk_store st' k) key = map_of (rk_store st k) key" using done_before[of k key] by simp
  ultimately have "put_good st' k key e" using e ke by (simp add: put_good_def)
  then show ?case using e(1-3) x by simp
qed

lemma execute_delivers:
  assumes run: "ranking_run st" and good: "batch_good st (merge_data (map qe_item entries))"
    and link: "rl_authorized link" "\<And>i. rl_net link i = Delivered"
  shows "\<exists>st'. proxy_execute link entries st = (st', Inr ()) \<and> ranking_run st' \<and> rk_disk_ok st' = rk_disk_ok st \<and>
    (\<forall>k key. map_of (rk_store st' k) key = received st (merge_data (map qe_item entries)) k key)"
proof -
  let ?data = "merge_data (map qe_item entries)"
  let ?f = "\<lambda>i. let data = ?data i in if data \<noteq> [] then safe_put_data link i data else sret ()"
  let ?I = "\<lambda>pre st'. ranking_run st' \<and> rk_disk_ok st' = rk_disk_ok st \<and>
    (\<forall>k key. map_of (rk_store st' k) key = (if type_of k < length pre then received st ?data k key else map_of (rk_store st k) key))"
  have "\<exists>st'. sforeach [0..<6] ?f st = (st', Inr ()) \<and> ?I [0..<6] st'"
  proof (rule sforeach_rule[where I = ?I])
    show "?I [] st" using run by simp
    fix pre i post st' assume split: "[0..<6] = pre @ i # post" and I: "?I pre st'"
    have "[0..<6] ! length pre = i" "length pre < length [0..<6]" unfolding split by simp_all
    then have i: "i = length pre" "i < 6" by simp_all
    let ?k = "RESOURCE_PATHS ! i"
    have ti: "type_of ?k = i" by (rule RESOURCE_PATHS_simps(4)[OF i(2)])
    have other: "type_of k = i \<longleftrightarrow> k = ?k" for k using ti RESOURCE_PATHS_simps(2)[of k] by metis
    have "\<exists>st''. ?f i st' = (st'', Inr ()) \<and> ranking_run st'' \<and> rk_disk_ok st'' = rk_disk_ok st \<and>
      (\<forall>k key. map_of (rk_store st'' k) key = (if k = ?k then received st ?data k key else map_of (rk_store st' k) key))"
    proof (cases "?data i = []")
      case True
      then have "map_of (rk_store st' ?k) key = received st ?data ?k key" for key using I i(1) ti by (simp add: received_def)
      then show ?thesis using True I by (auto simp: stm_simps)
    next
      case False
      have "items_ok st' ?k (?data (type_of ?k))" by (rule batch_items_ok[OF good]) (use I ti i(1) in simp)
      then have items: "items_ok st' ?k (?data i)" by (simp add: ti)
      obtain st'' d where st'': "handle_put_list ?k \<lparr>rq_authorized = True, rq_json = True, rq_body = Some (JDict (?data i))\<rparr> st' = (st'', Status 204 None)"
          "ranking_run st''" "rk_disk_ok st'' = rk_disk_ok st'" "rk_store st'' = (rk_store st')(?k := d)"
          "\<And>key. map_of d key = (case map_of (?data i) key of None \<Rightarrow> map_of (rk_store st' ?k) key | Some j \<Rightarrow> parsed ?k j)"
        using put_list_delivers[OF conjunct1[OF I] items] by blast
      have "map_of d key = received st ?data ?k key" for key
        using st''(5)[of key] I i(1) ti by (simp add: received_def split: option.split)
      moreover have "safe_put_data link i (?data i) st' = (st'', Inr ())" using st''(1) link by (simp add: safe_put_data_def)
      ultimately show ?thesis using False st''(2,3,4) I by (intro exI[of _ st'']) simp
    qed
    then obtain st'' where st'': "?f i st' = (st'', Inr ())" "ranking_run st''" "rk_disk_ok st'' = rk_disk_ok st"
      "\<And>k key. map_of (rk_store st'' k) key = (if k = ?k then received st ?data k key else map_of (rk_store st' k) key)" by blast
    have "map_of (rk_store st'' k) key = (if type_of k < length (pre @ [i]) then received st ?data k key else map_of (rk_store st k) key)" for k key
      using st''(4)[of k key] I other[of k] i(1) by (auto simp: less_Suc_eq)
    then show "\<exists>st''. ?f i st' = (st'', Inr ()) \<and> ?I (pre @ [i]) st''" using st''(1-3) by blast
  qed
  then obtain st' where st': "sforeach [0..<6] ?f st = (st', Inr ())" "?I [0..<6] st'" by blast
  have "proxy_execute link entries st = (st', Inr ())"
    unfolding proxy_execute_def RESOURCE_PATHS_simps(1) stry_def using st'(1) by simp
  moreover have "map_of (rk_store st' k) key = received st ?data k key" for k key using st'(2) RESOURCE_PATHS_simps(3)[of k] by simp
  ultimately show ?thesis using st'(2) by blast
qed

section \<open>Merged data\<close>

lemma dict_update_ok: "dict_ok d \<Longrightarrow> dict_ok (dict_update d items)"
  unfolding dict_update_def by (induction items arbitrary: d) auto

lemma dict_update_from: "map_of (dict_update d items) key = Some v \<Longrightarrow> (key, v) \<in> set items \<or> map_of d key = Some v"
  unfolding dict_update_def by (induction items arbitrary: d) (fastforce simp: map_of_dict_set split: if_splits)+

lemma dict_update_has: "dict_has (dict_update d items) key \<longleftrightarrow> dict_has d key \<or> key \<in> fst ` set items"
  unfolding dict_update_def by (induction items arbitrary: d) (auto simp: dict_has_set)

lemma merge_data_snoc: "merge_data (ops @ [op]) i = (if po_type op = i then dict_update (merge_data ops i) (po_data op) else merge_data ops i)"
  by (simp add: merge_data_def)

lemma merge_data_ok: "dict_ok (merge_data ops i)"
  by (induction ops rule: rev_induct) (simp_all add: merge_data_snoc dict_update_ok, simp add: merge_data_def)

lemma merge_data_from: "map_of (merge_data ops i) key = Some j \<Longrightarrow> \<exists>op\<in>set ops. po_type op = i \<and> (key, j) \<in> set (po_data op)"
proof (induction ops rule: rev_induct)
  case (snoc op ops)
  then show ?case by (auto simp: merge_data_snoc dest!: dict_update_from split: if_splits)
qed (simp add: merge_data_def)

lemma merge_data_has: "dict_has (merge_data ops i) key \<longleftrightarrow> (\<exists>op\<in>set ops. po_type op = i \<and> key \<in> fst ` set (po_data op))"
proof (induction ops rule: rev_induct)
  case (snoc op ops)
  then show ?case by (auto simp: merge_data_snoc dict_update_has)
qed (simp add: merge_data_def dict_has_def)

text \<open>The data of operations, given as the set of their types and data.\<close>

definition op_pair :: "proxy_operation \<Rightarrow> nat \<times> (string, json_value) dict" where
  "op_pair op = (po_type op, po_data op)"

lemma merge_pairs:
  assumes "op_pair ` set ops = T"
  shows "map_of (merge_data ops i) key = Some j \<Longrightarrow> \<exists>d. (i, d) \<in> T \<and> (key, j) \<in> set d"
    "dict_has (merge_data ops i) key \<longleftrightarrow> (\<exists>d. (i, d) \<in> T \<and> key \<in> fst ` set d)"
proof -
  have pair: "(i, d) \<in> T \<longleftrightarrow> (\<exists>op\<in>set ops. po_type op = i \<and> po_data op = d)" for i d
    using assms by (auto simp: op_pair_def)
  show "\<exists>d. (i, d) \<in> T \<and> (key, j) \<in> set d" if "map_of (merge_data ops i) key = Some j"
    using merge_data_from[OF that] unfolding pair by blast
  show "dict_has (merge_data ops i) key \<longleftrightarrow> (\<exists>d. (i, d) \<in> T \<and> key \<in> fst ` set d)"
    unfolding merge_data_has pair by blast
qed

section \<open>The queues\<close>

definition px_queued :: "proxy_state \<Rightarrow> (nat \<times> (string, json_value) dict) set \<Rightarrow> bool" where
  "px_queued st T \<longleftrightarrow>
     (\<forall>ex\<in>set (ts_executors (px_service st)). ex_invar ex \<and> ex_batch_executions ex \<and> op_pair ` dom (ex_content ex) = T)"

definition same_proxy :: "proxy_state \<Rightarrow> proxy_state \<Rightarrow> bool" where
  "same_proxy st st' \<longleftrightarrow> px_contest_id st' = px_contest_id st \<and> px_db st' = px_db st \<and> px_scores_sent st' = px_scores_sent st \<and>
     px_tokens_sent st' = px_tokens_sent st \<and> length (ts_executors (px_service st')) = length (ts_executors (px_service st))"

lemma same_proxy_refl [simp]: "same_proxy st st"
  by (simp add: same_proxy_def)

lemma same_proxy_trans: "same_proxy a b \<Longrightarrow> same_proxy b c \<Longrightarrow> same_proxy a c"
  by (simp add: same_proxy_def)

lemma enqueue_loop_flags:
  "map ex_batch_executions (fst (snd (enqueue_loop now it p t exs))) = map ex_batch_executions exs"
proof (induction exs)
  case (Cons ex exs)
  obtain n exs' r where e: "enqueue_loop now it p t exs = (n, exs', r)" by (cases "enqueue_loop now it p t exs")
  show ?case using Cons e by (auto simp: ex_enqueue_def res_simps split: sum.split)
qed simp

lemma px_enqueue_ok:
  assumes "px_queued st T"
  shows "\<exists>st'. px_enqueue now x st = (st', Inr ()) \<and> px_queued st' (insert x T) \<and> same_proxy st st'"
proof -
  obtain t data where x: "x = (t, data)" by fastforce
  let ?op = "\<lparr>po_serial = px_serial st, po_type = t, po_data = data\<rparr>" and ?exs = "ts_executors (px_service st)"
  have inv: "\<forall>ex\<in>set ?exs. ex_invar ex" using assms by (simp add: px_queued_def)
  obtain n exs where e: "enqueue_loop now ?op None None ?exs = (n, exs, Inr ())" "list_all2 (enqueued ?op) ?exs exs"
    using enqueue_loop_counts[OF inv, of now ?op None None] by blast
  let ?st' = "st\<lparr>px_service := (px_service st)\<lparr>ts_executors := exs\<rparr>, px_serial := Suc (px_serial st)\<rparr>"
  have "ts_enqueue now (px_service st) ?op None None = ((px_service st)\<lparr>ts_executors := exs\<rparr>, Inr n)"
    using e(1) by (simp add: ts_enqueue_def)
  then have run: "px_enqueue now x st = (?st', Inr ())" by (simp add: px_enqueue_def x)
  have flags: "map ex_batch_executions exs = map ex_batch_executions ?exs"
    using enqueue_loop_flags[of now ?op None None ?exs] e(1) by simp
  have "ex_invar ex' \<and> ex_batch_executions ex' \<and> op_pair ` dom (ex_content ex') = insert x T" if ex': "ex' \<in> set exs" for ex'
  proof -
    obtain i where i: "i < length exs" "ex' = exs ! i" using ex' by (auto simp: in_set_conv_nth)
    have len: "length exs = length ?exs" using e(2) by (simp add: list_all2_lengthD)
    have enq: "enqueued ?op (?exs ! i) ex'" using list_all2_nthD2[OF e(2) i(1)] i(2) by simp
    have old: "?exs ! i \<in> set ?exs" using i(1) len by simp
    have "ex_batch_executions ex' = ex_batch_executions (?exs ! i)" using arg_cong[OF flags, of "\<lambda>xs. xs ! i"] i len by simp
    moreover have "op_pair ` dom (ex_content ex') = insert (op_pair ?op) (op_pair ` dom (ex_content (?exs ! i)))"
      using enq by (simp add: enqueued_def)
    ultimately show ?thesis using enq old assms by (simp add: px_queued_def enqueued_def op_pair_def x)
  qed
  then have "px_queued ?st' (insert x T)" by (simp add: px_queued_def)
  moreover have "same_proxy st ?st'" using list_all2_lengthD[OF e(2)] by (simp add: same_proxy_def)
  ultimately show ?thesis using run by blast
qed

lemma enqueue_list_ok:
  assumes "px_queued st T"
  shows "\<exists>st'. sforeach ops (px_enqueue now) st = (st', Inr ()) \<and> px_queued st' (T \<union> set ops) \<and> same_proxy st st'"
proof -
  let ?I = "\<lambda>pre st'. px_queued st' (T \<union> set pre) \<and> same_proxy st st'"
  have "\<exists>st'. sforeach ops (px_enqueue now) st = (st', Inr ()) \<and> ?I ops st'"
  proof (rule sforeach_rule[where I = ?I])
    show "?I [] st" using assms by simp
    fix pre x post st' assume I: "?I pre st'"
    obtain st'' where "px_enqueue now x st' = (st'', Inr ())" "px_queued st'' (insert x (T \<union> set pre))" "same_proxy st' st''"
      using px_enqueue_ok I by blast
    then show "\<exists>st''. px_enqueue now x st' = (st'', Inr ()) \<and> ?I (pre @ [x]) st''" using I same_proxy_trans by (intro exI[of _ st'']) auto
  qed
  then show ?thesis by blast
qed

section \<open>What the service enqueues\<close>

definition score_ops :: "proxy_db \<Rightarrow> submission \<Rightarrow> submission_result \<Rightarrow> (nat \<times> (string, json_value) dict) list" where
  "score_ops d s r = [(4, [(show_int (sub_id s), submission_data d s)]), (5, [(score_change_key s, score_change_data s (Some r))])]"

definition token_ops :: "proxy_db \<Rightarrow> submission \<Rightarrow> datetime \<Rightarrow> (nat \<times> (string, json_value) dict) list" where
  "token_ops d s t = [(4, [(show_int (sub_id s), submission_data d s)]), (5, [(token_change_key s t, token_change_data s t)])]"

definition submission_ops :: "proxy_db \<Rightarrow> submission \<Rightarrow> (nat \<times> (string, json_value) dict) list" where
  "submission_ops d s =
     (case active_result (pd_db d) s of
        Inr (Some r) \<Rightarrow> (if sr_scored r then score_ops d s r else []) @ (case sub_token s of None \<Rightarrow> [] | Some t \<Rightarrow> token_ops d s t)
      | _ \<Rightarrow> [])"

definition visible_submissions :: "proxy_db \<Rightarrow> int \<Rightarrow> submission list" where
  "visible_submissions d cid =
     filter (\<lambda>s. \<not> submission_hidden d s \<and> sub_official s) (filter (in_contest (pd_db d) cid) (db_submissions (pd_db d)))"

lemma visible_active_result: "s \<in> set (visible_submissions d cid) \<Longrightarrow> \<exists>r. active_result (pd_db d) s = Inr r"
proof -
  assume "s \<in> set (visible_submissions d cid)"
  then have "get_from_id task_id (db_tasks (pd_db d)) (sub_task_id s) \<noteq> None"
    by (auto simp: visible_submissions_def in_contest_def get_from_id_None)
  then show ?thesis by (auto simp: active_result_def)
qed

text \<open>The state after operations for a submission were enqueued.\<close>

definition sent_upto :: "proxy_state \<Rightarrow> int set \<Rightarrow> proxy_state \<Rightarrow> bool" where
  "sent_upto st ids st' \<longleftrightarrow> px_contest_id st' = px_contest_id st \<and> px_db st' = px_db st \<and>
     length (ts_executors (px_service st')) = length (ts_executors (px_service st)) \<and>
     px_scores_sent st \<subseteq> px_scores_sent st' \<and> px_scores_sent st' \<subseteq> px_scores_sent st \<union> ids \<and>
     px_tokens_sent st \<subseteq> px_tokens_sent st' \<and> px_tokens_sent st' \<subseteq> px_tokens_sent st \<union> ids"

text \<open>Nothing of a submission is missing, for the service.\<close>

definition px_covers :: "proxy_state \<Rightarrow> proxy_db \<Rightarrow> submission \<Rightarrow> bool" where
  "px_covers st d s \<longleftrightarrow> (\<forall>r. active_result (pd_db d) s = Inr (Some r) \<longrightarrow>
     (sr_scored r \<longrightarrow> sub_id s \<in> px_scores_sent st) \<and> (sub_tokened s \<longrightarrow> sub_id s \<in> px_tokens_sent st))"

lemma px_covers_mono: "px_covers st d s \<Longrightarrow> sent_upto st ids st' \<Longrightarrow> px_covers st' d s"
  unfolding px_covers_def sent_upto_def by blast

lemma same_proxy_sent_upto: "same_proxy st st' \<Longrightarrow> sent_upto st ids st'"
  by (auto simp: same_proxy_def sent_upto_def)

lemma sent_upto_trans: "sent_upto a X b \<Longrightarrow> sent_upto b Y c \<Longrightarrow> sent_upto a (X \<union> Y) c"
  by (auto simp: sent_upto_def)

lemma enqueue_score_ok:
  assumes "px_queued st T" "active_result (pd_db (px_db st)) s = Inr (Some r)"
  shows "\<exists>st'. enqueue_all now (operations_for_score s) st = (st', Inr 2) \<and> px_queued st' (T \<union> set (score_ops (px_db st) s r)) \<and>
    sent_upto st {sub_id s} st' \<and> px_tokens_sent st' = px_tokens_sent st \<and> sub_id s \<in> px_scores_sent st'"
proof -
  let ?st1 = "st\<lparr>px_scores_sent := insert (sub_id s) (px_scores_sent st)\<rparr>"
  have "px_queued ?st1 T" using assms(1) by (simp add: px_queued_def)
  then obtain st' where st': "sforeach (score_ops (px_db st) s r) (px_enqueue now) ?st1 = (st', Inr ())"
      "px_queued st' (T \<union> set (score_ops (px_db st) s r))" "same_proxy ?st1 st'"
    using enqueue_list_ok by blast
  have "operations_for_score s st = (?st1, Inr (score_ops (px_db st) s r))"
    using assms(2) by (simp add: operations_for_score_def stm_simps score_ops_def)
  then have "enqueue_all now (operations_for_score s) st = (st', Inr 2)"
    using st'(1) by (simp add: enqueue_all_def stm_simps) (simp add: score_ops_def)
  moreover have "sent_upto st {sub_id s} st'" "px_tokens_sent st' = px_tokens_sent st" "sub_id s \<in> px_scores_sent st'"
    using st'(3) by (auto simp: same_proxy_def sent_upto_def)
  ultimately show ?thesis using st'(2) by blast
qed

lemma enqueue_token_ok:
  assumes "px_queued st T" "sub_token s = Some t"
  shows "\<exists>st'. enqueue_all now (operations_for_token s) st = (st', Inr 2) \<and> px_queued st' (T \<union> set (token_ops (px_db st) s t)) \<and>
    sent_upto st {sub_id s} st' \<and> sub_id s \<in> px_tokens_sent st'"
proof -
  let ?st1 = "st\<lparr>px_tokens_sent := insert (sub_id s) (px_tokens_sent st)\<rparr>"
  have "px_queued ?st1 T" using assms(1) by (simp add: px_queued_def)
  then obtain st' where st': "sforeach (token_ops (px_db st) s t) (px_enqueue now) ?st1 = (st', Inr ())"
      "px_queued st' (T \<union> set (token_ops (px_db st) s t))" "same_proxy ?st1 st'"
    using enqueue_list_ok by blast
  have "operations_for_token s st = (?st1, Inr (token_ops (px_db st) s t))"
    using assms(2) by (simp add: operations_for_token_def stm_simps token_ops_def)
  then have "enqueue_all now (operations_for_token s) st = (st', Inr 2)"
    using st'(1) by (simp add: enqueue_all_def stm_simps) (simp add: token_ops_def)
  moreover have "sent_upto st {sub_id s} st'" "sub_id s \<in> px_tokens_sent st'" using st'(3) by (auto simp: same_proxy_def sent_upto_def)
  ultimately show ?thesis using st'(2) by blast
qed

lemma missing_for_ok:
  assumes q: "px_queued st T" and r: "active_result (pd_db (px_db st)) s = Inr r"
    and new: "sub_id s \<notin> px_scores_sent st" "sub_id s \<notin> px_tokens_sent st"
  shows "\<exists>st' n'. missing_for now s n st = (st', Inr n') \<and> px_queued st' (T \<union> set (submission_ops (px_db st) s)) \<and> sent_upto st {sub_id s} st' \<and>
    px_covers st' (px_db st) s"
proof (cases r)
  case None
  then show ?thesis using q r same_proxy_sent_upto by (auto simp: missing_for_def stm_simps submission_ops_def px_covers_def)
next
  case (Some sr)
  let ?d = "px_db st" and ?so = "if sr_scored sr then score_ops (px_db st) s sr else []"
  have "\<exists>st1 a. (if sr_scored sr then enqueue_all now (operations_for_score s) else sret 0) st = (st1, Inr a) \<and>
      px_queued st1 (T \<union> set ?so) \<and> sent_upto st {sub_id s} st1 \<and> px_tokens_sent st1 = px_tokens_sent st \<and>
      (sr_scored sr \<longrightarrow> sub_id s \<in> px_scores_sent st1)"
  proof (cases "sr_scored sr")
    case True
    then show ?thesis using enqueue_score_ok[where now = now, OF q r[unfolded Some]] by auto
  next
    case False
    then show ?thesis using q by (auto simp: stm_simps sent_upto_def)
  qed
  then obtain st1 a where st1: "(if sr_scored sr then enqueue_all now (operations_for_score s) else sret 0) st = (st1, Inr a)"
      "px_queued st1 (T \<union> set ?so)" "sent_upto st {sub_id s} st1" "px_tokens_sent st1 = px_tokens_sent st"
      "sr_scored sr \<longrightarrow> sub_id s \<in> px_scores_sent st1" by blast
  have db1: "px_db st1 = ?d" using st1(3) by (simp add: sent_upto_def)
  let ?to = "case sub_token s of None \<Rightarrow> [] | Some t \<Rightarrow> token_ops ?d s t"
  have "\<exists>st2 b. (if sub_tokened s then enqueue_all now (operations_for_token s) else sret 0) st1 = (st2, Inr b) \<and>
      px_queued st2 (T \<union> set ?so \<union> set ?to) \<and> sent_upto st1 {sub_id s} st2 \<and> (sub_tokened s \<longrightarrow> sub_id s \<in> px_tokens_sent st2)"
  proof (cases "sub_token s")
    case None
    then show ?thesis using st1(2) by (auto simp: sub_tokened_def stm_simps sent_upto_def)
  next
    case (Some t)
    then show ?thesis using enqueue_token_ok[where now = now, OF st1(2) Some] by (auto simp: sub_tokened_def db1)
  qed
  then obtain st2 b where st2: "(if sub_tokened s then enqueue_all now (operations_for_token s) else sret 0) st1 = (st2, Inr b)"
      "px_queued st2 (T \<union> set ?so \<union> set ?to)" "sent_upto st1 {sub_id s} st2" "sub_tokened s \<longrightarrow> sub_id s \<in> px_tokens_sent st2" by blast
  have "missing_for now s n st = (st2, Inr (n + a + b))"
    using r Some st1(1,4) st2(1) new by (simp add: missing_for_def stm_simps del: if_split cong: if_cong)
  moreover have "set ?so \<union> set ?to = set (submission_ops ?d s)" using r Some by (simp add: submission_ops_def)
  moreover have "px_covers st2 ?d s" using st1(5) st2(3,4) r Some by (auto simp: px_covers_def sent_upto_def)
  ultimately show ?thesis using st2(2) sent_upto_trans[OF st1(3) st2(3)] by (metis Un_assoc Un_absorb)
qed

lemma missing_operations_ok:
  assumes q: "px_queued st T" and none: "px_scores_sent st = {}" "px_tokens_sent st = {}"
    and dist: "distinct (map sub_id (db_submissions (pd_db (px_db st))))"
  shows "\<exists>st' n. px_missing_operations now st = (st', Inr n) \<and>
    px_queued st' (T \<union> (\<Union>s\<in>set (visible_submissions (px_db st) (px_contest_id st)). set (submission_ops (px_db st) s))) \<and>
    sent_upto st UNIV st' \<and> (\<forall>s\<in>set (visible_submissions (px_db st) (px_contest_id st)). px_covers st' (px_db st) s)"
proof -
  let ?d = "px_db st" and ?vs = "visible_submissions (px_db st) (px_contest_id st)"
  let ?I = "\<lambda>pre n st'. px_queued st' (T \<union> (\<Union>s\<in>set pre. set (submission_ops ?d s))) \<and> sent_upto st (sub_id ` set pre) st' \<and>
    (\<forall>s\<in>set pre. px_covers st' ?d s)"
  have dv: "distinct (map sub_id ?vs)" unfolding visible_submissions_def using dist by (intro distinct_map_filter)
  have "\<exists>st' n. sfold ?vs (missing_for now) 0 st = (st', Inr n) \<and> ?I ?vs n st'"
  proof (rule sfold_rule[where I = ?I])
    show "?I [] 0 st" using q by (simp add: sent_upto_def)
    fix pre s post n st' assume vs: "?vs = pre @ s # post" and I: "?I pre n st'"
    have db: "px_db st' = ?d" using I by (simp add: sent_upto_def)
    have "s \<in> set ?vs" using vs by simp
    then obtain r where r: "active_result (pd_db (px_db st')) s = Inr r" using visible_active_result db by metis
    have "sub_id s \<notin> sub_id ` set pre" using dv unfolding vs by simp
    then have new: "sub_id s \<notin> px_scores_sent st'" "sub_id s \<notin> px_tokens_sent st'" using I none by (auto simp: sent_upto_def)
    obtain st'' n' where st'': "missing_for now s n st' = (st'', Inr n')" "sent_upto st' {sub_id s} st''" "px_covers st'' ?d s"
        "px_queued st'' (T \<union> (\<Union>s\<in>set pre. set (submission_ops ?d s)) \<union> set (submission_ops ?d s))"
      using missing_for_ok[OF conjunct1[OF I] r new] db by metis
    have "T \<union> (\<Union>s\<in>set pre. set (submission_ops ?d s)) \<union> set (submission_ops ?d s) = T \<union> (\<Union>s\<in>set (pre @ [s]). set (submission_ops ?d s))"
      by auto
    moreover have "sent_upto st (sub_id ` set (pre @ [s])) st''" using sent_upto_trans[OF conjunct1[OF conjunct2[OF I]] st''(2)] by simp
    moreover have "\<forall>s\<in>set (pre @ [s]). px_covers st'' ?d s" using I st''(2,3) px_covers_mono[OF _ st''(2)] by auto
    ultimately show "\<exists>st'' n'. missing_for now s n st' = (st'', Inr n') \<and> ?I (pre @ [s]) n' st''" using st'' by metis
  qed
  then obtain st' n where st': "sfold ?vs (missing_for now) 0 st = (st', Inr n)" "?I ?vs n st'" by blast
  have "px_missing_operations now st = (st', Inr n)"
    using st'(1) by (simp add: px_missing_operations_def get_submissions_def stm_simps visible_submissions_def)
  moreover have "sent_upto st UNIV st'" using st'(2) by (auto simp: sent_upto_def)
  ultimately show ?thesis using st'(2) by blast
qed

text \<open>When nothing is missing the sweep does nothing.\<close>

lemma missing_operations_covered:
  assumes "\<forall>s\<in>set (visible_submissions (px_db st) (px_contest_id st)). px_covers st (px_db st) s"
  shows "px_missing_operations now st = (st, Inr 0)"
proof -
  let ?vs = "visible_submissions (px_db st) (px_contest_id st)"
  have one: "missing_for now s n st = (st, Inr n)" if s: "s \<in> set ?vs" for s n
  proof -
    obtain r where r: "active_result (pd_db (px_db st)) s = Inr r" using visible_active_result[OF s] by blast
    have "px_covers st (px_db st) s" using assms s by blast
    then show ?thesis using r by (cases r) (auto simp: missing_for_def stm_simps px_covers_def)
  qed
  have "sfold vs (missing_for now) n st = (st, Inr n)" if "set vs \<subseteq> set ?vs" for vs n
    using that by (induction vs) (simp_all add: stm_simps one)
  from this[of ?vs 0] show ?thesis by (simp add: px_missing_operations_def get_submissions_def stm_simps visible_submissions_def)
qed

end
