(* ===== verification/Proxy_Sync.thy ===== *)
theory Proxy_Sync
  imports Proxy_Delivery
begin

text \<open>
  From the database to the ranking: what a proxy service that has just started sends to an empty ranking server.
\<close>

section \<open>The database\<close>

definition time_ok :: "datetime \<Rightarrow> bool" where
  "time_ok t \<longleftrightarrow> 10 ^ 9 \<le> seconds t \<and> seconds t < 10 ^ 10"

definition result_readable :: "submission_result \<Rightarrow> bool" where
  "result_readable r \<longleftrightarrow> (case sr_score r of None \<Rightarrow> True | Some x \<Rightarrow> 0 \<le> x) \<and>
     (case sr_ranking_score_details r of None \<Rightarrow> True | Some es \<Rightarrow> extra_ok es)"

text \<open>Constraints of the columns, and what the score types guarantee of results. The times have ten digits, as
  they have since 2001.\<close>

definition proxy_db_ok :: "proxy_db \<Rightarrow> int \<Rightarrow> bool" where
  "proxy_db_ok d cid \<longleftrightarrow>
     (case get_from_id ct_id (db_contests (pd_db d)) cid of None \<Rightarrow> False | Some c \<Rightarrow> ct_start c \<le> ct_stop c) \<and>
     cc_name (pd_contest d cid) \<noteq> [] \<and>
     list_all (\<lambda>p. pc_username (pd_participation d (part_id p)) \<noteq> [] \<and>
       (case pc_team (pd_participation d (part_id p)) of None \<Rightarrow> True | Some (code, _) \<Rightarrow> code \<noteq> [])) (db_participations (pd_db d)) \<and>
     list_all (\<lambda>t. tl_name (pd_task d (task_id t)) \<noteq> [] \<and> task_active_dataset_id t \<noteq> None) (db_tasks (pd_db d)) \<and>
     distinct (map sub_id (db_submissions (pd_db d))) \<and>
     list_all (\<lambda>s. 0 \<le> sub_id s \<and> time_ok (sub_timestamp s) \<and> (case sub_token s of None \<Rightarrow> True | Some t \<Rightarrow> time_ok t))
       (db_submissions (pd_db d)) \<and>
     list_all (\<lambda>r. sr_scored r \<longrightarrow> result_readable r) (db_submission_results (pd_db d))"

section \<open>Users and teams\<close>

lemma participations_sound:
  assumes "fold participation_data ps (us, ts) = (users, teams)"
  shows "(key, j) \<in> set users \<Longrightarrow> (key, j) \<in> set us \<or> (\<exists>p\<in>set ps. \<not> pc_hidden p \<and> key = encode_id (pc_username p) \<and> j = user_data p)"
    "(key, j) \<in> set teams \<Longrightarrow> (key, j) \<in> set ts \<or>
      (\<exists>p\<in>set ps. \<exists>code name. pc_team p = Some (code, name) \<and> key = encode_id code \<and> j = JDict [(''name'', JString name)])"
proof -
  have "((key, j) \<in> set users \<longrightarrow> (key, j) \<in> set us \<or> (\<exists>p\<in>set ps. \<not> pc_hidden p \<and> key = encode_id (pc_username p) \<and> j = user_data p)) \<and>
    ((key, j) \<in> set teams \<longrightarrow> (key, j) \<in> set ts \<or>
      (\<exists>p\<in>set ps. \<exists>code name. pc_team p = Some (code, name) \<and> key = encode_id code \<and> j = JDict [(''name'', JString name)]))"
    using assms
  proof (induction ps arbitrary: us ts)
    case (Cons p ps)
    obtain us' ts' where p: "participation_data p (us, ts) = (us', ts')" by fastforce
    have "set us' \<subseteq> insert (encode_id (pc_username p), user_data p) (set us)" "pc_hidden p \<Longrightarrow> us' = us"
      using p set_dict_set[of us] by (auto simp: participation_data_def split: if_splits)
    moreover have "set ts' \<subseteq> set ts \<or> (\<exists>code name. pc_team p = Some (code, name) \<and>
        set ts' \<subseteq> insert (encode_id code, JDict [(''name'', JString name)]) (set ts))"
      using p set_dict_set[of ts] by (auto simp: participation_data_def split: if_splits option.splits)
    ultimately show ?case using Cons.IH[of us' ts'] Cons.prems p by (fastforce split: if_splits)
  qed auto
  then show "(key, j) \<in> set users \<Longrightarrow> (key, j) \<in> set us \<or> (\<exists>p\<in>set ps. \<not> pc_hidden p \<and> key = encode_id (pc_username p) \<and> j = user_data p)"
    "(key, j) \<in> set teams \<Longrightarrow> (key, j) \<in> set ts \<or>
      (\<exists>p\<in>set ps. \<exists>code name. pc_team p = Some (code, name) \<and> key = encode_id code \<and> j = JDict [(''name'', JString name)])"
    by blast+
qed

lemma participations_complete:
  assumes "fold participation_data ps (us, ts) = (users, teams)"
  shows "(dict_has us x \<longrightarrow> dict_has users x) \<and> (dict_has ts y \<longrightarrow> dict_has teams y) \<and>
    (\<forall>p\<in>set ps. \<not> pc_hidden p \<longrightarrow> dict_has users (encode_id (pc_username p)) \<and>
      (\<forall>code name. pc_team p = Some (code, name) \<longrightarrow> dict_has teams (encode_id code)))"
  using assms
proof (induction ps arbitrary: us ts x y)
  case (Cons p ps)
  obtain us' ts' where p: "participation_data p (us, ts) = (us', ts')" by fastforce
  have mono: "dict_has us x \<Longrightarrow> dict_has us' x" "dict_has ts y \<Longrightarrow> dict_has ts' y" for x y
    using p by (auto simp: participation_data_def dict_has_set split: if_splits option.splits)
  have own: "\<not> pc_hidden p \<Longrightarrow> dict_has us' (encode_id (pc_username p))"
    "\<not> pc_hidden p \<Longrightarrow> pc_team p = Some (code, name) \<Longrightarrow> dict_has ts' (encode_id code)" for code name
    using p by (auto simp: participation_data_def dict_has_set split: if_splits option.splits)
  have IH: "(dict_has us' x \<longrightarrow> dict_has users x) \<and> (dict_has ts' y \<longrightarrow> dict_has teams y) \<and>
    (\<forall>p\<in>set ps. \<not> pc_hidden p \<longrightarrow> dict_has users (encode_id (pc_username p)) \<and>
      (\<forall>code name. pc_team p = Some (code, name) \<longrightarrow> dict_has teams (encode_id code)))" for x y
    by (rule Cons.IH) (use Cons.prems p in simp)
  show ?case using IH mono own by (auto 0 3)
qed simp

section \<open>The data of each type\<close>

lemma seconds_mono: "a \<le> b \<Longrightarrow> seconds a \<le> seconds b"
proof -
  assume "a \<le> b"
  have "a < 0 \<Longrightarrow> \<not> b < 0 \<Longrightarrow> - (- a div 1000000) \<le> b div 1000000"
    using pos_imp_zdiv_nonneg_iff[of 1000000 "- a"] pos_imp_zdiv_nonneg_iff[of 1000000 b] by linarith
  then show ?thesis using \<open>a \<le> b\<close> zdiv_mono1[of a b 1000000] zdiv_mono1[of "- b" "- a" 1000000] by (auto simp: seconds_def)
qed

lemmas set_defs = entity_set_def contest_set_def task_set_def team_set_def user_set_def submission_set_def subchange_set_def json_defs

lemma contest_data_set:
  "ct_start c \<le> ct_stop c \<Longrightarrow> \<exists>e. entity_set K_contest (contest_data d c) = Inr (E_contest e)"
  by (simp add: contest_data_def set_defs seconds_mono)

lemma score_mode_name_ok: "mode_ok (score_mode_name m)"
  by (cases m) (simp_all add: score_mode_name_def mode_ok_def)

lemma task_data_set:
  "task_data d c t = Inr (key, j) \<Longrightarrow> \<exists>e. entity_set K_task j = Inr (E_task e) \<and> mode_ok (te_score_mode e) \<and>
     te_contest e = encode_id (cc_name (pd_contest d (ct_id c))) \<and> key = encode_id (tl_name (pd_task d (task_id t)))"
  by (auto simp: task_data_def Let_def set_defs score_mode_name_ok split: option.splits prod.splits)

lemma team_data_set: "entity_set K_team (JDict [(''name'', JString name)]) = Inr (E_team name)"
  by (simp add: set_defs)

lemma user_data_set:
  "\<exists>e. entity_set K_user (user_data p) = Inr (E_user e) \<and> ue_team e = map_option (encode_id \<circ> fst) (pc_team p)"
  by (auto simp: user_data_def set_defs split: option.split)

lemma submission_data_set:
  "entity_set K_submission (submission_data d s) =
     Inr (E_submission \<lparr>se_user = encode_id (pc_username (pd_participation d (sub_participation_id s))),
       se_task = encode_id (tl_name (pd_task d (sub_task_id s))), se_time = seconds (sub_timestamp s)\<rparr>)"
  by (simp add: submission_data_def set_defs)

lemma score_change_set:
  assumes "sr_scored r" "result_readable r"
  shows "\<exists>e. entity_set K_subchange (score_change_data s (Some r)) = Inr (E_subchange e) \<and> change_ok (entity_subchange [] e) \<and>
    he_submission e = show_int (sub_id s) \<and> he_time e = seconds (sub_timestamp s) \<and> he_score e = sr_score r"
proof -
  obtain x es where r: "sr_score r = Some x" "sr_ranking_score_details r = Some es" using assms(1) by (auto simp: sr_scored_def sr_has_score_def)
  show ?thesis using assms r
    by (simp add: score_change_data_def set_defs change_ok_def entity_subchange_def result_readable_def)
qed

lemma token_change_set:
  "\<exists>e. entity_set K_subchange (token_change_data s t) = Inr (E_subchange e) \<and> change_ok (entity_subchange [] e) \<and>
    he_submission e = show_int (sub_id s) \<and> he_token e = Some True"
  by (simp add: token_change_data_def set_defs change_ok_def entity_subchange_def)

section \<open>The batch\<close>

text \<open>An item that is good, given the data it is sent with.\<close>

definition good_item :: "(nat \<times> (string, json_value) dict) set \<Rightarrow> store_kind \<Rightarrow> string \<Rightarrow> json_value \<Rightarrow> bool" where
  "good_item T k key j \<longleftrightarrow> key \<noteq> [] \<and> word_char (hd key) \<and>
     (\<exists>e. entity_set k j = Inr e \<and> entity_good e \<and> (\<forall>(j', x)\<in>set (refs e). \<exists>d. (type_of j', d) \<in> T \<and> x \<in> fst ` set d))"

lemma batch_good_items:
  assumes "op_pair ` set ops = T" "\<And>k. rk_store st k = []" "\<And>k d key j. (type_of k, d) \<in> T \<Longrightarrow> (key, j) \<in> set d \<Longrightarrow> good_item T k key j"
  shows "batch_good st (merge_data ops)"
  unfolding batch_good_def
proof (intro allI conjI ballI, rule merge_data_ok, clarify)
  fix k key j assume "(key, j) \<in> set (merge_data ops (type_of k))"
  then have "map_of (merge_data ops (type_of k)) key = Some j" using merge_data_ok[of ops "type_of k"] by (simp add: dict_ok_def)
  then obtain d where "(type_of k, d) \<in> T" "(key, j) \<in> set d" using merge_pairs(1)[OF assms(1)] by blast
  then have "good_item T k key j" by (rule assms(3))
  then obtain e where "key \<noteq> []" "word_char (hd key)" "entity_set k j = Inr e" "entity_good e"
      "\<forall>(j', x)\<in>set (refs e). \<exists>d. (type_of j', d) \<in> T \<and> x \<in> fst ` set d" unfolding good_item_def by blast
  then show "key \<noteq> [] \<and> word_char (hd key) \<and> (\<exists>e. entity_set k j = Inr e \<and> entity_good e \<and>
      (\<forall>old_e. map_of (rk_store st k) key = Some old_e \<longrightarrow> compatible old_e e) \<and>
      (\<forall>(j', x)\<in>set (refs e). dict_has (rk_store st j') x \<or> dict_has (merge_data ops (type_of j')) x))"
    unfolding merge_pairs(2)[OF assms(1)] by (intro conjI exI[of _ e]) (auto simp: assms(2))
qed

lemma word_hd: "list_all word_char key \<Longrightarrow> key \<noteq> [] \<Longrightarrow> word_char (hd key)"
  by (cases key) auto

lemma encoded_key: "s \<noteq> [] \<Longrightarrow> encode_id s \<noteq> [] \<and> word_char (hd (encode_id s))"
  using encode_id_nonempty encode_id_word word_hd by blast

lemma int_key: "0 \<le> n \<Longrightarrow> show_int n @ x \<noteq> [] \<and> word_char (hd (show_int n @ x))"
  using show_int_word[of n] word_hd[of "show_int n"] by simp

text \<open>Everything the service sends for a contest.\<close>

definition sent_pairs :: "proxy_db \<Rightarrow> int \<Rightarrow> (nat \<times> (string, json_value) dict) set" where
  "sent_pairs d cid =
     (case initial_operations d cid of Inl _ \<Rightarrow> {} | Inr ops \<Rightarrow> set ops) \<union> (\<Union>s\<in>set (visible_submissions d cid). set (submission_ops d s))"

lemma res_map_values: "(\<And>x. x \<in> set xs \<Longrightarrow> \<exists>y. f x = Inr y) \<Longrightarrow> \<exists>ys. res_map f xs = Inr ys \<and> (\<forall>y. y \<in> set ys \<longleftrightarrow> (\<exists>x\<in>set xs. f x = Inr y))"
proof (induction xs)
  case (Cons x xs)
  obtain y where y: "f x = Inr y" using Cons.prems by auto
  obtain ys where "res_map f xs = Inr ys" "\<And>y. y \<in> set ys \<longleftrightarrow> (\<exists>x\<in>set xs. f x = Inr y)" using Cons by auto
  then show ?case using y by auto
qed simp

lemma initial_pairs:
  assumes "proxy_db_ok d cid"
  obtains c teams users tasks where
    "initial_operations d cid = Inr [(0, [(encode_id (cc_name (pd_contest d cid)), contest_data d c)]), (2, teams), (3, users), (1, tasks)]"
    "ct_start c \<le> ct_stop c"
    "\<And>key j. (key, j) \<in> set users \<Longrightarrow> \<exists>p\<in>set (contest_participations d cid). \<not> pc_hidden p \<and> key = encode_id (pc_username p) \<and> j = user_data p"
    "\<And>key j. (key, j) \<in> set teams \<Longrightarrow> \<exists>p\<in>set (contest_participations d cid). \<exists>code name. pc_team p = Some (code, name) \<and> key = encode_id code \<and> j = JDict [(''name'', JString name)]"
    "\<And>p. p \<in> set (contest_participations d cid) \<Longrightarrow> \<not> pc_hidden p \<Longrightarrow> encode_id (pc_username p) \<in> fst ` set users"
    "\<And>p code name. p \<in> set (contest_participations d cid) \<Longrightarrow> \<not> pc_hidden p \<Longrightarrow> pc_team p = Some (code, name) \<Longrightarrow> encode_id code \<in> fst ` set teams"
    "\<And>key j. (key, j) \<in> set tasks \<Longrightarrow> \<exists>t\<in>set (contest_tasks d cid). task_data d c t = Inr (key, j)"
    "\<And>t. t \<in> set (contest_tasks d cid) \<Longrightarrow> encode_id (tl_name (pd_task d (task_id t))) \<in> fst ` set tasks"
    "ct_id c = cid"
proof -
  obtain c where c: "get_from_id ct_id (db_contests (pd_db d)) cid = Some c" "ct_start c \<le> ct_stop c" "ct_id c = cid"
    using assms by (auto simp: proxy_db_ok_def split: option.splits dest: get_from_id_Some)
  obtain users teams where ut: "fold participation_data (contest_participations d cid) ([], []) = (users, teams)" by fastforce
  have key: "\<exists>y. task_data d c t = Inr y \<and> fst y = encode_id (tl_name (pd_task d (task_id t)))" if "t \<in> set (contest_tasks d cid)" for t
    using that assms by (auto simp: contest_tasks_def proxy_db_ok_def list_all_iff task_data_def Let_def split: prod.split)
  obtain ts where ts: "res_map (task_data d c) (contest_tasks d cid) = Inr ts" "\<And>y. y \<in> set ts \<longleftrightarrow> (\<exists>t\<in>set (contest_tasks d cid). task_data d c t = Inr y)"
    using res_map_values[of "contest_tasks d cid" "task_data d c"] key by blast
  have has: "dict_has d x \<longleftrightarrow> x \<in> fst ` set d" for d :: "(string, json_value) dict" and x
    by (simp add: dict_has_iff dom_map_of_conv_image_fst)
  note complete = participations_complete[OF ut, THEN conjunct2, THEN conjunct2, rule_format]
  show thesis
  proof (rule that[of c teams users "dict_update [] ts"])
    show "initial_operations d cid = Inr [(0, [(encode_id (cc_name (pd_contest d cid)), contest_data d c)]), (2, teams), (3, users), (1, dict_update [] ts)]"
      using c ut ts(1) by (simp add: initial_operations_def)
    fix key j assume "(key, j) \<in> set (dict_update [] ts)"
    then have "map_of (dict_update [] ts) key = Some j" using dict_update_ok[of "[]" ts] by (simp add: dict_ok_def)
    then show "\<exists>t\<in>set (contest_tasks d cid). task_data d c t = Inr (key, j)" using dict_update_from ts(2) by fastforce
  next
    fix t assume t: "t \<in> set (contest_tasks d cid)"
    obtain y where y: "task_data d c t = Inr y" "fst y = encode_id (tl_name (pd_task d (task_id t)))" using key[OF t] by blast
    then have "fst y \<in> fst ` set ts" using ts(2) t by blast
    then have "dict_has (dict_update [] ts) (fst y)" by (simp add: dict_update_has)
    then show "encode_id (tl_name (pd_task d (task_id t))) \<in> fst ` set (dict_update [] ts)" using y(2) has by simp
  qed (use c participations_sound[OF ut] complete has in auto)
qed

lemma sent_pairsE:
  assumes "(type_of k, dd) \<in> sent_pairs d cid" "(key, j) \<in> set dd"
  obtains ops where "initial_operations d cid = Inr ops" "(type_of k, dd) \<in> set ops"
  | s r where "s \<in> set (visible_submissions d cid)" "active_result (pd_db d) s = Inr (Some r)" "k = K_submission" "key = show_int (sub_id s)" "j = submission_data d s"
  | s r where "s \<in> set (visible_submissions d cid)" "active_result (pd_db d) s = Inr (Some r)" "sr_scored r" "k = K_subchange" "key = score_change_key s" "j = score_change_data s (Some r)"
  | s r t where "s \<in> set (visible_submissions d cid)" "active_result (pd_db d) s = Inr (Some r)" "sub_token s = Some t" "k = K_subchange" "key = token_change_key s t" "j = token_change_data s t"
proof -
  have kind: "type_of k = 4 \<longleftrightarrow> k = K_submission" "type_of k = 5 \<longleftrightarrow> k = K_subchange" by (cases k; simp)+
  consider ops where "initial_operations d cid = Inr ops" "(type_of k, dd) \<in> set ops"
    | s where "s \<in> set (visible_submissions d cid)" "(type_of k, dd) \<in> set (submission_ops d s)"
    using assms(1) by (auto simp: sent_pairs_def split: sum.splits)
  then show thesis
  proof cases
    case 2
    then obtain r where r: "active_result (pd_db d) s = Inr (Some r)"
      by (cases "active_result (pd_db d) s" rule: sum.exhaust; cases "\<exists>r. active_result (pd_db d) s = Inr (Some r)")
        (auto simp: submission_ops_def split: option.splits)
    then show thesis using 2 assms(2) that(2-4)
      by (cases "sub_token s") (auto simp: submission_ops_def score_ops_def token_ops_def kind split: if_splits)
  qed (rule that(1))
qed

lemma sent_submission_item:
  assumes "s \<in> set (visible_submissions d cid)" "active_result (pd_db d) s = Inr (Some r)" "sr_scored r \<or> sub_tokened s"
  shows "\<exists>dd. (4, dd) \<in> sent_pairs d cid \<and> show_int (sub_id s) \<in> fst ` set dd"
proof -
  have "(4, [(show_int (sub_id s), submission_data d s)]) \<in> set (submission_ops d s)"
    using assms(2,3) by (auto simp: submission_ops_def score_ops_def token_ops_def sub_tokened_def split: option.split)
  then show ?thesis using assms(1) unfolding sent_pairs_def by (intro exI conjI) (rule UnI2, rule UN_I, assumption+, simp)
qed

lemma submission_row:
  assumes "proxy_db_ok d cid" "s \<in> set (visible_submissions d cid)"
  shows "0 \<le> sub_id s" "time_ok (sub_timestamp s)" "sub_token s = Some t \<Longrightarrow> time_ok t" "in_contest (pd_db d) cid s"
    "\<not> submission_hidden d s" "s \<in> set (db_submissions (pd_db d))"
  using assms unfolding proxy_db_ok_def list_all_iff visible_submissions_def by auto

lemma submission_parents:
  assumes "s \<in> set (visible_submissions d cid)"
  shows "pd_participation d (sub_participation_id s) \<in> set (contest_participations d cid)"
    "\<not> pc_hidden (pd_participation d (sub_participation_id s))"
    "\<exists>t\<in>set (contest_tasks d cid). task_id t = sub_task_id s"
  using assms unfolding visible_submissions_def in_contest_def contest_participations_def contest_tasks_def submission_hidden_def
  by (auto simp: image_iff)

lemma active_result_row: "active_result d s = Inr (Some r) \<Longrightarrow> r \<in> set (db_submission_results d)"
  by (auto simp: active_result_def split: option.splits dest: get_from_id_Some)

lemma sent_submission_good:
  assumes ok: "proxy_db_ok d cid" and s: "s \<in> set (visible_submissions d cid)"
  shows "good_item (sent_pairs d cid) K_submission (show_int (sub_id s)) (submission_data d s)"
proof -
  let ?p = "pd_participation d (sub_participation_id s)" and ?T = "sent_pairs d cid"
  obtain c teams users tasks where i: "initial_operations d cid =
      Inr [(0, [(encode_id (cc_name (pd_contest d cid)), contest_data d c)]), (2, teams), (3, users), (1, tasks)]"
    "\<And>p. p \<in> set (contest_participations d cid) \<Longrightarrow> \<not> pc_hidden p \<Longrightarrow> encode_id (pc_username p) \<in> fst ` set users"
    "\<And>t. t \<in> set (contest_tasks d cid) \<Longrightarrow> encode_id (tl_name (pd_task d (task_id t))) \<in> fst ` set tasks"
    by (rule initial_pairs[OF ok], rule that)
  have T: "(3, users) \<in> ?T" "(1, tasks) \<in> ?T" by (simp_all add: sent_pairs_def i(1))
  have "encode_id (pc_username ?p) \<in> fst ` set users" by (rule i(2)) (rule submission_parents[OF s])+
  moreover have "encode_id (tl_name (pd_task d (sub_task_id s))) \<in> fst ` set tasks" using submission_parents(3)[OF s] i(3) by metis
  ultimately show ?thesis
    using T int_key[of "sub_id s" "[]"] submission_row(1)[OF ok s] unfolding good_item_def submission_data_set by auto
qed

lemma sent_change_good:
  assumes ok: "proxy_db_ok d cid" and s: "s \<in> set (visible_submissions d cid)" "active_result (pd_db d) s = Inr (Some r)"
  shows "sr_scored r \<Longrightarrow> good_item (sent_pairs d cid) K_subchange (score_change_key s) (score_change_data s (Some r))"
    "sub_token s = Some t \<Longrightarrow> good_item (sent_pairs d cid) K_subchange (token_change_key s t) (token_change_data s t)"
proof -
  note row = submission_row[OF ok s(1)]
  have readable: "sr_scored r \<Longrightarrow> result_readable r"
    using ok active_result_row[OF s(2)] unfolding proxy_db_ok_def list_all_iff by blast
  have pos: "time_ok x \<Longrightarrow> 0 \<le> seconds x" for x by (simp add: time_ok_def)
  show "good_item (sent_pairs d cid) K_subchange (score_change_key s) (score_change_data s (Some r))" if sc: "sr_scored r"
  proof -
    obtain e where e: "entity_set K_subchange (score_change_data s (Some r)) = Inr (E_subchange e)" "change_ok (entity_subchange [] e)"
        "he_submission e = show_int (sub_id s)"
      using score_change_set[OF sc readable[OF sc], of s] by blast
    show ?thesis using sent_submission_item[OF s] sc int_key[OF pos[OF row(2)], of "show_int (sub_id s) @ ''s''"]
      unfolding good_item_def score_change_key_def e(1) by (auto simp: e(2,3))
  qed
  show "good_item (sent_pairs d cid) K_subchange (token_change_key s t) (token_change_data s t)" if tk: "sub_token s = Some t"
  proof -
    obtain e where e: "entity_set K_subchange (token_change_data s t) = Inr (E_subchange e)" "change_ok (entity_subchange [] e)"
        "he_submission e = show_int (sub_id s)"
      using token_change_set[of s t] by blast
    show ?thesis using sent_submission_item[OF s] tk int_key[OF pos[OF row(3)[OF tk]], of "show_int (sub_id s) @ ''t''"]
      unfolding good_item_def token_change_key_def e(1) by (auto simp: e(2,3) sub_tokened_def)
  qed
qed

lemma sent_initial_good:
  assumes ok: "proxy_db_ok d cid" and ops: "initial_operations d cid = Inr ops" "(type_of k, dd) \<in> set ops" "(key, j) \<in> set dd"
  shows "good_item (sent_pairs d cid) k key j"
proof -
  let ?T = "sent_pairs d cid" and ?ckey = "encode_id (cc_name (pd_contest d cid))"
  obtain c teams users tasks where i: "initial_operations d cid = Inr [(0, [(?ckey, contest_data d c)]), (2, teams), (3, users), (1, tasks)]"
    "ct_start c \<le> ct_stop c"
    "\<And>key j. (key, j) \<in> set users \<Longrightarrow> \<exists>p\<in>set (contest_participations d cid). \<not> pc_hidden p \<and> key = encode_id (pc_username p) \<and> j = user_data p"
    "\<And>key j. (key, j) \<in> set teams \<Longrightarrow> \<exists>p\<in>set (contest_participations d cid). \<exists>code name. pc_team p = Some (code, name) \<and> key = encode_id code \<and> j = JDict [(''name'', JString name)]"
    "\<And>p code name. p \<in> set (contest_participations d cid) \<Longrightarrow> \<not> pc_hidden p \<Longrightarrow> pc_team p = Some (code, name) \<Longrightarrow> encode_id code \<in> fst ` set teams"
    "\<And>key j. (key, j) \<in> set tasks \<Longrightarrow> \<exists>t\<in>set (contest_tasks d cid). task_data d c t = Inr (key, j)"
    "ct_id c = cid"
    by (rule initial_pairs[OF ok], rule that)
  have T: "(0, [(?ckey, contest_data d c)]) \<in> ?T" "(2, teams) \<in> ?T" by (simp_all add: sent_pairs_def i(1))
  have names: "cc_name (pd_contest d cid) \<noteq> []"
    "\<And>p. p \<in> set (contest_participations d cid) \<Longrightarrow> pc_username p \<noteq> []"
    "\<And>p code name. p \<in> set (contest_participations d cid) \<Longrightarrow> pc_team p = Some (code, name) \<Longrightarrow> code \<noteq> []"
    "\<And>t. t \<in> set (contest_tasks d cid) \<Longrightarrow> tl_name (pd_task d (task_id t)) \<noteq> []"
    using ok unfolding proxy_db_ok_def list_all_iff contest_participations_def contest_tasks_def by (auto split: option.splits)
  consider "k = K_contest" "dd = [(?ckey, contest_data d c)]" | "k = K_team" "dd = teams" | "k = K_user" "dd = users" | "k = K_task" "dd = tasks"
    using ops(1,2) i(1) by (cases k) auto
  then show ?thesis
  proof cases
    case 1
    obtain e where "entity_set K_contest (contest_data d c) = Inr (E_contest e)" using contest_data_set[OF i(2)] by blast
    then show ?thesis using 1 ops(3) encoded_key[OF names(1)] by (simp add: good_item_def)
  next
    case 2
    then obtain p code name where p: "p \<in> set (contest_participations d cid)" "pc_team p = Some (code, name)" "key = encode_id code" "j = JDict [(''name'', JString name)]"
      using i(4) ops(3) by blast
    show ?thesis using encoded_key[OF names(3)[OF p(1,2)]] team_data_set[of name] by (simp add: good_item_def 2(1) p(3,4))
  next
    case 3
    then obtain p where p: "p \<in> set (contest_participations d cid)" "\<not> pc_hidden p" "key = encode_id (pc_username p)" "j = user_data p"
      using i(3) ops(3) by blast
    obtain e where e: "entity_set K_user (user_data p) = Inr (E_user e)" "ue_team e = map_option (encode_id \<circ> fst) (pc_team p)"
      using user_data_set by blast
    have "\<forall>(j', x)\<in>set (refs (E_user e)). \<exists>d. (type_of j', d) \<in> ?T \<and> x \<in> fst ` set d"
      using e(2) i(5)[OF p(1,2)] T(2) by (cases "pc_team p") auto
    then show ?thesis using encoded_key[OF names(2)[OF p(1)]] e(1) by (simp add: good_item_def 3(1) p(3,4) del: refs.simps)
  next
    case 4
    then obtain t where t: "t \<in> set (contest_tasks d cid)" "task_data d c t = Inr (key, j)" using i(6) ops(3) by blast
    obtain e where "entity_set K_task j = Inr (E_task e)" "mode_ok (te_score_mode e)" "te_contest e = ?ckey" "key = encode_id (tl_name (pd_task d (task_id t)))"
      using task_data_set[OF t(2)] i(7) by blast
    then show ?thesis using encoded_key[OF names(4)[OF t(1)]] T(1) unfolding good_item_def 4(1) by fastforce
  qed
qed

lemma sent_good:
  assumes "proxy_db_ok d cid" "(type_of k, dd) \<in> sent_pairs d cid" "(key, j) \<in> set dd"
  shows "good_item (sent_pairs d cid) k key j"
  using assms(2,3)
proof (cases rule: sent_pairsE)
  case 1
  then show ?thesis using sent_initial_good[OF assms(1) _ _ assms(3)] by blast
next
  case (2 s r)
  then show ?thesis using sent_submission_good[OF assms(1)] by simp
next
  case (3 s r)
  then show ?thesis using sent_change_good(1)[OF assms(1)] by simp
next
  case (4 s r t)
  then show ?thesis using sent_change_good(2)[OF assms(1)] by simp
qed

section \<open>Keys of changes\<close>

lemma show_seconds_length: "time_ok t \<Longrightarrow> length (show_int (seconds t)) = 10"
proof -
  assume t: "time_ok t"
  then have b: "10 ^ 9 \<le> nat (seconds t)" "nat (seconds t) < 10 ^ Suc 9" "\<not> seconds t < 0" by (auto simp: time_ok_def)
  show ?thesis using show_base_length[OF b(1,2)] b(3) by (simp add: show_int_def)
qed

lemma change_key_id:
  assumes "show_int (seconds t) @ show_int a @ x = show_int (seconds t') @ show_int b @ x'"
    "time_ok t" "time_ok t'" "0 \<le> a" "0 \<le> b" "length x = length x'"
  shows "a = b \<and> x = x'"
proof -
  have "show_int a @ x = show_int b @ x'" using assms(1) show_seconds_length[OF assms(2)] show_seconds_length[OF assms(3)] by simp
  then have "show_int a = show_int b" "x = x'" using assms(6) by simp_all
  then show ?thesis using show_int_inj[OF assms(4,5)] by simp
qed

lemma same_submission:
  assumes "proxy_db_ok d cid" "s \<in> set (visible_submissions d cid)" "s' \<in> set (visible_submissions d cid)" "sub_id s = sub_id s'"
  shows "s = s'"
proof -
  have "distinct (map sub_id (db_submissions (pd_db d)))" using assms(1) by (simp add: proxy_db_ok_def)
  then show ?thesis using submission_row(6)[OF assms(1,2)] submission_row(6)[OF assms(1,3)] assms(4) by (metis get_from_id_unique option.inject)
qed

lemma initial_types: "initial_operations d cid = Inr ops \<Longrightarrow> (i, dd) \<in> set ops \<Longrightarrow> i < 4"
  by (auto simp: initial_operations_def res_simps split: option.splits prod.splits sum.splits)

text \<open>What is sent under the key of a submission, or of a change, is the data of that submission.\<close>

lemma sent_submission_unique:
  assumes ok: "proxy_db_ok d cid" and s: "s \<in> set (visible_submissions d cid)"
    and dd: "(4, dd) \<in> sent_pairs d cid" "(show_int (sub_id s), j) \<in> set dd"
  shows "j = submission_data d s"
proof -
  have "(type_of K_submission, dd) \<in> sent_pairs d cid" using dd(1) by simp
  then show ?thesis
  proof (rule sent_pairsE[OF _ dd(2)])
    fix s' assume s': "s' \<in> set (visible_submissions d cid)" "show_int (sub_id s) = show_int (sub_id s')" "j = submission_data d s'"
    then have "sub_id s = sub_id s'" using show_int_inj submission_row(1)[OF ok s] submission_row(1)[OF ok s'(1)] by blast
    then show ?thesis using same_submission[OF ok s s'(1)] s'(3) by simp
  next
    fix ops assume "initial_operations d cid = Inr ops" "(type_of K_submission, dd) \<in> set ops"
    then show ?thesis using initial_types by fastforce
  qed simp_all
qed

lemma change_keys:
  assumes ok: "proxy_db_ok d cid" and s: "s \<in> set (visible_submissions d cid)" and s': "s' \<in> set (visible_submissions d cid)"
  shows "score_change_key s = score_change_key s' \<Longrightarrow> s = s'"
    "sub_token s' = Some t \<Longrightarrow> score_change_key s \<noteq> token_change_key s' t"
    "sub_token s = Some t \<Longrightarrow> sub_token s' = Some t' \<Longrightarrow> token_change_key s t = token_change_key s' t' \<Longrightarrow> s = s'"
proof -
  note r = submission_row[OF ok s] and r' = submission_row[OF ok s'] and k = score_change_key_def token_change_key_def
  show "s = s'" if "score_change_key s = score_change_key s'"
    using change_key_id[OF that[unfolded k] r(2) r'(2) r(1) r'(1)] same_submission[OF assms] by simp
  show "score_change_key s \<noteq> token_change_key s' t" if t: "sub_token s' = Some t"
  proof
    assume a: "score_change_key s = token_change_key s' t"
    show False using change_key_id[OF a[unfolded k] r(2) r'(3)[OF t] r(1) r'(1)] by simp
  qed
  show "s = s'" if "sub_token s = Some t" "sub_token s' = Some t'" and a: "token_change_key s t = token_change_key s' t'"
    using change_key_id[OF a[unfolded k] r(3)[OF that(1)] r'(3)[OF that(2)] r(1) r'(1)] same_submission[OF assms] by simp
qed

lemma sent_score_unique:
  assumes ok: "proxy_db_ok d cid" and s: "s \<in> set (visible_submissions d cid)" "active_result (pd_db d) s = Inr (Some r)"
    and dd: "(5, dd) \<in> sent_pairs d cid" "(score_change_key s, j) \<in> set dd"
  shows "j = score_change_data s (Some r)"
proof -
  have "(type_of K_subchange, dd) \<in> sent_pairs d cid" using dd(1) by simp
  then show ?thesis
  proof (rule sent_pairsE[OF _ dd(2)])
    fix ops assume "initial_operations d cid = Inr ops" "(type_of K_subchange, dd) \<in> set ops"
    then show ?thesis using initial_types by fastforce
  next
    fix s' r' assume s': "s' \<in> set (visible_submissions d cid)" "active_result (pd_db d) s' = Inr (Some r')"
      "score_change_key s = score_change_key s'" "j = score_change_data s' (Some r')"
    have "s = s'" by (rule change_keys(1)[OF ok s(1) s'(1,3)])
    then show ?thesis using s'(2,4) s(2) by simp
  next
    fix s' t assume "s' \<in> set (visible_submissions d cid)" "sub_token s' = Some t" "score_change_key s = token_change_key s' t"
    then show ?thesis using change_keys(2)[OF ok s(1)] by blast
  qed simp_all
qed

lemma sent_token_unique:
  assumes ok: "proxy_db_ok d cid" and s: "s \<in> set (visible_submissions d cid)" "sub_token s = Some t"
    and dd: "(5, dd) \<in> sent_pairs d cid" "(token_change_key s t, j) \<in> set dd"
  shows "j = token_change_data s t"
proof -
  have "(type_of K_subchange, dd) \<in> sent_pairs d cid" using dd(1) by simp
  then show ?thesis
  proof (rule sent_pairsE[OF _ dd(2)])
    fix ops assume "initial_operations d cid = Inr ops" "(type_of K_subchange, dd) \<in> set ops"
    then show ?thesis using initial_types by fastforce
  next
    fix s' r' assume "s' \<in> set (visible_submissions d cid)" "token_change_key s t = score_change_key s'"
    then show ?thesis using change_keys(2)[OF ok _ s(1,2)] by metis
  next
    fix s' t' assume s': "s' \<in> set (visible_submissions d cid)" "sub_token s' = Some t'" "token_change_key s t = token_change_key s' t'" "j = token_change_data s' t'"
    have "s = s'" by (rule change_keys(3)[OF ok s(1) s'(1) s(2) s'(2,3)])
    then show ?thesis using s'(2,4) s(2) by simp
  qed simp_all
qed

section \<open>From the start of the service to the ranking\<close>

lemma px_start:
  assumes ok: "proxy_db_ok d cid"
  shows "\<exists>px1 px2 m. px_init now d cid n = (px1, Inr ()) \<and> px_missing_operations now px1 = (px2, Inr m) \<and>
    px_queued px2 (sent_pairs d cid) \<and> length (ts_executors (px_service px2)) = n \<and>
    px_db px2 = d \<and> px_contest_id px2 = cid \<and> (\<forall>s\<in>set (visible_submissions d cid). px_covers px2 d s)"
proof -
  let ?st = "\<lparr>px_contest_id = cid, px_db = d, px_service = fold (\<lambda>_ ts. add_executor ts (executor_init True)) [0..<n] triggered_service_init,
    px_serial = 0, px_scores_sent = {}, px_tokens_sent = {}\<rparr>"
  have exs: "ts_executors (fold (\<lambda>_ ts. add_executor ts (executor_init True)) xs ts) = ts_executors ts @ replicate (length xs) (executor_init True)"
    for xs :: "nat list" and ts :: "proxy_operation triggered_service"
    by (induction xs arbitrary: ts) (simp_all add: add_executor_def replicate_append_same)
  have e0: "ts_executors (px_service ?st) = replicate n (executor_init True)" by (simp add: exs) (simp add: triggered_service_init_def)
  have "ex_content (executor_init True :: proxy_operation executor) = Map.empty" "ex_batch_executions (executor_init True :: proxy_operation executor)"
    by (simp_all add: pq_map_empty_iff executor_init_def pq_init_def)
  then have none: "px_queued ?st {}" unfolding px_queued_def e0 by (simp add: ex_invar_init)
  obtain ops where ops: "initial_operations d cid = Inr ops" by (rule initial_pairs[OF ok])
  obtain px1 where px1: "sforeach ops (px_enqueue now) ?st = (px1, Inr ())" "px_queued px1 (set ops)" "same_proxy ?st px1"
    using enqueue_list_ok[OF none, of ops now] by auto
  have "px_init now d cid n = (px1, Inr ())" using px1(1) ops by (simp add: px_init_def px_initialize_def stm_simps)
  moreover have p: "px_db px1 = d" "px_contest_id px1 = cid" "px_scores_sent px1 = {}" "px_tokens_sent px1 = {}"
    "length (ts_executors (px_service px1)) = n"
    using px1(3) e0 by (simp_all add: same_proxy_def)
  moreover have "distinct (map sub_id (db_submissions (pd_db (px_db px1))))" using ok by (simp add: p(1) proxy_db_ok_def)
  then obtain px2 m where "px_missing_operations now px1 = (px2, Inr m)" "sent_upto px1 UNIV px2"
      "px_queued px2 (set ops \<union> (\<Union>s\<in>set (visible_submissions d cid). set (submission_ops d s)))"
      "\<forall>s\<in>set (visible_submissions d cid). px_covers px2 d s"
    using missing_operations_ok[OF px1(2) p(3,4), of now] unfolding p by blast
  ultimately show ?thesis using ops unfolding sent_pairs_def sent_upto_def by auto
qed

lemma extract_all:
  assumes "px_queued px T" "T \<noteq> {}" "ex \<in> set (ts_executors (px_service px))"
  shows "\<exists>es ex'. run_extract (\<lambda>_. 0) ex = Some (Inr (es, ex')) \<and> ex_content ex' = Map.empty \<and> op_pair ` set (map qe_item es) = T"
proof -
  have q: "ex_invar ex" "ex_batch_executions ex" "op_pair ` dom (ex_content ex) = T" using assms(1,3) by (simp_all add: px_queued_def)
  then have "ex_content ex \<noteq> Map.empty" using assms(2) by auto
  then obtain es ex' where es: "run_extract (\<lambda>_. 0) ex = Some (Inr (es, ex'))" "es \<noteq> []"
      "pops (\<lambda>ex. ex_pop ex False) ex es ex'" "ex_content ex' = Map.empty"
    using run_extract_batch[OF q(1) _ q(2), of "\<lambda>_. 0" 0] by auto
  have c: "ex_content ex' = ex_content ex |` (- qe_item ` set es)" and sub: "qe_item ` set es \<subseteq> dom (ex_content ex)"
    using executor_queue.pops_content[OF q(1) es(3)] by auto
  have "dom (ex_content ex) \<subseteq> qe_item ` set es"
  proof
    fix i assume i: "i \<in> dom (ex_content ex)"
    show "i \<in> qe_item ` set es" using fun_cong[OF c, of i] i es(4) by (auto simp: restrict_map_def split: if_splits)
  qed
  then have "set (map qe_item es) = dom (ex_content ex)" using sub by auto
  then show ?thesis using es(1,4) q(3) by auto
qed

text \<open>The entities of a submission on the ranking.\<close>

definition ranking_shows :: "ranking_state \<Rightarrow> proxy_db \<Rightarrow> submission \<Rightarrow> submission_result \<Rightarrow> bool" where
  "ranking_shows st d s r \<longleftrightarrow>
     (sr_scored r \<longrightarrow>
       map_of (rk_store st K_submission) (show_int (sub_id s)) =
         Some (E_submission \<lparr>se_user = encode_id (pc_username (pd_participation d (sub_participation_id s))),
           se_task = encode_id (tl_name (pd_task d (sub_task_id s))), se_time = seconds (sub_timestamp s)\<rparr>) \<and>
       (\<exists>e. map_of (rk_store st K_subchange) (score_change_key s) = Some (E_subchange e) \<and>
          he_submission e = show_int (sub_id s) \<and> he_time e = seconds (sub_timestamp s) \<and> he_score e = sr_score r)) \<and>
     (\<forall>t. sub_token s = Some t \<longrightarrow>
       (\<exists>e. map_of (rk_store st K_subchange) (token_change_key s t) = Some (E_subchange e) \<and>
          he_submission e = show_int (sub_id s) \<and> he_token e = Some True))"

lemma merged_value:
  assumes "op_pair ` set ops = T" "(i, [(key, v)]) \<in> T" "\<And>dd j. (i, dd) \<in> T \<Longrightarrow> (key, j) \<in> set dd \<Longrightarrow> j = v"
  shows "map_of (merge_data ops i) key = Some v"
proof -
  have "dict_has (merge_data ops i) key" unfolding merge_pairs(2)[OF assms(1)] using assms(2) by force
  then obtain j where "map_of (merge_data ops i) key = Some j" by (auto simp: dict_has_def)
  then show ?thesis using merge_pairs(1)[OF assms(1)] assms(3) by metis
qed

lemma received_shows:
  assumes ok: "proxy_db_ok d cid" and ops: "op_pair ` set ops = sent_pairs d cid"
    and st': "\<And>k key. map_of (rk_store st' k) key = received st (merge_data ops) k key"
    and s: "s \<in> set (visible_submissions d cid)" "active_result (pd_db d) s = Inr (Some r)"
  shows "ranking_shows st' d s r"
proof -
  have sub: "set (submission_ops d s) \<subseteq> sent_pairs d cid" using s(1) by (auto simp: sent_pairs_def)
  have score: "map_of (rk_store st' K_submission) (show_int (sub_id s)) = parsed K_submission (submission_data d s)"
      "map_of (rk_store st' K_subchange) (score_change_key s) = parsed K_subchange (score_change_data s (Some r))" if sc: "sr_scored r"
  proof -
    have "(4, [(show_int (sub_id s), submission_data d s)]) \<in> sent_pairs d cid" "(5, [(score_change_key s, score_change_data s (Some r))]) \<in> sent_pairs d cid"
      using sub sc s(2) by (auto simp: submission_ops_def score_ops_def)
    then have "map_of (merge_data ops 4) (show_int (sub_id s)) = Some (submission_data d s)"
        "map_of (merge_data ops 5) (score_change_key s) = Some (score_change_data s (Some r))"
      using merged_value[OF ops] sent_submission_unique[OF ok s(1)] sent_score_unique[OF ok s] by metis+
    then show "map_of (rk_store st' K_submission) (show_int (sub_id s)) = parsed K_submission (submission_data d s)"
        "map_of (rk_store st' K_subchange) (score_change_key s) = parsed K_subchange (score_change_data s (Some r))"
      by (simp_all add: st' received_def)
  qed
  have token: "map_of (rk_store st' K_subchange) (token_change_key s t) = parsed K_subchange (token_change_data s t)" if t: "sub_token s = Some t" for t
  proof -
    have "(5, [(token_change_key s t, token_change_data s t)]) \<in> sent_pairs d cid" using sub t s(2) by (auto simp: submission_ops_def token_ops_def)
    then have "map_of (merge_data ops 5) (token_change_key s t) = Some (token_change_data s t)"
      using merged_value[OF ops] sent_token_unique[OF ok s(1) t] by metis
    then show ?thesis by (simp add: st' received_def)
  qed
  have "\<exists>e. parsed K_subchange (score_change_data s (Some r)) = Some (E_subchange e) \<and> he_submission e = show_int (sub_id s) \<and>
      he_time e = seconds (sub_timestamp s) \<and> he_score e = sr_score r" if sc: "sr_scored r"
  proof -
    have "result_readable r" using ok active_result_row[OF s(2)] sc unfolding proxy_db_ok_def list_all_iff by blast
    then show ?thesis using score_change_set[OF sc, of s] by (auto simp: parsed_def)
  qed
  moreover have "\<exists>e. parsed K_subchange (token_change_data s t) = Some (E_subchange e) \<and> he_submission e = show_int (sub_id s) \<and> he_token e = Some True" for t
    using token_change_set[of s t] by (auto simp: parsed_def)
  ultimately show ?thesis unfolding ranking_shows_def using score token submission_data_set[of d s] by (simp add: parsed_def[of K_submission])
qed

lemma fresh_server: "server_start (\<lambda>_. []) ok = (st, Inr ()) \<Longrightarrow> rk_store st k = []"
  by (auto simp: server_start_def ss_init_store_def stm_simps)



definition example_proxy_submission :: submission where
  "example_proxy_submission = example_submission\<lparr>sub_timestamp := 1700000000000000, sub_token := Some 1700000100000000\<rparr>"

definition example_proxy_result :: submission_result where
  "example_proxy_result = (new_submission_result 7 5)\<lparr>sr_compilation_outcome := Some Comp_Ok, sr_evaluation_ok := True,
     sr_score := Some 50, sr_score_details := Some (J_Testcases []), sr_public_score := Some 0,
     sr_public_score_details := Some (J_Testcases []), sr_ranking_score_details := Some []\<rparr>"

definition example_proxy_db :: proxy_db where
  "example_proxy_db = \<lparr>
     pd_db = \<lparr>db_contests = [\<lparr>ct_id = 1, ct_start = 0, ct_stop = 9000\<rparr>], db_participations = [\<lparr>part_id = 3, part_contest_id = 1\<rparr>],
       db_tasks = [\<lparr>task_id = 2, task_contest_id = Some 1, task_active_dataset_id = Some 5, task_title = ''t'', task_pvp_batch = 0,
         task_score_precision = 0, task_score_mode = SCORE_MODE_MAX, task_solved = False\<rparr>],
       db_datasets = [example_dataset], db_submissions = [example_proxy_submission], db_submission_results = [example_proxy_result],
       db_user_tests = [], db_user_test_results = [], db_matches = [], db_match_results = [], db_batches = [], db_files = []\<rparr>,
     pd_contest = (\<lambda>_. \<lparr>cc_name = ''c'', cc_description = ''Contest'', cc_score_precision = 0\<rparr>),
     pd_participation = (\<lambda>_. \<lparr>pc_username = ''u.1'', pc_first_name = ''A'', pc_last_name = ''B'', pc_team = Some (''it'', ''Italy''), pc_hidden = False\<rparr>),
     pd_task = (\<lambda>_. \<lparr>tl_name = ''t'', tl_num = 0\<rparr>), pd_score_type = (\<lambda>_. (100, [''all'']))\<rparr>"

lemmas example_proxy_defs = example_proxy_db_def example_proxy_submission_def example_proxy_result_def example_submission_def
  new_submission_result_def

lemma example_proxy_db_ok: "proxy_db_ok example_proxy_db 1"
  by (simp add: proxy_db_ok_def example_proxy_defs get_from_id_def time_ok_def seconds_def result_readable_def extra_ok_def)

lemma example_proxy_visible: "visible_submissions example_proxy_db 1 = [example_proxy_submission]"
    "active_result (pd_db example_proxy_db) example_proxy_submission = Inr (Some example_proxy_result)" "sr_scored example_proxy_result"
  by (simp_all add: visible_submissions_def active_result_def example_proxy_defs in_contest_def submission_hidden_def get_from_id_def sr_key_def
    sr_scored_def sr_has_score_def sr_discarded_def)

lemma fresh_server_exists: "\<exists>st. server_start (\<lambda>_. []) disk = (st, Inr ())"
  by (simp add: server_start_def ss_init_store_def stm_simps)


lemma sforeach_unchanged:
  assumes "\<And>x. fst (f x st) = st"
  shows "\<exists>r. sforeach xs f st = (st, r)"
proof (induction xs)
  case (Cons x xs)
  obtain r where "f x st = (st, r)" using assms[of x] by (cases "f x st") auto
  then show ?case using Cons by (cases r) (auto simp: stm_simps)
qed (simp add: stm_simps)

text \<open>(C32) When the requests of that first batch do not get through, it is lost: the executor suppresses the
  error and its queue is empty, the ranking is unchanged, and since the service noted everything as sent when it enqueued it, later sweeps
  find nothing missing, in any state with the same database and notes.\<close>

theorem lost_batch_is_not_resent:
  assumes "proxy_db_ok d cid" "\<And>i. rl_net link i = Not_sent"
  shows "\<exists>px1 px2 m. px_init now d cid n = (px1, Inr ()) \<and> px_missing_operations now px1 = (px2, Inr m) \<and>
    px_db px2 = d \<and> px_contest_id px2 = cid \<and>
    (\<forall>ex\<in>set (ts_executors (px_service px2)). \<exists>es ex'. run_extract (\<lambda>_. 0) ex = Some (Inr (es, ex')) \<and>
      ex_content ex' = Map.empty \<and> proxy_execute link es st = (st, Inr ())) \<and>
    (\<forall>px3 later. px_db px3 = d \<and> px_contest_id px3 = cid \<and> px_scores_sent px3 = px_scores_sent px2 \<and> px_tokens_sent px3 = px_tokens_sent px2 \<longrightarrow>
      px_missing_operations later px3 = (px3, Inr 0))"
proof -
  let ?T = "sent_pairs d cid"
  obtain px1 px2 m where px: "px_init now d cid n = (px1, Inr ())" "px_missing_operations now px1 = (px2, Inr m)"
      "px_queued px2 ?T" "\<forall>s\<in>set (visible_submissions d cid). px_covers px2 d s" "px_db px2 = d" "px_contest_id px2 = cid"
    using px_start[OF assms(1), of now n] by blast
  have ne: "?T \<noteq> {}" by (rule initial_pairs[OF assms(1)]) (simp add: sent_pairs_def)
  have unchanged: "proxy_execute link es st = (st, Inr ())" for es
  proof -
    let ?f = "\<lambda>i. let data = merge_data (map qe_item es) i in if data \<noteq> [] then safe_put_data link i data else sret ()"
    have "\<exists>r. sforeach [0..<length RESOURCE_PATHS] ?f st = (st, r)"
      by (rule sforeach_unchanged) (simp add: safe_put_data_def assms(2) Let_def stm_simps)
    then obtain r where "sforeach [0..<length RESOURCE_PATHS] ?f st = (st, r)" by (rule exE)
    then show ?thesis unfolding proxy_execute_def stry_def by (simp add: stm_simps split: sum.split)
  qed
  have "\<forall>ex\<in>set (ts_executors (px_service px2)). \<exists>es ex'. run_extract (\<lambda>_. 0) ex = Some (Inr (es, ex')) \<and>
      ex_content ex' = Map.empty \<and> proxy_execute link es st = (st, Inr ())"
    using extract_all[OF px(3) ne] unchanged by meson
  moreover have "px_missing_operations later px3 = (px3, Inr 0)"
    if "px_db px3 = d" "px_contest_id px3 = cid" "px_scores_sent px3 = px_scores_sent px2" "px_tokens_sent px3 = px_tokens_sent px2" for px3 later
    by (rule missing_operations_covered) (use px(4) that in \<open>simp add: px_covers_def\<close>)
  ultimately show ?thesis using px(1,2,5,6) by (intro exI[of _ px1] exI[of _ px2] exI[of _ m]) simp
qed

theorem lost_batch_is_not_resent_witness:
  "\<exists>px1 px2 m. px_init 0 example_proxy_db 1 1 = (px1, Inr ()) \<and> px_missing_operations 0 px1 = (px2, Inr m) \<and>
    px_missing_operations 120 px2 = (px2, Inr 0)"
proof -
  obtain px1 px2 m where "px_init 0 example_proxy_db 1 1 = (px1, Inr ())" "px_missing_operations 0 px1 = (px2, Inr m)"
      "px_db px2 = example_proxy_db" "px_contest_id px2 = 1"
      "\<forall>px3 later. px_db px3 = example_proxy_db \<and> px_contest_id px3 = 1 \<and> px_scores_sent px3 = px_scores_sent px2 \<and> px_tokens_sent px3 = px_tokens_sent px2 \<longrightarrow>
        px_missing_operations later px3 = (px3, Inr 0)"
    using lost_batch_is_not_resent[OF example_proxy_db_ok, of "\<lparr>rl_authorized = True, rl_net = (\<lambda>_. Not_sent)\<rparr>" 0 1 "fst (server_start (\<lambda>_. []) True)"]
    by simp blast
  then show ?thesis by blast
qed

end
