(* ===== verification/Event_Source.thy ===== *)
theory Event_Source
  imports Ranking_Server Proxy_Text
begin

text \<open>
  The stream of events that keeps ranking pages up to date: \<^verbatim>\<open>cmscommon/eventsource.py\<close>, and class \<open>DataWatcher\<close> of
  \<^verbatim>\<open>cmsranking/RankingWebServer.py\<close>. A queue of a subscriber is known to the publisher by a number; a queue that
  nobody uses any longer vanishes. Times are microseconds, as the keys of messages are. The other end, a Server-Sent Events
  client, is a reference definition after the W3C specification.
\<close>

section \<open>Messages\<close>

abbreviation (input) CR :: char where "CR \<equiv> CHR 0x0D"
abbreviation (input) LF :: char where "LF \<equiv> CHR 0x0A"

definition utf8_char :: "char \<Rightarrow> string" where
  "utf8_char c = (let n = of_char c in if n < (128 :: nat) then [c] else [char_of (192 + n div 64), char_of (128 + n mod 64)])"

definition utf8 :: "string \<Rightarrow> string" where
  "utf8 s = concat (map utf8_char s)"

text \<open>The regular expression matches the three kinds of line breaks.\<close>

fun split_breaks :: "string \<Rightarrow> string list" where
  "split_breaks [] = [[]]"
| "split_breaks (c # s) =
     (if c = CR then (case s of d # s' \<Rightarrow> if d = LF then [] # split_breaks s' else [] # split_breaks s | [] \<Rightarrow> [] # split_breaks s)
      else if c = LF then [] # split_breaks s
      else (case split_breaks s of l # ls \<Rightarrow> (c # l) # ls | [] \<Rightarrow> [[c]]))"

fun join_lines :: "string list \<Rightarrow> string" where
  "join_lines [] = []"
| "join_lines [l] = l"
| "join_lines (l # ls) = l @ LF # join_lines ls"

definition format_event :: "string \<Rightarrow> string option \<Rightarrow> string option \<Rightarrow> string res" where
  "format_event i event data =
     res_bind
       (case event of
          None \<Rightarrow> Inr []
        | Some e \<Rightarrow>
            if e = ''message'' then Inr []
            else if CR \<in> set e \<or> LF \<in> set e \<or> CHR '':'' \<in> set e then Inl ValueError
            else Inr [''event:'' @ utf8 e])
       (\<lambda>ev. Inr (join_lines ([''id:'' @ utf8 i] @ ev @
          (case data of None \<Rightarrow> [] | Some d \<Rightarrow> map (\<lambda>l. ''data:'' @ utf8 l) (split_breaks d)) @ [[LF]])))"

section \<open>Publisher and subscribers\<close>

record publisher =
  pub_size :: nat
  pub_cache :: "(int \<times> string) list"
  pub_queues :: "(nat, string list) dict"
  pub_next :: nat

definition publisher_init :: "nat \<Rightarrow> publisher" where
  "publisher_init n = \<lparr>pub_size = n, pub_cache = [], pub_queues = [], pub_next = 0\<rparr>"

definition deque_append :: "nat \<Rightarrow> 'a list \<Rightarrow> 'a \<Rightarrow> 'a list" where
  "deque_append n xs x = drop (Suc (length xs) - n) (xs @ [x])"

definition hex_id :: "int \<Rightarrow> string" where
  "hex_id n = (if n < 0 then CHR ''-'' # show_hex (nat (- n)) else show_hex (nat n))"

definition pub_put :: "int \<Rightarrow> string option \<Rightarrow> string option \<Rightarrow> (publisher, unit) stm" where
  "pub_put now event data =
     sbind (slift (format_event (hex_id now) event data)) (\<lambda>msg.
       supd (\<lambda>p. p\<lparr>pub_cache := deque_append (pub_size p) (pub_cache p) (now, msg),
                   pub_queues := map (\<lambda>(q, msgs). (q, msgs @ [msg])) (pub_queues p)\<rparr>))"

definition hex_char :: "char \<Rightarrow> nat option" where
  "hex_char c = (let n = of_char c in
     if 48 \<le> n \<and> n \<le> 57 then Some (n - 48) else if 65 \<le> n \<and> n \<le> 70 then Some (n - 55)
     else if 97 \<le> n \<and> n \<le> 102 then Some (n - 87) else None)"

text \<open>\<open>re.match("^[0-9A-Fa-f]+$", s)\<close>, which lets a final line feed pass, and \<open>int(s, 16)\<close>, which strips it.\<close>

definition parse_hex :: "string \<Rightarrow> int option" where
  "parse_hex s =
     (let t = (if s \<noteq> [] \<and> last s = LF then butlast s else s) in
      if t \<noteq> [] \<and> list_all (\<lambda>c. hex_char c \<noteq> None) t then Some (int (foldl (\<lambda>n c. 16 * n + the (hex_char c)) 0 t)) else None)"

definition reinit_message :: string where
  "reinit_message = ''event:reinit'' @ [LF, LF]"

definition missed_messages :: "publisher \<Rightarrow> string option \<Rightarrow> string list" where
  "missed_messages p last_event_id =
     (case last_event_id of
        None \<Rightarrow> []
      | Some s \<Rightarrow>
          (case parse_hex s of
             None \<Rightarrow> []
           | Some last_key \<Rightarrow>
               if pub_cache p \<noteq> [] \<and> fst (hd (pub_cache p)) \<le> last_key
               then map snd (filter (\<lambda>(key, msg). last_key < key) (pub_cache p)) else [reinit_message]))"

definition get_subscriber :: "string option \<Rightarrow> publisher \<Rightarrow> publisher \<times> nat" where
  "get_subscriber last_event_id p =
     (p\<lparr>pub_queues := pub_queues p @ [(pub_next p, missed_messages p last_event_id)], pub_next := Suc (pub_next p)\<rparr>, pub_next p)"

text \<open>\<open>Subscriber.get\<close>: blocks on an empty queue, then takes everything.\<close>

definition subscriber_get :: "nat \<Rightarrow> (publisher, string list) stm" where
  "subscriber_get q = (\<lambda>p.
     case map_of (pub_queues p) q of
       None \<Rightarrow> (p, Inl KeyError)
     | Some [] \<Rightarrow> (p, Inl Blocked)
     | Some msgs \<Rightarrow> (p\<lparr>pub_queues := dict_set (pub_queues p) q []\<rparr>, Inr msgs))"

definition queue_dropped :: "nat \<Rightarrow> publisher \<Rightarrow> publisher" where
  "queue_dropped q p = p\<lparr>pub_queues := AList.delete q (pub_queues p)\<rparr>"

section \<open>The response\<close>

text \<open>A round of the loop of \<open>wsgi_app\<close>: the messages that the subscriber got before the ping timeout, none when it ran into
  it, and whether the write succeeded.\<close>

fun stream_loop :: "bool \<Rightarrow> (string list \<times> bool) list \<Rightarrow> string" where
  "stream_loop one_shot [] = []"
| "stream_loop one_shot ((msgs, ok) # rounds) =
     (let got_sth = msgs \<noteq> []; data = (if got_sth then concat msgs else [CHR '':'', LF]) in
      if \<not> ok then [] else data @ (if one_shot \<and> got_sth then [] else stream_loop one_shot rounds))"

definition event_stream :: "bool \<Rightarrow> (string list \<times> bool) list \<Rightarrow> string" where
  "event_stream one_shot rounds = [CHR '':'', LF] @ stream_loop one_shot rounds"

section \<open>The events of the ranking\<close>

fun entity_name :: "store_kind \<Rightarrow> string" where
  "entity_name K_contest = ''contest''"
| "entity_name K_task = ''task''"
| "entity_name K_team = ''team''"
| "entity_name K_user = ''user''"
| "entity_name K_submission = ''submission''"
| "entity_name K_subchange = ''subchange''"

text \<open>The callbacks of \<open>DataWatcher\<close>; \<open>fmt\<close> is \<open>"%0.2f"\<close>.\<close>

fun watcher_event :: "(real \<Rightarrow> string) \<Rightarrow> ranking_event \<Rightarrow> string \<times> string" where
  "watcher_event fmt (Ev_entity k event key) = (entity_name k, event @ '' '' @ key)"
| "watcher_event fmt (Ev_score user task score) = (''score'', user @ '' '' @ task @ '' '' @ fmt score)"

definition watcher_send :: "(real \<Rightarrow> string) \<Rightarrow> int \<Rightarrow> ranking_event \<Rightarrow> (publisher, unit) stm" where
  "watcher_send fmt now ev = (case watcher_event fmt ev of (event, data) \<Rightarrow> pub_put now (Some event) (Some data))"

section \<open>The client\<close>

record sse_client =
  cl_id :: string
  cl_type :: string
  cl_data :: "string list"
  cl_events :: "(string \<times> string \<times> string) list"

definition sse_init :: sse_client where
  "sse_init = \<lparr>cl_id = [], cl_type = [], cl_data = [], cl_events = []\<rparr>"

definition sse_value :: "string \<Rightarrow> string" where
  "sse_value l = (case tl (dropWhile (\<lambda>c. c \<noteq> CHR '':'') l) of c # v \<Rightarrow> if c = CHR '' '' then v else c # v | [] \<Rightarrow> [])"

definition sse_line :: "string \<Rightarrow> sse_client \<Rightarrow> sse_client" where
  "sse_line l cl =
     (if l = [] then
        (if cl_data cl = [] then cl\<lparr>cl_type := []\<rparr>
         else cl\<lparr>cl_events := cl_events cl @ [(cl_id cl, if cl_type cl = [] then ''message'' else cl_type cl, join_lines (cl_data cl))],
                 cl_type := [], cl_data := []\<rparr>)
      else
        let field = takeWhile (\<lambda>c. c \<noteq> CHR '':'') l; v = sse_value l in
        if field = ''id'' then cl\<lparr>cl_id := v\<rparr>
        else if field = ''event'' then cl\<lparr>cl_type := v\<rparr>
        else if field = ''data'' then cl\<lparr>cl_data := cl_data cl @ [v]\<rparr>
        else cl)"

text \<open>The client sees complete lines.\<close>

definition sse_read :: "string \<Rightarrow> sse_client \<Rightarrow> sse_client" where
  "sse_read s cl = fold sse_line (butlast (split_breaks s)) cl"

section \<open>Lines\<close>

definition no_breaks :: "string \<Rightarrow> bool" where
  "no_breaks s \<longleftrightarrow> CR \<notin> set s \<and> LF \<notin> set s"

lemma split_breaks_nonempty [simp]: "split_breaks s \<noteq> []"
  by (cases s) (auto split: list.split)

declare split_breaks.simps(2) [simp del]

lemma split_breaks_LF: "split_breaks (LF # s) = [] # split_breaks s"
  by (subst split_breaks.simps) simp

lemma split_breaks_CR: "split_breaks (CR # s) = [] # split_breaks (case s of d # s' \<Rightarrow> if d = LF then s' else s | [] \<Rightarrow> [])"
  by (subst split_breaks.simps) (simp split: list.split)

lemma split_breaks_char: "c \<noteq> CR \<Longrightarrow> c \<noteq> LF \<Longrightarrow> split_breaks (c # s) = (c # hd (split_breaks s)) # tl (split_breaks s)"
  by (subst split_breaks.simps) (simp split: list.split)

lemma split_breaks_line: "no_breaks l \<Longrightarrow> split_breaks (l @ LF # s) = l # split_breaks s"
proof (induction l)
  case (Cons c l)
  then have "c \<noteq> CR" "c \<noteq> LF" "no_breaks l" by (auto simp: no_breaks_def)
  then show ?case using Cons.IH by (simp add: split_breaks_char)
qed (simp add: split_breaks_LF)

lemma split_breaks_no_breaks: "l \<in> set (split_breaks s) \<Longrightarrow> no_breaks l"
proof (induction s arbitrary: l rule: length_induct)
  case (1 s)
  show ?case
  proof (cases s)
    case Nil
    then show ?thesis using 1(2) by (simp add: no_breaks_def)
  next
    case (Cons c t)
    have IH: "l \<in> set (split_breaks u) \<Longrightarrow> length u \<le> length t \<Longrightarrow> no_breaks l" for u l using 1(1)[rule_format, of u l] Cons by simp
    consider "c = CR" | "c = LF" | "c \<noteq> CR" "c \<noteq> LF" by blast
    then show ?thesis
    proof cases
      case 1
      let ?u = "case t of d # s' \<Rightarrow> if d = LF then s' else t | [] \<Rightarrow> []"
      have "length ?u \<le> length t" by (simp split: list.split)
      then show ?thesis using \<open>l \<in> set (split_breaks s)\<close> IH[of l ?u] unfolding Cons 1 split_breaks_CR by (auto simp: no_breaks_def)
    next
      case 2
      then show ?thesis using \<open>l \<in> set (split_breaks s)\<close> IH[of l t] unfolding Cons 2 split_breaks_LF by (auto simp: no_breaks_def)
    next
      case 3
      have "no_breaks (hd (split_breaks t))" by (rule IH[of _ t]) simp_all
      moreover have "m \<in> set (tl (split_breaks t)) \<Longrightarrow> no_breaks m" for m by (rule IH[of _ t]) (auto dest: list.set_sel(2)[rotated])
      ultimately show ?thesis using \<open>l \<in> set (split_breaks s)\<close> 3 unfolding Cons split_breaks_char[OF 3] by (auto simp: no_breaks_def)
    qed
  qed
qed

lemma sse_read_line: "no_breaks l \<Longrightarrow> sse_read (l @ LF # s) cl = sse_read s (sse_line l cl)"
  by (simp add: sse_read_def split_breaks_line)

lemma sse_read_Nil: "sse_read [] cl = cl"
  by (simp add: sse_read_def)

lemma sse_read_lines: "ls \<noteq> [] \<Longrightarrow> \<forall>l\<in>set ls. no_breaks l \<Longrightarrow> sse_read (join_lines ls @ LF # s) cl = sse_read s (fold sse_line ls cl)"
proof (induction ls arbitrary: cl rule: join_lines.induct)
  case (3 l l' ls)
  have "sse_read (join_lines (l # l' # ls) @ LF # s) cl = sse_read (join_lines (l' # ls) @ LF # s) (sse_line l cl)"
    using 3(3) by (simp add: sse_read_line)
  then show ?case using 3 by simp
qed (simp_all add: sse_read_line)

lemma utf8_ascii: "(of_char c :: nat) < 128 \<Longrightarrow> c \<in> set (utf8 s) \<longleftrightarrow> c \<in> set s"
proof -
  assume c: "(of_char c :: nat) < 128"
  have "c \<in> set (utf8_char d) \<longleftrightarrow> c = d" for d
  proof (cases "(of_char d :: nat) < 128")
    case False
    let ?n = "of_char d :: nat"
    have "?n < 256" by (rule nat_of_char_less_256)
    then have "192 + ?n div 64 < 256" "128 + ?n mod 64 < 256" by (auto simp: less_mult_imp_div_less) (use \<open>?n < 256\<close> in linarith)
    then have "(of_char (char_of (192 + ?n div 64)) :: nat) = 192 + ?n div 64" "(of_char (char_of (128 + ?n mod 64)) :: nat) = 128 + ?n mod 64"
      by (simp_all add: of_char_of)
    then show ?thesis using c False by (auto simp: utf8_char_def Let_def)
  qed (auto simp: utf8_char_def)
  then show ?thesis by (auto simp: utf8_def)
qed

lemma utf8_no_breaks: "no_breaks (utf8 s) \<longleftrightarrow> no_breaks s"
  by (simp add: no_breaks_def utf8_ascii)

section \<open>Reading an event\<close>

lemma no_breaks_labels: "no_breaks (''id:'' @ v) = no_breaks v" "no_breaks (''event:'' @ v) = no_breaks v" "no_breaks (''data:'' @ v) = no_breaks v"
  by (simp_all add: no_breaks_def)

definition strip_space :: "string \<Rightarrow> string" where
  "strip_space v = (case v of c # w \<Rightarrow> if c = CHR '' '' then w else v | [] \<Rightarrow> [])"

lemma sse_line_fields:
  "sse_line (''id:'' @ v) cl = cl\<lparr>cl_id := strip_space v\<rparr>"
  "sse_line (''event:'' @ v) cl = cl\<lparr>cl_type := strip_space v\<rparr>"
  "sse_line (''data:'' @ v) cl = cl\<lparr>cl_data := cl_data cl @ [strip_space v]\<rparr>"
  "sse_line (CHR '':'' # v) cl = cl"
  by (simp_all add: sse_line_def sse_value_def strip_space_def split: list.split)

lemma sse_line_data: "fold sse_line (map (\<lambda>l. ''data:'' @ utf8 l) ls) cl = cl\<lparr>cl_data := cl_data cl @ map (strip_space \<circ> utf8) ls\<rparr>"
  by (induction ls arbitrary: cl) (simp_all only: list.map fold.simps comp_apply id_apply sse_line_fields, simp_all)

lemma join_lines_snoc: "ls \<noteq> [] \<Longrightarrow> join_lines (ls @ [l]) = join_lines ls @ LF # l"
  by (induction ls rule: join_lines.induct) simp_all

lemma same_type: "cl_type cl = [] \<Longrightarrow> cl\<lparr>cl_type := []\<rparr> = cl"
  by (cases cl) simp

definition event_type :: "string option \<Rightarrow> string" where
  "event_type event = (case event of None \<Rightarrow> ''message'' | Some e \<Rightarrow> if strip_space (utf8 e) = [] then ''message'' else strip_space (utf8 e))"

definition event_seen :: "string \<Rightarrow> string option \<Rightarrow> string option \<Rightarrow> (string \<times> string \<times> string) list" where
  "event_seen i event data =
     (case data of None \<Rightarrow> [] | Some d \<Rightarrow> [(i, event_type event, join_lines (map (strip_space \<circ> utf8) (split_breaks d)))])"

lemma read_format_event:
  assumes fmt: "format_event i event data = Inr msg" and i: "no_breaks i" "strip_space (utf8 i) = i"
    and cl: "cl_data cl = []" "cl_type cl = []"
  shows "sse_read (msg @ s) cl = sse_read s (cl\<lparr>cl_id := i, cl_events := cl_events cl @ event_seen i event data\<rparr>)"
proof -
  obtain ev where ev: "case event of None \<Rightarrow> ev = [] | Some e \<Rightarrow> ev = (if e = ''message'' then [] else [''event:'' @ utf8 e]) \<and> (e \<noteq> ''message'' \<longrightarrow> no_breaks e)"
      "msg = join_lines ([''id:'' @ utf8 i] @ ev @ (case data of None \<Rightarrow> [] | Some d \<Rightarrow> map (\<lambda>l. ''data:'' @ utf8 l) (split_breaks d)) @ [[LF]])"
    using fmt by (auto simp: format_event_def res_simps no_breaks_def split: option.splits if_splits)
  let ?ds = "case data of None \<Rightarrow> [] | Some d \<Rightarrow> map (\<lambda>l. ''data:'' @ utf8 l) (split_breaks d)"
  let ?ls = "(''id:'' @ utf8 i) # ev @ ?ds"
  have msg: "msg @ s = join_lines ?ls @ LF # ([] @ LF # s)" using join_lines_snoc[of ?ls "[LF]"] ev(2) by simp
  have nb: "\<forall>l\<in>set ?ls. no_breaks l"
    using i(1) ev(1) by (auto simp: no_breaks_labels utf8_no_breaks split_breaks_no_breaks simp del: append.simps split: option.splits if_splits)
  define cl1 where "cl1 = fold sse_line ev (sse_line (''id:'' @ utf8 i) cl)"
  have cl1: "cl1 = cl\<lparr>cl_id := i, cl_type := (case event of None \<Rightarrow> [] | Some e \<Rightarrow> if e = ''message'' then [] else strip_space (utf8 e))\<rparr>"
    using ev(1) cl(2) i(2) unfolding cl1_def sse_line_fields by (cases event) (auto simp: sse_line_fields simp del: append.simps)
  have "fold sse_line ?ls cl = fold sse_line ?ds cl1" by (simp add: cl1_def)
  moreover have ds: "fold sse_line ?ds cl1 = cl1\<lparr>cl_data := (case data of None \<Rightarrow> [] | Some d \<Rightarrow> map (strip_space \<circ> utf8) (split_breaks d))\<rparr>"
    using cl(1) cl1 sse_line_data[of _ cl1] by (cases data) simp_all
  moreover have "utf8 ''message'' = ''message''" by (simp add: utf8_def utf8_char_def)
  then have "sse_line [] (fold sse_line ?ds cl1) = cl\<lparr>cl_id := i, cl_events := cl_events cl @ event_seen i event data\<rparr>"
    unfolding ds unfolding cl1 using cl
    by (cases data) (auto simp: sse_line_def[of "[]"] event_seen_def event_type_def strip_space_def split: option.split)
  ultimately show ?thesis unfolding msg using sse_read_lines[OF _ nb, of "[] @ LF # s" cl] sse_read_line[of "[]"]
    by (simp add: no_breaks_def)
qed

section \<open>The stream\<close>

text \<open>Messages, as what they make a client do; comments do nothing.\<close>

definition message_ok :: "string \<Rightarrow> (sse_client \<Rightarrow> sse_client) \<Rightarrow> bool" where
  "message_ok msg f \<longleftrightarrow> (\<forall>cl s. cl_data cl = [] \<longrightarrow> cl_type cl = [] \<longrightarrow>
     sse_read (msg @ s) cl = sse_read s (f cl) \<and> cl_data (f cl) = [] \<and> cl_type (f cl) = [])"

definition event_effect :: "string \<Rightarrow> string option \<Rightarrow> string option \<Rightarrow> sse_client \<Rightarrow> sse_client" where
  "event_effect i event data cl = cl\<lparr>cl_id := i, cl_events := cl_events cl @ event_seen i event data\<rparr>"

lemma digit_char_ascii: "n < 16 \<Longrightarrow> (of_char (digit_char n) :: nat) < 128 \<and> digit_char n \<noteq> CR \<and> digit_char n \<noteq> LF \<and> digit_char n \<noteq> CHR '' ''"
  using of_digit_char[of n] by (auto split: if_splits)

lemma show_hex_chars: "c \<in> set (show_hex n) \<Longrightarrow> \<exists>m < 16. c = digit_char m"
  unfolding show_hex_def
proof (induction "16 :: nat" n rule: show_base.induct)
  case (1 n)
  show ?case
  proof (cases "n < 16")
    case True
    then show ?thesis using 1(2) by (subst (asm) show_base.simps) auto
  next
    case False
    then have "show_base 16 n = show_base 16 (n div 16) @ [digit_char (n mod 16)]" by (subst show_base.simps) simp
    then consider "c \<in> set (show_base 16 (n div 16))" | "c = digit_char (n mod 16)" using 1(2) by auto
    then show ?thesis
    proof cases
      case 1
      then show ?thesis using "1.hyps" False by simp
    next
      case 2
      then show ?thesis by (intro exI[of _ "n mod 16"]) simp
    qed
  qed
qed

lemma hex_id_plain:
  assumes "0 \<le> n"
  shows "no_breaks (hex_id n)" "strip_space (utf8 (hex_id n)) = hex_id n" "hex_id n \<noteq> []"
proof -
  have h: "hex_id n = show_hex (nat n)" using assms by (simp add: hex_id_def)
  have chars: "(of_char c :: nat) < 128" "c \<noteq> CR" "c \<noteq> LF" "c \<noteq> CHR '' ''" if "c \<in> set (hex_id n)" for c
    using show_hex_chars[OF that[unfolded h]] digit_char_ascii by auto
  then have "utf8 (hex_id n) = hex_id n" unfolding utf8_def by (simp add: utf8_char_def map_idI concat_map_singleton cong: map_cong)
  then show "strip_space (utf8 (hex_id n)) = hex_id n" using chars(4) by (auto simp: strip_space_def split: list.split)
  show "no_breaks (hex_id n)" using chars(2,3) by (auto simp: no_breaks_def)
  show "hex_id n \<noteq> []" using show_base_word[of 16 "nat n"] by (simp add: h show_hex_def)
qed

lemma format_event_message:
  "0 \<le> now \<Longrightarrow> format_event (hex_id now) event data = Inr msg \<Longrightarrow> message_ok msg (event_effect (hex_id now) event data)"
  by (simp add: message_ok_def event_effect_def read_format_event hex_id_plain)

lemma comment_message: "message_ok [CHR '':'', LF] (\<lambda>cl. cl)"
proof -
  have "sse_read ([CHR '':'', LF] @ s) cl = sse_read s cl" for s cl
    using sse_read_line[of "[CHR '':'']" s cl] sse_line_fields(4)[of "[]" cl] by (simp add: no_breaks_def)
  then show ?thesis by (simp add: message_ok_def)
qed

text \<open>The demand to start again has no data, so a client that follows the specification drops it.\<close>

lemma reinit_dropped: "message_ok reinit_message (\<lambda>cl. cl)"
proof -
  have "sse_read (reinit_message @ s) cl = sse_read s (sse_line [] (sse_line (''event:'' @ ''reinit'') cl))" for s cl
    using sse_read_line[of "''event:reinit''" "LF # s" cl] sse_read_line[of "[]" s] by (simp add: no_breaks_def reinit_message_def)
  then have "cl_data cl = [] \<Longrightarrow> cl_type cl = [] \<Longrightarrow> sse_read (reinit_message @ s) cl = sse_read s cl" for s cl
    unfolding sse_line_fields by (simp add: sse_line_def same_type)
  then show ?thesis by (simp add: message_ok_def)
qed

lemma messages_read:
  assumes "list_all2 message_ok msgs fs" "cl_data cl = []" "cl_type cl = []"
  shows "sse_read (concat msgs @ s) cl = sse_read s (fold (\<lambda>f. f) fs cl) \<and> cl_data (fold (\<lambda>f. f) fs cl) = [] \<and> cl_type (fold (\<lambda>f. f) fs cl) = []"
  using assms
proof (induction msgs fs arbitrary: cl rule: list_all2_induct)
  case (Cons m ms f fs)
  then have "sse_read (m @ concat ms @ s) cl = sse_read (concat ms @ s) (f cl)" "cl_data (f cl) = []" "cl_type (f cl) = []"
    by (simp_all add: message_ok_def)
  then show ?case using Cons.IH[of "f cl"] by simp
qed simp

section \<open>What a subscriber gets\<close>

type_synonym put_call = "int \<times> string option \<times> string option"

definition run_puts :: "put_call list \<Rightarrow> publisher \<Rightarrow> publisher" where
  "run_puts calls = fold (\<lambda>(now, event, data) p. fst (pub_put now event data p)) calls"

definition published :: "put_call list \<Rightarrow> (int \<times> string) list" where
  "published calls = concat (map (\<lambda>(now, event, data). case format_event (hex_id now) event data of Inl _ \<Rightarrow> [] | Inr msg \<Rightarrow> [(now, msg)]) calls)"

definition events_seen :: "put_call list \<Rightarrow> (string \<times> string \<times> string) list" where
  "events_seen calls = concat (map (\<lambda>(now, event, data).
     case format_event (hex_id now) event data of Inl _ \<Rightarrow> [] | Inr _ \<Rightarrow> event_seen (hex_id now) event data) calls)"

lemma pub_put_run:
  "fst (pub_put now event data p) =
     (case format_event (hex_id now) event data of
        Inl _ \<Rightarrow> p
      | Inr msg \<Rightarrow> p\<lparr>pub_cache := deque_append (pub_size p) (pub_cache p) (now, msg), pub_queues := map (\<lambda>(q, msgs). (q, msgs @ [msg])) (pub_queues p)\<rparr>)"
  by (simp add: pub_put_def stm_simps split: sum.split)

lemma deque_append_drop: "deque_append n (drop (length xs - n) xs) x = drop (Suc (length xs) - n) (xs @ [x])"
  by (cases "n \<le> length xs") (auto simp: deque_append_def Suc_diff_le)

lemma run_puts_cache:
  assumes "pub_cache p = drop (length old - pub_size p) old"
  shows "pub_size (run_puts calls p) = pub_size p \<and>
    pub_cache (run_puts calls p) = drop (length (old @ published calls) - pub_size p) (old @ published calls)"
  using assms
proof (induction calls arbitrary: p old)
  case (Cons x calls)
  obtain now event data where x: "x = (now, event, data)" by (cases x)
  show ?case
  proof (cases "format_event (hex_id now) event data")
    case (Inl e)
    then show ?thesis using Cons by (simp add: run_puts_def published_def x pub_put_run)
  next
    case (Inr msg)
    let ?p = "fst (pub_put now event data p)"
    have "pub_size ?p = pub_size p" "pub_cache ?p = drop (length (old @ [(now, msg)]) - pub_size p) (old @ [(now, msg)])"
      using Cons.prems Inr by (simp_all add: pub_put_run deque_append_drop)
    then show ?thesis using Cons.IH[of ?p "old @ [(now, msg)]"] Inr by (simp add: run_puts_def published_def x)
  qed
qed (simp add: run_puts_def published_def)

lemma map_of_map_values: "map_of (map (\<lambda>(q, msgs). (q, msgs @ [msg])) qs) q = map_option (\<lambda>msgs. msgs @ [msg]) (map_of qs q)"
  by (induction qs) auto

lemma run_puts_queue:
  "map_of (pub_queues p) q = Some msgs \<Longrightarrow> map_of (pub_queues (run_puts calls p)) q = Some (msgs @ map snd (published calls))"
proof (induction calls arbitrary: p msgs)
  case (Cons x calls)
  obtain now event data where x: "x = (now, event, data)" by (cases x)
  show ?case
  proof (cases "format_event (hex_id now) event data")
    case (Inl e)
    then show ?thesis using Cons by (simp add: run_puts_def published_def x pub_put_run)
  next
    case (Inr msg)
    have "map_of (pub_queues (fst (pub_put now event data p))) q = Some (msgs @ [msg])" using Cons.prems Inr by (simp add: pub_put_run map_of_map_values)
    then show ?thesis using Cons.IH[of "fst (pub_put now event data p)" "msgs @ [msg]"] Inr by (simp add: run_puts_def published_def x)
  qed
qed (simp add: run_puts_def published_def)

text \<open>The identifiers of queues are fresh.\<close>

definition pub_invar :: "publisher \<Rightarrow> bool" where
  "pub_invar p \<longleftrightarrow> dict_ok (pub_queues p) \<and> (\<forall>q\<in>fst ` set (pub_queues p). q < pub_next p)"

lemma pub_invar_steps:
  "pub_invar (publisher_init n)"
  "pub_invar p \<Longrightarrow> pub_invar (fst (pub_put now event data p))"
  "pub_invar p \<Longrightarrow> pub_invar (fst (get_subscriber i p))"
  "pub_invar p \<Longrightarrow> pub_invar (fst (subscriber_get q p))"
  "pub_invar p \<Longrightarrow> pub_invar (queue_dropped q p)"
proof -
  have keys: "map fst (map (\<lambda>(q, msgs). (q, msgs @ [msg])) qs) = map fst qs" for msg :: string and qs :: "(nat, string list) dict"
    by (induction qs) auto
  have img: "fst ` set qs = set (map fst qs)" for qs :: "(nat, string list) dict" by simp
  show "pub_invar (publisher_init n)" by (simp add: pub_invar_def publisher_init_def)
  show "pub_invar (fst (pub_put now event data p))" if "pub_invar p"
    using that unfolding pub_invar_def pub_put_run img by (auto simp: dict_ok_def keys simp del: set_map map_map split: sum.split)
  show "pub_invar (fst (get_subscriber i p))" if "pub_invar p"
    using that by (auto simp: pub_invar_def get_subscriber_def dict_ok_def)
  show "pub_invar (queue_dropped q p)" if "pub_invar p"
    using that dict_ok_delete[of "pub_queues p" q] by (auto simp: pub_invar_def queue_dropped_def AList.delete_eq)
  show "pub_invar (fst (subscriber_get q p))" if inv: "pub_invar p"
  proof (cases "map_of (pub_queues p) q")
    case (Some msgs)
    have "fst ` set (dict_set (pub_queues p) q []) = fst ` set (pub_queues p)"
      using Some by (auto simp: map_of_dict_set split: if_splits simp flip: dom_map_of_conv_image_fst)
    then show ?thesis using Some inv unfolding pub_invar_def subscriber_get_def by (cases msgs) (simp_all add: dict_ok_set del: ball_simps(9))
  qed (use inv in \<open>simp add: subscriber_get_def\<close>)
qed

lemma hex_char_digit: "n < 16 \<Longrightarrow> hex_char (digit_char n) = Some n"
  by (auto simp: hex_char_def of_digit_char Let_def)

lemma parse_show_hex: "list_all (\<lambda>c. hex_char c \<noteq> None) (show_hex n) \<and> foldl (\<lambda>m c. 16 * m + the (hex_char c)) 0 (show_hex n) = n"
  unfolding show_hex_def
proof (induction "16 :: nat" n rule: show_base.induct)
  case (1 n)
  show ?case
  proof (cases "n < 16")
    case True
    then have "show_base 16 n = [digit_char n]" by (subst show_base.simps) simp
    then show ?thesis using True by (simp add: hex_char_digit)
  next
    case False
    then have "show_base 16 n = show_base 16 (n div 16) @ [digit_char (n mod 16)]" by (subst show_base.simps) simp
    then show ?thesis using 1 False by (simp add: hex_char_digit)
  qed
qed

lemma parse_hex_id: "0 \<le> k \<Longrightarrow> parse_hex (hex_id k) = Some k"
proof -
  assume k: "0 \<le> k"
  have "last (hex_id k) \<noteq> LF" using hex_id_plain(1,3)[OF k] last_in_set[of "hex_id k"] by (metis no_breaks_def)
  then show ?thesis using k hex_id_plain(3)[OF k] parse_show_hex[of "nat k"] by (simp add: parse_hex_def hex_id_def Let_def)
qed

definition after_key :: "int \<Rightarrow> put_call list \<Rightarrow> put_call list" where
  "after_key k calls = filter (\<lambda>(now, _). k < now) calls"

lemma published_after_key: "published (after_key k calls) = filter (\<lambda>(now, _). k < now) (published calls)"
  by (induction calls) (auto simp: published_def after_key_def split: sum.split)

lemma published_sorted: "sorted_wrt (<) (map fst calls) \<Longrightarrow> sorted_wrt (<) (map fst (published calls)) \<and> set (map fst (published calls)) \<subseteq> set (map fst calls)"
proof (induction calls)
  case (Cons x calls)
  obtain now event data where x: "x = (now, event, data)" by (cases x)
  have IH: "sorted_wrt (<) (map fst (published calls))" "set (map fst (published calls)) \<subseteq> set (map fst calls)" using Cons by simp_all
  have "\<forall>t\<in>set (map fst calls). now < t" using Cons.prems x by simp
  then have "\<forall>t\<in>set (map fst (published calls)). now < t" using IH(2) by blast
  moreover have "published (x # calls) = (case format_event (hex_id now) event data of Inl _ \<Rightarrow> [] | Inr msg \<Rightarrow> [(now, msg)]) @ published calls"
    by (simp add: published_def x)
  ultimately show ?case using IH x by (auto split: sum.split)
qed (simp add: published_def)

lemma cached_after_key:
  assumes "sorted_wrt (<) (map fst xs)" "drop n xs \<noteq> []" "fst (hd (drop n xs)) \<le> k"
  shows "filter (\<lambda>(now, _). k < now) (drop n xs) = filter (\<lambda>(now, _). k < (now :: int)) xs"
proof -
  have n: "n < length xs" using assms(2) by simp
  have "fst x \<le> k" if "x \<in> set (take n xs)" for x
  proof -
    obtain i where i: "i < n" "x = xs ! i" using \<open>x \<in> set (take n xs)\<close> n by (auto simp: in_set_conv_nth)
    then have "fst (xs ! i) < fst (xs ! n)" using sorted_wrt_nth_less[OF assms(1), of i n] n by simp
    then show ?thesis using assms(3) n i(2) by (simp add: hd_drop_conv_nth)
  qed
  then have "filter (\<lambda>(now, _). k < now) (take n xs) = []" by (fastforce simp: filter_empty_conv)
  then show ?thesis by (metis append_Nil append_take_drop_id filter_append)
qed

text \<open>The cache of the publisher reaches back to the message with key \<open>k\<close>.\<close>

definition reaches_back :: "nat \<Rightarrow> put_call list \<Rightarrow> int \<Rightarrow> bool" where
  "reaches_back n calls k \<longleftrightarrow> (let cache = drop (length (published calls) - n) (published calls) in cache \<noteq> [] \<and> fst (hd cache) \<le> k)"

lemma subscriber_messages:
  assumes sorted: "sorted_wrt (<) (map fst before)" and k: "0 \<le> k"
    and p: "get_subscriber (Some (hex_id k)) (run_puts before (publisher_init n)) = (p, q)"
  shows "map_of (pub_queues (run_puts later p)) q =
    Some ((if reaches_back n before k then map snd (published (after_key k before)) else [reinit_message]) @ map snd (published later))"
proof -
  let ?p = "run_puts before (publisher_init n)" and ?L = "published before"
  have cache: "pub_cache ?p = drop (length ?L - n) ?L"
    using run_puts_cache[of "publisher_init n" "[]" before] by (simp add: publisher_init_def)
  have missed: "missed_messages ?p (Some (hex_id k)) = (if reaches_back n before k then map snd (published (after_key k before)) else [reinit_message])"
    using cached_after_key[of ?L "length ?L - n" k] published_sorted[OF sorted]
    by (auto simp: missed_messages_def parse_hex_id[OF k] cache reaches_back_def published_after_key Let_def)
  have "pub_invar (run_puts calls p)" if "pub_invar p" for calls p
    using that unfolding run_puts_def by (induction calls arbitrary: p) (auto simp: pub_invar_steps)
  then have "pub_invar ?p" by (simp add: pub_invar_steps)
  then have "map_of (pub_queues ?p) (pub_next ?p) = None" by (auto simp: pub_invar_def map_of_eq_None_iff)
  then have "map_of (pub_queues p) q = Some (missed_messages ?p (Some (hex_id k)))"
    using p by (auto simp: get_subscriber_def map_add_def)
  then show ?thesis using run_puts_queue[of p q _ later] missed by simp
qed

definition events_effects :: "put_call list \<Rightarrow> (sse_client \<Rightarrow> sse_client) list" where
  "events_effects calls = concat (map (\<lambda>(now, event, data).
     case format_event (hex_id now) event data of Inl _ \<Rightarrow> [] | Inr _ \<Rightarrow> [event_effect (hex_id now) event data]) calls)"

lemma published_effects:
  assumes "\<forall>(now, _)\<in>set calls. 0 \<le> now"
  shows "list_all2 message_ok (map snd (published calls)) (events_effects calls)"
  using assms
proof (induction calls)
  case (Cons x calls)
  obtain now event data where x: "x = (now, event, data)" by (cases x)
  show ?case using Cons format_event_message[of now event data]
    by (cases "format_event (hex_id now) event data") (simp_all add: published_def events_effects_def x)
qed (simp add: published_def events_effects_def)

lemma events_effects_seen: "cl_events (fold (\<lambda>f. f) (events_effects calls) cl) = cl_events cl @ events_seen calls"
proof (induction calls arbitrary: cl)
  case (Cons x calls)
  obtain now event data where x: "x = (now, event, data)" by (cases x)
  have "events_effects (x # calls) = (case format_event (hex_id now) event data of Inl _ \<Rightarrow> [] | Inr _ \<Rightarrow> [event_effect (hex_id now) event data]) @ events_effects calls"
    "events_seen (x # calls) = (case format_event (hex_id now) event data of Inl _ \<Rightarrow> [] | Inr _ \<Rightarrow> event_seen (hex_id now) event data) @ events_seen calls"
    by (simp_all add: events_effects_def events_seen_def x)
  then show ?case using Cons by (simp add: event_effect_def split: sum.split)
qed (simp add: events_effects_def events_seen_def)

text \<open>Rounds of the loop that all succeed: the client reads the messages, whatever pings are between them.\<close>

lemma stream_rounds:
  assumes "list_all2 message_ok (concat (map fst rounds)) fs" "\<forall>(_, ok)\<in>set rounds. ok" "cl_data cl = []" "cl_type cl = []"
  shows "sse_read (stream_loop False rounds) cl = fold (\<lambda>f. f) fs cl"
  using assms
proof (induction rounds arbitrary: cl fs)
  case (Cons x rounds)
  obtain msgs where x: "x = (msgs, True)" using Cons.prems(2) by (cases x) auto
  obtain fs1 fs2 where fs: "fs = fs1 @ fs2" "list_all2 message_ok msgs fs1" "list_all2 message_ok (concat (map fst rounds)) fs2"
    using Cons.prems(1) x by (auto simp: list_all2_append1)
  let ?data = "if msgs \<noteq> [] then concat msgs else [CHR '':'', LF]" and ?cl = "fold (\<lambda>f. f) fs1 cl"
  have "sse_read (?data @ stream_loop False rounds) cl = sse_read (stream_loop False rounds) ?cl \<and> cl_data ?cl = [] \<and> cl_type ?cl = []"
  proof (cases "msgs = []")
    case True
    then have "fs1 = []" using fs(2) by simp
    then show ?thesis using True comment_message Cons.prems(3,4) unfolding message_ok_def by auto
  next
    case False
    then show ?thesis using messages_read[OF fs(2) Cons.prems(3,4)] by simp
  qed
  then show ?case using Cons.IH[of fs2 ?cl] Cons.prems(2) fs(1,3) x by (simp add: Let_def)
qed (simp add: sse_read_Nil)



text \<open>Two events of the same microsecond have the same key: whoever has seen the first is not sent the second.\<close>

lemma same_time_event_skipped:
  assumes "0 \<le> t" "2 \<le> n" "format_event (hex_id t) e1 d1 = Inr m1" "format_event (hex_id t) e2 d2 = Inr m2"
  shows "pub_cache (run_puts [(t, e1, d1), (t, e2, d2)] (publisher_init n)) = [(t, m1), (t, m2)] \<and>
    missed_messages (run_puts [(t, e1, d1), (t, e2, d2)] (publisher_init n)) (Some (hex_id t)) = []"
proof -
  have "pub_cache (run_puts [(t, e1, d1), (t, e2, d2)] (publisher_init n)) = [(t, m1), (t, m2)]"
    using assms(2-4) by (simp add: run_puts_def pub_put_run publisher_init_def deque_append_def)
  then show ?thesis by (simp add: missed_messages_def parse_hex_id[OF assms(1)])
qed

section \<open>The events of the ranking\<close>

lemma split_breaks_plain: "no_breaks s \<Longrightarrow> split_breaks s = [s]"
proof (induction s)
  case (Cons c s)
  then have "c \<noteq> CR" "c \<noteq> LF" "no_breaks s" by (auto simp: no_breaks_def)
  then show ?case using Cons.IH by (simp add: split_breaks_char)
qed simp

lemma utf8_plain: "(\<And>c. c \<in> set s \<Longrightarrow> (of_char c :: nat) < 128) \<Longrightarrow> utf8 s = s"
  unfolding utf8_def by (simp add: utf8_char_def concat_map_singleton cong: map_cong)

lemma word_char_plain: "word_char c \<Longrightarrow> (of_char c :: nat) < 128 \<and> c \<noteq> CR \<and> c \<noteq> LF"
  by (auto simp: word_char_def)

text \<open>What a client sees of an event about an entity is the kind of entity, what happened, and the key.\<close>

lemma watcher_entity_seen:
  assumes "event \<in> {''create'', ''update'', ''delete''}" "list_all word_char key"
  shows "\<exists>msg. format_event i (Some (entity_name k)) (Some (event @ '' '' @ key)) = Inr msg"
    "event_seen i (Some (entity_name k)) (Some (event @ '' '' @ key)) = [(i, entity_name k, event @ '' '' @ key)]"
proof -
  have chars: "(of_char c :: nat) < 128 \<and> c \<noteq> CR \<and> c \<noteq> LF" if "c \<in> set (event @ '' '' @ key)" for c
  proof -
    have "list_all (\<lambda>c. (of_char c :: nat) < 128 \<and> c \<noteq> CR \<and> c \<noteq> LF) (event @ '' '')" using assms(1) by auto
    moreover have "list_all (\<lambda>c. (of_char c :: nat) < 128 \<and> c \<noteq> CR \<and> c \<noteq> LF) key"
      using assms(2) by (rule list.pred_mono_strong) (rule word_char_plain)
    ultimately show ?thesis using that unfolding list_all_iff set_append by blast
  qed
  have nb: "no_breaks (event @ '' '' @ key)" unfolding no_breaks_def using chars by blast
  have u: "utf8 (event @ '' '' @ key) = event @ '' '' @ key" by (rule utf8_plain) (use chars in blast)
  show "\<exists>msg. format_event i (Some (entity_name k)) (Some (event @ '' '' @ key)) = Inr msg"
    by (cases k) (simp_all add: format_event_def)
  have "event_type (Some (entity_name k)) = entity_name k" by (cases k) (simp_all add: event_type_def utf8_def utf8_char_def strip_space_def)
  moreover have "strip_space (event @ '' '' @ key) = event @ '' '' @ key" using assms(1) by (auto simp: strip_space_def)
  ultimately show "event_seen i (Some (entity_name k)) (Some (event @ '' '' @ key)) = [(i, entity_name k, event @ '' '' @ key)]"
    unfolding event_seen_def option.case split_breaks_plain[OF nb] list.map comp_apply u by simp
qed

end
