(* ===== verification/File_Cacher.thy ===== *)
theory File_Cacher
  imports Contest_Db
begin

text \<open>
  File storage: \<^verbatim>\<open>cms/db/filecacher.py\<close>. Files are kept by the digest of their content, in a backend (the database, a directory, or
  nowhere) and in a local cache directory that several services may share and from which anyone may delete at any time.
  The digest function is the parameter \<open>hash\<close>. A file object that is being read has the content it had when it was opened. Storing a file
  yields to other greenlets while it copies, so it is split into its steps as well; the locale \<open>file_backend\<close> states what
  the cache needs of a backend.
\<close>

section \<open>The database backend\<close>

text \<open>Rows of \<open>FSObject\<close> by digest, with the id of the large object and the description; the large objects by id.\<close>

record db_store =
  do_rows :: "(string, int \<times> string) dict"
  do_objects :: "(int, string) dict"
  do_next :: int

definition db_get_file :: "db_store \<Rightarrow> digest \<Rightarrow> string res" where
  "db_get_file b d =
     (case map_of (do_rows b) d of
        None \<Rightarrow> Inl KeyError
      | Some (loid, _) \<Rightarrow> (case map_of (do_objects b) loid of None \<Rightarrow> Inl OSError | Some c \<Rightarrow> Inr c))"

definition db_create_file :: "digest \<Rightarrow> db_store \<Rightarrow> db_store \<times> int option" where
  "db_create_file d b =
     (if dict_has (do_rows b) d then (b, None)
      else (b\<lparr>do_objects := dict_set (do_objects b) (do_next b) [], do_next := do_next b + 1\<rparr>, Some (do_next b)))"

definition db_write :: "int \<Rightarrow> string \<Rightarrow> db_store \<Rightarrow> db_store" where
  "db_write loid buf b =
     (case map_of (do_objects b) loid of None \<Rightarrow> b | Some c \<Rightarrow> b\<lparr>do_objects := dict_set (do_objects b) loid (c @ buf)\<rparr>)"

definition db_unlink :: "int \<Rightarrow> db_store \<Rightarrow> db_store" where
  "db_unlink loid b = b\<lparr>do_objects := AList.delete loid (do_objects b)\<rparr>"

text \<open>A second row with the same primary key is an \<open>IntegrityError\<close>, after which the copy is removed.\<close>

definition db_commit_file :: "int \<Rightarrow> digest \<Rightarrow> string \<Rightarrow> db_store \<Rightarrow> db_store \<times> bool" where
  "db_commit_file loid d desc b =
     (if dict_has (do_rows b) d then (db_unlink loid b, False) else (b\<lparr>do_rows := dict_set (do_rows b) d (loid, desc)\<rparr>, True))"

definition db_describe :: "db_store \<Rightarrow> digest \<Rightarrow> string res" where
  "db_describe b d = res_bind (dict_get (do_rows b) d) (\<lambda>(_, desc). Inr desc)"

definition db_get_size :: "db_store \<Rightarrow> digest \<Rightarrow> nat res" where
  "db_get_size b d = res_bind (db_get_file b d) (\<lambda>c. Inr (length c))"

definition db_delete :: "digest \<Rightarrow> db_store \<Rightarrow> db_store" where
  "db_delete d b =
     (case map_of (do_rows b) d of
        None \<Rightarrow> b
      | Some (loid, _) \<Rightarrow> (db_unlink loid b)\<lparr>do_rows := AList.delete d (do_rows b)\<rparr>)"

definition db_list :: "db_store \<Rightarrow> (digest \<times> string) list" where
  "db_list b = map (\<lambda>(d, _, desc). (d, desc)) (do_rows b)"

section \<open>The directory backend\<close>

text \<open>A temporary file is named after the digest with a prefix that no other file has.\<close>

record fs_store =
  fs_dir :: "(string, string) dict"
  fs_next :: nat

definition temp_name :: "nat \<Rightarrow> digest \<Rightarrow> string" where
  "temp_name n d = ''.tmp.'' @ replicate n (CHR ''a'') @ ''_'' @ d"

definition fs_get_file :: "fs_store \<Rightarrow> digest \<Rightarrow> string res" where
  "fs_get_file b d = dict_get (fs_dir b) d"

definition fs_create_file :: "digest \<Rightarrow> fs_store \<Rightarrow> fs_store \<times> string option" where
  "fs_create_file d b =
     (if dict_has (fs_dir b) d then (b, None)
      else let f = temp_name (fs_next b) d in (b\<lparr>fs_dir := dict_set (fs_dir b) f [], fs_next := Suc (fs_next b)\<rparr>, Some f))"

definition fs_write :: "string \<Rightarrow> string \<Rightarrow> fs_store \<Rightarrow> fs_store" where
  "fs_write f buf b = (case map_of (fs_dir b) f of None \<Rightarrow> b | Some c \<Rightarrow> b\<lparr>fs_dir := dict_set (fs_dir b) f (c @ buf)\<rparr>)"

definition fs_commit_file :: "string \<Rightarrow> digest \<Rightarrow> string \<Rightarrow> fs_store \<Rightarrow> fs_store \<times> bool" where
  "fs_commit_file f d desc b =
     (if dict_has (fs_dir b) d then (b\<lparr>fs_dir := AList.delete f (fs_dir b)\<rparr>, False)
      else
        (case map_of (fs_dir b) f of
           None \<Rightarrow> (b, False)
         | Some c \<Rightarrow> (b\<lparr>fs_dir := dict_set (AList.delete f (fs_dir b)) d c\<rparr>, True)))"

definition fs_describe :: "fs_store \<Rightarrow> digest \<Rightarrow> string res" where
  "fs_describe b d = (if dict_has (fs_dir b) d then Inr [] else Inl KeyError)"

definition fs_get_size :: "fs_store \<Rightarrow> digest \<Rightarrow> nat res" where
  "fs_get_size b d = res_bind (fs_get_file b d) (\<lambda>c. Inr (length c))"

definition fs_delete :: "digest \<Rightarrow> fs_store \<Rightarrow> fs_store" where
  "fs_delete d b = b\<lparr>fs_dir := AList.delete d (fs_dir b)\<rparr>"

definition fs_list :: "fs_store \<Rightarrow> (digest \<times> string) list" where
  "fs_list b = map (\<lambda>(x, _). (x, [])) (fs_dir b)"

section \<open>The backend of a file cacher\<close>

datatype backend = DB_Backend db_store | FS_Backend fs_store | Null_Backend

datatype backend_file = DB_File int | FS_File string

fun bk_get_file :: "backend \<Rightarrow> digest \<Rightarrow> string res" where
  "bk_get_file (DB_Backend b) d = db_get_file b d"
| "bk_get_file (FS_Backend b) d = fs_get_file b d"
| "bk_get_file Null_Backend d = Inl KeyError"

fun bk_create_file :: "digest \<Rightarrow> backend \<Rightarrow> backend \<times> backend_file option" where
  "bk_create_file d (DB_Backend b) = (case db_create_file d b of (b', f) \<Rightarrow> (DB_Backend b', map_option DB_File f))"
| "bk_create_file d (FS_Backend b) = (case fs_create_file d b of (b', f) \<Rightarrow> (FS_Backend b', map_option FS_File f))"
| "bk_create_file d Null_Backend = (Null_Backend, None)"

fun bk_write :: "backend_file \<Rightarrow> string \<Rightarrow> backend \<Rightarrow> backend" where
  "bk_write (DB_File f) buf (DB_Backend b) = DB_Backend (db_write f buf b)"
| "bk_write (FS_File f) buf (FS_Backend b) = FS_Backend (fs_write f buf b)"
| "bk_write _ buf b = b"

fun bk_commit_file :: "backend_file \<Rightarrow> digest \<Rightarrow> string \<Rightarrow> backend \<Rightarrow> backend \<times> bool" where
  "bk_commit_file (DB_File f) d desc (DB_Backend b) = (case db_commit_file f d desc b of (b', r) \<Rightarrow> (DB_Backend b', r))"
| "bk_commit_file (FS_File f) d desc (FS_Backend b) = (case fs_commit_file f d desc b of (b', r) \<Rightarrow> (FS_Backend b', r))"
| "bk_commit_file _ d desc b = (b, False)"

fun bk_describe :: "backend \<Rightarrow> digest \<Rightarrow> string res" where
  "bk_describe (DB_Backend b) d = db_describe b d"
| "bk_describe (FS_Backend b) d = fs_describe b d"
| "bk_describe Null_Backend d = Inl KeyError"

fun bk_get_size :: "backend \<Rightarrow> digest \<Rightarrow> nat res" where
  "bk_get_size (DB_Backend b) d = db_get_size b d"
| "bk_get_size (FS_Backend b) d = fs_get_size b d"
| "bk_get_size Null_Backend d = Inl KeyError"

fun bk_delete :: "digest \<Rightarrow> backend \<Rightarrow> backend" where
  "bk_delete d (DB_Backend b) = DB_Backend (db_delete d b)"
| "bk_delete d (FS_Backend b) = FS_Backend (fs_delete d b)"
| "bk_delete d Null_Backend = Null_Backend"

fun bk_list :: "backend \<Rightarrow> (digest \<times> string) list" where
  "bk_list (DB_Backend b) = db_list b"
| "bk_list (FS_Backend b) = fs_list b"
| "bk_list Null_Backend = []"

section \<open>The file cacher\<close>

text \<open>The directory for temporary copies is a subdirectory of the cache directory.\<close>

record file_cacher =
  fc_shared :: bool
  fc_temp :: bool
  fc_dir :: "(string, string) dict"
  fc_backend :: backend

definition check_tombstone :: "digest \<Rightarrow> (file_cacher, unit) stm" where
  "check_tombstone d = (if d = TOMBSTONE then sraise TombstoneError else sret ())"

text \<open>\<open>_load\<close>, with the content instead of the open file; nothing is moved into the cache when the backend does not have the file.\<close>

definition fc_load :: "digest \<Rightarrow> bool \<Rightarrow> (file_cacher, string option) stm" where
  "fc_load d cache_only = (\<lambda>c.
     case map_of (fc_dir c) d of
       Some content \<Rightarrow> (c, Inr (if cache_only then None else Some content))
     | None \<Rightarrow>
         if \<not> fc_temp c then (c, Inl FileNotFoundError)
         else (case bk_get_file (fc_backend c) d of
            Inl e \<Rightarrow> (c, Inl e)
          | Inr content \<Rightarrow> (c\<lparr>fc_dir := dict_set (fc_dir c) d content\<rparr>, Inr (if cache_only then None else Some content))))"

definition fc_cache_file :: "digest \<Rightarrow> (file_cacher, unit) stm" where
  "fc_cache_file d = sthen (check_tombstone d) (sthen (fc_load d True) (sret ()))"

definition fc_get_file :: "digest \<Rightarrow> (file_cacher, string) stm" where
  "fc_get_file d = sthen (check_tombstone d) (sbind (fc_load d False) (\<lambda>x. case x of None \<Rightarrow> sraise AttributeError | Some content \<Rightarrow> sret content))"

definition fc_get_file_content :: "digest \<Rightarrow> (file_cacher, string) stm" where
  "fc_get_file_content d = sthen (check_tombstone d) (fc_get_file d)"

text \<open>Copying to an open file in pieces.\<close>

definition CHUNK_SIZE :: nat where
  "CHUNK_SIZE = 16 * 1024"

function chunks :: "string \<Rightarrow> string list" where
  "chunks s = (if s = [] then [] else take CHUNK_SIZE s # chunks (drop CHUNK_SIZE s))"
  by pat_completeness auto
termination by (relation "measure length") (auto simp: CHUNK_SIZE_def)

declare chunks.simps [simp del]

text \<open>Storing a file: the digest of all of it is computed first, then a file in the backend is created, filled and committed, and last the
  temporary copy becomes the file in the cache.\<close>

definition put_create :: "digest \<Rightarrow> (file_cacher, backend_file option) stm" where
  "put_create d = (\<lambda>c. case bk_create_file d (fc_backend c) of (b, f) \<Rightarrow> (c\<lparr>fc_backend := b\<rparr>, Inr f))"

definition put_write :: "backend_file \<Rightarrow> string \<Rightarrow> (file_cacher, unit) stm" where
  "put_write f buf = supd (\<lambda>c. c\<lparr>fc_backend := bk_write f buf (fc_backend c)\<rparr>)"

definition put_commit :: "backend_file \<Rightarrow> digest \<Rightarrow> string \<Rightarrow> (file_cacher, unit) stm" where
  "put_commit f d desc = supd (\<lambda>c. c\<lparr>fc_backend := fst (bk_commit_file f d desc (fc_backend c))\<rparr>)"

definition put_rename :: "digest \<Rightarrow> string \<Rightarrow> (file_cacher, unit) stm" where
  "put_rename d content = supd (\<lambda>c. c\<lparr>fc_dir := dict_set (fc_dir c) d content\<rparr>)"

definition fc_put_file_content :: "(string \<Rightarrow> digest) \<Rightarrow> string \<Rightarrow> string \<Rightarrow> (file_cacher, digest) stm" where
  "fc_put_file_content hash content desc =
     (let d = hash content in
      sbind (sget fc_temp) (\<lambda>temp.
      if \<not> temp then sraise FileNotFoundError
      else sbind (put_create d) (\<lambda>f.
        sthen (case f of None \<Rightarrow> sret () | Some f \<Rightarrow> sthen (sforeach (chunks content) (put_write f)) (put_commit f d desc))
        (sthen (put_rename d content) (sret d)))))"

definition fc_describe :: "digest \<Rightarrow> (file_cacher, string) stm" where
  "fc_describe d = sthen (check_tombstone d) (\<lambda>c. (c, bk_describe (fc_backend c) d))"

definition fc_get_size :: "digest \<Rightarrow> (file_cacher, nat) stm" where
  "fc_get_size d = sthen (check_tombstone d) (\<lambda>c. (c, bk_get_size (fc_backend c) d))"

definition fc_drop :: "digest \<Rightarrow> (file_cacher, unit) stm" where
  "fc_drop d = (if d = TOMBSTONE then sret () else supd (\<lambda>c. c\<lparr>fc_dir := AList.delete d (fc_dir c)\<rparr>))"

definition fc_delete :: "digest \<Rightarrow> (file_cacher, unit) stm" where
  "fc_delete d = (if d = TOMBSTONE then sret () else sthen (fc_drop d) (supd (\<lambda>c. c\<lparr>fc_backend := bk_delete d (fc_backend c)\<rparr>)))"

definition fc_destroy_cache :: "(file_cacher, unit) stm" where
  "fc_destroy_cache = sbind (sget fc_shared) (\<lambda>shared. if shared then sraise PyException else supd (\<lambda>c. c\<lparr>fc_dir := [], fc_temp := False\<rparr>))"

text \<open>\<open>purge_cache\<close> makes the cache directory again, but not the one for temporary copies.\<close>

definition fc_purge_cache :: "(file_cacher, unit) stm" where
  "fc_purge_cache = fc_destroy_cache"

definition fc_list :: "(file_cacher, (digest \<times> string) list) stm" where
  "fc_list = sget (\<lambda>c. bk_list (fc_backend c))"

definition check_backend_integrity :: "(string \<Rightarrow> digest) \<Rightarrow> bool \<Rightarrow> (file_cacher, bool) stm" where
  "check_backend_integrity hash delete =
     sbind fc_list (\<lambda>files.
       sfold files (\<lambda>(d, _) clean.
         sbind (\<lambda>c. (c, bk_get_file (fc_backend c) d)) (\<lambda>content.
         if d = hash content then sret clean
         else sthen (if delete then fc_delete d else sret ()) (sret False))) True)"

text \<open>The lock that keeps two services of a machine from caching the same files at once is whether the file is locked.\<close>

definition precache_lock :: "bool \<Rightarrow> bool \<times> bool" where
  "precache_lock locked = (True, \<not> locked)"

section \<open>What the cache needs of a backend\<close>

text \<open>The names that temporary files never have.\<close>

definition file_name :: "string \<Rightarrow> bool" where
  "file_name d \<longleftrightarrow> take 5 d \<noteq> ''.tmp.''"

locale file_backend =
  fixes get :: "'b \<Rightarrow> digest \<Rightarrow> string res"
    and create :: "digest \<Rightarrow> 'b \<Rightarrow> 'b \<times> 'f option"
    and append :: "'f \<Rightarrow> string \<Rightarrow> 'b \<Rightarrow> 'b"
    and commit :: "'f \<Rightarrow> digest \<Rightarrow> string \<Rightarrow> 'b \<Rightarrow> 'b \<times> bool"
    and delete :: "digest \<Rightarrow> 'b \<Rightarrow> 'b"
    and stored :: "'b \<Rightarrow> digest \<Rightarrow> string option"
    and opened :: "'b \<Rightarrow> 'f \<Rightarrow> string option"
    and inv :: "'b \<Rightarrow> bool"
  assumes get_stored: "inv b \<Longrightarrow> file_name d \<Longrightarrow> get b d = (case stored b d of None \<Rightarrow> Inl KeyError | Some c \<Rightarrow> Inr c)"
    and create_none: "inv b \<Longrightarrow> create d b = (b', None) \<Longrightarrow> b' = b"
    and create_some: "inv b \<Longrightarrow> file_name d \<Longrightarrow> create d b = (b', Some f) \<Longrightarrow>
      inv b' \<and> stored b d = None \<and> stored b' = stored b \<and> opened b f = None \<and> opened b' = (opened b)(f \<mapsto> [])"
    and write_opened: "inv b \<Longrightarrow> opened b f = Some w \<Longrightarrow>
      inv (append f buf b) \<and> stored (append f buf b) = stored b \<and> opened (append f buf b) = (opened b)(f \<mapsto> w @ buf)"
    and commit_opened: "inv b \<Longrightarrow> file_name d \<Longrightarrow> opened b f = Some w \<Longrightarrow> commit f d desc b = (b', r) \<Longrightarrow>
      inv b' \<and> stored b' = (if stored b d = None then (stored b)(d \<mapsto> w) else stored b) \<and> opened b' = (opened b)(f := None) \<and>
      (r \<longleftrightarrow> stored b d = None)"
    and delete_stored: "inv b \<Longrightarrow> file_name d \<Longrightarrow> inv (delete d b) \<and> stored (delete d b) = (stored b)(d := None) \<and> opened (delete d b) = opened b"
begin

lemma write_all:
  "inv b \<Longrightarrow> opened b f = Some w \<Longrightarrow>
   inv (fold (append f) bufs b) \<and> stored (fold (append f) bufs b) = stored b \<and> opened (fold (append f) bufs b) = (opened b)(f \<mapsto> w @ concat bufs)"
proof (induction bufs arbitrary: b w)
  case (Cons buf bufs)
  have "inv (append f buf b)" "stored (append f buf b) = stored b" "opened (append f buf b) = (opened b)(f \<mapsto> w @ buf)"
    using write_opened[OF Cons.prems] by simp_all
  then show ?case using Cons.IH[of "append f buf b" "w @ buf"] by (auto simp: fun_eq_iff)
qed auto

text \<open>A file that is created, filled and committed without a pause is stored, and leaves nothing else behind.\<close>

lemma store_whole:
  assumes "inv b" "file_name d" "create d b = (b1, Some f)" "commit f d desc (fold (append f) bufs b1) = (b2, r)"
  shows "inv b2 \<and> stored b2 = (stored b)(d \<mapsto> concat bufs) \<and> opened b2 = opened b \<and> r"
proof -
  note c = create_some[OF assms(1-3)]
  have w: "inv (fold (append f) bufs b1)" "stored (fold (append f) bufs b1) = stored b" "opened (fold (append f) bufs b1) = (opened b)(f \<mapsto> concat bufs)"
    using write_all[of b1 f "[]" bufs] c by simp_all
  show ?thesis using commit_opened[OF w(1) assms(2) _ assms(4)] c w by auto
qed

end

text \<open>A backend that keeps what it is given refuses to create a file only when it has it.\<close>

locale durable_backend = file_backend +
  assumes create_present: "inv b \<Longrightarrow> file_name d \<Longrightarrow> create d b = (b', None) \<Longrightarrow> stored b d \<noteq> None"
begin

text \<open>Storing a file makes it available, whether the file was there or not.\<close>

lemma available_after_put:
  assumes "inv b" "file_name d" "create d b = (b1, r)" "\<And>f. r = Some f \<Longrightarrow> commit f d desc (fold (append f) bufs b1) = (b2, t)"
    "r = None \<Longrightarrow> b2 = b1"
  shows "stored b2 d \<noteq> None"
proof (cases r)
  case None
  then show ?thesis using create_present[OF assms(1,2)] create_none[OF assms(1)] assms(3,5) by auto
next
  case (Some f)
  then show ?thesis using store_whole[OF assms(1,2)] assms(3,4) by auto
qed

end

subsection \<open>The database\<close>

definition db_stored :: "db_store \<Rightarrow> digest \<Rightarrow> string option" where
  "db_stored b d = (case map_of (do_rows b) d of None \<Rightarrow> None | Some (loid, _) \<Rightarrow> map_of (do_objects b) loid)"

text \<open>A large object is open as long as no row refers to it.\<close>

definition db_opened :: "db_store \<Rightarrow> int \<Rightarrow> string option" where
  "db_opened b loid = (if \<exists>d desc. map_of (do_rows b) d = Some (loid, desc) then None else map_of (do_objects b) loid)"

definition db_inv :: "db_store \<Rightarrow> bool" where
  "db_inv b \<longleftrightarrow>
     (\<forall>d loid desc. map_of (do_rows b) d = Some (loid, desc) \<longrightarrow> map_of (do_objects b) loid \<noteq> None) \<and>
     (\<forall>d e loid x y. map_of (do_rows b) d = Some (loid, x) \<longrightarrow> map_of (do_rows b) e = Some (loid, y) \<longrightarrow> d = e) \<and>
     (\<forall>loid c. map_of (do_objects b) loid = Some c \<longrightarrow> loid < do_next b)"

lemma db_invD:
  assumes "db_inv b"
  shows "map_of (do_rows b) d = Some (loid, desc) \<Longrightarrow> \<exists>c. map_of (do_objects b) loid = Some c"
    and "map_of (do_rows b) d = Some (loid, x) \<Longrightarrow> map_of (do_rows b) e = Some (loid, y) \<Longrightarrow> d = e"
    and "map_of (do_objects b) loid = Some c \<Longrightarrow> loid < do_next b"
  using assms unfolding db_inv_def by blast+

lemma db_invI:
  assumes "\<And>d loid desc. map_of (do_rows b) d = Some (loid, desc) \<Longrightarrow> map_of (do_objects b) loid \<noteq> None"
    and "\<And>d e loid x y. map_of (do_rows b) d = Some (loid, x) \<Longrightarrow> map_of (do_rows b) e = Some (loid, y) \<Longrightarrow> d = e"
    and "\<And>loid c. map_of (do_objects b) loid = Some c \<Longrightarrow> loid < do_next b"
  shows "db_inv b"
  using assms unfolding db_inv_def by blast

lemma db_create_some:
  assumes "db_inv b" "db_create_file d b = (b', Some f)"
  shows "db_inv b' \<and> db_stored b d = None \<and> db_stored b' = db_stored b \<and> db_opened b f = None \<and> db_opened b' = (db_opened b)(f \<mapsto> [])"
proof -
  note D = db_invD[OF assms(1)]
  have b': "b' = b\<lparr>do_objects := dict_set (do_objects b) f [], do_next := f + 1\<rparr>" "f = do_next b" "map_of (do_rows b) d = None"
    using assms(2) by (cases "map_of (do_rows b) d"; simp add: db_create_file_def dict_has_def)+
  have fresh: "map_of (do_objects b) f = None" using D(3)[of f] b'(2) by (cases "map_of (do_objects b) f") auto
  have unused: "map_of (do_rows b) e \<noteq> Some (f, x)" for e x using D(1)[of e f x] fresh by auto
  have "db_inv b'"
    by (rule db_invI) (use D b'(2) in \<open>auto simp: b'(1) dict_simps split: if_splits intro: less_imp_le\<close>)
  moreover have "db_stored b' e = db_stored b e" for e
    using unused[of e] by (auto simp: db_stored_def b'(1) dict_simps split: option.splits)
  moreover have "db_opened b' g = ((db_opened b)(f \<mapsto> [])) g" for g
    using unused by (simp add: db_opened_def b'(1) dict_simps)
  moreover have "db_stored b d = None" "db_opened b f = None" using b'(3) fresh by (simp_all add: db_stored_def db_opened_def)
  ultimately show ?thesis by blast
qed

lemma db_write_opened:
  assumes "db_inv b" "db_opened b f = Some w"
  shows "db_inv (db_write f buf b) \<and> db_stored (db_write f buf b) = db_stored b \<and> db_opened (db_write f buf b) = (db_opened b)(f \<mapsto> w @ buf)"
proof -
  have o: "map_of (do_objects b) f = Some w" "map_of (do_rows b) e \<noteq> Some (f, x)" for e x
    using assms(2) by (auto simp: db_opened_def split: if_splits)
  then have b': "db_write f buf b = b\<lparr>do_objects := dict_set (do_objects b) f (w @ buf)\<rparr>" by (simp add: db_write_def)
  have "db_inv (db_write f buf b)"
    by (rule db_invI) (use db_invD[OF assms(1)] o(1) in \<open>auto simp: b' dict_simps split: if_splits\<close>)
  moreover have "db_stored (db_write f buf b) e = db_stored b e" for e
    using o(2)[of e] by (auto simp: db_stored_def b' dict_simps split: option.splits)
  moreover have "db_opened (db_write f buf b) g = ((db_opened b)(f \<mapsto> w @ buf)) g" for g
    using o by (simp add: db_opened_def b' dict_simps)
  ultimately show ?thesis by blast
qed

lemma db_commit_opened:
  assumes "db_inv b" "db_opened b f = Some w" "db_commit_file f d desc b = (b', r)"
  shows "db_inv b' \<and> db_stored b' = (if db_stored b d = None then (db_stored b)(d \<mapsto> w) else db_stored b) \<and>
    db_opened b' = (db_opened b)(f := None) \<and> (r \<longleftrightarrow> db_stored b d = None)"
proof -
  note D = db_invD[OF assms(1)]
  have o: "map_of (do_objects b) f = Some w" "map_of (do_rows b) e \<noteq> Some (f, x)" for e x
    using assms(2) by (auto simp: db_opened_def split: if_splits)
  have n: "db_stored b d = None \<longleftrightarrow> map_of (do_rows b) d = None"
    using D(1)[of d] by (auto simp: db_stored_def split: option.splits)
  show ?thesis
  proof (cases "map_of (do_rows b) d")
    case None
    then have b': "b' = b\<lparr>do_rows := dict_set (do_rows b) d (f, desc)\<rparr>" "r" using assms(3) by (simp_all add: db_commit_file_def dict_has_def)
    have "db_inv b'"
      by (rule db_invI) (use D o in \<open>auto simp: b'(1) dict_simps split: if_splits\<close>)
    moreover have "db_stored b' e = ((db_stored b)(d \<mapsto> w)) e" for e using o(1) by (simp add: db_stored_def b'(1) dict_simps split: option.split)
    moreover have "db_opened b' g = ((db_opened b)(f := None)) g" for g
      using None by (auto simp: db_opened_def b'(1) dict_simps split: if_splits)
    ultimately show ?thesis using n None b'(2) by auto
  next
    case (Some y)
    then have b': "b' = db_unlink f b" "\<not> r" using assms(3) by (simp_all add: db_commit_file_def dict_has_def)
    have "db_inv b'"
      by (rule db_invI) (use D o(2) in \<open>auto simp: b'(1) db_unlink_def dict_simps split: if_splits\<close>)
    moreover have "db_stored b' e = db_stored b e" for e
      using o(2)[of e] by (auto simp: db_stored_def b'(1) db_unlink_def dict_simps split: option.splits)
    moreover have "db_opened b' g = ((db_opened b)(f := None)) g" for g
      by (simp add: db_opened_def b'(1) db_unlink_def dict_simps)
    ultimately show ?thesis using n Some b'(2) by auto
  qed
qed

lemma db_delete_stored:
  assumes "db_inv b"
  shows "db_inv (db_delete d b) \<and> db_stored (db_delete d b) = (db_stored b)(d := None) \<and> db_opened (db_delete d b) = db_opened b"
proof (cases "map_of (do_rows b) d")
  case None
  have "(db_stored b)(d := None) = db_stored b" by (rule fun_upd_idem) (simp add: db_stored_def None)
  then show ?thesis using assms None by (simp add: db_delete_def)
next
  case (Some y)
  obtain f desc where y: "y = (f, desc)" by (cases y)
  note D = db_invD[OF assms]
  have o: "e = d" if "map_of (do_rows b) e = Some (f, x)" for e x using D(2)[OF that] Some y by auto
  have b': "db_delete d b = (db_unlink f b)\<lparr>do_rows := AList.delete d (do_rows b)\<rparr>" using Some y by (simp add: db_delete_def)
  have rows: "map_of (do_rows (db_delete d b)) e = Some x \<longleftrightarrow> e \<noteq> d \<and> map_of (do_rows b) e = Some x" for e x by (simp add: b' dict_simps)
  have objects: "map_of (do_objects (db_delete d b)) g = (if g = f then None else map_of (do_objects b) g)" for g
    by (simp add: b' db_unlink_def dict_simps)
  have "do_next (db_delete d b) = do_next b" by (simp add: b' db_unlink_def)
  then have "db_inv (db_delete d b)" unfolding db_inv_def rows objects using D o by (auto split: if_splits)
  moreover have "db_stored (db_delete d b) e = ((db_stored b)(d := None)) e" for e
    using o[of e] by (auto simp: db_stored_def b' db_unlink_def dict_simps split: option.splits)
  moreover have "db_opened (db_delete d b) g = db_opened b g" for g
  proof (cases "g = f")
    case True
    then show ?thesis using Some y by (auto simp: db_opened_def objects)
  next
    case False
    then have "(\<exists>e x. map_of (do_rows (db_delete d b)) e = Some (g, x)) \<longleftrightarrow> (\<exists>e x. map_of (do_rows b) e = Some (g, x))"
      unfolding rows using Some y by (metis option.inject prod.inject)
    then show ?thesis using False by (simp add: db_opened_def objects)
  qed
  ultimately show ?thesis by blast
qed

interpretation db_files: file_backend db_get_file db_create_file db_write db_commit_file db_delete db_stored db_opened db_inv
proof
  fix b d assume "db_inv b" "file_name d"
  then show "db_get_file b d = (case db_stored b d of None \<Rightarrow> Inl KeyError | Some c \<Rightarrow> Inr c)"
    using db_invD(1)[of b d] by (auto simp: db_get_file_def db_stored_def split: option.splits)
next
  fix b d b' assume "db_create_file d b = (b', None)"
  then show "b' = b" by (simp add: db_create_file_def split: if_splits)
qed (erule (1) db_create_some | erule (1) db_write_opened | erule (2) db_commit_opened | erule db_delete_stored)+

interpretation db_files: durable_backend db_get_file db_create_file db_write db_commit_file db_delete db_stored db_opened db_inv
  by unfold_locales (use db_invD(1) in \<open>fastforce simp: db_create_file_def db_stored_def dict_has_def split: if_splits option.splits\<close>)

subsection \<open>The directory\<close>

definition fs_stored :: "fs_store \<Rightarrow> digest \<Rightarrow> string option" where
  "fs_stored b d = (if file_name d then map_of (fs_dir b) d else None)"

definition fs_opened :: "fs_store \<Rightarrow> string \<Rightarrow> string option" where
  "fs_opened b f = (if file_name f then None else map_of (fs_dir b) f)"

definition fs_inv :: "fs_store \<Rightarrow> bool" where
  "fs_inv b \<longleftrightarrow> (\<forall>n d. fs_next b \<le> n \<longrightarrow> map_of (fs_dir b) (temp_name n d) = None)"

lemma temp_name_not_file_name [simp]: "\<not> file_name (temp_name n d)"
  by (simp add: file_name_def temp_name_def)

lemma temp_name_inject: "temp_name m d = temp_name n e \<Longrightarrow> m = n"
proof -
  have t: "takeWhile (\<lambda>c. c = CHR ''a'') (replicate k (CHR ''a'') @ ''_'' @ x) = replicate k (CHR ''a'')" for k x by (induction k) auto
  assume "temp_name m d = temp_name n e"
  then have "takeWhile (\<lambda>c. c = CHR ''a'') (replicate m (CHR ''a'') @ ''_'' @ d) = takeWhile (\<lambda>c. c = CHR ''a'') (replicate n (CHR ''a'') @ ''_'' @ e)"
    by (simp add: temp_name_def)
  then have "length (replicate m (CHR ''a'')) = length (replicate n (CHR ''a''))" unfolding t by metis
  then show ?thesis by simp
qed

lemma fs_create_some:
  assumes "fs_inv b" "file_name d" "fs_create_file d b = (b', Some f)"
  shows "fs_inv b' \<and> fs_stored b d = None \<and> fs_stored b' = fs_stored b \<and> fs_opened b f = None \<and> fs_opened b' = (fs_opened b)(f \<mapsto> [])"
proof -
  have b': "b' = b\<lparr>fs_dir := dict_set (fs_dir b) f [], fs_next := Suc (fs_next b)\<rparr>" "f = temp_name (fs_next b) d" "map_of (fs_dir b) d = None"
    using assms(3) by (auto simp: fs_create_file_def dict_has_def Let_def split: if_splits)
  have "fs_inv b'" using assms(1) by (auto simp: fs_inv_def b'(1,2) dict_simps dest: temp_name_inject)
  moreover have "fs_stored b' = fs_stored b" "fs_opened b' = (fs_opened b)(f \<mapsto> [])"
    by (auto simp: fs_stored_def fs_opened_def b'(1,2) dict_simps fun_eq_iff)
  moreover have "fs_stored b d = None" "fs_opened b f = None" using assms(1) b'(3) by (simp_all add: fs_stored_def fs_opened_def fs_inv_def b'(2))
  ultimately show ?thesis by blast
qed

lemma fs_write_opened:
  assumes "fs_inv b" "fs_opened b f = Some w"
  shows "fs_inv (fs_write f buf b) \<and> fs_stored (fs_write f buf b) = fs_stored b \<and> fs_opened (fs_write f buf b) = (fs_opened b)(f \<mapsto> w @ buf)"
proof -
  have o: "map_of (fs_dir b) f = Some w" "\<not> file_name f" using assms(2) by (auto simp: fs_opened_def split: if_splits)
  then have b': "fs_write f buf b = b\<lparr>fs_dir := dict_set (fs_dir b) f (w @ buf)\<rparr>" by (simp add: fs_write_def)
  have "fs_inv (fs_write f buf b)" using assms(1) o(1) by (auto simp: fs_inv_def b' dict_simps)
  moreover have "fs_stored (fs_write f buf b) = fs_stored b" "fs_opened (fs_write f buf b) = (fs_opened b)(f \<mapsto> w @ buf)"
    using o(2) by (auto simp: fs_stored_def fs_opened_def b' dict_simps fun_eq_iff)
  ultimately show ?thesis by blast
qed

lemma fs_commit_opened:
  assumes "fs_inv b" "file_name d" "fs_opened b f = Some w" "fs_commit_file f d desc b = (b', r)"
  shows "fs_inv b' \<and> fs_stored b' = (if fs_stored b d = None then (fs_stored b)(d \<mapsto> w) else fs_stored b) \<and>
    fs_opened b' = (fs_opened b)(f := None) \<and> (r \<longleftrightarrow> fs_stored b d = None)"
proof -
  have o: "map_of (fs_dir b) f = Some w" "\<not> file_name f" using assms(3) by (auto simp: fs_opened_def split: if_splits)
  have n: "fs_stored b d = map_of (fs_dir b) d" using assms(2) by (simp add: fs_stored_def)
  have dir: "map_of (fs_dir b') = (if map_of (fs_dir b) d = None then (map_of (fs_dir b))(f := None, d \<mapsto> w) else (map_of (fs_dir b))(f := None))"
    and r: "r \<longleftrightarrow> map_of (fs_dir b) d = None" and next_name: "fs_next b' = fs_next b"
    using assms(4) o(1) by (auto simp: fs_commit_file_def dict_has_def dict_simps split: if_splits)
  have "fs_inv b'" using assms(1,2) by (auto simp: fs_inv_def dir next_name)
  moreover have "fs_stored b' = (if fs_stored b d = None then (fs_stored b)(d \<mapsto> w) else fs_stored b)" "fs_opened b' = (fs_opened b)(f := None)"
    using assms(2) o(2) by (auto simp: fs_stored_def fs_opened_def dir fun_eq_iff)
  ultimately show ?thesis using r n by simp
qed

lemma fs_delete_stored:
  assumes "fs_inv b" "file_name d"
  shows "fs_inv (fs_delete d b) \<and> fs_stored (fs_delete d b) = (fs_stored b)(d := None) \<and> fs_opened (fs_delete d b) = fs_opened b"
  using assms by (auto simp: fs_inv_def fs_stored_def fs_opened_def fs_delete_def dict_simps fun_eq_iff)

interpretation fs_files: file_backend fs_get_file fs_create_file fs_write fs_commit_file fs_delete fs_stored fs_opened fs_inv
proof
  fix b d assume "fs_inv b" "file_name d"
  then show "fs_get_file b d = (case fs_stored b d of None \<Rightarrow> Inl KeyError | Some c \<Rightarrow> Inr c)"
    by (simp add: fs_get_file_def fs_stored_def dict_get_def)
next
  fix b d b' assume "fs_create_file d b = (b', None)"
  then show "b' = b" by (simp add: fs_create_file_def Let_def split: if_splits)
qed (erule (2) fs_create_some | erule (1) fs_write_opened | erule (3) fs_commit_opened | erule (1) fs_delete_stored)+

interpretation fs_files: durable_backend fs_get_file fs_create_file fs_write fs_commit_file fs_delete fs_stored fs_opened fs_inv
  by unfold_locales (simp add: fs_create_file_def fs_stored_def dict_has_def Let_def split: if_splits)

subsection \<open>The backend of a file cacher\<close>

fun bk_stored :: "backend \<Rightarrow> digest \<Rightarrow> string option" where
  "bk_stored (DB_Backend b) d = db_stored b d"
| "bk_stored (FS_Backend b) d = fs_stored b d"
| "bk_stored Null_Backend d = None"

fun bk_opened :: "backend \<Rightarrow> backend_file \<Rightarrow> string option" where
  "bk_opened (DB_Backend b) (DB_File f) = db_opened b f"
| "bk_opened (FS_Backend b) (FS_File f) = fs_opened b f"
| "bk_opened _ _ = None"

fun bk_inv :: "backend \<Rightarrow> bool" where
  "bk_inv (DB_Backend b) = db_inv b"
| "bk_inv (FS_Backend b) = fs_inv b"
| "bk_inv Null_Backend = True"

lemma bk_opened_upd:
  "db_opened b' = (db_opened b)(f := x) \<Longrightarrow> bk_opened (DB_Backend b') = (bk_opened (DB_Backend b))(DB_File f := x)"
  "fs_opened c' = (fs_opened c)(g := x) \<Longrightarrow> bk_opened (FS_Backend c') = (bk_opened (FS_Backend c))(FS_File g := x)"
  "db_opened b' = db_opened b \<Longrightarrow> bk_opened (DB_Backend b') = bk_opened (DB_Backend b)"
  "fs_opened c' = fs_opened c \<Longrightarrow> bk_opened (FS_Backend c') = bk_opened (FS_Backend c)"
  by (rule ext, rename_tac h, case_tac h, simp_all)+

lemma bk_stored_fun [simp]: "bk_stored (DB_Backend b) = db_stored b" "bk_stored (FS_Backend c) = fs_stored c" "bk_stored Null_Backend = (\<lambda>_. None)"
  by auto

interpretation bk_files: file_backend bk_get_file bk_create_file bk_write bk_commit_file bk_delete bk_stored bk_opened bk_inv
proof
  fix b d assume "bk_inv b" "file_name d"
  then show "bk_get_file b d = (case bk_stored b d of None \<Rightarrow> Inl KeyError | Some c \<Rightarrow> Inr c)"
    by (cases b) (simp_all add: db_files.get_stored fs_files.get_stored)
next
  fix b d b' assume "bk_inv b" "bk_create_file d b = (b', None)"
  then show "b' = b" by (cases b) (auto split: prod.splits dest: db_files.create_none fs_files.create_none)
next
  fix b d b' f assume a: "bk_inv b" "file_name d" "bk_create_file d b = (b', Some f)"
  show "bk_inv b' \<and> bk_stored b d = None \<and> bk_stored b' = bk_stored b \<and> bk_opened b f = None \<and> bk_opened b' = (bk_opened b)(f \<mapsto> [])"
  proof (cases b)
    case (DB_Backend c)
    then obtain c' g where "db_create_file d c = (c', Some g)" "b' = DB_Backend c'" "f = DB_File g" using a(3) by (auto split: prod.splits)
    then show ?thesis using db_files.create_some[of c d c' g] bk_opened_upd(1)[of c' c g "Some []"] a(1,2) DB_Backend by simp
  next
    case (FS_Backend c)
    then obtain c' g where "fs_create_file d c = (c', Some g)" "b' = FS_Backend c'" "f = FS_File g" using a(3) by (auto split: prod.splits)
    then show ?thesis using fs_files.create_some[of c d c' g] bk_opened_upd(2)[of c' c g "Some []"] a(1,2) FS_Backend by simp
  qed (use a(3) in simp)
next
  fix b f w buf assume a: "bk_inv b" "bk_opened b f = Some w"
  show "bk_inv (bk_write f buf b) \<and> bk_stored (bk_write f buf b) = bk_stored b \<and> bk_opened (bk_write f buf b) = (bk_opened b)(f \<mapsto> w @ buf)"
  proof (cases b)
    case (DB_Backend c)
    then obtain g where "f = DB_File g" "db_opened c g = Some w" using a(2) by (cases f) auto
    then show ?thesis using db_files.write_opened[of c g w buf] bk_opened_upd(1)[of "db_write g buf c" c g "Some (w @ buf)"] a(1) DB_Backend by simp
  next
    case (FS_Backend c)
    then obtain g where "f = FS_File g" "fs_opened c g = Some w" using a(2) by (cases f) auto
    then show ?thesis using fs_files.write_opened[of c g w buf] bk_opened_upd(2)[of "fs_write g buf c" c g "Some (w @ buf)"] a(1) FS_Backend by simp
  qed (use a(2) in simp)
next
  fix b d f w desc b' r assume a: "bk_inv b" "file_name d" "bk_opened b f = Some w" "bk_commit_file f d desc b = (b', r)"
  show "bk_inv b' \<and> bk_stored b' = (if bk_stored b d = None then (bk_stored b)(d \<mapsto> w) else bk_stored b) \<and>
      bk_opened b' = (bk_opened b)(f := None) \<and> (r \<longleftrightarrow> bk_stored b d = None)"
  proof (cases b)
    case (DB_Backend c)
    then obtain g c' where g: "f = DB_File g" "db_opened c g = Some w" "db_commit_file g d desc c = (c', r)" "b' = DB_Backend c'"
      using a(3,4) by (cases f) (auto split: prod.splits)
    show ?thesis using db_files.commit_opened[OF _ a(2) g(2,3)] bk_opened_upd(1)[of c' c g None] a(1) DB_Backend g(1,4) by simp
  next
    case (FS_Backend c)
    then obtain g c' where g: "f = FS_File g" "fs_opened c g = Some w" "fs_commit_file g d desc c = (c', r)" "b' = FS_Backend c'"
      using a(3,4) by (cases f) (auto split: prod.splits)
    show ?thesis using fs_files.commit_opened[OF _ a(2) g(2,3)] bk_opened_upd(2)[of c' c g None] a(1) FS_Backend g(1,4) by simp
  qed (use a(3) in simp)
next
  fix b d assume a: "bk_inv b" "file_name d"
  show "bk_inv (bk_delete d b) \<and> bk_stored (bk_delete d b) = (bk_stored b)(d := None) \<and> bk_opened (bk_delete d b) = bk_opened b"
  proof (cases b)
    case (DB_Backend c)
    then show ?thesis using db_files.delete_stored[of c d] bk_opened_upd(3)[of "db_delete d c" c] a by simp
  next
    case (FS_Backend c)
    then show ?thesis using fs_files.delete_stored[of c d] bk_opened_upd(4)[of "fs_delete d c" c] a by simp
  qed (auto simp: fun_eq_iff)
qed

section \<open>Several services\<close>

text \<open>Services with a cache each and the backend in common. Storing files is interrupted while copying; a service may die in the
  middle of it. \<open>fy_contents\<close> and \<open>fy_done\<close> record what has been given to \<open>put_file_content\<close> and the digests it has returned.\<close>

record pending_put =
  pp_service :: nat
  pp_content :: string
  pp_desc :: string
  pp_file :: "backend_file option"
  pp_rest :: string

record file_system =
  fy_backend :: backend
  fy_caches :: "(string, string) dict list"
  fy_puts :: "pending_put list"
  fy_contents :: "string list"
  fy_done :: "digest list"

definition cacher_of :: "nat \<Rightarrow> file_system \<Rightarrow> file_cacher" where
  "cacher_of i s = \<lparr>fc_shared = True, fc_temp = True, fc_dir = fy_caches s ! i, fc_backend = fy_backend s\<rparr>"

definition on_service :: "nat \<Rightarrow> (file_cacher, 'a) stm \<Rightarrow> (file_system, 'a) stm" where
  "on_service i m = (\<lambda>s. case m (cacher_of i s) of (c, r) \<Rightarrow>
     (s\<lparr>fy_caches := (fy_caches s)[i := fc_dir c], fy_backend := fc_backend c\<rparr>, r))"

definition start_put :: "(string \<Rightarrow> digest) \<Rightarrow> nat \<Rightarrow> string \<Rightarrow> string \<Rightarrow> file_system \<Rightarrow> file_system" where
  "start_put hash i content desc s =
     (case on_service i (put_create (hash content)) s of
        (s, Inl _) \<Rightarrow> s
      | (s, Inr f) \<Rightarrow> s\<lparr>fy_contents := content # fy_contents s,
          fy_puts := fy_puts s @ [\<lparr>pp_service = i, pp_content = content, pp_desc = desc, pp_file = f, pp_rest = content\<rparr>]\<rparr>)"

definition finish_put :: "(string \<Rightarrow> digest) \<Rightarrow> pending_put \<Rightarrow> file_system \<Rightarrow> file_system" where
  "finish_put hash p s =
     (let d = hash (pp_content p);
          s = fst (on_service (pp_service p) (sthen (case pp_file p of None \<Rightarrow> sret () | Some f \<Rightarrow> put_commit f d (pp_desc p)) (put_rename d (pp_content p))) s)
      in s\<lparr>fy_done := d # fy_done s\<rparr>)"

text \<open>Only files with digests in \<open>D\<close> are deleted.\<close>

inductive files_reach :: "(string \<Rightarrow> digest) \<Rightarrow> digest set \<Rightarrow> file_system \<Rightarrow> file_system \<Rightarrow> bool" for hash D s0 where
  files_init: "files_reach hash D s0 s0"
| files_start: "files_reach hash D s0 s \<Longrightarrow> i < length (fy_caches s) \<Longrightarrow> files_reach hash D s0 (start_put hash i content desc s)"
| files_copy: "files_reach hash D s0 s \<Longrightarrow> fy_puts s = xs @ p # ys \<Longrightarrow> pp_file p = Some f \<Longrightarrow>
    files_reach hash D s0 ((fst (on_service (pp_service p) (put_write f (take n (pp_rest p))) s))\<lparr>fy_puts := xs @ p\<lparr>pp_rest := drop n (pp_rest p)\<rparr> # ys\<rparr>)"
| files_finish: "files_reach hash D s0 s \<Longrightarrow> fy_puts s = xs @ p # ys \<Longrightarrow> pp_file p = None \<or> pp_rest p = [] \<Longrightarrow>
    files_reach hash D s0 ((finish_put hash p s)\<lparr>fy_puts := xs @ ys\<rparr>)"
| files_die: "files_reach hash D s0 s \<Longrightarrow> fy_puts s = xs @ p # ys \<Longrightarrow> files_reach hash D s0 (s\<lparr>fy_puts := xs @ ys\<rparr>)"
| files_get: "files_reach hash D s0 s \<Longrightarrow> i < length (fy_caches s) \<Longrightarrow> file_name d \<Longrightarrow> files_reach hash D s0 (fst (on_service i (fc_get_file_content d) s))"
| files_cache: "files_reach hash D s0 s \<Longrightarrow> i < length (fy_caches s) \<Longrightarrow> file_name d \<Longrightarrow> files_reach hash D s0 (fst (on_service i (fc_cache_file d) s))"
| files_drop: "files_reach hash D s0 s \<Longrightarrow> i < length (fy_caches s) \<Longrightarrow> files_reach hash D s0 (fst (on_service i (fc_drop d) s))"
| files_delete: "files_reach hash D s0 s \<Longrightarrow> i < length (fy_caches s) \<Longrightarrow> file_name d \<Longrightarrow> d \<in> D \<Longrightarrow>
    files_reach hash D s0 (fst (on_service i (fc_delete d) s))"

definition files_begin :: "backend \<Rightarrow> nat \<Rightarrow> file_system" where
  "files_begin b n = \<lparr>fy_backend = b, fy_caches = replicate n [], fy_puts = [], fy_contents = [], fy_done = []\<rparr>"

definition empty_backends :: "backend set" where
  "empty_backends = {DB_Backend \<lparr>do_rows = [], do_objects = [], do_next = 1\<rparr>, FS_Backend \<lparr>fs_dir = [], fs_next = 0\<rparr>}"

subsection \<open>Invariant\<close>

definition genuine :: "(string \<Rightarrow> digest) \<Rightarrow> file_system \<Rightarrow> (digest \<Rightarrow> string option) \<Rightarrow> bool" where
  "genuine hash s m \<longleftrightarrow> (\<forall>d c. m d = Some c \<longrightarrow> c \<in> set (fy_contents s) \<and> hash c = d)"

definition open_files :: "pending_put list \<Rightarrow> backend_file list" where
  "open_files ps = concat (map (\<lambda>p. case pp_file p of None \<Rightarrow> [] | Some f \<Rightarrow> [f]) ps)"

definition put_ok :: "file_system \<Rightarrow> pending_put \<Rightarrow> bool" where
  "put_ok s p \<longleftrightarrow> pp_content p \<in> set (fy_contents s) \<and> pp_service p < length (fy_caches s) \<and>
     (\<forall>f. pp_file p = Some f \<longrightarrow> (\<exists>w. bk_opened (fy_backend s) f = Some w \<and> w @ pp_rest p = pp_content p))"

definition promised :: "(string \<Rightarrow> digest) \<Rightarrow> file_system \<Rightarrow> digest set" where
  "promised hash s = set (fy_done s) \<union> {hash (pp_content p) |p. p \<in> set (fy_puts s) \<and> pp_file p = None}"

definition files_ok :: "(string \<Rightarrow> digest) \<Rightarrow> digest set \<Rightarrow> file_system \<Rightarrow> bool" where
  "files_ok hash D s \<longleftrightarrow> bk_inv (fy_backend s) \<and> genuine hash s (bk_stored (fy_backend s)) \<and> (\<forall>c\<in>set (fy_caches s). genuine hash s (map_of c)) \<and>
     (\<forall>p\<in>set (fy_puts s). put_ok s p) \<and> distinct (open_files (fy_puts s)) \<and>
     (\<forall>d\<in>promised hash s - D. bk_stored (fy_backend s) d \<noteq> None) \<and> fy_backend s \<noteq> Null_Backend"

definition hash_ok :: "(string \<Rightarrow> digest) \<Rightarrow> bool" where
  "hash_ok hash \<longleftrightarrow> (\<forall>c. file_name (hash c) \<and> hash c \<noteq> TOMBSTONE)"

lemma bk_create_present:
  assumes "bk_inv b" "b \<noteq> Null_Backend" "file_name d" "bk_create_file d b = (b', None)"
  shows "bk_stored b d \<noteq> None"
  using assms db_files.create_present fs_files.create_present by (cases b) (fastforce split: prod.splits)+

lemma files_okD:
  assumes "files_ok hash D s"
  shows "bk_inv (fy_backend s)" and "genuine hash s (bk_stored (fy_backend s))" and "c \<in> set (fy_caches s) \<Longrightarrow> genuine hash s (map_of c)"
    and "p \<in> set (fy_puts s) \<Longrightarrow> put_ok s p" and "distinct (open_files (fy_puts s))"
    and "d \<in> promised hash s \<Longrightarrow> d \<notin> D \<Longrightarrow> bk_stored (fy_backend s) d \<noteq> None" and "fy_backend s \<noteq> Null_Backend"
  using assms unfolding files_ok_def by auto

lemma open_files_simps [simp]:
  "open_files [] = []"
  "open_files (p # ps) = (case pp_file p of None \<Rightarrow> [] | Some f \<Rightarrow> [f]) @ open_files ps"
  "open_files (ps @ qs) = open_files ps @ open_files qs"
  by (simp_all add: open_files_def)

lemma in_open_files: "f \<in> set (open_files ps) \<longleftrightarrow> (\<exists>p\<in>set ps. pp_file p = Some f)"
  by (induction ps) (auto split: option.splits)

lemma genuine_cong:
  assumes "genuine hash s m" "set (fy_contents s) \<subseteq> set (fy_contents s')"
  shows "genuine hash s' m"
  using assms by (auto simp: genuine_def)

lemma genuine_upd: "genuine hash s m \<Longrightarrow> c \<in> set (fy_contents s) \<Longrightarrow> genuine hash s (m(hash c \<mapsto> c))"
  and genuine_del: "genuine hash s m \<Longrightarrow> genuine hash s (m(d := None))"
  by (auto simp: genuine_def)

lemma ball_list_update: "\<forall>x\<in>set xs. P x \<Longrightarrow> P y \<Longrightarrow> \<forall>x\<in>set (xs[i := y]). P x"
  using set_update_subset_insert[of xs i y] by blast

text \<open>What leaves the backend alone and puts only genuine files into a cache.\<close>

lemma cache_only_ok:
  assumes ok: "files_ok hash D s" and i: "i < length (fy_caches s)" and dir: "genuine hash s (map_of dir)"
    and m: "fst (m (cacher_of i s)) = (cacher_of i s)\<lparr>fc_dir := dir\<rparr>"
  shows "files_ok hash D (fst (on_service i m s))"
proof -
  have s': "fst (on_service i m s) = s\<lparr>fy_caches := (fy_caches s)[i := dir]\<rparr>"
    using m by (auto simp: on_service_def cacher_of_def split: prod.splits)
  have g: "genuine hash (s\<lparr>fy_caches := cs\<rparr>) = genuine hash s" for cs by (simp add: genuine_def fun_eq_iff)
  have "\<forall>c\<in>set ((fy_caches s)[i := dir]). genuine hash s (map_of c)"
    using files_okD(3)[OF ok] dir by (intro ball_list_update) blast+
  then show ?thesis using ok unfolding s' files_ok_def by (simp add: g put_ok_def promised_def)
qed

lemma cache_genuine: "files_ok hash D s \<Longrightarrow> i < length (fy_caches s) \<Longrightarrow> genuine hash s (map_of (fy_caches s ! i))"
  by (simp add: files_okD(3))

lemma load_effect:
  assumes ok: "files_ok hash D s" and i: "i < length (fy_caches s)" and d: "file_name d"
  obtains dir where "fst (fc_load d only (cacher_of i s)) = (cacher_of i s)\<lparr>fc_dir := dir\<rparr>" "genuine hash s (map_of dir)"
proof (cases "map_of (fy_caches s ! i) d")
  case None
  note S = bk_files.get_stored[OF files_okD(1)[OF ok] d]
  show ?thesis
  proof (cases "bk_stored (fy_backend s) d")
    case (Some c)
    then have c: "c \<in> set (fy_contents s)" "hash c = d" using files_okD(2)[OF ok] by (auto simp: genuine_def)
    show ?thesis using None Some S c genuine_upd[OF cache_genuine[OF ok i] c(1)]
      by (intro that[of "dict_set (fy_caches s ! i) d c"]) (simp_all add: fc_load_def cacher_of_def dict_simps)
  qed (use None S cache_genuine[OF ok i] in \<open>intro that[of "fy_caches s ! i"]; simp add: fc_load_def cacher_of_def\<close>)
qed (use cache_genuine[OF ok i] in \<open>intro that[of "fy_caches s ! i"]; simp add: fc_load_def cacher_of_def\<close>)

lemma read_fst:
  "fst (fc_get_file_content d c) = (if d = TOMBSTONE then c else fst (fc_load d False c))"
  "fst (fc_cache_file d c) = (if d = TOMBSTONE then c else fst (fc_load d True c))"
  by (simp_all add: fc_get_file_content_def fc_get_file_def fc_cache_file_def check_tombstone_def stm_simps split: prod.split sum.split option.split)

lemma read_ok:
  assumes ok: "files_ok hash D s" and i: "i < length (fy_caches s)" and d: "file_name d"
  shows "files_ok hash D (fst (on_service i (fc_get_file_content d) s))" "files_ok hash D (fst (on_service i (fc_cache_file d) s))"
proof -
  have same: "(cacher_of i s)\<lparr>fc_dir := fy_caches s ! i\<rparr> = cacher_of i s" by (simp add: cacher_of_def)
  note keep = cache_only_ok[OF ok i cache_genuine[OF ok i]]
  show "files_ok hash D (fst (on_service i (fc_get_file_content d) s))"
  proof (cases "d = TOMBSTONE")
    case False
    obtain dir where "fst (fc_load d False (cacher_of i s)) = (cacher_of i s)\<lparr>fc_dir := dir\<rparr>" "genuine hash s (map_of dir)"
      using load_effect[OF ok i d] by metis
    then show ?thesis using False by (intro cache_only_ok[OF ok i, of dir]) (simp_all add: read_fst)
  qed (simp add: keep read_fst same)
  show "files_ok hash D (fst (on_service i (fc_cache_file d) s))"
  proof (cases "d = TOMBSTONE")
    case False
    obtain dir where "fst (fc_load d True (cacher_of i s)) = (cacher_of i s)\<lparr>fc_dir := dir\<rparr>" "genuine hash s (map_of dir)"
      using load_effect[OF ok i d] by metis
    then show ?thesis using False by (intro cache_only_ok[OF ok i, of dir]) (simp_all add: read_fst)
  qed (simp add: keep read_fst same)
qed

lemma drop_ok:
  assumes ok: "files_ok hash D s" and i: "i < length (fy_caches s)"
  shows "files_ok hash D (fst (on_service i (fc_drop d) s))"
proof -
  have "fst (fc_drop d (cacher_of i s)) = (cacher_of i s)\<lparr>fc_dir := if d = TOMBSTONE then fy_caches s ! i else AList.delete d (fy_caches s ! i)\<rparr>"
    by (simp add: fc_drop_def stm_simps cacher_of_def)
  then show ?thesis using cache_genuine[OF ok i] by (intro cache_only_ok[OF ok i]) (auto simp: genuine_del dict_simps)
qed

lemma delete_ok:
  assumes ok: "files_ok hash D s" and i: "i < length (fy_caches s)" and d: "file_name d" "d \<in> D"
  shows "files_ok hash D (fst (on_service i (fc_delete d) s))"
proof -
  define s1 where "s1 = fst (on_service i (fc_drop d) s)"
  have ok1: "files_ok hash D s1" using drop_ok[OF ok i] by (simp add: s1_def)
  note S = bk_files.delete_stored[OF files_okD(1)[OF ok1] d(1)]
  have s': "fst (on_service i (fc_delete d) s) = (if d = TOMBSTONE then s1 else s1\<lparr>fy_backend := bk_delete d (fy_backend s1)\<rparr>)"
    by (simp add: s1_def on_service_def fc_delete_def fc_drop_def stm_simps split: prod.splits)
  have g: "genuine hash (s1\<lparr>fy_backend := b\<rparr>) = genuine hash s1" for b by (simp add: genuine_def fun_eq_iff)
  have "bk_delete d b \<noteq> Null_Backend" if "b \<noteq> Null_Backend" for b using that by (cases b) auto
  then have "files_ok hash D (s1\<lparr>fy_backend := bk_delete d (fy_backend s1)\<rparr>)"
    using ok1 S d(2) genuine_del[OF files_okD(2)[OF ok1], of d] unfolding files_ok_def
    by (auto simp: g put_ok_def promised_def)
  then show ?thesis using s' ok1 by simp
qed

lemma die_ok:
  assumes ok: "files_ok hash D s" and p: "fy_puts s = xs @ p # ys"
  shows "files_ok hash D (s\<lparr>fy_puts := xs @ ys\<rparr>)"
proof -
  have g: "genuine hash (s\<lparr>fy_puts := ps\<rparr>) = genuine hash s" for ps by (simp add: genuine_def fun_eq_iff)
  show ?thesis using ok unfolding files_ok_def p by (auto simp: g put_ok_def promised_def p)
qed

lemma opened_not_null: "bk_opened b f = Some w \<Longrightarrow> b \<noteq> Null_Backend"
  by auto

lemma start_ok:
  assumes ok: "files_ok hash D s" and hash: "hash_ok hash" and i: "i < length (fy_caches s)"
  shows "files_ok hash D (start_put hash i content desc s)"
proof -
  obtain b f where b: "bk_create_file (hash content) (fy_backend s) = (b, f)" by fastforce
  have d: "file_name (hash content)" using hash by (simp add: hash_ok_def)
  let ?p = "\<lparr>pp_service = i, pp_content = content, pp_desc = desc, pp_file = f, pp_rest = content\<rparr>"
  have s': "start_put hash i content desc s = s\<lparr>fy_backend := b, fy_contents := content # fy_contents s, fy_puts := fy_puts s @ [?p]\<rparr>"
    using b by (simp add: start_put_def on_service_def put_create_def cacher_of_def list_update_same_conv)
  have g: "genuine hash (start_put hash i content desc s) m" if "genuine hash s m" for m by (rule genuine_cong[OF that]) (auto simp: s')
  note D = files_okD[OF ok]
  show ?thesis
  proof (cases f)
    case None
    have "b = fy_backend s" "bk_stored b (hash content) \<noteq> None"
      using bk_files.create_none[OF D(1)] bk_create_present[OF D(1,7) d] b None by auto
    then show ?thesis using ok g[OF D(2)] g[OF D(3)] i None unfolding files_ok_def s' by (auto simp: put_ok_def promised_def)
  next
    case (Some h)
    note c = bk_files.create_some[OF D(1) d b[unfolded Some]]
    have null: "b \<noteq> Null_Backend" using c opened_not_null[of b h] by auto
    have fresh: "pp_file p \<noteq> Some h" if "p \<in> set (fy_puts s)" for p using D(4)[OF that] c by (auto simp: put_ok_def)
    then have "h \<notin> set (open_files (fy_puts s))" by (simp add: in_open_files)
    moreover have "put_ok (s\<lparr>fy_backend := b, fy_contents := content # fy_contents s, fy_puts := fy_puts s @ [?p]\<rparr>) p" if "p \<in> set (fy_puts s)" for p
      using D(4)[OF that] fresh[OF that] c by (auto simp: put_ok_def)
    ultimately show ?thesis using ok g[OF D(2)] g[OF D(3)] i Some c null unfolding files_ok_def s' by (auto simp: put_ok_def promised_def)
  qed
qed

lemma copy_ok:
  assumes ok: "files_ok hash D s" and p: "fy_puts s = xs @ p # ys" "pp_file p = Some f"
  shows "files_ok hash D ((fst (on_service (pp_service p) (put_write f (take n (pp_rest p))) s))\<lparr>fy_puts := xs @ p\<lparr>pp_rest := drop n (pp_rest p)\<rparr> # ys\<rparr>)"
proof -
  note D = files_okD[OF ok]
  have pok: "put_ok s p" using D(4) p by simp
  then obtain w where w: "bk_opened (fy_backend s) f = Some w" "w @ pp_rest p = pp_content p" using p(2) by (auto simp: put_ok_def)
  let ?b = "bk_write f (take n (pp_rest p)) (fy_backend s)" and ?p = "p\<lparr>pp_rest := drop n (pp_rest p)\<rparr>"
  note W = bk_files.write_opened[OF D(1) w(1), of "take n (pp_rest p)"]
  have s': "(fst (on_service (pp_service p) (put_write f (take n (pp_rest p))) s))\<lparr>fy_puts := xs @ ?p # ys\<rparr> = s\<lparr>fy_backend := ?b, fy_puts := xs @ ?p # ys\<rparr>"
    using pok by (simp add: on_service_def put_write_def stm_simps cacher_of_def list_update_same_conv put_ok_def)
  have g: "genuine hash (s\<lparr>fy_backend := b, fy_puts := ps\<rparr>) = genuine hash s" for b ps by (simp add: genuine_def fun_eq_iff)
  have null: "?b \<noteq> Null_Backend" using W opened_not_null[of ?b f] by auto
  have other: "pp_file q \<noteq> Some f" if "q \<in> set xs \<union> set ys" for q
    using D(5) that p by (auto simp: in_open_files)
  have "put_ok (s\<lparr>fy_backend := ?b, fy_puts := xs @ ?p # ys\<rparr>) q" if "q \<in> set xs \<union> set ys" for q
    using D(4)[of q] other[OF that] that p(1) W by (auto simp: put_ok_def)
  moreover have "put_ok (s\<lparr>fy_backend := ?b, fy_puts := xs @ ?p # ys\<rparr>) ?p"
    using pok p(2) w W by (auto simp: put_ok_def)
  moreover have "promised hash (s\<lparr>fy_backend := ?b, fy_puts := xs @ ?p # ys\<rparr>) = promised hash s" using p by (auto simp: promised_def)
  ultimately show ?thesis using ok W null p unfolding files_ok_def s' by (auto simp: g)
qed

lemma finish_ok:
  assumes ok: "files_ok hash D s" and hash: "hash_ok hash" and p: "fy_puts s = xs @ p # ys" "pp_file p = None \<or> pp_rest p = []"
  shows "files_ok hash D ((finish_put hash p s)\<lparr>fy_puts := xs @ ys\<rparr>)"
proof -
  note D = files_okD[OF ok]
  let ?d = "hash (pp_content p)" and ?i = "pp_service p"
  have pok: "put_ok s p" using D(4) p by simp
  define b where "b = (case pp_file p of None \<Rightarrow> fy_backend s | Some f \<Rightarrow> fst (bk_commit_file f ?d (pp_desc p) (fy_backend s)))"
  define cs where "cs = (fy_caches s)[?i := dict_set (fy_caches s ! ?i) ?d (pp_content p)]"
  have s': "(finish_put hash p s)\<lparr>fy_puts := xs @ ys\<rparr> = s\<lparr>fy_backend := b, fy_caches := cs, fy_puts := xs @ ys, fy_done := ?d # fy_done s\<rparr>"
    by (cases "pp_file p") (simp_all add: finish_put_def on_service_def put_commit_def put_rename_def stm_simps cacher_of_def b_def cs_def Let_def)
  have g: "genuine hash (s\<lparr>fy_backend := b', fy_caches := c', fy_puts := ps, fy_done := ds\<rparr>) = genuine hash s" for b' c' ps ds by (simp add: genuine_def fun_eq_iff)
  have new: "genuine hash s (m(?d \<mapsto> pp_content p))" if "genuine hash s m" for m using genuine_upd[OF that] pok by (simp add: put_ok_def)
  have caches: "\<forall>c\<in>set cs. genuine hash s (map_of c)"
    unfolding cs_def using D(3) new[OF cache_genuine[OF ok]] pok by (intro ball_list_update) (auto simp: put_ok_def dict_simps)
  have b: "bk_inv b" "genuine hash s (bk_stored b)" "bk_stored b = bk_stored (fy_backend s) \<or> bk_stored b = (bk_stored (fy_backend s))(?d \<mapsto> pp_content p)"
    "b \<noteq> Null_Backend" "bk_stored b ?d \<noteq> None \<or> ?d \<in> D" "\<And>f. pp_file p \<noteq> Some f \<Longrightarrow> bk_opened b f = bk_opened (fy_backend s) f"
  proof -
    have "bk_inv b \<and> genuine hash s (bk_stored b) \<and> (bk_stored b = bk_stored (fy_backend s) \<or> bk_stored b = (bk_stored (fy_backend s))(?d \<mapsto> pp_content p)) \<and>
      b \<noteq> Null_Backend \<and> (bk_stored b ?d \<noteq> None \<or> ?d \<in> D) \<and> (\<forall>f. pp_file p \<noteq> Some f \<longrightarrow> bk_opened b f = bk_opened (fy_backend s) f)"
    proof (cases "pp_file p")
      case None
      then have "?d \<in> promised hash s" using p(1) by (auto simp: promised_def)
      then show ?thesis using None D by (auto simp: b_def)
    next
      case (Some f)
      have w: "bk_opened (fy_backend s) f = Some (pp_content p)" using pok Some p(2) by (auto simp: put_ok_def)
      have d: "file_name ?d" using hash by (simp add: hash_ok_def)
      obtain r where r: "bk_commit_file f ?d (pp_desc p) (fy_backend s) = (b, r)" by (simp add: b_def Some prod_eq_iff)
      have "b \<noteq> Null_Backend" using r D(7) by (cases "fy_backend s"; cases f) (auto split: prod.splits)
      then show ?thesis using bk_files.commit_opened[OF D(1) d w r] Some D(2) new[OF D(2)] by auto
    qed
    then show "bk_inv b" "genuine hash s (bk_stored b)" "bk_stored b = bk_stored (fy_backend s) \<or> bk_stored b = (bk_stored (fy_backend s))(?d \<mapsto> pp_content p)"
      "b \<noteq> Null_Backend" "bk_stored b ?d \<noteq> None \<or> ?d \<in> D" "\<And>f. pp_file p \<noteq> Some f \<Longrightarrow> bk_opened b f = bk_opened (fy_backend s) f" by blast+
  qed
  have other: "pp_file q \<noteq> pp_file p \<or> pp_file q = None" if "q \<in> set xs \<union> set ys" for q
    using D(5) that p(1) by (cases "pp_file p") (auto simp: in_open_files)
  have "put_ok (s\<lparr>fy_backend := b, fy_caches := cs, fy_puts := xs @ ys, fy_done := ?d # fy_done s\<rparr>) q" if "q \<in> set xs \<union> set ys" for q
    using D(4)[of q] other[OF that] that p(1) b(6) by (auto simp: put_ok_def cs_def)
  moreover have "bk_stored b e \<noteq> None" if "e \<in> promised hash (s\<lparr>fy_backend := b, fy_caches := cs, fy_puts := xs @ ys, fy_done := ?d # fy_done s\<rparr>)" "e \<notin> D" for e
  proof (cases "e = ?d")
    case False
    then have "e \<in> promised hash s" using that(1) p(1) by (auto simp: promised_def)
    then show ?thesis using D(6)[of e] that(2) b(3) by auto
  qed (use b(5) that(2) in simp)
  ultimately show ?thesis using b(1,2,4) caches D(5) p(1) unfolding files_ok_def s' by (auto simp: g split: option.splits)
qed

lemma files_reach_ok:
  assumes "files_reach hash D s0 s" "hash_ok hash" "s0 = files_begin b n" "b \<in> empty_backends"
  shows "files_ok hash D s \<and> length (fy_caches s) = n"
  using assms
proof (induction rule: files_reach.induct)
  case files_init
  then show ?case
    by (auto simp: files_ok_def files_begin_def empty_backends_def db_inv_def fs_inv_def genuine_def db_stored_def fs_stored_def promised_def split: if_splits)
next
  case (files_start s i content desc)
  moreover have "length (fy_caches (start_put hash i content desc s)) = length (fy_caches s)"
    by (simp add: start_put_def on_service_def put_create_def split: prod.split sum.split)
  ultimately show ?case by (simp add: start_ok)
next
  case (files_copy s xs p ys f m)
  then show ?case using copy_ok by (simp add: on_service_def split: prod.split)
next
  case (files_finish s xs p ys)
  moreover have "length (fy_caches (finish_put hash p s)) = length (fy_caches s)" by (simp add: finish_put_def Let_def on_service_def split: prod.split)
  ultimately show ?case using finish_ok by simp
next
  case (files_die s xs p ys)
  then show ?case using die_ok by simp
qed (simp_all add: read_ok drop_ok delete_ok, simp_all add: on_service_def split: prod.split)

lemma get_result:
  assumes ok: "files_ok hash D s" and i: "i < length (fy_caches s)" and d: "file_name d"
  shows "snd (on_service i (fc_get_file_content d) s) = Inr c \<Longrightarrow> c \<in> set (fy_contents s) \<and> hash c = d"
    and "d \<noteq> TOMBSTONE \<Longrightarrow> bk_stored (fy_backend s) d \<noteq> None \<Longrightarrow> \<exists>c. snd (on_service i (fc_get_file_content d) s) = Inr c"
proof -
  have r: "snd (on_service i (fc_get_file_content d) s) =
      (if d = TOMBSTONE then Inl TombstoneError
       else case map_of (fy_caches s ! i) d of Some c \<Rightarrow> Inr c | None \<Rightarrow> (case bk_stored (fy_backend s) d of None \<Rightarrow> Inl KeyError | Some c \<Rightarrow> Inr c))"
    using bk_files.get_stored[OF files_okD(1)[OF ok] d]
    by (simp add: on_service_def fc_get_file_content_def fc_get_file_def check_tombstone_def fc_load_def stm_simps cacher_of_def split: option.split)
  show "snd (on_service i (fc_get_file_content d) s) = Inr c \<Longrightarrow> c \<in> set (fy_contents s) \<and> hash c = d"
    using cache_genuine[OF ok i] files_okD(2)[OF ok] unfolding r by (auto simp: genuine_def split: if_splits option.splits)
  show "d \<noteq> TOMBSTONE \<Longrightarrow> bk_stored (fy_backend s) d \<noteq> None \<Longrightarrow> \<exists>c. snd (on_service i (fc_get_file_content d) s) = Inr c"
    unfolding r by (auto split: option.splits)
qed

text \<open>(C37) Files are what their digests say, and stay. However several services store, read, cache, drop and delete files at the same time, and
  even when they die while they store one: a file that can be read is one that was stored, with the digest asked for,
  never a part of it; and a file whose digest was returned and that nobody deletes can be read by every service, as long as
  no two files have the same digest.\<close>

theorem stored_files_stay_readable:
  assumes "files_reach hash D (files_begin b n) s" and "hash_ok hash" and "b \<in> empty_backends" and "i < n"
  shows "(\<forall>d content. file_name d \<longrightarrow> snd (on_service i (fc_get_file_content d) s) = Inr content \<longrightarrow> content \<in> set (fy_contents s) \<and> hash content = d) \<and>
    (\<forall>content\<in>set (fy_contents s). inj_on hash (set (fy_contents s)) \<longrightarrow> hash content \<in> set (fy_done s) - D \<longrightarrow>
       snd (on_service i (fc_get_file_content (hash content)) s) = Inr content)"
proof -
  have ok: "files_ok hash D s" and i: "i < length (fy_caches s)" using files_reach_ok[OF assms(1,2) refl assms(3)] assms(4) by simp_all
  have "snd (on_service i (fc_get_file_content (hash content)) s) = Inr content"
    if c: "content \<in> set (fy_contents s)" "inj_on hash (set (fy_contents s))" "hash content \<in> set (fy_done s) - D" for content
  proof -
    have h: "file_name (hash content)" "hash content \<noteq> TOMBSTONE" using assms(2) by (simp_all add: hash_ok_def)
    have "bk_stored (fy_backend s) (hash content) \<noteq> None" using c(3) by (intro files_okD(6)[OF ok]) (simp_all add: promised_def)
    then obtain c' where "snd (on_service i (fc_get_file_content (hash content)) s) = Inr c'" using get_result(2)[OF ok i h] by blast
    moreover from this have "c' = content" using get_result(1)[OF ok i h(1)] c(1,2) by (auto dest: inj_onD)
    ultimately show ?thesis by simp
  qed
  then show ?thesis using get_result(1)[OF ok i] by blast
qed

definition example_hash :: "string \<Rightarrow> digest" where
  "example_hash s = CHR ''h'' # s"

theorem stored_files_stay_readable_witness:
  "\<exists>s. files_reach example_hash {} (files_begin (FS_Backend \<lparr>fs_dir = [], fs_next = 0\<rparr>) 2) s \<and>
     snd (on_service 1 (fc_get_file_content ''hdata'') s) = Inr ''data''"
proof -
  let ?s0 = "files_begin (FS_Backend \<lparr>fs_dir = [], fs_next = 0\<rparr>) 2"
  let ?s1 = "start_put example_hash 0 ''data'' [] ?s0"
  let ?p = "\<lparr>pp_service = 0, pp_content = ''data'', pp_desc = [], pp_file = Some (FS_File (temp_name 0 ''hdata'')), pp_rest = ''data''\<rparr>"
  let ?q = "?p\<lparr>pp_rest := drop 4 (pp_rest ?p)\<rparr>"
  let ?s2 = "(fst (on_service (pp_service ?p) (put_write (FS_File (temp_name 0 ''hdata'')) (take 4 (pp_rest ?p))) ?s1))\<lparr>fy_puts := [] @ ?q # []\<rparr>"
  let ?s3 = "(finish_put example_hash ?q ?s2)\<lparr>fy_puts := [] @ []\<rparr>"
  have s1: "fy_puts ?s1 = [] @ ?p # []" "fy_contents ?s1 = [''data'']"
    by (simp_all add: start_put_def on_service_def put_create_def files_begin_def cacher_of_def fs_create_file_def dict_has_def example_hash_def Let_def)
  have "files_reach example_hash {} ?s0 ?s1" by (rule files_start[OF files_init]) (simp add: files_begin_def)
  then have "files_reach example_hash {} ?s0 ?s2" by (rule files_copy[OF _ s1(1)]) simp
  then have r: "files_reach example_hash {} ?s0 ?s3" by (rule files_finish) simp_all
  have s3: "fy_contents ?s3 = [''data'']" "fy_done ?s3 = [''hdata'']"
    by (simp_all add: finish_put_def on_service_def s1(2) Let_def example_hash_def start_put_def put_create_def files_begin_def split: prod.split sum.split)
  have h: "hash_ok example_hash" by (simp add: hash_ok_def example_hash_def file_name_def TOMBSTONE_def)
  have "snd (on_service 1 (fc_get_file_content ''hdata'') ?s3) = Inr ''data''"
    using stored_files_stay_readable[OF r h, of 1] s3 by (simp add: empty_backends_def example_hash_def)
  then show ?thesis using r by blast
qed

text \<open>Within one cacher a file that was just stored can be read whatever the backend does with it.\<close>

lemma file_put_then_get:
  assumes "hash_ok hash" "fc_temp c"
  shows "snd (sbind (fc_put_file_content hash content desc) fc_get_file_content c) = Inr content"
proof -
  have f: "\<exists>c'. sforeach bufs (put_write f) c = (c', Inr ())" for bufs f c
    by (induction bufs arbitrary: c) (auto simp: stm_simps put_write_def)
  have "\<exists>c'. fc_put_file_content hash content desc c = (c', Inr (hash content)) \<and> map_of (fc_dir c') (hash content) = Some content"
  proof (cases "bk_create_file (hash content) (fc_backend c)")
    case (Pair b r)
    show ?thesis
    proof (cases r)
      case (Some h)
      obtain c1 where "sforeach (chunks content) (put_write h) (c\<lparr>fc_backend := b\<rparr>) = (c1, Inr ())" using f by blast
      then show ?thesis using Pair Some assms(2)
        by (simp add: fc_put_file_content_def put_create_def put_commit_def put_rename_def stm_simps Let_def dict_simps)
    qed (use Pair assms(2) in \<open>simp add: fc_put_file_content_def put_create_def put_rename_def stm_simps Let_def dict_simps\<close>)
  qed
  then show ?thesis using assms(1)
    by (auto simp: sbind_run fc_get_file_content_def fc_get_file_def check_tombstone_def fc_load_def stm_simps hash_ok_def split: prod.split)
qed

text \<open>After \<open>purge_cache\<close> a cacher can neither read what is not cached, which is everything, nor store anything.\<close>

lemma purged_cache_unusable:
  assumes "\<not> fc_shared c" and "d \<noteq> TOMBSTONE"
  shows "snd (sthen fc_purge_cache (fc_get_file_content d) c) = Inl FileNotFoundError"
    and "snd (sthen fc_purge_cache (fc_put_file_content hash content desc) c) = Inl FileNotFoundError"
  using assms
  by (simp_all add: fc_purge_cache_def fc_destroy_cache_def fc_get_file_content_def fc_get_file_def check_tombstone_def fc_load_def
      fc_put_file_content_def stm_simps Let_def)

end
