(* ===== verification/Sandbox.thy ===== *)
theory Sandbox
  imports File_Cacher Python_Text
begin

text \<open>
  The sandbox: \<^verbatim>\<open>cms/grading/Sandbox.py\<close>, classes \<open>SandboxBase\<close> and \<open>IsolateSandbox\<close>. A sandbox is a directory of files, the
  parameters that become the options of \<open>isolate\<close>, and the logs that \<open>isolate\<close> writes. The program \<open>isolate\<close> itself, which is not part of the
  repository, and the other programs of the machine are the functions of a \<open>platform\<close>, on a state of the world of their own. Text is
  represented by its encoding in UTF-8. Processes that are started without waiting run when they are waited for.
\<close>

section \<open>Text\<close>

text \<open>Whether a valid sequence begins the bytes, and the number of bytes of it or of its longest valid beginning.\<close>

definition continuation :: "char \<Rightarrow> bool" where
  "continuation c \<longleftrightarrow> (128 :: nat) \<le> of_char c \<and> of_char c < (192 :: nat)"

definition second_byte :: "char \<Rightarrow> char \<Rightarrow> bool" where
  "second_byte b c = (let n = of_char b :: nat; m = of_char c :: nat in
     continuation c \<and> (n = 224 \<longrightarrow> 160 \<le> m) \<and> (n = 237 \<longrightarrow> m < 160) \<and> (n = 240 \<longrightarrow> 144 \<le> m) \<and> (n = 244 \<longrightarrow> m < 144))"

definition sequence_length :: "char \<Rightarrow> nat" where
  "sequence_length b = (let n = of_char b :: nat in
     if n < 128 then 1 else if 194 \<le> n \<and> n < 224 then 2 else if 224 \<le> n \<and> n < 240 then 3 else if 240 \<le> n \<and> n < 245 then 4 else 0)"

fun utf8_head :: "string \<Rightarrow> bool \<times> nat" where
  "utf8_head [] = (True, 0)"
| "utf8_head (b # cs) =
     (let n = sequence_length b;
          good = (case cs of [] \<Rightarrow> [] | c # cs' \<Rightarrow> if second_byte b c then c # takeWhile continuation cs' else [])
      in if n = 0 then (False, 1) else if n \<le> Suc (length good) then (True, n) else (False, Suc (length good)))"

function decode_with :: "string option \<Rightarrow> string \<Rightarrow> string res" where
  "decode_with replacement [] = Inr []"
| "decode_with replacement (b # cs) =
     (let (ok, n) = utf8_head (b # cs) in
      if ok then res_bind (decode_with replacement (drop (n - 1) cs)) (\<lambda>t. Inr (b # take (n - 1) cs @ t))
      else (case replacement of
          None \<Rightarrow> Inl UnicodeDecodeError
        | Some r \<Rightarrow> res_bind (decode_with replacement (drop (n - 1) cs)) (\<lambda>t. Inr (r @ t))))"
  by pat_completeness auto
termination by (relation "measure (\<lambda>(_, s). length s)") auto

definition decode :: "string \<Rightarrow> string res" where
  "decode = decode_with None"

text \<open>\<open>errors="replace"\<close>: the character U+FFFD.\<close>

definition decode_replace :: "string \<Rightarrow> string res" where
  "decode_replace = decode_with (Some [CHR 0xEF, CHR 0xBF, CHR 0xBD])"

text \<open>Lines of a text file, with the line ends that Python recognizes, and without them.\<close>

fun text_lines :: "string \<Rightarrow> string list" where
  "text_lines [] = []"
| "text_lines (c # s) =
     (if c = CHR 0x0D then (case s of d # s' \<Rightarrow> if d = CHR 0x0A then [] # text_lines s' else [] # text_lines s | [] \<Rightarrow> [[]])
      else if c = CHR 0x0A then [] # text_lines s
      else (case text_lines s of [] \<Rightarrow> [[c]] | l # ls \<Rightarrow> (c # l) # ls))"

definition first_line :: "string \<Rightarrow> string" where
  "first_line s = (case text_lines s of [] \<Rightarrow> [] | l # _ \<Rightarrow> l)"

text \<open>\<open>int(s)\<close> of a decimal number.\<close>

definition py_int :: "string \<Rightarrow> int res" where
  "py_int s =
     (let (neg, ds) = read_sign (strip s) in
      if ds \<noteq> [] \<and> list_all is_digit ds then Inr (if neg then - int (nat_of_digits ds) else int (nat_of_digits ds)) else Inl ValueError)"

text \<open>\<open>os.path.join\<close>, and \<open>os.path.normpath\<close> of an absolute path.\<close>

definition path_join :: "string \<Rightarrow> string \<Rightarrow> string" where
  "path_join a b = (if b \<noteq> [] \<and> hd b = CHR ''/'' then b else if a = [] \<or> last a = CHR ''/'' then a @ b else a @ ''/'' @ b)"

definition path_parts :: "string \<Rightarrow> string list" where
  "path_parts s = rev (foldl (\<lambda>ps p. if p = ''.'' then ps else if p = ''..'' then tl ps else p # ps) [] (split_on (\<lambda>c. c = CHR ''/'') s))"

fun join_parts :: "string list \<Rightarrow> string" where
  "join_parts [] = ''.''"
| "join_parts [p] = p"
| "join_parts (p # ps) = p @ ''/'' @ join_parts ps"

section \<open>The platform\<close>

record home_file =
  hf_content :: string
  hf_mode :: nat
  hf_link :: bool

type_synonym home = "(string, home_file) dict"

datatype box_option =
    Opt_box_id int | Opt_cg | Opt_chdir string | Opt_dir string | Opt_full_env | Opt_env string | Opt_fsize int | Opt_stdin string
  | Opt_stack int | Opt_cg_mem int | Opt_mem int | Opt_stdout string | Opt_processes "int option" | Opt_stderr string | Opt_time real
  | Opt_verbose | Opt_wall_time real | Opt_extra_time real | Opt_meta int | Opt_run

text \<open>A process to run: with the options of \<open>isolate\<close>, or without \<open>isolate\<close>; and what is left when it has ended: its exit code, the
  files, and the meta file if there is one.\<close>

record process =
  pr_options :: "box_option list option"
  pr_command :: "string list"
  pr_home :: home

record process_end =
  pe_exit_code :: int
  pe_home :: home
  pe_meta :: "string option"

text \<open>\<open>pf_run\<close> runs processes at the same time until all have ended. The configuration follows the programs.\<close>

record 'w platform =
  pf_run :: "'w \<Rightarrow> process list \<Rightarrow> 'w \<times> process_end list"
  pf_init_ok :: "'w \<Rightarrow> int \<Rightarrow> bool"
  pf_cleanup_ok :: "'w \<Rightarrow> int \<Rightarrow> bool"
  pf_mkdtemp :: "'w \<Rightarrow> string \<Rightarrow> nat \<Rightarrow> string res"
  pf_exists :: "string \<Rightarrow> bool"
  pf_hash :: "string \<Rightarrow> digest"
  cf_service_shard :: "int option"
  cf_use_cgroups :: bool
  cf_keep_sandbox :: bool
  cf_max_file_size :: int
  cf_compilation_max_processes :: int
  cf_compilation_max_time :: real
  cf_compilation_max_memory :: int
  cf_trusted_max_processes :: int
  cf_trusted_max_time :: real
  cf_trusted_max_memory :: int

section \<open>The state of a sandbox\<close>

record isolate_box =
  sb_outer_dir :: string
  sb_home :: home
  sb_home_mode :: nat
  sb_deleted :: bool
  sb_commands :: "string list list"
  sb_exec_num :: int
  sb_logs :: "(int, string) dict"
  sb_log :: "(string, string list) dict option"
  sb_running :: "(box_option list option \<times> string list) option"
  sb_box_id :: int
  sb_cgroup :: bool
  sb_chdir :: "string option"
  sb_dirs :: "(string \<times> string \<times> string option) list"
  sb_preserve_env :: bool
  sb_inherit_env :: "string list"
  sb_set_env :: "(string, string) dict"
  sb_fsize :: "int option"
  sb_stdin_file :: "string option"
  sb_stack_space :: "int option"
  sb_address_space :: "int option"
  sb_stdout_file :: "string option"
  sb_stderr_file :: "string option"
  sb_timeout :: "real option"
  sb_verbosity :: nat
  sb_wallclock_timeout :: "real option"
  sb_extra_timeout :: "real option"
  sb_max_processes :: "int option"

record 'w host =
  h_world :: 'w
  h_cacher :: file_cacher
  h_next_id :: int
  h_boxes :: "isolate_box list"

definition get_box :: "nat \<Rightarrow> (('w, 'x) host_scheme, isolate_box) stm" where
  "get_box b = sget (\<lambda>h. h_boxes h ! b)"

definition upd_box :: "nat \<Rightarrow> (isolate_box \<Rightarrow> isolate_box) \<Rightarrow> (('w, 'x) host_scheme, unit) stm" where
  "upd_box b f = supd (\<lambda>h. h\<lparr>h_boxes := (h_boxes h)[b := f (h_boxes h ! b)]\<rparr>)"

definition on_cacher :: "(file_cacher, 'a) stm \<Rightarrow> (('w, 'x) host_scheme, 'a) stm" where
  "on_cacher m = (\<lambda>h. case m (h_cacher h) of (c, r) \<Rightarrow> (h\<lparr>h_cacher := c\<rparr>, r))"

section \<open>Permissions and directories\<close>

text \<open>The modes \<open>0o755\<close>, \<open>0o777\<close>, \<open>0o722\<close> and \<open>0o644\<close>.\<close>

definition HOME_DEST :: string where
  "HOME_DEST = ''/tmp''"

definition chmod_all :: "nat \<Rightarrow> isolate_box \<Rightarrow> isolate_box" where
  "chmod_all mode x = x\<lparr>sb_home_mode := mode, sb_home := map (\<lambda>(p, f). (p, f\<lparr>hf_mode := mode\<rparr>)) (sb_home x)\<rparr>"

definition allow_writing_all :: "isolate_box \<Rightarrow> isolate_box" where
  "allow_writing_all = chmod_all 511"

definition allow_writing_none :: "isolate_box \<Rightarrow> isolate_box" where
  "allow_writing_none = chmod_all 493"

definition touch :: "string \<Rightarrow> home \<Rightarrow> home" where
  "touch p fs = (if dict_has fs p then fs else dict_set fs p \<lparr>hf_content = [], hf_mode = 420, hf_link = False\<rparr>)"

definition chmod :: "nat \<Rightarrow> string \<Rightarrow> home \<Rightarrow> home" where
  "chmod mode p fs = (case map_of fs p of None \<Rightarrow> fs | Some f \<Rightarrow> dict_set fs p (f\<lparr>hf_mode := mode\<rparr>))"

text \<open>The path inside the home directory, or none if it is outside.\<close>

definition home_path :: "string \<Rightarrow> string option" where
  "home_path inner =
     (let ps = path_parts (path_join HOME_DEST inner); hs = path_parts HOME_DEST in
      if take (length hs) ps = hs then Some (join_parts (drop (length hs) ps)) else None)"

definition allow_writing_only :: "string list \<Rightarrow> isolate_box \<Rightarrow> isolate_box" where
  "allow_writing_only inner_paths x =
     (let paths = List.map_filter home_path inner_paths;
          x = allow_writing_none (x\<lparr>sb_home := fold touch paths (sb_home x)\<rparr>)
      in x\<lparr>sb_home := fold (chmod 466) paths (sb_home x)\<rparr>)"

definition set_multiprocess :: "bool \<Rightarrow> isolate_box \<Rightarrow> isolate_box" where
  "set_multiprocess multiprocess x = x\<lparr>sb_max_processes := Some (if multiprocess then 1000 else 1)\<rparr>"

definition add_mapped_directory :: "string \<Rightarrow> string option \<Rightarrow> string option \<Rightarrow> isolate_box \<Rightarrow> isolate_box" where
  "add_mapped_directory src dest options x =
     x\<lparr>sb_dirs := sb_dirs x @ [(src, case dest of None \<Rightarrow> src | Some d \<Rightarrow> d, options)]\<rparr>"

definition maybe_add_mapped_directory :: "'w platform \<Rightarrow> string \<Rightarrow> string option \<Rightarrow> isolate_box \<Rightarrow> isolate_box" where
  "maybe_add_mapped_directory pf src options x = (if pf_exists pf src then add_mapped_directory src None options x else x)"

section \<open>Options\<close>

definition inner_absolute_path :: "string \<Rightarrow> string" where
  "inner_absolute_path p = path_join HOME_DEST p"

definition opt :: "('a \<Rightarrow> box_option) \<Rightarrow> 'a option \<Rightarrow> box_option list" where
  "opt f x = (case x of None \<Rightarrow> [] | Some v \<Rightarrow> [f v])"

text \<open>The meta file is \<open>run.log\<close> with the number of the execution.\<close>

definition build_box_options :: "isolate_box \<Rightarrow> box_option list" where
  "build_box_options x =
     [Opt_box_id (sb_box_id x)] @
     (if sb_cgroup x then [Opt_cg] else []) @
     opt Opt_chdir (sb_chdir x) @
     map (\<lambda>(src, dest, options). Opt_dir (dest @ ''='' @ src @ (case options of None \<Rightarrow> [] | Some s \<Rightarrow> '':'' @ s))) (sb_dirs x) @
     (if sb_preserve_env x then [Opt_full_env] else []) @
     map Opt_env (sb_inherit_env x) @
     map (\<lambda>(var, val). Opt_env (var @ ''='' @ val)) (sb_set_env x) @
     opt (\<lambda>n. Opt_fsize (n div 1024)) (sb_fsize x) @
     opt (\<lambda>p. Opt_stdin (inner_absolute_path p)) (sb_stdin_file x) @
     opt (\<lambda>n. Opt_stack (n div 1024)) (sb_stack_space x) @
     opt (\<lambda>n. if sb_cgroup x then Opt_cg_mem (n div 1024) else Opt_mem (n div 1024)) (sb_address_space x) @
     opt (\<lambda>p. Opt_stdout (inner_absolute_path p)) (sb_stdout_file x) @
     [Opt_processes (sb_max_processes x)] @
     opt (\<lambda>p. Opt_stderr (inner_absolute_path p)) (sb_stderr_file x) @
     opt Opt_time (sb_timeout x) @
     replicate (sb_verbosity x) Opt_verbose @
     opt Opt_wall_time (sb_wallclock_timeout x) @
     opt Opt_extra_time (sb_extra_timeout x) @
     [Opt_meta (sb_exec_num x), Opt_run]"

section \<open>Files\<close>

definition create_file :: "nat \<Rightarrow> string \<Rightarrow> bool \<Rightarrow> (('w, 'x) host_scheme, unit) stm" where
  "create_file b p executable =
     sbind (get_box b) (\<lambda>x.
     if dict_has (sb_home x) p then sraise OSError
     else upd_box b (\<lambda>x. x\<lparr>sb_home := dict_set (sb_home x) p \<lparr>hf_content = [], hf_mode = if executable then 493 else 420, hf_link = False\<rparr>\<rparr>))"

definition fill_file :: "string \<Rightarrow> string \<Rightarrow> isolate_box \<Rightarrow> isolate_box" where
  "fill_file p content x =
     (case map_of (sb_home x) p of None \<Rightarrow> x | Some f \<Rightarrow> x\<lparr>sb_home := dict_set (sb_home x) p (f\<lparr>hf_content := content\<rparr>)\<rparr>)"

definition create_file_from_storage :: "nat \<Rightarrow> string \<Rightarrow> digest \<Rightarrow> bool \<Rightarrow> (('w, 'x) host_scheme, unit) stm" where
  "create_file_from_storage b p d executable =
     sthen (create_file b p executable) (sbind (on_cacher (fc_get_file_content d)) (\<lambda>content. upd_box b (fill_file p content)))"

definition create_file_from_string :: "nat \<Rightarrow> string \<Rightarrow> string \<Rightarrow> bool \<Rightarrow> (('w, 'x) host_scheme, unit) stm" where
  "create_file_from_string b p content executable = sthen (create_file b p executable) (upd_box b (fill_file p content))"

text \<open>\<open>get_file\<close>, read to the end or up to the length it is truncated at.\<close>

definition get_file :: "nat \<Rightarrow> string \<Rightarrow> nat option \<Rightarrow> (('w, 'x) host_scheme, string) stm" where
  "get_file b p trunc_len =
     sbind (get_box b) (\<lambda>x.
       case map_of (sb_home x) p of
         None \<Rightarrow> sraise FileNotFoundError
       | Some f \<Rightarrow> sret (case trunc_len of None \<Rightarrow> hf_content f | Some n \<Rightarrow> take n (hf_content f)))"

definition get_file_to_string :: "nat \<Rightarrow> string \<Rightarrow> (('w, 'x) host_scheme, string) stm" where
  "get_file_to_string b p = get_file b p (Some 1024)"

definition get_file_to_storage :: "'w platform \<Rightarrow> nat \<Rightarrow> string \<Rightarrow> string \<Rightarrow> nat option \<Rightarrow> (('w, 'x) host_scheme, digest) stm" where
  "get_file_to_storage pf b p desc trunc_len =
     sbind (get_file b p trunc_len) (\<lambda>content. on_cacher (fc_put_file_content (pf_hash pf) content desc))"

definition file_exists :: "nat \<Rightarrow> string \<Rightarrow> (('w, 'x) host_scheme, bool) stm" where
  "file_exists b p = sbind (get_box b) (\<lambda>x. sret (dict_has (sb_home x) p))"

definition sandbox_remove_file :: "nat \<Rightarrow> string \<Rightarrow> (('w, 'x) host_scheme, unit) stm" where
  "sandbox_remove_file b p =
     sbind (get_box b) (\<lambda>x. if dict_has (sb_home x) p then upd_box b (\<lambda>x. x\<lparr>sb_home := AList.delete p (sb_home x)\<rparr>) else sraise FileNotFoundError)"

section \<open>Executing commands\<close>

definition SECURE_COMMANDS :: "string list" where
  "SECURE_COMMANDS = [''/bin/cp'', ''/bin/mv'', ''/usr/bin/zip'', ''/usr/bin/unzip'']"

definition NEWLINE :: string where
  "NEWLINE = [CHR 0x0A]"

definition empty_run_log :: string where
  "empty_run_log = ''time:0.000'' @ NEWLINE @ ''time-wall:0.000'' @ NEWLINE @ ''max-rss:0'' @ NEWLINE @ ''cg-mem:0'' @ NEWLINE"

definition empty_file :: "string \<Rightarrow> home \<Rightarrow> home" where
  "empty_file p fs = dict_set fs p (case map_of fs p of
     None \<Rightarrow> \<lparr>hf_content = [], hf_mode = 420, hf_link = False\<rparr> | Some f \<Rightarrow> f\<lparr>hf_content := []\<rparr>)"

definition or_type_error :: "'a option \<Rightarrow> ('s, 'a) stm" where
  "or_type_error x = (case x of None \<Rightarrow> sraise TypeError | Some x \<Rightarrow> sret x)"

text \<open>\<open>_popen\<close>: commands that are trusted run without \<open>isolate\<close>; their output files are emptied and their log says nothing.\<close>

definition sandbox_popen :: "nat \<Rightarrow> string list \<Rightarrow> (('w, 'x) host_scheme, unit) stm" where
  "sandbox_popen b command =
     sthen (upd_box b (\<lambda>x. x\<lparr>sb_log := None, sb_exec_num := sb_exec_num x + 1\<rparr>))
     (if command = [] then sraise IndexError
      else if hd command \<in> set SECURE_COMMANDS then
        sthen (upd_box b (\<lambda>x. x\<lparr>sb_commands := sb_commands x @ [command], sb_running := Some (None, command)\<rparr>))
        (sbind (get_box b) (\<lambda>x.
         sbind (or_type_error (sb_stdout_file x)) (\<lambda>out.
         sthen (upd_box b (\<lambda>x. x\<lparr>sb_home := empty_file out (sb_home x)\<rparr>))
         (sbind (or_type_error (sb_stderr_file x)) (\<lambda>err.
          upd_box b (\<lambda>x. x\<lparr>sb_home := empty_file err (sb_home x), sb_logs := dict_set (sb_logs x) (sb_exec_num x) empty_run_log\<rparr>))))))
      else upd_box b (\<lambda>x. x\<lparr>sb_commands := sb_commands x @ [command], sb_running := Some (Some (build_box_options x), command)\<rparr>))"

definition process_of :: "isolate_box \<Rightarrow> process" where
  "process_of x =
     (case sb_running x of
        None \<Rightarrow> \<lparr>pr_options = None, pr_command = [], pr_home = sb_home x\<rparr>
      | Some (options, command) \<Rightarrow> \<lparr>pr_options = options, pr_command = command, pr_home = sb_home x\<rparr>)"

definition process_ended :: "process_end \<Rightarrow> isolate_box \<Rightarrow> isolate_box" where
  "process_ended e x =
     x\<lparr>sb_home := pe_home e, sb_running := None,
       sb_logs := (case pe_meta e of None \<Rightarrow> sb_logs x | Some t \<Rightarrow> dict_set (sb_logs x) (sb_exec_num x) t)\<rparr>"

text \<open>\<open>wait_without_std\<close> on the processes of some sandboxes.\<close>

definition wait_without_std :: "'w platform \<Rightarrow> nat list \<Rightarrow> (('w, 'x) host_scheme, int list) stm" where
  "wait_without_std pf bs = (\<lambda>h.
     case pf_run pf (h_world h) (map (\<lambda>b. process_of (h_boxes h ! b)) bs) of (w, ends) \<Rightarrow>
       (h\<lparr>h_world := w, h_boxes := fold (\<lambda>(b, e) xs. xs[b := process_ended e (xs ! b)]) (zip bs ends) (h_boxes h)\<rparr>,
        Inr (map pe_exit_code ends)))"

definition translate_box_exitcode :: "int \<Rightarrow> bool res" where
  "translate_box_exitcode code = (if code = 0 \<or> code = 1 then Inr True else if code = 2 then Inr False else Inl SandboxInterfaceException)"

definition execute_without_std :: "'w platform \<Rightarrow> nat \<Rightarrow> string list \<Rightarrow> (('w, 'x) host_scheme, bool) stm" where
  "execute_without_std pf b command =
     sthen (sandbox_popen b command)
     (sbind (wait_without_std pf [b]) (\<lambda>codes. slift (res_bind (py_nth codes 0) translate_box_exitcode)))"

section \<open>Logs\<close>

text \<open>\<open>line.strip().split(":", 1)\<close> into two.\<close>

definition log_line :: "string \<Rightarrow> (string \<times> string) res" where
  "log_line l = (case dropWhile (\<lambda>c. c \<noteq> CHR '':'') (strip l) of
     [] \<Rightarrow> Inl ValueError | _ # val \<Rightarrow> Inr (takeWhile (\<lambda>c. c \<noteq> CHR '':'') (strip l), val))"

definition log_add :: "string \<times> string \<Rightarrow> (string, string list) dict \<Rightarrow> (string, string list) dict" where
  "log_add = (\<lambda>(key, val) log_dict. dict_set log_dict key ((case map_of log_dict key of None \<Rightarrow> [] | Some vs \<Rightarrow> vs) @ [val]))"

text \<open>\<open>get_log\<close>: the log is empty before it is read, and stays as far as it was read when reading fails.\<close>

definition get_log :: "nat \<Rightarrow> (('w, 'x) host_scheme, unit) stm" where
  "get_log b =
     sthen (upd_box b (\<lambda>x. x\<lparr>sb_log := Some []\<rparr>))
     (sbind (get_box b) (\<lambda>x.
        case map_of (sb_logs x) (sb_exec_num x) of
          None \<Rightarrow> sraise OSError
        | Some t \<Rightarrow> sbind (slift (decode t)) (\<lambda>t.
            sforeach (text_lines t) (\<lambda>l. sbind (slift (log_line l)) (\<lambda>kv. upd_box b (\<lambda>x. x\<lparr>sb_log := map_option (log_add kv) (sb_log x)\<rparr>))))))"

definition with_log :: "nat \<Rightarrow> ((string, string list) dict \<Rightarrow> 'a res) \<Rightarrow> (('w, 'x) host_scheme, 'a) stm" where
  "with_log b f =
     sbind (get_box b) (\<lambda>x.
     sthen (case sb_log x of None \<Rightarrow> get_log b | Some _ \<Rightarrow> sret ())
     (sbind (get_box b) (\<lambda>x. case sb_log x of None \<Rightarrow> sraise TypeError | Some l \<Rightarrow> slift (f l))))"

definition log_value :: "string \<Rightarrow> (string \<Rightarrow> 'a res) \<Rightarrow> 'a \<Rightarrow> (string, string list) dict \<Rightarrow> 'a res" where
  "log_value key f dflt l = (case map_of l key of None \<Rightarrow> Inr dflt | Some vs \<Rightarrow> res_bind (py_nth vs 0) f)"

definition get_execution_time :: "nat \<Rightarrow> (('w, 'x) host_scheme, real option) stm" where
  "get_execution_time b = with_log b (log_value ''time'' (\<lambda>s. res_bind (py_float s) (\<lambda>x. Inr (Some x))) None)"

definition get_execution_wall_clock_time :: "nat \<Rightarrow> (('w, 'x) host_scheme, real option) stm" where
  "get_execution_wall_clock_time b = with_log b (log_value ''time-wall'' (\<lambda>s. res_bind (py_float s) (\<lambda>x. Inr (Some x))) None)"

definition get_memory_used :: "nat \<Rightarrow> (('w, 'x) host_scheme, int option) stm" where
  "get_memory_used b = with_log b (log_value ''cg-mem'' (\<lambda>s. res_bind (py_int s) (\<lambda>x. Inr (Some (x * 1024)))) None)"

definition get_killing_signal :: "nat \<Rightarrow> (('w, 'x) host_scheme, int) stm" where
  "get_killing_signal b = with_log b (log_value ''exitsig'' py_int 0)"

definition get_exit_code :: "nat \<Rightarrow> (('w, 'x) host_scheme, int) stm" where
  "get_exit_code b = with_log b (log_value ''exitcode'' py_int 0)"

datatype exit_status = EXIT_SANDBOX_ERROR | EXIT_OK | EXIT_SIGNAL | EXIT_TIMEOUT | EXIT_TIMEOUT_WALL | EXIT_NONZERO_RETURN

definition contains_wall :: "string \<Rightarrow> bool" where
  "contains_wall s \<longleftrightarrow> list_ex (\<lambda>n. take 4 (drop n s) = ''wall'') [0..<length s]"

definition exit_status_of :: "(string, string list) dict \<Rightarrow> exit_status" where
  "exit_status_of l =
     (let st = (case map_of l ''status'' of None \<Rightarrow> [] | Some vs \<Rightarrow> vs) in
      if ''XX'' \<in> set st then EXIT_SANDBOX_ERROR
      else if ''TO'' \<in> set st then
        (case map_of l ''message'' of Some (m # _) \<Rightarrow> if contains_wall m then EXIT_TIMEOUT_WALL else EXIT_TIMEOUT | _ \<Rightarrow> EXIT_TIMEOUT)
      else if ''SG'' \<in> set st then EXIT_SIGNAL
      else if ''RE'' \<in> set st then EXIT_NONZERO_RETURN
      else EXIT_OK)"

definition get_exit_status :: "nat \<Rightarrow> (('w, 'x) host_scheme, exit_status) stm" where
  "get_exit_status b = with_log b (\<lambda>l. Inr (exit_status_of l))"

section \<open>Creating and deleting\<close>

definition initialize_isolate :: "'w platform \<Rightarrow> nat \<Rightarrow> (('w, 'x) host_scheme, unit) stm" where
  "initialize_isolate pf b = sbind (get_box b) (\<lambda>x. sbind (sget h_world) (\<lambda>w.
     if pf_init_ok pf w (sb_box_id x) then sret () else sraise SandboxInterfaceException))"

text \<open>A failing clean-up is a \<open>CalledProcessError\<close>.\<close>

definition sandbox_cleanup :: "'w platform \<Rightarrow> nat \<Rightarrow> bool \<Rightarrow> (('w, 'x) host_scheme, unit) stm" where
  "sandbox_cleanup pf b delete = sbind (get_box b) (\<lambda>x. sbind (sget h_world) (\<lambda>w.
     if \<not> pf_cleanup_ok pf w (sb_box_id x) then sraise PyException
     else if delete then upd_box b (\<lambda>x. x\<lparr>sb_home := [], sb_logs := [], sb_deleted := True\<rparr>) else sret ()))"

definition new_box_id :: "'w platform \<Rightarrow> int \<Rightarrow> int" where
  "new_box_id pf n = (case cf_service_shard pf of None \<Rightarrow> n mod 10 | Some shard \<Rightarrow> ((shard + 1) * 10 + n mod 10) mod 1000)"

definition new_box :: "'w platform \<Rightarrow> int \<Rightarrow> string \<Rightarrow> isolate_box" where
  "new_box pf i outer_dir =
     maybe_add_mapped_directory pf ''/etc/mono'' (Some ''noexec'')
     (maybe_add_mapped_directory pf ''/etc/alternatives'' None
     (add_mapped_directory (path_join outer_dir ''home'') (Some HOME_DEST) (Some ''rw'')
     (allow_writing_all
      \<lparr>sb_outer_dir = outer_dir, sb_home = [], sb_home_mode = 448, sb_deleted = False, sb_commands = [], sb_exec_num = -1, sb_logs = [],
       sb_log = None, sb_running = None, sb_box_id = i, sb_cgroup = cf_use_cgroups pf, sb_chdir = Some HOME_DEST, sb_dirs = [],
       sb_preserve_env = False, sb_inherit_env = [], sb_set_env = [(''HOME'', HOME_DEST)], sb_fsize = None, sb_stdin_file = None,
       sb_stack_space = None, sb_address_space = None, sb_stdout_file = None, sb_stderr_file = None, sb_timeout = None,
       sb_verbosity = 0, sb_wallclock_timeout = None, sb_extra_timeout = None, sb_max_processes = Some 1\<rparr>)))"

text \<open>The constructor; the result is the number of the sandbox.\<close>

definition isolate_sandbox :: "'w platform \<Rightarrow> string \<Rightarrow> (('w, 'x) host_scheme, nat) stm" where
  "isolate_sandbox pf name =
     sbind (sget h_next_id) (\<lambda>n.
     sthen (supd (\<lambda>h. h\<lparr>h_next_id := n + 1\<rparr>))
     (sbind (\<lambda>h. (h, pf_mkdtemp pf (h_world h) name (length (h_boxes h)))) (\<lambda>outer_dir.
      sbind (sget (\<lambda>h. length (h_boxes h))) (\<lambda>b.
      sthen (supd (\<lambda>h. h\<lparr>h_boxes := h_boxes h @ [new_box pf (new_box_id pf n) outer_dir]\<rparr>))
      (sthen (sandbox_cleanup pf b False)
      (sthen (initialize_isolate pf b) (sret b)))))))"

end
