(* ===== verification/Grading_Steps.thy ===== *)
theory Grading_Steps
  imports Sandbox White_Diff Proxy_Text
begin

text \<open>
  Grading steps: \<^verbatim>\<open>cms/grading/steps/\<close>. Each step sets up a sandbox, executes commands in it and makes a verdict of the statistics. The white
  diff is in \<open>White_Diff\<close>. A verdict with success \<open>False\<close> says that the sandbox failed, and not the program that was run.
\<close>

section \<open>Messages\<close>

record human_message =
  hm_shorthand :: string
  hm_message :: string

record message_collection =
  mc_messages :: "(string, human_message) dict"
  mc_ordering :: "string list"

definition add_message :: "human_message \<Rightarrow> message_collection \<Rightarrow> message_collection" where
  "add_message m c =
     (if dict_has (mc_messages c) (hm_shorthand m) then c
      else c\<lparr>mc_messages := dict_set (mc_messages c) (hm_shorthand m) m, mc_ordering := mc_ordering c @ [hm_shorthand m]\<rparr>)"

definition new_messages :: "human_message list \<Rightarrow> message_collection" where
  "new_messages ms = fold add_message ms \<lparr>mc_messages = [], mc_ordering = []\<rparr>"

definition get_message :: "message_collection \<Rightarrow> string \<Rightarrow> string res" where
  "get_message c shorthand = res_bind (dict_get (mc_messages c) shorthand) (\<lambda>m. Inr (hm_message m))"

definition all_messages :: "message_collection \<Rightarrow> human_message list res" where
  "all_messages c = res_map (dict_get (mc_messages c)) (mc_ordering c)"

text \<open>The help texts are left out.\<close>

definition COMPILATION_MESSAGES :: message_collection where
  "COMPILATION_MESSAGES = new_messages
     [\<lparr>hm_shorthand = ''success'', hm_message = ''Compilation succeeded''\<rparr>,
      \<lparr>hm_shorthand = ''fail'', hm_message = ''Compilation failed''\<rparr>,
      \<lparr>hm_shorthand = ''timeout'', hm_message = ''Compilation timed out''\<rparr>,
      \<lparr>hm_shorthand = ''signal'', hm_message = ''Compilation killed with signal %s (could be triggered by violating memory limits)''\<rparr>]"

definition EVALUATION_MESSAGES :: message_collection where
  "EVALUATION_MESSAGES = new_messages
     [\<lparr>hm_shorthand = ''success'', hm_message = ''Output is correct''\<rparr>,
      \<lparr>hm_shorthand = ''partial'', hm_message = ''Output is partially correct''\<rparr>,
      \<lparr>hm_shorthand = ''wrong'', hm_message = ''Output isn't correct''\<rparr>,
      \<lparr>hm_shorthand = ''nooutput'', hm_message = ''Evaluation didn't produce file %s''\<rparr>,
      \<lparr>hm_shorthand = ''timeout'', hm_message = ''Execution timed out''\<rparr>,
      \<lparr>hm_shorthand = ''walltimeout'', hm_message = ''Execution timed out (wall clock limit exceeded)''\<rparr>,
      \<lparr>hm_shorthand = ''signal'', hm_message = ''Execution killed (could be triggered by violating memory limits)''\<rparr>,
      \<lparr>hm_shorthand = ''returncode'', hm_message = ''Execution failed because the return code was nonzero''\<rparr>]"

section \<open>Statistics\<close>

record exec_stats =
  xs_time :: "real option"
  xs_wall_time :: "real option"
  xs_memory :: "int option"
  xs_exit_status :: exit_status
  xs_signal :: "int option"
  xs_stdout :: "string option"
  xs_stderr :: "string option"

definition collect_file :: "nat \<Rightarrow> (isolate_box \<Rightarrow> string option) \<Rightarrow> (('w, 'x) host_scheme, string) stm" where
  "collect_file b f =
     sbind (get_box b) (\<lambda>x. sbind (or_type_error (f x)) (\<lambda>p. sbind (get_file_to_string b p) (\<lambda>s. sbind (slift (decode_replace s)) (\<lambda>t. sret (strip t)))))"

definition execution_stats :: "nat \<Rightarrow> bool \<Rightarrow> (('w, 'x) host_scheme, exec_stats) stm" where
  "execution_stats b collect_output =
     sbind (get_execution_time b) (\<lambda>time.
     sbind (get_execution_wall_clock_time b) (\<lambda>wall.
     sbind (get_memory_used b) (\<lambda>mem.
     sbind (get_exit_status b) (\<lambda>status.
     sbind (if status = EXIT_SIGNAL then sbind (get_killing_signal b) (\<lambda>n. sret (Some n)) else sret None) (\<lambda>sig.
     sbind (if collect_output then sbind (collect_file b sb_stdout_file) (\<lambda>t. sret (Some t)) else sret None) (\<lambda>out.
     sbind (if collect_output then sbind (collect_file b sb_stderr_file) (\<lambda>t. sret (Some t)) else sret None) (\<lambda>err.
       sret \<lparr>xs_time = time, xs_wall_time = wall, xs_memory = mem, xs_exit_status = status, xs_signal = sig, xs_stdout = out, xs_stderr = err\<rparr>)))))))"

text \<open>Arithmetic with \<open>None\<close> is a \<open>TypeError\<close>.\<close>

definition both :: "('a \<Rightarrow> 'a \<Rightarrow> 'a) \<Rightarrow> 'a option \<Rightarrow> 'a option \<Rightarrow> 'a option res" where
  "both f x y = (case (x, y) of (Some x, Some y) \<Rightarrow> Inr (Some (f x y)) | _ \<Rightarrow> Inl TypeError)"

definition join_output :: "string option \<Rightarrow> string option \<Rightarrow> string option" where
  "join_output x y =
     (case (x, y) of
        (Some x, Some y) \<Rightarrow> Some (x @ NEWLINE @ ''==='' @ NEWLINE @ y)
      | (Some x, None) \<Rightarrow> Some x
      | (None, y) \<Rightarrow> y)"

definition merge_stats :: "bool \<Rightarrow> exec_stats \<Rightarrow> exec_stats \<Rightarrow> exec_stats res" where
  "merge_stats concurrent a b =
     res_bind (both (+) (xs_time a) (xs_time b)) (\<lambda>time.
     res_bind (both (if concurrent then max else (+)) (xs_wall_time a) (xs_wall_time b)) (\<lambda>wall.
     res_bind (both (if concurrent then (+) else max) (xs_memory a) (xs_memory b)) (\<lambda>mem.
       Inr \<lparr>xs_time = time, xs_wall_time = wall, xs_memory = mem,
         xs_exit_status = (if xs_exit_status a = EXIT_OK then xs_exit_status b else xs_exit_status a),
         xs_signal = (if xs_exit_status a = EXIT_OK \<and> xs_exit_status b = EXIT_SIGNAL then xs_signal b else xs_signal a),
         xs_stdout = join_output (xs_stdout a) (xs_stdout b), xs_stderr = join_output (xs_stderr a) (xs_stderr b)\<rparr>)))"

definition merge_execution_stats :: "exec_stats option \<Rightarrow> exec_stats option \<Rightarrow> bool \<Rightarrow> exec_stats res" where
  "merge_execution_stats first second concurrent =
     (case second of
        None \<Rightarrow> Inl ValueError
      | Some b \<Rightarrow> (case first of None \<Rightarrow> Inr b | Some a \<Rightarrow> merge_stats concurrent a b))"

section \<open>Steps of several commands\<close>

definition generic_execution :: "'w platform \<Rightarrow> nat \<Rightarrow> string list \<Rightarrow> nat \<Rightarrow> string \<Rightarrow> bool \<Rightarrow> (('w, 'x) host_scheme, exec_stats option) stm" where
  "generic_execution pf b command exec_num step_name collect_output =
     sthen (upd_box b (\<lambda>x. x\<lparr>sb_stdout_file := Some (step_name @ ''_stdout_'' @ show_int (int exec_num) @ ''.txt''),
       sb_stderr_file := Some (step_name @ ''_stderr_'' @ show_int (int exec_num) @ ''.txt'')\<rparr>))
     (sbind (execute_without_std pf b command) (\<lambda>box_success.
        if \<not> box_success then sret None else sbind (execution_stats b collect_output) (\<lambda>st. sret (Some st))))"

fun step_loop :: "'w platform \<Rightarrow> nat \<Rightarrow> string \<Rightarrow> bool \<Rightarrow> nat \<Rightarrow> string list list \<Rightarrow> exec_stats option \<Rightarrow> (('w, 'x) host_scheme, exec_stats option) stm" where
  "step_loop pf b step_name collect_output n [] st = sret st"
| "step_loop pf b step_name collect_output n (command # commands) st =
     sbind (generic_execution pf b command n step_name collect_output) (\<lambda>this.
       case this of
         None \<Rightarrow> sret None
       | Some this \<Rightarrow>
           sbind (slift (merge_execution_stats st (Some this) False)) (\<lambda>st.
             if xs_exit_status st \<noteq> EXIT_OK then sret (Some st)
             else step_loop pf b step_name collect_output (Suc n) commands (Some st)))"

definition generic_step :: "'w platform \<Rightarrow> nat \<Rightarrow> string list list \<Rightarrow> string \<Rightarrow> bool \<Rightarrow> (('w, 'x) host_scheme, exec_stats option) stm" where
  "generic_step pf b commands step_name collect_output = step_loop pf b step_name collect_output 0 commands None"

section \<open>Compilation\<close>

record compilation_verdict =
  cv_success :: bool
  cv_compilation_success :: "bool option"
  cv_text :: "string list option"
  cv_stats :: "exec_stats option"

definition compilation_sandbox :: "'w platform \<Rightarrow> isolate_box \<Rightarrow> isolate_box" where
  "compilation_sandbox pf x =
     (maybe_add_mapped_directory pf ''/var/lib/ghc'' None (add_mapped_directory ''/etc'' None None x))
       \<lparr>sb_preserve_env := True, sb_max_processes := Some (cf_compilation_max_processes pf), sb_timeout := Some (cf_compilation_max_time pf),
        sb_wallclock_timeout := Some (cf_compilation_max_time pf + 1), sb_address_space := Some (cf_compilation_max_memory pf * 1024)\<rparr>"

definition compilation_message :: "string \<Rightarrow> string list res" where
  "compilation_message m = res_bind (get_message COMPILATION_MESSAGES m) (\<lambda>t. Inr [t])"

definition compilation_judgement :: "exec_stats \<Rightarrow> compilation_verdict res" where
  "compilation_judgement st =
     (let verdict = (\<lambda>ok text. Inr \<lparr>cv_success = True, cv_compilation_success = Some ok, cv_text = Some text, cv_stats = Some st\<rparr>) in
      case xs_exit_status st of
        EXIT_OK \<Rightarrow> res_bind (compilation_message ''success'') (verdict True)
      | EXIT_NONZERO_RETURN \<Rightarrow> res_bind (compilation_message ''fail'') (verdict False)
      | EXIT_TIMEOUT \<Rightarrow> res_bind (compilation_message ''timeout'') (verdict False)
      | EXIT_TIMEOUT_WALL \<Rightarrow> res_bind (compilation_message ''timeout'') (verdict False)
      | EXIT_SIGNAL \<Rightarrow> (case xs_signal st of
          None \<Rightarrow> Inl KeyError
        | Some sig \<Rightarrow> res_bind (compilation_message ''signal'') (\<lambda>t. verdict False (t @ [show_int sig])))
      | EXIT_SANDBOX_ERROR \<Rightarrow> Inr \<lparr>cv_success = False, cv_compilation_success = None, cv_text = None, cv_stats = None\<rparr>)"

definition compilation_step :: "'w platform \<Rightarrow> nat \<Rightarrow> string list list \<Rightarrow> (('w, 'x) host_scheme, compilation_verdict) stm" where
  "compilation_step pf b commands =
     sthen (upd_box b (compilation_sandbox pf))
     (sbind (generic_step pf b commands ''compilation'' True) (\<lambda>st.
        case st of
          None \<Rightarrow> sret \<lparr>cv_success = False, cv_compilation_success = None, cv_text = None, cv_stats = None\<rparr>
        | Some st \<Rightarrow> slift (compilation_judgement st)))"

section \<open>Evaluation\<close>

record evaluation_verdict =
  vd_success :: bool
  vd_evaluation_success :: "bool option"
  vd_stats :: "exec_stats option"

definition verdict_failed :: evaluation_verdict where
  "verdict_failed = \<lparr>vd_success = False, vd_evaluation_success = None, vd_stats = None\<rparr>"

record evaluation_settings =
  se_time_limit :: "real option"
  se_memory_limit :: "int option"
  se_dirs_map :: "(string \<times> string option \<times> string option) list"
  se_writable_files :: "string list"
  se_stdin_redirect :: "string option"
  se_stdout_redirect :: "string option"
  se_multiprocess :: bool

definition evaluation_sandbox :: "'w platform \<Rightarrow> evaluation_settings \<Rightarrow> isolate_box \<Rightarrow> isolate_box" where
  "evaluation_sandbox pf e x =
     (let out = (case se_stdout_redirect e of None \<Rightarrow> ''stdout.txt'' | Some p \<Rightarrow> p);
          x = x\<lparr>sb_timeout := se_time_limit e, sb_wallclock_timeout := map_option (\<lambda>t. t + 1) (se_time_limit e),
                sb_address_space := se_memory_limit e, sb_fsize := Some (cf_max_file_size pf * 1024),
                sb_stdin_file := se_stdin_redirect e, sb_stdout_file := Some out, sb_stderr_file := Some ''stderr.txt''\<rparr>;
          x = fold (\<lambda>(src, dest, options). add_mapped_directory src dest options) (se_dirs_map e) x
      in set_multiprocess (se_multiprocess e) (allow_writing_only (se_writable_files e @ [''stderr.txt'', out]) x))"

text \<open>\<open>evaluation_step_before_run\<close> up to the start of the command.\<close>

definition limits_positive :: "evaluation_settings \<Rightarrow> bool" where
  "limits_positive e \<longleftrightarrow> (\<forall>t\<in>set_option (se_time_limit e). 0 < t) \<and> (\<forall>m\<in>set_option (se_memory_limit e). 0 < m)"

definition evaluation_start :: "'w platform \<Rightarrow> nat \<Rightarrow> string list \<Rightarrow> evaluation_settings \<Rightarrow> (('w, 'x) host_scheme, unit) stm" where
  "evaluation_start pf b command e =
     (if \<not> limits_positive e then sraise ValueError
      else sthen (upd_box b (evaluation_sandbox pf e)) (sandbox_popen b command))"

definition evaluation_step_before_run :: "'w platform \<Rightarrow> nat \<Rightarrow> string list \<Rightarrow> evaluation_settings \<Rightarrow> (('w, 'x) host_scheme, bool) stm" where
  "evaluation_step_before_run pf b command e =
     (if \<not> limits_positive e then sraise ValueError
      else sthen (upd_box b (evaluation_sandbox pf e)) (execute_without_std pf b command))"

definition evaluation_judgement :: "exec_stats \<Rightarrow> evaluation_verdict" where
  "evaluation_judgement st =
     (if xs_exit_status st = EXIT_OK then \<lparr>vd_success = True, vd_evaluation_success = Some True, vd_stats = Some st\<rparr>
      else if xs_exit_status st \<in> {EXIT_TIMEOUT, EXIT_TIMEOUT_WALL, EXIT_NONZERO_RETURN, EXIT_SIGNAL}
      then \<lparr>vd_success = True, vd_evaluation_success = Some False, vd_stats = Some st\<rparr>
      else verdict_failed)"

definition evaluation_step_after_run :: "nat \<Rightarrow> (('w, 'x) host_scheme, evaluation_verdict) stm" where
  "evaluation_step_after_run b = sbind (execution_stats b False) (\<lambda>st. sret (evaluation_judgement st))"

text \<open>The list of writable files is one object for all commands, and each appends the two output files again.\<close>

fun evaluation_loop :: "'w platform \<Rightarrow> nat \<Rightarrow> string list list \<Rightarrow> evaluation_settings \<Rightarrow> (('w, 'x) host_scheme, bool) stm" where
  "evaluation_loop pf b [] e = sret True"
| "evaluation_loop pf b (command # commands) e =
     sbind (evaluation_step_before_run pf b command e) (\<lambda>ok. if ok then evaluation_loop pf b commands e else sret False)"

definition evaluation_step :: "'w platform \<Rightarrow> nat \<Rightarrow> string list list \<Rightarrow> evaluation_settings \<Rightarrow> (('w, 'x) host_scheme, evaluation_verdict) stm" where
  "evaluation_step pf b commands e =
     sbind (evaluation_loop pf b commands e) (\<lambda>ok. if ok then evaluation_step_after_run b else sret verdict_failed)"

definition human_evaluation_message :: "exec_stats \<Rightarrow> string list res" where
  "human_evaluation_message st =
     (let msg = (\<lambda>m. res_bind (get_message EVALUATION_MESSAGES m) (\<lambda>t. Inr [t])) in
      case xs_exit_status st of
        EXIT_TIMEOUT \<Rightarrow> msg ''timeout''
      | EXIT_TIMEOUT_WALL \<Rightarrow> msg ''walltimeout''
      | EXIT_SIGNAL \<Rightarrow> msg ''signal''
      | EXIT_SANDBOX_ERROR \<Rightarrow> Inr []
      | EXIT_NONZERO_RETURN \<Rightarrow> msg ''returncode''
      | EXIT_OK \<Rightarrow> Inr [])"

section \<open>Trusted commands and checkers\<close>

definition trusted_sandbox :: "'w platform \<Rightarrow> isolate_box \<Rightarrow> isolate_box" where
  "trusted_sandbox pf x =
     x\<lparr>sb_preserve_env := True, sb_max_processes := Some (cf_trusted_max_processes pf), sb_timeout := Some (cf_trusted_max_time pf),
       sb_wallclock_timeout := Some (cf_trusted_max_time pf + 1), sb_address_space := Some (cf_trusted_max_memory pf * 1024)\<rparr>"

definition trusted_step :: "'w platform \<Rightarrow> nat \<Rightarrow> string list list \<Rightarrow> (('w, 'x) host_scheme, evaluation_verdict) stm" where
  "trusted_step pf b commands =
     sthen (upd_box b (trusted_sandbox pf))
     (sbind (generic_step pf b commands ''trusted'' False) (\<lambda>st.
        case st of None \<Rightarrow> sret verdict_failed | Some st \<Rightarrow> sret (evaluation_judgement st)))"

text \<open>\<open>_filter_ansi_escape\<close>\<close>

fun filter_ansi :: "bool \<Rightarrow> string \<Rightarrow> string" where
  "filter_ansi ansi_mode [] = []"
| "filter_ansi ansi_mode (c # s) =
     (let mode = (ansi_mode \<or> c = CHR 0x1B) in
      (if mode then [] else [c]) @ filter_ansi (mode \<and> c \<noteq> CHR ''m'') s)"

definition filter_ansi_escape :: "string \<Rightarrow> string" where
  "filter_ansi_escape = filter_ansi False"

definition manager_line :: "nat \<Rightarrow> (isolate_box \<Rightarrow> string option) \<Rightarrow> (('w, 'x) host_scheme, string) stm" where
  "manager_line b f =
     sbind (get_box b) (\<lambda>x. sbind (or_type_error (f x)) (\<lambda>p. sbind (get_file b p None) (\<lambda>s.
       case decode s of Inl _ \<Rightarrow> sraise ValueError | Inr t \<Rightarrow> sret (strip (first_line t)))))"

definition manager_text :: "string \<Rightarrow> string list res" where
  "manager_text text =
     (if take 10 text = ''translate:'' \<and> strip (drop 10 text) \<in> {''success'', ''partial'', ''wrong''} then
        res_bind (get_message EVALUATION_MESSAGES (strip (drop 10 text))) (\<lambda>t. Inr [t])
      else Inr [text])"

definition extract_outcome_and_text :: "nat \<Rightarrow> (('w, 'x) host_scheme, real \<times> string list) stm" where
  "extract_outcome_and_text b =
     sbind (manager_line b sb_stdout_file) (\<lambda>outcome.
     sbind (manager_line b sb_stderr_file) (\<lambda>text.
     sbind (slift (py_float outcome)) (\<lambda>x.
     sbind (slift (manager_text (filter_ansi_escape text))) (\<lambda>t. sret (x, t)))))"

definition is_outcome_pair :: "string \<Rightarrow> bool" where
  "is_outcome_pair s \<longleftrightarrow> length (split_byte (CHR '' '') s) = 2 \<and> list_all (\<lambda>x. case py_float x of Inl _ \<Rightarrow> False | Inr _ \<Rightarrow> True) (split_byte (CHR '' '') s)"

definition extract_pvp_outcome_and_text :: "nat \<Rightarrow> (('w, 'x) host_scheme, string \<times> string list) stm" where
  "extract_pvp_outcome_and_text b =
     sbind (manager_line b sb_stdout_file) (\<lambda>outcome.
     sbind (manager_line b sb_stderr_file) (\<lambda>text.
     sthen (if is_outcome_pair outcome then sret () else sraise ValueError)
     (sbind (slift (manager_text (filter_ansi_escape text))) (\<lambda>t. sret (outcome, t)))))"

definition CHECKER_INPUT_FILENAME :: string where "CHECKER_INPUT_FILENAME = ''input.txt''"
definition CHECKER_CORRECT_OUTPUT_FILENAME :: string where "CHECKER_CORRECT_OUTPUT_FILENAME = ''correct_output.txt''"
definition CHECKER_FILENAME :: string where "CHECKER_FILENAME = ''checker''"

text \<open>The result is success, outcome and text; a missing output file or an outcome that is no number is a failure of the checker.\<close>

definition checker_failed :: "bool \<times> real option \<times> string list option" where
  "checker_failed = (False, None, None)"

definition checker_step :: "'w platform \<Rightarrow> nat \<Rightarrow> digest option \<Rightarrow> digest \<Rightarrow> digest \<Rightarrow> string \<Rightarrow> (('w, 'x) host_scheme, bool \<times> real option \<times> string list option) stm" where
  "checker_step pf b checker_digest input_digest correct_output_digest output_filename =
     sbind (get_box b) (\<lambda>x.
     if list_ex (dict_has (sb_home x)) [CHECKER_INPUT_FILENAME, CHECKER_CORRECT_OUTPUT_FILENAME, CHECKER_FILENAME] then sret checker_failed
     else case checker_digest of
       None \<Rightarrow> sret checker_failed
     | Some checker \<Rightarrow>
         sthen (create_file_from_storage b CHECKER_FILENAME checker True)
         (sthen (create_file_from_storage b CHECKER_INPUT_FILENAME input_digest False)
         (sthen (create_file_from_storage b CHECKER_CORRECT_OUTPUT_FILENAME correct_output_digest False)
         (sbind (trusted_step pf b [[''./'' @ CHECKER_FILENAME, CHECKER_INPUT_FILENAME, CHECKER_CORRECT_OUTPUT_FILENAME, output_filename]]) (\<lambda>v.
          if \<not> vd_success v \<or> vd_evaluation_success v \<noteq> Some True then sret checker_failed
          else stry (sbind (extract_outcome_and_text b) (\<lambda>(outcome, text). sret (True, Some outcome, Some text)))
            (\<lambda>e. e \<in> {ValueError, FileNotFoundError}) (\<lambda>_. sret checker_failed))))))"

end
