(* ===== verification/Rpc.thy ===== *)
theory Rpc
  imports Ranking_Entities
begin

text \<open>
  Remote procedure calls between services (\<^verbatim>\<open>cms/io/rpc.py\<close>): a client and a server at the two ends of a connection that carries bytes. Sending is
  atomic: the last byte of a request leaves in the same turn of the greenlet that stores the request. The JSON functions \<open>dumps\<close>
  and \<open>loads\<close>, whether an attempt to write succeeds, and what the methods of the local service return are parameters. An
  \<open>AsyncResult\<close> is a place in a list of outcomes.
\<close>

section \<open>Both ends of a connection\<close>

definition MAX_MESSAGE_SIZE :: nat where
  "MAX_MESSAGE_SIZE = 1024 * 1024 * 4"

abbreviation (input) line_end :: string where
  "line_end \<equiv> [CHR 0x0D, CHR 0x0A]"

text \<open>\<open>_write\<close>: the bytes put on the wire; an error that leaves the connection as it is; or one that ends it.\<close>

datatype written = Sent string | Refused | Write_failed

definition remote_write :: "bool \<Rightarrow> bool \<Rightarrow> string \<Rightarrow> written" where
  "remote_write up sock_ok data =
     (if \<not> up then Refused
      else if MAX_MESSAGE_SIZE < length (data @ line_end) then Refused
      else if \<not> sock_ok then Write_failed
      else Sent (data @ line_end))"

text \<open>\<open>readline(MAX_MESSAGE_SIZE)\<close>, with what stays in the buffer.\<close>

definition read_line :: "string \<Rightarrow> string \<times> string" where
  "read_line buf =
     (let chunk = take MAX_MESSAGE_SIZE buf; n = length (takeWhile (\<lambda>c. c \<noteq> CHR 0x0A) chunk) in
      (take (Suc n) chunk, drop (length (take (Suc n) chunk)) buf))"

definition message_end :: "string \<Rightarrow> bool" where
  "message_end data \<longleftrightarrow> 2 \<le> length data \<and> drop (length data - 2) data = line_end"

definition issubset_keys :: "string list \<Rightarrow> (string, json_value) dict \<Rightarrow> bool" where
  "issubset_keys ks d \<longleftrightarrow> list_all (dict_has d) ks"

section \<open>The client\<close>

datatype outcome = Unset | Value json_value | Failed json_value

record rpc_client =
  rc_connected :: bool
  rc_requests :: "(string, json_value) dict"
  rc_pending :: "(string, nat) dict"
  rc_values :: "outcome list"

definition rpc_client_init :: rpc_client where
  "rpc_client_init = \<lparr>rc_connected = False, rc_requests = [], rc_pending = [], rc_values = []\<rparr>"

definition set_outcome :: "nat \<Rightarrow> outcome \<Rightarrow> rpc_client \<Rightarrow> rpc_client" where
  "set_outcome r x c = c\<lparr>rc_values := (rc_values c)[r := x]\<rparr>"

definition client_finalize :: "string \<Rightarrow> rpc_client \<Rightarrow> rpc_client" where
  "client_finalize reason c =
     (fold (\<lambda>(_, r). set_outcome r (Failed (JString reason))) (rc_pending c) (c\<lparr>rc_connected := False\<rparr>))\<lparr>rc_requests := [], rc_pending := []\<rparr>"

definition client_disconnect :: "string \<Rightarrow> rpc_client \<Rightarrow> rpc_client" where
  "client_disconnect reason c = (if \<not> rc_connected c then c else client_finalize reason c)"

definition rpc_request :: "string \<Rightarrow> string \<Rightarrow> json_value \<Rightarrow> json_value" where
  "rpc_request i method data = JDict [(''__id'', JString i), (''__method'', JString method), (''__data'', data)]"

text \<open>\<open>execute_rpc\<close>: the place of the result, and the bytes sent.\<close>

definition execute_rpc ::
  "(json_value \<Rightarrow> string option) \<Rightarrow> string \<Rightarrow> bool \<Rightarrow> string \<Rightarrow> json_value \<Rightarrow> rpc_client \<Rightarrow> rpc_client \<times> nat \<times> string"
where
  "execute_rpc dumps i sock_ok method data c =
     (let r = length (rc_values c); c1 = c\<lparr>rc_values := rc_values c @ [Unset]\<rparr>; request = rpc_request i method data in
      case dumps request of
        None \<Rightarrow> (set_outcome r (Failed (JString ''JSON encoding failed.'')) c1, r, [])
      | Some bytes \<Rightarrow>
          (case remote_write (rc_connected c1) sock_ok bytes of
             Refused \<Rightarrow> (set_outcome r (Failed (JString ''Write failed.'')) c1, r, [])
           | Write_failed \<Rightarrow> (set_outcome r (Failed (JString ''Write failed.'')) (client_finalize ''Write failed.'' c1), r, [])
           | Sent wire \<Rightarrow>
               (c1\<lparr>rc_requests := dict_set (rc_requests c1) i request, rc_pending := dict_set (rc_pending c1) i r\<rparr>, r, wire)))"

definition process_incoming_response :: "(string, json_value) dict \<Rightarrow> rpc_client \<Rightarrow> rpc_client" where
  "process_incoming_response response c =
     (if \<not> issubset_keys [''__id'', ''__data'', ''__error''] response then client_disconnect ''Bad response received'' c
      else case map_of response ''__id'' of
        Some (JString i) \<Rightarrow>
          (case map_of (rc_requests c) i of
             None \<Rightarrow> c
           | Some _ \<Rightarrow>
               (case (map_of (rc_pending c) i, map_of response ''__error'', map_of response ''__data'') of
                  (Some r, Some error, Some data) \<Rightarrow>
                    set_outcome r (if error \<noteq> JNull then Failed error else Value data)
                      (c\<lparr>rc_requests := AList.delete i (rc_requests c), rc_pending := AList.delete i (rc_pending c)\<rparr>)
                | _ \<Rightarrow> c))
      | _ \<Rightarrow> c)"

definition client_process_data :: "(string \<Rightarrow> json_value option) \<Rightarrow> string \<Rightarrow> rpc_client \<Rightarrow> rpc_client" where
  "client_process_data loads data c =
     (case loads data of
        None \<Rightarrow> client_disconnect ''Bad response received'' c
      | Some (JDict response) \<Rightarrow> process_incoming_response response c
      | Some _ \<Rightarrow> c)"

text \<open>A client for a service that is not configured.\<close>

definition fake_execute_rpc :: "string \<Rightarrow> json_value \<Rightarrow> rpc_client \<Rightarrow> rpc_client \<times> nat" where
  "fake_execute_rpc method data c =
     (c\<lparr>rc_values := rc_values c @ [Failed (JString ''Called a method of a non-configured service.'')]\<rparr>, length (rc_values c))"

text \<open>\<open>run_callback\<close>: the data and the error that the callback is called with.\<close>

definition callback_arguments :: "outcome \<Rightarrow> (json_value \<times> json_value) option" where
  "callback_arguments x = (case x of Unset \<Rightarrow> None | Value v \<Rightarrow> Some (v, JNull) | Failed e \<Rightarrow> Some (JNull, e))"

section \<open>The server\<close>

record rpc_server =
  sv_connected :: bool
  sv_running :: "(json_value \<times> json_value \<times> json_value) list"

definition rpc_server_init :: rpc_server where
  "rpc_server_init = \<lparr>sv_connected = False, sv_running = []\<rparr>"

definition server_finalize :: "rpc_server \<Rightarrow> rpc_server" where
  "server_finalize s = s\<lparr>sv_connected := False, sv_running := []\<rparr>"

definition server_disconnect :: "rpc_server \<Rightarrow> rpc_server" where
  "server_disconnect s = (if \<not> sv_connected s then s else server_finalize s)"

text \<open>\<open>process_incoming_request\<close> up to the call of the method.\<close>

definition request_begin :: "(string, json_value) dict \<Rightarrow> rpc_server \<Rightarrow> rpc_server" where
  "request_begin request s =
     (case (map_of request ''__id'', map_of request ''__method'', map_of request ''__data'') of
        (Some i, Some method, Some data) \<Rightarrow> s\<lparr>sv_running := sv_running s @ [(i, method, data)]\<rparr>
      | _ \<Rightarrow> server_disconnect s)"

definition server_process_data :: "(string \<Rightarrow> json_value option) \<Rightarrow> string \<Rightarrow> rpc_server \<Rightarrow> rpc_server" where
  "server_process_data loads data s =
     (case loads data of
        None \<Rightarrow> server_disconnect s
      | Some (JDict request) \<Rightarrow> request_begin request s
      | Some _ \<Rightarrow> s)"

text \<open>What a method of the local service does when it is called: \<open>None\<close> for a name that it does not have, and otherwise whether
  the method is callable and the value or the text of the error it gives.\<close>

definition rpc_response :: "json_value \<Rightarrow> string + json_value \<Rightarrow> json_value" where
  "rpc_response i answer =
     JDict [(''__id'', i), (''__data'', case answer of Inl _ \<Rightarrow> JNull | Inr v \<Rightarrow> v), (''__error'', case answer of Inl e \<Rightarrow> JString e | Inr _ \<Rightarrow> JNull)]"

definition call_method :: "(bool \<times> (string + json_value)) option \<Rightarrow> string \<Rightarrow> string + json_value" where
  "call_method service method_name =
     (case service of
        None \<Rightarrow> Inl (''Method '' @ method_name @ '' doesn't exist.'')
      | Some (callable, answer) \<Rightarrow> if \<not> callable then Inl (''Method '' @ method_name @ '' isn't callable.'') else answer)"

text \<open>The rest of \<open>process_incoming_request\<close>, for the \<open>n\<close>-th running request, with the answer of \<open>call_method\<close>; the bytes sent.\<close>

definition request_end ::
  "(json_value \<Rightarrow> string option) \<Rightarrow> nat \<Rightarrow> bool \<Rightarrow> string + json_value \<Rightarrow> rpc_server \<Rightarrow> rpc_server \<times> string"
where
  "request_end dumps n sock_ok answer s =
     (let (i, _, _) = sv_running s ! n; s1 = s\<lparr>sv_running := take n (sv_running s) @ drop (Suc n) (sv_running s)\<rparr> in
      case dumps (rpc_response i answer) of
        None \<Rightarrow> (s1, [])
      | Some bytes \<Rightarrow>
          (case remote_write (sv_connected s1) sock_ok bytes of
             Sent wire \<Rightarrow> (s1, wire)
           | Refused \<Rightarrow> (s1, [])
           | Write_failed \<Rightarrow> (server_finalize s1, [])))"

section \<open>A connection\<close>

text \<open>The two ends, the bytes on the way, and as history the calls issued with their places and the methods executed.\<close>

record rpc_system =
  sy_client :: rpc_client
  sy_server :: rpc_server
  sy_to_server :: string
  sy_to_client :: string
  sy_issued :: "(string \<times> string \<times> json_value \<times> nat) list"
  sy_executed :: "(string \<times> string \<times> json_value \<times> (string + json_value)) list"

definition rpc_system_init :: rpc_system where
  "rpc_system_init = \<lparr>sy_client = rpc_client_init, sy_server = rpc_server_init, sy_to_server = [], sy_to_client = [], sy_issued = [], sy_executed = []\<rparr>"

text \<open>One turn of the loop of \<open>run\<close> at either end; a line that is no message ends the connection.\<close>

definition client_run :: "(string \<Rightarrow> json_value option) \<Rightarrow> rpc_system \<Rightarrow> rpc_system" where
  "client_run loads y =
     (let (data, rest) = read_line (sy_to_client y) in
      if \<not> message_end data then y\<lparr>sy_client := client_finalize ''Client misbehaving.'' (sy_client y)\<rparr>
      else y\<lparr>sy_client := client_process_data loads data (sy_client y), sy_to_client := rest\<rparr>)"

definition server_run :: "(string \<Rightarrow> json_value option) \<Rightarrow> rpc_system \<Rightarrow> rpc_system" where
  "server_run loads y =
     (let (data, rest) = read_line (sy_to_server y) in
      if \<not> message_end data then y\<lparr>sy_server := server_finalize (sy_server y)\<rparr>
      else y\<lparr>sy_server := server_process_data loads data (sy_server y), sy_to_server := rest\<rparr>)"

text \<open>Calls have new ids; either end may lose or close the connection at any time; a new connection starts with nothing on
  the way. The service answers as it likes.\<close>

inductive rpc_step :: "(json_value \<Rightarrow> string option) \<Rightarrow> (string \<Rightarrow> json_value option) \<Rightarrow> rpc_system \<Rightarrow> rpc_system \<Rightarrow> bool" for dumps loads where
  step_connect: "\<not> rc_connected (sy_client y) \<Longrightarrow> \<not> sv_connected (sy_server y) \<Longrightarrow>
    rpc_step dumps loads y (y\<lparr>sy_client := (sy_client y)\<lparr>rc_connected := True\<rparr>, sy_server := (sy_server y)\<lparr>sv_connected := True\<rparr>,
      sy_to_server := [], sy_to_client := []\<rparr>)"
| step_call: "i \<notin> fst ` set (sy_issued y) \<Longrightarrow> execute_rpc dumps i sock_ok method data (sy_client y) = (c, r, wire) \<Longrightarrow>
    rpc_step dumps loads y (y\<lparr>sy_client := c, sy_to_server := sy_to_server y @ wire, sy_issued := sy_issued y @ [(i, method, data, r)]\<rparr>)"
| step_client_run: "rc_connected (sy_client y) \<Longrightarrow> sy_to_client y \<noteq> [] \<Longrightarrow> rpc_step dumps loads y (client_run loads y)"
| step_client_lost: "rpc_step dumps loads y (y\<lparr>sy_client := client_finalize reason (sy_client y)\<rparr>)"
| step_client_disconnect: "rpc_step dumps loads y (y\<lparr>sy_client := client_disconnect reason (sy_client y)\<rparr>)"
| step_server_run: "sv_connected (sy_server y) \<Longrightarrow> sy_to_server y \<noteq> [] \<Longrightarrow> rpc_step dumps loads y (server_run loads y)"
| step_server_lost: "rpc_step dumps loads y (y\<lparr>sy_server := server_finalize (sy_server y)\<rparr>)"
| step_answer: "n < length (sv_running (sy_server y)) \<Longrightarrow> sv_running (sy_server y) ! n = (JString i, JString method, data) \<Longrightarrow>
    answer = call_method service method \<Longrightarrow> request_end dumps n sock_ok answer (sy_server y) = (s, wire) \<Longrightarrow>
    rpc_step dumps loads y (y\<lparr>sy_server := s, sy_to_client := sy_to_client y @ wire, sy_executed := sy_executed y @ [(i, method, data, answer)]\<rparr>)"

inductive rpc_reach :: "(json_value \<Rightarrow> string option) \<Rightarrow> (string \<Rightarrow> json_value option) \<Rightarrow> rpc_system \<Rightarrow> bool" for dumps loads where
  reach_init: "rpc_reach dumps loads rpc_system_init"
| reach_step: "rpc_reach dumps loads y \<Longrightarrow> rpc_step dumps loads y y' \<Longrightarrow> rpc_reach dumps loads y'"

section \<open>Framing\<close>

definition frame :: "string \<Rightarrow> string" where
  "frame m = m @ line_end"

definition frame_ok :: "string \<Rightarrow> bool" where
  "frame_ok m \<longleftrightarrow> CHR 0x0A \<notin> set m \<and> length (frame m) \<le> MAX_MESSAGE_SIZE"

text \<open>Whatever follows a message, a reader gets that message.\<close>

lemma read_frame: "frame_ok m \<Longrightarrow> read_line (frame m @ rest) = (frame m, rest)"
proof -
  assume ok: "frame_ok m"
  let ?P = "\<lambda>c. c \<noteq> CHR 0x0A"
  define chunk where "chunk = take MAX_MESSAGE_SIZE (frame m @ rest)"
  obtain rest' where chunk: "chunk = frame m @ rest'"
    using ok unfolding chunk_def frame_ok_def by (metis append_take_drop_id le_add_diff_inverse take_add take_all_iff take_append)
  have "\<forall>c\<in>set (m @ [CHR 0x0D]). ?P c" using ok by (auto simp: frame_ok_def)
  then have tw: "takeWhile ?P ((m @ [CHR 0x0D]) @ CHR 0x0A # rest') = m @ [CHR 0x0D]"
    by (subst takeWhile_append2) auto
  have "chunk = (m @ [CHR 0x0D]) @ CHR 0x0A # rest'" by (simp add: chunk frame_def)
  then have n: "length (takeWhile ?P chunk) = Suc (length m)" using tw by simp
  have "take (Suc (Suc (length m))) chunk = frame m" by (simp add: chunk frame_def)
  then show ?thesis unfolding read_line_def Let_def chunk_def[symmetric] n by simp
qed

lemma message_end_frame: "message_end (frame m)"
  by (simp add: message_end_def frame_def)

section \<open>The invariant\<close>

type_synonym issued_calls = "(string \<times> string \<times> json_value \<times> nat) list"
type_synonym executed_calls = "(string \<times> string \<times> json_value \<times> (string + json_value)) list"

definition client_ok :: "rpc_client \<Rightarrow> issued_calls \<Rightarrow> executed_calls \<Rightarrow> bool" where
  "client_ok c iss exe \<longleftrightarrow>
     map fst (rc_requests c) = map fst (rc_pending c) \<and> dict_ok (rc_pending c) \<and>
     (\<forall>i r. (i, r) \<in> set (rc_pending c) \<longrightarrow> r < length (rc_values c) \<and> rc_values c ! r = Unset \<and> (\<exists>m d. (i, m, d, r) \<in> set iss)) \<and>
     (\<forall>r < length (rc_values c). rc_values c ! r = Unset \<longrightarrow> r \<in> snd ` set (rc_pending c)) \<and>
     (\<not> rc_connected c \<longrightarrow> rc_pending c = []) \<and>
     (\<forall>r < length (rc_values c). \<forall>v. rc_values c ! r = Value v \<longrightarrow> (\<exists>i m d. (i, m, d, r) \<in> set iss \<and> (i, m, d, Inr v) \<in> set exe))"

definition calls_ok :: "nat \<Rightarrow> issued_calls \<Rightarrow> bool" where
  "calls_ok n iss \<longleftrightarrow> distinct (map fst iss) \<and> (\<forall>i m d r. (i, m, d, r) \<in> set iss \<longrightarrow> r < n) \<and>
     (\<forall>i m d j m' d' r. (i, m, d, r) \<in> set iss \<longrightarrow> (j, m', d', r) \<in> set iss \<longrightarrow> i = j)"

definition wire_ok :: "string \<Rightarrow> (string \<Rightarrow> bool) \<Rightarrow> bool" where
  "wire_ok w P \<longleftrightarrow> (\<exists>ms. w = concat (map frame ms) \<and> (\<forall>m\<in>set ms. frame_ok m \<and> P m))"

definition is_request :: "(json_value \<Rightarrow> string option) \<Rightarrow> issued_calls \<Rightarrow> string \<Rightarrow> bool" where
  "is_request dumps iss m \<longleftrightarrow> (\<exists>i method d r. (i, method, d, r) \<in> set iss \<and> dumps (rpc_request i method d) = Some m)"

definition is_response :: "(json_value \<Rightarrow> string option) \<Rightarrow> executed_calls \<Rightarrow> string \<Rightarrow> bool" where
  "is_response dumps exe m \<longleftrightarrow> (\<exists>i method d a. (i, method, d, a) \<in> set exe \<and> dumps (rpc_response (JString i) a) = Some m)"

definition system_ok :: "(json_value \<Rightarrow> string option) \<Rightarrow> rpc_system \<Rightarrow> bool" where
  "system_ok dumps y \<longleftrightarrow>
     client_ok (sy_client y) (sy_issued y) (sy_executed y) \<and> calls_ok (length (rc_values (sy_client y))) (sy_issued y) \<and>
     wire_ok (sy_to_server y) (is_request dumps (sy_issued y)) \<and> wire_ok (sy_to_client y) (is_response dumps (sy_executed y)) \<and>
     (\<forall>x\<in>set (sv_running (sy_server y)). \<exists>i m d r. x = (JString i, JString m, d) \<and> (i, m, d, r) \<in> set (sy_issued y)) \<and>
     (\<forall>i m d a. (i, m, d, a) \<in> set (sy_executed y) \<longrightarrow> (\<exists>r. (i, m, d, r) \<in> set (sy_issued y)))"

definition codec_ok :: "(json_value \<Rightarrow> string option) \<Rightarrow> (string \<Rightarrow> json_value option) \<Rightarrow> bool" where
  "codec_ok dumps loads \<longleftrightarrow> (\<forall>j s. dumps j = Some s \<longrightarrow> loads (s @ line_end) = Some j \<and> CHR 0x0A \<notin> set s)"

lemma wire_ok_mono: "wire_ok w P \<Longrightarrow> (\<And>m. P m \<Longrightarrow> Q m) \<Longrightarrow> wire_ok w Q"
  unfolding wire_ok_def by blast

lemma wire_ok_Nil [simp]: "wire_ok [] P"
  by (auto simp: wire_ok_def intro: exI[of _ "[]"])

lemma wire_ok_append: "wire_ok w P \<Longrightarrow> frame_ok m \<Longrightarrow> P m \<Longrightarrow> wire_ok (w @ frame m) P"
proof -
  assume "wire_ok w P" and m: "frame_ok m" "P m"
  then obtain ms where "w = concat (map frame ms)" "\<forall>m\<in>set ms. frame_ok m \<and> P m" unfolding wire_ok_def by blast
  then show ?thesis using m unfolding wire_ok_def by (intro exI[of _ "ms @ [m]"]) auto
qed

lemma wire_ok_read:
  assumes "wire_ok w P" "w \<noteq> []"
  obtains m rest where "read_line w = (frame m, rest)" "P m" "wire_ok rest P"
proof -
  obtain ms where ms: "w = concat (map frame ms)" "\<forall>m\<in>set ms. frame_ok m \<and> P m" using assms(1) unfolding wire_ok_def by blast
  then obtain m ms' where m: "ms = m # ms'" using assms(2) by (cases ms) auto
  have "read_line w = (frame m, concat (map frame ms'))" using read_frame[of m] ms m by simp
  moreover have "wire_ok (concat (map frame ms')) P" using ms(2) m unfolding wire_ok_def by auto
  ultimately show thesis using that ms(2) m by auto
qed

lemma fold_outcomes:
  "rc_connected (fold (\<lambda>(_, r). set_outcome r x) ps c) = rc_connected c \<and>
   length (rc_values (fold (\<lambda>(_, r). set_outcome r x) ps c)) = length (rc_values c) \<and>
   (\<forall>k < length (rc_values c). rc_values (fold (\<lambda>(_, r). set_outcome r x) ps c) ! k = (if k \<in> snd ` set ps then x else rc_values c ! k))"
proof (induction ps arbitrary: c)
  case (Cons p ps)
  obtain i r where p: "p = (i, r)" by fastforce
  show ?case using Cons[of "set_outcome r x c"] by (auto simp: p set_outcome_def nth_list_update)
qed simp

lemma client_finalize_simps:
  "rc_connected (client_finalize reason c) = False" "rc_requests (client_finalize reason c) = []" "rc_pending (client_finalize reason c) = []"
  "length (rc_values (client_finalize reason c)) = length (rc_values c)"
  "k < length (rc_values c) \<Longrightarrow>
     rc_values (client_finalize reason c) ! k = (if k \<in> snd ` set (rc_pending c) then Failed (JString reason) else rc_values c ! k)"
  using fold_outcomes[of "Failed (JString reason)" "rc_pending c" "c\<lparr>rc_connected := False\<rparr>"] by (simp_all add: client_finalize_def)

lemma client_okD:
  assumes "client_ok c iss exe"
  shows "map fst (rc_requests c) = map fst (rc_pending c)" "dict_ok (rc_pending c)"
    "\<And>i r. (i, r) \<in> set (rc_pending c) \<Longrightarrow> r < length (rc_values c) \<and> rc_values c ! r = Unset \<and> (\<exists>m d. (i, m, d, r) \<in> set iss)"
    "\<And>r. r < length (rc_values c) \<Longrightarrow> rc_values c ! r = Unset \<Longrightarrow> r \<in> snd ` set (rc_pending c)"
    "\<not> rc_connected c \<Longrightarrow> rc_pending c = []"
    "\<And>r v. r < length (rc_values c) \<Longrightarrow> rc_values c ! r = Value v \<Longrightarrow> \<exists>i m d. (i, m, d, r) \<in> set iss \<and> (i, m, d, Inr v) \<in> set exe"
  using assms unfolding client_ok_def by blast+

lemma client_ok_mono: "client_ok c iss exe \<Longrightarrow> set iss \<subseteq> set iss' \<Longrightarrow> set exe \<subseteq> set exe' \<Longrightarrow> client_ok c iss' exe'"
  unfolding client_ok_def by (intro conjI) (simp, simp, blast, simp, simp, blast)

lemma client_finalize_ok: "client_ok c iss exe \<Longrightarrow> client_ok (client_finalize reason c) iss exe"
proof -
  assume ok: "client_ok c iss exe"
  note D = client_okD[OF ok] and F = client_finalize_simps[where reason = reason and c = c]
  show ?thesis unfolding client_ok_def F(1-4)
  proof (intro conjI allI impI)
    fix r assume r: "r < length (rc_values c)" "rc_values (client_finalize reason c) ! r = Unset"
    then show "r \<in> snd ` set []" using F(5)[OF r(1)] D(4)[OF r(1)] by (auto split: if_splits)
  next
    fix r v assume r: "r < length (rc_values c)" "rc_values (client_finalize reason c) ! r = Value v"
    then show "\<exists>i m d. (i, m, d, r) \<in> set iss \<and> (i, m, d, Inr v) \<in> set exe" using F(5)[OF r(1)] D(6)[OF r(1)] by (auto split: if_splits)
  qed simp_all
qed

lemma client_disconnect_ok: "client_ok c iss exe \<Longrightarrow> client_ok (client_disconnect reason c) iss exe"
  by (simp add: client_disconnect_def client_finalize_ok)

lemma client_disconnect_length: "length (rc_values (client_disconnect reason c)) = length (rc_values c)"
  by (simp add: client_disconnect_def client_finalize_simps)

text \<open>A new place with an outcome that is set.\<close>

lemma client_ok_add_failed:
  assumes "client_ok c iss exe"
  shows "client_ok (c\<lparr>rc_values := rc_values c @ [Failed e]\<rparr>) iss exe"
proof -
  note D = client_okD[OF assms]
  let ?c = "c\<lparr>rc_values := rc_values c @ [Failed e]\<rparr>"
  have old: "r < length (rc_values ?c) \<Longrightarrow> rc_values ?c ! r \<noteq> Failed e \<Longrightarrow> r < length (rc_values c) \<and> rc_values ?c ! r = rc_values c ! r" for r
    by (cases "r = length (rc_values c)") (auto simp: nth_append)
  show ?thesis unfolding client_ok_def
  proof (intro conjI allI impI)
    fix i r assume "(i, r) \<in> set (rc_pending ?c)"
    then show "r < length (rc_values ?c)" "rc_values ?c ! r = Unset" "\<exists>m d. (i, m, d, r) \<in> set iss"
      using D(3)[of i r] by (auto simp: nth_append)
  next
    fix r assume r: "r < length (rc_values ?c)" "rc_values ?c ! r = Unset"
    then show "r \<in> snd ` set (rc_pending ?c)" using old[OF r(1)] D(4)[of r] by simp
  next
    fix r v assume r: "r < length (rc_values ?c)" "rc_values ?c ! r = Value v"
    then show "\<exists>i m d. (i, m, d, r) \<in> set iss \<and> (i, m, d, Inr v) \<in> set exe" using old[OF r(1)] D(6)[of r v] by simp
  qed (use D(1,2,5) in simp_all)
qed

lemma set_outcome_last: "set_outcome (length (rc_values c)) x (c\<lparr>rc_values := rc_values c @ [y]\<rparr>) = c\<lparr>rc_values := rc_values c @ [x]\<rparr>"
  by (simp add: set_outcome_def)

lemma update_last: "length zs = n \<Longrightarrow> (zs @ [y])[n := x] = zs @ [x]"
  by (metis list_update_length)

lemma finalize_add_place:
  assumes "client_ok c iss exe"
  shows "set_outcome (length (rc_values c)) x (client_finalize reason (c\<lparr>rc_values := rc_values c @ [Unset]\<rparr>)) =
    (client_finalize reason c)\<lparr>rc_values := rc_values (client_finalize reason c) @ [x]\<rparr>"
proof -
  note D = client_okD(3)[OF assms]
  let ?f = "\<lambda>(_, r). set_outcome r (Failed (JString reason))"
  have f: "fold ?f ps (c'\<lparr>rc_values := rc_values c' @ [Unset]\<rparr>) = (fold ?f ps c')\<lparr>rc_values := rc_values (fold ?f ps c') @ [Unset]\<rparr>"
    if "\<forall>(_, r)\<in>set ps. r < length (rc_values c')" for ps :: "(string \<times> nat) list" and c' :: rpc_client
    using that
  proof (induction ps arbitrary: c')
    case (Cons p ps)
    obtain i r where p: "p = (i, r)" by fastforce
    have "set_outcome r (Failed (JString reason)) (c'\<lparr>rc_values := rc_values c' @ [Unset]\<rparr>) =
        (set_outcome r (Failed (JString reason)) c')\<lparr>rc_values := rc_values (set_outcome r (Failed (JString reason)) c') @ [Unset]\<rparr>"
      using Cons.prems p by (simp add: set_outcome_def list_update_append)
    then show ?case using Cons.IH[of "set_outcome r (Failed (JString reason)) c'"] Cons.prems p by (simp add: set_outcome_def)
  qed simp
  have "\<forall>(_, r)\<in>set (rc_pending c). r < length (rc_values (c\<lparr>rc_connected := False\<rparr>))" using D by auto
  moreover obtain up qs ps vs where c: "c = \<lparr>rc_connected = up, rc_requests = qs, rc_pending = ps, rc_values = vs\<rparr>" by (cases c)
  ultimately show ?thesis
    using f[of ps "\<lparr>rc_connected = False, rc_requests = qs, rc_pending = ps, rc_values = vs\<rparr>"] client_finalize_simps(4)[of reason c]
    by (simp add: client_finalize_def set_outcome_def update_last)
qed

lemma client_ok_add_pending:
  assumes ok: "client_ok c iss exe" and new: "i \<notin> fst ` set iss" and up: "rc_connected c" and r: "r = length (rc_values c)"
  shows "client_ok (c\<lparr>rc_values := rc_values c @ [Unset], rc_requests := dict_set (rc_requests c) i q, rc_pending := dict_set (rc_pending c) i r\<rparr>)
    (iss @ [(i, m, d, r)]) exe" (is "client_ok ?c ?iss exe")
proof -
  note D = client_okD[OF ok]
  have pend: "i \<notin> fst ` set (rc_pending c)" using D(3) new by force
  then have keys: "i \<notin> fst ` set (rc_requests c)" using D(1) by (metis set_map)
  have P: "rc_pending ?c = rc_pending c @ [(i, r)]" "rc_requests ?c = rc_requests c @ [(i, q)]"
    using pend keys by (simp_all add: dict_set_absent dict_has_iff dom_map_of_conv_image_fst)
  show ?thesis unfolding client_ok_def
  proof (intro conjI allI impI)
    show "map fst (rc_requests ?c) = map fst (rc_pending ?c)" "dict_ok (rc_pending ?c)"
      unfolding P using D(1,2) pend by (simp_all add: dict_ok_def)
    fix j r' assume "(j, r') \<in> set (rc_pending ?c)"
    then consider "(j, r') \<in> set (rc_pending c)" | "j = i" "r' = r" unfolding P by auto
    then have "r' < length (rc_values ?c) \<and> rc_values ?c ! r' = Unset \<and> (\<exists>m d. (j, m, d, r') \<in> set ?iss)"
      using D(3)[of j r'] by cases (auto simp: r nth_append)
    then show "r' < length (rc_values ?c)" "rc_values ?c ! r' = Unset" "\<exists>m d. (j, m, d, r') \<in> set ?iss" by blast+
  next
    fix r' assume r': "r' < length (rc_values ?c)" "rc_values ?c ! r' = Unset"
    then show "r' \<in> snd ` set (rc_pending ?c)" unfolding P using D(4)[of r'] by (cases "r' = r") (auto simp: r nth_append)
  next
    fix r' v assume r': "r' < length (rc_values ?c)" "rc_values ?c ! r' = Value v"
    then show "\<exists>j m d. (j, m, d, r') \<in> set ?iss \<and> (j, m, d, Inr v) \<in> set exe"
      using D(6)[of r' v] by (cases "r' = r") (auto simp: r nth_append)
  qed (use up in simp)
qed

lemma calls_ok_add: "calls_ok n iss \<Longrightarrow> i \<notin> fst ` set iss \<Longrightarrow> calls_ok (Suc n) (iss @ [(i, m, d, n)])"
  by (fastforce simp: calls_ok_def)

lemma execute_rpc_ok:
  assumes ok: "client_ok c iss exe" "calls_ok (length (rc_values c)) iss" and new: "i \<notin> fst ` set iss" and codec: "codec_ok dumps loads"
    and call: "execute_rpc dumps i sock_ok method data c = (c', r, wire)"
  shows "client_ok c' (iss @ [(i, method, data, r)]) exe \<and> calls_ok (length (rc_values c')) (iss @ [(i, method, data, r)]) \<and>
    (wire = [] \<or> (\<exists>m. wire = frame m \<and> frame_ok m \<and> dumps (rpc_request i method data) = Some m))"
proof -
  let ?iss = "iss @ [(i, method, data, r)]" and ?n = "length (rc_values c)" and ?q = "rpc_request i method data"
  let ?fin = "client_finalize ''Write failed.'' c"
  have r: "r = ?n" using call by (auto simp: execute_rpc_def Let_def split: option.splits written.splits)
  have more: "set iss \<subseteq> set ?iss" by auto
  consider (failed) e where "c' = c\<lparr>rc_values := rc_values c @ [Failed e]\<rparr>" "wire = []"
    | (lost) e where "c' = ?fin\<lparr>rc_values := rc_values ?fin @ [Failed e]\<rparr>" "wire = []"
    | (sent) m where "dumps ?q = Some m" "remote_write (rc_connected c) sock_ok m = Sent wire"
        "c' = c\<lparr>rc_values := rc_values c @ [Unset], rc_requests := dict_set (rc_requests c) i ?q, rc_pending := dict_set (rc_pending c) i r\<rparr>"
    using call finalize_add_place[OF ok(1)] set_outcome_last[of c] r
    by (auto simp: execute_rpc_def Let_def split: option.splits written.splits)
  then show ?thesis
  proof cases
    case failed
    then show ?thesis using client_ok_mono[OF client_ok_add_failed[OF ok(1)] more] calls_ok_add[OF ok(2) new] r by simp
  next
    case lost
    then show ?thesis using client_ok_mono[OF client_ok_add_failed[OF client_finalize_ok[OF ok(1)]] more] calls_ok_add[OF ok(2) new] r
      by (simp add: client_finalize_simps)
  next
    case sent
    then have "rc_connected c" "frame_ok m" "wire = frame m"
      using codec by (auto simp: remote_write_def frame_ok_def frame_def codec_ok_def split: if_splits)
    then show ?thesis using client_ok_add_pending[OF ok(1) new _ r] calls_ok_add[OF ok(2) new] sent(1,3) r by simp
  qed
qed

lemma calls_ok_same:
  assumes "calls_ok n iss" "(i, m, d, r) \<in> set iss" "(i, m', d', r') \<in> set iss"
  shows "m' = m \<and> d' = d \<and> r' = r"
  using assms eq_key_imp_eq_value[of iss i "(m, d, r)" "(m', d', r')"] by (simp add: calls_ok_def)

lemma response_ok:
  assumes ok: "client_ok c iss exe" "calls_ok (length (rc_values c)) iss" and call: "(i, m, d, a) \<in> set exe" "(i, m, d, r) \<in> set iss"
  shows "client_ok (process_incoming_response [(''__id'', JString i), (''__data'', case a of Inl _ \<Rightarrow> JNull | Inr v \<Rightarrow> v),
    (''__error'', case a of Inl e \<Rightarrow> JString e | Inr _ \<Rightarrow> JNull)] c) iss exe" (is "client_ok (process_incoming_response ?resp c) iss exe")
proof (cases "map_of (rc_pending c) i")
  case None
  have "map_of (rc_requests c) i = None" using None client_okD(1)[OF ok(1)] by (metis map_of_eq_None_iff set_map)
  then have "process_incoming_response ?resp c = c" by (simp add: process_incoming_response_def issubset_keys_def dict_has_def)
  then show ?thesis using ok(1) by simp
next
  case (Some r0)
  note D = client_okD[OF ok(1)]
  obtain q where q: "map_of (rc_requests c) i = Some q" using Some D(1) by (metis map_of_eq_None_iff not_None_eq set_map)
  have p0: "(i, r0) \<in> set (rc_pending c)" using Some by (rule map_of_SomeD)
  then have r0: "r0 = r" using D(3) calls_ok_same[OF ok(2) call(2)] by blast
  let ?x = "case a of Inl e \<Rightarrow> Failed (JString e) | Inr v \<Rightarrow> Value v"
  let ?c = "c\<lparr>rc_requests := AList.delete i (rc_requests c), rc_pending := AList.delete i (rc_pending c), rc_values := (rc_values c)[r := ?x]\<rparr>"
  have run: "process_incoming_response ?resp c = ?c"
    using q Some r0 by (cases a) (simp_all add: process_incoming_response_def issubset_keys_def dict_has_def set_outcome_def)
  have other: "s \<noteq> r" if "(j, s) \<in> set (rc_pending ?c)" for j s
  proof -
    have "(j, s) \<in> set (rc_pending c)" "j \<noteq> i" using that by (auto simp: AList.delete_eq)
    then show ?thesis using D(3)[of j s] call(2) ok(2) unfolding calls_ok_def by blast
  qed
  show ?thesis unfolding run client_ok_def
  proof (intro conjI allI impI)
    show "map fst (rc_requests ?c) = map fst (rc_pending ?c)" using D(1) by (simp add: delete_keys)
    show "dict_ok (rc_pending ?c)" using D(2) by simp
    fix j s assume js: "(j, s) \<in> set (rc_pending ?c)"
    then have "(j, s) \<in> set (rc_pending c)" by (auto simp: AList.delete_eq)
    then show "s < length (rc_values ?c)" "rc_values ?c ! s = Unset" "\<exists>m d. (j, m, d, s) \<in> set iss" using D(3)[of j s] other[OF js] by auto
  next
    fix s assume s: "s < length (rc_values ?c)" "rc_values ?c ! s = Unset"
    then have "s \<noteq> r" by (cases a) auto
    then have "rc_values c ! s = Unset" using s(2) by simp
    then obtain j where j: "(j, s) \<in> set (rc_pending c)" using D(4)[of s] s(1) by auto
    have "j \<noteq> i" using j p0 r0 \<open>s \<noteq> r\<close> D(2) eq_key_imp_eq_value[of "rc_pending c" i s r] by (auto simp: dict_ok_def)
    then show "s \<in> snd ` set (rc_pending ?c)" using j by (force simp: AList.delete_eq)
  next
    fix s v assume s: "s < length (rc_values ?c)" "rc_values ?c ! s = Value v"
    show "\<exists>i m d. (i, m, d, s) \<in> set iss \<and> (i, m, d, Inr v) \<in> set exe"
    proof (cases "s = r")
      case True
      then have "a = Inr v" using s by (auto split: sum.splits)
      then show ?thesis using call True by blast
    qed (use s D(6)[of s v] in simp)
  qed (use D(5) in simp)
qed

lemma response_length: "length (rc_values (process_incoming_response response c)) = length (rc_values c)"
  by (auto simp: process_incoming_response_def set_outcome_def client_disconnect_length split: option.split json_value.split)

section \<open>Every step keeps the invariant\<close>

lemma system_okD:
  assumes "system_ok dumps y"
  shows "client_ok (sy_client y) (sy_issued y) (sy_executed y)" "calls_ok (length (rc_values (sy_client y))) (sy_issued y)"
    "wire_ok (sy_to_server y) (is_request dumps (sy_issued y))" "wire_ok (sy_to_client y) (is_response dumps (sy_executed y))"
    "\<forall>x\<in>set (sv_running (sy_server y)). \<exists>i m d r. x = (JString i, JString m, d) \<and> (i, m, d, r) \<in> set (sy_issued y)"
    "\<forall>i m d a. (i, m, d, a) \<in> set (sy_executed y) \<longrightarrow> (\<exists>r. (i, m, d, r) \<in> set (sy_issued y))"
  using assms unfolding system_ok_def by simp_all

lemma client_run_ok:
  assumes ok: "system_ok dumps y" and codec: "codec_ok dumps loads" and some: "sy_to_client y \<noteq> []"
  shows "system_ok dumps (client_run loads y)"
proof -
  note S = system_okD[OF ok]
  obtain m rest where m: "read_line (sy_to_client y) = (frame m, rest)" "is_response dumps (sy_executed y) m" "wire_ok rest (is_response dumps (sy_executed y))"
    by (rule wire_ok_read[OF S(4) some])
  obtain i meth d a where a: "(i, meth, d, a) \<in> set (sy_executed y)" "dumps (rpc_response (JString i) a) = Some m"
    using m(2) unfolding is_response_def by blast
  obtain r where r: "(i, meth, d, r) \<in> set (sy_issued y)" using S(6) a(1) by blast
  have "loads (frame m) = Some (rpc_response (JString i) a)" using codec a(2) by (simp add: codec_ok_def frame_def)
  then have "client_run loads y = y\<lparr>sy_client := process_incoming_response [(''__id'', JString i),
      (''__data'', case a of Inl _ \<Rightarrow> JNull | Inr v \<Rightarrow> v), (''__error'', case a of Inl e \<Rightarrow> JString e | Inr _ \<Rightarrow> JNull)] (sy_client y), sy_to_client := rest\<rparr>"
    using m(1) by (simp add: client_run_def message_end_frame client_process_data_def rpc_response_def)
  then show ?thesis using S m(3) response_ok[OF S(1,2) a(1) r] unfolding system_ok_def by (simp add: response_length)
qed

lemma server_run_ok:
  assumes ok: "system_ok dumps y" and codec: "codec_ok dumps loads" and some: "sy_to_server y \<noteq> []"
  shows "system_ok dumps (server_run loads y)"
proof -
  note S = system_okD[OF ok]
  obtain m rest where m: "read_line (sy_to_server y) = (frame m, rest)" "is_request dumps (sy_issued y) m" "wire_ok rest (is_request dumps (sy_issued y))"
    by (rule wire_ok_read[OF S(3) some])
  obtain i meth d r where r: "(i, meth, d, r) \<in> set (sy_issued y)" "dumps (rpc_request i meth d) = Some m"
    using m(2) unfolding is_request_def by blast
  have "loads (frame m) = Some (rpc_request i meth d)" using codec r(2) by (simp add: codec_ok_def frame_def)
  then have "server_run loads y = y\<lparr>sy_server := (sy_server y)\<lparr>sv_running := sv_running (sy_server y) @ [(JString i, JString meth, d)]\<rparr>, sy_to_server := rest\<rparr>"
    using m(1) by (simp add: server_run_def message_end_frame server_process_data_def rpc_request_def request_begin_def)
  then show ?thesis using S m(3) r(1) unfolding system_ok_def by auto
qed

lemma server_finalize_ok: "system_ok dumps y \<Longrightarrow> system_ok dumps (y\<lparr>sy_server := server_finalize (sy_server y)\<rparr>)"
  by (simp add: system_ok_def server_finalize_def)

lemma answer_ok:
  assumes ok: "system_ok dumps y" and codec: "codec_ok dumps loads"
    and n: "n < length (sv_running (sy_server y))" "sv_running (sy_server y) ! n = (JString i, JString meth, data)"
    and run: "request_end dumps n sock_ok answer (sy_server y) = (s, wire)"
  shows "system_ok dumps (y\<lparr>sy_server := s, sy_to_client := sy_to_client y @ wire, sy_executed := sy_executed y @ [(i, meth, data, answer)]\<rparr>)"
proof -
  note S = system_okD[OF ok]
  let ?exe = "sy_executed y @ [(i, meth, data, answer)]"
  obtain r where r: "(i, meth, data, r) \<in> set (sy_issued y)" using S(5) n nth_mem[OF n(1)] by auto
  have sub: "set (sv_running s) \<subseteq> set (sv_running (sy_server y))"
    using run n(2) by (auto simp: request_end_def Let_def server_finalize_def dest: in_set_takeD in_set_dropD split: option.splits written.splits)
  have "wire = [] \<or> (\<exists>m. wire = frame m \<and> frame_ok m \<and> dumps (rpc_response (JString i) answer) = Some m)"
    using run n(2) codec by (auto simp: request_end_def Let_def remote_write_def frame_def frame_ok_def codec_ok_def split: option.splits written.splits if_splits)
  moreover have "wire_ok (sy_to_client y) (is_response dumps ?exe)" by (rule wire_ok_mono[OF S(4)]) (auto simp: is_response_def)
  moreover have "is_response dumps ?exe m" if "dumps (rpc_response (JString i) answer) = Some m" for m
    using that unfolding is_response_def by (metis in_set_conv_decomp)
  ultimately have "wire_ok (sy_to_client y @ wire) (is_response dumps ?exe)" by (auto intro!: wire_ok_append)
  moreover have "client_ok (sy_client y) (sy_issued y) ?exe" by (rule client_ok_mono[OF S(1)]) auto
  moreover have "\<forall>x\<in>set (sv_running s). \<exists>i m d r. x = (JString i, JString m, d) \<and> (i, m, d, r) \<in> set (sy_issued y)" using S(5) sub by blast
  moreover have "\<forall>j m d a. (j, m, d, a) \<in> set ?exe \<longrightarrow> (\<exists>r. (j, m, d, r) \<in> set (sy_issued y))" using S(6) r by fastforce
  ultimately show ?thesis using S(2,3) unfolding system_ok_def by simp
qed

lemma call_ok:
  assumes ok: "system_ok dumps y" and codec: "codec_ok dumps loads" and new: "i \<notin> fst ` set (sy_issued y)"
    and run: "execute_rpc dumps i sock_ok meth data (sy_client y) = (c, r, wire)"
  shows "system_ok dumps (y\<lparr>sy_client := c, sy_to_server := sy_to_server y @ wire, sy_issued := sy_issued y @ [(i, meth, data, r)]\<rparr>)"
proof -
  note S = system_okD[OF ok]
  let ?iss = "sy_issued y @ [(i, meth, data, r)]"
  note E = execute_rpc_ok[OF S(1,2) new codec run]
  have "wire_ok (sy_to_server y) (is_request dumps ?iss)" by (rule wire_ok_mono[OF S(3)]) (auto simp: is_request_def)
  moreover have "is_request dumps ?iss m" if "dumps (rpc_request i meth data) = Some m" for m
    using that unfolding is_request_def by (metis in_set_conv_decomp)
  ultimately have "wire_ok (sy_to_server y @ wire) (is_request dumps ?iss)" using E by (auto intro!: wire_ok_append)
  moreover have "\<forall>x\<in>set (sv_running (sy_server y)). \<exists>i m d r. x = (JString i, JString m, d) \<and> (i, m, d, r) \<in> set ?iss" using S(5) by fastforce
  moreover have "\<forall>i m d a. (i, m, d, a) \<in> set (sy_executed y) \<longrightarrow> (\<exists>r. (i, m, d, r) \<in> set ?iss)" using S(6) by fastforce
  ultimately show ?thesis using E S(4) unfolding system_ok_def by simp
qed

lemma rpc_reach_ok:
  assumes "codec_ok dumps loads" "rpc_reach dumps loads y"
  shows "system_ok dumps y"
  using assms(2)
proof induction
  case reach_init
  show ?case by (simp add: system_ok_def rpc_system_init_def rpc_client_init_def rpc_server_init_def client_ok_def calls_ok_def)
next
  case (reach_step y y')
  note S = system_okD[OF reach_step.IH]
  from reach_step.hyps(2) show ?case
  proof cases
    case step_connect
    have "client_ok ((sy_client y)\<lparr>rc_connected := True\<rparr>) (sy_issued y) (sy_executed y)" using S(1) by (simp add: client_ok_def)
    then show ?thesis using S step_connect(1) unfolding system_ok_def by simp
  next
    case (step_call i sock_ok meth data c r wire)
    then show ?thesis using call_ok[OF reach_step.IH assms(1)] by simp
  next
    case step_client_run
    then show ?thesis using client_run_ok[OF reach_step.IH assms(1)] by simp
  next
    case (step_client_lost reason)
    then show ?thesis using S client_finalize_ok[OF S(1)] unfolding system_ok_def by (simp add: client_finalize_simps)
  next
    case (step_client_disconnect reason)
    then show ?thesis using S client_disconnect_ok[OF S(1)] unfolding system_ok_def by (simp add: client_disconnect_length)
  next
    case step_server_run
    then show ?thesis using server_run_ok[OF reach_step.IH assms(1)] by simp
  next
    case step_server_lost
    then show ?thesis using server_finalize_ok[OF reach_step.IH] by simp
  next
    case (step_answer n i meth data answer service sock_ok s wire)
    then show ?thesis using answer_ok[OF reach_step.IH assms(1)] by simp
  qed
qed

section \<open>What callers rely on\<close>



definition example_request :: json_value where
  "example_request = rpc_request ''i'' ''ping'' JNull"

definition example_response :: json_value where
  "example_response = rpc_response (JString ''i'') (Inr (JInt 7))"

definition example_dumps :: "json_value \<Rightarrow> string option" where
  "example_dumps j = (if j = example_request then Some ''q'' else if j = example_response then Some ''a'' else None)"

definition example_loads :: "string \<Rightarrow> json_value option" where
  "example_loads s = (if s = ''q'' @ line_end then Some example_request else if s = ''a'' @ line_end then Some example_response else None)"

lemma example_codec: "codec_ok example_dumps example_loads"
  by (auto simp: codec_ok_def example_dumps_def example_loads_def split: if_splits)


end
