(* ===== verification/Job_Messages.thy ===== *)
theory Job_Messages
  imports Rpc Proxy_Text ES_Operations Submission_Workflow
begin

text \<open>
  Jobs as they travel between the evaluation service and the workers: the rest of \<^verbatim>\<open>cms/grading/Job.py\<close>, that is the
  constructors, the building of jobs from operations, and the conversion to and from dictionaries; what writes the outcome of a job into
  the database is in \<open>Evaluation_Service\<close>. Python does not look at the values it copies, so they are JSON values here. The rows and columns that only this module
  reads are functions of ids (\<open>job_columns\<close>); the languages are a table.
\<close>

section \<open>Jobs\<close>

text \<open>A value in a dictionary of files: a row object with its name and digest, or a digest that was not made into a row.\<close>

datatype job_file = Row string json_value | Bare json_value

type_synonym job_files = "(string, job_file) dict"

record evaluation_fields =
  ef_input :: json_value
  ef_output :: json_value
  ef_time_limit :: json_value
  ef_memory_limit :: json_value
  ef_outcome :: json_value
  ef_user_output :: json_value
  ef_plus :: json_value
  ef_only_execution :: json_value
  ef_get_output :: json_value

datatype job_kind =
    Compilation json_value json_value
  | Evaluation evaluation_fields
  | Matching evaluation_fields json_value "job_files list" "job_files list"

record job_message =
  jm_operation :: "es_operation option"
  jm_task_type :: json_value
  jm_parameters :: json_value
  jm_language :: json_value
  jm_multithreaded :: json_value
  jm_shard :: json_value
  jm_keep_sandbox :: json_value
  jm_sandboxes :: json_value
  jm_info :: json_value
  jm_success :: json_value
  jm_text :: json_value
  jm_files :: job_files
  jm_managers :: job_files
  jm_executables :: job_files
  jm_kind :: job_kind

definition or_else :: "json_value \<Rightarrow> json_value \<Rightarrow> json_value" where
  "or_else j dflt = (if j = json_value.JNull then dflt else j)"

section \<open>Dictionaries\<close>

definition of_jvalue :: "jvalue \<Rightarrow> json_value" where
  "of_jvalue v = (case v of JStr s \<Rightarrow> JString s | jvalue.JInt n \<Rightarrow> json_value.JInt n | jvalue.JNull \<Rightarrow> json_value.JNull)"

definition operation_json :: "es_operation option \<Rightarrow> json_value" where
  "operation_json x = (case x of None \<Rightarrow> json_value.JNull | Some x \<Rightarrow> JDict (map (\<lambda>(k, v). (k, of_jvalue v)) (es_to_dict x)))"

definition to_jvalue :: "json_value \<Rightarrow> jvalue option" where
  "to_jvalue j = (case j of JString s \<Rightarrow> Some (JStr s) | json_value.JInt n \<Rightarrow> Some (jvalue.JInt n) | json_value.JNull \<Rightarrow> Some jvalue.JNull | _ \<Rightarrow> None)"

definition operation_of_json :: "json_value \<Rightarrow> es_operation option res" where
  "operation_of_json j =
     (case j of
        json_value.JNull \<Rightarrow> Inr None
      | JDict d \<Rightarrow> res_bind (es_from_dict (List.map_filter (\<lambda>(k, v). map_option (Pair k) (to_jvalue v)) d)) (\<lambda>x. Inr (Some x))
      | _ \<Rightarrow> Inl TypeError)"

text \<open>\<open>dict((k, v.digest) for k, v in files.items())\<close>\<close>

definition file_digest :: "string \<times> job_file \<Rightarrow> (string \<times> json_value) res" where
  "file_digest = (\<lambda>(k, v). case v of Row _ g \<Rightarrow> Inr (k, g) | Bare _ \<Rightarrow> Inl AttributeError)"

definition files_to_dict :: "job_files \<Rightarrow> json_value res" where
  "files_to_dict files = res_bind (res_map file_digest files) (\<lambda>d. Inr (JDict d))"

text \<open>\<open>dict((k, File(k, v)) for k, v in data[...].items())\<close>\<close>

definition files_from_dict :: "json_value \<Rightarrow> job_files res" where
  "files_from_dict j = (case j of JDict d \<Rightarrow> Inr (map (\<lambda>(k, v). (k, Row k v)) d) | _ \<Rightarrow> Inl AttributeError)"

text \<open>A dictionary that the constructor gets as it is.\<close>

definition bare_files :: "json_value \<Rightarrow> job_files res" where
  "bare_files j = (case j of JDict d \<Rightarrow> Inr (map (\<lambda>(k, v). (k, Bare v)) d) | json_value.JNull \<Rightarrow> Inr [] | _ \<Rightarrow> Inl TypeError)"

definition evaluation_dict :: "evaluation_fields \<Rightarrow> (string, json_value) dict" where
  "evaluation_dict e =
     [(''input'', ef_input e), (''output'', ef_output e), (''time_limit'', ef_time_limit e), (''memory_limit'', ef_memory_limit e),
      (''outcome'', ef_outcome e), (''user_output'', ef_user_output e), (''plus'', ef_plus e),
      (''only_execution'', ef_only_execution e), (''get_output'', ef_get_output e)]"

definition kind_dict :: "job_kind \<Rightarrow> (string, json_value) dict res" where
  "kind_dict k =
     (case k of
        Compilation success pl \<Rightarrow> Inr [(''type'', JString ''compilation''), (''compilation_success'', success), (''plus'', pl)]
      | Evaluation e \<Rightarrow> Inr ((''type'', JString ''evaluation'') # evaluation_dict e)
      | Matching e languages executables files \<Rightarrow>
          res_bind (res_map files_to_dict executables) (\<lambda>xs.
          res_bind (res_map files_to_dict files) (\<lambda>fs.
            Inr ([(''type'', JString ''match''), (''language_list'', languages), (''executables_list'', JList xs), (''files_list'', JList fs)] @
              evaluation_dict e))))"

definition job_export_to_dict :: "job_message \<Rightarrow> json_value res" where
  "job_export_to_dict j =
     res_bind (files_to_dict (jm_files j)) (\<lambda>fs.
     res_bind (files_to_dict (jm_managers j)) (\<lambda>ms.
     res_bind (files_to_dict (jm_executables j)) (\<lambda>xs.
     res_bind (kind_dict (jm_kind j)) (\<lambda>kd.
       Inr (JDict ([(''operation'', operation_json (jm_operation j)), (''task_type'', jm_task_type j), (''task_type_parameters'', jm_parameters j),
         (''language'', jm_language j), (''multithreaded_sandbox'', jm_multithreaded j), (''shard'', jm_shard j),
         (''keep_sandbox'', jm_keep_sandbox j), (''sandboxes'', jm_sandboxes j), (''info'', jm_info j), (''success'', jm_success j),
         (''text'', jm_text j), (''files'', fs), (''managers'', ms), (''executables'', xs)] @ kd))))))"

definition base_keys :: "string list" where
  "base_keys = [''operation'', ''task_type'', ''task_type_parameters'', ''language'', ''multithreaded_sandbox'', ''shard'', ''keep_sandbox'',
     ''sandboxes'', ''info'', ''success'', ''text'', ''files'', ''managers'', ''executables'']"

definition evaluation_keys :: "string list" where
  "evaluation_keys = [''input'', ''output'', ''time_limit'', ''memory_limit'', ''outcome'', ''user_output'', ''plus'', ''only_execution'', ''get_output'']"

definition kwarg :: "(string, json_value) dict \<Rightarrow> string \<Rightarrow> json_value \<Rightarrow> json_value" where
  "kwarg d k dflt = (case map_of d k of None \<Rightarrow> dflt | Some v \<Rightarrow> v)"

text \<open>A keyword argument that the constructor does not have is a \<open>TypeError\<close>.\<close>

definition check_kwargs :: "(string, json_value) dict \<Rightarrow> string list \<Rightarrow> unit res" where
  "check_kwargs d ks = (if set (map fst d) \<subseteq> set ks then Inr () else Inl TypeError)"

definition job_init ::
  "(string, json_value) dict \<Rightarrow> es_operation option \<Rightarrow> job_files \<Rightarrow> job_files \<Rightarrow> job_files \<Rightarrow> job_kind \<Rightarrow> job_message"
where
  "job_init d operation files managers executables kind =
     \<lparr>jm_operation = operation, jm_task_type = or_else (kwarg d ''task_type'' json_value.JNull) (JString []), jm_parameters = kwarg d ''task_type_parameters'' json_value.JNull,
      jm_language = kwarg d ''language'' json_value.JNull, jm_multithreaded = kwarg d ''multithreaded_sandbox'' (JBool False), jm_shard = kwarg d ''shard'' json_value.JNull,
      jm_keep_sandbox = kwarg d ''keep_sandbox'' (JBool False), jm_sandboxes = or_else (kwarg d ''sandboxes'' json_value.JNull) (JList []),
      jm_info = or_else (kwarg d ''info'' json_value.JNull) (JString []), jm_success = kwarg d ''success'' json_value.JNull, jm_text = kwarg d ''text'' json_value.JNull,
      jm_files = files, jm_managers = managers, jm_executables = executables, jm_kind = kind\<rparr>"

definition evaluation_init :: "(string, json_value) dict \<Rightarrow> evaluation_fields" where
  "evaluation_init d =
     \<lparr>ef_input = kwarg d ''input'' json_value.JNull, ef_output = kwarg d ''output'' json_value.JNull, ef_time_limit = kwarg d ''time_limit'' json_value.JNull,
      ef_memory_limit = kwarg d ''memory_limit'' json_value.JNull, ef_outcome = kwarg d ''outcome'' json_value.JNull, ef_user_output = kwarg d ''user_output'' json_value.JNull,
      ef_plus = kwarg d ''plus'' json_value.JNull, ef_only_execution = kwarg d ''only_execution'' (JBool False), ef_get_output = kwarg d ''get_output'' (JBool False)\<rparr>"

text \<open>\<open>Job.import_from_dict\<close> for a compilation or an evaluation.\<close>

definition job_import_from_dict :: "(string, json_value) dict \<Rightarrow> string list \<Rightarrow> job_kind \<Rightarrow> job_message res" where
  "job_import_from_dict d keys kind =
     res_bind (dict_get d ''operation'') (\<lambda>x.
     res_bind (operation_of_json x) (\<lambda>operation.
     res_bind (dict_get d ''files'') (\<lambda>fs.
     res_bind (files_from_dict fs) (\<lambda>fs.
     res_bind (dict_get d ''managers'') (\<lambda>ms.
     res_bind (files_from_dict ms) (\<lambda>ms.
     res_bind (dict_get d ''executables'') (\<lambda>xs.
     res_bind (files_from_dict xs) (\<lambda>xs.
     res_bind (check_kwargs d keys) (\<lambda>_.
       Inr (job_init d operation fs ms xs kind))))))))))"

definition import_file_list :: "json_value \<Rightarrow> job_files list res" where
  "import_file_list j = (case j of JList js \<Rightarrow> res_map files_from_dict js | _ \<Rightarrow> Inl TypeError)"

text \<open>\<open>MatchJob.import_from_dict\<close> does not touch \<open>files\<close> and \<open>executables\<close>.\<close>

definition match_import_from_dict :: "(string, json_value) dict \<Rightarrow> job_message res" where
  "match_import_from_dict d =
     res_bind (dict_get d ''operation'') (\<lambda>x.
     res_bind (operation_of_json x) (\<lambda>operation.
     res_bind (dict_get d ''files_list'') (\<lambda>fl.
     res_bind (import_file_list fl) (\<lambda>fl.
     res_bind (dict_get d ''managers'') (\<lambda>ms.
     res_bind (files_from_dict ms) (\<lambda>ms.
     res_bind (dict_get d ''executables_list'') (\<lambda>xl.
     res_bind (import_file_list xl) (\<lambda>xl.
     res_bind (check_kwargs d (base_keys @ evaluation_keys @ [''language_list'', ''files_list'', ''executables_list''])) (\<lambda>_.
     res_bind (bare_files (kwarg d ''files'' json_value.JNull)) (\<lambda>fs.
     res_bind (bare_files (kwarg d ''executables'' json_value.JNull)) (\<lambda>xs.
       Inr (job_init d operation fs ms xs
         (Matching (evaluation_init d) (or_else (kwarg d ''language_list'' json_value.JNull) (JList [])) xl fl)))))))))))))"

definition import_from_dict_with_type :: "json_value \<Rightarrow> job_message res" where
  "import_from_dict_with_type j =
     (case j of
        JDict data \<Rightarrow>
          res_bind (dict_get data ''type'') (\<lambda>ty.
            let d = AList.delete ''type'' data in
            if ty = JString ''compilation'' then
              job_import_from_dict d (base_keys @ [''compilation_success'', ''plus'']) (Compilation (kwarg d ''compilation_success'' json_value.JNull) (kwarg d ''plus'' json_value.JNull))
            else if ty = JString ''evaluation'' then job_import_from_dict d (base_keys @ evaluation_keys) (Evaluation (evaluation_init d))
            else if ty = JString ''match'' then match_import_from_dict d
            else Inl PyException)
      | _ \<Rightarrow> Inl TypeError)"

text \<open>\<open>JobGroup\<close>; a job may be \<open>None\<close>, for a type of operation that has no job.\<close>

definition group_export_to_dict :: "job_message option list \<Rightarrow> json_value res" where
  "group_export_to_dict jobs =
     res_bind (res_map (\<lambda>j. case j of None \<Rightarrow> Inl AttributeError | Some j \<Rightarrow> job_export_to_dict j) jobs) (\<lambda>js. Inr (JDict [(''jobs'', JList js)]))"

definition group_import_from_dict :: "json_value \<Rightarrow> job_message list res" where
  "group_import_from_dict j =
     (case j of
        JDict d \<Rightarrow> res_bind (dict_get d ''jobs'') (\<lambda>js. case js of JList js \<Rightarrow> res_map import_from_dict_with_type js | _ \<Rightarrow> Inl TypeError)
      | _ \<Rightarrow> Inl TypeError)"

section \<open>Jobs from operations\<close>

record job_language = language +
  lang_requires_multithreading :: bool
  lang_header_extensions :: "string list"

record job_columns =
  jc_contest_languages :: "int \<Rightarrow> string list"
  jc_managers :: "int \<Rightarrow> (string, digest) dict"
  jc_limits :: "int \<Rightarrow> json_value \<times> json_value"
  jc_testcase :: "int \<Rightarrow> digest \<times> digest"
  jc_test_files :: "int \<Rightarrow> (string, digest) dict"
  jc_test_managers :: "int \<Rightarrow> (string, digest) dict"

definition find_language :: "job_language list \<Rightarrow> string \<Rightarrow> job_language res" where
  "find_language langs name = (case get_from_id lang_name langs name of None \<Rightarrow> Inl KeyError | Some l \<Rightarrow> Inr l)"

fun any_multithreaded :: "job_language list \<Rightarrow> string list \<Rightarrow> bool res" where
  "any_multithreaded langs [] = Inr False"
| "any_multithreaded langs (l # ls) =
     res_bind (find_language langs l) (\<lambda>x. if lang_requires_multithreading x then Inr True else any_multithreaded langs ls)"

text \<open>\<open>_is_contest_multithreaded(x.task.contest)\<close>\<close>

definition is_contest_multithreaded :: "job_language list \<Rightarrow> job_columns \<Rightarrow> db \<Rightarrow> int \<Rightarrow> bool res" where
  "is_contest_multithreaded langs cols d tid =
     (case get_from_id task_id (db_tasks d) tid of
        None \<Rightarrow> Inl AttributeError
      | Some t \<Rightarrow>
          (case task_contest_id t of
             None \<Rightarrow> Inl AttributeError
           | Some cid \<Rightarrow> any_multithreaded langs (jc_contest_languages cols cid)))"

fun parameter_json :: "parameter \<Rightarrow> json_value" where
  "parameter_json (P_Str s) = JString s"
| "parameter_json (P_Int n) = json_value.JInt n"
| "parameter_json (P_Real x) = JFloat x"
| "parameter_json (P_List ps) = JList (map parameter_json ps)"

definition rows :: "(string, digest) dict \<Rightarrow> job_files" where
  "rows files = map (\<lambda>(k, g). (k, Row k (JString g))) files"

definition json_option :: "('a \<Rightarrow> json_value) \<Rightarrow> 'a option \<Rightarrow> json_value" where
  "json_option f x = (case x of None \<Rightarrow> json_value.JNull | Some x \<Rightarrow> f x)"

definition new_job ::
  "es_operation \<Rightarrow> dataset \<Rightarrow> json_value \<Rightarrow> bool \<Rightarrow> string \<Rightarrow> job_files \<Rightarrow> job_files \<Rightarrow> job_files \<Rightarrow> job_kind \<Rightarrow> job_message"
where
  "new_job operation ds lang multithreaded info files managers executables kind =
     \<lparr>jm_operation = Some operation, jm_task_type = JString (ds_task_type ds), jm_parameters = JList (map parameter_json (ds_task_type_parameters ds)),
      jm_language = lang, jm_multithreaded = JBool multithreaded, jm_shard = json_value.JNull, jm_keep_sandbox = JBool False,
      jm_sandboxes = JList [], jm_info = JString info, jm_success = json_value.JNull, jm_text = json_value.JNull,
      jm_files = files, jm_managers = managers, jm_executables = executables, jm_kind = kind\<rparr>"

definition evaluation_of :: "job_columns \<Rightarrow> dataset \<Rightarrow> json_value \<Rightarrow> json_value \<Rightarrow> bool \<Rightarrow> evaluation_fields" where
  "evaluation_of cols ds inp out user_test =
     \<lparr>ef_input = inp, ef_output = out, ef_time_limit = fst (jc_limits cols (ds_id ds)), ef_memory_limit = snd (jc_limits cols (ds_id ds)),
      ef_outcome = json_value.JNull, ef_user_output = json_value.JNull, ef_plus = json_value.JNull,
      ef_only_execution = JBool user_test, ef_get_output = JBool user_test\<rparr>"

definition compilation_from_submission :: "job_language list \<Rightarrow> job_columns \<Rightarrow> db \<Rightarrow> es_operation \<Rightarrow> submission \<Rightarrow> dataset \<Rightarrow> job_message res" where
  "compilation_from_submission langs cols d operation s ds =
     (if op_type operation \<noteq> COMPILATION then Inl ValueError
      else res_bind (is_contest_multithreaded langs cols d (sub_task_id s)) (\<lambda>mt.
        Inr (new_job operation ds (json_option JString (sub_language s)) mt (''compile submission '' @ show_int (sub_id s))
          (rows (submission_files d s)) (rows (jc_managers cols (ds_id ds))) [] (Compilation json_value.JNull json_value.JNull))))"

definition testcase_fields :: "job_columns \<Rightarrow> dataset \<Rightarrow> testcase \<Rightarrow> evaluation_fields" where
  "testcase_fields cols ds tc =
     evaluation_of cols ds (JString (fst (jc_testcase cols (tc_id tc)))) (JString (snd (jc_testcase cols (tc_id tc)))) False"

definition evaluation_from_submission :: "job_language list \<Rightarrow> job_columns \<Rightarrow> db \<Rightarrow> es_operation \<Rightarrow> submission \<Rightarrow> dataset \<Rightarrow> job_message res" where
  "evaluation_from_submission langs cols d operation s ds =
     (if op_type operation \<noteq> EVALUATION then Inl ValueError
      else res_bind (is_contest_multithreaded langs cols d (sub_task_id s)) (\<lambda>mt.
        res_bind (sub_get_result d s ds) (\<lambda>r.
        case r of
          None \<Rightarrow> Inl AssertionError
        | Some r \<Rightarrow>
            res_bind (dataset_testcase ds (op_testcase_codename operation)) (\<lambda>tc.
              Inr (new_job operation ds (json_option JString (sub_language s)) mt
                (''evaluate submission '' @ show_int (sub_id s) @ '' on testcase '' @ tc_codename tc)
                (rows (submission_files d s)) (rows (jc_managers cols (ds_id ds))) (rows (sr_executables r))
                (Evaluation (testcase_fields cols ds tc)))))))"

text \<open>\<open>TaskType.get_auto_managers\<close> of the task types; any other name is no task type.\<close>

definition get_auto_managers :: "dataset \<Rightarrow> string list option res" where
  "get_auto_managers ds =
     (if ds_task_type ds \<in> {''Batch'', ''OutputOnly'', ''TwoSteps''} then Inr (Some [])
      else if ds_task_type ds \<in> {''Communication'', ''PvP''} then Inr (Some [''manager''])
      else Inl KeyError)"

function replace_wildcard :: "string \<Rightarrow> string \<Rightarrow> string" where
  "replace_wildcard ext [] = []"
| "replace_wildcard ext (c # s) =
     (if take 3 (c # s) = ''.%l'' then ext @ replace_wildcard ext (drop 2 s) else c # replace_wildcard ext s)"
  by pat_completeness auto
termination by (relation "measure (\<lambda>(ext, s). length s)") auto

definition expand_manager :: "job_language option \<Rightarrow> string \<Rightarrow> string res" where
  "expand_manager lang name =
     (case lang of
        None \<Rightarrow> Inr name
      | Some l \<Rightarrow>
          if ends_with name ''.%l'' then
            (case lang_source_extensions l of [] \<Rightarrow> Inl TypeError | ext # _ \<Rightarrow> Inr (replace_wildcard ext name))
          else Inr name)"

text \<open>The managers for a user test: those of the contestant, and those that the task provides.\<close>

definition user_test_job_managers ::
  "job_columns \<Rightarrow> job_language option \<Rightarrow> user_test \<Rightarrow> dataset \<Rightarrow> (string, digest) dict res"
where
  "user_test_job_managers cols lang u ds =
     (let own = jc_test_managers cols (ut_id u); provided = jc_managers cols (ds_id ds) in
      res_bind (get_auto_managers ds) (\<lambda>auto_managers.
        case auto_managers of
          Some names \<Rightarrow>
            foldl (\<lambda>acc name. res_bind acc (\<lambda>ms. res_bind (expand_manager lang name) (\<lambda>f. res_bind (dict_get provided f) (\<lambda>g. Inr (dict_set ms f g)))))
              (Inr own) names
        | None \<Rightarrow> Inr (foldl (\<lambda>ms (f, g). if dict_has ms f then ms else dict_set ms f g) own provided)))"

definition add_headers :: "job_columns \<Rightarrow> job_language option \<Rightarrow> dataset \<Rightarrow> (string, digest) dict \<Rightarrow> (string, digest) dict" where
  "add_headers cols lang ds ms =
     (case lang of
        None \<Rightarrow> ms
      | Some l \<Rightarrow> foldl (\<lambda>ms (f, g). if list_ex (ends_with f) (lang_header_extensions l) then dict_set ms f g else ms) ms (jc_managers cols (ds_id ds)))"

definition user_test_language :: "job_language list \<Rightarrow> user_test \<Rightarrow> job_language res" where
  "user_test_language langs u = (case ut_language u of None \<Rightarrow> Inl KeyError | Some l \<Rightarrow> find_language langs l)"

definition compilation_from_user_test :: "job_language list \<Rightarrow> job_columns \<Rightarrow> db \<Rightarrow> es_operation \<Rightarrow> user_test \<Rightarrow> dataset \<Rightarrow> job_message res" where
  "compilation_from_user_test langs cols d operation u ds =
     (if op_type operation \<noteq> USER_TEST_COMPILATION then Inl ValueError
      else res_bind (is_contest_multithreaded langs cols d (ut_task_id u)) (\<lambda>mt.
        let lang = (case user_test_language langs u of Inl _ \<Rightarrow> None | Inr l \<Rightarrow> Some l) in
        res_bind (user_test_job_managers cols lang u ds) (\<lambda>ms.
          Inr (new_job operation ds (json_option JString (ut_language u)) mt (''compile user test '' @ show_int (ut_id u))
            (rows (jc_test_files cols (ut_id u))) (rows (add_headers cols lang ds ms)) [] (Compilation json_value.JNull json_value.JNull)))))"

definition evaluation_from_user_test :: "job_language list \<Rightarrow> job_columns \<Rightarrow> db \<Rightarrow> es_operation \<Rightarrow> user_test \<Rightarrow> dataset \<Rightarrow> job_message res" where
  "evaluation_from_user_test langs cols d operation u ds =
     (if op_type operation \<noteq> USER_TEST_EVALUATION then Inl ValueError
      else res_bind (is_contest_multithreaded langs cols d (ut_task_id u)) (\<lambda>mt.
        res_bind (ut_get_result d u ds) (\<lambda>r.
        case r of
          None \<Rightarrow> Inl AssertionError
        | Some r \<Rightarrow>
            res_bind (user_test_language langs u) (\<lambda>lang.
            res_bind (user_test_job_managers cols (Some lang) u ds) (\<lambda>ms.
              Inr (new_job operation ds (json_option JString (ut_language u)) mt (''evaluate user test '' @ show_int (ut_id u))
                (rows (jc_test_files cols (ut_id u))) (rows ms) (rows (ur_executables r))
                (Evaluation (evaluation_of cols ds (JString (ut_input u)) json_value.JNull True))))))))"

definition or_attribute :: "'a option \<Rightarrow> 'a res" where
  "or_attribute x = (case x of None \<Rightarrow> Inl AttributeError | Some x \<Rightarrow> Inr x)"

definition match_from_match :: "job_language list \<Rightarrow> job_columns \<Rightarrow> db \<Rightarrow> es_operation \<Rightarrow> match \<Rightarrow> dataset \<Rightarrow> job_message res" where
  "match_from_match langs cols d operation m ds =
     (if op_type operation \<noteq> MATCH then Inl ValueError
      else res_bind (is_contest_multithreaded langs cols d (match_task_id m)) (\<lambda>mt.
        res_bind (or_attribute (get_from_id sub_id (db_submissions d) (match_submission1_id m))) (\<lambda>s1.
        res_bind (or_attribute (get_from_id sub_id (db_submissions d) (match_submission2_id m))) (\<lambda>s2.
        res_bind (sub_get_result d s1 ds) (\<lambda>r1.
        res_bind (sub_get_result d s2 ds) (\<lambda>r2.
        if sub_task_id s1 \<noteq> sub_task_id s2 then Inl ValueError
        else res_bind (dataset_testcase ds (op_testcase_codename operation)) (\<lambda>tc.
        res_bind (or_attribute r1) (\<lambda>r1.
        res_bind (or_attribute r2) (\<lambda>r2.
          Inr (new_job operation ds json_value.JNull mt
            (''evaluate match '' @ show_int (match_id m) @ '' between submission '' @ show_int (sub_id s1) @ '' and submission '' @
             show_int (sub_id s2) @ '' on testcase '' @ tc_codename tc)
            [] (rows (jc_managers cols (ds_id ds))) []
            (Matching (testcase_fields cols ds tc) (JList [json_option JString (sub_language s1), json_option JString (sub_language s2)])
              [rows (sr_executables r1), rows (sr_executables r2)] [rows (submission_files d s1), rows (submission_files d s2)]))))))))))) "

text \<open>\<open>Job.from_operation\<close> on the object that \<open>JobGroup.from_operations\<close> has looked up by the id in the operation.\<close>

datatype job_object = Of_submission submission | Of_match match | Of_user_test user_test

fun object_id :: "job_object \<Rightarrow> int" where
  "object_id (Of_submission s) = sub_id s"
| "object_id (Of_match m) = match_id m"
| "object_id (Of_user_test u) = ut_id u"

definition from_operation :: "job_language list \<Rightarrow> job_columns \<Rightarrow> db \<Rightarrow> es_operation \<Rightarrow> job_object \<Rightarrow> dataset \<Rightarrow> job_message option res" where
  "from_operation langs cols d operation obj ds =
     (if op_object_id operation \<noteq> object_id obj then Inl ValueError
      else if op_dataset_id operation \<noteq> ds_id ds then Inl ValueError
      else case obj of
        Of_submission s \<Rightarrow>
          if op_type operation = COMPILATION then res_bind (compilation_from_submission langs cols d operation s ds) (\<lambda>j. Inr (Some j))
          else if op_type operation = EVALUATION then res_bind (evaluation_from_submission langs cols d operation s ds) (\<lambda>j. Inr (Some j))
          else Inr None
      | Of_match m \<Rightarrow>
          if op_type operation = MATCH then res_bind (match_from_match langs cols d operation m ds) (\<lambda>j. Inr (Some j)) else Inr None
      | Of_user_test u \<Rightarrow>
          if op_type operation = USER_TEST_COMPILATION then res_bind (compilation_from_user_test langs cols d operation u ds) (\<lambda>j. Inr (Some j))
          else if op_type operation = USER_TEST_EVALUATION then res_bind (evaluation_from_user_test langs cols d operation u ds) (\<lambda>j. Inr (Some j))
          else Inr None)"

definition operation_object :: "db \<Rightarrow> es_operation \<Rightarrow> job_object res" where
  "operation_object d operation =
     (if for_submission operation then res_bind (or_attribute (get_from_id sub_id (db_submissions d) (op_object_id operation))) (\<lambda>s. Inr (Of_submission s))
      else if for_match operation then res_bind (or_attribute (get_from_id match_id (db_matches d) (op_object_id operation))) (\<lambda>m. Inr (Of_match m))
      else res_bind (or_attribute (get_from_id ut_id (db_user_tests d) (op_object_id operation))) (\<lambda>u. Inr (Of_user_test u)))"

definition from_operations :: "job_language list \<Rightarrow> job_columns \<Rightarrow> db \<Rightarrow> es_operation list \<Rightarrow> job_message option list res" where
  "from_operations langs cols d operations =
     res_map (\<lambda>operation.
       res_bind (operation_object d operation) (\<lambda>obj.
       res_bind (or_attribute (get_from_id ds_id (db_datasets d) (op_dataset_id operation))) (\<lambda>ds.
         from_operation langs cols d operation obj ds))) operations"

section \<open>Round trip\<close>

definition named :: "job_files \<Rightarrow> bool" where
  "named fs \<longleftrightarrow> (\<forall>(k, v)\<in>set fs. \<exists>g. v = Row k g)"

definition job_ok :: "job_message \<Rightarrow> bool" where
  "job_ok j \<longleftrightarrow> jm_task_type j \<noteq> json_value.JNull \<and> jm_sandboxes j \<noteq> json_value.JNull \<and> jm_info j \<noteq> json_value.JNull \<and>
     named (jm_files j) \<and> named (jm_managers j) \<and> named (jm_executables j) \<and>
     (case jm_kind j of
        Matching e languages xl fl \<Rightarrow> languages \<noteq> json_value.JNull \<and> jm_files j = [] \<and> jm_executables j = [] \<and> list_all named xl \<and> list_all named fl
      | _ \<Rightarrow> True)"

lemma files_roundtrip: "named fs \<Longrightarrow> \<exists>d. files_to_dict fs = Inr (JDict d) \<and> files_from_dict (JDict d) = Inr fs"
proof -
  have "named fs \<Longrightarrow> \<exists>d. res_map file_digest fs = Inr d \<and> map (\<lambda>(k, v). (k, Row k v)) d = fs"
  proof (induction fs)
    case (Cons x fs)
    obtain k g where x: "x = (k, Row k g)" using Cons.prems by (auto simp: named_def)
    obtain d where "res_map file_digest fs = Inr d" "map (\<lambda>(k, v). (k, Row k v)) d = fs" using Cons by (auto simp: named_def)
    then show ?case by (simp add: x file_digest_def)
  qed simp
  then show "named fs \<Longrightarrow> ?thesis" by (auto simp: files_to_dict_def files_from_dict_def)
qed

lemma file_lists_roundtrip: "list_all named fl \<Longrightarrow> \<exists>js. res_map files_to_dict fl = Inr js \<and> import_file_list (JList js) = Inr fl"
proof (induction fl)
  case (Cons fs fl)
  obtain d where "files_to_dict fs = Inr (JDict d)" "files_from_dict (JDict d) = Inr fs" using files_roundtrip Cons.prems by auto
  then show ?case using Cons by (auto simp: import_file_list_def)
qed (simp add: import_file_list_def)

lemma operation_roundtrip: "operation_of_json (operation_json x) = Inr x"
proof (cases x)
  case (Some y)
  have v: "to_jvalue (of_jvalue v) = Some v" for v by (cases v) (simp_all add: to_jvalue_def of_jvalue_def)
  have "List.map_filter (\<lambda>(k, v). map_option (Pair k) (to_jvalue v)) (map (\<lambda>(k, v). (k, of_jvalue v)) d) = d" for d :: "(string, jvalue) dict"
    by (induction d) (auto simp: List.map_filter_simps v)
  moreover have "es_from_dict (es_to_dict y) = Inr y"
    by (cases y; cases "op_testcase_codename y") (simp_all add: es_from_dict_def es_to_dict_def es_op_def dict_get_def)
  ultimately show ?thesis using Some by (simp add: operation_of_json_def operation_json_def)
qed (simp add: operation_of_json_def operation_json_def)

lemmas import_defs = import_from_dict_with_type_def job_import_from_dict_def match_import_from_dict_def dict_get_def kwarg_def check_kwargs_def
  base_keys_def evaluation_keys_def job_init_def evaluation_init_def or_else_def evaluation_dict_def

lemma job_roundtrip:
  assumes ok: "job_ok j"
  shows "\<exists>d. job_export_to_dict j = Inr d \<and> import_from_dict_with_type d = Inr j"
proof -
  obtain fs ms xs where f: "files_to_dict (jm_files j) = Inr (JDict fs)" "files_from_dict (JDict fs) = Inr (jm_files j)"
      "files_to_dict (jm_managers j) = Inr (JDict ms)" "files_from_dict (JDict ms) = Inr (jm_managers j)"
      "files_to_dict (jm_executables j) = Inr (JDict xs)" "files_from_dict (JDict xs) = Inr (jm_executables j)"
    using files_roundtrip ok unfolding job_ok_def by metis
  note simps = job_export_to_dict_def kind_dict_def import_defs operation_roundtrip f
  show ?thesis
  proof (cases "jm_kind j")
    case (Compilation success pl)
    then show ?thesis using ok by (simp add: simps job_ok_def)
  next
    case (Evaluation e)
    then show ?thesis using ok by (simp add: simps job_ok_def)
  next
    case (Matching e languages xl fl)
    then have m: "languages \<noteq> json_value.JNull" "jm_files j = []" "jm_executables j = []" "list_all named xl" "list_all named fl"
      using ok by (simp_all add: job_ok_def)
    obtain xj fj where l: "res_map files_to_dict xl = Inr xj" "import_file_list (JList xj) = Inr xl" "res_map files_to_dict fl = Inr fj" "import_file_list (JList fj) = Inr fl"
      using file_lists_roundtrip m(4,5) by metis
    have "fs = []" "xs = []" using f(2,6) m(2,3) by (simp_all add: files_from_dict_def)
    moreover have "files_to_dict [] = Inr (JDict [])" by (simp add: files_to_dict_def)
    ultimately show ?thesis using ok m Matching l by (simp add: simps job_ok_def bare_files_def)
  qed
qed

section \<open>Jobs made from operations\<close>

lemma named_rows [simp]: "named (rows files)"
  by (auto simp: named_def rows_def)

lemma named_Nil [simp]: "named []"
  by (simp add: named_def)

lemma new_job_ok [simp]:
  "job_ok (new_job operation ds lang mt info (rows fs) (rows ms) (rows xs) (Compilation success pl))"
  "job_ok (new_job operation ds lang mt info (rows fs) (rows ms) [] (Compilation success pl))"
  "job_ok (new_job operation ds lang mt info (rows fs) (rows ms) (rows xs) (Evaluation e))"
  "job_ok (new_job operation ds lang mt info [] (rows ms) [] (Matching e (JList ls) [rows x1, rows x2] [rows f1, rows f2]))"
  by (simp_all add: job_ok_def new_job_def)

lemma new_job_operation [simp]: "jm_operation (new_job operation ds lang mt info fs ms xs k) = Some operation"
  by (simp add: new_job_def)

lemmas job_builders = compilation_from_submission_def evaluation_from_submission_def compilation_from_user_test_def
  evaluation_from_user_test_def match_from_match_def

lemma job_built:
  "compilation_from_submission langs cols d x s ds = Inr j \<Longrightarrow> job_ok j \<and> jm_operation j = Some x"
  "evaluation_from_submission langs cols d x s ds = Inr j \<Longrightarrow> job_ok j \<and> jm_operation j = Some x"
  "compilation_from_user_test langs cols d x u ds = Inr j \<Longrightarrow> job_ok j \<and> jm_operation j = Some x"
  "evaluation_from_user_test langs cols d x u ds = Inr j \<Longrightarrow> job_ok j \<and> jm_operation j = Some x"
  "match_from_match langs cols d x m ds = Inr j \<Longrightarrow> job_ok j \<and> jm_operation j = Some x"
  by (auto simp: job_builders res_bind_Inr_iff Let_def split: if_splits option.splits)

text \<open>The types of operation that have a job: there is none yet for a user test of a match.\<close>

definition has_job :: "es_operation \<Rightarrow> bool" where
  "has_job x \<longleftrightarrow> op_type x \<in> {COMPILATION, EVALUATION, MATCH, USER_TEST_COMPILATION, USER_TEST_EVALUATION}"

lemma from_operation_built:
  assumes "operation_object d x = Inr obj" "from_operation langs cols d x obj ds = Inr r" "has_job x"
  shows "\<exists>j. r = Some j \<and> job_ok j \<and> jm_operation j = Some x"
  using assms job_built
  by (fastforce simp: operation_object_def from_operation_def for_submission_def for_match_def has_job_def res_bind_Inr_iff or_attribute_def
      split: if_splits option.splits job_object.splits)

lemma from_operations_built:
  "from_operations langs cols d xs = Inr js \<Longrightarrow> list_all has_job xs \<Longrightarrow>
   \<exists>jobs. js = map Some jobs \<and> list_all job_ok jobs \<and> map jm_operation jobs = map Some xs"
proof (induction xs arbitrary: js)
  case (Cons x xs)
  from Cons.prems obtain obj ds r rs where r: "operation_object d x = Inr obj" "from_operation langs cols d x obj ds = Inr r"
      "from_operations langs cols d xs = Inr rs" "js = r # rs"
    by (auto simp: from_operations_def res_bind_Inr_iff)
  obtain j where "r = Some j" "job_ok j" "jm_operation j = Some x" using from_operation_built[OF r(1,2)] Cons.prems(2) by auto
  moreover obtain jobs where "rs = map Some jobs" "list_all job_ok jobs" "map jm_operation jobs = map Some xs"
    using Cons.IH[OF r(3)] Cons.prems(2) by auto
  ultimately show ?case using r(4) by (intro exI[of _ "j # jobs"]) simp
qed (simp add: from_operations_def)

lemma group_roundtrip:
  assumes "list_all job_ok jobs"
  shows "\<exists>m. group_export_to_dict (map Some jobs) = Inr m \<and> group_import_from_dict m = Inr jobs"
proof -
  have "list_all job_ok jobs \<Longrightarrow> \<exists>ds. res_map (\<lambda>j. case j of None \<Rightarrow> Inl AttributeError | Some j \<Rightarrow> job_export_to_dict j) (map Some jobs) = Inr ds \<and>
      res_map import_from_dict_with_type ds = Inr jobs"
  proof (induction jobs)
    case (Cons j jobs)
    obtain d where "job_export_to_dict j = Inr d" "import_from_dict_with_type d = Inr j" using job_roundtrip[of j] Cons.prems by auto
    then show ?case using Cons by auto
  qed simp
  then show ?thesis using assms by (auto simp: group_export_to_dict_def group_import_from_dict_def dict_get_def)
qed

text \<open>(C36) The jobs that the evaluation service builds for a list of operations can be sent, and the worker rebuilds the
  very same jobs from the message: same files, same limits, same parameters, and the operations in the order of the list.\<close>

theorem jobs_reach_the_worker:
  assumes "from_operations langs cols d xs = Inr js" and "list_all has_job xs"
  shows "\<exists>m jobs. group_export_to_dict js = Inr m \<and> group_import_from_dict m = Inr jobs \<and> js = map Some jobs \<and> map jm_operation jobs = map Some xs"
  using from_operations_built[OF assms] group_roundtrip by metis

definition example_columns :: job_columns where
  "example_columns = \<lparr>jc_contest_languages = (\<lambda>_. [''C++'']), jc_managers = (\<lambda>_. [(''grader.cpp'', ''d1'')]), jc_limits = (\<lambda>_. (JFloat 1, json_value.JInt 1000)),
     jc_testcase = (\<lambda>_. (''d2'', ''d3'')), jc_test_files = (\<lambda>_. []), jc_test_managers = (\<lambda>_. [])\<rparr>"

definition example_job_languages :: "job_language list" where
  "example_job_languages = [\<lparr>lang_name = ''C++'', lang_source_extensions = [''.cpp''], lang_requires_multithreading = False, lang_header_extensions = [''.h'']\<rparr>]"

theorem jobs_reach_the_worker_witness:
  "\<exists>js m jobs. from_operations example_job_languages example_columns example_db [es_op COMPILATION 7 5 None, es_op EVALUATION 7 5 (Some ''002'')] = Inr js \<and>
     group_export_to_dict js = Inr m \<and> group_import_from_dict m = Inr jobs \<and> js = map Some jobs \<and>
     map jm_operation jobs = [Some (es_op COMPILATION 7 5 None), Some (es_op EVALUATION 7 5 (Some ''002''))]"
proof -
  let ?xs = "[es_op COMPILATION 7 5 None, es_op EVALUATION 7 5 (Some ''002'')]"
  have "\<exists>js. from_operations example_job_languages example_columns example_db ?xs = Inr js"
    by (simp add: from_operations_def operation_object_def for_submission_def from_operation_def job_builders op_types es_op_def example_db_def
        example_submission_def example_dataset_def get_from_id_def or_attribute_def is_contest_multithreaded_def example_columns_def example_job_languages_def
        find_language_def sub_get_result_def py_assert_def sr_key_def new_submission_result_def sr_update_defs dataset_testcase_def)
  then obtain js where js: "from_operations example_job_languages example_columns example_db ?xs = Inr js" by blast
  have "list_all has_job ?xs" by (simp add: has_job_def es_op_def)
  from jobs_reach_the_worker[OF js this] js show ?thesis by auto
qed

end
