(* ===== verification/Task_Types.thy ===== *)
theory Task_Types
  imports Grading_Steps Job_Messages
begin

text \<open>
  Task types: \<^verbatim>\<open>cms/grading/tasktypes/\<close> and \<^verbatim>\<open>cms/grading/ParameterTypes.py\<close>. A task type compiles or evaluates a job: it puts files into
  sandboxes, runs the steps of \<open>Grading_Steps\<close> in them and fills in the job. The named pipes between the sandboxes belong to the
  platform; their directories are the parameters \<open>fifo_dir\<close>.
\<close>

section \<open>Parameters\<close>

datatype parameter_type =
    P_String string | P_Integer string | P_Choice string "string list" | P_Collection string "parameter_type list"

text \<open>\<open>str(value)\<close>, of the values that may be one of the choices.\<close>

definition choice_text :: "json_value \<Rightarrow> string option" where
  "choice_text j =
     (case j of
        JString s \<Rightarrow> Some s
      | json_value.JInt n \<Rightarrow> Some (show_int n)
      | JBool b \<Rightarrow> Some (if b then ''True'' else ''False'')
      | json_value.JNull \<Rightarrow> Some ''None''
      | _ \<Rightarrow> None)"

fun validate :: "parameter_type \<Rightarrow> json_value \<Rightarrow> unit res"
  and validate_all :: "parameter_type list \<Rightarrow> json_value list \<Rightarrow> unit res" where
  "validate (P_String _) j = (case j of JString _ \<Rightarrow> Inr () | _ \<Rightarrow> Inl ValueError)"
| "validate (P_Integer _) j = (case j of json_value.JInt _ \<Rightarrow> Inr () | JBool _ \<Rightarrow> Inr () | _ \<Rightarrow> Inl ValueError)"
| "validate (P_Choice _ values) j = (case choice_text j of None \<Rightarrow> Inl ValueError | Some s \<Rightarrow> if s \<in> set values then Inr () else Inl ValueError)"
| "validate (P_Collection _ ps) j =
     (case j of JList js \<Rightarrow> if length js \<noteq> length ps then Inl ValueError else validate_all ps js | _ \<Rightarrow> Inl ValueError)"
| "validate_all (p # ps) (j # js) = res_bind (validate p j) (\<lambda>_. validate_all ps js)"
| "validate_all _ _ = Inr ()"

text \<open>Parsing the arguments of a request.\<close>

fun parse_parameter :: "(string \<Rightarrow> string res) \<Rightarrow> string \<Rightarrow> parameter_type \<Rightarrow> json_value res"
  and parse_parameters :: "(string \<Rightarrow> string res) \<Rightarrow> string \<Rightarrow> nat \<Rightarrow> parameter_type list \<Rightarrow> json_value list res" where
  "parse_parameter get prefix (P_String n) = res_bind (get (prefix @ n)) (\<lambda>s. Inr (JString s))"
| "parse_parameter get prefix (P_Integer n) = res_bind (get (prefix @ n)) (\<lambda>s. res_bind (py_int s) (\<lambda>i. Inr (json_value.JInt i)))"
| "parse_parameter get prefix (P_Choice n values) =
     res_bind (get (prefix @ n)) (\<lambda>s. if s \<in> set values then Inr (JString s) else Inl ValueError)"
| "parse_parameter get prefix (P_Collection n ps) =
     res_bind (parse_parameters get (prefix @ n) 0 ps) (\<lambda>js. Inr (JList js))"
| "parse_parameters get prefix i [] = Inr []"
| "parse_parameters get prefix i (p # ps) =
     res_bind (parse_parameter get (prefix @ ''_'' @ show_int (int i) @ ''_'') p) (\<lambda>j.
     res_bind (parse_parameters get prefix (Suc i) ps) (\<lambda>js. Inr (j # js)))"

definition batch_parameters :: "parameter_type list" where
  "batch_parameters =
     [P_Choice ''compilation'' [''alone'', ''grader''], P_Collection ''io'' [P_String ''inputfile'', P_String ''outputfile''],
      P_Choice ''output_eval'' [''diff'', ''comparator'']]"

definition output_only_parameters :: "parameter_type list" where
  "output_only_parameters = [P_Choice ''output_eval'' [''diff'', ''comparator'']]"

definition two_steps_parameters :: "parameter_type list" where
  "two_steps_parameters = [P_Choice ''output_eval'' [''diff'', ''comparator'']]"

definition communication_parameters :: "parameter_type list" where
  "communication_parameters =
     [P_Integer ''num_processes'', P_Choice ''compilation'' [''alone'', ''stub''], P_Choice ''user_io'' [''std_io'', ''fifo_io'']]"

definition pvp_parameters :: "parameter_type list" where
  "pvp_parameters =
     [P_Choice ''compilation'' [''alone'', ''stub''], P_Choice ''user_io'' [''std_io'', ''fifo_io''], P_Choice ''auto_eval'' [''enabled'', ''disabled''],
      P_Integer ''interval'', P_Integer ''rounds'', P_Integer ''notification_time'']"

text \<open>The task types with what their constructors keep.\<close>

datatype task_type =
    Batch (tt_compilation: json_value) (tt_input: string) (tt_output: string) (tt_eval: json_value)
  | OutputOnly (tt_eval: json_value)
  | TwoSteps (tt_eval: json_value)
  | Communication (tt_processes: int) (tt_compilation: json_value) (tt_io: json_value)
  | PvP (tt_compilation: json_value) (tt_io: json_value)

definition as_int :: "json_value \<Rightarrow> int" where
  "as_int j = (case j of json_value.JInt n \<Rightarrow> n | JBool b \<Rightarrow> if b then 1 else 0 | _ \<Rightarrow> 0)"

definition make_task_type :: "string \<Rightarrow> json_value list \<Rightarrow> task_type option" where
  "make_task_type name ps =
     (if name = ''Batch'' then (case ps of [c, JList [JString i, JString out], ev] \<Rightarrow> Some (Batch c i out ev) | _ \<Rightarrow> None)
      else if name = ''OutputOnly'' then (case ps of [ev] \<Rightarrow> Some (OutputOnly ev) | _ \<Rightarrow> None)
      else if name = ''TwoSteps'' then (case ps of [ev] \<Rightarrow> Some (TwoSteps ev) | _ \<Rightarrow> None)
      else if name = ''Communication'' then (case ps of [n, c, io] \<Rightarrow> Some (Communication (as_int n) c io) | _ \<Rightarrow> None)
      else if name = ''PvP'' then (case ps of [c, io, _, _, _, _] \<Rightarrow> Some (PvP c io) | _ \<Rightarrow> None)
      else None)"

definition accepted_parameters :: "string \<Rightarrow> parameter_type list option" where
  "accepted_parameters name =
     map_of [(''Batch'', batch_parameters), (''OutputOnly'', output_only_parameters), (''TwoSteps'', two_steps_parameters),
       (''Communication'', communication_parameters), (''PvP'', pvp_parameters)] name"

definition get_task_type :: "json_value \<Rightarrow> json_value \<Rightarrow> task_type res" where
  "get_task_type name parameters =
     (case name of
        JString name \<Rightarrow>
          (case accepted_parameters name of
             None \<Rightarrow> Inl KeyError
           | Some accepted \<Rightarrow>
               (case parameters of
                  JList ps \<Rightarrow>
                    if length ps \<noteq> length accepted then Inl ValueError
                    else res_bind (validate_all accepted ps) (\<lambda>_. case make_task_type name ps of None \<Rightarrow> Inl ValueError | Some t \<Rightarrow> Inr t)
                | _ \<Rightarrow> Inl ValueError))
      | _ \<Rightarrow> Inl KeyError)"

section \<open>Jobs that are being executed\<close>

record 'w grading = "'w host" +
  g_job :: job_message

record grading_language = job_language +
  gl_object_extensions :: "string list"
  gl_executable_extension :: string
  gl_time_limit_multiplier :: real
  gl_compilation_commands :: "string list \<Rightarrow> string \<Rightarrow> string list list res"
  gl_evaluation_commands :: "string \<Rightarrow> string \<Rightarrow> string list \<Rightarrow> string list list"

text \<open>What the code takes from the platform and from the languages, and \<open>str\<close> of a float.\<close>

record 'w grader = "'w platform" +
  gr_languages :: "grading_language list"
  gr_fifo_dir :: "nat \<Rightarrow> string"
  gr_float_str :: "real \<Rightarrow> string"

definition pf_of :: "'w grader \<Rightarrow> 'w platform" where
  "pf_of gr = platform.truncate gr"

definition get_job :: "('w grading, job_message) stm" where
  "get_job = sget g_job"

definition upd_job :: "(job_message \<Rightarrow> job_message) \<Rightarrow> ('w grading, unit) stm" where
  "upd_job f = supd (\<lambda>g. g\<lparr>g_job := f (g_job g)\<rparr>)"

definition the_string :: "json_value \<Rightarrow> string res" where
  "the_string j = (case j of JString s \<Rightarrow> Inr s | _ \<Rightarrow> Inl TypeError)"

definition the_number :: "json_value \<Rightarrow> real res" where
  "the_number j = (case j of json_value.JInt n \<Rightarrow> Inr (of_int n) | JFloat x \<Rightarrow> Inr x | JBool b \<Rightarrow> Inr (if b then 1 else 0) | _ \<Rightarrow> Inl TypeError)"

definition the_limit :: "json_value \<Rightarrow> int option res" where
  "the_limit j = (case j of json_value.JNull \<Rightarrow> Inr None | json_value.JInt n \<Rightarrow> Inr (Some n) | _ \<Rightarrow> Inl TypeError)"

definition truthy :: "json_value \<Rightarrow> bool" where
  "truthy j =
     (case j of
        json_value.JNull \<Rightarrow> False
      | JBool b \<Rightarrow> b
      | json_value.JInt n \<Rightarrow> n \<noteq> 0
      | JFloat x \<Rightarrow> x \<noteq> 0
      | JString s \<Rightarrow> s \<noteq> []
      | JList js \<Rightarrow> js \<noteq> []
      | JDict d \<Rightarrow> d \<noteq> [])"

definition digest_of :: "job_file \<Rightarrow> digest res" where
  "digest_of f = (case f of Row _ g \<Rightarrow> the_string g | Bare _ \<Rightarrow> Inl AttributeError)"

definition language_of :: "grading_language list \<Rightarrow> json_value \<Rightarrow> grading_language res" where
  "language_of langs j =
     (case j of JString s \<Rightarrow> (case get_from_id lang_name langs s of None \<Rightarrow> Inl KeyError | Some l \<Rightarrow> Inr l) | _ \<Rightarrow> Inl KeyError)"

definition source_extension :: "grading_language \<Rightarrow> string option" where
  "source_extension l = (case lang_source_extensions l of [] \<Rightarrow> None | e # _ \<Rightarrow> Some e)"

definition header_extension :: "grading_language \<Rightarrow> string option" where
  "header_extension l = (case lang_header_extensions l of [] \<Rightarrow> None | e # _ \<Rightarrow> Some e)"

text \<open>\<open>codename.replace(".%l", ext)\<close> and a name followed by the extension.\<close>

definition with_extension :: "string \<Rightarrow> string option \<Rightarrow> string res" where
  "with_extension codename ext = (case ext of None \<Rightarrow> Inl TypeError | Some e \<Rightarrow> Inr (replace_wildcard e codename))"

definition exit_status_text :: "exit_status \<Rightarrow> string" where
  "exit_status_text st =
     (case st of
        EXIT_SANDBOX_ERROR \<Rightarrow> ''sandbox error''
      | EXIT_OK \<Rightarrow> ''ok''
      | EXIT_SIGNAL \<Rightarrow> ''signal''
      | EXIT_TIMEOUT \<Rightarrow> ''timeout''
      | EXIT_TIMEOUT_WALL \<Rightarrow> ''wall timeout''
      | EXIT_NONZERO_RETURN \<Rightarrow> ''nonzero return'')"

definition stats_json :: "exec_stats option \<Rightarrow> json_value" where
  "stats_json x =
     (case x of
        None \<Rightarrow> json_value.JNull
      | Some st \<Rightarrow> JDict
          ([(''execution_time'', json_option JFloat (xs_time st)), (''execution_wall_clock_time'', json_option JFloat (xs_wall_time st)),
            (''execution_memory'', json_option json_value.JInt (xs_memory st)), (''exit_status'', JString (exit_status_text (xs_exit_status st)))] @
           (case xs_signal st of None \<Rightarrow> [] | Some n \<Rightarrow> [(''signal'', json_value.JInt n)]) @
           (case xs_stdout st of None \<Rightarrow> [] | Some t \<Rightarrow> [(''stdout'', JString t)]) @
           (case xs_stderr st of None \<Rightarrow> [] | Some t \<Rightarrow> [(''stderr'', JString t)])))"

definition text_json :: "string list option \<Rightarrow> json_value" where
  "text_json x = json_option (\<lambda>ts. JList (map JString ts)) x"

definition set_compilation :: "json_value \<Rightarrow> json_value \<Rightarrow> job_message \<Rightarrow> job_message" where
  "set_compilation success pl j = j\<lparr>jm_kind := (case jm_kind j of Compilation _ _ \<Rightarrow> Compilation success pl | k \<Rightarrow> k)\<rparr>"

definition upd_fields :: "(evaluation_fields \<Rightarrow> evaluation_fields) \<Rightarrow> job_message \<Rightarrow> job_message" where
  "upd_fields f j = j\<lparr>jm_kind := (case jm_kind j of
     Compilation a b \<Rightarrow> Compilation a b | Evaluation e \<Rightarrow> Evaluation (f e) | Matching e ls xs fs \<Rightarrow> Matching (f e) ls xs fs)\<rparr>"

text \<open>The attributes that evaluations and matches have in common.\<close>

definition get_fields :: "('w grading, evaluation_fields) stm" where
  "get_fields = sbind get_job (\<lambda>j. case jm_kind j of
     Compilation _ _ \<Rightarrow> sraise AttributeError | Evaluation e \<Rightarrow> sret e | Matching e _ _ _ \<Rightarrow> sret e)"

definition add_sandbox :: "nat \<Rightarrow> ('w grading, unit) stm" where
  "add_sandbox b = sbind (get_box b) (\<lambda>x. sbind get_job (\<lambda>j.
     case jm_sandboxes j of
       JList js \<Rightarrow> upd_job (\<lambda>j. j\<lparr>jm_sandboxes := JList (js @ [JString (sb_outer_dir x)])\<rparr>)
     | _ \<Rightarrow> sraise AttributeError))"

section \<open>What task types share\<close>

definition is_os_error :: "py_error \<Rightarrow> bool" where
  "is_os_error e \<longleftrightarrow> e = OSError \<or> e = FileNotFoundError"

definition create_sandbox :: "'w grader \<Rightarrow> string \<Rightarrow> ('w grading, nat) stm" where
  "create_sandbox gr name = stry (isolate_sandbox (pf_of gr) name) is_os_error (\<lambda>_. sraise JobException)"

definition delete_sandbox :: "'w grader \<Rightarrow> nat \<Rightarrow> bool \<Rightarrow> bool \<Rightarrow> ('w grading, unit) stm" where
  "delete_sandbox gr b success keep_sandbox =
     stry (sandbox_cleanup (pf_of gr) b (success \<and> \<not> cf_keep_sandbox gr \<and> \<not> keep_sandbox)) is_os_error (\<lambda>_. sret ())"

definition is_manager_for_compilation :: "string \<Rightarrow> grading_language \<Rightarrow> bool" where
  "is_manager_for_compilation filename l \<longleftrightarrow>
     list_ex (ends_with filename) (lang_source_extensions l) \<or> list_ex (ends_with filename) (lang_header_extensions l) \<or>
     list_ex (ends_with filename) (gl_object_extensions l)"

definition set_configuration_error :: "('w grading, unit) stm" where
  "set_configuration_error =
     sthen (upd_job (\<lambda>j. j\<lparr>jm_success := JBool False, jm_text := json_value.JNull\<rparr>))
     (sbind get_job (\<lambda>j. case jm_kind j of
        Compilation _ pl \<Rightarrow> upd_job (set_compilation json_value.JNull pl)
      | Evaluation _ \<Rightarrow> upd_job (upd_fields (\<lambda>e. e\<lparr>ef_outcome := json_value.JNull\<rparr>))
      | Matching _ _ _ _ \<Rightarrow> sraise ValueError))"

definition check_executables_number :: "nat \<Rightarrow> ('w grading, bool) stm" where
  "check_executables_number n = sbind get_job (\<lambda>j.
     if length (jm_executables j) \<noteq> n then sthen set_configuration_error (sret False) else sret True)"

definition check_files_number :: "nat \<Rightarrow> bool \<Rightarrow> ('w grading, bool) stm" where
  "check_files_number n or_more = sbind get_job (\<lambda>j.
     if (or_more \<and> length (jm_files j) < n) \<or> (\<not> or_more \<and> length (jm_files j) \<noteq> n) then sthen set_configuration_error (sret False) else sret True)"

definition check_manager_present :: "string \<Rightarrow> ('w grading, bool) stm" where
  "check_manager_present codename = sbind get_job (\<lambda>j.
     if \<not> dict_has (jm_managers j) codename then sthen set_configuration_error (sret False) else sret True)"

definition manager_digest :: "string \<Rightarrow> ('w grading, digest) stm" where
  "manager_digest codename = sbind get_job (\<lambda>j. slift (res_bind (dict_get (jm_managers j) codename) digest_of))"

text \<open>The output of the user's program, in a sandbox or in the storage.\<close>

datatype user_output = In_box nat string | In_storage digest

type_synonym judgement = "bool \<times> real option \<times> string list option"

definition nooutput :: "string \<Rightarrow> string list res" where
  "nooutput filename = res_bind (get_message EVALUATION_MESSAGES ''nooutput'') (\<lambda>m. Inr [m, filename])"

definition output_missing :: "user_output \<Rightarrow> ('w grading, bool) stm" where
  "output_missing out =
     (case out of
        In_storage _ \<Rightarrow> sret False
      | In_box b p \<Rightarrow> sbind (get_box b) (\<lambda>x. case map_of (sb_home x) p of None \<Rightarrow> sret True | Some f \<Rightarrow> sret (hf_link f)))"

definition output_content :: "user_output \<Rightarrow> ('w grading, string) stm" where
  "output_content out = (case out of In_storage d \<Rightarrow> on_cacher (fc_get_file d) | In_box b p \<Rightarrow> get_file b p None)"

definition EVAL_USER_OUTPUT_FILENAME :: string where
  "EVAL_USER_OUTPUT_FILENAME = ''user_output.txt''"

definition put_user_output :: "nat \<Rightarrow> user_output \<Rightarrow> ('w grading, unit) stm" where
  "put_user_output b out =
     (case out of
        In_storage d \<Rightarrow> create_file_from_storage b EVAL_USER_OUTPUT_FILENAME d False
      | In_box _ _ \<Rightarrow> sbind (output_content out) (\<lambda>content.
          upd_box b (\<lambda>x. fill_file EVAL_USER_OUTPUT_FILENAME content (x\<lparr>sb_home := empty_file EVAL_USER_OUTPUT_FILENAME (sb_home x)\<rparr>))))"

definition eval_output :: "'w grader \<Rightarrow> string option \<Rightarrow> user_output \<Rightarrow> string \<Rightarrow> ('w grading, judgement) stm" where
  "eval_output gr checker_codename out user_output_filename =
     sbind (output_missing out) (\<lambda>missing.
     if missing then sbind (slift (nooutput user_output_filename)) (\<lambda>t. sret (True, Some 0, Some t))
     else sbind get_fields (\<lambda>e.
     case checker_codename of
       Some codename \<Rightarrow>
         sbind (check_manager_present codename) (\<lambda>present.
         if \<not> present then sret (False, None, None)
         else sbind (create_sandbox gr ''check'') (\<lambda>b.
           sthen (add_sandbox b)
           (sthen (put_user_output b out)
           (sbind (manager_digest codename) (\<lambda>checker.
            sbind (slift (the_string (ef_input e))) (\<lambda>inp.
            sbind (slift (the_string (ef_output e))) (\<lambda>correct.
            sbind (checker_step (pf_of gr) b (Some checker) inp correct EVAL_USER_OUTPUT_FILENAME) (\<lambda>(success, outcome, t).
            sbind get_job (\<lambda>j.
            sthen (delete_sandbox gr b success (truthy (jm_keep_sandbox j))) (sret (success, outcome, t)))))))))))
     | None \<Rightarrow>
         sbind (output_content out) (\<lambda>user_file.
         sbind (slift (the_string (ef_output e))) (\<lambda>correct.
         sbind (on_cacher (fc_get_file correct)) (\<lambda>correct_file.
           case white_diff_fobj_step user_file correct_file of (outcome, t) \<Rightarrow> sret (True, Some outcome, Some t))))))"

section \<open>Compilation\<close>

definition executable_filename :: "string list \<Rightarrow> grading_language \<Rightarrow> string" where
  "executable_filename codenames l =
     (let names = sort (map (replace_wildcard []) codenames) in
      concat (map (\<lambda>(i, n). if i = 0 then n else ''_'' @ n) (zip [0..<length names] names)) @ gl_executable_extension l)"

text \<open>Putting files with their digests into a sandbox, running the compiler, and collecting the executable.\<close>

definition run_compilation :: "'w grader \<Rightarrow> (string, digest) dict \<Rightarrow> string list list \<Rightarrow> string \<Rightarrow> ('w grading, unit) stm" where
  "run_compilation gr files commands executable =
     sbind (create_sandbox gr ''compile'') (\<lambda>b.
     sthen (add_sandbox b)
     (sthen (sforeach files (\<lambda>(filename, d). create_file_from_storage b filename d False))
     (sbind (compilation_step (pf_of gr) b commands) (\<lambda>v.
      sthen (upd_job (\<lambda>j. set_compilation (json_option JBool (cv_compilation_success v)) (stats_json (cv_stats v))
        (j\<lparr>jm_success := JBool (cv_success v), jm_text := text_json (cv_text v)\<rparr>)))
      (sbind get_job (\<lambda>j.
       sthen (if cv_success v \<and> cv_compilation_success v = Some True then
          sbind (slift (the_string (jm_info j))) (\<lambda>info.
          sbind (get_file_to_storage (pf_of gr) b executable (''Executable '' @ executable @ '' for '' @ info) None) (\<lambda>d.
            upd_job (\<lambda>j. j\<lparr>jm_executables := dict_set (jm_executables j) executable (Row executable (JString d))\<rparr>)))
        else sret ())
       (delete_sandbox gr b (cv_success v) (truthy (jm_keep_sandbox j)))))))))"

definition add_user_file :: "string option \<Rightarrow> string \<times> job_file \<Rightarrow> string list \<times> (string, digest) dict \<Rightarrow> (string list \<times> (string, digest) dict) res" where
  "add_user_file ext = (\<lambda>(codename, f) (names, files).
     res_bind (with_extension codename ext) (\<lambda>filename. res_bind (digest_of f) (\<lambda>d. Inr (names @ [filename], dict_set files filename d))))"

definition add_user_files :: "string option \<Rightarrow> job_files \<Rightarrow> string list \<times> (string, digest) dict \<Rightarrow> (string list \<times> (string, digest) dict) res" where
  "add_user_files ext fs acc = foldl (\<lambda>r f. res_bind r (add_user_file ext f)) (Inr acc) fs"

definition add_managers :: "grading_language \<Rightarrow> job_files \<Rightarrow> (string, digest) dict \<Rightarrow> (string, digest) dict res" where
  "add_managers l ms files =
     foldl (\<lambda>r (filename, f). res_bind r (\<lambda>files.
       if is_manager_for_compilation filename l then res_bind (digest_of f) (\<lambda>d. Inr (dict_set files filename d)) else Inr files)) (Inr files) ms"

text \<open>\<open>compile\<close> of \<open>Batch\<close>, \<open>Communication\<close> and \<open>PvP\<close>, which differ in the name of the source that the task adds, if it does.\<close>

definition compile_with :: "'w grader \<Rightarrow> string option \<Rightarrow> ('w grading, unit) stm" where
  "compile_with gr extra =
     sbind get_job (\<lambda>j.
     sbind (slift (language_of (gr_languages gr) (jm_language j))) (\<lambda>l.
     sbind (check_files_number 1 True) (\<lambda>enough.
     if \<not> enough then sret ()
     else sbind (case extra of
          None \<Rightarrow> sret (Some ([], []))
        | Some base \<Rightarrow>
            sbind (or_type_error (source_extension l)) (\<lambda>ext.
            sbind (check_manager_present (base @ ext)) (\<lambda>present.
            if \<not> present then sret None
            else sbind (manager_digest (base @ ext)) (\<lambda>d. sret (Some ([base @ ext], [(base @ ext, d)])))))) (\<lambda>start.
       case start of
         None \<Rightarrow> sret ()
       | Some start \<Rightarrow>
           sbind (slift (add_user_files (source_extension l) (jm_files j) start)) (\<lambda>(names, files).
           sbind (slift (add_managers l (jm_managers j) files)) (\<lambda>files.
           let executable = executable_filename (map fst (jm_files j)) l in
             sbind (slift (gl_compilation_commands l names executable)) (\<lambda>commands. run_compilation gr files commands executable)))))))"

definition add_two_steps_file ::
  "grading_language \<Rightarrow> string \<times> job_file \<Rightarrow> string list \<times> (string, digest) dict \<Rightarrow> ('w grading, (string list \<times> (string, digest) dict) option) stm"
where
  "add_two_steps_file l f acc =
     sbind (slift (add_user_file (source_extension l) f acc)) (\<lambda>(names, files).
       case header_extension l of
         None \<Rightarrow> sret (Some (names, files))
       | Some h \<Rightarrow>
           let header = replace_wildcard h (fst f) in
           sbind (check_manager_present header) (\<lambda>present.
           if \<not> present then sret None
           else sbind (manager_digest header) (\<lambda>d. sret (Some (names @ [header], dict_set files header d)))))"

definition two_steps_compile :: "'w grader \<Rightarrow> ('w grading, unit) stm" where
  "two_steps_compile gr =
     sbind get_job (\<lambda>j.
     sbind (slift (language_of (gr_languages gr) (jm_language j))) (\<lambda>l.
     sbind (check_files_number 2 False) (\<lambda>enough.
     if \<not> enough then sret ()
     else
       sbind (let source = ''manager'' @ (case source_extension l of None \<Rightarrow> ''None'' | Some e \<Rightarrow> e) in
          sbind (check_manager_present source) (\<lambda>present.
          if \<not> present then sret None
          else sbind (manager_digest source) (\<lambda>d.
            case header_extension l of
              None \<Rightarrow> sret (Some ([source], [(source, d)]))
            | Some h \<Rightarrow>
                sbind (check_manager_present (''manager'' @ h)) (\<lambda>present.
                if \<not> present then sret None
                else sbind (manager_digest (''manager'' @ h)) (\<lambda>dh.
                  sret (Some ([source, ''manager'' @ h], dict_set [(source, d)] (''manager'' @ h) dh))))))) (\<lambda>start.
       sbind (sfold (jm_files j) (\<lambda>f acc. case acc of None \<Rightarrow> sret None | Some acc \<Rightarrow> add_two_steps_file l f acc) start) (\<lambda>all.
         case all of
           None \<Rightarrow> sret ()
         | Some (names, files) \<Rightarrow>
             let executable = ''manager'' @ gl_executable_extension l in
               sbind (slift (gl_compilation_commands l names executable)) (\<lambda>commands. run_compilation gr files commands executable))))))"

definition output_only_compile :: "('w grading, unit) stm" where
  "output_only_compile =
     upd_job (\<lambda>j. set_compilation (JBool True) (JDict []) (j\<lparr>jm_success := JBool True, jm_text := JList [JString ''No compilation needed'']\<rparr>))"

fun compile :: "'w grader \<Rightarrow> task_type \<Rightarrow> ('w grading, unit) stm" where
  "compile gr (Batch c _ _ _) = compile_with gr (if c = JString ''grader'' then Some ''grader'' else None)"
| "compile gr (OutputOnly _) = output_only_compile"
| "compile gr (TwoSteps _) = two_steps_compile gr"
| "compile gr (Communication _ c _) = compile_with gr (if c = JString ''stub'' then Some ''stub'' else None)"
| "compile gr (PvP c _) = compile_with gr (if c = JString ''stub'' then Some ''stub'' else None)"

section \<open>Evaluation\<close>

definition first_executable :: "job_files \<Rightarrow> (string \<times> digest) res" where
  "first_executable files = (case files of [] \<Rightarrow> Inl PyException | (name, f) # _ \<Rightarrow> res_bind (digest_of f) (\<lambda>d. Inr (name, d)))"

definition fill_result :: "'w grader \<Rightarrow> bool \<Rightarrow> json_value \<Rightarrow> string list option \<Rightarrow> json_value \<Rightarrow> ('w grading, unit) stm" where
  "fill_result gr success outcome t pl =
     upd_job (\<lambda>j. upd_fields (\<lambda>e. e\<lparr>ef_outcome := outcome, ef_plus := pl\<rparr>) (j\<lparr>jm_success := JBool success, jm_text := text_json t\<rparr>))"

definition outcome_json :: "'w grader \<Rightarrow> real option \<Rightarrow> json_value" where
  "outcome_json gr x = json_option (\<lambda>x. JString (gr_float_str gr x)) x"

definition set_user_output :: "json_value \<Rightarrow> ('w grading, unit) stm" where
  "set_user_output u = upd_job (upd_fields (\<lambda>e. e\<lparr>ef_user_output := u\<rparr>))"

definition save_output :: "'w grader \<Rightarrow> nat \<Rightarrow> string \<Rightarrow> ('w grading, unit) stm" where
  "save_output gr b filename =
     sbind get_job (\<lambda>j. sbind (slift (the_string (jm_info j))) (\<lambda>info.
     sbind (get_file_to_storage (pf_of gr) b filename (''Output file in job '' @ info) (Some (100 * 1024))) (\<lambda>d. set_user_output (JString d))))"

text \<open>What \<open>Batch\<close> and \<open>TwoSteps\<close> do after the execution, with the verdict of the sandboxes together.\<close>

definition judge_execution ::
  "'w grader \<Rightarrow> bool \<Rightarrow> bool \<Rightarrow> exec_stats option \<Rightarrow> nat \<Rightarrow> string \<Rightarrow> string option \<Rightarrow> string \<Rightarrow> ('w grading, judgement) stm"
where
  "judge_execution gr box_success evaluation_success st b output_file checker output_filename =
     sbind get_fields (\<lambda>e.
     if \<not> box_success then sret (box_success, None, None)
     else if \<not> evaluation_success then
       sbind (case st of None \<Rightarrow> sraise TypeError | Some st \<Rightarrow> slift (human_evaluation_message st)) (\<lambda>t.
       sthen (if truthy (ef_get_output e) then set_user_output json_value.JNull else sret ()) (sret (box_success, Some 0, Some t)))
     else
       sbind (file_exists b output_file) (\<lambda>there.
       if \<not> there then
         sthen (if truthy (ef_get_output e) then set_user_output json_value.JNull else sret ())
           (sret (box_success, Some 0, Some [''Evaluation didn't produce file %s'', output_file]))
       else
         sthen (if truthy (ef_get_output e) then save_output gr b output_file else sret ())
         (if truthy (ef_only_execution e) then sret (box_success, Some 0, Some [''Execution completed successfully''])
          else eval_output gr checker (In_box b output_file) output_filename)))"

definition batch_evaluate :: "'w grader \<Rightarrow> bool \<Rightarrow> string \<Rightarrow> string \<Rightarrow> bool \<Rightarrow> ('w grading, unit) stm" where
  "batch_evaluate gr uses_grader input_filename output_filename uses_checker =
     sbind (check_executables_number 1) (\<lambda>enough.
     if \<not> enough then sret ()
     else
       sbind get_job (\<lambda>j. sbind get_fields (\<lambda>e.
       let actual_input = (if input_filename = [] then ''input.txt'' else input_filename);
           actual_output = (if output_filename = [] then ''output.txt'' else output_filename) in
       sbind (slift (first_executable (jm_executables j))) (\<lambda>(executable, d).
       sbind (slift (language_of (gr_languages gr) (jm_language j))) (\<lambda>l.
       sbind (create_sandbox gr ''evaluate'') (\<lambda>b.
       sthen (add_sandbox b)
       (sthen (create_file_from_storage b executable d True)
       (sbind (slift (the_string (ef_input e))) (\<lambda>inp.
       sthen (create_file_from_storage b actual_input inp False)
       (sbind (slift (the_number (ef_time_limit e))) (\<lambda>tl.
       sbind (slift (the_limit (ef_memory_limit e))) (\<lambda>mem.
       sbind (evaluation_step (pf_of gr) b
           (gl_evaluation_commands l executable (if uses_grader then ''grader'' else splitext_root executable) [])
           \<lparr>se_time_limit = Some (tl * gl_time_limit_multiplier l), se_memory_limit = mem, se_dirs_map = [],
            se_writable_files = (if output_filename = [] then [] else [actual_output]),
            se_stdin_redirect = (if input_filename = [] then Some actual_input else None),
            se_stdout_redirect = (if output_filename = [] then Some actual_output else None),
            se_multiprocess = truthy (jm_multithreaded j)\<rparr>) (\<lambda>v.
       sbind (judge_execution gr (vd_success v) (vd_evaluation_success v = Some True) (vd_stats v) b actual_output
           (if uses_checker then Some ''checker'' else None) output_filename) (\<lambda>(success, outcome, t).
       sthen (fill_result gr success (outcome_json gr outcome) t (stats_json (vd_stats v)))
         (delete_sandbox gr b success (truthy (jm_keep_sandbox j)))))))))))))))))"

definition output_only_evaluate :: "'w grader \<Rightarrow> bool \<Rightarrow> ('w grading, unit) stm" where
  "output_only_evaluate gr uses_checker =
     sbind get_job (\<lambda>j.
     sbind (case jm_operation j of None \<Rightarrow> sraise AttributeError | Some x \<Rightarrow> sret x) (\<lambda>x.
     let filename = ''output_'' @ (case op_testcase_codename x of None \<Rightarrow> ''None'' | Some c \<Rightarrow> c) @ ''.txt'' in
     case map_of (jm_files j) filename of
       None \<Rightarrow> fill_result gr True (JString ''0.0'') (Some [''File not submitted'']) (JDict [])
     | Some f \<Rightarrow>
         sbind (slift (digest_of f)) (\<lambda>d.
         sbind (eval_output gr (if uses_checker then Some ''checker'' else None) (In_storage d) []) (\<lambda>(success, outcome, t).
           fill_result gr success (outcome_json gr outcome) t (if success then JDict [] else json_value.JNull)))))"

definition two_steps_evaluate :: "'w grader \<Rightarrow> bool \<Rightarrow> ('w grading, unit) stm" where
  "two_steps_evaluate gr uses_checker =
     sbind (check_executables_number 1) (\<lambda>enough.
     if \<not> enough then sret ()
     else
       sbind get_job (\<lambda>j. sbind get_fields (\<lambda>e.
       sbind (slift (first_executable (jm_executables j))) (\<lambda>(executable, d).
       sbind (create_sandbox gr ''first_evaluate'') (\<lambda>b1.
       sbind (create_sandbox gr ''second_evaluate'') (\<lambda>b2.
       sthen (add_sandbox b1) (sthen (add_sandbox b2)
       (sthen (create_file_from_storage b1 executable d True)
       (sbind (slift (the_string (ef_input e))) (\<lambda>inp.
       sthen (create_file_from_storage b1 ''input.txt'' inp False)
       (sbind (slift (the_number (ef_time_limit e))) (\<lambda>tl.
       sbind (slift (the_limit (ef_memory_limit e))) (\<lambda>mem.
       let settings = \<lparr>se_time_limit = Some tl, se_memory_limit = mem, se_dirs_map = [(gr_fifo_dir gr 0, Some ''/fifo'', Some ''rw'')],
             se_writable_files = [], se_stdin_redirect = None, se_stdout_redirect = None, se_multiprocess = truthy (jm_multithreaded j)\<rparr> in
       sthen (evaluation_start (pf_of gr) b1 [''./'' @ executable, ''0'', ''/fifo/fifo''] (settings\<lparr>se_stdin_redirect := Some ''input.txt''\<rparr>))
       (sthen (create_file_from_storage b2 executable d True)
       (sthen (evaluation_start (pf_of gr) b2 [''./'' @ executable, ''1'', ''/fifo/fifo''] (settings\<lparr>se_stdout_redirect := Some ''output.txt''\<rparr>))
       (sthen (wait_without_std (pf_of gr) [b2, b1])
       (sbind (evaluation_step_after_run b1) (\<lambda>v1.
       sbind (evaluation_step_after_run b2) (\<lambda>v2.
       sbind (slift (merge_execution_stats (vd_stats v1) (vd_stats v2) True)) (\<lambda>st.
       sbind (judge_execution gr (vd_success v1 \<and> vd_success v2)
           (vd_evaluation_success v1 = Some True \<and> vd_evaluation_success v2 = Some True) (Some st) b2 ''output.txt''
           (if uses_checker then Some ''checker'' else None) []) (\<lambda>(success, outcome, t).
       sthen (fill_result gr success (outcome_json gr outcome) t (stats_json (Some st)))
       (sthen (delete_sandbox gr b1 success (truthy (jm_keep_sandbox j)))
         (delete_sandbox gr b2 success (truthy (jm_keep_sandbox j)))))))))))))))))))))))))"

section \<open>Managers and user programs\<close>

definition fifo_user_to_manager :: "nat \<Rightarrow> string" where
  "fifo_user_to_manager i = ''/fifo'' @ show_int (int i) @ ''/u'' @ show_int (int i) @ ''_to_m''"

definition fifo_manager_to_user :: "nat \<Rightarrow> string" where
  "fifo_manager_to_user i = ''/fifo'' @ show_int (int i) @ ''/m_to_u'' @ show_int (int i)"

definition fifo_mapping :: "'w grader \<Rightarrow> nat \<Rightarrow> string \<times> string option \<times> string option" where
  "fifo_mapping gr i = (gr_fifo_dir gr i, Some (''/fifo'' @ show_int (int i)), Some ''rw'')"

text \<open>The sandbox of the manager, with the manager and its input.\<close>

definition create_manager :: "'w grader \<Rightarrow> digest \<Rightarrow> ('w grading, nat) stm" where
  "create_manager gr manager =
     sbind (create_sandbox gr ''manager_evaluate'') (\<lambda>m.
     sthen (add_sandbox m)
     (sthen (create_file_from_storage m ''manager'' manager True)
     (sbind get_fields (\<lambda>e.
      sbind (slift (the_string (ef_input e))) (\<lambda>inp.
      sthen (create_file_from_storage m ''input.txt'' inp False) (sret m))))))"

fun create_users :: "'w grader \<Rightarrow> nat \<Rightarrow> ('w grading, nat list) stm" where
  "create_users gr 0 = sret []"
| "create_users gr (Suc n) = sbind (create_sandbox gr ''user_evaluate'') (\<lambda>b. sbind (create_users gr n) (\<lambda>bs. sret (b # bs)))"

definition start_manager :: "'w grader \<Rightarrow> nat \<Rightarrow> nat \<Rightarrow> real \<Rightarrow> bool \<Rightarrow> ('w grading, unit) stm" where
  "start_manager gr m n time_limit multiprocess =
     evaluation_start (pf_of gr) m (''./manager'' # concat (map (\<lambda>i. [fifo_user_to_manager i, fifo_manager_to_user i]) [0..<n]))
       \<lparr>se_time_limit = Some time_limit, se_memory_limit = Some (cf_trusted_max_memory gr * 1024), se_dirs_map = map (fifo_mapping gr) [0..<n],
        se_writable_files = [''output.txt''], se_stdin_redirect = Some ''input.txt'', se_stdout_redirect = None, se_multiprocess = multiprocess\<rparr>"

definition start_user ::
  "'w grader \<Rightarrow> grading_language \<Rightarrow> nat \<Rightarrow> nat \<Rightarrow> bool \<Rightarrow> string \<Rightarrow> string \<Rightarrow> string list \<Rightarrow> real \<Rightarrow> int option \<Rightarrow> bool \<Rightarrow> ('w grading, unit) stm"
where
  "start_user gr l b i uses_fifos executable main args time_limit mem multiprocess =
     (let commands = gl_evaluation_commands l executable main
            ((if uses_fifos then [fifo_manager_to_user i, fifo_user_to_manager i] else []) @ args) in
      sthen (if 1 < length commands then sthen (trusted_step (pf_of gr) b (butlast commands)) (sret ()) else sret ())
      (if commands = [] then sraise IndexError
       else evaluation_start (pf_of gr) b (last commands)
         \<lparr>se_time_limit = Some time_limit, se_memory_limit = mem, se_dirs_map = [fifo_mapping gr i], se_writable_files = [],
          se_stdin_redirect = (if uses_fifos then None else Some (fifo_manager_to_user i)),
          se_stdout_redirect = (if uses_fifos then None else Some (fifo_user_to_manager i)), se_multiprocess = multiprocess\<rparr>))"

fun after_runs :: "nat list \<Rightarrow> ('w grading, evaluation_verdict list) stm" where
  "after_runs [] = sret []"
| "after_runs (b # bs) = sbind (evaluation_step_after_run b) (\<lambda>v. sbind (after_runs bs) (\<lambda>vs. sret (v # vs)))"

definition manager_output :: "'w grader \<Rightarrow> nat \<Rightarrow> ('w grading, unit) stm" where
  "manager_output gr m =
     sbind get_fields (\<lambda>e.
     if \<not> truthy (ef_get_output e) then sret ()
     else sbind (file_exists m ''output.txt'') (\<lambda>there. if there then save_output gr m ''output.txt'' else set_user_output json_value.JNull))"

definition reduce_stats :: "exec_stats option list \<Rightarrow> exec_stats option res" where
  "reduce_stats xs =
     (case xs of
        [] \<Rightarrow> Inl TypeError
      | x # xs \<Rightarrow> foldl (\<lambda>r y. res_bind r (\<lambda>a. res_bind (merge_execution_stats a y True) (\<lambda>b. Inr (Some b)))) (Inr x) xs)"

text \<open>The statistics of the user's programs together, and whether they count as successful: their times are added.\<close>

definition users_together :: "evaluation_verdict list \<Rightarrow> real \<Rightarrow> (bool \<times> bool \<times> exec_stats option) res" where
  "users_together vs time_limit =
     (let box_success = list_all vd_success vs; success = list_all (\<lambda>v. vd_evaluation_success v = Some True) vs in
      res_bind (reduce_stats (map vd_stats vs)) (\<lambda>st.
        if \<not> (box_success \<and> success) then Inr (box_success, success, st)
        else case st of
          None \<Rightarrow> Inl TypeError
        | Some st \<Rightarrow>
            (case xs_time st of
               None \<Rightarrow> Inl TypeError
             | Some t \<Rightarrow> if time_limit \<le> t then Inr (box_success, False, Some (st\<lparr>xs_exit_status := EXIT_TIMEOUT\<rparr>))
                         else Inr (box_success, success, Some st))))"

definition communication_evaluate :: "'w grader \<Rightarrow> nat \<Rightarrow> bool \<Rightarrow> bool \<Rightarrow> ('w grading, unit) stm" where
  "communication_evaluate gr n uses_stub uses_fifos =
     sbind (check_executables_number 1) (\<lambda>enough.
     if \<not> enough then sret ()
     else
       sbind get_job (\<lambda>j. sbind get_fields (\<lambda>e.
       sbind (slift (first_executable (jm_executables j))) (\<lambda>(executable, d).
       sbind (check_manager_present ''manager'') (\<lambda>present.
       if \<not> present then sret ()
       else
         sbind (manager_digest ''manager'') (\<lambda>manager.
         sbind (create_manager gr manager) (\<lambda>m.
         sbind (create_users gr n) (\<lambda>bs.
         sthen (sforeach bs add_sandbox)
         (sthen (sforeach bs (\<lambda>b. create_file_from_storage b executable d True))
         (sbind (slift (language_of (gr_languages gr) (jm_language j))) (\<lambda>l.
         sbind (slift (the_number (ef_time_limit e))) (\<lambda>tl.
         let time_limit = tl * gl_time_limit_multiplier l; multi = truthy (jm_multithreaded j) in
         sthen (start_manager gr m n (max ((real n + 1) * (time_limit + 1)) (cf_trusted_max_time gr)) multi)
         (sbind (slift (the_limit (ef_memory_limit e))) (\<lambda>mem.
         sthen (sforeach (zip [0..<n] bs) (\<lambda>(i, b). start_user gr l b i uses_fifos executable
             (if uses_stub then ''stub'' else splitext_root executable) (if n \<noteq> 1 then [show_int (int i)] else []) time_limit mem multi))
         (sthen (wait_without_std (pf_of gr) (bs @ [m]))
         (sbind (evaluation_step_after_run m) (\<lambda>vm.
         sbind (after_runs bs) (\<lambda>vs.
         sbind (slift (users_together vs time_limit)) (\<lambda>(box_success, evaluation_success, st).
         let success = (box_success \<and> vd_success vm \<and> vd_evaluation_success vm = Some True) in
         sbind
           (if \<not> success then sret (None, None)
            else if truthy (ef_only_execution e) then sret (Some 0, Some [''Execution completed successfully''])
            else if \<not> evaluation_success then
              sbind (case st of None \<Rightarrow> sraise TypeError | Some st \<Rightarrow> slift (human_evaluation_message st)) (\<lambda>t. sret (Some 0, Some t))
            else sbind (extract_outcome_and_text m) (\<lambda>(x, t). sret (Some x, Some t))) (\<lambda>(outcome, t).
         sthen (manager_output gr m)
         (sthen (fill_result gr success (outcome_json gr outcome) t (if success then stats_json st else json_value.JNull))
           (sforeach (m # bs) (\<lambda>b. delete_sandbox gr b success (truthy (jm_keep_sandbox j)))))))))))))))))))))))))"

section \<open>Matches\<close>

definition check_match_executables :: "nat \<Rightarrow> ('w grading, bool) stm" where
  "check_match_executables n = sbind get_job (\<lambda>j.
     case jm_kind j of
       Matching _ _ xs _ \<Rightarrow>
         if length xs \<noteq> n \<or> \<not> list_all (\<lambda>x. length x = 1) xs then sthen set_configuration_error (sret False) else sret True
     | _ \<Rightarrow> sraise AttributeError)"

definition match_lists :: "job_message \<Rightarrow> (json_value \<times> job_files list) res" where
  "match_lists j = (case jm_kind j of Matching _ ls xs _ \<Rightarrow> Inr (ls, xs) | _ \<Rightarrow> Inl AttributeError)"

definition player_languages :: "'w grader \<Rightarrow> json_value \<Rightarrow> nat \<Rightarrow> grading_language list res" where
  "player_languages gr ls n =
     (case ls of
        JList ls \<Rightarrow> res_map (\<lambda>i. res_bind (py_nth ls i) (language_of (gr_languages gr))) [0..<n]
      | _ \<Rightarrow> Inl TypeError)"

definition match_manager_time :: "'w grader \<Rightarrow> real \<Rightarrow> grading_language list \<Rightarrow> real" where
  "match_manager_time gr limit langs =
     max (limit + 1 + sum_list (map (\<lambda>l. limit * gl_time_limit_multiplier l + 1) langs)) (cf_trusted_max_time gr)"

definition first_message :: "evaluation_verdict \<Rightarrow> string res" where
  "first_message v = (case vd_stats v of
     None \<Rightarrow> Inl TypeError
   | Some st \<Rightarrow> res_bind (human_evaluation_message st) (\<lambda>ms. py_nth ms 0))"

text \<open>Outcome and text when not all user programs of a match ended well.\<close>

definition match_failure :: "evaluation_verdict list \<Rightarrow> (string \<times> string list) res" where
  "match_failure vs =
     res_bind (py_nth vs 0) (\<lambda>v0. res_bind (py_nth vs 1) (\<lambda>v1.
     if vd_evaluation_success v0 = Some True then Inr (''1.0 0.0'', [''You win because the opponent's program failed to execute''])
     else if vd_evaluation_success v1 = Some True then
       res_bind (first_message v0) (\<lambda>m. Inr (''0.0 1.0'', [''You lose because your program failed to execute. The info of your program is:'' @ NEWLINE @ m]))
     else res_bind (first_message v0) (\<lambda>m.
       Inr (''0.5 0.5'', [''All user programs failed to execute, so the result is considered as draw. The info of your program is:'' @ NEWLINE @ m]))))"

definition match_outcome :: "bool \<Rightarrow> bool \<Rightarrow> evaluation_verdict list \<Rightarrow> nat \<Rightarrow> ('w grading, string option \<times> string list option) stm" where
  "match_outcome success only_execution vs m =
     (if \<not> success then sret (None, None)
      else if only_execution then sret (Some ''0.5 0.5'', Some [''Execution completed successfully''])
      else if \<not> list_all (\<lambda>v. vd_evaluation_success v = Some True) vs then
        sbind (slift (match_failure vs)) (\<lambda>(x, t). sret (Some x, Some t))
      else sbind (extract_pvp_outcome_and_text m) (\<lambda>(x, t). sret (Some x, Some t)))"

definition pvp_match :: "'w grader \<Rightarrow> bool \<Rightarrow> bool \<Rightarrow> ('w grading, unit) stm" where
  "pvp_match gr uses_stub uses_fifos =
     sbind (check_match_executables 2) (\<lambda>enough.
     if \<not> enough then sret ()
     else
       sbind get_job (\<lambda>j. sbind get_fields (\<lambda>e.
       sbind (slift (match_lists j)) (\<lambda>(ls, xs).
       sbind (slift (res_map first_executable xs)) (\<lambda>executables.
       sbind (check_manager_present ''manager'') (\<lambda>present.
       if \<not> present then sret ()
       else
         sbind (manager_digest ''manager'') (\<lambda>manager.
         sbind (create_manager gr manager) (\<lambda>m.
         sbind (create_users gr 2) (\<lambda>bs.
         sthen (sforeach bs add_sandbox)
         (sthen (sforeach (zip bs executables) (\<lambda>(b, executable, d). create_file_from_storage b executable d True))
         (sbind (slift (player_languages gr ls 2)) (\<lambda>langs.
         sbind (slift (the_number (ef_time_limit e))) (\<lambda>tl.
         let multi = truthy (jm_multithreaded j) in
         sthen (start_manager gr m 2 (match_manager_time gr tl langs) multi)
         (sbind (slift (the_limit (ef_memory_limit e))) (\<lambda>mem.
         sthen (sforeach (zip [0..<2] (zip bs (zip langs executables))) (\<lambda>(i, b, l, executable, _).
             start_user gr l b i uses_fifos executable (if uses_stub then ''stub'' else splitext_root executable) []
               (tl * gl_time_limit_multiplier l) mem multi))
         (sthen (wait_without_std (pf_of gr) (bs @ [m]))
         (sbind (evaluation_step_after_run m) (\<lambda>vm.
         sbind (after_runs bs) (\<lambda>vs.
         let success = (list_all vd_success vs \<and> vd_success vm \<and> vd_evaluation_success vm = Some True) in
         sbind (match_outcome success (truthy (ef_only_execution e)) vs m) (\<lambda>(outcome, t).
         sthen (manager_output gr m)
         (sthen (fill_result gr success (json_option JString outcome) t
             (if success then stats_json (case vs of [] \<Rightarrow> None | v # _ \<Rightarrow> vd_stats v) else json_value.JNull))
           (sforeach (m # bs) (\<lambda>b. delete_sandbox gr b success (truthy (jm_keep_sandbox j)))))))))))))))))))))))))"

section \<open>Execution of a job\<close>

fun evaluate :: "'w grader \<Rightarrow> task_type \<Rightarrow> ('w grading, unit) stm" where
  "evaluate gr (Batch c i out ev) = batch_evaluate gr (c = JString ''grader'') i out (ev = JString ''comparator'')"
| "evaluate gr (OutputOnly ev) = output_only_evaluate gr (ev = JString ''comparator'')"
| "evaluate gr (TwoSteps ev) = two_steps_evaluate gr (ev = JString ''comparator'')"
| "evaluate gr (Communication n c io) = communication_evaluate gr (nat n) (c = JString ''stub'') (io = JString ''fifo_io'')"
| "evaluate gr (PvP _ _) = sret ()"

fun match_job :: "'w grader \<Rightarrow> task_type \<Rightarrow> ('w grading, unit) stm" where
  "match_job gr (PvP c io) = pvp_match gr (c = JString ''stub'') (io = JString ''fifo_io'')"
| "match_job gr _ = sret ()"

definition execute_job :: "'w grader \<Rightarrow> task_type \<Rightarrow> ('w grading, unit) stm" where
  "execute_job gr t =
     sbind get_job (\<lambda>j. case jm_kind j of
       Compilation _ _ \<Rightarrow> compile gr t
     | Evaluation _ \<Rightarrow> evaluate gr t
     | Matching _ _ _ _ \<Rightarrow> match_job gr t)"

end
