(* ===== verification/Worker.thy ===== *)
theory Worker
  imports Task_Types
begin

text \<open>
  The worker: \<^verbatim>\<open>cms/service/Worker.py\<close>. It gets a group of jobs as a message, executes them one after the other with their task types and
  sends them back. The clock is an argument. The lock is taken while a group is executed; a call that finds it taken is declined.
\<close>

record 'w worker =
  wk_host :: "'w host"
  wk_shard :: int
  wk_busy :: bool
  wk_last_end_time :: "real option"
  wk_total_free_time :: real
  wk_total_busy_time :: real
  wk_number_execution :: int
  wk_fake_worker_time :: "real option"

definition worker_init :: "'w host \<Rightarrow> int \<Rightarrow> real option \<Rightarrow> 'w worker" where
  "worker_init h shard fake =
     \<lparr>wk_host = h, wk_shard = shard, wk_busy = False, wk_last_end_time = None, wk_total_free_time = 0, wk_total_busy_time = 0,
      wk_number_execution = 0, wk_fake_worker_time = fake\<rparr>"

definition precache_files :: "bool \<Rightarrow> digest list \<Rightarrow> ('w worker, unit) stm" where
  "precache_files locked files =
     (if \<not> fst (precache_lock locked) \<or> \<not> snd (precache_lock locked) then sret ()
      else sforeach files (\<lambda>d w. case on_cacher (stry (fc_cache_file d) (\<lambda>e. e = KeyError) (\<lambda>_. sret ())) (wk_host w) of
        (h, r) \<Rightarrow> (w\<lparr>wk_host := h\<rparr>, r)))"

text \<open>Statistics on the use of the worker; the first division fails when no time has passed.\<close>

definition worker_finalize :: "real \<Rightarrow> real \<Rightarrow> ('w worker, unit) stm" where
  "worker_finalize start_time end_time =
     sthen (supd (\<lambda>w. w\<lparr>wk_total_busy_time := wk_total_busy_time w + (end_time - start_time),
        wk_total_free_time := wk_total_free_time w + (case wk_last_end_time w of None \<Rightarrow> 0 | Some t \<Rightarrow> start_time - t),
        wk_last_end_time := Some end_time\<rparr>))
     (sbind (sget id) (\<lambda>w.
      if wk_total_busy_time w + wk_total_free_time w = 0 then sraise ZeroDivisionError
      else supd (\<lambda>w. w\<lparr>wk_number_execution := wk_number_execution w + 1\<rparr>)))"

definition fake_work :: "'w grader \<Rightarrow> real \<Rightarrow> ('w grading, unit) stm" where
  "fake_work gr t =
     (let pl = JDict [(''execution_time'', JFloat t), (''execution_wall_clock_time'', JFloat t), (''execution_memory'', json_value.JInt 1000)] in
      upd_job (\<lambda>j. (j\<lparr>jm_success := JBool True, jm_text := JList [JString ''ok'']\<rparr>)\<lparr>jm_kind :=
        (case jm_kind j of
           Compilation _ _ \<Rightarrow> Compilation (JBool True) pl
         | Evaluation e \<Rightarrow> Evaluation (e\<lparr>ef_outcome := JString ''1.0'', ef_plus := pl\<rparr>)
         | Matching e ls xs fs \<Rightarrow> Matching (e\<lparr>ef_outcome := JString ''1.0 1.0'', ef_plus := pl\<rparr>) ls xs fs)\<rparr>))"

definition set_plus :: "json_value \<Rightarrow> job_message \<Rightarrow> job_message" where
  "set_plus pl j = j\<lparr>jm_kind := (case jm_kind j of
     Compilation a _ \<Rightarrow> Compilation a pl | Evaluation e \<Rightarrow> Evaluation (e\<lparr>ef_plus := pl\<rparr>) | Matching e ls xs fs \<Rightarrow> Matching (e\<lparr>ef_plus := pl\<rparr>) ls xs fs)\<rparr>"

definition work :: "'w grader \<Rightarrow> real option \<Rightarrow> ('w grading, unit) stm" where
  "work gr fake =
     (case fake of
        Some t \<Rightarrow> fake_work gr t
      | None \<Rightarrow>
          sbind get_job (\<lambda>j. sbind (slift (get_task_type (jm_task_type j) (jm_parameters j))) (\<lambda>t.
          stry (execute_job gr t) (\<lambda>e. e = TombstoneError)
            (\<lambda>_. upd_job (\<lambda>j. set_plus (JDict [(''tombstone'', JBool True)]) (j\<lparr>jm_success := JBool False\<rparr>))))))"

definition work_on :: "'w grader \<Rightarrow> job_message \<Rightarrow> ('w worker, job_message) stm" where
  "work_on gr j = (\<lambda>w.
     case work gr (wk_fake_worker_time w) (host.extend (wk_host w) \<lparr>g_job = j\<lparr>jm_shard := json_value.JInt (wk_shard w)\<rparr>\<rparr>) of
       (g, r) \<Rightarrow> (w\<lparr>wk_host := host.truncate g\<rparr>, res_bind r (\<lambda>_. Inr (g_job g))))"

fun work_loop :: "'w grader \<Rightarrow> job_message list \<Rightarrow> ('w worker, job_message list) stm" where
  "work_loop gr [] = sret []"
| "work_loop gr (j # js) = sbind (work_on gr j) (\<lambda>j. sbind (work_loop gr js) (\<lambda>js. sret (j # js)))"

text \<open>\<open>execute_job_group\<close>: every exception becomes a \<open>JobException\<close>; the lock is released after the statistics.\<close>

definition execute_job_group :: "'w grader \<Rightarrow> real \<Rightarrow> real \<Rightarrow> json_value \<Rightarrow> ('w worker, json_value) stm" where
  "execute_job_group gr start_time end_time job_group_dict =
     sbind (slift (group_import_from_dict job_group_dict)) (\<lambda>jobs.
     sbind (sget wk_busy) (\<lambda>busy.
     if busy then sthen (worker_finalize start_time end_time) (sraise JobException)
     else
       sthen (supd (\<lambda>w. w\<lparr>wk_busy := True\<rparr>))
       (\<lambda>w. case stry (sbind (work_loop gr jobs) (\<lambda>js. slift (group_export_to_dict (map Some js)))) (\<lambda>_. True) (\<lambda>_. sraise JobException) w of
          (w, r) \<Rightarrow> sthen (worker_finalize start_time end_time) (sthen (supd (\<lambda>w. w\<lparr>wk_busy := False\<rparr>)) (slift r)) w)))"

section \<open>What is kept of a job\<close>

abbreviation job_prop :: "(job_message \<Rightarrow> bool) \<Rightarrow> 'w grading \<Rightarrow> bool" where
  "job_prop P \<equiv> \<lambda>g. P (g_job g)"

text \<open>What happens to sandboxes and to stored files does not touch the job.\<close>

lemma keeps_job_basic [preserves_rules]:
  "preserves (job_prop P) (upd_box b f)" "preserves (job_prop P) (get_box b)" "preserves (job_prop P) get_job"
  "preserves (job_prop P) (on_cacher m)" "preserves (job_prop P) (wait_without_std pf bs)" "preserves (job_prop P) (or_type_error x)"
  by (auto simp: preserves_def upd_box_def get_box_def get_job_def on_cacher_def wait_without_std_def or_type_error_def stm_simps
      split: prod.splits option.splits)

lemma keeps_job_lambda: "(\<And>g. g_job (fst (m g)) = g_job g) \<Longrightarrow> preserves (job_prop P) m"
  by (simp add: preserves_def)

lemma preserves_case_list [preserves_rules]:
  "preserves I m \<Longrightarrow> (\<And>x xs. preserves I (f x xs)) \<Longrightarrow> preserves I (case r of [] \<Rightarrow> m | x # xs \<Rightarrow> f x xs)"
  by (cases r) auto

lemma keeps_job_files [preserves_rules]:
  "preserves (job_prop P) (create_file b p x)" "preserves (job_prop P) (create_file_from_storage b p d x)"
  "preserves (job_prop P) (get_file b p n)" "preserves (job_prop P) (get_file_to_string b p)"
  "preserves (job_prop P) (get_file_to_storage pf b p desc n)" "preserves (job_prop P) (file_exists b p)"
  unfolding create_file_def create_file_from_storage_def get_file_def get_file_to_string_def get_file_to_storage_def file_exists_def
  by (intro preserves_rules)+

lemma keeps_job_run [preserves_rules]:
  "preserves (job_prop P) (sandbox_popen b command)" "preserves (job_prop P) (execute_without_std pf b command)"
  unfolding execute_without_std_def sandbox_popen_def by (intro preserves_rules)+

lemma keeps_job_log [preserves_rules]:
  "preserves (job_prop P) (get_log b)" "preserves (job_prop P) (with_log b f)"
  unfolding with_log_def get_log_def by (intro preserves_rules)+

lemma keeps_job_stats [preserves_rules]:
  "preserves (job_prop P) (execution_stats b c)"
  unfolding execution_stats_def get_execution_time_def get_execution_wall_clock_time_def get_memory_used_def get_exit_status_def
    get_killing_signal_def collect_file_def
  by (intro preserves_rules)

lemma keeps_job_step_loop [preserves_rules]:
  "preserves (job_prop P) (step_loop pf b name c n commands st)"
proof (induction commands arbitrary: n st)
  case (Cons command commands)
  show ?case unfolding step_loop.simps generic_execution_def by (intro preserves_rules Cons)
qed (simp add: preserves_rules)

lemma keeps_job_steps [preserves_rules]:
  "preserves (job_prop P) (compilation_step pf b commands)" "preserves (job_prop P) (evaluation_start pf b command e)"
  "preserves (job_prop P) (evaluation_step_before_run pf b command e)" "preserves (job_prop P) (evaluation_step_after_run b)"
  "preserves (job_prop P) (trusted_step pf b commands)"
  unfolding compilation_step_def evaluation_start_def evaluation_step_before_run_def evaluation_step_after_run_def trusted_step_def generic_step_def
  by (intro preserves_rules)+

lemma keeps_job_evaluation [preserves_rules]:
  "preserves (job_prop P) (evaluation_step pf b commands e)"
proof -
  have "preserves (job_prop P) (evaluation_loop pf b commands e)" by (induction commands) (simp_all add: preserves_rules)
  then show ?thesis unfolding evaluation_step_def by (intro preserves_rules)
qed

lemma keeps_job_manager [preserves_rules]:
  "preserves (job_prop P) (manager_line b f)" "preserves (job_prop P) (extract_outcome_and_text b)"
  "preserves (job_prop P) (extract_pvp_outcome_and_text b)" "preserves (job_prop P) (checker_step pf b c i d p)"
  unfolding checker_step_def extract_outcome_and_text_def extract_pvp_outcome_and_text_def manager_line_def
  by (intro preserves_rules)+

lemma keeps_job_sandbox [preserves_rules]:
  "preserves (job_prop P) (create_sandbox gr name)" "preserves (job_prop P) (delete_sandbox gr b s k)"
  unfolding create_sandbox_def delete_sandbox_def isolate_sandbox_def sandbox_cleanup_def initialize_isolate_def
  by (intro preserves_rules keeps_job_lambda; simp add: supd_def)+

section \<open>What the task types need of an invariant of jobs\<close>

lemma keeps_upd_job: "(\<And>j. P j \<Longrightarrow> P (f j)) \<Longrightarrow> preserves (job_prop P) (upd_job f)"
  by (simp add: preserves_def upd_job_def stm_simps)

lemma preserves_case_kind [preserves_rules]:
  "(\<And>a b. preserves I (f a b)) \<Longrightarrow> (\<And>e. preserves I (g e)) \<Longrightarrow> (\<And>e ls xs fs. preserves I (h e ls xs fs)) \<Longrightarrow>
   preserves I (case k of Compilation a b \<Rightarrow> f a b | Evaluation e \<Rightarrow> g e | Matching e ls xs fs \<Rightarrow> h e ls xs fs)"
  by (cases k) auto

lemma preserves_case_output [preserves_rules]:
  "(\<And>b p. preserves I (f b p)) \<Longrightarrow> (\<And>d. preserves I (g d)) \<Longrightarrow> preserves I (case out of In_box b p \<Rightarrow> f b p | In_storage d \<Rightarrow> g d)"
  by (cases out) auto

text \<open>An invariant that survives what is done to a job before its result is known is kept by everything that a task type does up to then.\<close>

locale job_invariant =
  fixes P :: "job_message \<Rightarrow> bool"
  assumes sandboxes: "P j \<Longrightarrow> P (j\<lparr>jm_sandboxes := JList js\<rparr>)"
    and user_output: "P j \<Longrightarrow> P (upd_fields (\<lambda>e. e\<lparr>ef_user_output := u\<rparr>) j)"
    and failed: "P j \<Longrightarrow> P (j\<lparr>jm_success := JBool False, jm_text := json_value.JNull\<rparr>)"
    and failed_compilation: "P j \<Longrightarrow> P (set_compilation json_value.JNull pl (j\<lparr>jm_success := JBool False, jm_text := json_value.JNull\<rparr>))"
    and failed_evaluation: "P j \<Longrightarrow> P (upd_fields (\<lambda>e. e\<lparr>ef_outcome := json_value.JNull\<rparr>) (j\<lparr>jm_success := JBool False, jm_text := json_value.JNull\<rparr>))"
begin

lemma keeps_add_sandbox [preserves_rules]: "preserves (job_prop P) (add_sandbox b)"
proof -
  have "preserves (job_prop P) (case s of JList js \<Rightarrow> upd_job (\<lambda>j. j\<lparr>jm_sandboxes := JList (js @ [x])\<rparr>) | _ \<Rightarrow> sraise AttributeError)" for s x
    by (cases s) (auto intro!: preserves_rules keeps_upd_job sandboxes)
  then show ?thesis unfolding add_sandbox_def by (intro preserves_rules)
qed

lemma keeps_configuration_error [preserves_rules]: "preserves (job_prop P) set_configuration_error"
  by (auto simp: preserves_def set_configuration_error_def upd_job_def get_job_def stm_simps failed failed_compilation failed_evaluation split: job_kind.splits)

lemma keeps_checks [preserves_rules]:
  "preserves (job_prop P) get_fields" "preserves (job_prop P) (check_executables_number n)" "preserves (job_prop P) (check_files_number n m)"
  "preserves (job_prop P) (check_manager_present c)" "preserves (job_prop P) (manager_digest c)" "preserves (job_prop P) (check_match_executables n)"
  unfolding get_fields_def check_executables_number_def check_files_number_def check_manager_present_def manager_digest_def check_match_executables_def
  by (intro preserves_rules)+

lemma keeps_user_output [preserves_rules]: "preserves (job_prop P) (set_user_output u)"
  unfolding set_user_output_def by (intro keeps_upd_job user_output)

lemma keeps_output [preserves_rules]:
  "preserves (job_prop P) (output_missing out)" "preserves (job_prop P) (output_content out)" "preserves (job_prop P) (put_user_output b out)"
  "preserves (job_prop P) (eval_output gr c out n)" "preserves (job_prop P) (save_output gr b n)"
  unfolding eval_output_def output_missing_def output_content_def put_user_output_def save_output_def by (intro preserves_rules)+

lemma keeps_judge [preserves_rules]: "preserves (job_prop P) (judge_execution gr bs es st b n c m)"
  unfolding judge_execution_def by (intro preserves_rules)

lemma keeps_processes [preserves_rules]:
  "preserves (job_prop P) (create_manager gr m)" "preserves (job_prop P) (create_users gr n)"
  "preserves (job_prop P) (start_manager gr b n t mu)" "preserves (job_prop P) (start_user gr l b i f x mn args t mem mu)"
  "preserves (job_prop P) (after_runs bs)" "preserves (job_prop P) (manager_output gr b)"
proof -
  show "preserves (job_prop P) (create_users gr n)" by (induction n) (simp_all add: preserves_rules)
  show "preserves (job_prop P) (after_runs bs)" by (induction bs) (simp_all add: preserves_rules)
qed (unfold create_manager_def start_manager_def start_user_def manager_output_def, (intro preserves_rules)+)

lemma keeps_match_outcome [preserves_rules]: "preserves (job_prop P) (match_outcome s x vs m)"
  unfolding match_outcome_def by (intro preserves_rules)

end

section \<open>A job keeps what was asked\<close>

text \<open>What a job asks for: the attributes that execution does not fill in. The executables are a result of a compilation and part
  of what an evaluation gets.\<close>

definition blank :: "evaluation_fields \<Rightarrow> evaluation_fields" where
  "blank e = e\<lparr>ef_outcome := json_value.JNull, ef_user_output := json_value.JNull, ef_plus := json_value.JNull\<rparr>"

definition job_request :: "job_message \<Rightarrow> job_message" where
  "job_request j = j\<lparr>jm_sandboxes := json_value.JNull, jm_success := json_value.JNull, jm_text := json_value.JNull,
     jm_executables := (case jm_kind j of Compilation _ _ \<Rightarrow> [] | _ \<Rightarrow> jm_executables j),
     jm_kind := (case jm_kind j of
        Compilation _ _ \<Rightarrow> Compilation json_value.JNull json_value.JNull
      | Evaluation e \<Rightarrow> Evaluation (blank e)
      | Matching e ls xs fs \<Rightarrow> Matching (blank e) ls xs fs)\<rparr>"

definition answers :: "job_message \<Rightarrow> job_message \<Rightarrow> bool" where
  "answers q j \<longleftrightarrow> job_ok j \<and> job_request j = q"

lemmas answers_defs = answers_def job_request_def job_ok_def blank_def

lemma answers_result_fields:
  "answers q j \<Longrightarrow> answers q (upd_fields (\<lambda>e. e\<lparr>ef_outcome := a\<rparr>) j)"
  "answers q j \<Longrightarrow> answers q (upd_fields (\<lambda>e. e\<lparr>ef_user_output := a\<rparr>) j)"
  "answers q j \<Longrightarrow> answers q (upd_fields (\<lambda>e. e\<lparr>ef_outcome := a, ef_plus := c\<rparr>) j)"
  "answers q j \<Longrightarrow> answers q (set_compilation a c j)"
  "answers q j \<Longrightarrow> answers q (set_plus a j)"
  by (auto simp: answers_defs upd_fields_def set_compilation_def set_plus_def split: job_kind.splits)

lemma answers_verdict:
  "answers q j \<Longrightarrow> answers q (j\<lparr>jm_success := a\<rparr>)" "answers q j \<Longrightarrow> answers q (j\<lparr>jm_text := a\<rparr>)"
  "answers q j \<Longrightarrow> answers q (j\<lparr>jm_success := a, jm_text := c\<rparr>)" "answers q j \<Longrightarrow> answers q (j\<lparr>jm_sandboxes := JList js\<rparr>)"
  by (auto simp: answers_defs split: job_kind.splits)

lemma named_set: "named fs \<Longrightarrow> named (dict_set fs k (Row k g))"
  unfolding named_def dict_set_def by (induction fs) auto

lemma answers_kind:
  assumes "jm_kind q = Compilation a c" "answers q j"
  shows "\<exists>x y. jm_kind j = Compilation x y"
proof -
  have "jm_kind (job_request j) = Compilation a c" using assms by (simp add: answers_def)
  then show ?thesis by (cases "jm_kind j") (simp_all add: job_request_def)
qed

lemma answers_executable:
  assumes "jm_kind q = Compilation a c" "answers q j"
  shows "answers q (j\<lparr>jm_executables := dict_set (jm_executables j) k (Row k g)\<rparr>)"
  using answers_kind[OF assms] assms(2) by (auto simp: answers_defs named_set)

abbreviation answering :: "job_message \<Rightarrow> 'w grading \<Rightarrow> bool" where
  "answering q \<equiv> job_prop (answers q)"

interpretation answered: job_invariant "answers q" for q
  by unfold_locales (simp_all add: answers_verdict answers_result_fields)

lemma answering_result [preserves_rules]: "preserves (answering q) (fill_result gr s v t pl)"
  unfolding fill_result_def by (intro keeps_upd_job answers_result_fields answers_verdict)

lemma answering_evaluations [preserves_rules]:
  "preserves (answering q) (batch_evaluate gr g i out c)" "preserves (answering q) (output_only_evaluate gr c)"
  "preserves (answering q) (two_steps_evaluate gr c)"
  unfolding batch_evaluate_def output_only_evaluate_def two_steps_evaluate_def by (intro preserves_rules)+

lemma answering_managed [preserves_rules]:
  "preserves (answering q) (communication_evaluate gr n s f)" "preserves (answering q) (pvp_match gr s f)"
  unfolding communication_evaluate_def pvp_match_def by (intro preserves_rules)+

lemma answering_evaluate: "preserves (answering q) (evaluate gr t)" "preserves (answering q) (match_job gr t)"
  by (cases t; simp add: preserves_rules)+

lemma answering_run_compilation:
  "jm_kind q = Compilation a c \<Longrightarrow> preserves (answering q) (run_compilation gr files commands x)"
  unfolding run_compilation_def
  by (intro preserves_rules keeps_upd_job answers_result_fields answers_verdict answers_executable; assumption)

lemma answering_compile: "jm_kind q = Compilation a c \<Longrightarrow> preserves (answering q) (compile gr t)"
  using answering_run_compilation[of q a c]
  by (cases t) (auto simp: compile_with_def two_steps_compile_def add_two_steps_file_def output_only_compile_def Let_def
      intro!: preserves_rules keeps_upd_job answers_result_fields answers_verdict)

lemma answering_execute_job [preserves_rules]: "preserves (answering q) (execute_job gr t)"
proof (unfold preserves_def, intro allI impI)
  fix g :: "'a grading"
  assume a: "answering q g"
  then have q: "q = job_request (g_job g)" by (simp add: answers_def)
  show "answering q (fst (execute_job gr t g))"
  proof (cases "jm_kind (g_job g)")
    case (Compilation x y)
    then have "jm_kind q = Compilation json_value.JNull json_value.JNull" by (simp add: q job_request_def)
    from preservesD[OF answering_compile[OF this]] a Compilation show ?thesis by (simp add: execute_job_def get_job_def stm_simps)
  qed (use preservesD[OF answering_evaluate(1), of q g] preservesD[OF answering_evaluate(2), of q g] a
       in \<open>simp_all add: execute_job_def get_job_def stm_simps\<close>)
qed

lemma answering_work: "preserves (answering q) (work gr fake)"
proof -
  have "answers q j \<Longrightarrow> answers q ((j\<lparr>jm_success := s, jm_text := u\<rparr>)\<lparr>jm_kind := (case jm_kind j of
      Compilation _ _ \<Rightarrow> Compilation a pl | Evaluation e \<Rightarrow> Evaluation (e\<lparr>ef_outcome := b, ef_plus := pl\<rparr>)
    | Matching e ls xs fs \<Rightarrow> Matching (e\<lparr>ef_outcome := c, ef_plus := pl\<rparr>) ls xs fs)\<rparr>)" for j s u a b c pl
    by (auto simp: answers_defs split: job_kind.splits)
  then show ?thesis unfolding work_def fake_work_def Let_def
    by (intro preserves_rules keeps_upd_job answers_result_fields answers_verdict; blast)
qed

section \<open>A group of jobs\<close>

lemma job_request_shard: "job_request (j\<lparr>jm_shard := s\<rparr>) = (job_request j)\<lparr>jm_shard := s\<rparr>"
  by (cases "jm_kind j") (simp_all add: job_request_def)

lemma work_on_answers:
  assumes "job_ok j" "work_on gr j w = (w', r)"
  shows "\<exists>h. w' = w\<lparr>wk_host := h\<rparr>" "r = Inr j' \<Longrightarrow> answers ((job_request j)\<lparr>jm_shard := json_value.JInt (wk_shard w)\<rparr>) j'"
proof -
  let ?g = "host.extend (wk_host w) \<lparr>g_job = j\<lparr>jm_shard := json_value.JInt (wk_shard w)\<rparr>\<rparr>"
  let ?q = "(job_request j)\<lparr>jm_shard := json_value.JInt (wk_shard w)\<rparr>"
  have "job_ok (j\<lparr>jm_shard := x\<rparr>)" for x using assms(1) by (simp add: job_ok_def split: job_kind.splits)
  then have "answering ?q ?g" by (simp add: answers_def job_request_shard host.defs)
  from preservesD[OF answering_work this] have a: "answering ?q (fst (work gr (wk_fake_worker_time w) ?g))" .
  show "\<exists>h. w' = w\<lparr>wk_host := h\<rparr>" using assms(2) by (auto simp: work_on_def split: prod.splits)
  show "r = Inr j' \<Longrightarrow> answers ?q j'" using assms(2) a by (auto simp: work_on_def res_bind_Inr_iff split: prod.splits)
qed

lemma work_loop_answers:
  "list_all job_ok jobs \<Longrightarrow> work_loop gr jobs w = (w', r) \<Longrightarrow>
   (\<exists>h. w' = w\<lparr>wk_host := h\<rparr>) \<and>
   (\<forall>js. r = Inr js \<longrightarrow> list_all job_ok js \<and> map job_request js = map (\<lambda>j. (job_request j)\<lparr>jm_shard := json_value.JInt (wk_shard w)\<rparr>) jobs)"
proof (induction jobs arbitrary: w w' r)
  case (Cons j jobs)
  obtain w1 r1 where 1: "work_on gr j w = (w1, r1)" by fastforce
  note on = work_on_answers[OF _ 1]
  obtain h where h: "w1 = w\<lparr>wk_host := h\<rparr>" using on Cons.prems(1) by auto
  show ?case
  proof (cases r1)
    case (Inl e)
    then show ?thesis using Cons.prems(2) 1 h by (auto simp: stm_simps)
  next
    case (Inr j')
    obtain w2 r2 where 2: "work_loop gr jobs w1 = (w2, r2)" by fastforce
    have "answers ((job_request j)\<lparr>jm_shard := json_value.JInt (wk_shard w)\<rparr>) j'" using on(2) Cons.prems(1) Inr by auto
    then show ?thesis using Cons.IH[OF _ 2] Cons.prems 1 2 Inr h by (auto simp: stm_simps answers_def split: sum.splits)
  qed
next
  case Nil
  have "w = w\<lparr>wk_host := wk_host w\<rparr>" by simp
  then show ?case using Nil by (auto simp: stm_simps intro: exI[of _ "wk_host w"])
qed

lemma worker_finalize_run:
  "worker_finalize t0 t1 w = (w', r) \<Longrightarrow>
   wk_busy w' = wk_busy w \<and> wk_host w' = wk_host w \<and> (r = Inr () \<or> r = Inl ZeroDivisionError)"
  by (auto simp: worker_finalize_def stm_simps split: if_splits)

text \<open>(C38) A worker that is asked for a group of jobs and answers, answers for these jobs: its message holds one job for each that it was
  asked for, in the same order, each with everything that was asked (operation, task type and parameters, files, managers, limits) as it
  was, so that only what reports the result differs, and with the shard of this worker; the worker is free before and after. It never ends in another way than by this
  answer, a \<open>JobException\<close>, or the division by zero of the statistics; a worker that is busy refuses and executes nothing. The lock
  is free afterwards, except after the division by zero, which leaves it taken.\<close>

theorem worker_answers_for_its_jobs:
  assumes "group_import_from_dict m = Inr jobs" and "list_all job_ok jobs" and "execute_job_group gr t0 t1 m w = (w', r)"
  shows "(\<forall>d. r = Inr d \<longrightarrow> \<not> wk_busy w \<and>
      (\<exists>jobs'. group_import_from_dict d = Inr jobs' \<and>
         map job_request jobs' = map (\<lambda>j. (job_request j)\<lparr>jm_shard := json_value.JInt (wk_shard w)\<rparr>) jobs)) \<and>
    (\<forall>e. r = Inl e \<longrightarrow> e = JobException \<or> e = ZeroDivisionError) \<and>
    (wk_busy w \<longrightarrow> wk_busy w' \<and> wk_host w' = wk_host w) \<and>
    (\<not> wk_busy w \<longrightarrow> (wk_busy w' \<longleftrightarrow> r = Inl ZeroDivisionError))"
proof (cases "wk_busy w")
  case True
  obtain w1 r1 where 1: "worker_finalize t0 t1 w = (w1, r1)" by fastforce
  then show ?thesis using assms(1,3) worker_finalize_run[OF 1] True by (auto simp: execute_job_group_def stm_simps)
next
  case False
  let ?w = "w\<lparr>wk_busy := True\<rparr>"
  obtain w1 r1 where 1: "work_loop gr jobs ?w = (w1, r1)" by fastforce
  note loop = work_loop_answers[OF assms(2) 1]
  obtain w2 r2 where 2: "worker_finalize t0 t1 w1 = (w2, r2)" by fastforce
  note fin = worker_finalize_run[OF 2]
  show ?thesis
  proof (cases r1)
    case (Inl e)
    then show ?thesis using assms(1,3) False 1 2 loop fin by (auto simp: execute_job_group_def stm_simps stry_def)
  next
    case (Inr js)
    then obtain d where "group_export_to_dict (map Some js) = Inr d" "group_import_from_dict d = Inr js"
      using loop group_roundtrip[of js] by auto
    then show ?thesis using assms(1,3) False 1 2 loop fin Inr by (auto simp: execute_job_group_def stm_simps stry_def)
  qed
qed

definition example_grader :: "unit grader" where
  "example_grader = \<lparr>pf_run = (\<lambda>w ps. (w, [])), pf_init_ok = (\<lambda>_ _. True), pf_cleanup_ok = (\<lambda>_ _. True), pf_mkdtemp = (\<lambda>_ _ _. Inr ''/box''),
     pf_exists = (\<lambda>_. False), pf_hash = id, cf_service_shard = Some 3, cf_use_cgroups = True, cf_keep_sandbox = False, cf_max_file_size = 1048576,
     cf_compilation_max_processes = 1000, cf_compilation_max_time = 10, cf_compilation_max_memory = 524288,
     cf_trusted_max_processes = 1000, cf_trusted_max_time = 10, cf_trusted_max_memory = 4194304,
     gr_languages = [], gr_fifo_dir = (\<lambda>_. ''/fifo''), gr_float_str = (\<lambda>_. ''1.0'')\<rparr>"

definition example_worker :: "unit worker" where
  "example_worker = worker_init \<lparr>h_world = (), h_cacher = \<lparr>fc_shared = False, fc_temp = True, fc_dir = [], fc_backend = Null_Backend\<rparr>,
     h_next_id = 0, h_boxes = []\<rparr> 3 None"

definition example_compilation :: job_message where
  "example_compilation = \<lparr>jm_operation = Some (es_op COMPILATION 7 5 None), jm_task_type = JString ''OutputOnly'', jm_parameters = JList [JString ''diff''],
     jm_language = json_value.JNull, jm_multithreaded = JBool False, jm_shard = json_value.JNull, jm_keep_sandbox = JBool False, jm_sandboxes = JList [],
     jm_info = JString ''compile'', jm_success = json_value.JNull, jm_text = json_value.JNull, jm_files = rows [(''output_1.txt'', ''d1'')], jm_managers = [],
     jm_executables = [], jm_kind = Compilation json_value.JNull json_value.JNull\<rparr>"

theorem worker_answers_for_its_jobs_witness:
  "\<exists>m d jobs' w'. execute_job_group example_grader 0 1 m example_worker = (w', Inr d) \<and> group_import_from_dict d = Inr jobs' \<and>
     map job_request jobs' = [(job_request example_compilation)\<lparr>jm_shard := json_value.JInt 3\<rparr>] \<and> \<not> wk_busy w'"
proof -
  have ok: "list_all job_ok [example_compilation]" by (simp add: example_compilation_def job_ok_def)
  obtain m where m: "group_import_from_dict m = Inr [example_compilation]" using group_roundtrip[OF ok] by blast
  obtain w' r where r: "execute_job_group example_grader 0 1 m example_worker = (w', r)" by fastforce
  let ?w = "example_worker\<lparr>wk_busy := True\<rparr>"
  have type: "get_task_type (JString ''OutputOnly'') (JList [JString ''diff'']) = Inr (OutputOnly (JString ''diff''))"
    by (simp add: get_task_type_def accepted_parameters_def output_only_parameters_def choice_text_def make_task_type_def)
  have run: "\<exists>w1 js. work_loop example_grader [example_compilation] ?w = (w1, Inr js) \<and> wk_last_end_time w1 = None \<and> wk_total_busy_time w1 = 0 \<and> wk_total_free_time w1 = 0"
    by (simp add: stm_simps work_on_def work_def example_worker_def worker_init_def host.defs get_job_def example_compilation_def type
        execute_job_def output_only_compile_def upd_job_def stry_def)
  from run obtain w1 js where 1: "work_loop example_grader [example_compilation] ?w = (w1, Inr js)" "wk_last_end_time w1 = None" "wk_total_busy_time w1 = 0"
      "wk_total_free_time w1 = 0"
    by blast
  obtain d where d: "group_export_to_dict (map Some js) = Inr d"
    using work_loop_answers[OF ok 1(1)] group_roundtrip[of js] by auto
  have idle: "wk_busy example_worker = False" by (simp add: example_worker_def worker_init_def)
  have "r = Inr d"
    using r m idle by (simp add: execute_job_group_def sbind_run stm_simps stry_def worker_finalize_def 1 d del: work_loop.simps)
  moreover have "wk_shard example_worker = 3" by (simp add: example_worker_def worker_init_def)
  ultimately obtain jobs' where "group_import_from_dict d = Inr jobs'" "\<not> wk_busy w'"
      "map job_request jobs' = [(job_request example_compilation)\<lparr>jm_shard := json_value.JInt 3\<rparr>]"
    using worker_answers_for_its_jobs[OF m ok r] idle by auto
  moreover have "execute_job_group example_grader 0 1 m example_worker = (w', Inr d)" using r \<open>r = Inr d\<close> by simp
  ultimately show ?thesis by (intro exI conjI)
qed

end
