(* ===== verification/Languages.thy ===== *)
theory Languages
  imports Worker
begin

text \<open>
  The programming languages: \<^verbatim>\<open>cms/grading/language.py\<close>, \<^verbatim>\<open>languagemanager.py\<close> and \<^verbatim>\<open>languages/\<close>. A language is a table of extensions
  and the commands that compile and run a program. Modules of Haskell are capitalized as ASCII.
\<close>

section \<open>Names of files\<close>

text \<open>\<open>os.path.split\<close>: what follows the last slash, and what is before it, without slashes at its end unless it is all slashes.\<close>

definition is_slash :: "char \<Rightarrow> bool" where
  "is_slash c \<longleftrightarrow> c = CHR ''/''"

definition basename :: "string \<Rightarrow> string" where
  "basename p = rev (takeWhile (\<lambda>c. \<not> is_slash c) (rev p))"

definition dirname :: "string \<Rightarrow> string" where
  "dirname p =
     (let hd_part = rev (dropWhile (\<lambda>c. \<not> is_slash c) (rev p)) in
      if list_all is_slash hd_part then hd_part else rev (dropWhile is_slash (rev hd_part)))"

definition ascii_upper :: "char \<Rightarrow> char" where
  "ascii_upper c = (if (97 :: nat) \<le> of_char c \<and> of_char c \<le> (122 :: nat) then char_of (of_char c - 32 :: nat) else c)"

text \<open>\<open>shlex.quote\<close>\<close>

definition is_shell_safe :: "char \<Rightarrow> bool" where
  "is_shell_safe c \<longleftrightarrow> (let n = of_char c :: nat in
     (48 \<le> n \<and> n \<le> 57) \<or> (65 \<le> n \<and> n \<le> 90) \<or> (97 \<le> n \<and> n \<le> 122) \<or> c \<in> set ''_@%+=:,./-'')"

definition shell_quote :: "string \<Rightarrow> string" where
  "shell_quote s =
     (if s = [] then [CHR 0x27, CHR 0x27]
      else if list_all is_shell_safe s then s
      else [CHR 0x27] @ concat (map (\<lambda>c. if c = CHR 0x27 then [CHR 0x27, CHR 0x22, CHR 0x27, CHR 0x22, CHR 0x27] else [c]) s) @ [CHR 0x27])"

section \<open>Languages\<close>

text \<open>The defaults of the classes \<open>Language\<close> and \<open>CompiledLanguage\<close>.\<close>

definition compiled_evaluation_commands :: "string \<Rightarrow> string \<Rightarrow> string list \<Rightarrow> string list list" where
  "compiled_evaluation_commands executable main args = [path_join ''.'' executable # args]"

definition base_language :: "string \<Rightarrow> string list \<Rightarrow> grading_language" where
  "base_language name extensions =
     \<lparr>lang_name = name, lang_source_extensions = extensions, lang_requires_multithreading = False, lang_header_extensions = [],
      gl_object_extensions = [], gl_executable_extension = [], gl_time_limit_multiplier = 1,
      gl_compilation_commands = (\<lambda>_ _. Inr []), gl_evaluation_commands = compiled_evaluation_commands\<rparr>"

definition C11Gcc :: grading_language where
  "C11Gcc = (base_language ''C11 / gcc'' [''.c''])
     \<lparr>lang_header_extensions := [''.h''], gl_object_extensions := [''.o''],
      gl_compilation_commands := (\<lambda>sources executable. Inr
        [[''/usr/bin/gcc'', ''-DEVAL'', ''-std=gnu11'', ''-O2'', ''-pipe'', ''-static'', ''-s'', ''-o'', executable] @ sources @ [''-lm'']])\<rparr>"

definition cpp_language :: "string \<Rightarrow> string \<Rightarrow> grading_language" where
  "cpp_language name standard = (base_language name [''.cpp'', ''.cc'', ''.cxx'', ''.c++'', ''.C''])
     \<lparr>lang_header_extensions := [''.h''], gl_object_extensions := [''.o''],
      gl_compilation_commands := (\<lambda>sources executable. Inr
        [[''/usr/bin/g++'', ''-DEVAL'', ''-std='' @ standard, ''-O2'', ''-pipe'', ''-static'', ''-s'', ''-o'', executable] @ sources])\<rparr>"

definition Cpp11Gpp :: grading_language where
  "Cpp11Gpp = cpp_language ''C++11 / g++'' ''gnu++11''"

definition Cpp14Gpp :: grading_language where
  "Cpp14Gpp = cpp_language ''C++14 / g++'' ''gnu++14''"

definition Cpp17Gpp :: grading_language where
  "Cpp17Gpp = cpp_language ''C++17 / g++'' ''gnu++17''"

definition Cpp20Gpp :: grading_language where
  "Cpp20Gpp = cpp_language ''C++20 / g++'' ''gnu++20''"

text \<open>The evaluation command of C# ignores its arguments.\<close>

definition CSharpMono :: grading_language where
  "CSharpMono = (base_language ''C# / Mono'' [''.cs''])
     \<lparr>lang_requires_multithreading := True, gl_executable_extension := ''.exe'',
      gl_compilation_commands := (\<lambda>sources executable. Inr [[''/usr/bin/mcs'', ''-out:'' @ executable, ''-optimize+''] @ sources]),
      gl_evaluation_commands := (\<lambda>executable main args. [[''/usr/bin/mono'', executable]])\<rparr>"

definition capitalize_module :: "string \<Rightarrow> string res" where
  "capitalize_module s =
     (case basename s of [] \<Rightarrow> Inl IndexError | c # cs \<Rightarrow> Inr (path_join (dirname s) (ascii_upper c # cs)))"

definition HaskellGhc :: grading_language where
  "HaskellGhc = (base_language ''Haskell / ghc'' [''.hs''])
     \<lparr>gl_object_extensions := [''.o''],
      gl_compilation_commands := (\<lambda>sources executable.
        res_bind (res_map (\<lambda>s. res_bind (capitalize_module s) (\<lambda>t. Inr [''/bin/ln'', ''-s'', basename s, t])) (drop 1 sources)) (\<lambda>links.
        res_bind (py_nth sources 0) (\<lambda>main_source.
          Inr (links @ [[''/usr/bin/ghc'', ''-static'', ''-O2'', ''-Wall'', ''-o'', executable, main_source]]))))\<rparr>"

text \<open>\<open>USE_JAR\<close> is true.\<close>

definition JavaJDK :: grading_language where
  "JavaJDK = (base_language ''Java / JDK'' [''.java''])
     \<lparr>lang_requires_multithreading := True, gl_executable_extension := ''.jar'', gl_time_limit_multiplier := 3 / 2,
      gl_compilation_commands := (\<lambda>sources executable. Inr
        [''/usr/bin/javac'' # sources, [''/bin/sh'', ''-c'', ''jar cf '' @ shell_quote executable @ '' *.class'']]),
      gl_evaluation_commands := (\<lambda>executable main args.
        [[''/usr/bin/java'', ''-Deval=true'', ''-Xmx512M'', ''-Xss64M'', ''-cp'', executable, main] @ args])\<rparr>"

definition PascalFpc :: grading_language where
  "PascalFpc = (base_language ''Pascal / fpc'' [''.pas''])
     \<lparr>lang_header_extensions := [''lib.pas''], gl_object_extensions := [''.o''],
      gl_compilation_commands := (\<lambda>sources executable.
        res_bind (py_nth sources 0) (\<lambda>s. Inr [[''/usr/bin/fpc'', ''-dEVAL'', ''-O2'', ''-XSs'', ''-o'' @ executable, s]]))\<rparr>"

definition Php :: grading_language where
  "Php = (base_language ''PHP'' [''.php''])
     \<lparr>gl_executable_extension := ''.php'',
      gl_compilation_commands := (\<lambda>sources executable.
        res_bind (py_nth sources 0) (\<lambda>s. Inr (if s \<noteq> executable then [[''/bin/cp'', s, executable]] else [[''/bin/true'']]))),
      gl_evaluation_commands := (\<lambda>executable main args. [[''/usr/bin/php'', executable] @ args])\<rparr>"

definition MAIN_FILENAME :: string where
  "MAIN_FILENAME = ''__main__.pyc''"

definition pyc_filename :: "string \<Rightarrow> string" where
  "pyc_filename source = splitext_root (basename source) @ ''.pyc''"

text \<open>The first file is moved to the name of the entry point.\<close>

definition python_language :: "string \<Rightarrow> string \<Rightarrow> grading_language" where
  "python_language name interpreter = (base_language name [''.py''])
     \<lparr>gl_executable_extension := ''.pyz'', gl_time_limit_multiplier := 2,
      gl_compilation_commands := (\<lambda>sources executable. Inr
        ([[interpreter, ''-m'', ''compileall'', ''-b'', ''.'']] @
         map (\<lambda>s. [''/bin/mv'', pyc_filename s, MAIN_FILENAME]) (take 1 sources) @
         [[''/usr/bin/zip'', executable] @ map (\<lambda>_. MAIN_FILENAME) (take 1 sources) @ map pyc_filename (drop 1 sources)])),
      gl_evaluation_commands := (\<lambda>executable main args. [[interpreter, executable] @ args])\<rparr>"

definition Python3CPython :: grading_language where
  "Python3CPython = python_language ''Python 3 / CPython'' ''/usr/bin/python3''"

definition Python3PyPy :: grading_language where
  "Python3PyPy = python_language ''Python 3 / PyPy'' ''/usr/bin/pypy3''"

definition Rust :: grading_language where
  "Rust = (base_language ''Rust'' [''.rs''])
     \<lparr>gl_compilation_commands := (\<lambda>sources executable.
        res_bind (py_nth sources 0) (\<lambda>s. Inr [[''/usr/bin/rustc'', ''-O'', ''-o'', executable, s]]))\<rparr>"

text \<open>The languages that \<^verbatim>\<open>setup.py\<close> registers; installations may add their own.\<close>

definition LANGUAGES :: "grading_language list" where
  "LANGUAGES = [Cpp11Gpp, Cpp14Gpp, Cpp17Gpp, Cpp20Gpp, C11Gcc, CSharpMono, HaskellGhc, JavaJDK, PascalFpc, Php, Python3CPython, Python3PyPy, Rust]"

text \<open>\<open>filename_to_language\<close>, with \<open>str.rfind\<close> and \<open>sorted\<close>.\<close>

definition last_extension :: "string \<Rightarrow> string option" where
  "last_extension s =
     (if CHR ''.'' \<in> set s then Some (CHR ''.'' # rev (takeWhile (\<lambda>c. c \<noteq> CHR ''.'') (rev s))) else None)"

definition filename_to_language :: "grading_language list \<Rightarrow> string \<Rightarrow> grading_language option res" where
  "filename_to_language langs filename =
     (case last_extension filename of
        None \<Rightarrow> Inr None
      | Some ext \<Rightarrow>
          (case sort (map lang_name (filter (\<lambda>l. ext \<in> set (lang_source_extensions l)) langs)) of
             [] \<Rightarrow> Inr None
           | name # _ \<Rightarrow> res_bind (language_of langs (JString name)) (\<lambda>l. Inr (Some l))))"

end
