(* ===== verification/Confinement.thy ===== *)
theory Confinement
  imports Languages
begin

text \<open>
  What \<open>isolate\<close> is told about a program that is evaluated: the step of \<^verbatim>\<open>cms/grading/steps/evaluation.py\<close> with the commands of the languages of
  \<^verbatim>\<open>cms/grading/languages\<close> and the options of \<^verbatim>\<open>cms/grading/Sandbox.py\<close>.
\<close>

section \<open>The commands of the languages\<close>

lemmas language_defs = C11Gcc_def cpp_language_def Cpp11Gpp_def Cpp14Gpp_def Cpp17Gpp_def Cpp20Gpp_def CSharpMono_def HaskellGhc_def JavaJDK_def
  PascalFpc_def Php_def python_language_def Python3CPython_def Python3PyPy_def Rust_def base_language_def compiled_evaluation_commands_def

lemma evaluation_commands_isolated:
  assumes "l \<in> set LANGUAGES" "executable = [] \<or> hd executable \<noteq> CHR ''/''"
  shows "\<exists>c cs. gl_evaluation_commands l executable main args = [c # cs] \<and> c \<notin> set SECURE_COMMANDS"
  using assms by (auto simp: LANGUAGES_def language_defs SECURE_COMMANDS_def path_join_def)

section \<open>Permissions\<close>

text \<open>The bit for writing by others.\<close>

definition others_write :: "nat \<Rightarrow> bool" where
  "others_write mode \<longleftrightarrow> odd (mode div 2)"

lemma others_write_modes [simp]: "\<not> others_write 493" "others_write 466"
  by (simp_all add: others_write_def)

lemma map_of_chmod: "map_of (chmod mode p fs) q = (if q = p then map_option (\<lambda>f. f\<lparr>hf_mode := mode\<rparr>) (map_of fs q) else map_of fs q)"
  by (simp add: chmod_def dict_simps split: option.split)

lemma chmod_writable:
  "map_of (fold (chmod mode) paths fs) p = Some f \<Longrightarrow> p \<notin> set paths \<Longrightarrow> map_of fs p = Some f"
proof (induction paths arbitrary: fs)
  case (Cons q paths)
  then have "map_of (chmod mode q fs) p = Some f" by simp
  then show ?case using Cons.prems(2) by (simp add: map_of_chmod)
qed simp

lemma chmod_all_modes: "map_of (sb_home (chmod_all mode x)) p = Some f \<Longrightarrow> hf_mode f = mode"
  by (auto simp: chmod_all_def map_of_map)

lemma allow_writing_only_modes:
  assumes "map_of (sb_home (allow_writing_only ps x)) p = Some f" "others_write (hf_mode f)"
  shows "\<exists>q\<in>set ps. home_path q = Some p"
proof (rule ccontr)
  assume "\<not> ?thesis"
  then have n: "p \<notin> set (List.map_filter home_path ps)" by (auto simp: List.map_filter_def)
  have "map_of (sb_home (chmod_all 493 (x\<lparr>sb_home := fold touch (List.map_filter home_path ps) (sb_home x)\<rparr>))) p = Some f"
    by (rule chmod_writable[OF _ n, where mode = 466]) (use assms(1) in \<open>simp add: allow_writing_only_def allow_writing_none_def Let_def\<close>)
  from chmod_all_modes[OF this] show False using assms(2) by simp
qed

lemma allow_writing_only_simps:
  "sb_home_mode (allow_writing_only ps x) = 493" "sb_timeout (allow_writing_only ps x) = sb_timeout x"
  "sb_wallclock_timeout (allow_writing_only ps x) = sb_wallclock_timeout x" "sb_address_space (allow_writing_only ps x) = sb_address_space x"
  "sb_fsize (allow_writing_only ps x) = sb_fsize x" "sb_stdin_file (allow_writing_only ps x) = sb_stdin_file x"
  "sb_cgroup (allow_writing_only ps x) = sb_cgroup x"
  by (simp_all add: allow_writing_only_def allow_writing_none_def chmod_all_def Let_def)

lemma fold_mapped_simps:
  "sb_timeout (fold (\<lambda>(s, d, ops). add_mapped_directory s d ops) ds x) = sb_timeout x"
  "sb_wallclock_timeout (fold (\<lambda>(s, d, ops). add_mapped_directory s d ops) ds x) = sb_wallclock_timeout x"
  "sb_address_space (fold (\<lambda>(s, d, ops). add_mapped_directory s d ops) ds x) = sb_address_space x"
  "sb_fsize (fold (\<lambda>(s, d, ops). add_mapped_directory s d ops) ds x) = sb_fsize x"
  "sb_stdin_file (fold (\<lambda>(s, d, ops). add_mapped_directory s d ops) ds x) = sb_stdin_file x"
  "sb_cgroup (fold (\<lambda>(s, d, ops). add_mapped_directory s d ops) ds x) = sb_cgroup x"
  by (induction ds arbitrary: x) (auto simp: add_mapped_directory_def)

lemmas evaluation_sandbox_simps = evaluation_sandbox_def Let_def set_multiprocess_def allow_writing_only_simps fold_mapped_simps

lemma in_opt [simp]: "y \<in> set (opt f x) \<longleftrightarrow> (\<exists>v. x = Some v \<and> y = f v)"
  by (auto simp: opt_def split: option.splits)

text \<open>The files that a program may write: those of the settings, and its two outputs.\<close>

definition may_write :: "evaluation_settings \<Rightarrow> string set" where
  "may_write e = {p. \<exists>q\<in>set (se_writable_files e @ [''stderr.txt'', case se_stdout_redirect e of None \<Rightarrow> ''stdout.txt'' | Some p \<Rightarrow> p]). home_path q = Some p}"


definition example_box_host :: "(unit, unit) host_scheme" where
  "example_box_host = \<lparr>h_world = (), h_cacher = \<lparr>fc_shared = False, fc_temp = True, fc_dir = [], fc_backend = Null_Backend\<rparr>,
     h_next_id = 1, h_boxes = [new_box (pf_of example_grader) 40 ''/box'']\<rparr>"

definition example_settings :: evaluation_settings where
  "example_settings = \<lparr>se_time_limit = Some 2, se_memory_limit = Some 268435456, se_dirs_map = [], se_writable_files = [''output.txt''],
     se_stdin_redirect = Some ''input.txt'', se_stdout_redirect = None, se_multiprocess = False\<rparr>"


end
