(* ===== verification/Match_Outcomes.thy ===== *)
theory Match_Outcomes
  imports Worker PvP_Service
begin

text \<open>
  What a worker reports of a match and what the PvP service reads: \<open>match\<close> of \<^verbatim>\<open>cms/grading/tasktypes/PvP.py\<close> with
  \<open>extract_outcome_and_text\<close> of \<^verbatim>\<open>cms/grading/steps/trusted.py\<close> at one end, \<open>match_ended\<close> of \<^verbatim>\<open>cms/service/PvPService.py\<close> at the
  other. The one splits the outcome at blanks, the other at white space.
\<close>

section \<open>Numbers are words\<close>

lemma strip_word: "\<forall>c\<in>set w. \<not> is_space c \<Longrightarrow> strip w = w"
proof -
  assume w: "\<forall>c\<in>set w. \<not> is_space c"
  have "lstrip v = v" if "\<forall>c\<in>set v. \<not> is_space c" for v using that by (cases v) (simp_all add: lstrip_def)
  then show "strip w = w" using w by (simp add: strip_def)
qed

lemma is_digit_not_space: "is_digit c \<Longrightarrow> \<not> is_space c"
  by (auto simp: is_digit_def is_space_def)

lemma digits_not_space: "c \<in> set (takeWhile is_digit s) \<Longrightarrow> \<not> is_space c"
  using set_takeWhileD is_digit_not_space by fastforce

lemma read_sign_not_space:
  "read_sign s = (neg, u) \<Longrightarrow> \<forall>c\<in>set u. \<not> is_space c \<Longrightarrow> \<forall>c\<in>set s. \<not> is_space c"
  by (auto simp: read_sign_def is_space_def split: list.splits if_splits)

lemma read_exponent_not_space: "read_exponent s = Some e \<Longrightarrow> \<forall>c\<in>set s. \<not> is_space c"
proof (cases s)
  case (Cons c cs)
  assume e: "read_exponent s = Some e"
  obtain neg ds where r: "read_sign cs = (neg, ds)" by fastforce
  have "c = CHR ''e'' \<or> c = CHR ''E''" "list_all is_digit ds" using e Cons r by (auto simp: read_exponent_def split: if_splits)
  then have "\<not> is_space c" "\<forall>d\<in>set ds. \<not> is_space d" using is_digit_not_space by (auto simp: is_space_def list_all_iff)
  then show ?thesis using read_sign_not_space[OF r] Cons by simp
qed simp

lemma py_float_word:
  assumes "py_float s = Inr r"
  shows "strip s \<noteq> [] \<and> (\<forall>c\<in>set (strip s). \<not> is_space c)"
proof -
  obtain neg u where u: "read_sign (strip s) = (neg, u)" by fastforce
  let ?r1 = "dropWhile is_digit u"
  obtain fs r2 where fs: "(case ?r1 of [] \<Rightarrow> ([], ?r1) | c # r \<Rightarrow> if c = CHR ''.'' then (takeWhile is_digit r, dropWhile is_digit r) else ([], ?r1)) = (fs, r2)"
    by fastforce
  have n: "u \<noteq> []" and e: "\<exists>e. read_exponent r2 = Some e"
    using assms u fs by (auto simp: py_float_def Let_def split: if_splits option.splits)
  have r2: "\<forall>c\<in>set r2. \<not> is_space c" using e read_exponent_not_space by blast
  have "\<forall>c\<in>set ?r1. \<not> is_space c"
  proof (cases ?r1)
    case (Cons c r)
    have "set r = set (takeWhile is_digit r) \<union> set (dropWhile is_digit r)" by (metis set_append takeWhile_dropWhile_id)
    moreover have "\<not> is_space (CHR ''.'')" by (simp add: is_space_def)
    ultimately show ?thesis using fs r2 Cons digits_not_space by (cases "c = CHR ''.''") auto
  next
    case Nil
    show ?thesis unfolding Nil by simp
  qed
  then have "\<forall>c\<in>set u. \<not> is_space c" using digits_not_space by (metis UnE set_append takeWhile_dropWhile_id)
  then show ?thesis using read_sign_not_space[OF u] u n by (auto simp: read_sign_def)
qed

lemma split_on_append: "sp c \<Longrightarrow> split_on sp (a @ c # b) = split_on sp a @ split_on sp b"
proof (induction sp a rule: split_on.induct)
  case (1 sp a)
  show ?case
  proof (cases "dropWhile sp a")
    case Nil
    then have all: "\<forall>x\<in>set a. sp x" by (simp add: dropWhile_eq_Nil_conv)
    have skip: "split_on sp (xs @ ys) = split_on sp ys" if "\<forall>x\<in>set xs. sp x" for xs ys using that by (induction xs) simp_all
    have "split_on sp a = []" using skip[OF all, of "[]"] by simp
    then show ?thesis using skip[OF all] 1(2) by simp
  next
    case (Cons d ds)
    let ?rest = "dropWhile (\<lambda>x. \<not> sp x) ds"
    have "d \<in> set a" "\<not> sp d" using Cons set_dropWhileD[of d sp a] hd_dropWhile[of sp a] by simp_all
    then have "dropWhile sp (a @ c # b) = d # ds @ c # b" using Cons by (simp add: dropWhile_append1)
    moreover have "takeWhile (\<lambda>x. \<not> sp x) (ds @ c # b) = takeWhile (\<lambda>x. \<not> sp x) ds"
      using 1(2) by (induction ds) auto
    moreover have "split_on sp (dropWhile (\<lambda>x. \<not> sp x) (ds @ c # b)) = split_on sp ?rest @ split_on sp b"
    proof (cases "?rest")
      case Nil
      then have "dropWhile (\<lambda>x. \<not> sp x) (ds @ c # b) = c # b" using 1(2) by (induction ds) (auto split: if_splits)
      then show ?thesis unfolding Nil using 1(2) by simp
    next
      case (Cons x xs)
      then have "dropWhile (\<lambda>x. \<not> sp x) (ds @ c # b) = ?rest @ c # b" by (induction ds) (auto split: if_splits)
      then show ?thesis using 1(1)[OF \<open>dropWhile sp a = d # ds\<close>] 1(2) by simp
    qed
    ultimately show ?thesis using Cons by (subst (1 2) split_on.simps) simp
  qed
qed

lemma split_on_strip: "strip s \<noteq> [] \<Longrightarrow> \<forall>c\<in>set (strip s). \<not> is_space c \<Longrightarrow> split_on is_space s = [strip s]"
proof -
  assume w: "strip s \<noteq> []" "\<forall>c\<in>set (strip s). \<not> is_space c"
  have skip: "split_on is_space (xs @ ys) = split_on is_space ys" if "\<forall>x\<in>set xs. is_space x" for xs ys using that by (induction xs) simp_all
  let ?t = "lstrip s" and ?p = "takeWhile is_space s" and ?q = "rev (takeWhile is_space (rev (lstrip s)))"
  have "s = ?p @ strip s @ ?q"
  proof -
    have "?t = strip s @ ?q" unfolding strip_def lstrip_def[of "rev _"] by (metis rev_append rev_rev_ident takeWhile_dropWhile_id)
    then show ?thesis by (metis lstrip_def takeWhile_dropWhile_id)
  qed
  moreover have "\<forall>x\<in>set ?p. is_space x" "\<forall>x\<in>set ?q. is_space x" by (auto dest: set_takeWhileD)
  moreover have "split_on is_space (strip s @ ?q) = strip s # split_on is_space ?q"
    using w calculation(3) by (intro split_on_word) (cases ?q; auto)+
  moreover have "split_on is_space ?q = []" using skip[of ?q "[]"] calculation(3) by simp
  ultimately show ?thesis by (metis skip)
qed

lemma split_byte_two: "split_byte c s = [a, b] \<Longrightarrow> s = a @ c # b"
proof (induction s arbitrary: a)
  case (Cons x s)
  show ?case
  proof (cases "x = c")
    case True
    then have "a = []" "split_byte c s = [b]" using Cons.prems by simp_all
    moreover have "split_byte c s = [b] \<Longrightarrow> s = b" for s b
      by (induction s arbitrary: b) (auto split: if_splits simp: split_byte_shape[THEN conjunct1], metis list.exhaust_sel split_byte_shape)
    ultimately show ?thesis using True by simp
  next
    case False
    then obtain a' where "a = x # a'" "split_byte c s = [a', b]"
      using Cons.prems split_byte_shape[of c s] by (cases "split_byte c s") auto
    then show ?thesis using Cons.IH by simp
  qed
qed simp

lemma outcome_pair_words:
  assumes "is_outcome_pair x"
  shows "\<exists>v w r1 r2. split_ws x = [v, w] \<and> py_float v = Inr r1 \<and> py_float w = Inr r2 \<and> strip v = v \<and> strip w = w"
proof -
  obtain a b where ab: "split_byte (CHR '' '') x = [a, b]"
    using assms by (auto simp: is_outcome_pair_def length_Suc_conv numeral_2_eq_2)
  obtain r1 r2 where r: "py_float a = Inr r1" "py_float b = Inr r2"
    using assms ab by (auto simp: is_outcome_pair_def split: sum.splits)
  have "split_ws x = [strip a, strip b]"
    using split_byte_two[OF ab] split_on_append[of is_space "CHR '' ''" a b] split_on_strip py_float_word[OF r(1)] py_float_word[OF r(2)]
    by (simp add: split_ws_def is_space_def)
  moreover have "strip (strip a) = strip a" "strip (strip b) = strip b" using strip_word py_float_word[OF r(1)] py_float_word[OF r(2)] by blast+
  moreover have "py_float (strip a) = Inr r1" "py_float (strip b) = Inr r2" using calculation(2,3) r by (simp_all add: py_float_def)
  ultimately show ?thesis by blast
qed

section \<open>The outcome of a match\<close>

lemma fixed_outcomes: "is_outcome_pair ''0.5 0.5''" "is_outcome_pair ''1.0 0.0''" "is_outcome_pair ''0.0 1.0''" "is_outcome_pair ''1.0 1.0''"
  by (simp_all add: is_outcome_pair_def py_float_def strip_def lstrip_def is_space_def read_sign_def is_digit_def read_exponent_def nat_of_digits_def)

lemma match_outcome_pair:
  assumes "snd (match_outcome success only_execution vs m g) = Inr (x, t)" "success"
  shows "\<exists>y. x = Some y \<and> is_outcome_pair y"
  using assms fixed_outcomes
  by (auto simp: match_outcome_def match_failure_def extract_pvp_outcome_and_text_def stm_simps res_bind_Inr_iff split: if_splits sum.splits prod.splits)

definition readable :: "job_message \<Rightarrow> bool" where
  "readable j \<longleftrightarrow> (\<forall>e ls xs fs. jm_kind j = Matching e ls xs fs \<longrightarrow> jm_success j = JBool True \<longrightarrow> (\<exists>x. ef_outcome e = JString x \<and> is_outcome_pair x))"

interpretation readable: job_invariant readable
  by unfold_locales (auto simp: readable_def upd_fields_def set_compilation_def split: job_kind.splits)

lemma readable_fill_result:
  "(success \<Longrightarrow> \<exists>x. outcome = JString x \<and> is_outcome_pair x) \<Longrightarrow> preserves (job_prop readable) (fill_result gr success outcome t pl)"
  unfolding fill_result_def by (intro keeps_upd_job) (auto simp: readable_def upd_fields_def split: job_kind.splits)

lemma preserves_sbind_value:
  "preserves I m \<Longrightarrow> (\<And>s x. snd (m s) = Inr x \<Longrightarrow> preserves I (f x)) \<Longrightarrow> preserves I (sbind m f)"
  unfolding preserves_def by (auto simp: sbind_run split: prod.split sum.split) (metis fst_conv snd_conv)+

lemma readable_match_end:
  "preserves (job_prop readable) (sbind (match_outcome success only_execution vs m) (\<lambda>(outcome, t).
     sthen (manager_output gr m) (sthen (fill_result gr success (json_option JString outcome) t pl) (sforeach bs (\<lambda>b. delete_sandbox gr b success k)))))"
proof (rule preserves_sbind_value)
  fix g x
  assume "snd (match_outcome success only_execution vs m g) = Inr x"
  moreover obtain outcome t where "x = (outcome, t)" by fastforce
  ultimately have "success \<Longrightarrow> \<exists>y. json_option JString outcome = JString y \<and> is_outcome_pair y"
    using match_outcome_pair by (fastforce simp: json_option_def)
  then show "preserves (job_prop readable) (case x of (outcome, t) \<Rightarrow>
      sthen (manager_output gr m) (sthen (fill_result gr success (json_option JString outcome) t pl) (sforeach bs (\<lambda>b. delete_sandbox gr b success k))))"
    using \<open>x = (outcome, t)\<close> by (auto intro!: preserves_rules readable_fill_result)
qed (intro preserves_rules)

lemma readable_pvp_match: "preserves (job_prop readable) (pvp_match gr stub fifos)"
  unfolding pvp_match_def by (intro readable_match_end preserves_rules)

lemma readable_match_job: "preserves (job_prop readable) (match_job gr t)"
  by (cases t) (simp_all add: readable_pvp_match preserves_rules)

lemma readable_work:
  assumes "jm_kind (g_job g) = Matching e ls xs fs" "readable (g_job g)"
  shows "readable (g_job (fst (work gr fake g)))"
proof (cases fake)
  case None
  have m: "readable (g_job (fst (execute_job gr t g)))" for t
    using preservesD[OF readable_match_job, of g gr t] assms by (simp add: execute_job_def get_job_def stm_simps)
  have f: "readable (set_plus pl (j\<lparr>jm_success := JBool False\<rparr>))" for pl j
    by (auto simp: readable_def set_plus_def split: job_kind.splits)
  show ?thesis using None m assms(2)
    by (auto simp: work_def get_job_def stm_simps stry_def upd_job_def f split: prod.splits sum.splits) (metis fst_conv)+
next
  case (Some t)
  then show ?thesis using assms fixed_outcomes by (simp add: work_def fake_work_def Let_def upd_job_def stm_simps readable_def)
qed

text \<open>(C40) Whatever happens to the job of a match in a worker (programs and managers that fail, errors in the configuration, a
  false outcome, an exception): if the job comes back as successful, its outcome is a text that the PvP service, which splits it at white space and not at
  blanks, reads as exactly two numbers, so reading it raises nothing.\<close>

theorem match_results_can_be_read:
  assumes "jm_kind (g_job g) = Matching e ls xs fs" and "job_ok (g_job g)" and "jm_success (g_job g) = json_value.JNull"
    and "work gr fake g = (g', r)" and "jm_success (g_job g') = JBool True"
  shows "\<exists>e' x r1 r2. jm_kind (g_job g') = Matching e' ls xs fs \<and> ef_outcome e' = JString x \<and> length (split_ws x) = 2 \<and>
    outcome_at (split_ws x) 0 = Inr r1 \<and> outcome_at (split_ws x) 1 = Inr r2"
proof -
  have "answering (job_request (g_job g)) g'"
    using preservesD[OF answering_work[of "job_request (g_job g)" gr fake], of g] assms(2,4) by (simp add: answers_def)
  then have "job_request (g_job g') = job_request (g_job g)" by (simp add: answers_def)
  then have "jm_kind (job_request (g_job g')) = Matching (blank e) ls xs fs" using assms(1) by (simp add: job_request_def)
  then obtain e' where k: "jm_kind (g_job g') = Matching e' ls xs fs" by (auto simp: job_request_def split: job_kind.splits)
  have "readable (g_job g')" using readable_work[OF assms(1), of gr fake] assms(3,4) by (simp add: readable_def)
  then obtain x where x: "ef_outcome e' = JString x" "is_outcome_pair x" using k assms(5) by (auto simp: readable_def)
  obtain v w r1 r2 where o: "split_ws x = [v, w]" "py_float v = Inr r1" "py_float w = Inr r2" "strip v = v" "strip w = w"
    using outcome_pair_words[OF x(2)] by blast
  have "outcome_at (split_ws x) 0 = Inr r1" "outcome_at (split_ws x) 1 = Inr r2" using o by (simp_all add: outcome_at_def)
  then show ?thesis using k x(1) o(1) by (intro exI[of _ e'] exI[of _ x] exI[of _ r1] exI[of _ r2]) simp
qed

definition example_match_job :: "unit grading" where
  "example_match_job = host.extend (wk_host example_worker) \<lparr>g_job = example_compilation\<lparr>jm_files := [], jm_kind := Matching
     \<lparr>ef_input = JString ''d1'', ef_output = JString ''d2'', ef_time_limit = JFloat 1, ef_memory_limit = json_value.JNull, ef_outcome = json_value.JNull,
      ef_user_output = json_value.JNull, ef_plus = json_value.JNull, ef_only_execution = JBool False, ef_get_output = JBool False\<rparr> (JList []) [] []\<rparr>\<rparr>"

theorem match_results_can_be_read_witness:
  "\<exists>e x r1 r2. jm_kind (g_job (fst (work example_grader (Some 1) example_match_job))) = Matching e (JList []) [] [] \<and> ef_outcome e = JString x \<and>
     outcome_at (split_ws x) 0 = Inr r1 \<and> outcome_at (split_ws x) 1 = Inr r2"
proof -
  obtain e where k: "jm_kind (g_job example_match_job) = Matching e (JList []) [] []"
    and ok: "job_ok (g_job example_match_job)" and n: "jm_success (g_job example_match_job) = json_value.JNull"
    by (simp add: example_match_job_def host.defs example_compilation_def job_ok_def)
  obtain g' r where w: "work example_grader (Some 1) example_match_job = (g', r)" by fastforce
  then have "g' = fst (work example_grader (Some 1) example_match_job)" by simp
  then have s: "jm_success (g_job g') = JBool True" by (simp add: work_def fake_work_def Let_def upd_job_def stm_simps)
  from match_results_can_be_read[OF k ok n w s] w show ?thesis by auto
qed

end
