(* ===== verification/Spec2Isabelle.thy ===== *)
theory Spec2Isabelle
  imports Triggered_Service Evaluation_Service PvP_Service Scoring_Service Contest_Phases Tokens
    Submission_Workflow White_Diff Ranking_Views Proxy_Sync Event_Source Confinement Match_Outcomes
begin

text \<open>
  Verification library for CMS, the contest management system, with its PvP extension.

  \<^bold>\<open>The program.\<close> CMS is a set of services around one database. Contestants submit through the contest web
  server (\<^verbatim>\<open>cms/server/contest\<close>), which checks the phase of the contest, the limits and the
  files, and stores the submission. The evaluation service compiles and
  evaluates submissions, user tests and PvP matches: it keeps a queue of operations, gives batches of them as jobs to
  workers and writes the results that come back. A worker executes a job by its task type, which puts files from the file storage into
  sandboxes, runs compilers, programs and checkers there, and makes a verdict of what the sandbox reports. The scoring service computes scores from
  evaluations; the PvP service plays rounds of matches between the submissions of a task
  and turns ratings into scores. All three are triggered services: they act when notified and
  look for missed work in periodic sweeps of the database. So is the proxy service, which sends scores to the ranking web servers
  (\<^verbatim>\<open>cmsranking\<close>); each of these keeps its own stores of entities and shows the ranking.

  \<^bold>\<open>Conventions\<close> (\<open>Prelude\<close>). An exception is a value \<open>Inl e\<close> of \<open>'a res\<close>; stateful code is of type \<open>('s, 'a) stm\<close>, a
  function from the state to the state and a result, where the state changes made before an exception stay. A dict is
  an association list in insertion order. Dates are microseconds. Floats are real numbers. A call that
  would suspend its greenlet is the value \<open>Blocked\<close>, and a method that
  switches greenlets in the middle is split there into steps, so that interleavings are sequences of steps.
  Collections of rules (\<open>stm_simps\<close>, \<open>dict_simps\<close>, \<open>preserves_rules\<close>, \<open>avoids_rules\<close>) carry the proofs about
  this monad.

  \<^bold>\<open>Queues and services.\<close>
  \<^item> \<open>Binary_Heap\<close>, \<open>Queue_Interface\<close>, \<open>Priority_Queue\<close>: \<^verbatim>\<open>cms/io/priorityqueue.py\<close>. The sift loops repair a heap with one
    defect; every operation keeps heap, reverse lookup and event in agreement; the queue refines a finite map from items to
    keys whose \<open>pop\<close> extracts the least. The locales \<open>min_queue\<close> and \<open>keyed_queue\<close> state what clients need of it.
  \<^item> \<open>Triggered_Service\<close>: \<^verbatim>\<open>cms/io/triggeredservice.py\<close>. The batch loop is unfolded with fuel; as many
    rounds as the queue has entries are enough.
  \<^item> \<open>Flushing_Dict\<close>: \<^verbatim>\<open>cms/service/flushingdict.py\<close>, with the flush split around its callback.
  \<^item> \<open>Worker_Pool\<close>: \<^verbatim>\<open>cms/service/workerpool.py\<close>, all methods; the invariant relates the four dictionaries per
    worker to the reverse lookup.

  \<^bold>\<open>Evaluation.\<close>
  \<^item> \<open>Contest_Db\<close>: rows and queries of \<^verbatim>\<open>cms/db\<close>. The SQL filters are shown to agree with the Python predicates.
  \<^item> \<open>ES_Operations\<close>: \<^verbatim>\<open>cms/service/esoperations.py\<close>. What the sweeper finds by SQL is what the generator yields object
    by object.
  \<^item> \<open>Evaluation_Executor\<close>, \<open>Evaluation_Service\<close>: \<^verbatim>\<open>cms/service/EvaluationService.py\<close> with the parts of
    \<^verbatim>\<open>cms/grading/Job.py\<close> that write outcomes. An operation is in at most one place (queue, extracted batch, worker, result
    cache) in every reachable state. \<open>submission_enqueue_operations\<close> and \<open>evaluation_ended\<close> call each other; the
    depth is the recursion limit of Python, and it is shown to be bounded by the results waiting to be written.

  \<^bold>\<open>Scores.\<close>
  \<^item> \<open>Python_Text\<close>, \<open>Score_Types\<close>: \<^verbatim>\<open>cms/grading/scoretypes\<close>. The locale \<open>group_score_type\<close> states what the shared
    implementation needs of \<open>reduce\<close> and \<open>get_public_outcome\<close>; the three group types interpret it.
  \<^item> \<open>Task_Score\<close>: \<^verbatim>\<open>cms/grading/scoring.py\<close>, the three score modes against their declarative definitions.
  \<^item> \<open>Scoring_Service\<close>: \<^verbatim>\<open>cms/service/ScoringService.py\<close>, \<^verbatim>\<open>scoringoperations.py\<close>; a sweep gets everything scored, first
    solvers are announced once.
  \<^item> \<open>White_Diff\<close>: \<^verbatim>\<open>cms/grading/steps/whitediff.py\<close>, the comparison of outputs against equality of lines of words.

  \<^bold>\<open>PvP.\<close>
  \<^item> \<open>Elo\<close>, \<open>PvP_Pairing\<close>, \<open>PvP_Service\<close>: \<^verbatim>\<open>cms/service/PvPService.py\<close>, \<^verbatim>\<open>pvpoperations.py\<close>. Ratings, pairing, and the life of a
    batch of rounds with the commit and rollback of its sessions; random choices are arguments.

  \<^bold>\<open>Contestants.\<close>
  \<^item> \<open>Contest_Phases\<close>, \<open>Tokens\<close>, \<open>Submission_Workflow\<close>: \<^verbatim>\<open>cms/server/contest/phase_management.py\<close>, \<^verbatim>\<open>tokening.py\<close>,
    \<^verbatim>\<open>submission/\<close>. Phases are intervals that contain the time asked for; tokens and
    submissions that are accepted keep all limits.

  \<^bold>\<open>Ranking.\<close>
  \<^item> \<open>Ranking_Score\<close>: classes \<open>NumberSet\<close> and \<open>Score\<close> of \<^verbatim>\<open>cmsranking/Scoring.py\<close>. A score object is the replay of its changes in
    order of time, whatever the order of arrival.
  \<^item> \<open>Ranking_Entities\<close>: the entity classes and their JSON form.
  \<^item> \<open>Ranking_Server\<close>: \<^verbatim>\<open>Store.py\<close>, class \<open>ScoringStore\<close>, and the store requests of \<^verbatim>\<open>RankingWebServer.py\<close>. The recursion of
    \<open>delete\<close> follows the chain of dependent stores; its bound \<open>store_rank\<close> is the length of that chain.
  \<^item> \<open>Ranking_Callbacks\<close>, \<open>Ranking_Integrity\<close>, \<open>Ranking_Requests\<close>, \<open>Ranking_Runs\<close>: every callback keeps score objects in
    agreement with the stores; deletion, creation, update and merging keep the references between
    entities; from this, what holds after any sequence of requests, deletions, restarts and disk failures.
  \<^item> \<open>Ranking_Views\<close>: the pages made from the scores. The global history, a merge of the histories through a priority queue, has every
    change once, in order of time.
  \<^item> \<open>Proxy_Text\<close>, \<open>Proxy_Service\<close>: \<^verbatim>\<open>cms/service/ProxyService.py\<close>, with \<open>handle_put_list\<close> of the ranking server at the other end of its
    requests. \<open>Proxy_Delivery\<close>, \<open>Proxy_Sync\<close>: what the service enqueues for a contest is a batch that the ranking
    server accepts as a whole, so an empty ranking is brought up to date; a batch that does not get through is lost.

  \<^item> \<open>Event_Source\<close>: \<^verbatim>\<open>cmscommon/eventsource.py\<close>, the stream by which the pages follow the ranking. The reader at the other end is the one of
    the W3C recommendation; it sees the events published after the last one it knows, once and in order.

  \<^bold>\<open>Communication.\<close>
  \<^item> \<open>Rpc\<close>: \<^verbatim>\<open>cms/io/rpc.py\<close>. Client, server and the two byte streams between them form a system of steps; a result is the
    answer to the call it belongs to, in whatever order the ends act and the bytes arrive.
  \<^item> \<open>Job_Messages\<close>: \<^verbatim>\<open>cms/grading/Job.py\<close>. Jobs are built from operations, sent as dictionaries and rebuilt by the worker without loss.

  \<^bold>\<open>Workers.\<close>
  \<^item> \<open>File_Cacher\<close>: \<^verbatim>\<open>cms/db/filecacher.py\<close>. The locales \<open>file_backend\<close> and \<open>durable_backend\<close> state what the cache needs of a backend;
    the database and the directory interpret both, the choice between the three backends the first. Storing a file is split where it yields, and the
    services of a machine share one cache directory; what can be read is always a whole file with its digest.
  \<^item> \<open>Sandbox\<close>: classes \<open>SandboxBase\<close> and \<open>IsolateSandbox\<close> of \<^verbatim>\<open>cms/grading/Sandbox.py\<close>: files and their permissions, the options of
    \<open>isolate\<close>, execution, and the reading of its logs. A \<open>platform\<close> is what the code takes from the machine: the programs that run, and the
    configuration.
  \<^item> \<open>Grading_Steps\<close>: \<^verbatim>\<open>cms/grading/steps\<close>, the steps that set up a sandbox, run commands and judge them.
  \<^item> \<open>Task_Types\<close>: \<^verbatim>\<open>cms/grading/tasktypes\<close> and \<^verbatim>\<open>ParameterTypes.py\<close>: parameters, compilation, evaluation and matches.
  \<^item> \<open>Languages\<close>, \<open>Confinement\<close>: \<^verbatim>\<open>cms/grading/language.py\<close>, \<^verbatim>\<open>languagemanager.py\<close>, \<^verbatim>\<open>languages\<close>: the commands of each language, and what
    \<open>isolate\<close> is told when they run.
  \<^item> \<open>Worker\<close>: \<^verbatim>\<open>cms/service/Worker.py\<close>. Each operation on sandboxes and each step keeps every property of a job, and the locale
    \<open>job_invariant\<close> states what a property needs to be kept by the task types as well. It is interpreted by what a job asks for,
    so a worker that answers, answers for the jobs it got, and in \<open>Match_Outcomes\<close> by what the PvP service needs of an outcome.

  \<^bold>\<open>Simplifications.\<close> Sessions of one service see each other's writes at once, except in the PvP service,
  where commit and rollback are explicit. New ids are one more than the largest. Remote calls do not raise and are recorded. Random choices,
  shuffles, regular expressions, number formatting and, for submissions, the storing of files are parameters. A program that a sandbox
  starts without waiting runs when it is waited for; text is its UTF-8 bytes. The text of
  announcements and logs is not kept.

  \<^bold>\<open>Not modelled.\<close> The program \<open>isolate\<close>, which is not part of the repository; \<open>StupidSandbox\<close>, large objects of the
  database, named pipes and the opening of sockets, which are calls of the operating system. The administration web server and the handlers of the
  contest web server are forms and pages over the ORM. Loaders, importers, exporters and the task
  environment convert file formats. The object-relational mapping, logging, configuration and translations are support
  code. The tests are not part of the program.
\<close>

end
